(* ===== verification/Ntf_Prelude.thy ===== *)
theory Ntf_Prelude
  imports Main "HOL-Library.Word" "HOL-Library.Monad_Syntax"
begin

section \<open>Shared vocabulary of the model\<close>

text \<open>
  This theory holds what the component theories share: the machine integers of the C++ code,
  the encoding of a failed assertion, the run of a list of operations, and the interface of a
  component whose operations never fail an assertion while its invariant holds.

  \<^item> A \<open>BSLS_ASSERT\<close> of the source is a branch of the model: an operation that contains
    assertions returns an option, and \<^term>\<open>None\<close> is the failed assertion (the process aborts).
    An access outside the bounds of an array and the dereference of a null pointer are
    \<^term>\<open>None\<close> as well: execution leaves the defined behaviour of the program there.
  \<^item> Sizes of data held in memory (\<open>bsl::size_t\<close>) are natural numbers; integers whose
    wrap-around the code relies on, or could be hurt by, are words of their width.
  \<^item> An operation that modifies an object takes the object and returns it updated; an output
    parameter of the source is a further component of the result.
\<close>

type_synonym u8 = "8 word"
type_synonym u16 = "16 word"
type_synonym u32 = "32 word"
type_synonym u64 = "64 word"

named_theorems ntf_defs \<open>definitions of the setters and accessors of the value types\<close>

text \<open>The error codes of \<open>ntsa::Error\<close>; \<open>E_OK\<close> is the absence of an error.\<close>

datatype ntsa_error =
    E_OK
  | E_UNKNOWN
  | E_WOULD_BLOCK
  | E_INTERRUPTED
  | E_PENDING
  | E_CANCELLED
  | E_INVALID
  | E_EOF
  | E_LIMIT
  | E_ADDRESS_IN_USE
  | E_CONNECTION_TIMEOUT
  | E_CONNECTION_REFUSED
  | E_CONNECTION_RESET
  | E_CONNECTION_DEAD
  | E_UNREACHABLE
  | E_NOT_AUTHORIZED
  | E_NOT_IMPLEMENTED
  | E_NOT_OPEN
  | E_NOT_SOCKET

text \<open>References to objects whose inside the model does not need.\<close>

type_synonym timer_ref = nat
type_synonym callback_ref = nat
type_synonym endpoint_ref = nat
type_synonym handle = int

subsection \<open>Assertions\<close>

definition bsls_assert :: "bool \<Rightarrow> unit option" where
  "bsls_assert b = (if b then Some () else None)"

lemma bsls_assert_simps [simp]:
  "bsls_assert True = Some ()"
  "bsls_assert False = None"
  by (simp_all add: bsls_assert_def)

lemma bind_bsls_assert [simp]:
  "Option.bind (bsls_assert b) f = (if b then f () else None)"
  by (simp add: bsls_assert_def)

lemma bind_eq_Some_iff:
  "Option.bind m f = Some y \<longleftrightarrow> (\<exists>x. m = Some x \<and> f x = Some y)"
  by (cases m) auto

subsection \<open>Runs of operations\<close>

text \<open>
  A client of a component issues a list of operations. \<open>run_steps\<close> performs them in order and
  stops at the first failed assertion.
\<close>

fun run_steps :: "('op \<Rightarrow> 's \<Rightarrow> 's option) \<Rightarrow> 'op list \<Rightarrow> 's \<Rightarrow> 's option" where
  "run_steps step [] s = Some s"
| "run_steps step (x # xs) s = Option.bind (step x s) (run_steps step xs)"

lemma run_steps_append:
  "run_steps step (xs @ ys) s = Option.bind (run_steps step xs s) (run_steps step ys)"
  by (induction xs arbitrary: s) (auto split: Option.bind_split)

text \<open>
  Some operations have a precondition that the caller owes; \<open>permitted\<close> states it, and
  \<open>all_permitted\<close> says that it holds at every operation of a run that is issued. It says nothing of
  whether an operation succeeds: if one fails, no later operation is issued, and that none fails is what the theorems
  about runs conclude.
\<close>

fun all_permitted ::
  "('op \<Rightarrow> 's \<Rightarrow> bool) \<Rightarrow> ('op \<Rightarrow> 's \<Rightarrow> 's option) \<Rightarrow> 'op list \<Rightarrow> 's \<Rightarrow> bool" where
  "all_permitted permitted step [] s = True"
| "all_permitted permitted step (x # xs) s =
     (permitted x s \<and>
      (case step x s of None \<Rightarrow> True | Some t \<Rightarrow> all_permitted permitted step xs t))"

lemma all_permitted_mono:
  "all_permitted p step xs s \<Longrightarrow> (\<And>x s. p x s \<Longrightarrow> p' x s) \<Longrightarrow> all_permitted p' step xs s"
  by (induction xs arbitrary: s) (auto split: option.splits)

lemma all_permitted_both:
  "all_permitted p step xs s \<Longrightarrow> all_permitted q step xs s \<Longrightarrow> all_permitted (\<lambda>x s. p x s \<and> q x s) step xs s"
  by (induction xs arbitrary: s) (auto split: option.splits)

lemma all_permitted_list: "list_all q xs \<Longrightarrow> all_permitted (\<lambda>x s. q x) step xs s"
  by (induction xs arbitrary: s) (auto split: option.splits)

text \<open>
  The contract of a component with an invariant: the fresh object satisfies it, and every
  operation the caller is permitted to issue succeeds (no assertion fails) and preserves it.
\<close>

locale guarded_component =
  fixes init :: 's
    and permitted :: "'op \<Rightarrow> 's \<Rightarrow> bool"
    and step :: "'op \<Rightarrow> 's \<Rightarrow> 's option"
    and inv :: "'s \<Rightarrow> bool"
  assumes inv_init: "inv init"
    and step_inv: "inv s \<Longrightarrow> permitted x s \<Longrightarrow> \<exists>t. step x s = Some t \<and> inv t"
begin

lemma run_inv:
  "inv s \<Longrightarrow> all_permitted permitted step xs s \<Longrightarrow> \<exists>t. run_steps step xs s = Some t \<and> inv t"
proof (induction xs arbitrary: s)
  case Nil
  then show ?case by simp
next
  case (Cons x xs)
  then obtain t where t: "step x s = Some t" "inv t"
    using step_inv by fastforce
  with Cons show ?case by simp
qed

lemma run_init:
  "all_permitted permitted step xs init \<Longrightarrow> \<exists>t. run_steps step xs init = Some t \<and> inv t"
  using run_inv inv_init by blast

lemma run_result_inv:
  "inv s \<Longrightarrow> all_permitted permitted step xs s \<Longrightarrow> run_steps step xs s = Some t \<Longrightarrow> inv t"
  using run_inv by fastforce

end

text \<open>Where every operation is permitted in every state, every run succeeds.\<close>

locale total_component =
  fixes init :: 's
    and step :: "'op \<Rightarrow> 's \<Rightarrow> 's option"
    and inv :: "'s \<Rightarrow> bool"
  assumes total_init: "inv init"
    and total_step: "inv s \<Longrightarrow> \<exists>t. step x s = Some t \<and> inv t"

sublocale total_component \<subseteq> guarded_component init "\<lambda>_ _. True" step inv
  by unfold_locales (auto simp: total_init total_step)

context total_component
begin

lemma all_permitted_True:
  "inv s \<Longrightarrow> all_permitted (\<lambda>_ _. True) step xs s"
proof (induction xs arbitrary: s)
  case Nil
  then show ?case by simp
next
  case (Cons x xs)
  then obtain t where "step x s = Some t" "inv t"
    using total_step by blast
  with Cons.IH show ?case by simp
qed

lemma run_total: "inv s \<Longrightarrow> \<exists>t. run_steps step xs s = Some t \<and> inv t"
  using run_inv all_permitted_True by blast

end

end
