(* ===== verification/Socket_State.thy ===== *)
theory Socket_State
  imports Ntf_Prelude
begin

section \<open>The open state and the detachment state of a socket\<close>

text \<open>
  This theory models \<open>ntcs::OpenState\<close> (\<open>ntcs_openstate.h\<close>/\<open>.cpp\<close>) and \<open>ntcs::DetachState\<close>
  (\<open>ntcs_detachstate.h\<close>): two small state variables that guard the operations of every socket.
\<close>

datatype OpenState = e_DEFAULT | e_WAITING | e_CONNECTING | e_CONNECTED | e_CLOSED

record open_state =
  os_value :: OpenState

definition OpenState_init :: open_state where
  "OpenState_init = \<lparr>os_value = e_DEFAULT\<rparr>"

definition OpenState_set :: "OpenState \<Rightarrow> open_state \<Rightarrow> open_state" where
  [ntf_defs]: "OpenState_set v s = s\<lparr>os_value := v\<rparr>"

definition OpenState_canBind :: "open_state \<Rightarrow> bool" where
  [ntf_defs]: "OpenState_canBind s = (os_value s = e_DEFAULT)"

definition OpenState_canConnect :: "open_state \<Rightarrow> bool" where
  [ntf_defs]: "OpenState_canConnect s = (os_value s = e_DEFAULT)"

definition OpenState_canSend :: "open_state \<Rightarrow> bool" where
  [ntf_defs]: "OpenState_canSend s = (os_value s = e_CONNECTED)"

definition OpenState_canReceive :: "open_state \<Rightarrow> bool" where
  [ntf_defs]: "OpenState_canReceive s = (os_value s = e_CONNECTED \<or> os_value s = e_CLOSED)"

definition OpenState_is :: "OpenState \<Rightarrow> open_state \<Rightarrow> bool" where
  [ntf_defs]: "OpenState_is v s = (os_value s = v)"

definition OpenState_isEither :: "OpenState \<Rightarrow> OpenState \<Rightarrow> open_state \<Rightarrow> bool" where
  [ntf_defs]: "OpenState_isEither v w s = (os_value s = v \<or> os_value s = w)"

definition OpenState_isNot :: "OpenState \<Rightarrow> open_state \<Rightarrow> bool" where
  [ntf_defs]: "OpenState_isNot v s = (os_value s \<noteq> v)"

definition OpenState_isNotEither :: "OpenState \<Rightarrow> OpenState \<Rightarrow> open_state \<Rightarrow> bool" where
  [ntf_defs]: "OpenState_isNotEither v w s = (os_value s \<noteq> v \<and> os_value s \<noteq> w)"

fun OpenState_toString :: "OpenState \<Rightarrow> string" where
  "OpenState_toString e_DEFAULT = ''DEFAULT''"
| "OpenState_toString e_WAITING = ''WAITING''"
| "OpenState_toString e_CONNECTING = ''CONNECTING''"
| "OpenState_toString e_CONNECTED = ''CONNECTED''"
| "OpenState_toString e_CLOSED = ''CLOSED''"

datatype DetachMode = e_IDLE | e_INITIATED

datatype DetachGoal = e_CLOSE | e_EXPORT

record DetachState =
  ds_mode :: DetachMode
  ds_goal :: DetachGoal

definition DetachState_init :: DetachState where
  "DetachState_init = \<lparr>ds_mode = e_IDLE, ds_goal = e_CLOSE\<rparr>"

definition DetachState_setMode :: "DetachMode \<Rightarrow> DetachState \<Rightarrow> DetachState" where
  [ntf_defs]: "DetachState_setMode m s = s\<lparr>ds_mode := m\<rparr>"

definition DetachState_setGoal :: "DetachGoal \<Rightarrow> DetachState \<Rightarrow> DetachState" where
  [ntf_defs]: "DetachState_setGoal g s = s\<lparr>ds_goal := g\<rparr>"

lemma OpenState_toString_inject [simp]:
  "OpenState_toString a = OpenState_toString b \<longleftrightarrow> a = b"
  by (cases a; cases b) simp_all

lemma OpenState_canSend_canReceive:
  "OpenState_canSend s \<Longrightarrow> OpenState_canReceive s"
  by (simp add: ntf_defs)

end
