(* ===== verification/Flow_Control.thy ===== *)
theory Flow_Control
  imports Ntf_Prelude
begin

section \<open>Flow control of a socket\<close>

text \<open>
  This theory models \<open>ntcs::FlowControlContext\<close> (\<open>ntcs_flowcontrolcontext.h\<close>/\<open>.cpp\<close>) and
  \<open>ntcs::FlowControlState\<close> (\<open>ntcs_flowcontrolstate.h\<close>/\<open>.cpp\<close>): whether a socket wants to send
  and to receive, which of the two the user has locked, and whether flow control is closed.
\<close>

datatype FlowControlType = e_SEND | e_RECEIVE | e_BOTH

record FlowControlContext =
  enableSend :: bool
  enableReceive :: bool

definition FlowControlContext_init :: FlowControlContext where
  "FlowControlContext_init = \<lparr>enableSend = False, enableReceive = False\<rparr>"

definition FlowControlContext_reset :: "FlowControlContext \<Rightarrow> FlowControlContext" where
  "FlowControlContext_reset c = c\<lparr>enableSend := False, enableReceive := False\<rparr>"

definition setEnableSend :: "bool \<Rightarrow> FlowControlContext \<Rightarrow> FlowControlContext" where
  [ntf_defs]: "setEnableSend v c = c\<lparr>enableSend := v\<rparr>"

definition setEnableReceive :: "bool \<Rightarrow> FlowControlContext \<Rightarrow> FlowControlContext" where
  [ntf_defs]: "setEnableReceive v c = c\<lparr>enableReceive := v\<rparr>"

definition FlowControlContext_equals :: "FlowControlContext \<Rightarrow> FlowControlContext \<Rightarrow> bool" where
  "FlowControlContext_equals a b \<longleftrightarrow>
     enableSend a = enableSend b \<and> enableReceive a = enableReceive b"

definition FlowControlContext_less :: "FlowControlContext \<Rightarrow> FlowControlContext \<Rightarrow> bool" where
  "FlowControlContext_less a b =
     (if enableSend a < enableSend b then True
      else if enableSend b < enableSend a then False
      else enableReceive a < enableReceive b)"

lemma FlowControlContext_reset_init [simp]:
  "FlowControlContext_reset c = FlowControlContext_init"
  by (cases c) (simp add: FlowControlContext_reset_def FlowControlContext_init_def)

subsection \<open>ntcs::FlowControlState\<close>

record FlowControlState =
  d_enableSend :: bool
  d_enableReceive :: bool
  d_lockSend :: bool
  d_lockReceive :: bool
  d_closed :: bool

definition FlowControlState_init :: FlowControlState where
  "FlowControlState_init =
     \<lparr>d_enableSend = False, d_enableReceive = False, d_lockSend = False,
      d_lockReceive = False, d_closed = False\<rparr>"

text \<open>The \<open>switch\<close> on the type, the same in all three operations: (send, receive).\<close>

fun selects :: "FlowControlType \<Rightarrow> bool \<times> bool" where
  "selects e_SEND = (True, False)"
| "selects e_RECEIVE = (False, True)"
| "selects e_BOTH = (True, True)"

definition FlowControlState_apply ::
  "FlowControlContext \<Rightarrow> FlowControlType \<Rightarrow> bool \<Rightarrow> FlowControlState \<Rightarrow>
   bool \<times> FlowControlContext \<times> FlowControlState" where
  "FlowControlState_apply context type lock s =
     (let c0 = FlowControlContext_reset context in
      if d_closed s then (False, c0, s)
      else
        let (applySend, applyReceive) = selects type;
            (r1, s1) =
              (if applySend then
                 let (r, u) = (if \<not> d_lockSend s then
                                 (if d_enableSend s then (True, s\<lparr>d_enableSend := False\<rparr>)
                                  else (False, s))
                               else (False, s))
                 in (r, if lock then u\<lparr>d_lockSend := True\<rparr> else u)
               else (False, s));
            (r2, s2) =
              (if applyReceive then
                 let (r, u) = (if \<not> d_lockReceive s1 then
                                 (if d_enableReceive s1 then (True, s1\<lparr>d_enableReceive := False\<rparr>)
                                  else (r1, s1))
                               else (r1, s1))
                 in (r, if lock then u\<lparr>d_lockReceive := True\<rparr> else u)
               else (r1, s1))
        in (r2, setEnableReceive (d_enableReceive s2) (setEnableSend (d_enableSend s2) c0), s2))"

definition FlowControlState_relax ::
  "FlowControlContext \<Rightarrow> FlowControlType \<Rightarrow> bool \<Rightarrow> FlowControlState \<Rightarrow>
   bool \<times> FlowControlContext \<times> FlowControlState" where
  "FlowControlState_relax context type unlock s =
     (let c0 = FlowControlContext_reset context in
      if d_closed s then (False, c0, s)
      else
        let (relaxSend, relaxReceive) = selects type;
            (r1, s1) =
              (if relaxSend then
                 let u = (if unlock then s\<lparr>d_lockSend := False\<rparr> else s)
                 in if \<not> d_lockSend u then
                      (if \<not> d_enableSend u then (True, u\<lparr>d_enableSend := True\<rparr>)
                       else (False, u))
                    else (False, u)
               else (False, s));
            (r2, s2) =
              (if relaxReceive then
                 let u = (if unlock then s1\<lparr>d_lockReceive := False\<rparr> else s1)
                 in if \<not> d_lockReceive u then
                      (if \<not> d_enableReceive u then (True, u\<lparr>d_enableReceive := True\<rparr>)
                       else (r1, u))
                    else (r1, u)
               else (r1, s1))
        in (r2, setEnableReceive (d_enableReceive s2) (setEnableSend (d_enableSend s2) c0), s2))"

definition FlowControlState_close :: "FlowControlState \<Rightarrow> FlowControlState" where
  "FlowControlState_close s =
     s\<lparr>d_enableSend := False, d_lockSend := False, d_enableReceive := False,
       d_lockReceive := False, d_closed := True\<rparr>"

definition FlowControlState_reset :: "FlowControlState \<Rightarrow> FlowControlState" where
  "FlowControlState_reset s =
     s\<lparr>d_enableSend := False, d_enableReceive := False, d_lockSend := False,
       d_lockReceive := False, d_closed := False\<rparr>"

definition FlowControlState_rearm ::
  "FlowControlContext \<Rightarrow> FlowControlType \<Rightarrow> bool \<Rightarrow> FlowControlState \<Rightarrow>
   (bool \<times> FlowControlContext) option" where
  "FlowControlState_rearm context type oneShot s =
     (let c0 = FlowControlContext_reset context in
      if \<not> oneShot then Some (False, c0)
      else if d_closed s then Some (False, c0)
      else
        let (rearmSend, rearmReceive) = selects type in
        do { r1 \<leftarrow> (if rearmSend \<and> d_enableSend s
                    then do { bsls_assert (\<not> d_lockSend s); Some True } else Some False);
             r2 \<leftarrow> (if rearmReceive \<and> d_enableReceive s
                    then do { bsls_assert (\<not> d_lockReceive s); Some True } else Some r1);
             Some (r2, setEnableReceive (d_enableReceive s) (setEnableSend (d_enableSend s) c0)) })"

definition wantSend :: "FlowControlState \<Rightarrow> bool" where
  [ntf_defs]: "wantSend s = d_enableSend s"

definition wantReceive :: "FlowControlState \<Rightarrow> bool" where
  [ntf_defs]: "wantReceive s = d_enableReceive s"

definition lockSend :: "FlowControlState \<Rightarrow> bool" where
  [ntf_defs]: "lockSend s = d_lockSend s"

definition lockReceive :: "FlowControlState \<Rightarrow> bool" where
  [ntf_defs]: "lockReceive s = d_lockReceive s"

definition FlowControlState_closed :: "FlowControlState \<Rightarrow> bool" where
  [ntf_defs]: "FlowControlState_closed s = d_closed s"

subsection \<open>The invariant and its preservation\<close>

datatype flow_op =
    Apply FlowControlType bool
  | Relax FlowControlType bool
  | Rearm FlowControlType bool
  | CloseFlow
  | ResetFlow

fun flow_step :: "flow_op \<Rightarrow> FlowControlState \<Rightarrow> FlowControlState option" where
  "flow_step (Apply ty lck) s =
     (let (r, c, t) = FlowControlState_apply FlowControlContext_init ty lck s in Some t)"
| "flow_step (Relax ty unlck) s =
     (let (r, c, t) = FlowControlState_relax FlowControlContext_init ty unlck s in Some t)"
| "flow_step (Rearm ty oneShot) s =
     map_option (\<lambda>_. s) (FlowControlState_rearm FlowControlContext_init ty oneShot s)"
| "flow_step CloseFlow s = Some (FlowControlState_close s)"
| "flow_step ResetFlow s = Some (FlowControlState_reset s)"

text \<open>A locked direction is never enabled, and a closed state neither wants nor locks.\<close>

definition flow_inv :: "FlowControlState \<Rightarrow> bool" where
  "flow_inv s \<longleftrightarrow>
     \<not> (d_enableSend s \<and> d_lockSend s) \<and> \<not> (d_enableReceive s \<and> d_lockReceive s) \<and>
     (d_closed s \<longrightarrow>
        \<not> d_enableSend s \<and> \<not> d_lockSend s \<and> \<not> d_enableReceive s \<and> \<not> d_lockReceive s)"

lemma flow_inv_init [simp]: "flow_inv FlowControlState_init"
  by (simp add: flow_inv_def FlowControlState_init_def)

lemma flow_inv_apply:
  "flow_inv s \<Longrightarrow> FlowControlState_apply c ty lck s = (r, d, t) \<Longrightarrow> flow_inv t"
  by (cases ty)
     (auto simp: FlowControlState_apply_def flow_inv_def Let_def split: if_splits prod.splits)

lemma flow_inv_relax:
  "flow_inv s \<Longrightarrow> FlowControlState_relax c ty unlck s = (r, d, t) \<Longrightarrow> flow_inv t"
  by (cases ty)
     (auto simp: FlowControlState_relax_def flow_inv_def Let_def split: if_splits prod.splits)

lemma rearm_inv:
  assumes "flow_inv s"
  shows "FlowControlState_rearm c ty oneShot s =
    (if oneShot \<and> \<not> d_closed s
     then Some ((fst (selects ty) \<and> d_enableSend s) \<or> (snd (selects ty) \<and> d_enableReceive s),
                \<lparr>enableSend = d_enableSend s, enableReceive = d_enableReceive s\<rparr>)
     else Some (False, FlowControlContext_init))"
  using assms
  by (cases ty)
     (auto simp: FlowControlState_rearm_def flow_inv_def Let_def ntf_defs FlowControlContext_init_def)

lemma flow_inv_close [simp]: "flow_inv (FlowControlState_close s)"
  by (simp add: flow_inv_def FlowControlState_close_def)

lemma flow_inv_reset [simp]: "flow_inv (FlowControlState_reset s)"
  by (simp add: flow_inv_def FlowControlState_reset_def)

interpretation flow: total_component FlowControlState_init flow_step flow_inv
proof unfold_locales
  fix s x
  assume "flow_inv s"
  then show "\<exists>t. flow_step x s = Some t \<and> flow_inv t"
    by (cases x) (auto simp: rearm_inv split: prod.splits dest: flow_inv_apply flow_inv_relax)
qed simp

text \<open>
  Whatever sequence of operations is issued on a fresh flow control state, no
  assertion of \<open>ntcs::FlowControlState::rearm\<close> fails, a locked direction is never wanted, and
  a closed state wants neither direction and locks neither.
\<close>

theorem flow_run_safe:
  "\<exists>t. run_steps flow_step ops FlowControlState_init = Some t \<and>
       \<not> (wantSend t \<and> lockSend t) \<and> \<not> (wantReceive t \<and> lockReceive t) \<and>
       \<not> (FlowControlState_closed t \<and>
          (wantSend t \<or> wantReceive t \<or> lockSend t \<or> lockReceive t))"
proof -
  obtain t where "run_steps flow_step ops FlowControlState_init = Some t" "flow_inv t"
    using flow.run_total [OF flow_inv_init] by blast
  then show ?thesis
    by (auto simp: flow_inv_def ntf_defs)
qed

subsection \<open>The two directions are independent three-state machines\<close>

datatype flow_mode = Wanted | Unwanted | Locked

definition mode_of :: "bool \<Rightarrow> bool \<Rightarrow> flow_mode" where
  "mode_of enable lck = (if lck then Locked else if enable then Wanted else Unwanted)"

definition send_mode :: "FlowControlState \<Rightarrow> flow_mode" where
  "send_mode s = mode_of (d_enableSend s) (d_lockSend s)"

definition receive_mode :: "FlowControlState \<Rightarrow> flow_mode" where
  "receive_mode s = mode_of (d_enableReceive s) (d_lockReceive s)"

text \<open>
  Applying flow control moves a direction that is not locked to \<open>Unwanted\<close>, or to \<open>Locked\<close> if the
  lock is asked for; relaxing it moves it to \<open>Wanted\<close> unless it is locked and not unlocked.
\<close>

definition apply_mode :: "bool \<Rightarrow> flow_mode \<Rightarrow> flow_mode" where
  "apply_mode lck m = (if lck \<or> m = Locked then Locked else Unwanted)"

definition relax_mode :: "bool \<Rightarrow> flow_mode \<Rightarrow> flow_mode" where
  "relax_mode unlck m = (if m = Locked \<and> \<not> unlck then Locked else Wanted)"

definition flow_result_ok ::
  "FlowControlState \<Rightarrow> bool \<times> FlowControlContext \<times> FlowControlState \<Rightarrow> bool" where
  "flow_result_ok s res =
     (case res of (r, d, t) \<Rightarrow>
        flow_inv t \<and> d_closed t = d_closed s \<and>
        r = (wantSend t \<noteq> wantSend s \<or> wantReceive t \<noteq> wantReceive s) \<and>
        d = \<lparr>enableSend = wantSend t, enableReceive = wantReceive t\<rparr>)"

lemmas flow_mode_defs =
  mode_of_def send_mode_def receive_mode_def apply_mode_def relax_mode_def flow_result_ok_def
  flow_inv_def ntf_defs FlowControlContext_init_def

lemma flow_mode_init [simp]:
  "send_mode FlowControlState_init = Unwanted" "receive_mode FlowControlState_init = Unwanted"
  "\<not> d_closed FlowControlState_init"
  by (simp_all add: FlowControlState_init_def flow_mode_defs)

text \<open>
  On an open flow control state \<open>apply\<close> acts on each selected direction as the abstract
  three-state machine does and leaves the other direction alone; it returns true exactly when
  the wish to send or to receive has changed, and reports both wishes in the context. On a
  closed state it returns false, changes nothing and reports no wish.
\<close>

theorem apply_refines_modes:
  assumes "flow_inv s"
  shows "\<exists>r d t. FlowControlState_apply c ty lck s = (r, d, t) \<and>
     (if d_closed s then \<not> r \<and> d = FlowControlContext_init \<and> t = s
      else flow_result_ok s (r, d, t) \<and>
        send_mode t = (if ty \<in> {e_SEND, e_BOTH} then apply_mode lck (send_mode s)
                       else send_mode s) \<and>
        receive_mode t = (if ty \<in> {e_RECEIVE, e_BOTH} then apply_mode lck (receive_mode s)
                          else receive_mode s))"
  using assms
  by (cases ty) (auto simp: FlowControlState_apply_def flow_mode_defs Let_def split: prod.splits)

theorem apply_refines_modes_witness:
  "flow_inv FlowControlState_init \<and>
   (\<exists>r d t. FlowControlState_apply FlowControlContext_init e_SEND True FlowControlState_init
      = (r, d, t) \<and> send_mode t = Locked \<and> receive_mode t = Unwanted)"
  using apply_refines_modes [OF flow_inv_init, of FlowControlContext_init e_SEND True]
  by (auto simp: apply_mode_def)

text \<open>
  On an open flow control state \<open>relax\<close> acts on each selected direction as the abstract
  three-state machine does: a direction that is not locked, or is unlocked by the call, becomes
  wanted; a direction that stays locked does not change. It returns true exactly when a wish
  has changed and reports both in the context; on a closed state it does nothing.
\<close>

lemma relax_refines_modes:
  assumes "flow_inv s"
  shows "\<exists>r d t. FlowControlState_relax c ty unlck s = (r, d, t) \<and>
     (if d_closed s then \<not> r \<and> d = FlowControlContext_init \<and> t = s
      else flow_result_ok s (r, d, t) \<and>
        send_mode t = (if ty \<in> {e_SEND, e_BOTH} then relax_mode unlck (send_mode s)
                       else send_mode s) \<and>
        receive_mode t = (if ty \<in> {e_RECEIVE, e_BOTH} then relax_mode unlck (receive_mode s)
                          else receive_mode s))"
  using assms
  by (cases ty) (auto simp: FlowControlState_relax_def flow_mode_defs Let_def split: prod.splits)

lemma relax_refines_modes_witness:
  "flow_inv FlowControlState_init \<and>
   (\<exists>r d t. FlowControlState_relax FlowControlContext_init e_BOTH False FlowControlState_init
      = (r, d, t) \<and> send_mode t = Wanted \<and> receive_mode t = Wanted)"
  using relax_refines_modes [OF flow_inv_init, of FlowControlContext_init e_BOTH False]
  by (auto simp: relax_mode_def)

end
