(* ===== verification/Shutdown_State.thy ===== *)
theory Shutdown_State
  imports Ntf_Prelude
begin

section \<open>The shutdown sequence of a stream socket\<close>

text \<open>
  This theory models \<open>ntcs::ShutdownContext\<close> (\<open>ntcs_shutdowncontext.h\<close>/\<open>.cpp\<close>), the value that
  tells the caller which announcements and system calls follow a shutdown operation, and
  \<open>ntcs::ShutdownState\<close> (\<open>ntcs_shutdownstate.h\<close>/\<open>.cpp\<close>), the mechanism that decides them.
  The \<open>context\<close> output parameter of the two operations is passed in and returned.
\<close>

subsection \<open>ntsa::ShutdownOrigin and ntcs::ShutdownContext\<close>

datatype ShutdownOrigin = e_SOURCE | e_REMOTE

fun ShutdownOrigin_toInt :: "ShutdownOrigin \<Rightarrow> int" where
  "ShutdownOrigin_toInt e_SOURCE = 0"
| "ShutdownOrigin_toInt e_REMOTE = 1"

text \<open>Enumerators are compared by their values.\<close>

instantiation ShutdownOrigin :: linorder
begin

definition less_eq_ShutdownOrigin :: "ShutdownOrigin \<Rightarrow> ShutdownOrigin \<Rightarrow> bool" where
  "a \<le> b \<longleftrightarrow> ShutdownOrigin_toInt a \<le> ShutdownOrigin_toInt b"

definition less_ShutdownOrigin :: "ShutdownOrigin \<Rightarrow> ShutdownOrigin \<Rightarrow> bool" where
  "a < b \<longleftrightarrow> ShutdownOrigin_toInt a < ShutdownOrigin_toInt b"

instance
proof
  fix a b c :: ShutdownOrigin
  show "a < b \<longleftrightarrow> a \<le> b \<and> \<not> b \<le> a"
    by (auto simp: less_ShutdownOrigin_def less_eq_ShutdownOrigin_def)
  show "a \<le> a" by (simp add: less_eq_ShutdownOrigin_def)
  show "a \<le> b \<Longrightarrow> b \<le> c \<Longrightarrow> a \<le> c" by (simp add: less_eq_ShutdownOrigin_def)
  show "a \<le> b \<Longrightarrow> b \<le> a \<Longrightarrow> a = b"
    by (cases a; cases b) (simp_all add: less_eq_ShutdownOrigin_def)
  show "a \<le> b \<or> b \<le> a" by (auto simp: less_eq_ShutdownOrigin_def)
qed

end

record ShutdownContext =
  shutdownOrigin :: ShutdownOrigin
  shutdownInitiated :: bool
  shutdownSend :: bool
  shutdownReceive :: bool
  shutdownCompleted :: bool

definition ShutdownContext_init :: ShutdownContext where
  "ShutdownContext_init =
     \<lparr>shutdownOrigin = e_SOURCE, shutdownInitiated = False, shutdownSend = False,
      shutdownReceive = False, shutdownCompleted = False\<rparr>"

definition ShutdownContext_reset :: "ShutdownContext \<Rightarrow> ShutdownContext" where
  "ShutdownContext_reset c =
     c\<lparr>shutdownOrigin := e_SOURCE, shutdownInitiated := False, shutdownSend := False,
       shutdownReceive := False, shutdownCompleted := False\<rparr>"

definition setShutdownOrigin :: "ShutdownOrigin \<Rightarrow> ShutdownContext \<Rightarrow> ShutdownContext" where
  [ntf_defs]: "setShutdownOrigin v c = c\<lparr>shutdownOrigin := v\<rparr>"

definition setShutdownInitiated :: "bool \<Rightarrow> ShutdownContext \<Rightarrow> ShutdownContext" where
  [ntf_defs]: "setShutdownInitiated v c = c\<lparr>shutdownInitiated := v\<rparr>"

definition setShutdownSend :: "bool \<Rightarrow> ShutdownContext \<Rightarrow> ShutdownContext" where
  [ntf_defs]: "setShutdownSend v c = c\<lparr>shutdownSend := v\<rparr>"

definition setShutdownReceive :: "bool \<Rightarrow> ShutdownContext \<Rightarrow> ShutdownContext" where
  [ntf_defs]: "setShutdownReceive v c = c\<lparr>shutdownReceive := v\<rparr>"

definition setShutdownCompleted :: "bool \<Rightarrow> ShutdownContext \<Rightarrow> ShutdownContext" where
  [ntf_defs]: "setShutdownCompleted v c = c\<lparr>shutdownCompleted := v\<rparr>"

definition ShutdownContext_equals :: "ShutdownContext \<Rightarrow> ShutdownContext \<Rightarrow> bool" where
  "ShutdownContext_equals a b \<longleftrightarrow>
     shutdownOrigin a = shutdownOrigin b \<and>
     shutdownInitiated a = shutdownInitiated b \<and>
     shutdownSend a = shutdownSend b \<and>
     shutdownReceive a = shutdownReceive b \<and>
     shutdownCompleted a = shutdownCompleted b"

definition ShutdownContext_less :: "ShutdownContext \<Rightarrow> ShutdownContext \<Rightarrow> bool" where
  "ShutdownContext_less a b =
     (if shutdownOrigin a < shutdownOrigin b then True
      else if shutdownOrigin b < shutdownOrigin a then False
      else if shutdownInitiated a < shutdownInitiated b then True
      else if shutdownInitiated b < shutdownInitiated a then False
      else if shutdownSend a < shutdownSend b then True
      else if shutdownSend b < shutdownSend a then False
      else if shutdownReceive a < shutdownReceive b then True
      else if shutdownReceive b < shutdownReceive a then False
      else shutdownCompleted a < shutdownCompleted b)"

lemma ShutdownContext_reset_init [simp]: "ShutdownContext_reset c = ShutdownContext_init"
  by (cases c) (simp add: ShutdownContext_reset_def ShutdownContext_init_def)

lemma ShutdownContext_init_sel [simp]:
  "shutdownOrigin ShutdownContext_init = e_SOURCE"
  "\<not> shutdownInitiated ShutdownContext_init"
  "\<not> shutdownSend ShutdownContext_init"
  "\<not> shutdownReceive ShutdownContext_init"
  "\<not> shutdownCompleted ShutdownContext_init"
  by (simp_all add: ShutdownContext_init_def)

subsection \<open>ntcs::ShutdownState\<close>

record ShutdownState =
  d_context :: ShutdownContext

definition ShutdownState_init :: ShutdownState where
  "ShutdownState_init = \<lparr>d_context = ShutdownContext_init\<rparr>"

definition tryShutdownSend ::
  "ShutdownContext \<Rightarrow> bool \<Rightarrow> ShutdownState \<Rightarrow> (bool \<times> ShutdownContext \<times> ShutdownState) option"
  where
  "tryShutdownSend context keepHalfOpen s =
     (let c0 = ShutdownContext_reset context; d0 = d_context s in
      if shutdownSend d0 then Some (False, c0, s)
      else
        let c1 = setShutdownSend True c0;
            d1 = setShutdownSend True d0;
            (c2, d2) =
              (if \<not> keepHalfOpen then
                 (if \<not> shutdownReceive d1
                  then (setShutdownReceive True c1, setShutdownReceive True d1)
                  else (c1, d1))
               else (c1, d1));
            (c3, d3) =
              (if \<not> shutdownInitiated d2 then
                 (setShutdownInitiated True (setShutdownOrigin e_SOURCE c2),
                  setShutdownInitiated True (setShutdownOrigin e_SOURCE d2))
               else (c2, d2))
        in if shutdownReceive d3 \<and> \<not> shutdownCompleted d3 then
             do { bsls_assert (shutdownInitiated d3);
                  Some (True, setShutdownCompleted True c3,
                        s\<lparr>d_context := setShutdownCompleted True d3\<rparr>) }
           else Some (True, c3, s\<lparr>d_context := d3\<rparr>))"

definition tryShutdownReceive ::
  "ShutdownContext \<Rightarrow> bool \<Rightarrow> ShutdownOrigin \<Rightarrow> ShutdownState \<Rightarrow>
   (bool \<times> ShutdownContext \<times> ShutdownState) option"
  where
  "tryShutdownReceive context keepHalfOpen origin s =
     (let c0 = ShutdownContext_reset context; d0 = d_context s in
      if shutdownReceive d0 then Some (False, c0, s)
      else
        let c1 = setShutdownReceive True c0;
            d1 = setShutdownReceive True d0;
            (c2, d2) =
              (if \<not> keepHalfOpen then
                 (if \<not> shutdownSend d1
                  then (setShutdownSend True c1, setShutdownSend True d1)
                  else (c1, d1))
               else (c1, d1));
            (c3, d3) =
              (if origin = e_REMOTE \<or> \<not> keepHalfOpen then
                 (if \<not> shutdownInitiated d2 then
                    (setShutdownInitiated True (setShutdownOrigin origin c2),
                     setShutdownInitiated True (setShutdownOrigin origin d2))
                  else (c2, d2))
               else (c2, d2))
        in if shutdownSend d3 \<and> \<not> shutdownCompleted d3 then
             do { bsls_assert (shutdownInitiated d3);
                  Some (True, setShutdownCompleted True c3,
                        s\<lparr>d_context := setShutdownCompleted True d3\<rparr>) }
           else Some (True, c3, s\<lparr>d_context := d3\<rparr>))"

definition ShutdownState_close :: "ShutdownState \<Rightarrow> ShutdownState" where
  "ShutdownState_close s =
     (let d0 = d_context s;
          d1 = (if \<not> shutdownInitiated d0
                then setShutdownInitiated True (setShutdownOrigin e_SOURCE d0)
                else d0);
          d2 = setShutdownReceive True (setShutdownSend True d1)
      in s\<lparr>d_context := setShutdownCompleted True d2\<rparr>)"

definition ShutdownState_reset :: "ShutdownState \<Rightarrow> ShutdownState" where
  "ShutdownState_reset s = s\<lparr>d_context := ShutdownContext_reset (d_context s)\<rparr>"

definition ShutdownState_initiated :: "ShutdownState \<Rightarrow> bool" where
  "ShutdownState_initiated s = shutdownInitiated (d_context s)"

definition ShutdownState_canSend :: "ShutdownState \<Rightarrow> bool" where
  "ShutdownState_canSend s = (\<not> shutdownSend (d_context s))"

definition ShutdownState_canReceive :: "ShutdownState \<Rightarrow> bool" where
  "ShutdownState_canReceive s = (\<not> shutdownReceive (d_context s))"

definition ShutdownState_completed :: "ShutdownState \<Rightarrow> bool" where
  "ShutdownState_completed s = shutdownCompleted (d_context s)"

lemmas shutdown_accessors =
  ShutdownState_initiated_def ShutdownState_canSend_def ShutdownState_canReceive_def
  ShutdownState_completed_def

subsection \<open>Operations as a list of requests\<close>

text \<open>
  A user and the remote peer request shutdowns in any order; \<open>close\<close> and \<open>reset\<close> end and
  restart the sequence.
\<close>

datatype shutdown_request =
    RequestSend bool
  | RequestReceive bool ShutdownOrigin

fun try_shutdown ::
  "shutdown_request \<Rightarrow> ShutdownState \<Rightarrow> (bool \<times> ShutdownContext \<times> ShutdownState) option" where
  "try_shutdown (RequestSend k) s = tryShutdownSend ShutdownContext_init k s"
| "try_shutdown (RequestReceive k origin) s = tryShutdownReceive ShutdownContext_init k origin s"

fun run_requests ::
  "shutdown_request list \<Rightarrow> ShutdownState \<Rightarrow> (ShutdownContext list \<times> ShutdownState) option" where
  "run_requests [] s = Some ([], s)"
| "run_requests (r # rs) s =
     do { (ok, c, t) \<leftarrow> try_shutdown r s;
          (cs, u) \<leftarrow> run_requests rs t;
          Some (c # cs, u) }"

datatype shutdown_op =
    Request shutdown_request
  | Close
  | Reset

fun shutdown_step :: "shutdown_op \<Rightarrow> ShutdownState \<Rightarrow> ShutdownState option" where
  "shutdown_step (Request r) s = map_option (\<lambda>(ok, c, t). t) (try_shutdown r s)"
| "shutdown_step Close s = Some (ShutdownState_close s)"
| "shutdown_step Reset s = Some (ShutdownState_reset s)"

subsection \<open>The invariant\<close>

text \<open>
  The sequence is complete exactly when both directions are shut down, and sending is never
  shut down before the sequence has been initiated. The second part is what makes the
  assertion of the two operations hold.
\<close>

definition shutdown_inv :: "ShutdownState \<Rightarrow> bool" where
  "shutdown_inv s \<longleftrightarrow>
     (let d = d_context s in
      (shutdownCompleted d \<longleftrightarrow> shutdownSend d \<and> shutdownReceive d) \<and>
      (shutdownSend d \<longrightarrow> shutdownInitiated d))"

lemma shutdown_inv_init [simp]: "shutdown_inv ShutdownState_init"
  by (simp add: shutdown_inv_def ShutdownState_init_def)

lemma shutdown_inv_close [simp]: "shutdown_inv (ShutdownState_close s)"
  by (simp add: shutdown_inv_def ShutdownState_close_def Let_def ntf_defs)

lemma shutdown_inv_reset [simp]: "shutdown_inv (ShutdownState_reset s)"
  by (simp add: shutdown_inv_def ShutdownState_reset_def)

text \<open>What one call to \<open>tryShutdownSend\<close> does on each branch.\<close>

lemma tryShutdownSend_shut:
  "\<not> ShutdownState_canSend s \<Longrightarrow> tryShutdownSend c k s = Some (False, ShutdownContext_init, s)"
  by (simp add: tryShutdownSend_def shutdown_accessors)

lemma tryShutdownSend_open:
  assumes "shutdown_inv s" and "ShutdownState_canSend s"
  shows "tryShutdownSend c k s =
     Some (True,
       \<lparr>shutdownOrigin = e_SOURCE,
        shutdownInitiated = (\<not> ShutdownState_initiated s),
        shutdownSend = True,
        shutdownReceive = (ShutdownState_canReceive s \<and> \<not> k),
        shutdownCompleted = (\<not> (ShutdownState_canReceive s \<and> k))\<rparr>,
       \<lparr>d_context =
         \<lparr>shutdownOrigin = (if ShutdownState_initiated s then shutdownOrigin (d_context s)
                            else e_SOURCE),
          shutdownInitiated = True,
          shutdownSend = True,
          shutdownReceive = (\<not> (ShutdownState_canReceive s \<and> k)),
          shutdownCompleted = (\<not> (ShutdownState_canReceive s \<and> k))\<rparr>\<rparr>)"
  using assms
  by (cases s; cases "d_context s")
     (auto simp: tryShutdownSend_def shutdown_accessors shutdown_inv_def Let_def ntf_defs
        ShutdownContext_init_def)

lemma tryShutdownReceive_shut:
  "\<not> ShutdownState_canReceive s \<Longrightarrow>
   tryShutdownReceive c k origin s = Some (False, ShutdownContext_init, s)"
  by (simp add: tryShutdownReceive_def shutdown_accessors)

lemma tryShutdownReceive_open:
  assumes "shutdown_inv s" and "ShutdownState_canReceive s"
  shows "tryShutdownReceive c k origin s =
     (let announce = (\<not> ShutdownState_initiated s \<and> (origin = e_REMOTE \<or> \<not> k));
          done = (\<not> (ShutdownState_canSend s \<and> k)) in
      Some (True,
       \<lparr>shutdownOrigin = (if announce then origin else e_SOURCE),
        shutdownInitiated = announce,
        shutdownSend = (ShutdownState_canSend s \<and> \<not> k),
        shutdownReceive = True,
        shutdownCompleted = done\<rparr>,
       \<lparr>d_context =
         \<lparr>shutdownOrigin = (if announce then origin else shutdownOrigin (d_context s)),
          shutdownInitiated = (ShutdownState_initiated s \<or> announce),
          shutdownSend = done,
          shutdownReceive = True,
          shutdownCompleted = done\<rparr>\<rparr>))"
  using assms
  by (cases s; cases "d_context s")
     (auto simp: tryShutdownReceive_def shutdown_accessors shutdown_inv_def Let_def ntf_defs
        ShutdownContext_init_def)

lemmas try_shutdown_cases =
  tryShutdownSend_shut tryShutdownSend_open tryShutdownReceive_shut tryShutdownReceive_open

lemma try_shutdown_total:
  assumes "shutdown_inv s"
  shows "\<exists>ok c t. try_shutdown r s = Some (ok, c, t) \<and> shutdown_inv t"
proof (cases r)
  case (RequestSend k)
  with assms show ?thesis
    by (cases "ShutdownState_canSend s")
       (auto simp: tryShutdownSend_shut tryShutdownSend_open shutdown_inv_def)
next
  case (RequestReceive k origin)
  with assms show ?thesis
    by (cases "ShutdownState_canReceive s")
       (auto simp: tryShutdownReceive_shut tryShutdownReceive_open shutdown_inv_def Let_def
          shutdown_accessors)
qed

interpretation shutdown: total_component ShutdownState_init shutdown_step shutdown_inv
proof unfold_locales
  show "shutdown_inv ShutdownState_init" by simp
next
  fix s x
  assume "shutdown_inv s"
  then show "\<exists>t. shutdown_step x s = Some t \<and> shutdown_inv t"
    using try_shutdown_total by (cases x) fastforce+
qed

text \<open>
  Whatever sequence of shutdown requests, closes and resets is issued on a fresh
  shutdown state, no assertion of \<open>ntcs::ShutdownState\<close> fails, and afterwards the sequence is
  complete exactly when both directions are shut down, and sending is shut down only after
  the sequence was initiated.
\<close>

theorem shutdown_run_safe:
  "\<exists>t. run_steps shutdown_step ops ShutdownState_init = Some t \<and>
       (ShutdownState_completed t \<longleftrightarrow>
          \<not> ShutdownState_canSend t \<and> \<not> ShutdownState_canReceive t) \<and>
       (ShutdownState_canSend t \<or> ShutdownState_initiated t)"
proof -
  obtain t where "run_steps shutdown_step ops ShutdownState_init = Some t" "shutdown_inv t"
    using shutdown.run_total [OF shutdown_inv_init] by blast
  then show ?thesis
    by (auto simp: shutdown_inv_def shutdown_accessors Let_def)
qed

subsection \<open>Every announcement is made exactly once\<close>

text \<open>
  The context returned by a request carries the flags that the state gained by it, so that
  each is announced at the one request that raises it.
\<close>

definition announced_by :: "(ShutdownContext \<Rightarrow> bool) \<Rightarrow> bool" where
  "announced_by flag \<longleftrightarrow>
     (\<forall>r s ok c t. shutdown_inv s \<longrightarrow> try_shutdown r s = Some (ok, c, t) \<longrightarrow>
        (flag (d_context t) \<longleftrightarrow> flag (d_context s) \<or> flag c) \<and>
        \<not> (flag (d_context s) \<and> flag c))"

lemma try_shutdown_delta:
  assumes "shutdown_inv s" and "try_shutdown r s = Some (ok, c, t)"
    and "flag \<in> {shutdownInitiated, shutdownSend, shutdownReceive, shutdownCompleted}"
  shows "(flag (d_context t) \<longleftrightarrow> flag (d_context s) \<or> flag c) \<and> \<not> (flag (d_context s) \<and> flag c)"
proof (cases r)
  case (RequestSend k)
  with assms show ?thesis
    by (cases "ShutdownState_canSend s")
       (auto simp: try_shutdown_cases shutdown_accessors shutdown_inv_def)
next
  case (RequestReceive k origin)
  with assms show ?thesis
    by (cases "ShutdownState_canReceive s")
       (auto simp: try_shutdown_cases shutdown_accessors shutdown_inv_def Let_def)
qed

lemma announced_by_flags:
  "announced_by shutdownInitiated" "announced_by shutdownSend"
  "announced_by shutdownReceive" "announced_by shutdownCompleted"
  by (simp_all add: announced_by_def try_shutdown_delta)

lemma run_requests_count:
  assumes "announced_by flag"
  shows "shutdown_inv s \<Longrightarrow>
    \<exists>cs t. run_requests rs s = Some (cs, t) \<and> length cs = length rs \<and> shutdown_inv t \<and>
      length (filter flag cs) + of_bool (flag (d_context s)) = (of_bool (flag (d_context t)) :: nat)"
proof (induction rs arbitrary: s)
  case Nil
  then show ?case by simp
next
  case (Cons r rs)
  obtain ok c t where t: "try_shutdown r s = Some (ok, c, t)" "shutdown_inv t"
    using try_shutdown_total [OF Cons.prems] by blast
  obtain cs u where u: "run_requests rs t = Some (cs, u)" "length cs = length rs" "shutdown_inv u"
      "length (filter flag cs) + of_bool (flag (d_context t)) = (of_bool (flag (d_context u)) :: nat)"
    using Cons.IH [OF t(2)] by blast
  have "(flag (d_context t) \<longleftrightarrow> flag (d_context s) \<or> flag c) \<and> \<not> (flag (d_context s) \<and> flag c)"
    using assms Cons.prems t(1) unfolding announced_by_def by blast
  then have "length (filter flag (c # cs)) + of_bool (flag (d_context s))
      = (of_bool (flag (d_context u)) :: nat)"
    using u(4) by (cases "flag c"; cases "flag (d_context s)") simp_all
  with t u show ?case by (simp del: filter.simps)
qed

text \<open>
  Claim C21. In any sequence of shutdown requests on a fresh state, the number of requests that
  announce the initiation of the shutdown sequence, that order the socket to be shut down for
  sending, for receiving, and that announce completion, is one where the final state has that
  flag and zero where it has not. So no announcement is ever repeated and none is ever missed.
\<close>

theorem shutdown_announces_once:
  "\<exists>cs t. run_requests rs ShutdownState_init = Some (cs, t) \<and> length cs = length rs \<and>
     length (filter shutdownInitiated cs) = of_bool (ShutdownState_initiated t) \<and>
     length (filter shutdownSend cs) = of_bool (\<not> ShutdownState_canSend t) \<and>
     length (filter shutdownReceive cs) = of_bool (\<not> ShutdownState_canReceive t) \<and>
     length (filter shutdownCompleted cs) = of_bool (ShutdownState_completed t)"
proof -
  note c = run_requests_count [OF _ shutdown_inv_init, of _ rs]
  show ?thesis
    using c [OF announced_by_flags(1)] c [OF announced_by_flags(2)]
      c [OF announced_by_flags(3)] c [OF announced_by_flags(4)]
    by (fastforce simp: shutdown_accessors ShutdownState_init_def)
qed

subsection \<open>The abstract half-close protocol\<close>

text \<open>
  What a user of the socket sees: the set of directions still open. A request for one
  direction closes it, and closes the other one too unless half-open connections are kept.
\<close>

datatype direction = Sending | Receiving

definition open_directions :: "ShutdownState \<Rightarrow> direction set" where
  "open_directions s =
     (if ShutdownState_canSend s then {Sending} else {}) \<union>
     (if ShutdownState_canReceive s then {Receiving} else {})"

fun requested :: "shutdown_request \<Rightarrow> direction" where
  "requested (RequestSend k) = Sending"
| "requested (RequestReceive k origin) = Receiving"

fun keeps_half_open :: "shutdown_request \<Rightarrow> bool" where
  "keeps_half_open (RequestSend k) = k"
| "keeps_half_open (RequestReceive k origin) = k"

definition half_close :: "shutdown_request \<Rightarrow> direction set \<Rightarrow> bool \<times> direction set" where
  "half_close r ds =
     (if requested r \<in> ds then (True, if keeps_half_open r then ds - {requested r} else {})
      else (False, ds))"

text \<open>
  Each shutdown request implements the abstract half-close step on the set of open
  directions: it succeeds exactly when the requested direction is open, then removes that
  direction or, when half-open connections are not kept, both, and otherwise changes nothing.
\<close>

theorem shutdown_refines_half_close:
  assumes "shutdown_inv s"
  shows "\<exists>ok c t. try_shutdown r s = Some (ok, c, t) \<and> shutdown_inv t \<and>
           half_close r (open_directions s) = (ok, open_directions t)"
proof (cases r)
  case (RequestSend k)
  with assms show ?thesis
    by (cases "ShutdownState_canSend s")
       (auto simp: try_shutdown_cases half_close_def open_directions_def shutdown_accessors
          shutdown_inv_def)
next
  case (RequestReceive k origin)
  with assms show ?thesis
    by (cases "ShutdownState_canReceive s")
       (auto simp: try_shutdown_cases half_close_def open_directions_def shutdown_accessors
          shutdown_inv_def Let_def)
qed

theorem shutdown_refines_half_close_witness:
  "shutdown_inv ShutdownState_init \<and>
   (\<exists>ok c t. try_shutdown (RequestReceive True e_SOURCE) ShutdownState_init = Some (ok, c, t) \<and>
      shutdown_inv t \<and>
      half_close (RequestReceive True e_SOURCE) (open_directions ShutdownState_init)
        = (ok, open_directions t))"
  using shutdown_refines_half_close [OF shutdown_inv_init, of "RequestReceive True e_SOURCE"]
  by simp

end
