(* ===== verification/Buffer_Data.thy ===== *)
theory Buffer_Data
  imports Ntf_Prelude
begin

section \<open>Buffers, buffer arrays and data\<close>

text \<open>
  This theory models the parts of \<open>ntsa_buffer.h\<close> and \<open>ntsa_data.cpp\<close> that the send queue
  rests on: a buffer (\<open>ntsa::ConstBuffer\<close>, \<open>ntsa::MutableBuffer\<close>) is the byte sequence in its
  memory range, a buffer array (\<open>ntsa::ConstBufferArray\<close>, \<open>ntsa::MutableBufferArray\<close>) is a list
  of them with a cached byte count, a buffer pointer array (\<open>ntsa::ConstBufferPtrArray\<close>,
  \<open>ntsa::MutableBufferPtrArray\<close>) views an array owned by the caller through a base pointer, a
  buffer count and a byte count, and \<open>ntsa::Data\<close> is the union of the representations of data.

  Blobs (\<open>bdlbb::Blob\<close>) belong to the BDE library. What the code calls of them is a parameter:
  a record of the library's functions.
\<close>

type_synonym bytes = "u8 list"

record 'blob blob_library =
  blob_length :: "'blob \<Rightarrow> nat"
  blob_erase_front :: "'blob \<Rightarrow> nat \<Rightarrow> 'blob"
  blob_buffers :: "'blob \<Rightarrow> bytes list"
  blob_lastDataBufferLength :: "'blob \<Rightarrow> nat"

text \<open>
  \<open>blob_buffers\<close> are the first \<open>numDataBuffers()\<close> buffers of the blob, each with its whole
  capacity. The documented behaviour of \<open>bdlbb::Blob::length\<close> and \<open>bdlbb::BlobUtil::erase\<close> (from offset
  0) that the queue relies on.
\<close>

definition blob_library_ok :: "'blob blob_library \<Rightarrow> bool" where
  "blob_library_ok L \<longleftrightarrow>
     (\<forall>b n. n \<le> blob_length L b \<longrightarrow> blob_length L (blob_erase_front L b n) = blob_length L b - n)"

subsection \<open>Buffers\<close>

definition ConstBuffer_advance :: "nat \<Rightarrow> bytes \<Rightarrow> bytes" where
  "ConstBuffer_advance n b = (let offset = (if n < length b then n else length b) in drop offset b)"

definition ConstBuffer_totalSize :: "bytes list \<Rightarrow> nat" where
  "ConstBuffer_totalSize bs = fold (\<lambda>b result. result + length b) bs 0"

lemma ConstBuffer_advance_drop [simp]: "ConstBuffer_advance n b = drop n b"
  by (simp add: ConstBuffer_advance_def)

lemma fold_sizes: "fold (\<lambda>b result. result + length b) bs m = m + length (concat bs)"
  by (induction bs arbitrary: m) auto

lemma ConstBuffer_totalSize_concat [simp]: "ConstBuffer_totalSize bs = length (concat bs)"
  by (simp add: ConstBuffer_totalSize_def fold_sizes)

subsection \<open>Buffer arrays\<close>

record BufferArray =
  ba_bufferArray :: "bytes list"
  ba_numBytes :: nat

definition BufferArray_init :: BufferArray where
  "BufferArray_init = \<lparr>ba_bufferArray = [], ba_numBytes = 0\<rparr>"

definition BufferArray_clear :: "BufferArray \<Rightarrow> BufferArray" where
  "BufferArray_clear a = a\<lparr>ba_bufferArray := [], ba_numBytes := 0\<rparr>"

definition BufferArray_append :: "bytes \<Rightarrow> BufferArray \<Rightarrow> BufferArray" where
  "BufferArray_append b a =
     a\<lparr>ba_bufferArray := ba_bufferArray a @ [b], ba_numBytes := ba_numBytes a + length b\<rparr>"

fun BufferArray_append_list :: "bytes list \<Rightarrow> BufferArray \<Rightarrow> BufferArray" where
  "BufferArray_append_list [] a = a"
| "BufferArray_append_list (b # bs) a = BufferArray_append_list bs (BufferArray_append b a)"

definition BufferArray_numBuffers :: "BufferArray \<Rightarrow> nat" where
  [ntf_defs]: "BufferArray_numBuffers a = length (ba_bufferArray a)"

text \<open>The loop of \<open>pop\<close>: \<open>remaining\<close> is the source's \<open>numBytesRemaining\<close>, which it never changes.\<close>

fun BufferArray_pop_loop :: "nat \<Rightarrow> bytes list \<Rightarrow> nat \<Rightarrow> (bytes list \<times> nat) option" where
  "BufferArray_pop_loop remaining [] numBytes = Some ([], numBytes)"
| "BufferArray_pop_loop remaining (b # bs) numBytes =
     (if remaining > 0 then
        (let numBytesToPop = remaining in
         if numBytesToPop > length b then
           do { bsls_assert (numBytes \<ge> length b);
                BufferArray_pop_loop remaining bs (numBytes - length b) }
         else
           do { bsls_assert (numBytes \<ge> numBytesToPop);
                Some (ConstBuffer_advance numBytesToPop b # bs, numBytes - numBytesToPop) })
      else Some (b # bs, numBytes))"

definition ConstBufferArray_pop :: "nat \<Rightarrow> BufferArray \<Rightarrow> BufferArray option" where
  "ConstBufferArray_pop numBytes a =
     (let remaining = (if numBytes > ba_numBytes a then ba_numBytes a else numBytes) in
      do { (bs, n) \<leftarrow> BufferArray_pop_loop remaining (ba_bufferArray a) (ba_numBytes a);
           Some (a\<lparr>ba_bufferArray := bs, ba_numBytes := n\<rparr>) })"

definition MutableBufferArray_pop :: "nat \<Rightarrow> BufferArray \<Rightarrow> BufferArray option" where
  "MutableBufferArray_pop numBytes a =
     (let remaining = (if numBytes > ba_numBytes a then ba_numBytes a else numBytes) in
      do { (bs, n) \<leftarrow> BufferArray_pop_loop remaining (ba_bufferArray a) (ba_numBytes a);
           Some (a\<lparr>ba_bufferArray := bs, ba_numBytes := n\<rparr>) })"

subsection \<open>Buffer pointer arrays\<close>

text \<open>
  \<open>bp_bufferArray\<close> is what lies in the caller's array from the base pointer on; the count
  \<open>bp_numBuffers\<close> is separate, as in the code.
\<close>

record BufferPtrArray =
  bp_bufferArray :: "bytes list"
  bp_numBuffers :: nat
  bp_numBytes :: nat

definition BufferPtrArray_init :: BufferPtrArray where
  "BufferPtrArray_init = \<lparr>bp_bufferArray = [], bp_numBuffers = 0, bp_numBytes = 0\<rparr>"

definition BufferPtrArray_reset :: "BufferPtrArray \<Rightarrow> BufferPtrArray" where
  "BufferPtrArray_reset a = a\<lparr>bp_bufferArray := [], bp_numBuffers := 0, bp_numBytes := 0\<rparr>"

definition BufferPtrArray_assign :: "bytes list \<Rightarrow> BufferPtrArray \<Rightarrow> BufferPtrArray" where
  "BufferPtrArray_assign bs a =
     a\<lparr>bp_bufferArray := bs, bp_numBuffers := length bs,
       bp_numBytes := fold (\<lambda>b result. result + length b) bs 0\<rparr>"

fun BufferPtrArray_pop_loop ::
  "nat \<Rightarrow> nat \<Rightarrow> bytes list \<Rightarrow> nat \<Rightarrow> (bytes list \<times> nat) option" where
  "BufferPtrArray_pop_loop remaining numBuffers [] numBytes =
     (if remaining > 0 \<and> numBuffers \<noteq> 0 then None else Some ([], numBytes))"
| "BufferPtrArray_pop_loop remaining numBuffers (b # bs) numBytes =
     (if remaining > 0 \<and> numBuffers \<noteq> 0 then
        (let numBytesToPop = remaining in
         if numBytesToPop > length b then
           do { bsls_assert (numBytes \<ge> length b);
                BufferPtrArray_pop_loop remaining numBuffers bs (numBytes - length b) }
         else
           do { bsls_assert (numBytes \<ge> numBytesToPop);
                Some (ConstBuffer_advance numBytesToPop b # bs, numBytes - numBytesToPop) })
      else Some (b # bs, numBytes))"

definition ConstBufferPtrArray_pop :: "nat \<Rightarrow> BufferPtrArray \<Rightarrow> BufferPtrArray option" where
  "ConstBufferPtrArray_pop numBytes a =
     (let remaining = (if numBytes > bp_numBytes a then bp_numBytes a else numBytes) in
      do { (bs, n) \<leftarrow> BufferPtrArray_pop_loop remaining (bp_numBuffers a) (bp_bufferArray a)
                        (bp_numBytes a);
           Some (a\<lparr>bp_bufferArray := bs, bp_numBytes := n\<rparr>) })"

definition MutableBufferPtrArray_pop :: "nat \<Rightarrow> BufferPtrArray \<Rightarrow> BufferPtrArray option" where
  "MutableBufferPtrArray_pop numBytes a =
     (let remaining = (if numBytes > bp_numBytes a then bp_numBytes a else numBytes) in
      do { (bs, n) \<leftarrow> BufferPtrArray_pop_loop remaining (bp_numBuffers a) (bp_bufferArray a)
                        (bp_numBytes a);
           Some (a\<lparr>bp_bufferArray := bs, bp_numBytes := n\<rparr>) })"

subsection \<open>What popping from an array does\<close>

definition BufferArray_wf :: "BufferArray \<Rightarrow> bool" where
  "BufferArray_wf a \<longleftrightarrow> ba_numBytes a = length (concat (ba_bufferArray a))"

lemma BufferArray_init_fields [simp]:
  "ba_bufferArray BufferArray_init = []" "ba_numBytes BufferArray_init = 0"
  by (simp_all add: BufferArray_init_def)

lemma BufferArray_wf_init [simp]: "BufferArray_wf BufferArray_init"
  by (simp add: BufferArray_wf_def BufferArray_init_def)

lemma BufferArray_wf_append [simp]: "BufferArray_wf a \<Longrightarrow> BufferArray_wf (BufferArray_append b a)"
  by (simp add: BufferArray_wf_def BufferArray_append_def)

lemma BufferArray_append_list_buffers:
  "ba_bufferArray (BufferArray_append_list bs a) = ba_bufferArray a @ bs"
  by (induction bs arbitrary: a) (auto simp: BufferArray_append_def)

lemma BufferArray_wf_append_list [simp]:
  "BufferArray_wf a \<Longrightarrow> BufferArray_wf (BufferArray_append_list bs a)"
  by (induction bs arbitrary: a) auto

lemma ConstBufferArray_pop_front:
  assumes "BufferArray_wf a" and "ba_bufferArray a = b # bs" and "n \<le> length b"
  shows "ConstBufferArray_pop n a =
     Some (a\<lparr>ba_bufferArray := drop n b # bs, ba_numBytes := ba_numBytes a - n\<rparr>)"
  using assms by (auto simp: ConstBufferArray_pop_def BufferArray_wf_def Let_def)

lemma MutableBufferArray_pop_eq [simp]: "MutableBufferArray_pop = ConstBufferArray_pop"
  by (simp add: fun_eq_iff ConstBufferArray_pop_def MutableBufferArray_pop_def)

lemma MutableBufferPtrArray_pop_eq [simp]: "MutableBufferPtrArray_pop = ConstBufferPtrArray_pop"
  by (simp add: fun_eq_iff ConstBufferPtrArray_pop_def MutableBufferPtrArray_pop_def)

lemma pop_loop_total:
  "numBytes = length (concat bs) \<Longrightarrow>
   \<exists>cs m. BufferArray_pop_loop r bs numBytes = Some (cs, m) \<and> m = length (concat cs) \<and>
     (\<exists>k. concat cs = drop k (concat bs) \<and> min r (length (concat bs)) \<le> k \<and> k \<le> length (concat bs))"
proof (induction bs arbitrary: numBytes)
  case Nil
  then show ?case by simp
next
  case (Cons b bs)
  consider "r = 0" | "0 < r" "r \<le> length b" | "length b < r" by linarith
  then show ?case
  proof cases
    case 1
    with Cons.prems show ?thesis by (auto intro!: exI [of _ "0::nat"])
  next
    case 2
    with Cons.prems show ?thesis by (auto intro!: exI [of _ r])
  next
    case 3
    from Cons.IH [OF refl] obtain cs m k where
      r: "BufferArray_pop_loop r bs (length (concat bs)) = Some (cs, m)" "m = length (concat cs)"
        "concat cs = drop k (concat bs)" "min r (length (concat bs)) \<le> k" "k \<le> length (concat bs)"
      by blast
    show ?thesis
    proof (intro exI conjI)
      show "BufferArray_pop_loop r (b # bs) numBytes = Some (cs, m)"
        using 3 r(1) Cons.prems by simp
      show "concat cs = drop (length b + k) (concat (b # bs))"
        using r(3) by simp
    qed (use r in auto)
  qed
qed

text \<open>
  Popping bytes from a well-formed buffer array fails no assertion and keeps the cached
  byte count equal to the number of bytes held; what is left is a suffix of the old content,
  with at least the requested number of bytes removed (all of them if more were requested),
  and exactly the requested number if they lie in the first buffer.
\<close>

theorem buffer_array_pop:
  assumes "BufferArray_wf a"
  shows "\<exists>a' k. ConstBufferArray_pop n a = Some a' \<and> BufferArray_wf a' \<and>
           concat (ba_bufferArray a') = drop k (concat (ba_bufferArray a)) \<and>
           min n (ba_numBytes a) \<le> k \<and> k \<le> ba_numBytes a \<and>
           (ba_bufferArray a \<noteq> [] \<and> n \<le> length (hd (ba_bufferArray a)) \<longrightarrow> k = n)"
proof (cases "ba_bufferArray a \<noteq> [] \<and> n \<le> length (hd (ba_bufferArray a))")
  case True
  then obtain b bs where "ba_bufferArray a = b # bs" "n \<le> length b"
    by (cases "ba_bufferArray a") auto
  with assms show ?thesis
    by (auto simp: ConstBufferArray_pop_front BufferArray_wf_def intro!: exI [of _ n])
next
  case False
  have "ba_numBytes a = length (concat (ba_bufferArray a))"
    using assms by (simp add: BufferArray_wf_def)
  from pop_loop_total [OF this, of "min n (ba_numBytes a)"] obtain cs k where
    r: "BufferArray_pop_loop (min n (ba_numBytes a)) (ba_bufferArray a) (ba_numBytes a)
          = Some (cs, length (concat cs))"
      "concat cs = drop k (concat (ba_bufferArray a))"
      "min n (ba_numBytes a) \<le> k" "k \<le> ba_numBytes a"
    using \<open>ba_numBytes a = _\<close> by auto
  have "(if n > ba_numBytes a then ba_numBytes a else n) = min n (ba_numBytes a)"
    by simp
  then have "ConstBufferArray_pop n a
      = Some (a\<lparr>ba_bufferArray := cs, ba_numBytes := length (concat cs)\<rparr>)"
    by (simp only: ConstBufferArray_pop_def Let_def r(1)) simp
  then show ?thesis
    using r(2-4) False
    by (intro exI [of _ "a\<lparr>ba_bufferArray := cs, ba_numBytes := length (concat cs)\<rparr>"]
          exI [of _ k]) (auto simp: BufferArray_wf_def)
qed

definition sample_array :: BufferArray where
  "sample_array = BufferArray_append_list [[1, 2, 3], [4, 5, 6, 7, 8, 9]] BufferArray_init"

lemma sample_array_wf: "BufferArray_wf sample_array"
  by (simp add: sample_array_def)

lemma sample_array_buffers: "ba_bufferArray sample_array = [[1, 2, 3], [4, 5, 6, 7, 8, 9]]"
  by (simp add: sample_array_def BufferArray_append_def BufferArray_init_def)

theorem buffer_array_pop_witness:
  "BufferArray_wf sample_array \<and>
   (\<exists>a'. ConstBufferArray_pop 2 sample_array = Some a' \<and>
      concat (ba_bufferArray a') = [3, 4, 5, 6, 7, 8, 9])"
  using buffer_array_pop [OF sample_array_wf, of 2] sample_array_wf
  by (auto simp: sample_array_buffers)

text \<open>
  Popping across the end of the first buffer removes too much: the loop never
  decreases \<open>numBytesRemaining\<close>, so when the requested bytes exceed the first buffer and fit in
  the second, the whole request is taken from the second buffer again, and the bytes of the
  first buffer are lost on top of it.
\<close>

theorem buffer_array_pop_overpops:
  assumes "BufferArray_wf a" and "ba_bufferArray a = b0 # b1 # bs"
    and "length b0 < n" and "n \<le> length b1"
  shows "\<exists>a'. ConstBufferArray_pop n a = Some a' \<and>
           concat (ba_bufferArray a') = drop (length b0 + n) (concat (ba_bufferArray a)) \<and>
           ba_numBytes a' = ba_numBytes a - n - length b0"
  using assms by (auto simp: ConstBufferArray_pop_def BufferArray_wf_def Let_def)

theorem buffer_array_pop_overpops_witness:
  "BufferArray_wf sample_array \<and>
   (\<exists>a'. ConstBufferArray_pop 5 sample_array = Some a' \<and>
      concat (ba_bufferArray a') = [9] \<and> drop 5 (concat (ba_bufferArray sample_array)) = [6, 7, 8, 9])"
  using buffer_array_pop_overpops [OF sample_array_wf sample_array_buffers, of 5] sample_array_wf
  by (auto simp: sample_array_buffers)

lemma ptr_pop_loop_runs_out:
  "\<forall>b \<in> set bs. length b < r \<Longrightarrow> 0 < k \<Longrightarrow> 0 < r \<Longrightarrow> numBytes = length (concat bs) \<Longrightarrow>
   BufferPtrArray_pop_loop r k bs numBytes = None"
  by (induction bs arbitrary: numBytes) auto

text \<open>
  Popping from a buffer pointer array reads past the end of the caller's array
  whenever every buffer is shorter than the number of bytes requested: the loop advances the
  base pointer without decreasing the number of buffers or the number of bytes remaining.
\<close>

theorem buffer_ptr_array_pop_out_of_bounds:
  assumes "\<forall>b \<in> set bs. length b < n" and "n \<le> length (concat bs)" and "bs \<noteq> []"
  shows "ConstBufferPtrArray_pop n (BufferPtrArray_assign bs BufferPtrArray_init) = None"
  using assms
  by (cases n)
     (auto simp: ConstBufferPtrArray_pop_def BufferPtrArray_assign_def BufferPtrArray_init_def
        fold_sizes ptr_pop_loop_runs_out)

theorem buffer_ptr_array_pop_out_of_bounds_witness:
  "ConstBufferPtrArray_pop 4 (BufferPtrArray_assign [[1, 2, 3], [4, 5, 6]] BufferPtrArray_init) = None"
  by (rule buffer_ptr_array_pop_out_of_bounds) simp_all

subsection \<open>ntsa::Data\<close>

record File =
  file_position :: int
  file_bytesRemaining :: int

datatype 'blob Data =
    Undefined
  | BlobBuffer bytes
  | ConstBuffer bytes
  | ConstBufferArray BufferArray
  | ConstBufferPtrArray BufferPtrArray
  | MutableBuffer bytes
  | MutableBufferArray BufferArray
  | MutableBufferPtrArray BufferPtrArray
  | Blob 'blob
  | SharedBlob "'blob option"
  | String bytes
  | FileData File

fun isFile :: "'blob Data \<Rightarrow> bool" where
  "isFile (FileData f) = True"
| "isFile _ = False"

text \<open>\<open>Data::size\<close>: a shared blob is dereferenced without a check.\<close>

fun Data_size :: "'blob blob_library \<Rightarrow> 'blob Data \<Rightarrow> nat option" where
  "Data_size L Undefined = Some 0"
| "Data_size L (BlobBuffer b) = Some (length b)"
| "Data_size L (ConstBuffer b) = Some (length b)"
| "Data_size L (ConstBufferArray a) = Some (ba_numBytes a)"
| "Data_size L (ConstBufferPtrArray a) = Some (bp_numBytes a)"
| "Data_size L (MutableBuffer b) = Some (length b)"
| "Data_size L (MutableBufferArray a) = Some (ba_numBytes a)"
| "Data_size L (MutableBufferPtrArray a) = Some (bp_numBytes a)"
| "Data_size L (Blob b) = Some (blob_length L b)"
| "Data_size L (SharedBlob None) = None"
| "Data_size L (SharedBlob (Some b)) = Some (blob_length L b)"
| "Data_size L (String b) = Some (length b)"
| "Data_size L (FileData f) = Some (nat (file_bytesRemaining f mod 2 ^ 64))"

text \<open>The conversion of an unsigned to a signed 64-bit integer.\<close>

definition to_offset :: "nat \<Rightarrow> int" where
  "to_offset n = (int n + 2 ^ 63) mod 2 ^ 64 - 2 ^ 63"

definition popBlobBuffer :: "bytes \<Rightarrow> nat \<Rightarrow> bytes" where
  "popBlobBuffer b numBytes = (let n = (if numBytes > length b then length b else numBytes) in drop n b)"

definition popBlob :: "'blob blob_library \<Rightarrow> 'blob \<Rightarrow> nat \<Rightarrow> 'blob" where
  "popBlob L b numBytes =
     (let n = (if numBytes > blob_length L b then blob_length L b else numBytes)
      in blob_erase_front L b n)"

definition popString :: "bytes \<Rightarrow> nat \<Rightarrow> bytes" where
  "popString b numBytes = (let n = (if numBytes > length b then length b else numBytes) in drop n b)"

definition popFile :: "File \<Rightarrow> nat \<Rightarrow> File" where
  "popFile f numBytes =
     (let m = to_offset numBytes;
          n = (if m > file_bytesRemaining f then file_bytesRemaining f else m)
      in f\<lparr>file_position := file_position f + n, file_bytesRemaining := file_bytesRemaining f - n\<rparr>)"

fun DataUtil_pop :: "'blob blob_library \<Rightarrow> 'blob Data \<Rightarrow> nat \<Rightarrow> 'blob Data option" where
  "DataUtil_pop L Undefined n = Some Undefined"
| "DataUtil_pop L (BlobBuffer b) n = Some (BlobBuffer (popBlobBuffer b n))"
| "DataUtil_pop L (ConstBuffer b) n = Some (ConstBuffer (ConstBuffer_advance n b))"
| "DataUtil_pop L (ConstBufferArray a) n = map_option ConstBufferArray (ConstBufferArray_pop n a)"
| "DataUtil_pop L (ConstBufferPtrArray a) n =
     map_option ConstBufferPtrArray (ConstBufferPtrArray_pop n a)"
| "DataUtil_pop L (MutableBuffer b) n = Some (MutableBuffer (ConstBuffer_advance n b))"
| "DataUtil_pop L (MutableBufferArray a) n =
     map_option MutableBufferArray (MutableBufferArray_pop n a)"
| "DataUtil_pop L (MutableBufferPtrArray a) n =
     map_option MutableBufferPtrArray (MutableBufferPtrArray_pop n a)"
| "DataUtil_pop L (Blob b) n = Some (Blob (popBlob L b n))"
| "DataUtil_pop L (SharedBlob None) n = None"
| "DataUtil_pop L (SharedBlob (Some b)) n = Some (SharedBlob (Some (popBlob L b n)))"
| "DataUtil_pop L (String b) n = Some (String (popString b n))"
| "DataUtil_pop L (FileData f) n = Some (FileData (popFile f n))"

text \<open>
  The representations from which any number of leading bytes can be removed: all of them but
  the arrays, from which only bytes of the first buffer can (see above), and the undefined
  data, which has none.
\<close>

fun poppable :: "nat \<Rightarrow> 'blob Data \<Rightarrow> bool" where
  "poppable n Undefined = (n = 0)"
| "poppable n (ConstBufferArray a) =
     (BufferArray_wf a \<and> (n = 0 \<or> ba_bufferArray a \<noteq> [] \<and> n \<le> length (hd (ba_bufferArray a))))"
| "poppable n (MutableBufferArray a) =
     (BufferArray_wf a \<and> (n = 0 \<or> ba_bufferArray a \<noteq> [] \<and> n \<le> length (hd (ba_bufferArray a))))"
| "poppable n (ConstBufferPtrArray a) =
     (bp_numBytes a = length (concat (bp_bufferArray a)) \<and>
      (n = 0 \<or> bp_bufferArray a \<noteq> [] \<and> n \<le> length (hd (bp_bufferArray a)) \<and> 0 < bp_numBuffers a))"
| "poppable n (MutableBufferPtrArray a) =
     (bp_numBytes a = length (concat (bp_bufferArray a)) \<and>
      (n = 0 \<or> bp_bufferArray a \<noteq> [] \<and> n \<le> length (hd (bp_bufferArray a)) \<and> 0 < bp_numBuffers a))"
| "poppable n (FileData f) = (0 \<le> file_bytesRemaining f \<and> file_bytesRemaining f < 2 ^ 63)"
| "poppable n (SharedBlob None) = False"
| "poppable n _ = True"

lemma array_pop_size:
  assumes "BufferArray_wf a"
    and "n = 0 \<or> ba_bufferArray a \<noteq> [] \<and> n \<le> length (hd (ba_bufferArray a))"
  shows "\<exists>a'. ConstBufferArray_pop n a = Some a' \<and> ba_numBytes a' = ba_numBytes a - n"
proof (cases "ba_bufferArray a")
  case Nil
  with assms show ?thesis by (auto simp: ConstBufferArray_pop_def)
next
  case (Cons b bs)
  with assms show ?thesis by (auto simp: ConstBufferArray_pop_front)
qed

lemma ptr_array_pop_size:
  assumes "bp_numBytes a = length (concat (bp_bufferArray a))"
    and "n = 0 \<or> bp_bufferArray a \<noteq> [] \<and> n \<le> length (hd (bp_bufferArray a)) \<and> 0 < bp_numBuffers a"
  shows "\<exists>a'. ConstBufferPtrArray_pop n a = Some a' \<and> bp_numBytes a' = bp_numBytes a - n"
  using assms
  by (cases "bp_bufferArray a") (auto simp: ConstBufferPtrArray_pop_def Let_def)

lemma to_offset_small: "int n < 2 ^ 63 \<Longrightarrow> to_offset n = int n"
  by (simp add: to_offset_def)

lemma DataUtil_pop_size:
  assumes "blob_library_ok L" and "poppable n d" and "Data_size L d = Some m" and "n \<le> m"
  shows "\<exists>d'. DataUtil_pop L d n = Some d' \<and> Data_size L d' = Some (m - n)"
proof (cases d)
  case (FileData f)
  then have f: "0 \<le> file_bytesRemaining f" "file_bytesRemaining f < 2 ^ 63"
      "m = nat (file_bytesRemaining f)"
    using assms by auto
  then have "to_offset n = int n" "int n \<le> file_bytesRemaining f"
    using assms(4) by (auto intro!: to_offset_small)
  with f FileData show ?thesis
    using assms(4) by (auto simp: popFile_def Let_def nat_diff_distrib)
next
  case (SharedBlob b)
  with assms show ?thesis
    by (cases b) (auto simp: popBlob_def blob_library_ok_def Let_def)
qed (use assms array_pop_size ptr_array_pop_size in
      \<open>fastforce simp: popBlobBuffer_def popString_def popBlob_def blob_library_ok_def Let_def\<close>)+

end
