(* ===== verification/Queue_Contract.thy ===== *)
theory Queue_Contract
  imports Ntf_Prelude "HOL-Library.Multiset" "HOL-Library.Sublist"
begin

section \<open>Watermarks and the contracts of the queues\<close>

text \<open>
  This theory models \<open>ntcs::WatermarkUtil\<close> (\<open>ntcs_watermarkutil.h\<close>) and states, as locales, the
  contracts that the queues of \<open>ntcq\<close> share: a queue with a cached size, a watermark event
  gated by an edge trigger, and a queue of callbacks. The theories of the send, receive and
  accept queue interpret them on their definitions.
\<close>

datatype ReactorEventTrigger = e_LEVEL | e_EDGE

subsection \<open>ntcs::WatermarkUtil\<close>

text \<open>The two watermarks are passed in and returned as the pair (low, high).\<close>

definition sanitizeIncomingQueueWatermarks :: "nat \<times> nat \<Rightarrow> nat \<times> nat" where
  "sanitizeIncomingQueueWatermarks w =
     (let (low, high) = w;
          low = (if low = 0 then 1 else low);
          high = (if high < low then low else high)
      in (low, high))"

definition sanitizeOutgoingQueueWatermarks :: "nat \<times> nat \<Rightarrow> nat \<times> nat" where
  "sanitizeOutgoingQueueWatermarks w =
     (let (low, high) = w;
          high = (if high = 0 then 1 else high);
          low = (if low \<ge> high then high - 1 else low)
      in (low, high))"

definition isIncomingQueueLowWatermarkSatisfied :: "nat \<Rightarrow> nat \<Rightarrow> bool" where
  [ntf_defs]: "isIncomingQueueLowWatermarkSatisfied queueSize low \<longleftrightarrow> queueSize \<ge> low"

definition isIncomingQueueHighWatermarkViolated :: "nat \<Rightarrow> nat \<Rightarrow> bool" where
  [ntf_defs]: "isIncomingQueueHighWatermarkViolated queueSize high \<longleftrightarrow> queueSize \<ge> high"

definition isOutgoingQueueLowWatermarkSatisfied :: "nat \<Rightarrow> nat \<Rightarrow> bool" where
  [ntf_defs]: "isOutgoingQueueLowWatermarkSatisfied queueSize low \<longleftrightarrow> queueSize \<le> low"

definition isOutgoingQueueHighWatermarkViolated :: "nat \<Rightarrow> nat \<Rightarrow> bool" where
  [ntf_defs]: "isOutgoingQueueHighWatermarkViolated queueSize high \<longleftrightarrow> queueSize \<ge> high"

lemma sanitizeIncoming_bounds:
  "sanitizeIncomingQueueWatermarks w = (low, high) \<Longrightarrow> 1 \<le> low \<and> low \<le> high"
  by (auto simp: sanitizeIncomingQueueWatermarks_def Let_def split: prod.splits if_splits)

lemma sanitizeOutgoing_bounds:
  "sanitizeOutgoingQueueWatermarks w = (low, high) \<Longrightarrow> low < high"
  by (auto simp: sanitizeOutgoingQueueWatermarks_def Let_def split: prod.splits if_splits)

lemma sanitizeIncoming_id: "1 \<le> low \<Longrightarrow> low \<le> high \<Longrightarrow> sanitizeIncomingQueueWatermarks (low, high) = (low, high)"
  by (simp add: sanitizeIncomingQueueWatermarks_def)

lemma sanitizeOutgoing_id: "low < high \<Longrightarrow> sanitizeOutgoingQueueWatermarks (low, high) = (low, high)"
  by (simp add: sanitizeOutgoingQueueWatermarks_def)

subsection \<open>A queue with a cached size\<close>

datatype 'e queue_op = PushOp 'e | PopOp

text \<open>
  The specification is a list of entries: a push tells whether the queue became non-empty, a
  pop whether it became empty; a pop of the empty queue is outside the contract.
\<close>

fun fifo_step :: "'e queue_op \<Rightarrow> 'e list \<Rightarrow> (bool \<times> 'e list) option" where
  "fifo_step (PushOp e) es = Some (es = [], es @ [e])"
| "fifo_step PopOp [] = None"
| "fifo_step PopOp (e # es) = Some (es = [], es)"

fun run_flags :: "('op \<Rightarrow> 's \<Rightarrow> (bool \<times> 's) option) \<Rightarrow> 'op list \<Rightarrow> 's \<Rightarrow> (bool list \<times> 's) option" where
  "run_flags step [] s = Some ([], s)"
| "run_flags step (x # xs) s =
     do { (b, t) \<leftarrow> step x s; (bs, u) \<leftarrow> run_flags step xs t; Some (b # bs, u) }"

fun queue_step ::
  "('e \<Rightarrow> 'q \<Rightarrow> (bool \<times> 'q) option) \<Rightarrow> ('q \<Rightarrow> (bool \<times> 'q) option) \<Rightarrow>
   'e queue_op \<Rightarrow> 'q \<Rightarrow> (bool \<times> 'q) option" where
  "queue_step push pop (PushOp e) q = push e q"
| "queue_step push pop PopOp q = pop q"

locale sized_queue =
  fixes entries :: "'q \<Rightarrow> 'e list"
    and qsize :: "'q \<Rightarrow> nat"
    and weight :: "'e \<Rightarrow> nat"
    and acceptable :: "'e \<Rightarrow> bool"
    and inv :: "'q \<Rightarrow> bool"
    and push :: "'e \<Rightarrow> 'q \<Rightarrow> (bool \<times> 'q) option"
    and pop :: "'q \<Rightarrow> (bool \<times> 'q) option"
  assumes size_entries: "inv q \<Longrightarrow> qsize q = sum_list (map weight (entries q))"
    and push_law: "inv q \<Longrightarrow> acceptable e \<Longrightarrow>
          \<exists>q'. push e q = Some (entries q = [], q') \<and> inv q' \<and> entries q' = entries q @ [e]"
    and pop_law: "inv q \<Longrightarrow> entries q = e # es \<Longrightarrow>
          \<exists>q'. pop q = Some (es = [], q') \<and> inv q' \<and> entries q' = es"
    and pop_empty: "inv q \<Longrightarrow> entries q = [] \<Longrightarrow> pop q = None"
begin

lemma step_simulates:
  assumes "inv q" and "\<forall>e. x = PushOp e \<longrightarrow> acceptable e"
  shows "case fifo_step x (entries q) of
           None \<Rightarrow> queue_step push pop x q = None
         | Some (b, es) \<Rightarrow> \<exists>q'. queue_step push pop x q = Some (b, q') \<and> inv q' \<and> entries q' = es"
proof (cases x)
  case (PushOp e)
  with assms push_law [of q e] show ?thesis by simp
next
  case PopOp
  with assms pop_law [of q] pop_empty [of q] show ?thesis by (cases "entries q") auto
qed

text \<open>Every run of pushes and pops refines the run of the list specification.\<close>

lemma run_simulates:
  assumes "inv q" and "\<forall>e. PushOp e \<in> set xs \<longrightarrow> acceptable e"
    and "run_flags fifo_step xs (entries q) = Some (bs, es)"
  shows "\<exists>q'. run_flags (queue_step push pop) xs q = Some (bs, q') \<and> inv q' \<and> entries q' = es \<and>
           qsize q' = sum_list (map weight es)"
  using assms
proof (induction xs arbitrary: q bs)
  case Nil
  then show ?case by (auto simp: size_entries)
next
  case (Cons x xs)
  from Cons.prems(3) obtain b fs cs where s: "fifo_step x (entries q) = Some (b, fs)"
      "run_flags fifo_step xs fs = Some (cs, es)" "bs = b # cs"
    by (auto simp: bind_eq_Some_iff)
  with step_simulates [of q x] Cons.prems(1,2) obtain q1 where
    q1: "queue_step push pop x q = Some (b, q1)" "inv q1" "entries q1 = fs" by auto
  from Cons.IH [of q1 cs] q1 s Cons.prems(2) obtain q2 where
    "run_flags (queue_step push pop) xs q1 = Some (cs, q2)" "inv q2" "entries q2 = es"
    "qsize q2 = sum_list (map weight es)" by auto
  with q1 s show ?case by auto
qed

end

subsection \<open>A watermark event gated by an edge trigger\<close>

text \<open>
  In edge-triggered mode an incoming queue announces a watermark once and then not again until
  the watermark is armed. The laws: a successful announcement disarms, and only the operations
  in \<open>rearming\<close> arm again.
\<close>

locale edge_gate =
  fixes step :: "'op \<Rightarrow> 'q \<Rightarrow> 'q option"
    and edge :: "'q \<Rightarrow> bool"
    and armed :: "'q \<Rightarrow> bool"
    and rearming :: "'op \<Rightarrow> 'q \<Rightarrow> bool"
    and authorize :: "'q \<Rightarrow> bool \<times> 'q"
  assumes authorize_disarms: "edge q \<Longrightarrow> authorize q = (True, q') \<Longrightarrow> edge q' \<and> \<not> armed q'"
    and authorize_needs: "edge q \<Longrightarrow> \<not> armed q \<Longrightarrow> \<not> fst (authorize q)"
    and step_keeps: "step x q = Some q' \<Longrightarrow> edge q \<Longrightarrow> \<not> armed q \<Longrightarrow> \<not> rearming x q \<Longrightarrow>
          edge q' \<and> \<not> armed q'"
begin

lemma run_keeps:
  assumes "edge q" and "\<not> armed q" and "all_permitted (\<lambda>x s. \<not> rearming x s) step xs q"
    and "run_steps step xs q = Some q'"
  shows "edge q' \<and> \<not> armed q'"
  using assms
proof (induction xs arbitrary: q)
  case Nil
  then show ?case by simp
next
  case (Cons x xs)
  then obtain t where "step x q = Some t" by (cases "step x q") auto
  with Cons step_keeps [of x q t] show ?case by auto
qed

lemma announced_once:
  assumes "edge q" and "authorize q = (True, q0)"
    and "all_permitted (\<lambda>x s. \<not> rearming x s) step xs q0"
    and "run_steps step xs q0 = Some q'"
  shows "\<not> fst (authorize q')"
  using authorize_disarms [OF assms(1,2)] run_keeps [OF _ _ assms(3,4)] authorize_needs by blast

end

subsection \<open>A queue of callbacks\<close>

text \<open>The loops of the removing operations: the first match is erased and returned.\<close>

fun remove_first :: "('e \<Rightarrow> bool) \<Rightarrow> 'e list \<Rightarrow> 'e option \<times> 'e list" where
  "remove_first matching [] = (None, [])"
| "remove_first matching (e # es) =
     (if matching e then (Some e, es)
      else let (r, fs) = remove_first matching es in (r, e # fs))"

lemma remove_first_None: "remove_first matching es = (None, fs) \<Longrightarrow> fs = es \<and> find matching es = None"
  by (induction es arbitrary: fs) (auto split: if_splits prod.splits)

lemma remove_first_Some:
  "remove_first matching es = (Some e, fs) \<Longrightarrow>
   find matching es = Some e \<and> (\<exists>xs ys. es = xs @ e # ys \<and> fs = xs @ ys)"
proof (induction es arbitrary: fs)
  case Nil
  then show ?case by simp
next
  case (Cons x xs)
  show ?case
  proof (cases "matching x")
    case True
    with Cons.prems have "x = e" "fs = xs" by simp_all
    with True show ?thesis by (auto intro: exI [of _ "[]"])
  next
    case False
    with Cons.prems obtain gs where "remove_first matching xs = (Some e, gs)" "fs = x # gs"
      by (auto split: prod.splits)
    with Cons.IH [of gs] False show ?thesis by (auto, metis append_Cons)
  qed
qed

lemma remove_first_mset:
  "remove_first matching es = (r, fs) \<Longrightarrow> mset es = mset (case r of None \<Rightarrow> [] | Some e \<Rightarrow> [e]) + mset fs"
  using remove_first_None [of matching es fs] remove_first_Some [of matching es _ fs]
  by (cases r) auto


text \<open>
  A callback queue hands out the entries pushed to it: by \<open>pop\<close> from the front, by \<open>remove\<close>
  of a given entry, by \<open>remove\<close> with a token, and all at once by \<open>removeAll\<close>. Each operation
  returns the entries it handed out. The law of every operation is conservation: what it adds
  to the queue and what it hands out account for the change of the queue's content. A callback
  queue also keeps the order of the entries that stay.
\<close>

fun run_out ::
  "('op \<Rightarrow> 'q \<Rightarrow> ('e list \<times> 'q) option) \<Rightarrow> 'op list \<Rightarrow> 'q \<Rightarrow> ('e list \<times> 'q) option" where
  "run_out step [] q = Some ([], q)"
| "run_out step (x # xs) q =
     do { (out, q1) \<leftarrow> step x q; (outs, q2) \<leftarrow> run_out step xs q1; Some (out @ outs, q2) }"

locale conserving_queue =
  fixes centries :: "'q \<Rightarrow> 'e list"
    and step :: "'op \<Rightarrow> 'q \<Rightarrow> ('e list \<times> 'q) option"
    and pushed :: "'op \<Rightarrow> 'e list"
  assumes conserve: "step x q = Some (out, q') \<Longrightarrow>
      mset (centries q) + mset (pushed x) = mset out + mset (centries q')"
begin

lemma run_conserve:
  "run_out step xs q = Some (outs, q') \<Longrightarrow>
   mset (centries q) + mset (concat (map pushed xs)) = mset outs + mset (centries q')"
proof (induction xs arbitrary: q outs)
  case Nil
  then show ?case by simp
next
  case (Cons x xs)
  obtain out q1 outs' where s: "step x q = Some (out, q1)" "run_out step xs q1 = Some (outs', q')"
      "outs = out @ outs'"
    using Cons.prems by (auto simp: bind_eq_Some_iff)
  have "mset (centries q) + mset (concat (map pushed (x # xs)))
      = mset (centries q) + mset (pushed x) + mset (concat (map pushed xs))"
    by (simp add: add.assoc)
  also have "\<dots> = mset out + (mset (centries q1) + mset (concat (map pushed xs)))"
    using conserve [OF s(1)] by (simp add: add.assoc)
  also have "\<dots> = mset outs + mset (centries q')"
    using Cons.IH [OF s(2)] s(3) by simp
  finally show ?case .
qed

end

locale callback_queue = conserving_queue centries step pushed
  for centries :: "'q \<Rightarrow> 'e list"
    and step :: "'op \<Rightarrow> 'q \<Rightarrow> ('e list \<times> 'q) option"
    and pushed :: "'op \<Rightarrow> 'e list" +
  assumes order: "step x q = Some (out, q') \<Longrightarrow> subseq (centries q') (centries q @ pushed x)"
begin

lemma run_order:
  "run_out step xs q = Some (outs, q') \<Longrightarrow> subseq (centries q') (centries q @ concat (map pushed xs))"
proof (induction xs arbitrary: q outs)
  case Nil
  then show ?case by simp
next
  case (Cons x xs)
  obtain out q1 outs' where s: "step x q = Some (out, q1)" "run_out step xs q1 = Some (outs', q')"
    using Cons.prems by (auto simp: bind_eq_Some_iff)
  have "subseq (centries q1 @ concat (map pushed xs)) ((centries q @ pushed x) @ concat (map pushed xs))"
    using order [OF s(1)] by (intro list_emb_append_mono) auto
  with Cons.IH [OF s(2)] show ?case
    using subseq_order.order_trans by fastforce
qed

end

lemma remove_first_subseq:
  "remove_first matching es = (r, fs) \<Longrightarrow> subseq fs es"
  using remove_first_None [of matching es fs] remove_first_Some [of matching es _ fs]
  by (cases r) (auto intro: list_emb_append_mono)

end
