(* ===== verification/Send_Queue.thy ===== *)
theory Send_Queue
  imports Buffer_Data Queue_Contract
begin

section \<open>The send queue of a socket\<close>

text \<open>
  This theory models \<open>ntcq_send.h\<close> and \<open>ntcq_send.cpp\<close>: \<open>ntcq::SendState\<close>,
  \<open>ntcq::SendQueueEntry\<close> and \<open>ntcq::SendQueue\<close>. Timers, callbacks and sockets are opaque
  references. The queue carries one field the code does not have: the timers on which
  \<open>close()\<close> has been called by its operations, in order.
\<close>

subsection \<open>ntcq::SendState\<close>

record SendState =
  ss_counter :: u64

definition SendState_init :: SendState where
  "SendState_init = \<lparr>ss_counter = 0\<rparr>"

definition SendState_reset :: "SendState \<Rightarrow> SendState" where
  [ntf_defs]: "SendState_reset s = s\<lparr>ss_counter := 0\<rparr>"

definition SendState_setCounter :: "u64 \<Rightarrow> SendState \<Rightarrow> SendState" where
  [ntf_defs]: "SendState_setCounter v s = s\<lparr>ss_counter := v\<rparr>"

subsection \<open>ntcq::SendQueueEntry\<close>

text \<open>
  \<open>ntca::SendContext\<close>, of which the queue reads the token. The compression ratio, a
  \<open>double\<close> that is only copied, is kept as its 64-bit representation.
\<close>

datatype CompressionType = e_UNDEFINED | e_NONE | e_RLE | e_ZLIB | e_GZIP | e_LZ4 | e_ZSTD

record SendContext =
  sc_token :: "u64 option"
  sc_compressionType :: "CompressionType option"
  sc_compressionRatio :: "u64 option"
  sc_error :: ntsa_error

definition SendContext_init :: SendContext where
  "SendContext_init =
     \<lparr>sc_token = None, sc_compressionType = None, sc_compressionRatio = None, sc_error = E_OK\<rparr>"

record 'blob SendQueueEntry =
  se_id :: u64
  se_endpoint :: "endpoint_ref option"
  se_data :: "'blob Data option"
  se_length :: nat
  se_timestamp :: int
  se_deadline :: "int option"
  se_foreignHandle :: "handle option"
  se_timer :: "timer_ref option"
  se_context :: SendContext
  se_callback :: "callback_ref option"
  se_inProgress :: bool
  se_zeroCopy :: bool

definition SendQueueEntry_init :: "'blob SendQueueEntry" where
  "SendQueueEntry_init =
     \<lparr>se_id = 0, se_endpoint = None, se_data = None, se_length = 0, se_timestamp = 0,
      se_deadline = None, se_foreignHandle = None, se_timer = None,
      se_context = SendContext_init, se_callback = None, se_inProgress = False,
      se_zeroCopy = False\<rparr>"

definition setId :: "u64 \<Rightarrow> 'blob SendQueueEntry \<Rightarrow> 'blob SendQueueEntry" where
  [ntf_defs]: "setId v e = e\<lparr>se_id := v\<rparr>"

definition setEndpoint ::
  "endpoint_ref option \<Rightarrow> 'blob SendQueueEntry \<Rightarrow> 'blob SendQueueEntry" where
  [ntf_defs]: "setEndpoint v e = e\<lparr>se_endpoint := v\<rparr>"

definition setEntryData ::
  "'blob Data option \<Rightarrow> 'blob SendQueueEntry \<Rightarrow> 'blob SendQueueEntry" where
  [ntf_defs]: "setEntryData v e = e\<lparr>se_data := v\<rparr>"

definition setLength :: "nat \<Rightarrow> 'blob SendQueueEntry \<Rightarrow> 'blob SendQueueEntry" where
  [ntf_defs]: "setLength v e = e\<lparr>se_length := v\<rparr>"

definition setTimestamp :: "int \<Rightarrow> 'blob SendQueueEntry \<Rightarrow> 'blob SendQueueEntry" where
  [ntf_defs]: "setTimestamp v e = e\<lparr>se_timestamp := v\<rparr>"

definition setDeadline :: "int option \<Rightarrow> 'blob SendQueueEntry \<Rightarrow> 'blob SendQueueEntry" where
  [ntf_defs]: "setDeadline v e = e\<lparr>se_deadline := v\<rparr>"

definition setForeignHandle :: "handle \<Rightarrow> 'blob SendQueueEntry \<Rightarrow> 'blob SendQueueEntry" where
  [ntf_defs]: "setForeignHandle v e = e\<lparr>se_foreignHandle := Some v\<rparr>"

definition setTimer :: "timer_ref option \<Rightarrow> 'blob SendQueueEntry \<Rightarrow> 'blob SendQueueEntry" where
  [ntf_defs]: "setTimer v e = e\<lparr>se_timer := v\<rparr>"

definition setContext :: "SendContext \<Rightarrow> 'blob SendQueueEntry \<Rightarrow> 'blob SendQueueEntry" where
  [ntf_defs]: "setContext v e = e\<lparr>se_context := v\<rparr>"

definition setCallback ::
  "callback_ref option \<Rightarrow> 'blob SendQueueEntry \<Rightarrow> 'blob SendQueueEntry" where
  [ntf_defs]: "setCallback v e = e\<lparr>se_callback := v\<rparr>"

definition setInProgress :: "bool \<Rightarrow> 'blob SendQueueEntry \<Rightarrow> 'blob SendQueueEntry" where
  [ntf_defs]: "setInProgress v e = e\<lparr>se_inProgress := v\<rparr>"

definition setZeroCopy :: "bool \<Rightarrow> 'blob SendQueueEntry \<Rightarrow> 'blob SendQueueEntry" where
  [ntf_defs]: "setZeroCopy v e = e\<lparr>se_zeroCopy := v\<rparr>"

text \<open>\<open>closeTimer\<close> returns the timers it closed beside the entry.\<close>

definition closeTimer :: "'blob SendQueueEntry \<Rightarrow> timer_ref list \<times> 'blob SendQueueEntry" where
  "closeTimer e =
     (case se_timer e of
        None \<Rightarrow> ([], e)
      | Some t \<Rightarrow> ([t], e\<lparr>se_timer := None\<rparr>))"

definition SendQueueEntry_token :: "'blob SendQueueEntry \<Rightarrow> u64 option" where
  [ntf_defs]: "SendQueueEntry_token e = sc_token (se_context e)"

text \<open>The clock reading is an argument; the result is in nanoseconds.\<close>

definition SendQueueEntry_delay :: "int \<Rightarrow> 'blob SendQueueEntry \<Rightarrow> int" where
  "SendQueueEntry_delay now e =
     (let delayInNanoseconds = now - se_timestamp e in
      if delayInNanoseconds < 0 then 0 else delayInNanoseconds)"

definition isBatchable :: "'blob SendQueueEntry \<Rightarrow> bool" where
  "isBatchable e =
     (case se_data e of
        None \<Rightarrow> False
      | Some d \<Rightarrow> if isFile d then False
                  else if se_foreignHandle e \<noteq> None then False
                  else True)"

subsection \<open>Batching\<close>

record SendOptions =
  so_maxBytes :: nat
  so_maxBuffers :: nat

text \<open>
  \<open>ntsu::SocketUtil::maxBuffersPerSend()\<close> is a constant of the operating system, an argument
  here. A \<open>batchNext\<close> returns the flag \<open>more entries should be attempted\<close> and the result.
\<close>

definition effectiveMaxBuffers :: "nat \<Rightarrow> SendOptions \<Rightarrow> nat" where
  "effectiveMaxBuffers perSend opts =
     (if so_maxBuffers opts = 0 then perSend else so_maxBuffers opts)"

definition batchNext_ConstBuffer ::
  "nat \<Rightarrow> SendOptions \<Rightarrow> bytes \<Rightarrow> BufferArray \<Rightarrow> bool \<times> BufferArray" where
  "batchNext_ConstBuffer perSend opts b result =
     (let maxBytes = so_maxBytes opts in
      if maxBytes > 0 \<and> ba_numBytes result \<ge> maxBytes then (False, result)
      else
        let maxBuffers = effectiveMaxBuffers perSend opts in
        if maxBuffers > 0 \<and> BufferArray_numBuffers result \<ge> maxBuffers then (False, result)
        else (True, BufferArray_append b result))"

definition batchNext_MutableBuffer ::
  "nat \<Rightarrow> SendOptions \<Rightarrow> bytes \<Rightarrow> BufferArray \<Rightarrow> bool \<times> BufferArray" where
  "batchNext_MutableBuffer perSend opts b result =
     (let maxBytes = so_maxBytes opts in
      if maxBytes > 0 \<and> ba_numBytes result \<ge> maxBytes then (False, result)
      else
        let maxBuffers = effectiveMaxBuffers perSend opts in
        if maxBuffers > 0 \<and> BufferArray_numBuffers result \<ge> maxBuffers then (False, result)
        else (True, BufferArray_append b result))"

text \<open>The loop over the data buffers of a blob; the last one is cut to its used length.\<close>

fun batchNext_Blob_loop ::
  "nat \<Rightarrow> nat \<Rightarrow> nat \<Rightarrow> bytes list \<Rightarrow> BufferArray \<Rightarrow> bool \<times> BufferArray" where
  "batchNext_Blob_loop maxBytes maxBuffers lastLength [] result = (True, result)"
| "batchNext_Blob_loop maxBytes maxBuffers lastLength (b # bs) result =
     (let used = (if bs \<noteq> [] then b else take lastLength b) in
      if maxBytes > 0 \<and> ba_numBytes result \<ge> maxBytes then (False, result)
      else if maxBuffers > 0 \<and> BufferArray_numBuffers result \<ge> maxBuffers then (False, result)
      else batchNext_Blob_loop maxBytes maxBuffers lastLength bs (BufferArray_append used result))"

definition batchNext_Blob ::
  "'blob blob_library \<Rightarrow> nat \<Rightarrow> SendOptions \<Rightarrow> 'blob \<Rightarrow> BufferArray \<Rightarrow> bool \<times> BufferArray" where
  "batchNext_Blob L perSend opts b result =
     batchNext_Blob_loop (so_maxBytes opts) (effectiveMaxBuffers perSend opts)
       (blob_lastDataBufferLength L b) (blob_buffers L b) result"

fun batchNext_ConstBufferArray ::
  "nat \<Rightarrow> SendOptions \<Rightarrow> bytes list \<Rightarrow> BufferArray \<Rightarrow> bool \<times> BufferArray" where
  "batchNext_ConstBufferArray perSend opts [] result = (True, result)"
| "batchNext_ConstBufferArray perSend opts (b # bs) result =
     (case batchNext_ConstBuffer perSend opts b result of
        (False, result') \<Rightarrow> (False, result')
      | (True, result') \<Rightarrow> batchNext_ConstBufferArray perSend opts bs result')"

fun batchNext_MutableBufferArray ::
  "nat \<Rightarrow> SendOptions \<Rightarrow> bytes list \<Rightarrow> BufferArray \<Rightarrow> bool \<times> BufferArray" where
  "batchNext_MutableBufferArray perSend opts [] result = (True, result)"
| "batchNext_MutableBufferArray perSend opts (b # bs) result =
     (case batchNext_MutableBuffer perSend opts b result of
        (False, result') \<Rightarrow> (False, result')
      | (True, result') \<Rightarrow> batchNext_MutableBufferArray perSend opts bs result')"

text \<open>
  A pointer array is read by index up to its buffer count: \<^term>\<open>None\<close> is a read past the end.
\<close>

fun batchNext_ConstBufferPtrArray ::
  "nat \<Rightarrow> SendOptions \<Rightarrow> nat \<Rightarrow> bytes list \<Rightarrow> BufferArray \<Rightarrow> (bool \<times> BufferArray) option" where
  "batchNext_ConstBufferPtrArray perSend opts 0 bs result = Some (True, result)"
| "batchNext_ConstBufferPtrArray perSend opts (Suc n) [] result = None"
| "batchNext_ConstBufferPtrArray perSend opts (Suc n) (b # bs) result =
     (case batchNext_ConstBuffer perSend opts b result of
        (False, result') \<Rightarrow> Some (False, result')
      | (True, result') \<Rightarrow> batchNext_ConstBufferPtrArray perSend opts n bs result')"

fun batchNext_MutableBufferPtrArray ::
  "nat \<Rightarrow> SendOptions \<Rightarrow> nat \<Rightarrow> bytes list \<Rightarrow> BufferArray \<Rightarrow> (bool \<times> BufferArray) option" where
  "batchNext_MutableBufferPtrArray perSend opts 0 bs result = Some (True, result)"
| "batchNext_MutableBufferPtrArray perSend opts (Suc n) [] result = None"
| "batchNext_MutableBufferPtrArray perSend opts (Suc n) (b # bs) result =
     (case batchNext_MutableBuffer perSend opts b result of
        (False, result') \<Rightarrow> Some (False, result')
      | (True, result') \<Rightarrow> batchNext_MutableBufferPtrArray perSend opts n bs result')"

definition SendQueueEntry_batchNext ::
  "'blob blob_library \<Rightarrow> nat \<Rightarrow> SendOptions \<Rightarrow> 'blob SendQueueEntry \<Rightarrow> BufferArray \<Rightarrow>
   (bool \<times> BufferArray) option" where
  "SendQueueEntry_batchNext L perSend opts e result =
     (if \<not> isBatchable e then Some (False, result)
      else case se_data e of
        None \<Rightarrow> Some (False, result)
      | Some d \<Rightarrow>
         (case d of
            Blob b \<Rightarrow> Some (batchNext_Blob L perSend opts b result)
          | SharedBlob (Some b) \<Rightarrow> Some (batchNext_Blob L perSend opts b result)
          | BlobBuffer b \<Rightarrow> Some (batchNext_ConstBuffer perSend opts b result)
          | ConstBuffer b \<Rightarrow> Some (batchNext_ConstBuffer perSend opts b result)
          | ConstBufferArray a \<Rightarrow>
              Some (batchNext_ConstBufferArray perSend opts (ba_bufferArray a) result)
          | ConstBufferPtrArray a \<Rightarrow>
              batchNext_ConstBufferPtrArray perSend opts (bp_numBuffers a) (bp_bufferArray a) result
          | MutableBuffer b \<Rightarrow> Some (batchNext_MutableBuffer perSend opts b result)
          | MutableBufferArray a \<Rightarrow>
              Some (batchNext_MutableBufferArray perSend opts (ba_bufferArray a) result)
          | MutableBufferPtrArray a \<Rightarrow>
              batchNext_MutableBufferPtrArray perSend opts (bp_numBuffers a) (bp_bufferArray a) result
          | String b \<Rightarrow> Some (batchNext_ConstBuffer perSend opts b result)
          | _ \<Rightarrow> Some (False, result)))"

subsection \<open>ntcq::SendQueue\<close>

record 'blob SendQueue =
  sq_entryList :: "'blob SendQueueEntry list"
  sq_data :: "'blob option"
  sq_size :: nat
  sq_watermarkLow :: nat
  sq_watermarkLowWanted :: bool
  sq_watermarkHigh :: nat
  sq_watermarkHighWanted :: bool
  sq_nextEntryId :: u64
  sq_closedTimers :: "timer_ref list"

definition SendQueue_init :: "'blob SendQueue" where
  "SendQueue_init =
     (let (low, high) = sanitizeOutgoingQueueWatermarks (0, 67108864) in
      \<lparr>sq_entryList = [], sq_data = None, sq_size = 0, sq_watermarkLow = low,
       sq_watermarkLowWanted = False, sq_watermarkHigh = high, sq_watermarkHighWanted = True,
       sq_nextEntryId = 1, sq_closedTimers = []\<rparr>)"

definition generateEntryId :: "'blob SendQueue \<Rightarrow> u64 \<times> 'blob SendQueue" where
  "generateEntryId q = (let i = sq_nextEntryId q + 1 in (i, q\<lparr>sq_nextEntryId := i\<rparr>))"

definition SendQueue_pushEntry ::
  "'blob blob_library \<Rightarrow> 'blob SendQueueEntry \<Rightarrow> 'blob SendQueue \<Rightarrow> (bool \<times> 'blob SendQueue) option"
  where
  "SendQueue_pushEntry L e q =
     (let q1 = q\<lparr>sq_entryList := sq_entryList q @ [e]\<rparr> in
      do { q2 \<leftarrow> (case se_data e of
              None \<Rightarrow> Some q1
            | Some d \<Rightarrow>
                do { bsls_assert (se_length e > 0);
                     n \<leftarrow> Data_size L d;
                     bsls_assert (se_length e = n);
                     Some (q1\<lparr>sq_size := sq_size q1 + se_length e\<rparr>) });
           Some (length (sq_entryList q2) = 1, q2) })"

definition SendQueue_frontEntry :: "'blob SendQueue \<Rightarrow> 'blob SendQueueEntry option" where
  "SendQueue_frontEntry q = (case sq_entryList q of [] \<Rightarrow> None | e # es \<Rightarrow> Some e)"

text \<open>
  The block that \<open>popEntry\<close>, \<open>removeEntryId\<close> and \<open>removeEntryToken\<close> repeat: the bytes of an
  entry with data leave the size of the queue.
\<close>

definition discount ::
  "'blob blob_library \<Rightarrow> 'blob SendQueueEntry \<Rightarrow> nat \<Rightarrow> nat option" where
  "discount L e queueSize =
     (case se_data e of
        None \<Rightarrow> Some queueSize
      | Some d \<Rightarrow>
          do { bsls_assert (se_length e > 0);
               n \<leftarrow> Data_size L d;
               bsls_assert (se_length e = n);
               bsls_assert (queueSize \<ge> se_length e);
               Some (queueSize - se_length e) })"

definition SendQueue_popEntry ::
  "'blob blob_library \<Rightarrow> 'blob SendQueue \<Rightarrow> (bool \<times> 'blob SendQueue) option" where
  "SendQueue_popEntry L q =
     (case sq_entryList q of
        [] \<Rightarrow> None
      | e # es \<Rightarrow>
          do { let (ts, e1) = closeTimer e;
               n \<leftarrow> discount L e1 (sq_size q);
               Some (es = [], q\<lparr>sq_entryList := es, sq_size := n,
                                sq_closedTimers := sq_closedTimers q @ ts\<rparr>) })"

definition SendQueue_popSize ::
  "'blob blob_library \<Rightarrow> nat \<Rightarrow> 'blob SendQueue \<Rightarrow> 'blob SendQueue option" where
  "SendQueue_popSize L numBytes q =
     (case sq_entryList q of
        [] \<Rightarrow> None
      | e # es \<Rightarrow>
          do { let (ts, e1) = closeTimer e;
               d \<leftarrow> se_data e1;
               n \<leftarrow> Data_size L d;
               bsls_assert (n = se_length e1);
               d2 \<leftarrow> DataUtil_pop L d numBytes;
               let e2 = setInProgress True (setEntryData (Some d2) e1);
               bsls_assert (se_length e2 \<ge> numBytes);
               let e3 = setLength (se_length e2 - numBytes) e2;
               m \<leftarrow> Data_size L d2;
               bsls_assert (m = se_length e3);
               bsls_assert (sq_size q \<ge> numBytes);
               Some (q\<lparr>sq_entryList := e3 # es, sq_size := sq_size q - numBytes,
                       sq_closedTimers := sq_closedTimers q @ ts\<rparr>) })"

text \<open>
  The loops of the removing operations: at the first entry that matches, the entry is removed
  if it is removable, and the loop ends.
\<close>

fun remove_loop ::
  "'blob blob_library \<Rightarrow> ('blob SendQueueEntry \<Rightarrow> bool) \<Rightarrow> ('blob SendQueueEntry \<Rightarrow> bool) \<Rightarrow>
   'blob SendQueueEntry list \<Rightarrow> nat \<Rightarrow>
   ('blob SendQueueEntry option \<times> 'blob SendQueueEntry list \<times> nat) option" where
  "remove_loop L matching removable [] n = Some (None, [], n)"
| "remove_loop L matching removable (e # es) n =
     (if matching e then
        (if removable e then do { m \<leftarrow> discount L e n; Some (Some e, es, m) }
         else Some (None, e # es, n))
      else do { (r, fs, m) \<leftarrow> remove_loop L matching removable es n; Some (r, e # fs, m) })"

text \<open>
  Each operation returns whether the queue is empty, the callback of the removed entry, the
  context output parameter where there is one, and the queue.
\<close>

definition removeEntry ::
  "'blob blob_library \<Rightarrow> ('blob SendQueueEntry \<Rightarrow> bool) \<Rightarrow> ('blob SendQueueEntry \<Rightarrow> bool) \<Rightarrow>
   SendContext \<Rightarrow> 'blob SendQueue \<Rightarrow>
   (bool \<times> callback_ref option \<times> SendContext \<times> 'blob SendQueue) option" where
  "removeEntry L matching removable context q =
     do { (r, es, n) \<leftarrow> remove_loop L matching removable (sq_entryList q) (sq_size q);
          Some (es = [],
                (case r of None \<Rightarrow> None | Some e \<Rightarrow> se_callback e),
                (case r of None \<Rightarrow> context | Some e \<Rightarrow> se_context e),
                q\<lparr>sq_entryList := es, sq_size := n,
                  sq_closedTimers := sq_closedTimers q @
                    (case r of None \<Rightarrow> [] | Some e \<Rightarrow> fst (closeTimer e))\<rparr>) }"

definition removeEntryId ::
  "'blob blob_library \<Rightarrow> u64 \<Rightarrow> 'blob SendQueue \<Rightarrow>
   (bool \<times> callback_ref option \<times> 'blob SendQueue) option" where
  "removeEntryId L i q =
     do { (emptied, cb, ctx, q') \<leftarrow>
            removeEntry L (\<lambda>e. se_id e = i) (\<lambda>e. se_deadline e \<noteq> None \<and> \<not> se_inProgress e)
              SendContext_init q;
          Some (emptied, cb, q') }"

definition removeEntryId_context ::
  "'blob blob_library \<Rightarrow> u64 \<Rightarrow> 'blob SendQueue \<Rightarrow>
   (bool \<times> callback_ref option \<times> SendContext \<times> 'blob SendQueue) option" where
  "removeEntryId_context L i q =
     removeEntry L (\<lambda>e. se_id e = i) (\<lambda>e. se_deadline e \<noteq> None \<and> \<not> se_inProgress e)
       SendContext_init q"

definition removeEntryToken ::
  "'blob blob_library \<Rightarrow> u64 \<Rightarrow> 'blob SendQueue \<Rightarrow>
   (bool \<times> callback_ref option \<times> 'blob SendQueue) option" where
  "removeEntryToken L tok q =
     do { (emptied, cb, ctx, q') \<leftarrow>
            removeEntry L (\<lambda>e. SendQueueEntry_token e = Some tok) (\<lambda>e. \<not> se_inProgress e)
              SendContext_init q;
          Some (emptied, cb, q') }"

text \<open>This overload leaves the caller's context unchanged when no entry is removed.\<close>

definition removeEntryToken_context ::
  "'blob blob_library \<Rightarrow> SendContext \<Rightarrow> u64 \<Rightarrow> 'blob SendQueue \<Rightarrow>
   (bool \<times> callback_ref option \<times> SendContext \<times> 'blob SendQueue) option" where
  "removeEntryToken_context L context tok q =
     removeEntry L (\<lambda>e. SendQueueEntry_token e = Some tok) (\<lambda>e. \<not> se_inProgress e) context q"

fun removeAll_loop ::
  "'blob SendQueueEntry list \<Rightarrow> timer_ref list \<Rightarrow> 'blob SendQueueEntry list \<Rightarrow>
   timer_ref list \<times> 'blob SendQueueEntry list" where
  "removeAll_loop [] ts result = (ts, result)"
| "removeAll_loop (e # es) ts result =
     (let (us, e1) = closeTimer e in
      removeAll_loop es (ts @ us) (if se_callback e1 \<noteq> None then result @ [e1] else result))"

definition SendQueue_removeAll_entries ::
  "'blob SendQueueEntry list \<Rightarrow> 'blob SendQueue \<Rightarrow>
   bool \<times> 'blob SendQueueEntry list \<times> 'blob SendQueue" where
  "SendQueue_removeAll_entries result q =
     (let nonEmpty = (sq_entryList q \<noteq> []);
          (ts, out) = removeAll_loop (sq_entryList q) (sq_closedTimers q) result
      in (nonEmpty, out, q\<lparr>sq_entryList := [], sq_size := 0, sq_closedTimers := ts\<rparr>))"

definition SendQueue_removeAll ::
  "callback_ref list \<Rightarrow> 'blob SendQueue \<Rightarrow> bool \<times> callback_ref list \<times> 'blob SendQueue" where
  "SendQueue_removeAll result q =
     (let nonEmpty = (sq_entryList q \<noteq> []);
          (ts, out) = removeAll_loop (sq_entryList q) (sq_closedTimers q) []
      in (nonEmpty, result @ map (\<lambda>e. the (se_callback e)) out,
          q\<lparr>sq_entryList := [], sq_size := 0, sq_closedTimers := ts\<rparr>))"

definition SendQueue_setData :: "'blob option \<Rightarrow> 'blob SendQueue \<Rightarrow> 'blob SendQueue" where
  [ntf_defs]: "SendQueue_setData v q = q\<lparr>sq_data := v\<rparr>"

definition SendQueue_setLowWatermark :: "nat \<Rightarrow> 'blob SendQueue \<Rightarrow> 'blob SendQueue" where
  "SendQueue_setLowWatermark lowWatermark q =
     (let (low, high) = sanitizeOutgoingQueueWatermarks (lowWatermark, sq_watermarkHigh q)
      in q\<lparr>sq_watermarkLow := low, sq_watermarkHigh := high\<rparr>)"

definition SendQueue_setHighWatermark :: "nat \<Rightarrow> 'blob SendQueue \<Rightarrow> 'blob SendQueue" where
  "SendQueue_setHighWatermark highWatermark q =
     (let (low, high) = sanitizeOutgoingQueueWatermarks (sq_watermarkLow q, highWatermark)
      in q\<lparr>sq_watermarkLow := low, sq_watermarkHigh := high\<rparr>)"

definition SendQueue_authorizeLowWatermarkEvent ::
  "'blob SendQueue \<Rightarrow> bool \<times> 'blob SendQueue" where
  "SendQueue_authorizeLowWatermarkEvent q =
     (if isOutgoingQueueLowWatermarkSatisfied (sq_size q) (sq_watermarkLow q) \<and>
         sq_watermarkLowWanted q
      then (True, q\<lparr>sq_watermarkLowWanted := False, sq_watermarkHighWanted := True\<rparr>)
      else (False, q))"

definition SendQueue_authorizeHighWatermarkEvent ::
  "'blob SendQueue \<Rightarrow> bool \<times> 'blob SendQueue" where
  "SendQueue_authorizeHighWatermarkEvent q =
     (if isOutgoingQueueHighWatermarkViolated (sq_size q) (sq_watermarkHigh q) \<and>
         sq_watermarkHighWanted q
      then (True, q\<lparr>sq_watermarkHighWanted := False, sq_watermarkLowWanted := True\<rparr>)
      else (False, q))"

definition SendQueue_authorizeHighWatermarkEvent_effective ::
  "nat \<Rightarrow> 'blob SendQueue \<Rightarrow> bool \<times> 'blob SendQueue" where
  "SendQueue_authorizeHighWatermarkEvent_effective effectiveHighWatermark q =
     (if isOutgoingQueueHighWatermarkViolated (sq_size q) effectiveHighWatermark \<and>
         sq_watermarkHighWanted q
      then (True, q\<lparr>sq_watermarkHighWanted := False, sq_watermarkLowWanted := True\<rparr>)
      else (False, q))"

definition SendQueue_hasEntry :: "'blob SendQueue \<Rightarrow> bool" where
  [ntf_defs]: "SendQueue_hasEntry q = (sq_entryList q \<noteq> [])"

definition SendQueue_isLowWatermarkSatisfied :: "'blob SendQueue \<Rightarrow> bool" where
  [ntf_defs]: "SendQueue_isLowWatermarkSatisfied q =
     isOutgoingQueueLowWatermarkSatisfied (sq_size q) (sq_watermarkLow q)"

definition SendQueue_isHighWatermarkViolated :: "'blob SendQueue \<Rightarrow> bool" where
  [ntf_defs]: "SendQueue_isHighWatermarkViolated q =
     isOutgoingQueueHighWatermarkViolated (sq_size q) (sq_watermarkHigh q)"

definition SendQueue_isHighWatermarkViolated_effective :: "nat \<Rightarrow> 'blob SendQueue \<Rightarrow> bool" where
  [ntf_defs]: "SendQueue_isHighWatermarkViolated_effective effectiveHighWatermark q =
     isOutgoingQueueHighWatermarkViolated (sq_size q) effectiveHighWatermark"

text \<open>The write queue context: (size, low watermark, high watermark).\<close>

definition SendQueue_context :: "'blob SendQueue \<Rightarrow> nat \<times> nat \<times> nat" where
  [ntf_defs]: "SendQueue_context q = (sq_size q, sq_watermarkLow q, sq_watermarkHigh q)"

fun batch_loop ::
  "'blob blob_library \<Rightarrow> nat \<Rightarrow> SendOptions \<Rightarrow> 'blob SendQueueEntry list \<Rightarrow> BufferArray \<Rightarrow>
   BufferArray option" where
  "batch_loop L perSend opts [] result = Some result"
| "batch_loop L perSend opts (e # es) result =
     do { (more, result') \<leftarrow> SendQueueEntry_batchNext L perSend opts e result;
          if \<not> more then Some result' else batch_loop L perSend opts es result' }"

definition SendQueue_batchNext ::
  "'blob blob_library \<Rightarrow> nat \<Rightarrow> BufferArray \<Rightarrow> SendOptions \<Rightarrow> 'blob SendQueue \<Rightarrow>
   (bool \<times> BufferArray) option" where
  "SendQueue_batchNext L perSend result opts q =
     (let result = BufferArray_clear result in
      if length (sq_entryList q) < 2 then Some (False, result)
      else
        let effectiveOptions =
              (if so_maxBuffers opts = 0 then opts\<lparr>so_maxBuffers := perSend\<rparr> else opts)
        in do { result' \<leftarrow> batch_loop L perSend effectiveOptions (sq_entryList q) result;
                if BufferArray_numBuffers result' = 0 then Some (False, result')
                else Some (True, result') })"


subsection \<open>The invariant of the send queue\<close>

definition entry_ok :: "'blob blob_library \<Rightarrow> 'blob SendQueueEntry \<Rightarrow> bool" where
  "entry_ok L e \<longleftrightarrow>
     (case se_data e of
        None \<Rightarrow> True
      | Some d \<Rightarrow> 0 < se_length e \<and> Data_size L d = Some (se_length e))"

definition entry_weight :: "'blob SendQueueEntry \<Rightarrow> nat" where
  "entry_weight e = (if se_data e = None then 0 else se_length e)"

definition sq_inv :: "'blob blob_library \<Rightarrow> 'blob SendQueue \<Rightarrow> bool" where
  "sq_inv L q \<longleftrightarrow>
     list_all (entry_ok L) (sq_entryList q) \<and>
     sq_size q = sum_list (map entry_weight (sq_entryList q)) \<and>
     sq_watermarkLow q < sq_watermarkHigh q \<and>
     sq_watermarkLowWanted q \<noteq> sq_watermarkHighWanted q"

lemma sq_inv_init [simp]: "sq_inv L SendQueue_init"
  by (simp add: sq_inv_def SendQueue_init_def sanitizeOutgoingQueueWatermarks_def)

lemma closeTimer_entry [simp]:
  "entry_ok L (snd (closeTimer e)) = entry_ok L e"
  "entry_weight (snd (closeTimer e)) = entry_weight e"
  "se_data (snd (closeTimer e)) = se_data e"
  "se_length (snd (closeTimer e)) = se_length e"
  "se_callback (snd (closeTimer e)) = se_callback e"
  by (auto simp: closeTimer_def entry_ok_def entry_weight_def split: option.splits)

lemma discount_closeTimer [simp]: "discount L (snd (closeTimer e)) n = discount L e n"
  by (simp add: discount_def cong: option.case_cong)

lemma discount_ok:
  "entry_ok L e \<Longrightarrow> discount L e (entry_weight e + n) = Some n"
  by (auto simp: discount_def entry_ok_def entry_weight_def split: option.splits)

lemma pushEntry_ok:
  assumes "sq_inv L q" and "entry_ok L e"
  shows "SendQueue_pushEntry L e q =
     Some (sq_entryList q = [],
           q\<lparr>sq_entryList := sq_entryList q @ [e], sq_size := sq_size q + entry_weight e\<rparr>)"
  using assms
  by (cases q) (auto simp: SendQueue_pushEntry_def entry_ok_def entry_weight_def
      split: option.splits)

lemma popEntry_ok:
  assumes "sq_inv L q" and "sq_entryList q = e # es"
  shows "SendQueue_popEntry L q =
     Some (es = [],
           q\<lparr>sq_entryList := es, sq_size := sum_list (map entry_weight es),
             sq_closedTimers := sq_closedTimers q @ fst (closeTimer e)\<rparr>)"
  using assms
  by (auto simp: SendQueue_popEntry_def sq_inv_def discount_ok Let_def case_prod_unfold)

lemma popSize_ok:
  assumes "blob_library_ok L" and "sq_inv L q" and "sq_entryList q = e # es"
    and "se_data e = Some d" and "poppable n d" and "n < se_length e"
  shows "\<exists>d'. DataUtil_pop L d n = Some d' \<and> Data_size L d' = Some (se_length e - n) \<and>
     SendQueue_popSize L n q =
       Some (q\<lparr>sq_entryList :=
                 (snd (closeTimer e))\<lparr>se_data := Some d', se_length := se_length e - n,
                                      se_inProgress := True\<rparr> # es,
               sq_size := sq_size q - n,
               sq_closedTimers := sq_closedTimers q @ fst (closeTimer e)\<rparr>)"
proof -
  have e: "Data_size L d = Some (se_length e)" "se_length e \<le> sq_size q"
    using assms by (auto simp: sq_inv_def entry_ok_def entry_weight_def)
  then obtain d' where "DataUtil_pop L d n = Some d'" "Data_size L d' = Some (se_length e - n)"
    using DataUtil_pop_size [of L n d "se_length e"] assms by auto
  with e assms show ?thesis
    by (auto simp: SendQueue_popSize_def closeTimer_def setInProgress_def setEntryData_def
        setLength_def split: option.splits)
qed

text \<open>What the removing loops do, over an abstract list: the entry at the first match.\<close>

lemma remove_loop_ok:
  assumes "list_all (entry_ok L) es" and "n = m + sum_list (map entry_weight es)"
  shows "\<exists>r fs. remove_loop L matching removable es n
           = Some (r, fs, m + sum_list (map entry_weight fs)) \<and>
         (case r of
            None \<Rightarrow> fs = es \<and> (case find matching es of None \<Rightarrow> True | Some e \<Rightarrow> \<not> removable e)
          | Some e \<Rightarrow> find matching es = Some e \<and> removable e \<and>
              (\<exists>xs ys. es = xs @ e # ys \<and> fs = xs @ ys))"
  using assms
proof (induction es arbitrary: n m)
  case Nil
  then show ?case by simp
next
  case (Cons e es)
  show ?case
  proof (cases "matching e")
    case True
    have "discount L e n = Some (m + sum_list (map entry_weight es))"
      using discount_ok [of L e "m + sum_list (map entry_weight es)"] Cons.prems
      by (simp add: add.left_commute)
    with True Cons.prems(2) show ?thesis
      by (cases "removable e") (auto simp: add.assoc intro: exI [of _ "[]"])
  next
    case False
    obtain r fs where rf: "remove_loop L matching removable es n
          = Some (r, fs, m + entry_weight e + sum_list (map entry_weight fs))"
      and r: "case r of
            None \<Rightarrow> fs = es \<and> (case find matching es of None \<Rightarrow> True | Some e \<Rightarrow> \<not> removable e)
          | Some e \<Rightarrow> find matching es = Some e \<and> removable e \<and>
              (\<exists>xs ys. es = xs @ e # ys \<and> fs = xs @ ys)"
      using Cons.IH [of n "m + entry_weight e"] Cons.prems by (auto simp: add.assoc)
    have "remove_loop L matching removable (e # es) n
        = Some (r, e # fs, m + sum_list (map entry_weight (e # fs)))"
      using False rf by (simp add: add.assoc)
    moreover have "case r of
            None \<Rightarrow> e # fs = e # es \<and>
              (case find matching (e # es) of None \<Rightarrow> True | Some e \<Rightarrow> \<not> removable e)
          | Some e' \<Rightarrow> find matching (e # es) = Some e' \<and> removable e' \<and>
              (\<exists>xs ys. e # es = xs @ e' # ys \<and> e # fs = xs @ ys)"
      using r False by (cases r) (auto, metis append_Cons)
    ultimately show ?thesis by blast
  qed
qed

lemma removeEntry_ok:
  assumes "sq_inv L q"
  shows "\<exists>r es. removeEntry L matching removable ctx0 q =
     Some (es = [],
           (case r of None \<Rightarrow> None | Some e \<Rightarrow> se_callback e),
           (case r of None \<Rightarrow> ctx0 | Some e \<Rightarrow> se_context e),
           q\<lparr>sq_entryList := es, sq_size := sum_list (map entry_weight es),
             sq_closedTimers := sq_closedTimers q @
               (case r of None \<Rightarrow> [] | Some e \<Rightarrow> fst (closeTimer e))\<rparr>) \<and>
     (case r of
        None \<Rightarrow> es = sq_entryList q \<and>
          (case find matching (sq_entryList q) of None \<Rightarrow> True | Some e \<Rightarrow> \<not> removable e)
      | Some e \<Rightarrow> find matching (sq_entryList q) = Some e \<and> removable e \<and>
          (\<exists>xs ys. sq_entryList q = xs @ e # ys \<and> es = xs @ ys))"
proof -
  have "list_all (entry_ok L) (sq_entryList q)"
    and "sq_size q = 0 + sum_list (map entry_weight (sq_entryList q))"
    using assms by (auto simp: sq_inv_def)
  from remove_loop_ok [OF this, of matching removable] show ?thesis
    unfolding removeEntry_def by (elim exE conjE) (simp, blast)
qed

lemma removeEntry_inv:
  assumes "sq_inv L q" and "removeEntry L matching removable ctx0 q = Some (b, cb, ctx, q')"
  shows "sq_inv L q'"
proof -
  obtain r es where q': "q' = q\<lparr>sq_entryList := es, sq_size := sum_list (map entry_weight es),
             sq_closedTimers := sq_closedTimers q @
               (case r of None \<Rightarrow> [] | Some e \<Rightarrow> fst (closeTimer e))\<rparr>"
    and r: "case r of
        None \<Rightarrow> es = sq_entryList q \<and>
          (case find matching (sq_entryList q) of None \<Rightarrow> True | Some e \<Rightarrow> \<not> removable e)
      | Some e \<Rightarrow> find matching (sq_entryList q) = Some e \<and> removable e \<and>
          (\<exists>xs ys. sq_entryList q = xs @ e # ys \<and> es = xs @ ys)"
    using removeEntry_ok [OF assms(1), of matching removable ctx0] assms(2) by auto
  from r assms(1) have "list_all (entry_ok L) es"
    by (cases r) (auto simp: sq_inv_def)
  with q' assms(1) show ?thesis by (simp add: sq_inv_def)
qed


subsection \<open>Every permitted run keeps the invariant\<close>

datatype 'blob sq_op =
    GenerateEntryId
  | PushEntry "'blob SendQueueEntry"
  | PopEntry
  | PopSize nat
  | RemoveEntryId u64
  | RemoveEntryToken u64
  | RemoveAll
  | SetData "'blob option"
  | SetLowWatermark nat
  | SetHighWatermark nat
  | AuthorizeLow
  | AuthorizeHigh
  | AuthorizeHighEffective nat

fun sq_step :: "'blob blob_library \<Rightarrow> 'blob sq_op \<Rightarrow> 'blob SendQueue \<Rightarrow> 'blob SendQueue option" where
  "sq_step L GenerateEntryId q = Some (snd (generateEntryId q))"
| "sq_step L (PushEntry e) q = map_option snd (SendQueue_pushEntry L e q)"
| "sq_step L PopEntry q = map_option snd (SendQueue_popEntry L q)"
| "sq_step L (PopSize n) q = SendQueue_popSize L n q"
| "sq_step L (RemoveEntryId i) q = map_option (\<lambda>(b, cb, q'). q') (removeEntryId L i q)"
| "sq_step L (RemoveEntryToken tok) q = map_option (\<lambda>(b, cb, q'). q') (removeEntryToken L tok q)"
| "sq_step L RemoveAll q = Some (snd (snd (SendQueue_removeAll [] q)))"
| "sq_step L (SetData d) q = Some (SendQueue_setData d q)"
| "sq_step L (SetLowWatermark n) q = Some (SendQueue_setLowWatermark n q)"
| "sq_step L (SetHighWatermark n) q = Some (SendQueue_setHighWatermark n q)"
| "sq_step L AuthorizeLow q = Some (snd (SendQueue_authorizeLowWatermarkEvent q))"
| "sq_step L AuthorizeHigh q = Some (snd (SendQueue_authorizeHighWatermarkEvent q))"
| "sq_step L (AuthorizeHighEffective n) q =
     Some (snd (SendQueue_authorizeHighWatermarkEvent_effective n q))"

text \<open>
  What the caller owes: an entry with data states the size of its data, which is not zero; only
  a queue with entries is popped; and a partial pop takes fewer bytes than the front entry has,
  from a representation and range that \<open>ntsa::DataUtil::pop\<close> handles.
\<close>

fun sq_permitted :: "'blob blob_library \<Rightarrow> 'blob sq_op \<Rightarrow> 'blob SendQueue \<Rightarrow> bool" where
  "sq_permitted L (PushEntry e) q = entry_ok L e"
| "sq_permitted L PopEntry q = (sq_entryList q \<noteq> [])"
| "sq_permitted L (PopSize n) q =
     (case sq_entryList q of
        [] \<Rightarrow> False
      | e # es \<Rightarrow> (case se_data e of None \<Rightarrow> False | Some d \<Rightarrow> poppable n d \<and> n < se_length e))"
| "sq_permitted L _ q = True"

lemma sq_inv_push:
  "sq_inv L q \<Longrightarrow> entry_ok L e \<Longrightarrow>
   sq_inv L (q\<lparr>sq_entryList := sq_entryList q @ [e], sq_size := sq_size q + entry_weight e\<rparr>)"
  by (simp add: sq_inv_def)

lemma sq_inv_pop:
  "sq_inv L q \<Longrightarrow> sq_entryList q = e # es \<Longrightarrow>
   sq_inv L (q\<lparr>sq_entryList := es, sq_size := sum_list (map entry_weight es),
               sq_closedTimers := ts\<rparr>)"
  by (simp add: sq_inv_def)

lemma popSize_inv:
  assumes "blob_library_ok L" and "sq_inv L q" and "sq_permitted L (PopSize n) q"
  shows "\<exists>t. SendQueue_popSize L n q = Some t \<and> sq_inv L t \<and> sq_size t = sq_size q - n"
proof -
  obtain e es d where e: "sq_entryList q = e # es" "se_data e = Some d" "poppable n d"
      "n < se_length e"
    using assms(3) by (auto split: list.splits option.splits)
  then show ?thesis
    using popSize_ok [OF assms(1,2) e] assms(2)
    by (auto simp: sq_inv_def entry_ok_def entry_weight_def)
qed

lemma sq_step_remove:
  assumes "sq_inv L q"
  shows "\<exists>t. sq_step L (RemoveEntryId i) q = Some t \<and> sq_inv L t"
    and "\<exists>t. sq_step L (RemoveEntryToken tok) q = Some t \<and> sq_inv L t"
  using removeEntry_ok [OF assms] removeEntry_inv [OF assms]
  by (fastforce simp: removeEntryId_def removeEntryToken_def bind_eq_Some_iff)+

lemma sq_step_watermarks:
  assumes "sq_inv L q"
  shows "sq_inv L (SendQueue_setLowWatermark n q)" "sq_inv L (SendQueue_setHighWatermark n q)"
    "sq_inv L (snd (SendQueue_authorizeLowWatermarkEvent q))"
    "sq_inv L (snd (SendQueue_authorizeHighWatermarkEvent q))"
    "sq_inv L (snd (SendQueue_authorizeHighWatermarkEvent_effective n q))"
  using assms sanitizeOutgoing_bounds
  by (auto simp: sq_inv_def SendQueue_setLowWatermark_def SendQueue_setHighWatermark_def
      SendQueue_authorizeLowWatermarkEvent_def SendQueue_authorizeHighWatermarkEvent_def
      SendQueue_authorizeHighWatermarkEvent_effective_def split: prod.splits)

lemma sq_step_inv:
  assumes "blob_library_ok L" and "sq_inv L q" and "sq_permitted L x q"
  shows "\<exists>t. sq_step L x q = Some t \<and> sq_inv L t"
proof (cases x)
  case GenerateEntryId
  with assms show ?thesis by (simp add: generateEntryId_def Let_def sq_inv_def)
next
  case (PushEntry e)
  with assms show ?thesis by (simp add: pushEntry_ok sq_inv_push)
next
  case PopEntry
  with assms obtain e es where "sq_entryList q = e # es" by (cases "sq_entryList q") auto
  with PopEntry assms(2) show ?thesis by (simp add: popEntry_ok sq_inv_pop)
next
  case (PopSize n)
  with popSize_inv [OF assms(1,2)] assms(3) show ?thesis by auto
next
  case RemoveAll
  with assms show ?thesis
    by (simp add: SendQueue_removeAll_def Let_def sq_inv_def split: prod.splits)
next
  case (SetData d)
  with assms show ?thesis by (simp add: SendQueue_setData_def sq_inv_def)
next
  case (RemoveEntryId i)
  with sq_step_remove(1) [OF assms(2)] show ?thesis by (simp only:)
next
  case (RemoveEntryToken tok)
  with sq_step_remove(2) [OF assms(2)] show ?thesis by (simp only:)
qed (use assms sq_step_watermarks in auto)

interpretation send_queue: guarded_component
  SendQueue_init "\<lambda>x q. blob_library_ok L \<and> sq_permitted L x q" "sq_step L" "sq_inv L" for L
  by unfold_locales (auto intro: sq_step_inv)

interpretation send_fifo: sized_queue
  sq_entryList sq_size entry_weight "entry_ok L" "sq_inv L" "SendQueue_pushEntry L"
  "SendQueue_popEntry L" for L
proof (unfold_locales, goal_cases)
  case (1 q)
  then show ?case by (simp add: sq_inv_def)
next
  case (2 q e)
  then show ?case by (simp add: pushEntry_ok sq_inv_push)
next
  case (3 q e es)
  then show ?case by (simp add: popEntry_ok sq_inv_pop)
next
  case (4 q)
  then show ?case by (simp add: SendQueue_popEntry_def)
qed

text \<open>
  Claim C18. Whatever sequence of operations is issued on a fresh send queue within what the
  caller owes (entries state the size of their data, only queues with entries are popped, a
  partial pop takes fewer bytes than the front entry has from a representation that supports
  it), no assertion of \<open>ntcq::SendQueue\<close> fails, and afterwards the cached size is the number of
  bytes of the entries that carry data, the low watermark is below the high watermark, and
  exactly one of the two watermark events is armed.
\<close>

theorem send_queue_run_safe:
  assumes "all_permitted (\<lambda>x q. blob_library_ok L \<and> sq_permitted L x q) (sq_step L) ops SendQueue_init"
  shows "\<exists>q. run_steps (sq_step L) ops SendQueue_init = Some q \<and>
           sq_size q = sum_list (map entry_weight (sq_entryList q)) \<and>
           sq_watermarkLow q < sq_watermarkHigh q \<and>
           sq_watermarkLowWanted q \<noteq> sq_watermarkHighWanted q"
  using send_queue.run_init [OF assms] by (auto simp: sq_inv_def)

text \<open>A blob library on byte lists, for examples.\<close>

definition list_blobs :: "bytes blob_library" where
  "list_blobs = \<lparr>blob_length = length, blob_erase_front = (\<lambda>b n. drop n b),
     blob_buffers = (\<lambda>b. [b]), blob_lastDataBufferLength = length\<rparr>"

lemma list_blobs_ok [simp]: "blob_library_ok list_blobs"
  by (simp add: blob_library_ok_def list_blobs_def)

definition sample_entry :: "u64 \<Rightarrow> bytes \<Rightarrow> bytes SendQueueEntry" where
  "sample_entry i b =
     SendQueueEntry_init\<lparr>se_id := i, se_data := Some (Blob b), se_length := length b,
       se_deadline := Some 10, se_timer := Some 7,
       se_callback := Some 3, se_context := SendContext_init\<lparr>sc_token := Some i\<rparr>\<rparr>"

theorem send_queue_run_safe_witness:
  "\<exists>q. run_steps (sq_step list_blobs)
         [PushEntry (sample_entry 2 [1, 2, 3]), PushEntry (sample_entry 3 [4, 5]), PopSize 2,
          RemoveEntryToken 3, SetLowWatermark 9] SendQueue_init = Some q \<and>
       sq_size q = sum_list (map entry_weight (sq_entryList q)) \<and>
       sq_watermarkLow q < sq_watermarkHigh q"
  using send_queue_run_safe [of list_blobs
      "[PushEntry (sample_entry 2 [1, 2, 3]), PushEntry (sample_entry 3 [4, 5]), PopSize 2,
        RemoveEntryToken 3, SetLowWatermark 9]"]
  by (auto simp: sample_entry_def SendQueueEntry_init_def SendQueue_init_def entry_ok_def
      SendQueue_pushEntry_def SendQueue_popSize_def closeTimer_def popBlob_def list_blobs_def [simp]
      sanitizeOutgoingQueueWatermarks_def ntf_defs removeEntryToken_def removeEntry_def discount_def
      Let_def blob_library_ok_def)

text \<open>
  Claim C26. The send queue is a first-in first-out queue: every run of pushes and pops that never pops
  an empty list returns the flags (became non-empty, became empty) that the same run returns on a plain list of
  entries, without failing an assertion, ends with the same entries, and its size is
  the number of bytes of the entries that carry data.
\<close>

theorem send_queue_refines_fifo:
  assumes "sq_inv L q" and "\<forall>e. PushOp e \<in> set ops \<longrightarrow> entry_ok L e"
    and "run_flags fifo_step ops (sq_entryList q) = Some (flags, es)"
  shows "\<exists>q'. run_flags (queue_step (SendQueue_pushEntry L) (SendQueue_popEntry L)) ops q
           = Some (flags, q') \<and>
         sq_entryList q' = es \<and> sq_size q' = sum_list (map entry_weight es)"
  using send_fifo.run_simulates [OF assms] by blast

lemma SendQueue_init_entryList: "sq_entryList SendQueue_init = []"
  by (simp add: SendQueue_init_def sanitizeOutgoingQueueWatermarks_def)

lemma sample_entry_ok [simp]: "b \<noteq> [] \<Longrightarrow> entry_ok list_blobs (sample_entry i b)"
  by (simp add: entry_ok_def sample_entry_def list_blobs_def)

lemma sample_entry_weight [simp]: "entry_weight (sample_entry i b) = length b"
  by (simp add: entry_weight_def sample_entry_def)

theorem send_queue_refines_fifo_witness:
  "\<exists>q'. run_flags (queue_step (SendQueue_pushEntry list_blobs) (SendQueue_popEntry list_blobs))
          [PushOp (sample_entry 2 [1, 2, 3]), PushOp (sample_entry 3 [4]), PopOp, PopOp,
           PushOp (sample_entry 4 [5, 6])] SendQueue_init
        = Some ([True, False, False, True, True], q') \<and>
        sq_entryList q' = [sample_entry 4 [5, 6]] \<and> sq_size q' = 2"
  using send_queue_refines_fifo [of list_blobs SendQueue_init
      "[PushOp (sample_entry 2 [1, 2, 3]), PushOp (sample_entry 3 [4]), PopOp, PopOp,
        PushOp (sample_entry 4 [5, 6])]" "[True, False, False, True, True]" "[sample_entry 4 [5, 6]]"]
  by (simp add: SendQueue_init_entryList numeral_2_eq_2)


subsection \<open>Cancelling an entry\<close>

text \<open>
  Removing by token takes out at most one entry, the first that carries the token,
  and only if none of its data has been sent yet; the other entries keep their order, the
  removed entry's bytes leave the size, its timer is closed, and its callback is handed to the
  caller. If no entry carries the token, or the first that does is in progress, nothing
  changes and no callback is handed out.
\<close>

theorem send_queue_remove_token:
  assumes "sq_inv L q"
  shows "\<exists>b cb q'. removeEntryToken L tok q = Some (b, cb, q') \<and> (b \<longleftrightarrow> sq_entryList q' = []) \<and>
     (case find (\<lambda>e. SendQueueEntry_token e = Some tok) (sq_entryList q) of
        None \<Rightarrow> q' = q \<and> cb = None
      | Some e \<Rightarrow>
          if se_inProgress e then q' = q \<and> cb = None
          else cb = se_callback e \<and>
               sq_size q = sq_size q' + entry_weight e \<and>
               sq_closedTimers q' = sq_closedTimers q @ fst (closeTimer e) \<and>
               (\<exists>xs ys. sq_entryList q = xs @ e # ys \<and> sq_entryList q' = xs @ ys))"
proof -
  let ?m = "\<lambda>e. SendQueueEntry_token e = Some tok"
  obtain r es where
    op: "removeEntryToken L tok q = Some (es = [],
           (case r of None \<Rightarrow> None | Some e \<Rightarrow> se_callback e),
           q\<lparr>sq_entryList := es, sq_size := sum_list (map entry_weight es),
             sq_closedTimers := sq_closedTimers q @
               (case r of None \<Rightarrow> [] | Some e \<Rightarrow> fst (closeTimer e))\<rparr>)"
    and r: "case r of
        None \<Rightarrow> es = sq_entryList q \<and>
          (case find ?m (sq_entryList q) of None \<Rightarrow> True | Some e \<Rightarrow> \<not> \<not> se_inProgress e)
      | Some e \<Rightarrow> find ?m (sq_entryList q) = Some e \<and> \<not> se_inProgress e \<and>
          (\<exists>xs ys. sq_entryList q = xs @ e # ys \<and> es = xs @ ys)"
    using removeEntry_ok [OF assms, of ?m "\<lambda>e. \<not> se_inProgress e" SendContext_init]
    unfolding removeEntryToken_def by auto
  have size: "sq_size q = sum_list (map entry_weight (sq_entryList q))"
    using assms by (simp add: sq_inv_def)
  show ?thesis
  proof (cases r)
    case None
    with op r size show ?thesis by (auto split: option.splits)
  next
    case (Some e)
    with op r size show ?thesis by auto
  qed
qed

definition sample_queue :: "bytes SendQueue" where
  "sample_queue = SendQueue_init\<lparr>sq_entryList := [sample_entry 2 [1, 2, 3], sample_entry 3 [4]],
     sq_size := 4\<rparr>"

lemma sample_queue_inv [simp]: "sq_inv list_blobs sample_queue"
  using sq_inv_init [of list_blobs] by (simp add: sample_queue_def sq_inv_def)

lemma sample_queue_entries [simp]:
  "sq_entryList sample_queue = [sample_entry 2 [1, 2, 3], sample_entry 3 [4]]"
  "sq_size sample_queue = 4"
  by (simp_all add: sample_queue_def)

lemma sample_entry_fields [simp]:
  "SendQueueEntry_token (sample_entry i b) = Some i"
  "se_callback (sample_entry i b) = Some 3"
  "\<not> se_inProgress (sample_entry i b)"
  by (simp_all add: sample_entry_def SendQueueEntry_init_def SendQueueEntry_token_def)

theorem send_queue_remove_token_witness:
  "sq_inv list_blobs sample_queue \<and>
   (\<exists>b q'. removeEntryToken list_blobs 2 sample_queue = Some (b, Some 3, q') \<and> sq_size q' = 1)"
  using send_queue_remove_token [OF sample_queue_inv, of 2] by auto

text \<open>
  A partial pop of an entry that holds a buffer array aborts the process when it
  crosses the end of the first buffer and fits in the second: \<open>ntsa::ConstBufferArray::pop\<close>
  removes too much, and the assertion that compares the size of the data with the length of
  the entry fails.
\<close>

theorem send_queue_pop_size_aborts:
  assumes "sq_inv L q" and "sq_entryList q = e # es" and "se_data e = Some (ConstBufferArray a)"
    and "BufferArray_wf a" and "ba_bufferArray a = b0 # b1 # bs"
    and "b0 \<noteq> []" and "length b0 < n" and "n \<le> length b1"
  shows "SendQueue_popSize L n q = None"
proof -
  have len: "ba_numBytes a = se_length e"
    using assms(1-3) by (simp add: sq_inv_def entry_ok_def)
  have pop: "ConstBufferArray_pop n a =
      Some (a\<lparr>ba_bufferArray := drop n b1 # bs, ba_numBytes := ba_numBytes a - length b0 - n\<rparr>)"
    using assms(4-8) by (auto simp: ConstBufferArray_pop_def BufferArray_wf_def Let_def)
  have "ba_numBytes a = length b0 + (length b1 + length (concat bs))" and "0 < length b0"
    using assms(4-6) by (auto simp: BufferArray_wf_def)
  then have "ba_numBytes a - length b0 - n \<noteq> ba_numBytes a - n"
    using assms(8) by linarith
  with len pop assms(2,3) show ?thesis
    by (auto simp: SendQueue_popSize_def closeTimer_def setInProgress_def setEntryData_def
        setLength_def Let_def split: option.splits)
qed

definition array_queue :: "bytes SendQueue" where
  "array_queue = SendQueue_init\<lparr>sq_entryList :=
     [SendQueueEntry_init\<lparr>se_data := Some (ConstBufferArray sample_array), se_length := 9\<rparr>],
     sq_size := 9\<rparr>"

lemma array_queue_inv [simp]: "sq_inv list_blobs array_queue"
  using sq_inv_init [of list_blobs] sample_array_wf
  by (simp add: array_queue_def sq_inv_def entry_ok_def entry_weight_def BufferArray_wf_def
      sample_array_buffers)

lemma array_queue_entryList:
  "sq_entryList array_queue =
     [SendQueueEntry_init\<lparr>se_data := Some (ConstBufferArray sample_array), se_length := 9\<rparr>]"
  by (simp add: array_queue_def)

theorem send_queue_pop_size_aborts_witness:
  "sq_inv list_blobs array_queue \<and> SendQueue_popSize list_blobs 5 array_queue = None"
  using send_queue_pop_size_aborts [of list_blobs array_queue, OF array_queue_inv _ _
      sample_array_wf sample_array_buffers, of _ _ 5]
  by (simp add: array_queue_entryList)

subsection \<open>Watermark events\<close>

datatype watermark_event = LowWatermarkEvent | HighWatermarkEvent

text \<open>The event an operation announces, with the size and the watermark it was judged by.\<close>

fun sq_event :: "'blob sq_op \<Rightarrow> 'blob SendQueue \<Rightarrow> (watermark_event \<times> nat \<times> nat) list" where
  "sq_event AuthorizeLow q =
     (if fst (SendQueue_authorizeLowWatermarkEvent q)
      then [(LowWatermarkEvent, sq_size q, sq_watermarkLow q)] else [])"
| "sq_event AuthorizeHigh q =
     (if fst (SendQueue_authorizeHighWatermarkEvent q)
      then [(HighWatermarkEvent, sq_size q, sq_watermarkHigh q)] else [])"
| "sq_event (AuthorizeHighEffective n) q =
     (if fst (SendQueue_authorizeHighWatermarkEvent_effective n q)
      then [(HighWatermarkEvent, sq_size q, n)] else [])"
| "sq_event _ q = []"

fun sq_events ::
  "'blob blob_library \<Rightarrow> 'blob sq_op list \<Rightarrow> 'blob SendQueue \<Rightarrow> (watermark_event \<times> nat \<times> nat) list"
  where
  "sq_events L [] q = []"
| "sq_events L (x # xs) q =
     sq_event x q @ (case sq_step L x q of None \<Rightarrow> [] | Some t \<Rightarrow> sq_events L xs t)"

fun other_event :: "watermark_event \<Rightarrow> watermark_event" where
  "other_event LowWatermarkEvent = HighWatermarkEvent"
| "other_event HighWatermarkEvent = LowWatermarkEvent"

fun alternating :: "watermark_event \<Rightarrow> watermark_event list \<Rightarrow> bool" where
  "alternating e [] = True"
| "alternating e (x # xs) = (x = e \<and> alternating (other_event e) xs)"

fun event_due :: "watermark_event \<times> nat \<times> nat \<Rightarrow> bool" where
  "event_due (LowWatermarkEvent, n, watermark) = (n \<le> watermark)"
| "event_due (HighWatermarkEvent, n, watermark) = (watermark \<le> n)"

definition armed_event :: "'blob SendQueue \<Rightarrow> watermark_event" where
  "armed_event q = (if sq_watermarkHighWanted q then HighWatermarkEvent else LowWatermarkEvent)"

definition one_armed :: "'blob SendQueue \<Rightarrow> bool" where
  "one_armed q \<longleftrightarrow> sq_watermarkLowWanted q \<noteq> sq_watermarkHighWanted q"

lemmas sq_authorize_defs =
  SendQueue_authorizeLowWatermarkEvent_def SendQueue_authorizeHighWatermarkEvent_def
  SendQueue_authorizeHighWatermarkEvent_effective_def

lemma removeEntry_armed:
  "removeEntry L matching removable c q = Some (b, cb, ctx, q') \<Longrightarrow>
   sq_watermarkLowWanted q' = sq_watermarkLowWanted q \<and>
   sq_watermarkHighWanted q' = sq_watermarkHighWanted q"
  by (auto simp: removeEntry_def bind_eq_Some_iff)

lemma popSize_armed:
  "SendQueue_popSize L n q = Some q' \<Longrightarrow>
   sq_watermarkLowWanted q' = sq_watermarkLowWanted q \<and>
   sq_watermarkHighWanted q' = sq_watermarkHighWanted q"
  by (auto simp: SendQueue_popSize_def bind_eq_Some_iff Let_def split: list.splits prod.splits
      if_splits)

lemma sq_step_event:
  assumes "sq_step L x q = Some t" and "one_armed q"
  shows "one_armed t \<and> list_all event_due (sq_event x q) \<and>
     (if sq_event x q = [] then armed_event t = armed_event q
      else map fst (sq_event x q) = [armed_event q] \<and> armed_event t = other_event (armed_event q))"
proof (cases x)
  case (RemoveEntryId i)
  with assms removeEntry_armed show ?thesis
    by (fastforce simp: removeEntryId_def bind_eq_Some_iff one_armed_def armed_event_def)
next
  case (RemoveEntryToken tok)
  with assms removeEntry_armed show ?thesis
    by (fastforce simp: removeEntryToken_def bind_eq_Some_iff one_armed_def armed_event_def)
next
  case (PopSize n)
  with assms popSize_armed [of L n q t] show ?thesis by (auto simp: one_armed_def armed_event_def)
qed (use assms in
      \<open>auto simp: one_armed_def armed_event_def generateEntryId_def SendQueue_pushEntry_def
        SendQueue_popEntry_def SendQueue_removeAll_def SendQueue_setData_def
        SendQueue_setLowWatermark_def SendQueue_setHighWatermark_def sq_authorize_defs
        bind_eq_Some_iff Let_def ntf_defs split: list.splits option.splits prod.splits if_splits\<close>)+

lemma sq_events_alternate:
  "one_armed q \<Longrightarrow>
   alternating (armed_event q) (map fst (sq_events L xs q)) \<and> list_all event_due (sq_events L xs q)"
proof (induction xs arbitrary: q)
  case Nil
  then show ?case by simp
next
  case (Cons x xs)
  show ?case
  proof (cases "sq_step L x q")
    case None
    then have "sq_event x q = []" by (cases x) auto
    with None show ?thesis by simp
  next
    case (Some t)
    with sq_step_event [OF Some Cons.prems] Cons.IH [of t] show ?thesis
      by (auto split: if_splits)
  qed
qed

lemma SendQueue_init_armed:
  "sq_watermarkHighWanted SendQueue_init" "\<not> sq_watermarkLowWanted SendQueue_init"
  by (simp_all add: SendQueue_init_def sanitizeOutgoingQueueWatermarks_def)

text \<open>
  In any sequence of operations on a fresh send queue, the announced watermark events
  alternate, starting with a high watermark event, and each is announced only when the size of
  the queue at that moment has reached the high watermark, or has fallen to the low watermark.
\<close>

theorem send_queue_events_alternate:
  "alternating HighWatermarkEvent (map fst (sq_events L ops SendQueue_init)) \<and>
   list_all event_due (sq_events L ops SendQueue_init)"
  using sq_events_alternate [of SendQueue_init L ops]
  by (simp add: one_armed_def armed_event_def SendQueue_init_armed)


subsection \<open>Batching is a greedy gather\<close>

text \<open>
  The reference: buffers are taken in order until the bytes or the buffers taken so far reach
  their limit; zero is no limit.
\<close>

definition batch_full :: "nat \<Rightarrow> nat \<Rightarrow> BufferArray \<Rightarrow> bool" where
  "batch_full maxBytes maxBuffers r \<longleftrightarrow>
     0 < maxBytes \<and> maxBytes \<le> ba_numBytes r \<or>
     0 < maxBuffers \<and> maxBuffers \<le> length (ba_bufferArray r)"

fun gather :: "nat \<Rightarrow> nat \<Rightarrow> bytes list \<Rightarrow> BufferArray \<Rightarrow> bool \<times> BufferArray" where
  "gather maxBytes maxBuffers [] r = (True, r)"
| "gather maxBytes maxBuffers (b # bs) r =
     (if batch_full maxBytes maxBuffers r then (False, r)
      else gather maxBytes maxBuffers bs (BufferArray_append b r))"

fun cut_last :: "nat \<Rightarrow> bytes list \<Rightarrow> bytes list" where
  "cut_last n [] = []"
| "cut_last n [b] = [take n b]"
| "cut_last n (b # c # bs) = b # cut_last n (c # bs)"

definition blob_data :: "'blob blob_library \<Rightarrow> 'blob \<Rightarrow> bytes list" where
  "blob_data L b = cut_last (blob_lastDataBufferLength L b) (blob_buffers L b)"

text \<open>The buffers an entry offers to a batch; \<^term>\<open>None\<close> where it ends the batch.\<close>

definition offered :: "'blob blob_library \<Rightarrow> 'blob SendQueueEntry \<Rightarrow> bytes list option" where
  "offered L e =
     (if se_foreignHandle e \<noteq> None then None
      else case se_data e of
        Some (Blob b) \<Rightarrow> Some (blob_data L b)
      | Some (SharedBlob (Some b)) \<Rightarrow> Some (blob_data L b)
      | Some (BlobBuffer b) \<Rightarrow> Some [b]
      | Some (ConstBuffer b) \<Rightarrow> Some [b]
      | Some (ConstBufferArray a) \<Rightarrow> Some (ba_bufferArray a)
      | Some (ConstBufferPtrArray a) \<Rightarrow> Some (take (bp_numBuffers a) (bp_bufferArray a))
      | Some (MutableBuffer b) \<Rightarrow> Some [b]
      | Some (MutableBufferArray a) \<Rightarrow> Some (ba_bufferArray a)
      | Some (MutableBufferPtrArray a) \<Rightarrow> Some (take (bp_numBuffers a) (bp_bufferArray a))
      | Some (String b) \<Rightarrow> Some [b]
      | _ \<Rightarrow> None)"

text \<open>A pointer array counts no more buffers than the caller's array has.\<close>

definition in_bounds :: "'blob SendQueueEntry \<Rightarrow> bool" where
  "in_bounds e \<longleftrightarrow>
     (case se_data e of
        Some (ConstBufferPtrArray a) \<Rightarrow> bp_numBuffers a \<le> length (bp_bufferArray a)
      | Some (MutableBufferPtrArray a) \<Rightarrow> bp_numBuffers a \<le> length (bp_bufferArray a)
      | _ \<Rightarrow> True)"

definition offered_buffers :: "'blob blob_library \<Rightarrow> 'blob SendQueueEntry list \<Rightarrow> bytes list" where
  "offered_buffers L es =
     concat (map (\<lambda>e. the (offered L e)) (takeWhile (\<lambda>e. offered L e \<noteq> None) es))"

lemma batchNext_ConstBuffer_gather:
  "batchNext_ConstBuffer perSend opts b r =
     gather (so_maxBytes opts) (effectiveMaxBuffers perSend opts) [b] r"
  by (auto simp: batchNext_ConstBuffer_def batch_full_def BufferArray_numBuffers_def Let_def)

lemma batchNext_MutableBuffer_eq: "batchNext_MutableBuffer = batchNext_ConstBuffer"
  by (simp add: fun_eq_iff batchNext_MutableBuffer_def batchNext_ConstBuffer_def)

lemma batchNext_array_gather:
  "batchNext_ConstBufferArray perSend opts bs r =
     gather (so_maxBytes opts) (effectiveMaxBuffers perSend opts) bs r"
  by (induction bs arbitrary: r) (auto simp: batchNext_ConstBuffer_gather)

lemma batchNext_MutableBufferArray_eq:
  "batchNext_MutableBufferArray perSend opts bs r = batchNext_ConstBufferArray perSend opts bs r"
  by (induction bs arbitrary: r)
     (simp_all add: batchNext_MutableBuffer_eq split: prod.splits bool.splits)

lemma batchNext_ptr_array_gather:
  "n \<le> length bs \<Longrightarrow>
   batchNext_ConstBufferPtrArray perSend opts n bs r =
     Some (gather (so_maxBytes opts) (effectiveMaxBuffers perSend opts) (take n bs) r)"
  by (induction perSend opts n bs r rule: batchNext_ConstBufferPtrArray.induct)
     (auto simp: batchNext_ConstBuffer_gather)

lemma batchNext_MutableBufferPtrArray_eq:
  "batchNext_MutableBufferPtrArray perSend opts n bs r =
     batchNext_ConstBufferPtrArray perSend opts n bs r"
proof (induction n arbitrary: bs r)
  case 0
  then show ?case by simp
next
  case (Suc n)
  then show ?case
    by (cases bs) (simp_all add: batchNext_MutableBuffer_eq split: prod.splits bool.splits)
qed

lemma batchNext_Blob_gather:
  "batchNext_Blob_loop maxBytes maxBuffers n bs r = gather maxBytes maxBuffers (cut_last n bs) r"
proof (induction n bs arbitrary: r rule: cut_last.induct)
  case (3 n b c bs)
  have "batchNext_Blob_loop maxBytes maxBuffers n (b # c # bs) r =
      (if batch_full maxBytes maxBuffers r then (False, r)
       else batchNext_Blob_loop maxBytes maxBuffers n (c # bs) (BufferArray_append b r))"
    by (subst batchNext_Blob_loop.simps) (simp only: batch_full_def BufferArray_numBuffers_def
        Let_def, simp)
  with 3 show ?case by simp
qed (auto simp: batch_full_def BufferArray_numBuffers_def)

lemmas batchNext_gather =
  batchNext_ConstBuffer_gather batchNext_MutableBuffer_eq batchNext_array_gather
  batchNext_MutableBufferArray_eq batchNext_ptr_array_gather batchNext_MutableBufferPtrArray_eq
  batchNext_Blob_gather

lemma entry_batchNext_gather:
  assumes "in_bounds e"
  shows "SendQueueEntry_batchNext L perSend opts e r =
     Some (case offered L e of
             None \<Rightarrow> (False, r)
           | Some bs \<Rightarrow> gather (so_maxBytes opts) (effectiveMaxBuffers perSend opts) bs r)"
proof (cases "se_data e")
  case None
  then show ?thesis
    by (simp add: SendQueueEntry_batchNext_def offered_def isBatchable_def)
next
  case (Some d)
  with assms show ?thesis
    by (cases d)
       (auto simp: SendQueueEntry_batchNext_def offered_def isBatchable_def batchNext_Blob_def
          blob_data_def in_bounds_def batchNext_gather split: option.splits)
qed

lemma gather_append:
  "gather m k (as @ bs) r =
     (case gather m k as r of (True, r') \<Rightarrow> gather m k bs r' | (False, r') \<Rightarrow> (False, r'))"
  by (induction as arbitrary: r) auto

lemma batch_loop_gather:
  assumes "list_all in_bounds es"
  shows "batch_loop L perSend opts es r =
     Some (snd (gather (so_maxBytes opts) (effectiveMaxBuffers perSend opts)
                  (offered_buffers L es) r))"
  using assms
proof (induction es arbitrary: r)
  case Nil
  then show ?case by (simp add: offered_buffers_def)
next
  case (Cons e es)
  let ?g = "gather (so_maxBytes opts) (effectiveMaxBuffers perSend opts)"
  have e: "SendQueueEntry_batchNext L perSend opts e r =
      Some (case offered L e of None \<Rightarrow> (False, r) | Some bs \<Rightarrow> ?g bs r)"
    using entry_batchNext_gather [of e] Cons.prems by simp
  show ?case
  proof (cases "offered L e")
    case None
    with e show ?thesis by (simp add: offered_buffers_def)
  next
    case (Some bs)
    obtain ok r' where g: "?g bs r = (ok, r')" by fastforce
    from Some have "offered_buffers L (e # es) = bs @ offered_buffers L es"
      by (simp add: offered_buffers_def)
    with Some e g Cons show ?thesis by (cases ok) (simp_all add: gather_append)
  qed
qed

text \<open>What the greedy gather takes.\<close>

lemma gather_prefix:
  assumes "gather m k bs r = (ok, r')"
  shows "\<exists>n. ba_bufferArray r' = ba_bufferArray r @ take n bs \<and>
     (BufferArray_wf r \<longrightarrow> BufferArray_wf r') \<and> (ok \<longrightarrow> n \<ge> length bs)"
  using assms
proof (induction bs arbitrary: r)
  case Nil
  then show ?case by simp
next
  case (Cons b bs)
  show ?case
  proof (cases "batch_full m k r")
    case True
    with Cons.prems show ?thesis by (auto intro: exI [of _ 0])
  next
    case False
    with Cons obtain n where
      "ba_bufferArray r' = ba_bufferArray (BufferArray_append b r) @ take n bs"
      "BufferArray_wf r \<longrightarrow> BufferArray_wf r'" "ok \<longrightarrow> n \<ge> length bs"
      using BufferArray_wf_append [of r b] by fastforce
    then show ?thesis
      by (intro exI [of _ "Suc n"]) (simp add: BufferArray_append_def)
  qed
qed

lemma gather_limits:
  assumes "gather m k bs r = (ok, r')" and "BufferArray_wf r"
    and "0 < k \<Longrightarrow> length (ba_bufferArray r) \<le> k"
    and "0 < m \<Longrightarrow> ba_bufferArray r = [] \<or> length (concat (butlast (ba_bufferArray r))) < m"
  shows "(0 < k \<longrightarrow> length (ba_bufferArray r') \<le> k) \<and>
     (0 < m \<longrightarrow> ba_bufferArray r' = [] \<or> length (concat (butlast (ba_bufferArray r'))) < m)"
  using assms
proof (induction bs arbitrary: r)
  case Nil
  then show ?case by simp
next
  case (Cons b bs)
  show ?case
  proof (cases "batch_full m k r")
    case True
    with Cons.prems show ?thesis by auto
  next
    case False
    show ?thesis
    proof (rule Cons.IH)
      show "gather m k bs (BufferArray_append b r) = (ok, r')"
        using Cons.prems(1) False by simp
    qed (use False Cons.prems(2) in
          \<open>auto simp: batch_full_def BufferArray_append_def BufferArray_wf_def\<close>)
  qed
qed

lemma batchNext_gathers:
  assumes "2 \<le> length (sq_entryList q)" and "list_all in_bounds (sq_entryList q)"
  shows "\<exists>r n. SendQueue_batchNext L perSend result opts q = Some (ba_bufferArray r \<noteq> [], r) \<and>
     r = snd (gather (so_maxBytes opts) (effectiveMaxBuffers perSend opts)
                (offered_buffers L (sq_entryList q)) BufferArray_init) \<and>
     ba_bufferArray r = take n (offered_buffers L (sq_entryList q)) \<and>
     BufferArray_wf r \<and>
     (0 < effectiveMaxBuffers perSend opts \<longrightarrow>
        length (ba_bufferArray r) \<le> effectiveMaxBuffers perSend opts) \<and>
     (0 < so_maxBytes opts \<longrightarrow>
        ba_bufferArray r = [] \<or> length (concat (butlast (ba_bufferArray r))) < so_maxBytes opts)"
proof -
  let ?k = "effectiveMaxBuffers perSend opts"
  let ?bs = "offered_buffers L (sq_entryList q)"
  obtain ok r where g: "gather (so_maxBytes opts) ?k ?bs BufferArray_init = (ok, r)"
    by fastforce
  have clear: "BufferArray_clear result = BufferArray_init"
    by (simp add: BufferArray_clear_def BufferArray_init_def)
  have opts: "effectiveMaxBuffers perSend (opts\<lparr>so_maxBuffers := perSend\<rparr>) = ?k"
    if "so_maxBuffers opts = 0"
    using that by (simp add: effectiveMaxBuffers_def)
  have "SendQueue_batchNext L perSend result opts q = Some (ba_bufferArray r \<noteq> [], r)"
    using assms g
    by (simp add: SendQueue_batchNext_def clear batch_loop_gather opts BufferArray_numBuffers_def)
  moreover obtain n where "ba_bufferArray r = take n ?bs" "BufferArray_wf r"
    using gather_prefix [OF g] by auto
  moreover note gather_limits [OF g BufferArray_wf_init]
  ultimately show ?thesis
    using g by (intro exI [of _ r] exI [of _ n]) auto
qed

text \<open>
  For a queue of two or more entries, \<open>SendQueue::batchNext\<close> gathers exactly what the
  reference does: the buffers of the leading batchable entries in order, each until a limit is
  reached. So the batch is a prefix of the data queued, it has no more buffers than the limit
  (of the options or of the operating system), its bytes without the last buffer stay below the
  byte limit, and the call succeeds exactly when the batch has a buffer.
\<close>

theorem send_queue_batch_gathers:
  assumes "2 \<le> length (sq_entryList q)" and "list_all in_bounds (sq_entryList q)"
  shows "\<exists>r n. SendQueue_batchNext L perSend result opts q = Some (ba_bufferArray r \<noteq> [], r) \<and>
     r = snd (gather (so_maxBytes opts) (effectiveMaxBuffers perSend opts)
                (offered_buffers L (sq_entryList q)) BufferArray_init) \<and>
     ba_bufferArray r = take n (offered_buffers L (sq_entryList q)) \<and>
     BufferArray_wf r \<and>
     (0 < effectiveMaxBuffers perSend opts \<longrightarrow>
        length (ba_bufferArray r) \<le> effectiveMaxBuffers perSend opts) \<and>
     (0 < so_maxBytes opts \<longrightarrow>
        ba_bufferArray r = [] \<or> length (concat (butlast (ba_bufferArray r))) < so_maxBytes opts)"
  using assms by (rule batchNext_gathers)

theorem send_queue_batch_gathers_witness:
  "\<exists>r. SendQueue_batchNext list_blobs 1024 BufferArray_init \<lparr>so_maxBytes = 3, so_maxBuffers = 0\<rparr>
         sample_queue = Some (True, r) \<and> ba_bufferArray r = [[1, 2, 3]]"
  using send_queue_batch_gathers [of sample_queue list_blobs 1024 BufferArray_init
      "\<lparr>so_maxBytes = 3, so_maxBuffers = 0\<rparr>"]
  by (auto simp: in_bounds_def sample_entry_def SendQueueEntry_init_def offered_buffers_def
      offered_def blob_data_def list_blobs_def batch_full_def effectiveMaxBuffers_def
      BufferArray_append_def BufferArray_init_def)

end
