(* ===== verification/Callback_State.thy ===== *)
theory Callback_State
  imports Ntf_Prelude
begin

section \<open>The guard of an asynchronous callback\<close>

text \<open>
  This theory models \<open>ntcs::CallbackState\<close> (\<open>ntcs_callbackstate.h\<close>): an atomic integer that lets
  at most one thread schedule a callback and at most one thread finish it. Both operations are
  a loop around an atomic load and an atomic compare-and-swap (\<open>testAndSwap\<close>), and threads
  interleave between the two. The model is a step relation with one rule per atomic access;
  the counter in a program location is the number of swaps that the call has lost so far. \<open>reset\<close>,
  which is called when an entry is cleared for another use, is not among the steps: the properties are
  those of one use, between two calls of \<open>reset\<close>.
\<close>

datatype callback_value = e_PENDING | e_SCHEDULED | e_FINISHED

subsection \<open>The operations run alone\<close>

definition CallbackState_init :: callback_value where
  "CallbackState_init = e_PENDING"

definition CallbackState_reset :: "callback_value \<Rightarrow> callback_value" where
  "CallbackState_reset v = e_PENDING"

text \<open>\<open>testAndSwap(compareValue, swapValue)\<close> returns the initial value.\<close>

definition testAndSwap ::
  "callback_value \<Rightarrow> callback_value \<Rightarrow> callback_value \<Rightarrow> callback_value \<times> callback_value" where
  "testAndSwap compareValue swapValue v = (v, if v = compareValue then swapValue else v)"

definition CallbackState_schedule :: "callback_value \<Rightarrow> bool \<times> callback_value" where
  "CallbackState_schedule v =
     (if v = e_PENDING then (True, snd (testAndSwap v e_SCHEDULED v)) else (False, v))"

definition CallbackState_finish :: "callback_value \<Rightarrow> bool \<times> callback_value" where
  "CallbackState_finish v =
     (if v \<noteq> e_FINISHED then (True, snd (testAndSwap v e_FINISHED v)) else (False, v))"

subsection \<open>Interleaved threads\<close>

datatype callback_pc =
    Outside
  | ScheduleLoad nat
  | ScheduleSwap nat callback_value
  | ScheduleReturned bool
  | FinishLoad nat
  | FinishSwap nat callback_value
  | FinishReturned bool

record callback_system =
  cb_value :: callback_value
  cb_pc :: "nat \<Rightarrow> callback_pc"

definition callback_system_init :: callback_system where
  "callback_system_init = \<lparr>cb_value = CallbackState_init, cb_pc = (\<lambda>_. Outside)\<rparr>"

abbreviation goto :: "nat \<Rightarrow> callback_pc \<Rightarrow> callback_system \<Rightarrow> callback_system" where
  "goto i pc s \<equiv> s\<lparr>cb_pc := (cb_pc s)(i := pc)\<rparr>"

inductive callback_step :: "callback_system \<Rightarrow> callback_system \<Rightarrow> bool" where
  call_schedule: "cb_pc s i = Outside \<Longrightarrow> callback_step s (goto i (ScheduleLoad 0) s)"
| schedule_load_pending:
    "cb_pc s i = ScheduleLoad n \<Longrightarrow> cb_value s = e_PENDING \<Longrightarrow>
     callback_step s (goto i (ScheduleSwap n e_PENDING) s)"
| schedule_load_other:
    "cb_pc s i = ScheduleLoad n \<Longrightarrow> cb_value s \<noteq> e_PENDING \<Longrightarrow>
     callback_step s (goto i (ScheduleReturned False) s)"
| schedule_swap_win:
    "cb_pc s i = ScheduleSwap n p \<Longrightarrow> testAndSwap p e_SCHEDULED (cb_value s) = (q, v) \<Longrightarrow> p = q \<Longrightarrow>
     callback_step s (goto i (ScheduleReturned True) (s\<lparr>cb_value := v\<rparr>))"
| schedule_swap_lose:
    "cb_pc s i = ScheduleSwap n p \<Longrightarrow> testAndSwap p e_SCHEDULED (cb_value s) = (q, v) \<Longrightarrow> p \<noteq> q \<Longrightarrow>
     callback_step s (goto i (ScheduleLoad (Suc n)) (s\<lparr>cb_value := v\<rparr>))"
| call_finish: "cb_pc s i = Outside \<Longrightarrow> callback_step s (goto i (FinishLoad 0) s)"
| finish_load_other:
    "cb_pc s i = FinishLoad n \<Longrightarrow> cb_value s \<noteq> e_FINISHED \<Longrightarrow>
     callback_step s (goto i (FinishSwap n (cb_value s)) s)"
| finish_load_finished:
    "cb_pc s i = FinishLoad n \<Longrightarrow> cb_value s = e_FINISHED \<Longrightarrow>
     callback_step s (goto i (FinishReturned False) s)"
| finish_swap_win:
    "cb_pc s i = FinishSwap n p \<Longrightarrow> testAndSwap p e_FINISHED (cb_value s) = (q, v) \<Longrightarrow> p = q \<Longrightarrow>
     callback_step s (goto i (FinishReturned True) (s\<lparr>cb_value := v\<rparr>))"
| finish_swap_lose:
    "cb_pc s i = FinishSwap n p \<Longrightarrow> testAndSwap p e_FINISHED (cb_value s) = (q, v) \<Longrightarrow> p \<noteq> q \<Longrightarrow>
     callback_step s (goto i (FinishLoad (Suc n)) (s\<lparr>cb_value := v\<rparr>))"

inductive callback_reachable :: "callback_system \<Rightarrow> bool" where
  start: "callback_reachable callback_system_init"
| step: "callback_reachable s \<Longrightarrow> callback_step s t \<Longrightarrow> callback_reachable t"

subsection \<open>The invariant\<close>

fun rank :: "callback_value \<Rightarrow> nat" where
  "rank e_PENDING = 0"
| "rank e_SCHEDULED = 1"
| "rank e_FINISHED = 2"

text \<open>
  What holds of one thread's location given the shared value: a call's loaded value was in the
  shared variable at some time, the value only advances, and every lost swap is witnessed by
  an advance.
\<close>

fun pc_ok :: "callback_value \<Rightarrow> callback_pc \<Rightarrow> bool" where
  "pc_ok v Outside = True"
| "pc_ok v (ScheduleLoad n) = (n \<le> 1 \<and> n \<le> rank v)"
| "pc_ok v (ScheduleSwap n p) = (p = e_PENDING \<and> n = 0)"
| "pc_ok v (ScheduleReturned b) = (b \<longrightarrow> v \<noteq> e_PENDING)"
| "pc_ok v (FinishLoad n) = (n \<le> rank v)"
| "pc_ok v (FinishSwap n p) = (p \<noteq> e_FINISHED \<and> n \<le> rank p \<and> rank p \<le> rank v)"
| "pc_ok v (FinishReturned b) = (b \<longrightarrow> v = e_FINISHED)"

definition callback_inv :: "callback_system \<Rightarrow> bool" where
  "callback_inv s \<longleftrightarrow>
     (\<forall>i. pc_ok (cb_value s) (cb_pc s i)) \<and>
     (\<forall>i j. cb_pc s i = ScheduleReturned True \<longrightarrow> cb_pc s j = ScheduleReturned True \<longrightarrow> i = j) \<and>
     (\<forall>i j. cb_pc s i = FinishReturned True \<longrightarrow> cb_pc s j = FinishReturned True \<longrightarrow> i = j)"

lemma rank_eq_iff [simp]: "rank v = rank w \<longleftrightarrow> v = w"
  by (cases v; cases w) simp_all

lemma rank_bounds [simp]:
  "rank v \<le> 2" "rank v = 0 \<longleftrightarrow> v = e_PENDING" "0 < rank v \<longleftrightarrow> v \<noteq> e_PENDING"
  "Suc 0 \<le> rank v \<longleftrightarrow> v \<noteq> e_PENDING" "2 \<le> rank v \<longleftrightarrow> v = e_FINISHED"
  by (cases v; simp)+

lemma pc_ok_advance: "pc_ok v pc \<Longrightarrow> rank v \<le> rank w \<Longrightarrow> pc_ok w pc"
  by (cases v; cases w; cases pc) auto

lemma callback_inv_move:
  assumes "callback_inv s" and "rank (cb_value s) \<le> rank v" and "pc_ok v pc"
    and "pc = ScheduleReturned True \<Longrightarrow> cb_value s = e_PENDING"
    and "pc = FinishReturned True \<Longrightarrow> cb_value s \<noteq> e_FINISHED"
  shows "callback_inv (goto i pc (s\<lparr>cb_value := v\<rparr>))"
proof -
  from assms(1) have ok: "pc_ok (cb_value s) (cb_pc s j)" for j
    by (simp add: callback_inv_def)
  have no_sched: "cb_pc s j \<noteq> ScheduleReturned True" if "cb_value s = e_PENDING" for j
    using ok [of j] that by auto
  have no_fin: "cb_pc s j \<noteq> FinishReturned True" if "cb_value s \<noteq> e_FINISHED" for j
    using ok [of j] that by auto
  show ?thesis
    using assms no_sched no_fin pc_ok_advance [OF ok assms(2)]
    by (auto simp: callback_inv_def)
qed

lemma callback_inv_goto:
  assumes "callback_inv s" and "pc_ok (cb_value s) pc"
    and "pc \<noteq> ScheduleReturned True" and "pc \<noteq> FinishReturned True"
  shows "callback_inv (goto i pc s)"
  using callback_inv_move [of s "cb_value s" pc i] assms by simp

lemma callback_step_inv: "callback_step s t \<Longrightarrow> callback_inv s \<Longrightarrow> callback_inv t"
proof (induction rule: callback_step.induct)
  case (schedule_swap_lose s i n p q v)
  have "pc_ok (cb_value s) (cb_pc s i)"
    using schedule_swap_lose.prems by (simp add: callback_inv_def)
  with schedule_swap_lose show ?case
    by (intro callback_inv_move) (auto simp: testAndSwap_def Suc_le_eq)
next
  case (finish_swap_lose s i n p q v)
  have "pc_ok (cb_value s) (cb_pc s i)"
    using finish_swap_lose.prems by (simp add: callback_inv_def)
  then have "n \<le> rank p" "rank p \<le> rank (cb_value s)"
    using finish_swap_lose.hyps by simp_all
  moreover have "rank p \<noteq> rank (cb_value s)"
    using finish_swap_lose.hyps unfolding rank_eq_iff by (auto simp: testAndSwap_def)
  ultimately have "Suc n \<le> rank (cb_value s)"
    by linarith
  then show ?case
    using finish_swap_lose by (intro callback_inv_move) (auto simp: testAndSwap_def)
next
  case (schedule_swap_win s i n p q v)
  have "pc_ok (cb_value s) (cb_pc s i)"
    using schedule_swap_win.prems by (simp add: callback_inv_def)
  with schedule_swap_win show ?case
    by (intro callback_inv_move) (auto simp: testAndSwap_def)
next
  case (finish_swap_win s i n p q v)
  have "pc_ok (cb_value s) (cb_pc s i)"
    using finish_swap_win.prems by (simp add: callback_inv_def)
  with finish_swap_win show ?case
    by (intro callback_inv_move) (auto simp: testAndSwap_def)
next
  case (schedule_load_pending s i n)
  have "pc_ok (cb_value s) (cb_pc s i)"
    using schedule_load_pending.prems by (simp add: callback_inv_def)
  with schedule_load_pending show ?case
    by (intro callback_inv_goto) auto
next
  case (finish_load_other s i n)
  have "pc_ok (cb_value s) (cb_pc s i)"
    using finish_load_other.prems by (simp add: callback_inv_def)
  with finish_load_other show ?case
    by (intro callback_inv_goto) auto
qed (auto intro: callback_inv_goto)

lemma callback_reachable_inv: "callback_reachable s \<Longrightarrow> callback_inv s"
proof (induction rule: callback_reachable.induct)
  case start
  then show ?case by (simp add: callback_inv_def callback_system_init_def)
next
  case (step s t)
  then show ?case by (blast intro: callback_step_inv)
qed

text \<open>
  Claim C28. However threads interleave their atomic loads and swaps, at most one call of
  \<open>schedule\<close> and at most one call of \<open>finish\<close> on the same callback returns true; once a
  \<open>finish\<close> has returned true the state is finished for good, and no \<open>schedule\<close> that has yet
  to swap can win any more.
\<close>

theorem callback_exclusive:
  assumes "callback_reachable s"
  shows "(cb_pc s i = ScheduleReturned True \<and> cb_pc s j = ScheduleReturned True \<longrightarrow> i = j) \<and>
    (cb_pc s i = FinishReturned True \<and> cb_pc s j = FinishReturned True \<longrightarrow> i = j) \<and>
    (cb_pc s i = FinishReturned True \<and> callback_step s t \<longrightarrow>
       cb_value t = e_FINISHED \<and>
       (cb_pc t j = ScheduleReturned True \<longrightarrow> cb_pc s j = ScheduleReturned True))"
proof -
  have inv: "callback_inv s" using assms by (rule callback_reachable_inv)
  then have ok: "pc_ok (cb_value s) (cb_pc s k)" for k
    by (simp add: callback_inv_def)
  have "cb_value t = e_FINISHED \<and>
      (cb_pc t j = ScheduleReturned True \<longrightarrow> cb_pc s j = ScheduleReturned True)"
    if "cb_pc s i = FinishReturned True" "callback_step s t"
  proof -
    from ok [of i] that(1) have fin: "cb_value s = e_FINISHED" by simp
    have "p = e_PENDING" if "cb_pc s k = ScheduleSwap n p" for k n p
      using ok [of k] that by simp
    with that(2) fin show ?thesis
      by (cases rule: callback_step.cases) (auto simp: testAndSwap_def split: if_splits)
  qed
  with inv show ?thesis by (auto simp: callback_inv_def)
qed

text \<open>
  A run in which thread 1 schedules the callback, and threads 0 and 2 race to finish it: both
  load \<open>SCHEDULED\<close>, thread 0 wins the swap and thread 2 loses it.
\<close>

definition callback_race :: callback_system where
  "callback_race = \<lparr>cb_value = e_FINISHED, cb_pc = (\<lambda>_. Outside)
     (1 := ScheduleReturned True, 0 := FinishReturned True, 2 := FinishLoad 1)\<rparr>"

lemma callback_race_reachable: "callback_reachable callback_race"
proof -
  let ?s = "\<lambda>v pcs. \<lparr>cb_value = v, cb_pc = pcs\<rparr>"
  let ?f0 = "(\<lambda>_. Outside) :: nat \<Rightarrow> callback_pc"
  let ?f1 = "?f0(1 := ScheduleReturned True)"
  note go = callback_reachable.step
  have "callback_reachable (?s e_PENDING ?f0)"
    using callback_reachable.start by (simp add: callback_system_init_def CallbackState_init_def)
  from go [OF this callback_step.call_schedule [of _ 1]]
  have "callback_reachable (?s e_PENDING (?f0(1 := ScheduleLoad 0)))" by simp
  from go [OF this callback_step.schedule_load_pending [of _ 1 0]]
  have "callback_reachable (?s e_PENDING (?f0(1 := ScheduleSwap 0 e_PENDING)))" by simp
  from go [OF this callback_step.schedule_swap_win [of _ 1 0 e_PENDING e_PENDING e_SCHEDULED]]
  have "callback_reachable (?s e_SCHEDULED ?f1)" by (simp add: testAndSwap_def)
  from go [OF this callback_step.call_finish [of _ 0]]
  have "callback_reachable (?s e_SCHEDULED (?f1(0 := FinishLoad 0)))" by simp
  from go [OF this callback_step.finish_load_other [of _ 0 0]]
  have "callback_reachable (?s e_SCHEDULED (?f1(0 := FinishSwap 0 e_SCHEDULED)))" by simp
  from go [OF this callback_step.call_finish [of _ 2]]
  have "callback_reachable
      (?s e_SCHEDULED (?f1(0 := FinishSwap 0 e_SCHEDULED, 2 := FinishLoad 0)))" by simp
  from go [OF this callback_step.finish_load_other [of _ 2 0]]
  have "callback_reachable
      (?s e_SCHEDULED (?f1(0 := FinishSwap 0 e_SCHEDULED, 2 := FinishSwap 0 e_SCHEDULED)))"
    by simp
  from go [OF this callback_step.finish_swap_win [of _ 0 0 e_SCHEDULED e_SCHEDULED e_FINISHED]]
  have "callback_reachable
      (?s e_FINISHED (?f1(0 := FinishReturned True, 2 := FinishSwap 0 e_SCHEDULED)))"
    by (simp add: testAndSwap_def fun_upd_twist)
  from go [OF this callback_step.finish_swap_lose [of _ 2 0 e_SCHEDULED e_FINISHED e_FINISHED]]
  show ?thesis by (simp add: testAndSwap_def callback_race_def)
qed

theorem callback_exclusive_witness:
  "callback_reachable callback_race \<and> cb_pc callback_race 0 = FinishReturned True \<and>
   callback_step callback_race (goto 2 (FinishReturned False) callback_race) \<and>
   cb_value (goto 2 (FinishReturned False) callback_race) = e_FINISHED"
proof -
  have fin: "cb_pc callback_race 0 = FinishReturned True"
    by (simp add: callback_race_def)
  have step: "callback_step callback_race (goto 2 (FinishReturned False) callback_race)"
    by (rule callback_step.finish_load_finished [of _ 2 1]) (simp_all add: callback_race_def)
  show ?thesis
    using callback_exclusive [OF callback_race_reachable, of 0 0
        "goto 2 (FinishReturned False) callback_race"] callback_race_reachable fin step
    by blast
qed

text \<open>
  Claim C35. The compare-and-swap loops are wait-free: in every reachable state a \<open>schedule\<close> has
  lost at most one swap and a \<open>finish\<close> at most two, however many threads compete, and a thread
  inside a call can always take its next step. So every call returns after at most two
  (\<open>schedule\<close>) or three (\<open>finish\<close>) rounds of its loop.
\<close>

theorem callback_wait_free:
  assumes "callback_reachable s"
  shows "(cb_pc s i = ScheduleLoad n \<longrightarrow> n \<le> 1) \<and> (cb_pc s i = ScheduleSwap n p \<longrightarrow> n = 0) \<and>
    (cb_pc s i = FinishLoad n \<longrightarrow> n \<le> 2) \<and> (cb_pc s i = FinishSwap n p \<longrightarrow> n \<le> 1) \<and>
    (\<exists>t. callback_step s t \<and> cb_pc t i \<noteq> cb_pc s i \<or>
       cb_pc s i \<in> {ScheduleReturned True, ScheduleReturned False,
                     FinishReturned True, FinishReturned False})"
proof -
  have ok: "pc_ok (cb_value s) (cb_pc s i)"
    using callback_reachable_inv [OF assms] by (simp add: callback_inv_def)
  have le1: "rank p \<le> 1" if "p \<noteq> e_FINISHED" for p
    using that by (cases p) simp_all
  have prog: "\<exists>t. callback_step s t \<and> cb_pc t i \<noteq> cb_pc s i \<or>
     cb_pc s i \<in> {ScheduleReturned True, ScheduleReturned False,
                   FinishReturned True, FinishReturned False}"
  proof (cases "cb_pc s i")
    case Outside
    then show ?thesis using callback_step.call_schedule [of s i] by fastforce
  next
    case (ScheduleLoad m)
    then show ?thesis
      using callback_step.schedule_load_pending [of s i m] callback_step.schedule_load_other [of s i m]
      by fastforce
  next
    case (ScheduleSwap m q)
    then show ?thesis
      using callback_step.schedule_swap_win [of s i m q q e_SCHEDULED]
        callback_step.schedule_swap_lose [of s i m q "cb_value s" "cb_value s"]
      by (cases "q = cb_value s") (fastforce simp: testAndSwap_def)+
  next
    case (FinishLoad m)
    then show ?thesis
      using callback_step.finish_load_other [of s i m] callback_step.finish_load_finished [of s i m]
      by fastforce
  next
    case (FinishSwap m q)
    then show ?thesis
      using callback_step.finish_swap_win [of s i m q q e_FINISHED]
        callback_step.finish_swap_lose [of s i m q "cb_value s" "cb_value s"]
      by (cases "q = cb_value s") (fastforce simp: testAndSwap_def)+
  qed auto
  show ?thesis
    using ok le1 le_trans rank_bounds(1) prog by fastforce
qed

theorem callback_wait_free_witness:
  "callback_reachable callback_race \<and> cb_pc callback_race 2 = FinishLoad 1 \<and> (1::nat) \<le> 2"
  using callback_wait_free [OF callback_race_reachable, of 2 1] callback_race_reachable
  by (simp add: callback_race_def)

end
