(* ===== verification/Receive_Queue.thy ===== *)
theory Receive_Queue
  imports Queue_Contract Callback_State
begin

section \<open>The receive queue of a socket\<close>

text \<open>
  This theory models \<open>ntca::ReceiveOptions\<close> and \<open>ntcq_receive.h\<close>/\<open>.cpp\<close>:
  \<open>ntcq::ReceiveCallbackQueueEntry\<close>, \<open>ntcq::ReceiveCallbackQueue\<close>, \<open>ntcq::ReceiveQueueEntry\<close>,
  \<open>ntcq::ReceiveFeedback\<close> and \<open>ntcq::ReceiveQueue\<close>. Callback entries are shared objects that
  the queue, timers and sockets refer to: the model keeps them in a store, a function from
  references to entries, and the callback queue holds references. The pool that recycles the
  entries belongs to the BDE library and is not part of the model.
\<close>

subsection \<open>ntca::ReceiveOptions\<close>

record ReceiveOptions =
  ro_token :: "u64 option"
  ro_minSize :: nat
  ro_maxSize :: nat
  ro_deadline :: "int option"
  ro_recurse :: bool

definition size_max :: nat where
  "size_max = 2 ^ 64 - 1"

definition ReceiveOptions_init :: ReceiveOptions where
  "ReceiveOptions_init =
     \<lparr>ro_token = None, ro_minSize = 1, ro_maxSize = size_max, ro_deadline = None,
      ro_recurse = False\<rparr>"

definition ReceiveOptions_reset :: "ReceiveOptions \<Rightarrow> ReceiveOptions" where
  "ReceiveOptions_reset r =
     r\<lparr>ro_token := None, ro_minSize := 1, ro_maxSize := size_max, ro_deadline := None,
       ro_recurse := False\<rparr>"

definition ReceiveOptions_setToken :: "u64 \<Rightarrow> ReceiveOptions \<Rightarrow> ReceiveOptions" where
  [ntf_defs]: "ReceiveOptions_setToken v r = r\<lparr>ro_token := Some v\<rparr>"

definition ReceiveOptions_setMinSize :: "nat \<Rightarrow> ReceiveOptions \<Rightarrow> ReceiveOptions" where
  "ReceiveOptions_setMinSize v r =
     (let r1 = r\<lparr>ro_minSize := v\<rparr> in
      if ro_minSize r1 = 0 then r1\<lparr>ro_minSize := 1\<rparr>
      else if ro_minSize r1 > ro_maxSize r1 then r1\<lparr>ro_maxSize := ro_minSize r1\<rparr>
      else r1)"

definition ReceiveOptions_setSize :: "nat \<Rightarrow> ReceiveOptions \<Rightarrow> ReceiveOptions" where
  "ReceiveOptions_setSize v r =
     (let r1 = r\<lparr>ro_minSize := v\<rparr>;
          r2 = (if ro_minSize r1 = 0 then r1\<lparr>ro_minSize := 1\<rparr> else r1)
      in r2\<lparr>ro_maxSize := ro_minSize r2\<rparr>)"

definition ReceiveOptions_setMaxSize :: "nat \<Rightarrow> ReceiveOptions \<Rightarrow> ReceiveOptions" where
  "ReceiveOptions_setMaxSize v r =
     (let r1 = r\<lparr>ro_maxSize := v\<rparr> in
      if ro_maxSize r1 < ro_minSize r1 then r1\<lparr>ro_minSize := ro_maxSize r1\<rparr> else r1)"

definition ReceiveOptions_setDeadline :: "int \<Rightarrow> ReceiveOptions \<Rightarrow> ReceiveOptions" where
  [ntf_defs]: "ReceiveOptions_setDeadline v r = r\<lparr>ro_deadline := Some v\<rparr>"

definition ReceiveOptions_setRecurse :: "bool \<Rightarrow> ReceiveOptions \<Rightarrow> ReceiveOptions" where
  [ntf_defs]: "ReceiveOptions_setRecurse v r = r\<lparr>ro_recurse := v\<rparr>"

definition ReceiveOptions_minSize :: "ReceiveOptions \<Rightarrow> nat option" where
  "ReceiveOptions_minSize r =
     do { bsls_assert (ro_minSize r \<noteq> 0);
          bsls_assert (ro_minSize r \<le> ro_maxSize r);
          Some (ro_minSize r) }"

definition ReceiveOptions_maxSize :: "ReceiveOptions \<Rightarrow> nat option" where
  "ReceiveOptions_maxSize r =
     do { bsls_assert (ro_maxSize r \<ge> ro_minSize r);
          Some (ro_maxSize r) }"

subsection \<open>ntcq::ReceiveCallbackQueueEntry\<close>

record ReceiveCallbackQueueEntry =
  rc_state :: callback_value
  rc_callback :: "callback_ref option"
  rc_options :: ReceiveOptions
  rc_timer :: "timer_ref option"

type_synonym receive_store = "nat \<Rightarrow> ReceiveCallbackQueueEntry"

definition ReceiveCallbackQueueEntry_init :: ReceiveCallbackQueueEntry where
  "ReceiveCallbackQueueEntry_init =
     \<lparr>rc_state = CallbackState_init, rc_callback = None, rc_options = ReceiveOptions_init,
      rc_timer = None\<rparr>"

text \<open>An operation that may close the timer returns the timers it closed beside the entry.\<close>

definition ReceiveCallbackQueueEntry_clear ::
  "ReceiveCallbackQueueEntry \<Rightarrow> timer_ref list \<times> ReceiveCallbackQueueEntry" where
  "ReceiveCallbackQueueEntry_clear e =
     (let e1 = e\<lparr>rc_state := CallbackState_reset (rc_state e), rc_callback := None,
                 rc_options := ReceiveOptions_reset (rc_options e)\<rparr> in
      case rc_timer e1 of
        None \<Rightarrow> ([], e1)
      | Some t \<Rightarrow> ([t], e1\<lparr>rc_timer := None\<rparr>))"

definition ReceiveCallbackQueueEntry_assign ::
  "callback_ref option \<Rightarrow> ReceiveOptions \<Rightarrow> ReceiveCallbackQueueEntry \<Rightarrow>
   ReceiveCallbackQueueEntry" where
  [ntf_defs]: "ReceiveCallbackQueueEntry_assign callback options e =
     e\<lparr>rc_callback := callback, rc_options := options\<rparr>"

definition ReceiveCallbackQueueEntry_setTimer ::
  "timer_ref option \<Rightarrow> ReceiveCallbackQueueEntry \<Rightarrow> ReceiveCallbackQueueEntry" where
  [ntf_defs]: "ReceiveCallbackQueueEntry_setTimer t e = e\<lparr>rc_timer := t\<rparr>"

definition ReceiveCallbackQueueEntry_closeTimer ::
  "ReceiveCallbackQueueEntry \<Rightarrow> timer_ref list \<times> ReceiveCallbackQueueEntry" where
  "ReceiveCallbackQueueEntry_closeTimer e =
     (case rc_timer e of
        None \<Rightarrow> ([], e)
      | Some t \<Rightarrow> ([t], e\<lparr>rc_timer := None\<rparr>))"

text \<open>
  \<open>dispatch\<close> returns the callback it invokes (or schedules on a strand or executor), the timers
  it closes and the entry.
\<close>

definition ReceiveCallbackQueueEntry_dispatch ::
  "ReceiveCallbackQueueEntry \<Rightarrow>
   callback_ref option \<times> timer_ref list \<times> ReceiveCallbackQueueEntry" where
  "ReceiveCallbackQueueEntry_dispatch e =
     (let (finished, v) = CallbackState_finish (rc_state e);
          e1 = e\<lparr>rc_state := v\<rparr> in
      if finished then
        let (ts, e2) =
              (case rc_timer e1 of None \<Rightarrow> ([], e1) | Some t \<Rightarrow> ([t], e1\<lparr>rc_timer := None\<rparr>));
            callback = rc_callback e2;
            e3 = e2\<lparr>rc_callback := None\<rparr>
        in (callback, ts, e3)
      else (None, [], e1))"

subsection \<open>ntcq::ReceiveCallbackQueue\<close>

record ReceiveCallbackQueue =
  rcq_entryList :: "nat list"

definition ReceiveCallbackQueue_init :: ReceiveCallbackQueue where
  "ReceiveCallbackQueue_init = \<lparr>rcq_entryList = []\<rparr>"

definition ReceiveCallbackQueue_push ::
  "nat \<Rightarrow> ReceiveCallbackQueue \<Rightarrow> ntsa_error \<times> ReceiveCallbackQueue" where
  "ReceiveCallbackQueue_push entry q = (E_OK, q\<lparr>rcq_entryList := rcq_entryList q @ [entry]\<rparr>)"

text \<open>The result parameter is unchanged where the code does not assign it.\<close>

definition ReceiveCallbackQueue_pop ::
  "receive_store \<Rightarrow> nat option \<Rightarrow> nat \<Rightarrow> ReceiveCallbackQueue \<Rightarrow>
   (ntsa_error \<times> nat option \<times> ReceiveCallbackQueue) option" where
  "ReceiveCallbackQueue_pop store result numBytesAvailable q =
     (case rcq_entryList q of
        entry # es \<Rightarrow>
          do { minSize \<leftarrow> ReceiveOptions_minSize (rc_options (store entry));
               if numBytesAvailable \<ge> minSize
               then Some (E_OK, Some entry, q\<lparr>rcq_entryList := es\<rparr>)
               else Some (E_WOULD_BLOCK, result, q) }
      | [] \<Rightarrow> Some (E_INVALID, result, q))"

definition ReceiveCallbackQueue_remove ::
  "nat \<Rightarrow> ReceiveCallbackQueue \<Rightarrow> ntsa_error \<times> ReceiveCallbackQueue" where
  "ReceiveCallbackQueue_remove entry q =
     (case remove_first (\<lambda>target. entry = target) (rcq_entryList q) of
        (Some e, es) \<Rightarrow> (E_OK, q\<lparr>rcq_entryList := es\<rparr>)
      | (None, es) \<Rightarrow> (E_EOF, q))"

definition ReceiveCallbackQueue_removeToken ::
  "receive_store \<Rightarrow> u64 \<Rightarrow> ReceiveCallbackQueue \<Rightarrow>
   ntsa_error \<times> nat option \<times> ReceiveCallbackQueue" where
  "ReceiveCallbackQueue_removeToken store tok q =
     (case remove_first (\<lambda>entry. ro_token (rc_options (store entry)) = Some tok) (rcq_entryList q) of
        (Some e, es) \<Rightarrow> (E_OK, Some e, q\<lparr>rcq_entryList := es\<rparr>)
      | (None, es) \<Rightarrow> (E_EOF, None, q))"

definition ReceiveCallbackQueue_removeAll ::
  "nat list \<Rightarrow> ReceiveCallbackQueue \<Rightarrow> nat list \<times> ReceiveCallbackQueue" where
  "ReceiveCallbackQueue_removeAll result q =
     (result @ rcq_entryList q, q\<lparr>rcq_entryList := []\<rparr>)"

definition ReceiveCallbackQueue_size :: "ReceiveCallbackQueue \<Rightarrow> nat" where
  [ntf_defs]: "ReceiveCallbackQueue_size q = length (rcq_entryList q)"

definition ReceiveCallbackQueue_empty :: "ReceiveCallbackQueue \<Rightarrow> bool" where
  [ntf_defs]: "ReceiveCallbackQueue_empty q = (rcq_entryList q = [])"

subsection \<open>ntcq::ReceiveQueueEntry\<close>

record 'blob ReceiveQueueEntry =
  re_endpoint :: "endpoint_ref option"
  re_data :: "'blob option"
  re_length :: nat
  re_timestamp :: int
  re_foreignHandle :: "handle option"

definition ReceiveQueueEntry_init :: "'blob ReceiveQueueEntry" where
  "ReceiveQueueEntry_init =
     \<lparr>re_endpoint = None, re_data = None, re_length = 0, re_timestamp = 0,
      re_foreignHandle = None\<rparr>"

definition ReceiveQueueEntry_setEndpoint ::
  "endpoint_ref option \<Rightarrow> 'blob ReceiveQueueEntry \<Rightarrow> 'blob ReceiveQueueEntry" where
  [ntf_defs]: "ReceiveQueueEntry_setEndpoint v e = e\<lparr>re_endpoint := v\<rparr>"

definition ReceiveQueueEntry_setData ::
  "'blob option \<Rightarrow> 'blob ReceiveQueueEntry \<Rightarrow> 'blob ReceiveQueueEntry" where
  [ntf_defs]: "ReceiveQueueEntry_setData v e = e\<lparr>re_data := v\<rparr>"

definition ReceiveQueueEntry_setLength ::
  "nat \<Rightarrow> 'blob ReceiveQueueEntry \<Rightarrow> 'blob ReceiveQueueEntry" where
  [ntf_defs]: "ReceiveQueueEntry_setLength v e = e\<lparr>re_length := v\<rparr>"

definition ReceiveQueueEntry_setTimestamp ::
  "int \<Rightarrow> 'blob ReceiveQueueEntry \<Rightarrow> 'blob ReceiveQueueEntry" where
  [ntf_defs]: "ReceiveQueueEntry_setTimestamp v e = e\<lparr>re_timestamp := v\<rparr>"

definition ReceiveQueueEntry_setForeignHandle ::
  "handle \<Rightarrow> 'blob ReceiveQueueEntry \<Rightarrow> 'blob ReceiveQueueEntry" where
  [ntf_defs]: "ReceiveQueueEntry_setForeignHandle v e = e\<lparr>re_foreignHandle := Some v\<rparr>"

definition ReceiveQueueEntry_delay :: "int \<Rightarrow> 'blob ReceiveQueueEntry \<Rightarrow> int" where
  "ReceiveQueueEntry_delay now e =
     (let delayInNanoseconds = now - re_timestamp e in
      if delayInNanoseconds < 0 then 0 else delayInNanoseconds)"


subsection \<open>ntcq::ReceiveFeedback\<close>

record ReceiveFeedback =
  rf_minimum :: nat
  rf_current :: nat
  rf_maximum :: nat
  rf_increaseFactor :: nat
  rf_decreaseFactor :: nat
  rf_count :: nat

definition ReceiveFeedback_create :: "nat \<Rightarrow> nat \<Rightarrow> ReceiveFeedback" where
  "ReceiveFeedback_create minimum maximum =
     \<lparr>rf_minimum = minimum, rf_current = minimum, rf_maximum = maximum,
      rf_increaseFactor = 8192, rf_decreaseFactor = 2, rf_count = 0\<rparr>"

definition ReceiveFeedback_init :: ReceiveFeedback where
  "ReceiveFeedback_init =
     \<lparr>rf_minimum = 4096, rf_current = 4096, rf_maximum = 524288,
      rf_increaseFactor = 8192, rf_decreaseFactor = 2, rf_count = 0\<rparr>"

definition ReceiveFeedback_setMinimum :: "nat \<Rightarrow> ReceiveFeedback \<Rightarrow> ReceiveFeedback" where
  [ntf_defs]: "ReceiveFeedback_setMinimum v f = f\<lparr>rf_minimum := v\<rparr>"

definition ReceiveFeedback_setMaximum :: "nat \<Rightarrow> ReceiveFeedback \<Rightarrow> ReceiveFeedback" where
  [ntf_defs]: "ReceiveFeedback_setMaximum v f = f\<lparr>rf_maximum := v\<rparr>"

definition ReceiveFeedback_setIncreaseFactor :: "nat \<Rightarrow> ReceiveFeedback \<Rightarrow> ReceiveFeedback" where
  [ntf_defs]: "ReceiveFeedback_setIncreaseFactor v f = f\<lparr>rf_increaseFactor := v\<rparr>"

definition ReceiveFeedback_setDecreaseFactor :: "nat \<Rightarrow> ReceiveFeedback \<Rightarrow> ReceiveFeedback" where
  [ntf_defs]: "ReceiveFeedback_setDecreaseFactor v f = f\<lparr>rf_decreaseFactor := v\<rparr>"

text \<open>A division by a decrease factor of zero is undefined: \<^term>\<open>None\<close>.\<close>

definition setCongestion :: "bool \<Rightarrow> ReceiveFeedback \<Rightarrow> ReceiveFeedback option" where
  "setCongestion congestion f =
     (if congestion then
        (if rf_current f < rf_maximum f then
           let f1 = f\<lparr>rf_current := rf_current f + rf_increaseFactor f\<rparr> in
           Some (if rf_current f1 > rf_maximum f1 then f1\<lparr>rf_current := rf_maximum f1\<rparr> else f1)
         else Some f)
      else
        let f1 = f\<lparr>rf_count := rf_count f + 1\<rparr> in
        if rf_count f1 < 10 then Some f1
        else
          let f2 = f1\<lparr>rf_count := 0\<rparr> in
          if rf_current f2 > rf_minimum f2 then
            do { bsls_assert (rf_decreaseFactor f2 \<noteq> 0);
                 let f3 = f2\<lparr>rf_current := rf_current f2 div rf_decreaseFactor f2\<rparr>;
                 Some (if rf_current f3 < rf_minimum f3 then f3\<lparr>rf_current := rf_minimum f3\<rparr>
                       else f3) }
          else Some f2)"

definition setFeedback :: "nat \<Rightarrow> nat \<Rightarrow> ReceiveFeedback \<Rightarrow> ReceiveFeedback option" where
  "setFeedback numBytesReceivable numBytesReceived f =
     (if numBytesReceived > numBytesReceivable then Some f
      else
        let threshold = (numBytesReceivable * 90) div 100 in
        if numBytesReceived \<ge> threshold then setCongestion True f
        else setCongestion False f)"

subsection \<open>ntcq::ReceiveQueue\<close>

record 'blob ReceiveQueue =
  rq_entryList :: "'blob ReceiveQueueEntry list"
  rq_data :: "'blob option"
  rq_size :: nat
  rq_watermarkLow :: nat
  rq_watermarkLowWanted :: bool
  rq_watermarkHigh :: nat
  rq_watermarkHighWanted :: bool
  rq_trigger :: ReactorEventTrigger
  rq_callbackQueue :: ReceiveCallbackQueue

definition ReceiveQueue_init :: "'blob ReceiveQueue" where
  "ReceiveQueue_init =
     (let (low, high) = sanitizeIncomingQueueWatermarks (1, 536870912) in
      \<lparr>rq_entryList = [], rq_data = None, rq_size = 0, rq_watermarkLow = low,
       rq_watermarkLowWanted = True, rq_watermarkHigh = high, rq_watermarkHighWanted = True,
       rq_trigger = e_LEVEL, rq_callbackQueue = ReceiveCallbackQueue_init\<rparr>)"

definition ReceiveQueue_pushEntry ::
  "'blob ReceiveQueueEntry \<Rightarrow> 'blob ReceiveQueue \<Rightarrow> (bool \<times> 'blob ReceiveQueue) option" where
  "ReceiveQueue_pushEntry e q =
     (let q1 = q\<lparr>rq_entryList := rq_entryList q @ [e]\<rparr> in
      do { bsls_assert (re_length e > 0);
           let q2 = q1\<lparr>rq_size := rq_size q1 + re_length e\<rparr>;
           Some (length (rq_entryList q2) = 1, q2) })"

definition ReceiveQueue_frontEntry :: "'blob ReceiveQueue \<Rightarrow> 'blob ReceiveQueueEntry option" where
  "ReceiveQueue_frontEntry q = (case rq_entryList q of [] \<Rightarrow> None | e # es \<Rightarrow> Some e)"

text \<open>The end of \<open>popEntry\<close> and \<open>popSize\<close>: an edge-triggered queue below its low watermark is armed.\<close>

definition ReceiveQueue_rearm :: "'blob ReceiveQueue \<Rightarrow> 'blob ReceiveQueue" where
  "ReceiveQueue_rearm q =
     (if rq_trigger q = e_EDGE then
        (if rq_size q < rq_watermarkLow q
         then q\<lparr>rq_watermarkLowWanted := True, rq_watermarkHighWanted := True\<rparr>
         else q)
      else q)"

definition ReceiveQueue_popEntry ::
  "'blob ReceiveQueue \<Rightarrow> (bool \<times> 'blob ReceiveQueue) option" where
  "ReceiveQueue_popEntry q =
     (case rq_entryList q of
        [] \<Rightarrow> None
      | e # es \<Rightarrow>
          do { bsls_assert (re_length e > 0);
               bsls_assert (rq_size q \<ge> re_length e);
               let q1 = ReceiveQueue_rearm (q\<lparr>rq_size := rq_size q - re_length e\<rparr>);
               Some (es = [], q1\<lparr>rq_entryList := es\<rparr>) })"

definition ReceiveQueue_popSize :: "nat \<Rightarrow> 'blob ReceiveQueue \<Rightarrow> 'blob ReceiveQueue option" where
  "ReceiveQueue_popSize numBytes q =
     (case rq_entryList q of
        [] \<Rightarrow> None
      | e # es \<Rightarrow>
          do { bsls_assert (re_length e \<ge> numBytes);
               let e1 = ReceiveQueueEntry_setLength (re_length e - numBytes) e;
               bsls_assert (rq_size q \<ge> numBytes);
               Some (ReceiveQueue_rearm
                       (q\<lparr>rq_entryList := e1 # es, rq_size := rq_size q - numBytes\<rparr>)) })"

definition ReceiveQueue_pushCallbackEntry ::
  "nat \<Rightarrow> 'blob ReceiveQueue \<Rightarrow> ntsa_error \<times> 'blob ReceiveQueue" where
  "ReceiveQueue_pushCallbackEntry entry q =
     (let (err, c) = ReceiveCallbackQueue_push entry (rq_callbackQueue q)
      in (err, q\<lparr>rq_callbackQueue := c\<rparr>))"

definition ReceiveQueue_popCallbackEntry ::
  "receive_store \<Rightarrow> nat option \<Rightarrow> 'blob ReceiveQueue \<Rightarrow>
   (ntsa_error \<times> nat option \<times> 'blob ReceiveQueue) option" where
  "ReceiveQueue_popCallbackEntry store result q =
     (if rq_entryList q = [] then Some (E_WOULD_BLOCK, result, q)
      else do { (err, r, c) \<leftarrow> ReceiveCallbackQueue_pop store result (rq_size q) (rq_callbackQueue q);
                Some (err, r, q\<lparr>rq_callbackQueue := c\<rparr>) })"

definition ReceiveQueue_popAllCallbackEntries ::
  "nat list \<Rightarrow> 'blob ReceiveQueue \<Rightarrow> nat list \<times> 'blob ReceiveQueue" where
  "ReceiveQueue_popAllCallbackEntries result q =
     (let (r, c) = ReceiveCallbackQueue_removeAll result (rq_callbackQueue q)
      in (r, q\<lparr>rq_callbackQueue := c\<rparr>))"

definition ReceiveQueue_removeCallbackEntry ::
  "nat \<Rightarrow> 'blob ReceiveQueue \<Rightarrow> ntsa_error \<times> 'blob ReceiveQueue" where
  "ReceiveQueue_removeCallbackEntry entry q =
     (let (err, c) = ReceiveCallbackQueue_remove entry (rq_callbackQueue q)
      in (err, q\<lparr>rq_callbackQueue := c\<rparr>))"

definition ReceiveQueue_removeCallbackToken ::
  "receive_store \<Rightarrow> u64 \<Rightarrow> 'blob ReceiveQueue \<Rightarrow> ntsa_error \<times> nat option \<times> 'blob ReceiveQueue" where
  "ReceiveQueue_removeCallbackToken store tok q =
     (let (err, r, c) = ReceiveCallbackQueue_removeToken store tok (rq_callbackQueue q)
      in (err, r, q\<lparr>rq_callbackQueue := c\<rparr>))"

definition ReceiveQueue_setData :: "'blob option \<Rightarrow> 'blob ReceiveQueue \<Rightarrow> 'blob ReceiveQueue" where
  [ntf_defs]: "ReceiveQueue_setData v q = q\<lparr>rq_data := v\<rparr>"

definition ReceiveQueue_setTrigger ::
  "ReactorEventTrigger \<Rightarrow> 'blob ReceiveQueue \<Rightarrow> 'blob ReceiveQueue" where
  [ntf_defs]: "ReceiveQueue_setTrigger v q = q\<lparr>rq_trigger := v, rq_watermarkLowWanted := True\<rparr>"

definition ReceiveQueue_setLowWatermark :: "nat \<Rightarrow> 'blob ReceiveQueue \<Rightarrow> 'blob ReceiveQueue" where
  "ReceiveQueue_setLowWatermark lowWatermark q =
     (let (low, high) = sanitizeIncomingQueueWatermarks (lowWatermark, rq_watermarkHigh q)
      in q\<lparr>rq_watermarkLowWanted := True, rq_watermarkLow := low, rq_watermarkHigh := high\<rparr>)"

definition ReceiveQueue_setHighWatermark :: "nat \<Rightarrow> 'blob ReceiveQueue \<Rightarrow> 'blob ReceiveQueue" where
  "ReceiveQueue_setHighWatermark highWatermark q =
     (let (low, high) = sanitizeIncomingQueueWatermarks (rq_watermarkLow q, highWatermark)
      in q\<lparr>rq_watermarkHighWanted := True, rq_watermarkLow := low, rq_watermarkHigh := high\<rparr>)"

definition ReceiveQueue_authorizeLowWatermarkEvent ::
  "'blob ReceiveQueue \<Rightarrow> bool \<times> 'blob ReceiveQueue" where
  "ReceiveQueue_authorizeLowWatermarkEvent q =
     (if isIncomingQueueLowWatermarkSatisfied (rq_size q) (rq_watermarkLow q) then
        (if rq_trigger q = e_EDGE then
           (if rq_watermarkLowWanted q then (True, q\<lparr>rq_watermarkLowWanted := False\<rparr>)
            else (False, q))
         else (True, q))
      else (False, q))"

definition ReceiveQueue_authorizeHighWatermarkEvent ::
  "'blob ReceiveQueue \<Rightarrow> bool \<times> 'blob ReceiveQueue" where
  "ReceiveQueue_authorizeHighWatermarkEvent q =
     (if isIncomingQueueHighWatermarkViolated (rq_size q) (rq_watermarkHigh q) then
        (if rq_trigger q = e_EDGE then
           (if rq_watermarkHighWanted q then (True, q\<lparr>rq_watermarkHighWanted := False\<rparr>)
            else (False, q))
         else (True, q))
      else (False, q))"

definition ReceiveQueue_hasEntry :: "'blob ReceiveQueue \<Rightarrow> bool" where
  [ntf_defs]: "ReceiveQueue_hasEntry q = (rq_entryList q \<noteq> [])"

definition ReceiveQueue_hasCallbackEntry :: "'blob ReceiveQueue \<Rightarrow> bool" where
  [ntf_defs]: "ReceiveQueue_hasCallbackEntry q = (\<not> ReceiveCallbackQueue_empty (rq_callbackQueue q))"

definition ReceiveQueue_isLowWatermarkSatisfied :: "'blob ReceiveQueue \<Rightarrow> bool" where
  [ntf_defs]: "ReceiveQueue_isLowWatermarkSatisfied q =
     isIncomingQueueLowWatermarkSatisfied (rq_size q) (rq_watermarkLow q)"

definition ReceiveQueue_isHighWatermarkViolated :: "'blob ReceiveQueue \<Rightarrow> bool" where
  [ntf_defs]: "ReceiveQueue_isHighWatermarkViolated q =
     isIncomingQueueHighWatermarkViolated (rq_size q) (rq_watermarkHigh q)"

definition ReceiveQueue_context :: "'blob ReceiveQueue \<Rightarrow> nat \<times> nat \<times> nat" where
  [ntf_defs]: "ReceiveQueue_context q = (rq_size q, rq_watermarkLow q, rq_watermarkHigh q)"


subsection \<open>Receive options\<close>

datatype receive_options_op =
    OptToken u64
  | OptMinSize nat
  | OptSize nat
  | OptMaxSize nat
  | OptDeadline int
  | OptRecurse bool

fun receive_options_step :: "receive_options_op \<Rightarrow> ReceiveOptions \<Rightarrow> ReceiveOptions" where
  "receive_options_step (OptToken v) r = ReceiveOptions_setToken v r"
| "receive_options_step (OptMinSize v) r = ReceiveOptions_setMinSize v r"
| "receive_options_step (OptSize v) r = ReceiveOptions_setSize v r"
| "receive_options_step (OptMaxSize v) r = ReceiveOptions_setMaxSize v r"
| "receive_options_step (OptDeadline v) r = ReceiveOptions_setDeadline v r"
| "receive_options_step (OptRecurse v) r = ReceiveOptions_setRecurse v r"

definition receive_options_ok :: "ReceiveOptions \<Rightarrow> bool" where
  "receive_options_ok r \<longleftrightarrow> 1 \<le> ro_minSize r \<and> ro_minSize r \<le> ro_maxSize r"

lemma receive_options_ok_init [simp]: "receive_options_ok ReceiveOptions_init"
  by (simp add: receive_options_ok_def ReceiveOptions_init_def size_max_def)

lemma receive_options_step_ok:
  "receive_options_ok r \<Longrightarrow> x \<noteq> OptMaxSize 0 \<Longrightarrow> receive_options_ok (receive_options_step x r)"
  by (cases x) (auto simp: receive_options_ok_def ReceiveOptions_setMinSize_def
      ReceiveOptions_setSize_def ReceiveOptions_setMaxSize_def Let_def ntf_defs)

lemma receive_options_run_ok:
  "receive_options_ok r \<Longrightarrow> OptMaxSize 0 \<notin> set xs \<Longrightarrow> receive_options_ok (fold receive_options_step xs r)"
proof (induction xs arbitrary: r)
  case Nil
  then show ?case by simp
next
  case (Cons x xs)
  then have "receive_options_ok (receive_options_step x r)"
    by (intro receive_options_step_ok) auto
  with Cons.IH Cons.prems show ?case by simp
qed

text \<open>
  Whatever setters are called on fresh receive options, unless the maximum size is set
  to zero, the minimum and the maximum size can be read without a failed assertion and
  \<open>1 \<le> minimum \<le> maximum\<close>. If the last call sets the maximum size to zero, reading the minimum
  size, which every attempt to pop a receive callback does, aborts the process.
\<close>

theorem receive_options_sizes:
  "(OptMaxSize 0 \<in> set ops \<or>
     (\<exists>lo hi. ReceiveOptions_minSize (fold receive_options_step ops ReceiveOptions_init) = Some lo \<and>
        ReceiveOptions_maxSize (fold receive_options_step ops ReceiveOptions_init) = Some hi \<and>
        1 \<le> lo \<and> lo \<le> hi)) \<and>
   ReceiveOptions_minSize
     (fold receive_options_step (ops @ [OptMaxSize 0]) ReceiveOptions_init) = None"
proof (intro conjI)
  let ?r = "fold receive_options_step ops ReceiveOptions_init"
  show "OptMaxSize 0 \<in> set ops \<or> (\<exists>lo hi. ReceiveOptions_minSize ?r = Some lo \<and>
      ReceiveOptions_maxSize ?r = Some hi \<and> 1 \<le> lo \<and> lo \<le> hi)"
    using receive_options_run_ok [OF receive_options_ok_init, of ops]
    by (cases "OptMaxSize 0 \<in> set ops")
       (simp_all add: ReceiveOptions_minSize_def ReceiveOptions_maxSize_def receive_options_ok_def)
qed (simp add: ReceiveOptions_minSize_def ReceiveOptions_setMaxSize_def Let_def)

subsection \<open>A callback entry is dispatched once\<close>

fun dispatch_times ::
  "nat \<Rightarrow> ReceiveCallbackQueueEntry \<Rightarrow> callback_ref list \<times> timer_ref list \<times> ReceiveCallbackQueueEntry"
  where
  "dispatch_times 0 e = ([], [], e)"
| "dispatch_times (Suc n) e =
     (let (cb, ts, e1) = ReceiveCallbackQueueEntry_dispatch e;
          (cbs, us, e2) = dispatch_times n e1
      in ((case cb of None \<Rightarrow> [] | Some c \<Rightarrow> [c]) @ cbs, ts @ us, e2))"

lemma dispatch_finished:
  "rc_state e = e_FINISHED \<Longrightarrow> dispatch_times n e = ([], [], e)"
proof (induction n)
  case 0
  then show ?case by simp
next
  case (Suc n)
  have "ReceiveCallbackQueueEntry_dispatch e = (None, [], e)"
    using Suc.prems
    by (cases e) (simp add: ReceiveCallbackQueueEntry_dispatch_def CallbackState_finish_def)
  with Suc show ?case by simp
qed

text \<open>
  However often an entry that is not finished is dispatched (by the arrival of data, by
  its timer, by the shutdown of the socket), its callback is invoked exactly once and its timer
  is closed exactly once, where it has them, and the entry keeps neither, as its destructor
  requires.
\<close>

theorem receive_callback_dispatched_once:
  assumes "rc_state e \<noteq> e_FINISHED"
  shows "\<exists>e'. dispatch_times (Suc n) e =
           ((case rc_callback e of None \<Rightarrow> [] | Some c \<Rightarrow> [c]),
            (case rc_timer e of None \<Rightarrow> [] | Some t \<Rightarrow> [t]), e') \<and>
         rc_callback e' = None \<and> rc_timer e' = None"
  using assms
  by (auto simp: ReceiveCallbackQueueEntry_dispatch_def CallbackState_finish_def testAndSwap_def
      dispatch_finished Let_def split: option.splits)

theorem receive_callback_dispatched_once_witness:
  "\<exists>e'. dispatch_times (Suc 4) (ReceiveCallbackQueueEntry_init\<lparr>rc_callback := Some 5, rc_timer := Some 6\<rparr>) =
      ([5], [6], e') \<and> rc_callback e' = None \<and> rc_timer e' = None"
  using receive_callback_dispatched_once
    [of "ReceiveCallbackQueueEntry_init\<lparr>rc_callback := Some 5, rc_timer := Some 6\<rparr>" 4]
  by (simp add: ReceiveCallbackQueueEntry_init_def CallbackState_init_def)

subsection \<open>The callback queue hands out every entry once\<close>

datatype receive_callback_op =
    PushCallback nat
  | PopCallback nat
  | RemoveCallback nat
  | RemoveCallbackToken u64
  | RemoveAllCallbacks

fun receive_callback_step ::
  "receive_store \<Rightarrow> receive_callback_op \<Rightarrow> ReceiveCallbackQueue \<Rightarrow> (nat list \<times> ReceiveCallbackQueue) option"
  where
  "receive_callback_step store (PushCallback e) q = Some ([], snd (ReceiveCallbackQueue_push e q))"
| "receive_callback_step store (PopCallback n) q =
     map_option (\<lambda>(err, r, q'). (case r of None \<Rightarrow> [] | Some e \<Rightarrow> [e], q'))
       (ReceiveCallbackQueue_pop store None n q)"
| "receive_callback_step store (RemoveCallback e) q =
     (let (err, q') = ReceiveCallbackQueue_remove e q in Some (if err = E_OK then [e] else [], q'))"
| "receive_callback_step store (RemoveCallbackToken tok) q =
     (let (err, r, q') = ReceiveCallbackQueue_removeToken store tok q
      in Some (case r of None \<Rightarrow> [] | Some e \<Rightarrow> [e], q'))"
| "receive_callback_step store RemoveAllCallbacks q = Some (ReceiveCallbackQueue_removeAll [] q)"

fun receive_callback_pushed :: "receive_callback_op \<Rightarrow> nat list" where
  "receive_callback_pushed (PushCallback e) = [e]"
| "receive_callback_pushed _ = []"

lemma receive_callback_step_laws:
  assumes "receive_callback_step store x q = Some (out, q')"
  shows "mset (rcq_entryList q) + mset (receive_callback_pushed x) = mset out + mset (rcq_entryList q')
    \<and> subseq (rcq_entryList q') (rcq_entryList q @ receive_callback_pushed x)"
proof (cases x)
  case (PushCallback e)
  with assms show ?thesis by (auto simp: ReceiveCallbackQueue_push_def)
next
  case (PopCallback n)
  with assms show ?thesis
    by (auto simp: ReceiveCallbackQueue_pop_def bind_eq_Some_iff split: list.splits if_splits)
next
  case (RemoveCallback e)
  obtain r es where r: "remove_first (\<lambda>target. e = target) (rcq_entryList q) = (r, es)" by fastforce
  have "r = Some c \<Longrightarrow> c = e" for c
    using remove_first_Some [of _ _ c es] r by (auto simp: find_Some_iff)
  with assms RemoveCallback r remove_first_mset [OF r] remove_first_subseq [OF r] show ?thesis
    by (auto simp: ReceiveCallbackQueue_remove_def split: option.splits)
next
  case (RemoveCallbackToken tok)
  obtain r es where r: "remove_first (\<lambda>entry. ro_token (rc_options (store entry)) = Some tok)
      (rcq_entryList q) = (r, es)" by fastforce
  with assms RemoveCallbackToken remove_first_mset [OF r] remove_first_subseq [OF r] show ?thesis
    by (auto simp: ReceiveCallbackQueue_removeToken_def split: option.splits)
next
  case RemoveAllCallbacks
  with assms show ?thesis by (auto simp: ReceiveCallbackQueue_removeAll_def)
qed

interpretation receive_callbacks: callback_queue
  rcq_entryList "receive_callback_step store" receive_callback_pushed for store
  by unfold_locales (use receive_callback_step_laws in blast)+

text \<open>
  In every run of pushes, pops, removals by entry or token and removals of all on a fresh
  receive callback queue, the entries handed out together with those still queued are exactly
  those pushed, with multiplicity: no callback is lost and none is handed out twice. Those still
  queued are in the order in which they were pushed.
\<close>

theorem receive_callbacks_conserved:
  assumes "run_out (receive_callback_step store) ops ReceiveCallbackQueue_init = Some (outs, q)"
  shows "mset (concat (map receive_callback_pushed ops)) = mset outs + mset (rcq_entryList q) \<and>
    subseq (rcq_entryList q) (concat (map receive_callback_pushed ops))"
  using receive_callbacks.run_conserve [OF assms] receive_callbacks.run_order [OF assms]
  by (simp add: ReceiveCallbackQueue_init_def)

theorem receive_callbacks_conserved_witness:
  "run_out (receive_callback_step (\<lambda>_. ReceiveCallbackQueueEntry_init))
     [PushCallback 4, PushCallback 5, PopCallback 0, PopCallback 3] ReceiveCallbackQueue_init
     = Some ([4], \<lparr>rcq_entryList = [5]\<rparr>) \<and>
   mset [4, 5] = mset [4::nat] + mset (rcq_entryList \<lparr>rcq_entryList = [5]\<rparr>)"
proof -
  have run: "run_out (receive_callback_step (\<lambda>_. ReceiveCallbackQueueEntry_init))
     [PushCallback 4, PushCallback 5, PopCallback 0, PopCallback 3] ReceiveCallbackQueue_init
     = Some ([4], \<lparr>rcq_entryList = [5]\<rparr>)"
    by (simp add: ReceiveCallbackQueue_push_def ReceiveCallbackQueue_init_def
        ReceiveCallbackQueue_pop_def ReceiveCallbackQueueEntry_init_def ReceiveOptions_init_def
        ReceiveOptions_minSize_def size_max_def)
  then show ?thesis using receive_callbacks_conserved [OF run] by simp
qed


subsection \<open>Feedback on the size of receive buffers\<close>

definition rf_inv :: "ReceiveFeedback \<Rightarrow> bool" where
  "rf_inv f \<longleftrightarrow> rf_minimum f \<le> rf_current f \<and> rf_current f \<le> rf_maximum f \<and>
     0 < rf_decreaseFactor f \<and> rf_count f < 10"

lemma setCongestion_True:
  "rf_inv f \<Longrightarrow> setCongestion True f =
     Some (f\<lparr>rf_current := min (rf_maximum f) (rf_current f + rf_increaseFactor f)\<rparr>)"
  by (cases f) (auto simp: setCongestion_def rf_inv_def Let_def)

lemma setCongestion_False:
  assumes "rf_inv f"
  shows "setCongestion False f =
     Some (if rf_count f < 9 then f\<lparr>rf_count := rf_count f + 1\<rparr>
           else f\<lparr>rf_count := 0,
                  rf_current := max (rf_minimum f) (rf_current f div rf_decreaseFactor f)\<rparr>)"
proof -
  have d: "rf_current f div rf_decreaseFactor f \<le> rf_current f" by simp
  show ?thesis
  proof (cases "rf_current f > rf_minimum f")
    case True
    with assms show ?thesis
      by (simp add: setCongestion_def rf_inv_def Let_def max_def)
  next
    case False
    with assms have "rf_current f = rf_minimum f" by (simp add: rf_inv_def)
    with d have "max (rf_minimum f) (rf_current f div rf_decreaseFactor f) = rf_current f" by simp
    with False assms show ?thesis
      by (cases f) (simp add: setCongestion_def rf_inv_def Let_def)
  qed
qed

lemma setCongestion_inv:
  assumes "rf_inv f"
  shows "\<exists>g. setCongestion b f = Some g \<and> rf_inv g"
proof (cases b)
  case True
  with assms show ?thesis by (simp add: setCongestion_True) (simp add: rf_inv_def)
next
  case False
  have "rf_current f div rf_decreaseFactor f \<le> rf_current f" by simp
  with assms have "rf_current f div rf_decreaseFactor f \<le> rf_maximum f"
    unfolding rf_inv_def by linarith
  with False assms show ?thesis
    by (simp add: setCongestion_False) (simp add: rf_inv_def)
qed

datatype feedback_op = Feedback nat nat | Congestion bool

fun feedback_step :: "feedback_op \<Rightarrow> ReceiveFeedback \<Rightarrow> ReceiveFeedback option" where
  "feedback_step (Feedback receivable received) f = setFeedback receivable received f"
| "feedback_step (Congestion b) f = setCongestion b f"

interpretation feedback: total_component ReceiveFeedback_init feedback_step rf_inv
proof unfold_locales
  show "rf_inv ReceiveFeedback_init" by (simp add: rf_inv_def ReceiveFeedback_init_def)
next
  fix s x
  assume "rf_inv s"
  then show "\<exists>t. feedback_step x s = Some t \<and> rf_inv t"
    using setCongestion_inv by (cases x) (auto simp: setFeedback_def Let_def)
qed

lemma congested_times:
  "rf_inv f \<Longrightarrow>
   run_steps feedback_step (replicate n (Congestion True)) f =
     Some (f\<lparr>rf_current := min (rf_maximum f) (rf_current f + n * rf_increaseFactor f)\<rparr>)"
proof (induction n arbitrary: f)
  case 0
  then show ?case by (cases f) (simp add: rf_inv_def)
next
  case (Suc n)
  let ?g = "f\<lparr>rf_current := min (rf_maximum f) (rf_current f + rf_increaseFactor f)\<rparr>"
  have "rf_inv ?g" using Suc.prems by (auto simp: rf_inv_def)
  from Suc.IH [OF this] Suc.prems show ?case
    by (simp add: setCongestion_True min_def algebra_simps)
qed

text \<open>
  Whatever the transfers that a socket reports, the size of the next receive buffer
  stays between its minimum and its maximum and no division by zero occurs; and after any such
  history, a row of \<open>n\<close> reads that fill the buffer grows the size by \<open>n\<close> times the increase
  factor, up to the maximum.
\<close>

theorem receive_feedback_bounds:
  "\<exists>f. run_steps feedback_step ops ReceiveFeedback_init = Some f \<and>
       rf_minimum f \<le> rf_current f \<and> rf_current f \<le> rf_maximum f \<and>
       run_steps feedback_step (replicate n (Congestion True)) f =
         Some (f\<lparr>rf_current := min (rf_maximum f) (rf_current f + n * rf_increaseFactor f)\<rparr>)"
proof -
  have "rf_inv ReceiveFeedback_init" by (simp add: rf_inv_def ReceiveFeedback_init_def)
  then obtain f where "run_steps feedback_step ops ReceiveFeedback_init = Some f" "rf_inv f"
    using feedback.run_total by blast
  then show ?thesis using congested_times [of f n] by (auto simp: rf_inv_def)
qed

subsection \<open>The invariant of the receive queue\<close>

definition rq_inv :: "'blob ReceiveQueue \<Rightarrow> bool" where
  "rq_inv q \<longleftrightarrow>
     list_all (\<lambda>e. 0 < re_length e) (rq_entryList q) \<and>
     rq_size q = sum_list (map re_length (rq_entryList q)) \<and>
     1 \<le> rq_watermarkLow q \<and> rq_watermarkLow q \<le> rq_watermarkHigh q"

datatype 'blob rq_op =
    RPushEntry "'blob ReceiveQueueEntry"
  | RPopEntry
  | RPopSize nat
  | RPushCallback nat
  | RPopCallback "nat option"
  | RPopAllCallbacks
  | RRemoveCallback nat
  | RRemoveCallbackToken u64
  | RSetData "'blob option"
  | RSetTrigger ReactorEventTrigger
  | RSetLowWatermark nat
  | RSetHighWatermark nat
  | RAuthorizeLow
  | RAuthorizeHigh

fun rq_step :: "receive_store \<Rightarrow> 'blob rq_op \<Rightarrow> 'blob ReceiveQueue \<Rightarrow> 'blob ReceiveQueue option" where
  "rq_step store (RPushEntry e) q = map_option snd (ReceiveQueue_pushEntry e q)"
| "rq_step store RPopEntry q = map_option snd (ReceiveQueue_popEntry q)"
| "rq_step store (RPopSize n) q = ReceiveQueue_popSize n q"
| "rq_step store (RPushCallback e) q = Some (snd (ReceiveQueue_pushCallbackEntry e q))"
| "rq_step store (RPopCallback r) q =
     map_option (\<lambda>(err, r', q'). q') (ReceiveQueue_popCallbackEntry store r q)"
| "rq_step store RPopAllCallbacks q = Some (snd (ReceiveQueue_popAllCallbackEntries [] q))"
| "rq_step store (RRemoveCallback e) q = Some (snd (ReceiveQueue_removeCallbackEntry e q))"
| "rq_step store (RRemoveCallbackToken tok) q =
     Some (snd (snd (ReceiveQueue_removeCallbackToken store tok q)))"
| "rq_step store (RSetData d) q = Some (ReceiveQueue_setData d q)"
| "rq_step store (RSetTrigger t) q = Some (ReceiveQueue_setTrigger t q)"
| "rq_step store (RSetLowWatermark n) q = Some (ReceiveQueue_setLowWatermark n q)"
| "rq_step store (RSetHighWatermark n) q = Some (ReceiveQueue_setHighWatermark n q)"
| "rq_step store RAuthorizeLow q = Some (snd (ReceiveQueue_authorizeLowWatermarkEvent q))"
| "rq_step store RAuthorizeHigh q = Some (snd (ReceiveQueue_authorizeHighWatermarkEvent q))"

text \<open>What the caller owes.\<close>

fun rq_permitted :: "receive_store \<Rightarrow> 'blob rq_op \<Rightarrow> 'blob ReceiveQueue \<Rightarrow> bool" where
  "rq_permitted store (RPushEntry e) q = (0 < re_length e)"
| "rq_permitted store RPopEntry q = (rq_entryList q \<noteq> [])"
| "rq_permitted store (RPopSize n) q =
     (case rq_entryList q of [] \<Rightarrow> False | e # es \<Rightarrow> n < re_length e)"
| "rq_permitted store (RPopCallback r) q =
     list_all (\<lambda>e. receive_options_ok (rc_options (store e))) (rcq_entryList (rq_callbackQueue q))"
| "rq_permitted store _ q = True"

lemma rq_inv_init [simp]: "rq_inv ReceiveQueue_init"
  by (simp add: rq_inv_def ReceiveQueue_init_def sanitizeIncomingQueueWatermarks_def)

lemma rearm_fields [simp]:
  "rq_entryList (ReceiveQueue_rearm q) = rq_entryList q"
  "rq_size (ReceiveQueue_rearm q) = rq_size q"
  "rq_watermarkLow (ReceiveQueue_rearm q) = rq_watermarkLow q"
  "rq_watermarkHigh (ReceiveQueue_rearm q) = rq_watermarkHigh q"
  "rq_trigger (ReceiveQueue_rearm q) = rq_trigger q"
  by (simp_all add: ReceiveQueue_rearm_def)

lemma rearm_wanted:
  "rq_watermarkLow q \<le> rq_size q \<Longrightarrow>
   rq_watermarkLowWanted (ReceiveQueue_rearm q) = rq_watermarkLowWanted q \<and>
   rq_watermarkHighWanted (ReceiveQueue_rearm q) = rq_watermarkHighWanted q"
  by (simp add: ReceiveQueue_rearm_def)

lemma receive_pushEntry_ok:
  assumes "rq_inv q" and "0 < re_length e"
  shows "\<exists>q'. ReceiveQueue_pushEntry e q = Some (rq_entryList q = [], q') \<and> rq_inv q' \<and>
     rq_entryList q' = rq_entryList q @ [e]"
  using assms by (simp add: ReceiveQueue_pushEntry_def rq_inv_def Let_def)

lemma receive_popEntry_ok:
  assumes "rq_inv q" and "rq_entryList q = e # es"
  shows "\<exists>q'. ReceiveQueue_popEntry q = Some (es = [], q') \<and> rq_inv q' \<and> rq_entryList q' = es"
  using assms by (simp add: ReceiveQueue_popEntry_def rq_inv_def Let_def)

lemma receive_popCallback_ok:
  assumes "list_all (\<lambda>e. receive_options_ok (rc_options (store e))) (rcq_entryList (rq_callbackQueue q))"
  shows "\<exists>err r' c. ReceiveQueue_popCallbackEntry store r q = Some (err, r', q\<lparr>rq_callbackQueue := c\<rparr>)"
  using assms
  by (auto simp: ReceiveQueue_popCallbackEntry_def ReceiveCallbackQueue_pop_def
      ReceiveOptions_minSize_def receive_options_ok_def split: list.splits
      intro: exI [of _ "rq_callbackQueue q"])

lemma rq_step_inv:
  assumes "rq_inv q" and "rq_permitted store x q"
  shows "\<exists>t. rq_step store x q = Some t \<and> rq_inv t"
proof (cases x)
  case (RPushEntry e)
  with assms receive_pushEntry_ok [of q e] show ?thesis by auto
next
  case RPopEntry
  with assms receive_popEntry_ok [of q] show ?thesis by (cases "rq_entryList q") auto
next
  case (RPopSize n)
  with assms show ?thesis
    by (cases "rq_entryList q")
       (auto simp: ReceiveQueue_popSize_def rq_inv_def ReceiveQueueEntry_setLength_def)
next
  case (RPopCallback r)
  with assms receive_popCallback_ok [of store q r] show ?thesis by (auto simp: rq_inv_def)
next
  case (RSetLowWatermark n)
  with assms(1) sanitizeIncoming_bounds show ?thesis
    by (auto simp: rq_inv_def ReceiveQueue_setLowWatermark_def split: prod.splits)
next
  case (RSetHighWatermark n)
  with assms(1) sanitizeIncoming_bounds show ?thesis
    by (auto simp: rq_inv_def ReceiveQueue_setHighWatermark_def split: prod.splits)
qed (use assms in \<open>auto simp: rq_inv_def ReceiveQueue_pushCallbackEntry_def
      ReceiveQueue_popAllCallbackEntries_def ReceiveQueue_removeCallbackEntry_def
      ReceiveQueue_removeCallbackToken_def ReceiveQueue_setData_def ReceiveQueue_setTrigger_def
      ReceiveQueue_authorizeLowWatermarkEvent_def ReceiveQueue_authorizeHighWatermarkEvent_def
      Let_def split: prod.splits\<close>)+

interpretation receive_queue: guarded_component
  ReceiveQueue_init "rq_permitted store" "rq_step store" rq_inv for store
  by unfold_locales (auto intro: rq_step_inv)

interpretation receive_fifo: sized_queue
  rq_entryList rq_size re_length "\<lambda>e. 0 < re_length e" rq_inv ReceiveQueue_pushEntry
  ReceiveQueue_popEntry
proof (unfold_locales, goal_cases)
  case (1 q)
  then show ?case by (simp add: rq_inv_def)
next
  case (2 q e)
  then show ?case by (rule receive_pushEntry_ok)
next
  case (3 q e es)
  then show ?case by (rule receive_popEntry_ok)
next
  case (4 q)
  then show ?case by (simp add: ReceiveQueue_popEntry_def)
qed


text \<open>
  Whatever sequence of operations is issued on a fresh receive queue within what the
  caller owes (entries have a length, only queues with entries are popped, a partial pop takes
  fewer bytes than the front entry has, and the options of queued callbacks are well-formed),
  no assertion of \<open>ntcq::ReceiveQueue\<close> fails, and afterwards the cached size is the sum of the
  lengths of the entries and the watermarks satisfy \<open>1 \<le> low \<le> high\<close>.
\<close>

theorem receive_queue_run_safe:
  assumes "all_permitted (rq_permitted store) (rq_step store) ops ReceiveQueue_init"
  shows "\<exists>q. run_steps (rq_step store) ops ReceiveQueue_init = Some q \<and>
           rq_size q = sum_list (map re_length (rq_entryList q)) \<and>
           1 \<le> rq_watermarkLow q \<and> rq_watermarkLow q \<le> rq_watermarkHigh q"
  using receive_queue.run_init [OF assms] by (auto simp: rq_inv_def)

definition sample_received :: "nat \<Rightarrow> nat ReceiveQueueEntry" where
  "sample_received n = ReceiveQueueEntry_init\<lparr>re_length := n\<rparr>"

lemma sample_received_length [simp]: "re_length (sample_received n) = n"
  by (simp add: sample_received_def)

theorem receive_queue_run_safe_witness:
  "\<exists>q. run_steps (rq_step (\<lambda>_. ReceiveCallbackQueueEntry_init))
         [RPushEntry (sample_received 8), RPushCallback 2, RSetTrigger e_EDGE, RPopSize 3,
          RPopCallback None, RPopEntry] ReceiveQueue_init = Some q \<and>
       rq_size q = sum_list (map re_length (rq_entryList q))"
  using receive_queue_run_safe [of "\<lambda>_. ReceiveCallbackQueueEntry_init"
      "[RPushEntry (sample_received 8), RPushCallback 2, RSetTrigger e_EDGE, RPopSize 3,
        RPopCallback None, RPopEntry]"]
  by (auto simp: ReceiveQueue_init_def sanitizeIncomingQueueWatermarks_def ReceiveQueue_pushEntry_def
      ReceiveQueue_pushCallbackEntry_def ReceiveCallbackQueue_push_def ReceiveCallbackQueue_init_def
      ReceiveQueue_setTrigger_def ReceiveQueue_popSize_def ReceiveQueue_rearm_def
      ReceiveQueueEntry_setLength_def ReceiveCallbackQueueEntry_init_def
      ReceiveQueue_popCallbackEntry_def ReceiveCallbackQueue_pop_def ReceiveOptions_minSize_def
      ReceiveOptions_init_def size_max_def receive_options_ok_def ReceiveQueue_popEntry_def)

text \<open>
  The receive queue is a first-in first-out queue: every run of pushes and pops returns
  the flags that the same run returns on a plain list of entries and ends with the same entries.
\<close>

lemma receive_queue_refines_fifo:
  assumes "rq_inv q" and "\<forall>e. PushOp e \<in> set ops \<longrightarrow> 0 < re_length e"
    and "run_flags fifo_step ops (rq_entryList q) = Some (flags, es)"
  shows "\<exists>q'. run_flags (queue_step ReceiveQueue_pushEntry ReceiveQueue_popEntry) ops q
           = Some (flags, q') \<and>
         rq_entryList q' = es \<and> rq_size q' = sum_list (map re_length es)"
  using receive_fifo.run_simulates [OF assms] by blast

lemma ReceiveQueue_init_entryList: "rq_entryList ReceiveQueue_init = []"
  by (simp add: ReceiveQueue_init_def sanitizeIncomingQueueWatermarks_def)

lemma receive_queue_refines_fifo_witness:
  "\<exists>q'. run_flags (queue_step ReceiveQueue_pushEntry ReceiveQueue_popEntry)
          [PushOp (sample_received 3), PushOp (sample_received 4), PopOp] ReceiveQueue_init
        = Some ([True, False, False], q') \<and> rq_size q' = 4"
  using receive_queue_refines_fifo [of ReceiveQueue_init
      "[PushOp (sample_received 3), PushOp (sample_received 4), PopOp]" "[True, False, False]"
      "[sample_received 4]"]
  by (auto simp: ReceiveQueue_init_entryList)

subsection \<open>Edge-triggered watermark events\<close>

text \<open>The operations that arm the low, or the high, watermark event of an edge-triggered queue.\<close>

fun rq_rearms_low :: "receive_store \<Rightarrow> 'blob rq_op \<Rightarrow> 'blob ReceiveQueue \<Rightarrow> bool" where
  "rq_rearms_low store (RSetTrigger t) q = True"
| "rq_rearms_low store (RSetLowWatermark n) q = True"
| "rq_rearms_low store RPopEntry q =
     (case rq_entryList q of [] \<Rightarrow> False | e # es \<Rightarrow> rq_size q - re_length e < rq_watermarkLow q)"
| "rq_rearms_low store (RPopSize n) q = (rq_size q - n < rq_watermarkLow q)"
| "rq_rearms_low store _ q = False"

fun rq_rearms_high :: "receive_store \<Rightarrow> 'blob rq_op \<Rightarrow> 'blob ReceiveQueue \<Rightarrow> bool" where
  "rq_rearms_high store (RSetTrigger t) q = True"
| "rq_rearms_high store (RSetHighWatermark n) q = True"
| "rq_rearms_high store RPopEntry q =
     (case rq_entryList q of [] \<Rightarrow> False | e # es \<Rightarrow> rq_size q - re_length e < rq_watermarkLow q)"
| "rq_rearms_high store (RPopSize n) q = (rq_size q - n < rq_watermarkLow q)"
| "rq_rearms_high store _ q = False"

lemmas rq_step_defs =
  ReceiveQueue_pushEntry_def ReceiveQueue_pushCallbackEntry_def
  ReceiveQueue_popCallbackEntry_def ReceiveQueue_popAllCallbackEntries_def
  ReceiveQueue_removeCallbackEntry_def ReceiveQueue_removeCallbackToken_def ReceiveQueue_setData_def
  ReceiveQueue_setTrigger_def ReceiveQueue_setLowWatermark_def ReceiveQueue_setHighWatermark_def
  ReceiveQueue_authorizeLowWatermarkEvent_def ReceiveQueue_authorizeHighWatermarkEvent_def

lemma rq_step_keeps:
  assumes "rq_step store x q = Some t" and "rq_trigger q = e_EDGE"
  shows "\<not> rq_rearms_low store x q \<Longrightarrow> \<not> rq_watermarkLowWanted q \<Longrightarrow>
           rq_trigger t = e_EDGE \<and> \<not> rq_watermarkLowWanted t"
    and "\<not> rq_rearms_high store x q \<Longrightarrow> \<not> rq_watermarkHighWanted q \<Longrightarrow>
           rq_trigger t = e_EDGE \<and> \<not> rq_watermarkHighWanted t"
proof -
  have "(\<not> rq_rearms_low store x q \<longrightarrow> \<not> rq_watermarkLowWanted q \<longrightarrow>
           rq_trigger t = e_EDGE \<and> \<not> rq_watermarkLowWanted t) \<and>
        (\<not> rq_rearms_high store x q \<longrightarrow> \<not> rq_watermarkHighWanted q \<longrightarrow>
           rq_trigger t = e_EDGE \<and> \<not> rq_watermarkHighWanted t)"
  proof (cases x)
    case RPopEntry
    with assms show ?thesis
      by (auto simp: ReceiveQueue_popEntry_def ReceiveQueue_rearm_def Let_def
          split: list.splits if_splits)
  next
    case (RPopSize n)
    with assms show ?thesis
      by (auto simp: ReceiveQueue_popSize_def ReceiveQueue_rearm_def Let_def
          split: list.splits if_splits)
  qed (use assms in \<open>auto simp: rq_step_defs bind_eq_Some_iff Let_def
        split: prod.splits if_splits\<close>)
  then show "\<not> rq_rearms_low store x q \<Longrightarrow> \<not> rq_watermarkLowWanted q \<Longrightarrow>
           rq_trigger t = e_EDGE \<and> \<not> rq_watermarkLowWanted t"
    and "\<not> rq_rearms_high store x q \<Longrightarrow> \<not> rq_watermarkHighWanted q \<Longrightarrow>
           rq_trigger t = e_EDGE \<and> \<not> rq_watermarkHighWanted t"
    by blast+
qed

interpretation receive_low: edge_gate
  "rq_step store" "\<lambda>q. rq_trigger q = e_EDGE" rq_watermarkLowWanted "rq_rearms_low store"
  ReceiveQueue_authorizeLowWatermarkEvent for store
proof (unfold_locales, goal_cases)
  case (3 x q q')
  then show ?case using rq_step_keeps(1) by blast
qed (auto simp: ReceiveQueue_authorizeLowWatermarkEvent_def split: if_splits)

interpretation receive_high: edge_gate
  "rq_step store" "\<lambda>q. rq_trigger q = e_EDGE" rq_watermarkHighWanted "rq_rearms_high store"
  ReceiveQueue_authorizeHighWatermarkEvent for store
proof (unfold_locales, goal_cases)
  case (3 x q q')
  then show ?case using rq_step_keeps(2) by blast
qed (auto simp: ReceiveQueue_authorizeHighWatermarkEvent_def split: if_splits)

text \<open>
  An edge-triggered receive queue that has announced its low watermark does not announce
  it again, whatever operations follow, until the trigger or the low watermark is set or a pop
  leaves the queue below the low watermark; the same holds of the high watermark.
\<close>

theorem receive_queue_announces_once:
  assumes "rq_trigger q = e_EDGE"
  shows "\<not> (ReceiveQueue_authorizeLowWatermarkEvent q = (True, q0) \<and>
            all_permitted (\<lambda>x s. \<not> rq_rearms_low store x s) (rq_step store) ops q0 \<and>
            run_steps (rq_step store) ops q0 = Some q' \<and>
            fst (ReceiveQueue_authorizeLowWatermarkEvent q')) \<and>
         \<not> (ReceiveQueue_authorizeHighWatermarkEvent q = (True, q0) \<and>
            all_permitted (\<lambda>x s. \<not> rq_rearms_high store x s) (rq_step store) ops q0 \<and>
            run_steps (rq_step store) ops q0 = Some q' \<and>
            fst (ReceiveQueue_authorizeHighWatermarkEvent q'))"
  using receive_low.announced_once [OF assms] receive_high.announced_once [OF assms] by blast

definition edge_queue :: "nat ReceiveQueue" where
  "edge_queue = ReceiveQueue_init\<lparr>rq_entryList := [sample_received 5], rq_size := 5,
     rq_trigger := e_EDGE\<rparr>"

theorem receive_queue_announces_once_witness:
  "\<exists>q0 q'. ReceiveQueue_authorizeLowWatermarkEvent edge_queue = (True, q0) \<and>
     run_steps (rq_step (\<lambda>_. ReceiveCallbackQueueEntry_init)) [RPushEntry (sample_received 2)] q0 = Some q' \<and>
     \<not> fst (ReceiveQueue_authorizeLowWatermarkEvent q')"
  using receive_queue_announces_once [of edge_queue
      "edge_queue\<lparr>rq_watermarkLowWanted := False\<rparr>" "\<lambda>_. ReceiveCallbackQueueEntry_init"
      "[RPushEntry (sample_received 2)]"]
  by (auto simp: edge_queue_def ReceiveQueue_init_def sanitizeIncomingQueueWatermarks_def
      ReceiveQueue_authorizeLowWatermarkEvent_def ReceiveQueue_pushEntry_def ntf_defs)

end
