(* ===== verification/Zero_Copy.thy ===== *)
theory Zero_Copy
  imports Send_Queue
begin

section \<open>The zero-copy queue\<close>

text \<open>
  This theory models \<open>ntcq_zerocopy.h\<close> and \<open>ntcq_zerocopy.cpp\<close>: half-open ranges of 64-bit
  counters, the generator that widens the 32-bit counters of the operating system, the entries
  that wait for their counters, and the queue. The data container that an entry keeps alive
  comes from a data pool; the model stores the data itself.
\<close>

subsection \<open>ntcq::ZeroCopyRange\<close>

record ZeroCopyRange =
  zr_minCounter :: u64
  zr_maxCounter :: u64

definition ZeroCopyRange_init :: ZeroCopyRange where
  "ZeroCopyRange_init = \<lparr>zr_minCounter = 0, zr_maxCounter = 0\<rparr>"

definition ZeroCopyRange_create :: "u64 \<Rightarrow> u64 \<Rightarrow> ZeroCopyRange" where
  "ZeroCopyRange_create lo hi = \<lparr>zr_minCounter = lo, zr_maxCounter = hi\<rparr>"

definition ZeroCopyRange_reset :: "ZeroCopyRange \<Rightarrow> ZeroCopyRange" where
  "ZeroCopyRange_reset r = r\<lparr>zr_minCounter := 0, zr_maxCounter := 0\<rparr>"

definition ZeroCopyRange_setMinCounter :: "u64 \<Rightarrow> ZeroCopyRange \<Rightarrow> ZeroCopyRange" where
  [ntf_defs]: "ZeroCopyRange_setMinCounter c r = r\<lparr>zr_minCounter := c\<rparr>"

definition ZeroCopyRange_setMaxCounter :: "u64 \<Rightarrow> ZeroCopyRange \<Rightarrow> ZeroCopyRange" where
  [ntf_defs]: "ZeroCopyRange_setMaxCounter c r = r\<lparr>zr_maxCounter := c\<rparr>"

definition ZeroCopyRange_size :: "ZeroCopyRange \<Rightarrow> u64" where
  "ZeroCopyRange_size r = zr_maxCounter r - zr_minCounter r"

definition ZeroCopyRange_empty :: "ZeroCopyRange \<Rightarrow> bool" where
  "ZeroCopyRange_empty r \<longleftrightarrow> zr_minCounter r = zr_maxCounter r"

definition ZeroCopyRange_intersect :: "ZeroCopyRange \<Rightarrow> ZeroCopyRange \<Rightarrow> ZeroCopyRange" where
  "ZeroCopyRange_intersect lhs rhs =
     (let resultMin = max (zr_minCounter lhs) (zr_minCounter rhs);
          resultMax = min (zr_maxCounter lhs) (zr_maxCounter rhs)
      in if resultMax \<ge> resultMin
         then ZeroCopyRange_setMaxCounter resultMax
                (ZeroCopyRange_setMinCounter resultMin ZeroCopyRange_init)
         else ZeroCopyRange_setMaxCounter 0 (ZeroCopyRange_setMinCounter 0 ZeroCopyRange_init))"

text \<open>The output parameters are returned as the pair (result, overflow).\<close>

definition ZeroCopyRange_difference ::
  "ZeroCopyRange \<Rightarrow> ZeroCopyRange \<Rightarrow> ZeroCopyRange \<times> ZeroCopyRange" where
  "ZeroCopyRange_difference lhs rhs =
     (let result = ZeroCopyRange_init; overflow = ZeroCopyRange_init in
      if zr_minCounter rhs \<le> zr_minCounter lhs \<and> zr_maxCounter rhs \<ge> zr_maxCounter lhs
      then (result, overflow)
      else
        let result =
              (if zr_minCounter lhs < zr_minCounter rhs
               then ZeroCopyRange_setMaxCounter (min (zr_maxCounter lhs) (zr_minCounter rhs))
                      (ZeroCopyRange_setMinCounter (zr_minCounter lhs) result)
               else result);
            overflow =
              (if zr_maxCounter lhs > zr_maxCounter rhs
               then ZeroCopyRange_setMaxCounter (zr_maxCounter lhs)
                      (ZeroCopyRange_setMinCounter (max (zr_minCounter lhs) (zr_maxCounter rhs))
                         overflow)
               else overflow)
        in if ZeroCopyRange_empty result
           then (ZeroCopyRange_setMaxCounter (zr_maxCounter overflow)
                   (ZeroCopyRange_setMinCounter (zr_minCounter overflow) result),
                 ZeroCopyRange_reset overflow)
           else if zr_minCounter overflow = zr_maxCounter result
           then (ZeroCopyRange_setMaxCounter (zr_maxCounter overflow) result,
                 ZeroCopyRange_reset overflow)
           else (result, overflow))"

definition ZeroCopyRange_equals :: "ZeroCopyRange \<Rightarrow> ZeroCopyRange \<Rightarrow> bool" where
  "ZeroCopyRange_equals lhs rhs \<longleftrightarrow>
     zr_minCounter lhs = zr_minCounter rhs \<and> zr_maxCounter lhs = zr_maxCounter rhs"

subsection \<open>ntcq::ZeroCopyEntry\<close>

record 'blob ZeroCopyEntry =
  ze_group :: u64
  ze_range :: ZeroCopyRange
  ze_rangeSet :: "ZeroCopyRange list"
  ze_framed :: bool
  ze_data :: "'blob Data option"
  ze_error :: ntsa_error
  ze_context :: SendContext
  ze_callback :: "callback_ref option"

definition ZeroCopyEntry_init :: "'blob ZeroCopyEntry" where
  "ZeroCopyEntry_init =
     \<lparr>ze_group = 0, ze_range = ZeroCopyRange_init, ze_rangeSet = [], ze_framed = False,
      ze_data = None, ze_error = E_OK, ze_context = SendContext_init, ze_callback = None\<rparr>"

definition ZeroCopyEntry_setGroup :: "u64 \<Rightarrow> 'blob ZeroCopyEntry \<Rightarrow> 'blob ZeroCopyEntry" where
  [ntf_defs]: "ZeroCopyEntry_setGroup v e = e\<lparr>ze_group := v\<rparr>"

definition ZeroCopyEntry_setMinCounter ::
  "u64 \<Rightarrow> 'blob ZeroCopyEntry \<Rightarrow> 'blob ZeroCopyEntry" where
  "ZeroCopyEntry_setMinCounter c e =
     (case ze_rangeSet e of
        [] \<Rightarrow> e\<lparr>ze_range := ZeroCopyRange_setMinCounter c (ze_range e)\<rparr>
      | r # rs \<Rightarrow> e\<lparr>ze_rangeSet := ZeroCopyRange_setMinCounter c r # rs\<rparr>)"

definition ZeroCopyEntry_setMaxCounter ::
  "u64 \<Rightarrow> 'blob ZeroCopyEntry \<Rightarrow> 'blob ZeroCopyEntry" where
  "ZeroCopyEntry_setMaxCounter c e =
     (if ze_rangeSet e = []
      then e\<lparr>ze_range := ZeroCopyRange_setMaxCounter c (ze_range e)\<rparr>
      else e\<lparr>ze_rangeSet := butlast (ze_rangeSet e) @
                [ZeroCopyRange_setMaxCounter c (last (ze_rangeSet e))]\<rparr>)"

definition ZeroCopyEntry_setFramed :: "bool \<Rightarrow> 'blob ZeroCopyEntry \<Rightarrow> 'blob ZeroCopyEntry" where
  [ntf_defs]: "ZeroCopyEntry_setFramed v e = e\<lparr>ze_framed := v\<rparr>"

definition ZeroCopyEntry_setData ::
  "'blob Data option \<Rightarrow> 'blob ZeroCopyEntry \<Rightarrow> 'blob ZeroCopyEntry" where
  [ntf_defs]: "ZeroCopyEntry_setData v e = e\<lparr>ze_data := v\<rparr>"

definition ZeroCopyEntry_setError ::
  "ntsa_error \<Rightarrow> 'blob ZeroCopyEntry \<Rightarrow> 'blob ZeroCopyEntry" where
  [ntf_defs]: "ZeroCopyEntry_setError v e = e\<lparr>ze_error := v\<rparr>"

definition ZeroCopyEntry_setContext ::
  "SendContext \<Rightarrow> 'blob ZeroCopyEntry \<Rightarrow> 'blob ZeroCopyEntry" where
  [ntf_defs]: "ZeroCopyEntry_setContext v e = e\<lparr>ze_context := v\<rparr>"

definition ZeroCopyEntry_setCallback ::
  "callback_ref option \<Rightarrow> 'blob ZeroCopyEntry \<Rightarrow> 'blob ZeroCopyEntry" where
  [ntf_defs]: "ZeroCopyEntry_setCallback v e = e\<lparr>ze_callback := v\<rparr>"

fun match_ranges :: "ZeroCopyRange \<Rightarrow> ZeroCopyRange list \<Rightarrow> ZeroCopyRange list" where
  "match_ranges complete [] = []"
| "match_ranges complete (required # rs) =
     (let intersection = ZeroCopyRange_intersect required complete in
      if ZeroCopyRange_empty intersection then required # match_ranges complete rs
      else
        let (pending, overflow) = ZeroCopyRange_difference required intersection
        in (if \<not> ZeroCopyRange_empty pending then [pending] else []) @
           (if \<not> ZeroCopyRange_empty overflow then [overflow] else []) @
           match_ranges complete rs)"

definition ZeroCopyEntry_match ::
  "ZeroCopyRange \<Rightarrow> 'blob ZeroCopyEntry \<Rightarrow> 'blob ZeroCopyEntry" where
  "ZeroCopyEntry_match complete e =
     (if ze_rangeSet e = [] then
        let required = ze_range e;
            intersection = ZeroCopyRange_intersect required complete
        in if ZeroCopyRange_empty intersection then e
           else
             let (pending, overflow) = ZeroCopyRange_difference required intersection
             in if ZeroCopyRange_empty overflow then e\<lparr>ze_range := pending\<rparr>
                else e\<lparr>ze_rangeSet := [pending, overflow],
                       ze_range := ZeroCopyRange_reset (ze_range e)\<rparr>
      else e\<lparr>ze_rangeSet := match_ranges complete (ze_rangeSet e)\<rparr>)"

definition ZeroCopyEntry_minCounter :: "'blob ZeroCopyEntry \<Rightarrow> u64" where
  "ZeroCopyEntry_minCounter e =
     (case ze_rangeSet e of [] \<Rightarrow> zr_minCounter (ze_range e) | r # rs \<Rightarrow> zr_minCounter r)"

definition ZeroCopyEntry_maxCounter :: "'blob ZeroCopyEntry \<Rightarrow> u64" where
  "ZeroCopyEntry_maxCounter e =
     (if ze_rangeSet e = [] then zr_maxCounter (ze_range e)
      else zr_maxCounter (last (ze_rangeSet e)))"

definition ZeroCopyEntry_complete :: "'blob ZeroCopyEntry \<Rightarrow> bool" where
  "ZeroCopyEntry_complete e =
     (if ze_framed e then
        (if ze_rangeSet e = [] then ZeroCopyRange_empty (ze_range e)
         else list_all ZeroCopyRange_empty (ze_rangeSet e))
      else False)"

subsection \<open>ntcq::ZeroCopyCounterGenerator\<close>

record ZeroCopyCounterGenerator =
  zg_next :: u64
  zg_bias :: u64
  zg_generation :: u64

definition ZeroCopyCounterGenerator_init :: ZeroCopyCounterGenerator where
  "ZeroCopyCounterGenerator_init = \<lparr>zg_next = 0, zg_bias = 0, zg_generation = 0\<rparr>"

definition uint32_max :: u64 where
  "uint32_max = 4294967295"

definition ZeroCopyCounterGenerator_configure ::
  "u64 \<Rightarrow> u64 \<Rightarrow> ZeroCopyCounterGenerator \<Rightarrow> ZeroCopyCounterGenerator" where
  "ZeroCopyCounterGenerator_configure nxt generation g =
     g\<lparr>zg_next := nxt, zg_bias := generation * uint32_max, zg_generation := generation\<rparr>"

definition ZeroCopyCounterGenerator_next ::
  "ZeroCopyCounterGenerator \<Rightarrow> u64 \<times> ZeroCopyCounterGenerator" where
  "ZeroCopyCounterGenerator_next g = (zg_next g, g\<lparr>zg_next := zg_next g + 1\<rparr>)"

text \<open>The update of the operating system: the 32-bit counters from and thru, both inclusive.\<close>

definition ZeroCopyCounterGenerator_update ::
  "u32 \<times> u32 \<Rightarrow> ZeroCopyCounterGenerator \<Rightarrow> ZeroCopyRange \<times> ZeroCopyCounterGenerator" where
  "ZeroCopyCounterGenerator_update zeroCopy g =
     (let zeroCopyFrom = ucast (fst zeroCopy);
          zeroCopyThru = ucast (snd zeroCopy);
          offset = zg_bias g + zg_generation g
      in if zeroCopyFrom > zeroCopyThru then
           let sz = (uint32_max - zeroCopyFrom) + zeroCopyThru + 2;
               lo = offset + zeroCopyFrom
           in (ZeroCopyRange_create lo (lo + sz),
               g\<lparr>zg_bias := zg_bias g + uint32_max, zg_generation := zg_generation g + 1\<rparr>)
         else
           (ZeroCopyRange_create (offset + zeroCopyFrom) (offset + zeroCopyThru + 1),
            if zeroCopyThru = uint32_max
            then g\<lparr>zg_bias := zg_bias g + uint32_max, zg_generation := zg_generation g + 1\<rparr>
            else g))"

subsection \<open>ntcq::ZeroCopyQueue\<close>

record 'blob ZeroCopyQueue =
  zq_generator :: ZeroCopyCounterGenerator
  zq_waitList :: "'blob ZeroCopyEntry list"
  zq_doneList :: "'blob ZeroCopyEntry list"

definition ZeroCopyQueue_init :: "'blob ZeroCopyQueue" where
  "ZeroCopyQueue_init =
     \<lparr>zq_generator = ZeroCopyCounterGenerator_init, zq_waitList = [], zq_doneList = []\<rparr>"

text \<open>The entry that every overload of \<open>push\<close> with data builds, before its data is set.\<close>

definition new_entry :: "u64 \<Rightarrow> u64 \<Rightarrow> 'blob ZeroCopyEntry" where
  "new_entry grp counter =
     ZeroCopyEntry_setMaxCounter (counter + 1)
       (ZeroCopyEntry_setMinCounter counter (ZeroCopyEntry_setGroup grp ZeroCopyEntry_init))"

definition push_entry ::
  "u64 \<Rightarrow> ('blob ZeroCopyEntry \<Rightarrow> 'blob ZeroCopyEntry) \<Rightarrow> 'blob ZeroCopyQueue \<Rightarrow>
   (u64 \<times> 'blob ZeroCopyQueue) option" where
  "push_entry grp fill q =
     do { bsls_assert (zq_waitList q = [] \<or> ze_group (hd (zq_waitList q)) < grp);
          let (counter, g) = ZeroCopyCounterGenerator_next (zq_generator q);
          Some (counter, q\<lparr>zq_generator := g,
                           zq_waitList := zq_waitList q @ [fill (new_entry grp counter)]\<rparr>) }"

definition ZeroCopyQueue_push_blob ::
  "u64 \<Rightarrow> 'blob \<Rightarrow> 'blob ZeroCopyQueue \<Rightarrow> (u64 \<times> 'blob ZeroCopyQueue) option" where
  "ZeroCopyQueue_push_blob grp data q =
     push_entry grp (ZeroCopyEntry_setData (Some (Blob data))) q"

definition ZeroCopyQueue_push_blob_callback ::
  "u64 \<Rightarrow> 'blob \<Rightarrow> SendContext \<Rightarrow> callback_ref option \<Rightarrow> 'blob ZeroCopyQueue \<Rightarrow>
   (u64 \<times> 'blob ZeroCopyQueue) option" where
  "ZeroCopyQueue_push_blob_callback grp data context callback q =
     push_entry grp
       (\<lambda>e. let e1 = ZeroCopyEntry_setData (Some (Blob data)) e in
            if callback \<noteq> None
            then ZeroCopyEntry_setCallback callback (ZeroCopyEntry_setContext context e1)
            else e1) q"

definition ZeroCopyQueue_push_data ::
  "u64 \<Rightarrow> 'blob Data \<Rightarrow> 'blob ZeroCopyQueue \<Rightarrow> (u64 \<times> 'blob ZeroCopyQueue) option" where
  "ZeroCopyQueue_push_data grp data q =
     push_entry grp (ZeroCopyEntry_setData (Some data)) q"

definition ZeroCopyQueue_push_data_callback ::
  "u64 \<Rightarrow> 'blob Data \<Rightarrow> SendContext \<Rightarrow> callback_ref option \<Rightarrow> 'blob ZeroCopyQueue \<Rightarrow>
   (u64 \<times> 'blob ZeroCopyQueue) option" where
  "ZeroCopyQueue_push_data_callback grp data context callback q =
     push_entry grp
       (\<lambda>e. let e1 = ZeroCopyEntry_setData (Some data) e in
            if callback \<noteq> None
            then ZeroCopyEntry_setCallback callback (ZeroCopyEntry_setContext context e1)
            else e1) q"

definition ZeroCopyQueue_push_shared ::
  "u64 \<Rightarrow> 'blob Data option \<Rightarrow> 'blob ZeroCopyQueue \<Rightarrow> (u64 \<times> 'blob ZeroCopyQueue) option" where
  "ZeroCopyQueue_push_shared grp data q = push_entry grp (ZeroCopyEntry_setData data) q"

definition ZeroCopyQueue_push_shared_callback ::
  "u64 \<Rightarrow> 'blob Data option \<Rightarrow> SendContext \<Rightarrow> callback_ref option \<Rightarrow> 'blob ZeroCopyQueue \<Rightarrow>
   (u64 \<times> 'blob ZeroCopyQueue) option" where
  "ZeroCopyQueue_push_shared_callback grp data context callback q =
     push_entry grp
       (\<lambda>e. let e1 = ZeroCopyEntry_setData data e in
            if callback \<noteq> None
            then ZeroCopyEntry_setCallback callback (ZeroCopyEntry_setContext context e1)
            else e1) q"

definition ZeroCopyQueue_push_group ::
  "u64 \<Rightarrow> 'blob ZeroCopyQueue \<Rightarrow> (u64 \<times> 'blob ZeroCopyQueue) option" where
  "ZeroCopyQueue_push_group grp q =
     do { bsls_assert (zq_waitList q \<noteq> []);
          let (counter, g) = ZeroCopyCounterGenerator_next (zq_generator q);
          let entry = last (zq_waitList q);
          bsls_assert (ze_group entry = grp);
          Some (counter, q\<lparr>zq_generator := g,
             zq_waitList := butlast (zq_waitList q) @ [ZeroCopyEntry_setMaxCounter (counter + 1) entry]\<rparr>) }"

definition ZeroCopyQueue_frame ::
  "u64 \<Rightarrow> 'blob ZeroCopyQueue \<Rightarrow> 'blob ZeroCopyQueue option" where
  "ZeroCopyQueue_frame grp q =
     do { bsls_assert (zq_waitList q \<noteq> []);
          let entry = last (zq_waitList q);
          bsls_assert (ze_group entry = grp);
          let entry = ZeroCopyEntry_setFramed True entry;
          if ZeroCopyEntry_complete entry
          then Some (q\<lparr>zq_doneList := zq_doneList q @ [entry],
                       zq_waitList := butlast (zq_waitList q)\<rparr>)
          else Some (q\<lparr>zq_waitList := butlast (zq_waitList q) @ [entry]\<rparr>) }"

text \<open>The loop of \<open>update\<close> over the wait list, with the done list as it grows.\<close>

fun update_loop ::
  "ZeroCopyRange \<Rightarrow> 'blob ZeroCopyEntry list \<Rightarrow> 'blob ZeroCopyEntry list \<Rightarrow>
   'blob ZeroCopyEntry list \<times> 'blob ZeroCopyEntry list" where
  "update_loop rng [] done = ([], done)"
| "update_loop rng (e # es) done =
     (if zr_maxCounter rng < ZeroCopyEntry_minCounter e then (e # es, done)
      else
        let e1 = ZeroCopyEntry_match rng e in
        if ZeroCopyEntry_complete e1
        then update_loop rng es (if ze_callback e1 \<noteq> None then done @ [e1] else done)
        else let (ws, ds) = update_loop rng es done in (e1 # ws, ds))"

definition ZeroCopyQueue_update ::
  "u32 \<times> u32 \<Rightarrow> 'blob ZeroCopyQueue \<Rightarrow> ntsa_error \<times> 'blob ZeroCopyQueue" where
  "ZeroCopyQueue_update zeroCopy q =
     (let (rng, g) = ZeroCopyCounterGenerator_update zeroCopy (zq_generator q);
          (ws, ds) = update_loop rng (zq_waitList q) (zq_doneList q)
      in (E_OK, q\<lparr>zq_generator := g, zq_waitList := ws, zq_doneList := ds\<rparr>))"

fun pop_loop ::
  "'blob ZeroCopyEntry list \<Rightarrow> (SendContext \<times> callback_ref) option \<times> 'blob ZeroCopyEntry list" where
  "pop_loop [] = (None, [])"
| "pop_loop (e # es) =
     (case ze_callback e of Some cb \<Rightarrow> (Some (ze_context e, cb), es) | None \<Rightarrow> pop_loop es)"

definition ZeroCopyQueue_pop ::
  "'blob ZeroCopyQueue \<Rightarrow> (SendContext \<times> callback_ref) option \<times> 'blob ZeroCopyQueue" where
  "ZeroCopyQueue_pop q =
     (let (r, ds) = pop_loop (zq_doneList q) in (r, q\<lparr>zq_doneList := ds\<rparr>))"

definition ZeroCopyQueue_clear :: "'blob ZeroCopyQueue \<Rightarrow> 'blob ZeroCopyQueue" where
  "ZeroCopyQueue_clear q = q\<lparr>zq_waitList := [], zq_doneList := []\<rparr>"

definition ZeroCopyQueue_clear_entries ::
  "'blob ZeroCopyEntry list \<Rightarrow> 'blob ZeroCopyQueue \<Rightarrow>
   'blob ZeroCopyEntry list \<times> 'blob ZeroCopyQueue" where
  "ZeroCopyQueue_clear_entries result q =
     (result @ filter (\<lambda>e. ze_callback e \<noteq> None) (zq_doneList q)
             @ filter (\<lambda>e. ze_callback e \<noteq> None) (zq_waitList q),
      q\<lparr>zq_doneList := [], zq_waitList := []\<rparr>)"

definition entry_callbacks :: "'blob ZeroCopyEntry list \<Rightarrow> callback_ref list" where
  "entry_callbacks es = concat (map (\<lambda>e. case ze_callback e of None \<Rightarrow> [] | Some cb \<Rightarrow> [cb]) es)"

definition ZeroCopyQueue_clear_callbacks ::
  "callback_ref list \<Rightarrow> 'blob ZeroCopyQueue \<Rightarrow> callback_ref list \<times> 'blob ZeroCopyQueue" where
  "ZeroCopyQueue_clear_callbacks result q =
     (result @ entry_callbacks (zq_doneList q) @ entry_callbacks (zq_waitList q),
      q\<lparr>zq_doneList := [], zq_waitList := []\<rparr>)"

definition ZeroCopyQueue_load ::
  "'blob ZeroCopyEntry list \<Rightarrow> 'blob ZeroCopyQueue \<Rightarrow> 'blob ZeroCopyEntry list" where
  "ZeroCopyQueue_load result q = (result @ zq_doneList q) @ zq_waitList q"

definition ZeroCopyQueue_ready :: "'blob ZeroCopyQueue \<Rightarrow> bool" where
  "ZeroCopyQueue_ready q \<longleftrightarrow> zq_doneList q \<noteq> []"

subsection \<open>Ranges as sets of counters\<close>

definition range_set :: "ZeroCopyRange \<Rightarrow> u64 set" where
  "range_set r = {zr_minCounter r ..< zr_maxCounter r}"

definition range_ok :: "ZeroCopyRange \<Rightarrow> bool" where
  "range_ok r \<longleftrightarrow> zr_minCounter r \<le> zr_maxCounter r"

lemmas range_defs =
  ZeroCopyRange_init_def ZeroCopyRange_create_def ZeroCopyRange_reset_def
  ZeroCopyRange_setMinCounter_def ZeroCopyRange_setMaxCounter_def ZeroCopyRange_empty_def
  range_set_def range_ok_def

lemma range_set_empty: "range_ok r \<Longrightarrow> range_set r = {} \<longleftrightarrow> ZeroCopyRange_empty r"
  by (auto simp: range_defs)

lemma intersect_set [simp]:
  "range_set (ZeroCopyRange_intersect a b) = range_set a \<inter> range_set b"
  by (auto simp: ZeroCopyRange_intersect_def range_defs Let_def)

lemma intersect_ok [simp]: "range_ok (ZeroCopyRange_intersect a b)"
  by (simp add: ZeroCopyRange_intersect_def range_defs Let_def)

lemma difference_set:
  assumes "range_ok a" and "ZeroCopyRange_difference a b = (p, v)" and "range_ok b"
    and "\<not> ZeroCopyRange_empty b" and "range_set b \<subseteq> range_set a"
  shows "range_set p \<union> range_set v = range_set a - range_set b \<and> range_ok p \<and> range_ok v \<and>
     (ZeroCopyRange_empty p \<longrightarrow> ZeroCopyRange_empty v) \<and>
     (\<not> ZeroCopyRange_empty v \<longrightarrow> zr_maxCounter p < zr_minCounter v)"
proof -
  have "zr_minCounter b < zr_maxCounter b"
    using assms(3,4) by (simp add: range_defs)
  moreover from this have "zr_minCounter a \<le> zr_minCounter b" "zr_maxCounter b \<le> zr_maxCounter a"
    using assms(5) by (auto simp: range_set_def atLeastLessThan_subset_iff)
  ultimately show ?thesis
    using assms(1,2)
    by (cases a; cases b) (auto simp: ZeroCopyRange_difference_def range_defs Let_def min_def max_def
        split: if_splits)
qed

subsection \<open>Matching completed counters\<close>

text \<open>The counters an entry still waits for.\<close>

definition pending_set :: "'blob ZeroCopyEntry \<Rightarrow> u64 set" where
  "pending_set e =
     (if ze_rangeSet e = [] then range_set (ze_range e)
      else (\<Union>r \<in> set (ze_rangeSet e). range_set r))"

text \<open>Its ranges are well-formed, and the single range is unused while the set of ranges is used.\<close>

definition ze_ok :: "'blob ZeroCopyEntry \<Rightarrow> bool" where
  "ze_ok e \<longleftrightarrow> range_ok (ze_range e) \<and> list_all range_ok (ze_rangeSet e) \<and>
     (ze_rangeSet e \<noteq> [] \<longrightarrow> ZeroCopyRange_empty (ze_range e))"

lemma difference_pieces:
  assumes "range_ok a" and "\<not> ZeroCopyRange_empty (ZeroCopyRange_intersect a c)"
    and "ZeroCopyRange_difference a (ZeroCopyRange_intersect a c) = (p, v)"
  shows "range_set p \<union> range_set v = range_set a - range_set c" "range_ok p" "range_ok v"
    "ZeroCopyRange_empty p \<Longrightarrow> ZeroCopyRange_empty v"
    "\<not> ZeroCopyRange_empty v \<Longrightarrow> zr_maxCounter p < zr_minCounter v"
  using difference_set [OF assms(1,3) intersect_ok assms(2)] by auto

lemma match_ranges_set:
  "list_all range_ok rs \<Longrightarrow>
   (\<Union>r \<in> set (match_ranges c rs). range_set r) = (\<Union>r \<in> set rs. range_set r) - range_set c \<and>
   list_all range_ok (match_ranges c rs)"
proof (induction rs)
  case Nil
  then show ?case by simp
next
  case (Cons a rs)
  show ?case
  proof (cases "ZeroCopyRange_empty (ZeroCopyRange_intersect a c)")
    case True
    then have "range_set a \<inter> range_set c = {}"
      using range_set_empty [OF intersect_ok] intersect_set by blast
    with True Cons show ?thesis by auto
  next
    case False
    obtain p v where d: "ZeroCopyRange_difference a (ZeroCopyRange_intersect a c) = (p, v)"
      by fastforce
    note pv = difference_pieces [OF _ False d]
    have "range_set p = {} \<longleftrightarrow> ZeroCopyRange_empty p" "range_set v = {} \<longleftrightarrow> ZeroCopyRange_empty v"
      using pv Cons.prems by (simp_all add: range_set_empty)
    with False d pv Cons show ?thesis by auto
  qed
qed

lemma match_pending:
  assumes "ze_ok e"
  shows "pending_set (ZeroCopyEntry_match c e) = pending_set e - range_set c \<and>
     ze_ok (ZeroCopyEntry_match c e)"
proof (cases "ze_rangeSet e = []")
  case True
  show ?thesis
  proof (cases "ZeroCopyRange_empty (ZeroCopyRange_intersect (ze_range e) c)")
    case empty: True
    then have "range_set (ze_range e) \<inter> range_set c = {}"
      using range_set_empty [OF intersect_ok] intersect_set by blast
    with True empty assms show ?thesis by (auto simp: ZeroCopyEntry_match_def pending_set_def)
  next
    case False
    obtain p v where
      d: "ZeroCopyRange_difference (ze_range e) (ZeroCopyRange_intersect (ze_range e) c) = (p, v)"
      by fastforce
    note pv = difference_pieces [OF _ False d]
    have "range_set v = {} \<longleftrightarrow> ZeroCopyRange_empty v"
      using pv assms by (simp add: ze_ok_def range_set_empty)
    with True False d pv assms show ?thesis
      by (auto simp: ZeroCopyEntry_match_def pending_set_def ze_ok_def ZeroCopyRange_reset_def
          ZeroCopyRange_empty_def range_ok_def)
  qed
next
  case False
  have "range_set (ze_range e) = {}"
    using assms False by (auto simp: ze_ok_def range_set_empty)
  with False assms match_ranges_set [of "ze_rangeSet e" c] show ?thesis
    by (auto simp: ZeroCopyEntry_match_def pending_set_def ze_ok_def)
qed

lemma match_fields [simp]:
  "ze_framed (ZeroCopyEntry_match c e) = ze_framed e"
  "ze_callback (ZeroCopyEntry_match c e) = ze_callback e"
  "ze_context (ZeroCopyEntry_match c e) = ze_context e"
  "ze_group (ZeroCopyEntry_match c e) = ze_group e"
  by (simp_all add: ZeroCopyEntry_match_def Let_def split: prod.splits)

lemma complete_iff:
  assumes "ze_ok e"
  shows "ZeroCopyEntry_complete e \<longleftrightarrow> ze_framed e \<and> pending_set e = {}"
  using assms
  by (auto simp: ZeroCopyEntry_complete_def pending_set_def ze_ok_def range_set_empty list_all_iff)

text \<open>
  Matching a completed range against a well-formed entry removes exactly the completed
  counters from those the entry waits for, splitting ranges as needed, and keeps the entry
  well-formed; matching a whole list of completed ranges removes their union, in any order, and
  the entry is complete exactly when it is framed and no counter is left.
\<close>

theorem zero_copy_match_removes:
  assumes "ze_ok e"
  shows "pending_set (fold ZeroCopyEntry_match cs e) = pending_set e - (\<Union>c \<in> set cs. range_set c) \<and>
     ze_ok (fold ZeroCopyEntry_match cs e) \<and>
     (ZeroCopyEntry_complete (fold ZeroCopyEntry_match cs e) \<longleftrightarrow>
        ze_framed e \<and> pending_set e \<subseteq> (\<Union>c \<in> set cs. range_set c))"
proof -
  have fold: "pending_set (fold ZeroCopyEntry_match cs e) = pending_set e - (\<Union>c \<in> set cs. range_set c) \<and>
     ze_ok (fold ZeroCopyEntry_match cs e) \<and>
     ze_framed (fold ZeroCopyEntry_match cs e) = ze_framed e"
    using assms
  proof (induction cs arbitrary: e)
    case Nil
    then show ?case by simp
  next
    case (Cons c cs)
    have m: "pending_set (ZeroCopyEntry_match c e) = pending_set e - range_set c"
        "ze_ok (ZeroCopyEntry_match c e)"
      using match_pending [OF Cons.prems, of c] by simp_all
    have "pending_set e - range_set c - (\<Union>c \<in> set cs. range_set c)
        = pending_set e - (\<Union>c \<in> set (c # cs). range_set c)"
      by auto
    with Cons.IH [OF m(2)] m(1) show ?case by simp
  qed
  then have "ze_ok (fold ZeroCopyEntry_match cs e)" by simp
  from complete_iff [OF this] fold show ?thesis by auto
qed

definition sample_waiting :: "nat ZeroCopyEntry" where
  "sample_waiting = ZeroCopyEntry_init\<lparr>ze_range := ZeroCopyRange_create 3 9, ze_framed := True\<rparr>"

lemma sample_waiting_ok: "ze_ok sample_waiting"
  by (simp add: sample_waiting_def ze_ok_def ZeroCopyEntry_init_def range_defs)

theorem zero_copy_match_removes_witness:
  "ze_ok sample_waiting \<and>
   ZeroCopyEntry_complete (fold ZeroCopyEntry_match
     [ZeroCopyRange_create 5 6, ZeroCopyRange_create 6 9, ZeroCopyRange_create 3 5] sample_waiting)"
proof -
  have "pending_set sample_waiting \<subseteq> {5 ..< 6} \<union> {6 ..< 9} \<union> {3 ..< (5 :: u64)}"
    by (auto simp: sample_waiting_def pending_set_def ZeroCopyEntry_init_def range_defs not_le)
  with zero_copy_match_removes [OF sample_waiting_ok,
      of "[ZeroCopyRange_create 5 6, ZeroCopyRange_create 6 9, ZeroCopyRange_create 3 5]"]
  show ?thesis
    using sample_waiting_ok
    by (auto simp: range_set_def ZeroCopyRange_create_def sample_waiting_def)
qed

subsection \<open>Widening the counters of the operating system\<close>

text \<open>
  The operating system numbers the zero-copied system calls with 32-bit counters, from zero.
  \<open>reports a ns\<close> are the updates that report completion in order from the \<open>a\<close>-th call on, the
  next \<open>n\<close> calls at a time; \<open>exact_ranges\<close> are the same ranges in 64-bit counters.
\<close>

fun reports :: "nat \<Rightarrow> nat list \<Rightarrow> (u32 \<times> u32) list" where
  "reports a [] = []"
| "reports a (n # ns) = (of_nat a, of_nat (a + n - 1)) # reports (a + n) ns"

fun exact_ranges :: "nat \<Rightarrow> nat list \<Rightarrow> ZeroCopyRange list" where
  "exact_ranges a [] = []"
| "exact_ranges a (n # ns) = ZeroCopyRange_create (of_nat a) (of_nat (a + n)) # exact_ranges (a + n) ns"

fun generator_updates ::
  "(u32 \<times> u32) list \<Rightarrow> ZeroCopyCounterGenerator \<Rightarrow> ZeroCopyRange list \<times> ZeroCopyCounterGenerator" where
  "generator_updates [] g = ([], g)"
| "generator_updates (z # zs) g =
     (let (r, g1) = ZeroCopyCounterGenerator_update z g; (rs, g2) = generator_updates zs g1
      in (r # rs, g2))"

text \<open>The generator stands at the \<open>a\<close>-th call.\<close>

definition wrap32 :: nat where
  "wrap32 = 4294967296"

definition generator_at :: "nat \<Rightarrow> ZeroCopyCounterGenerator \<Rightarrow> bool" where
  "generator_at a g \<longleftrightarrow>
     zg_generation g = of_nat (a div wrap32) \<and>
     zg_bias g = of_nat (a div wrap32 * (wrap32 - 1))"

abbreviation next_generation :: "ZeroCopyCounterGenerator \<Rightarrow> ZeroCopyCounterGenerator" where
  "next_generation g \<equiv> g\<lparr>zg_bias := zg_bias g + uint32_max, zg_generation := zg_generation g + 1\<rparr>"

lemma widen: "(ucast (of_nat a :: u32) :: u64) = of_nat (a mod wrap32)"
  by (simp add: unsigned_of_nat take_bit_eq_mod wrap32_def)

lemma u64_less: "x < wrap32 \<Longrightarrow> y < wrap32 \<Longrightarrow> (of_nat x :: u64) < of_nat y \<longleftrightarrow> x < y"
  by (simp add: word_less_nat_alt unat_of_nat wrap32_def)

lemma u64_eq: "x < wrap32 \<Longrightarrow> y < wrap32 \<Longrightarrow> (of_nat x :: u64) = of_nat y \<longleftrightarrow> x = y"
  using u64_less [of x y] u64_less [of y x] by (metis linorder_neq_iff)

lemma uint32_max_nat: "uint32_max = of_nat (wrap32 - 1)" "uint32_max + 1 = of_nat wrap32"
  by (simp_all add: uint32_max_def wrap32_def)

lemma generator_offset:
  assumes "generator_at a g"
  shows "zg_bias g + zg_generation g = of_nat (a div wrap32 * wrap32)"
proof -
  have "a div wrap32 * (wrap32 - 1) + a div wrap32 = a div wrap32 * wrap32"
    by (simp add: wrap32_def algebra_simps)
  then show ?thesis using assms unfolding generator_at_def by (metis of_nat_add)
qed

lemma generator_advance:
  assumes "generator_at a g" and "b div wrap32 = a div wrap32 + 1"
  shows "generator_at b (next_generation g)"
proof -
  have "b div wrap32 * (wrap32 - 1) = a div wrap32 * (wrap32 - 1) + (wrap32 - 1)"
    by (simp only: assms(2) add_mult_distrib mult_1)
  then have "(of_nat (b div wrap32 * (wrap32 - 1)) :: u64)
      = of_nat (a div wrap32 * (wrap32 - 1)) + of_nat (wrap32 - 1)"
    by (simp only: of_nat_add)
  then show ?thesis
    using assms by (simp add: generator_at_def uint32_max_nat)
qed

text \<open>One update, in terms of the position of the generator and the two remainders.\<close>

lemma update_nat:
  assumes "generator_at a g" and "f = b mod wrap32" and "t = c mod wrap32"
    and "start = a div wrap32 * wrap32"
  shows "ZeroCopyCounterGenerator_update (of_nat b, of_nat c) g =
    (if t < f
     then (ZeroCopyRange_create (of_nat (start + f)) (of_nat (start + wrap32 + t + 1)), next_generation g)
     else (ZeroCopyRange_create (of_nat (start + f)) (of_nat (start + t + 1)),
           if t = wrap32 - 1 then next_generation g else g))"
proof -
  have less: "f < wrap32" "t < wrap32" "wrap32 - 1 < wrap32"
    using assms(2,3) by (simp_all add: wrap32_def)
  have full: "(of_nat t :: u64) = uint32_max \<longleftrightarrow> t = wrap32 - 1"
    unfolding uint32_max_nat using u64_eq less by blast
  have "of_nat start + of_nat f + (uint32_max - of_nat f + of_nat t + 2)
      = of_nat start + ((uint32_max + 1) + of_nat t + (1 :: u64))"
    by (simp add: algebra_simps)
  then have hi: "of_nat start + of_nat f + (uint32_max - of_nat f + of_nat t + 2)
      = (of_nat (start + wrap32 + t + 1) :: u64)"
    by (simp only: uint32_max_nat(2) of_nat_add of_nat_1 add.assoc)
  have lo: "of_nat start + of_nat f = (of_nat (start + f) :: u64)"
    and hi': "of_nat start + of_nat t + 1 = (of_nat (start + t + 1) :: u64)"
    by (simp_all only: of_nat_add of_nat_1)
  show ?thesis
    by (simp only: ZeroCopyCounterGenerator_update_def fst_conv snd_conv widen
        assms(2-4) [symmetric] generator_offset [OF assms(1)] u64_less [OF less(2,1)] full Let_def
        hi hi' lo [symmetric])
qed

lemma div_mod_eq: "x = q * m + r \<Longrightarrow> r < m \<Longrightarrow> x div m = q \<and> x mod m = (r :: nat)"
  by simp

lemma div_mod_step:
  fixes a n m b :: nat
  assumes "0 < n" and "n \<le> m" and "b = a + n - 1"
  shows "a mod m + n \<le> m \<Longrightarrow> b mod m = a mod m + n - 1"
    and "m < a mod m + n \<Longrightarrow> b mod m = a mod m + n - 1 - m"
    and "a mod m + n < m \<Longrightarrow> (a + n) div m = a div m"
    and "m \<le> a mod m + n \<Longrightarrow> (a + n) div m = a div m + 1"
proof -
  have a: "a = a div m * m + a mod m" "a mod m < m" using assms by simp_all
  show "b mod m = a mod m + n - 1" if "a mod m + n \<le> m"
    using a that assms by (intro div_mod_eq [THEN conjunct2, of _ "a div m"]) linarith+
  show "b mod m = a mod m + n - 1 - m" if "m < a mod m + n"
  proof (intro div_mod_eq [THEN conjunct2])
    show "b = (a div m + 1) * m + (a mod m + n - 1 - m)"
      using a that assms unfolding add_mult_distrib by linarith
  qed (use a that assms in linarith)
  show "(a + n) div m = a div m" if "a mod m + n < m"
    using a that by (intro div_mod_eq [THEN conjunct1, of _ _ _ "a mod m + n"]) linarith+
  show "(a + n) div m = a div m + 1" if "m \<le> a mod m + n"
  proof (intro div_mod_eq [THEN conjunct1])
    show "a + n = (a div m + 1) * m + (a mod m + n - m)"
      using a that assms unfolding add_mult_distrib by linarith
  qed (use a that assms in linarith)
qed

lemma generator_step:
  assumes g: "generator_at a g" and n: "0 < n" "n \<le> wrap32"
  shows "\<exists>g'. ZeroCopyCounterGenerator_update (of_nat a, of_nat (a + n - 1)) g =
           (ZeroCopyRange_create (of_nat a) (of_nat (a + n)), g') \<and> generator_at (a + n) g'"
proof -
  define b where "b = a + n - 1"
  define start where "start = a div wrap32 * wrap32"
  have a: "start + a mod wrap32 = a" unfolding start_def by simp
  note step = div_mod_step [OF n b_def]
  note up = update_nat [OF g refl refl start_def, of a b]
  show ?thesis
  proof (cases "a mod wrap32 + n \<le> wrap32")
    case True
    have b: "b mod wrap32 = a mod wrap32 + n - 1" using step(1) True by blast
    have up': "ZeroCopyCounterGenerator_update (of_nat a, of_nat b) g =
        (ZeroCopyRange_create (of_nat a) (of_nat (a + n)),
         if a mod wrap32 + n = wrap32 then next_generation g else g)"
    proof -
      have "\<not> b mod wrap32 < a mod wrap32" using b n by linarith
      moreover have "start + b mod wrap32 + 1 = a + n" using b n a by linarith
      moreover have "b mod wrap32 = wrap32 - 1 \<longleftrightarrow> a mod wrap32 + n = wrap32"
        using b n True by linarith
      ultimately show ?thesis using up a by presburger
    qed
    have "generator_at (a + n) (if a mod wrap32 + n = wrap32 then next_generation g else g)"
    proof (cases "a mod wrap32 + n = wrap32")
      case True
      then show ?thesis using generator_advance [OF g] step(4) by simp
    next
      case False
      then have "(a + n) div wrap32 = a div wrap32" using step(3) True by simp
      with g False show ?thesis by (simp add: generator_at_def)
    qed
    with up' show ?thesis unfolding b_def by blast
  next
    case False
    then have b: "b mod wrap32 = a mod wrap32 + n - 1 - wrap32" using step(2) by simp
    have "b mod wrap32 < a mod wrap32" using b n False by linarith
    moreover have "start + wrap32 + b mod wrap32 + 1 = a + n" using b n a False by linarith
    ultimately have "ZeroCopyCounterGenerator_update (of_nat a, of_nat b) g =
        (ZeroCopyRange_create (of_nat a) (of_nat (a + n)), next_generation g)"
      using up a by presburger
    moreover have "generator_at (a + n) (next_generation g)"
      using generator_advance [OF g] step(4) False by simp
    ultimately show ?thesis unfolding b_def by blast
  qed
qed

lemma generator_run:
  assumes "generator_at a g" and "list_all (\<lambda>n. 0 < n \<and> n \<le> wrap32) ns"
  shows "\<exists>g'. generator_updates (reports a ns) g = (exact_ranges a ns, g') \<and>
           generator_at (a + sum_list ns) g'"
  using assms
proof (induction ns arbitrary: a g)
  case Nil
  then show ?case by simp
next
  case (Cons n ns)
  then obtain g1 where g1: "ZeroCopyCounterGenerator_update (of_nat a, of_nat (a + n - 1)) g =
      (ZeroCopyRange_create (of_nat a) (of_nat (a + n)), g1)" "generator_at (a + n) g1"
    using generator_step [of a g n] by auto
  with Cons.IH [OF g1(2)] Cons.prems(2) show ?case by (auto simp: add.assoc)
qed

text \<open>
  Claim C22. If the operating system reports the completion of zero-copied system calls in order,
  up to 2^32 at a time, in its 32-bit counters, the generator turns each report into exactly the
  64-bit range of those calls, over any number of wrap-arounds of the 32-bit counter.
\<close>

theorem zero_copy_generator_exact:
  assumes "list_all (\<lambda>n. 0 < n \<and> n \<le> 4294967296) ns"
  shows "fst (generator_updates (reports 0 ns) ZeroCopyCounterGenerator_init) = exact_ranges 0 ns"
  using generator_run [of 0 ZeroCopyCounterGenerator_init ns] assms
  by (auto simp: generator_at_def ZeroCopyCounterGenerator_init_def wrap32_def)

theorem zero_copy_generator_exact_witness:
  "fst (generator_updates [(0, 4294967292), (4294967293, 1), (2, 4)] ZeroCopyCounterGenerator_init) =
     [ZeroCopyRange_create 0 4294967293, ZeroCopyRange_create 4294967293 4294967298,
      ZeroCopyRange_create 4294967298 4294967301]"
proof -
  have r: "reports 0 [4294967293, 5, 3] = [(0, 4294967292), (4294967293, 1), (2, 4)]" by simp
  have e: "exact_ranges 0 [4294967293, 5, 3] =
     [ZeroCopyRange_create 0 4294967293, ZeroCopyRange_create 4294967293 4294967298,
      ZeroCopyRange_create 4294967298 4294967301]" by simp
  show ?thesis
    using zero_copy_generator_exact [of "[4294967293, 5, 3]"] unfolding r e by simp
qed

subsection \<open>The update of the queue\<close>

text \<open>
  The reference: every waiting entry is matched; the complete ones leave the wait list, those
  with a callback for the done list.
\<close>

definition update_all ::
  "ZeroCopyRange \<Rightarrow> 'blob ZeroCopyEntry list \<Rightarrow> 'blob ZeroCopyEntry list \<times> 'blob ZeroCopyEntry list" where
  "update_all c es =
     (let ms = map (ZeroCopyEntry_match c) es in
      (filter (\<lambda>e. \<not> ZeroCopyEntry_complete e) ms,
       filter (\<lambda>e. ZeroCopyEntry_complete e \<and> ze_callback e \<noteq> None) ms))"

text \<open>
  A wait list in order: an entry's least counter, by which the loop decides to stop, bounds the
  counters the entry waits for and those of all later entries from below.
\<close>

definition wait_ok :: "'blob ZeroCopyEntry list \<Rightarrow> bool" where
  "wait_ok es \<longleftrightarrow>
     list_all (\<lambda>e. ze_ok e \<and> \<not> ZeroCopyEntry_complete e \<and>
                   (\<forall>x \<in> pending_set e. ZeroCopyEntry_minCounter e \<le> x)) es \<and>
     sorted_wrt (\<lambda>e f. \<forall>x \<in> pending_set f. ZeroCopyEntry_minCounter e \<le> x) es"

lemma match_ranges_disjoint:
  "\<forall>r \<in> set rs. range_set r \<inter> range_set c = {} \<Longrightarrow> match_ranges c rs = rs"
  by (induction rs) (auto simp: range_set_empty [OF intersect_ok, symmetric])

lemma match_disjoint:
  assumes "pending_set e \<inter> range_set c = {}"
  shows "ZeroCopyEntry_match c e = e"
proof (cases "ze_rangeSet e = []")
  case True
  with assms show ?thesis
    by (simp add: ZeroCopyEntry_match_def pending_set_def range_set_empty [OF intersect_ok, symmetric])
next
  case False
  with assms have "match_ranges c (ze_rangeSet e) = ze_rangeSet e"
    by (intro match_ranges_disjoint) (auto simp: pending_set_def)
  with False show ?thesis by (simp add: ZeroCopyEntry_match_def)
qed

lemma update_all_disjoint:
  assumes "\<forall>e \<in> set es. pending_set e \<inter> range_set c = {} \<and> \<not> ZeroCopyEntry_complete e"
  shows "update_all c es = (es, [])"
proof -
  have "map (ZeroCopyEntry_match c) es = es"
    using assms by (intro map_idI) (simp add: match_disjoint)
  with assms show ?thesis by (auto simp: update_all_def Let_def filter_empty_conv filter_id_conv)
qed

lemma update_loop_all:
  assumes "wait_ok es"
  shows "update_loop c es ds = (fst (update_all c es), ds @ snd (update_all c es))"
  using assms
proof (induction es arbitrary: ds)
  case Nil
  then show ?case by (simp add: update_all_def)
next
  case (Cons e es)
  show ?case
  proof (cases "zr_maxCounter c < ZeroCopyEntry_minCounter e")
    case True
    have "pending_set f \<inter> range_set c = {} \<and> \<not> ZeroCopyEntry_complete f" if "f \<in> set (e # es)" for f
    proof -
      have "\<forall>x \<in> pending_set f. ZeroCopyEntry_minCounter e \<le> x"
        using Cons.prems that by (auto simp: wait_ok_def)
      with True have "pending_set f \<inter> range_set c = {}"
        by (fastforce simp: range_set_def)
      with Cons.prems that show ?thesis by (auto simp: wait_ok_def list_all_iff)
    qed
    then have "update_all c (e # es) = (e # es, [])" by (intro update_all_disjoint) blast
    with True show ?thesis by simp
  next
    case False
    have "wait_ok es" using Cons.prems by (simp add: wait_ok_def)
    from Cons.IH [OF this] False show ?thesis
      by (auto simp: update_all_def Let_def)
  qed
qed

subsection \<open>No callback is lost or repeated\<close>

datatype 'blob zq_op =
    ZPush u64 "'blob Data option" SendContext "callback_ref option"
  | ZExtend u64
  | ZFrame u64
  | ZUpdate "u32 \<times> u32"
  | ZPop
  | ZClear

fun zq_step ::
  "'blob zq_op \<Rightarrow> 'blob ZeroCopyQueue \<Rightarrow> (callback_ref list \<times> 'blob ZeroCopyQueue) option" where
  "zq_step (ZPush grp d ctx cb) q =
     map_option (\<lambda>(c, q'). ([], q')) (ZeroCopyQueue_push_shared_callback grp d ctx cb q)"
| "zq_step (ZExtend grp) q = map_option (\<lambda>(c, q'). ([], q')) (ZeroCopyQueue_push_group grp q)"
| "zq_step (ZFrame grp) q = map_option (\<lambda>q'. ([], q')) (ZeroCopyQueue_frame grp q)"
| "zq_step (ZUpdate z) q = Some ([], snd (ZeroCopyQueue_update z q))"
| "zq_step ZPop q =
     (let (r, q') = ZeroCopyQueue_pop q in Some (case r of None \<Rightarrow> [] | Some (ctx, cb) \<Rightarrow> [cb], q'))"
| "zq_step ZClear q = Some (ZeroCopyQueue_clear_callbacks [] q)"

fun zq_pushed :: "'blob zq_op \<Rightarrow> callback_ref list" where
  "zq_pushed (ZPush grp d ctx cb) = (case cb of None \<Rightarrow> [] | Some c \<Rightarrow> [c])"
| "zq_pushed _ = []"

definition zq_callbacks :: "'blob ZeroCopyQueue \<Rightarrow> callback_ref list" where
  "zq_callbacks q = entry_callbacks (zq_doneList q) @ entry_callbacks (zq_waitList q)"

lemma entry_callbacks_simps [simp]:
  "entry_callbacks [] = []"
  "entry_callbacks (e # es) = (case ze_callback e of None \<Rightarrow> [] | Some cb \<Rightarrow> [cb]) @ entry_callbacks es"
  "entry_callbacks (es @ fs) = entry_callbacks es @ entry_callbacks fs"
  by (simp_all add: entry_callbacks_def)

lemma setMaxCounter_fields [simp]:
  "ze_callback (ZeroCopyEntry_setMaxCounter c e) = ze_callback e"
  "ze_framed (ZeroCopyEntry_setMaxCounter c e) = ze_framed e"
  "ze_group (ZeroCopyEntry_setMaxCounter c e) = ze_group e"
  "ze_context (ZeroCopyEntry_setMaxCounter c e) = ze_context e"
  by (simp_all add: ZeroCopyEntry_setMaxCounter_def)

lemma setMinCounter_fields [simp]:
  "ze_callback (ZeroCopyEntry_setMinCounter c e) = ze_callback e"
  by (simp add: ZeroCopyEntry_setMinCounter_def split: list.splits)

lemma entry_callbacks_butlast:
  "es \<noteq> [] \<Longrightarrow> entry_callbacks es =
     entry_callbacks (butlast es) @ (case ze_callback (last es) of None \<Rightarrow> [] | Some cb \<Rightarrow> [cb])"
  by (induction es) auto

lemma update_loop_callbacks:
  "update_loop c es ds = (ws, ds') \<Longrightarrow>
   mset (entry_callbacks ds') + mset (entry_callbacks ws) = mset (entry_callbacks ds) + mset (entry_callbacks es)"
proof (induction c es ds arbitrary: ws ds' rule: update_loop.induct)
  case (1 c ds)
  then show ?case by simp
next
  case (2 c e es ds)
  show ?case
  proof (cases "zr_maxCounter c < ZeroCopyEntry_minCounter e")
    case True
    with "2.prems" show ?thesis by simp
  next
    case False
    with 2 show ?thesis
      by (auto simp: Let_def split: if_splits prod.splits option.splits)
  qed
qed

lemma pop_loop_callbacks:
  "pop_loop ds = (r, ds') \<Longrightarrow>
   entry_callbacks ds = (case r of None \<Rightarrow> [] | Some (ctx, cb) \<Rightarrow> [cb]) @ entry_callbacks ds'"
  by (induction ds) (auto split: option.splits)

lemma zq_step_conserve:
  assumes "zq_step x q = Some (out, q')"
  shows "mset (zq_callbacks q) + mset (zq_pushed x) = mset out + mset (zq_callbacks q')"
proof (cases x)
  case (ZPush grp d ctx cb)
  with assms show ?thesis
    by (auto simp: ZeroCopyQueue_push_shared_callback_def push_entry_def new_entry_def
        ZeroCopyCounterGenerator_next_def zq_callbacks_def Let_def ntf_defs ZeroCopyEntry_init_def
        split: option.splits if_splits)
next
  case (ZExtend grp)
  with assms entry_callbacks_butlast [of "zq_waitList q"] show ?thesis
    by (auto simp: ZeroCopyQueue_push_group_def ZeroCopyCounterGenerator_next_def zq_callbacks_def
        Let_def split: if_splits)
next
  case (ZFrame grp)
  with assms entry_callbacks_butlast [of "zq_waitList q"] show ?thesis
    by (auto simp: ZeroCopyQueue_frame_def zq_callbacks_def Let_def ntf_defs split: if_splits)
next
  case (ZUpdate z)
  with assms update_loop_callbacks show ?thesis
    by (fastforce simp: ZeroCopyQueue_update_def zq_callbacks_def split: prod.splits)
next
  case ZPop
  with assms pop_loop_callbacks show ?thesis
    by (fastforce simp: ZeroCopyQueue_pop_def zq_callbacks_def split: prod.splits)
next
  case ZClear
  with assms show ?thesis by (auto simp: ZeroCopyQueue_clear_callbacks_def zq_callbacks_def)
qed

interpretation zero_copy: conserving_queue zq_callbacks zq_step zq_pushed
  by unfold_locales (rule zq_step_conserve)

text \<open>
  Claim C30. In every run of pushes, extensions, framings, updates, pops and clears of a fresh
  zero-copy queue, the callbacks handed out together with those still held are exactly those
  pushed, with multiplicity: none is lost and none is invoked twice.
\<close>

theorem zero_copy_callbacks_conserved:
  assumes "run_out zq_step ops ZeroCopyQueue_init = Some (outs, q)"
  shows "mset (concat (map zq_pushed ops)) =
     mset outs + mset (entry_callbacks (zq_doneList q)) + mset (entry_callbacks (zq_waitList q))"
  using zero_copy.run_conserve [OF assms]
  by (simp add: zq_callbacks_def ZeroCopyQueue_init_def add.assoc)

theorem zero_copy_callbacks_conserved_witness:
  "\<exists>q. run_out zq_step [ZPush 1 None SendContext_init (Some 5), ZFrame 1, ZUpdate (0, 0), ZPop]
          (ZeroCopyQueue_init :: nat ZeroCopyQueue) = Some ([5], q) \<and>
       mset [5] = mset [5] + mset (entry_callbacks (zq_doneList q)) + mset (entry_callbacks (zq_waitList q))"
proof -
  have "\<exists>q. run_out zq_step [ZPush 1 None SendContext_init (Some 5), ZFrame 1, ZUpdate (0, 0), ZPop]
          (ZeroCopyQueue_init :: nat ZeroCopyQueue) = Some ([5], q)"
    by (simp add: ZeroCopyQueue_push_shared_callback_def push_entry_def new_entry_def
        ZeroCopyQueue_init_def ZeroCopyCounterGenerator_next_def ZeroCopyCounterGenerator_init_def
        ZeroCopyQueue_frame_def ZeroCopyEntry_setMinCounter_def ZeroCopyEntry_setMaxCounter_def
        ZeroCopyEntry_init_def ntf_defs range_defs ZeroCopyEntry_complete_def
        ZeroCopyQueue_update_def ZeroCopyCounterGenerator_update_def uint32_max_def
        ZeroCopyEntry_minCounter_def ZeroCopyEntry_match_def ZeroCopyRange_intersect_def
        ZeroCopyRange_difference_def ZeroCopyQueue_pop_def)
  then obtain q where q: "run_out zq_step
      [ZPush 1 None SendContext_init (Some 5), ZFrame 1, ZUpdate (0, 0), ZPop]
      (ZeroCopyQueue_init :: nat ZeroCopyQueue) = Some ([5], q)" by blast
  then show ?thesis using zero_copy_callbacks_conserved [OF q] by auto
qed

subsection \<open>The wait list of a queue that operations lead to\<close>

text \<open>Ranges that are not empty, in ascending order.\<close>

definition ranges_sorted :: "ZeroCopyRange list \<Rightarrow> bool" where
  "ranges_sorted rs \<longleftrightarrow>
     list_all (\<lambda>r. zr_minCounter r < zr_maxCounter r) rs \<and>
     sorted_wrt (\<lambda>r s. \<forall>x \<in> range_set r. \<forall>y \<in> range_set s. x < y) rs"

text \<open>An entry holds one range, or a set of ranges in order, or waits for nothing.\<close>

definition entry_sorted :: "'blob ZeroCopyEntry \<Rightarrow> bool" where
  "entry_sorted e \<longleftrightarrow>
     ranges_sorted (ze_rangeSet e) \<and>
     (ze_range e = ZeroCopyRange_init \<or> ze_rangeSet e = [] \<and> zr_minCounter (ze_range e) < zr_maxCounter (ze_range e))"

lemma ranges_sorted_ok: "ranges_sorted rs \<Longrightarrow> list_all range_ok rs"
  by (auto simp: ranges_sorted_def range_ok_def list_all_iff)

lemma entry_sorted_ok: "entry_sorted e \<Longrightarrow> ze_ok e"
  using ranges_sorted_ok [of "ze_rangeSet e"] by (auto simp: entry_sorted_def ze_ok_def range_defs)

lemma piece_sorted:
  assumes "zr_minCounter a < zr_maxCounter a" and "\<not> ZeroCopyRange_empty (ZeroCopyRange_intersect a c)"
    and "ZeroCopyRange_difference a (ZeroCopyRange_intersect a c) = (p, v)"
  shows "ranges_sorted ((if \<not> ZeroCopyRange_empty p then [p] else []) @ (if \<not> ZeroCopyRange_empty v then [v] else []))"
    and "range_set p \<union> range_set v \<subseteq> range_set a"
proof -
  have "range_ok a" using assms(1) by (simp add: range_ok_def)
  note pv = difference_pieces [OF this assms(2,3)]
  show "range_set p \<union> range_set v \<subseteq> range_set a" using pv(1) by auto
  show "ranges_sorted ((if \<not> ZeroCopyRange_empty p then [p] else []) @ (if \<not> ZeroCopyRange_empty v then [v] else []))"
    using pv(2,3,5) by (auto simp: ranges_sorted_def range_ok_def ZeroCopyRange_empty_def range_set_def)
qed

lemma difference_empty:
  assumes "zr_minCounter a < zr_maxCounter a" and "\<not> ZeroCopyRange_empty (ZeroCopyRange_intersect a c)"
    and "ZeroCopyRange_difference a (ZeroCopyRange_intersect a c) = (p, v)" and "ZeroCopyRange_empty p"
  shows "p = ZeroCopyRange_init"
proof -
  let ?b = "ZeroCopyRange_intersect a c"
  have "range_set ?b \<subseteq> range_set a" "zr_minCounter ?b < zr_maxCounter ?b"
    using intersect_ok [of a c] assms(2) by (auto simp: range_ok_def ZeroCopyRange_empty_def simp del: intersect_ok)
  then have "zr_minCounter a \<le> zr_minCounter ?b" "zr_maxCounter ?b \<le> zr_maxCounter a"
    unfolding range_set_def by (auto simp: atLeastLessThan_subset_iff)
  then show ?thesis using assms(1,3,4) \<open>zr_minCounter ?b < zr_maxCounter ?b\<close>
    by (auto simp: ZeroCopyRange_difference_def range_defs Let_def min_def max_def split: if_splits)
qed

lemma ranges_sorted_append:
  "ranges_sorted (rs @ ss) \<longleftrightarrow> ranges_sorted rs \<and> ranges_sorted ss \<and>
     (\<forall>x \<in> (\<Union>r \<in> set rs. range_set r). \<forall>y \<in> (\<Union>s \<in> set ss. range_set s). x < y)"
  by (auto simp: ranges_sorted_def sorted_wrt_append)

lemma match_ranges_sorted: "ranges_sorted rs \<Longrightarrow> ranges_sorted (match_ranges c rs)"
proof (induction rs)
  case Nil
  then show ?case by simp
next
  case (Cons a rs)
  have s: "ranges_sorted [a]" "ranges_sorted rs" "\<forall>x \<in> range_set a. \<forall>y \<in> (\<Union>s \<in> set rs. range_set s). x < y"
    using Cons.prems ranges_sorted_append [of "[a]" rs] by auto
  have sub: "(\<Union>r \<in> set (match_ranges c rs). range_set r) \<subseteq> (\<Union>r \<in> set rs. range_set r)"
    using match_ranges_set [OF ranges_sorted_ok [OF s(2)], of c] by auto
  note rest = Cons.IH [OF s(2)]
  show ?case
  proof (cases "ZeroCopyRange_empty (ZeroCopyRange_intersect a c)")
    case True
    then show ?thesis using s rest sub ranges_sorted_append [of "[a]" "match_ranges c rs"] by fastforce
  next
    case False
    obtain p v where d: "ZeroCopyRange_difference a (ZeroCopyRange_intersect a c) = (p, v)" by fastforce
    have "zr_minCounter a < zr_maxCounter a" using s(1) by (simp add: ranges_sorted_def)
    note pv = piece_sorted [OF this False d]
    let ?ps = "(if \<not> ZeroCopyRange_empty p then [p] else []) @ (if \<not> ZeroCopyRange_empty v then [v] else [])"
    have "(\<Union>r \<in> set ?ps. range_set r) \<subseteq> range_set a" using pv(2) by auto
    then have "ranges_sorted (?ps @ match_ranges c rs)"
      using pv(1) rest sub s(3) unfolding ranges_sorted_append [of ?ps] by blast
    then show ?thesis using False d by simp
  qed
qed

lemma match_entry_sorted:
  assumes "entry_sorted e"
  shows "entry_sorted (ZeroCopyEntry_match c e)"
proof (cases "ze_rangeSet e = [] \<and> \<not> ZeroCopyRange_empty (ZeroCopyRange_intersect (ze_range e) c)")
  case True
  have "range_set (ze_range e) \<noteq> {}"
    using True range_set_empty [OF intersect_ok, of "ze_range e" c] by auto
  then have lt: "zr_minCounter (ze_range e) < zr_maxCounter (ze_range e)" by (simp add: range_set_def)
  obtain p v where d: "ZeroCopyRange_difference (ze_range e) (ZeroCopyRange_intersect (ze_range e) c) = (p, v)" by fastforce
  note pv = piece_sorted [OF lt conjunct2 [OF True] d]
  show ?thesis
  proof (cases "ZeroCopyRange_empty v")
    case empty: True
    have "p = ZeroCopyRange_init \<or> zr_minCounter p < zr_maxCounter p"
      using difference_empty [OF lt conjunct2 [OF True] d] pv(1) by (auto simp: ranges_sorted_def split: if_splits)
    then show ?thesis using True empty d by (simp add: ZeroCopyEntry_match_def entry_sorted_def ranges_sorted_def)
  next
    case False
    have "\<not> ZeroCopyRange_empty p"
      using difference_pieces(4) [OF _ conjunct2 [OF True] d] less_imp_le [OF lt] False by (auto simp: range_ok_def)
    then show ?thesis using True False d pv(1)
      by (simp add: ZeroCopyEntry_match_def entry_sorted_def ZeroCopyRange_reset_def ZeroCopyRange_init_def)
  qed
next
  case False
  then show ?thesis using assms match_ranges_sorted [of "ze_rangeSet e" c]
    by (auto simp: ZeroCopyEntry_match_def entry_sorted_def Let_def)
qed

lemma minCounter_least:
  assumes "entry_sorted e"
  shows "pending_set e = {} \<Longrightarrow> ZeroCopyEntry_minCounter e = 0"
    and "pending_set e \<noteq> {} \<Longrightarrow> ZeroCopyEntry_minCounter e \<in> pending_set e"
    and "x \<in> pending_set e \<Longrightarrow> ZeroCopyEntry_minCounter e \<le> x"
proof -
  have "(if pending_set e = {} then ZeroCopyEntry_minCounter e = 0 else ZeroCopyEntry_minCounter e \<in> pending_set e) \<and>
      (\<forall>x \<in> pending_set e. ZeroCopyEntry_minCounter e \<le> x)"
  proof (cases "ze_rangeSet e")
    case Nil
    then show ?thesis using assms
      by (auto simp: entry_sorted_def pending_set_def ZeroCopyEntry_minCounter_def range_set_def ZeroCopyRange_init_def)
  next
    case (Cons r rs)
    then have "zr_minCounter r \<in> range_set r"
      using assms by (auto simp: entry_sorted_def ranges_sorted_def range_set_def)
    moreover have "zr_minCounter r \<le> x" if "s \<in> set (r # rs)" "x \<in> range_set s" for s x
      using assms that calculation Cons
      by (auto simp: entry_sorted_def ranges_sorted_def range_set_def intro: less_imp_le)
    ultimately show ?thesis using Cons by (auto simp: pending_set_def ZeroCopyEntry_minCounter_def)
  qed
  then show "pending_set e = {} \<Longrightarrow> ZeroCopyEntry_minCounter e = 0"
    "pending_set e \<noteq> {} \<Longrightarrow> ZeroCopyEntry_minCounter e \<in> pending_set e"
    "x \<in> pending_set e \<Longrightarrow> ZeroCopyEntry_minCounter e \<le> x" by (auto split: if_splits)
qed

text \<open>
  The invariant: every waiting entry is in order and misses only counters that have been drawn, and an entry
  waits for smaller counters than the entries behind it.
\<close>

definition waits_before :: "'blob ZeroCopyEntry \<Rightarrow> 'blob ZeroCopyEntry \<Rightarrow> bool" where
  "waits_before e f \<longleftrightarrow> (\<forall>x \<in> pending_set e. \<forall>y \<in> pending_set f. x < y)"

definition waiting_ok :: "u64 \<Rightarrow> 'blob ZeroCopyEntry \<Rightarrow> bool" where
  "waiting_ok next e \<longleftrightarrow> entry_sorted e \<and> \<not> ZeroCopyEntry_complete e \<and> (\<forall>x \<in> pending_set e. x < next)"

definition zq_inv :: "'blob ZeroCopyQueue \<Rightarrow> bool" where
  "zq_inv q \<longleftrightarrow>
     list_all (waiting_ok (zg_next (zq_generator q))) (zq_waitList q) \<and> sorted_wrt waits_before (zq_waitList q)"

lemma zq_inv_wait_ok:
  assumes "zq_inv q"
  shows "wait_ok (zq_waitList q)"
proof -
  have sorted: "sorted_wrt waits_before (zq_waitList q)" and ok: "\<forall>e \<in> set (zq_waitList q). entry_sorted e"
    using assms by (simp_all add: zq_inv_def waiting_ok_def list_all_iff)
  have "sorted_wrt (\<lambda>e f. \<forall>x \<in> pending_set f. ZeroCopyEntry_minCounter e \<le> x) (zq_waitList q)"
  proof (rule sorted_wrt_mono_rel [OF _ sorted])
    fix e f
    assume "e \<in> set (zq_waitList q)" "waits_before e f"
    then show "\<forall>x \<in> pending_set f. ZeroCopyEntry_minCounter e \<le> x"
      using minCounter_least(1,2) [of e] ok by (cases "pending_set e = {}") (auto simp: waits_before_def intro: less_imp_le)
  qed
  then show ?thesis using assms minCounter_least(3) entry_sorted_ok
    by (auto simp: wait_ok_def zq_inv_def waiting_ok_def list_all_iff)
qed

text \<open>
  What the callers owe: the 64-bit counter does not wrap, groups ascend, only the last send is extended and framed, and a
  send is extended only while one of its calls has not been reported.
\<close>

fun zq_permitted :: "'blob zq_op \<Rightarrow> 'blob ZeroCopyQueue \<Rightarrow> bool" where
  "zq_permitted (ZPush grp d ctx cb) q \<longleftrightarrow>
     zg_next (zq_generator q) < zg_next (zq_generator q) + 1 \<and>
     (zq_waitList q = [] \<or> ze_group (hd (zq_waitList q)) < grp)"
| "zq_permitted (ZExtend grp) q \<longleftrightarrow>
     zg_next (zq_generator q) < zg_next (zq_generator q) + 1 \<and> zq_waitList q \<noteq> [] \<and>
     ze_group (last (zq_waitList q)) = grp \<and>
     \<not> ZeroCopyEntry_complete (ZeroCopyEntry_setFramed True (last (zq_waitList q)))"
| "zq_permitted (ZFrame grp) q \<longleftrightarrow> zq_waitList q \<noteq> [] \<and> ze_group (last (zq_waitList q)) = grp"
| "zq_permitted _ q \<longleftrightarrow> True"

text \<open>The last entry of the wait list is replaced.\<close>

lemma waiting_ok_mono: "waiting_ok n e \<Longrightarrow> n \<le> m \<Longrightarrow> waiting_ok m e"
  by (auto simp: waiting_ok_def intro: less_le_trans)

lemma zq_inv_last:
  assumes inv: "zq_inv q" and ne: "zq_waitList q \<noteq> []" and e: "waiting_ok (zg_next g) e" and g: "zg_next (zq_generator q) \<le> zg_next g"
    and sub: "\<And>y. y \<in> pending_set e \<Longrightarrow> \<exists>x \<in> pending_set (last (zq_waitList q)). x \<le> y"
  shows "zq_inv (q\<lparr>zq_generator := g, zq_waitList := butlast (zq_waitList q) @ [e]\<rparr>)"
proof -
  obtain ws w where q: "zq_waitList q = ws @ [w]" using ne by (metis append_butlast_last_id)
  have "waits_before x e" if "waits_before x w" for x using that sub q by (fastforce simp: waits_before_def)
  then show ?thesis using inv e waiting_ok_mono [OF _ g] q
    by (auto simp: zq_inv_def sorted_wrt_append list_all_iff)
qed

lemma zq_inv_butlast:
  assumes "zq_inv q"
  shows "zq_inv (q\<lparr>zq_doneList := ds, zq_waitList := butlast (zq_waitList q)\<rparr>)"
  using assms by (cases "zq_waitList q" rule: rev_cases) (auto simp: zq_inv_def sorted_wrt_append)

lemma setMaxCounter_extends:
  assumes e: "entry_sorted e" "pending_set e \<noteq> {}" "\<forall>x \<in> pending_set e. x < n" and n: "n < n + 1"
  shows "entry_sorted (ZeroCopyEntry_setMaxCounter (n + 1) e)"
    and "y \<in> pending_set (ZeroCopyEntry_setMaxCounter (n + 1) e) \<Longrightarrow> y < n + 1 \<and> (\<exists>x \<in> pending_set e. x \<le> y)"
    and "pending_set (ZeroCopyEntry_setMaxCounter (n + 1) e) \<noteq> {}"
proof -
  define e' where "e' = ZeroCopyEntry_setMaxCounter (n + 1) e"
  have "entry_sorted e' \<and> (\<forall>y \<in> pending_set e'. y < n + 1 \<and> (\<exists>x \<in> pending_set e. x \<le> y)) \<and> pending_set e' \<noteq> {}"
  proof (cases "ze_rangeSet e" rule: rev_cases)
    case Nil
    define r where "r = ze_range e"
    have r: "zr_minCounter r < zr_maxCounter r" "zr_minCounter r \<in> pending_set e"
      using e(1,2) Nil by (auto simp: r_def entry_sorted_def pending_set_def range_set_def)
    have p: "pending_set e' = {zr_minCounter r ..< n + 1}" "entry_sorted e'"
      using Nil r e(3) n by (auto simp: e'_def r_def ZeroCopyEntry_setMaxCounter_def pending_set_def range_set_def ntf_defs
          entry_sorted_def ranges_sorted_def intro: less_trans)
    show ?thesis using p r e(3) n by (auto intro!: bexI [of _ "zr_minCounter r"] intro: less_trans)
  next
    case (snoc rs r)
    let ?r = "ZeroCopyRange_setMaxCounter (n + 1) r"
    have s: "ranges_sorted (rs @ [r])" "ze_range e = ZeroCopyRange_init" using e(1) snoc by (auto simp: entry_sorted_def)
    then have "zr_minCounter r < zr_maxCounter r" by (auto simp: ranges_sorted_append) (simp add: ranges_sorted_def)
    then have m: "zr_minCounter r \<in> range_set r" by (simp add: range_set_def)
    then have mp: "zr_minCounter r \<in> pending_set e" "\<forall>x \<in> (\<Union>s \<in> set rs. range_set s). x \<in> pending_set e"
      using snoc by (auto simp: pending_set_def)
    have e': "ze_rangeSet e' = rs @ [?r]" "ze_range e' = ZeroCopyRange_init"
      using snoc s(2) by (auto simp: e'_def ZeroCopyEntry_setMaxCounter_def)
    have r': "range_set ?r = {zr_minCounter r ..< n + 1}" "zr_minCounter r < n + 1"
      using mp(1) e(3) n by (auto simp: range_set_def ntf_defs intro: less_trans)
    have "\<forall>x \<in> (\<Union>s \<in> set rs. range_set s). x < zr_minCounter r" "ranges_sorted rs"
      using s(1) m unfolding ranges_sorted_append by auto
    moreover have "ranges_sorted [?r]" using r'(2) by (simp add: ranges_sorted_def ntf_defs)
    ultimately have "ranges_sorted (rs @ [?r])"
      unfolding ranges_sorted_append using r'(1) by (auto intro: less_le_trans [of _ "zr_minCounter r"])
    moreover have "pending_set e' = (\<Union>s \<in> set rs. range_set s) \<union> {zr_minCounter r ..< n + 1}"
      using e'(1) r'(1) by (auto simp: pending_set_def)
    ultimately show ?thesis using e' mp e(3) n r'(2)
      by (auto simp: entry_sorted_def intro: less_trans)
  qed
  then show "entry_sorted (ZeroCopyEntry_setMaxCounter (n + 1) e)"
    "y \<in> pending_set (ZeroCopyEntry_setMaxCounter (n + 1) e) \<Longrightarrow> y < n + 1 \<and> (\<exists>x \<in> pending_set e. x \<le> y)"
    "pending_set (ZeroCopyEntry_setMaxCounter (n + 1) e) \<noteq> {}" unfolding e'_def by blast+
qed

lemma new_entry_sorted:
  assumes "n < n + 1"
  shows "entry_sorted (new_entry grp n)" and "pending_set (new_entry grp n) = {n ..< n + 1}"
    and "\<not> ze_framed (new_entry grp n)"
  using assms by (simp_all add: new_entry_def ZeroCopyEntry_setMinCounter_def ZeroCopyEntry_setMaxCounter_def
      ZeroCopyEntry_init_def ntf_defs entry_sorted_def ranges_sorted_def pending_set_def range_set_def)

lemma waiting_ok_fields:
  assumes "ze_range f = ze_range e" and "ze_rangeSet f = ze_rangeSet e"
  shows "entry_sorted f = entry_sorted e" and "pending_set f = pending_set e"
  using assms by (simp_all add: entry_sorted_def pending_set_def)

lemma update_inv:
  assumes "zq_inv q"
  shows "zq_inv (snd (ZeroCopyQueue_update z q))"
proof -
  obtain c g where u: "ZeroCopyCounterGenerator_update z (zq_generator q) = (c, g)" by fastforce
  have g: "zg_next g = zg_next (zq_generator q)"
    using u by (auto simp: ZeroCopyCounterGenerator_update_def Let_def split: if_splits)
  let ?ws = "map (ZeroCopyEntry_match c) (zq_waitList q)"
  have m: "pending_set (ZeroCopyEntry_match c e) \<subseteq> pending_set e \<and> entry_sorted (ZeroCopyEntry_match c e)"
    if "entry_sorted e" for e
    using match_pending [OF entry_sorted_ok [OF that], of c] match_entry_sorted [OF that] by auto
  have ok: "\<forall>e \<in> set (zq_waitList q). entry_sorted e \<and> (\<forall>x \<in> pending_set e. x < zg_next (zq_generator q))"
    and sorted: "sorted_wrt waits_before (zq_waitList q)"
    using assms by (simp_all add: zq_inv_def waiting_ok_def list_all_iff)
  have "sorted_wrt (\<lambda>e f. waits_before (ZeroCopyEntry_match c e) (ZeroCopyEntry_match c f)) (zq_waitList q)"
  proof (rule sorted_wrt_mono_rel [OF _ sorted])
    fix e f
    assume "e \<in> set (zq_waitList q)" "f \<in> set (zq_waitList q)" "waits_before e f"
    moreover from this have "pending_set (ZeroCopyEntry_match c e) \<subseteq> pending_set e"
        "pending_set (ZeroCopyEntry_match c f) \<subseteq> pending_set f" using ok m by blast+
    ultimately show "waits_before (ZeroCopyEntry_match c e) (ZeroCopyEntry_match c f)" unfolding waits_before_def by blast
  qed
  then have "sorted_wrt waits_before ?ws" by (simp add: sorted_wrt_map)
  moreover have "\<forall>e \<in> set ?ws. entry_sorted e \<and> (\<forall>x \<in> pending_set e. x < zg_next g)"
  proof
    fix e
    assume "e \<in> set ?ws"
    then obtain f where "f \<in> set (zq_waitList q)" "e = ZeroCopyEntry_match c f" by auto
    then show "entry_sorted e \<and> (\<forall>x \<in> pending_set e. x < zg_next g)" using ok m [of f] g by auto
  qed
  ultimately show ?thesis
    using u update_loop_all [OF zq_inv_wait_ok [OF assms], of c "zq_doneList q"]
    by (auto simp: ZeroCopyQueue_update_def zq_inv_def update_all_def Let_def waiting_ok_def list_all_iff sorted_wrt_filter)
qed

lemma zq_inv_snoc:
  assumes inv: "zq_inv q" and n: "n = zg_next (zq_generator q)" "n < n + 1"
    and e: "entry_sorted e" "\<not> ZeroCopyEntry_complete e" "pending_set e = {n ..< n + 1}"
  shows "zq_inv (q\<lparr>zq_generator := (zq_generator q)\<lparr>zg_next := n + 1\<rparr>, zq_waitList := zq_waitList q @ [e]\<rparr>)"
proof -
  have ok: "\<forall>w \<in> set (zq_waitList q). waiting_ok n w" and sorted: "sorted_wrt waits_before (zq_waitList q)"
    using inv n(1) by (simp_all add: zq_inv_def list_all_iff)
  have "waits_before w e" if "w \<in> set (zq_waitList q)" for w
    using ok that e(3) by (auto simp: waiting_ok_def waits_before_def intro: less_le_trans [of _ n])
  moreover have "waiting_ok (n + 1) e" using e by (simp add: waiting_ok_def)
  moreover have "\<forall>w \<in> set (zq_waitList q). waiting_ok (n + 1) w" using ok waiting_ok_mono [OF _ less_imp_le [OF n(2)]] by blast
  ultimately show ?thesis using sorted by (auto simp: zq_inv_def sorted_wrt_append list_all_iff)
qed

lemma zq_step_inv:
  fixes q :: "'blob ZeroCopyQueue"
  assumes inv: "zq_inv q" and ok: "zq_permitted x q"
  shows "\<exists>t. map_option snd (zq_step x q) = Some t \<and> zq_inv t"
proof (cases x)
  case (ZPush grp d ctx cb)
  let ?n = "zg_next (zq_generator q)"
  have n: "?n < ?n + 1" using ok ZPush by simp
  have "zq_inv (q\<lparr>zq_generator := (zq_generator q)\<lparr>zg_next := ?n + 1\<rparr>, zq_waitList := zq_waitList q @ [e]\<rparr>)"
    if "ze_range e = ze_range (new_entry grp ?n :: 'blob ZeroCopyEntry)"
      "ze_rangeSet e = ze_rangeSet (new_entry grp ?n :: 'blob ZeroCopyEntry)" "\<not> ze_framed e" for e
    by (intro zq_inv_snoc [OF inv refl n])
      (simp_all add: waiting_ok_fields [OF that(1,2)] new_entry_sorted [OF n] that(3) ZeroCopyEntry_complete_def)
  then show ?thesis using ok ZPush
    by (auto simp: ZeroCopyQueue_push_shared_callback_def push_entry_def ZeroCopyCounterGenerator_next_def ntf_defs Let_def
        new_entry_sorted(3) [OF n])
next
  case (ZExtend grp)
  let ?n = "zg_next (zq_generator q)" and ?e = "last (zq_waitList q)"
  have n: "?n < ?n + 1" and ne: "zq_waitList q \<noteq> []" and grp: "ze_group ?e = grp" using ok ZExtend by simp_all
  have e: "waiting_ok ?n ?e" using inv ne by (simp add: zq_inv_def list_all_iff)
  have "ze_ok (ZeroCopyEntry_setFramed True ?e)" using e entry_sorted_ok by (auto simp: waiting_ok_def ze_ok_def ntf_defs)
  then have "pending_set ?e \<noteq> {}"
    using complete_iff [of "ZeroCopyEntry_setFramed True ?e"] ok ZExtend
      waiting_ok_fields(2) [of "ZeroCopyEntry_setFramed True ?e" ?e] by (simp add: ntf_defs)
  note ext = setMaxCounter_extends [OF _ this _ n]
  let ?f = "ZeroCopyEntry_setMaxCounter (?n + 1) ?e" and ?g = "(zq_generator q)\<lparr>zg_next := ?n + 1\<rparr>"
  have f: "entry_sorted ?f" "\<And>y. y \<in> pending_set ?f \<Longrightarrow> y < ?n + 1 \<and> (\<exists>x \<in> pending_set ?e. x \<le> y)" "pending_set ?f \<noteq> {}"
    using ext e by (auto simp: waiting_ok_def)
  have "waiting_ok (zg_next ?g) ?f" using f complete_iff [OF entry_sorted_ok [OF f(1)]] by (auto simp: waiting_ok_def)
  from zq_inv_last [OF inv ne this] f(2) n show ?thesis using ZExtend ne grp
    by (simp add: ZeroCopyQueue_push_group_def ZeroCopyCounterGenerator_next_def Let_def)
next
  case (ZFrame grp)
  let ?e = "ZeroCopyEntry_setFramed True (last (zq_waitList q))"
  have ne: "zq_waitList q \<noteq> []" and grp: "ze_group (last (zq_waitList q)) = grp" using ok ZFrame by simp_all
  have e: "waiting_ok (zg_next (zq_generator q)) (last (zq_waitList q))" using inv ne by (simp add: zq_inv_def list_all_iff)
  note f = waiting_ok_fields [of ?e "last (zq_waitList q)"]
  have "waiting_ok (zg_next (zq_generator q)) ?e" if "\<not> ZeroCopyEntry_complete ?e"
    using e f that by (auto simp: waiting_ok_def ntf_defs)
  then have "\<not> ZeroCopyEntry_complete ?e \<Longrightarrow> zq_inv (q\<lparr>zq_waitList := butlast (zq_waitList q) @ [?e]\<rparr>)"
    using zq_inv_last [OF inv ne, of "zq_generator q" ?e] f(2) by (auto simp: ntf_defs)
  then show ?thesis using zq_inv_butlast [OF inv] ZFrame ne grp by (auto simp: ZeroCopyQueue_frame_def Let_def)
next
  case (ZUpdate z)
  then show ?thesis using update_inv [OF inv] by simp
next
  case ZPop
  then show ?thesis using inv by (auto simp: ZeroCopyQueue_pop_def zq_inv_def split: prod.splits)
next
  case ZClear
  then show ?thesis by (simp add: ZeroCopyQueue_clear_callbacks_def zq_inv_def)
qed

interpretation zero_copy_runs: guarded_component
  ZeroCopyQueue_init zq_permitted "\<lambda>x q. map_option snd (zq_step x q)" zq_inv
proof (unfold_locales, goal_cases)
  case 1
  show ?case by (simp add: zq_inv_def ZeroCopyQueue_init_def)
next
  case (2 s x)
  then show ?case by (rule zq_step_inv)
qed

text \<open>
  Claim C19. In every queue that a permitted run of pushes, extensions, framings, updates, pops and clears of a fresh
  queue leads to (no assertion fails in such a run), the update of the queue, which stops at the first entry whose least counter is
  above the reported range, has the effect of matching every entry: the waiting entries are those that still miss a
  counter, with the reported counters removed, and the entries that became complete and have a callback are appended to the
  done list in order. A run is permitted when groups ascend, only the last send is extended and framed, and a send is extended
  only while one of its calls is still unreported.
\<close>

theorem zero_copy_update_matches_all:
  assumes "all_permitted zq_permitted (\<lambda>x q. map_option snd (zq_step x q)) ops ZeroCopyQueue_init"
  shows "\<exists>q c g. run_steps (\<lambda>x q. map_option snd (zq_step x q)) ops ZeroCopyQueue_init = Some q \<and>
     ZeroCopyCounterGenerator_update z (zq_generator q) = (c, g) \<and>
     ZeroCopyQueue_update z q =
       (E_OK, q\<lparr>zq_generator := g,
                zq_waitList := filter (\<lambda>e. \<not> ZeroCopyEntry_complete e)
                                 (map (ZeroCopyEntry_match c) (zq_waitList q)),
                zq_doneList := zq_doneList q @
                  filter (\<lambda>e. ZeroCopyEntry_complete e \<and> ze_callback e \<noteq> None)
                    (map (ZeroCopyEntry_match c) (zq_waitList q))\<rparr>)"
proof -
  obtain q where q: "run_steps (\<lambda>x q. map_option snd (zq_step x q)) ops ZeroCopyQueue_init = Some q" "zq_inv q"
    using zero_copy_runs.run_init [OF assms] by blast
  from update_loop_all [OF zq_inv_wait_ok [OF q(2)]] q(1) show ?thesis
    by (auto simp: ZeroCopyQueue_update_def update_all_def Let_def split: prod.splits)
qed

definition two_sends :: "nat zq_op list" where
  "two_sends = [ZPush 1 None SendContext_init (Some 8), ZExtend 1, ZFrame 1, ZPush 2 None SendContext_init (Some 9)]"

theorem zero_copy_update_matches_all_witness:
  "\<exists>q r. run_steps (\<lambda>x q. map_option snd (zq_step x q)) two_sends ZeroCopyQueue_init = Some q \<and>
     ZeroCopyQueue_update (0, 1) q = (E_OK, r) \<and>
     map ze_callback (zq_doneList r) = [Some 8] \<and> map ze_callback (zq_waitList r) = [Some 9]"
proof -
  note eval = two_sends_def ZeroCopyQueue_push_shared_callback_def push_entry_def new_entry_def ZeroCopyQueue_init_def
    ZeroCopyCounterGenerator_next_def ZeroCopyCounterGenerator_init_def ZeroCopyQueue_frame_def ZeroCopyQueue_push_group_def
    ZeroCopyEntry_setMinCounter_def ZeroCopyEntry_setMaxCounter_def ZeroCopyEntry_init_def ntf_defs range_defs
    ZeroCopyEntry_complete_def ZeroCopyCounterGenerator_update_def uint32_max_def ZeroCopyEntry_match_def
    ZeroCopyRange_intersect_def ZeroCopyRange_difference_def
  have "all_permitted zq_permitted (\<lambda>x q. map_option snd (zq_step x q)) two_sends ZeroCopyQueue_init"
    by (simp add: eval)
  from zero_copy_update_matches_all [OF this, of "(0, 1)"] show ?thesis
    by (auto simp: eval)
qed

subsection \<open>A send in several system calls\<close>

text \<open>\<open>extend_times n\<close> are \<open>n\<close> further system calls for the same data.\<close>

fun extend_times :: "nat \<Rightarrow> u64 \<Rightarrow> 'blob ZeroCopyQueue \<Rightarrow> 'blob ZeroCopyQueue option" where
  "extend_times 0 grp q = Some q"
| "extend_times (Suc n) grp q =
     do { (c, q1) \<leftarrow> ZeroCopyQueue_push_group grp q; extend_times n grp q1 }"

definition run_updates :: "(u32 \<times> u32) list \<Rightarrow> 'blob ZeroCopyQueue \<Rightarrow> 'blob ZeroCopyQueue" where
  "run_updates zs q = fold (\<lambda>z q. snd (ZeroCopyQueue_update z q)) zs q"

text \<open>One entry waits for the counters from \<open>a\<close> to \<open>k\<close>.\<close>

definition waits_for :: "nat \<Rightarrow> nat \<Rightarrow> 'blob ZeroCopyEntry \<Rightarrow> bool" where
  "waits_for a k e \<longleftrightarrow> ze_rangeSet e = [] \<and> ze_range e = ZeroCopyRange_create (of_nat a) (of_nat k)"

lemma extend_times_waits:
  assumes "zq_waitList q = [e]" and "waits_for 0 m e" and "ze_group e = grp"
    and "zg_next (zq_generator q) = of_nat m"
  shows "\<exists>e'. extend_times n grp q =
       Some (q\<lparr>zq_generator := (zq_generator q)\<lparr>zg_next := of_nat (m + n)\<rparr>, zq_waitList := [e']\<rparr>) \<and>
     waits_for 0 (m + n) e' \<and> ze_group e' = grp \<and> ze_callback e' = ze_callback e \<and>
     ze_context e' = ze_context e \<and> ze_framed e' = ze_framed e"
  using assms
proof (induction n arbitrary: q e m)
  case 0
  then show ?case by (intro exI [of _ e]) simp
next
  case (Suc n)
  let ?g = "(zq_generator q)\<lparr>zg_next := of_nat (Suc m)\<rparr>"
  let ?e = "ZeroCopyEntry_setMaxCounter (of_nat m + 1) e"
  let ?q = "q\<lparr>zq_generator := ?g, zq_waitList := [?e]\<rparr>"
  have push: "ZeroCopyQueue_push_group grp q = Some (of_nat m, ?q)"
    using Suc.prems
    by (simp add: ZeroCopyQueue_push_group_def ZeroCopyCounterGenerator_next_def add.commute)
  have "waits_for 0 (Suc m) ?e"
    using Suc.prems(2)
    by (simp add: waits_for_def ZeroCopyEntry_setMaxCounter_def ZeroCopyRange_create_def ntf_defs add.commute)
  with Suc.IH [of ?q ?e "Suc m"] Suc.prems(3) push show ?case by auto
qed

lemma u64_order:
  assumes "x < 2 ^ 64" and "y < 2 ^ 64"
  shows "(of_nat x :: u64) < of_nat y \<longleftrightarrow> x < y" "(of_nat x :: u64) \<le> of_nat y \<longleftrightarrow> x \<le> y"
    "(of_nat x :: u64) = of_nat y \<longleftrightarrow> x = y"
  using assms
  by (simp_all add: word_less_nat_alt word_le_nat_alt unat_of_nat word_unat_eq_iff)

lemma match_prefix:
  assumes "waits_for a k e" and "a < k" and "k < 2 ^ 64" and "0 < n" and "a + n \<le> k"
  shows "ZeroCopyEntry_match (ZeroCopyRange_create (of_nat a) (of_nat (a + n))) e =
     e\<lparr>ze_range := (if a + n < k then ZeroCopyRange_create (of_nat (a + n)) (of_nat k)
                    else ZeroCopyRange_init)\<rparr>"
proof -
  define lo mid hi where w: "lo = (of_nat a :: u64)" "mid = (of_nat (a + n) :: u64)" "hi = (of_nat k :: u64)"
  have o: "lo < mid" "mid \<le> hi" "a + n < k \<longleftrightarrow> mid < hi"
    unfolding w using assms(2-5) by (simp_all add: u64_order del: of_nat_add)
  have e: "ze_rangeSet e = []" "ze_range e = ZeroCopyRange_create lo hi"
    using assms(1) by (simp_all add: waits_for_def w)
  have i: "ZeroCopyRange_intersect (ZeroCopyRange_create lo hi) (ZeroCopyRange_create lo mid)
      = ZeroCopyRange_create lo mid"
    using o by (auto simp: ZeroCopyRange_intersect_def range_defs min_def)
  have d: "ZeroCopyRange_difference (ZeroCopyRange_create lo hi) (ZeroCopyRange_create lo mid)
      = (if mid < hi then ZeroCopyRange_create mid hi else ZeroCopyRange_init, ZeroCopyRange_init)"
    using o by (auto simp: ZeroCopyRange_difference_def range_defs max_def Let_def)
  have "\<not> ZeroCopyRange_empty (ZeroCopyRange_create lo mid)" "ZeroCopyRange_empty ZeroCopyRange_init"
    using o by (auto simp: range_defs)
  then have "ZeroCopyEntry_match (ZeroCopyRange_create lo mid) e =
      e\<lparr>ze_range := (if mid < hi then ZeroCopyRange_create mid hi else ZeroCopyRange_init)\<rparr>"
    by (simp add: ZeroCopyEntry_match_def e i d)
  then show ?thesis by (simp only: o(3) w)
qed

lemma single_update:
  assumes q: "generator_at a (zq_generator q)" "zq_waitList q = [e]" and e: "waits_for a k e"
    and framed: "ze_framed e" "ze_callback e \<noteq> None"
    and b: "a < k" "k < 2 ^ 64" "0 < n" "n \<le> wrap32" "a + n \<le> k"
  shows "\<exists>g e'. snd (ZeroCopyQueue_update (of_nat a, of_nat (a + n - 1)) q) =
       (if a + n < k then q\<lparr>zq_generator := g, zq_waitList := [e']\<rparr>
        else q\<lparr>zq_generator := g, zq_waitList := [], zq_doneList := zq_doneList q @ [e']\<rparr>) \<and>
     generator_at (a + n) g \<and> (a + n < k \<longrightarrow> waits_for (a + n) k e') \<and>
     ze_callback e' = ze_callback e \<and> ze_context e' = ze_context e \<and> ze_framed e'"
proof -
  obtain g where g: "ZeroCopyCounterGenerator_update (of_nat a, of_nat (a + n - 1)) (zq_generator q) =
      (ZeroCopyRange_create (of_nat a) (of_nat (a + n)), g)" "generator_at (a + n) g"
    using generator_step [OF q(1) b(3,4)] by blast
  let ?e = "e\<lparr>ze_range := (if a + n < k then ZeroCopyRange_create (of_nat (a + n)) (of_nat k)
                    else ZeroCopyRange_init)\<rparr>"
  have stay: "\<not> (of_nat (a + n) :: u64) < ZeroCopyEntry_minCounter e"
    using e b by (simp add: waits_for_def ZeroCopyEntry_minCounter_def ZeroCopyRange_create_def
        u64_order del: of_nat_add)
  have complete: "ZeroCopyEntry_complete ?e \<longleftrightarrow> \<not> a + n < k"
    using e framed b
    by (simp add: waits_for_def ZeroCopyEntry_complete_def range_defs u64_order del: of_nat_add)
  have loop: "update_loop (ZeroCopyRange_create (of_nat a) (of_nat (a + n))) [e] ds =
      (if a + n < k then ([?e], ds) else ([], ds @ [?e]))" for ds
  proof -
    have "zr_maxCounter (ZeroCopyRange_create (of_nat a) (of_nat (a + n))) = of_nat (a + n)"
      by (simp add: ZeroCopyRange_create_def)
    then show ?thesis
      using stay complete framed match_prefix [OF e b(1,2,3,5)] by (simp del: of_nat_add)
  qed
  have "snd (ZeroCopyQueue_update (of_nat a, of_nat (a + n - 1)) q) =
       (if a + n < k then q\<lparr>zq_generator := g, zq_waitList := [?e]\<rparr>
        else q\<lparr>zq_generator := g, zq_waitList := [], zq_doneList := zq_doneList q @ [?e]\<rparr>)"
    using q(2) g(1) loop by (simp add: ZeroCopyQueue_update_def del: of_nat_add)
  moreover have "a + n < k \<longrightarrow> waits_for (a + n) k ?e"
    using e by (simp add: waits_for_def)
  ultimately show ?thesis
    using g(2) framed by (intro exI [of _ g] exI [of _ ?e]) simp
qed

lemma updates_deliver:
  assumes "generator_at a (zq_generator q)" and "zq_waitList q = [e]" and "waits_for a k e"
    and "ze_framed e" and "ze_callback e = Some cb" and "zq_doneList q = []"
    and "a < k" and "k < 2 ^ 64" and "list_all (\<lambda>n. 0 < n \<and> n \<le> wrap32) ns" and "a + sum_list ns \<le> k"
  shows "fst (ZeroCopyQueue_pop (run_updates (reports a ns) q)) =
     (if a + sum_list ns = k then Some (ze_context e, cb) else None)"
  using assms
proof (induction ns arbitrary: a q e)
  case Nil
  then show ?case by (simp add: run_updates_def ZeroCopyQueue_pop_def)
next
  case (Cons n ns)
  have n: "0 < n" "n \<le> wrap32" "a + n \<le> k" using Cons.prems(9,10) by simp_all
  obtain g e' where u: "snd (ZeroCopyQueue_update (of_nat a, of_nat (a + n - 1)) q) =
       (if a + n < k then q\<lparr>zq_generator := g, zq_waitList := [e']\<rparr>
        else q\<lparr>zq_generator := g, zq_waitList := [], zq_doneList := zq_doneList q @ [e']\<rparr>)"
      "generator_at (a + n) g" "a + n < k \<longrightarrow> waits_for (a + n) k e'"
      "ze_callback e' = ze_callback e" "ze_context e' = ze_context e" "ze_framed e'"
    using single_update [OF Cons.prems(1-4) _ Cons.prems(7,8) n] Cons.prems(5) by auto
  have run: "run_updates (reports a (n # ns)) q = run_updates (reports (a + n) ns)
      (snd (ZeroCopyQueue_update (of_nat a, of_nat (a + n - 1)) q))"
    by (simp add: run_updates_def)
  show ?case
  proof (cases "a + n < k")
    case True
    with Cons.IH [of "a + n" "q\<lparr>zq_generator := g, zq_waitList := [e']\<rparr>" e'] u run Cons.prems
    show ?thesis by (simp add: add.assoc del: reports.simps)
  next
    case False
    have "a + n + sum_list ns \<le> k" using Cons.prems(10) by simp
    with False n(3) have "sum_list ns = 0" "a + n = k" by linarith+
    moreover from this have "ns = []" using Cons.prems(9) by (cases ns) auto
    ultimately show ?thesis
      using u False run Cons.prems(5,6)
      by (simp add: run_updates_def ZeroCopyQueue_pop_def del: of_nat_add)
  qed
qed

text \<open>
  Claim C27. When data is sent with a callback on a fresh queue in \<open>k\<close> zero-copied system calls that
  are all made before any of them is reported, and the reports of the operating system arrive in
  order, the callback is handed out exactly when the last of the \<open>k\<close> calls has been reported.
\<close>

theorem zero_copy_send_completes:
  assumes "0 < k" and "k < 2 ^ 64" and "list_all (\<lambda>n. 0 < n \<and> n \<le> 4294967296) ns" and "sum_list ns \<le> k"
  shows "\<exists>q1 q2 q3. ZeroCopyQueue_push_shared_callback grp d ctx (Some cb) ZeroCopyQueue_init = Some (0, q1) \<and>
     extend_times (k - 1) grp q1 = Some q2 \<and> ZeroCopyQueue_frame grp q2 = Some q3 \<and>
     fst (ZeroCopyQueue_pop (run_updates (reports 0 ns) q3)) =
       (if sum_list ns = k then Some (ctx, cb) else None)"
proof -
  define e where "e = ZeroCopyEntry_setCallback (Some cb) (ZeroCopyEntry_setContext ctx
      (ZeroCopyEntry_setData d (new_entry grp 0)))"
  define q1 where "q1 = ZeroCopyQueue_init\<lparr>zq_generator := ZeroCopyCounterGenerator_init\<lparr>zg_next := 1\<rparr>,
      zq_waitList := [e]\<rparr>"
  have push: "ZeroCopyQueue_push_shared_callback grp d ctx (Some cb) ZeroCopyQueue_init = Some (0, q1)"
    by (simp add: ZeroCopyQueue_push_shared_callback_def push_entry_def q1_def e_def
        ZeroCopyQueue_init_def ZeroCopyCounterGenerator_next_def ZeroCopyCounterGenerator_init_def)
  have e: "waits_for 0 1 e" "ze_group e = grp" "ze_callback e = Some cb" "ze_context e = ctx"
    by (simp_all add: e_def waits_for_def new_entry_def ZeroCopyEntry_setMinCounter_def
        ZeroCopyEntry_setMaxCounter_def ZeroCopyEntry_init_def ntf_defs range_defs)
  obtain e2 where q2: "extend_times (k - 1) grp q1 =
       Some (q1\<lparr>zq_generator := (zq_generator q1)\<lparr>zg_next := of_nat k\<rparr>, zq_waitList := [e2]\<rparr>)"
     "waits_for 0 k e2" "ze_group e2 = grp" "ze_callback e2 = Some cb" "ze_context e2 = ctx"
    using extend_times_waits [of q1 e 1 grp "k - 1"] e assms(1) by (auto simp: q1_def)
  let ?q2 = "q1\<lparr>zq_generator := (zq_generator q1)\<lparr>zg_next := of_nat k\<rparr>, zq_waitList := [e2]\<rparr>"
  let ?e3 = "ZeroCopyEntry_setFramed True e2"
  have "\<not> ZeroCopyEntry_complete ?e3"
    using q2(2) assms(1,2) u64_order(3) [of 0 k]
    by (simp add: ZeroCopyEntry_complete_def waits_for_def ntf_defs range_defs)
  then have frame: "ZeroCopyQueue_frame grp ?q2 = Some (?q2\<lparr>zq_waitList := [?e3]\<rparr>)"
    using q2(3) by (simp add: ZeroCopyQueue_frame_def)
  have "fst (ZeroCopyQueue_pop (run_updates (reports 0 ns) (?q2\<lparr>zq_waitList := [?e3]\<rparr>))) =
       (if 0 + sum_list ns = k then Some (ze_context ?e3, cb) else None)"
    using q2 assms
    by (intro updates_deliver)
       (simp_all add: q1_def generator_at_def ZeroCopyQueue_init_def ZeroCopyCounterGenerator_init_def
          waits_for_def ntf_defs wrap32_def)
  with push q2 frame show ?thesis by (auto simp: ntf_defs)
qed

theorem zero_copy_send_completes_witness:
  "\<exists>q1 q2 q3. ZeroCopyQueue_push_shared_callback 7 None SendContext_init (Some 4)
       (ZeroCopyQueue_init :: nat ZeroCopyQueue) = Some (0, q1) \<and>
     extend_times 2 7 q1 = Some q2 \<and> ZeroCopyQueue_frame 7 q2 = Some q3 \<and>
     fst (ZeroCopyQueue_pop (run_updates (reports 0 [1, 2]) q3)) = Some (SendContext_init, 4)"
  using zero_copy_send_completes [of 3 "[1, 2]" 7 "None :: nat Data option" SendContext_init 4]
  by (simp del: reports.simps extend_times.simps)

subsection \<open>An extension after a completion\<close>

text \<open>A framed entry that waits for counter zero is never completed by reports of later calls.\<close>

lemma never_reported:
  assumes "generator_at a (zq_generator q)" and "zq_waitList q = [e]" and "zq_doneList q = []"
    and "ze_ok e" and "0 \<in> pending_set e" and "0 < a"
    and "list_all (\<lambda>n. 0 < n \<and> n \<le> wrap32) ns" and "a + sum_list ns \<le> 2 ^ 64"
  shows "\<exists>g e'. run_updates (reports a ns) q = q\<lparr>zq_generator := g, zq_waitList := [e']\<rparr> \<and>
     0 \<in> pending_set e' \<and> ze_callback e' = ze_callback e"
  using assms
proof (induction ns arbitrary: a q e)
  case Nil
  then show ?case
    by (intro exI [of _ "zq_generator q"] exI [of _ e]) (simp add: run_updates_def)
next
  case (Cons n ns)
  have n: "0 < n" "n \<le> wrap32" "a < 2 ^ 64" using Cons.prems(7,8) by auto
  let ?c = "ZeroCopyRange_create (of_nat a) (of_nat (a + n))"
  obtain g where g: "ZeroCopyCounterGenerator_update (of_nat a, of_nat (a + n - 1)) (zq_generator q) =
      (?c, g)" "generator_at (a + n) g"
    using generator_step [OF Cons.prems(1) n(1,2)] by blast
  have "(0 :: u64) < of_nat a" using u64_order(1) [of 0 a] n(3) Cons.prems(6) by simp
  then have c: "0 \<notin> range_set ?c" by (auto simp: range_set_def ZeroCopyRange_create_def)
  define e1 where "e1 = (if zr_maxCounter ?c < ZeroCopyEntry_minCounter e then e else ZeroCopyEntry_match ?c e)"
  have e1: "ze_ok e1" "0 \<in> pending_set e1" "ze_callback e1 = ze_callback e"
    using match_pending [OF Cons.prems(4), of ?c] Cons.prems(4,5) c by (auto simp: e1_def)
  then have "\<not> ZeroCopyEntry_complete e1" using complete_iff by blast
  then have loop: "update_loop ?c [e] [] = ([e1], [])"
    by (simp add: e1_def split: if_splits)
  have up: "snd (ZeroCopyQueue_update (of_nat a, of_nat (a + n - 1)) q) =
      q\<lparr>zq_generator := g, zq_waitList := [e1]\<rparr>"
    using Cons.prems(2,3) g(1) loop by (cases q) (simp add: ZeroCopyQueue_update_def del: of_nat_add)
  have "run_updates (reports a (n # ns)) q =
      run_updates (reports (a + n) ns) (q\<lparr>zq_generator := g, zq_waitList := [e1]\<rparr>)"
    using up by (simp add: run_updates_def)
  with Cons.IH [of "a + n" "q\<lparr>zq_generator := g, zq_waitList := [e1]\<rparr>" e1] e1 g(2) Cons.prems
  show ?case by (auto simp: add.assoc simp del: reports.simps)
qed

text \<open>
  When the first system call of a send is reported complete before a second system call
  extends the same send, the entry forgets which counters it waits for and waits for the reported
  counter again: whatever reports of later calls arrive, in order, after the send is framed, the
  callback is never handed out.
\<close>

theorem zero_copy_extension_after_completion_stuck:
  assumes "list_all (\<lambda>n. 0 < n \<and> n \<le> 4294967296) ns" and "1 + sum_list ns \<le> 2 ^ 64"
  shows "\<exists>q1 q2 q3. ZeroCopyQueue_push_shared_callback grp d ctx (Some cb) ZeroCopyQueue_init = Some (0, q1) \<and>
     ZeroCopyQueue_push_group grp (snd (ZeroCopyQueue_update (0, 0) q1)) = Some (1, q2) \<and>
     ZeroCopyQueue_frame grp q2 = Some q3 \<and>
     fst (ZeroCopyQueue_pop (run_updates (reports 1 ns) q3)) = None"
proof -
  define e where "e = \<lparr>ze_group = grp, ze_range = ZeroCopyRange_create 0 2, ze_rangeSet = [],
      ze_framed = True, ze_data = d, ze_error = E_OK, ze_context = ctx, ze_callback = Some cb\<rparr>"
  define q1 where "q1 = ZeroCopyQueue_init\<lparr>zq_generator := ZeroCopyCounterGenerator_init\<lparr>zg_next := 1\<rparr>,
      zq_waitList := [e\<lparr>ze_range := ZeroCopyRange_create 0 1, ze_framed := False\<rparr>]\<rparr>"
  define g2 where "g2 = ZeroCopyCounterGenerator_init\<lparr>zg_next := 2\<rparr>"
  define q2 where "q2 = ZeroCopyQueue_init\<lparr>zq_generator := g2, zq_waitList := [e\<lparr>ze_framed := False\<rparr>]\<rparr>"
  define q3 where "q3 = ZeroCopyQueue_init\<lparr>zq_generator := g2, zq_waitList := [e]\<rparr>"
  note defs = e_def q1_def q2_def q3_def g2_def ZeroCopyQueue_init_def ZeroCopyCounterGenerator_init_def
    ZeroCopyCounterGenerator_next_def range_defs ntf_defs
  have push: "ZeroCopyQueue_push_shared_callback grp d ctx (Some cb) ZeroCopyQueue_init = Some (0, q1)"
    by (simp add: defs ZeroCopyQueue_push_shared_callback_def push_entry_def new_entry_def
        ZeroCopyEntry_setMinCounter_def ZeroCopyEntry_setMaxCounter_def ZeroCopyEntry_init_def)
  have update: "snd (ZeroCopyQueue_update (0, 0) q1) =
      q1\<lparr>zq_waitList := [e\<lparr>ze_range := ZeroCopyRange_init, ze_framed := False\<rparr>]\<rparr>"
    by (simp add: defs ZeroCopyQueue_update_def ZeroCopyCounterGenerator_update_def uint32_max_def
        ZeroCopyEntry_minCounter_def ZeroCopyEntry_match_def ZeroCopyRange_intersect_def
        ZeroCopyRange_difference_def ZeroCopyEntry_complete_def)
  have extend: "ZeroCopyQueue_push_group grp
      (q1\<lparr>zq_waitList := [e\<lparr>ze_range := ZeroCopyRange_init, ze_framed := False\<rparr>]\<rparr>) = Some (1, q2)"
    by (simp add: defs ZeroCopyQueue_push_group_def ZeroCopyEntry_setMaxCounter_def)
  have frame: "ZeroCopyQueue_frame grp q2 = Some q3"
    by (simp add: defs ZeroCopyQueue_frame_def ZeroCopyEntry_complete_def)
  have "\<exists>g e'. run_updates (reports 1 ns) q3 = q3\<lparr>zq_generator := g, zq_waitList := [e']\<rparr> \<and>
     0 \<in> pending_set e' \<and> ze_callback e' = ze_callback e"
    by (rule never_reported)
       (use assms in \<open>simp_all add: defs generator_at_def ze_ok_def pending_set_def wrap32_def\<close>)
  then have "fst (ZeroCopyQueue_pop (run_updates (reports 1 ns) q3)) = None"
    by (auto simp: ZeroCopyQueue_pop_def q3_def ZeroCopyQueue_init_def)
  with push update extend frame show ?thesis by auto
qed

theorem zero_copy_extension_after_completion_stuck_witness:
  "\<exists>q1 q2 q3. ZeroCopyQueue_push_shared_callback 7 None SendContext_init (Some 4)
       (ZeroCopyQueue_init :: nat ZeroCopyQueue) = Some (0, q1) \<and>
     ZeroCopyQueue_push_group 7 (snd (ZeroCopyQueue_update (0, 0) q1)) = Some (1, q2) \<and>
     ZeroCopyQueue_frame 7 q2 = Some q3 \<and>
     fst (ZeroCopyQueue_pop (run_updates (reports 1 [1, 3]) q3)) = None"
  using zero_copy_extension_after_completion_stuck
    [of "[1, 3]" 7 "None :: nat Data option" SendContext_init 4]
  by (simp del: reports.simps)

end
