(* ===== verification/Double_Rounding.thy ===== *)
theory Double_Rounding
  imports Complex_Main
begin

section \<open>Arithmetic of the type double\<close>

text \<open>
  The drain time of a leaky bucket is computed in \<open>double\<close>. This theory gives the part of that
  arithmetic the code uses: the value of an operation on non-negative numbers is the exact
  rational result rounded to 53 significant bits, to the nearest, ties to even. The numbers the
  code meets lie between \<open>2\<^sup>-\<^sup>6\<^sup>4\<close> and \<open>2\<^sup>9\<^sup>4\<close>, so there is neither overflow nor a subnormal number, and
  the exponent is not bounded here.
\<close>

fun bit_length :: "nat \<Rightarrow> nat" where
  "bit_length n = (if n = 0 then 0 else Suc (bit_length (n div 2)))"

declare bit_length.simps [simp del]

text \<open>The exponent of the power of two at or below a positive number.\<close>

definition binade :: "rat \<Rightarrow> int" where
  "binade x =
     (let (p, q) = quotient_of x;
          k = int (bit_length (nat p)) - int (bit_length (nat q))
      in if x < 2 powi k then k - 1 else k)"

definition round_half_even :: "rat \<Rightarrow> int" where
  "round_half_even x =
     (let f = \<lfloor>x\<rfloor>; d = x - of_int f in
      if d < 1 / 2 then f else if d > 1 / 2 then f + 1 else if even f then f else f + 1)"

definition to_double :: "rat \<Rightarrow> rat" where
  "to_double x =
     (if x = 0 then 0
      else let u = 2 powi (binade x - 52) in of_int (round_half_even (x / u)) * u)"

subsection \<open>Rounding\<close>

lemma bit_length_bounds: "n > 0 \<Longrightarrow> 2 ^ (bit_length n - 1) \<le> n \<and> n < 2 ^ bit_length n"
proof (induction n rule: bit_length.induct)
  case (1 n)
  show ?case
  proof (cases "n = 1")
    case True
    then show ?thesis by (simp add: bit_length.simps)
  next
    case False
    then have m: "n div 2 > 0" using "1.prems" by linarith
    define k where "k = bit_length (n div 2)"
    have k: "k > 0" using m by (simp add: k_def bit_length.simps)
    have "bit_length n = Suc k" using "1.prems" by (subst bit_length.simps) (simp add: k_def)
    moreover have "2 ^ (k - 1) \<le> n div 2 \<and> n div 2 < 2 ^ k"
      using "1.IH" "1.prems" m by (simp add: k_def)
    moreover have "(2::nat) ^ k = 2 * 2 ^ (k - 1)" using k by (cases k) auto
    ultimately show ?thesis by auto
  qed
qed

lemma bit_length_powi:
  assumes "n > 0"
  shows "2 powi (int (bit_length n) - 1) \<le> (of_nat n :: rat) \<and>
         (of_nat n :: rat) < 2 powi int (bit_length n)"
proof -
  obtain k where k: "bit_length n = Suc k" using assms by (simp add: bit_length.simps)
  have b: "2 ^ k \<le> n \<and> n < 2 ^ Suc k" using bit_length_bounds [OF assms] by (simp add: k)
  have "(2 ^ k :: rat) \<le> of_nat n" using b by (metis of_nat_le_iff of_nat_numeral of_nat_power)
  moreover have "(of_nat n :: rat) < 2 ^ Suc k"
    using b by (metis of_nat_less_iff of_nat_numeral of_nat_power)
  moreover have "int (bit_length n) - 1 = int k" by (simp add: k)
  ultimately show ?thesis by (simp only: k power_int_of_nat)
qed

lemma binade_bounds:
  assumes "x > 0"
  shows "2 powi binade x \<le> x \<and> x < 2 * 2 powi binade x"
proof -
  obtain p q where pq: "quotient_of x = (p, q)" by force
  have q: "q > 0" and x: "x = of_int p / of_int q"
    using quotient_of_denom_pos [OF pq] quotient_of_div [OF pq] by auto
  have p: "p > 0" using assms q x by (simp add: zero_less_divide_iff)
  define a b where "a = bit_length (nat p)" and "b = bit_length (nat q)"
  have P: "2 powi (int a - 1) \<le> (of_int p :: rat)" "(of_int p :: rat) < 2 powi int a"
    using bit_length_powi [of "nat p"] p by (auto simp: a_def)
  have Q: "2 powi (int b - 1) \<le> (of_int q :: rat)" "(of_int q :: rat) < 2 powi int b"
    using bit_length_powi [of "nat q"] q by (auto simp: b_def)
  define k where "k = int a - int b"
  have up: "x < 2 * 2 powi k"
  proof -
    have "of_int p < 2 * 2 powi k * (of_int q :: rat)"
    proof -
      have "2 * 2 powi k * (2 powi (int b - 1) :: rat) = 2 powi int a"
        by (simp add: k_def power_int_diff field_simps)
      moreover have "2 * 2 powi k * (2 powi (int b - 1) :: rat) \<le> 2 * 2 powi k * of_int q"
        using Q(1) by (intro mult_left_mono) auto
      ultimately show ?thesis using P(2) by linarith
    qed
    then show ?thesis using q by (simp add: x divide_less_eq)
  qed
  have low: "2 powi (k - 1) < x"
  proof -
    have "2 powi (k - 1) * (of_int q :: rat) < of_int p"
    proof -
      have "2 powi (k - 1) * (2 powi int b :: rat) = 2 powi (k - 1 + int b)"
        by (subst power_int_add) auto
      then have "2 powi (k - 1) * (2 powi int b :: rat) = 2 powi (int a - 1)"
        by (simp add: k_def algebra_simps)
      moreover have "2 powi (k - 1) * (of_int q :: rat) < 2 powi (k - 1) * 2 powi int b"
        using Q(2) by (intro mult_strict_left_mono) auto
      ultimately show ?thesis using P(1) by linarith
    qed
    then show ?thesis using q by (simp add: x less_divide_eq)
  qed
  have "binade x = (if x < 2 powi k then k - 1 else k)"
    by (simp add: binade_def pq k_def a_def b_def)
  moreover have "2 * 2 powi (k - 1) = (2 powi k :: rat)"
    by (simp add: power_int_diff)
  ultimately show ?thesis using up low by auto
qed

lemma binade_eqI:
  assumes "2 powi k \<le> x" "x < 2 * 2 powi k"
  shows "binade x = k"
proof -
  have x: "x > 0" using assms(1) by (rule less_le_trans [rotated]) simp
  note b = binade_bounds [OF x]
  have up: "2 * 2 powi j = (2 powi (j + 1) :: rat)" for j by (simp add: power_int_add)
  have lt: "i \<ge> j" if "2 powi j < (2 * 2 powi i :: rat)" for i j :: int
  proof (rule ccontr)
    assume "\<not> i \<ge> j"
    then have "(2 powi (i + 1) :: rat) \<le> 2 powi j" by (intro power_int_increasing) auto
    then show False using that up by simp
  qed
  show ?thesis using lt [of "binade x" k] lt [of k "binade x"] b assms by auto
qed

lemma round_half_even_error: "\<bar>of_int (round_half_even x) - x\<bar> \<le> 1 / 2"
proof -
  define f where "f = \<lfloor>x\<rfloor>"
  have "of_int f \<le> x" "x < of_int f + 1" unfolding f_def by linarith+
  then show ?thesis
    unfolding round_half_even_def Let_def abs_if f_def [symmetric] by (auto split: if_splits)
qed

lemma round_half_even_of_int [simp]: "round_half_even (of_int n) = n"
  by (simp add: round_half_even_def)

lemma to_double_eqI:
  assumes "2 powi k \<le> x" "x < 2 * 2 powi k" "u = 2 powi (k - 52)"
  shows "to_double x = of_int (round_half_even (x / u)) * u"
proof -
  have "x > 0" using assms(1) by (rule less_le_trans [rotated]) simp
  then show ?thesis using binade_eqI [OF assms(1,2)] assms(3) by (simp add: to_double_def Let_def)
qed

text \<open>A rounded value is off by at most one part in \<open>2\<^sup>5\<^sup>3\<close>, and integers below \<open>2\<^sup>5\<^sup>3\<close> are exact.\<close>

lemma to_double_error:
  assumes "x \<ge> 0"
  shows "\<bar>to_double x - x\<bar> \<le> x / 2 ^ 53"
proof (cases "x = 0")
  case False
  then have x: "x > 0" using assms by simp
  define u :: rat where "u = 2 powi (binade x - 52)"
  have u: "u > 0" by (simp add: u_def)
  have "u * 2 ^ 52 = 2 powi binade x" by (simp add: u_def power_int_diff)
  then have ux: "u * 2 ^ 52 \<le> x" using binade_bounds [OF x] by simp
  have "to_double x - x = (of_int (round_half_even (x / u)) - x / u) * u"
    using u False by (simp add: to_double_def u_def Let_def algebra_simps)
  then have "\<bar>to_double x - x\<bar> = \<bar>of_int (round_half_even (x / u)) - x / u\<bar> * u"
    using u by (simp add: abs_mult)
  also have "\<dots> \<le> 1 / 2 * u"
    using round_half_even_error u by (intro mult_right_mono) auto
  also have "\<dots> \<le> x / 2 ^ 53" using ux by simp
  finally show ?thesis .
qed (simp add: to_double_def)

lemma to_double_of_nat [simp]:
  assumes "n < 2 ^ 53"
  shows "to_double (of_nat n) = of_nat n"
proof (cases "n = 0")
  case False
  define x :: rat where "x = of_nat n"
  have x: "x > 0" using False by (simp add: x_def)
  have "x < 2 ^ 53"
    unfolding x_def using assms by (metis of_nat_less_iff of_nat_numeral of_nat_power)
  then have small: "2 powi binade x < (2 powi 53 :: rat)"
    using binade_bounds [OF x] by simp
  have "binade x < 53"
  proof (rule ccontr)
    assume "\<not> binade x < 53"
    then have "(2 powi 53 :: rat) \<le> 2 powi binade x" by (intro power_int_increasing) auto
    with small show False by simp
  qed
  define d where "d = nat (52 - binade x)"
  have d: "binade x - 52 = - int d" using \<open>binade x < 53\<close> by (simp add: d_def)
  have u: "2 powi (binade x - 52) = (1 / 2 ^ d :: rat)"
    by (simp add: d power_int_minus field_simps)
  have "round_half_even (x / (1 / 2 ^ d)) = int n * 2 ^ d"
    using round_half_even_of_int [of "int n * 2 ^ d"] by (simp add: x_def)
  then have "to_double x = x"
    using x unfolding to_double_def Let_def u by (simp add: x_def)
  then show ?thesis by (simp add: x_def)
qed (simp add: to_double_def)

text \<open>
  The quotient of two integers with a denominator up to \<open>2\<^sup>2\<^sup>3\<close> that is below \<open>2\<^sup>3\<^sup>0\<close> is further from
  the nearest other integer than its rounding error, so its floor and ceiling are exact.
\<close>

lemma quotient_between:
  assumes "0 < R" "R \<le> 2 ^ 23" "N < R * 2 ^ 30" "k = N mod R" "k \<noteq> 0"
  shows "of_nat (N div R) < to_double (of_nat N / of_nat R)"
    and "to_double (of_nat N / of_nat R) < of_nat (N div R) + 1"
proof -
  define x :: rat where "x = of_nat N / of_nat R"
  have NR: "N = (N div R) * R + k" using assms(4) by simp
  have x: "x = of_nat (N div R) + of_nat k / of_nat R"
    unfolding x_def by (subst NR) (use assms(1) in \<open>simp add: add_divide_distrib\<close>)
  have "(of_nat N :: rat) < of_nat (R * 2 ^ 30)" using assms(3) by (simp only: of_nat_less_iff)
  then have x30: "x < 2 ^ 30" using assms(1) by (simp add: x_def divide_less_eq mult.commute)
  have "(of_nat R :: rat) \<le> of_nat (2 ^ 23)" using assms(2) by (simp only: of_nat_le_iff)
  then have R23: "(of_nat R :: rat) \<le> 2 ^ 23" by simp
  have "\<bar>to_double x - x\<bar> \<le> x / 2 ^ 53" by (rule to_double_error) (simp add: x_def)
  also have "\<dots> < 1 / 2 ^ 23" using x30 by simp
  also have "\<dots> \<le> 1 / of_nat R" using R23 assms(1) by (intro divide_left_mono) auto
  finally have err: "\<bar>to_double x - x\<bar> < 1 / of_nat R" .
  have lo: "1 / of_nat R \<le> (of_nat k / of_nat R :: rat)"
    using assms(5) by (intro divide_right_mono) auto
  have "k + 1 \<le> R" using assms(1,4) by (simp add: Suc_le_eq)
  then have "of_nat (k + 1) \<le> (of_nat R :: rat)" by (simp only: of_nat_le_iff)
  then have hi: "of_nat k / of_nat R + 1 / of_nat R \<le> (1 :: rat)"
    using assms(1) by (simp add: divide_le_eq flip: add_divide_distrib)
  show "of_nat (N div R) < to_double (of_nat N / of_nat R)"
    and "to_double (of_nat N / of_nat R) < of_nat (N div R) + 1"
    using err lo hi x by (auto simp flip: x_def simp: abs_less_iff)
qed

lemma ceiling_div_nat:
  fixes N R :: nat
  assumes "0 < R"
  shows "(N + R - 1) div R = (if N mod R = 0 then N div R else N div R + 1)"
proof -
  define q k where "q = N div R" and "k = N mod R"
  have N: "N = R * q + k" "k < R" using assms by (simp_all add: q_def k_def)
  show ?thesis
    unfolding q_def [symmetric] k_def [symmetric] using N assms
    by (intro div_nat_eqI) (auto simp: algebra_simps)
qed

lemma to_double_quotient:
  assumes "0 < R" "R \<le> 2 ^ 23" "N < 2 ^ 53" "N < R * 2 ^ 30"
  shows "\<lfloor>to_double (of_nat N / of_nat R)\<rfloor> = int (N div R)"
    and "\<lceil>to_double (of_nat N / of_nat R)\<rceil> = int ((N + R - 1) div R)"
proof -
  have "\<lfloor>to_double (of_nat N / of_nat R)\<rfloor> = int (N div R) \<and>
        \<lceil>to_double (of_nat N / of_nat R)\<rceil> = int ((N + R - 1) div R)"
  proof (cases "N mod R = 0")
    case True
    then obtain q where q: "N = R * q" by auto
    have "q \<le> N" using assms(1) q by simp
    then have "to_double (of_nat q) = of_nat q" using assms(3) by (intro to_double_of_nat) linarith
    moreover have "(of_nat N / of_nat R :: rat) = of_nat q" using assms(1) q by simp
    ultimately show ?thesis using True assms(1) q unfolding ceiling_div_nat [OF assms(1)] by simp
  next
    case False
    then have "of_nat (N div R) < to_double (of_nat N / of_nat R)"
      "to_double (of_nat N / of_nat R) < of_nat (N div R) + 1"
      using quotient_between assms by blast+
    then show ?thesis
      unfolding ceiling_div_nat [OF assms(1)] using False by (simp add: floor_eq_iff ceiling_eq_iff)
  qed
  then show "\<lfloor>to_double (of_nat N / of_nat R)\<rfloor> = int (N div R)"
    and "\<lceil>to_double (of_nat N / of_nat R)\<rceil> = int ((N + R - 1) div R)" by blast+
qed

end
