(* ===== verification/Leaky_Bucket.thy ===== *)
theory Leaky_Bucket
  imports Ntf_Prelude Double_Rounding
begin

section \<open>Leaky buckets\<close>

text \<open>
  This theory models \<open>ntcs::LeakyBucket\<close> (\<open>ntcs_leakybucket.h\<close> and \<open>.cpp\<close>): counters of 64 bits,
  and one computation in \<open>double\<close>. Points in time and intervals are values of
  \<open>bsls::TimeInterval\<close>, a class outside the repository: its operations are a parameter of the
  model, and \<open>time_library_ok\<close> states what its documentation promises of them.
\<close>

subsection \<open>bsls::TimeInterval\<close>

record 't time_library =
  ti_make :: "int \<Rightarrow> int \<Rightarrow> 't"
  ti_seconds :: "'t \<Rightarrow> int"
  ti_nanoseconds :: "'t \<Rightarrow> int"
  ti_minus :: "'t \<Rightarrow> 't \<Rightarrow> 't"
  ti_addSeconds :: "int \<Rightarrow> 't \<Rightarrow> 't"
  ti_addNanoseconds :: "int \<Rightarrow> 't \<Rightarrow> 't"
  ti_less :: "'t \<Rightarrow> 't \<Rightarrow> bool"
  ti_equal :: "'t \<Rightarrow> 't \<Rightarrow> bool"

text \<open>The length of an interval in nanoseconds, and the lengths that an interval can have.\<close>

definition total_ns :: "'t time_library \<Rightarrow> 't \<Rightarrow> int" where
  "total_ns L t = ti_seconds L t * 1000000000 + ti_nanoseconds L t"

definition representable :: "int \<Rightarrow> bool" where
  "representable n \<longleftrightarrow> \<bar>n\<bar> < 9223372036854775808 * 1000000000"

text \<open>
  Seconds and nanoseconds have the sign of the interval and there is less than a second of
  nanoseconds; construction, addition and subtraction are exact where the result is
  representable; comparison compares lengths.
\<close>

definition time_library_ok :: "'t time_library \<Rightarrow> bool" where
  "time_library_ok L \<longleftrightarrow>
     (\<forall>t. \<bar>ti_nanoseconds L t\<bar> < 1000000000 \<and>
          (0 \<le> total_ns L t \<longrightarrow> 0 \<le> ti_seconds L t \<and> 0 \<le> ti_nanoseconds L t) \<and>
          (total_ns L t \<le> 0 \<longrightarrow> ti_seconds L t \<le> 0 \<and> ti_nanoseconds L t \<le> 0)) \<and>
     (\<forall>s n. representable (s * 1000000000 + n) \<longrightarrow> total_ns L (ti_make L s n) = s * 1000000000 + n) \<and>
     (\<forall>t u. representable (total_ns L t - total_ns L u) \<longrightarrow> total_ns L (ti_minus L t u) = total_ns L t - total_ns L u) \<and>
     (\<forall>s t. representable (total_ns L t + s * 1000000000) \<longrightarrow>
            total_ns L (ti_addSeconds L s t) = total_ns L t + s * 1000000000) \<and>
     (\<forall>n t. representable (total_ns L t + n) \<longrightarrow> total_ns L (ti_addNanoseconds L n t) = total_ns L t + n) \<and>
     (\<forall>t u. ti_less L t u = (total_ns L t < total_ns L u)) \<and>
     (\<forall>t u. ti_equal L t u = (total_ns L t = total_ns L u))"

abbreviation ti_leq :: "'t time_library \<Rightarrow> 't \<Rightarrow> 't \<Rightarrow> bool" where
  "ti_leq L t u \<equiv> \<not> ti_less L u t"

abbreviation ti_zero :: "'t time_library \<Rightarrow> 't" where
  "ti_zero L \<equiv> ti_make L 0 0"

subsection \<open>ntcs::LeakyBucket\<close>

record 't LeakyBucket =
  lb_drainRate :: u64
  lb_capacity :: u64
  lb_unitsReserved :: u64
  lb_unitsInBucket :: u64
  lb_fractionalUnitDrainedInNanoUnits :: u64
  lb_lastUpdateTime :: 't
  lb_maxUpdateInterval :: 't
  lb_statSubmittedUnits :: u64
  lb_statSubmittedUnitsAtLastUpdate :: u64
  lb_statisticsCollectionStartTime :: 't

definition ullong_max :: u64 where
  "ullong_max = 18446744073709551615"

definition llong_max :: u64 where
  "llong_max = 9223372036854775807"

definition llong_min :: int where
  "llong_min = -9223372036854775808"

definition nanounits_per_unit :: u64 where
  "nanounits_per_unit = 1000000000"

text \<open>A division by zero, which is undefined in C++, is a failure as well.\<close>

definition calculateNumberOfUnitsToDrain ::
  "'t time_library \<Rightarrow> u64 \<Rightarrow> u64 \<Rightarrow> 't \<Rightarrow> (u64 \<times> u64) option" where
  "calculateNumberOfUnitsToDrain L fractional drainRate timeInterval =
     do { bsls_assert (drainRate \<noteq> 0);
          bsls_assert (word_of_int (ti_seconds L timeInterval) \<le> ullong_max div drainRate);
          bsls_assert (fractional < nanounits_per_unit);
          let units = drainRate * word_of_int (ti_seconds L timeInterval);
          let units = units +
                (drainRate div nanounits_per_unit) * word_of_int (ti_nanoseconds L timeInterval);
          let nanounits = fractional +
                (drainRate mod nanounits_per_unit) * word_of_int (ti_nanoseconds L timeInterval);
          let fractional = nanounits mod nanounits_per_unit;
          let units = units + nanounits div nanounits_per_unit;
          Some (units, fractional) }"

definition drain_nanoSecs :: "u64 \<Rightarrow> u64 \<Rightarrow> rat" where
  "drain_nanoSecs remUnits drainRate =
     to_double (to_double (to_double (of_nat (unat remUnits)) * 1000000000) /
                to_double (of_nat (unat drainRate)))"

definition calculateDrainTime ::
  "'t time_library \<Rightarrow> u64 \<Rightarrow> u64 \<Rightarrow> bool \<Rightarrow> 't option" where
  "calculateDrainTime L numUnits drainRate ceilFlag =
     do { bsls_assert (drainRate > 1 \<or> numUnits \<le> llong_max);
          let interval = ti_make L 0 0;
          bsls_assert (drainRate \<noteq> 0);
          let interval = ti_addSeconds L (sint (numUnits div drainRate)) interval;
          let remUnits = numUnits mod drainRate;
          let nanoSecs = drain_nanoSecs remUnits drainRate;
          Some (ti_addNanoseconds L (if ceilFlag then \<lceil>nanoSecs\<rceil> else \<lfloor>nanoSecs\<rfloor>) interval) }"

definition calculateTimeWindow :: "'t time_library \<Rightarrow> u64 \<Rightarrow> u64 \<Rightarrow> 't option" where
  "calculateTimeWindow L drainRate capacity =
     do { bsls_assert (drainRate > 0);
          bsls_assert (drainRate > 1 \<or> capacity \<le> llong_max);
          window \<leftarrow> calculateDrainTime L capacity drainRate True;
          Some (if ti_equal L (ti_zero L) window then ti_addNanoseconds L 1 window else window) }"

text \<open>\<open>||\<close> does not evaluate the drain time when the rate is 1.\<close>

definition calculateCapacity :: "'t time_library \<Rightarrow> u64 \<Rightarrow> 't \<Rightarrow> u64 option" where
  "calculateCapacity L drainRate timeWindow =
     do { fits \<leftarrow> (if drainRate = 1 then Some True
                    else map_option (ti_leq L timeWindow)
                           (calculateDrainTime L ullong_max drainRate False));
          bsls_assert fits;
          (capacity, fractional) \<leftarrow> calculateNumberOfUnitsToDrain L 0 drainRate timeWindow;
          Some (if 0 \<noteq> capacity then capacity else 1) }"

text \<open>The interval that the constructor and \<open>setRateAndCapacity\<close> compute alike.\<close>

definition maxUpdateInterval :: "'t time_library \<Rightarrow> u64 \<Rightarrow> 't option" where
  "maxUpdateInterval L drainRate =
     (if drainRate = 1 then Some (ti_make L (sint llong_max) 999999999)
      else calculateDrainTime L ullong_max drainRate False)"

definition LeakyBucket_create ::
  "'t time_library \<Rightarrow> u64 \<Rightarrow> u64 \<Rightarrow> 't \<Rightarrow> 't LeakyBucket option" where
  "LeakyBucket_create L drainRate capacity currentTime =
     do { bsls_assert (0 < drainRate);
          bsls_assert (0 < capacity);
          bsls_assert (llong_min \<noteq> ti_seconds L currentTime);
          m \<leftarrow> maxUpdateInterval L drainRate;
          Some \<lparr>lb_drainRate = drainRate, lb_capacity = capacity, lb_unitsReserved = 0,
                lb_unitsInBucket = 0, lb_fractionalUnitDrainedInNanoUnits = 0,
                lb_lastUpdateTime = currentTime, lb_maxUpdateInterval = m,
                lb_statSubmittedUnits = 0, lb_statSubmittedUnitsAtLastUpdate = 0,
                lb_statisticsCollectionStartTime = currentTime\<rparr> }"

definition LeakyBucket_updateState ::
  "'t time_library \<Rightarrow> 't \<Rightarrow> 't LeakyBucket \<Rightarrow> 't LeakyBucket option" where
  "LeakyBucket_updateState L currentTime b =
     do { bsls_assert (llong_min \<noteq> ti_seconds L currentTime);
          let delta = ti_minus L currentTime (lb_lastUpdateTime b);
          let b = b\<lparr>lb_statSubmittedUnitsAtLastUpdate := lb_statSubmittedUnits b\<rparr>;
          if ti_less L (lb_maxUpdateInterval b) delta then
            Some (b\<lparr>lb_lastUpdateTime := currentTime, lb_unitsInBucket := 0,
                    lb_fractionalUnitDrainedInNanoUnits := 0\<rparr>)
          else if ti_leq L (ti_zero L) delta then
            do { (units, fractional) \<leftarrow>
                   calculateNumberOfUnitsToDrain L (lb_fractionalUnitDrainedInNanoUnits b)
                     (lb_drainRate b) delta;
                 let b = b\<lparr>lb_fractionalUnitDrainedInNanoUnits := fractional,
                           lb_unitsInBucket := (if units < lb_unitsInBucket b
                                                then lb_unitsInBucket b - units else 0)\<rparr>;
                 Some (b\<lparr>lb_lastUpdateTime := currentTime\<rparr>) }
          else
            (let b = (if ti_less L currentTime (lb_statisticsCollectionStartTime b)
                      then b\<lparr>lb_statisticsCollectionStartTime := currentTime\<rparr> else b)
             in Some (b\<lparr>lb_lastUpdateTime := currentTime\<rparr>)) }"

definition LeakyBucket_calculateTimeToSubmit ::
  "'t time_library \<Rightarrow> 't \<Rightarrow> 't LeakyBucket \<Rightarrow> ('t \<times> 't LeakyBucket) option" where
  "LeakyBucket_calculateTimeToSubmit L currentTime b =
     (let usedUnits = lb_unitsInBucket b + lb_unitsReserved b in
      if usedUnits < lb_capacity b then Some (ti_zero L, b)
      else
        do { b \<leftarrow> LeakyBucket_updateState L currentTime b;
             if lb_unitsInBucket b + lb_unitsReserved b < lb_capacity b then Some (ti_zero L, b)
             else
               do { let backlogUnits =
                      lb_unitsInBucket b + lb_unitsReserved b - lb_capacity b + 1;
                    timeToSubmit \<leftarrow> calculateDrainTime L backlogUnits (lb_drainRate b) True;
                    let timeToSubmit =
                      (if ti_equal L timeToSubmit (ti_zero L)
                       then ti_addNanoseconds L 1 timeToSubmit else timeToSubmit);
                    Some (timeToSubmit, b) } })"

definition LeakyBucket_setRateAndCapacity ::
  "'t time_library \<Rightarrow> u64 \<Rightarrow> u64 \<Rightarrow> 't LeakyBucket \<Rightarrow> 't LeakyBucket option" where
  "LeakyBucket_setRateAndCapacity L newRate newCapacity b =
     do { bsls_assert (0 < newRate);
          bsls_assert (0 < newCapacity);
          m \<leftarrow> maxUpdateInterval L newRate;
          Some (b\<lparr>lb_drainRate := newRate, lb_capacity := newCapacity, lb_maxUpdateInterval := m\<rparr>) }"

definition LeakyBucket_wouldOverflow ::
  "'t time_library \<Rightarrow> 't \<Rightarrow> 't LeakyBucket \<Rightarrow> (bool \<times> 't LeakyBucket) option" where
  "LeakyBucket_wouldOverflow L currentTime b =
     do { b \<leftarrow> LeakyBucket_updateState L currentTime b;
          Some (1 > ullong_max - lb_unitsInBucket b - lb_unitsReserved b \<or>
                lb_unitsInBucket b + lb_unitsReserved b + 1 > lb_capacity b, b) }"

definition LeakyBucket_getStatistics ::
  "'t time_library \<Rightarrow> 't LeakyBucket \<Rightarrow> (u64 \<times> u64) option" where
  "LeakyBucket_getStatistics L b =
     do { let submittedUnits = lb_statSubmittedUnitsAtLastUpdate b;
          let monitoredInterval =
            ti_minus L (lb_lastUpdateTime b) (lb_statisticsCollectionStartTime b);
          (drainedUnits, fractional) \<leftarrow>
            calculateNumberOfUnitsToDrain L 0 (lb_drainRate b) monitoredInterval;
          Some (submittedUnits,
                if drainedUnits < submittedUnits then 0 else drainedUnits - submittedUnits) }"

definition LeakyBucket_reserve :: "u64 \<Rightarrow> 't LeakyBucket \<Rightarrow> 't LeakyBucket option" where
  "LeakyBucket_reserve numUnits b =
     do { bsls_assert (numUnits \<le> ullong_max - lb_unitsReserved b);
          bsls_assert (lb_unitsInBucket b \<le> ullong_max - lb_unitsReserved b - numUnits);
          Some (b\<lparr>lb_unitsReserved := lb_unitsReserved b + numUnits\<rparr>) }"

definition LeakyBucket_cancelReserved :: "u64 \<Rightarrow> 't LeakyBucket \<Rightarrow> 't LeakyBucket option" where
  "LeakyBucket_cancelReserved numUnits b =
     do { bsls_assert (numUnits \<le> lb_unitsReserved b);
          Some (b\<lparr>lb_unitsReserved :=
                    (if numUnits > lb_unitsReserved b then 0 else lb_unitsReserved b - numUnits)\<rparr>) }"

definition LeakyBucket_submit :: "u64 \<Rightarrow> 't LeakyBucket \<Rightarrow> 't LeakyBucket option" where
  "LeakyBucket_submit numUnits b =
     do { bsls_assert (numUnits \<le> ullong_max - lb_unitsInBucket b);
          bsls_assert (lb_unitsReserved b \<le> ullong_max - lb_unitsInBucket b - numUnits);
          Some (b\<lparr>lb_unitsInBucket := lb_unitsInBucket b + numUnits,
                  lb_statSubmittedUnits := lb_statSubmittedUnits b + numUnits\<rparr>) }"

definition LeakyBucket_submitReserved :: "u64 \<Rightarrow> 't LeakyBucket \<Rightarrow> 't LeakyBucket option" where
  "LeakyBucket_submitReserved numUnits b =
     do { bsls_assert (numUnits \<le> lb_unitsReserved b);
          LeakyBucket_submit numUnits
            (b\<lparr>lb_unitsReserved := lb_unitsReserved b - numUnits\<rparr>) }"

definition LeakyBucket_resetStatistics :: "'t LeakyBucket \<Rightarrow> 't LeakyBucket" where
  "LeakyBucket_resetStatistics b =
     b\<lparr>lb_statisticsCollectionStartTime := lb_lastUpdateTime b, lb_statSubmittedUnits := 0,
       lb_statSubmittedUnitsAtLastUpdate := 0\<rparr>"

definition LeakyBucket_reset ::
  "'t time_library \<Rightarrow> 't \<Rightarrow> 't LeakyBucket \<Rightarrow> 't LeakyBucket option" where
  "LeakyBucket_reset L currentTime b =
     do { bsls_assert (llong_min \<noteq> ti_seconds L currentTime);
          Some (LeakyBucket_resetStatistics
                  (b\<lparr>lb_lastUpdateTime := currentTime, lb_unitsInBucket := 0,
                     lb_unitsReserved := 0\<rparr>)) }"

subsection \<open>Machine arithmetic\<close>

lemma unat_word_of_int_u64:
  "0 \<le> x \<Longrightarrow> x < 2 ^ 64 \<Longrightarrow> unat (word_of_int x :: u64) = nat x"
  by (simp add: unat_eq_nat_uint take_bit_eq_mod uint_word_of_int)

lemma unat_add_u64: "unat a + unat b < 2 ^ 64 \<Longrightarrow> unat (a + b :: u64) = unat a + unat b"
  by (simp add: unat_word_ariths)

lemma unat_mult_u64: "unat a * unat b < 2 ^ 64 \<Longrightarrow> unat (a * b :: u64) = unat a * unat b"
  by (simp add: unat_word_ariths)

lemma unat_u64_less: "unat (a :: u64) < 2 ^ 64"
  using unsigned_less [of a] by simp

lemmas unat_ops = unat_add_u64 unat_mult_u64 unat_div unat_mod unat_word_of_int_u64

lemma unat_constants [simp]:
  "unat ullong_max = 2 ^ 64 - 1" "unat llong_max = 2 ^ 63 - 1"
  "unat nanounits_per_unit = 1000000000"
  by (simp_all add: ullong_max_def llong_max_def nanounits_per_unit_def)

lemma monus_word: "(if u < a then a - u else 0) = of_nat (unat a - unat (u :: u64))"
  by (auto simp: word_less_nat_alt of_nat_diff)

text \<open>The split of a product with the rate into whole seconds, whole units and a remainder.\<close>

lemma drain_split_sum:
  fixes r s n f M :: nat
  shows "f + r * (s * M + n) = (f + r mod M * n) + (r * s + r div M * n) * M"
proof -
  define q m where "q = r div M" and "m = r mod M"
  have "r = q * M + m" by (simp add: q_def m_def)
  then have "r * n = q * n * M + m * n" by (simp add: algebra_simps)
  then show ?thesis unfolding q_def [symmetric] m_def [symmetric] by (simp add: algebra_simps)
qed

lemma drain_split_div:
  fixes r s n f M :: nat
  shows "M > 0 \<Longrightarrow>
    r * s + r div M * n + (f + r mod M * n) div M = (f + r * (s * M + n)) div M"
  by (simp add: drain_split_sum [of f r s M n])

lemma drain_split_mod:
  fixes r s n f M :: nat
  shows "(f + r mod M * n) mod M = (f + r * (s * M + n)) mod M"
  by (simp only: drain_split_sum [of f r s M n] mod_mult_self1)

lemma time_library_okD:
  assumes "time_library_ok L"
  shows "\<bar>ti_nanoseconds L t\<bar> < 1000000000"
    and "0 \<le> total_ns L t \<Longrightarrow> 0 \<le> ti_seconds L t"
    and "0 \<le> total_ns L t \<Longrightarrow> 0 \<le> ti_nanoseconds L t"
    and "representable (s * 1000000000 + n) \<Longrightarrow> total_ns L (ti_make L s n) = s * 1000000000 + n"
    and "representable (total_ns L t - total_ns L u) \<Longrightarrow> total_ns L (ti_minus L t u) = total_ns L t - total_ns L u"
    and "representable (total_ns L t + s * 1000000000) \<Longrightarrow>
         total_ns L (ti_addSeconds L s t) = total_ns L t + s * 1000000000"
    and "representable (total_ns L t + n) \<Longrightarrow> total_ns L (ti_addNanoseconds L n t) = total_ns L t + n"
    and "ti_less L t u \<longleftrightarrow> total_ns L t < total_ns L u"
    and "ti_equal L t u \<longleftrightarrow> total_ns L t = total_ns L u"
  using assms unfolding time_library_ok_def by blast+

lemma total_zero: "time_library_ok L \<Longrightarrow> total_ns L (ti_zero L) = 0"
  by (simp add: time_library_okD(4) representable_def)

text \<open>
  The same computation on words of 64 bits, with \<open>x\<close> seconds and \<open>y\<close> nanoseconds: nothing
  wraps around while the exact number of units fits in 64 bits.
\<close>

lemma drain_words_mod:
  fixes r y f :: u64
  assumes "unat y < 1000000000" "unat f < 1000000000"
  shows "unat (f + r mod nanounits_per_unit * y) = unat f + unat r mod 1000000000 * unat y"
proof -
  have "unat r mod 1000000000 * unat y \<le> 1000000000 * 1000000000"
    using assms(1) by (intro mult_le_mono) auto
  then have "unat f + unat r mod 1000000000 * unat y < 2 ^ 64" using assms(2) by simp
  then show ?thesis by (simp add: unat_ops)
qed

lemma drain_words_div:
  fixes r x y f :: u64
  assumes y: "unat y < 1000000000" and f: "unat f < 1000000000"
    and fits: "unat f + unat r * (unat x * 1000000000 + unat y) < 2 ^ 64 * 1000000000"
  shows "unat (r * x + r div nanounits_per_unit * y +
               (f + r mod nanounits_per_unit * y) div nanounits_per_unit) =
         (unat f + unat r * (unat x * 1000000000 + unat y)) div 1000000000"
proof -
  define a b c where "a = unat r * unat x" and "b = unat r div 1000000000 * unat y"
    and "c = (unat f + unat r mod 1000000000 * unat y) div 1000000000"
  have abc: "a + b + c = (unat f + unat r * (unat x * 1000000000 + unat y)) div 1000000000"
    unfolding a_def b_def c_def by (rule drain_split_div) simp
  also have "\<dots> < 2 ^ 64" using fits by (simp add: less_mult_imp_div_less)
  finally have u: "a + b + c < 2 ^ 64" .
  have wa: "unat (r * x) = a" using u by (simp add: a_def unat_ops)
  have wb: "unat (r div nanounits_per_unit * y) = b"
    using u by (subst unat_mult_u64) (simp_all add: b_def unat_div)
  have wc: "unat ((f + r mod nanounits_per_unit * y) div nanounits_per_unit) = c"
    using y f by (simp add: unat_div drain_words_mod c_def)
  have wab: "unat (r * x + r div nanounits_per_unit * y) = a + b"
    using u by (subst unat_add_u64) (simp_all add: wa wb)
  show ?thesis using u by (subst unat_add_u64) (simp_all only: wab wc abc)
qed

lemma drain_words_guard:
  fixes r x :: u64
  assumes "r \<noteq> 0" "unat r * unat x < 2 ^ 64"
  shows "x \<le> ullong_max div r"
proof -
  have "unat r > 0" using assms(1) by (simp add: unat_gt_0)
  then have "unat x \<le> (2 ^ 64 - 1) div unat r"
    using assms(2) by (simp add: less_eq_div_iff_mult_less_eq mult.commute)
  then show ?thesis by (simp add: word_le_nat_alt unat_div)
qed

text \<open>Seconds and nanoseconds of a non-negative interval.\<close>

lemma nat_total:
  assumes "time_library_ok L" "0 \<le> total_ns L t"
  shows "0 \<le> ti_seconds L t" and "0 \<le> ti_nanoseconds L t" and "ti_nanoseconds L t < 1000000000"
    and "nat (total_ns L t) = nat (ti_seconds L t) * 1000000000 + nat (ti_nanoseconds L t)"
proof -
  show p: "0 \<le> ti_seconds L t" and q: "0 \<le> ti_nanoseconds L t"
    using time_library_okD(2,3) [OF assms(1)] assms(2) by blast+
  show "ti_nanoseconds L t < 1000000000"
    using time_library_okD(1) [OF assms(1), of t] by linarith
  show "nat (total_ns L t) = nat (ti_seconds L t) * 1000000000 + nat (ti_nanoseconds L t)"
    using p q by (simp add: total_ns_def nat_add_distrib nat_mult_distrib)
qed

text \<open>
  The number of units that drain in an interval is exact: no bit is lost, and the remainder in
  nano-units is what is left of the exact product.
\<close>

lemma units_to_drain:
  assumes ok: "time_library_ok L" and r: "drainRate \<noteq> 0" and f: "unat fractional < 1000000000"
    and T: "0 \<le> total_ns L t"
    and fits: "unat fractional + unat drainRate * nat (total_ns L t) < 2 ^ 64 * 1000000000"
  shows "\<exists>units rest. calculateNumberOfUnitsToDrain L fractional drainRate t = Some (units, rest) \<and>
    unat units = (unat fractional + unat drainRate * nat (total_ns L t)) div 1000000000 \<and>
    unat rest = (unat fractional + unat drainRate * nat (total_ns L t)) mod 1000000000"
proof -
  define x y :: u64 where "x = word_of_int (ti_seconds L t)" and "y = word_of_int (ti_nanoseconds L t)"
  note tt = nat_total [OF ok T]
  have R: "unat drainRate > 0" using r by (simp add: unat_gt_0)
  have "unat drainRate * nat (ti_seconds L t) * 1000000000 < 2 ^ 64 * 1000000000"
    using fits by (simp add: tt(4) distrib_left mult.assoc)
  then have Rs: "unat drainRate * nat (ti_seconds L t) < 2 ^ 64" by simp
  then have "nat (ti_seconds L t) < 2 ^ 64" using R by (cases "unat drainRate") auto
  then have x: "unat x = nat (ti_seconds L t)"
    using tt(1) by (simp add: x_def unat_word_of_int_u64 nat_less_iff)
  have y: "unat y = nat (ti_nanoseconds L t)"
    using tt(2,3) by (simp add: y_def unat_word_of_int_u64)
  have y9: "unat y < 1000000000" using tt(2,3) by (simp add: y nat_less_iff)
  have "x \<le> ullong_max div drainRate" using drain_words_guard r Rs by (simp add: x)
  moreover have "fractional < nanounits_per_unit" using f by (simp add: word_less_nat_alt)
  moreover have "unat (drainRate * x + drainRate div nanounits_per_unit * y +
      (fractional + drainRate mod nanounits_per_unit * y) div nanounits_per_unit) =
      (unat fractional + unat drainRate * nat (total_ns L t)) div 1000000000"
    using drain_words_div [OF y9 f, of drainRate x] fits by (simp add: x y tt(4))
  moreover have "unat ((fractional + drainRate mod nanounits_per_unit * y) mod nanounits_per_unit) =
      (unat fractional + unat drainRate * nat (total_ns L t)) mod 1000000000"
    unfolding unat_mod drain_words_mod [OF y9 f] tt(4) unat_constants y by (rule drain_split_mod)
  ultimately show ?thesis
    using r by (simp add: calculateNumberOfUnitsToDrain_def Let_def x_def y_def)
qed

subsection \<open>The drain time\<close>

text \<open>
  Up to a rate of \<open>2\<^sup>2\<^sup>3\<close> units per second the computation in \<open>double\<close> gives the exact number of
  nanoseconds, rounded as requested: the product is exact, and the quotient is further from
  the nearest integer than its rounding error.
\<close>

lemma drain_nanoSecs_exact:
  assumes r: "0 < unat r" "unat r \<le> 2 ^ 23" and m: "unat m < unat r"
  shows "\<lfloor>drain_nanoSecs m r\<rfloor> = int (unat m * 1000000000 div unat r)"
    and "\<lceil>drain_nanoSecs m r\<rceil> = int ((unat m * 1000000000 + unat r - 1) div unat r)"
proof -
  have m23: "unat m < 2 ^ 23" using m r by simp
  then have N: "unat m * 1000000000 < 2 ^ 53" by simp
  have dn: "drain_nanoSecs m r = to_double (of_nat (unat m * 1000000000) / of_nat (unat r))"
    using m23 r N to_double_of_nat [of "unat m"] to_double_of_nat [of "unat m * 1000000000"]
      to_double_of_nat [of "unat r"]
    by (simp add: drain_nanoSecs_def)
  have "unat m * 1000000000 < unat r * 2 ^ 30" using m r(1) by simp
  then show "\<lfloor>drain_nanoSecs m r\<rfloor> = int (unat m * 1000000000 div unat r)"
    and "\<lceil>drain_nanoSecs m r\<rceil> = int ((unat m * 1000000000 + unat r - 1) div unat r)"
    using to_double_quotient [OF r N] by (simp_all only: dn)
qed

lemma sint_u64: "unat (w :: u64) < 2 ^ 63 \<Longrightarrow> sint w = int (unat w)"
proof -
  assume "unat w < 2 ^ 63"
  then have "int (unat w) < int (2 ^ 63)" by (simp only: of_nat_less_iff)
  then have "uint w < 2 ^ 63" by (simp only: uint_nat of_nat_power of_nat_numeral)
  moreover have "- (2 ^ 63) \<le> uint w" by (rule order_trans [OF _ unsigned_greater_eq]) simp
  ultimately have "signed_take_bit 63 (uint w) = uint w" by (intro signed_take_bit_int_eq_self) auto
  then show ?thesis by (simp add: sint_uint)
qed

lemma drain_seconds_bound:
  fixes n r :: u64
  assumes "r > 1 \<or> n \<le> llong_max" "r \<noteq> 0"
  shows "unat n div unat r < 2 ^ 63"
proof (cases "r > 1")
  case True
  then have "unat r \<ge> 2" by (simp add: word_less_nat_alt)
  then have "unat n div unat r \<le> unat n div 2" by (simp add: div_le_mono2)
  also have "\<dots> < 2 ^ 63" using unat_u64_less [of n] by simp
  finally show ?thesis .
next
  case False
  then have "unat n \<le> 2 ^ 63 - 1" using assms(1) by (simp add: word_le_nat_alt)
  moreover have "unat n div unat r \<le> unat n" by (rule div_le_dividend)
  ultimately have "unat n div unat r \<le> 2 ^ 63 - 1" by (rule order_trans [rotated])
  then show ?thesis by simp
qed

lemma drain_remainder_split:
  fixes n R :: nat
  assumes "0 < R"
  shows "n * 1000000000 div R = n div R * 1000000000 + n mod R * 1000000000 div R"
    and "(n * 1000000000 + R - 1) div R =
         n div R * 1000000000 + (n mod R * 1000000000 + R - 1) div R"
proof -
  have n: "n * 1000000000 = n mod R * 1000000000 + (n div R * 1000000000) * R"
  proof -
    define q k where "q = n div R" and "k = n mod R"
    have "n = q * R + k" by (simp add: q_def k_def)
    then show ?thesis unfolding q_def [symmetric] k_def [symmetric] by (simp add: algebra_simps)
  qed
  show "n * 1000000000 div R = n div R * 1000000000 + n mod R * 1000000000 div R"
    by (subst n) (use assms in simp)
  have "n * 1000000000 + R - 1 = (n mod R * 1000000000 + R - 1) + (n div R * 1000000000) * R"
    using n assms by linarith
  then show "(n * 1000000000 + R - 1) div R =
         n div R * 1000000000 + (n mod R * 1000000000 + R - 1) div R"
    using assms by (metis div_mult_self1 less_numeral_extra(3))
qed

lemma calculateDrainTime_total:
  assumes ok: "time_library_ok L" and r: "0 < unat r" "unat r \<le> 2 ^ 23"
    and n: "r > 1 \<or> n \<le> llong_max"
  shows "\<exists>t. calculateDrainTime L n r ceilFlag = Some t \<and>
     total_ns L t = int ((if ceilFlag then unat n * 1000000000 + unat r - 1
                       else unat n * 1000000000) div unat r)"
proof -
  define m where "m = n mod r"
  define q where "q = unat n div unat r"
  have r0: "r \<noteq> 0" using r(1) by auto
  have m: "unat m = unat n mod unat r" "unat m < unat r" using r(1) by (simp_all add: m_def unat_mod)
  have q: "q < 2 ^ 63" "sint (n div r) = int q"
    using drain_seconds_bound [OF n r0] by (simp_all add: q_def sint_u64 unat_div)
  define ns where "ns = (if ceilFlag then unat m * 1000000000 + unat r - 1
      else unat m * 1000000000) div unat r"
  have "(unat m + 1) * 1000000000 \<le> unat r * 1000000000" using m(2) by (intro mult_le_mono1) simp
  then have "(if ceilFlag then unat m * 1000000000 + unat r - 1 else unat m * 1000000000)
      < unat r * 1000000000"
    using r by auto
  then have ns: "ns < 1000000000" unfolding ns_def by (intro less_mult_imp_div_less) (simp only: mult.commute)
  have fl: "(if ceilFlag then \<lceil>drain_nanoSecs m r\<rceil> else \<lfloor>drain_nanoSecs m r\<rfloor>) = int ns"
    using drain_nanoSecs_exact [OF r m(2)] by (simp add: ns_def)
  have rep: "representable (int q * 1000000000)" "representable (int q * 1000000000 + int ns)"
    using q(1) ns by (simp_all add: representable_def abs_if)
  have "total_ns L (ti_addNanoseconds L (int ns) (ti_addSeconds L (int q) (ti_zero L))) =
      int q * 1000000000 + int ns"
    using rep ok by (simp add: time_library_okD(6,7) total_zero)
  moreover have "q * 1000000000 + ns = (if ceilFlag then unat n * 1000000000 + unat r - 1
      else unat n * 1000000000) div unat r"
    using drain_remainder_split [OF r(1), of "unat n"] by (simp add: ns_def q_def m(1))
  moreover have "calculateDrainTime L n r ceilFlag =
      Some (ti_addNanoseconds L (int ns) (ti_addSeconds L (int q) (ti_zero L)))"
    using n r0 fl by (simp add: calculateDrainTime_def Let_def q(2) flip: m_def)
  ultimately show ?thesis by (metis of_nat_add of_nat_mult of_nat_numeral)
qed

lemma maxUpdateInterval_total:
  assumes ok: "time_library_ok L" and r: "0 < unat r" "unat r \<le> 2 ^ 23"
  shows "\<exists>m. maxUpdateInterval L r = Some m \<and> 0 \<le> total_ns L m \<and>
     unat r * nat (total_ns L m) \<le> (2 ^ 64 - 1) * 1000000000 \<and>
     (\<forall>d. representable d \<longrightarrow> total_ns L m < d \<longrightarrow> (2 ^ 64 - 1) * 1000000000 \<le> unat r * nat d)"
proof (cases "r = 1")
  case True
  define m where "m = ti_make L (sint llong_max) 999999999"
  have "sint llong_max = 9223372036854775807" by (simp add: sint_u64)
  then have m: "total_ns L m = 9223372036854775807999999999"
    using ok by (simp add: m_def time_library_okD(4) representable_def)
  then show ?thesis using True 
    by (auto simp: maxUpdateInterval_def m_def [symmetric] representable_def abs_if)
next
  case False
  then have "unat r \<noteq> 1" by (metis unat_1 word_unat_eq_iff)
  then have r1: "r > 1" using r(1) by (simp add: word_less_nat_alt)
  define R where "R = unat r"
  obtain m where m: "calculateDrainTime L ullong_max r False = Some m"
    "total_ns L m = int ((2 ^ 64 - 1) * 1000000000 div R)"
    using calculateDrainTime_total [OF ok r, of ullong_max False] r1 by (auto simp: R_def)
  define X :: nat where "X = (2 ^ 64 - 1) * 1000000000"
  have "R * (X div R) \<le> X" by simp
  moreover have "X \<le> R * nat d" if "int (X div R) < d" for d
  proof -
    have "X div R < nat d" using that by simp
    then have "X < nat d * R" using r(1) by (simp add: div_less_iff_less_mult R_def)
    then show ?thesis by (simp add: mult.commute)
  qed
  ultimately show ?thesis
    using m False unfolding X_def [symmetric] R_def [symmetric] by (auto simp: maxUpdateInterval_def)
qed

subsection \<open>The invariant of a bucket and the effect of an update\<close>

definition lb_inv :: "'t time_library \<Rightarrow> 't LeakyBucket \<Rightarrow> bool" where
  "lb_inv L b \<longleftrightarrow>
     0 < unat (lb_drainRate b) \<and> unat (lb_drainRate b) \<le> 2 ^ 23 \<and> 0 < lb_capacity b \<and>
     maxUpdateInterval L (lb_drainRate b) = Some (lb_maxUpdateInterval b) \<and>
     unat (lb_fractionalUnitDrainedInNanoUnits b) < 1000000000 \<and>
     unat (lb_unitsInBucket b) + unat (lb_unitsReserved b) < 2 ^ 64 \<and>
     total_ns L (lb_statisticsCollectionStartTime b) \<le> total_ns L (lb_lastUpdateTime b)"

text \<open>What the caller owes of the time it passes.\<close>

definition clock_ok :: "'t time_library \<Rightarrow> 't \<Rightarrow> 't LeakyBucket \<Rightarrow> bool" where
  "clock_ok L t b \<longleftrightarrow>
     ti_seconds L t \<noteq> llong_min \<and> representable (total_ns L t - total_ns L (lb_lastUpdateTime b))"

text \<open>The nano-units that drain until a time, with those left over from the last update.\<close>

definition nanounits :: "'t time_library \<Rightarrow> 't \<Rightarrow> 't LeakyBucket \<Rightarrow> nat" where
  "nanounits L t b =
     unat (lb_fractionalUnitDrainedInNanoUnits b) +
     unat (lb_drainRate b) * nat (total_ns L t - total_ns L (lb_lastUpdateTime b))"

definition drain :: "'t time_library \<Rightarrow> 't \<Rightarrow> 't LeakyBucket \<Rightarrow> 't LeakyBucket" where
  "drain L t b =
     b\<lparr>lb_statSubmittedUnitsAtLastUpdate := lb_statSubmittedUnits b,
       lb_fractionalUnitDrainedInNanoUnits := of_nat (nanounits L t b mod 1000000000),
       lb_unitsInBucket := of_nat (unat (lb_unitsInBucket b) - nanounits L t b div 1000000000),
       lb_lastUpdateTime := t\<rparr>"

lemma update_within:
  assumes ok: "time_library_ok L" and inv: "lb_inv L b" and t: "clock_ok L t b"
    and d: "total_ns L (lb_lastUpdateTime b) \<le> total_ns L t"
      "total_ns L t - total_ns L (lb_lastUpdateTime b) \<le> total_ns L (lb_maxUpdateInterval b)"
  shows "LeakyBucket_updateState L t b = Some (drain L t b)"
proof -
  define delta where "delta = ti_minus L t (lb_lastUpdateTime b)"
  define D where "D = nat (total_ns L t - total_ns L (lb_lastUpdateTime b))"
  let ?f = "lb_fractionalUnitDrainedInNanoUnits b" and ?r = "lb_drainRate b"
  have delta: "total_ns L delta = total_ns L t - total_ns L (lb_lastUpdateTime b)"
    using t ok by (simp add: delta_def clock_ok_def time_library_okD(5))
  have r: "0 < unat ?r" "unat ?r \<le> 2 ^ 23" using inv by (simp_all add: lb_inv_def)
  have "unat ?r * nat (total_ns L (lb_maxUpdateInterval b)) \<le> (2 ^ 64 - 1) * 1000000000"
    using maxUpdateInterval_total [OF ok r] inv by (auto simp: lb_inv_def)
  moreover have "unat ?r * D \<le> unat ?r * nat (total_ns L (lb_maxUpdateInterval b))"
    using d by (intro mult_left_mono) (simp_all add: D_def)
  ultimately have "unat ?r * D \<le> (2 ^ 64 - 1) * 1000000000" by (rule order_trans [rotated])
  moreover have "unat ?f < 1000000000" using inv by (simp add: lb_inv_def)
  ultimately have fits: "unat ?f + unat ?r * D < 2 ^ 64 * 1000000000" by simp
  have nd: "nat (total_ns L delta) = D" by (simp add: delta D_def)
  have r0: "?r \<noteq> 0" using r(1) by auto
  obtain u f where uf: "calculateNumberOfUnitsToDrain L ?f ?r delta = Some (u, f)"
    "unat u = nanounits L t b div 1000000000" "unat f = nanounits L t b mod 1000000000"
    using units_to_drain [OF ok r0, of ?f delta] inv d delta fits nd
    by (auto simp: nanounits_def D_def lb_inv_def)
  have f: "f = of_nat (nanounits L t b mod 1000000000)" by (simp flip: uf(3))
  have "(if u < lb_unitsInBucket b then lb_unitsInBucket b - u else 0) =
      of_nat (unat (lb_unitsInBucket b) - nanounits L t b div 1000000000)"
    by (simp add: monus_word flip: uf(2))
  then show ?thesis
    using ok t d delta uf(1) f
    by (simp add: LeakyBucket_updateState_def Let_def clock_ok_def drain_def time_library_okD(8)
        total_zero flip: delta_def split del: if_split cong: if_cong)
qed

text \<open>
  Draining twice drains the sum: the remainder in nano-units carries exactly what the first
  update left over.
\<close>

lemma drain_fields [simp]:
  "lb_drainRate (drain L t b) = lb_drainRate b" "lb_capacity (drain L t b) = lb_capacity b"
  "lb_unitsReserved (drain L t b) = lb_unitsReserved b"
  "lb_lastUpdateTime (drain L t b) = t"
  "lb_maxUpdateInterval (drain L t b) = lb_maxUpdateInterval b"
  "lb_statSubmittedUnits (drain L t b) = lb_statSubmittedUnits b"
  "lb_statisticsCollectionStartTime (drain L t b) = lb_statisticsCollectionStartTime b"
  "unat (lb_fractionalUnitDrainedInNanoUnits (drain L t b)) = nanounits L t b mod 1000000000"
  "unat (lb_unitsInBucket (drain L t b)) =
     unat (lb_unitsInBucket b) - nanounits L t b div 1000000000"
proof -
  have "nanounits L t b mod 1000000000 < 2 ^ 64"
    by (rule less_trans [of _ 1000000000]) simp_all
  then show "unat (lb_fractionalUnitDrainedInNanoUnits (drain L t b)) = nanounits L t b mod 1000000000"
    by (simp add: drain_def unat_of_nat)
  have "unat (lb_unitsInBucket b) - nanounits L t b div 1000000000 < 2 ^ 64"
    by (rule le_less_trans [OF diff_le_self unat_u64_less])
  then show "unat (lb_unitsInBucket (drain L t b)) =
      unat (lb_unitsInBucket b) - nanounits L t b div 1000000000"
    by (simp add: drain_def unat_of_nat)
qed (simp_all add: drain_def)

lemma carry_mod: "(a mod M + c) mod M = (a + c) mod (M :: nat)"
  by (simp add: mod_add_left_eq)

lemma carry_div: "M > 0 \<Longrightarrow> a div M + (a mod M + c) div M = (a + c) div (M :: nat)"
proof -
  assume "M > 0"
  moreover have "a + c = (a mod M + c) + a div M * M" by simp
  ultimately show ?thesis by (metis add.commute div_mult_self1 less_numeral_extra(3))
qed

lemma nanounits_drain:
  assumes "total_ns L (lb_lastUpdateTime b) \<le> total_ns L t" "total_ns L t \<le> total_ns L u"
  shows "nanounits L u (drain L t b) =
    nanounits L t b mod 1000000000 + unat (lb_drainRate b) * nat (total_ns L u - total_ns L t)"
    and "nanounits L u b =
      nanounits L t b + unat (lb_drainRate b) * nat (total_ns L u - total_ns L t)"
proof -
  show "nanounits L u (drain L t b) =
    nanounits L t b mod 1000000000 + unat (lb_drainRate b) * nat (total_ns L u - total_ns L t)"
    by (simp add: nanounits_def)
  have "nat (total_ns L u - total_ns L (lb_lastUpdateTime b)) =
      nat (total_ns L t - total_ns L (lb_lastUpdateTime b)) + nat (total_ns L u - total_ns L t)"
    using assms by (simp add: nat_diff_distrib')
  then show "nanounits L u b =
      nanounits L t b + unat (lb_drainRate b) * nat (total_ns L u - total_ns L t)"
    by (simp add: nanounits_def algebra_simps)
qed

lemma drain_drain:
  assumes "total_ns L (lb_lastUpdateTime b) \<le> total_ns L t" "total_ns L t \<le> total_ns L u"
  shows "drain L u (drain L t b) = drain L u b"
proof -
  note n = nanounits_drain [OF assms]
  have m: "nanounits L u (drain L t b) mod 1000000000 = nanounits L u b mod 1000000000"
    by (simp only: n carry_mod)
  have "nanounits L t b div 1000000000 + nanounits L u (drain L t b) div 1000000000 =
      nanounits L u b div 1000000000"
    by (simp only: n carry_div zero_less_numeral)
  then have d: "unat (lb_unitsInBucket (drain L t b)) - nanounits L u (drain L t b) div 1000000000 =
      unat (lb_unitsInBucket b) - nanounits L u b div 1000000000"
    by simp
  have "drain L u (drain L t b) =
      (drain L t b)\<lparr>lb_statSubmittedUnitsAtLastUpdate := lb_statSubmittedUnits b,
         lb_fractionalUnitDrainedInNanoUnits := of_nat (nanounits L u b mod 1000000000),
         lb_unitsInBucket := of_nat (unat (lb_unitsInBucket b) - nanounits L u b div 1000000000),
         lb_lastUpdateTime := u\<rparr>"
    by (subst (1) drain_def) (simp only: m d drain_fields(1-7))
  then show ?thesis by (simp add: drain_def)
qed

lemma lb_inv_drain:
  assumes "lb_inv L b" "total_ns L (lb_lastUpdateTime b) \<le> total_ns L t"
  shows "lb_inv L (drain L t b)"
proof -
  have "nanounits L t b mod 1000000000 < 1000000000" by simp
  then show ?thesis using assms by (auto simp: lb_inv_def)
qed

lemma update_split:
  assumes ok: "time_library_ok L"
  shows "lb_inv L b \<Longrightarrow> sorted (map (total_ns L) (lb_lastUpdateTime b # ts @ [t])) \<Longrightarrow>
    \<forall>u \<in> set (ts @ [t]). clock_ok L u b \<Longrightarrow>
    total_ns L t - total_ns L (lb_lastUpdateTime b) \<le> total_ns L (lb_maxUpdateInterval b) \<Longrightarrow>
    run_steps (LeakyBucket_updateState L) (ts @ [t]) b = Some (drain L t b)"
proof (induction ts arbitrary: b)
  case Nil
  then show ?case using update_within [OF ok, of b t] by simp
next
  case (Cons u ts)
  have u: "total_ns L (lb_lastUpdateTime b) \<le> total_ns L u" "total_ns L u \<le> total_ns L t"
    using Cons.prems(2) by (auto simp: sorted_append)
  have up: "LeakyBucket_updateState L u b = Some (drain L u b)"
    using update_within [OF ok, of b u] Cons.prems u by simp
  have "representable (total_ns L v - total_ns L u)" if "v \<in> set (ts @ [t])" for v
  proof -
    have "total_ns L u \<le> total_ns L v" using Cons.prems(2) that by (auto simp: sorted_append)
    moreover have "representable (total_ns L v - total_ns L (lb_lastUpdateTime b))"
      using Cons.prems(3) that by (auto simp: clock_ok_def)
    ultimately show ?thesis using u(1) by (auto simp: representable_def abs_if split: if_splits)
  qed
  then have "\<forall>v \<in> set (ts @ [t]). clock_ok L v (drain L u b)"
    using Cons.prems(3) by (auto simp: clock_ok_def)
  then have "run_steps (LeakyBucket_updateState L) (ts @ [t]) (drain L u b) =
      Some (drain L t (drain L u b))"
    using Cons.prems u by (intro Cons.IH lb_inv_drain) auto
  then show ?case using up u by (simp add: drain_drain)
qed

text \<open>
  An update at any time the caller may pass: it fails no assertion and keeps the invariant and
  the settings; time that has passed drains, and a clock that was set back drains nothing.
\<close>

definition same_settings :: "'t LeakyBucket \<Rightarrow> 't LeakyBucket \<Rightarrow> bool" where
  "same_settings b c \<longleftrightarrow>
     lb_drainRate c = lb_drainRate b \<and> lb_capacity c = lb_capacity b \<and>
     lb_unitsReserved c = lb_unitsReserved b \<and> lb_maxUpdateInterval c = lb_maxUpdateInterval b"

lemma update_beyond:
  assumes ok: "time_library_ok L" and inv: "lb_inv L b" and t: "clock_ok L t b"
    and d: "total_ns L (lb_maxUpdateInterval b) < total_ns L t - total_ns L (lb_lastUpdateTime b)"
  shows "LeakyBucket_updateState L t b =
      Some (b\<lparr>lb_statSubmittedUnitsAtLastUpdate := lb_statSubmittedUnits b, lb_lastUpdateTime := t,
              lb_unitsInBucket := 0, lb_fractionalUnitDrainedInNanoUnits := 0\<rparr>)"
    and "unat (lb_unitsInBucket b) - nanounits L t b div 1000000000 = 0"
    and "total_ns L (lb_lastUpdateTime b) \<le> total_ns L t"
proof -
  have r: "0 < unat (lb_drainRate b)" "unat (lb_drainRate b) \<le> 2 ^ 23"
    using inv by (simp_all add: lb_inv_def)
  have M: "0 \<le> total_ns L (lb_maxUpdateInterval b)"
    "(2 ^ 64 - 1) * 1000000000 \<le>
     unat (lb_drainRate b) * nat (total_ns L t - total_ns L (lb_lastUpdateTime b))"
    using maxUpdateInterval_total [OF ok r] inv t d by (auto simp: lb_inv_def clock_ok_def)
  show "LeakyBucket_updateState L t b =
      Some (b\<lparr>lb_statSubmittedUnitsAtLastUpdate := lb_statSubmittedUnits b, lb_lastUpdateTime := t,
              lb_unitsInBucket := 0, lb_fractionalUnitDrainedInNanoUnits := 0\<rparr>)"
    using t d ok
    by (simp add: LeakyBucket_updateState_def Let_def clock_ok_def time_library_okD(5,8))
  show "total_ns L (lb_lastUpdateTime b) \<le> total_ns L t" using M(1) d by linarith
  have "(2 ^ 64 - 1) * 1000000000 \<le> nanounits L t b"
    unfolding nanounits_def using M(2) by (rule trans_le_add2)
  then have "2 ^ 64 - 1 \<le> nanounits L t b div 1000000000"
    by (subst less_eq_div_iff_mult_less_eq) simp_all
  then show "unat (lb_unitsInBucket b) - nanounits L t b div 1000000000 = 0"
    using unat_u64_less [of "lb_unitsInBucket b"] by simp
qed

lemma update_effect:
  assumes ok: "time_library_ok L" and inv: "lb_inv L b" and t: "clock_ok L t b"
  shows "\<exists>c. LeakyBucket_updateState L t b = Some c \<and> lb_inv L c \<and> same_settings b c \<and>
     lb_lastUpdateTime c = t \<and>
     (if total_ns L (lb_lastUpdateTime b) \<le> total_ns L t
      then unat (lb_unitsInBucket c) = unat (lb_unitsInBucket b) - nanounits L t b div 1000000000 \<and>
           unat (lb_fractionalUnitDrainedInNanoUnits c) \<le> nanounits L t b mod 1000000000
      else lb_unitsInBucket c = lb_unitsInBucket b \<and>
           lb_fractionalUnitDrainedInNanoUnits c = lb_fractionalUnitDrainedInNanoUnits b)"
proof -
  define d where "d = total_ns L t - total_ns L (lb_lastUpdateTime b)"
  consider "d < 0" | "0 \<le> d" "d \<le> total_ns L (lb_maxUpdateInterval b)"
    | "total_ns L (lb_maxUpdateInterval b) < d" by linarith
  then show ?thesis
  proof cases
    case 1
    have M: "0 \<le> total_ns L (lb_maxUpdateInterval b)"
      using maxUpdateInterval_total [OF ok, of "lb_drainRate b"] inv by (auto simp: lb_inv_def)
    show ?thesis
      using 1 M t inv ok
      by (simp add: LeakyBucket_updateState_def Let_def clock_ok_def d_def time_library_okD(5,8)
          total_zero same_settings_def lb_inv_def)
  next
    case 2
    then show ?thesis
      using update_within [OF ok inv t] lb_inv_drain [OF inv, of t]
      by (simp add: d_def same_settings_def)
  next
    case 3
    note up = update_beyond [OF ok inv t 3 [unfolded d_def]]
    show ?thesis using up inv by (auto simp: same_settings_def lb_inv_def)
  qed
qed

text \<open>The check for overflow reads the sum of the units without wrap-around.\<close>

lemma overflow_test:
  fixes a c k :: u64
  assumes "unat a + unat c < 2 ^ 64"
  shows "(1 > ullong_max - a - c \<or> a + c + 1 > k) \<longleftrightarrow> unat k \<le> unat a + unat c"
proof -
  have "unat (ullong_max - a) = 2 ^ 64 - 1 - unat a"
    using unat_sub [of a ullong_max] assms by (simp add: word_le_nat_alt)
  then have left: "unat (ullong_max - a - c) = 2 ^ 64 - 1 - unat a - unat c"
    using unat_sub [of c "ullong_max - a"] assms by (simp add: word_le_nat_alt)
  have sum: "unat (a + c) = unat a + unat c" using assms by (rule unat_add_u64)
  show ?thesis
  proof (cases "unat a + unat c = 2 ^ 64 - 1")
    case True
    have "1 > ullong_max - a - c" using left True by (simp add: word_less_nat_alt)
    moreover have "unat k \<le> unat a + unat c" using unat_u64_less [of k] True by simp
    ultimately show ?thesis by simp
  next
    case False
    then have "\<not> 1 > ullong_max - a - c" using left assms by (simp add: word_less_nat_alt)
    moreover have "unat (a + c + 1) = unat a + unat c + 1"
      using unat_add_u64 [of "a + c" 1] False assms by (simp add: sum)
    ultimately show ?thesis by (auto simp: word_less_nat_alt)
  qed
qed

lemma wouldOverflow_effect:
  assumes "time_library_ok L" "lb_inv L b" "clock_ok L t b"
  shows "\<exists>c. LeakyBucket_updateState L t b = Some c \<and> lb_inv L c \<and>
     LeakyBucket_wouldOverflow L t b =
       Some (unat (lb_capacity c) \<le> unat (lb_unitsInBucket c) + unat (lb_unitsReserved c), c)"
proof -
  obtain c where c: "LeakyBucket_updateState L t b = Some c" "lb_inv L c"
    using update_effect [OF assms] by blast
  have "unat (lb_unitsInBucket c) + unat (lb_unitsReserved c) < 2 ^ 64"
    using c(2) by (simp add: lb_inv_def)
  note full = overflow_test [OF this, of "lb_capacity c"]
  have "LeakyBucket_wouldOverflow L t b =
      Some (unat (lb_capacity c) \<le> unat (lb_unitsInBucket c) + unat (lb_unitsReserved c), c)"
    unfolding LeakyBucket_wouldOverflow_def c(1) bind.bind_lunit full ..
  then show ?thesis using c by blast
qed

text \<open>The two guards against wrap-around say that the sum of three counters fits.\<close>

lemma room_guard:
  fixes a c n :: u64
  assumes "unat a + unat c + unat n < 2 ^ 64"
  shows "n \<le> ullong_max - a" and "c \<le> ullong_max - a - n"
proof -
  have a: "unat (ullong_max - a) = 2 ^ 64 - 1 - unat a"
    using unat_sub [of a ullong_max] assms by (simp add: word_le_nat_alt)
  show n: "n \<le> ullong_max - a" unfolding word_le_nat_alt a using assms by linarith
  have "unat (ullong_max - a - n) = 2 ^ 64 - 1 - unat a - unat n"
    using unat_sub [OF n] by (simp only: a)
  then show "c \<le> ullong_max - a - n" using assms by (simp add: word_le_nat_alt)
qed

lemma submit_effect:
  assumes "lb_inv L b"
    and "unat (lb_unitsInBucket b) + unat (lb_unitsReserved b) + unat n < 2 ^ 64"
  shows "\<exists>c. LeakyBucket_submit n b = Some c \<and> lb_inv L c \<and> same_settings b c \<and>
     lb_lastUpdateTime c = lb_lastUpdateTime b \<and>
     lb_fractionalUnitDrainedInNanoUnits c = lb_fractionalUnitDrainedInNanoUnits b \<and>
     unat (lb_unitsInBucket c) = unat (lb_unitsInBucket b) + unat n"
proof -
  have "unat (lb_unitsInBucket b + n) = unat (lb_unitsInBucket b) + unat n"
    using assms(2) by (simp add: unat_add_u64)
  then show ?thesis
    using assms room_guard [OF assms(2)]
    by (simp add: LeakyBucket_submit_def lb_inv_def same_settings_def)
qed

subsection \<open>The rate that a bucket enforces\<close>

text \<open>
  The recommended use of a bucket: at each point in time the client asks whether one more unit
  would overflow the bucket and, if not, consumes a number of units and submits them. The result
  is the number of units consumed.
\<close>

fun use_bucket ::
  "'t time_library \<Rightarrow> ('t \<times> u64) list \<Rightarrow> 't LeakyBucket \<Rightarrow> (nat \<times> 't LeakyBucket) option" where
  "use_bucket L [] b = Some (0, b)"
| "use_bucket L ((t, n) # xs) b =
     do { (full, b) \<leftarrow> LeakyBucket_wouldOverflow L t b;
          b \<leftarrow> (if full then Some b else LeakyBucket_submit n b);
          (s, b) \<leftarrow> use_bucket L xs b;
          Some ((if full then 0 else unat n) + s, b) }"

text \<open>
  One use: the units consumed are paid for by units added to the bucket and by what drained, and
  units are consumed only if the bucket had room, so that afterwards it holds less than its
  capacity and one portion.
\<close>

definition paid :: "'t time_library \<Rightarrow> nat \<Rightarrow> 't LeakyBucket \<Rightarrow> 't LeakyBucket \<Rightarrow> bool" where
  "paid L s b c \<longleftrightarrow>
     (s + unat (lb_unitsInBucket b)) * 1000000000 + unat (lb_fractionalUnitDrainedInNanoUnits c) \<le>
     unat (lb_unitsInBucket c) * 1000000000 + unat (lb_fractionalUnitDrainedInNanoUnits b) +
     unat (lb_drainRate b) * nat (total_ns L (lb_lastUpdateTime c) - total_ns L (lb_lastUpdateTime b))"

lemma paid_update:
  assumes "unat (lb_unitsInBucket c) = unat (lb_unitsInBucket b) - nanounits L t b div 1000000000"
    and "unat (lb_fractionalUnitDrainedInNanoUnits c) \<le> nanounits L t b mod 1000000000"
    and "lb_lastUpdateTime c = t"
  shows "paid L 0 b c"
proof -
  define k m where "k = nanounits L t b div 1000000000" and "m = nanounits L t b mod 1000000000"
  have n: "nanounits L t b = k * 1000000000 + m" by (simp add: k_def m_def)
  have "unat (lb_unitsInBucket b) \<le> unat (lb_unitsInBucket c) + k"
    using assms(1) by (simp add: k_def)
  moreover have "unat (lb_fractionalUnitDrainedInNanoUnits c) \<le> m"
    using assms(2) by (simp add: m_def)
  ultimately have "unat (lb_unitsInBucket b) * 1000000000 +
      unat (lb_fractionalUnitDrainedInNanoUnits c) \<le>
      unat (lb_unitsInBucket c) * 1000000000 + nanounits L t b"
    unfolding n by linarith
  then show ?thesis using assms(3) by (simp add: paid_def nanounits_def)
qed

lemma paid_trans:
  assumes "paid L s b c" "paid L s' c d" "lb_drainRate c = lb_drainRate b"
    and "total_ns L (lb_lastUpdateTime b) \<le> total_ns L (lb_lastUpdateTime c)"
    and "total_ns L (lb_lastUpdateTime c) \<le> total_ns L (lb_lastUpdateTime d)"
  shows "paid L (s + s') b d"
proof -
  have "nat (total_ns L (lb_lastUpdateTime d) - total_ns L (lb_lastUpdateTime b)) =
      nat (total_ns L (lb_lastUpdateTime c) - total_ns L (lb_lastUpdateTime b)) +
      nat (total_ns L (lb_lastUpdateTime d) - total_ns L (lb_lastUpdateTime c))"
    using assms(4,5) by (simp add: nat_diff_distrib')
  then show ?thesis using assms(1-3) unfolding paid_def by (simp add: algebra_simps)
qed

definition pays :: "'t time_library \<Rightarrow> nat \<Rightarrow> nat \<Rightarrow> 't LeakyBucket \<Rightarrow> 't LeakyBucket \<Rightarrow> bool" where
  "pays L m s b c \<longleftrightarrow>
     lb_inv L c \<and> same_settings b c \<and> paid L s b c \<and>
     total_ns L (lb_lastUpdateTime b) \<le> total_ns L (lb_lastUpdateTime c) \<and>
     (s = 0 \<or> unat (lb_unitsInBucket c) < unat (lb_capacity b) + m) \<and>
     (unat (lb_unitsInBucket b) < unat (lb_capacity b) + m \<longrightarrow>
      unat (lb_unitsInBucket c) < unat (lb_capacity b) + m)"

lemma pays_refl: "lb_inv L b \<Longrightarrow> pays L m 0 b b"
  by (simp add: pays_def same_settings_def paid_def)

lemma pays_trans: "pays L m s b c \<Longrightarrow> pays L m s' c d \<Longrightarrow> pays L m (s + s') b d"
  using paid_trans [of L s b c s' d] by (auto simp: pays_def same_settings_def)

lemma pays_inv: "pays L m s b c \<Longrightarrow> lb_inv L c"
  by (simp add: pays_def)

lemma pays_ask:
  assumes ok: "time_library_ok L" and inv: "lb_inv L b" and t: "clock_ok L t b"
    and le: "total_ns L (lb_lastUpdateTime b) \<le> total_ns L t"
  shows "\<exists>d. LeakyBucket_wouldOverflow L t b =
      Some (unat (lb_capacity d) \<le> unat (lb_unitsInBucket d) + unat (lb_unitsReserved d), d) \<and>
    pays L m 0 b d \<and> lb_lastUpdateTime d = t"
proof -
  obtain d where d: "LeakyBucket_updateState L t b = Some d" "lb_inv L d" "same_settings b d"
    "lb_lastUpdateTime d = t"
    "unat (lb_unitsInBucket d) = unat (lb_unitsInBucket b) - nanounits L t b div 1000000000"
    "unat (lb_fractionalUnitDrainedInNanoUnits d) \<le> nanounits L t b mod 1000000000"
    using update_effect [OF ok inv t] le by auto
  have "paid L 0 b d" by (rule paid_update [OF d(5,6,4)])
  then have "pays L m 0 b d" using d le by (auto simp: pays_def)
  then show ?thesis using wouldOverflow_effect [OF ok inv t] d(1,4) by auto
qed

lemma pays_submit:
  assumes inv: "lb_inv L d"
    and room: "\<not> unat (lb_capacity d) \<le> unat (lb_unitsInBucket d) + unat (lb_unitsReserved d)"
    and n: "unat n \<le> m" "unat (lb_capacity d) + m \<le> 2 ^ 64"
  shows "\<exists>c. LeakyBucket_submit n d = Some c \<and> pays L m (unat n) d c \<and>
    lb_lastUpdateTime c = lb_lastUpdateTime d"
proof -
  have "unat (lb_unitsInBucket d) + unat (lb_unitsReserved d) + unat n < 2 ^ 64"
    using room n by linarith
  then obtain c where c: "LeakyBucket_submit n d = Some c" "lb_inv L c" "same_settings d c"
    "lb_lastUpdateTime c = lb_lastUpdateTime d"
    "lb_fractionalUnitDrainedInNanoUnits c = lb_fractionalUnitDrainedInNanoUnits d"
    "unat (lb_unitsInBucket c) = unat (lb_unitsInBucket d) + unat n"
    using submit_effect [OF inv] by blast
  have "paid L (unat n) d c" using c(4-6) by (simp add: paid_def algebra_simps)
  moreover have "unat (lb_unitsInBucket c) < unat (lb_capacity d) + m" using room n c(6) by linarith
  ultimately show ?thesis using c by (auto simp: pays_def)
qed

text \<open>What has been consumed is bounded by what the bucket could hold and what has drained.\<close>

lemma pays_bound:
  assumes "pays L m s b c" "total_ns L (lb_lastUpdateTime c) \<le> T"
  shows "s \<le> unat (lb_capacity b) + m - 1 +
    (unat (lb_fractionalUnitDrainedInNanoUnits b) +
     unat (lb_drainRate b) * nat (T - total_ns L (lb_lastUpdateTime b))) div 1000000000"
proof (cases "s = 0")
  case False
  define D where "D = unat (lb_fractionalUnitDrainedInNanoUnits b) +
     unat (lb_drainRate b) * nat (T - total_ns L (lb_lastUpdateTime b))"
  have "unat (lb_drainRate b) *
      nat (total_ns L (lb_lastUpdateTime c) - total_ns L (lb_lastUpdateTime b)) \<le>
      unat (lb_drainRate b) * nat (T - total_ns L (lb_lastUpdateTime b))"
    using assms(2) by (intro mult_le_mono2) simp
  moreover have "paid L s b c" using assms(1) by (simp add: pays_def)
  ultimately have "s * 1000000000 \<le> unat (lb_unitsInBucket c) * 1000000000 + D"
    unfolding paid_def D_def add_mult_distrib by linarith
  moreover have "unat (lb_unitsInBucket c) \<le> unat (lb_capacity b) + m - 1"
    using assms(1) False by (auto simp: pays_def)
  moreover have "D = D div 1000000000 * 1000000000 + D mod 1000000000" by simp
  moreover have "D mod 1000000000 < 1000000000" by simp
  ultimately show ?thesis unfolding D_def by linarith
qed simp

lemma clock_ok_later:
  assumes "clock_ok L u b" "total_ns L (lb_lastUpdateTime b) \<le> total_ns L (lb_lastUpdateTime c)"
    and "total_ns L (lb_lastUpdateTime c) \<le> total_ns L u"
  shows "clock_ok L u c"
  using assms by (auto simp: clock_ok_def representable_def abs_if split: if_splits)

lemma use_bucket_pays:
  assumes ok: "time_library_ok L"
  shows "lb_inv L b \<Longrightarrow> sorted (map (total_ns L) (lb_lastUpdateTime b # map fst xs)) \<Longrightarrow>
    \<forall>x \<in> set xs. clock_ok L (fst x) b \<and> unat (snd x) \<le> m \<Longrightarrow>
    unat (lb_capacity b) + m \<le> 2 ^ 64 \<Longrightarrow>
    \<exists>s c. use_bucket L xs b = Some (s, c) \<and> pays L m s b c \<and>
      lb_lastUpdateTime c = last (lb_lastUpdateTime b # map fst xs)"
proof (induction xs arbitrary: b)
  case Nil
  then show ?case by (simp add: pays_refl)
next
  case (Cons x xs)
  obtain t n where x: "x = (t, n)" by force
  have le: "total_ns L (lb_lastUpdateTime b) \<le> total_ns L t" using Cons.prems(2) by (simp add: x)
  obtain full d where d: "LeakyBucket_wouldOverflow L t b = Some (full, d)" "pays L m 0 b d"
    "full = (unat (lb_capacity d) \<le> unat (lb_unitsInBucket d) + unat (lb_unitsReserved d))"
    "lb_lastUpdateTime d = t"
    using pays_ask [OF ok Cons.prems(1) _ le, of m] Cons.prems(3) by (auto simp: x)
  have cap: "lb_capacity d = lb_capacity b" using d(2) by (simp add: pays_def same_settings_def)
  obtain c where c: "(if full then Some d else LeakyBucket_submit n d) = Some c"
    "pays L m (if full then 0 else unat n) d c" "lb_lastUpdateTime c = t"
    using pays_submit [OF pays_inv [OF d(2)], of n m] pays_refl [OF pays_inv [OF d(2)]] d(3,4) cap
      Cons.prems(3,4) by (auto simp: x)
  have bc: "pays L m (if full then 0 else unat n) b c" using pays_trans [OF d(2) c(2)] by simp
  have "\<forall>y \<in> set xs. clock_ok L (fst y) c \<and> unat (snd y) \<le> m"
    using Cons.prems(2,3) clock_ok_later [of L _ b c] c(3) le by (auto simp: x)
  moreover have "sorted (map (total_ns L) (lb_lastUpdateTime c # map fst xs))"
    using Cons.prems(2) c(3) by (simp add: x)
  moreover have "unat (lb_capacity c) + m \<le> 2 ^ 64"
    using Cons.prems(4) bc by (simp add: pays_def same_settings_def)
  ultimately obtain s e where e: "use_bucket L xs c = Some (s, e)" "pays L m s c e"
    "lb_lastUpdateTime e = last (lb_lastUpdateTime c # map fst xs)"
    using Cons.IH [OF pays_inv [OF bc]] by blast
  show ?case using d(1) c(1,3) e pays_trans [OF bc e(2)] by (simp add: x)
qed

text \<open>
  Claim C20. A bucket enforces its rate: when a client asks before each use and uses at most \<open>m\<close>
  units at a time, at times that do not decrease, then no assertion fails, and over every such
  run, from every state of a bucket with a drain rate of at most \<open>2 ^ 23\<close> units per second, the units consumed are at most the capacity, one portion
  (less one unit) and the units that drain in the time the run takes at the drain rate.
\<close>

theorem leaky_bucket_rate:
  assumes ok: "time_library_ok L" and inv: "lb_inv L b"
    and "sorted (map (total_ns L) (lb_lastUpdateTime b # map fst xs))"
    and "\<forall>x \<in> set xs. clock_ok L (fst x) b \<and> unat (snd x) \<le> m"
    and "unat (lb_capacity b) + m \<le> 2 ^ 64"
  shows "\<exists>s c. use_bucket L xs b = Some (s, c) \<and>
     lb_lastUpdateTime c = last (lb_lastUpdateTime b # map fst xs) \<and>
     s \<le> unat (lb_capacity b) + m - 1 +
          (unat (lb_fractionalUnitDrainedInNanoUnits b) +
           unat (lb_drainRate b) *
           nat (total_ns L (lb_lastUpdateTime c) - total_ns L (lb_lastUpdateTime b))) div 1000000000"
proof -
  obtain s c where c: "use_bucket L xs b = Some (s, c)" "pays L m s b c"
    "lb_lastUpdateTime c = last (lb_lastUpdateTime b # map fst xs)"
    using use_bucket_pays [OF ok inv assms(3-5)] by blast
  then show ?thesis using pays_bound [OF c(2) order_refl] by blast
qed

text \<open>Intervals as integers, on which the library's promises can be checked.\<close>

definition int_time :: "int time_library" where
  "int_time =
     \<lparr>ti_make = \<lambda>s n. s * 1000000000 + n,
      ti_seconds = \<lambda>t. sgn t * (\<bar>t\<bar> div 1000000000),
      ti_nanoseconds = \<lambda>t. sgn t * (\<bar>t\<bar> mod 1000000000),
      ti_minus = (-), ti_addSeconds = \<lambda>s t. t + s * 1000000000, ti_addNanoseconds = \<lambda>n t. t + n,
      ti_less = (<), ti_equal = (=)\<rparr>"

lemma total_ns_int_time [simp]: "total_ns int_time t = t"
proof -
  have "sgn t * (\<bar>t\<bar> div 1000000000) * 1000000000 + sgn t * (\<bar>t\<bar> mod 1000000000) =
      sgn t * (\<bar>t\<bar> div 1000000000 * 1000000000 + \<bar>t\<bar> mod 1000000000)"
    by (simp only: distrib_left mult.assoc)
  also have "\<dots> = t" by (simp only: div_mult_mod_eq mult_sgn_abs)
  finally show ?thesis by (simp add: total_ns_def int_time_def)
qed

lemma int_time_ok [simp]: "time_library_ok int_time"
  unfolding time_library_ok_def total_ns_int_time
  by (auto simp: int_time_def sgn_if abs_if)

lemma ti_seconds_int_time [simp]: "ti_seconds int_time t = sgn t * (\<bar>t\<bar> div 1000000000)"
  by (simp add: int_time_def)

definition sample_bucket :: "int LeakyBucket" where
  "sample_bucket =
     \<lparr>lb_drainRate = 1000, lb_capacity = 100, lb_unitsReserved = 0, lb_unitsInBucket = 0,
      lb_fractionalUnitDrainedInNanoUnits = 0, lb_lastUpdateTime = 0,
      lb_maxUpdateInterval = 18446744073709551615000000, lb_statSubmittedUnits = 0,
      lb_statSubmittedUnitsAtLastUpdate = 0, lb_statisticsCollectionStartTime = 0\<rparr>"

lemma sample_max: "maxUpdateInterval int_time 1000 = Some 18446744073709551615000000"
proof -
  obtain t where "calculateDrainTime int_time ullong_max 1000 False = Some t"
    "total_ns int_time t = int (unat ullong_max * 1000000000 div unat (1000 :: u64))"
    using calculateDrainTime_total [of int_time "1000 :: u64" ullong_max False] by auto
  then show ?thesis by (simp add: maxUpdateInterval_def)
qed

lemma sample_inv: "lb_inv int_time sample_bucket"
  by (simp add: lb_inv_def sample_bucket_def sample_max)

theorem leaky_bucket_rate_witness:
  "\<exists>s c. use_bucket int_time [(0, 60), (10, 60), (20, 60), (50000000, 60)] sample_bucket = Some (s, c) \<and>
     s \<le> 100 + 60 - 1 + 50"
proof -
  have "clock_ok int_time 0 sample_bucket" "clock_ok int_time 10 sample_bucket"
    "clock_ok int_time 20 sample_bucket" "clock_ok int_time 50000000 sample_bucket"
    by (simp_all add: clock_ok_def sample_bucket_def representable_def llong_min_def)
  then show ?thesis
    using leaky_bucket_rate [OF int_time_ok sample_inv,
        of "[(0, 60), (10, 60), (20, 60), (50000000, 60)]" 60]
    by (auto simp: sample_bucket_def)
qed

text \<open>
  Updates do not drift: however the time between two points is cut into updates, the
  bucket ends in the same state, in every field, as with a single update at the end, while that
  time is within the largest update interval. No part of a unit is lost or drained twice.
\<close>

theorem leaky_bucket_update_split:
  assumes "time_library_ok L" "lb_inv L b"
    and "sorted (map (total_ns L) (lb_lastUpdateTime b # ts @ [t]))"
    and "\<forall>u \<in> set (ts @ [t]). clock_ok L u b"
    and "total_ns L t - total_ns L (lb_lastUpdateTime b) \<le> total_ns L (lb_maxUpdateInterval b)"
  shows "run_steps (LeakyBucket_updateState L) (ts @ [t]) b = LeakyBucket_updateState L t b \<and>
     LeakyBucket_updateState L t b \<noteq> None"
proof -
  have "run_steps (LeakyBucket_updateState L) (ts @ [t]) b = Some (drain L t b)"
    using update_split [OF assms(1) assms(2-5)] .
  moreover have "run_steps (LeakyBucket_updateState L) ([] @ [t]) b = Some (drain L t b)"
    using assms(3,4,5) by (intro update_split [OF assms(1) assms(2)]) (auto simp: sorted_append)
  ultimately show ?thesis by (auto simp: bind_eq_Some_iff)
qed

theorem leaky_bucket_update_split_witness:
  "run_steps (LeakyBucket_updateState int_time) [3, 333333, 7000001, 9999999999] sample_bucket =
   LeakyBucket_updateState int_time 9999999999 sample_bucket"
proof -
  have "clock_ok int_time 3 sample_bucket" "clock_ok int_time 333333 sample_bucket"
    "clock_ok int_time 7000001 sample_bucket" "clock_ok int_time 9999999999 sample_bucket"
    by (simp_all add: clock_ok_def sample_bucket_def representable_def llong_min_def)
  then show ?thesis
    using leaky_bucket_update_split [OF int_time_ok sample_inv, of "[3, 333333, 7000001]" 9999999999]
    by (simp add: sample_bucket_def)
qed

subsection \<open>The time to wait\<close>

lemma no_overflow_after:
  assumes ok: "time_library_ok L" and inv: "lb_inv L b" and u: "clock_ok L u b"
    and le: "total_ns L (lb_lastUpdateTime b) \<le> total_ns L u"
    and room: "unat (lb_unitsInBucket b) - nanounits L u b div 1000000000 + unat (lb_unitsReserved b)
                 < unat (lb_capacity b)"
  shows "\<exists>d. LeakyBucket_wouldOverflow L u b = Some (False, d)"
proof -
  obtain c where c: "LeakyBucket_updateState L u b = Some c" "same_settings b c"
    "unat (lb_unitsInBucket c) = unat (lb_unitsInBucket b) - nanounits L u b div 1000000000"
    using update_effect [OF ok inv u] le by auto
  then have "unat (lb_unitsInBucket c) + unat (lb_unitsReserved c) < unat (lb_capacity c)"
    using room by (simp add: same_settings_def)
  then show ?thesis using wouldOverflow_effect [OF ok inv u] c(1) by auto
qed

lemma no_overflow_unchanged:
  assumes ok: "time_library_ok L" and inv: "lb_inv L b" and u: "clock_ok L u b"
    and room: "unat (lb_unitsInBucket b) + unat (lb_unitsReserved b) < unat (lb_capacity b)"
  shows "\<exists>d. LeakyBucket_wouldOverflow L u b = Some (False, d)"
proof -
  obtain c where c: "LeakyBucket_updateState L u b = Some c" "same_settings b c"
    "unat (lb_unitsInBucket c) \<le> unat (lb_unitsInBucket b)"
    using update_effect [OF ok inv u] by (auto split: if_splits)
  then have "unat (lb_unitsInBucket c) + unat (lb_unitsReserved c) < unat (lb_capacity c)"
    using room by (simp add: same_settings_def)
  then show ?thesis using wouldOverflow_effect [OF ok inv u] c(1) by auto
qed

text \<open>The units over the capacity, and the interval in which they drain.\<close>

lemma backlog:
  fixes a c k :: u64
  assumes "unat a + unat c < 2 ^ 64" "unat k \<le> unat a + unat c" "0 < k"
  shows "unat (a + c - k + 1) = unat a + unat c - unat k + 1"
proof -
  have sum: "unat (a + c) = unat a + unat c" using assms(1) by (rule unat_add_u64)
  have diff: "unat (a + c - k) = unat a + unat c - unat k"
    using unat_sub [of k "a + c"] assms(2) by (simp add: sum word_le_nat_alt)
  have "unat k > 0" using assms(3) by (simp add: word_less_nat_alt)
  then show ?thesis using unat_add_u64 [of "a + c - k" 1] diff assms(1) by simp
qed

lemma drain_time_enough:
  fixes B R :: nat
  assumes "0 < R" "T = (B * 1000000000 + R - 1) div R"
  shows "B \<le> (f + R * T) div 1000000000"
proof -
  define k where "k = (B * 1000000000 + R - 1) mod R"
  have "B * 1000000000 + R - 1 = R * T + k" by (simp add: assms(2) k_def)
  moreover have "k \<le> R - 1" using assms(1) by (simp add: k_def less_Suc_eq_le [symmetric])
  ultimately have "B * 1000000000 \<le> f + R * T" using assms(1) by linarith
  then show ?thesis by (simp add: less_eq_div_iff_mult_less_eq)
qed

text \<open>
  The bucket that has just been updated and is full: the drain time of its backlog can be
  computed and is positive, and that much later the bucket has room.
\<close>

lemma wait_for_backlog:
  assumes ok: "time_library_ok L" and inv: "lb_inv L b"
    and full: "unat (lb_capacity b) \<le> unat (lb_unitsInBucket b) + unat (lb_unitsReserved b)"
    and res: "unat (lb_unitsReserved b) < unat (lb_capacity b)"
    and fits: "lb_drainRate b > 1 \<or>
               unat (lb_unitsInBucket b) + unat (lb_unitsReserved b) < 2 ^ 63"
  shows "\<exists>w. calculateDrainTime L (lb_unitsInBucket b + lb_unitsReserved b - lb_capacity b + 1)
               (lb_drainRate b) True = Some w \<and> 0 < total_ns L w \<and>
     (\<forall>u. clock_ok L u b \<longrightarrow> total_ns L u = total_ns L (lb_lastUpdateTime b) + total_ns L w \<longrightarrow>
          (\<exists>d. LeakyBucket_wouldOverflow L u b = Some (False, d)))"
proof -
  define B R where "B = lb_unitsInBucket b + lb_unitsReserved b - lb_capacity b + 1"
    and "R = unat (lb_drainRate b)"
  have r: "0 < R" "R \<le> 2 ^ 23" using inv by (simp_all add: lb_inv_def R_def)
  have cap: "0 < unat (lb_capacity b)" using inv by (simp add: lb_inv_def word_less_nat_alt)
  have B: "unat B = unat (lb_unitsInBucket b) + unat (lb_unitsReserved b) - unat (lb_capacity b) + 1"
    using backlog full inv by (simp add: B_def lb_inv_def)
  have "lb_drainRate b > 1 \<or> B \<le> llong_max"
    using fits cap full by (auto simp: word_le_nat_alt B)
  then obtain w where w: "calculateDrainTime L B (lb_drainRate b) True = Some w"
    "total_ns L w = int ((unat B * 1000000000 + R - 1) div R)"
    using calculateDrainTime_total [OF ok, of "lb_drainRate b" B True] r by (auto simp: R_def)
  have "R \<le> unat B * 1000000000 + R - 1" using B by simp
  then have pos: "0 < total_ns L w" using w(2) r(1) by (simp add: div_greater_zero_iff)
  have "\<exists>d. LeakyBucket_wouldOverflow L u b = Some (False, d)"
    if u: "clock_ok L u b" "total_ns L u = total_ns L (lb_lastUpdateTime b) + total_ns L w" for u
  proof (rule no_overflow_after [OF ok inv u(1)])
    show "total_ns L (lb_lastUpdateTime b) \<le> total_ns L u" using u(2) pos by simp
    have "unat B \<le> nanounits L u b div 1000000000"
      unfolding nanounits_def using drain_time_enough [OF r(1) refl, of "unat B"] u(2) w(2)
      by (simp add: R_def)
    then show "unat (lb_unitsInBucket b) - nanounits L u b div 1000000000 +
        unat (lb_unitsReserved b) < unat (lb_capacity b)"
      using B res full by linarith
  qed
  then show ?thesis using w(1) pos by (auto simp: B_def)
qed

text \<open>
  The time to submit is enough: while fewer units are reserved than the bucket holds,
  \<open>calculateTimeToSubmit\<close> returns an interval after which, if nothing else is submitted in
  between, one more unit does not overflow the bucket. (With a drain rate of one unit per second
  the units held must be below \<open>2\<^sup>6\<^sup>3\<close>, so that the interval can be represented.)
\<close>

theorem leaky_bucket_time_to_submit:
  assumes ok: "time_library_ok L" and inv: "lb_inv L b" and t: "clock_ok L now b"
    and res: "unat (lb_unitsReserved b) < unat (lb_capacity b)"
    and fits: "lb_drainRate b > 1 \<or>
               unat (lb_unitsInBucket b) + unat (lb_unitsReserved b) < 2 ^ 63"
  shows "\<exists>wait c. LeakyBucket_calculateTimeToSubmit L now b = Some (wait, c) \<and>
     0 \<le> total_ns L wait \<and>
     (\<forall>u. clock_ok L u c \<longrightarrow> total_ns L u = total_ns L now + total_ns L wait \<longrightarrow>
          (\<exists>d. LeakyBucket_wouldOverflow L u c = Some (False, d)))"
proof -
  obtain c where c: "LeakyBucket_updateState L now b = Some c" "lb_inv L c" "same_settings b c"
    "lb_lastUpdateTime c = now" "unat (lb_unitsInBucket c) \<le> unat (lb_unitsInBucket b)"
    using update_effect [OF ok inv t] by (auto split: if_splits)
  have used: "lb_unitsInBucket x + lb_unitsReserved x < lb_capacity x \<longleftrightarrow>
      unat (lb_unitsInBucket x) + unat (lb_unitsReserved x) < unat (lb_capacity x)"
    if "lb_inv L x" for x
    using that unat_add_u64 [of "lb_unitsInBucket x" "lb_unitsReserved x"]
    by (simp add: lb_inv_def word_less_nat_alt)
  consider "lb_unitsInBucket b + lb_unitsReserved b < lb_capacity b"
    | "\<not> lb_unitsInBucket b + lb_unitsReserved b < lb_capacity b"
      "lb_unitsInBucket c + lb_unitsReserved c < lb_capacity c"
    | "\<not> lb_unitsInBucket b + lb_unitsReserved b < lb_capacity b"
      "\<not> lb_unitsInBucket c + lb_unitsReserved c < lb_capacity c" by blast
  then show ?thesis
  proof cases
    case 1
    then show ?thesis
      using no_overflow_unchanged [OF ok inv] used [OF inv] total_zero [OF ok]
      by (simp add: LeakyBucket_calculateTimeToSubmit_def)
  next
    case 2
    then show ?thesis
      using no_overflow_unchanged [OF ok c(2)] used [OF c(2)] total_zero [OF ok] c(1)
      by (simp add: LeakyBucket_calculateTimeToSubmit_def)
  next
    case 3
    obtain w where w: "calculateDrainTime L
        (lb_unitsInBucket c + lb_unitsReserved c - lb_capacity c + 1) (lb_drainRate c) True = Some w"
      "0 < total_ns L w"
      "\<forall>u. clock_ok L u c \<longrightarrow> total_ns L u = total_ns L now + total_ns L w \<longrightarrow>
          (\<exists>d. LeakyBucket_wouldOverflow L u c = Some (False, d))"
      using wait_for_backlog [OF ok c(2)] 3(2) used [OF c(2)] c(3-5) res fits
      by (auto simp: same_settings_def not_less)
    then show ?thesis
      using 3 c(1) total_zero [OF ok]
      by (simp add: LeakyBucket_calculateTimeToSubmit_def Let_def time_library_okD(9) [OF ok])
  qed
qed

theorem leaky_bucket_time_to_submit_witness:
  "\<exists>wait c. LeakyBucket_calculateTimeToSubmit int_time 7000 (sample_bucket\<lparr>lb_unitsInBucket := 250\<rparr>) =
       Some (wait, c) \<and> 0 \<le> wait"
proof -
  have "lb_inv int_time (sample_bucket\<lparr>lb_unitsInBucket := 250\<rparr>)"
    using sample_inv by (simp add: lb_inv_def sample_bucket_def)
  then show ?thesis
    using leaky_bucket_time_to_submit
      [OF int_time_ok, of "sample_bucket\<lparr>lb_unitsInBucket := 250\<rparr>" 7000]
    by (auto simp: clock_ok_def sample_bucket_def representable_def llong_min_def)
qed

subsection \<open>Every operation keeps the invariant\<close>

datatype 't lb_op =
    UpdateState 't
  | WouldOverflow 't
  | CalculateTimeToSubmit 't
  | SetRateAndCapacity u64 u64
  | Submit u64
  | Reserve u64
  | SubmitReserved u64
  | CancelReserved u64
  | ResetStatistics
  | Reset 't
  | GetStatistics

fun lb_step :: "'t time_library \<Rightarrow> 't lb_op \<Rightarrow> 't LeakyBucket \<Rightarrow> 't LeakyBucket option" where
  "lb_step L (UpdateState t) b = LeakyBucket_updateState L t b"
| "lb_step L (WouldOverflow t) b = map_option snd (LeakyBucket_wouldOverflow L t b)"
| "lb_step L (CalculateTimeToSubmit t) b = map_option snd (LeakyBucket_calculateTimeToSubmit L t b)"
| "lb_step L (SetRateAndCapacity r k) b = LeakyBucket_setRateAndCapacity L r k b"
| "lb_step L (Submit n) b = LeakyBucket_submit n b"
| "lb_step L (Reserve n) b = LeakyBucket_reserve n b"
| "lb_step L (SubmitReserved n) b = LeakyBucket_submitReserved n b"
| "lb_step L (CancelReserved n) b = LeakyBucket_cancelReserved n b"
| "lb_step L ResetStatistics b = Some (LeakyBucket_resetStatistics b)"
| "lb_step L (Reset t) b = LeakyBucket_reset L t b"
| "lb_step L GetStatistics b = map_option (\<lambda>_. b) (LeakyBucket_getStatistics L b)"

text \<open>What the caller owes, as documented, and a drain rate for which the drain time is exact.\<close>

fun lb_permitted :: "'t time_library \<Rightarrow> 't lb_op \<Rightarrow> 't LeakyBucket \<Rightarrow> bool" where
  "lb_permitted L (UpdateState t) b = clock_ok L t b"
| "lb_permitted L (WouldOverflow t) b = clock_ok L t b"
| "lb_permitted L (CalculateTimeToSubmit t) b =
     (clock_ok L t b \<and>
      (lb_drainRate b > 1 \<or> unat (lb_unitsInBucket b) + unat (lb_unitsReserved b) < 2 ^ 63))"
| "lb_permitted L (SetRateAndCapacity r k) b = (0 < unat r \<and> unat r \<le> 2 ^ 23 \<and> 0 < k)"
| "lb_permitted L (Submit n) b =
     (unat (lb_unitsInBucket b) + unat (lb_unitsReserved b) + unat n < 2 ^ 64)"
| "lb_permitted L (Reserve n) b =
     (unat (lb_unitsInBucket b) + unat (lb_unitsReserved b) + unat n < 2 ^ 64)"
| "lb_permitted L (SubmitReserved n) b = (n \<le> lb_unitsReserved b)"
| "lb_permitted L (CancelReserved n) b = (n \<le> lb_unitsReserved b)"
| "lb_permitted L ResetStatistics b = True"
| "lb_permitted L (Reset t) b = (ti_seconds L t \<noteq> llong_min)"
| "lb_permitted L GetStatistics b =
     (total_ns L (lb_lastUpdateTime b) - total_ns L (lb_statisticsCollectionStartTime b) \<le>
        total_ns L (lb_maxUpdateInterval b) \<and>
      representable (total_ns L (lb_lastUpdateTime b) -
        total_ns L (lb_statisticsCollectionStartTime b)))"

lemma timeToSubmit_inv:
  assumes ok: "time_library_ok L" and inv: "lb_inv L b" and t: "clock_ok L t b"
    and fits: "lb_drainRate b > 1 \<or>
               unat (lb_unitsInBucket b) + unat (lb_unitsReserved b) < 2 ^ 63"
  shows "\<exists>w c. LeakyBucket_calculateTimeToSubmit L t b = Some (w, c) \<and> lb_inv L c \<and>
    lb_unitsReserved c = lb_unitsReserved b"
proof -
  obtain c where c: "LeakyBucket_updateState L t b = Some c" "lb_inv L c" "same_settings b c"
    "unat (lb_unitsInBucket c) \<le> unat (lb_unitsInBucket b)"
    using update_effect [OF ok inv t] by (auto split: if_splits)
  define B where "B = lb_unitsInBucket c + lb_unitsReserved c - lb_capacity c + 1"
  have "\<exists>w. calculateDrainTime L B (lb_drainRate c) True = Some w"
    if full: "\<not> lb_unitsInBucket c + lb_unitsReserved c < lb_capacity c"
  proof -
    have sum: "unat (lb_unitsInBucket c) + unat (lb_unitsReserved c) < 2 ^ 64" "0 < lb_capacity c"
      using c(2) by (simp_all add: lb_inv_def)
    have le: "unat (lb_capacity c) \<le> unat (lb_unitsInBucket c) + unat (lb_unitsReserved c)"
      using full unat_add_u64 [OF sum(1)] by (simp add: word_less_nat_alt)
    have "0 < unat (lb_capacity c)" using sum(2) by (simp add: word_less_nat_alt)
    then have "lb_drainRate c > 1 \<or> B \<le> llong_max"
      using fits c(3,4) backlog [OF sum(1) le sum(2)] le
      by (auto simp: B_def same_settings_def word_le_nat_alt)
    then show ?thesis
      using calculateDrainTime_total [OF ok, of "lb_drainRate c" B True] c(2)
      by (auto simp: lb_inv_def)
  qed
  then show ?thesis
    using c inv by (auto simp: LeakyBucket_calculateTimeToSubmit_def Let_def same_settings_def B_def)
qed

lemma getStatistics_defined:
  assumes ok: "time_library_ok L" and inv: "lb_inv L b" and p: "lb_permitted L GetStatistics b"
  shows "\<exists>u v. LeakyBucket_getStatistics L b = Some (u, v)"
proof -
  let ?i = "ti_minus L (lb_lastUpdateTime b) (lb_statisticsCollectionStartTime b)"
  let ?r = "lb_drainRate b" and ?m = "lb_maxUpdateInterval b"
  have r: "0 < unat ?r" "unat ?r \<le> 2 ^ 23" using inv by (simp_all add: lb_inv_def)
  have i: "0 \<le> total_ns L ?i" "total_ns L ?i \<le> total_ns L ?m"
    using p inv ok by (simp_all add: time_library_okD(5) lb_inv_def)
  have "unat ?r * nat (total_ns L ?m) \<le> (2 ^ 64 - 1) * 1000000000"
    using maxUpdateInterval_total [OF ok r] inv by (auto simp: lb_inv_def)
  moreover have "unat ?r * nat (total_ns L ?i) \<le> unat ?r * nat (total_ns L ?m)"
    using i by (intro mult_left_mono) simp_all
  ultimately have "unat ?r * nat (total_ns L ?i) \<le> (2 ^ 64 - 1) * 1000000000"
    by (rule order_trans [rotated])
  then have "unat ?r * nat (total_ns L ?i) < 2 ^ 64 * 1000000000" by (rule le_less_trans) simp
  moreover have "?r \<noteq> 0" using r(1) by auto
  ultimately obtain u v where "calculateNumberOfUnitsToDrain L 0 ?r ?i = Some (u, v)"
    using units_to_drain [OF ok _ _ i(1), of ?r 0] by auto
  then show ?thesis by (simp add: LeakyBucket_getStatistics_def Let_def)
qed

lemma reserve_effect:
  assumes "lb_inv L b"
    and "unat (lb_unitsInBucket b) + unat (lb_unitsReserved b) + unat n < 2 ^ 64"
  shows "\<exists>c. LeakyBucket_reserve n b = Some c \<and> lb_inv L c \<and>
    lb_unitsReserved c = lb_unitsReserved b + n"
proof -
  have g: "unat (lb_unitsReserved b) + unat (lb_unitsInBucket b) + unat n < 2 ^ 64"
    using assms(2) by simp
  then have "unat (lb_unitsReserved b + n) = unat (lb_unitsReserved b) + unat n"
    by (simp add: unat_add_u64)
  then show ?thesis
    using assms room_guard [OF g] by (simp add: LeakyBucket_reserve_def lb_inv_def)
qed

lemma reserved_less:
  assumes "lb_inv L b" "n \<le> lb_unitsReserved b"
  shows "lb_inv L (b\<lparr>lb_unitsReserved := lb_unitsReserved b - n\<rparr>)"
    and "unat (lb_unitsInBucket b) + unat (lb_unitsReserved b - n) + unat n < 2 ^ 64"
proof -
  have "unat (lb_unitsReserved b - n) = unat (lb_unitsReserved b) - unat n"
    using assms(2) by (rule unat_sub)
  moreover have "unat n \<le> unat (lb_unitsReserved b)" using assms(2) by (simp add: word_le_nat_alt)
  moreover have "unat (lb_unitsInBucket b) + unat (lb_unitsReserved b) < 2 ^ 64"
    using assms(1) by (simp add: lb_inv_def)
  ultimately show sum: "unat (lb_unitsInBucket b) + unat (lb_unitsReserved b - n) + unat n < 2 ^ 64"
    by linarith
  then have "unat (lb_unitsInBucket b) + unat (lb_unitsReserved b - n) < 2 ^ 64" by linarith
  then show "lb_inv L (b\<lparr>lb_unitsReserved := lb_unitsReserved b - n\<rparr>)"
    using assms(1) by (simp add: lb_inv_def)
qed

text \<open>How an operation changes the reservation, which does not depend on the clock.\<close>

fun reserve_change :: "'t lb_op \<Rightarrow> u64 \<Rightarrow> u64" where
  "reserve_change (Reserve n) r = r + n"
| "reserve_change (SubmitReserved n) r = r - n"
| "reserve_change (CancelReserved n) r = r - n"
| "reserve_change (Reset t) r = 0"
| "reserve_change _ r = r"

lemma lb_step_inv:
  assumes ok: "time_library_ok L" and inv: "lb_inv L b" and p: "lb_permitted L x b"
  shows "\<exists>c. lb_step L x b = Some c \<and> lb_inv L c \<and>
    lb_unitsReserved c = reserve_change x (lb_unitsReserved b)"
proof (cases x)
  case (UpdateState t)
  then show ?thesis using update_effect [OF ok inv, of t] p by (auto simp: same_settings_def)
next
  case (WouldOverflow t)
  then show ?thesis
    using wouldOverflow_effect [OF ok inv, of t] update_effect [OF ok inv, of t] p
    by (auto simp: same_settings_def)
next
  case (CalculateTimeToSubmit t)
  then show ?thesis using timeToSubmit_inv [OF ok inv, of t] p by auto
next
  case (SetRateAndCapacity r k)
  then have r: "0 < unat r" "unat r \<le> 2 ^ 23" "0 < k" using p by simp_all
  then have "0 < r" by (simp add: word_less_nat_alt)
  then show ?thesis
    using SetRateAndCapacity maxUpdateInterval_total [OF ok r(1,2)] r inv
    by (auto simp: LeakyBucket_setRateAndCapacity_def lb_inv_def)
next
  case (Submit n)
  then show ?thesis using submit_effect [OF inv, of n] p by (auto simp: same_settings_def)
next
  case (Reserve n)
  then show ?thesis using reserve_effect [OF inv, of n] p by auto
next
  case (SubmitReserved n)
  then have n: "n \<le> lb_unitsReserved b" using p by simp
  show ?thesis
    using SubmitReserved n submit_effect [OF reserved_less(1) [OF inv n], of n]
      reserved_less(2) [OF inv n]
    by (auto simp: LeakyBucket_submitReserved_def same_settings_def)
next
  case (CancelReserved n)
  then show ?thesis
    using p reserved_less(1) [OF inv, of n] by (auto simp: LeakyBucket_cancelReserved_def)
next
  case ResetStatistics
  then show ?thesis using inv by (simp add: LeakyBucket_resetStatistics_def lb_inv_def)
next
  case (Reset t)
  then show ?thesis
    using p inv by (auto simp: LeakyBucket_reset_def LeakyBucket_resetStatistics_def lb_inv_def)
next
  case GetStatistics
  then show ?thesis using getStatistics_defined [OF ok inv] p inv by fastforce
qed

lemma create_inv:
  assumes "time_library_ok L" "0 < unat r" "unat r \<le> 2 ^ 23" "0 < k" "ti_seconds L t \<noteq> llong_min"
  shows "\<exists>b. LeakyBucket_create L r k t = Some b \<and> lb_inv L b \<and> lb_unitsReserved b = 0"
proof -
  have "0 < r" using assms(2) by (simp add: word_less_nat_alt)
  then show ?thesis
    using maxUpdateInterval_total [OF assms(1-3)] assms(2-5)
    by (auto simp: LeakyBucket_create_def lb_inv_def)
qed

subsection \<open>Rounding at very high rates\<close>

lemma drain_nanoSecs_rounds_up:
  "drain_nanoSecs 9223372036854775807 9223372036854775808 = 1000000000"
proof -
  have f: "\<lfloor>9223372036854775807 / 1024 :: rat\<rfloor> = 9007199254740991"
    by (rule floor_unique) simp_all
  have "to_double 9223372036854775807 = 9223372036854775808"
    by (subst to_double_eqI [of 62 _ 1024]) (simp_all add: round_half_even_def f)
  moreover have "to_double 9223372036854775808 = 9223372036854775808"
    by (subst to_double_eqI [of 63 _ 2048]) (simp_all add: round_half_even_def)
  moreover have "to_double 9223372036854775808000000000 = 9223372036854775808000000000"
    by (subst to_double_eqI [of 92 _ "2 ^ 40"]) (simp_all add: round_half_even_def)
  ultimately show ?thesis
    using to_double_of_nat [of 1000000000] by (simp add: drain_nanoSecs_def)
qed

lemma seconds_of_total:
  assumes "time_library_ok L" "total_ns L t = int k * 1000000000"
  shows "ti_seconds L t = int k"
proof -
  have "0 \<le> total_ns L t" using assms(2) by simp
  note n = nat_total [OF assms(1) this]
  have "int k * 1000000000 = ti_seconds L t * 1000000000 + ti_nanoseconds L t"
    using assms(2) by (simp add: total_ns_def)
  then show ?thesis using n(1-3) by linarith
qed

lemma max_interval_high_rate:
  assumes "time_library_ok L"
  shows "\<exists>m. maxUpdateInterval L 9223372036854775808 = Some m \<and> total_ns L m = 2000000000"
proof -
  have "unat ((ullong_max :: u64) div 9223372036854775808) = 1"
    by (simp add: unat_div)
  then have s: "sint ((ullong_max :: u64) div 9223372036854775808) = 1" by (simp add: sint_u64)
  have m: "(ullong_max :: u64) mod 9223372036854775808 = 9223372036854775807"
    by (simp add: ullong_max_def)
  show ?thesis
    using assms
    by (simp add: maxUpdateInterval_def calculateDrainTime_def s m drain_nanoSecs_rounds_up
        time_library_okD(6,7) total_zero representable_def)
qed

text \<open>
  At very high rates the rounding of the drain time makes an update abort: a bucket
  with a drain rate of \<open>2\<^sup>6\<^sup>3\<close> units per second computes a largest update interval of two seconds,
  one nanosecond and more above the exact value, and an update exactly two seconds after its
  creation fails the assertion that the product of rate and seconds fits in 64 bits.
\<close>

theorem leaky_bucket_high_rate_aborts:
  assumes ok: "time_library_ok L" and "0 < capacity" "ti_seconds L t \<noteq> llong_min"
    and u: "ti_seconds L u \<noteq> llong_min" "total_ns L u = total_ns L t + 2000000000"
  shows "\<exists>b. LeakyBucket_create L 9223372036854775808 capacity t = Some b \<and>
     LeakyBucket_updateState L u b = None"
proof -
  obtain m where m: "maxUpdateInterval L 9223372036854775808 = Some m" "total_ns L m = 2000000000"
    using max_interval_high_rate [OF ok] by blast
  define delta where "delta = ti_minus L u t"
  have d: "total_ns L delta = 2000000000"
    using u(2) ok by (simp add: delta_def time_library_okD(5) representable_def)
  then have "ti_seconds L delta = 2" using seconds_of_total [OF ok, of delta 2] by simp
  moreover have "\<not> (2 :: u64) \<le> ullong_max div 9223372036854775808"
    by (simp add: word_le_nat_alt unat_div)
  ultimately have "calculateNumberOfUnitsToDrain L 0 9223372036854775808 delta = None"
    by (simp add: calculateNumberOfUnitsToDrain_def)
  then show ?thesis
    using assms m d
    by (simp add: LeakyBucket_create_def LeakyBucket_updateState_def Let_def
        time_library_okD(8) total_zero flip: delta_def)
qed

theorem leaky_bucket_high_rate_aborts_witness:
  "\<exists>b. LeakyBucket_create int_time 9223372036854775808 5 0 = Some b \<and>
     LeakyBucket_updateState int_time 2000000000 b = None"
  using leaky_bucket_high_rate_aborts [OF int_time_ok, of 5 0 2000000000]
  by (simp add: llong_min_def)

end
