(* ===== verification/Rate_Limiter.thy ===== *)
theory Rate_Limiter
  imports Leaky_Bucket
begin

section \<open>Rate limiters\<close>

text \<open>
  This theory models \<open>ntcs::RateLimiter\<close> (\<open>ntcs_ratelimiter.h\<close> and \<open>.cpp\<close>), which drives two leaky
  buckets, one for the peak and one for the sustained rate. The spin lock makes every operation
  atomic and is left out.
\<close>

record 't RateLimiter =
  rl_peakRateBucket :: "'t LeakyBucket"
  rl_sustainedRateBucket :: "'t LeakyBucket"

text \<open>
  \<open>window <= drain time of the largest number of units\<close>, rounded up, unless the limit is 1: the
  check that \<open>setRateLimits\<close> and \<open>supportsExactly\<close> make before they compute a capacity.
\<close>

definition windowFits :: "'t time_library \<Rightarrow> u64 \<Rightarrow> 't \<Rightarrow> bool option" where
  "windowFits L limit window =
     (if limit = 1 then Some True
      else map_option (ti_leq L window) (calculateDrainTime L ullong_max limit True))"

definition supportsExactly :: "'t time_library \<Rightarrow> u64 \<Rightarrow> 't \<Rightarrow> bool option" where
  "supportsExactly L limit window =
     (if \<not> (limit > 0 \<and> ti_less L (ti_zero L) window) then Some False
      else
        do { fits \<leftarrow> windowFits L limit window;
             if \<not> fits then Some False
             else do { capacity \<leftarrow> calculateCapacity L limit window;
                       w \<leftarrow> calculateTimeWindow L limit capacity;
                       Some (ti_equal L window w) } })"

definition supportsRateLimitsExactly ::
  "'t time_library \<Rightarrow> u64 \<Rightarrow> 't \<Rightarrow> u64 \<Rightarrow> 't \<Rightarrow> bool option" where
  "supportsRateLimitsExactly L sustainedRateLimit sustainedRateWindow peakRateLimit peakRateWindow =
     do { s \<leftarrow> supportsExactly L sustainedRateLimit sustainedRateWindow;
          if \<not> s then Some False else supportsExactly L peakRateLimit peakRateWindow }"

definition setRateLimits ::
  "'t time_library \<Rightarrow> u64 \<Rightarrow> 't \<Rightarrow> u64 \<Rightarrow> 't \<Rightarrow> 't RateLimiter \<Rightarrow> 't RateLimiter option" where
  "setRateLimits L sustainedRateLimit sustainedRateWindow peakRateLimit peakRateWindow rl =
     do { bsls_assert (sustainedRateLimit > 0);
          bsls_assert (peakRateLimit > 0);
          bsls_assert (ti_less L (ti_zero L) sustainedRateWindow);
          bsls_assert (ti_less L (ti_zero L) peakRateWindow);
          pf \<leftarrow> windowFits L peakRateLimit peakRateWindow;
          bsls_assert pf;
          sf \<leftarrow> windowFits L sustainedRateLimit sustainedRateWindow;
          bsls_assert sf;
          capacity \<leftarrow> calculateCapacity L sustainedRateLimit sustainedRateWindow;
          s \<leftarrow> LeakyBucket_setRateAndCapacity L sustainedRateLimit capacity
                 (rl_sustainedRateBucket rl);
          capacity \<leftarrow> calculateCapacity L peakRateLimit peakRateWindow;
          p \<leftarrow> LeakyBucket_setRateAndCapacity L peakRateLimit capacity (rl_peakRateBucket rl);
          Some (rl\<lparr>rl_sustainedRateBucket := s, rl_peakRateBucket := p\<rparr>) }"

definition RateLimiter_create ::
  "'t time_library \<Rightarrow> u64 \<Rightarrow> 't \<Rightarrow> u64 \<Rightarrow> 't \<Rightarrow> 't \<Rightarrow> 't RateLimiter option" where
  "RateLimiter_create L sustainedRateLimit sustainedRateWindow peakRateLimit peakRateWindow
     currentTime =
     do { p \<leftarrow> LeakyBucket_create L 1 1 currentTime;
          s \<leftarrow> LeakyBucket_create L 1 1 currentTime;
          setRateLimits L sustainedRateLimit sustainedRateWindow peakRateLimit peakRateWindow
            \<lparr>rl_peakRateBucket = p, rl_sustainedRateBucket = s\<rparr> }"

definition unitsReservedLocked :: "'t RateLimiter \<Rightarrow> u64 option" where
  "unitsReservedLocked rl =
     do { bsls_assert (lb_unitsReserved (rl_sustainedRateBucket rl) =
                       lb_unitsReserved (rl_peakRateBucket rl));
          Some (lb_unitsReserved (rl_sustainedRateBucket rl)) }"

definition RateLimiter_updateState ::
  "'t time_library \<Rightarrow> 't \<Rightarrow> 't RateLimiter \<Rightarrow> 't RateLimiter option" where
  "RateLimiter_updateState L currentTime rl =
     do { p \<leftarrow> LeakyBucket_updateState L currentTime (rl_peakRateBucket rl);
          s \<leftarrow> LeakyBucket_updateState L currentTime (rl_sustainedRateBucket rl);
          Some (rl\<lparr>rl_peakRateBucket := p, rl_sustainedRateBucket := s\<rparr>) }"

definition RateLimiter_submit :: "u64 \<Rightarrow> 't RateLimiter \<Rightarrow> 't RateLimiter option" where
  "RateLimiter_submit numUnits rl =
     do { bsls_assert (numUnits \<le> ullong_max - lb_unitsInBucket (rl_sustainedRateBucket rl));
          r \<leftarrow> unitsReservedLocked rl;
          bsls_assert (r \<le> ullong_max - lb_unitsInBucket (rl_sustainedRateBucket rl) - numUnits);
          bsls_assert (numUnits \<le> ullong_max - lb_unitsInBucket (rl_peakRateBucket rl));
          bsls_assert (r \<le> ullong_max - lb_unitsInBucket (rl_peakRateBucket rl) - numUnits);
          p \<leftarrow> LeakyBucket_submit numUnits (rl_peakRateBucket rl);
          s \<leftarrow> LeakyBucket_submit numUnits (rl_sustainedRateBucket rl);
          Some (rl\<lparr>rl_peakRateBucket := p, rl_sustainedRateBucket := s\<rparr>) }"

definition RateLimiter_reserve :: "u64 \<Rightarrow> 't RateLimiter \<Rightarrow> 't RateLimiter option" where
  "RateLimiter_reserve numUnits rl =
     do { r \<leftarrow> unitsReservedLocked rl;
          bsls_assert (numUnits \<le> ullong_max - r);
          bsls_assert (lb_unitsInBucket (rl_sustainedRateBucket rl) \<le> ullong_max - r - numUnits);
          bsls_assert (lb_unitsInBucket (rl_peakRateBucket rl) \<le> ullong_max - r - numUnits);
          p \<leftarrow> LeakyBucket_reserve numUnits (rl_peakRateBucket rl);
          s \<leftarrow> LeakyBucket_reserve numUnits (rl_sustainedRateBucket rl);
          Some (rl\<lparr>rl_peakRateBucket := p, rl_sustainedRateBucket := s\<rparr>) }"

definition RateLimiter_submitReserved :: "u64 \<Rightarrow> 't RateLimiter \<Rightarrow> 't RateLimiter option" where
  "RateLimiter_submitReserved numUnits rl =
     do { r \<leftarrow> unitsReservedLocked rl;
          bsls_assert (numUnits \<le> r);
          p \<leftarrow> LeakyBucket_submitReserved numUnits (rl_peakRateBucket rl);
          s \<leftarrow> LeakyBucket_submitReserved numUnits (rl_sustainedRateBucket rl);
          Some (rl\<lparr>rl_peakRateBucket := p, rl_sustainedRateBucket := s\<rparr>) }"

definition RateLimiter_cancelReserved :: "u64 \<Rightarrow> 't RateLimiter \<Rightarrow> 't RateLimiter option" where
  "RateLimiter_cancelReserved numUnits rl =
     do { r \<leftarrow> unitsReservedLocked rl;
          bsls_assert (numUnits \<le> r);
          p \<leftarrow> LeakyBucket_cancelReserved numUnits (rl_peakRateBucket rl);
          s \<leftarrow> LeakyBucket_cancelReserved numUnits (rl_sustainedRateBucket rl);
          Some (rl\<lparr>rl_peakRateBucket := p, rl_sustainedRateBucket := s\<rparr>) }"

text \<open>\<open>||\<close>: the sustained rate bucket is not asked when the peak rate bucket would overflow.\<close>

definition wouldExceedBandwidth ::
  "'t time_library \<Rightarrow> 't \<Rightarrow> 't RateLimiter \<Rightarrow> (bool \<times> 't RateLimiter) option" where
  "wouldExceedBandwidth L currentTime rl =
     do { (x, p) \<leftarrow> LeakyBucket_wouldOverflow L currentTime (rl_peakRateBucket rl);
          let rl = rl\<lparr>rl_peakRateBucket := p\<rparr>;
          if x then Some (True, rl)
          else
            do { (y, s) \<leftarrow> LeakyBucket_wouldOverflow L currentTime (rl_sustainedRateBucket rl);
                 Some (y, rl\<lparr>rl_sustainedRateBucket := s\<rparr>) } }"

definition RateLimiter_calculateTimeToSubmit ::
  "'t time_library \<Rightarrow> 't \<Rightarrow> 't RateLimiter \<Rightarrow> ('t \<times> 't RateLimiter) option" where
  "RateLimiter_calculateTimeToSubmit L currentTime rl =
     do { (timeToSubmitPeak, p) \<leftarrow>
            LeakyBucket_calculateTimeToSubmit L currentTime (rl_peakRateBucket rl);
          (timeToSubmitSustained, s) \<leftarrow>
            LeakyBucket_calculateTimeToSubmit L currentTime (rl_sustainedRateBucket rl);
          Some (if ti_less L timeToSubmitPeak timeToSubmitSustained
                then timeToSubmitSustained else timeToSubmitPeak,
                rl\<lparr>rl_peakRateBucket := p, rl_sustainedRateBucket := s\<rparr>) }"

definition RateLimiter_resetStatistics :: "'t RateLimiter \<Rightarrow> 't RateLimiter" where
  "RateLimiter_resetStatistics rl =
     rl\<lparr>rl_sustainedRateBucket := LeakyBucket_resetStatistics (rl_sustainedRateBucket rl)\<rparr>"

definition RateLimiter_reset ::
  "'t time_library \<Rightarrow> 't \<Rightarrow> 't RateLimiter \<Rightarrow> 't RateLimiter option" where
  "RateLimiter_reset L currentTime rl =
     do { p \<leftarrow> LeakyBucket_reset L currentTime (rl_peakRateBucket rl);
          s \<leftarrow> LeakyBucket_reset L currentTime (rl_sustainedRateBucket rl);
          Some (rl\<lparr>rl_peakRateBucket := p, rl_sustainedRateBucket := s\<rparr>) }"

definition RateLimiter_getStatistics ::
  "'t time_library \<Rightarrow> 't RateLimiter \<Rightarrow> (u64 \<times> u64) option" where
  "RateLimiter_getStatistics L rl = LeakyBucket_getStatistics L (rl_sustainedRateBucket rl)"

definition peakRateLimit :: "'t RateLimiter \<Rightarrow> u64" where
  "peakRateLimit rl = lb_drainRate (rl_peakRateBucket rl)"

definition sustainedRateLimit :: "'t RateLimiter \<Rightarrow> u64" where
  "sustainedRateLimit rl = lb_drainRate (rl_sustainedRateBucket rl)"

definition peakRateWindow :: "'t time_library \<Rightarrow> 't RateLimiter \<Rightarrow> 't option" where
  "peakRateWindow L rl =
     calculateTimeWindow L (lb_drainRate (rl_peakRateBucket rl)) (lb_capacity (rl_peakRateBucket rl))"

definition sustainedRateWindow :: "'t time_library \<Rightarrow> 't RateLimiter \<Rightarrow> 't option" where
  "sustainedRateWindow L rl =
     calculateTimeWindow L (lb_drainRate (rl_sustainedRateBucket rl))
       (lb_capacity (rl_sustainedRateBucket rl))"

definition RateLimiter_statisticsCollectionStartTime :: "'t RateLimiter \<Rightarrow> 't" where
  "RateLimiter_statisticsCollectionStartTime rl =
     lb_statisticsCollectionStartTime (rl_sustainedRateBucket rl)"

definition RateLimiter_lastUpdateTime :: "'t time_library \<Rightarrow> 't RateLimiter \<Rightarrow> 't" where
  "RateLimiter_lastUpdateTime L rl =
     (if ti_less L (lb_lastUpdateTime (rl_sustainedRateBucket rl))
           (lb_lastUpdateTime (rl_peakRateBucket rl))
      then lb_lastUpdateTime (rl_peakRateBucket rl)
      else lb_lastUpdateTime (rl_sustainedRateBucket rl))"

definition RateLimiter_unitsReserved :: "'t RateLimiter \<Rightarrow> u64 option" where
  "RateLimiter_unitsReserved rl = unitsReservedLocked rl"

subsection \<open>Every operation keeps the buckets consistent\<close>

definition rl_inv :: "'t time_library \<Rightarrow> 't RateLimiter \<Rightarrow> bool" where
  "rl_inv L rl \<longleftrightarrow>
     lb_inv L (rl_peakRateBucket rl) \<and> lb_inv L (rl_sustainedRateBucket rl) \<and>
     lb_unitsReserved (rl_sustainedRateBucket rl) = lb_unitsReserved (rl_peakRateBucket rl)"

text \<open>Limits and windows that the code supports without overflow.\<close>

definition limit_ok :: "'t time_library \<Rightarrow> u64 \<Rightarrow> 't \<Rightarrow> bool" where
  "limit_ok L limit window \<longleftrightarrow>
     0 < unat limit \<and> unat limit \<le> 2 ^ 23 \<and> 0 < total_ns L window \<and>
     unat limit * nat (total_ns L window) \<le> (2 ^ 64 - 1) * 1000000000"

datatype 't rl_op =
    ForBoth "'t lb_op"
  | WouldExceedBandwidth 't
  | SetRateLimits u64 't u64 't
  | RLResetStatistics
  | RLGetStatistics

text \<open>
  \<open>ForBoth\<close> is one of the operations that the limiter passes on to both buckets; the operations
  of a bucket that the limiter does not offer in this form are not permitted.
\<close>

fun rl_step :: "'t time_library \<Rightarrow> 't rl_op \<Rightarrow> 't RateLimiter \<Rightarrow> 't RateLimiter option" where
  "rl_step L (ForBoth (UpdateState t)) rl = RateLimiter_updateState L t rl"
| "rl_step L (ForBoth (CalculateTimeToSubmit t)) rl =
     map_option snd (RateLimiter_calculateTimeToSubmit L t rl)"
| "rl_step L (ForBoth (Submit n)) rl = RateLimiter_submit n rl"
| "rl_step L (ForBoth (Reserve n)) rl = RateLimiter_reserve n rl"
| "rl_step L (ForBoth (SubmitReserved n)) rl = RateLimiter_submitReserved n rl"
| "rl_step L (ForBoth (CancelReserved n)) rl = RateLimiter_cancelReserved n rl"
| "rl_step L (ForBoth (Reset t)) rl = RateLimiter_reset L t rl"
| "rl_step L (WouldExceedBandwidth t) rl = map_option snd (wouldExceedBandwidth L t rl)"
| "rl_step L (SetRateLimits sl sw pl pw) rl = setRateLimits L sl sw pl pw rl"
| "rl_step L RLResetStatistics rl = Some (RateLimiter_resetStatistics rl)"
| "rl_step L RLGetStatistics rl = map_option (\<lambda>_. rl) (RateLimiter_getStatistics L rl)"
| "rl_step L _ rl = None"

fun offered :: "'t lb_op \<Rightarrow> bool" where
  "offered (WouldOverflow t) = False"
| "offered (SetRateAndCapacity r k) = False"
| "offered ResetStatistics = False"
| "offered GetStatistics = False"
| "offered _ = True"

fun rl_permitted :: "'t time_library \<Rightarrow> 't rl_op \<Rightarrow> 't RateLimiter \<Rightarrow> bool" where
  "rl_permitted L (ForBoth x) rl =
     (offered x \<and> lb_permitted L x (rl_peakRateBucket rl) \<and>
      lb_permitted L x (rl_sustainedRateBucket rl))"
| "rl_permitted L (WouldExceedBandwidth t) rl =
     (clock_ok L t (rl_peakRateBucket rl) \<and> clock_ok L t (rl_sustainedRateBucket rl))"
| "rl_permitted L (SetRateLimits sl sw pl pw) rl = (limit_ok L sl sw \<and> limit_ok L pl pw)"
| "rl_permitted L RLResetStatistics rl = True"
| "rl_permitted L RLGetStatistics rl = lb_permitted L GetStatistics (rl_sustainedRateBucket rl)"

lemma unitsReservedLocked_inv:
  "rl_inv L rl \<Longrightarrow> unitsReservedLocked rl = Some (lb_unitsReserved (rl_peakRateBucket rl))"
  by (simp add: unitsReservedLocked_def rl_inv_def)

text \<open>The operations that are passed on to both buckets.\<close>

definition both ::
  "'t time_library \<Rightarrow> 't lb_op \<Rightarrow> 't RateLimiter \<Rightarrow> 't RateLimiter option" where
  "both L x rl =
     do { p \<leftarrow> lb_step L x (rl_peakRateBucket rl);
          s \<leftarrow> lb_step L x (rl_sustainedRateBucket rl);
          Some (rl\<lparr>rl_peakRateBucket := p, rl_sustainedRateBucket := s\<rparr>) }"

lemma both_inv:
  assumes ok: "time_library_ok L" and inv: "rl_inv L rl"
    and p: "lb_permitted L x (rl_peakRateBucket rl)" "lb_permitted L x (rl_sustainedRateBucket rl)"
  shows "\<exists>rl'. both L x rl = Some rl' \<and> rl_inv L rl'"
proof -
  have i: "lb_inv L (rl_peakRateBucket rl)" "lb_inv L (rl_sustainedRateBucket rl)"
    using inv by (simp_all add: rl_inv_def)
  show ?thesis
    using lb_step_inv [OF ok i(1) p(1)] lb_step_inv [OF ok i(2) p(2)] inv
    by (auto simp: both_def rl_inv_def)
qed

lemma guards_pass:
  assumes inv: "rl_inv L rl"
    and p: "lb_permitted L x (rl_peakRateBucket rl)" "lb_permitted L x (rl_sustainedRateBucket rl)"
    and x: "offered x"
  shows "rl_step L (ForBoth x) rl = both L x rl"
proof (cases x)
  case (CalculateTimeToSubmit t)
  then show ?thesis
    by (auto simp: RateLimiter_calculateTimeToSubmit_def both_def split: Option.bind_split)
next
  case (Submit n)
  then show ?thesis
    using p room_guard [of "lb_unitsInBucket (rl_peakRateBucket rl)" _ n]
      room_guard [of "lb_unitsInBucket (rl_sustainedRateBucket rl)" _ n]
      unitsReservedLocked_inv [OF inv] inv
    by (simp add: RateLimiter_submit_def both_def rl_inv_def)
next
  case (Reserve n)
  then show ?thesis
    using p room_guard [of "lb_unitsReserved (rl_peakRateBucket rl)" _ n]
      unitsReservedLocked_inv [OF inv] inv
    by (simp add: RateLimiter_reserve_def both_def rl_inv_def add.commute)
qed (use x p unitsReservedLocked_inv [OF inv] in
  \<open>simp_all add: both_def RateLimiter_updateState_def RateLimiter_submitReserved_def
     RateLimiter_cancelReserved_def RateLimiter_reset_def\<close>)

text \<open>The drain time of the largest number of units, against which windows are compared.\<close>

lemma largest_drain_time:
  assumes ok: "time_library_ok L" and l: "0 < unat limit" "unat limit \<le> 2 ^ 23" and "limit \<noteq> 1"
  shows "\<exists>t. calculateDrainTime L ullong_max limit ceilFlag = Some t \<and>
    total_ns L t = int ((if ceilFlag then (2 ^ 64 - 1) * 1000000000 + unat limit - 1
                         else (2 ^ 64 - 1) * 1000000000) div unat limit)"
proof -
  have "unat limit \<noteq> 1" using assms(4) by (metis unat_1 word_unat_eq_iff)
  then have "limit > 1 \<or> ullong_max \<le> llong_max" using l(1) by (simp add: word_less_nat_alt)
  then show ?thesis
    using calculateDrainTime_total [OF ok l, of ullong_max ceilFlag] unfolding unat_constants by blast
qed

lemma limit_ok_bounds:
  assumes "limit_ok L limit window"
  shows "total_ns L window \<le> int ((2 ^ 64 - 1) * 1000000000 div unat limit)"
    and "total_ns L window \<le> int (((2 ^ 64 - 1) * 1000000000 + unat limit - 1) div unat limit)"
proof -
  define X :: nat where "X = (2 ^ 64 - 1) * 1000000000"
  have "nat (total_ns L window) * unat limit \<le> X" "0 < unat limit"
    using assms by (simp_all add: limit_ok_def X_def mult.commute)
  then have "nat (total_ns L window) \<le> X div unat limit"
    by (simp add: less_eq_div_iff_mult_less_eq)
  moreover have "X div unat limit \<le> (X + unat limit - 1) div unat limit"
    using \<open>0 < unat limit\<close> by (intro div_le_mono) simp
  ultimately show "total_ns L window \<le> int ((2 ^ 64 - 1) * 1000000000 div unat limit)"
    and "total_ns L window \<le> int (((2 ^ 64 - 1) * 1000000000 + unat limit - 1) div unat limit)"
    unfolding X_def [symmetric] by linarith+
qed

lemma windowFits_ok:
  assumes ok: "time_library_ok L" and l: "limit_ok L limit window"
  shows "windowFits L limit window = Some True"
proof (cases "limit = 1")
  case False
  have "0 < unat limit" "unat limit \<le> 2 ^ 23" using l by (simp_all add: limit_ok_def)
  then show ?thesis
    using largest_drain_time [OF ok, of limit True] limit_ok_bounds(2) [OF l] False
      time_library_okD(8) [OF ok]
    by (auto simp: windowFits_def not_less)
qed (simp add: windowFits_def)

lemma calculateCapacity_ok:
  assumes ok: "time_library_ok L" and l: "limit_ok L limit window"
  shows "\<exists>k. calculateCapacity L limit window = Some k \<and> 0 < k \<and>
    unat k = max 1 (unat limit * nat (total_ns L window) div 1000000000)"
proof -
  have p: "0 < unat limit" "unat limit \<le> 2 ^ 23" "0 \<le> total_ns L window" "limit \<noteq> 0"
    using l by (auto simp: limit_ok_def)
  have "unat limit * nat (total_ns L window) < 2 ^ 64 * 1000000000"
    using l by (simp add: limit_ok_def)
  then obtain u f where u: "calculateNumberOfUnitsToDrain L 0 limit window = Some (u, f)"
    "unat u = unat limit * nat (total_ns L window) div 1000000000"
    using units_to_drain [OF ok p(4) _ p(3), of 0] by auto
  have fits: "(if limit = 1 then Some True else map_option (ti_leq L window)
      (calculateDrainTime L ullong_max limit False)) = Some True"
    using largest_drain_time [OF ok p(1,2), of False] limit_ok_bounds(1) [OF l]
      time_library_okD(8) [OF ok]
    by (auto simp: not_less)
  define k where "k = (if 0 \<noteq> u then u else 1)"
  have c: "calculateCapacity L limit window = Some k"
    unfolding calculateCapacity_def fits by (simp add: u(1) k_def)
  have "unat k = max 1 (unat u)"
    using unat_gt_0 [of u] by (auto simp: k_def)
  moreover have "0 < k" using calculation by (simp add: word_less_nat_alt)
  ultimately show ?thesis using c u(2) by simp
qed

lemma setRateLimits_inv:
  assumes ok: "time_library_ok L" and inv: "rl_inv L rl"
    and l: "limit_ok L sl sw" "limit_ok L pl pw"
  shows "\<exists>rl'. setRateLimits L sl sw pl pw rl = Some rl' \<and> rl_inv L rl'"
proof -
  obtain ks kp where k: "calculateCapacity L sl sw = Some ks" "0 < ks"
    "calculateCapacity L pl pw = Some kp" "0 < kp"
    using calculateCapacity_ok [OF ok l(1)] calculateCapacity_ok [OF ok l(2)] by blast
  have i: "lb_inv L (rl_peakRateBucket rl)" "lb_inv L (rl_sustainedRateBucket rl)"
    using inv by (simp_all add: rl_inv_def)
  obtain s where s: "LeakyBucket_setRateAndCapacity L sl ks (rl_sustainedRateBucket rl) = Some s"
    "lb_inv L s" "lb_unitsReserved s = lb_unitsReserved (rl_sustainedRateBucket rl)"
    using lb_step_inv [OF ok i(2), of "SetRateAndCapacity sl ks"] l(1) k(2)
    by (auto simp: limit_ok_def)
  obtain p where p: "LeakyBucket_setRateAndCapacity L pl kp (rl_peakRateBucket rl) = Some p"
    "lb_inv L p" "lb_unitsReserved p = lb_unitsReserved (rl_peakRateBucket rl)"
    using lb_step_inv [OF ok i(1), of "SetRateAndCapacity pl kp"] l(2) k(4)
    by (auto simp: limit_ok_def)
  have "0 < sl" "0 < pl" "ti_less L (ti_zero L) sw" "ti_less L (ti_zero L) pw"
    using l total_zero [OF ok] time_library_okD(8) [OF ok]
    by (simp_all add: limit_ok_def word_less_nat_alt)
  then show ?thesis
    using k s p inv windowFits_ok [OF ok l(1)] windowFits_ok [OF ok l(2)]
    by (simp add: setRateLimits_def rl_inv_def)
qed

lemma rl_step_inv:
  assumes ok: "time_library_ok L" and inv: "rl_inv L rl" and p: "rl_permitted L x rl"
  shows "\<exists>rl'. rl_step L x rl = Some rl' \<and> rl_inv L rl'"
proof (cases x)
  case (ForBoth y)
  then show ?thesis using both_inv [OF ok inv] guards_pass [OF inv] p by simp
next
  case (WouldExceedBandwidth t)
  have i: "lb_inv L (rl_peakRateBucket rl)" "lb_inv L (rl_sustainedRateBucket rl)"
    using inv by (simp_all add: rl_inv_def)
  show ?thesis
    using WouldExceedBandwidth lb_step_inv [OF ok i(1), of "WouldOverflow t"]
      lb_step_inv [OF ok i(2), of "WouldOverflow t"] p inv
    by (auto simp: wouldExceedBandwidth_def rl_inv_def Let_def)
next
  case (SetRateLimits sl sw pl pw)
  then show ?thesis using setRateLimits_inv [OF ok inv] p by simp
next
  case RLResetStatistics
  then show ?thesis
    using lb_step_inv [OF ok, of "rl_sustainedRateBucket rl" ResetStatistics] inv
    by (simp add: RateLimiter_resetStatistics_def rl_inv_def)
next
  case RLGetStatistics
  then show ?thesis
    using lb_step_inv [OF ok, of "rl_sustainedRateBucket rl" GetStatistics] inv p
    by (auto simp: RateLimiter_getStatistics_def rl_inv_def)
qed

lemma RateLimiter_create_inv:
  assumes ok: "time_library_ok L" and t: "ti_seconds L t \<noteq> llong_min"
    and l: "limit_ok L sl sw" "limit_ok L pl pw"
  shows "\<exists>rl. RateLimiter_create L sl sw pl pw t = Some rl \<and> rl_inv L rl"
proof -
  obtain b where "LeakyBucket_create L 1 1 t = Some b" "lb_inv L b"
    using create_inv [OF ok, of 1 1 t] t by auto
  moreover from this have "rl_inv L \<lparr>rl_peakRateBucket = b, rl_sustainedRateBucket = b\<rparr>"
    by (simp add: rl_inv_def)
  ultimately show ?thesis
    using setRateLimits_inv [OF ok _ l] by (simp add: RateLimiter_create_def)
qed

text \<open>What the creator of a limiter owes.\<close>

definition rl_config_ok :: "'t time_library \<Rightarrow> u64 \<Rightarrow> 't \<Rightarrow> u64 \<Rightarrow> 't \<Rightarrow> 't \<Rightarrow> bool" where
  "rl_config_ok L sl sw pl pw t \<longleftrightarrow>
     time_library_ok L \<and> ti_seconds L t \<noteq> llong_min \<and> limit_ok L sl sw \<and> limit_ok L pl pw"

interpretation rate_limiter: guarded_component
  "the (RateLimiter_create L sl sw pl pw t)"
  "\<lambda>x rl. rl_config_ok L sl sw pl pw t \<and> rl_permitted L x rl"
  "rl_step L"
  "\<lambda>rl. rl_config_ok L sl sw pl pw t \<longrightarrow> rl_inv L rl"
  for L sl sw pl pw t
proof (unfold_locales, goal_cases)
  case 1
  then show ?case using RateLimiter_create_inv by (fastforce simp: rl_config_ok_def)
next
  case (2 rl x)
  then show ?case using rl_step_inv by (fastforce simp: rl_config_ok_def)
qed

text \<open>
  A rate limiter that is created with limits up to \<open>2\<^sup>2\<^sup>3\<close> units per second and windows that
  do not overflow can be used by any sequence of permitted operations: no assertion of the
  limiter or of its buckets fails, both buckets keep their invariant, and they always agree on
  the units reserved.
\<close>

theorem rate_limiter_run_safe:
  assumes "rl_config_ok L sl sw pl pw t"
  shows "\<exists>rl. RateLimiter_create L sl sw pl pw t = Some rl \<and>
     (\<forall>xs. all_permitted (rl_permitted L) (rl_step L) xs rl \<longrightarrow>
       (\<exists>rl'. run_steps (rl_step L) xs rl = Some rl' \<and>
          lb_inv L (rl_peakRateBucket rl') \<and> lb_inv L (rl_sustainedRateBucket rl') \<and>
          RateLimiter_unitsReserved rl' = Some (lb_unitsReserved (rl_peakRateBucket rl'))))"
proof -
  obtain rl where rl: "RateLimiter_create L sl sw pl pw t = Some rl"
    using RateLimiter_create_inv assms by (fastforce simp: rl_config_ok_def)
  have perm: "(\<lambda>x rl. rl_config_ok L sl sw pl pw t \<and> rl_permitted L x rl) = rl_permitted L"
    using assms by simp
  have "\<exists>rl'. run_steps (rl_step L) xs rl = Some rl' \<and> rl_inv L rl'"
    if "all_permitted (rl_permitted L) (rl_step L) xs rl" for xs
    using rate_limiter.run_init [of L sl sw pl pw t xs] that assms rl by (simp add: perm)
  then show ?thesis
    using rl unitsReservedLocked_inv by (fastforce simp: rl_inv_def RateLimiter_unitsReserved_def)
qed

lemma created_empty:
  assumes "RateLimiter_create L sl sw pl pw t = Some rl"
  shows "lb_unitsReserved (rl_peakRateBucket rl) = 0" "lb_unitsInBucket (rl_peakRateBucket rl) = 0"
    "lb_unitsReserved (rl_sustainedRateBucket rl) = 0"
    "lb_unitsInBucket (rl_sustainedRateBucket rl) = 0"
  using assms
  by (auto simp: RateLimiter_create_def LeakyBucket_create_def setRateLimits_def
      LeakyBucket_setRateAndCapacity_def bind_eq_Some_iff split: if_splits)

theorem rate_limiter_run_safe_witness:
  "\<exists>rl rl'. RateLimiter_create int_time 1000 500000000 2000 100000000 7 = Some rl \<and>
     run_steps (rl_step int_time)
       [ForBoth (Reserve 5), ForBoth (CancelReserved 3), RLResetStatistics] rl = Some rl' \<and>
     lb_inv int_time (rl_peakRateBucket rl')"
proof -
  let ?xs = "[ForBoth (Reserve 5), ForBoth (CancelReserved 3), RLResetStatistics]"
  have "rl_config_ok int_time 1000 500000000 2000 100000000 7"
    by (simp add: rl_config_ok_def limit_ok_def llong_min_def)
  then obtain rl where rl: "RateLimiter_create int_time 1000 500000000 2000 100000000 7 = Some rl"
    "all_permitted (rl_permitted int_time) (rl_step int_time) ?xs rl \<longrightarrow>
       (\<exists>rl'. run_steps (rl_step int_time) ?xs rl = Some rl' \<and>
          lb_inv int_time (rl_peakRateBucket rl'))"
    using rate_limiter_run_safe [of int_time 1000 500000000 2000 100000000 7] by blast
  have "all_permitted (rl_permitted int_time) (rl_step int_time) ?xs rl"
    by (simp add: created_empty [OF rl(1)] RateLimiter_reserve_def unitsReservedLocked_def
        LeakyBucket_reserve_def RateLimiter_cancelReserved_def LeakyBucket_cancelReserved_def
        ullong_max_def)
  then show ?thesis using rl by blast
qed

subsection \<open>The rates that a limiter enforces\<close>

text \<open>
  The use of a limiter, as of a bucket: at each point in time the client asks whether the
  bandwidth would be exceeded and, if not, consumes and submits a number of units.
\<close>

fun use_limiter ::
  "'t time_library \<Rightarrow> ('t \<times> u64) list \<Rightarrow> 't RateLimiter \<Rightarrow> (nat \<times> 't RateLimiter) option" where
  "use_limiter L [] rl = Some (0, rl)"
| "use_limiter L ((t, n) # xs) rl =
     do { (exceeds, rl) \<leftarrow> wouldExceedBandwidth L t rl;
          rl \<leftarrow> (if exceeds then Some rl else RateLimiter_submit n rl);
          (s, rl) \<leftarrow> use_limiter L xs rl;
          Some ((if exceeds then 0 else unat n) + s, rl) }"

definition both_pay :: "'t time_library \<Rightarrow> nat \<Rightarrow> nat \<Rightarrow> 't RateLimiter \<Rightarrow> 't RateLimiter \<Rightarrow> bool" where
  "both_pay L m s rl rl' \<longleftrightarrow>
     rl_inv L rl' \<and> pays L m s (rl_peakRateBucket rl) (rl_peakRateBucket rl') \<and>
     pays L m s (rl_sustainedRateBucket rl) (rl_sustainedRateBucket rl')"

lemma both_pay_trans: "both_pay L m s rl rl' \<Longrightarrow> both_pay L m s' rl' rl'' \<Longrightarrow> both_pay L m (s + s') rl rl''"
  by (auto simp: both_pay_def intro: pays_trans)

lemma both_pay_inv:
  assumes "rl_inv L rl" "pays L m s (rl_peakRateBucket rl) p" "pays L m s (rl_sustainedRateBucket rl) q"
  shows "both_pay L m s rl (rl\<lparr>rl_peakRateBucket := p, rl_sustainedRateBucket := q\<rparr>)"
  using assms by (auto simp: both_pay_def rl_inv_def pays_def same_settings_def)

text \<open>A time that both buckets accept and that is not before their last updates.\<close>

definition later :: "'t time_library \<Rightarrow> 't \<Rightarrow> 't RateLimiter \<Rightarrow> bool" where
  "later L t rl \<longleftrightarrow>
     (\<forall>b \<in> {rl_peakRateBucket rl, rl_sustainedRateBucket rl}.
        clock_ok L t b \<and> total_ns L (lb_lastUpdateTime b) \<le> total_ns L t)"

definition has_room :: "'t LeakyBucket \<Rightarrow> bool" where
  "has_room b \<longleftrightarrow> unat (lb_unitsInBucket b) + unat (lb_unitsReserved b) < unat (lb_capacity b)"

lemma ask_limiter:
  assumes ok: "time_library_ok L" and inv: "rl_inv L rl" and t: "later L t rl"
  shows "\<exists>x rl'. wouldExceedBandwidth L t rl = Some (x, rl') \<and> both_pay L m 0 rl rl' \<and>
    (\<not> x \<longrightarrow> has_room (rl_peakRateBucket rl') \<and> has_room (rl_sustainedRateBucket rl')) \<and>
    (\<forall>b \<in> {rl_peakRateBucket rl', rl_sustainedRateBucket rl'}.
       total_ns L (lb_lastUpdateTime b) \<le> total_ns L t)"
proof -
  let ?p = "rl_peakRateBucket rl" and ?q = "rl_sustainedRateBucket rl"
  have i: "lb_inv L ?p" "lb_inv L ?q" using inv by (simp_all add: rl_inv_def)
  have c: "clock_ok L t ?p" "total_ns L (lb_lastUpdateTime ?p) \<le> total_ns L t"
    "clock_ok L t ?q" "total_ns L (lb_lastUpdateTime ?q) \<le> total_ns L t"
    using t by (simp_all add: later_def)
  obtain p where p: "LeakyBucket_wouldOverflow L t ?p = Some (\<not> has_room p, p)"
    "pays L m 0 ?p p" "lb_lastUpdateTime p = t"
    using pays_ask [OF ok i(1) c(1,2), of m] by (auto simp: has_room_def not_less)
  obtain q where q: "LeakyBucket_wouldOverflow L t ?q = Some (\<not> has_room q, q)"
    "pays L m 0 ?q q" "lb_lastUpdateTime q = t"
    using pays_ask [OF ok i(2) c(3,4), of m] by (auto simp: has_room_def not_less)
  show ?thesis
  proof (cases "has_room p")
    case False
    then show ?thesis
      using p c(4) both_pay_inv [OF inv p(2) pays_refl [OF i(2)]]
      by (intro exI [of _ True] exI [of _ "rl\<lparr>rl_peakRateBucket := p\<rparr>"])
        (simp add: wouldExceedBandwidth_def Let_def)
  next
    case True
    then show ?thesis
      using p q both_pay_inv [OF inv p(2) q(2)] by (simp add: wouldExceedBandwidth_def Let_def)
  qed
qed

lemma submit_limiter:
  assumes inv: "rl_inv L rl"
    and room: "has_room (rl_peakRateBucket rl)" "has_room (rl_sustainedRateBucket rl)"
    and n: "unat n \<le> m" "unat (lb_capacity (rl_peakRateBucket rl)) + m \<le> 2 ^ 64"
      "unat (lb_capacity (rl_sustainedRateBucket rl)) + m \<le> 2 ^ 64"
  shows "\<exists>rl'. RateLimiter_submit n rl = Some rl' \<and> both_pay L m (unat n) rl rl' \<and>
    lb_lastUpdateTime (rl_peakRateBucket rl') = lb_lastUpdateTime (rl_peakRateBucket rl) \<and>
    lb_lastUpdateTime (rl_sustainedRateBucket rl') = lb_lastUpdateTime (rl_sustainedRateBucket rl)"
proof -
  let ?p = "rl_peakRateBucket rl" and ?q = "rl_sustainedRateBucket rl"
  have i: "lb_inv L ?p" "lb_inv L ?q" using inv by (simp_all add: rl_inv_def)
  obtain p where p: "LeakyBucket_submit n ?p = Some p" "pays L m (unat n) ?p p"
    "lb_lastUpdateTime p = lb_lastUpdateTime ?p"
    using pays_submit [OF i(1) _ n(1,2)] room(1) by (auto simp: has_room_def not_le)
  obtain q where q: "LeakyBucket_submit n ?q = Some q" "pays L m (unat n) ?q q"
    "lb_lastUpdateTime q = lb_lastUpdateTime ?q"
    using pays_submit [OF i(2) _ n(1,3)] room(2) by (auto simp: has_room_def not_le)
  have "RateLimiter_submit n rl = both L (Submit n) rl"
    using guards_pass [OF inv, of "Submit n"] room n by (simp add: has_room_def)
  then show ?thesis
    using p q both_pay_inv [OF inv p(2) q(2)] by (simp add: both_def)
qed

lemma use_limiter_pays:
  assumes ok: "time_library_ok L"
  shows "rl_inv L rl \<Longrightarrow> sorted (map (total_ns L) (map fst xs)) \<Longrightarrow>
    \<forall>x \<in> set xs. later L (fst x) rl \<and> unat (snd x) \<le> m \<Longrightarrow>
    unat (lb_capacity (rl_peakRateBucket rl)) + m \<le> 2 ^ 64 \<Longrightarrow>
    unat (lb_capacity (rl_sustainedRateBucket rl)) + m \<le> 2 ^ 64 \<Longrightarrow>
    (\<forall>b \<in> {rl_peakRateBucket rl, rl_sustainedRateBucket rl}.
       total_ns L (lb_lastUpdateTime b) \<le> T) \<Longrightarrow> (\<forall>x \<in> set xs. total_ns L (fst x) \<le> T) \<Longrightarrow>
    \<exists>s rl'. use_limiter L xs rl = Some (s, rl') \<and> both_pay L m s rl rl' \<and>
      (\<forall>b \<in> {rl_peakRateBucket rl', rl_sustainedRateBucket rl'}.
         total_ns L (lb_lastUpdateTime b) \<le> T)"
proof (induction xs arbitrary: rl)
  case Nil
  then show ?case by (simp add: both_pay_def rl_inv_def pays_refl)
next
  case (Cons x xs)
  obtain t n where x: "x = (t, n)" by force
  have t: "later L t rl" "total_ns L t \<le> T" using Cons.prems(3,7) by (simp_all add: x)
  obtain e rl1 where ask: "wouldExceedBandwidth L t rl = Some (e, rl1)" "both_pay L m 0 rl rl1"
    "\<not> e \<longrightarrow> has_room (rl_peakRateBucket rl1) \<and> has_room (rl_sustainedRateBucket rl1)"
    "\<forall>b \<in> {rl_peakRateBucket rl1, rl_sustainedRateBucket rl1}.
       total_ns L (lb_lastUpdateTime b) \<le> total_ns L t"
    using ask_limiter [OF ok Cons.prems(1) t(1), of m] by blast
  have caps: "lb_capacity (rl_peakRateBucket r) = lb_capacity (rl_peakRateBucket rl)"
    "lb_capacity (rl_sustainedRateBucket r) = lb_capacity (rl_sustainedRateBucket rl)"
    if "both_pay L m k rl r" for k r
    using that by (simp_all add: both_pay_def pays_def same_settings_def)
  have inv1: "rl_inv L rl1" using ask(2) by (simp add: both_pay_def)
  obtain rl2 where sub: "(if e then Some rl1 else RateLimiter_submit n rl1) = Some rl2"
    "both_pay L m (if e then 0 else unat n) rl1 rl2"
    "\<forall>b \<in> {rl_peakRateBucket rl2, rl_sustainedRateBucket rl2}.
       total_ns L (lb_lastUpdateTime b) \<le> total_ns L t"
    using submit_limiter [OF inv1, of n m] ask(3,4) Cons.prems(3-5) caps [OF ask(2)] inv1
    by (cases e) (auto simp: x both_pay_def rl_inv_def pays_refl)
  have bp: "both_pay L m (if e then 0 else unat n) rl rl2"
    using both_pay_trans [OF ask(2) sub(2)] by simp
  have "\<forall>y \<in> set xs. later L (fst y) rl2 \<and> unat (snd y) \<le> m"
  proof
    fix y assume y: "y \<in> set xs"
    then have le: "total_ns L t \<le> total_ns L (fst y)" using Cons.prems(2) by (auto simp: x)
    then show "later L (fst y) rl2 \<and> unat (snd y) \<le> m"
      using y Cons.prems(3) bp sub(3) clock_ok_later [of L "fst y"]
      by (auto simp: later_def both_pay_def pays_def dest: order_trans)
  qed
  moreover have "\<forall>b \<in> {rl_peakRateBucket rl2, rl_sustainedRateBucket rl2}.
      total_ns L (lb_lastUpdateTime b) \<le> T" using sub(3) t(2) by fastforce
  moreover have "rl_inv L rl2" using bp by (simp add: both_pay_def)
  ultimately obtain s rl3 where r: "use_limiter L xs rl2 = Some (s, rl3)" "both_pay L m s rl2 rl3"
    "\<forall>b \<in> {rl_peakRateBucket rl3, rl_sustainedRateBucket rl3}. total_ns L (lb_lastUpdateTime b) \<le> T"
    using Cons.IH [of rl2] Cons.prems(2,4,5,7) caps [OF bp] by (auto simp: x)
  show ?case using ask(1) sub(1) r both_pay_trans [OF bp r(2)] by (simp add: x)
qed

text \<open>
  Claim C29. A limiter enforces both of its rates, of at most \<open>2 ^ 23\<close> units per second each, at once: when a client asks
  \<open>wouldExceedBandwidth\<close> before each use and uses at most \<open>m\<close> units at a time, then over every such
  run up to the time \<open>T\<close> the units consumed are at most the capacity of the peak rate bucket, one
  portion and what drains from it in that time, and at most the same of the sustained rate
  bucket, although the sustained rate bucket is not updated when the peak rate is exceeded.
\<close>

theorem rate_limiter_rate:
  assumes ok: "time_library_ok L" and inv: "rl_inv L rl"
    and "sorted (map (total_ns L) (map fst xs @ [T]))"
    and "\<forall>x \<in> set xs. later L (fst x) rl \<and> unat (snd x) \<le> m" and "later L T rl"
    and "unat (lb_capacity (rl_peakRateBucket rl)) + m \<le> 2 ^ 64"
    and "unat (lb_capacity (rl_sustainedRateBucket rl)) + m \<le> 2 ^ 64"
  shows "\<exists>s rl'. use_limiter L xs rl = Some (s, rl') \<and>
    (\<forall>b \<in> {rl_peakRateBucket rl, rl_sustainedRateBucket rl}.
       s \<le> unat (lb_capacity b) + m - 1 +
         (unat (lb_fractionalUnitDrainedInNanoUnits b) +
          unat (lb_drainRate b) * nat (total_ns L T - total_ns L (lb_lastUpdateTime b)))
         div 1000000000)"
proof -
  have s: "sorted (map (total_ns L) (map fst xs))" "\<forall>x \<in> set xs. total_ns L (fst x) \<le> total_ns L T"
    using assms(3) by (auto simp: sorted_append)
  obtain s rl' where r: "use_limiter L xs rl = Some (s, rl')" "both_pay L m s rl rl'"
    "\<forall>b \<in> {rl_peakRateBucket rl', rl_sustainedRateBucket rl'}.
       total_ns L (lb_lastUpdateTime b) \<le> total_ns L T"
    using use_limiter_pays [OF ok inv s(1) assms(4,6,7), of "total_ns L T"] s(2) assms(5)
    by (auto simp: later_def)
  then show ?thesis using pays_bound by (fastforce simp: both_pay_def)
qed

definition sample_limiter :: "int RateLimiter" where
  "sample_limiter = \<lparr>rl_peakRateBucket = sample_bucket, rl_sustainedRateBucket = sample_bucket\<rparr>"

theorem rate_limiter_rate_witness:
  "\<exists>s rl'. use_limiter int_time [(0, 60), (10, 60), (20, 60)] sample_limiter = Some (s, rl') \<and>
    s \<le> 100 + 60 - 1 + 50"
proof -
  have "rl_inv int_time sample_limiter"
    using sample_inv by (simp add: rl_inv_def sample_limiter_def)
  moreover have "later int_time 0 sample_limiter" "later int_time 10 sample_limiter"
    "later int_time 20 sample_limiter" "later int_time 50000000 sample_limiter"
    by (simp_all add: later_def clock_ok_def sample_limiter_def sample_bucket_def representable_def
        llong_min_def)
  ultimately show ?thesis
    using rate_limiter_rate [OF int_time_ok, of sample_limiter "[(0, 60), (10, 60), (20, 60)]"
        50000000 60]
    by (auto simp: sample_limiter_def sample_bucket_def)
qed

subsection \<open>Windows at the edge of what is supported\<close>

text \<open>
  The limiter is documented to report whether it supports a limit and a window, but it
  aborts for some: \<open>supportsExactly\<close> accepts a window up to the largest drain time rounded up to a
  nanosecond, while \<open>calculateCapacity\<close>, which it then calls, asserts that the window is within
  the largest drain time rounded down. A window that lies between the two aborts the process.
\<close>

theorem supports_exactly_aborts:
  assumes ok: "time_library_ok L" and l: "1 < unat limit" "unat limit \<le> 2 ^ 23"
    and w: "int ((2 ^ 64 - 1) * 1000000000 div unat limit) < total_ns L window"
      "total_ns L window \<le> int (((2 ^ 64 - 1) * 1000000000 + unat limit - 1) div unat limit)"
  shows "supportsExactly L limit window = None"
proof -
  have p: "0 < unat limit" "limit \<noteq> 1" "0 < limit"
    using l(1) by (auto simp: word_less_nat_alt)
  have less: "ti_less L t u \<longleftrightarrow> total_ns L t < total_ns L u" for t u
    using time_library_okD(8) [OF ok] .
  have fits: "windowFits L limit window = Some True"
    using largest_drain_time [OF ok p(1) l(2) p(2), of True] w(2) p(2)
    by (auto simp: windowFits_def less not_less)
  have "calculateCapacity L limit window = None"
    using largest_drain_time [OF ok p(1) l(2) p(2), of False] w(1) p(2)
    by (auto simp: calculateCapacity_def less)
  moreover have "ti_less L (ti_zero L) window"
    unfolding less total_zero [OF ok] using w(1) by (rule le_less_trans [rotated]) simp
  ultimately show ?thesis using p(3) fits by (simp add: supportsExactly_def)
qed

theorem supports_exactly_aborts_witness:
  "supportsExactly int_time 7 2635249153387078802142857143 = None"
  using supports_exactly_aborts [OF int_time_ok, of 7 2635249153387078802142857143] by simp

end
