(* ===== verification/Stream_Socket.thy ===== *)
theory Stream_Socket
  imports Socket_State Flow_Control Shutdown_State Send_Queue Receive_Queue Zero_Copy Rate_Limiter
begin

section \<open>The state of a reactor stream socket, its flow control and its shutdown\<close>

text \<open>
  This theory models the part of \<open>ntcr::StreamSocket\<close> (\<open>ntcr_streamsocket.h\<close> and \<open>.cpp\<close>) that ties
  the components together: the state of a connected socket, the application and relaxation of
  flow control, and the shutdown sequence up to the close of the socket. The operations that
  send are in the theory \<open>Stream_Send\<close>.

  \<^item> The socket is connected and has neither a TLS session nor a compressor: the branches for a
    connection or an upgrade in progress, for \<open>d_encryption_sp\<close> and for \<open>d_sendDeflater_sp\<close> are
    left out, and so is the time stamping of outgoing data, which is off by default.
  \<^item> What a socket does to its surroundings is recorded in \<open>sk_log\<close>, a field the code does not
    have: the system calls, the requests to the reactor, and every callback and announcement
    dispatched.
  \<^item> Every operation is atomic. In the code the mutex makes it so where a callback is deferred or belongs to a
    strand that the thread is not on; where it is dispatched with \<open>defer\<close> false otherwise, the code unlocks the
    mutex, calls it and locks the mutex again (\<open>ntci_callback.h\<close>). The model logs it there
    and goes on: what a callback does to the socket follows the operation that dispatched it.
\<close>

datatype ShutdownType = Shutdown_SEND | Shutdown_RECEIVE | Shutdown_BOTH

datatype ShutdownMode = e_GRACEFUL | e_IMMEDIATE

datatype SendEventType = Send_COMPLETE | Send_ERROR

datatype ReceiveEventType = Receive_COMPLETE | Receive_ERROR

text \<open>\<open>ntca::ReceiveContext\<close>, of which the transport and the endpoint are constant.\<close>

record ReceiveContext =
  xc_error :: ntsa_error
  xc_foreignHandle :: "handle option"

definition ReceiveContext_init :: ReceiveContext where
  "ReceiveContext_init = \<lparr>xc_error = E_OK, xc_foreignHandle = None\<rparr>"

datatype WriteQueueEventType =
    WQ_FLOW_CONTROL_RELAXED
  | WQ_FLOW_CONTROL_APPLIED
  | WQ_LOW_WATERMARK
  | WQ_HIGH_WATERMARK
  | WQ_RATE_LIMIT_APPLIED
  | WQ_RATE_LIMIT_RELAXED
  | WQ_DISCARDED

datatype ReadQueueEventType =
    RQ_FLOW_CONTROL_RELAXED
  | RQ_FLOW_CONTROL_APPLIED
  | RQ_LOW_WATERMARK
  | RQ_HIGH_WATERMARK
  | RQ_DISCARDED
  | RQ_RATE_LIMIT_APPLIED
  | RQ_RATE_LIMIT_RELAXED

datatype ShutdownEventType =
    Shutdown_INITIATED
  | Shutdown_SEND_DONE
  | Shutdown_RECEIVE_DONE
  | Shutdown_COMPLETE

text \<open>The calls that are put off while the socket is being detached from its reactor.\<close>

datatype deferred_call =
    DeferredShutdown ShutdownType ShutdownMode
  | DeferredClose "callback_ref option"

text \<open>
  What the socket does to its surroundings. A system call that sends carries the data, whether
  zero copy is asked for, the handle to pass on, and the number of bytes the system took. One
  that receives carries the bytes received. \<open>ReturnReceive\<close> is the blob of a caller of the
  synchronous \<open>receive\<close> before and after the call.
\<close>

datatype ('blob, 't) socket_event =
    SystemSend "'blob Data" bool "handle option" nat
  | SystemReceive bytes
  | SystemShutdown ShutdownType
  | SystemClose
  | SystemRelease
  | ShowWritable
  | HideWritable
  | ShowReadable
  | HideReadable
  | ShowNotifications
  | ReleaseReactor
  | ReleaseHandleReservation
  | ScheduleSendRateTimer 't 't
  | CloseSendRateTimer
  | ScheduleReceiveRateTimer 't 't
  | CloseReceiveRateTimer
  | ScheduleSendDeadline timer_ref int
  | ScheduleReceiveDeadline timer_ref int
  | CloseReceiveDeadline timer_ref
  | CloseForeignHandle handle
  | DispatchSend SendEventType SendContext callback_ref bool
  | DispatchReceive ReceiveEventType ReceiveContext "'blob option" callback_ref bool
  | ReturnReceive 'blob 'blob
  | DispatchClose callback_ref
  | AnnounceWriteQueue WriteQueueEventType "nat \<times> nat \<times> nat" bool
  | AnnounceReadQueue ReadQueueEventType "nat \<times> nat \<times> nat" bool
  | AnnounceShutdown ShutdownEventType ShutdownOrigin bool
  | AnnounceError ntsa_error
  | AnnounceClosed bool
  | ExecuteDeferred "deferred_call list"

subsection \<open>ntcr::StreamSocket\<close>

text \<open>
  \<open>sk_socket\<close>, \<open>sk_reactor\<close>, \<open>sk_reactorPool\<close>, \<open>sk_session\<close>, \<open>sk_manager\<close> and the rate timers tell
  whether the pointers of the code are set. The callback entries of the receive queue live in the
  store \<open>sk_receiveEntries\<close>, of which the first \<open>sk_receiveEntryCount\<close> are allocated.
  \<open>sk_detachError\<close> is the answer of the reactor to a
  request to detach the socket, and \<open>sk_detachCallback\<close> the callback given with that request.
\<close>

record ('blob, 't) StreamSocket =
  sk_systemHandle :: handle
  sk_socket :: bool
  sk_reactor :: bool
  sk_reactorPool :: bool
  sk_manager :: bool
  sk_session :: bool
  sk_openState :: open_state
  sk_flowControlState :: FlowControlState
  sk_shutdownState :: ShutdownState
  sk_zeroCopyQueue :: "'blob ZeroCopyQueue"
  sk_zeroCopyThreshold :: nat
  sk_sendOptions :: SendOptions
  sk_sendQueue :: "'blob SendQueue"
  sk_sendRateLimiter :: "'t RateLimiter option"
  sk_sendRateTimer :: bool
  sk_sendGreedily :: bool
  sk_sendCounter :: u64
  sk_sendData :: BufferArray
  sk_receiveQueue :: "'blob ReceiveQueue"
  sk_receiveEntries :: receive_store
  sk_receiveEntryCount :: nat
  sk_receiveFeedback :: ReceiveFeedback
  sk_receiveRateLimiter :: "'t RateLimiter option"
  sk_receiveRateTimer :: bool
  sk_receiveGreedily :: bool
  sk_oneShot :: bool
  sk_detachState :: DetachState
  sk_detachError :: ntsa_error
  sk_detachCallback :: "(ShutdownContext \<times> bool) option"
  sk_closeCallback :: "callback_ref option"
  sk_deferredCalls :: "deferred_call list"
  sk_totalBytesSent :: nat
  sk_totalBytesReceived :: nat
  sk_keepHalfOpen :: "bool option"
  sk_abortiveClose :: bool
  sk_log :: "('blob, 't) socket_event list"

definition k_INVALID_HANDLE :: handle where
  "k_INVALID_HANDLE = - 1"

definition k_ZERO_COPY_NEVER :: nat where
  "k_ZERO_COPY_NEVER = 18446744073709551615"

definition DEFAULT_KEEP_HALF_OPEN :: bool where
  [ntf_defs]: "DEFAULT_KEEP_HALF_OPEN = False"

definition emit ::
  "('blob, 't) socket_event \<Rightarrow> ('blob, 't) StreamSocket \<Rightarrow> ('blob, 't) StreamSocket" where
  "emit ev s = s\<lparr>sk_log := sk_log s @ [ev]\<rparr>"

text \<open>An announcement is made to the session, if there is one.\<close>

definition announce ::
  "('blob, 't) socket_event \<Rightarrow> ('blob, 't) StreamSocket \<Rightarrow> ('blob, 't) StreamSocket" where
  "announce ev s = (if sk_session s then emit ev s else s)"

definition request_reactor ::
  "('blob, 't) socket_event \<Rightarrow> ('blob, 't) StreamSocket \<Rightarrow> ('blob, 't) StreamSocket" where
  "request_reactor ev s = (if sk_reactor s then emit ev s else s)"

definition announce_write_queue ::
  "WriteQueueEventType \<Rightarrow> bool \<Rightarrow> ('blob, 't) StreamSocket \<Rightarrow> ('blob, 't) StreamSocket" where
  "announce_write_queue ty defer s =
     announce (AnnounceWriteQueue ty (SendQueue_context (sk_sendQueue s)) defer) s"

definition announce_read_queue ::
  "ReadQueueEventType \<Rightarrow> bool \<Rightarrow> ('blob, 't) StreamSocket \<Rightarrow> ('blob, 't) StreamSocket" where
  "announce_read_queue ty defer s =
     announce (AnnounceReadQueue ty (ReceiveQueue_context (sk_receiveQueue s)) defer) s"

subsection \<open>Flow control\<close>

definition privateRelaxFlowControl ::
  "FlowControlType \<Rightarrow> bool \<Rightarrow> bool \<Rightarrow> ('blob, 't) StreamSocket \<Rightarrow> ('blob, 't) StreamSocket" where
  "privateRelaxFlowControl direction defer unlock s =
     (let (relaxSend, relaxReceive) = selects direction;
          (changed, context, f) =
            FlowControlState_relax FlowControlContext_init direction unlock (sk_flowControlState s);
          s1 = s\<lparr>sk_flowControlState := f\<rparr>
      in if changed then
           let s2 = (if relaxSend \<and> enableSend context \<and>
                        ShutdownState_canSend (sk_shutdownState s1)
                     then announce_write_queue WQ_FLOW_CONTROL_RELAXED defer
                            (request_reactor ShowWritable s1)
                     else s1)
           in if relaxReceive \<and> enableReceive context \<and>
                 ShutdownState_canReceive (sk_shutdownState s2)
              then announce_read_queue RQ_FLOW_CONTROL_RELAXED defer
                     (request_reactor ShowReadable s2)
              else s2
         else s1)"

definition privateApplyFlowControl ::
  "FlowControlType \<Rightarrow> bool \<Rightarrow> bool \<Rightarrow> ('blob, 't) StreamSocket \<Rightarrow> ('blob, 't) StreamSocket" where
  "privateApplyFlowControl direction defer lock s =
     (let (applySend, applyReceive) = selects direction;
          (changed, context, f) =
            FlowControlState_apply FlowControlContext_init direction lock (sk_flowControlState s);
          s1 = s\<lparr>sk_flowControlState := f\<rparr>
      in if changed then
           let s2 = (if applySend \<and> \<not> enableSend context
                     then announce_write_queue WQ_FLOW_CONTROL_APPLIED defer
                            (request_reactor HideWritable s1)
                     else s1)
           in if applyReceive \<and> \<not> enableReceive context
              then announce_read_queue RQ_FLOW_CONTROL_APPLIED defer
                     (request_reactor HideReadable s2)
              else s2
         else s1)"

text \<open>
  The detachment is asynchronous: \<open>privateCloseFlowControl\<close> returns whether it has been started,
  and the callback given is invoked when the reactor has detached the socket.
\<close>

definition privateCloseFlowControl ::
  "bool \<Rightarrow> ShutdownContext \<times> bool \<Rightarrow> ('blob, 't) StreamSocket \<Rightarrow>
   (bool \<times> ('blob, 't) StreamSocket) option" where
  "privateCloseFlowControl defer detachCallback s =
     (let (changed, context, f) =
            FlowControlState_apply FlowControlContext_init FlowControlType.e_BOTH True
              (sk_flowControlState s);
          s1 = s\<lparr>sk_flowControlState := f\<rparr>;
          s2 = (if changed \<and> \<not> enableSend context
                then announce_write_queue WQ_FLOW_CONTROL_APPLIED defer s1 else s1);
          s3 = (if changed \<and> \<not> enableReceive context
                then announce_read_queue RQ_FLOW_CONTROL_APPLIED defer s2 else s2)
      in if sk_systemHandle s3 \<noteq> k_INVALID_HANDLE \<and> sk_reactor s3 then
           do { bsls_assert (ds_mode (sk_detachState s3) \<noteq> e_INITIATED);
                if sk_detachError s3 \<noteq> E_OK then Some (False, s3)
                else Some (True,
                  s3\<lparr>sk_detachCallback := Some detachCallback,
                     sk_detachState := DetachState_setMode e_INITIATED (sk_detachState s3)\<rparr>) }
         else Some (False, s3))"

subsection \<open>The shutdown sequence\<close>

text \<open>The system call for one direction.\<close>

definition shutdown_system ::
  "ShutdownType \<Rightarrow> ('blob, 't) StreamSocket \<Rightarrow> ('blob, 't) StreamSocket" where
  "shutdown_system direction s =
     (if \<not> sk_abortiveClose s \<and> ds_goal (sk_detachState s) = e_CLOSE \<and> sk_socket s
      then emit (SystemShutdown direction) s else s)"

fun cancel_sends ::
  "bool \<Rightarrow> (SendContext \<times> callback_ref) list \<Rightarrow> ('blob, 't) StreamSocket \<Rightarrow>
   ('blob, 't) StreamSocket" where
  "cancel_sends defer [] s = s"
| "cancel_sends defer ((context, callback) # cs) s =
     cancel_sends defer cs
       (emit (DispatchSend Send_ERROR (context\<lparr>sc_error := E_CANCELLED\<rparr>) callback defer) s)"

definition zero_copy_callbacks ::
  "'blob ZeroCopyEntry list \<Rightarrow> (SendContext \<times> callback_ref) list" where
  "zero_copy_callbacks es =
     concat (map (\<lambda>e. case ze_callback e of None \<Rightarrow> [] | Some cb \<Rightarrow> [(ze_context e, cb)]) es)"

definition send_callbacks ::
  "'blob SendQueueEntry list \<Rightarrow> (SendContext \<times> callback_ref) list" where
  "send_callbacks es =
     concat (map (\<lambda>e. case se_callback e of None \<Rightarrow> [] | Some cb \<Rightarrow> [(se_context e, cb)]) es)"

text \<open>The data structures and announcements of the send direction.\<close>

definition shutdown_send_part ::
  "ShutdownContext \<Rightarrow> bool \<Rightarrow> ('blob, 't) StreamSocket \<Rightarrow> ('blob, 't) StreamSocket" where
  "shutdown_send_part context defer s =
     (let s1 = (if sk_sendRateTimer s
                then (emit CloseSendRateTimer s)\<lparr>sk_sendRateTimer := False\<rparr> else s);
          (zs, zq) = ZeroCopyQueue_clear_entries [] (sk_zeroCopyQueue s1);
          (announceWriteQueueDiscarded, es, sq) =
            SendQueue_removeAll_entries [] (sk_sendQueue s1);
          s2 = s1\<lparr>sk_zeroCopyQueue := zq, sk_sendQueue := sq\<rparr>;
          s3 = cancel_sends defer (zero_copy_callbacks zs @ send_callbacks es) s2;
          s4 = (if announceWriteQueueDiscarded
                then announce_write_queue WQ_DISCARDED defer s3 else s3)
      in announce (AnnounceShutdown Shutdown_SEND_DONE (shutdownOrigin context) defer) s4)"

text \<open>\<open>ntcq::ReceiveCallbackQueueEntry::dispatch\<close> on an entry of the store.\<close>

definition dispatch_receive ::
  "ReceiveEventType \<Rightarrow> ReceiveContext \<Rightarrow> 'blob option \<Rightarrow> bool \<Rightarrow> nat \<Rightarrow> ('blob, 't) StreamSocket \<Rightarrow>
   ('blob, 't) StreamSocket" where
  "dispatch_receive ty context data defer entry s =
     (let (callback, timers, e) = ReceiveCallbackQueueEntry_dispatch (sk_receiveEntries s entry);
          s1 = s\<lparr>sk_receiveEntries := (sk_receiveEntries s)(entry := e)\<rparr>;
          s2 = fold (\<lambda>t. emit (CloseReceiveDeadline t)) timers s1
      in case callback of
           None \<Rightarrow> s2
         | Some cb \<Rightarrow> emit (DispatchReceive ty context data cb defer) s2)"

fun dispatch_eof ::
  "bool \<Rightarrow> nat list \<Rightarrow> ('blob, 't) StreamSocket \<Rightarrow> ('blob, 't) StreamSocket" where
  "dispatch_eof defer [] s = s"
| "dispatch_eof defer (e # es) s =
     dispatch_eof defer es
       (dispatch_receive Receive_ERROR (ReceiveContext_init\<lparr>xc_error := E_EOF\<rparr>) None defer e s)"

definition shutdown_receive_part ::
  "ShutdownContext \<Rightarrow> bool \<Rightarrow> ('blob, 't) StreamSocket \<Rightarrow> ('blob, 't) StreamSocket" where
  "shutdown_receive_part context defer s =
     (let s1 = (if sk_receiveRateTimer s
                then (emit CloseReceiveRateTimer s)\<lparr>sk_receiveRateTimer := False\<rparr> else s);
          (es, rq) = ReceiveQueue_popAllCallbackEntries [] (sk_receiveQueue s1);
          s2 = dispatch_eof defer es (s1\<lparr>sk_receiveQueue := rq\<rparr>);
          s3 = announce_read_queue RQ_LOW_WATERMARK defer s2
      in announce (AnnounceShutdown Shutdown_RECEIVE_DONE (shutdownOrigin context) defer) s3)"

text \<open>The end of the sequence: the reactor is released and the socket is closed.\<close>

definition dispatch_close :: "('blob, 't) StreamSocket \<Rightarrow> ('blob, 't) StreamSocket" where
  "dispatch_close s =
     (case sk_closeCallback s of
        None \<Rightarrow> s
      | Some cb \<Rightarrow> (emit (DispatchClose cb) s)\<lparr>sk_closeCallback := None\<rparr>)"

definition shutdown_completed_part ::
  "ShutdownContext \<Rightarrow> bool \<Rightarrow> ('blob, 't) StreamSocket \<Rightarrow> ('blob, 't) StreamSocket" where
  "shutdown_completed_part context defer s =
     (let s1 = announce (AnnounceShutdown Shutdown_COMPLETE (shutdownOrigin context) defer) s;
          s2 = (if sk_reactorPool s1 then request_reactor ReleaseReactor s1 else s1);
          s3 = (if sk_socket s2
                then emit (if ds_goal (sk_detachState s2) = e_CLOSE then SystemClose else SystemRelease)
                       (request_reactor ReleaseHandleReservation s2)
                else s2);
          s4 = s3\<lparr>sk_systemHandle := k_INVALID_HANDLE,
                  sk_openState := OpenState_set e_CLOSED (sk_openState s3)\<rparr>;
          s5 = (if sk_manager s4 then emit (AnnounceClosed defer) s4 else s4)
      in (dispatch_close s5)\<lparr>sk_session := False, sk_manager := False\<rparr>)"

definition privateShutdownSequenceComplete ::
  "ShutdownContext \<Rightarrow> bool \<Rightarrow> bool \<Rightarrow> ('blob, 't) StreamSocket \<Rightarrow> ('blob, 't) StreamSocket option"
  where
  "privateShutdownSequenceComplete context defer lock s =
     do { s1 \<leftarrow> (if lock then
                  do { bsls_assert (ds_mode (sk_detachState s) = e_INITIATED);
                       Some (s\<lparr>sk_detachState := DetachState_setMode e_IDLE (sk_detachState s)\<rparr>) }
                else
                  do { bsls_assert (ds_mode (sk_detachState s) \<noteq> e_INITIATED); Some s });
          let s2 = (if shutdownSend context then shutdown_system Shutdown_SEND s1 else s1);
          let s3 = (if shutdownReceive context then shutdown_system Shutdown_RECEIVE s2 else s2);
          let s4 = (if shutdownInitiated context
                    then announce (AnnounceShutdown Shutdown_INITIATED (shutdownOrigin context) defer) s3
                    else s3);
          let s5 = (if shutdownSend context then shutdown_send_part context defer s4 else s4);
          let s6 = (if shutdownReceive context then shutdown_receive_part context defer s5 else s5);
          let s7 = (if shutdownCompleted context then shutdown_completed_part context defer s6
                    else s6);
          Some ((emit (ExecuteDeferred (sk_deferredCalls s7)) s7)\<lparr>sk_deferredCalls := []\<rparr>) }"

definition privateShutdownSequence ::
  "ShutdownContext \<Rightarrow> ('blob, 't) StreamSocket \<Rightarrow> ('blob, 't) StreamSocket option" where
  "privateShutdownSequence context s =
     (let defer = True in
      do { (asyncDetachmentStarted, s1) \<leftarrow>
             (if shutdownCompleted context
              then privateCloseFlowControl defer (context, defer) s
              else
                let s2 = (if shutdownSend context
                          then privateApplyFlowControl FlowControlType.e_SEND defer True s else s);
                    s3 = (if shutdownReceive context
                          then privateApplyFlowControl FlowControlType.e_RECEIVE defer True s2
                          else s2)
                in Some (False, s3));
           if \<not> asyncDetachmentStarted
           then privateShutdownSequenceComplete context defer False s1
           else Some s1 })"

text \<open>The callback that the reactor invokes when the socket is detached.\<close>

definition processSocketDetached ::
  "('blob, 't) StreamSocket \<Rightarrow> ('blob, 't) StreamSocket option" where
  "processSocketDetached s =
     do { (context, defer) \<leftarrow> sk_detachCallback s;
          privateShutdownSequenceComplete context defer True (s\<lparr>sk_detachCallback := None\<rparr>) }"

definition keeps_half_open :: "('blob, 't) StreamSocket \<Rightarrow> bool" where
  "keeps_half_open s =
     (let keepHalfOpen = (case sk_keepHalfOpen s of None \<Rightarrow> DEFAULT_KEEP_HALF_OPEN | Some b \<Rightarrow> b)
      in if sk_abortiveClose s then False else keepHalfOpen)"

definition privateShutdownSend ::
  "('blob, 't) StreamSocket \<Rightarrow> ('blob, 't) StreamSocket option" where
  "privateShutdownSend s =
     do { (changed, context, d) \<leftarrow>
            tryShutdownSend ShutdownContext_init (keeps_half_open s) (sk_shutdownState s);
          let s1 = s\<lparr>sk_shutdownState := d\<rparr>;
          if changed then privateShutdownSequence context s1 else Some s1 }"

definition privateShutdownReceive ::
  "ShutdownOrigin \<Rightarrow> ('blob, 't) StreamSocket \<Rightarrow> ('blob, 't) StreamSocket option" where
  "privateShutdownReceive origin s =
     do { (changed, context, d) \<leftarrow>
            tryShutdownReceive ShutdownContext_init (keeps_half_open s) origin (sk_shutdownState s);
          let s1 = s\<lparr>sk_shutdownState := d\<rparr>;
          if changed then privateShutdownSequence context s1 else Some s1 }"

definition privateShutdown ::
  "'blob blob_library \<Rightarrow> ShutdownType \<Rightarrow> ShutdownMode \<Rightarrow> bool \<Rightarrow> ('blob, 't) StreamSocket \<Rightarrow>
   ('blob, 't) StreamSocket option" where
  "privateShutdown L direction mode defer s =
     (let closeAnnouncementRequired =
            (sk_closeCallback s \<noteq> None \<and> ShutdownState_completed (sk_shutdownState s))
      in
      do { s1 \<leftarrow> (if (direction = Shutdown_RECEIVE \<or> direction = Shutdown_BOTH) \<and>
                     ShutdownState_canReceive (sk_shutdownState s)
                  then privateShutdownReceive e_SOURCE s else Some s);
           s2 \<leftarrow> (if (direction = Shutdown_SEND \<or> direction = Shutdown_BOTH) \<and>
                     ShutdownState_canSend (sk_shutdownState s1)
                  then
                    (if mode = e_GRACEFUL \<and> SendQueue_hasEntry (sk_sendQueue s1) then
                       let (i, q) = generateEntryId (sk_sendQueue s1) in
                       do { (b, q1) \<leftarrow> SendQueue_pushEntry L (setId i SendQueueEntry_init) q;
                            Some (privateRelaxFlowControl FlowControlType.e_SEND defer True
                                    (s1\<lparr>sk_sendQueue := q1\<rparr>)) }
                     else privateShutdownSend s1)
                  else Some s1);
           Some (if closeAnnouncementRequired then dispatch_close s2 else s2) })"

definition privateFail ::
  "'blob blob_library \<Rightarrow> ntsa_error \<Rightarrow> ('blob, 't) StreamSocket \<Rightarrow> ('blob, 't) StreamSocket option"
  where
  "privateFail L error s =
     (let s1 = privateApplyFlowControl FlowControlType.e_BOTH False True s;
          s2 = s1\<lparr>sk_flowControlState := FlowControlState_close (sk_flowControlState s1)\<rparr>
      in if error = E_CONNECTION_DEAD \<or> error = E_CONNECTION_RESET
         then do { s3 \<leftarrow> privateShutdownReceive e_REMOTE s2; privateShutdownSend s3 }
         else privateShutdown L Shutdown_BOTH e_IMMEDIATE False (announce (AnnounceError error) s2))"

definition StreamSocket_shutdown ::
  "'blob blob_library \<Rightarrow> ShutdownType \<Rightarrow> ShutdownMode \<Rightarrow> ('blob, 't) StreamSocket \<Rightarrow>
   ('blob, 't) StreamSocket option" where
  "StreamSocket_shutdown L direction mode s =
     (if ds_mode (sk_detachState s) = e_INITIATED
      then Some (s\<lparr>sk_deferredCalls := sk_deferredCalls s @ [DeferredShutdown direction mode]\<rparr>)
      else privateShutdown L direction mode True s)"

definition privateClose ::
  "'blob blob_library \<Rightarrow> callback_ref option \<Rightarrow> ('blob, 't) StreamSocket \<Rightarrow>
   ('blob, 't) StreamSocket option" where
  "privateClose L callback s =
     (if ds_mode (sk_detachState s) = e_INITIATED
      then Some (s\<lparr>sk_deferredCalls := sk_deferredCalls s @ [DeferredClose callback]\<rparr>)
      else
        do { bsls_assert (sk_closeCallback s = None);
             privateShutdown L Shutdown_BOTH e_IMMEDIATE True (s\<lparr>sk_closeCallback := callback\<rparr>) })"

definition StreamSocket_relaxFlowControl ::
  "FlowControlType \<Rightarrow> ('blob, 't) StreamSocket \<Rightarrow> ('blob, 't) StreamSocket" where
  "StreamSocket_relaxFlowControl direction s = privateRelaxFlowControl direction True True s"

definition StreamSocket_applyFlowControl ::
  "FlowControlType \<Rightarrow> ('blob, 't) StreamSocket \<Rightarrow> ('blob, 't) StreamSocket" where
  "StreamSocket_applyFlowControl direction s =
     (let s1 = (if (direction = FlowControlType.e_SEND \<or> direction = FlowControlType.e_BOTH) \<and>
                   sk_sendRateTimer s
                then (emit CloseSendRateTimer s)\<lparr>sk_sendRateTimer := False\<rparr> else s);
          s2 = (if (direction = FlowControlType.e_RECEIVE \<or> direction = FlowControlType.e_BOTH) \<and>
                   sk_receiveRateTimer s1
                then (emit CloseReceiveRateTimer s1)\<lparr>sk_receiveRateTimer := False\<rparr> else s1)
      in privateApplyFlowControl direction True True s2)"


subsection \<open>What the operations emit\<close>

text \<open>
  Every operation on flow control changes the flow control state and appends events to the log.
  The facts in \<open>sk_normal\<close> rewrite such an operation to the record update that it is.
\<close>

named_theorems sk_normal \<open>operations as updates of the state and the log\<close>

declare emit_def [sk_normal]

lemma announce_normal [sk_normal]:
  "announce ev s = s\<lparr>sk_log := sk_log s @ (if sk_session s then [ev] else [])\<rparr>"
  by (simp add: announce_def emit_def)

lemma request_reactor_normal [sk_normal]:
  "request_reactor ev s = s\<lparr>sk_log := sk_log s @ (if sk_reactor s then [ev] else [])\<rparr>"
  by (simp add: request_reactor_def emit_def)

declare announce_write_queue_def [sk_normal] announce_read_queue_def [sk_normal]

lemma cancel_sends_normal [sk_normal]:
  "cancel_sends defer cs s = s\<lparr>sk_log := sk_log s @
     map (\<lambda>(ctx, cb). DispatchSend Send_ERROR (ctx\<lparr>sc_error := E_CANCELLED\<rparr>) cb defer) cs\<rparr>"
  by (induction cs arbitrary: s) (auto simp: emit_def)

definition finish_receive :: "nat \<Rightarrow> receive_store \<Rightarrow> receive_store" where
  "finish_receive entry store =
     store(entry := snd (snd (ReceiveCallbackQueueEntry_dispatch (store entry))))"

definition receive_events ::
  "ReceiveEventType \<Rightarrow> ReceiveContext \<Rightarrow> 'blob option \<Rightarrow> bool \<Rightarrow> ReceiveCallbackQueueEntry \<Rightarrow>
   ('blob, 't) socket_event list" where
  "receive_events ty context data defer e =
     (let (callback, timers, e1) = ReceiveCallbackQueueEntry_dispatch e
      in map CloseReceiveDeadline timers @
         (case callback of None \<Rightarrow> [] | Some cb \<Rightarrow> [DispatchReceive ty context data cb defer]))"

lemma fold_emit_normal:
  "fold (\<lambda>x. emit (f x)) xs s = s\<lparr>sk_log := sk_log s @ map f xs\<rparr>"
  by (induction xs arbitrary: s) (simp_all add: emit_def)

lemma dispatch_receive_normal [sk_normal]:
  "dispatch_receive ty context data defer entry s =
     s\<lparr>sk_receiveEntries := finish_receive entry (sk_receiveEntries s),
       sk_log := sk_log s @ receive_events ty context data defer (sk_receiveEntries s entry)\<rparr>"
  by (simp add: dispatch_receive_def finish_receive_def receive_events_def fold_emit_normal emit_def
      split: prod.split option.split)

fun eof_events :: "bool \<Rightarrow> nat list \<Rightarrow> receive_store \<Rightarrow> ('blob, 't) socket_event list" where
  "eof_events defer [] store = []"
| "eof_events defer (e # es) store =
     receive_events Receive_ERROR (ReceiveContext_init\<lparr>xc_error := E_EOF\<rparr>) None defer (store e) @
     eof_events defer es (finish_receive e store)"

lemma dispatch_eof_normal [sk_normal]:
  "dispatch_eof defer es s =
     s\<lparr>sk_receiveEntries := fold finish_receive es (sk_receiveEntries s),
       sk_log := sk_log s @ eof_events defer es (sk_receiveEntries s)\<rparr>"
  by (induction es arbitrary: s) (simp_all add: dispatch_receive_normal)

definition relax_events ::
  "FlowControlType \<Rightarrow> bool \<Rightarrow> bool \<Rightarrow> ('blob, 't) StreamSocket \<Rightarrow> ('blob, 't) socket_event list" where
  "relax_events direction defer unlock s =
     (let (changed, context, f) =
            FlowControlState_relax FlowControlContext_init direction unlock (sk_flowControlState s)
      in if changed then
           (if fst (selects direction) \<and> enableSend context \<and>
               ShutdownState_canSend (sk_shutdownState s)
            then (if sk_reactor s then [ShowWritable] else []) @
                 (if sk_session s
                  then [AnnounceWriteQueue WQ_FLOW_CONTROL_RELAXED
                          (SendQueue_context (sk_sendQueue s)) defer] else [])
            else []) @
           (if snd (selects direction) \<and> enableReceive context \<and>
               ShutdownState_canReceive (sk_shutdownState s)
            then (if sk_reactor s then [ShowReadable] else []) @
                 (if sk_session s
                  then [AnnounceReadQueue RQ_FLOW_CONTROL_RELAXED
                          (ReceiveQueue_context (sk_receiveQueue s)) defer] else [])
            else [])
         else [])"

definition apply_events ::
  "FlowControlType \<Rightarrow> bool \<Rightarrow> bool \<Rightarrow> ('blob, 't) StreamSocket \<Rightarrow> ('blob, 't) socket_event list" where
  "apply_events direction defer lock s =
     (let (changed, context, f) =
            FlowControlState_apply FlowControlContext_init direction lock (sk_flowControlState s)
      in if changed then
           (if fst (selects direction) \<and> \<not> enableSend context
            then (if sk_reactor s then [HideWritable] else []) @
                 (if sk_session s
                  then [AnnounceWriteQueue WQ_FLOW_CONTROL_APPLIED
                          (SendQueue_context (sk_sendQueue s)) defer] else [])
            else []) @
           (if snd (selects direction) \<and> \<not> enableReceive context
            then (if sk_reactor s then [HideReadable] else []) @
                 (if sk_session s
                  then [AnnounceReadQueue RQ_FLOW_CONTROL_APPLIED
                          (ReceiveQueue_context (sk_receiveQueue s)) defer] else [])
            else [])
         else [])"

abbreviation relaxed :: "FlowControlType \<Rightarrow> bool \<Rightarrow> FlowControlState \<Rightarrow> FlowControlState" where
  "relaxed direction unlock f \<equiv>
     snd (snd (FlowControlState_relax FlowControlContext_init direction unlock f))"

abbreviation applied :: "FlowControlType \<Rightarrow> bool \<Rightarrow> FlowControlState \<Rightarrow> FlowControlState" where
  "applied direction lock f \<equiv>
     snd (snd (FlowControlState_apply FlowControlContext_init direction lock f))"

lemma privateRelaxFlowControl_normal [sk_normal]:
  "privateRelaxFlowControl direction defer unlock s =
     s\<lparr>sk_flowControlState := relaxed direction unlock (sk_flowControlState s),
       sk_log := sk_log s @ relax_events direction defer unlock s\<rparr>"
proof -
  obtain a b where sel: "selects direction = (a, b)" by fastforce
  obtain c ctx f where r: "FlowControlState_relax FlowControlContext_init direction unlock
      (sk_flowControlState s) = (c, ctx, f)" using prod_cases3 by blast
  show ?thesis
    by (cases c; cases "a \<and> enableSend ctx \<and> ShutdownState_canSend (sk_shutdownState s)";
        cases "b \<and> enableReceive ctx \<and> ShutdownState_canReceive (sk_shutdownState s)")
       (simp_all add: privateRelaxFlowControl_def relax_events_def sel r sk_normal Let_def)
qed

lemma privateApplyFlowControl_normal [sk_normal]:
  "privateApplyFlowControl direction defer lock s =
     s\<lparr>sk_flowControlState := applied direction lock (sk_flowControlState s),
       sk_log := sk_log s @ apply_events direction defer lock s\<rparr>"
proof -
  obtain a b where sel: "selects direction = (a, b)" by fastforce
  obtain c ctx f where r: "FlowControlState_apply FlowControlContext_init direction lock
      (sk_flowControlState s) = (c, ctx, f)" using prod_cases3 by blast
  show ?thesis
    by (cases c; cases "a \<and> \<not> enableSend ctx"; cases "b \<and> \<not> enableReceive ctx")
       (simp_all add: privateApplyFlowControl_def apply_events_def sel r sk_normal Let_def)
qed

text \<open>
  The two kinds of events that the properties of the send path count: callbacks of sends and
  bytes handed to the operating system. All others are quiet.
\<close>

fun event_callback :: "('blob, 't) socket_event \<Rightarrow> callback_ref list" where
  "event_callback (DispatchSend ty ctx cb defer) = [cb]"
| "event_callback ev = []"

fun event_transmission :: "('blob, 't) socket_event \<Rightarrow> ('blob Data \<times> nat) list" where
  "event_transmission (SystemSend d z h n) = [(d, n)]"
| "event_transmission ev = []"

definition dispatched :: "('blob, 't) socket_event list \<Rightarrow> callback_ref list" where
  "dispatched evs = concat (map event_callback evs)"

definition transmissions :: "('blob, 't) socket_event list \<Rightarrow> ('blob Data \<times> nat) list" where
  "transmissions evs = concat (map event_transmission evs)"

lemma dispatched_simps [simp]:
  "dispatched [] = []"
  "dispatched (ev # evs) = event_callback ev @ dispatched evs"
  "dispatched (evs @ evs') = dispatched evs @ dispatched evs'"
  by (simp_all add: dispatched_def)

lemma transmissions_simps [simp]:
  "transmissions [] = []"
  "transmissions (ev # evs) = event_transmission ev @ transmissions evs"
  "transmissions (evs @ evs') = transmissions evs @ transmissions evs'"
  by (simp_all add: transmissions_def)

lemma flow_control_quiet [simp]:
  "dispatched (relax_events direction defer unlock s) = []"
  "transmissions (relax_events direction defer unlock s) = []"
  "dispatched (apply_events direction defer lock s) = []"
  "transmissions (apply_events direction defer lock s) = []"
  by (simp_all add: relax_events_def apply_events_def split: prod.splits)

lemma dispatched_map_send [simp]:
  "dispatched (map (\<lambda>(ctx, cb). DispatchSend ty (f ctx) cb defer) cs) = map snd cs"
  "transmissions (map (\<lambda>(ctx, cb). DispatchSend ty (f ctx) cb defer) cs) = []"
  by (induction cs) auto

lemma receive_events_quiet [simp]:
  "dispatched (receive_events ty context data defer e) = []"
  "transmissions (receive_events ty context data defer e) = []"
proof -
  have "dispatched (map CloseReceiveDeadline ts) = [] \<and> transmissions (map CloseReceiveDeadline ts) = []" for ts
    by (induction ts) auto
  then show "dispatched (receive_events ty context data defer e) = []"
    "transmissions (receive_events ty context data defer e) = []"
    by (auto simp: receive_events_def split: prod.splits option.splits)
qed

lemma eof_events_quiet [simp]:
  "dispatched (eof_events defer es store) = []"
  "transmissions (eof_events defer es store) = []"
  by (induction es arbitrary: store) auto

end
