(* ===== verification/Stream_Send.thy ===== *)
theory Stream_Send
  imports Stream_Socket
begin

section \<open>The send path of a reactor stream socket\<close>

text \<open>
  This theory models the operations of \<open>ntcr::StreamSocket\<close> (\<open>ntcr_streamsocket.cpp\<close>) that send:
  the two overloads of \<open>send\<close>, the handling of a writable socket with its batches, the deadline
  of a send, its cancellation, the send rate timer and the notifications of completed zero-copy
  transmissions. Their correctness is proved in the theories \<open>Stream_Delivery\<close> and \<open>Stream_Runs\<close>.
\<close>

subsection \<open>What the surroundings answer\<close>

text \<open>
  One system call to send, with the readings the operation takes around it: the time, the size
  of the send buffer (\<^term>\<open>None\<close> where the option cannot be read), the error of the call, the room
  for bytes it has, whether it lacks the buffers for a zero-copied call, the reading of the
  high-resolution timer and the timer created for a deadline.
\<close>

record 't os_answer =
  os_now :: 't
  os_sendBufferSize :: "nat option"
  os_error :: ntsa_error
  os_room :: nat
  os_noBuffers :: bool
  os_timestamp :: int
  os_timer :: timer_ref

text \<open>
  \<open>ntsu::SocketUtil::send\<close> on Linux, with the result of \<open>sendmsg\<close> given by the answer: the context
  is reset first and set on success only; when the system lacks the buffers for a zero-copied
  call, the call is repeated without zero copy. The result is the error, the number of bytes
  sent and whether they are zero-copied.
\<close>

definition SocketUtil_send :: "'t os_answer \<Rightarrow> nat \<Rightarrow> bool \<Rightarrow> ntsa_error \<times> nat \<times> bool" where
  "SocketUtil_send a dataSize zeroCopy =
     (if os_error a \<noteq> E_OK then (os_error a, 0, False)
      else (E_OK, min (os_room a) dataSize, zeroCopy \<and> \<not> os_noBuffers a))"

text \<open>\<open>ntca::SendOptions\<close>, of which the endpoint and the priority are not read.\<close>

record SendParameters =
  sp_token :: "u64 option"
  sp_highWatermark :: "nat option"
  sp_deadline :: "int option"
  sp_foreignHandle :: "handle option"
  sp_recurse :: bool

definition SendParameters_init :: SendParameters where
  "SendParameters_init =
     \<lparr>sp_token = None, sp_highWatermark = None, sp_deadline = None, sp_foreignHandle = None,
      sp_recurse = False\<rparr>"

subsection \<open>Handing data to the operating system\<close>

definition privateThrottleSendBuffer ::
  "'t time_library \<Rightarrow> 't \<Rightarrow> ('blob, 't) StreamSocket \<Rightarrow>
   (ntsa_error \<times> ('blob, 't) StreamSocket) option" where
  "privateThrottleSendBuffer T now s =
     (case sk_sendRateLimiter s of
        None \<Rightarrow> Some (E_OK, s)
      | Some rl \<Rightarrow>
          do { (exceeds, rl1) \<leftarrow> wouldExceedBandwidth T now rl;
               let s1 = s\<lparr>sk_sendRateLimiter := Some rl1\<rparr>;
               if exceeds then
                 do { (timeToSubmit, rl2) \<leftarrow> RateLimiter_calculateTimeToSubmit T now rl1;
                      let s2 = privateApplyFlowControl FlowControlType.e_SEND False True
                                 (s1\<lparr>sk_sendRateLimiter := Some rl2\<rparr>);
                      if \<not> ShutdownState_canSend (sk_shutdownState s2) then Some (E_INVALID, s2)
                      else
                        let s3 = emit (ScheduleSendRateTimer now timeToSubmit)
                                   (s2\<lparr>sk_sendRateTimer := True\<rparr>)
                        in Some (E_WOULD_BLOCK, announce_write_queue WQ_RATE_LIMIT_APPLIED True s3) }
               else Some (E_OK, s1) })"

definition REFRESH_INTERVAL :: u64 where
  "REFRESH_INTERVAL = 100"

definition REFRESH_SIZE_THRESHOLD :: nat where
  "REFRESH_SIZE_THRESHOLD = 16384"

text \<open>On Linux, every hundredth send of much data reads the size of the send buffer anew.\<close>

definition refresh_send_buffer ::
  "nat \<Rightarrow> nat option \<Rightarrow> ('blob, 't) StreamSocket \<Rightarrow> ('blob, 't) StreamSocket" where
  "refresh_send_buffer dataSize option s =
     (if sk_sendCounter s mod REFRESH_INTERVAL = 0 \<and> dataSize \<ge> REFRESH_SIZE_THRESHOLD then
        let sendBufferSize = (case option of Some n \<Rightarrow> n | None \<Rightarrow> 0) in
        if sendBufferSize > 0
        then s\<lparr>sk_sendOptions := (sk_sendOptions s)\<lparr>so_maxBytes := sendBufferSize * 2\<rparr>\<rparr>
        else s
      else s)"

definition submit_rate ::
  "nat \<Rightarrow> ('blob, 't) StreamSocket \<Rightarrow> ('blob, 't) StreamSocket option" where
  "submit_rate n s =
     (case sk_sendRateLimiter s of
        None \<Rightarrow> Some s
      | Some rl \<Rightarrow>
          do { rl1 \<leftarrow> RateLimiter_submit (of_nat n) rl;
               Some (s\<lparr>sk_sendRateLimiter := Some rl1\<rparr>) })"

text \<open>
  The body the two overloads of \<open>privateEnqueueSendBuffer\<close> share. The send context is returned as
  the pair of the number of bytes sent and the zero-copy flag.
\<close>

definition enqueue_send_buffer ::
  "'t time_library \<Rightarrow> 't os_answer \<Rightarrow> nat \<Rightarrow> 'blob Data \<Rightarrow> handle option \<Rightarrow>
   ('blob, 't) StreamSocket \<Rightarrow> (ntsa_error \<times> (nat \<times> bool) \<times> ('blob, 't) StreamSocket) option"
  where
  "enqueue_send_buffer T a dataSize data foreignHandle s =
     (if \<not> sk_socket s then Some (E_INVALID, (0, False), s)
      else
        do { (error, s1) \<leftarrow> privateThrottleSendBuffer T (os_now a) s;
             if error \<noteq> E_OK then Some (error, (0, False), s1)
             else
               let s2 = refresh_send_buffer dataSize (os_sendBufferSize a) s1;
                   zeroCopy = (dataSize \<ge> sk_zeroCopyThreshold s2 \<and> \<not> isFile data);
                   (error, bytesSent, zeroCopied) = SocketUtil_send a dataSize zeroCopy
               in if error \<noteq> E_OK then Some (error, (bytesSent, zeroCopied), s2)
                  else
                    let s3 = emit (SystemSend data zeroCopy foreignHandle bytesSent) s2;
                        s4 = (if zeroCopy \<noteq> zeroCopied \<and>
                                 sk_zeroCopyThreshold s3 \<noteq> k_ZERO_COPY_NEVER
                              then s3\<lparr>sk_zeroCopyThreshold := k_ZERO_COPY_NEVER\<rparr> else s3)
                    in if bytesSent = 0 \<and> dataSize > 0
                       then Some (E_WOULD_BLOCK, (bytesSent, zeroCopied), s4)
                       else
                         do { s5 \<leftarrow> submit_rate bytesSent s4;
                              Some (E_OK, (bytesSent, zeroCopied),
                                s5\<lparr>sk_totalBytesSent := sk_totalBytesSent s5 + bytesSent\<rparr>) } })"

definition privateEnqueueSendBuffer_blob ::
  "'blob blob_library \<Rightarrow> 't time_library \<Rightarrow> 't os_answer \<Rightarrow> 'blob \<Rightarrow> handle option \<Rightarrow>
   ('blob, 't) StreamSocket \<Rightarrow> (ntsa_error \<times> (nat \<times> bool) \<times> ('blob, 't) StreamSocket) option"
  where
  "privateEnqueueSendBuffer_blob L T a data foreignHandle s =
     enqueue_send_buffer T a (blob_length L data) (Blob data) foreignHandle s"

definition privateEnqueueSendBuffer_data ::
  "'blob blob_library \<Rightarrow> 't time_library \<Rightarrow> 't os_answer \<Rightarrow> 'blob Data \<Rightarrow> handle option \<Rightarrow>
   ('blob, 't) StreamSocket \<Rightarrow> (ntsa_error \<times> (nat \<times> bool) \<times> ('blob, 't) StreamSocket) option"
  where
  "privateEnqueueSendBuffer_data L T a data foreignHandle s =
     do { n \<leftarrow> Data_size L data; enqueue_send_buffer T a n data foreignHandle s }"

subsection \<open>Sending\<close>

text \<open>
  The entry that both overloads of \<open>privateSendRaw\<close> build for data that is not sent at once, up
  to its callback, and the rest of the function: the timer for a deadline and the push.
\<close>

definition queue_entry ::
  "'t os_answer \<Rightarrow> u64 \<Rightarrow> SendParameters \<Rightarrow> SendContext \<Rightarrow> nat \<times> bool \<Rightarrow> 'blob Data \<Rightarrow> nat \<Rightarrow>
   'blob SendQueueEntry" where
  "queue_entry a counter options setting context data n =
     (let e = setZeroCopy (snd context) (setTimestamp (os_timestamp a) (setLength n
                (setEntryData (Some data) (setContext setting (setId counter SendQueueEntry_init)))))
      in case sp_foreignHandle options of
           Some h \<Rightarrow> if fst context = 0 then setForeignHandle h e else e
         | None \<Rightarrow> e)"

definition push_send_entry ::
  "'blob blob_library \<Rightarrow> 't os_answer \<Rightarrow> SendParameters \<Rightarrow> nat \<times> bool \<Rightarrow> 'blob SendQueueEntry \<Rightarrow>
   ('blob, 't) StreamSocket \<Rightarrow> ('blob, 't) StreamSocket option" where
  "push_send_entry L a options context e s =
     (let (e1, s1) =
            (case sp_deadline options of
               Some d \<Rightarrow>
                 if fst context = 0
                 then (setTimer (Some (os_timer a)) (setDeadline (Some d) e),
                       emit (ScheduleSendDeadline (os_timer a) d) s)
                 else (e, s)
             | None \<Rightarrow> (e, s))
      in do { (becameNonEmpty, q) \<leftarrow> SendQueue_pushEntry L e1 (sk_sendQueue s1);
              let s2 = s1\<lparr>sk_sendQueue := q\<rparr>;
              Some (if becameNonEmpty
                    then privateRelaxFlowControl FlowControlType.e_SEND True False s2 else s2) })"

text \<open>The whole message has been sent: zero copy delays the callback.\<close>

definition complete_send ::
  "(u64 \<Rightarrow> SendContext \<Rightarrow> callback_ref option \<Rightarrow> 'blob ZeroCopyQueue \<Rightarrow>
    (u64 \<times> 'blob ZeroCopyQueue) option) \<Rightarrow>
   u64 \<Rightarrow> SendParameters \<Rightarrow> SendContext \<Rightarrow> callback_ref option \<Rightarrow> bool \<Rightarrow>
   ('blob, 't) StreamSocket \<Rightarrow> ('blob, 't) StreamSocket option" where
  "complete_send push counter options setting callback zeroCopy s =
     (if zeroCopy then
        do { (zeroCopyCounter, zq) \<leftarrow> push counter setting callback (sk_zeroCopyQueue s);
             zq1 \<leftarrow> ZeroCopyQueue_frame counter zq;
             Some (s\<lparr>sk_zeroCopyQueue := zq1\<rparr>) }
      else
        Some (case callback of
                None \<Rightarrow> s
              | Some cb \<Rightarrow> emit (DispatchSend Send_COMPLETE setting cb (\<not> sp_recurse options)) s))"

definition push_zero_copy ::
  "u64 \<Rightarrow> 'blob Data \<Rightarrow> SendContext \<Rightarrow> callback_ref option \<Rightarrow> bool \<Rightarrow> ('blob, 't) StreamSocket \<Rightarrow>
   ('blob, 't) StreamSocket option" where
  "push_zero_copy counter data setting callback zeroCopy s =
     (if zeroCopy then
        do { (zeroCopyCounter, zq) \<leftarrow>
               ZeroCopyQueue_push_shared_callback counter (Some data) setting callback
                 (sk_zeroCopyQueue s);
             Some (s\<lparr>sk_zeroCopyQueue := zq\<rparr>) }
      else Some s)"

definition privateSendRaw_blob ::
  "'blob blob_library \<Rightarrow> 't time_library \<Rightarrow> 't os_answer \<Rightarrow> 'blob \<Rightarrow> u64 \<Rightarrow> SendParameters \<Rightarrow>
   SendContext \<Rightarrow> callback_ref option \<Rightarrow> ('blob, 't) StreamSocket \<Rightarrow>
   (ntsa_error \<times> ('blob, 't) StreamSocket) option" where
  "privateSendRaw_blob L T a data counter options setting callback s =
     do { (error, context, s1) \<leftarrow>
            (if \<not> SendQueue_hasEntry (sk_sendQueue s)
             then privateEnqueueSendBuffer_blob L T a data (sp_foreignHandle options) s
             else Some (E_OK, (0, False), s));
          if error \<noteq> E_OK \<and> error \<noteq> E_WOULD_BLOCK then Some (error, s1)
          else if fst context = blob_length L data then
            do { s2 \<leftarrow> complete_send (\<lambda>c st cb zq. ZeroCopyQueue_push_blob_callback c data st cb zq)
                        counter options setting callback (snd context) s1;
                 Some (E_OK, s2) }
          else
            do { bsls_assert (fst context < blob_length L data);
                 let dataContainer = blob_erase_front L data (fst context);
                 bsls_assert (blob_length L dataContainer \<noteq> 0);
                 s2 \<leftarrow> push_zero_copy counter (Blob dataContainer) setting callback (snd context) s1;
                 let e = queue_entry a counter options setting context (Blob dataContainer)
                           (blob_length L dataContainer);
                 let e1 = (if callback \<noteq> None \<and> \<not> snd context then setCallback callback e else e);
                 s3 \<leftarrow> push_send_entry L a options context e1 s2;
                 Some (E_OK, s3) } }"

definition privateSendRaw_data ::
  "'blob blob_library \<Rightarrow> 't time_library \<Rightarrow> 't os_answer \<Rightarrow> 'blob Data \<Rightarrow> u64 \<Rightarrow> SendParameters \<Rightarrow>
   SendContext \<Rightarrow> callback_ref option \<Rightarrow> ('blob, 't) StreamSocket \<Rightarrow>
   (ntsa_error \<times> ('blob, 't) StreamSocket) option" where
  "privateSendRaw_data L T a data counter options setting callback s =
     do { (error, context, s1) \<leftarrow>
            (if \<not> SendQueue_hasEntry (sk_sendQueue s)
             then privateEnqueueSendBuffer_data L T a data (sp_foreignHandle options) s
             else Some (E_OK, (0, False), s));
          if error \<noteq> E_OK \<and> error \<noteq> E_WOULD_BLOCK then Some (error, s1)
          else
            do { n \<leftarrow> Data_size L data;
                 if fst context = n then
                   do { s2 \<leftarrow> complete_send (\<lambda>c st cb zq. ZeroCopyQueue_push_data_callback c data st cb zq)
                               counter options setting callback (snd context) s1;
                        Some (E_OK, s2) }
                 else
                   do { bsls_assert (fst context < n);
                        dataContainer \<leftarrow> DataUtil_pop L data (fst context);
                        m \<leftarrow> Data_size L dataContainer;
                        bsls_assert (m \<noteq> 0);
                        s2 \<leftarrow> push_zero_copy counter dataContainer setting callback (snd context) s1;
                        let e = queue_entry a counter options setting context dataContainer m;
                        let e1 = (if callback \<noteq> None then setCallback callback e else e);
                        s3 \<leftarrow> push_send_entry L a options context e1 s2;
                        Some (E_OK, s3) } } }"

text \<open>
  The checks that both overloads of \<open>send\<close> make before they hand the data to \<open>privateSendRaw\<close>,
  the argument \<open>raw\<close>.
\<close>

definition guarded_send ::
  "(u64 \<Rightarrow> SendContext \<Rightarrow> ('blob, 't) StreamSocket \<Rightarrow> (ntsa_error \<times> ('blob, 't) StreamSocket) option) \<Rightarrow>
   SendParameters \<Rightarrow> ('blob, 't) StreamSocket \<Rightarrow> (ntsa_error \<times> ('blob, 't) StreamSocket) option"
  where
  "guarded_send raw options s0 =
     (let counter = sk_sendCounter s0;
          s = s0\<lparr>sk_sendCounter := sk_sendCounter s0 + 1\<rparr>
      in if \<not> OpenState_canSend (sk_openState s) then Some (E_INVALID, s)
         else
           let effectiveHighWatermark =
                 (case sp_highWatermark options of
                    Some w \<Rightarrow> w | None \<Rightarrow> sq_watermarkHigh (sk_sendQueue s))
           in if SendQueue_isHighWatermarkViolated_effective effectiveHighWatermark (sk_sendQueue s)
              then
                let (authorized, q) = SendQueue_authorizeHighWatermarkEvent_effective
                                        effectiveHighWatermark (sk_sendQueue s);
                    s1 = s\<lparr>sk_sendQueue := q\<rparr>
                in Some (E_WOULD_BLOCK,
                         if authorized then announce_write_queue WQ_HIGH_WATERMARK True s1 else s1)
              else raw counter (SendContext_init\<lparr>sc_token := sp_token options\<rparr>) s)"

definition StreamSocket_send_blob ::
  "'blob blob_library \<Rightarrow> 't time_library \<Rightarrow> 't os_answer \<Rightarrow> 'blob \<Rightarrow> SendParameters \<Rightarrow>
   callback_ref option \<Rightarrow> ('blob, 't) StreamSocket \<Rightarrow>
   (ntsa_error \<times> ('blob, 't) StreamSocket) option" where
  "StreamSocket_send_blob L T a data options callback s =
     guarded_send (\<lambda>counter context s1.
       privateSendRaw_blob L T a data counter options context callback s1) options s"

definition StreamSocket_send_data ::
  "'blob blob_library \<Rightarrow> 't time_library \<Rightarrow> 't os_answer \<Rightarrow> 'blob Data \<Rightarrow> SendParameters \<Rightarrow>
   callback_ref option \<Rightarrow> ('blob, 't) StreamSocket \<Rightarrow>
   (ntsa_error \<times> ('blob, 't) StreamSocket) option" where
  "StreamSocket_send_data L T a data options callback s =
     guarded_send (\<lambda>counter context s1.
       privateSendRaw_data L T a data counter options context callback s1) options s"

subsection \<open>A writable socket\<close>

text \<open>
  What both iterations do with the front entry once the system has taken bytes of it: its
  deadline is dropped, and a zero-copied transmission is entered in the zero-copy queue.
\<close>

definition start_entry ::
  "bool \<Rightarrow> ('blob, 't) StreamSocket \<Rightarrow>
   ('blob SendQueueEntry \<times> ('blob, 't) StreamSocket) option" where
  "start_entry zeroCopy s =
     (let q = sk_sendQueue s; zq = sk_zeroCopyQueue s in
      case sq_entryList q of
        [] \<Rightarrow> None
      | e # es \<Rightarrow>
          let (ts, e1) = (if se_deadline e \<noteq> None then closeTimer (setDeadline None e) else ([], e))
          in do { (e2, zq1) \<leftarrow>
                    (if zeroCopy then
                       (if se_zeroCopy e1 then
                          do { (counter, zq1) \<leftarrow> ZeroCopyQueue_push_group (se_id e1) zq;
                               Some (e1, zq1) }
                        else
                          do { (counter, zq1) \<leftarrow>
                                 ZeroCopyQueue_push_shared_callback (se_id e1) (se_data e1)
                                   (se_context e1) (se_callback e1) zq;
                               Some (setCallback None (setZeroCopy True e1), zq1) })
                     else Some (e1, zq));
                  Some (e2, s\<lparr>sk_sendQueue := q\<lparr>sq_entryList := e2 # es,
                                                sq_closedTimers := sq_closedTimers q @ ts\<rparr>,
                              sk_zeroCopyQueue := zq1\<rparr>) })"

text \<open>The front entry has been sent completely: the callback due now, if any, and the pop.\<close>

definition finish_entry ::
  "'blob blob_library \<Rightarrow> 'blob SendQueueEntry \<Rightarrow> ('blob, 't) StreamSocket \<Rightarrow>
   ((SendContext \<times> callback_ref) option \<times> ('blob, 't) StreamSocket) option" where
  "finish_entry L e s =
     do { (due, zq) \<leftarrow>
            (if se_zeroCopy e then
               do { zq \<leftarrow> ZeroCopyQueue_frame (se_id e) (sk_zeroCopyQueue s);
                    Some (if ZeroCopyQueue_ready zq then ZeroCopyQueue_pop zq else (None, zq)) }
             else Some (map_option (\<lambda>cb. (se_context e, cb)) (se_callback e), sk_zeroCopyQueue s));
          (b, q) \<leftarrow> SendQueue_popEntry L (sk_sendQueue s);
          Some (due, s\<lparr>sk_zeroCopyQueue := zq, sk_sendQueue := q\<rparr>) }"

lemma popEntry_length:
  "SendQueue_popEntry L q = Some (b, q') \<Longrightarrow> length (sq_entryList q') < length (sq_entryList q)"
  by (auto simp: SendQueue_popEntry_def Let_def bind_eq_Some_iff split: list.splits prod.splits)

lemma start_entry_length:
  "start_entry z s = Some (e, s') \<Longrightarrow>
   length (sq_entryList (sk_sendQueue s')) = length (sq_entryList (sk_sendQueue s))"
  by (auto simp: start_entry_def Let_def bind_eq_Some_iff split: list.splits prod.splits if_splits)

lemma finish_entry_length:
  "finish_entry L e s = Some (r, s') \<Longrightarrow>
   length (sq_entryList (sk_sendQueue s')) < length (sq_entryList (sk_sendQueue s))"
  by (auto simp: finish_entry_def bind_eq_Some_iff dest: popEntry_length)

text \<open>The loop of a batch over the entries that the bytes sent cover.\<close>

function batch_sent ::
  "'blob blob_library \<Rightarrow> bool \<Rightarrow> nat \<Rightarrow> (SendContext \<times> callback_ref) list \<Rightarrow>
   ('blob, 't) StreamSocket \<Rightarrow>
   ((SendContext \<times> callback_ref) list \<times> ('blob, 't) StreamSocket) option" where
  "batch_sent L zeroCopy numBytesRemaining callbackVector s =
     (if numBytesRemaining = 0 then Some (callbackVector, s)
      else
        do { (e, s1) \<leftarrow> start_entry zeroCopy s;
             if numBytesRemaining \<ge> se_length e then
               do { (due, s2) \<leftarrow> finish_entry L e s1;
                    batch_sent L zeroCopy (numBytesRemaining - se_length e)
                      (callbackVector @ (case due of None \<Rightarrow> [] | Some c \<Rightarrow> [c])) s2 }
             else
               do { q \<leftarrow> SendQueue_popSize L numBytesRemaining (sk_sendQueue s1);
                    Some (callbackVector, s1\<lparr>sk_sendQueue := q\<rparr>) } })"
  by pat_completeness auto
termination
  by (relation "measure (\<lambda>(L, z, n, cs, s). length (sq_entryList (sk_sendQueue s)))")
     (auto dest!: start_entry_length finish_entry_length)

declare batch_sent.simps [simp del]

fun complete_sends ::
  "(SendContext \<times> callback_ref) list \<Rightarrow> ('blob, 't) StreamSocket \<Rightarrow> ('blob, 't) StreamSocket"
  where
  "complete_sends [] s = s"
| "complete_sends ((context, callback) # cs) s =
     complete_sends cs (emit (DispatchSend Send_COMPLETE context callback False) s)"

definition announce_drained :: "('blob, 't) StreamSocket \<Rightarrow> ('blob, 't) StreamSocket" where
  "announce_drained s =
     (let (authorized, q) = SendQueue_authorizeLowWatermarkEvent (sk_sendQueue s);
          s1 = s\<lparr>sk_sendQueue := q\<rparr>
      in if authorized then announce_write_queue WQ_LOW_WATERMARK True s1 else s1)"

definition apply_if_empty :: "('blob, 't) StreamSocket \<Rightarrow> ('blob, 't) StreamSocket" where
  "apply_if_empty s =
     (if \<not> SendQueue_hasEntry (sk_sendQueue s)
      then privateApplyFlowControl FlowControlType.e_SEND False False s else s)"

definition privateSocketWritableIterationBatch ::
  "'blob blob_library \<Rightarrow> 't time_library \<Rightarrow> 't os_answer \<Rightarrow> ('blob, 't) StreamSocket \<Rightarrow>
   (ntsa_error \<times> ('blob, 't) StreamSocket) option" where
  "privateSocketWritableIterationBatch L T a s =
     do { (error, context, s1) \<leftarrow>
            privateEnqueueSendBuffer_data L T a (ConstBufferArray (sk_sendData s)) None s;
          if error \<noteq> E_OK then Some (error, s1)
          else
            do { (callbackVector, s2) \<leftarrow> batch_sent L (snd context) (fst context) [] s1;
                 Some (E_OK,
                   apply_if_empty (announce_drained (complete_sends callbackVector s2))) } }"

definition privateSocketWritableIterationFront ::
  "'blob blob_library \<Rightarrow> 't time_library \<Rightarrow> 't os_answer \<Rightarrow> ('blob, 't) StreamSocket \<Rightarrow>
   (ntsa_error \<times> ('blob, 't) StreamSocket) option" where
  "privateSocketWritableIterationFront L T a s =
     do { e0 \<leftarrow> SendQueue_frontEntry (sk_sendQueue s);
          case se_data e0 of
            Some data \<Rightarrow>
              do { (error, context, s1) \<leftarrow>
                     privateEnqueueSendBuffer_data L T a data (se_foreignHandle e0) s;
                   if error \<noteq> E_OK then Some (error, s1)
                   else
                     do { (e, s2) \<leftarrow> start_entry (snd context) s1;
                          (due, s3) \<leftarrow>
                            (if fst context = se_length e then finish_entry L e s2
                             else
                               do { q \<leftarrow> SendQueue_popSize L (fst context) (sk_sendQueue s2);
                                    Some (None, s2\<lparr>sk_sendQueue := q\<rparr>) });
                          Some (E_OK,
                            apply_if_empty (announce_drained
                              (complete_sends (case due of None \<Rightarrow> [] | Some c \<Rightarrow> [c]) s3))) } }
          | None \<Rightarrow>
              do { (b, q) \<leftarrow> SendQueue_popEntry L (sk_sendQueue s);
                   s1 \<leftarrow> privateShutdownSend (s\<lparr>sk_sendQueue := q\<rparr>);
                   Some (E_OK, apply_if_empty s1) } }"

text \<open>\<open>perSend\<close> is the largest number of buffers the system takes in one call.\<close>

definition privateSocketWritableIteration ::
  "'blob blob_library \<Rightarrow> 't time_library \<Rightarrow> nat \<Rightarrow> 't os_answer \<Rightarrow> ('blob, 't) StreamSocket \<Rightarrow>
   (ntsa_error \<times> ('blob, 't) StreamSocket) option" where
  "privateSocketWritableIteration L T perSend a s =
     (if \<not> SendQueue_hasEntry (sk_sendQueue s) then Some (E_WOULD_BLOCK, s)
      else
        do { (batched, r) \<leftarrow>
               SendQueue_batchNext L perSend (sk_sendData s) (sk_sendOptions s) (sk_sendQueue s);
             let s1 = s\<lparr>sk_sendData := r\<rparr>;
             if batched then privateSocketWritableIterationBatch L T a s1
             else privateSocketWritableIterationFront L T a s1 })"

definition privateRearmAfterSend :: "('blob, 't) StreamSocket \<Rightarrow> ('blob, 't) StreamSocket" where
  "privateRearmAfterSend s =
     (if sk_oneShot s \<and> SendQueue_hasEntry (sk_sendQueue s) \<and>
         wantSend (sk_flowControlState s) \<and> ShutdownState_canSend (sk_shutdownState s)
      then request_reactor ShowWritable s else s)"

text \<open>
  The loop of \<open>processSocketWritable\<close>: each iteration takes the next answer of the system.
  \<^term>\<open>None\<close> at the end of the list stands for an answer that was not given.
\<close>

fun writable_loop ::
  "'blob blob_library \<Rightarrow> 't time_library \<Rightarrow> nat \<Rightarrow> 't os_answer list \<Rightarrow> ('blob, 't) StreamSocket \<Rightarrow>
   (ntsa_error \<times> ('blob, 't) StreamSocket) option" where
  "writable_loop L T perSend [] s =
     (if SendQueue_hasEntry (sk_sendQueue s) then None else Some (E_OK, s))"
| "writable_loop L T perSend (a # as) s =
     (if \<not> SendQueue_hasEntry (sk_sendQueue s) then Some (E_OK, s)
      else
        do { (error, s1) \<leftarrow> privateSocketWritableIteration L T perSend a s;
             if error \<noteq> E_OK then Some (error, s1)
             else if \<not> sk_sendGreedily s1 then Some (E_OK, s1)
             else if \<not> ShutdownState_canSend (sk_shutdownState s1) then Some (E_OK, s1)
             else writable_loop L T perSend as s1 })"

definition processSocketWritable ::
  "'blob blob_library \<Rightarrow> 't time_library \<Rightarrow> nat \<Rightarrow> 't os_answer list \<Rightarrow> ('blob, 't) StreamSocket \<Rightarrow>
   ('blob, 't) StreamSocket option" where
  "processSocketWritable L T perSend as s =
     (if ds_mode (sk_detachState s) = e_INITIATED then Some s
      else if \<not> ShutdownState_canSend (sk_shutdownState s) then Some s
      else
        do { (error, s1) \<leftarrow> writable_loop L T perSend as s;
             if error \<noteq> E_OK \<and> error \<noteq> E_WOULD_BLOCK then privateFail L error s1
             else Some (privateRearmAfterSend s1) })"

definition processSocketError ::
  "'blob blob_library \<Rightarrow> ntsa_error \<Rightarrow> ('blob, 't) StreamSocket \<Rightarrow> ('blob, 't) StreamSocket option"
  where
  "processSocketError L error s =
     (if ds_mode (sk_detachState s) = e_INITIATED then Some s else privateFail L error s)"

subsection \<open>Timers, cancellation and notifications\<close>

definition processSendRateTimer :: "('blob, 't) StreamSocket \<Rightarrow> ('blob, 't) StreamSocket" where
  "processSendRateTimer s =
     announce_write_queue WQ_RATE_LIMIT_RELAXED False
       (privateRelaxFlowControl FlowControlType.e_SEND False True s)"

definition processSendDeadlineTimer ::
  "'blob blob_library \<Rightarrow> u64 \<Rightarrow> ('blob, 't) StreamSocket \<Rightarrow> ('blob, 't) StreamSocket option" where
  "processSendDeadlineTimer L entryId s =
     do { (becameEmpty, callback, context, q) \<leftarrow> removeEntryId_context L entryId (sk_sendQueue s);
          let s1 = s\<lparr>sk_sendQueue := q\<rparr>;
          let s2 = (if becameEmpty
                    then privateApplyFlowControl FlowControlType.e_SEND False False s1 else s1);
          Some (case callback of
                  None \<Rightarrow> s2
                | Some cb \<Rightarrow>
                    emit (DispatchSend Send_ERROR (context\<lparr>sc_error := E_WOULD_BLOCK\<rparr>) cb False) s2) }"

definition StreamSocket_cancel ::
  "'blob blob_library \<Rightarrow> u64 \<Rightarrow> ('blob, 't) StreamSocket \<Rightarrow>
   (ntsa_error \<times> ('blob, 't) StreamSocket) option" where
  "StreamSocket_cancel L token s =
     do { (becameEmpty, callback, context, q) \<leftarrow>
            removeEntryToken_context L SendContext_init token (sk_sendQueue s);
          let s1 = s\<lparr>sk_sendQueue := q\<rparr>;
          let s2 = (if becameEmpty
                    then privateApplyFlowControl FlowControlType.e_SEND True False s1 else s1);
          Some (case callback of
                  None \<Rightarrow> (E_INVALID, s2)
                | Some cb \<Rightarrow>
                    (E_OK,
                     emit (DispatchSend Send_ERROR (context\<lparr>sc_error := E_CANCELLED\<rparr>) cb True) s2)) }"

lemma pop_loop_length: "pop_loop ds = (Some c, ds') \<Longrightarrow> length ds' < length ds"
  by (induction ds) (auto split: option.splits intro: less_SucI)

text \<open>The loop of \<open>privateZeroCopyUpdate\<close>: callbacks are popped until none is found.\<close>

function drain_zero_copy ::
  "'blob ZeroCopyQueue \<Rightarrow> (SendContext \<times> callback_ref) list \<times> 'blob ZeroCopyQueue" where
  "drain_zero_copy zq =
     (case ZeroCopyQueue_pop zq of
        (None, zq1) \<Rightarrow> ([], zq1)
      | (Some c, zq1) \<Rightarrow> (let (cs, zq2) = drain_zero_copy zq1 in (c # cs, zq2)))"
  by pat_completeness auto
termination
  by (relation "measure (\<lambda>zq. length (zq_doneList zq))")
     (auto simp: ZeroCopyQueue_pop_def dest: pop_loop_length split: prod.splits)

declare drain_zero_copy.simps [simp del]

datatype ZeroCopyType = e_AVOIDED | e_DEFERRED

definition privateZeroCopyUpdate ::
  "ZeroCopyType \<Rightarrow> u32 \<times> u32 \<Rightarrow> ('blob, 't) StreamSocket \<Rightarrow> ('blob, 't) StreamSocket" where
  "privateZeroCopyUpdate ty zeroCopy s =
     (let s1 = (if ty \<noteq> e_AVOIDED \<and> sk_zeroCopyThreshold s \<noteq> k_ZERO_COPY_NEVER
                then s\<lparr>sk_zeroCopyThreshold := k_ZERO_COPY_NEVER\<rparr> else s);
          zq = snd (ZeroCopyQueue_update zeroCopy (sk_zeroCopyQueue s1))
      in if ZeroCopyQueue_ready zq then
           let (cs, zq1) = drain_zero_copy zq
           in complete_sends cs (s1\<lparr>sk_zeroCopyQueue := zq1\<rparr>)
         else s1\<lparr>sk_zeroCopyQueue := zq\<rparr>)"

definition privateRearmAfterNotification ::
  "('blob, 't) StreamSocket \<Rightarrow> ('blob, 't) StreamSocket" where
  "privateRearmAfterNotification s = (if sk_oneShot s then request_reactor ShowNotifications s else s)"

definition processNotifications ::
  "(ZeroCopyType \<times> u32 \<times> u32) list \<Rightarrow> ('blob, 't) StreamSocket \<Rightarrow> ('blob, 't) StreamSocket" where
  "processNotifications notifications s =
     privateRearmAfterNotification
       (fold (\<lambda>(ty, from_thru) s. privateZeroCopyUpdate ty from_thru s) notifications s)"

end
