(* ===== verification/Stream_Receive.thy ===== *)
theory Stream_Receive
  imports Stream_Send
begin

section \<open>The receive path of a reactor stream socket\<close>

text \<open>
  This theory models the operations of \<open>ntcr::StreamSocket\<close> (\<open>ntcr_streamsocket.cpp\<close>) that receive:
  the handling of a readable socket, the synchronous and the asynchronous \<open>receive\<close>, the deadline
  and the cancellation of a receive operation, the receive rate timer, and the setters of the
  watermarks and rate limiters. It includes \<open>ntcs::BlobBufferUtil\<close>, which reserves the capacity to
  read into. The theory \<open>Stream_Reception\<close> proves the guarantees of these operations.
\<close>

subsection \<open>Incoming blobs\<close>

text \<open>
  What the receive path uses of \<open>bdlbb::Blob\<close> and \<open>bdlbb::BlobUtil\<close> beside the operations of
  \<open>blob_library\<close>: a new blob of the data pool, the total size of the buffers, the appending of a
  buffer of some capacity, the writing of bytes behind the data followed by \<open>setLength\<close>, and
  the appending of the first bytes of another blob.
\<close>

record 'blob incoming_library =
  ib_create :: "'blob"
  ib_totalSize :: "'blob \<Rightarrow> nat"
  ib_appendBuffer :: "nat \<Rightarrow> 'blob \<Rightarrow> 'blob"
  ib_fill :: "bytes \<Rightarrow> 'blob \<Rightarrow> 'blob"
  ib_append :: "'blob \<Rightarrow> 'blob \<Rightarrow> nat \<Rightarrow> 'blob"

subsection \<open>ntcs::BlobBufferUtil\<close>

definition calculateNumBytesToAllocate ::
  "nat \<Rightarrow> nat \<Rightarrow> nat \<Rightarrow> nat \<Rightarrow> nat \<Rightarrow> nat option" where
  "calculateNumBytesToAllocate n capacity lowWatermark minReceiveSize0 maxReceiveSize =
     do { bsls_assert (capacity \<ge> n);
          bsls_assert (minReceiveSize0 > 0);
          bsls_assert (maxReceiveSize > 0);
          let minReceiveSize =
                (if minReceiveSize0 > maxReceiveSize then maxReceiveSize else minReceiveSize0);
          let toAllocate0 = (if lowWatermark > capacity then lowWatermark - capacity else 0);
          let toBeAvailable = (capacity - n) + toAllocate0;
          let toAllocate1 =
                (if toBeAvailable < minReceiveSize
                 then toAllocate0 + (minReceiveSize - toBeAvailable) else toAllocate0);
          let toAllocate2 =
                (if toBeAvailable > maxReceiveSize
                 then let toAdjust = toBeAvailable - maxReceiveSize
                      in if toAdjust > toAllocate1 then 0 else toAllocate1 - toAdjust
                 else toAllocate1);
          bsls_assert ((capacity - n) + toAllocate2 \<ge> 1);
          bsls_assert (toAllocate2 \<le> maxReceiveSize);
          Some toAllocate2 }"

text \<open>
  The loop that allocates buffers. The capacities of the buffers that the factory allocates are
  given as a list; \<^term>\<open>None\<close> at its end stands for a buffer that was not given.
\<close>

fun reserve_loop ::
  "'blob incoming_library \<Rightarrow> nat list \<Rightarrow> nat \<Rightarrow> nat \<Rightarrow> 'blob \<Rightarrow> 'blob option" where
  "reserve_loop I buffers numBytesAllocated numBytesToAllocate readQueue =
     (if numBytesAllocated < numBytesToAllocate then
        case buffers of
          [] \<Rightarrow> None
        | capacity # bs \<Rightarrow>
            reserve_loop I bs (numBytesAllocated + capacity) numBytesToAllocate
              (ib_appendBuffer I capacity readQueue)
      else Some readQueue)"

declare reserve_loop.simps [simp del]

definition reserveCapacity ::
  "'blob blob_library \<Rightarrow> 'blob incoming_library \<Rightarrow> nat list \<Rightarrow> nat \<Rightarrow> nat \<Rightarrow> nat \<Rightarrow> 'blob \<Rightarrow>
   'blob option" where
  "reserveCapacity L I buffers lowWatermark minReceiveSize maxReceiveSize readQueue =
     do { bsls_assert (minReceiveSize > 0);
          bsls_assert (maxReceiveSize > 0);
          numBytesToAllocate \<leftarrow>
            calculateNumBytesToAllocate (blob_length L readQueue) (ib_totalSize I readQueue)
              lowWatermark minReceiveSize maxReceiveSize;
          b \<leftarrow> reserve_loop I buffers 0 numBytesToAllocate readQueue;
          bsls_assert (ib_totalSize I b - blob_length L b \<ge> min minReceiveSize maxReceiveSize);
          Some b }"

subsection \<open>What the surroundings answer\<close>

text \<open>
  One system call to receive, with the readings the operation takes around it: the time, the
  capacities of the buffers the factory allocates, the error of the call, the number of bytes
  that the limits on one call allow, the bytes there are to read, a handle passed along, and the
  reading of the high-resolution timer.
\<close>

record 't in_answer =
  in_now :: 't
  in_buffers :: "nat list"
  in_error :: ntsa_error
  in_limit :: nat
  in_bytes :: bytes
  in_foreignHandle :: "handle option"
  in_timestamp :: int

text \<open>\<open>ntsa::ReceiveContext\<close>, as far as it is read.\<close>

record SystemReceiveContext =
  rx_bytesReceivable :: nat
  rx_bytesReceived :: nat
  rx_foreignHandle :: "handle option"

definition SystemReceiveContext_init :: SystemReceiveContext where
  "SystemReceiveContext_init =
     \<lparr>rx_bytesReceivable = 0, rx_bytesReceived = 0, rx_foreignHandle = None\<rparr>"

text \<open>
  \<open>ntsu::SocketUtil::receive\<close> into a blob, with the result of \<open>recvmsg\<close> given by the answer. The
  result is the error, the context and the blob.
\<close>

definition SocketUtil_receive ::
  "'blob blob_library \<Rightarrow> 'blob incoming_library \<Rightarrow> 't in_answer \<Rightarrow> 'blob \<Rightarrow>
   ntsa_error \<times> SystemReceiveContext \<times> 'blob" where
  "SocketUtil_receive L I a blob =
     (let context = SystemReceiveContext_init;
          capacity = ib_totalSize I blob - blob_length L blob
      in if capacity = 0 then (E_INVALID, context, blob)
         else
           let context1 = context\<lparr>rx_bytesReceivable := min (in_limit a) capacity\<rparr>
           in if in_error a \<noteq> E_OK then (in_error a, context1, blob)
              else
                let bytes = take (rx_bytesReceivable context1) (in_bytes a)
                in (E_OK,
                    context1\<lparr>rx_bytesReceived := length bytes, rx_foreignHandle := in_foreignHandle a\<rparr>,
                    ib_fill I bytes blob))"

subsection \<open>Reading from the operating system\<close>

definition privateThrottleReceiveBuffer ::
  "'t time_library \<Rightarrow> 't \<Rightarrow> ('blob, 't) StreamSocket \<Rightarrow>
   (ntsa_error \<times> ('blob, 't) StreamSocket) option" where
  "privateThrottleReceiveBuffer T now s =
     (case sk_receiveRateLimiter s of
        None \<Rightarrow> Some (E_OK, s)
      | Some rl \<Rightarrow>
          do { (exceeds, rl1) \<leftarrow> wouldExceedBandwidth T now rl;
               let s1 = s\<lparr>sk_receiveRateLimiter := Some rl1\<rparr>;
               if exceeds then
                 do { (timeToSubmit, rl2) \<leftarrow> RateLimiter_calculateTimeToSubmit T now rl1;
                      let s2 = privateApplyFlowControl FlowControlType.e_RECEIVE False True
                                 (s1\<lparr>sk_receiveRateLimiter := Some rl2\<rparr>);
                      if \<not> ShutdownState_canReceive (sk_shutdownState s2) then Some (E_INVALID, s2)
                      else
                        let s3 = emit (ScheduleReceiveRateTimer now timeToSubmit)
                                   (s2\<lparr>sk_receiveRateTimer := True\<rparr>)
                        in Some (E_WOULD_BLOCK, announce_read_queue RQ_RATE_LIMIT_APPLIED True s3) }
               else Some (E_OK, s1) })"

definition submit_receive_rate ::
  "nat \<Rightarrow> ('blob, 't) StreamSocket \<Rightarrow> ('blob, 't) StreamSocket option" where
  "submit_receive_rate n s =
     (case sk_receiveRateLimiter s of
        None \<Rightarrow> Some s
      | Some rl \<Rightarrow>
          do { rl1 \<leftarrow> RateLimiter_submit (of_nat n) rl;
               Some (s\<lparr>sk_receiveRateLimiter := Some rl1\<rparr>) })"

text \<open>\<open>set_incoming\<close> is the blob of the receive queue after it has been modified in place.\<close>

definition set_incoming :: "'blob \<Rightarrow> ('blob, 't) StreamSocket \<Rightarrow> ('blob, 't) StreamSocket" where
  "set_incoming b s = s\<lparr>sk_receiveQueue := (sk_receiveQueue s)\<lparr>rq_data := Some b\<rparr>\<rparr>"

definition privateDequeueReceiveBufferRaw ::
  "'blob blob_library \<Rightarrow> 'blob incoming_library \<Rightarrow> 't time_library \<Rightarrow> 't in_answer \<Rightarrow>
   ('blob, 't) StreamSocket \<Rightarrow>
   (ntsa_error \<times> SystemReceiveContext \<times> ('blob, 't) StreamSocket) option" where
  "privateDequeueReceiveBufferRaw L I T a s =
     (if \<not> sk_socket s then Some (E_INVALID, SystemReceiveContext_init, s)
      else
        do { (error, s1) \<leftarrow> privateThrottleReceiveBuffer T (in_now a) s;
             if error \<noteq> E_OK then Some (error, SystemReceiveContext_init, s1)
             else
               do { data \<leftarrow> rq_data (sk_receiveQueue s1);
                    let (error, context, data1) = SocketUtil_receive L I a data;
                    if error \<noteq> E_OK then
                      (if error = E_EOF then
                         do { s2 \<leftarrow> privateShutdownReceive e_REMOTE s1; Some (error, context, s2) }
                       else Some (error, context, s1))
                    else
                      do { let s2 = emit (SystemReceive
                                      (take (rx_bytesReceivable context) (in_bytes a)))
                                      (set_incoming data1 s1);
                           f \<leftarrow> setFeedback (rx_bytesReceivable context) (rx_bytesReceived context)
                                  (sk_receiveFeedback s2);
                           s3 \<leftarrow> submit_receive_rate (rx_bytesReceived context)
                                   (s2\<lparr>sk_receiveFeedback := f\<rparr>);
                           if rx_bytesReceived context > 0
                           then Some (E_OK, context,
                             s3\<lparr>sk_totalBytesReceived :=
                                  sk_totalBytesReceived s3 + rx_bytesReceived context\<rparr>)
                           else
                             do { s4 \<leftarrow> privateShutdownReceive e_REMOTE s3;
                                  Some (E_EOF, context, s4) } } } })"

text \<open>\<open>privateDequeueReceiveBuffer\<close> for a socket with neither encryption nor compression.\<close>

definition privateDequeueReceiveBuffer ::
  "'blob blob_library \<Rightarrow> 'blob incoming_library \<Rightarrow> 't time_library \<Rightarrow> 't in_answer \<Rightarrow>
   ('blob, 't) StreamSocket \<Rightarrow>
   (ntsa_error \<times> SystemReceiveContext \<times> ('blob, 't) StreamSocket) option" where
  "privateDequeueReceiveBuffer L I T a s =
     do { data \<leftarrow> rq_data (sk_receiveQueue s);
          data1 \<leftarrow> reserveCapacity L I (in_buffers a) (rq_watermarkLow (sk_receiveQueue s))
                    (rf_current (sk_receiveFeedback s)) (rf_maximum (sk_receiveFeedback s)) data;
          (error, context, s1) \<leftarrow> privateDequeueReceiveBufferRaw L I T a (set_incoming data1 s);
          if error \<noteq> E_OK then Some (error, context, s1)
          else
            do { let entry = ReceiveQueueEntry_setTimestamp (in_timestamp a)
                               (ReceiveQueueEntry_setLength (rx_bytesReceived context)
                                 ReceiveQueueEntry_init);
                 let entry1 = (case rx_foreignHandle context of
                                 Some h \<Rightarrow> ReceiveQueueEntry_setForeignHandle h entry
                               | None \<Rightarrow> entry);
                 (becameNonEmpty, q) \<leftarrow> ReceiveQueue_pushEntry entry1 (sk_receiveQueue s1);
                 Some (E_OK, context, s1\<lparr>sk_receiveQueue := q\<rparr>) } }"

subsection \<open>Taking data from the receive queue\<close>

text \<open>
  The loop over the entries of the receive queue that the readable handler and both forms of
  \<open>receive\<close> have: it ends when the queue is empty, when an entry is taken in part or when the
  greatest size is reached. A second handle passed along is closed.
\<close>

lemma receive_popEntry_length:
  "ReceiveQueue_popEntry q = Some (b, q') \<Longrightarrow> length (rq_entryList q') < length (rq_entryList q)"
  by (auto simp: ReceiveQueue_popEntry_def bind_eq_Some_iff Let_def split: list.splits if_splits)

definition take_foreign_handle ::
  "'blob ReceiveQueueEntry \<Rightarrow> handle option \<Rightarrow> ('blob, 't) StreamSocket \<Rightarrow>
   handle option \<times> ('blob, 't) StreamSocket" where
  "take_foreign_handle entry foreignHandle s =
     (case re_foreignHandle entry of
        None \<Rightarrow> (foreignHandle, s)
      | Some h \<Rightarrow>
          (if foreignHandle \<noteq> None then (foreignHandle, emit (CloseForeignHandle h) s)
           else (Some h, s)))"

function dequeue_loop ::
  "nat \<Rightarrow> nat \<Rightarrow> nat \<Rightarrow> handle option \<Rightarrow> ('blob, 't) StreamSocket \<Rightarrow>
   (nat \<times> handle option \<times> ('blob, 't) StreamSocket) option" where
  "dequeue_loop maxSize numBytesRemaining numBytesDequeued foreignHandle s =
     (case rq_entryList (sk_receiveQueue s) of
        [] \<Rightarrow> Some (numBytesDequeued, foreignHandle, s)
      | entry # es \<Rightarrow>
          do { let numBytesToDequeue = min numBytesRemaining (re_length entry);
               let dequeued = numBytesDequeued + numBytesToDequeue;
               bsls_assert (dequeued \<le> maxSize);
               bsls_assert (numBytesRemaining \<ge> numBytesToDequeue);
               let remaining = numBytesRemaining - numBytesToDequeue;
               let (foreignHandle1, s1) = take_foreign_handle entry foreignHandle s;
               if numBytesToDequeue = re_length entry then
                 do { (becameEmpty, q) \<leftarrow> ReceiveQueue_popEntry (sk_receiveQueue s);
                      let s2 = s1\<lparr>sk_receiveQueue := q\<rparr>;
                      if becameEmpty \<or> remaining = 0 then Some (dequeued, foreignHandle1, s2)
                      else dequeue_loop maxSize remaining dequeued foreignHandle1 s2 }
               else
                 do { q \<leftarrow> ReceiveQueue_popSize numBytesToDequeue (sk_receiveQueue s);
                      Some (dequeued, foreignHandle1, s1\<lparr>sk_receiveQueue := q\<rparr>) } })"
  by pat_completeness auto
termination
  by (relation "measure (\<lambda>(m, r, d, h, s). length (rq_entryList (sk_receiveQueue s)))")
     (auto dest!: receive_popEntry_length)

declare dequeue_loop.simps [simp del]

text \<open>
  The part around that loop: the checks before and after it, and the transfer of the bytes from
  the blob of the receive queue to the destination.
\<close>

definition dequeue_data ::
  "'blob blob_library \<Rightarrow> 'blob incoming_library \<Rightarrow> 'blob \<Rightarrow> ReceiveOptions \<Rightarrow> ('blob, 't) StreamSocket \<Rightarrow>
   ('blob \<times> handle option \<times> ('blob, 't) StreamSocket) option" where
  "dequeue_data L I destination options s =
     do { bsls_assert (ReceiveQueue_hasEntry (sk_receiveQueue s));
          b0 \<leftarrow> rq_data (sk_receiveQueue s);
          bsls_assert (rq_size (sk_receiveQueue s) = blob_length L b0);
          minSize \<leftarrow> ReceiveOptions_minSize options;
          maxSize \<leftarrow> ReceiveOptions_maxSize options;
          (numBytesDequeued, foreignHandle, s1) \<leftarrow> dequeue_loop maxSize maxSize 0 None s;
          bsls_assert (numBytesDequeued \<ge> minSize);
          bsls_assert (numBytesDequeued \<le> maxSize);
          b \<leftarrow> rq_data (sk_receiveQueue s1);
          let data = ib_append I destination b numBytesDequeued;
          let s2 = set_incoming (blob_erase_front L b numBytesDequeued) s1;
          b1 \<leftarrow> rq_data (sk_receiveQueue s2);
          bsls_assert (rq_size (sk_receiveQueue s2) = blob_length L b1);
          Some (data, foreignHandle, s2) }"

subsection \<open>A readable socket\<close>

text \<open>The loop over the callback entries that the data queued satisfies.\<close>

lemma popCallback_length:
  "ReceiveQueue_popCallbackEntry store None q = Some (E_OK, Some n, q') \<Longrightarrow>
   length (rcq_entryList (rq_callbackQueue q')) < length (rcq_entryList (rq_callbackQueue q))"
  by (auto simp: ReceiveQueue_popCallbackEntry_def ReceiveCallbackQueue_pop_def bind_eq_Some_iff
      split: if_splits list.splits)

lemma popEntry_callbackQueue:
  "ReceiveQueue_popEntry q = Some (b, q') \<Longrightarrow> rq_callbackQueue q' = rq_callbackQueue q"
  by (auto simp: ReceiveQueue_popEntry_def ReceiveQueue_rearm_def bind_eq_Some_iff Let_def
      split: list.splits if_splits)

lemma popSize_callbackQueue:
  "ReceiveQueue_popSize n q = Some q' \<Longrightarrow> rq_callbackQueue q' = rq_callbackQueue q"
  by (auto simp: ReceiveQueue_popSize_def ReceiveQueue_rearm_def bind_eq_Some_iff Let_def
      split: list.splits if_splits)

lemma take_foreign_handle_queue:
  "take_foreign_handle entry h s = (h', s') \<Longrightarrow> sk_receiveQueue s' = sk_receiveQueue s"
  by (auto simp: take_foreign_handle_def emit_def split: option.splits if_splits)

lemma dequeue_loop_callbackQueue:
  "dequeue_loop m r d h s = Some (n, h', s') \<Longrightarrow>
   rq_callbackQueue (sk_receiveQueue s') = rq_callbackQueue (sk_receiveQueue s)"
proof (induction m r d h s rule: dequeue_loop.induct)
  case (1 m r d h s)
  show ?case
  proof (cases "rq_entryList (sk_receiveQueue s)")
    case Nil
    with 1(2) show ?thesis by (simp add: dequeue_loop.simps)
  next
    case (Cons e es)
    obtain h1 s1 where f: "take_foreign_handle e h s = (h1, s1)" by fastforce
    note run = 1(2) [unfolded dequeue_loop.simps [of m r d h s] Cons list.case]
    show ?thesis
    proof (cases "min r (re_length e) = re_length e")
      case True
      then obtain b q where q: "ReceiveQueue_popEntry (sk_receiveQueue s) = Some (b, q)"
        using run by (auto simp: f bind_eq_Some_iff Let_def split: if_splits)
      then show ?thesis
        using run 1(1) [OF Cons refl refl _ _ refl f [symmetric] refl True q refl refl]
          popEntry_callbackQueue [OF q] True
        by (auto simp: f bind_eq_Some_iff Let_def split: if_splits)
    next
      case False
      then show ?thesis
        using run
        by (auto simp: f bind_eq_Some_iff Let_def dest!: popSize_callbackQueue split: if_splits)
    qed
  qed
qed

lemma dequeue_data_callbackQueue:
  "dequeue_data L I dst options s = Some (data, h, s') \<Longrightarrow>
   rq_callbackQueue (sk_receiveQueue s') = rq_callbackQueue (sk_receiveQueue s)"
  by (auto simp: dequeue_data_def bind_eq_Some_iff set_incoming_def Let_def
      dest!: dequeue_loop_callbackQueue split: if_splits)

function dispatch_receivers ::
  "'blob blob_library \<Rightarrow> 'blob incoming_library \<Rightarrow> ('blob, 't) StreamSocket \<Rightarrow>
   ('blob, 't) StreamSocket option" where
  "dispatch_receivers L I s =
     do { (error, result, q) \<leftarrow>
            ReceiveQueue_popCallbackEntry (sk_receiveEntries s) None (sk_receiveQueue s);
          if error \<noteq> E_OK then Some (s\<lparr>sk_receiveQueue := q\<rparr>)
          else
            do { entry \<leftarrow> result;
                 let options = rc_options (sk_receiveEntries s entry);
                 minSize \<leftarrow> ReceiveOptions_minSize options;
                 bsls_assert (rq_size q \<ge> minSize);
                 (data, foreignHandle, s1) \<leftarrow>
                   dequeue_data L I (ib_create I) options (s\<lparr>sk_receiveQueue := q\<rparr>);
                 dispatch_receivers L I
                   (dispatch_receive Receive_COMPLETE
                      (ReceiveContext_init\<lparr>xc_foreignHandle := foreignHandle\<rparr>) (Some data) False
                      entry s1) } }"
  by pat_completeness auto
termination
  by (relation "measure (\<lambda>(L, I, s). length (rcq_entryList (rq_callbackQueue (sk_receiveQueue s))))")
     (auto simp: dispatch_receive_normal dest!: popCallback_length dequeue_data_callbackQueue)

declare dispatch_receivers.simps [simp del]

definition announce_received :: "('blob, 't) StreamSocket \<Rightarrow> ('blob, 't) StreamSocket" where
  "announce_received s =
     (let (low, q) = ReceiveQueue_authorizeLowWatermarkEvent (sk_receiveQueue s);
          s1 = s\<lparr>sk_receiveQueue := q\<rparr>;
          s2 = (if low then announce_read_queue RQ_LOW_WATERMARK False s1 else s1);
          (high, q2) = ReceiveQueue_authorizeHighWatermarkEvent (sk_receiveQueue s2);
          s3 = s2\<lparr>sk_receiveQueue := q2\<rparr>
      in if high
         then announce_read_queue RQ_HIGH_WATERMARK False
                (privateApplyFlowControl FlowControlType.e_RECEIVE False False s3)
         else s3)"

definition privateSocketReadableIteration ::
  "'blob blob_library \<Rightarrow> 'blob incoming_library \<Rightarrow> 't time_library \<Rightarrow> 't in_answer \<Rightarrow>
   ('blob, 't) StreamSocket \<Rightarrow> (ntsa_error \<times> ('blob, 't) StreamSocket) option" where
  "privateSocketReadableIteration L I T a s =
     (if ReceiveQueue_isHighWatermarkViolated (sk_receiveQueue s) then Some (E_WOULD_BLOCK, s)
      else
        do { (error, context, s1) \<leftarrow> privateDequeueReceiveBuffer L I T a s;
             if error \<noteq> E_OK then Some (error, s1)
             else
               do { b \<leftarrow> rq_data (sk_receiveQueue s1);
                    bsls_assert (rq_size (sk_receiveQueue s1) = blob_length L b);
                    s2 \<leftarrow> dispatch_receivers L I s1;
                    Some (E_OK, announce_received s2) } })"

definition privateRearmAfterReceive :: "('blob, 't) StreamSocket \<Rightarrow> ('blob, 't) StreamSocket" where
  "privateRearmAfterReceive s =
     (if sk_oneShot s \<and> \<not> ReceiveQueue_isHighWatermarkViolated (sk_receiveQueue s) \<and>
         wantReceive (sk_flowControlState s) \<and> ShutdownState_canReceive (sk_shutdownState s)
      then request_reactor ShowReadable s else s)"

text \<open>
  The loop of \<open>processSocketReadable\<close>: each iteration takes the next answer of the system.
  \<^term>\<open>None\<close> at the end of the list stands for an answer that was not given.
\<close>

fun readable_loop ::
  "'blob blob_library \<Rightarrow> 'blob incoming_library \<Rightarrow> 't time_library \<Rightarrow> 't in_answer list \<Rightarrow>
   ('blob, 't) StreamSocket \<Rightarrow> (ntsa_error \<times> ('blob, 't) StreamSocket) option" where
  "readable_loop L I T [] s = None"
| "readable_loop L I T (a # as) s =
     do { (error, s1) \<leftarrow> privateSocketReadableIteration L I T a s;
          if error \<noteq> E_OK then Some (error, s1)
          else if \<not> sk_receiveGreedily s1 then Some (E_OK, s1)
          else if \<not> ShutdownState_canReceive (sk_shutdownState s1) then Some (E_OK, s1)
          else readable_loop L I T as s1 }"

definition processSocketReadable ::
  "'blob blob_library \<Rightarrow> 'blob incoming_library \<Rightarrow> 't time_library \<Rightarrow> 't in_answer list \<Rightarrow>
   ('blob, 't) StreamSocket \<Rightarrow> ('blob, 't) StreamSocket option" where
  "processSocketReadable L I T as s =
     (if ds_mode (sk_detachState s) = e_INITIATED then Some s
      else if \<not> ShutdownState_canReceive (sk_shutdownState s) then Some s
      else
        do { (error, s1) \<leftarrow> readable_loop L I T as s;
             if error \<noteq> E_OK \<and> error \<noteq> E_WOULD_BLOCK then privateFail L error s1
             else Some (privateRearmAfterReceive s1) })"

subsection \<open>Receiving\<close>

text \<open>Flow control is relaxed when data taken brings the queue below its high watermark again.\<close>

definition relax_if_drained ::
  "('blob, 't) StreamSocket \<Rightarrow> ('blob, 't) StreamSocket \<Rightarrow> ('blob, 't) StreamSocket" where
  "relax_if_drained before s =
     (if ReceiveQueue_isHighWatermarkViolated (sk_receiveQueue before) \<and>
         \<not> ReceiveQueue_isHighWatermarkViolated (sk_receiveQueue s)
      then privateRelaxFlowControl FlowControlType.e_RECEIVE True False s else s)"

text \<open>The synchronous \<open>receive\<close> returns the error, the context and the blob of the caller.\<close>

definition StreamSocket_receive ::
  "'blob blob_library \<Rightarrow> 'blob incoming_library \<Rightarrow> 'blob \<Rightarrow> ReceiveOptions \<Rightarrow>
   ('blob, 't) StreamSocket \<Rightarrow>
   (ntsa_error \<times> ReceiveContext \<times> 'blob \<times> ('blob, 't) StreamSocket) option" where
  "StreamSocket_receive L I data options s =
     (if \<not> OpenState_canReceive (sk_openState s) then Some (E_INVALID, ReceiveContext_init, data, s)
      else if rq_size (sk_receiveQueue s) = 0 \<and> \<not> ShutdownState_canReceive (sk_shutdownState s)
      then Some (E_EOF, ReceiveContext_init, data, s)
      else
        do { minSize \<leftarrow> ReceiveOptions_minSize options;
             if rq_size (sk_receiveQueue s) \<ge> minSize then
               do { (data1, foreignHandle, s1) \<leftarrow> dequeue_data L I data options s;
                    Some (E_OK, ReceiveContext_init\<lparr>xc_foreignHandle := foreignHandle\<rparr>, data1,
                      relax_if_drained s (emit (ReturnReceive data data1) s1)) }
             else
               Some (E_WOULD_BLOCK, ReceiveContext_init, data,
                 privateRelaxFlowControl FlowControlType.e_RECEIVE True False s) })"

text \<open>A callback entry from the pool, with the callback and the options assigned.\<close>

definition create_receive_entry ::
  "callback_ref option \<Rightarrow> ReceiveOptions \<Rightarrow> ('blob, 't) StreamSocket \<Rightarrow> nat \<times> ('blob, 't) StreamSocket"
  where
  "create_receive_entry callback options s =
     (sk_receiveEntryCount s,
      s\<lparr>sk_receiveEntries := (sk_receiveEntries s)
          (sk_receiveEntryCount s :=
             ReceiveCallbackQueueEntry_assign callback options ReceiveCallbackQueueEntry_init),
        sk_receiveEntryCount := sk_receiveEntryCount s + 1\<rparr>)"

definition StreamSocket_receive_async ::
  "'blob blob_library \<Rightarrow> 'blob incoming_library \<Rightarrow> timer_ref \<Rightarrow> ReceiveOptions \<Rightarrow> callback_ref option \<Rightarrow>
   ('blob, 't) StreamSocket \<Rightarrow> (ntsa_error \<times> ('blob, 't) StreamSocket) option" where
  "StreamSocket_receive_async L I timer options callback s =
     (if \<not> OpenState_canReceive (sk_openState s) then Some (E_INVALID, s)
      else if rq_size (sk_receiveQueue s) = 0 \<and> \<not> ShutdownState_canReceive (sk_shutdownState s)
      then Some (E_EOF, s)
      else
        do { let (entry, s1) = create_receive_entry callback options s;
             ready \<leftarrow> (if ReceiveQueue_hasCallbackEntry (sk_receiveQueue s1) then Some False
                       else do { minSize \<leftarrow> ReceiveOptions_minSize options;
                                 Some (rq_size (sk_receiveQueue s1) \<ge> minSize) });
             if ready then
               do { (data, foreignHandle, s2) \<leftarrow> dequeue_data L I (ib_create I) options s1;
                    Some (E_OK, relax_if_drained s1
                      (dispatch_receive Receive_COMPLETE
                         (ReceiveContext_init\<lparr>xc_foreignHandle := foreignHandle\<rparr>) (Some data)
                         (\<not> ro_recurse options) entry s2)) }
             else
               let s2 = (case ro_deadline options of
                           None \<Rightarrow> s1
                         | Some deadline \<Rightarrow>
                             emit (ScheduleReceiveDeadline timer deadline)
                               (s1\<lparr>sk_receiveEntries := (sk_receiveEntries s1)
                                    (entry := ReceiveCallbackQueueEntry_setTimer (Some timer)
                                                (sk_receiveEntries s1 entry))\<rparr>));
                   q = snd (ReceiveQueue_pushCallbackEntry entry (sk_receiveQueue s2))
               in Some (E_OK, privateRelaxFlowControl FlowControlType.e_RECEIVE True False
                                (s2\<lparr>sk_receiveQueue := q\<rparr>)) })"

subsection \<open>Timers and cancellation\<close>

definition processReceiveRateTimer :: "('blob, 't) StreamSocket \<Rightarrow> ('blob, 't) StreamSocket" where
  "processReceiveRateTimer s =
     announce_read_queue RQ_RATE_LIMIT_RELAXED False
       (privateRelaxFlowControl FlowControlType.e_RECEIVE False True s)"

definition processReceiveDeadlineTimer ::
  "nat \<Rightarrow> ('blob, 't) StreamSocket \<Rightarrow> ('blob, 't) StreamSocket" where
  "processReceiveDeadlineTimer entry s =
     (let (error, q) = ReceiveQueue_removeCallbackEntry entry (sk_receiveQueue s);
          s1 = s\<lparr>sk_receiveQueue := q\<rparr>
      in if error = E_OK
         then dispatch_receive Receive_ERROR (ReceiveContext_init\<lparr>xc_error := E_WOULD_BLOCK\<rparr>) None
                False entry s1
         else s1)"

definition StreamSocket_cancelReceive ::
  "u64 \<Rightarrow> ('blob, 't) StreamSocket \<Rightarrow> (ntsa_error \<times> ('blob, 't) StreamSocket) option" where
  "StreamSocket_cancelReceive token s =
     (let (error, result, q) =
            ReceiveQueue_removeCallbackToken (sk_receiveEntries s) token (sk_receiveQueue s);
          s1 = s\<lparr>sk_receiveQueue := q\<rparr>
      in if error = E_OK then
           do { entry \<leftarrow> result;
                Some (E_OK, dispatch_receive Receive_ERROR
                       (ReceiveContext_init\<lparr>xc_error := E_CANCELLED\<rparr>) None True entry s1) }
         else Some (E_INVALID, s1))"

subsection \<open>Watermarks and rate limiters\<close>

definition announce_overfull :: "('blob, 't) StreamSocket \<Rightarrow> ('blob, 't) StreamSocket" where
  "announce_overfull s =
     (let (authorized, q) = SendQueue_authorizeHighWatermarkEvent (sk_sendQueue s);
          s1 = s\<lparr>sk_sendQueue := q\<rparr>
      in if authorized then announce_write_queue WQ_HIGH_WATERMARK True s1 else s1)"

definition StreamSocket_setWriteQueueLowWatermark ::
  "nat \<Rightarrow> ('blob, 't) StreamSocket \<Rightarrow> ('blob, 't) StreamSocket" where
  "StreamSocket_setWriteQueueLowWatermark low s =
     announce_drained (s\<lparr>sk_sendQueue := SendQueue_setLowWatermark low (sk_sendQueue s)\<rparr>)"

definition StreamSocket_setWriteQueueHighWatermark ::
  "nat \<Rightarrow> ('blob, 't) StreamSocket \<Rightarrow> ('blob, 't) StreamSocket" where
  "StreamSocket_setWriteQueueHighWatermark high s =
     announce_overfull (s\<lparr>sk_sendQueue := SendQueue_setHighWatermark high (sk_sendQueue s)\<rparr>)"

definition StreamSocket_setWriteQueueWatermarks ::
  "nat \<Rightarrow> nat \<Rightarrow> ('blob, 't) StreamSocket \<Rightarrow> ('blob, 't) StreamSocket" where
  "StreamSocket_setWriteQueueWatermarks low high s =
     announce_overfull (announce_drained
       (s\<lparr>sk_sendQueue := SendQueue_setHighWatermark high
                            (SendQueue_setLowWatermark low (sk_sendQueue s))\<rparr>))"

definition StreamSocket_setReadQueueLowWatermark ::
  "nat \<Rightarrow> ('blob, 't) StreamSocket \<Rightarrow> ('blob, 't) StreamSocket" where
  "StreamSocket_setReadQueueLowWatermark low s =
     (let s1 = s\<lparr>sk_receiveQueue := ReceiveQueue_setLowWatermark low (sk_receiveQueue s)\<rparr>
      in if \<not> ReceiveQueue_isLowWatermarkSatisfied (sk_receiveQueue s1)
         then privateRelaxFlowControl FlowControlType.e_RECEIVE True False s1
         else announce_read_queue RQ_LOW_WATERMARK True s1)"

definition StreamSocket_setReadQueueHighWatermark ::
  "nat \<Rightarrow> ('blob, 't) StreamSocket \<Rightarrow> ('blob, 't) StreamSocket" where
  "StreamSocket_setReadQueueHighWatermark high s =
     (let s1 = s\<lparr>sk_receiveQueue := ReceiveQueue_setHighWatermark high (sk_receiveQueue s)\<rparr>
      in if ReceiveQueue_isHighWatermarkViolated (sk_receiveQueue s1)
         then privateApplyFlowControl FlowControlType.e_RECEIVE True False s1 else s1)"

definition StreamSocket_setReadQueueWatermarks ::
  "nat \<Rightarrow> nat \<Rightarrow> ('blob, 't) StreamSocket \<Rightarrow> ('blob, 't) StreamSocket" where
  "StreamSocket_setReadQueueWatermarks low high s =
     (let s1 = s\<lparr>sk_receiveQueue := ReceiveQueue_setHighWatermark high
                   (ReceiveQueue_setLowWatermark low (sk_receiveQueue s))\<rparr>;
          s2 = (if \<not> ReceiveQueue_isLowWatermarkSatisfied (sk_receiveQueue s1)
                then privateRelaxFlowControl FlowControlType.e_RECEIVE True False s1 else s1)
      in if ReceiveQueue_isHighWatermarkViolated (sk_receiveQueue s2)
         then privateApplyFlowControl FlowControlType.e_RECEIVE True False s2 else s2)"

definition StreamSocket_setWriteRateLimiter ::
  "'t RateLimiter option \<Rightarrow> ('blob, 't) StreamSocket \<Rightarrow> ('blob, 't) StreamSocket" where
  "StreamSocket_setWriteRateLimiter rateLimiter s =
     (let s1 = s\<lparr>sk_sendRateLimiter := rateLimiter\<rparr>
      in if rateLimiter = None then
           privateRelaxFlowControl FlowControlType.e_SEND True True
             (if sk_sendRateTimer s1
              then (emit CloseSendRateTimer s1)\<lparr>sk_sendRateTimer := False\<rparr> else s1)
         else s1)"

definition StreamSocket_setReadRateLimiter ::
  "'t RateLimiter option \<Rightarrow> ('blob, 't) StreamSocket \<Rightarrow> ('blob, 't) StreamSocket" where
  "StreamSocket_setReadRateLimiter rateLimiter s =
     (let s1 = s\<lparr>sk_receiveRateLimiter := rateLimiter\<rparr>
      in if rateLimiter = None then
           privateRelaxFlowControl FlowControlType.e_RECEIVE True True
             (if sk_receiveRateTimer s1
              then (emit CloseReceiveRateTimer s1)\<lparr>sk_receiveRateTimer := False\<rparr> else s1)
         else s1)"

end
