(* ===== verification/Stream_Shutdown.thy ===== *)
theory Stream_Shutdown
  imports Stream_Send
begin

section \<open>What a shutdown of a stream socket does\<close>

text \<open>
  This theory summarises the shutdown sequence of a stream socket for the theories on the send
  path: its effect on the two queues, on the log and on the detachment from the reactor.
\<close>

subsection \<open>What a shutdown does to the two queues\<close>

text \<open>
  Either nothing, or the queues are emptied and their callbacks dispatched, and sending is shut
  down from then on.
\<close>

definition sq_callbacks :: "'blob SendQueueEntry list \<Rightarrow> callback_ref list" where
  "sq_callbacks es = concat (map (\<lambda>e. case se_callback e of None \<Rightarrow> [] | Some cb \<Rightarrow> [cb]) es)"

lemma sq_callbacks_simps [simp]:
  "sq_callbacks [] = []"
  "sq_callbacks (e # es) = (case se_callback e of None \<Rightarrow> [] | Some cb \<Rightarrow> [cb]) @ sq_callbacks es"
  "sq_callbacks (es @ fs) = sq_callbacks es @ sq_callbacks fs"
  by (simp_all add: sq_callbacks_def)

definition queues_untouched :: "('blob, 't) StreamSocket \<Rightarrow> ('blob, 't) StreamSocket \<Rightarrow> bool" where
  "queues_untouched s s' \<longleftrightarrow>
     sk_sendQueue s' = sk_sendQueue s \<and> sk_zeroCopyQueue s' = sk_zeroCopyQueue s \<and>
     dispatched (sk_log s') = dispatched (sk_log s)"

definition queues_cleared :: "('blob, 't) StreamSocket \<Rightarrow> ('blob, 't) StreamSocket \<Rightarrow> bool" where
  "queues_cleared s s' \<longleftrightarrow>
     (\<exists>ts. sk_sendQueue s' =
        (sk_sendQueue s)\<lparr>sq_entryList := [], sq_size := 0, sq_closedTimers := ts\<rparr>) \<and>
     sk_zeroCopyQueue s' = (sk_zeroCopyQueue s)\<lparr>zq_waitList := [], zq_doneList := []\<rparr> \<and>
     dispatched (sk_log s') = dispatched (sk_log s) @
       zq_callbacks (sk_zeroCopyQueue s) @ sq_callbacks (sq_entryList (sk_sendQueue s))"

definition send_config :: "('blob, 't) StreamSocket \<Rightarrow> u64 \<times> 't RateLimiter option \<times> bool \<times> bool" where
  "send_config s = (sk_sendCounter s, sk_sendRateLimiter s, sk_sendGreedily s, sk_socket s)"

definition shuts :: "('blob, 't) StreamSocket \<Rightarrow> ('blob, 't) StreamSocket \<Rightarrow> bool" where
  "shuts s s' \<longleftrightarrow>
     send_config s' = send_config s \<and>
     transmissions (sk_log s') = transmissions (sk_log s) \<and>
     (queues_untouched s s' \<or> queues_cleared s s' \<and> \<not> ShutdownState_canSend (sk_shutdownState s')) \<and>
     (ShutdownState_canSend (sk_shutdownState s') \<longrightarrow> ShutdownState_canSend (sk_shutdownState s))"

lemma shuts_refl [simp]: "shuts s s"
  by (simp add: shuts_def queues_untouched_def)

lemma queues_cleared_trans:
  "queues_cleared s t \<Longrightarrow> queues_untouched t u \<Longrightarrow> queues_cleared s u"
  "queues_untouched s t \<Longrightarrow> queues_cleared t u \<Longrightarrow> queues_cleared s u"
  "queues_untouched s t \<Longrightarrow> queues_untouched t u \<Longrightarrow> queues_untouched s u"
  by (auto simp: queues_cleared_def queues_untouched_def)

lemma queues_cleared_twice:
  assumes "queues_cleared s t" and "queues_cleared t u"
  shows "queues_cleared s u"
  using assms by (auto simp: queues_cleared_def zq_callbacks_def)

lemma shuts_trans:
  assumes "shuts s t" and "shuts t u"
  shows "shuts s u"
  using assms queues_cleared_trans queues_cleared_twice unfolding shuts_def by metis

lemma removeAll_loop_callbacks:
  "removeAll_loop es ts result = (ts', out) \<Longrightarrow>
   map snd (send_callbacks out) = map snd (send_callbacks result) @ sq_callbacks es"
proof (induction es arbitrary: ts result)
  case Nil
  then show ?case by simp
next
  case (Cons e es)
  then show ?case
    by (auto simp: send_callbacks_def case_prod_unfold Let_def split: option.splits if_splits)
qed

lemma zero_copy_callbacks_snd:
  "map snd (zero_copy_callbacks (filter (\<lambda>e. ze_callback e \<noteq> None) es)) = entry_callbacks es"
  by (induction es) (auto simp: zero_copy_callbacks_def split: option.splits)

lemma zero_copy_callbacks_append [simp]:
  "zero_copy_callbacks (es @ fs) = zero_copy_callbacks es @ zero_copy_callbacks fs"
  by (simp add: zero_copy_callbacks_def)

lemma shutdown_send_part_cleared:
  "queues_cleared s (shutdown_send_part c d s)"
proof -
  obtain ts out where r: "removeAll_loop (sq_entryList (sk_sendQueue s))
      (sq_closedTimers (sk_sendQueue s)) [] = (ts, out)" by fastforce
  from removeAll_loop_callbacks [OF r]
  have "map snd (send_callbacks out) = sq_callbacks (sq_entryList (sk_sendQueue s))"
    by (simp add: send_callbacks_def)
  then have d: "dispatched (sk_log (shutdown_send_part c d s)) = dispatched (sk_log s) @
      zq_callbacks (sk_zeroCopyQueue s) @ sq_callbacks (sq_entryList (sk_sendQueue s))"
    using r by (cases "sk_sendRateTimer s")
       (simp_all add: shutdown_send_part_def sk_normal ZeroCopyQueue_clear_entries_def
          SendQueue_removeAll_entries_def zero_copy_callbacks_snd zq_callbacks_def Let_def
          del: not_None_eq)
  have z: "sk_zeroCopyQueue (shutdown_send_part c d s) =
      (sk_zeroCopyQueue s)\<lparr>zq_waitList := [], zq_doneList := []\<rparr>"
    using r by (simp add: shutdown_send_part_def sk_normal ZeroCopyQueue_clear_entries_def
        SendQueue_removeAll_entries_def Let_def)
  have "sk_sendQueue (shutdown_send_part c d s) =
      (sk_sendQueue s)\<lparr>sq_entryList := [], sq_size := 0, sq_closedTimers := ts\<rparr>"
    using r by (simp add: shutdown_send_part_def sk_normal ZeroCopyQueue_clear_entries_def
        SendQueue_removeAll_entries_def Let_def)
  with d z show ?thesis unfolding queues_cleared_def by blast
qed


lemma shutdown_send_part_fields [simp]:
  "sk_shutdownState (shutdown_send_part c d s) = sk_shutdownState s"
  "send_config (shutdown_send_part c d s) = send_config s"
  "transmissions (sk_log (shutdown_send_part c d s)) = transmissions (sk_log s)"
  "sk_detachState (shutdown_send_part c d s) = sk_detachState s"
  "sk_detachCallback (shutdown_send_part c d s) = sk_detachCallback s"
  "sk_closeCallback (shutdown_send_part c d s) = sk_closeCallback s"
  by (simp_all add: shutdown_send_part_def send_config_def sk_normal Let_def split: prod.splits)

lemma shutdown_receive_part_fields [simp]:
  "queues_untouched s (shutdown_receive_part c d s)"
  "sk_shutdownState (shutdown_receive_part c d s) = sk_shutdownState s"
  "send_config (shutdown_receive_part c d s) = send_config s"
  "transmissions (sk_log (shutdown_receive_part c d s)) = transmissions (sk_log s)"
  "sk_detachState (shutdown_receive_part c d s) = sk_detachState s"
  "sk_detachCallback (shutdown_receive_part c d s) = sk_detachCallback s"
  "sk_closeCallback (shutdown_receive_part c d s) = sk_closeCallback s"
  by (simp_all add: shutdown_receive_part_def queues_untouched_def send_config_def sk_normal Let_def
      split: prod.splits)

lemma dispatch_close_fields [simp]:
  "queues_untouched s (dispatch_close s)"
  "sk_shutdownState (dispatch_close s) = sk_shutdownState s"
  "send_config (dispatch_close s) = send_config s"
  "transmissions (sk_log (dispatch_close s)) = transmissions (sk_log s)"
  "sk_detachState (dispatch_close s) = sk_detachState s"
  "sk_detachCallback (dispatch_close s) = sk_detachCallback s"
  "sk_closeCallback (dispatch_close s) = None"
  by (simp_all add: dispatch_close_def queues_untouched_def send_config_def sk_normal
      split: option.splits)

text \<open>Whatever an operation of the sequence emits, these parts of the state stay.\<close>

definition same_core :: "('blob, 't) StreamSocket \<Rightarrow> ('blob, 't) StreamSocket \<Rightarrow> bool" where
  "same_core s s' \<longleftrightarrow>
     queues_untouched s s' \<and> sk_shutdownState s' = sk_shutdownState s \<and>
     send_config s' = send_config s \<and> transmissions (sk_log s') = transmissions (sk_log s) \<and>
     sk_detachState s' = sk_detachState s \<and> sk_detachCallback s' = sk_detachCallback s"

lemma same_core_refl [simp]: "same_core s s"
  by (simp add: same_core_def queues_untouched_def)

lemma same_core_trans: "same_core s t \<Longrightarrow> same_core t u \<Longrightarrow> same_core s u"
  by (auto simp: same_core_def queues_untouched_def)

lemma same_core_emit:
  "event_callback ev = [] \<Longrightarrow> event_transmission ev = [] \<Longrightarrow> same_core s (emit ev s)"
  by (simp add: same_core_def queues_untouched_def send_config_def emit_def)

lemma same_core_announce:
  "event_callback ev = [] \<Longrightarrow> event_transmission ev = [] \<Longrightarrow> same_core s (announce ev s)"
  "event_callback ev = [] \<Longrightarrow> event_transmission ev = [] \<Longrightarrow> same_core s (request_reactor ev s)"
  by (simp_all add: announce_def request_reactor_def same_core_emit)

lemma same_core_dispatch_close [simp]: "same_core s (dispatch_close s)"
  by (simp add: same_core_def)

lemma shutdown_completed_part_same:
  "same_core s (shutdown_completed_part c d s) \<and> sk_closeCallback (shutdown_completed_part c d s) = None"
proof -
  define s1 where "s1 = announce (AnnounceShutdown Shutdown_COMPLETE (shutdownOrigin c) d) s"
  define s2 where "s2 = (if sk_reactorPool s1 then request_reactor ReleaseReactor s1 else s1)"
  define r where "r = request_reactor ReleaseHandleReservation s2"
  define s3 where "s3 = (if sk_socket s2
    then emit (if ds_goal (sk_detachState s2) = e_CLOSE then SystemClose else SystemRelease) r else s2)"
  define s4 where "s4 = s3\<lparr>sk_systemHandle := k_INVALID_HANDLE,
                  sk_openState := OpenState_set e_CLOSED (sk_openState s3)\<rparr>"
  define s5 where "s5 = (if sk_manager s4 then emit (AnnounceClosed d) s4 else s4)"
  define s6 where "s6 = (dispatch_close s5)\<lparr>sk_session := False, sk_manager := False\<rparr>"
  have run: "shutdown_completed_part c d s = s6"
    unfolding s6_def s5_def s4_def s3_def r_def s2_def s1_def
    by (simp add: shutdown_completed_part_def Let_def)
  have "same_core s s1" "same_core s1 s2" "same_core s2 r" "same_core r s3 \<or> s3 = s2"
    unfolding s1_def s2_def s3_def r_def by (simp_all add: same_core_announce same_core_emit)
  moreover have "same_core s3 s4"
    unfolding s4_def by (simp add: same_core_def queues_untouched_def send_config_def)
  moreover have "same_core s4 s5" unfolding s5_def by (simp add: same_core_emit)
  moreover have "same_core (dispatch_close s5) s6"
    unfolding s6_def by (simp add: same_core_def queues_untouched_def send_config_def)
  ultimately have "same_core s s6"
    using same_core_dispatch_close [of s5] same_core_trans by metis
  moreover have "sk_closeCallback s6 = None" by (simp add: s6_def)
  ultimately show ?thesis using run by simp
qed

lemma shutdown_completed_part_fields [simp]:
  "queues_untouched s (shutdown_completed_part c d s)"
  "sk_shutdownState (shutdown_completed_part c d s) = sk_shutdownState s"
  "send_config (shutdown_completed_part c d s) = send_config s"
  "transmissions (sk_log (shutdown_completed_part c d s)) = transmissions (sk_log s)"
  "sk_detachState (shutdown_completed_part c d s) = sk_detachState s"
  "sk_detachCallback (shutdown_completed_part c d s) = sk_detachCallback s"
  "sk_closeCallback (shutdown_completed_part c d s) = None"
  using shutdown_completed_part_same [of s c d] by (simp_all add: same_core_def)

definition quiet_step :: "('blob, 't) StreamSocket \<Rightarrow> ('blob, 't) StreamSocket \<Rightarrow> bool" where
  "quiet_step s s' \<longleftrightarrow>
     queues_untouched s s' \<and> send_config s' = send_config s \<and>
     transmissions (sk_log s') = transmissions (sk_log s) \<and>
     sk_shutdownState s' = sk_shutdownState s"

lemma quiet_step_shuts: "quiet_step s s' \<Longrightarrow> shuts s s'"
  by (simp add: quiet_step_def shuts_def)

lemma quiet_steps [simp]:
  "quiet_step s s"
  "quiet_step s (privateRelaxFlowControl direction d lock s)"
  "quiet_step s (privateApplyFlowControl direction d lock s)"
  "quiet_step s (shutdown_system direction' s)"
  "quiet_step s (announce (AnnounceShutdown ty origin d) s)"
  "quiet_step s (announce (AnnounceError e) s)"
  "quiet_step s ((emit (ExecuteDeferred cs) s)\<lparr>sk_deferredCalls := []\<rparr>)"
  "quiet_step s (s\<lparr>sk_detachState := ds\<rparr>)"
  by (simp_all add: quiet_step_def queues_untouched_def send_config_def sk_normal
      shutdown_system_def)

lemma quiet_parts [simp]:
  "quiet_step s (shutdown_receive_part c d s)"
  "quiet_step s (shutdown_completed_part c d s)"
  "quiet_step s (dispatch_close s)"
  by (simp_all add: quiet_step_def)

lemma shutdown_system_fields [simp]:
  "sk_detachState (shutdown_system direction s) = sk_detachState s"
  "sk_detachCallback (shutdown_system direction s) = sk_detachCallback s"
  "sk_closeCallback (shutdown_system direction s) = sk_closeCallback s"
  "sk_shutdownState (shutdown_system direction s) = sk_shutdownState s"
  by (simp_all add: shutdown_system_def sk_normal)

lemma shutdown_send_part_shuts:
  "\<not> ShutdownState_canSend (sk_shutdownState s) \<Longrightarrow> shuts s (shutdown_send_part c d s)"
  using shutdown_send_part_cleared [of s c d] by (simp add: shuts_def)


subsection \<open>The shutdown sequence\<close>

text \<open>
  The detachment callback is held exactly while the detachment is under way, and a detachment
  is started only once the shutdown is complete.
\<close>

definition detach_ok :: "('blob, 't) StreamSocket \<Rightarrow> bool" where
  "detach_ok s \<longleftrightarrow>
     shutdown_inv (sk_shutdownState s) \<and>
     (ds_mode (sk_detachState s) = e_INITIATED \<longleftrightarrow> sk_detachCallback s \<noteq> None) \<and>
     (\<forall>c d. sk_detachCallback s = Some (c, d) \<longrightarrow>
        shutdownCompleted c \<and> ShutdownState_completed (sk_shutdownState s))"

abbreviation detaching :: "('blob, 't) StreamSocket \<Rightarrow> bool" where
  "detaching s \<equiv> ds_mode (sk_detachState s) = e_INITIATED"

lemma not_initiated [simp]: "m \<noteq> e_INITIATED \<longleftrightarrow> m = e_IDLE"
  by (cases m) simp_all

lemma sequenceComplete_ok:
  assumes lock: "lock \<longleftrightarrow> detaching s"
    and send: "shutdownSend c \<Longrightarrow> \<not> ShutdownState_canSend (sk_shutdownState s)"
  shows "\<exists>s'. privateShutdownSequenceComplete c d lock s = Some s' \<and> shuts s s' \<and>
     sk_shutdownState s' = sk_shutdownState s \<and> \<not> detaching s' \<and>
     sk_detachCallback s' = sk_detachCallback s \<and>
     sk_closeCallback s' = (if shutdownCompleted c then None else sk_closeCallback s)"
proof -
  define s1 where "s1 = (if lock
    then s\<lparr>sk_detachState := DetachState_setMode e_IDLE (sk_detachState s)\<rparr> else s)"
  define s2 where "s2 = (if shutdownSend c then shutdown_system Shutdown_SEND s1 else s1)"
  define s3 where "s3 = (if shutdownReceive c then shutdown_system Shutdown_RECEIVE s2 else s2)"
  define s4 where "s4 = (if shutdownInitiated c
    then announce (AnnounceShutdown Shutdown_INITIATED (shutdownOrigin c) d) s3 else s3)"
  define s5 where "s5 = (if shutdownSend c then shutdown_send_part c d s4 else s4)"
  define s6 where "s6 = (if shutdownReceive c then shutdown_receive_part c d s5 else s5)"
  define s7 where "s7 = (if shutdownCompleted c then shutdown_completed_part c d s6 else s6)"
  define s8 where "s8 = (emit (ExecuteDeferred (sk_deferredCalls s7)) s7)\<lparr>sk_deferredCalls := []\<rparr>"
  have "(if lock then
           do { bsls_assert (detaching s);
                Some (s\<lparr>sk_detachState := DetachState_setMode e_IDLE (sk_detachState s)\<rparr>) }
         else do { bsls_assert (\<not> detaching s); Some s }) = Some s1"
    using lock by (simp add: s1_def)
  then have run: "privateShutdownSequenceComplete c d lock s = Some s8"
    unfolding privateShutdownSequenceComplete_def s8_def s7_def s6_def s5_def s4_def s3_def s2_def
    by (simp only: Let_def Option.bind.bind_lunit)
  have "quiet_step s s1" "quiet_step s1 s2" "quiet_step s2 s3" "quiet_step s3 s4"
    "quiet_step s5 s6" "quiet_step s6 s7" "quiet_step s7 s8"
    unfolding s8_def s7_def s6_def s4_def s3_def s2_def s1_def by simp_all
  note q = this
  have st: "sk_shutdownState s4 = sk_shutdownState s" "sk_shutdownState s8 = sk_shutdownState s5"
      "sk_shutdownState s5 = sk_shutdownState s4"
    using q by (auto simp: quiet_step_def s5_def)
  have "shuts s4 s5"
    using send st shutdown_send_part_shuts [of s4] by (simp add: s5_def)
  then have "shuts s s8"
    using q [THEN quiet_step_shuts] shuts_trans by meson
  moreover have "\<not> detaching s1" "sk_detachCallback s1 = sk_detachCallback s"
      "sk_closeCallback s1 = sk_closeCallback s"
    using lock by (auto simp: s1_def ntf_defs)
  moreover have "sk_detachState s6 = sk_detachState s1 \<and> sk_detachCallback s6 = sk_detachCallback s1 \<and>
      sk_closeCallback s6 = sk_closeCallback s1"
  proof -
    have "sk_detachState s4 = sk_detachState s1 \<and> sk_detachCallback s4 = sk_detachCallback s1 \<and>
        sk_closeCallback s4 = sk_closeCallback s1"
      by (simp add: s4_def s3_def s2_def announce_normal)
    then show ?thesis by (simp add: s6_def s5_def)
  qed
  moreover have "sk_detachState s8 = sk_detachState s6 \<and> sk_detachCallback s8 = sk_detachCallback s6 \<and>
      sk_closeCallback s8 = (if shutdownCompleted c then None else sk_closeCallback s6)"
    by (simp add: s8_def s7_def emit_def)
  ultimately show ?thesis using run st by simp
qed

lemma closeFlowControl_ok:
  assumes "\<not> detaching s"
  shows "\<exists>b s'. privateCloseFlowControl d cb s = Some (b, s') \<and> quiet_step s s' \<and>
     sk_closeCallback s' = sk_closeCallback s \<and> (b \<longleftrightarrow> detaching s') \<and>
     sk_detachCallback s' = (if b then Some cb else sk_detachCallback s)"
proof -
  obtain c ctx f where r: "FlowControlState_apply FlowControlContext_init FlowControlType.e_BOTH True
      (sk_flowControlState s) = (c, ctx, f)" using prod_cases3 by blast
  show ?thesis
    using assms
    by (simp add: privateCloseFlowControl_def r sk_normal Let_def quiet_step_def queues_untouched_def
        send_config_def ntf_defs)
qed

text \<open>
  A close callback is dispatched when the shutdown completes, or waits for the detachment.
\<close>

definition close_step :: "('blob, 't) StreamSocket \<Rightarrow> ('blob, 't) StreamSocket \<Rightarrow> bool" where
  "close_step s s' \<longleftrightarrow>
     sk_closeCallback s' = None \<or> detaching s' \<or>
     sk_closeCallback s' = sk_closeCallback s \<and>
     (ShutdownState_completed (sk_shutdownState s') \<longrightarrow> ShutdownState_completed (sk_shutdownState s))"

lemma shutdownSequence_ok:
  assumes ok: "detach_ok s" and idle: "\<not> detaching s"
    and send: "shutdownSend c \<Longrightarrow> \<not> ShutdownState_canSend (sk_shutdownState s)"
    and compl: "shutdownCompleted c \<longleftrightarrow> ShutdownState_completed (sk_shutdownState s)"
  shows "\<exists>s'. privateShutdownSequence c s = Some s' \<and> shuts s s' \<and> detach_ok s' \<and>
     sk_shutdownState s' = sk_shutdownState s \<and>
     (sk_closeCallback s' = None \<or> detaching s' \<or>
      sk_closeCallback s' = sk_closeCallback s \<and> \<not> ShutdownState_completed (sk_shutdownState s'))"
proof (cases "shutdownCompleted c")
  case True
  obtain b s1 where s1: "privateCloseFlowControl True (c, True) s = Some (b, s1)" "quiet_step s s1"
      "sk_closeCallback s1 = sk_closeCallback s" "b \<longleftrightarrow> detaching s1"
      "sk_detachCallback s1 = (if b then Some (c, True) else sk_detachCallback s)"
    using closeFlowControl_ok [OF idle] by blast
  then have st: "sk_shutdownState s1 = sk_shutdownState s" by (simp add: quiet_step_def)
  show ?thesis
  proof (cases b)
    case b: True
    with s1 st True compl ok have "privateShutdownSequence c s = Some s1" "detach_ok s1"
      by (simp_all add: privateShutdownSequence_def detach_ok_def)
    with s1 st b show ?thesis using quiet_step_shuts by auto
  next
    case b: False
    with sequenceComplete_ok [of False s1 c True] s1 st send obtain s2 where
      s2: "privateShutdownSequenceComplete c True False s1 = Some s2" "shuts s1 s2"
        "sk_shutdownState s2 = sk_shutdownState s1" "\<not> detaching s2"
        "sk_detachCallback s2 = sk_detachCallback s1" "sk_closeCallback s2 = None"
      using True by auto
    have "privateShutdownSequence c s = Some s2"
      using True s1 s2 b by (simp add: privateShutdownSequence_def)
    moreover have "detach_ok s2"
      using ok idle s1 s2 b st by (simp add: detach_ok_def)
    ultimately show ?thesis
      using s1(2) s2 st shuts_trans quiet_step_shuts by metis
  qed
next
  case False
  define s1 where "s1 = (if shutdownSend c
    then privateApplyFlowControl FlowControlType.e_SEND True True s else s)"
  define s2 where "s2 = (if shutdownReceive c
    then privateApplyFlowControl FlowControlType.e_RECEIVE True True s1 else s1)"
  have q: "quiet_step s s1" "quiet_step s1 s2" unfolding s1_def s2_def by simp_all
  have f: "sk_shutdownState s2 = sk_shutdownState s" "sk_detachState s2 = sk_detachState s"
      "sk_detachCallback s2 = sk_detachCallback s" "sk_closeCallback s2 = sk_closeCallback s"
    unfolding s1_def s2_def by (simp_all add: sk_normal)
  obtain s3 where s3: "privateShutdownSequenceComplete c True False s2 = Some s3" "shuts s2 s3"
      "sk_shutdownState s3 = sk_shutdownState s2" "\<not> detaching s3"
      "sk_detachCallback s3 = sk_detachCallback s2" "sk_closeCallback s3 = sk_closeCallback s2"
    using sequenceComplete_ok [of False s2 c True] idle f send False by auto
  have "privateShutdownSequence c s = privateShutdownSequenceComplete c True False s2"
    unfolding s1_def s2_def using False by (simp add: privateShutdownSequence_def Let_def)
  with s3 have "privateShutdownSequence c s = Some s3" by simp
  moreover have "detach_ok s3" using ok idle s3 f by (simp add: detach_ok_def)
  moreover have "\<not> ShutdownState_completed (sk_shutdownState s)" using False compl by simp
  ultimately show ?thesis
    using s3 f q shuts_trans quiet_step_shuts by metis
qed

lemma detaching_closed:
  "detach_ok s \<Longrightarrow> detaching s \<Longrightarrow>
   \<not> ShutdownState_canSend (sk_shutdownState s) \<and> \<not> ShutdownState_canReceive (sk_shutdownState s)"
  by (auto simp: detach_ok_def shutdown_inv_def shutdown_accessors Let_def)

lemma shutdownSend_ok:
  assumes ok: "detach_ok s"
  shows "\<exists>s'. privateShutdownSend s = Some s' \<and> shuts s s' \<and> detach_ok s' \<and> close_step s s' \<and>
     \<not> ShutdownState_canSend (sk_shutdownState s') \<and>
     (ShutdownState_canReceive (sk_shutdownState s') \<longrightarrow> ShutdownState_canReceive (sk_shutdownState s))"
proof (cases "ShutdownState_canSend (sk_shutdownState s)")
  case False
  then show ?thesis
    using ok by (simp add: privateShutdownSend_def tryShutdownSend_shut close_step_def)
next
  case True
  then have idle: "\<not> detaching s" using detaching_closed [OF ok] by blast
  have inv: "shutdown_inv (sk_shutdownState s)" using ok by (simp add: detach_ok_def)
  obtain c t where t: "tryShutdownSend ShutdownContext_init (keeps_half_open s) (sk_shutdownState s)
        = Some (True, c, t)" "shutdown_inv t" "shutdownCompleted c \<longleftrightarrow> ShutdownState_completed t"
      "\<not> ShutdownState_canSend t"
      "ShutdownState_canReceive t \<longrightarrow> ShutdownState_canReceive (sk_shutdownState s)"
    using tryShutdownSend_open [OF inv True] by (auto simp: shutdown_inv_def shutdown_accessors)
  have "detach_ok (s\<lparr>sk_shutdownState := t\<rparr>)"
    using ok idle t by (simp add: detach_ok_def)
  with shutdownSequence_ok [of "s\<lparr>sk_shutdownState := t\<rparr>" c] idle t obtain s' where
    s': "privateShutdownSequence c (s\<lparr>sk_shutdownState := t\<rparr>) = Some s'"
      "shuts (s\<lparr>sk_shutdownState := t\<rparr>) s'" "detach_ok s'" "sk_shutdownState s' = t"
      "sk_closeCallback s' = None \<or> detaching s' \<or>
       sk_closeCallback s' = sk_closeCallback s \<and> \<not> ShutdownState_completed t"
    by auto
  moreover have "shuts s s'"
    using s'(2,4) True t(4)
    by (auto simp: shuts_def queues_untouched_def queues_cleared_def send_config_def)
  moreover have "close_step s s'" using s' by (auto simp: close_step_def)
  ultimately show ?thesis using t by (simp add: privateShutdownSend_def)
qed

lemma shutdownReceive_ok:
  assumes ok: "detach_ok s"
  shows "\<exists>s'. privateShutdownReceive origin s = Some s' \<and> shuts s s' \<and> detach_ok s' \<and> close_step s s' \<and>
     \<not> ShutdownState_canReceive (sk_shutdownState s') \<and>
     (ShutdownState_canSend (sk_shutdownState s') \<longrightarrow> ShutdownState_canSend (sk_shutdownState s))"
proof (cases "ShutdownState_canReceive (sk_shutdownState s)")
  case False
  then show ?thesis
    using ok by (simp add: privateShutdownReceive_def tryShutdownReceive_shut close_step_def)
next
  case True
  then have idle: "\<not> detaching s" using detaching_closed [OF ok] by blast
  have inv: "shutdown_inv (sk_shutdownState s)" using ok by (simp add: detach_ok_def)
  obtain c t where t: "tryShutdownReceive ShutdownContext_init (keeps_half_open s) origin
        (sk_shutdownState s) = Some (True, c, t)" "shutdown_inv t"
      "shutdownCompleted c \<longleftrightarrow> ShutdownState_completed t" "\<not> ShutdownState_canReceive t"
      "shutdownSend c \<longrightarrow> \<not> ShutdownState_canSend t"
      "ShutdownState_canSend t \<longrightarrow> ShutdownState_canSend (sk_shutdownState s)"
    using tryShutdownReceive_open [OF inv True] inv
    by (auto simp: shutdown_inv_def shutdown_accessors Let_def)
  have "detach_ok (s\<lparr>sk_shutdownState := t\<rparr>)"
    using ok idle t by (simp add: detach_ok_def)
  with shutdownSequence_ok [of "s\<lparr>sk_shutdownState := t\<rparr>" c] idle t obtain s' where
    s': "privateShutdownSequence c (s\<lparr>sk_shutdownState := t\<rparr>) = Some s'"
      "shuts (s\<lparr>sk_shutdownState := t\<rparr>) s'" "detach_ok s'" "sk_shutdownState s' = t"
      "sk_closeCallback s' = None \<or> detaching s' \<or>
       sk_closeCallback s' = sk_closeCallback s \<and> \<not> ShutdownState_completed t"
    by auto
  moreover have "shuts s s'"
    using s'(2,4) t(6)
    by (auto simp: shuts_def queues_untouched_def queues_cleared_def send_config_def)
  moreover have "close_step s s'" using s' by (auto simp: close_step_def)
  ultimately show ?thesis using t by (simp add: privateShutdownReceive_def)
qed
end
