(* ===== verification/Stream_Invariant.thy ===== *)
theory Stream_Invariant
  imports Stream_Shutdown
begin

section \<open>No assertion of the send path fails\<close>

text \<open>
  This theory shows that the operations of a stream socket keep the send queue, the zero-copy
  queue, the shutdown state and the detachment state consistent with each other, so that no
  assertion fails in any run.
\<close>

subsection \<open>The invariant that ties the send queue to the zero-copy queue\<close>

text \<open>The representations of data from which any number of leading bytes can be removed.\<close>

fun freely_poppable :: "'blob Data \<Rightarrow> bool" where
  "freely_poppable (BlobBuffer b) = True"
| "freely_poppable (ConstBuffer b) = True"
| "freely_poppable (MutableBuffer b) = True"
| "freely_poppable (Blob b) = True"
| "freely_poppable (SharedBlob (Some b)) = True"
| "freely_poppable (String b) = True"
| "freely_poppable _ = False"

definition has_data :: "'blob SendQueueEntry \<Rightarrow> bool" where
  "has_data e \<longleftrightarrow> se_data e \<noteq> None"

text \<open>
  Only the front entry may have been zero-copied, and then the last entry of the zero-copy
  queue's wait list is its own and is not framed; identifiers of data entries increase, stay
  below the counter of sends and above the groups of the zero-copy queue.
\<close>

definition send_inv :: "'blob blob_library \<Rightarrow> 'blob SendQueue \<Rightarrow> 'blob ZeroCopyQueue \<Rightarrow> u64 \<Rightarrow> bool" where
  "send_inv L q zq counter \<longleftrightarrow>
     sq_inv L q \<and>
     (\<forall>e \<in> set (sq_entryList q). \<forall>d. se_data e = Some d \<longrightarrow> freely_poppable d) \<and>
     (\<forall>e \<in> set (sq_entryList q). \<not> has_data e \<longrightarrow> \<not> se_zeroCopy e) \<and>
     (\<forall>e \<in> set (tl (sq_entryList q)). \<not> se_zeroCopy e) \<and>
     (\<forall>e es. sq_entryList q = e # es \<longrightarrow> se_zeroCopy e \<longrightarrow>
        zq_waitList zq \<noteq> [] \<and> ze_group (last (zq_waitList zq)) = se_id e \<and>
        \<not> ze_framed (last (zq_waitList zq))) \<and>
     sorted_wrt (<) (map se_id (filter has_data (sq_entryList q))) \<and>
     (\<forall>e \<in> set (sq_entryList q). has_data e \<longrightarrow> se_id e < counter) \<and>
     (\<forall>w \<in> set (zq_waitList zq). ze_group w < counter) \<and>
     (\<forall>w \<in> set (zq_waitList zq). \<forall>e \<in> set (sq_entryList q).
        has_data e \<longrightarrow> \<not> se_zeroCopy e \<longrightarrow> ze_group w < se_id e)"

lemma send_inv_sq [dest]: "send_inv L q zq counter \<Longrightarrow> sq_inv L q"
  by (simp add: send_inv_def)

subsection \<open>The operations of the zero-copy queue\<close>

lemma new_entry_fields [simp]:
  "ze_group (new_entry grp c) = grp" "\<not> ze_framed (new_entry grp c)"
  "ze_callback (new_entry grp c) = None"
  by (simp_all add: new_entry_def ZeroCopyEntry_setMinCounter_def ZeroCopyEntry_setMaxCounter_def
      ZeroCopyEntry_init_def ntf_defs split: list.splits)

text \<open>A push with a callback appends one unframed entry of the given group.\<close>

definition appends_entry ::
  "u64 \<Rightarrow> callback_ref option \<Rightarrow> 'blob ZeroCopyQueue \<Rightarrow> 'blob ZeroCopyQueue \<Rightarrow> bool" where
  "appends_entry grp cb zq zq' \<longleftrightarrow>
     (\<exists>w. zq_waitList zq' = zq_waitList zq @ [w] \<and> ze_group w = grp \<and> \<not> ze_framed w \<and>
        ze_callback w = cb) \<and> zq_doneList zq' = zq_doneList zq"

lemma push_entry_ok:
  assumes "\<forall>w \<in> set (zq_waitList zq). ze_group w < grp"
    and "\<And>e. ze_group (fill e) = ze_group e" and "\<And>e. ze_framed (fill e) = ze_framed e"
    and "\<And>e. ze_callback e = None \<Longrightarrow> ze_callback (fill e) = cb"
  shows "\<exists>c zq'. push_entry grp fill zq = Some (c, zq') \<and> appends_entry grp cb zq zq'"
  using assms
  by (cases "zq_waitList zq")
     (auto simp: push_entry_def appends_entry_def ZeroCopyCounterGenerator_next_def)

lemma pushes_ok:
  assumes "\<forall>w \<in> set (zq_waitList zq). ze_group w < grp"
  shows "\<exists>c zq'. ZeroCopyQueue_push_shared_callback grp sd ctx cb zq = Some (c, zq') \<and>
           appends_entry grp cb zq zq'"
    and "\<exists>c zq'. ZeroCopyQueue_push_blob_callback grp b ctx cb zq = Some (c, zq') \<and>
           appends_entry grp cb zq zq'"
    and "\<exists>c zq'. ZeroCopyQueue_push_data_callback grp d ctx cb zq = Some (c, zq') \<and>
           appends_entry grp cb zq zq'"
  unfolding ZeroCopyQueue_push_shared_callback_def ZeroCopyQueue_push_blob_callback_def
    ZeroCopyQueue_push_data_callback_def
  by (rule push_entry_ok [OF assms]; simp add: ntf_defs Let_def)+

text \<open>A further push for the same group keeps all that the invariant reads of the wait list.\<close>

definition same_groups :: "'blob ZeroCopyEntry list \<Rightarrow> 'blob ZeroCopyEntry list \<Rightarrow> bool" where
  "same_groups ws ws' \<longleftrightarrow>
     map ze_group ws' = map ze_group ws \<and> map ze_framed ws' = map ze_framed ws \<and>
     map ze_callback ws' = map ze_callback ws"

lemma push_group_ok:
  assumes "zq_waitList zq \<noteq> []" and "ze_group (last (zq_waitList zq)) = grp"
  shows "\<exists>c zq'. ZeroCopyQueue_push_group grp zq = Some (c, zq') \<and>
     same_groups (zq_waitList zq) (zq_waitList zq') \<and> zq_doneList zq' = zq_doneList zq"
proof -
  obtain ws w where w: "zq_waitList zq = ws @ [w]" using assms(1) by (metis append_butlast_last_id)
  with assms show ?thesis
    by (simp add: ZeroCopyQueue_push_group_def ZeroCopyCounterGenerator_next_def same_groups_def)
qed



lemma frame_ok:
  assumes "zq_waitList zq = ws @ [w]" and "ze_group w = grp"
  shows "\<exists>zq'. ZeroCopyQueue_frame grp zq = Some zq' \<and>
     (zq_waitList zq' = ws \<or> (\<exists>v. zq_waitList zq' = ws @ [v] \<and> ze_group v = grp)) \<and>
     mset (zq_callbacks zq') = mset (zq_callbacks zq)"
proof -
  have "\<exists>zq'. ZeroCopyQueue_frame grp zq = Some zq' \<and>
     (zq_waitList zq' = ws \<or> (\<exists>v. zq_waitList zq' = ws @ [v] \<and> ze_group v = grp))"
    using assms by (auto simp: ZeroCopyQueue_frame_def Let_def ntf_defs)
  then show ?thesis using zq_step_conserve [of "ZFrame grp" zq] by fastforce
qed

lemma pop_ok:
  assumes "ZeroCopyQueue_pop zq = (r, zq')"
  shows "zq_waitList zq' = zq_waitList zq"
    and "mset (zq_callbacks zq) =
      mset (case r of None \<Rightarrow> [] | Some (ctx, cb) \<Rightarrow> [cb]) + mset (zq_callbacks zq')"
proof -
  show "zq_waitList zq' = zq_waitList zq"
    using assms by (auto simp: ZeroCopyQueue_pop_def split: prod.splits)
  show "mset (zq_callbacks zq) =
      mset (case r of None \<Rightarrow> [] | Some (ctx, cb) \<Rightarrow> [cb]) + mset (zq_callbacks zq')"
    using assms zq_step_conserve [of ZPop zq] by simp
qed

text \<open>An update removes framed entries only, and keeps the order of the others.\<close>

lemma update_loop_groups:
  assumes "update_loop rng ws ds = (vs, ds')"
  shows "set (map ze_group vs) \<subseteq> set (map ze_group ws)"
    and "ws \<noteq> [] \<Longrightarrow> \<not> ze_framed (last ws) \<Longrightarrow>
         vs \<noteq> [] \<and> ze_group (last vs) = ze_group (last ws) \<and> \<not> ze_framed (last vs)"
proof -
  have "set (map ze_group vs) \<subseteq> set (map ze_group ws) \<and>
     (ws \<noteq> [] \<longrightarrow> \<not> ze_framed (last ws) \<longrightarrow>
      vs \<noteq> [] \<and> ze_group (last vs) = ze_group (last ws) \<and> \<not> ze_framed (last vs))"
    using assms
  proof (induction rng ws ds arbitrary: vs ds' rule: update_loop.induct)
    case (1 rng ds)
    then show ?case by simp
  next
    case (2 rng e es ds)
    let ?e = "ZeroCopyEntry_match rng e"
    consider (stop) "zr_maxCounter rng < ZeroCopyEntry_minCounter e"
      | (complete) "\<not> zr_maxCounter rng < ZeroCopyEntry_minCounter e" "ZeroCopyEntry_complete ?e"
      | (wait) "\<not> zr_maxCounter rng < ZeroCopyEntry_minCounter e" "\<not> ZeroCopyEntry_complete ?e"
      by blast
    then show ?case
    proof cases
      case stop
      with "2.prems" show ?thesis by auto
    next
      case complete
      then have "ze_framed e" by (auto simp: ZeroCopyEntry_complete_def split: if_splits)
      moreover have "update_loop rng es (if ze_callback ?e \<noteq> None then ds @ [?e] else ds) = (vs, ds')"
        using complete "2.prems" by (simp add: Let_def)
      from "2.IH"(1) [OF complete(1) refl complete(2) this]
      have "set (map ze_group vs) \<subseteq> set (map ze_group es)"
        "es \<noteq> [] \<longrightarrow> \<not> ze_framed (last es) \<longrightarrow>
         vs \<noteq> [] \<and> ze_group (last vs) = ze_group (last es) \<and> \<not> ze_framed (last vs)"
        by blast+
      ultimately show ?thesis by (cases "es = []") auto
    next
      case wait
      obtain us ds1 where u: "update_loop rng es ds = (us, ds1)" by fastforce
      with wait "2.prems" have "vs = ?e # us" by (simp add: Let_def)
      moreover from "2.IH"(2) [OF wait(1) refl wait(2) u]
      have "set (map ze_group us) \<subseteq> set (map ze_group es)"
        "es \<noteq> [] \<longrightarrow> \<not> ze_framed (last es) \<longrightarrow>
         us \<noteq> [] \<and> ze_group (last us) = ze_group (last es) \<and> \<not> ze_framed (last us)"
        by blast+
      moreover have "es = [] \<Longrightarrow> us = []" using u by auto
      ultimately show ?thesis by (cases "es = []") auto
    qed
  qed
  then show "set (map ze_group vs) \<subseteq> set (map ze_group ws)"
    and "ws \<noteq> [] \<Longrightarrow> \<not> ze_framed (last ws) \<Longrightarrow>
         vs \<noteq> [] \<and> ze_group (last vs) = ze_group (last ws) \<and> \<not> ze_framed (last vs)"
    by simp_all
qed

subsection \<open>The front entry of the send queue\<close>

text \<open>What the invariant asks of the wait list, for a queue with a given front entry.\<close>

definition waits_ok ::
  "'blob SendQueueEntry \<Rightarrow> 'blob SendQueueEntry list \<Rightarrow> 'blob ZeroCopyEntry list \<Rightarrow> u64 \<Rightarrow> bool" where
  "waits_ok e es ws counter \<longleftrightarrow>
     (if se_zeroCopy e then ws \<noteq> [] \<and> ze_group (last ws) = se_id e \<and> \<not> ze_framed (last ws)
      else \<forall>w \<in> set ws. ze_group w < se_id e) \<and>
     (\<forall>w \<in> set ws. ze_group w < counter) \<and>
     (\<forall>w \<in> set ws. \<forall>x \<in> set es. has_data x \<longrightarrow> ze_group w < se_id x)"

lemma send_inv_front:
  assumes "sq_entryList q = e # es" and "has_data e"
  shows "send_inv L q zq counter \<longleftrightarrow>
     sq_inv L q \<and> (\<forall>d. se_data e = Some d \<longrightarrow> freely_poppable d) \<and> se_id e < counter \<and>
     (\<forall>x \<in> set es. has_data x \<longrightarrow> se_id e < se_id x \<and> se_id x < counter) \<and>
     (\<forall>x \<in> set es. \<not> se_zeroCopy x \<and> (\<forall>d. se_data x = Some d \<longrightarrow> freely_poppable d)) \<and>
     sorted_wrt (<) (map se_id (filter has_data es)) \<and>
     waits_ok e es (zq_waitList zq) counter"
  using assms by (auto simp: send_inv_def waits_ok_def)

lemma waits_ok_same_groups:
  assumes "same_groups ws ws'"
  shows "waits_ok e es ws' counter \<longleftrightarrow> waits_ok e es ws counter"
proof -
  have g: "map ze_group ws' = map ze_group ws" and f: "map ze_framed ws' = map ze_framed ws"
    using assms by (simp_all add: same_groups_def)
  have "set (map ze_group ws') = set (map ze_group ws)" using g by simp
  then have all: "(\<forall>w \<in> set ws'. P (ze_group w)) \<longleftrightarrow> (\<forall>w \<in> set ws. P (ze_group w))" for P
    by (metis (no_types, lifting) imageE image_eqI list.set_map)
  have "ws' = [] \<longleftrightarrow> ws = []" using g by (metis map_is_Nil_conv)
  moreover have "ws \<noteq> [] \<Longrightarrow> ze_group (last ws') = ze_group (last ws) \<and> ze_framed (last ws') = ze_framed (last ws)"
    using g f calculation by (metis last_map)
  ultimately show ?thesis
    using all [of "\<lambda>g. g < se_id e"] all [of "\<lambda>g. g < counter"]
      all [of "\<lambda>g. \<forall>x \<in> set es. has_data x \<longrightarrow> g < se_id x"]
    by (auto simp: waits_ok_def)
qed

text \<open>
  The callbacks held by the two queues. A zero-copied entry has handed its callback on, and the
  marker of a graceful shutdown has none.
\<close>

definition held_callbacks :: "'blob SendQueue \<Rightarrow> 'blob ZeroCopyQueue \<Rightarrow> callback_ref multiset" where
  "held_callbacks q zq = mset (sq_callbacks (sq_entryList q)) + mset (zq_callbacks zq)"

definition handed_on :: "'blob SendQueue \<Rightarrow> bool" where
  "handed_on q \<longleftrightarrow>
     (\<forall>e \<in> set (sq_entryList q). se_zeroCopy e \<or> \<not> has_data e \<longrightarrow> se_callback e = None)"

lemma appends_entry_callbacks:
  "appends_entry grp cb zq zq' \<Longrightarrow>
   zq_callbacks zq' = zq_callbacks zq @ (case cb of None \<Rightarrow> [] | Some c \<Rightarrow> [c])"
  by (auto simp: appends_entry_def zq_callbacks_def)

lemma same_groups_callbacks: "same_groups ws ws' \<Longrightarrow> entry_callbacks ws' = entry_callbacks ws"
proof -
  have e: "entry_callbacks vs =
      concat (map (\<lambda>c. case c of None \<Rightarrow> [] | Some cb \<Rightarrow> [cb]) (map ze_callback vs))"
    for vs :: "'a ZeroCopyEntry list"
    by (simp add: entry_callbacks_def comp_def)
  assume "same_groups ws ws'"
  then show ?thesis by (simp only: e same_groups_def)
qed

text \<open>The entry as it stands once bytes of it are taken.\<close>

definition started :: "bool \<Rightarrow> 'blob SendQueueEntry \<Rightarrow> 'blob SendQueueEntry" where
  "started z e =
     (let e1 = (if se_deadline e \<noteq> None then snd (closeTimer (setDeadline None e)) else e) in
      if z \<and> \<not> se_zeroCopy e then setCallback None (setZeroCopy True e1) else e1)"

lemma started_fields [simp]:
  "se_id (started z e) = se_id e"
  "se_data (started z e) = se_data e"
  "se_length (started z e) = se_length e"
  "se_context (started z e) = se_context e"
  "se_foreignHandle (started z e) = se_foreignHandle e"
  "se_zeroCopy (started z e) = (se_zeroCopy e \<or> z)"
  "se_callback (started z e) = (if z \<and> \<not> se_zeroCopy e then None else se_callback e)"
  "has_data (started z e) = has_data e"
  "entry_ok L (started z e) = entry_ok L e"
  "entry_weight (started z e) = entry_weight e"
  by (auto simp: started_def closeTimer_def has_data_def entry_ok_def entry_weight_def ntf_defs
      Let_def split: option.splits)

lemma waits_ok_started:
  "se_zeroCopy e \<or> \<not> z \<Longrightarrow> waits_ok (started z e) es ws counter = waits_ok e es ws counter"
  by (auto simp: waits_ok_def)

lemma sq_inv_started:
  assumes "sq_inv L q" and "sq_entryList q = e # es"
  shows "sq_inv L (q\<lparr>sq_entryList := started z e # es, sq_closedTimers := ts\<rparr>)"
  using assms by (simp add: sq_inv_def)

lemma start_entry_ok:
  assumes inv: "send_inv L (sk_sendQueue s) (sk_zeroCopyQueue s) counter"
    and es: "sq_entryList (sk_sendQueue s) = e # es" and d: "has_data e"
  shows "\<exists>ts zq. start_entry z s = Some (started z e,
       s\<lparr>sk_sendQueue := (sk_sendQueue s)\<lparr>sq_entryList := started z e # es, sq_closedTimers := ts\<rparr>,
         sk_zeroCopyQueue := zq\<rparr>) \<and>
     send_inv L ((sk_sendQueue s)\<lparr>sq_entryList := started z e # es, sq_closedTimers := ts\<rparr>) zq counter \<and>
     held_callbacks ((sk_sendQueue s)\<lparr>sq_entryList := started z e # es, sq_closedTimers := ts\<rparr>) zq
       = held_callbacks (sk_sendQueue s) (sk_zeroCopyQueue s)"
proof -
  let ?q = "sk_sendQueue s" and ?zq = "sk_zeroCopyQueue s"
  define ts where "ts = sq_closedTimers ?q @
    (if se_deadline e \<noteq> None then fst (closeTimer (setDeadline None e)) else [])"
  define q' where "q' = ?q\<lparr>sq_entryList := started z e # es, sq_closedTimers := ts\<rparr>"
  note front = send_inv_front [OF es d, of L ?zq counter]
  have q': "sq_entryList q' = started z e # es" "sq_inv L q'"
    using inv es sq_inv_started by (auto simp: q'_def front)
  note front' = send_inv_front [OF q'(1), of L _ counter]
  have run: "\<exists>zq. start_entry z s = Some (started z e, s\<lparr>sk_sendQueue := q', sk_zeroCopyQueue := zq\<rparr>) \<and>
      waits_ok (started z e) es (zq_waitList zq) counter \<and> held_callbacks q' zq = held_callbacks ?q ?zq"
  proof (cases z)
    case False
    then have "start_entry z s = Some (started z e, s\<lparr>sk_sendQueue := q', sk_zeroCopyQueue := ?zq\<rparr>)"
      by (auto simp: start_entry_def es started_def q'_def ts_def case_prod_unfold Let_def)
    moreover have "waits_ok (started z e) es (zq_waitList ?zq) counter"
      using inv False by (simp add: front waits_ok_def)
    ultimately show ?thesis
      using False es q'(1) by (intro exI [of _ ?zq]) (simp add: held_callbacks_def)
  next
    case z: True
    show ?thesis
    proof (cases "se_zeroCopy e")
      case True
      with inv have "zq_waitList ?zq \<noteq> []" "ze_group (last (zq_waitList ?zq)) = se_id e"
        by (auto simp: front waits_ok_def)
      from push_group_ok [OF this] obtain c zq where
        p: "ZeroCopyQueue_push_group (se_id e) ?zq = Some (c, zq)"
          "same_groups (zq_waitList ?zq) (zq_waitList zq)" "zq_doneList zq = zq_doneList ?zq"
        by blast
      have "start_entry z s = Some (started z e, s\<lparr>sk_sendQueue := q', sk_zeroCopyQueue := zq\<rparr>)"
        using p True z
        by (auto simp: start_entry_def es started_def q'_def ts_def case_prod_unfold Let_def
            closeTimer_def ntf_defs split: option.splits)
      moreover have "waits_ok (started z e) es (zq_waitList zq) counter"
        using inv True waits_ok_same_groups [OF p(2)] by (simp add: front waits_ok_started)
      moreover have "held_callbacks q' zq = held_callbacks ?q ?zq"
        using True es q'(1) p same_groups_callbacks [OF p(2)]
        by (simp add: held_callbacks_def zq_callbacks_def)
      ultimately show ?thesis by blast
    next
      case False
      with inv have below: "\<forall>w \<in> set (zq_waitList ?zq). ze_group w < se_id e"
        by (auto simp: front waits_ok_def)
      from pushes_ok(1) [OF this] obtain c zq where
        p: "ZeroCopyQueue_push_shared_callback (se_id e) (se_data e) (se_context e) (se_callback e) ?zq
            = Some (c, zq)" "appends_entry (se_id e) (se_callback e) ?zq zq"
        by blast
      have "start_entry z s = Some (started z e, s\<lparr>sk_sendQueue := q', sk_zeroCopyQueue := zq\<rparr>)"
        using p False z
        by (auto simp: start_entry_def es started_def q'_def ts_def case_prod_unfold Let_def
            closeTimer_def ntf_defs split: option.splits)
      moreover have "waits_ok (started z e) es (zq_waitList zq) counter"
        using inv False z p(2) by (auto simp: front waits_ok_def appends_entry_def)
      moreover have "held_callbacks q' zq = held_callbacks ?q ?zq"
        using False z es q'(1) appends_entry_callbacks [OF p(2)]
        by (simp add: held_callbacks_def)
      ultimately show ?thesis by blast
    qed
  qed
  then obtain zq where zq: "start_entry z s = Some (started z e, s\<lparr>sk_sendQueue := q', sk_zeroCopyQueue := zq\<rparr>)"
      "waits_ok (started z e) es (zq_waitList zq) counter"
      "held_callbacks q' zq = held_callbacks ?q ?zq" by blast
  have "send_inv L q' zq counter"
    using inv zq(2) q' d by (simp add: front front')
  with zq show ?thesis unfolding q'_def by blast
qed

lemma send_inv_tail:
  assumes inv: "send_inv L q zq counter" and es: "sq_entryList q = e # es"
    and q': "sq_inv L q'" "sq_entryList q' = es"
    and ws: "set (map ze_group (zq_waitList zq')) \<subseteq> insert (se_id e) (set (map ze_group (zq_waitList zq)))"
      "has_data e \<or> zq_waitList zq' = zq_waitList zq"
  shows "send_inv L q' zq' counter"
proof -
  have nz: "\<forall>x \<in> set es. \<not> se_zeroCopy x" using inv es by (simp add: send_inv_def)
  have below: "ze_group w < counter \<and> (\<forall>x \<in> set es. has_data x \<longrightarrow> ze_group w < se_id x)"
    if w: "w \<in> set (zq_waitList zq')" for w
  proof (cases "ze_group w = se_id e \<and> has_data e")
    case True
    then show ?thesis using inv es by (auto simp: send_inv_def)
  next
    case False
    then obtain v where "v \<in> set (zq_waitList zq)" "ze_group w = ze_group v"
      using ws w by fastforce
    then show ?thesis using inv es nz by (auto simp: send_inv_def)
  qed
  have "sorted_wrt (<) (map se_id (filter has_data es))"
    using inv es by (auto simp: send_inv_def split: if_splits)
  with inv es nz q' below show ?thesis
    unfolding send_inv_def by (cases es) auto
qed

lemma finish_entry_ok:
  assumes inv: "send_inv L (sk_sendQueue s) (sk_zeroCopyQueue s) counter"
    and es: "sq_entryList (sk_sendQueue s) = e # es" and d: "has_data e"
  shows "\<exists>due q zq. finish_entry L e s = Some (due, s\<lparr>sk_zeroCopyQueue := zq, sk_sendQueue := q\<rparr>) \<and>
     sq_entryList q = es \<and> send_inv L q zq counter \<and>
     (handed_on (sk_sendQueue s) \<longrightarrow>
        held_callbacks (sk_sendQueue s) (sk_zeroCopyQueue s) =
          mset (case due of None \<Rightarrow> [] | Some (ctx, cb) \<Rightarrow> [cb]) + held_callbacks q zq)"
proof -
  let ?q = "sk_sendQueue s" and ?zq = "sk_zeroCopyQueue s"
  define q where "q = ?q\<lparr>sq_entryList := es, sq_size := sum_list (map entry_weight es),
             sq_closedTimers := sq_closedTimers ?q @ fst (closeTimer e)\<rparr>"
  have pop: "SendQueue_popEntry L ?q = Some (es = [], q)"
    using popEntry_ok [OF send_inv_sq [OF inv] es] by (simp add: q_def)
  have q: "sq_inv L q" "sq_entryList q = es"
    using send_inv_sq [OF inv] es by (simp_all add: q_def sq_inv_def)
  note tail = send_inv_tail [OF inv es q]
  show ?thesis
  proof (cases "se_zeroCopy e")
    case False
    have "finish_entry L e s = Some (map_option (\<lambda>cb. (se_context e, cb)) (se_callback e),
        s\<lparr>sk_zeroCopyQueue := ?zq, sk_sendQueue := q\<rparr>)"
      using False pop by (simp add: finish_entry_def)
    moreover have "send_inv L q ?zq counter" by (rule tail) auto
    moreover have "held_callbacks ?q ?zq = mset (case map_option (\<lambda>cb. (se_context e, cb)) (se_callback e)
        of None \<Rightarrow> [] | Some (ctx, cb) \<Rightarrow> [cb]) + held_callbacks q ?zq"
      using es q(2) by (cases "se_callback e") (simp_all add: held_callbacks_def)
    ultimately show ?thesis using q(2) by blast
  next
    case True
    with inv es have "zq_waitList ?zq \<noteq> []" "ze_group (last (zq_waitList ?zq)) = se_id e"
      by (auto simp: send_inv_def)
    then obtain ws w where w: "zq_waitList ?zq = ws @ [w]" "ze_group w = se_id e"
      by (metis append_butlast_last_id)
    from frame_ok [OF this] obtain z1 where f: "ZeroCopyQueue_frame (se_id e) ?zq = Some z1"
        "zq_waitList z1 = ws \<or> (\<exists>v. zq_waitList z1 = ws @ [v] \<and> ze_group v = se_id e)"
        "mset (zq_callbacks z1) = mset (zq_callbacks ?zq)" by blast
    obtain due z2 where r: "(if ZeroCopyQueue_ready z1 then ZeroCopyQueue_pop z1 else (None, z1)) = (due, z2)"
      by fastforce
    have z2: "zq_waitList z2 = zq_waitList z1"
        "mset (zq_callbacks z1) = mset (case due of None \<Rightarrow> [] | Some (ctx, cb) \<Rightarrow> [cb]) + mset (zq_callbacks z2)"
      using r pop_ok [of z1 due z2] by (auto split: if_splits)
    have "finish_entry L e s = Some (due, s\<lparr>sk_zeroCopyQueue := z2, sk_sendQueue := q\<rparr>)"
      using True pop f(1) r by (simp add: finish_entry_def)
    moreover have "send_inv L q z2 counter"
      using f(2) w z2(1) d by (intro tail) auto
    moreover have "handed_on ?q \<longrightarrow> held_callbacks ?q ?zq =
        mset (case due of None \<Rightarrow> [] | Some (ctx, cb) \<Rightarrow> [cb]) + held_callbacks q z2"
      using True es q(2) z2(2) f(3) by (auto simp: handed_on_def held_callbacks_def ac_simps)
    ultimately show ?thesis using q(2) by blast
  qed
qed

lemma freely_poppable_pop:
  assumes "freely_poppable d" and "DataUtil_pop L d n = Some d'"
  shows "freely_poppable d'"
  using assms by (induction d rule: freely_poppable.induct) auto

lemma freely_poppable_poppable [simp]: "freely_poppable d \<Longrightarrow> poppable n d"
  by (induction d rule: freely_poppable.induct) auto

text \<open>A part of the front entry has been sent.\<close>

lemma popSize_send_ok:
  assumes L: "blob_library_ok L" and inv: "send_inv L q zq counter"
    and es: "sq_entryList q = e # es" and d: "se_data e = Some d" and n: "n < se_length e"
  shows "\<exists>q' e' d'. SendQueue_popSize L n q = Some q' \<and> sq_entryList q' = e' # es \<and>
     DataUtil_pop L d n = Some d' \<and> se_data e' = Some d' \<and> se_length e' = se_length e - n \<and>
     se_foreignHandle e' = se_foreignHandle e \<and>
     send_inv L q' zq counter \<and> held_callbacks q' zq = held_callbacks q zq \<and>
     (handed_on q \<longrightarrow> handed_on q')"
proof -
  have free: "freely_poppable d" using inv es d by (auto simp: send_inv_def)
  from popSize_ok [OF L send_inv_sq [OF inv] es d _ n] free obtain d' where
    p: "DataUtil_pop L d n = Some d'" "Data_size L d' = Some (se_length e - n)"
      "SendQueue_popSize L n q =
       Some (q\<lparr>sq_entryList :=
                 (snd (closeTimer e))\<lparr>se_data := Some d', se_length := se_length e - n,
                                      se_inProgress := True\<rparr> # es,
               sq_size := sq_size q - n,
               sq_closedTimers := sq_closedTimers q @ fst (closeTimer e)\<rparr>)" (is "_ = Some ?q")
    by auto
  let ?e = "(snd (closeTimer e))\<lparr>se_data := Some d', se_length := se_length e - n, se_inProgress := True\<rparr>"
  have c: "se_id (snd (closeTimer e)) = se_id e" "se_zeroCopy (snd (closeTimer e)) = se_zeroCopy e"
      "se_foreignHandle (snd (closeTimer e)) = se_foreignHandle e"
    by (simp_all add: closeTimer_def split: option.splits)
  have "sq_inv L ?q"
    using inv es d p(2) n by (auto simp: send_inv_def sq_inv_def entry_ok_def entry_weight_def)
  moreover have "send_inv L ?q zq counter"
    using inv es d c freely_poppable_pop [OF free p(1)] calculation
    by (subst send_inv_front [where e = ?e and es = es])
       (auto simp: has_data_def waits_ok_def send_inv_front [OF es])
  moreover have "held_callbacks ?q zq = held_callbacks q zq" "handed_on q \<longrightarrow> handed_on ?q"
    using es c d by (auto simp: held_callbacks_def handed_on_def has_data_def)
  ultimately show ?thesis
    using p c by (intro exI [of _ ?q] exI [of _ ?e] exI [of _ d']) simp
qed

subsection \<open>The bytes of the queue\<close>

text \<open>
  The documented behaviour of a blob's buffers: together they hold \<open>length()\<close> bytes, and \<open>erase\<close>
  from offset 0 removes the leading ones.
\<close>

definition blob_content_ok :: "'blob blob_library \<Rightarrow> bool" where
  "blob_content_ok L \<longleftrightarrow>
     (\<forall>b. length (concat (blob_data L b)) = blob_length L b) \<and>
     (\<forall>b n. n \<le> blob_length L b \<longrightarrow>
        concat (blob_data L (blob_erase_front L b n)) = drop n (concat (blob_data L b)))"

lemma blob_content_ok_library: "blob_content_ok L \<Longrightarrow> blob_library_ok L"
  unfolding blob_content_ok_def blob_library_ok_def by (metis length_drop)

fun Data_content :: "'blob blob_library \<Rightarrow> 'blob Data \<Rightarrow> bytes" where
  "Data_content L (BlobBuffer b) = b"
| "Data_content L (ConstBuffer b) = b"
| "Data_content L (ConstBufferArray a) = concat (ba_bufferArray a)"
| "Data_content L (MutableBuffer b) = b"
| "Data_content L (MutableBufferArray a) = concat (ba_bufferArray a)"
| "Data_content L (Blob b) = concat (blob_data L b)"
| "Data_content L (SharedBlob (Some b)) = concat (blob_data L b)"
| "Data_content L (String b) = b"
| "Data_content L _ = []"

definition entry_content :: "'blob blob_library \<Rightarrow> 'blob SendQueueEntry \<Rightarrow> bytes" where
  "entry_content L e = (case se_data e of None \<Rightarrow> [] | Some d \<Rightarrow> Data_content L d)"

definition queue_content :: "'blob blob_library \<Rightarrow> 'blob SendQueueEntry list \<Rightarrow> bytes" where
  "queue_content L es = concat (map (entry_content L) es)"

lemma queue_content_simps [simp]:
  "queue_content L [] = []"
  "queue_content L (e # es) = entry_content L e @ queue_content L es"
  "queue_content L (es @ fs) = queue_content L es @ queue_content L fs"
  by (simp_all add: queue_content_def)

lemma Data_content_length:
  assumes "blob_content_ok L" and "freely_poppable d" and "Data_size L d = Some n"
  shows "length (Data_content L d) = n"
  using assms(2,3,1) by (induction d rule: freely_poppable.induct) (auto simp: blob_content_ok_def)

lemma Data_content_pop:
  assumes "blob_content_ok L" and "freely_poppable d" and "Data_size L d = Some m" and "n \<le> m"
    and "DataUtil_pop L d n = Some d'"
  shows "Data_content L d' = drop n (Data_content L d)"
  using assms(2-5,1)
  by (induction d rule: freely_poppable.induct)
     (auto simp: popBlobBuffer_def popString_def popBlob_def blob_content_ok_def Let_def)

lemma entry_content_length:
  assumes "blob_content_ok L" and "entry_ok L e" and "\<And>d. se_data e = Some d \<Longrightarrow> freely_poppable d"
    and "has_data e"
  shows "length (entry_content L e) = se_length e"
proof -
  obtain d where d: "se_data e = Some d" using assms(4) by (auto simp: has_data_def)
  then have "Data_size L d = Some (se_length e)" using assms(2) by (simp add: entry_ok_def)
  with Data_content_length [OF assms(1) assms(3) [OF d]] d show ?thesis
    by (simp add: entry_content_def)
qed

subsection \<open>The loop of a batch\<close>

definition queues_only :: "('blob, 't) StreamSocket \<Rightarrow> ('blob, 't) StreamSocket \<Rightarrow> bool" where
  "queues_only s s' \<longleftrightarrow>
     s' = s\<lparr>sk_sendQueue := sk_sendQueue s', sk_zeroCopyQueue := sk_zeroCopyQueue s'\<rparr>"

lemma queues_only_refl [simp]: "queues_only s s"
  by (simp add: queues_only_def)

lemma queues_only_updates [simp]:
  "queues_only s (s\<lparr>sk_sendQueue := q, sk_zeroCopyQueue := zq\<rparr>)"
  "queues_only s (s\<lparr>sk_zeroCopyQueue := zq, sk_sendQueue := q\<rparr>)"
  "queues_only s (s\<lparr>sk_sendQueue := q\<rparr>)"
  "queues_only s (s\<lparr>sk_zeroCopyQueue := zq\<rparr>)"
  by (simp_all add: queues_only_def)

lemma queues_only_trans:
  assumes "queues_only s t" and "queues_only t u"
  shows "queues_only s u"
proof -
  have "t\<lparr>sk_sendQueue := x, sk_zeroCopyQueue := y\<rparr> = s\<lparr>sk_sendQueue := x, sk_zeroCopyQueue := y\<rparr>"
    for x y
    by (subst assms(1) [unfolded queues_only_def]) simp
  with assms(2) show ?thesis unfolding queues_only_def by metis
qed

definition due_callback :: "(SendContext \<times> callback_ref) option \<Rightarrow> (SendContext \<times> callback_ref) list" where
  "due_callback due = (case due of None \<Rightarrow> [] | Some c \<Rightarrow> [c])"

lemma due_callback_snd:
  "map snd (due_callback due) = (case due of None \<Rightarrow> [] | Some (ctx, cb) \<Rightarrow> [cb])"
  by (auto simp: due_callback_def split: option.splits)

lemma started_content [simp]: "entry_content L (started z e) = entry_content L e"
  by (simp add: entry_content_def)

lemma handed_on_started:
  assumes "handed_on q" and "sq_entryList q = e # es"
  shows "handed_on (q\<lparr>sq_entryList := started z e # es, sq_closedTimers := ts\<rparr>)"
  using assms by (auto simp: handed_on_def)

text \<open>
  The effect of \<open>n\<close> bytes having been sent, as the front entries are updated and popped: the
  invariant is kept, the size and the bytes of the queue shrink by \<open>n\<close>, and a callback leaves the
  queues only to be dispatched.
\<close>

definition sends ::
  "'blob blob_library \<Rightarrow> u64 \<Rightarrow> nat \<Rightarrow> (SendContext \<times> callback_ref) list \<Rightarrow>
   ('blob, 't) StreamSocket \<Rightarrow> ('blob, 't) StreamSocket \<Rightarrow> bool" where
  "sends L counter n cs s s' \<longleftrightarrow>
     queues_only s s' \<and>
     send_inv L (sk_sendQueue s') (sk_zeroCopyQueue s') counter \<and>
     sq_size (sk_sendQueue s') + n = sq_size (sk_sendQueue s) \<and>
     length (sq_entryList (sk_sendQueue s')) \<le> length (sq_entryList (sk_sendQueue s)) \<and>
     (handed_on (sk_sendQueue s) \<longrightarrow> handed_on (sk_sendQueue s') \<and>
        held_callbacks (sk_sendQueue s) (sk_zeroCopyQueue s) =
          mset (map snd cs) + held_callbacks (sk_sendQueue s') (sk_zeroCopyQueue s')) \<and>
     (blob_content_ok L \<longrightarrow>
        queue_content L (sq_entryList (sk_sendQueue s')) =
          drop n (queue_content L (sq_entryList (sk_sendQueue s))))"

lemma sends_refl:
  "send_inv L (sk_sendQueue s) (sk_zeroCopyQueue s) counter \<Longrightarrow> sends L counter 0 [] s s"
  by (simp add: sends_def)

lemma sends_trans:
  assumes "sends L counter n cs s t" and "sends L counter m ds t u"
  shows "sends L counter (n + m) (cs @ ds) s u"
  using assms queues_only_trans [of s t u] unfolding sends_def by (auto simp: add.commute ac_simps)

lemma start_sends:
  assumes inv: "send_inv L (sk_sendQueue s) (sk_zeroCopyQueue s) counter"
    and es: "sq_entryList (sk_sendQueue s) = e # es" and d: "has_data e"
  shows "\<exists>s'. start_entry z s = Some (started z e, s') \<and> sends L counter 0 [] s s' \<and>
     sq_entryList (sk_sendQueue s') = started z e # es"
proof -
  from start_entry_ok [OF inv es d, of z] obtain ts zq where
    st: "start_entry z s = Some (started z e,
       s\<lparr>sk_sendQueue := (sk_sendQueue s)\<lparr>sq_entryList := started z e # es, sq_closedTimers := ts\<rparr>,
         sk_zeroCopyQueue := zq\<rparr>)"
      "send_inv L ((sk_sendQueue s)\<lparr>sq_entryList := started z e # es, sq_closedTimers := ts\<rparr>) zq counter"
      "held_callbacks ((sk_sendQueue s)\<lparr>sq_entryList := started z e # es, sq_closedTimers := ts\<rparr>) zq
        = held_callbacks (sk_sendQueue s) (sk_zeroCopyQueue s)"
    by blast
  moreover have "handed_on (sk_sendQueue s) \<longrightarrow>
      handed_on ((sk_sendQueue s)\<lparr>sq_entryList := started z e # es, sq_closedTimers := ts\<rparr>)"
    using handed_on_started es by blast
  ultimately show ?thesis using es by (auto simp: sends_def)
qed

lemma front_facts:
  assumes "send_inv L q zq counter" and "sq_entryList q = e # es"
  shows "entry_ok L e" and "sq_size q = entry_weight e + sum_list (map entry_weight es)"
    and "\<And>d. se_data e = Some d \<Longrightarrow> freely_poppable d"
  using assms by (auto simp: send_inv_def sq_inv_def)

lemma finish_sends:
  assumes inv: "send_inv L (sk_sendQueue s) (sk_zeroCopyQueue s) counter"
    and es: "sq_entryList (sk_sendQueue s) = e # es" and d: "has_data e"
  shows "\<exists>due s'. finish_entry L e s = Some (due, s') \<and>
     sends L counter (se_length e) (due_callback due) s s' \<and> sq_entryList (sk_sendQueue s') = es"
proof -
  note front = front_facts [OF inv es]
  obtain due q zq where
    f: "finish_entry L e s = Some (due, s\<lparr>sk_zeroCopyQueue := zq, sk_sendQueue := q\<rparr>)"
      "sq_entryList q = es" "send_inv L q zq counter"
      "handed_on (sk_sendQueue s) \<longrightarrow> held_callbacks (sk_sendQueue s) (sk_zeroCopyQueue s) =
        mset (map snd (due_callback due)) + held_callbacks q zq"
    using finish_entry_ok [OF inv es d] unfolding due_callback_snd by blast
  have "sq_size q = sum_list (map entry_weight es)"
    using f(2) send_inv_sq [OF f(3)] by (simp add: sq_inv_def)
  then have "sq_size q + se_length e = sq_size (sk_sendQueue s)"
    using front(2) d by (auto simp: entry_weight_def has_data_def)
  moreover have "handed_on (sk_sendQueue s) \<longrightarrow> handed_on q"
    using f(2) es by (simp add: handed_on_def)
  moreover have "blob_content_ok L \<longrightarrow>
      queue_content L es = drop (se_length e) (queue_content L (e # es))"
    using entry_content_length [OF _ front(1,3) d] by auto
  ultimately show ?thesis using f es by (auto simp: sends_def)
qed

lemma pop_sends:
  assumes L: "blob_library_ok L"
    and inv: "send_inv L (sk_sendQueue s) (sk_zeroCopyQueue s) counter"
    and es: "sq_entryList (sk_sendQueue s) = e # es" and d: "has_data e" and n: "n < se_length e"
  shows "\<exists>q. SendQueue_popSize L n (sk_sendQueue s) = Some q \<and>
     sends L counter n [] s (s\<lparr>sk_sendQueue := q\<rparr>)"
proof -
  note front = front_facts [OF inv es]
  obtain data where data: "se_data e = Some data" using d by (auto simp: has_data_def)
  from popSize_send_ok [OF L inv es data n] obtain q e' d' where
    p: "SendQueue_popSize L n (sk_sendQueue s) = Some q" "sq_entryList q = e' # es"
      "DataUtil_pop L data n = Some d'" "se_data e' = Some d'" "se_length e' = se_length e - n"
      "send_inv L q (sk_zeroCopyQueue s) counter"
      "held_callbacks q (sk_zeroCopyQueue s) = held_callbacks (sk_sendQueue s) (sk_zeroCopyQueue s)"
      "handed_on (sk_sendQueue s) \<longrightarrow> handed_on q"
    by auto
  have "sq_size q + n = sq_size (sk_sendQueue s)"
    using send_inv_sq [OF p(6)] p(2,4,5) front(2) data n by (simp add: sq_inv_def entry_weight_def)
  moreover have "blob_content_ok L \<longrightarrow> queue_content L (e' # es) = drop n (queue_content L (e # es))"
  proof
    assume c: "blob_content_ok L"
    have "Data_size L data = Some (se_length e)" using front(1) data by (simp add: entry_ok_def)
    from Data_content_pop [OF c front(3) [OF data] this _ p(3)]
      entry_content_length [OF c front(1,3) d] n
    show "queue_content L (e' # es) = drop n (queue_content L (e # es))"
      using p(4) data by (simp add: entry_content_def)
  qed
  ultimately show ?thesis using p es by (auto simp: sends_def)
qed

lemma batch_sent_ok:
  assumes L: "blob_library_ok L"
    and inv: "send_inv L (sk_sendQueue s) (sk_zeroCopyQueue s) counter"
    and n: "n \<le> sum_list (map se_length (takeWhile has_data (sq_entryList (sk_sendQueue s))))"
  shows "\<exists>cs' s'. batch_sent L z n cs s = Some (cs @ cs', s') \<and> sends L counter n cs' s s'"
  using inv n
proof (induction "sq_entryList (sk_sendQueue s)" arbitrary: s n cs)
  case Nil
  then show ?case using sends_refl by (auto simp: batch_sent.simps)
next
  case (Cons e es)
  note es = Cons.hyps(2) [symmetric]
  show ?case
  proof (cases "n = 0")
    case True
    then show ?thesis using sends_refl [OF Cons.prems(1)] by (auto simp: batch_sent.simps)
  next
    case False
    with Cons.prems(2) es have d: "has_data e" by (auto split: if_splits)
    obtain s1 where s1: "start_entry z s = Some (started z e, s1)" "sends L counter 0 [] s s1"
        "sq_entryList (sk_sendQueue s1) = started z e # es"
      using start_sends [OF Cons.prems(1) es d] by blast
    then have inv1: "send_inv L (sk_sendQueue s1) (sk_zeroCopyQueue s1) counter"
      by (simp add: sends_def)
    show ?thesis
    proof (cases "se_length e \<le> n")
      case True
      from finish_sends [OF inv1 s1(3)] d obtain due s2 where
        s2: "finish_entry L (started z e) s1 = Some (due, s2)"
          "sends L counter (se_length e) (due_callback due) s1 s2" "sq_entryList (sk_sendQueue s2) = es"
        by auto
      have step: "batch_sent L z n cs s = batch_sent L z (n - se_length e) (cs @ due_callback due) s2"
        using False True s1(1) s2(1) by (subst batch_sent.simps) (simp add: due_callback_def)
      have "n - se_length e \<le> sum_list (map se_length (takeWhile has_data es))"
        using Cons.prems(2) es d by simp
      with Cons.hyps(1) [of s2 "n - se_length e" "cs @ due_callback due"] s2(2,3) obtain cs' s' where
        "batch_sent L z (n - se_length e) (cs @ due_callback due) s2
              = Some ((cs @ due_callback due) @ cs', s')" "sends L counter (n - se_length e) cs' s2 s'"
        by (auto simp: sends_def)
      with sends_trans [OF sends_trans [OF s1(2) s2(2)]] step True show ?thesis by fastforce
    next
      case False
      with pop_sends [OF L inv1 s1(3), of n] d obtain q where
        q: "SendQueue_popSize L n (sk_sendQueue s1) = Some q" "sends L counter n [] s1 (s1\<lparr>sk_sendQueue := q\<rparr>)"
        by auto
      have "batch_sent L z n cs s = Some (cs, s1\<lparr>sk_sendQueue := q\<rparr>)"
        using \<open>n \<noteq> 0\<close> False s1(1) q(1) by (subst batch_sent.simps) simp
      with sends_trans [OF s1(2) q(2)] show ?thesis by (intro exI [of _ "[]"]) auto
    qed
  qed
qed

subsection \<open>What a batch contains\<close>

lemma freely_in_bounds:
  "\<forall>d. se_data e = Some d \<longrightarrow> freely_poppable d \<Longrightarrow> in_bounds e"
  by (auto simp: in_bounds_def split: option.splits Data.splits)

lemma offered_content:
  assumes "Send_Queue.offered L e = Some bs" and "\<And>d. se_data e = Some d \<Longrightarrow> freely_poppable d"
  shows "concat bs = entry_content L e \<and> has_data e"
proof -
  obtain d where d: "se_data e = Some d"
    using assms(1) by (cases "se_data e") (auto simp: Send_Queue.offered_def split: if_splits)
  have "freely_poppable d" using assms(2) d by simp
  then show ?thesis
    using assms(1) d
    by (induction d rule: freely_poppable.induct)
       (auto simp: Send_Queue.offered_def entry_content_def has_data_def split: if_splits)
qed

lemma concat_take: "\<exists>m. concat (take n xs) = take m (concat xs)"
  by (metis append_eq_conv_conj append_take_drop_id concat_append)

lemma offered_buffers_content:
  assumes "\<forall>e \<in> set es. \<forall>d. se_data e = Some d \<longrightarrow> freely_poppable d"
  shows "\<exists>m. concat (offered_buffers L es) = queue_content L (take m es) \<and> list_all has_data (take m es)"
  using assms
proof (induction es)
  case Nil
  then show ?case by (simp add: offered_buffers_def)
next
  case (Cons e es)
  show ?case
  proof (cases "Send_Queue.offered L e")
    case None
    then show ?thesis by (auto simp: offered_buffers_def intro!: exI [of _ 0])
  next
    case (Some bs)
    have "concat bs = entry_content L e \<and> has_data e"
      by (rule offered_content [OF Some]) (use Cons.prems in auto)
    moreover obtain m where "concat (offered_buffers L es) = queue_content L (take m es)"
        "list_all has_data (take m es)"
      using Cons by auto
    ultimately show ?thesis
      using Some by (intro exI [of _ "Suc m"]) (simp add: offered_buffers_def)
  qed
qed

lemma queue_content_length:
  assumes "blob_content_ok L" and "list_all (entry_ok L) es" and "list_all has_data es"
    and "\<forall>e \<in> set es. \<forall>d. se_data e = Some d \<longrightarrow> freely_poppable d"
  shows "length (queue_content L es) = sum_list (map se_length es)"
  using assms(2-)
proof (induction es)
  case Nil
  then show ?case by simp
next
  case (Cons e es)
  have "length (entry_content L e) = se_length e"
    by (rule entry_content_length [OF assms(1)]) (use Cons.prems in auto)
  with Cons show ?case by simp
qed

lemma take_all_takeWhile:
  "list_all P (take m es) \<Longrightarrow> \<exists>k. take m es = take k (takeWhile P es)"
  by (metis append_take_drop_id list_all_iff take_append takeWhile_append2 length_take
      append_eq_conv_conj)

lemma sum_list_take_le: "sum_list (map (f :: 'a \<Rightarrow> nat) (take k xs)) \<le> sum_list (map f xs)"
  by (metis append_take_drop_id le_add1 map_append sum_list_append)

text \<open>
  A batch is a prefix of the bytes queued, and no longer than the entries with data at the front.
\<close>

lemma batch_content:
  assumes L: "blob_content_ok L" and inv: "send_inv L q zq counter"
    and b: "SendQueue_batchNext L perSend result opts q = Some (True, r)"
  shows "BufferArray_wf r"
    and "concat (ba_bufferArray r) = take (ba_numBytes r) (queue_content L (sq_entryList q))"
    and "ba_numBytes r \<le> sum_list (map se_length (takeWhile has_data (sq_entryList q)))"
proof -
  let ?es = "sq_entryList q"
  have free: "\<forall>e \<in> set ?es. \<forall>d. se_data e = Some d \<longrightarrow> freely_poppable d" and ok: "list_all (entry_ok L) ?es"
    using inv by (simp_all add: send_inv_def sq_inv_def)
  have "2 \<le> length ?es"
    by (rule ccontr) (use b in \<open>simp add: SendQueue_batchNext_def Let_def\<close>)
  moreover have "list_all in_bounds ?es" using free freely_in_bounds unfolding list_all_iff by blast
  ultimately obtain n where n: "ba_bufferArray r = take n (offered_buffers L ?es)" and wf: "BufferArray_wf r"
    using batchNext_gathers [of q L perSend result opts] b by auto
  obtain m where m: "concat (offered_buffers L ?es) = queue_content L (take m ?es)"
      "list_all has_data (take m ?es)"
    using offered_buffers_content [OF free] by blast
  obtain i where i: "concat (ba_bufferArray r) = take i (queue_content L (take m ?es))"
    using concat_take [of n "offered_buffers L ?es"] n m(1) by auto
  have split: "queue_content L ?es = queue_content L (take m ?es) @ queue_content L (drop m ?es)"
    by (metis append_take_drop_id queue_content_simps(3))
  have len: "ba_numBytes r = length (concat (ba_bufferArray r))" using wf by (simp add: BufferArray_wf_def)
  show "BufferArray_wf r" by (rule wf)
  show "concat (ba_bufferArray r) = take (ba_numBytes r) (queue_content L ?es)"
    using i split len by (auto simp: min_def)
  have "length (queue_content L (take m ?es)) = sum_list (map se_length (take m ?es))"
    using queue_content_length [OF L _ m(2)] free ok
    by (auto simp: list_all_iff dest: in_set_takeD)
  moreover obtain k where "take m ?es = take k (takeWhile has_data ?es)"
    using take_all_takeWhile [OF m(2)] by blast
  ultimately show "ba_numBytes r \<le> sum_list (map se_length (takeWhile has_data ?es))"
    using i len sum_list_take_le [of se_length k "takeWhile has_data ?es"] by simp
qed

end
