(* ===== verification/Stream_Delivery.thy ===== *)
theory Stream_Delivery
  imports Stream_Invariant
begin

section \<open>The guarantees of the send path\<close>

text \<open>
  This theory puts the operations of a stream socket together: no assertion fails in any run,
  every callback accepted is dispatched exactly once or still held, and the bytes handed to the
  operating system followed by the bytes queued are the bytes of the messages accepted.
\<close>

subsection \<open>The effect of an operation\<close>

definition wire :: "'blob blob_library \<Rightarrow> ('blob, 't) socket_event list \<Rightarrow> bytes" where
  "wire L evs = concat (map (\<lambda>(d, n). take n (Data_content L d)) (transmissions evs))"

lemma wire_append [simp]: "wire L (evs @ evs') = wire L evs @ wire L evs'"
  by (simp add: wire_def)

lemma wire_transmissions:
  "transmissions evs = transmissions evs' \<Longrightarrow> wire L evs = wire L evs'"
  by (simp add: wire_def)

text \<open>The bytes that went to the system and those still queued.\<close>

definition stream_bytes :: "'blob blob_library \<Rightarrow> ('blob, 't) StreamSocket \<Rightarrow> bytes" where
  "stream_bytes L s = wire L (sk_log s) @ queue_content L (sq_entryList (sk_sendQueue s))"

text \<open>The callbacks dispatched and those still held.\<close>

definition all_callbacks :: "('blob, 't) StreamSocket \<Rightarrow> callback_ref multiset" where
  "all_callbacks s =
     mset (dispatched (sk_log s)) + held_callbacks (sk_sendQueue s) (sk_zeroCopyQueue s)"

text \<open>
  Blobs without empty buffers. This is a restriction on what an application sends, not a promise of
  \<open>bdlbb\<close>: a socket that sends greedily relies on it, since a batch of empty buffers only is sent again
  and again, as \<open>greedy_socket_spins\<close> shows of the loop in the code.
\<close>

definition buffers_filled :: "'blob blob_library \<Rightarrow> bool" where
  "buffers_filled L \<longleftrightarrow> (\<forall>b. [] \<notin> set (blob_data L b))"

definition sk_inv :: "'blob blob_library \<Rightarrow> ('blob, 't) StreamSocket \<Rightarrow> bool" where
  "sk_inv L s \<longleftrightarrow>
     send_inv L (sk_sendQueue s) (sk_zeroCopyQueue s) (sk_sendCounter s) \<and>
     detach_ok s \<and> (sk_closeCallback s \<noteq> None \<longrightarrow> detaching s) \<and> sk_sendRateLimiter s = None \<and>
     (sk_sendGreedily s \<longrightarrow> buffers_filled L)"

text \<open>
  An operation that accepts the callbacks \<open>cbs\<close> keeps the invariant and loses none of the
  callbacks; one that accepts the bytes \<open>bs\<close> appends them to the stream, unless it ends it.
\<close>

definition keeps ::
  "'blob blob_library \<Rightarrow> callback_ref list \<Rightarrow> ('blob, 't) StreamSocket \<Rightarrow>
   ('blob, 't) StreamSocket \<Rightarrow> bool" where
  "keeps L cbs s s' \<longleftrightarrow>
     sk_inv L s' \<and>
     (handed_on (sk_sendQueue s) \<longrightarrow>
        handed_on (sk_sendQueue s') \<and> all_callbacks s' = all_callbacks s + mset cbs)"

definition streams ::
  "'blob blob_library \<Rightarrow> bytes \<Rightarrow> ('blob, 't) StreamSocket \<Rightarrow> ('blob, 't) StreamSocket \<Rightarrow> bool" where
  "streams L bs s s' \<longleftrightarrow>
     (ShutdownState_canSend (sk_shutdownState s') \<longrightarrow>
        ShutdownState_canSend (sk_shutdownState s) \<and> stream_bytes L s' = stream_bytes L s @ bs)"

definition effect ::
  "'blob blob_library \<Rightarrow> callback_ref list \<Rightarrow> bytes \<Rightarrow> ('blob, 't) StreamSocket \<Rightarrow>
   ('blob, 't) StreamSocket \<Rightarrow> bool" where
  "effect L cbs bs s s' \<longleftrightarrow> keeps L cbs s s' \<and> streams L bs s s'"

lemmas effect_defs = effect_def keeps_def streams_def

lemma effect_inv: "effect L cbs bs s s' \<Longrightarrow> sk_inv L s'"
  by (simp add: effect_defs)

lemma effect_refl: "sk_inv L s \<Longrightarrow> effect L [] [] s s"
  by (simp add: effect_defs)

lemma keeps_trans: "keeps L cbs s t \<Longrightarrow> keeps L cbs' t u \<Longrightarrow> keeps L (cbs @ cbs') s u"
  by (auto simp: keeps_def ac_simps)

lemma streams_trans: "streams L bs s t \<Longrightarrow> streams L bs' t u \<Longrightarrow> streams L (bs @ bs') s u"
  by (auto simp: streams_def)

lemma effect_trans:
  "effect L cbs bs s t \<Longrightarrow> effect L cbs' bs' t u \<Longrightarrow> effect L (cbs @ cbs') (bs @ bs') s u"
  by (auto simp: effect_def intro: keeps_trans streams_trans)

lemma effect_then: "effect L cbs bs s t \<Longrightarrow> effect L [] [] t u \<Longrightarrow> effect L cbs bs s u"
  using effect_trans [of L cbs bs s t "[]" "[]" u] by simp

text \<open>The fields that the invariant reads.\<close>

definition same_state :: "('blob, 't) StreamSocket \<Rightarrow> ('blob, 't) StreamSocket \<Rightarrow> bool" where
  "same_state s s' \<longleftrightarrow>
     sk_sendQueue s' = sk_sendQueue s \<and> sk_zeroCopyQueue s' = sk_zeroCopyQueue s \<and>
     send_config s' = send_config s \<and> sk_shutdownState s' = sk_shutdownState s \<and>
     sk_detachState s' = sk_detachState s \<and> sk_detachCallback s' = sk_detachCallback s \<and>
     sk_closeCallback s' = sk_closeCallback s"

lemma same_state_inv: "same_state s s' \<Longrightarrow> sk_inv L s' \<longleftrightarrow> sk_inv L s"
  by (auto simp: same_state_def sk_inv_def detach_ok_def send_config_def)

lemma same_state_wire:
  assumes "sk_inv L s" and "same_state s s'"
    and "dispatched (sk_log s') = dispatched (sk_log s)" and "wire L (sk_log s') = wire L (sk_log s)"
  shows "effect L [] [] s s'"
  using assms same_state_inv [OF assms(2)]
  by (auto simp: effect_defs same_state_def all_callbacks_def stream_bytes_def)

lemma same_state_effect:
  assumes "sk_inv L s" and "same_state s s'"
    and "dispatched (sk_log s') = dispatched (sk_log s)"
    and "transmissions (sk_log s') = transmissions (sk_log s)"
  shows "effect L [] [] s s'"
  using same_state_wire [OF assms(1-3) wire_transmissions [OF assms(4)]] .

lemma quiet_effects:
  assumes "sk_inv L s"
  shows "effect L [] [] s (privateRelaxFlowControl direction d unlock s)"
    and "effect L [] [] s (privateApplyFlowControl direction d unlock s)"
    and "effect L [] [] s (announce_write_queue ty d s)"
    and "effect L [] [] s (announce (AnnounceError e) s)"
    and "effect L [] [] s (request_reactor ShowWritable s)"
    and "effect L [] [] s (request_reactor ShowNotifications s)"
    and "effect L [] [] s (s\<lparr>sk_flowControlState := f\<rparr>)"
    and "effect L [] [] s (s\<lparr>sk_deferredCalls := cs\<rparr>)"
    and "effect L [] [] s (s\<lparr>sk_zeroCopyThreshold := n\<rparr>)"
    and "effect L [] [] s (s\<lparr>sk_sendData := r\<rparr>)"
  by (rule same_state_effect [OF assms]; simp add: same_state_def send_config_def sk_normal)+

text \<open>A shutdown clears the queues or leaves them alone.\<close>

lemma send_inv_cleared:
  assumes "send_inv L q zq counter"
  shows "send_inv L (q\<lparr>sq_entryList := [], sq_size := 0, sq_closedTimers := ts\<rparr>)
     (zq\<lparr>zq_waitList := [], zq_doneList := []\<rparr>) counter"
  using assms by (simp add: send_inv_def sq_inv_def)

lemma shuts_effect:
  assumes inv: "sk_inv L s" and sh: "shuts s s'" and ok: "detach_ok s'"
    and close: "sk_closeCallback s' \<noteq> None \<longrightarrow> detaching s'"
  shows "effect L [] [] s s'"
proof -
  have cfg: "sk_sendCounter s' = sk_sendCounter s" "sk_sendRateLimiter s' = None"
      "sk_sendGreedily s' \<longrightarrow> buffers_filled L"
    using sh inv by (simp_all add: shuts_def send_config_def sk_inv_def)
  have w: "wire L (sk_log s') = wire L (sk_log s)"
    using sh by (auto simp: shuts_def intro: wire_transmissions)
  have mono: "ShutdownState_canSend (sk_shutdownState s') \<longrightarrow> ShutdownState_canSend (sk_shutdownState s)"
    using sh by (simp add: shuts_def)
  consider (untouched) "queues_untouched s s'"
    | (cleared) "queues_cleared s s'" "\<not> ShutdownState_canSend (sk_shutdownState s')"
    using sh by (auto simp: shuts_def)
  then show ?thesis
  proof cases
    case untouched
    then have "sk_inv L s'"
      using inv cfg ok close by (simp add: sk_inv_def queues_untouched_def)
    with untouched w mono show ?thesis
      by (auto simp: effect_defs queues_untouched_def all_callbacks_def stream_bytes_def)
  next
    case cleared
    then obtain ts where q: "sk_sendQueue s' =
          (sk_sendQueue s)\<lparr>sq_entryList := [], sq_size := 0, sq_closedTimers := ts\<rparr>"
        "sk_zeroCopyQueue s' = (sk_zeroCopyQueue s)\<lparr>zq_waitList := [], zq_doneList := []\<rparr>"
        "dispatched (sk_log s') = dispatched (sk_log s) @
           zq_callbacks (sk_zeroCopyQueue s) @ sq_callbacks (sq_entryList (sk_sendQueue s))"
      by (auto simp: queues_cleared_def)
    have "sk_inv L s'"
      using inv cfg ok close q send_inv_cleared [of L _ _ "sk_sendCounter s" ts] by (simp add: sk_inv_def)
    with q cleared(2) show ?thesis
      by (simp add: effect_defs all_callbacks_def held_callbacks_def handed_on_def zq_callbacks_def)
  qed
qed

subsection \<open>A writable socket\<close>

lemma same_state_trans: "same_state s t \<Longrightarrow> same_state t u \<Longrightarrow> same_state s u"
  by (simp add: same_state_def)

lemma refresh_send_buffer_normal: "\<exists>so. refresh_send_buffer n r s = s\<lparr>sk_sendOptions := so\<rparr>"
proof -
  have "s = s\<lparr>sk_sendOptions := sk_sendOptions s\<rparr>" by simp
  then show ?thesis unfolding refresh_send_buffer_def Let_def by metis
qed

text \<open>One call to send: the bytes the system takes are a prefix of the data.\<close>

definition hands_over ::
  "'blob blob_library \<Rightarrow> 't os_answer \<Rightarrow> nat \<Rightarrow> 'blob Data \<Rightarrow> ('blob, 't) StreamSocket \<Rightarrow>
   ntsa_error \<times> (nat \<times> bool) \<times> ('blob, 't) StreamSocket \<Rightarrow> bool" where
  "hands_over L a dataSize data s = (\<lambda>(error, (n, z), s').
     same_state s s' \<and> n \<le> dataSize \<and> (error \<noteq> E_OK \<longrightarrow> n = 0) \<and>
     (error = E_OK \<longrightarrow> 0 < n \<or> dataSize = 0) \<and>
     (sk_socket s \<longrightarrow> os_error a = E_OK \<longrightarrow> 0 < os_room a \<longrightarrow> error = E_OK) \<and>
     (z \<longrightarrow> sk_zeroCopyThreshold s \<le> dataSize) \<and>
     dispatched (sk_log s') = dispatched (sk_log s) \<and>
     wire L (sk_log s') = wire L (sk_log s) @ take n (Data_content L data))"

lemma wire_send [simp]: "wire L [SystemSend d z h n] = take n (Data_content L d)"
  by (simp add: wire_def)

lemma enqueue_ok:
  assumes "sk_sendRateLimiter s = None"
  shows "\<exists>r. enqueue_send_buffer T a dataSize data h s = Some r \<and> hands_over L a dataSize data s r"
proof -
  obtain so where so: "refresh_send_buffer dataSize (os_sendBufferSize a) s = s\<lparr>sk_sendOptions := so\<rparr>"
    using refresh_send_buffer_normal by blast
  define s2 where "s2 = s\<lparr>sk_sendOptions := so\<rparr>"
  define z where "z = (dataSize \<ge> sk_zeroCopyThreshold s2 \<and> \<not> isFile data)"
  define z' where "z' = (z \<and> \<not> os_noBuffers a)"
  define n where "n = min (os_room a) dataSize"
  define s3 where "s3 = emit (SystemSend data z h n) s2"
  define s4 where "s4 = (if z \<noteq> z' \<and> sk_zeroCopyThreshold s3 \<noteq> k_ZERO_COPY_NEVER
    then s3\<lparr>sk_zeroCopyThreshold := k_ZERO_COPY_NEVER\<rparr> else s3)"
  define s5 where "s5 = s4\<lparr>sk_totalBytesSent := sk_totalBytesSent s4 + n\<rparr>"
  have s3: "same_state s s3" "dispatched (sk_log s3) = dispatched (sk_log s)"
      "wire L (sk_log s3) = wire L (sk_log s) @ take n (Data_content L data)"
    by (simp_all add: s3_def s2_def emit_def same_state_def send_config_def)
  then have s4: "same_state s s4" "sk_log s4 = sk_log s3"
    by (simp_all add: s4_def same_state_def send_config_def)
  then have s5: "same_state s s5" "sk_log s5 = sk_log s3" "sk_sendRateLimiter s4 = None"
    using assms by (simp_all add: s5_def same_state_def send_config_def)
  have s2: "same_state s s2" "sk_log s2 = sk_log s"
    by (simp_all add: s2_def same_state_def send_config_def)
  have "enqueue_send_buffer T a dataSize data h s =
     Some (if \<not> sk_socket s then (E_INVALID, (0, False), s)
           else if os_error a \<noteq> E_OK then (os_error a, (0, False), s2)
           else if n = 0 \<and> 0 < dataSize then (E_WOULD_BLOCK, (n, z'), s4)
           else (E_OK, (n, z'), s5))"
  proof (cases "sk_socket s \<and> os_error a = E_OK")
    case False
    then show ?thesis
      by (auto simp: enqueue_send_buffer_def privateThrottleSendBuffer_def SocketUtil_send_def so assms
          s2_def)
  next
    case True
    have send: "SocketUtil_send a dataSize z = (E_OK, n, z')"
      using True by (simp add: SocketUtil_send_def n_def z'_def)
    have "enqueue_send_buffer T a dataSize data h s =
        (if n = 0 \<and> 0 < dataSize then Some (E_WOULD_BLOCK, (n, z'), s4)
         else do { s5 \<leftarrow> submit_rate n s4;
                   Some (E_OK, (n, z'), s5\<lparr>sk_totalBytesSent := sk_totalBytesSent s5 + n\<rparr>) })"
      unfolding s4_def s3_def
      by (simp only: enqueue_send_buffer_def privateThrottleSendBuffer_def so assms True Let_def
          option.case Option.bind.bind_lunit prod.case simp_thms if_True if_False
          flip: s2_def z_def) (simp only: send prod.case simp_thms if_False)
    then show ?thesis using True s5(3) by (simp add: submit_rate_def s5_def)
  qed
  then show ?thesis
    using s2 s3 s4 s5 by (auto simp: hands_over_def n_def z'_def z_def s2_def same_state_def)
qed

lemma queues_only_fields:
  assumes "queues_only s s'"
  shows "sk_log s' = sk_log s" and "send_config s' = send_config s"
    and "sk_shutdownState s' = sk_shutdownState s" and "sk_detachState s' = sk_detachState s"
    and "sk_detachCallback s' = sk_detachCallback s" and "sk_closeCallback s' = sk_closeCallback s"
  using assms by (cases s; cases s'; simp add: queues_only_def send_config_def)+

lemma complete_sends_normal [sk_normal]:
  "complete_sends cs s = s\<lparr>sk_log := sk_log s @
     map (\<lambda>(ctx, cb). DispatchSend Send_COMPLETE ctx cb False) cs\<rparr>"
  by (induction cs arbitrary: s) (auto simp: emit_def)

lemma completed_quiet [simp]:
  "dispatched (map (\<lambda>(ctx, cb). DispatchSend Send_COMPLETE ctx cb False) cs) = map snd cs"
  "wire L (map (\<lambda>(ctx, cb). DispatchSend Send_COMPLETE ctx cb False) cs) = []"
  using dispatched_map_send [of Send_COMPLETE id False cs] by (simp_all add: wire_def)

lemma sent_effect:
  assumes inv: "sk_inv L s" and L: "blob_content_ok L" and same: "same_state s s1"
    and d: "dispatched (sk_log s1) = dispatched (sk_log s)"
    and w: "wire L (sk_log s1) =
      wire L (sk_log s) @ take n (queue_content L (sq_entryList (sk_sendQueue s)))"
    and sent: "sends L (sk_sendCounter s) n cs s1 s2"
  shows "effect L [] [] s (complete_sends cs s2)"
proof -
  have "queues_only s1 s2" using sent by (simp add: sends_def)
  note f = queues_only_fields [OF this]
  have "sk_inv L (complete_sends cs s2)"
    using inv same sent f by (auto simp: sk_inv_def same_state_def sends_def sk_normal send_config_def
        detach_ok_def)
  then show ?thesis
    using same d w sent f L
    by (auto simp: effect_defs same_state_def sends_def sk_normal all_callbacks_def stream_bytes_def
        ac_simps)
qed

definition pending :: "('blob, 't) StreamSocket \<Rightarrow> nat" where
  "pending s = sq_size (sk_sendQueue s) + length (sq_entryList (sk_sendQueue s))"

lemma pending_simps [simp]:
  "pending (s\<lparr>sk_log := l\<rparr>) = pending s"
  "pending (s\<lparr>sk_flowControlState := f\<rparr>) = pending s"
  "pending (announce ev s) = pending s"
  "pending (privateApplyFlowControl direction d lock s) = pending s"
  by (simp_all add: pending_def sk_normal)

text \<open>Arming the other watermark event changes nothing the invariant ties together.\<close>

lemma rearm_effect:
  assumes "sk_inv L s"
  shows "effect L [] [] s (s\<lparr>sk_sendQueue := (sk_sendQueue s)\<lparr>sq_watermarkLowWanted := b,
           sq_watermarkHighWanted := \<not> b\<rparr>\<rparr>)"
  using assms
  by (auto simp: effect_defs sk_inv_def send_inv_def sq_inv_def detach_ok_def all_callbacks_def
      stream_bytes_def held_callbacks_def handed_on_def)

definition follows :: "'blob blob_library \<Rightarrow> ('blob, 't) StreamSocket \<Rightarrow> ('blob, 't) StreamSocket \<Rightarrow> bool"
  where
  "follows L s s' \<longleftrightarrow>
     effect L [] [] s s' \<and> send_config s' = send_config s \<and> pending s' = pending s \<and>
     sk_shutdownState s' = sk_shutdownState s"

lemma follows_trans: "follows L s t \<Longrightarrow> follows L t u \<Longrightarrow> follows L s u"
  unfolding follows_def using effect_then by (metis (no_types))

lemma apply_if_empty_follows:
  assumes "sk_inv L s"
  shows "follows L s (apply_if_empty s)"
  using quiet_effects(2) [OF assms] effect_refl [OF assms]
  by (simp add: apply_if_empty_def follows_def sk_normal send_config_def)

lemma announce_drained_follows:
  assumes "sk_inv L s"
  shows "follows L s (announce_drained s)"
proof (cases "fst (SendQueue_authorizeLowWatermarkEvent (sk_sendQueue s))")
  case False
  then have "announce_drained s = s"
    by (auto simp: announce_drained_def SendQueue_authorizeLowWatermarkEvent_def split: if_splits)
  then show ?thesis using effect_refl [OF assms] by (simp add: follows_def)
next
  case True
  define s1 where "s1 = s\<lparr>sk_sendQueue := (sk_sendQueue s)\<lparr>sq_watermarkLowWanted := False,
           sq_watermarkHighWanted := \<not> False\<rparr>\<rparr>"
  have e: "effect L [] [] s s1" unfolding s1_def by (rule rearm_effect [OF assms])
  have "announce_drained s = announce_write_queue WQ_LOW_WATERMARK True s1"
    using True by (auto simp: announce_drained_def SendQueue_authorizeLowWatermarkEvent_def s1_def
        split: if_splits)
  moreover have "effect L [] [] s (announce_write_queue WQ_LOW_WATERMARK True s1)"
    by (rule effect_then [OF e quiet_effects(3) [OF effect_inv [OF e]]])
  ultimately show ?thesis
    by (simp add: follows_def announce_write_queue_def) (simp add: s1_def sk_normal send_config_def pending_def)
qed

lemma wrap_up:
  assumes "sk_inv L s"
  shows "follows L s (apply_if_empty (announce_drained s))"
  using announce_drained_follows [OF assms] apply_if_empty_follows follows_trans effect_inv
  unfolding follows_def by metis

lemma offered_filled:
  assumes "buffers_filled L" and "Send_Queue.offered L e = Some bs" and "entry_ok L e"
    and "\<And>d. se_data e = Some d \<Longrightarrow> freely_poppable d"
  shows "[] \<notin> set bs"
proof -
  obtain d where d: "se_data e = Some d"
    using assms(2) by (cases "se_data e") (auto simp: Send_Queue.offered_def split: if_splits)
  have "freely_poppable d" using assms(4) d by simp
  then show ?thesis
    using assms(1-3) d
    by (induction d rule: freely_poppable.induct)
       (auto simp: Send_Queue.offered_def buffers_filled_def entry_ok_def split: if_splits)
qed

lemma batch_filled:
  assumes "buffers_filled L" and inv: "send_inv L q zq counter"
    and b: "SendQueue_batchNext L perSend result opts q = Some (True, r)"
  shows "0 < ba_numBytes r"
proof -
  let ?es = "sq_entryList q"
  have ok: "\<forall>e \<in> set ?es. entry_ok L e \<and> (\<forall>d. se_data e = Some d \<longrightarrow> freely_poppable d)"
    using inv by (auto simp: send_inv_def sq_inv_def list_all_iff)
  have "2 \<le> length ?es"
    by (rule ccontr) (use b in \<open>simp add: SendQueue_batchNext_def Let_def\<close>)
  moreover have "list_all in_bounds ?es" using ok freely_in_bounds unfolding list_all_iff by blast
  ultimately obtain n where n: "ba_bufferArray r = take n (offered_buffers L ?es)"
      "ba_bufferArray r \<noteq> []" "BufferArray_wf r"
    using batchNext_gathers [of q L perSend result opts] b by auto
  have "[] \<notin> set (offered_buffers L ?es)"
    using offered_filled [OF assms(1)] ok
    by (fastforce simp: offered_buffers_def dest: set_takeWhileD)
  then have "[] \<notin> set (ba_bufferArray r)" using n(1) by (metis in_set_takeD)
  then show ?thesis using n(2,3) by (cases "ba_bufferArray r") (auto simp: BufferArray_wf_def)
qed

text \<open>
  What an iteration does: it fails with an error of the system only, and one that succeeds has
  less left to send.
\<close>

definition iterates ::
  "'blob blob_library \<Rightarrow> 't os_answer \<Rightarrow> ('blob, 't) StreamSocket \<Rightarrow>
   ntsa_error \<times> ('blob, 't) StreamSocket \<Rightarrow> bool" where
  "iterates L a s = (\<lambda>(error, s').
     effect L [] [] s s' \<and> send_config s' = send_config s \<and>
     (error = E_OK \<longrightarrow> buffers_filled L \<longrightarrow> pending s' < pending s) \<and>
     (sk_socket s \<longrightarrow> os_error a = E_OK \<longrightarrow> 0 < os_room a \<longrightarrow> error = E_OK))"

lemma iterates_failed:
  assumes "hands_over L a n d s (error, (m, z), s1)" and "error \<noteq> E_OK" and "sk_inv L s"
  shows "iterates L a s (error, s1)"
proof -
  have "effect L [] [] s s1"
    using assms(1-3) same_state_inv [of s s1]
    by (auto simp: hands_over_def effect_defs same_state_def all_callbacks_def stream_bytes_def)
  then show ?thesis
    using assms by (auto simp: hands_over_def iterates_def same_state_def)
qed

lemma iterates_sent:
  assumes h: "hands_over L a n d s (E_OK, (m, z), s1)" and inv: "sk_inv L s" and L: "blob_content_ok L"
    and d: "take m (Data_content L d) = take m (queue_content L (sq_entryList (sk_sendQueue s)))"
    and n: "buffers_filled L \<longrightarrow> 0 < n" and sent: "sends L (sk_sendCounter s) m cs s1 s2"
  shows "iterates L a s (E_OK, apply_if_empty (announce_drained (complete_sends cs s2)))"
proof -
  have e: "effect L [] [] s (complete_sends cs s2)"
    using h sent d by (intro sent_effect [OF inv L, of s1 m cs s2]) (auto simp: hands_over_def)
  have q: "queues_only s1 s2" using sent by (simp add: sends_def)
  have "send_config (complete_sends cs s2) = send_config s"
    using h queues_only_fields(2) [OF q] by (simp add: hands_over_def same_state_def sk_normal send_config_def)
  moreover have "buffers_filled L \<longrightarrow> pending (complete_sends cs s2) < pending s"
    using h n sent by (auto simp: hands_over_def sends_def pending_def sk_normal same_state_def)
  ultimately show ?thesis
    using wrap_up [OF effect_inv [OF e]] effect_then [OF e] by (auto simp: iterates_def follows_def)
qed

lemma hands_over_inv:
  assumes "hands_over L a n d s (error, (m, z), s1)" and "sk_inv L s"
  shows "send_inv L (sk_sendQueue s1) (sk_zeroCopyQueue s1) (sk_sendCounter s)"
    and "sk_sendQueue s1 = sk_sendQueue s"
  using assms by (auto simp: hands_over_def same_state_def sk_inv_def)

lemma iteration_batch:
  assumes L: "blob_content_ok L" and inv: "sk_inv L s"
    and b: "SendQueue_batchNext L perSend result opts (sk_sendQueue s) = Some (True, sk_sendData s)"
  shows "\<exists>r. privateSocketWritableIterationBatch L T a s = Some r \<and> iterates L a s r"
proof -
  let ?r = "sk_sendData s"
  have s: "send_inv L (sk_sendQueue s) (sk_zeroCopyQueue s) (sk_sendCounter s)" "sk_sendRateLimiter s = None"
    using inv by (simp_all add: sk_inv_def)
  obtain error m z s1 where h: "hands_over L a (ba_numBytes ?r) (ConstBufferArray ?r) s (error, (m, z), s1)"
      "enqueue_send_buffer T a (ba_numBytes ?r) (ConstBufferArray ?r) None s = Some (error, (m, z), s1)"
    using enqueue_ok [OF s(2)] by (metis prod.collapse)
  note c = batch_content [OF L s(1) b]
  have run: "privateSocketWritableIterationBatch L T a s =
      (if error \<noteq> E_OK then Some (error, s1)
       else do { (cs, s2) \<leftarrow> batch_sent L z m [] s1;
                 Some (E_OK, apply_if_empty (announce_drained (complete_sends cs s2))) })"
    using h(2) by (simp add: privateSocketWritableIterationBatch_def privateEnqueueSendBuffer_data_def)
  show ?thesis
  proof (cases "error = E_OK")
    case False
    with run iterates_failed [OF h(1) False inv] show ?thesis by simp
  next
    case True
    have m: "m \<le> ba_numBytes ?r" using h(1) by (simp add: hands_over_def)
    note s1 = hands_over_inv [OF h(1) inv]
    obtain cs s2 where b2: "batch_sent L z m [] s1 = Some (cs, s2)" "sends L (sk_sendCounter s) m cs s1 s2"
      using batch_sent_ok [OF blob_content_ok_library [OF L] s1(1), of m z "[]"] m c(3) s1(2) by auto
    have "take m (Data_content L (ConstBufferArray ?r)) =
        take m (queue_content L (sq_entryList (sk_sendQueue s)))"
      using c(2) m by (simp add: min_def)
    from iterates_sent [OF h(1) [unfolded True] inv L this _ b2(2)] batch_filled [OF _ s(1) b]
    show ?thesis using run True b2(1) by simp
  qed
qed

lemma shut_down_effect:
  assumes inv: "sk_inv L s" and sh: "shuts s s'" and ok: "detach_ok s'" and close: "close_step s s'"
    and same: "detaching s \<longrightarrow> s' = s"
  shows "effect L [] [] s s'"
proof (rule shuts_effect [OF inv sh ok])
  show "sk_closeCallback s' \<noteq> None \<longrightarrow> detaching s'"
    using inv close same by (auto simp: sk_inv_def close_step_def)
qed

lemma shutdownSend_detaching:
  assumes "detach_ok s" and "detaching s"
  shows "privateShutdownSend s = Some s" and "privateShutdownReceive origin s = Some s"
  using detaching_closed [OF assms]
  by (simp_all add: privateShutdownSend_def privateShutdownReceive_def tryShutdownSend_shut
      tryShutdownReceive_shut)

lemma shuts_pending: "shuts s s' \<Longrightarrow> pending s' \<le> pending s"
  by (auto simp: shuts_def queues_untouched_def queues_cleared_def pending_def)

text \<open>
  A shutdown that starts while no detachment is under way dispatches the close callback, or
  leaves it to the detachment, or has not come to its end.
\<close>

definition shuts_down ::
  "'blob blob_library \<Rightarrow> ('blob, 't) StreamSocket \<Rightarrow> ('blob, 't) StreamSocket \<Rightarrow> bool" where
  "shuts_down L s s' \<longleftrightarrow>
     effect L [] [] s s' \<and> send_config s' = send_config s \<and> pending s' \<le> pending s"

lemma shutdownSend_effect:
  assumes inv: "sk_inv L s"
  shows "\<exists>s'. privateShutdownSend s = Some s' \<and> shuts_down L s s' \<and>
     \<not> ShutdownState_canSend (sk_shutdownState s')"
proof -
  have ok: "detach_ok s" using inv by (simp add: sk_inv_def)
  obtain s' where s': "privateShutdownSend s = Some s'" "shuts s s'" "detach_ok s'" "close_step s s'"
      "\<not> ShutdownState_canSend (sk_shutdownState s')"
    using shutdownSend_ok [OF ok] by blast
  have "effect L [] [] s s'"
    using s' shutdownSend_detaching [OF ok] by (intro shut_down_effect [OF inv]) auto
  with s' show ?thesis using shuts_pending by (auto simp: shuts_down_def shuts_def)
qed

lemma shutdownReceive_effect:
  assumes inv: "sk_inv L s"
  shows "\<exists>s'. privateShutdownReceive origin s = Some s' \<and> shuts_down L s s' \<and>
     \<not> ShutdownState_canReceive (sk_shutdownState s')"
proof -
  have ok: "detach_ok s" using inv by (simp add: sk_inv_def)
  obtain s' where s': "privateShutdownReceive origin s = Some s'" "shuts s s'" "detach_ok s'"
      "close_step s s'" "\<not> ShutdownState_canReceive (sk_shutdownState s')"
    using shutdownReceive_ok [OF ok] by blast
  have "effect L [] [] s s'"
    using s' shutdownSend_detaching [OF ok] by (intro shut_down_effect [OF inv]) auto
  with s' show ?thesis using shuts_pending by (auto simp: shuts_down_def shuts_def)
qed

lemma marker_pop:
  assumes inv: "sk_inv L s" and es: "sq_entryList (sk_sendQueue s) = e # es" and d: "se_data e = None"
  shows "\<exists>q. SendQueue_popEntry L (sk_sendQueue s) = Some (es = [], q) \<and>
     effect L [] [] s (s\<lparr>sk_sendQueue := q\<rparr>) \<and> pending (s\<lparr>sk_sendQueue := q\<rparr>) < pending s"
proof -
  have s: "send_inv L (sk_sendQueue s) (sk_zeroCopyQueue s) (sk_sendCounter s)"
    using inv by (simp add: sk_inv_def)
  define q where "q = (sk_sendQueue s)\<lparr>sq_entryList := es, sq_size := sum_list (map entry_weight es),
             sq_closedTimers := sq_closedTimers (sk_sendQueue s) @ fst (closeTimer e)\<rparr>"
  have pop: "SendQueue_popEntry L (sk_sendQueue s) = Some (es = [], q)"
    using popEntry_ok [OF send_inv_sq [OF s] es] by (simp add: q_def)
  have q: "sq_inv L q" "sq_entryList q = es"
    using send_inv_sq [OF s] es by (simp_all add: q_def sq_inv_def)
  have "send_inv L q (sk_zeroCopyQueue s) (sk_sendCounter s)"
    by (rule send_inv_tail [OF s es q]) auto
  then have "sk_inv L (s\<lparr>sk_sendQueue := q\<rparr>)"
    using inv by (simp add: sk_inv_def detach_ok_def)
  moreover have "entry_content L e = []" "\<not> has_data e"
    using d by (simp_all add: entry_content_def has_data_def)
  ultimately have "effect L [] [] s (s\<lparr>sk_sendQueue := q\<rparr>)"
    using es q(2)
    by (auto simp: effect_defs handed_on_def all_callbacks_def held_callbacks_def stream_bytes_def)
  moreover have "pending (s\<lparr>sk_sendQueue := q\<rparr>) < pending s"
    using front_facts(2) [OF s es] es by (simp add: pending_def q_def)
  ultimately show ?thesis using pop by blast
qed

lemma iteration_front:
  assumes L: "blob_content_ok L" and inv: "sk_inv L s" and ne: "SendQueue_hasEntry (sk_sendQueue s)"
  shows "\<exists>r. privateSocketWritableIterationFront L T a s = Some r \<and> iterates L a s r"
proof -
  obtain e es where es: "sq_entryList (sk_sendQueue s) = e # es"
    using ne by (cases "sq_entryList (sk_sendQueue s)") (auto simp: ntf_defs)
  have s: "send_inv L (sk_sendQueue s) (sk_zeroCopyQueue s) (sk_sendCounter s)" "sk_sendRateLimiter s = None"
    using inv by (simp_all add: sk_inv_def)
  note front = front_facts [OF s(1) es]
  show ?thesis
  proof (cases "se_data e")
    case (Some d)
    then have hd: "has_data e" by (simp add: has_data_def)
    have n: "Data_size L d = Some (se_length e)" "0 < se_length e"
      using front(1) Some by (simp_all add: entry_ok_def)
    obtain error m z s1 where h: "hands_over L a (se_length e) d s (error, (m, z), s1)"
        "enqueue_send_buffer T a (se_length e) d (se_foreignHandle e) s = Some (error, (m, z), s1)"
      using enqueue_ok [OF s(2)] by (metis prod.collapse)
    have run: "privateSocketWritableIterationFront L T a s =
        (if error \<noteq> E_OK then Some (error, s1)
         else do { (e, s2) \<leftarrow> start_entry z s1;
                   (due, s3) \<leftarrow>
                     (if m = se_length e then finish_entry L e s2
                      else do { q \<leftarrow> SendQueue_popSize L m (sk_sendQueue s2);
                                Some (None, s2\<lparr>sk_sendQueue := q\<rparr>) });
                   Some (E_OK, apply_if_empty (announce_drained (complete_sends (due_callback due) s3))) })"
      using h(2) es Some n(1)
      by (simp add: privateSocketWritableIterationFront_def SendQueue_frontEntry_def due_callback_def
          privateEnqueueSendBuffer_data_def cong: if_cong)
    show ?thesis
    proof (cases "error = E_OK")
      case False
      with run iterates_failed [OF h(1) False inv] show ?thesis by simp
    next
      case True
      note s1 = hands_over_inv [OF h(1) inv]
      have m: "m \<le> se_length e" using h(1) by (simp add: hands_over_def)
      obtain s2 where s2: "start_entry z s1 = Some (started z e, s2)" "sends L (sk_sendCounter s) 0 [] s1 s2"
          "sq_entryList (sk_sendQueue s2) = started z e # es"
        using start_sends [OF s1(1) _ hd] es s1(2) by auto
      have inv2: "send_inv L (sk_sendQueue s2) (sk_zeroCopyQueue s2) (sk_sendCounter s)"
        using s2(2) by (simp add: sends_def)
      have "\<exists>due s3. (if m = se_length (started z e) then finish_entry L (started z e) s2
          else do { q \<leftarrow> SendQueue_popSize L m (sk_sendQueue s2); Some (None, s2\<lparr>sk_sendQueue := q\<rparr>) })
          = Some (due, s3) \<and> sends L (sk_sendCounter s) m (due_callback due) s2 s3"
        using finish_sends [OF inv2 s2(3)] pop_sends [OF blob_content_ok_library [OF L] inv2 s2(3), of m]
          m hd by (fastforce simp: due_callback_def)
      then obtain due s3 where s3: "(if m = se_length (started z e) then finish_entry L (started z e) s2
          else do { q \<leftarrow> SendQueue_popSize L m (sk_sendQueue s2); Some (None, s2\<lparr>sk_sendQueue := q\<rparr>) })
          = Some (due, s3)" "sends L (sk_sendCounter s) m (due_callback due) s2 s3" by blast
      have "length (Data_content L d) = se_length e"
        by (rule Data_content_length [OF L front(3) [OF Some] n(1)])
      then have "take m (Data_content L d) = take m (queue_content L (sq_entryList (sk_sendQueue s)))"
        using m es Some by (simp add: entry_content_def)
      from iterates_sent [OF h(1) [unfolded True] inv L this _ sends_trans [OF s2(2) s3(2), simplified]] n(2)
      show ?thesis using run True s2(1) s3(1) by simp
    qed
  next
    case None
    from marker_pop [OF inv es None] obtain q where
      q: "SendQueue_popEntry L (sk_sendQueue s) = Some (es = [], q)"
        "effect L [] [] s (s\<lparr>sk_sendQueue := q\<rparr>)" "pending (s\<lparr>sk_sendQueue := q\<rparr>) < pending s"
      by blast
    from shutdownSend_effect [OF effect_inv [OF q(2)]] obtain s' where
      s': "privateShutdownSend (s\<lparr>sk_sendQueue := q\<rparr>) = Some s'" "shuts_down L (s\<lparr>sk_sendQueue := q\<rparr>) s'"
      by blast
    then have e: "effect L [] [] s s'" "send_config s' = send_config s" "pending s' < pending s"
      using effect_then [OF q(2)] q(3) by (auto simp: shuts_down_def send_config_def)
    have "privateSocketWritableIterationFront L T a s = Some (E_OK, apply_if_empty s')"
      using es None q(1) s'(1)
      by (simp add: privateSocketWritableIterationFront_def SendQueue_frontEntry_def)
    with e show ?thesis
      using apply_if_empty_follows [OF effect_inv [OF e(1)]] effect_then [OF e(1)]
      by (auto simp: iterates_def follows_def)
  qed
qed

lemma batchNext_total:
  assumes "send_inv L q zq counter"
  shows "\<exists>b r. SendQueue_batchNext L perSend result opts q = Some (b, r)"
proof (cases "2 \<le> length (sq_entryList q)")
  case True
  have "\<forall>e \<in> set (sq_entryList q). \<forall>d. se_data e = Some d \<longrightarrow> freely_poppable d"
    using assms by (simp add: send_inv_def)
  then have "list_all in_bounds (sq_entryList q)"
    using freely_in_bounds unfolding list_all_iff by blast
  from batchNext_gathers [OF True this] show ?thesis by blast
qed (auto simp: SendQueue_batchNext_def Let_def)

lemma iteration_ok:
  assumes L: "blob_content_ok L" and inv: "sk_inv L s" and ne: "SendQueue_hasEntry (sk_sendQueue s)"
  shows "\<exists>r. privateSocketWritableIteration L T perSend a s = Some r \<and> iterates L a s r"
proof -
  have "send_inv L (sk_sendQueue s) (sk_zeroCopyQueue s) (sk_sendCounter s)"
    using inv by (simp add: sk_inv_def)
  from batchNext_total [OF this] obtain b r where
    b: "SendQueue_batchNext L perSend (sk_sendData s) (sk_sendOptions s) (sk_sendQueue s) = Some (b, r)"
    by blast
  define s1 where "s1 = s\<lparr>sk_sendData := r\<rparr>"
  have e: "effect L [] [] s s1" unfolding s1_def by (rule quiet_effects(10) [OF inv])
  have s1: "sk_sendQueue s1 = sk_sendQueue s" "sk_sendData s1 = r"
      "send_config s1 = send_config s" "pending s1 = pending s" "sk_socket s1 = sk_socket s"
    by (simp_all add: s1_def send_config_def pending_def)
  have run: "privateSocketWritableIteration L T perSend a s =
      (if b then privateSocketWritableIterationBatch L T a s1
       else privateSocketWritableIterationFront L T a s1)"
    using ne b by (simp add: privateSocketWritableIteration_def s1_def)
  obtain error s' where it: "privateSocketWritableIteration L T perSend a s = Some (error, s')"
      "iterates L a s1 (error, s')"
    using iteration_batch [OF L effect_inv [OF e], of perSend "sk_sendData s" "sk_sendOptions s" T a]
      iteration_front [OF L effect_inv [OF e], of T a] run b ne s1 by (cases b) auto
  then show ?thesis
    using effect_then [OF e] s1 by (auto simp: iterates_def)
qed

text \<open>
  The loop ends: each iteration leaves less to send, so the answers cannot run out.
\<close>

lemma writable_loop_ok:
  assumes L: "blob_content_ok L" and inv: "sk_inv L s" and enough: "pending s \<le> length as"
  shows "\<exists>error s'. writable_loop L T perSend as s = Some (error, s') \<and>
     effect L [] [] s s' \<and> send_config s' = send_config s"
  using inv enough
proof (induction as arbitrary: s)
  case Nil
  then have "sq_entryList (sk_sendQueue s) = []" by (simp add: pending_def)
  with Nil show ?case using effect_refl by (simp add: ntf_defs)
next
  case (Cons a as)
  show ?case
  proof (cases "SendQueue_hasEntry (sk_sendQueue s)")
    case False
    with Cons.prems show ?thesis using effect_refl by simp
  next
    case True
    from iteration_ok [OF L Cons.prems(1) True, of T perSend a] obtain error s1 where
      s1: "privateSocketWritableIteration L T perSend a s = Some (error, s1)" "effect L [] [] s s1"
        "send_config s1 = send_config s" "error = E_OK \<longrightarrow> buffers_filled L \<longrightarrow> pending s1 < pending s"
      by (auto simp: iterates_def)
    show ?thesis
    proof (cases "error = E_OK \<and> sk_sendGreedily s1 \<and> ShutdownState_canSend (sk_shutdownState s1)")
      case False
      with True s1 show ?thesis by auto
    next
      case more: True
      then have "buffers_filled L" using effect_inv [OF s1(2)] by (simp add: sk_inv_def)
      with Cons.prems more s1(4) have "pending s1 \<le> length as" by auto
      with Cons.IH [of s1] effect_inv [OF s1(2)] obtain error' s' where
        "writable_loop L T perSend as s1 = Some (error', s')" "effect L [] [] s1 s'"
        "send_config s' = send_config s1" by blast
      with True more s1(1,3) effect_then [OF s1(2)] show ?thesis by simp
    qed
  qed
qed

subsection \<open>Failure, shutdown and close\<close>

lemma shuts_down_refl: "sk_inv L s \<Longrightarrow> shuts_down L s s"
  by (simp add: shuts_down_def effect_refl)

lemma shuts_down_trans: "shuts_down L s t \<Longrightarrow> shuts_down L t u \<Longrightarrow> shuts_down L s u"
  unfolding shuts_down_def using effect_then order_trans by (metis (no_types, lifting))

lemma shuts_down_inv: "shuts_down L s s' \<Longrightarrow> sk_inv L s'"
  by (auto simp: shuts_down_def intro: effect_inv)

lemma send_invD:
  assumes "send_inv L q zq counter"
  defines "es \<equiv> sq_entryList q" and "ws \<equiv> zq_waitList zq"
  shows "sq_inv L q" and "\<forall>x \<in> set es. \<forall>d. se_data x = Some d \<longrightarrow> freely_poppable d"
    and "\<forall>x \<in> set es. \<not> has_data x \<longrightarrow> \<not> se_zeroCopy x" and "\<forall>x \<in> set (tl es). \<not> se_zeroCopy x"
    and "\<forall>x xs. es = x # xs \<longrightarrow> se_zeroCopy x \<longrightarrow>
         ws \<noteq> [] \<and> ze_group (last ws) = se_id x \<and> \<not> ze_framed (last ws)"
    and "sorted_wrt (<) (map se_id (filter has_data es))"
    and "\<forall>x \<in> set es. has_data x \<longrightarrow> se_id x < counter" and "\<forall>w \<in> set ws. ze_group w < counter"
    and "\<forall>w \<in> set ws. \<forall>x \<in> set es. has_data x \<longrightarrow> \<not> se_zeroCopy x \<longrightarrow> ze_group w < se_id x"
  using assms(1) by (simp_all add: send_inv_def es_def ws_def)

text \<open>An entry that is not zero-copied goes to the back.\<close>

lemma send_inv_push:
  assumes inv: "send_inv L q zq counter" and ok: "entry_ok L e" and z: "\<not> se_zeroCopy e"
    and c: "counter \<le> counter'" and i: "has_data e \<longrightarrow> counter \<le> se_id e \<and> se_id e < counter'"
    and free: "\<forall>d. se_data e = Some d \<longrightarrow> freely_poppable d"
  shows "send_inv L (q\<lparr>sq_entryList := sq_entryList q @ [e], sq_size := sq_size q + entry_weight e\<rparr>) zq
     counter'"
proof -
  let ?es = "sq_entryList q" and ?ws = "zq_waitList zq"
  note old = send_invD [OF inv]
  have "sorted_wrt (<) (map se_id (filter has_data (?es @ [e])))"
    using old(6,7) i by (auto simp: sorted_wrt_append dest: less_le_trans)
  moreover have "\<forall>x \<in> set (?es @ [e]). has_data x \<longrightarrow> se_id x < counter'"
    using old(7) i c by (auto dest: less_le_trans)
  moreover have "\<forall>w \<in> set ?ws. ze_group w < counter'" using old(8) c by (auto dest: less_le_trans)
  moreover have "\<forall>w \<in> set ?ws. \<forall>x \<in> set (?es @ [e]). has_data x \<longrightarrow> \<not> se_zeroCopy x \<longrightarrow>
      ze_group w < se_id x"
    using old(8,9) i by (auto dest: less_le_trans)
  moreover have "\<forall>x \<in> set (tl (?es @ [e])). \<not> se_zeroCopy x"
    using old(4) z by (cases ?es) auto
  moreover have "\<forall>x xs. ?es @ [e] = x # xs \<longrightarrow> se_zeroCopy x \<longrightarrow>
      ?ws \<noteq> [] \<and> ze_group (last ?ws) = se_id x \<and> \<not> ze_framed (last ?ws)"
    using old(5) z by (cases ?es) auto
  ultimately show ?thesis
    using old(1-3) ok z free unfolding send_inv_def by (simp add: sq_inv_def)
qed

lemma marker_push:
  fixes s :: "('blob, 't) StreamSocket"
  assumes inv: "sk_inv L s" and g: "generateEntryId (sk_sendQueue s) = (i, q)"
  shows "\<exists>b q1. SendQueue_pushEntry L (setId i SendQueueEntry_init) q = Some (b, q1) \<and>
     effect L [] [] s (s\<lparr>sk_sendQueue := q1\<rparr>)"
proof -
  let ?e = "setId i SendQueueEntry_init :: 'blob SendQueueEntry"
  let ?q = "q\<lparr>sq_entryList := sq_entryList q @ [?e], sq_size := sq_size q + entry_weight ?e\<rparr>"
  have e: "se_data ?e = None" "\<not> se_zeroCopy ?e" "se_callback ?e = None"
    by (simp_all add: SendQueueEntry_init_def ntf_defs)
  have q: "q = (sk_sendQueue s)\<lparr>sq_nextEntryId := sq_nextEntryId q\<rparr>"
    using g by (auto simp: generateEntryId_def Let_def)
  have inv_q: "send_inv L q (sk_zeroCopyQueue s) (sk_sendCounter s)"
    using inv by (subst q) (simp add: sk_inv_def send_inv_def sq_inv_def)
  have es: "sq_entryList q = sq_entryList (sk_sendQueue s)" by (subst q) simp
  have "SendQueue_pushEntry L ?e q = Some (sq_entryList q = [], ?q)"
    by (rule pushEntry_ok [OF send_inv_sq [OF inv_q]]) (simp add: entry_ok_def e)
  moreover have "send_inv L ?q (sk_zeroCopyQueue s) (sk_sendCounter s)"
    by (rule send_inv_push [OF inv_q]) (simp_all add: entry_ok_def e has_data_def)
  then have "sk_inv L (s\<lparr>sk_sendQueue := ?q\<rparr>)"
    using inv by (simp add: sk_inv_def detach_ok_def)
  then have "effect L [] [] s (s\<lparr>sk_sendQueue := ?q\<rparr>)"
    using es e by (simp add: effect_defs all_callbacks_def held_callbacks_def handed_on_def
        stream_bytes_def entry_content_def)
  ultimately show ?thesis by blast
qed

lemma dispatch_close_effect:
  assumes "sk_inv L s"
  shows "effect L [] [] s (dispatch_close s)"
  using assms
  by (intro shuts_effect [OF assms] quiet_step_shuts) (auto simp: sk_inv_def detach_ok_def)

lemma privateShutdown_ok:
  assumes inv: "sk_inv L s"
  shows "\<exists>s'. privateShutdown L direction mode d s = Some s' \<and> effect L [] [] s s'"
proof -
  let ?receive = "(direction = Shutdown_RECEIVE \<or> direction = Shutdown_BOTH) \<and>
     ShutdownState_canReceive (sk_shutdownState s)"
  obtain s1 where s1: "(if ?receive then privateShutdownReceive e_SOURCE s else Some s) = Some s1"
      "effect L [] [] s s1"
    using shutdownReceive_effect [OF inv, of e_SOURCE] effect_refl [OF inv]
    by (cases ?receive) (auto simp: shuts_down_def)
  note inv1 = effect_inv [OF s1(2)]
  obtain i q where g: "generateEntryId (sk_sendQueue s1) = (i, q)" by fastforce
  obtain b q1 where q1: "SendQueue_pushEntry L (setId i SendQueueEntry_init) q = Some (b, q1)"
      "effect L [] [] s1 (s1\<lparr>sk_sendQueue := q1\<rparr>)"
    using marker_push [OF inv1 g] by blast
  let ?send = "(direction = Shutdown_SEND \<or> direction = Shutdown_BOTH) \<and>
     ShutdownState_canSend (sk_shutdownState s1)"
  let ?marked = "privateRelaxFlowControl FlowControlType.e_SEND d True (s1\<lparr>sk_sendQueue := q1\<rparr>)"
  have "effect L [] [] s1 ?marked"
    by (rule effect_then [OF q1(2) quiet_effects(1) [OF effect_inv [OF q1(2)]]])
  then obtain s2 where s2: "(if ?send
      then if mode = e_GRACEFUL \<and> SendQueue_hasEntry (sk_sendQueue s1) then Some ?marked
           else privateShutdownSend s1
      else Some s1) = Some s2" "effect L [] [] s1 s2"
    using shutdownSend_effect [OF inv1] effect_refl [OF inv1]
    by (cases ?send; cases "mode = e_GRACEFUL \<and> SendQueue_hasEntry (sk_sendQueue s1)")
       (auto simp: shuts_down_def)
  have e: "effect L [] [] s s2" by (rule effect_then [OF s1(2) s2(2)])
  have "privateShutdown L direction mode d s = Some (
      if sk_closeCallback s \<noteq> None \<and> ShutdownState_completed (sk_shutdownState s)
      then dispatch_close s2 else s2)"
    unfolding privateShutdown_def Let_def s1(1)
    by (simp only: Option.bind.bind_lunit g prod.case q1(1) s2(1))
  moreover have "effect L [] [] s (dispatch_close s2)"
    by (rule effect_then [OF e dispatch_close_effect [OF effect_inv [OF e]]])
  ultimately show ?thesis using e by auto
qed

text \<open>
  \<open>close\<close> registers its callback before the shutdown: the shutdown dispatches the callback or
  leaves it to the detachment.
\<close>

lemma close_step_refl: "close_step s s"
  by (simp add: close_step_def)

lemma shutdown_both_ok:
  assumes ok: "detach_ok s" and idle: "\<not> detaching s"
  shows "\<exists>s'. privateShutdown L Shutdown_BOTH e_IMMEDIATE d s = Some s' \<and> shuts s s' \<and> detach_ok s' \<and>
     (sk_closeCallback s' \<noteq> None \<longrightarrow> detaching s')"
proof -
  let ?receive = "ShutdownState_canReceive (sk_shutdownState s)"
  obtain s1 where s1: "(if ?receive then privateShutdownReceive e_SOURCE s else Some s) = Some s1"
      "shuts s s1" "detach_ok s1" "close_step s s1" "\<not> ShutdownState_canReceive (sk_shutdownState s1)"
    using shutdownReceive_ok [OF ok, of e_SOURCE] ok close_step_refl by (cases ?receive) auto
  let ?send = "ShutdownState_canSend (sk_shutdownState s1)"
  obtain s2 where s2: "(if ?send then privateShutdownSend s1 else Some s1) = Some s2"
      "shuts s1 s2" "detach_ok s2" "close_step s1 s2" "\<not> ShutdownState_canSend (sk_shutdownState s2)"
      "ShutdownState_canReceive (sk_shutdownState s2) \<longrightarrow> ShutdownState_canReceive (sk_shutdownState s1)"
    using shutdownSend_ok [OF s1(3)] s1(3) close_step_refl by (cases ?send) auto
  have same: "detaching s1 \<longrightarrow> s2 = s1"
    using s2(1) detaching_closed [OF s1(3)] by auto
  define s3 where "s3 = (if sk_closeCallback s \<noteq> None \<and> ShutdownState_completed (sk_shutdownState s)
    then dispatch_close s2 else s2)"
  have "privateShutdown L Shutdown_BOTH e_IMMEDIATE d s = Some s3"
    unfolding privateShutdown_def Let_def s3_def
    by (simp only: simp_thms ShutdownMode.distinct s1(1) s2(1) Option.bind.bind_lunit if_False)
  moreover have "shuts s s3" "detach_ok s3"
    using shuts_trans [OF s1(2) s2(2)] s2(3) shuts_trans [OF _ quiet_step_shuts [OF quiet_parts(3)]]
    by (auto simp: s3_def detach_ok_def)
  moreover have "ShutdownState_completed (sk_shutdownState s2)"
    using s1(5) s2(3,5,6) by (auto simp: detach_ok_def shutdown_inv_def shutdown_accessors Let_def)
  then have "sk_closeCallback s3 \<noteq> None \<longrightarrow> detaching s3"
    using s1(4) s2(4) same by (auto simp: s3_def close_step_def)
  ultimately show ?thesis by blast
qed

lemma privateClose_ok:
  assumes inv: "sk_inv L s"
  shows "\<exists>s'. privateClose L callback s = Some s' \<and> effect L [] [] s s'"
proof (cases "detaching s")
  case True
  then show ?thesis using quiet_effects(8) [OF inv] by (simp add: privateClose_def)
next
  case False
  define s0 where "s0 = s\<lparr>sk_closeCallback := callback\<rparr>"
  have "detach_ok s0" "\<not> detaching s0"
    using inv False by (simp_all add: s0_def sk_inv_def detach_ok_def)
  from shutdown_both_ok [OF this] obtain s' where
    s': "privateShutdown L Shutdown_BOTH e_IMMEDIATE True s0 = Some s'" "shuts s0 s'" "detach_ok s'"
      "sk_closeCallback s' \<noteq> None \<longrightarrow> detaching s'" by blast
  have "shuts s s'"
    using s'(2) by (simp add: s0_def shuts_def queues_untouched_def queues_cleared_def send_config_def)
  from shuts_effect [OF inv this s'(3,4)] show ?thesis
    using False inv s'(1) by (auto simp: privateClose_def s0_def sk_inv_def)
qed

lemma privateFail_ok:
  assumes inv: "sk_inv L s"
  shows "\<exists>s'. privateFail L error s = Some s' \<and> effect L [] [] s s'"
proof -
  define s1 where "s1 = privateApplyFlowControl FlowControlType.e_BOTH False True s"
  define s2 where "s2 = s1\<lparr>sk_flowControlState := FlowControlState_close (sk_flowControlState s1)\<rparr>"
  define s3 where "s3 = announce (AnnounceError error) s2"
  have e2: "effect L [] [] s s2"
    unfolding s2_def s1_def
    by (rule effect_then [OF quiet_effects(2) [OF inv] quiet_effects(7) [OF effect_inv [OF quiet_effects(2) [OF inv]]]])
  have e3: "effect L [] [] s s3"
    unfolding s3_def by (rule effect_then [OF e2 quiet_effects(4) [OF effect_inv [OF e2]]])
  have run: "privateFail L error s =
      (if error = E_CONNECTION_DEAD \<or> error = E_CONNECTION_RESET
       then do { t \<leftarrow> privateShutdownReceive e_REMOTE s2; privateShutdownSend t }
       else privateShutdown L Shutdown_BOTH e_IMMEDIATE False s3)"
    unfolding s3_def s2_def s1_def by (simp add: privateFail_def Let_def)
  obtain t where t: "privateShutdownReceive e_REMOTE s2 = Some t" "effect L [] [] s2 t"
    using shutdownReceive_effect [OF effect_inv [OF e2], of e_REMOTE] by (auto simp: shuts_down_def)
  obtain u where u: "privateShutdownSend t = Some u" "effect L [] [] t u"
    using shutdownSend_effect [OF effect_inv [OF t(2)]] by (auto simp: shuts_down_def)
  obtain v where v: "privateShutdown L Shutdown_BOTH e_IMMEDIATE False s3 = Some v" "effect L [] [] s3 v"
    using privateShutdown_ok [OF effect_inv [OF e3]] by blast
  show ?thesis
    using run t u v effect_then [OF e2 effect_then [OF t(2) u(2)]] effect_then [OF e3 v(2)] by auto
qed

lemma detached_ok:
  assumes inv: "sk_inv L s" and d: "detaching s"
  shows "\<exists>s'. processSocketDetached s = Some s' \<and> effect L [] [] s s'"
proof -
  have ok: "detach_ok s" using inv by (simp add: sk_inv_def)
  then obtain c f where c: "sk_detachCallback s = Some (c, f)" "shutdownCompleted c"
    using d by (auto simp: detach_ok_def)
  define s1 where "s1 = s\<lparr>sk_detachCallback := None\<rparr>"
  have "detaching s1" "\<not> ShutdownState_canSend (sk_shutdownState s1)"
    using d detaching_closed [OF ok] by (simp_all add: s1_def)
  with sequenceComplete_ok [of True s1 c f] c(2) obtain s' where
    s': "privateShutdownSequenceComplete c f True s1 = Some s'" "shuts s1 s'"
      "sk_shutdownState s' = sk_shutdownState s1" "\<not> detaching s'"
      "sk_detachCallback s' = sk_detachCallback s1" "sk_closeCallback s' = None"
    by auto
  have "shuts s s'" "detach_ok s'"
    using s' ok by (simp_all add: s1_def shuts_def queues_untouched_def queues_cleared_def send_config_def
        detach_ok_def)
  from shuts_effect [OF inv this] show ?thesis
    using s' c by (simp add: processSocketDetached_def s1_def)
qed

subsection \<open>The handlers of the reactor\<close>

lemma rearm_same:
  assumes "sk_inv L s"
  shows "effect L [] [] s (privateRearmAfterSend s)"
    and "effect L [] [] s (privateRearmAfterNotification s)"
  using quiet_effects(5,6) [OF assms] effect_refl [OF assms]
  by (simp_all add: privateRearmAfterSend_def privateRearmAfterNotification_def)

lemma processSocketWritable_ok:
  assumes L: "blob_content_ok L" and inv: "sk_inv L s" and enough: "pending s \<le> length as"
  shows "\<exists>s'. processSocketWritable L T perSend as s = Some s' \<and> effect L [] [] s s'"
proof -
  obtain error s1 where s1: "writable_loop L T perSend as s = Some (error, s1)" "effect L [] [] s s1"
    using writable_loop_ok [OF L inv enough] by blast
  note inv1 = effect_inv [OF s1(2)]
  obtain s2 where s2: "privateFail L error s1 = Some s2" "effect L [] [] s1 s2"
    using privateFail_ok [OF inv1] by blast
  show ?thesis
    using s1 s2 effect_refl [OF inv] effect_then [OF s1(2) s2(2)]
      effect_then [OF s1(2) rearm_same(1) [OF inv1]]
    by (simp add: processSocketWritable_def)
qed

lemma processSocketError_ok:
  assumes "sk_inv L s"
  shows "\<exists>s'. processSocketError L error s = Some s' \<and> effect L [] [] s s'"
  using privateFail_ok [OF assms] effect_refl [OF assms] by (auto simp: processSocketError_def)

lemma StreamSocket_shutdown_ok:
  assumes "sk_inv L s"
  shows "\<exists>s'. StreamSocket_shutdown L direction mode s = Some s' \<and> effect L [] [] s s'"
  using privateShutdown_ok [OF assms] quiet_effects(8) [OF assms]
  by (auto simp: StreamSocket_shutdown_def)

lemma processSendRateTimer_ok:
  assumes "sk_inv L s"
  shows "effect L [] [] s (processSendRateTimer s)"
  unfolding processSendRateTimer_def
  by (rule effect_then [OF quiet_effects(1) [OF assms] quiet_effects(3) [OF effect_inv [OF quiet_effects(1) [OF assms]]]])

lemma flow_control_ok:
  assumes "sk_inv L s"
  shows "effect L [] [] s (StreamSocket_relaxFlowControl direction s)"
    and "effect L [] [] s (StreamSocket_applyFlowControl direction s)"
proof -
  show "effect L [] [] s (StreamSocket_relaxFlowControl direction s)"
    unfolding StreamSocket_relaxFlowControl_def by (rule quiet_effects(1) [OF assms])
  define s1 where "s1 = (if (direction = FlowControlType.e_SEND \<or> direction = FlowControlType.e_BOTH) \<and>
                   sk_sendRateTimer s
                then (emit CloseSendRateTimer s)\<lparr>sk_sendRateTimer := False\<rparr> else s)"
  define s2 where "s2 = (if (direction = FlowControlType.e_RECEIVE \<or> direction = FlowControlType.e_BOTH) \<and>
                   sk_receiveRateTimer s1
                then (emit CloseReceiveRateTimer s1)\<lparr>sk_receiveRateTimer := False\<rparr> else s1)"
  have "same_state s s1" "dispatched (sk_log s1) = dispatched (sk_log s)"
      "transmissions (sk_log s1) = transmissions (sk_log s)"
    by (simp_all add: s1_def same_state_def send_config_def emit_def)
  moreover have "same_state s1 s2" "dispatched (sk_log s2) = dispatched (sk_log s1)"
      "transmissions (sk_log s2) = transmissions (sk_log s1)"
    by (simp_all add: s2_def same_state_def send_config_def emit_def)
  ultimately have "effect L [] [] s s2"
    using same_state_trans [of s s1 s2] by (intro same_state_effect [OF assms]) simp_all
  then show "effect L [] [] s (StreamSocket_applyFlowControl direction s)"
    unfolding StreamSocket_applyFlowControl_def Let_def s1_def s2_def
    using effect_then quiet_effects(2) effect_inv by blast
qed

text \<open>An entry removed from the send queue: its callback is dispatched.\<close>

lemma send_inv_remove:
  assumes inv: "send_inv L q zq counter" and es: "sq_entryList q = xs @ e # ys"
    and q': "sq_inv L q'" "sq_entryList q' = xs @ ys"
  shows "send_inv L q' zq counter"
proof (cases xs)
  case Nil
  then show ?thesis by (intro send_inv_tail [OF inv _ q'(1)]) (use es q'(2) in auto)
next
  case (Cons x xs')
  note old = send_invD [OF inv, unfolded es]
  have sub: "set (xs @ ys) \<subseteq> set (xs @ e # ys)" "set (tl (xs @ ys)) \<subseteq> set (tl (xs @ e # ys))"
    using Cons by auto
  have "sorted_wrt (<) (map se_id (filter has_data (xs @ ys)))"
    using old(6) by (auto simp: sorted_wrt_append split: if_splits)
  moreover have "\<forall>y zs. xs @ ys = y # zs \<longrightarrow> se_zeroCopy y \<longrightarrow>
      zq_waitList zq \<noteq> [] \<and> ze_group (last (zq_waitList zq)) = se_id y \<and>
      \<not> ze_framed (last (zq_waitList zq))"
    using old(5) Cons by auto
  ultimately show ?thesis
    using old(2-4,7-9) sub q' unfolding send_inv_def q'(2) by blast
qed

lemma remove_ok:
  assumes inv: "sk_inv L s"
  shows "\<exists>b cb ctx q. removeEntry L matching removable ctx0 (sk_sendQueue s) = Some (b, cb, ctx, q) \<and>
     sk_inv L (s\<lparr>sk_sendQueue := q\<rparr>) \<and>
     (handed_on (sk_sendQueue s) \<longrightarrow> handed_on q \<and>
        all_callbacks s = all_callbacks (s\<lparr>sk_sendQueue := q\<rparr>) +
          mset (case cb of None \<Rightarrow> [] | Some c \<Rightarrow> [c]))"
proof -
  have s: "send_inv L (sk_sendQueue s) (sk_zeroCopyQueue s) (sk_sendCounter s)"
    using inv by (simp add: sk_inv_def)
  obtain r es where r: "removeEntry L matching removable ctx0 (sk_sendQueue s) =
      Some (es = [], (case r of None \<Rightarrow> None | Some e \<Rightarrow> se_callback e),
        (case r of None \<Rightarrow> ctx0 | Some e \<Rightarrow> se_context e),
        (sk_sendQueue s)\<lparr>sq_entryList := es, sq_size := sum_list (map entry_weight es),
          sq_closedTimers := sq_closedTimers (sk_sendQueue s) @
            (case r of None \<Rightarrow> [] | Some e \<Rightarrow> fst (closeTimer e))\<rparr>)" (is "_ = Some (_, _, _, ?q)")
      "case r of None \<Rightarrow> es = sq_entryList (sk_sendQueue s) \<and>
          (case find matching (sq_entryList (sk_sendQueue s)) of None \<Rightarrow> True | Some e \<Rightarrow> \<not> removable e)
       | Some e \<Rightarrow> find matching (sq_entryList (sk_sendQueue s)) = Some e \<and> removable e \<and>
          (\<exists>xs ys. sq_entryList (sk_sendQueue s) = xs @ e # ys \<and> es = xs @ ys)"
    using removeEntry_ok [OF send_inv_sq [OF s], of matching removable ctx0] by blast
  define q where "q = ?q"
  have q: "removeEntry L matching removable ctx0 (sk_sendQueue s) =
        Some (es = [], (case r of None \<Rightarrow> None | Some e \<Rightarrow> se_callback e),
              (case r of None \<Rightarrow> ctx0 | Some e \<Rightarrow> se_context e), q)"
      "sq_entryList q = es"
      "case r of None \<Rightarrow> es = sq_entryList (sk_sendQueue s)
       | Some e \<Rightarrow> \<exists>xs ys. sq_entryList (sk_sendQueue s) = xs @ e # ys \<and> es = xs @ ys"
    using r by (simp_all add: q_def split: option.splits)
  have q_inv: "sq_inv L q" by (rule removeEntry_inv [OF send_inv_sq [OF s] q(1)])
  have "send_inv L q (sk_zeroCopyQueue s) (sk_sendCounter s)"
  proof (cases r)
    case None
    then have "sq_entryList q = sq_entryList (sk_sendQueue s)" using q(2,3) by simp
    then show ?thesis using s q_inv by (simp add: send_inv_def)
  next
    case (Some e)
    then show ?thesis using q(2,3) send_inv_remove [OF s _ q_inv] by auto
  qed
  then have "sk_inv L (s\<lparr>sk_sendQueue := q\<rparr>)" using inv by (simp add: sk_inv_def detach_ok_def)
  moreover have "handed_on (sk_sendQueue s) \<longrightarrow> handed_on q \<and>
        all_callbacks s = all_callbacks (s\<lparr>sk_sendQueue := q\<rparr>) +
          mset (case (case r of None \<Rightarrow> None | Some e \<Rightarrow> se_callback e) of None \<Rightarrow> [] | Some c \<Rightarrow> [c])"
    using q(2,3)
    by (cases r) (auto simp: handed_on_def all_callbacks_def held_callbacks_def split: option.splits)
  ultimately show ?thesis using q(1) by blast
qed

lemma removed_keeps:
  fixes s :: "('blob, 't) StreamSocket"
  assumes "sk_inv L (s\<lparr>sk_sendQueue := q\<rparr>)"
    and "handed_on (sk_sendQueue s) \<longrightarrow> handed_on q \<and>
        all_callbacks s = all_callbacks (s\<lparr>sk_sendQueue := q\<rparr>) + mset (case cb of None \<Rightarrow> [] | Some c \<Rightarrow> [c])"
    and s2: "s2 = (if b then privateApplyFlowControl FlowControlType.e_SEND d False (s\<lparr>sk_sendQueue := q\<rparr>)
             else s\<lparr>sk_sendQueue := q\<rparr>)"
  shows "keeps L [] s (case cb of None \<Rightarrow> s2 | Some c \<Rightarrow> emit (DispatchSend ty ctx c f) s2)"
proof -
  have "effect L [] [] (s\<lparr>sk_sendQueue := q\<rparr>) s2"
    unfolding s2 using quiet_effects(2) [OF assms(1)] effect_refl [OF assms(1)] by simp
  moreover have "sk_sendQueue s2 = q" unfolding s2 by (simp add: sk_normal)
  ultimately show ?thesis
    using assms(2)
    by (cases cb) (auto simp: effect_defs emit_def sk_inv_def detach_ok_def all_callbacks_def)
qed

lemma processSendDeadlineTimer_ok:
  assumes inv: "sk_inv L s"
  shows "\<exists>s'. processSendDeadlineTimer L i s = Some s' \<and> keeps L [] s s'"
proof -
  obtain b cb ctx q where q: "removeEntryId_context L i (sk_sendQueue s) = Some (b, cb, ctx, q)"
      "sk_inv L (s\<lparr>sk_sendQueue := q\<rparr>)"
      "handed_on (sk_sendQueue s) \<longrightarrow> handed_on q \<and>
        all_callbacks s = all_callbacks (s\<lparr>sk_sendQueue := q\<rparr>) + mset (case cb of None \<Rightarrow> [] | Some c \<Rightarrow> [c])"
    unfolding removeEntryId_context_def using remove_ok [OF inv] by blast
  from removed_keeps [OF q(2,3) refl, of b False Send_ERROR "ctx\<lparr>sc_error := E_WOULD_BLOCK\<rparr>" False] q(1)
  show ?thesis by (simp add: processSendDeadlineTimer_def Let_def)
qed

lemma StreamSocket_cancel_ok:
  assumes inv: "sk_inv L s"
  shows "\<exists>error s'. StreamSocket_cancel L token s = Some (error, s') \<and> keeps L [] s s'"
proof -
  obtain b cb ctx q where q: "removeEntryToken_context L SendContext_init token (sk_sendQueue s)
        = Some (b, cb, ctx, q)" "sk_inv L (s\<lparr>sk_sendQueue := q\<rparr>)"
      "handed_on (sk_sendQueue s) \<longrightarrow> handed_on q \<and>
        all_callbacks s = all_callbacks (s\<lparr>sk_sendQueue := q\<rparr>) + mset (case cb of None \<Rightarrow> [] | Some c \<Rightarrow> [c])"
    unfolding removeEntryToken_context_def using remove_ok [OF inv] by blast
  from removed_keeps [OF q(2,3) refl, of b True Send_ERROR "ctx\<lparr>sc_error := E_CANCELLED\<rparr>" True] q(1)
  show ?thesis
    by (cases cb) (simp_all add: StreamSocket_cancel_def Let_def)
qed

subsection \<open>Notifications of completed zero-copy transmissions\<close>

lemma drain_ok:
  "drain_zero_copy zq = (cs, zq') \<Longrightarrow>
   zq_waitList zq' = zq_waitList zq \<and> mset (zq_callbacks zq) = mset (map snd cs) + mset (zq_callbacks zq')"
proof (induction zq arbitrary: cs zq' rule: drain_zero_copy.induct)
  case (1 zq)
  obtain r zq1 where p: "ZeroCopyQueue_pop zq = (r, zq1)" by fastforce
  note pop = pop_ok [OF p]
  show ?case
  proof (cases r)
    case None
    then show ?thesis using 1(2) p pop by (simp add: drain_zero_copy.simps)
  next
    case (Some c)
    obtain ds zq2 where d: "drain_zero_copy zq1 = (ds, zq2)" by fastforce
    then have "cs = c # ds" "zq' = zq2"
      using 1(2) p Some by (simp_all add: drain_zero_copy.simps [of zq])
    then show ?thesis using "1.IH" [OF p [symmetric] Some d] pop Some by (cases c) simp
  qed
qed

lemma update_send_inv:
  assumes inv: "send_inv L q zq counter"
  shows "send_inv L q (snd (ZeroCopyQueue_update rng zq)) counter"
proof -
  define zq' where "zq' = snd (ZeroCopyQueue_update rng zq)"
  obtain r g where r: "ZeroCopyCounterGenerator_update rng (zq_generator zq) = (r, g)" by fastforce
  obtain ws ds where u: "update_loop r (zq_waitList zq) (zq_doneList zq) = (ws, ds)"
      "zq_waitList zq' = ws"
    using r by (cases "update_loop r (zq_waitList zq) (zq_doneList zq)")
       (simp add: zq'_def ZeroCopyQueue_update_def)
  note g = update_loop_groups [OF u(1)]
  note old = send_invD [OF inv]
  have "\<forall>x xs. sq_entryList q = x # xs \<longrightarrow> se_zeroCopy x \<longrightarrow>
      ws \<noteq> [] \<and> ze_group (last ws) = se_id x \<and> \<not> ze_framed (last ws)"
    using old(5) g(2) by auto
  moreover have sub: "\<exists>v \<in> set (zq_waitList zq). ze_group w = ze_group v" if "w \<in> set ws" for w
    using g(1) that by fastforce
  have "\<forall>w \<in> set ws. ze_group w < counter" using sub old(8) by fastforce
  moreover have "\<forall>w \<in> set ws. \<forall>x \<in> set (sq_entryList q). has_data x \<longrightarrow> \<not> se_zeroCopy x \<longrightarrow>
      ze_group w < se_id x"
    using sub old(9) by fastforce
  ultimately show ?thesis
    using old(1-4,6,7) unfolding send_inv_def zq'_def [symmetric] u(2) by simp
qed

lemma privateZeroCopyUpdate_ok:
  assumes inv: "sk_inv L s"
  shows "effect L [] [] s (privateZeroCopyUpdate ty rng s)"
proof -
  define s1 where "s1 = (if ty \<noteq> e_AVOIDED \<and> sk_zeroCopyThreshold s \<noteq> k_ZERO_COPY_NEVER
                then s\<lparr>sk_zeroCopyThreshold := k_ZERO_COPY_NEVER\<rparr> else s)"
  have e1: "effect L [] [] s s1"
    unfolding s1_def using quiet_effects(9) [OF inv] effect_refl [OF inv] by simp
  define zq where "zq = snd (ZeroCopyQueue_update rng (sk_zeroCopyQueue s1))"
  have zq: "send_inv L (sk_sendQueue s1) zq (sk_sendCounter s1)"
      "mset (zq_callbacks zq) = mset (zq_callbacks (sk_zeroCopyQueue s1))"
    using effect_inv [OF e1] zq_step_conserve [of "ZUpdate rng" "sk_zeroCopyQueue s1"]
    by (auto simp: zq_def sk_inv_def intro: update_send_inv)
  obtain cs zq' where d: "(if ZeroCopyQueue_ready zq then drain_zero_copy zq else ([], zq)) = (cs, zq')"
    by fastforce
  have zq': "zq_waitList zq' = zq_waitList zq"
      "mset (zq_callbacks zq) = mset (map snd cs) + mset (zq_callbacks zq')"
    using d drain_ok [of zq cs zq'] by (auto split: if_splits)
  have run: "privateZeroCopyUpdate ty rng s = complete_sends cs (s1\<lparr>sk_zeroCopyQueue := zq'\<rparr>)"
    unfolding privateZeroCopyUpdate_def Let_def s1_def [symmetric] zq_def [symmetric]
    using d by (auto split: if_splits prod.splits)
  have "send_inv L (sk_sendQueue s1) zq' (sk_sendCounter s1)"
    using zq(1) zq'(1) by (simp add: send_inv_def)
  then have "effect L [] [] s1 (complete_sends cs (s1\<lparr>sk_zeroCopyQueue := zq'\<rparr>))"
    using effect_inv [OF e1] zq(2) zq'(2)
    by (auto simp: effect_defs sk_inv_def detach_ok_def sk_normal all_callbacks_def held_callbacks_def
        stream_bytes_def ac_simps)
  then show ?thesis using run effect_then [OF e1] by simp
qed

lemma processNotifications_ok:
  assumes inv: "sk_inv L s"
  shows "effect L [] [] s (processNotifications ns s)"
proof -
  have "effect L [] [] s (fold (\<lambda>(ty, from_thru) s. privateZeroCopyUpdate ty from_thru s) ns s)"
    using inv
  proof (induction ns arbitrary: s)
    case Nil
    then show ?case by (simp add: effect_refl)
  next
    case (Cons n ns)
    obtain ty rng where n: "n = (ty, rng)" by (cases n)
    note e = privateZeroCopyUpdate_ok [OF Cons.prems, of ty rng]
    show ?case using effect_then [OF e Cons.IH [OF effect_inv [OF e]]] n by simp
  qed
  from effect_then [OF this rearm_same(2) [OF effect_inv [OF this]]] show ?thesis
    by (simp add: processNotifications_def)
qed

subsection \<open>Sending\<close>

text \<open>
  The two overloads of \<open>privateSendRaw\<close> as one function. They differ in how the zero-copy queue
  keeps the data, and in that the overload for \<open>ntsa::Data\<close> leaves the callback in the entry
  although it has entered it in the zero-copy queue: \<open>doubled\<close>.
\<close>

definition send_raw ::
  "'blob blob_library \<Rightarrow> 't time_library \<Rightarrow> 't os_answer \<Rightarrow> 'blob Data \<Rightarrow> nat \<Rightarrow>
   (u64 \<Rightarrow> SendContext \<Rightarrow> callback_ref option \<Rightarrow> 'blob ZeroCopyQueue \<Rightarrow>
    (u64 \<times> 'blob ZeroCopyQueue) option) \<Rightarrow> bool \<Rightarrow>
   u64 \<Rightarrow> SendParameters \<Rightarrow> SendContext \<Rightarrow> callback_ref option \<Rightarrow> ('blob, 't) StreamSocket \<Rightarrow>
   (ntsa_error \<times> ('blob, 't) StreamSocket) option" where
  "send_raw L T a data n push doubled counter options setting callback s =
     do { (error, (k, z), s1) \<leftarrow>
            (if \<not> SendQueue_hasEntry (sk_sendQueue s)
             then enqueue_send_buffer T a n data (sp_foreignHandle options) s
             else Some (E_OK, (0, False), s));
          if error \<noteq> E_OK \<and> error \<noteq> E_WOULD_BLOCK then Some (error, s1)
          else if k = n then
            do { s2 \<leftarrow> complete_send push counter options setting callback z s1; Some (E_OK, s2) }
          else
            do { bsls_assert (k < n);
                 d \<leftarrow> DataUtil_pop L data k;
                 m \<leftarrow> Data_size L d;
                 bsls_assert (m \<noteq> 0);
                 s2 \<leftarrow> push_zero_copy counter d setting callback z s1;
                 let e = queue_entry a counter options setting (k, z) d m;
                 let e1 = (if callback \<noteq> None \<and> (doubled \<or> \<not> z) then setCallback callback e else e);
                 s3 \<leftarrow> push_send_entry L a options (k, z) e1 s2;
                 Some (E_OK, s3) } }"

lemma privateSendRaw_blob_raw:
  "privateSendRaw_blob L T a b counter options setting callback s =
   send_raw L T a (Blob b) (blob_length L b) (\<lambda>c st cb zq. ZeroCopyQueue_push_blob_callback c b st cb zq)
     False counter options setting callback s"
  unfolding privateSendRaw_blob_def send_raw_def privateEnqueueSendBuffer_blob_def
  by (rule Option.bind_cong [OF refl]) (auto simp: popBlob_def bsls_assert_def Let_def split: if_splits)

lemma privateSendRaw_data_raw:
  assumes "Data_size L d = Some n"
  shows "privateSendRaw_data L T a d counter options setting callback s =
   send_raw L T a d n (\<lambda>c st cb zq. ZeroCopyQueue_push_data_callback c d st cb zq)
     True counter options setting callback s"
  unfolding privateSendRaw_data_def send_raw_def privateEnqueueSendBuffer_data_def assms
  by (simp add: case_prod_unfold cong: if_cong)

lemma raw_context:
  assumes "sk_sendRateLimiter s = None"
  obtains error k z s1 where
    "(if \<not> SendQueue_hasEntry (sk_sendQueue s) then enqueue_send_buffer T a n data h s
      else Some (E_OK, (0, False), s)) = Some (error, (k, z), s1)"
    and "same_state s s1" and "k \<le> n" and "error \<noteq> E_OK \<Longrightarrow> k = 0"
    and "dispatched (sk_log s1) = dispatched (sk_log s)"
    and "wire L (sk_log s1) = wire L (sk_log s) @ take k (Data_content L data)"
    and "0 < k \<or> z \<Longrightarrow> sq_entryList (sk_sendQueue s) = []" and "z \<Longrightarrow> sk_zeroCopyThreshold s \<le> n"
proof (cases "SendQueue_hasEntry (sk_sendQueue s)")
  case True
  show ?thesis by (rule that [of E_OK 0 False s]) (use True in \<open>simp_all add: same_state_def\<close>)
next
  case False
  obtain error k z s1 where h: "enqueue_send_buffer T a n data h s = Some (error, (k, z), s1)"
      "hands_over L a n data s (error, (k, z), s1)"
    using enqueue_ok [OF assms] by (metis prod.collapse)
  show ?thesis
    by (rule that [of error k z s1]) (use False h in \<open>simp_all add: hands_over_def ntf_defs\<close>)
qed

text \<open>
  What accepting a message does once the system has had its turn: \<open>counter\<close> is its identifier,
  \<open>cbs\<close> its callback and \<open>bs\<close> the bytes of it that are left.
\<close>

definition accepts ::
  "'blob blob_library \<Rightarrow> u64 \<Rightarrow> bool \<Rightarrow> callback_ref list \<Rightarrow> bytes \<Rightarrow> ('blob, 't) StreamSocket \<Rightarrow>
   ('blob, 't) StreamSocket \<Rightarrow> bool" where
  "accepts L counter once cbs bs s s' \<longleftrightarrow>
     send_config s' = send_config s \<and> sk_shutdownState s' = sk_shutdownState s \<and>
     sk_detachState s' = sk_detachState s \<and> sk_detachCallback s' = sk_detachCallback s \<and>
     sk_closeCallback s' = sk_closeCallback s \<and> wire L (sk_log s') = wire L (sk_log s) \<and>
     send_inv L (sk_sendQueue s') (sk_zeroCopyQueue s') (counter + 1) \<and>
     (once \<longrightarrow> handed_on (sk_sendQueue s) \<longrightarrow>
        handed_on (sk_sendQueue s') \<and> all_callbacks s' = all_callbacks s + mset cbs) \<and>
     queue_content L (sq_entryList (sk_sendQueue s')) =
       queue_content L (sq_entryList (sk_sendQueue s)) @ bs"

definition optional :: "'a option \<Rightarrow> 'a list" where
  "optional x = (case x of None \<Rightarrow> [] | Some y \<Rightarrow> [y])"

lemma optional_simps [simp]: "optional None = []" "optional (Some x) = [x]"
  by (simp_all add: optional_def)

lemma send_inv_counter:
  assumes inv: "send_inv L q zq c" and "c \<le> c'"
  shows "send_inv L q zq c'"
  using assms unfolding send_inv_def by (meson less_le_trans)

lemma send_inv_waits:
  assumes inv: "send_inv L q zq c" and q: "sq_entryList q = []"
    and "\<forall>w \<in> set (zq_waitList zq'). ze_group w < c'"
  shows "send_inv L q zq' c'"
  using assms by (simp add: send_inv_def)

lemma complete_send_ok:
  assumes inv: "send_inv L (sk_sendQueue s) (sk_zeroCopyQueue s) c" and c: "c < c + 1"
    and z: "z \<Longrightarrow> sq_entryList (sk_sendQueue s) = []"
    and push: "\<And>zq. \<forall>w \<in> set (zq_waitList zq). ze_group w < c \<Longrightarrow>
       \<exists>x zq'. push c setting callback zq = Some (x, zq') \<and> appends_entry c callback zq zq'"
  shows "\<exists>s'. complete_send push c options setting callback z s = Some s' \<and>
     accepts L c True (optional callback) [] s s'"
proof (cases z)
  case False
  have "send_inv L (sk_sendQueue s) (sk_zeroCopyQueue s) (c + 1)"
    by (rule send_inv_counter [OF inv]) (use c in simp)
  then show ?thesis
    using False
    by (cases callback) (simp_all add: complete_send_def accepts_def emit_def send_config_def
        all_callbacks_def wire_def)
next
  case True
  have below: "\<forall>w \<in> set (zq_waitList (sk_zeroCopyQueue s)). ze_group w < c"
    using inv by (simp add: send_inv_def)
  from push [OF this] obtain x zq1 w where
    p: "push c setting callback (sk_zeroCopyQueue s) = Some (x, zq1)"
      "appends_entry c callback (sk_zeroCopyQueue s) zq1"
      "zq_waitList zq1 = zq_waitList (sk_zeroCopyQueue s) @ [w]" "ze_group w = c"
    by (auto simp: appends_entry_def)
  from frame_ok [OF p(3,4)] obtain zq2 where
    f: "ZeroCopyQueue_frame c zq1 = Some zq2"
      "zq_waitList zq2 = zq_waitList (sk_zeroCopyQueue s) \<or>
       (\<exists>v. zq_waitList zq2 = zq_waitList (sk_zeroCopyQueue s) @ [v] \<and> ze_group v = c)"
      "mset (zq_callbacks zq2) = mset (zq_callbacks zq1)" by blast
  have "\<forall>w \<in> set (zq_waitList zq2). ze_group w < c + 1"
    using f(2) below c by (auto intro: less_trans)
  from send_inv_waits [OF inv z [OF True] this]
  have "send_inv L (sk_sendQueue s) zq2 (c + 1)" .
  then show ?thesis
    using True p(1) f(1,3) appends_entry_callbacks [OF p(2)]
    by (simp add: complete_send_def accepts_def send_config_def all_callbacks_def held_callbacks_def
        optional_def)
qed

text \<open>The entry of a message that the system has not taken completely.\<close>

definition waiting_entry ::
  "'t os_answer \<Rightarrow> u64 \<Rightarrow> SendParameters \<Rightarrow> SendContext \<Rightarrow> nat \<times> bool \<Rightarrow> 'blob Data \<Rightarrow> nat \<Rightarrow>
   callback_ref option \<Rightarrow> 'blob SendQueueEntry" where
  "waiting_entry a counter options setting context d m cb =
     (let e = queue_entry a counter options setting context d m;
          e1 = (if cb \<noteq> None then setCallback cb e else e)
      in case sp_deadline options of
           Some t \<Rightarrow> if fst context = 0 then setTimer (Some (os_timer a)) (setDeadline (Some t) e1) else e1
         | None \<Rightarrow> e1)"

lemma waiting_entry_fields [simp]:
  "se_id (waiting_entry a c options setting context d m cb) = c"
  "se_data (waiting_entry a c options setting context d m cb) = Some d"
  "se_length (waiting_entry a c options setting context d m cb) = m"
  "se_zeroCopy (waiting_entry a c options setting context d m cb) = snd context"
  "se_callback (waiting_entry a c options setting context d m cb) = cb"
  "se_context (waiting_entry a c options setting context d m cb) = setting"
  by (simp_all add: waiting_entry_def queue_entry_def SendQueueEntry_init_def ntf_defs Let_def
      split: option.splits)

lemma push_send_entry_ok:
  fixes s :: "('blob, 't) StreamSocket"
  assumes inv: "sq_inv L (sk_sendQueue s)"
    and ok: "entry_ok L (waiting_entry a c options setting (k, z) d m cb)"
  defines "e \<equiv> waiting_entry a c options setting (k, z) d m cb"
  defines "q \<equiv> (sk_sendQueue s)\<lparr>sq_entryList := sq_entryList (sk_sendQueue s) @ [e],
                 sq_size := sq_size (sk_sendQueue s) + entry_weight e\<rparr>"
  shows "\<exists>evs f. push_send_entry L a options (k, z)
       (if cb \<noteq> None then setCallback cb (queue_entry a c options setting (k, z) d m)
        else queue_entry a c options setting (k, z) d m) s =
     Some (s\<lparr>sk_sendQueue := q, sk_flowControlState := f, sk_log := sk_log s @ evs\<rparr>) \<and>
     dispatched evs = [] \<and> transmissions evs = []"
proof -
  define evs :: "('blob, 't) socket_event list" where
    "evs = (if sp_deadline options \<noteq> None \<and> k = 0
      then [ScheduleSendDeadline (os_timer a) (the (sp_deadline options))] else [])"
  define e1 where "e1 = (if cb \<noteq> None then setCallback cb (queue_entry a c options setting (k, z) d m)
      else queue_entry a c options setting (k, z) d m)"
  have t: "(case sp_deadline options of
        Some t \<Rightarrow> if fst (k, z) = 0
          then (setTimer (Some (os_timer a)) (setDeadline (Some t) e1), emit (ScheduleSendDeadline (os_timer a) t) s)
          else (e1, s)
      | None \<Rightarrow> (e1, s)) = (e, s\<lparr>sk_log := sk_log s @ evs\<rparr>)"
    unfolding e_def e1_def evs_def waiting_entry_def Let_def emit_def by (simp split: option.splits)
  define s2 where "s2 = s\<lparr>sk_log := sk_log s @ evs, sk_sendQueue := q\<rparr>"
  have "push_send_entry L a options (k, z) e1 s =
      Some (if sq_entryList (sk_sendQueue s) = [] then privateRelaxFlowControl FlowControlType.e_SEND True False s2
            else s2)"
    unfolding push_send_entry_def t Let_def s2_def q_def
    using pushEntry_ok [OF inv ok] by (simp add: e_def)
  moreover define more_evs where "more_evs = (if sq_entryList (sk_sendQueue s) = []
      then relax_events FlowControlType.e_SEND True False s2 else [])"
  moreover define f where "f = (if sq_entryList (sk_sendQueue s) = []
      then relaxed FlowControlType.e_SEND False (sk_flowControlState s) else sk_flowControlState s)"
  ultimately have "push_send_entry L a options (k, z) e1 s =
      Some (s\<lparr>sk_sendQueue := q, sk_flowControlState := f, sk_log := sk_log s @ (evs @ more_evs)\<rparr>)"
    by (simp add: privateRelaxFlowControl_normal) (simp add: s2_def)
  moreover have "dispatched (evs @ more_evs) = []" "transmissions (evs @ more_evs) = []"
    by (simp_all add: evs_def more_evs_def)
  ultimately show ?thesis unfolding e1_def by blast
qed

lemma send_inv_push_zero:
  assumes inv: "send_inv L q zq c" and q: "sq_entryList q = []" and c: "c < c'"
    and a: "appends_entry c cb zq zq'" and ok: "entry_ok L e" and i: "se_id e = c" and d: "has_data e"
    and free: "\<forall>d. se_data e = Some d \<longrightarrow> freely_poppable d" and z: "se_zeroCopy e"
  shows "send_inv L (q\<lparr>sq_entryList := [e], sq_size := sq_size q + entry_weight e\<rparr>) zq' c'"
proof -
  have below: "\<forall>w \<in> set (zq_waitList zq). ze_group w < c'"
    using send_invD(8) [OF inv] c by (auto intro: less_trans)
  then show ?thesis
    using send_invD(1) [OF inv] q c a ok i d free z
    by (auto simp: send_inv_def sq_inv_def appends_entry_def)
qed

lemma queue_send_ok:
  assumes inv: "send_inv L (sk_sendQueue s) (sk_zeroCopyQueue s) c" and c: "c < c + 1"
    and z: "z \<Longrightarrow> sq_entryList (sk_sendQueue s) = []"
    and d: "freely_poppable d" "Data_size L d = Some m" "0 < m"
    and cb: "cb = None \<or> cb = callback" "cb = None \<Longrightarrow> callback = None \<or> z"
  shows "\<exists>s' t. push_zero_copy c d setting callback z s = Some t \<and>
     push_send_entry L a options (k, z)
       (if cb \<noteq> None then setCallback cb (queue_entry a c options setting (k, z) d m)
        else queue_entry a c options setting (k, z) d m) t = Some s' \<and>
     accepts L c (z \<longrightarrow> cb = None) (optional callback) (Data_content L d) s s'"
proof -
  let ?e = "waiting_entry a c options setting (k, z) d m cb"
  let ?q = "(sk_sendQueue s)\<lparr>sq_entryList := sq_entryList (sk_sendQueue s) @ [?e],
                 sq_size := sq_size (sk_sendQueue s) + entry_weight ?e\<rparr>"
  have e: "entry_ok L ?e" "has_data ?e" "\<forall>x. se_data ?e = Some x \<longrightarrow> freely_poppable x"
    using d by (simp_all add: entry_ok_def has_data_def)
  have below: "\<forall>w \<in> set (zq_waitList (sk_zeroCopyQueue s)). ze_group w < c"
    using inv by (simp add: send_inv_def)
  obtain zq where zq: "push_zero_copy c d setting callback z s = Some (s\<lparr>sk_zeroCopyQueue := zq\<rparr>)"
      "if z then appends_entry c callback (sk_zeroCopyQueue s) zq else zq = sk_zeroCopyQueue s"
    using pushes_ok(1) [OF below, of "Some d" setting callback]
    by (cases z) (auto simp: push_zero_copy_def)
  have "sq_inv L (sk_sendQueue (s\<lparr>sk_zeroCopyQueue := zq\<rparr>))" using inv by auto
  from push_send_entry_ok [OF this e(1)] obtain evs f where
    p: "push_send_entry L a options (k, z)
       (if cb \<noteq> None then setCallback cb (queue_entry a c options setting (k, z) d m)
        else queue_entry a c options setting (k, z) d m) (s\<lparr>sk_zeroCopyQueue := zq\<rparr>) =
     Some (s\<lparr>sk_zeroCopyQueue := zq, sk_sendQueue := ?q, sk_flowControlState := f, sk_log := sk_log s @ evs\<rparr>)"
      "dispatched evs = []" "transmissions evs = []"
    by auto
  have "send_inv L ?q zq (c + 1)"
  proof (cases z)
    case True
    with zq(2) e z show ?thesis
      using send_inv_push_zero [OF inv z [OF True] c _ e(1) _ e(2,3)] by simp
  next
    case False
    with zq(2) e c show ?thesis
      by (auto intro: send_inv_push [OF inv])
  qed
  moreover have "zq_callbacks zq = zq_callbacks (sk_zeroCopyQueue s) @ (if z then optional callback else [])"
    using zq(2) appends_entry_callbacks [of c callback "sk_zeroCopyQueue s" zq]
    by (auto simp: optional_def split: if_splits)
  ultimately have "accepts L c (z \<longrightarrow> cb = None) (optional callback) (Data_content L d) s
      (s\<lparr>sk_zeroCopyQueue := zq, sk_sendQueue := ?q, sk_flowControlState := f, sk_log := sk_log s @ evs\<rparr>)"
    using p(2,3) cb e(2)
    by (auto simp: accepts_def send_config_def all_callbacks_def held_callbacks_def handed_on_def wire_def
        entry_content_def optional_def)
  with zq(1) p(1) show ?thesis by blast
qed

text \<open>
  The whole of a send: where it succeeds the message is accepted, otherwise nothing is. \<open>once\<close>
  tells that the callback is held in one place only.
\<close>

definition send_effect ::
  "'blob blob_library \<Rightarrow> bool \<Rightarrow> callback_ref option \<Rightarrow> bytes \<Rightarrow> ('blob, 't) StreamSocket \<Rightarrow>
   ntsa_error \<times> ('blob, 't) StreamSocket \<Rightarrow> bool" where
  "send_effect L once callback bs s = (\<lambda>(error, s').
     sk_inv L s' \<and>
     (once \<longrightarrow> keeps L (if error = E_OK then optional callback else []) s s') \<and>
     streams L (if error = E_OK then bs else []) s s')"

lemma accepts_effect:
  assumes inv: "sk_inv L s0" and same: "same_state (s0\<lparr>sk_sendCounter := sk_sendCounter s0 + 1\<rparr>) s1"
    and d: "dispatched (sk_log s1) = dispatched (sk_log s0)"
    and w: "wire L (sk_log s1) = wire L (sk_log s0) @ sent"
    and sent: "sent \<noteq> [] \<Longrightarrow> sq_entryList (sk_sendQueue s0) = []"
    and acc: "accepts L (sk_sendCounter s0) once (optional callback) rest s1 s'"
  shows "send_effect L once callback (sent @ rest) s0 (E_OK, s')"
proof -
  have f: "sk_sendQueue s1 = sk_sendQueue s0" "sk_zeroCopyQueue s1 = sk_zeroCopyQueue s0"
    using same by (simp_all add: same_state_def)
  have "sk_inv L s'"
    using inv same acc by (auto simp: sk_inv_def same_state_def accepts_def send_config_def detach_ok_def)
  then show ?thesis
    using same d w sent acc f
    by (cases "sent = []")
       (auto simp: send_effect_def effect_defs accepts_def same_state_def all_callbacks_def stream_bytes_def)
qed

lemma counter_effect:
  assumes inv: "sk_inv L s" and c: "sk_sendCounter s < sk_sendCounter s + 1"
  shows "effect L [] [] s (s\<lparr>sk_sendCounter := sk_sendCounter s + 1\<rparr>)"
proof -
  have "send_inv L (sk_sendQueue s) (sk_zeroCopyQueue s) (sk_sendCounter s + 1)"
    using inv c by (auto simp: sk_inv_def intro: send_inv_counter)
  then show ?thesis
    using inv by (auto simp: effect_defs sk_inv_def detach_ok_def all_callbacks_def stream_bytes_def)
qed

lemma send_raw_ok:
  assumes L: "blob_content_ok L" and inv: "sk_inv L s0" and c: "sk_sendCounter s0 < sk_sendCounter s0 + 1"
    and data: "freely_poppable data" "Data_size L data = Some n"
    and push: "\<And>setting zq. \<forall>w \<in> set (zq_waitList zq). ze_group w < sk_sendCounter s0 \<Longrightarrow>
       \<exists>x zq'. push (sk_sendCounter s0) setting callback zq = Some (x, zq') \<and>
         appends_entry (sk_sendCounter s0) callback zq zq'"
  shows "\<exists>r. send_raw L T a data n push doubled (sk_sendCounter s0) options setting callback
       (s0\<lparr>sk_sendCounter := sk_sendCounter s0 + 1\<rparr>) = Some r \<and>
     send_effect L (doubled \<longrightarrow> callback = None \<or> n < sk_zeroCopyThreshold s0) callback
       (Data_content L data) s0 r"
proof -
  let ?c = "sk_sendCounter s0"
  define s where "s = s0\<lparr>sk_sendCounter := ?c + 1\<rparr>"
  have s: "sk_sendQueue s = sk_sendQueue s0" "sk_log s = sk_log s0" "sk_sendRateLimiter s = None"
      "sk_zeroCopyThreshold s = sk_zeroCopyThreshold s0" "sk_zeroCopyQueue s = sk_zeroCopyQueue s0"
    using inv by (simp_all add: s_def sk_inv_def)
  obtain error k z s1 where
    x: "(if \<not> SendQueue_hasEntry (sk_sendQueue s)
         then enqueue_send_buffer T a n data (sp_foreignHandle options) s
         else Some (E_OK, (0, False), s)) = Some (error, (k, z), s1)"
      "same_state s s1" "k \<le> n" "error \<noteq> E_OK \<Longrightarrow> k = 0"
      "dispatched (sk_log s1) = dispatched (sk_log s)"
      "wire L (sk_log s1) = wire L (sk_log s) @ take k (Data_content L data)"
      "0 < k \<or> z \<Longrightarrow> sq_entryList (sk_sendQueue s) = []" "z \<Longrightarrow> sk_zeroCopyThreshold s \<le> n"
    using raw_context [OF s(3), of T a n data "sp_foreignHandle options" L] by blast
  have inv1: "send_inv L (sk_sendQueue s1) (sk_zeroCopyQueue s1) ?c"
    using inv x(2) s by (simp add: same_state_def sk_inv_def)
  have z1: "z \<Longrightarrow> sq_entryList (sk_sendQueue s1) = []" using x(2,7) by (simp add: same_state_def)
  have len: "length (Data_content L data) = n" by (rule Data_content_length [OF L data])
  note acc = accepts_effect [OF inv x(2) [unfolded s_def] x(5,6) [unfolded s(2)]]
  have run: "send_raw L T a data n push doubled ?c options setting callback s =
     (if error \<noteq> E_OK \<and> error \<noteq> E_WOULD_BLOCK then Some (error, s1)
      else if k = n then
        do { s2 \<leftarrow> complete_send push ?c options setting callback z s1; Some (E_OK, s2) }
      else
        do { bsls_assert (k < n);
             d \<leftarrow> DataUtil_pop L data k;
             m \<leftarrow> Data_size L d;
             bsls_assert (m \<noteq> 0);
             s2 \<leftarrow> push_zero_copy ?c d setting callback z s1;
             let e = queue_entry a ?c options setting (k, z) d m;
             let e1 = (if callback \<noteq> None \<and> (doubled \<or> \<not> z) then setCallback callback e else e);
             s3 \<leftarrow> push_send_entry L a options (k, z) e1 s2;
             Some (E_OK, s3) })"
    unfolding send_raw_def x(1) by simp
  consider (failed) "error \<noteq> E_OK" "error \<noteq> E_WOULD_BLOCK"
    | (whole) "error = E_OK \<or> error = E_WOULD_BLOCK" "k = n"
    | (part) "error = E_OK \<or> error = E_WOULD_BLOCK" "k < n" using x(3) by linarith
  then show ?thesis
  proof cases
    case failed
    have e: "effect L [] [] s0 s" unfolding s_def by (rule counter_effect [OF inv c])
    have "effect L [] [] s s1"
      by (rule same_state_wire [OF effect_inv [OF e] x(2,5)]) (use x(4,6) failed in simp)
    then have "effect L [] [] s0 s1" by (rule effect_then [OF e])
    with failed run show ?thesis by (simp add: s_def send_effect_def effect_def effect_inv)
  next
    case whole
    obtain s2 where s2: "complete_send push ?c options setting callback z s1 = Some s2"
        "accepts L ?c True (optional callback) [] s1 s2"
      using complete_send_ok [OF inv1 c, of z push setting callback options] z1 push by blast
    have "send_effect L True callback (Data_content L data) s0 (E_OK, s2)"
      using acc [OF _ s2(2)] x(7) s(1) whole(2) len by (cases "k = 0") auto
    with whole run s2(1) show ?thesis by (auto simp: s_def send_effect_def)
  next
    case part
    obtain d where d: "DataUtil_pop L data k = Some d" "Data_size L d = Some (n - k)"
      using DataUtil_pop_size [OF blob_content_ok_library [OF L] _ data(2) x(3)] data(1) by auto
    have free: "freely_poppable d" by (rule freely_poppable_pop [OF data(1) d(1)])
    define cb where "cb = (if callback \<noteq> None \<and> (doubled \<or> \<not> z) then callback else None)"
    have cb: "cb = None \<or> cb = callback" "cb = None \<Longrightarrow> callback = None \<or> z" "0 < n - k"
      using part(2) by (auto simp: cb_def split: if_splits)
    obtain s2 s3 where s3: "push_zero_copy ?c d setting callback z s1 = Some s2"
        "push_send_entry L a options (k, z)
           (if cb \<noteq> None then setCallback cb (queue_entry a ?c options setting (k, z) d (n - k))
            else queue_entry a ?c options setting (k, z) d (n - k)) s2 = Some s3"
        "accepts L ?c (z \<longrightarrow> cb = None) (optional callback) (Data_content L d) s1 s3"
      using queue_send_ok [OF inv1 c z1 free d(2) cb(3,1,2)] by blast
    have e1: "(if callback \<noteq> None \<and> (doubled \<or> \<not> z) then setCallback callback e else e) =
        (if cb \<noteq> None then setCallback cb e else e)" for e :: "'a SendQueueEntry"
      by (simp add: cb_def)
    have "Data_content L data = take k (Data_content L data) @ Data_content L d"
      using Data_content_pop [OF L data x(3) d(1)] by simp
    then have "send_effect L (z \<longrightarrow> cb = None) callback (Data_content L data) s0 (E_OK, s3)"
      using acc [OF _ s3(3)] x(7) s(1) by (cases "k = 0") auto
    moreover have "send_raw L T a data n push doubled ?c options setting callback s = Some (E_OK, s3)"
      unfolding run e1 using part d s3(1,2) by (simp add: Let_def)
    ultimately show ?thesis
      using x(8) s(4) by (auto simp: s_def send_effect_def cb_def)
  qed
qed

lemma effect_send_effect:
  "effect L [] [] s s' \<Longrightarrow> error \<noteq> E_OK \<Longrightarrow> send_effect L once callback bs s (error, s')"
  by (simp add: send_effect_def effect_def effect_inv)

lemma guarded_send_ok:
  assumes inv: "sk_inv L s" and c: "sk_sendCounter s < sk_sendCounter s + 1"
    and raw: "\<And>setting. \<exists>r. raw (sk_sendCounter s) setting (s\<lparr>sk_sendCounter := sk_sendCounter s + 1\<rparr>) = Some r \<and>
       send_effect L once callback bs s r"
  shows "\<exists>r. guarded_send raw options s = Some r \<and> send_effect L once callback bs s r"
proof -
  define s1 where "s1 = s\<lparr>sk_sendCounter := sk_sendCounter s + 1\<rparr>"
  have e1: "effect L [] [] s s1" unfolding s1_def by (rule counter_effect [OF inv c])
  define w where "w = (case sp_highWatermark options of
      Some w \<Rightarrow> w | None \<Rightarrow> sq_watermarkHigh (sk_sendQueue s1))"
  obtain b q where q: "SendQueue_authorizeHighWatermarkEvent_effective w (sk_sendQueue s1) = (b, q)"
    by fastforce
  have "q = sk_sendQueue s1 \<or>
      q = (sk_sendQueue s1)\<lparr>sq_watermarkLowWanted := True, sq_watermarkHighWanted := \<not> True\<rparr>"
    using q by (cases "sk_sendQueue s1")
       (auto simp: SendQueue_authorizeHighWatermarkEvent_effective_def split: if_splits)
  then have e2: "effect L [] [] s1 (s1\<lparr>sk_sendQueue := q\<rparr>)"
    using rearm_effect [OF effect_inv [OF e1], of True] effect_refl [OF effect_inv [OF e1]] by auto
  have "effect L [] [] s (if b then announce_write_queue WQ_HIGH_WATERMARK True (s1\<lparr>sk_sendQueue := q\<rparr>)
      else s1\<lparr>sk_sendQueue := q\<rparr>)"
    using effect_then [OF e1 e2] effect_then [OF effect_then [OF e1 e2] quiet_effects(3) [OF effect_inv [OF e2]]]
    by simp
  note rejected = effect_send_effect [OF this, of E_WOULD_BLOCK once callback bs]
  obtain r where r: "raw (sk_sendCounter s) (SendContext_init\<lparr>sc_token := sp_token options\<rparr>) s1 = Some r"
      "send_effect L once callback bs s r"
    using raw unfolding s1_def by blast
  have "guarded_send raw options s =
     (if \<not> OpenState_canSend (sk_openState s1) then Some (E_INVALID, s1)
      else if SendQueue_isHighWatermarkViolated_effective w (sk_sendQueue s1)
      then Some (E_WOULD_BLOCK,
             if b then announce_write_queue WQ_HIGH_WATERMARK True (s1\<lparr>sk_sendQueue := q\<rparr>)
             else s1\<lparr>sk_sendQueue := q\<rparr>)
      else raw (sk_sendCounter s) (SendContext_init\<lparr>sc_token := sp_token options\<rparr>) s1)"
    unfolding guarded_send_def Let_def s1_def [symmetric] w_def [symmetric] by (simp add: q)
  then show ?thesis
    using effect_send_effect [OF e1, of E_INVALID once callback bs] rejected r by (cases r) simp
qed

lemma send_blob_ok:
  assumes L: "blob_content_ok L" and inv: "sk_inv L s" and c: "sk_sendCounter s < sk_sendCounter s + 1"
  shows "\<exists>r. StreamSocket_send_blob L T a b options callback s = Some r \<and>
     send_effect L True callback (Data_content L (Blob b)) s r"
  unfolding StreamSocket_send_blob_def privateSendRaw_blob_raw
proof (rule guarded_send_ok [OF inv c])
  fix setting
  show "\<exists>r. send_raw L T a (Blob b) (blob_length L b)
      (\<lambda>c st cb zq. ZeroCopyQueue_push_blob_callback c b st cb zq) False (sk_sendCounter s) options setting
      callback (s\<lparr>sk_sendCounter := sk_sendCounter s + 1\<rparr>) = Some r \<and>
      send_effect L True callback (Data_content L (Blob b)) s r"
    using send_raw_ok [where push = "\<lambda>c st cb zq. ZeroCopyQueue_push_blob_callback c b st cb zq"
        and data = "Blob b" and doubled = False, OF L inv c _ _ pushes_ok(2)] by simp
qed

lemma send_data_ok:
  assumes L: "blob_content_ok L" and inv: "sk_inv L s" and c: "sk_sendCounter s < sk_sendCounter s + 1"
    and d: "freely_poppable d" "Data_size L d = Some n"
  shows "\<exists>r. StreamSocket_send_data L T a d options callback s = Some r \<and>
     send_effect L (callback = None \<or> n < sk_zeroCopyThreshold s) callback (Data_content L d) s r"
  unfolding StreamSocket_send_data_def privateSendRaw_data_raw [OF d(2)]
proof (rule guarded_send_ok [OF inv c])
  fix setting
  show "\<exists>r. send_raw L T a d n
      (\<lambda>c st cb zq. ZeroCopyQueue_push_data_callback c d st cb zq) True (sk_sendCounter s) options setting
      callback (s\<lparr>sk_sendCounter := sk_sendCounter s + 1\<rparr>) = Some r \<and>
      send_effect L (callback = None \<or> n < sk_zeroCopyThreshold s) callback (Data_content L d) s r"
    using send_raw_ok [where push = "\<lambda>c st cb zq. ZeroCopyQueue_push_data_callback c d st cb zq"
        and doubled = True, OF L inv c d pushes_ok(3)] by simp
qed

end
