(* ===== verification/Stream_Runs.thy ===== *)
theory Stream_Runs
  imports Stream_Delivery
begin

section \<open>Runs of a stream socket\<close>

text \<open>
  This theory states what a user of \<open>ntcr::StreamSocket\<close> gets from any sequence of calls and
  reactor events: no assertion fails, every callback accepted is dispatched exactly once or still
  held, and the bytes handed to the operating system followed by the bytes queued are the bytes
  of the messages accepted, in order. It also states where the code falls short of that.
\<close>

subsection \<open>A component with a history\<close>

text \<open>
  Operations have outputs, and a relation tells what the outputs mean for the state. It
  composes, so that it holds of a whole run.
\<close>

locale history_component =
  fixes permitted :: "'op \<Rightarrow> 's \<Rightarrow> bool"
    and step :: "'op \<Rightarrow> 's \<Rightarrow> ('e list \<times> 's) option"
    and inv :: "'s \<Rightarrow> bool"
    and meaning :: "'e list \<Rightarrow> 's \<Rightarrow> 's \<Rightarrow> bool"
  assumes meaning_refl: "inv s \<Longrightarrow> meaning [] s s"
    and meaning_trans: "meaning xs s t \<Longrightarrow> meaning ys t u \<Longrightarrow> meaning (xs @ ys) s u"
    and step_meaning: "inv s \<Longrightarrow> permitted x s \<Longrightarrow>
          \<exists>out t. step x s = Some (out, t) \<and> inv t \<and> meaning out s t"
begin

lemma run_meaning:
  assumes "inv s" and "all_permitted permitted (\<lambda>x s. map_option snd (step x s)) xs s"
  shows "\<exists>outs t. run_out step xs s = Some (outs, t) \<and> inv t \<and> meaning outs s t"
  using assms
proof (induction xs arbitrary: s)
  case Nil
  then show ?case by (simp add: meaning_refl)
next
  case (Cons x xs)
  then obtain out t where t: "step x s = Some (out, t)" "inv t" "meaning out s t"
    using step_meaning by fastforce
  with Cons obtain outs u where "run_out step xs t = Some (outs, u)" "inv u" "meaning outs t u"
    by fastforce
  with t show ?case using meaning_trans by fastforce
qed

end

subsection \<open>The calls and events of a stream socket\<close>

datatype ('blob, 't) sk_op =
    SkSendBlob "'t os_answer" 'blob SendParameters "callback_ref option"
  | SkSendData "'t os_answer" "'blob Data" SendParameters "callback_ref option"
  | SkWritable "'t os_answer list"
  | SkError ntsa_error
  | SkNotifications "(ZeroCopyType \<times> u32 \<times> u32) list"
  | SkRateTimer
  | SkDeadlineTimer u64
  | SkCancel u64
  | SkRelaxFlowControl FlowControlType
  | SkApplyFlowControl FlowControlType
  | SkShutdown ShutdownType ShutdownMode
  | SkClose "callback_ref option"
  | SkDetached

text \<open>The output of an operation is the message it accepted: its callback and its data.\<close>

type_synonym 'blob message = "callback_ref option \<times> 'blob Data"

definition accepted ::
  "'blob message \<Rightarrow> (ntsa_error \<times> 's) option \<Rightarrow> ('blob message list \<times> 's) option" where
  "accepted m r = map_option (\<lambda>(error, s). (if error = E_OK then [m] else [], s)) r"

fun sk_step ::
  "'blob blob_library \<Rightarrow> 't time_library \<Rightarrow> nat \<Rightarrow> ('blob, 't) sk_op \<Rightarrow> ('blob, 't) StreamSocket \<Rightarrow>
   ('blob message list \<times> ('blob, 't) StreamSocket) option" where
  "sk_step L T perSend (SkSendBlob a b options cb) s =
     accepted (cb, Blob b) (StreamSocket_send_blob L T a b options cb s)"
| "sk_step L T perSend (SkSendData a d options cb) s =
     accepted (cb, d) (StreamSocket_send_data L T a d options cb s)"
| "sk_step L T perSend (SkWritable as) s =
     map_option (Pair []) (processSocketWritable L T perSend as s)"
| "sk_step L T perSend (SkError e) s = map_option (Pair []) (processSocketError L e s)"
| "sk_step L T perSend (SkNotifications ns) s = Some ([], processNotifications ns s)"
| "sk_step L T perSend SkRateTimer s = Some ([], processSendRateTimer s)"
| "sk_step L T perSend (SkDeadlineTimer i) s =
     map_option (Pair []) (processSendDeadlineTimer L i s)"
| "sk_step L T perSend (SkCancel token) s =
     map_option (\<lambda>(error, s'). ([], s')) (StreamSocket_cancel L token s)"
| "sk_step L T perSend (SkRelaxFlowControl direction) s =
     Some ([], StreamSocket_relaxFlowControl direction s)"
| "sk_step L T perSend (SkApplyFlowControl direction) s =
     Some ([], StreamSocket_applyFlowControl direction s)"
| "sk_step L T perSend (SkShutdown direction mode) s =
     map_option (Pair []) (StreamSocket_shutdown L direction mode s)"
| "sk_step L T perSend (SkClose cb) s = map_option (Pair []) (privateClose L cb s)"
| "sk_step L T perSend SkDetached s = map_option (Pair []) (processSocketDetached s)"

text \<open>
  What the surroundings owe: the 64-bit counter of sends does not wrap, the data sent has a
  representation that supports partial sends, the system answers every call, and the reactor
  reports a detachment only when one is under way.
\<close>

fun sk_permitted :: "'blob blob_library \<Rightarrow> ('blob, 't) sk_op \<Rightarrow> ('blob, 't) StreamSocket \<Rightarrow> bool" where
  "sk_permitted L (SkSendBlob a b options cb) s \<longleftrightarrow> sk_sendCounter s < sk_sendCounter s + 1"
| "sk_permitted L (SkSendData a d options cb) s \<longleftrightarrow>
     sk_sendCounter s < sk_sendCounter s + 1 \<and> freely_poppable d \<and> Data_size L d \<noteq> None"
| "sk_permitted L (SkWritable as) s \<longleftrightarrow> pending s \<le> length as"
| "sk_permitted L SkDetached s \<longleftrightarrow> detaching s"
| "sk_permitted L _ s \<longleftrightarrow> True"

text \<open>A callback given with \<open>ntsa::Data\<close> is held once if the data is too small for zero copy.\<close>

fun sk_held_once :: "'blob blob_library \<Rightarrow> ('blob, 't) sk_op \<Rightarrow> ('blob, 't) StreamSocket \<Rightarrow> bool" where
  "sk_held_once L (SkSendData a d options cb) s \<longleftrightarrow>
     cb = None \<or> the (Data_size L d) < sk_zeroCopyThreshold s"
| "sk_held_once L _ s \<longleftrightarrow> True"

fun sk_removes :: "('blob, 't) sk_op \<Rightarrow> bool" where
  "sk_removes (SkDeadlineTimer i) = True"
| "sk_removes (SkCancel token) = True"
| "sk_removes _ = False"

definition message_callbacks :: "'blob message list \<Rightarrow> callback_ref list" where
  "message_callbacks ms = concat (map (optional \<circ> fst) ms)"

definition message_bytes :: "'blob blob_library \<Rightarrow> 'blob message list \<Rightarrow> bytes" where
  "message_bytes L ms = concat (map (Data_content L \<circ> snd) ms)"

lemma message_simps [simp]:
  "message_callbacks [] = []" "message_callbacks (m # ms) = optional (fst m) @ message_callbacks ms"
  "message_callbacks (ms @ ns) = message_callbacks ms @ message_callbacks ns"
  "message_bytes L [] = []" "message_bytes L (m # ms) = Data_content L (snd m) @ message_bytes L ms"
  "message_bytes L (ms @ ns) = message_bytes L ms @ message_bytes L ns"
  by (simp_all add: message_callbacks_def message_bytes_def)

definition step_ok ::
  "'blob blob_library \<Rightarrow> bool \<Rightarrow> bool \<Rightarrow> ('blob, 't) StreamSocket \<Rightarrow>
   ('blob message list \<times> ('blob, 't) StreamSocket) option \<Rightarrow> bool" where
  "step_ok L once streaming s r \<longleftrightarrow>
     (\<exists>ms s'. r = Some (ms, s') \<and> sk_inv L s' \<and>
        (once \<longrightarrow> keeps L (message_callbacks ms) s s') \<and>
        (streaming \<longrightarrow> streams L (message_bytes L ms) s s'))"

lemma step_ok_effect:
  "\<exists>s'. r = Some s' \<and> effect L [] [] s s' \<Longrightarrow> step_ok L once streaming s (map_option (Pair []) r)"
  "effect L [] [] s t \<Longrightarrow> step_ok L once streaming s (Some ([], t))"
  by (auto simp: step_ok_def effect_def effect_inv keeps_def)

lemma step_ok_send:
  "\<exists>r'. r = Some r' \<and> send_effect L once cb (Data_content L d) s r' \<Longrightarrow>
   step_ok L once streaming s (accepted (cb, d) r)"
proof -
  assume "\<exists>r'. r = Some r' \<and> send_effect L once cb (Data_content L d) s r'"
  then obtain error s' where "r = Some (error, s')" "send_effect L once cb (Data_content L d) s (error, s')"
    by force
  then show ?thesis
    by (cases "error = E_OK") (auto simp: step_ok_def send_effect_def accepted_def)
qed

lemma step_ok_keeps:
  "\<exists>s'. r = Some s' \<and> keeps L [] s s' \<Longrightarrow> step_ok L once False s (map_option (Pair []) r)"
  "\<exists>error s'. q = Some (error, s') \<and> keeps L [] s s' \<Longrightarrow>
   step_ok L once False s (map_option (\<lambda>(error, s'). ([], s')) q)"
  by (auto simp: step_ok_def keeps_def)

lemma sk_step_ok:
  assumes L: "blob_content_ok L" and inv: "sk_inv L s" and p: "sk_permitted L x s"
  shows "step_ok L (sk_held_once L x s) (\<not> sk_removes x) s (sk_step L T perSend x s)"
proof (cases x)
  case (SkSendData a d options cb)
  then obtain n where "Data_size L d = Some n" "freely_poppable d" "sk_sendCounter s < sk_sendCounter s + 1"
    using p by auto
  with send_data_ok [OF L inv, of d n T a options cb] SkSendData show ?thesis
    by (auto intro: step_ok_send)
qed (use p in \<open>auto intro!: step_ok_effect step_ok_keeps step_ok_send send_blob_ok [OF L inv]
    processSocketWritable_ok [OF L inv] processSocketError_ok [OF inv] processNotifications_ok [OF inv]
    processSendRateTimer_ok [OF inv] processSendDeadlineTimer_ok [OF inv] StreamSocket_cancel_ok [OF inv]
    flow_control_ok [OF inv] StreamSocket_shutdown_ok [OF inv] privateClose_ok [OF inv] detached_ok [OF inv]\<close>)

subsection \<open>Safety, callbacks and bytes\<close>

interpretation stream_safe: history_component
  "sk_permitted L" "sk_step L T perSend" "\<lambda>s. blob_content_ok L \<and> sk_inv L s" "\<lambda>ms s t. True"
  for L T perSend
  by unfold_locales (use sk_step_ok in \<open>fastforce simp: step_ok_def\<close>)+

interpretation stream_callbacks: history_component
  "\<lambda>x s. sk_permitted L x s \<and> sk_held_once L x s" "sk_step L T perSend"
  "\<lambda>s. blob_content_ok L \<and> sk_inv L s" "\<lambda>ms. keeps L (message_callbacks ms)"
  for L T perSend
  by unfold_locales (use sk_step_ok in \<open>fastforce simp: step_ok_def intro: keeps_trans\<close> |
    simp add: keeps_def)+

interpretation stream_bytes: history_component
  "\<lambda>x s. sk_permitted L x s \<and> \<not> sk_removes x" "sk_step L T perSend"
  "\<lambda>s. blob_content_ok L \<and> sk_inv L s" "\<lambda>ms. streams L (message_bytes L ms)"
  for L T perSend
  by unfold_locales (use sk_step_ok in \<open>fastforce simp: step_ok_def intro: streams_trans\<close> |
    simp add: streams_def)+

subsection \<open>A new socket\<close>

text \<open>
  The options of \<open>ntca::StreamSocketOptions\<close> that the state modelled depends on.
\<close>

record StreamSocketOptions =
  op_writeQueueLowWatermark :: "nat option"
  op_writeQueueHighWatermark :: "nat option"
  op_sendGreedily :: "bool option"
  op_readQueueLowWatermark :: "nat option"
  op_readQueueHighWatermark :: "nat option"
  op_minIncomingStreamTransferSize :: "nat option"
  op_maxIncomingStreamTransferSize :: "nat option"
  op_receiveGreedily :: "bool option"
  op_keepHalfOpen :: "bool option"
  op_abortiveClose :: bool

definition StreamSocketOptions_init :: StreamSocketOptions where
  "StreamSocketOptions_init =
     \<lparr>op_writeQueueLowWatermark = None, op_writeQueueHighWatermark = None, op_sendGreedily = None,
      op_readQueueLowWatermark = None, op_readQueueHighWatermark = None,
      op_minIncomingStreamTransferSize = None, op_maxIncomingStreamTransferSize = None,
      op_receiveGreedily = None, op_keepHalfOpen = None,
      op_abortiveClose = False\<rparr>"

definition DEFAULT_STREAM_SOCKET_WRITE_GREEDILY :: bool where
  "DEFAULT_STREAM_SOCKET_WRITE_GREEDILY = False"

definition DEFAULT_STREAM_SOCKET_READ_GREEDILY :: bool where
  "DEFAULT_STREAM_SOCKET_READ_GREEDILY = False"

definition k_ZERO_COPY_DEFAULT :: nat where
  "k_ZERO_COPY_DEFAULT = 18446744073709551615"

definition optionally :: "'a option \<Rightarrow> ('a \<Rightarrow> 's \<Rightarrow> 's) \<Rightarrow> 's \<Rightarrow> 's" where
  "optionally v f s = (case v of None \<Rightarrow> s | Some x \<Rightarrow> f x s)"

text \<open>
  The constructor, for a reactor with \<open>maxThreads\<close> threads: \<^term>\<open>None\<close> is the failed assertion that
  a reactor driven by several threads is in one-shot mode. The blobs come from the data pool.
\<close>

definition StreamSocket_construct ::
  "StreamSocketOptions \<Rightarrow> nat \<Rightarrow> bool \<Rightarrow> bool \<Rightarrow> 'blob \<Rightarrow> 'blob \<Rightarrow> ('blob, 't) StreamSocket option" where
  "StreamSocket_construct options maxThreads oneShot reactorPool outgoingBlob incomingBlob =
     do { bsls_assert (maxThreads > 1 \<longrightarrow> oneShot);
          Some \<lparr>sk_systemHandle = k_INVALID_HANDLE,
                sk_socket = False,
                sk_reactor = True,
                sk_reactorPool = reactorPool,
                sk_manager = False,
                sk_session = False,
                sk_openState = OpenState_init,
                sk_flowControlState = FlowControlState_init,
                sk_shutdownState = ShutdownState_init,
                sk_zeroCopyQueue = ZeroCopyQueue_init,
                sk_zeroCopyThreshold = k_ZERO_COPY_DEFAULT,
                sk_sendOptions = \<lparr>so_maxBytes = 0, so_maxBuffers = 0\<rparr>,
                sk_sendQueue =
                  optionally (op_writeQueueHighWatermark options) SendQueue_setHighWatermark
                    (optionally (op_writeQueueLowWatermark options) SendQueue_setLowWatermark
                      (SendQueue_setData (Some outgoingBlob) SendQueue_init)),
                sk_sendRateLimiter = None,
                sk_sendRateTimer = False,
                sk_sendGreedily =
                  (case op_sendGreedily options of
                     None \<Rightarrow> DEFAULT_STREAM_SOCKET_WRITE_GREEDILY | Some b \<Rightarrow> b),
                sk_sendCounter = 0,
                sk_sendData = BufferArray_init,
                sk_receiveQueue =
                  optionally (op_readQueueHighWatermark options) ReceiveQueue_setHighWatermark
                    (optionally (op_readQueueLowWatermark options) ReceiveQueue_setLowWatermark
                      ((if maxThreads > 1 then ReceiveQueue_setTrigger e_EDGE else id)
                        (ReceiveQueue_setData (Some incomingBlob) ReceiveQueue_init))),
                sk_receiveEntries = (\<lambda>_. ReceiveCallbackQueueEntry_init),
                sk_receiveEntryCount = 0,
                sk_receiveFeedback =
                  optionally (op_maxIncomingStreamTransferSize options) ReceiveFeedback_setMaximum
                    (optionally (op_minIncomingStreamTransferSize options) ReceiveFeedback_setMinimum
                      ReceiveFeedback_init),
                sk_receiveRateLimiter = None,
                sk_receiveRateTimer = False,
                sk_receiveGreedily =
                  (case op_receiveGreedily options of
                     None \<Rightarrow> DEFAULT_STREAM_SOCKET_READ_GREEDILY | Some b \<Rightarrow> b),
                sk_oneShot = oneShot,
                sk_detachState = DetachState_init,
                sk_detachError = E_OK,
                sk_detachCallback = None,
                sk_closeCallback = None,
                sk_deferredCalls = [],
                sk_totalBytesSent = 0,
                sk_totalBytesReceived = 0,
                sk_keepHalfOpen = op_keepHalfOpen options,
                sk_abortiveClose = op_abortiveClose options,
                sk_log = []\<rparr> }"

text \<open>
  A socket that has just been connected: as constructed, but for the handle, the open state, the
  flow control, the session and the zero-copy threshold.
\<close>

definition newly_connected :: "('blob, 't) StreamSocket \<Rightarrow> bool" where
  "newly_connected s \<longleftrightarrow>
     sq_entryList (sk_sendQueue s) = [] \<and> sq_size (sk_sendQueue s) = 0 \<and>
     sq_watermarkLow (sk_sendQueue s) < sq_watermarkHigh (sk_sendQueue s) \<and>
     sq_watermarkLowWanted (sk_sendQueue s) \<noteq> sq_watermarkHighWanted (sk_sendQueue s) \<and>
     sk_zeroCopyQueue s = ZeroCopyQueue_init \<and> sk_sendRateLimiter s = None \<and> sk_sendCounter s = 0 \<and>
     sk_shutdownState s = ShutdownState_init \<and> sk_detachState s = DetachState_init \<and>
     sk_detachCallback s = None \<and> sk_closeCallback s = None \<and> sk_log s = []"

lemma SendQueue_init_fresh:
  "sq_entryList (SendQueue_init :: 'blob SendQueue) = []" "sq_size (SendQueue_init :: 'blob SendQueue) = 0"
  "sq_watermarkLowWanted (SendQueue_init :: 'blob SendQueue) \<noteq> sq_watermarkHighWanted (SendQueue_init :: 'blob SendQueue)"
  "sq_watermarkLow (SendQueue_init :: 'blob SendQueue) < sq_watermarkHigh (SendQueue_init :: 'blob SendQueue)"
  by (simp_all add: SendQueue_init_def sanitizeOutgoingQueueWatermarks_def)

lemma construct_newly_connected:
  assumes "StreamSocket_construct options n oneShot p b c = Some s"
  shows "newly_connected s"
proof -
  define q where "q = (SendQueue_setData (Some b) SendQueue_init :: 'a SendQueue)"
  define fresh where "fresh = (\<lambda>q :: 'a SendQueue. sq_entryList q = [] \<and> sq_size q = 0 \<and>
    sq_watermarkLow q < sq_watermarkHigh q \<and> sq_watermarkLowWanted q \<noteq> sq_watermarkHighWanted q)"
  have "fresh q" using SendQueue_init_fresh by (simp add: fresh_def q_def ntf_defs)
  moreover have "fresh q \<Longrightarrow> fresh (optionally v SendQueue_setLowWatermark q)"
      "fresh q \<Longrightarrow> fresh (optionally v SendQueue_setHighWatermark q)" for q v
    by (auto simp: fresh_def optionally_def SendQueue_setLowWatermark_def SendQueue_setHighWatermark_def
        Let_def split: option.splits prod.splits dest: sanitizeOutgoing_bounds)
  ultimately have "fresh (sk_sendQueue s)"
    using assms by (auto simp: StreamSocket_construct_def q_def split: if_splits)
  then show ?thesis
    using assms by (auto simp: StreamSocket_construct_def newly_connected_def fresh_def split: if_splits)
qed

lemma newly_connected_inv:
  assumes "newly_connected s" and "sk_sendGreedily s \<longrightarrow> buffers_filled L"
  shows "sk_inv L s" and "handed_on (sk_sendQueue s)" and "all_callbacks s = {#}"
    and "stream_bytes L s = []" and "ShutdownState_canSend (sk_shutdownState s)"
  using assms
  by (simp_all add: newly_connected_def sk_inv_def send_inv_def sq_inv_def detach_ok_def handed_on_def
      all_callbacks_def held_callbacks_def stream_bytes_def wire_def ZeroCopyQueue_init_def
      DetachState_init_def zq_callbacks_def ShutdownState_init_def shutdown_inv_def shutdown_accessors
      ShutdownContext_init_def)

text \<open>
  Whatever sequence of sends, writable events, errors, notifications, timers,
  cancellations, flow control changes, shutdowns, closes and detachments a connected socket sees,
  within what its surroundings owe, no assertion of \<open>ntcr::StreamSocket\<close>, of its send queue, its
  zero-copy queue and its shutdown state fails, and no loop runs forever. Afterwards the cached
  size of the send queue is the number of bytes queued, a socket that is being detached neither
  sends nor receives, and a close callback is held only while a detachment is under way.
\<close>

theorem stream_run_safe:
  assumes "blob_content_ok L" and "newly_connected s" and "sk_sendGreedily s \<longrightarrow> buffers_filled L"
    and "all_permitted (sk_permitted L) (\<lambda>x s. map_option snd (sk_step L T perSend x s)) ops s"
  shows "\<exists>ms s'. run_out (sk_step L T perSend) ops s = Some (ms, s') \<and>
     sq_size (sk_sendQueue s') = sum_list (map entry_weight (sq_entryList (sk_sendQueue s'))) \<and>
     (detaching s' \<longrightarrow> \<not> ShutdownState_canSend (sk_shutdownState s') \<and>
        \<not> ShutdownState_canReceive (sk_shutdownState s')) \<and>
     (sk_closeCallback s' \<noteq> None \<longrightarrow> detaching s')"
proof -
  have "blob_content_ok L \<and> sk_inv L s" using assms newly_connected_inv by blast
  from stream_safe.run_meaning [OF this assms(4)] obtain ms s' where
    "run_out (sk_step L T perSend) ops s = Some (ms, s')" "sk_inv L s'" by blast
  moreover from this have "sq_inv L (sk_sendQueue s')" "detach_ok s'"
    by (auto simp: sk_inv_def)
  ultimately show ?thesis
    using detaching_closed by (auto simp: sk_inv_def sq_inv_def)
qed

text \<open>
  In every such run, each callback given with an accepted message has been dispatched
  or is held by one of the two queues, and none is duplicated: the callbacks dispatched together
  with those held are those accepted, with multiplicity, across partial sends, batches, zero copy,
  cancellation, deadlines, failures and shutdown. A callback given with \<open>ntsa::Data\<close> large enough
  for zero copy is excepted.
\<close>

theorem stream_callbacks_once:
  assumes "blob_content_ok L" and "newly_connected s" and "sk_sendGreedily s \<longrightarrow> buffers_filled L"
    and "all_permitted (\<lambda>x s. sk_permitted L x s \<and> sk_held_once L x s)
           (\<lambda>x s. map_option snd (sk_step L T perSend x s)) ops s"
  shows "\<exists>ms s'. run_out (sk_step L T perSend) ops s = Some (ms, s') \<and>
     mset (dispatched (sk_log s')) + held_callbacks (sk_sendQueue s') (sk_zeroCopyQueue s') =
       mset (message_callbacks ms)"
proof -
  note new = newly_connected_inv [OF assms(2,3)]
  have "blob_content_ok L \<and> sk_inv L s" using assms(1) new(1) by blast
  from stream_callbacks.run_meaning [OF this assms(4)] new(2,3) show ?thesis
    by (auto simp: keeps_def all_callbacks_def)
qed

text \<open>
  In every run without cancellations and deadlines, as long as sending is not shut
  down, the bytes that the operating system took followed by the bytes still queued are exactly
  the bytes of the accepted messages, in the order in which they were accepted: nothing is lost,
  duplicated or reordered by partial sends and batches.
\<close>

theorem stream_bytes_in_order:
  assumes "blob_content_ok L" and "newly_connected s" and "sk_sendGreedily s \<longrightarrow> buffers_filled L"
    and "all_permitted (\<lambda>x s. sk_permitted L x s \<and> \<not> sk_removes x)
           (\<lambda>x s. map_option snd (sk_step L T perSend x s)) ops s"
  shows "\<exists>ms s'. run_out (sk_step L T perSend) ops s = Some (ms, s') \<and>
     (ShutdownState_canSend (sk_shutdownState s') \<longrightarrow>
        wire L (sk_log s') @ queue_content L (sq_entryList (sk_sendQueue s')) = message_bytes L ms)"
proof -
  note new = newly_connected_inv [OF assms(2,3)]
  have "blob_content_ok L \<and> sk_inv L s" using assms(1) new(1) by blast
  from stream_bytes.run_meaning [OF this assms(4)] new(4) show ?thesis
    by (auto simp: streams_def stream_bytes_def)
qed

subsection \<open>An example\<close>

text \<open>A connected socket and answers of the operating system, to evaluate the model on.\<close>

definition sample_socket :: "nat \<Rightarrow> bool \<Rightarrow> (bytes, int) StreamSocket" where
  "sample_socket threshold greedily =
     (case StreamSocket_construct (StreamSocketOptions_init\<lparr>op_sendGreedily := Some greedily,
             op_keepHalfOpen := Some True\<rparr>) 1 False False [] [] of
        Some s \<Rightarrow> s\<lparr>sk_systemHandle := 7, sk_socket := True, sk_session := True,
                    sk_openState := OpenState_set e_CONNECTED (sk_openState s),
                    sk_zeroCopyThreshold := threshold\<rparr>
      | None \<Rightarrow> undefined)"

definition os_answer_ok :: "nat \<Rightarrow> int os_answer" where
  "os_answer_ok room =
     \<lparr>os_now = 0, os_sendBufferSize = None, os_error = E_OK, os_room = room, os_noBuffers = False,
      os_timestamp = 0, os_timer = 1\<rparr>"

definition os_would_block :: "int os_answer" where
  "os_would_block = (os_answer_ok 0)\<lparr>os_error := E_WOULD_BLOCK\<rparr>"

definition sample_ops :: "(bytes, int) sk_op list" where
  "sample_ops =
     [SkSendBlob (os_answer_ok 2) [1, 2, 3] SendParameters_init (Some 11),
      SkSendBlob os_would_block [4, 5] SendParameters_init (Some 12),
      SkWritable [os_answer_ok 2, os_answer_ok 9, os_answer_ok 9, os_answer_ok 9, os_answer_ok 9],
      SkSendData (os_answer_ok 0) (String [6]) SendParameters_init None,
      SkCancel 5, SkShutdown Shutdown_SEND e_GRACEFUL]"

lemmas sk_eval =
  StreamSocket_send_blob_def StreamSocket_send_data_def guarded_send_def privateSendRaw_blob_def privateSendRaw_data_def
  privateEnqueueSendBuffer_blob_def privateEnqueueSendBuffer_data_def enqueue_send_buffer_def
  privateThrottleSendBuffer_def refresh_send_buffer_def SocketUtil_send_def submit_rate_def complete_send_def
  push_zero_copy_def queue_entry_def push_send_entry_def start_entry_def finish_entry_def batch_sent.simps
  announce_drained_def apply_if_empty_def privateSocketWritableIteration_def
  privateSocketWritableIterationBatch_def privateSocketWritableIterationFront_def privateRearmAfterSend_def
  processSocketWritable_def
  SendQueue_pushEntry_def SendQueue_popEntry_def SendQueue_popSize_def SendQueue_batchNext_def SendQueue_frontEntry_def
  SendQueueEntry_batchNext_def batchNext_Blob_def batchNext_ConstBuffer_def discount_def closeTimer_def popBlob_def
  SendQueue_authorizeLowWatermarkEvent_def SendQueue_authorizeHighWatermarkEvent_effective_def
  SendQueueEntry_init_def SendContext_init_def SendQueue_init_def effectiveMaxBuffers_def isBatchable_def
  sanitizeOutgoingQueueWatermarks_def sanitizeIncomingQueueWatermarks_def
  REFRESH_INTERVAL_def REFRESH_SIZE_THRESHOLD_def k_ZERO_COPY_NEVER_def k_ZERO_COPY_DEFAULT_def
  StreamSocket_construct_def StreamSocketOptions_init_def optionally_def OpenState_init_def FlowControlState_init_def
  ShutdownState_init_def ZeroCopyQueue_init_def BufferArray_init_def BufferArray_clear_def BufferArray_append_def
  ReceiveQueue_init_def DetachState_init_def ShutdownContext_init_def shutdown_accessors
  privateRelaxFlowControl_def privateApplyFlowControl_def FlowControlState_relax_def FlowControlState_apply_def
  FlowControlContext_init_def request_reactor_def announce_write_queue_def announce_read_queue_def announce_def emit_def
  SendParameters_init_def list_blobs_def sample_socket_def os_answer_ok_def os_would_block_def
  accepted_def popString_def StreamSocket_cancel_def removeEntryToken_context_def removeEntry_def
  StreamSocket_shutdown_def privateShutdown_def generateEntryId_def SendQueueEntry_token_def ntf_defs

lemma list_blobs_content [simp]: "blob_content_ok list_blobs"
  by (simp add: blob_content_ok_def list_blobs_def blob_data_def)

lemma sample_socket_new [simp]: "newly_connected (sample_socket n b)"
  by (simp add: newly_connected_def sk_eval)

lemma sample_socket_greedily [simp]: "sk_sendGreedily (sample_socket n b) = b"
  by (simp add: sk_eval)

lemma sample_permitted:
  "all_permitted (\<lambda>x s. sk_permitted list_blobs x s \<and> sk_held_once list_blobs x s)
     (\<lambda>x s. map_option snd (sk_step list_blobs int_time 2 x s)) sample_ops (sample_socket 100 False)"
  by (simp add: sample_ops_def sk_eval pending_def Let_def)


theorem stream_run_safe_witness:
  "\<exists>ms s'. run_out (sk_step list_blobs int_time 2) sample_ops (sample_socket 100 False) = Some (ms, s') \<and>
     sq_size (sk_sendQueue s') = sum_list (map entry_weight (sq_entryList (sk_sendQueue s')))"
proof -
  have "all_permitted (sk_permitted list_blobs)
     (\<lambda>x s. map_option snd (sk_step list_blobs int_time 2 x s)) sample_ops (sample_socket 100 False)"
    by (simp add: sample_ops_def sk_eval pending_def Let_def)
  from stream_run_safe [OF _ _ _ this] show ?thesis by auto
qed

theorem stream_callbacks_once_witness:
  "\<exists>ms s'. run_out (sk_step list_blobs int_time 2) sample_ops (sample_socket 100 False) = Some (ms, s') \<and>
     mset (dispatched (sk_log s')) + held_callbacks (sk_sendQueue s') (sk_zeroCopyQueue s') =
       mset (message_callbacks ms)"
  using stream_callbacks_once [OF _ _ _ sample_permitted] by simp

theorem stream_bytes_in_order_witness:
  "\<exists>ms s'. run_out (sk_step list_blobs int_time 2) (take 4 sample_ops) (sample_socket 100 False)
       = Some (ms, s') \<and>
     wire list_blobs (sk_log s') @ queue_content list_blobs (sq_entryList (sk_sendQueue s')) =
       message_bytes list_blobs ms \<and> message_bytes list_blobs ms = [1, 2, 3, 4, 5, 6]"
proof -
  have "all_permitted (\<lambda>x s. sk_permitted list_blobs x s \<and> \<not> sk_removes x)
     (\<lambda>x s. map_option snd (sk_step list_blobs int_time 2 x s)) (take 4 sample_ops) (sample_socket 100 False)"
    by (simp add: sample_ops_def sk_eval pending_def Let_def)
  from stream_bytes_in_order [OF _ _ _ this] obtain ms s' where
    r: "run_out (sk_step list_blobs int_time 2) (take 4 sample_ops) (sample_socket 100 False) = Some (ms, s')"
      "ShutdownState_canSend (sk_shutdownState s') \<longrightarrow>
        wire list_blobs (sk_log s') @ queue_content list_blobs (sq_entryList (sk_sendQueue s')) =
          message_bytes list_blobs ms" by auto
  from r(1) have "ShutdownState_canSend (sk_shutdownState s')" "message_bytes list_blobs ms = [1, 2, 3, 4, 5, 6]"
    by (auto simp: sample_ops_def sk_eval blob_data_def Let_def)
  with r show ?thesis by blast
qed

subsection \<open>A writable socket drains its queue\<close>

lemma writable_loop_drains:
  assumes L: "blob_content_ok L" and inv: "sk_inv L s" and greedy: "sk_sendGreedily s" and sock: "sk_socket s"
    and answers: "\<forall>a \<in> set as. os_error a = E_OK \<and> 0 < os_room a" and enough: "pending s \<le> length as"
  shows "\<exists>s'. writable_loop L T perSend as s = Some (E_OK, s') \<and> effect L [] [] s s' \<and>
     (ShutdownState_canSend (sk_shutdownState s') \<longrightarrow> sq_entryList (sk_sendQueue s') = [])"
  using assms(2-)
proof (induction as arbitrary: s)
  case Nil
  then have "sq_entryList (sk_sendQueue s) = []" by (simp add: pending_def)
  with Nil show ?case using effect_refl by (simp add: ntf_defs)
next
  case (Cons a as)
  show ?case
  proof (cases "SendQueue_hasEntry (sk_sendQueue s)")
    case False
    with Cons.prems show ?thesis using effect_refl by (simp add: ntf_defs)
  next
    case True
    from iteration_ok [OF L Cons.prems(1) True, of T perSend a] Cons.prems(3,4) obtain s1 where
      s1: "privateSocketWritableIteration L T perSend a s = Some (E_OK, s1)" "effect L [] [] s s1"
        "send_config s1 = send_config s" "buffers_filled L \<longrightarrow> pending s1 < pending s"
      by (auto simp: iterates_def)
    have cfg: "sk_sendGreedily s1" "sk_socket s1" "buffers_filled L"
      using s1(3) Cons.prems(1-3) by (simp_all add: send_config_def sk_inv_def)
    show ?thesis
    proof (cases "ShutdownState_canSend (sk_shutdownState s1)")
      case False
      with True s1 cfg show ?thesis by simp
    next
      case sending: True
      obtain s' where "writable_loop L T perSend as s1 = Some (E_OK, s')" "effect L [] [] s1 s'"
          "ShutdownState_canSend (sk_shutdownState s') \<longrightarrow> sq_entryList (sk_sendQueue s') = []"
        using Cons.IH [OF effect_inv [OF s1(2)] cfg(1,2)] Cons.prems(4,5) s1(4) cfg(3) by auto
      with True sending s1(1) cfg(1) effect_then [OF s1(2)] show ?thesis by auto
    qed
  qed
qed

subsection \<open>Where the code falls short\<close>

definition ready_to_send :: "('blob, 't) StreamSocket \<Rightarrow> bool" where
  "ready_to_send s \<longleftrightarrow>
     OpenState_canSend (sk_openState s) \<and> sk_socket s \<and> sk_sendRateLimiter s = None \<and>
     sq_entryList (sk_sendQueue s) = [] \<and> sq_size (sk_sendQueue s) < sq_watermarkHigh (sk_sendQueue s)"

lemma partial_enqueue:
  assumes "ready_to_send s" and "os_error a = E_OK" and "0 < os_room a" and "os_room a < n"
    and "\<not> os_noBuffers a"
  shows "\<exists>s1. enqueue_send_buffer T a n d h s = Some (E_OK, (os_room a, sk_zeroCopyThreshold s \<le> n \<and> \<not> isFile d), s1) \<and>
     sk_sendQueue s1 = sk_sendQueue s \<and> sk_zeroCopyQueue s1 = sk_zeroCopyQueue s \<and>
     dispatched (sk_log s1) = dispatched (sk_log s) \<and>
     wire L (sk_log s1) = wire L (sk_log s) @ take (os_room a) (Data_content L d)"
proof -
  obtain so where so: "refresh_send_buffer n (os_sendBufferSize a) s = s\<lparr>sk_sendOptions := so\<rparr>"
    using refresh_send_buffer_normal by blast
  show ?thesis
    using assms
    by (simp add: ready_to_send_def enqueue_send_buffer_def privateThrottleSendBuffer_def so SocketUtil_send_def
        submit_rate_def emit_def Let_def)
qed

text \<open>The first part of a message goes out and the rest is queued.\<close>

lemma partial_send:
  assumes r: "ready_to_send s" and inv: "sk_inv L s" and L: "blob_content_ok L"
    and a: "os_error a = E_OK" "\<not> os_noBuffers a" "0 < os_room a" "os_room a < n"
    and hw: "sp_highWatermark options = None"
    and d: "freely_poppable data" "Data_size L data = Some n"
    and z: "z \<longleftrightarrow> sk_zeroCopyThreshold s \<le> n"
  shows "\<exists>s1 rest. guarded_send (\<lambda>counter setting t. send_raw L T a data n push doubled counter options setting
            callback t) options s = Some (E_OK, s1) \<and>
     Data_size L rest = Some (n - os_room a) \<and> sq_size (sk_sendQueue s1) = n - os_room a \<and>
     sq_entryList (sk_sendQueue s1) =
       [waiting_entry a (sk_sendCounter s) options (SendContext_init\<lparr>sc_token := sp_token options\<rparr>)
          (os_room a, z) rest (n - os_room a) (if doubled \<or> \<not> z then callback else None)] \<and>
     zq_callbacks (sk_zeroCopyQueue s1) =
       zq_callbacks (sk_zeroCopyQueue s) @ (if z then optional callback else []) \<and>
     dispatched (sk_log s1) = dispatched (sk_log s) \<and>
     wire L (sk_log s1) = wire L (sk_log s) @ take (os_room a) (Data_content L data)"
proof -
  let ?c = "sk_sendCounter s" and ?st = "SendContext_init\<lparr>sc_token := sp_token options\<rparr>"
  define s0 where "s0 = s\<lparr>sk_sendCounter := ?c + 1\<rparr>"
  define cb where "cb = (if doubled \<or> \<not> z then callback else None)"
  have r0: "ready_to_send s0" using r by (simp add: s0_def ready_to_send_def)
  have nofile: "\<not> isFile data" using d(1) by (cases data) auto
  obtain s1 where s1: "enqueue_send_buffer T a n data (sp_foreignHandle options) s0 = Some (E_OK, (os_room a, z), s1)"
      "sk_sendQueue s1 = sk_sendQueue s" "sk_zeroCopyQueue s1 = sk_zeroCopyQueue s"
      "dispatched (sk_log s1) = dispatched (sk_log s)"
      "wire L (sk_log s1) = wire L (sk_log s) @ take (os_room a) (Data_content L data)"
    using partial_enqueue [OF r0 a(1,3,4,2), of T data "sp_foreignHandle options" L] nofile z by (auto simp: s0_def)
  obtain rest where rest: "DataUtil_pop L data (os_room a) = Some rest" "Data_size L rest = Some (n - os_room a)"
    using DataUtil_pop_size [OF blob_content_ok_library [OF L] _ d(2), of "os_room a"] d(1) a(4) by auto
  have below: "\<forall>w \<in> set (zq_waitList (sk_zeroCopyQueue s1)). ze_group w < ?c"
    using inv s1(3) by (simp add: sk_inv_def send_inv_def)
  obtain zq where zq: "push_zero_copy ?c rest ?st callback z s1 = Some (s1\<lparr>sk_zeroCopyQueue := zq\<rparr>)"
      "zq_callbacks zq = zq_callbacks (sk_zeroCopyQueue s) @ (if z then optional callback else [])"
  proof (cases z)
    case True
    obtain x zq where "ZeroCopyQueue_push_shared_callback ?c (Some rest) ?st callback (sk_zeroCopyQueue s1)
        = Some (x, zq)" "appends_entry ?c callback (sk_zeroCopyQueue s1) zq"
      using pushes_ok(1) [OF below] by blast
    with True show ?thesis
      by (intro that [of zq]) (simp_all add: push_zero_copy_def optional_def appends_entry_callbacks s1(3))
  next
    case False
    then show ?thesis by (intro that [of "sk_zeroCopyQueue s1"]) (simp_all add: push_zero_copy_def s1(3))
  qed
  let ?e = "waiting_entry a ?c options ?st (os_room a, z) rest (n - os_room a) cb"
  have ok: "entry_ok L ?e" using rest(2) a(4) by (simp add: entry_ok_def)
  have sq: "sq_inv L (sk_sendQueue (s1\<lparr>sk_zeroCopyQueue := zq\<rparr>))"
    using inv s1(2) by (auto simp: sk_inv_def)
  obtain evs f where p: "push_send_entry L a options (os_room a, z)
       (if cb \<noteq> None then setCallback cb (queue_entry a ?c options ?st (os_room a, z) rest (n - os_room a))
        else queue_entry a ?c options ?st (os_room a, z) rest (n - os_room a)) (s1\<lparr>sk_zeroCopyQueue := zq\<rparr>) =
     Some (s1\<lparr>sk_zeroCopyQueue := zq,
              sk_sendQueue := (sk_sendQueue s1)\<lparr>sq_entryList := sq_entryList (sk_sendQueue s1) @ [?e],
                 sq_size := sq_size (sk_sendQueue s1) + entry_weight ?e\<rparr>,
              sk_flowControlState := f, sk_log := sk_log s1 @ evs\<rparr>)" (is "_ = Some ?s'")
      "dispatched evs = []" "transmissions evs = []"
    using push_send_entry_ok [OF sq ok] by auto
  have "send_raw L T a data n push doubled ?c options ?st callback s0 = Some (E_OK, ?s')"
    using r0 s1(1) rest zq(1) p(1) a(4) unfolding send_raw_def
    by (cases doubled; cases z; cases callback) (simp_all add: ready_to_send_def ntf_defs cb_def Let_def)
  moreover have "sq_entryList (sk_sendQueue s1) = []" "sq_size (sk_sendQueue s1) = 0"
    using r inv s1(2) by (simp_all add: ready_to_send_def sk_inv_def send_inv_def sq_inv_def)
  moreover have "guarded_send (\<lambda>counter setting t. send_raw L T a data n push doubled counter options setting
            callback t) options s = send_raw L T a data n push doubled ?c options ?st callback s0"
    using r hw by (simp add: guarded_send_def ready_to_send_def s0_def ntf_defs)
  ultimately show ?thesis
    using s1(2-5) rest zq(2) p(2,3)
    by (intro exI [of _ ?s'] exI [of _ rest]) (simp add: cb_def wire_def entry_weight_def)
qed

lemma waiting_entry_inProgress [simp]:
  "\<not> se_inProgress (waiting_entry a c options setting context d m cb)"
  by (simp add: waiting_entry_def queue_entry_def SendQueueEntry_init_def ntf_defs Let_def
      split: option.splits)

text \<open>
  Claim C36. A message of which the operating system has taken a part at once can still be
  cancelled: \<open>privateSendRaw\<close> queues the rest without marking the entry as in progress, which is
  what \<open>removeEntryToken\<close> checks. The call to \<open>cancel\<close> succeeds, the callback reports a cancellation,
  and the peer has the first part of the message and never the rest, so the stream is corrupted.
\<close>

theorem cancel_truncates_message:
  assumes "ready_to_send s" and "sk_inv L s" and "blob_content_ok L"
    and "os_error a = E_OK" and "\<not> os_noBuffers a" and "0 < os_room a" and "os_room a < blob_length L b"
    and "sp_highWatermark options = None" and "blob_length L b < sk_zeroCopyThreshold s"
    and "sp_token options = Some token"
  shows "\<exists>s1 s2. StreamSocket_send_blob L T a b options (Some cb) s = Some (E_OK, s1) \<and>
     StreamSocket_cancel L token s1 = Some (E_OK, s2) \<and>
     sq_entryList (sk_sendQueue s2) = [] \<and> dispatched (sk_log s2) = dispatched (sk_log s) @ [cb] \<and>
     wire L (sk_log s2) = wire L (sk_log s) @ take (os_room a) (Data_content L (Blob b))"
proof -
  obtain s1 rest where s1: "StreamSocket_send_blob L T a b options (Some cb) s = Some (E_OK, s1)"
      "Data_size L rest = Some (blob_length L b - os_room a)"
      "sq_size (sk_sendQueue s1) = blob_length L b - os_room a"
      "sq_entryList (sk_sendQueue s1) =
         [waiting_entry a (sk_sendCounter s) options (SendContext_init\<lparr>sc_token := sp_token options\<rparr>)
            (os_room a, False) rest (blob_length L b - os_room a) (Some cb)]"
      "dispatched (sk_log s1) = dispatched (sk_log s)"
      "wire L (sk_log s1) = wire L (sk_log s) @ take (os_room a) (Data_content L (Blob b))"
    using partial_send [OF assms(1-8), of "Blob b" False T
        "\<lambda>c st cb zq. ZeroCopyQueue_push_blob_callback c b st cb zq" False "Some cb"] assms(9)
    unfolding StreamSocket_send_blob_def privateSendRaw_blob_raw by auto
  then have "\<exists>ts. StreamSocket_cancel L token s1 = Some (E_OK,
      emit (DispatchSend Send_ERROR (SendContext_init\<lparr>sc_token := sp_token options, sc_error := E_CANCELLED\<rparr>) cb True)
        (privateApplyFlowControl FlowControlType.e_SEND True False
          (s1\<lparr>sk_sendQueue := (sk_sendQueue s1)\<lparr>sq_entryList := [], sq_size := 0, sq_closedTimers := ts\<rparr>\<rparr>)))"
    using assms(7,10)
    by (simp add: StreamSocket_cancel_def removeEntryToken_context_def removeEntry_def discount_def
        SendQueueEntry_token_def) (rule exI, rule refl)
  then obtain ts where c: "StreamSocket_cancel L token s1 = Some (E_OK,
      emit (DispatchSend Send_ERROR (SendContext_init\<lparr>sc_token := sp_token options, sc_error := E_CANCELLED\<rparr>) cb True)
        (privateApplyFlowControl FlowControlType.e_SEND True False
          (s1\<lparr>sk_sendQueue := (sk_sendQueue s1)\<lparr>sq_entryList := [], sq_size := 0, sq_closedTimers := ts\<rparr>\<rparr>)))" ..
  show ?thesis
    by (rule exI, rule exI, rule conjI, rule s1(1), rule conjI, rule c)
       (simp add: sk_normal s1(5,6) wire_def [of L "[DispatchSend ty ctx cb d]" for ty ctx cb d]
          wire_def [of L "apply_events direction d lock t" for direction d lock t])
qed

theorem cancel_truncates_message_witness:
  "\<exists>s1 s2. StreamSocket_send_blob list_blobs int_time (os_answer_ok 2) [1, 2, 3]
       (SendParameters_init\<lparr>sp_token := Some 5\<rparr>) (Some 11) (sample_socket 100 False) = Some (E_OK, s1) \<and>
     StreamSocket_cancel list_blobs 5 s1 = Some (E_OK, s2) \<and>
     sq_entryList (sk_sendQueue s2) = [] \<and> wire list_blobs (sk_log s2) = [1, 2]"
proof -
  have "ready_to_send (sample_socket 100 False)" by (simp add: ready_to_send_def sk_eval)
  from cancel_truncates_message [OF this newly_connected_inv(1), of list_blobs "os_answer_ok 2" "[1, 2, 3]"
      "SendParameters_init\<lparr>sp_token := Some 5\<rparr>" 5 int_time 11]
  show ?thesis
    by (simp add: os_answer_ok_def SendParameters_init_def blob_data_def)
       (simp add: list_blobs_def sk_eval wire_def)
qed

text \<open>
  The overload of \<open>send\<close> for \<open>ntsa::Data\<close> holds a callback twice when the operating system
  takes a part of the data by zero copy: once in the zero-copy queue and once in the entry that
  waits in the send queue. When both queues are cleared by a shutdown, the callback is invoked
  twice. (The overload for a blob leaves the callback out of the entry in this case.)
\<close>

theorem data_callback_held_twice:
  assumes "ready_to_send s" and "sk_inv L s" and "blob_content_ok L"
    and "os_error a = E_OK" and "\<not> os_noBuffers a" and "0 < os_room a" and "os_room a < n"
    and "sp_highWatermark options = None" and "freely_poppable data" and "Data_size L data = Some n"
    and "sk_zeroCopyThreshold s \<le> n"
  shows "\<exists>s1. StreamSocket_send_data L T a data options (Some cb) s = Some (E_OK, s1) \<and>
     held_callbacks (sk_sendQueue s1) (sk_zeroCopyQueue s1) =
       held_callbacks (sk_sendQueue s) (sk_zeroCopyQueue s) + {#cb, cb#}"
proof -
  have "sq_entryList (sk_sendQueue s) = []" using assms(1) by (simp add: ready_to_send_def)
  with partial_send [OF assms(1-10), of True T
        "\<lambda>c st cb zq. ZeroCopyQueue_push_data_callback c data st cb zq" True "Some cb"] assms(11)
  show ?thesis
    unfolding StreamSocket_send_data_def privateSendRaw_data_raw [OF assms(10)]
    by (auto simp: held_callbacks_def)
qed

theorem data_callback_held_twice_witness:
  "\<exists>s1. StreamSocket_send_data list_blobs int_time (os_answer_ok 2) (String [1, 2, 3]) SendParameters_init
       (Some 11) (sample_socket 3 False) = Some (E_OK, s1) \<and>
     held_callbacks (sk_sendQueue s1) (sk_zeroCopyQueue s1) = {#11, 11#}"
proof -
  have "ready_to_send (sample_socket 3 False)" by (simp add: ready_to_send_def sk_eval)
  moreover have "held_callbacks (sk_sendQueue (sample_socket 3 False)) (sk_zeroCopyQueue (sample_socket 3 False))
      = {#}"
    using newly_connected_inv(3) [of "sample_socket 3 False" list_blobs] by (simp add: all_callbacks_def)
  ultimately show ?thesis
    using data_callback_held_twice [OF _ newly_connected_inv(1), of "sample_socket 3 False" list_blobs
        "os_answer_ok 2" 3 SendParameters_init "String [1, 2, 3]" int_time 11]
    by (simp add: os_answer_ok_def SendParameters_init_def) (simp add: sk_eval)
qed

definition batch_ops :: "(bytes, int) sk_op list" where
  "batch_ops =
     [SkSendBlob os_would_block [1, 2, 3] SendParameters_init (Some 11),
      SkSendBlob os_would_block [4, 5] SendParameters_init (Some 12),
      SkWritable [os_answer_ok 9, os_answer_ok 9, os_answer_ok 9, os_answer_ok 9, os_answer_ok 9,
                  os_answer_ok 9, os_answer_ok 9],
      SkNotifications [(e_AVOIDED, 0, 0)]]"

lemma drain_eval:
  "drain_zero_copy \<lparr>zq_generator = g, zq_waitList = ws, zq_doneList = []\<rparr> =
     ([], \<lparr>zq_generator = g, zq_waitList = ws, zq_doneList = []\<rparr>)"
  "ze_callback e = Some cb \<Longrightarrow> drain_zero_copy \<lparr>zq_generator = g, zq_waitList = ws, zq_doneList = e # es\<rparr> =
     (let (cs, zq) = drain_zero_copy \<lparr>zq_generator = g, zq_waitList = ws, zq_doneList = es\<rparr>
      in ((ze_context e, cb) # cs, zq))"
  by (subst drain_zero_copy.simps, simp add: ZeroCopyQueue_pop_def)+

lemmas zero_copy_eval =
  ZeroCopyQueue_push_shared_callback_def push_entry_def new_entry_def ZeroCopyCounterGenerator_next_def
  ZeroCopyCounterGenerator_init_def ZeroCopyQueue_frame_def ZeroCopyQueue_ready_def ZeroCopyQueue_pop_def
  ZeroCopyQueue_update_def ZeroCopyCounterGenerator_update_def drain_eval
  ZeroCopyEntry_init_def processNotifications_def privateZeroCopyUpdate_def privateRearmAfterNotification_def
  ZeroCopyEntry_setMinCounter_def ZeroCopyEntry_setMaxCounter_def ZeroCopyEntry_match_def
  ZeroCopyEntry_complete_def ZeroCopyEntry_minCounter_def ZeroCopyRange_empty_def ZeroCopyRange_init_def
  ZeroCopyRange_intersect_def ZeroCopyRange_difference_def ZeroCopyRange_create_def ZeroCopyRange_setMinCounter_def
  ZeroCopyRange_setMaxCounter_def ZeroCopyRange_reset_def uint32_max_def

text \<open>
  A batch sent in one zero-copied call gives every entry of the batch a counter of its
  own, while the operating system counts calls: two messages go out in one call, and when the
  operating system reports that call (its counter 0) as completed, only the callback of the first
  message is invoked. The second one waits for a counter that belongs to a later call.
\<close>

theorem batch_zero_copy_counters:
  "\<exists>ms s. run_out (sk_step list_blobs int_time 8) batch_ops (sample_socket 4 False) = Some (ms, s) \<and>
     message_callbacks ms = [11, 12] \<and> length (transmissions (sk_log s)) = 1 \<and>
     wire list_blobs (sk_log s) = [1, 2, 3, 4, 5] \<and>
     dispatched (sk_log s) = [11] \<and> zq_callbacks (sk_zeroCopyQueue s) = [12]"
  by (simp add: batch_ops_def sk_eval zero_copy_eval zq_callbacks_def wire_def Let_def)

subsection \<open>A batch without bytes\<close>

text \<open>The front of the queue is a blob that starts with as many empty buffers as fit in one call.\<close>

definition spins :: "'blob blob_library \<Rightarrow> nat \<Rightarrow> ('blob, 't) StreamSocket \<Rightarrow> bool" where
  "spins L perSend s \<longleftrightarrow>
     sk_sendGreedily s \<and> sk_socket s \<and> ShutdownState_canSend (sk_shutdownState s) \<and> sk_sendRateLimiter s = None \<and>
     so_maxBuffers (sk_sendOptions s) = 0 \<and> 0 < perSend \<and>
     (\<exists>e f es b c cs. sq_entryList (sk_sendQueue s) = e # f # es \<and> se_data e = Some (Blob b) \<and> se_foreignHandle e = None \<and>
        blob_buffers L b = replicate perSend [] @ c # cs)"

lemma batch_empty_buffers:
  "ba_numBytes r = 0 \<Longrightarrow> BufferArray_numBuffers r + n = k \<Longrightarrow> 0 < k \<Longrightarrow>
   \<exists>r'. batchNext_Blob_loop m k l (replicate n [] @ c # cs) r = (False, r') \<and> ba_numBytes r' = 0 \<and>
     BufferArray_numBuffers r' = k"
proof (induction n arbitrary: r)
  case 0
  then show ?case by simp
next
  case (Suc n)
  have "BufferArray_numBuffers (BufferArray_append [] r) + n = k" "ba_numBytes (BufferArray_append [] r) = 0"
    using Suc.prems by (simp_all add: BufferArray_append_def BufferArray_numBuffers_def)
  with Suc.IH [of "BufferArray_append [] r"] Suc.prems show ?case by (simp add: Let_def)
qed

lemma spins_batch:
  assumes "spins L perSend s"
  shows "\<exists>r. SendQueue_batchNext L perSend (sk_sendData s) (sk_sendOptions s) (sk_sendQueue s) = Some (True, r) \<and> ba_numBytes r = 0"
proof -
  obtain e f es b c cs where q: "sq_entryList (sk_sendQueue s) = e # f # es" "se_data e = Some (Blob b)" "se_foreignHandle e = None"
      "blob_buffers L b = replicate perSend [] @ c # cs" and p: "0 < perSend" "so_maxBuffers (sk_sendOptions s) = 0"
    using assms by (auto simp: spins_def)
  let ?o = "(sk_sendOptions s)\<lparr>so_maxBuffers := perSend\<rparr>"
  obtain r where r: "batchNext_Blob L perSend ?o b (BufferArray_clear (sk_sendData s)) = (False, r)" "ba_numBytes r = 0"
      "BufferArray_numBuffers r = perSend"
    using batch_empty_buffers [of "BufferArray_clear (sk_sendData s)" perSend perSend "so_maxBytes ?o"
        "blob_lastDataBufferLength L b" c cs] p q(4)
    by (auto simp: batchNext_Blob_def effectiveMaxBuffers_def BufferArray_clear_def BufferArray_numBuffers_def)
  then have "SendQueueEntry_batchNext L perSend ?o e (BufferArray_clear (sk_sendData s)) = Some (False, r)"
    using q by (simp add: SendQueueEntry_batchNext_def isBatchable_def)
  then show ?thesis using q(1) p r by (simp add: SendQueue_batchNext_def Let_def)
qed

lemma spins_iteration:
  assumes s: "spins L perSend s" and a: "os_error a = E_OK"
  shows "\<exists>s'. privateSocketWritableIteration L T perSend a s = Some (E_OK, s') \<and> spins L perSend s'"
proof -
  obtain r where r: "SendQueue_batchNext L perSend (sk_sendData s) (sk_sendOptions s) (sk_sendQueue s) = Some (True, r)"
      "ba_numBytes r = 0" using spins_batch [OF s] by blast
  define t where "t = s\<lparr>sk_sendData := r\<rparr>"
  have "spins L perSend t" using s by (simp add: t_def spins_def)
  have t: "sk_socket t" "sk_sendRateLimiter t = None" using \<open>spins L perSend t\<close> by (simp_all add: spins_def)
  define z where "z \<longleftrightarrow> sk_zeroCopyThreshold t = 0"
  define t0 where "t0 = t\<lparr>sk_log := sk_log t @ [SystemSend (ConstBufferArray r) z None 0]\<rparr>"
  define t1 where "t1 = (if z \<noteq> (z \<and> \<not> os_noBuffers a) \<and> sk_zeroCopyThreshold t0 \<noteq> k_ZERO_COPY_NEVER
      then t0\<lparr>sk_zeroCopyThreshold := k_ZERO_COPY_NEVER\<rparr> else t0)"
  have t1: "privateEnqueueSendBuffer_data L T a (ConstBufferArray r) None t = Some (E_OK, (0, z \<and> \<not> os_noBuffers a), t1)"
    using t r(2) a unfolding t1_def
    by (cases "sk_zeroCopyThreshold t = 0"; cases "os_noBuffers a") (simp_all add: privateEnqueueSendBuffer_data_def enqueue_send_buffer_def privateThrottleSendBuffer_def
        refresh_send_buffer_def SocketUtil_send_def submit_rate_def emit_def REFRESH_SIZE_THRESHOLD_def Let_def z_def t0_def)
  have t1s: "spins L perSend t1" using \<open>spins L perSend t\<close> by (simp add: t1_def t0_def spins_def)
  define t2 where "t2 = apply_if_empty (announce_drained t1)"
  have "spins L perSend t2" using t1s
    by (auto simp: t2_def spins_def apply_if_empty_def announce_drained_def SendQueue_authorizeLowWatermarkEvent_def
        announce_write_queue_def announce_normal SendQueue_hasEntry_def Let_def split: prod.splits if_splits)
  moreover have "privateSocketWritableIteration L T perSend a s = Some (E_OK, t2)"
    using s r(1) t1
    by (auto simp: privateSocketWritableIteration_def privateSocketWritableIterationBatch_def batch_sent.simps
        spins_def SendQueue_hasEntry_def t2_def t_def)
  ultimately show ?thesis by blast
qed

lemma spins_loop:
  "spins L perSend s \<Longrightarrow> \<forall>a \<in> set as. os_error a = E_OK \<Longrightarrow> writable_loop L T perSend as s = None"
proof (induction as arbitrary: s)
  case Nil
  then show ?case by (auto simp: spins_def SendQueue_hasEntry_def)
next
  case (Cons a as)
  obtain s' where s': "privateSocketWritableIteration L T perSend a s = Some (E_OK, s')" "spins L perSend s'"
    using spins_iteration [OF Cons.prems(1), of a T] Cons.prems(2) by auto
  then have "sk_sendGreedily s'" "ShutdownState_canSend (sk_shutdownState s')" by (simp_all add: spins_def)
  moreover have "SendQueue_hasEntry (sk_sendQueue s)" using Cons.prems(1) by (auto simp: spins_def SendQueue_hasEntry_def)
  ultimately show ?case using s' Cons by simp
qed

text \<open>Blobs as the lists of their buffers.\<close>

fun chain_drop :: "nat \<Rightarrow> bytes list \<Rightarrow> bytes list" where
  "chain_drop n [] = []"
| "chain_drop n (b # bs) =
     (if n = 0 then b # bs else if n < length b then drop n b # bs else chain_drop (n - length b) bs)"

lemma chain_drop_0 [simp]: "chain_drop 0 bs = bs"
  by (cases bs) simp_all

lemma chain_drop_content: "concat (chain_drop n bs) = drop n (concat bs)"
  by (induction bs arbitrary: n) auto

definition chain_blobs :: "bytes list blob_library" where
  "chain_blobs = \<lparr>blob_length = (\<lambda>b. length (concat b)), blob_erase_front = (\<lambda>b n. chain_drop n b), blob_buffers = (\<lambda>b. b),
     blob_lastDataBufferLength = (\<lambda>b. length (last b))\<rparr>"

lemma cut_last_whole: "cut_last (length (last bs)) bs = bs"
  by (induction bs rule: induct_list012) auto

lemma chain_blobs_ok: "blob_content_ok chain_blobs"
  by (simp add: blob_content_ok_def chain_blobs_def blob_data_def cut_last_whole chain_drop_content)

definition greedy_socket :: "(bytes list, int) StreamSocket" where
  "greedy_socket =
     (case StreamSocket_construct (StreamSocketOptions_init\<lparr>op_sendGreedily := Some True\<rparr>) 1 False False [] [] of
        Some s \<Rightarrow> s\<lparr>sk_systemHandle := 7, sk_socket := True, sk_session := True,
                    sk_openState := OpenState_set e_CONNECTED (sk_openState s)\<rparr>
      | None \<Rightarrow> undefined)"

definition spinning_sends :: "nat \<Rightarrow> (bytes list, int) sk_op list" where
  "spinning_sends perSend =
     [SkSendBlob os_would_block (replicate perSend [] @ [[1]]) SendParameters_init None,
      SkSendBlob os_would_block [[2]] SendParameters_init None]"

text \<open>
  Why the theorems about a socket that sends greedily ask for blobs without empty buffers: when the blob in front of the queue
  starts with as many empty buffers as the system takes in one call, and another message waits behind it, the batch has no
  byte to send, nothing leaves the queue, and \<open>processSocketWritable\<close> repeats the same call for ever, however many
  calls the system answers with success.
\<close>

theorem greedy_socket_spins:
  assumes "0 < perSend" and "\<forall>a \<in> set as. os_error a = E_OK"
  shows "\<exists>ms s. run_out (sk_step chain_blobs int_time perSend) (spinning_sends perSend) greedy_socket = Some (ms, s) \<and>
     processSocketWritable chain_blobs int_time perSend as s = None"
proof -
  have "\<exists>ms s. run_out (sk_step chain_blobs int_time perSend) (spinning_sends perSend) greedy_socket = Some (ms, s) \<and>
      spins chain_blobs perSend s \<and> ds_mode (sk_detachState s) = e_IDLE"
    using assms(1) by (simp add: greedy_socket_def chain_blobs_def spinning_sends_def sk_eval spins_def Let_def)
  then obtain ms s where s: "run_out (sk_step chain_blobs int_time perSend) (spinning_sends perSend) greedy_socket = Some (ms, s)"
      "spins chain_blobs perSend s" "ds_mode (sk_detachState s) = e_IDLE"
    by blast
  have "ShutdownState_canSend (sk_shutdownState s)" using s(2) by (simp add: spins_def)
  then have "processSocketWritable chain_blobs int_time perSend as s = None"
    using spins_loop [OF s(2) assms(2)] s(3) by (simp add: processSocketWritable_def)
  then show ?thesis using s(1) by blast
qed

end
