(* ===== verification/Stream_Frames.thy ===== *)
theory Stream_Frames
  imports Stream_Receive Stream_Runs
begin

section \<open>The send path and the receive path\<close>

text \<open>
  The invariant of the receive path of a stream socket, and that no operation of the send path
  breaks it: the operations that send leave the receive queue, its callback entries and the
  events of receptions alone, and a shutdown dispatches every callback that waits to receive.
\<close>

subsection \<open>What the send path leaves alone\<close>

text \<open>
  The part of the state that the receive path works on, with the events of the log that concern
  it. No operation of the send path changes it.
\<close>

fun is_receive_event :: "('blob, 't) socket_event \<Rightarrow> bool" where
  "is_receive_event (SystemReceive bs) = True"
| "is_receive_event (DispatchReceive ty ctx d cb defer) = True"
| "is_receive_event (ReturnReceive b b') = True"
| "is_receive_event ev = False"

definition receive_log :: "('blob, 't) socket_event list \<Rightarrow> ('blob, 't) socket_event list" where
  "receive_log evs = filter is_receive_event evs"

lemma receive_log_simps [simp]:
  "receive_log [] = []"
  "receive_log (ev # evs) = (if is_receive_event ev then ev # receive_log evs else receive_log evs)"
  "receive_log (evs @ evs') = receive_log evs @ receive_log evs'"
  by (simp_all add: receive_log_def)

definition rx_view ::
  "('blob, 't) StreamSocket \<Rightarrow> 'blob ReceiveQueue \<times> receive_store \<times> nat \<times> ReceiveFeedback \<times>
   't RateLimiter option \<times> ('blob, 't) socket_event list" where
  "rx_view s =
     (sk_receiveQueue s, sk_receiveEntries s, sk_receiveEntryCount s, sk_receiveFeedback s,
      sk_receiveRateLimiter s, receive_log (sk_log s))"

lemma receive_log_quiet [simp]:
  "receive_log (relax_events direction defer unlock s) = []"
  "receive_log (apply_events direction defer lock s) = []"
  by (simp_all add: relax_events_def apply_events_def split: prod.splits)

lemma receive_log_map [simp]:
  "receive_log (map (\<lambda>(ctx, cb). DispatchSend ty (f ctx) cb defer) cs) = []"
  "receive_log (map CloseReceiveDeadline ts) = []"
  by (induction cs) (auto simp: receive_log_def)

named_theorems rx_frame \<open>operations that leave the receive path alone\<close>

lemma rx_view_emit [rx_frame]:
  "\<not> is_receive_event ev \<Longrightarrow> rx_view (emit ev s) = rx_view s"
  by (simp add: rx_view_def emit_def)

lemma rx_view_updates [rx_frame]:
  "rx_view (s\<lparr>sk_sendQueue := q\<rparr>) = rx_view s"
  "rx_view (s\<lparr>sk_zeroCopyQueue := zq\<rparr>) = rx_view s"
  "rx_view (s\<lparr>sk_sendCounter := c\<rparr>) = rx_view s"
  "rx_view (s\<lparr>sk_sendData := d\<rparr>) = rx_view s"
  "rx_view (s\<lparr>sk_sendOptions := so\<rparr>) = rx_view s"
  "rx_view (s\<lparr>sk_zeroCopyThreshold := n\<rparr>) = rx_view s"
  "rx_view (s\<lparr>sk_sendRateLimiter := rl\<rparr>) = rx_view s"
  "rx_view (s\<lparr>sk_sendRateTimer := b\<rparr>) = rx_view s"
  "rx_view (s\<lparr>sk_receiveRateTimer := b\<rparr>) = rx_view s"
  "rx_view (s\<lparr>sk_totalBytesSent := n\<rparr>) = rx_view s"
  "rx_view (s\<lparr>sk_totalBytesReceived := n\<rparr>) = rx_view s"
  "rx_view (s\<lparr>sk_flowControlState := f\<rparr>) = rx_view s"
  "rx_view (s\<lparr>sk_shutdownState := d'\<rparr>) = rx_view s"
  "rx_view (s\<lparr>sk_detachState := ds\<rparr>) = rx_view s"
  "rx_view (s\<lparr>sk_detachCallback := dc\<rparr>) = rx_view s"
  "rx_view (s\<lparr>sk_deferredCalls := cs\<rparr>) = rx_view s"
  "rx_view (s\<lparr>sk_closeCallback := cc\<rparr>) = rx_view s"
  "rx_view (s\<lparr>sk_session := b\<rparr>) = rx_view s"
  "rx_view (s\<lparr>sk_manager := b\<rparr>) = rx_view s"
  "rx_view (s\<lparr>sk_systemHandle := h\<rparr>) = rx_view s"
  "rx_view (s\<lparr>sk_openState := os\<rparr>) = rx_view s"
  by (simp_all add: rx_view_def)

lemma rx_view_announce [rx_frame]:
  "\<not> is_receive_event ev \<Longrightarrow> rx_view (announce ev s) = rx_view s"
  "\<not> is_receive_event ev \<Longrightarrow> rx_view (request_reactor ev s) = rx_view s"
  "rx_view (announce_write_queue ty d s) = rx_view s"
  "rx_view (announce_read_queue ty' d s) = rx_view s"
  "rx_view (privateRelaxFlowControl direction d b s) = rx_view s"
  "rx_view (privateApplyFlowControl direction d b s) = rx_view s"
  "rx_view (cancel_sends d cs s) = rx_view s"
  "rx_view (complete_sends cs' s) = rx_view s"
  by (simp_all add: rx_view_def sk_normal)

lemma rx_view_parts [rx_frame]:
  "rx_view (shutdown_system direction s) = rx_view s"
  "rx_view (dispatch_close s) = rx_view s"
  "rx_view (announce_drained s) = rx_view s"
  "rx_view (apply_if_empty s) = rx_view s"
  "rx_view (privateRearmAfterSend s) = rx_view s"
  "rx_view (privateRearmAfterNotification s) = rx_view s"
  "rx_view (refresh_send_buffer n r s) = rx_view s"
  by (simp_all add: shutdown_system_def dispatch_close_def announce_drained_def apply_if_empty_def privateRearmAfterSend_def
      privateRearmAfterNotification_def refresh_send_buffer_def rx_frame Let_def
      split: option.split prod.split)

lemma rx_view_if [rx_frame]: "rx_view (if b then s else t) = (if b then rx_view s else rx_view t)"
  by simp

lemma shutdown_send_part_frame [rx_frame]: "rx_view (shutdown_send_part c d s) = rx_view s"
  unfolding shutdown_send_part_def
  by (simp add: rx_frame split: prod.split) (simp add: rx_frame Let_def)

lemma shutdown_completed_part_frame [rx_frame]: "rx_view (shutdown_completed_part c d s) = rx_view s"
proof -
  define s1 where "s1 = announce (AnnounceShutdown Shutdown_COMPLETE (shutdownOrigin c) d) s"
  define s2 where "s2 = (if sk_reactorPool s1 then request_reactor ReleaseReactor s1 else s1)"
  define s3 where "s3 = (if sk_socket s2
    then emit (if ds_goal (sk_detachState s2) = e_CLOSE then SystemClose else SystemRelease)
           (request_reactor ReleaseHandleReservation s2) else s2)"
  define s4 where "s4 = s3\<lparr>sk_systemHandle := k_INVALID_HANDLE,
                  sk_openState := OpenState_set e_CLOSED (sk_openState s3)\<rparr>"
  define s5 where "s5 = (if sk_manager s4 then emit (AnnounceClosed d) s4 else s4)"
  have "rx_view s1 = rx_view s" "rx_view s2 = rx_view s1" "rx_view s3 = rx_view s2"
      "rx_view s4 = rx_view s3" "rx_view s5 = rx_view s4"
    unfolding s1_def s2_def s3_def s4_def s5_def by (simp_all add: rx_frame)
  moreover have "shutdown_completed_part c d s = (dispatch_close s5)\<lparr>sk_session := False, sk_manager := False\<rparr>"
    unfolding s5_def s4_def s3_def s2_def s1_def by (simp add: shutdown_completed_part_def Let_def)
  ultimately show ?thesis by (simp add: rx_frame)
qed

text \<open>The operations that may fail an assertion: what they return leaves the receive path alone.\<close>

lemma closeFlowControl_frame:
  "privateCloseFlowControl d cb s = Some (b, s') \<Longrightarrow> rx_view s' = rx_view s"
  by (auto simp: privateCloseFlowControl_def rx_frame Let_def bind_eq_Some_iff
      split: prod.splits if_splits)

lemma submit_rate_frame: "submit_rate n s = Some s' \<Longrightarrow> rx_view s' = rx_view s"
  by (auto simp: submit_rate_def rx_frame bind_eq_Some_iff split: option.splits)

lemma throttle_frame:
  "privateThrottleSendBuffer T now s = Some (e, s') \<Longrightarrow> rx_view s' = rx_view s"
  by (auto simp: privateThrottleSendBuffer_def rx_frame bind_eq_Some_iff Let_def
      split: option.splits prod.splits if_splits)

lemma enqueue_frame:
  "enqueue_send_buffer T a n d h s = Some (e, c, s') \<Longrightarrow> rx_view s' = rx_view s"
  by (auto simp: enqueue_send_buffer_def rx_frame bind_eq_Some_iff Let_def
      dest!: throttle_frame submit_rate_frame split: prod.splits if_splits)

lemma start_entry_frame: "start_entry z s = Some (e, s') \<Longrightarrow> rx_view s' = rx_view s"
  by (auto simp: start_entry_def rx_view_def bind_eq_Some_iff Let_def
      split: list.splits prod.splits if_splits)

lemma finish_entry_frame: "finish_entry L e s = Some (r, s') \<Longrightarrow> rx_view s' = rx_view s"
  by (auto simp: finish_entry_def rx_view_def bind_eq_Some_iff)

lemma batch_sent_frame: "batch_sent L z n cs s = Some (cs', s') \<Longrightarrow> rx_view s' = rx_view s"
proof (induction L z n cs s rule: batch_sent.induct)
  case (1 L z n cs s)
  show ?case
  proof (cases "n = 0")
    case True
    with 1(2) show ?thesis by (simp add: batch_sent.simps)
  next
    case False
    note run = 1(2) [unfolded batch_sent.simps [of L z n cs s] if_not_P [OF False]]
    then obtain e s1 where st: "start_entry z s = Some (e, s1)" by (auto simp: bind_eq_Some_iff)
    show ?thesis
    proof (cases "n \<ge> se_length e")
      case True
      with run st obtain due s2 where "finish_entry L e s1 = Some (due, s2)"
        and rest: "batch_sent L z (n - se_length e) (cs @ (case due of None \<Rightarrow> [] | Some c \<Rightarrow> [c])) s2 = Some (cs', s')"
        by (auto simp: bind_eq_Some_iff)
      with 1(1) [OF False st refl True this(1) refl] start_entry_frame [OF st] finish_entry_frame
      show ?thesis by metis
    next
      case False
      with run st start_entry_frame [OF st] show ?thesis
        by (auto simp: bind_eq_Some_iff rx_frame)
    qed
  qed
qed

lemma iteration_batch_frame:
  "privateSocketWritableIterationBatch L T a s = Some (e, s') \<Longrightarrow> rx_view s' = rx_view s"
  by (auto simp: privateSocketWritableIterationBatch_def privateEnqueueSendBuffer_data_def rx_frame
      bind_eq_Some_iff dest!: enqueue_frame batch_sent_frame split: if_splits)

subsection \<open>The invariant of the receive path\<close>

definition blob_content :: "'blob blob_library \<Rightarrow> 'blob \<Rightarrow> bytes" where
  "blob_content L b = concat (blob_data L b)"

fun event_received :: "('blob, 't) socket_event \<Rightarrow> bytes" where
  "event_received (SystemReceive bs) = bs"
| "event_received ev = []"

fun event_delivered :: "'blob blob_library \<Rightarrow> ('blob, 't) socket_event \<Rightarrow> bytes" where
  "event_delivered L (DispatchReceive ty ctx d cb defer) =
     (case d of None \<Rightarrow> [] | Some b \<Rightarrow> blob_content L b)"
| "event_delivered L (ReturnReceive b b') = drop (length (blob_content L b)) (blob_content L b')"
| "event_delivered L ev = []"

fun event_receiver :: "('blob, 't) socket_event \<Rightarrow> callback_ref list" where
  "event_receiver (DispatchReceive ty ctx d cb defer) = [cb]"
| "event_receiver ev = []"

definition received :: "('blob, 't) socket_event list \<Rightarrow> bytes" where
  "received evs = concat (map event_received evs)"

definition delivered :: "'blob blob_library \<Rightarrow> ('blob, 't) socket_event list \<Rightarrow> bytes" where
  "delivered L evs = concat (map (event_delivered L) evs)"

definition receivers :: "('blob, 't) socket_event list \<Rightarrow> callback_ref list" where
  "receivers evs = concat (map event_receiver evs)"

lemma received_simps [simp]:
  "received [] = []" "received (ev # evs) = event_received ev @ received evs"
  "received (evs @ evs') = received evs @ received evs'"
  "delivered L [] = []" "delivered L (ev # evs) = event_delivered L ev @ delivered L evs"
  "delivered L (evs @ evs') = delivered L evs @ delivered L evs'"
  "receivers [] = []" "receivers (ev # evs) = event_receiver ev @ receivers evs"
  "receivers (evs @ evs') = receivers evs @ receivers evs'"
  by (simp_all add: received_def delivered_def receivers_def)

lemma receive_log_reads:
  "received (receive_log evs) = received evs"
  "delivered L (receive_log evs) = delivered L evs"
  "receivers (receive_log evs) = receivers evs"
proof -
  have "\<not> is_receive_event ev \<Longrightarrow> event_received ev = [] \<and> event_delivered L ev = [] \<and> event_receiver ev = []"
    for ev :: "('a, 'b) socket_event" by (cases ev) auto
  then show "received (receive_log evs) = received evs"
    "delivered L (receive_log evs) = delivered L evs" "receivers (receive_log evs) = receivers evs"
    by (induction evs) auto
qed

text \<open>The callback entries that wait: allocated, not dispatched, with a callback and proper sizes.\<close>

definition waiting :: "receive_store \<Rightarrow> nat \<Rightarrow> nat \<Rightarrow> bool" where
  "waiting store k e \<longleftrightarrow>
     e < k \<and> rc_state (store e) \<noteq> e_FINISHED \<and> rc_callback (store e) \<noteq> None \<and>
     receive_options_ok (rc_options (store e))"

abbreviation waiting_entries :: "('blob, 't) StreamSocket \<Rightarrow> nat list" where
  "waiting_entries s \<equiv> rcq_entryList (rq_callbackQueue (sk_receiveQueue s))"

definition feedback_ok :: "ReceiveFeedback \<Rightarrow> bool" where
  "feedback_ok f \<longleftrightarrow> 0 < rf_minimum f \<and> 0 < rf_maximum f \<and> 0 < rf_current f \<and> 0 < rf_decreaseFactor f"

definition rx_inv :: "'blob blob_library \<Rightarrow> ('blob, 't) StreamSocket \<Rightarrow> bool" where
  "rx_inv L s \<longleftrightarrow>
     rq_inv (sk_receiveQueue s) \<and> feedback_ok (sk_receiveFeedback s) \<and> sk_receiveRateLimiter s = None \<and>
     distinct (waiting_entries s) \<and>
     (\<forall>e \<in> set (waiting_entries s). waiting (sk_receiveEntries s) (sk_receiveEntryCount s) e) \<and>
     (\<exists>b. rq_data (sk_receiveQueue s) = Some b \<and> rq_size (sk_receiveQueue s) = blob_length L b \<and>
        received (sk_log s) = delivered L (sk_log s) @ blob_content L b)"

text \<open>The callbacks of receive operations that have been dispatched and those that wait.\<close>

definition receive_callbacks :: "('blob, 't) StreamSocket \<Rightarrow> callback_ref multiset" where
  "receive_callbacks s =
     mset (receivers (sk_log s)) +
     mset (map (\<lambda>e. the (rc_callback (sk_receiveEntries s e))) (waiting_entries s))"

text \<open>No callback waits while there is enough data for it: the first wants more than is queued.\<close>

definition served :: "('blob, 't) StreamSocket \<Rightarrow> bool" where
  "served s \<longleftrightarrow>
     (case waiting_entries s of
        [] \<Rightarrow> True
      | e # es \<Rightarrow> rq_size (sk_receiveQueue s) < ro_minSize (rc_options (sk_receiveEntries s e)))"

text \<open>
  The effect of an operation on the receive path: it accepts the callbacks \<open>cbs\<close> and loses none,
  and it leaves no callback waiting in vain.
\<close>

definition holds ::
  "'blob blob_library \<Rightarrow> callback_ref list \<Rightarrow> ('blob, 't) StreamSocket \<Rightarrow> ('blob, 't) StreamSocket \<Rightarrow> bool"
  where
  "holds L cbs s s' \<longleftrightarrow>
     rx_inv L s' \<and> receive_callbacks s' = receive_callbacks s + mset cbs \<and>
     rf_maximum (sk_receiveFeedback s') = rf_maximum (sk_receiveFeedback s)"

definition takes ::
  "'blob blob_library \<Rightarrow> callback_ref list \<Rightarrow> ('blob, 't) StreamSocket \<Rightarrow> ('blob, 't) StreamSocket \<Rightarrow> bool"
  where
  "takes L cbs s s' \<longleftrightarrow> holds L cbs s s' \<and> (served s \<longrightarrow> served s')"

lemmas takes_defs = takes_def holds_def

lemma holds_trans: "holds L cbs s t \<Longrightarrow> holds L cbs' t u \<Longrightarrow> holds L (cbs @ cbs') s u"
  by (simp add: holds_def)

lemma takes_inv: "takes L cbs s s' \<Longrightarrow> rx_inv L s'"
  by (simp add: takes_defs)

lemma takes_refl: "rx_inv L s \<Longrightarrow> takes L [] s s"
  by (simp add: takes_defs)

lemma takes_trans: "takes L cbs s t \<Longrightarrow> takes L cbs' t u \<Longrightarrow> takes L (cbs @ cbs') s u"
  by (simp add: takes_defs)

lemma takes_then: "takes L cbs s t \<Longrightarrow> takes L [] t u \<Longrightarrow> takes L cbs s u"
  using takes_trans [of L cbs s t "[]" u] by simp

lemma then_takes: "takes L [] s t \<Longrightarrow> takes L cbs t u \<Longrightarrow> takes L cbs s u"
  using takes_trans [of L "[]" s t cbs u] by simp

lemma rx_view_reads:
  assumes "rx_view s' = rx_view s"
  shows "rx_inv L s' \<longleftrightarrow> rx_inv L s" and "receive_callbacks s' = receive_callbacks s"
    and "sk_receiveFeedback s' = sk_receiveFeedback s" and "served s' \<longleftrightarrow> served s"
proof -
  have "receive_log (sk_log s') = receive_log (sk_log s)" using assms by (simp add: rx_view_def)
  then have "received (sk_log s') = received (sk_log s)" "delivered L (sk_log s') = delivered L (sk_log s)"
    "receivers (sk_log s') = receivers (sk_log s)"
    using receive_log_reads by metis+
  with assms show "rx_inv L s' \<longleftrightarrow> rx_inv L s" "receive_callbacks s' = receive_callbacks s"
    "sk_receiveFeedback s' = sk_receiveFeedback s" "served s' \<longleftrightarrow> served s"
    by (auto simp: rx_view_def rx_inv_def receive_callbacks_def served_def split: list.splits)
qed

lemma view_takes:
  assumes "rx_inv L s" and "rx_view s' = rx_view s"
  shows "takes L [] s s'"
  using assms(1) rx_view_reads [OF assms(2)] by (simp add: takes_defs)

lemma takes_view:
  assumes "takes L cbs s t" and "rx_view u = rx_view t"
  shows "takes L cbs s u"
  using assms(1) rx_view_reads [OF assms(2)] by (simp add: takes_defs)

lemma view_then:
  assumes "rx_view t = rx_view s" and "takes L cbs t u"
  shows "takes L cbs s u"
  using assms(2) rx_view_reads(2-4) [OF assms(1)] by (simp add: takes_defs)

subsection \<open>Dispatching a receive operation\<close>

lemma dispatch_waiting:
  assumes "waiting store k e"
  shows "\<exists>ts. receive_events ty ctx d defer (store e) =
     map CloseReceiveDeadline ts @ [DispatchReceive ty ctx d (the (rc_callback (store e))) defer]"
  using assms
  by (cases "rc_timer (store e)")
     (auto simp: receive_events_def ReceiveCallbackQueueEntry_dispatch_def CallbackState_finish_def
      testAndSwap_def waiting_def Let_def intro: exI [of _ "[]"] exI [of _ "[t]" for t])

lemma finish_receive_other: "e \<noteq> e' \<Longrightarrow> finish_receive e store e' = store e'"
  by (simp add: finish_receive_def)

lemma quiet_deadlines [simp]:
  "received (map CloseReceiveDeadline ts) = []" "delivered L (map CloseReceiveDeadline ts) = []"
  "receivers (map CloseReceiveDeadline ts) = []"
  by (induction ts) auto

lemma eof_dispatches:
  assumes "distinct es" and "\<forall>e \<in> set es. waiting store k e" and "evs = eof_events defer es store"
  shows "received evs = [] \<and> delivered L evs = [] \<and>
     receivers evs = map (\<lambda>e. the (rc_callback (store e))) es"
  using assms
proof (induction es arbitrary: store evs)
  case Nil
  then show ?case by simp
next
  case (Cons e es)
  have "waiting store k e" using Cons.prems(2) by simp
  from dispatch_waiting [OF this] obtain ts where
    evs: "evs = map CloseReceiveDeadline ts @
        [DispatchReceive Receive_ERROR (ReceiveContext_init\<lparr>xc_error := E_EOF\<rparr>) None
           (the (rc_callback (store e))) defer] @ eof_events defer es (finish_receive e store)"
    using Cons.prems(3) by (metis append.assoc eof_events.simps(2))
  have other: "finish_receive e store x = store x" if "x \<in> set es" for x
    using that Cons.prems(1) by (auto intro: finish_receive_other)
  then have "\<forall>x \<in> set es. waiting (finish_receive e store) k x"
    using Cons.prems(2) by (simp add: waiting_def)
  from Cons.IH [OF _ this refl] Cons.prems(1) other show ?case by (simp add: evs)
qed

lemma shutdown_receive_part_takes:
  assumes "rx_inv L s"
  shows "takes L [] s (shutdown_receive_part c d s)"
proof -
  define s1 where "s1 = (if sk_receiveRateTimer s
    then (emit CloseReceiveRateTimer s)\<lparr>sk_receiveRateTimer := False\<rparr> else s)"
  define q where "q = (sk_receiveQueue s1)\<lparr>rq_callbackQueue := (rq_callbackQueue (sk_receiveQueue s1))\<lparr>rcq_entryList := []\<rparr>\<rparr>"
  define s2 where "s2 = dispatch_eof d (waiting_entries s1) (s1\<lparr>sk_receiveQueue := q\<rparr>)"
  have v1: "rx_view s1 = rx_view s" by (simp add: s1_def rx_frame)
  note inv = assms [folded rx_view_reads(1) [OF v1, of L]]
  have "distinct (waiting_entries s1)"
    "\<forall>e \<in> set (waiting_entries s1). waiting (sk_receiveEntries s1) (sk_receiveEntryCount s1) e"
    using inv by (auto simp: rx_inv_def)
  note waits = this
  obtain evs where evs: "evs = eof_events d (waiting_entries s1) (sk_receiveEntries s1)"
      "sk_log s2 = sk_log s1 @ evs"
    by (simp add: s2_def dispatch_eof_normal)
  note eof = eof_dispatches [OF waits evs(1)]
  have same: "sk_receiveQueue s2 = q" "sk_receiveFeedback s2 = sk_receiveFeedback s1"
      "sk_receiveRateLimiter s2 = sk_receiveRateLimiter s1"
    by (simp_all add: s2_def dispatch_eof_normal)
  have "rq_inv q" using inv by (simp add: q_def rx_inv_def rq_inv_def)
  then have "takes L [] s1 s2"
    using inv eof
    by (simp add: takes_defs rx_inv_def receive_callbacks_def served_def same evs(2)) (simp add: q_def)
  moreover have "shutdown_receive_part c d s =
      announce (AnnounceShutdown Shutdown_RECEIVE_DONE (shutdownOrigin c) d)
        (announce_read_queue RQ_LOW_WATERMARK d s2)"
    by (simp add: shutdown_receive_part_def s2_def s1_def q_def ReceiveQueue_popAllCallbackEntries_def
        ReceiveCallbackQueue_removeAll_def Let_def)
  ultimately show ?thesis
    using takes_view [OF view_then [OF v1], of L "[]" s2] by (simp add: rx_frame)
qed

subsection \<open>Shutdown, failure and close\<close>

lemma sequenceComplete_frame:
  assumes run: "privateShutdownSequenceComplete c d lock s = Some s'"
  shows "\<exists>t. rx_view t = rx_view s \<and>
     rx_view s' = rx_view (if shutdownReceive c then shutdown_receive_part c d t else t)"
proof -
  obtain s1 where first: "(if lock then
           do { bsls_assert (detaching s);
                Some (s\<lparr>sk_detachState := DetachState_setMode e_IDLE (sk_detachState s)\<rparr>) }
         else do { bsls_assert (\<not> detaching s); Some s }) = Some s1" and v1: "rx_view s1 = rx_view s"
    using run unfolding privateShutdownSequenceComplete_def
    by (cases lock; cases "detaching s") (simp_all add: rx_frame)
  define s2 where "s2 = (if shutdownSend c then shutdown_system Shutdown_SEND s1 else s1)"
  define s3 where "s3 = (if shutdownReceive c then shutdown_system Shutdown_RECEIVE s2 else s2)"
  define s4 where "s4 = (if shutdownInitiated c
    then announce (AnnounceShutdown Shutdown_INITIATED (shutdownOrigin c) d) s3 else s3)"
  define s5 where "s5 = (if shutdownSend c then shutdown_send_part c d s4 else s4)"
  define s6 where "s6 = (if shutdownReceive c then shutdown_receive_part c d s5 else s5)"
  define s7 where "s7 = (if shutdownCompleted c then shutdown_completed_part c d s6 else s6)"
  have "s' = (emit (ExecuteDeferred (sk_deferredCalls s7)) s7)\<lparr>sk_deferredCalls := []\<rparr>"
    using run first
    unfolding privateShutdownSequenceComplete_def s7_def s6_def s5_def s4_def s3_def s2_def
    by (simp only: Let_def Option.bind.bind_lunit option.inject)
  then have v7: "rx_view s' = rx_view s6" by (simp add: s7_def rx_frame)
  have v5: "rx_view s5 = rx_view s" by (simp add: s5_def s4_def s3_def s2_def v1 rx_frame)
  from v5 v7 show ?thesis unfolding s6_def by blast
qed

lemma sequenceComplete_takes:
  assumes inv: "rx_inv L s" and run: "privateShutdownSequenceComplete c d lock s = Some s'"
  shows "takes L [] s s'"
proof -
  obtain t where t: "rx_view t = rx_view s"
      "rx_view s' = rx_view (if shutdownReceive c then shutdown_receive_part c d t else t)"
    using sequenceComplete_frame [OF run] by blast
  have "rx_inv L t" using inv rx_view_reads(1) [OF t(1)] by blast
  then have "takes L [] t (if shutdownReceive c then shutdown_receive_part c d t else t)"
    by (simp add: shutdown_receive_part_takes takes_refl)
  from takes_view [OF view_then [OF t(1) this] t(2)] show ?thesis .
qed

lemma shutdownSequence_takes:
  assumes inv: "rx_inv L s" and run: "privateShutdownSequence c s = Some s'"
  shows "takes L [] s s'"
proof -
  define s3 where "s3 = (let s2 = (if shutdownSend c
      then privateApplyFlowControl FlowControlType.e_SEND True True s else s)
    in if shutdownReceive c then privateApplyFlowControl FlowControlType.e_RECEIVE True True s2 else s2)"
  have v3: "rx_view s3 = rx_view s" by (simp add: s3_def rx_frame Let_def)
  obtain started s1 where s1: "(if shutdownCompleted c
      then privateCloseFlowControl True (c, True) s else Some (False, s3)) = Some (started, s1)"
      "(if \<not> started then privateShutdownSequenceComplete c True False s1 else Some s1) = Some s'"
    using run
    by (cases "shutdownCompleted c") (auto simp: privateShutdownSequence_def s3_def Let_def bind_eq_Some_iff)
  have v1: "rx_view s1 = rx_view s"
    using s1(1) closeFlowControl_frame v3 by (auto split: if_splits)
  have "rx_inv L s1" using inv rx_view_reads(1) [OF v1] by blast
  then have "takes L [] s1 s'"
    using s1(2) sequenceComplete_takes takes_refl by (auto split: if_splits)
  from view_then [OF v1 this] show ?thesis .
qed

lemma changed_takes:
  assumes "rx_inv L s" and "(if changed then privateShutdownSequence c (s\<lparr>sk_shutdownState := d\<rparr>)
      else Some (s\<lparr>sk_shutdownState := d\<rparr>)) = Some s'"
  shows "takes L [] s s'"
proof -
  have v: "rx_view (s\<lparr>sk_shutdownState := d\<rparr>) = rx_view s" by (simp add: rx_frame)
  with assms(1) have "rx_inv L (s\<lparr>sk_shutdownState := d\<rparr>)" using rx_view_reads(1) by blast
  with assms(2) have "takes L [] (s\<lparr>sk_shutdownState := d\<rparr>) s'"
    by (cases changed) (auto intro: shutdownSequence_takes takes_refl)
  from view_then [OF v this] show ?thesis .
qed

lemma shutdownSend_takes:
  assumes "rx_inv L s" and "privateShutdownSend s = Some s'"
  shows "takes L [] s s'"
  using assms(2) changed_takes [OF assms(1)]
  by (fastforce simp: privateShutdownSend_def bind_eq_Some_iff Let_def)

lemma shutdownReceive_takes:
  assumes "rx_inv L s" and "privateShutdownReceive origin s = Some s'"
  shows "takes L [] s s'"
  using assms(2) changed_takes [OF assms(1)]
  by (fastforce simp: privateShutdownReceive_def bind_eq_Some_iff Let_def)

lemma privateShutdown_takes:
  assumes inv: "rx_inv L s" and run: "privateShutdown L0 direction mode d s = Some s'"
  shows "takes L [] s s'"
proof -
  obtain s1 s2 where
    s1: "(if (direction = Shutdown_RECEIVE \<or> direction = Shutdown_BOTH) \<and>
            ShutdownState_canReceive (sk_shutdownState s)
          then privateShutdownReceive e_SOURCE s else Some s) = Some s1" and
    s2: "(if (direction = Shutdown_SEND \<or> direction = Shutdown_BOTH) \<and>
            ShutdownState_canSend (sk_shutdownState s1)
          then (if mode = e_GRACEFUL \<and> SendQueue_hasEntry (sk_sendQueue s1) then
                  let (i, q) = generateEntryId (sk_sendQueue s1) in
                  do { (b, q1) \<leftarrow> SendQueue_pushEntry L0 (setId i SendQueueEntry_init) q;
                       Some (privateRelaxFlowControl FlowControlType.e_SEND d True
                               (s1\<lparr>sk_sendQueue := q1\<rparr>)) }
                else privateShutdownSend s1)
          else Some s1) = Some s2" and
    s': "s' = dispatch_close s2 \<or> s' = s2"
    using run by (auto simp: privateShutdown_def Let_def bind_eq_Some_iff)
  have t1: "takes L [] s s1"
    using s1 inv shutdownReceive_takes takes_refl by (auto split: if_splits)
  have "rx_view s2 = rx_view s1 \<or> privateShutdownSend s1 = Some s2"
    using s2 by (auto simp: bind_eq_Some_iff rx_frame split: if_splits prod.splits)
  then have "takes L [] s1 s2"
    using shutdownSend_takes view_takes takes_inv [OF t1] by blast
  then have "takes L [] s s2" using takes_then [OF t1] by blast
  then show ?thesis using s' takes_view [of L "[]" s s2] by (auto simp: rx_frame)
qed

lemma privateFail_takes:
  assumes inv: "rx_inv L s" and run: "privateFail L0 error s = Some s'"
  shows "takes L [] s s'"
proof -
  define s1 where "s1 = privateApplyFlowControl FlowControlType.e_BOTH False True s"
  define s2 where "s2 = s1\<lparr>sk_flowControlState := FlowControlState_close (sk_flowControlState s1)\<rparr>"
  define s3 where "s3 = announce (AnnounceError error) s2"
  have v: "rx_view s2 = rx_view s" "rx_view s3 = rx_view s"
    by (simp_all add: s3_def s2_def s1_def rx_frame)
  have inv': "rx_inv L s2" "rx_inv L s3" using inv rx_view_reads(1) [OF v(1)] rx_view_reads(1) [OF v(2)] by blast+
  from run consider
      t where "privateShutdownReceive e_REMOTE s2 = Some t" "privateShutdownSend t = Some s'"
    | "privateShutdown L0 Shutdown_BOTH e_IMMEDIATE False s3 = Some s'"
    unfolding s3_def s2_def s1_def by (auto simp: privateFail_def bind_eq_Some_iff Let_def split: if_splits)
  then show ?thesis
  proof cases
    case 1
    have t: "takes L [] s2 t" by (rule shutdownReceive_takes [OF inv'(1) 1(1)])
    from view_then [OF v(1) takes_then [OF t shutdownSend_takes [OF takes_inv [OF t] 1(2)]]] show ?thesis .
  next
    case 2
    from view_then [OF v(2) privateShutdown_takes [OF inv'(2) 2]] show ?thesis .
  qed
qed

lemma privateClose_takes:
  assumes inv: "rx_inv L s" and run: "privateClose L0 cb s = Some s'"
  shows "takes L [] s s'"
proof -
  from run consider cs where "s' = s\<lparr>sk_deferredCalls := cs\<rparr>"
    | "privateShutdown L0 Shutdown_BOTH e_IMMEDIATE True (s\<lparr>sk_closeCallback := cb\<rparr>) = Some s'"
    by (auto simp: privateClose_def split: if_splits)
  then show ?thesis
  proof cases
    case 1
    then show ?thesis using view_takes [OF inv] by (simp add: rx_frame)
  next
    case 2
    have v: "rx_view (s\<lparr>sk_closeCallback := cb\<rparr>) = rx_view s" by (simp add: rx_frame)
    have "rx_inv L (s\<lparr>sk_closeCallback := cb\<rparr>)" using inv rx_view_reads(1) [OF v] by blast
    from view_then [OF v privateShutdown_takes [OF this 2]] show ?thesis .
  qed
qed

lemma shutdown_takes:
  assumes inv: "rx_inv L s" and run: "StreamSocket_shutdown L0 direction mode s = Some s'"
  shows "takes L [] s s'"
  using run privateShutdown_takes [OF inv] view_takes [OF inv]
  by (auto simp: StreamSocket_shutdown_def rx_frame split: if_splits)

lemma detached_takes:
  assumes inv: "rx_inv L s" and run: "processSocketDetached s = Some s'"
  shows "takes L [] s s'"
proof -
  obtain c d where c: "privateShutdownSequenceComplete c d True (s\<lparr>sk_detachCallback := None\<rparr>) = Some s'"
    using run by (auto simp: processSocketDetached_def bind_eq_Some_iff)
  have v: "rx_view (s\<lparr>sk_detachCallback := None\<rparr>) = rx_view s" by (simp add: rx_frame)
  have "rx_inv L (s\<lparr>sk_detachCallback := None\<rparr>)" using inv rx_view_reads(1) [OF v] by blast
  from view_then [OF v sequenceComplete_takes [OF this c]] show ?thesis .
qed

text \<open>A detachment dispatches receivers only if it shuts down the receive direction.\<close>

lemma detached_frame:
  assumes "processSocketDetached s = Some s'" and "sk_detachCallback s = Some (c, d)" and "\<not> shutdownReceive c"
  shows "rx_view s' = rx_view s"
  using assms sequenceComplete_frame [of c d True "s\<lparr>sk_detachCallback := None\<rparr>" s']
  by (auto simp: processSocketDetached_def rx_frame)

subsection \<open>The operations of the send path\<close>

lemma iteration_front_takes:
  assumes inv: "rx_inv L s" and run: "privateSocketWritableIterationFront L0 T a s = Some (e, s')"
  shows "takes L [] s s'"
proof -
  obtain e0 where e0: "SendQueue_frontEntry (sk_sendQueue s) = Some e0"
    using run by (auto simp: privateSocketWritableIterationFront_def bind_eq_Some_iff)
  show ?thesis
  proof (cases "se_data e0")
    case None
    then obtain q s1 where s1: "privateShutdownSend (s\<lparr>sk_sendQueue := q\<rparr>) = Some s1" "s' = apply_if_empty s1"
      using run e0 by (auto simp: privateSocketWritableIterationFront_def bind_eq_Some_iff)
    have v: "rx_view (s\<lparr>sk_sendQueue := q\<rparr>) = rx_view s" by (simp add: rx_frame)
    have "rx_inv L (s\<lparr>sk_sendQueue := q\<rparr>)" using inv rx_view_reads(1) [OF v] by blast
    from takes_view [OF view_then [OF v shutdownSend_takes [OF this s1(1)]]] s1(2) show ?thesis
      by (simp add: rx_frame)
  next
    case (Some d)
    then have "rx_view s' = rx_view s"
      using run e0
      by (auto simp: privateSocketWritableIterationFront_def privateEnqueueSendBuffer_data_def rx_frame
          bind_eq_Some_iff dest!: enqueue_frame start_entry_frame finish_entry_frame split: if_splits)
    with inv show ?thesis by (rule view_takes)
  qed
qed

lemma iteration_takes:
  assumes inv: "rx_inv L s" and run: "privateSocketWritableIteration L0 T n a s = Some (e, s')"
  shows "takes L [] s s'"
proof -
  from run consider "s' = s" | r where "privateSocketWritableIterationBatch L0 T a (s\<lparr>sk_sendData := r\<rparr>) = Some (e, s')"
    | r where "privateSocketWritableIterationFront L0 T a (s\<lparr>sk_sendData := r\<rparr>) = Some (e, s')"
    by (auto simp: privateSocketWritableIteration_def bind_eq_Some_iff Let_def split: if_splits)
  moreover have v: "rx_view (s\<lparr>sk_sendData := r\<rparr>) = rx_view s" for r by (simp add: rx_frame)
  moreover have "rx_inv L (s\<lparr>sk_sendData := r\<rparr>)" for r using inv rx_view_reads(1) [OF v] by blast
  ultimately show ?thesis
    using inv iteration_batch_frame iteration_front_takes view_takes [OF inv] view_then [OF v]
      takes_refl by metis
qed

lemma writable_loop_takes:
  assumes "rx_inv L s" and "writable_loop L0 T n as s = Some (e, s')"
  shows "takes L [] s s'"
  using assms
proof (induction as arbitrary: s)
  case Nil
  then show ?case using takes_refl by (auto split: if_splits)
next
  case (Cons a as)
  show ?case
  proof (cases "SendQueue_hasEntry (sk_sendQueue s)")
    case False
    with Cons.prems takes_refl show ?thesis by auto
  next
    case True
    with Cons.prems(2) obtain e1 s1 where s1: "privateSocketWritableIteration L0 T n a s = Some (e1, s1)"
        "s' = s1 \<or> writable_loop L0 T n as s1 = Some (e, s')"
      by (auto simp: bind_eq_Some_iff split: if_splits)
    have t: "takes L [] s s1" by (rule iteration_takes [OF Cons.prems(1) s1(1)])
    from s1(2) show ?thesis
      using t takes_then [OF t Cons.IH [OF takes_inv [OF t]]] by blast
  qed
qed

lemma writable_takes:
  assumes inv: "rx_inv L s" and run: "processSocketWritable L0 T n as s = Some s'"
  shows "takes L [] s s'"
proof -
  from run consider "s' = s"
    | e s1 where "writable_loop L0 T n as s = Some (e, s1)" "privateFail L0 e s1 = Some s'"
    | e s1 where "writable_loop L0 T n as s = Some (e, s1)" "s' = privateRearmAfterSend s1"
    by (auto simp: processSocketWritable_def bind_eq_Some_iff split: if_splits)
  then show ?thesis
  proof cases
    case 1
    then show ?thesis using takes_refl [OF inv] by simp
  next
    case (2 e s1)
    have t: "takes L [] s s1" by (rule writable_loop_takes [OF inv 2(1)])
    from takes_then [OF t privateFail_takes [OF takes_inv [OF t] 2(2)]] show ?thesis .
  next
    case (3 e s1)
    from takes_view [OF writable_loop_takes [OF inv 3(1)]] 3(2) show ?thesis by (simp add: rx_frame)
  qed
qed

lemma zero_copy_update_frame: "rx_view (privateZeroCopyUpdate ty z s) = rx_view s"
  by (auto simp: privateZeroCopyUpdate_def rx_frame Let_def split: prod.split)

lemma notifications_frame: "rx_view (processNotifications ns s) = rx_view s"
proof -
  have "rx_view (fold (\<lambda>(ty, z) s. privateZeroCopyUpdate ty z s) ns s) = rx_view s" for s
    by (induction ns arbitrary: s) (auto simp: zero_copy_update_frame)
  then show ?thesis by (simp add: processNotifications_def rx_frame)
qed

lemma cancel_frame: "StreamSocket_cancel L0 token s = Some (e, s') \<Longrightarrow> rx_view s' = rx_view s"
  by (auto simp: StreamSocket_cancel_def rx_frame bind_eq_Some_iff Let_def split: option.splits)

lemma send_deadline_frame: "processSendDeadlineTimer L0 i s = Some s' \<Longrightarrow> rx_view s' = rx_view s"
  by (auto simp: processSendDeadlineTimer_def rx_frame bind_eq_Some_iff Let_def split: option.splits)

lemma complete_send_frame: "complete_send push c op st cb z s = Some s' \<Longrightarrow> rx_view s' = rx_view s"
  by (auto simp: complete_send_def rx_frame bind_eq_Some_iff split: option.splits if_splits)

lemma push_zero_copy_frame: "push_zero_copy c d st cb z s = Some s' \<Longrightarrow> rx_view s' = rx_view s"
  by (auto simp: push_zero_copy_def rx_frame bind_eq_Some_iff split: if_splits)

lemma push_send_entry_frame: "push_send_entry L0 a op c e s = Some s' \<Longrightarrow> rx_view s' = rx_view s"
  by (auto simp: push_send_entry_def rx_frame bind_eq_Some_iff Let_def split: option.splits if_splits prod.splits)

lemmas send_frames = enqueue_frame complete_send_frame push_zero_copy_frame push_send_entry_frame

lemma send_raw_frame:
  "privateSendRaw_blob L0 T a b c op st cb s = Some (e, s') \<Longrightarrow> rx_view s' = rx_view s"
  "privateSendRaw_data L0 T a d c op st cb s = Some (e, s') \<Longrightarrow> rx_view s' = rx_view s"
  by (auto simp: privateSendRaw_blob_def privateSendRaw_data_def privateEnqueueSendBuffer_blob_def
      privateEnqueueSendBuffer_data_def bind_eq_Some_iff Let_def dest!: send_frames split: if_splits)

lemma guarded_send_frame:
  assumes "\<And>c st s e s'. raw c st s = Some (e, s') \<Longrightarrow> rx_view s' = rx_view s"
    and "guarded_send raw op s = Some (e, s')"
  shows "rx_view s' = rx_view s"
  using assms(2)
  by (auto simp: guarded_send_def rx_frame Let_def dest!: assms(1) split: if_splits prod.splits)

lemma send_frame:
  "StreamSocket_send_blob L0 T a b op cb s = Some (e, s') \<Longrightarrow> rx_view s' = rx_view s"
  "StreamSocket_send_data L0 T a d op cb s = Some (e, s') \<Longrightarrow> rx_view s' = rx_view s"
  unfolding StreamSocket_send_blob_def StreamSocket_send_data_def
  by (erule guarded_send_frame [rotated], erule send_raw_frame)+

lemma sk_step_takes:
  assumes inv: "rx_inv L s" and run: "sk_step L0 T n x s = Some (ms, s')"
  shows "takes L [] s s'"
proof (cases x)
  case (SkWritable as)
  with run writable_takes [OF inv] show ?thesis by auto
next
  case (SkError e)
  with run privateFail_takes [OF inv] takes_refl [OF inv] show ?thesis
    by (auto simp: processSocketError_def split: if_splits)
next
  case (SkShutdown direction mode)
  with run shutdown_takes [OF inv] show ?thesis by auto
next
  case (SkClose cb)
  with run privateClose_takes [OF inv] show ?thesis by auto
next
  case SkDetached
  with run detached_takes [OF inv] show ?thesis by auto
qed (use run in \<open>auto simp: accepted_def processSendRateTimer_def StreamSocket_relaxFlowControl_def
      StreamSocket_applyFlowControl_def notifications_frame rx_frame Let_def
      intro!: view_takes [OF inv] dest: send_frame cancel_frame send_deadline_frame\<close>)

end
