(* ===== verification/Stream_Reception.thy ===== *)
theory Stream_Reception
  imports Stream_Frames
begin

section \<open>The guarantees of the receive path\<close>

text \<open>
  No assertion of the receive path fails, the bytes handed to receivers followed by those still
  queued are the bytes read from the operating system, and every callback that waits to receive
  is dispatched exactly once.
\<close>

subsection \<open>Incoming blobs\<close>

text \<open>
  The documented behaviour of \<open>bdlbb::Blob\<close> and \<open>bdlbb::BlobUtil\<close> that the receive path relies on.
\<close>

definition incoming_ok :: "'blob blob_library \<Rightarrow> 'blob incoming_library \<Rightarrow> bool" where
  "incoming_ok L I \<longleftrightarrow>
     blob_content L (ib_create I) = [] \<and>
     (\<forall>b. blob_length L b \<le> ib_totalSize I b) \<and>
     (\<forall>b n. ib_totalSize I (ib_appendBuffer I n b) = ib_totalSize I b + n \<and>
        blob_content L (ib_appendBuffer I n b) = blob_content L b) \<and>
     (\<forall>b bs. length bs \<le> ib_totalSize I b - blob_length L b \<longrightarrow>
        blob_content L (ib_fill I bs b) = blob_content L b @ bs) \<and>
     (\<forall>d b n. n \<le> blob_length L b \<longrightarrow>
        blob_content L (ib_append I d b n) = blob_content L d @ take n (blob_content L b))"

lemma content_length: "blob_content_ok L \<Longrightarrow> length (blob_content L b) = blob_length L b"
  by (simp add: blob_content_ok_def blob_content_def)

lemma content_erase:
  "blob_content_ok L \<Longrightarrow> n \<le> blob_length L b \<Longrightarrow>
   blob_content L (blob_erase_front L b n) = drop n (blob_content L b)"
  by (simp add: blob_content_ok_def blob_content_def)

lemma incoming_okD:
  assumes "incoming_ok L I"
  shows "blob_content L (ib_create I) = []" and "blob_length L b \<le> ib_totalSize I b"
    and "ib_totalSize I (ib_appendBuffer I n b) = ib_totalSize I b + n"
    and "blob_content L (ib_appendBuffer I n b) = blob_content L b"
    and "length bs \<le> ib_totalSize I b - blob_length L b \<Longrightarrow>
           blob_content L (ib_fill I bs b) = blob_content L b @ bs"
    and "k \<le> blob_length L b \<Longrightarrow>
           blob_content L (ib_append I d b k) = blob_content L d @ take k (blob_content L b)"
  using assms by (simp_all add: incoming_ok_def)

subsection \<open>Reserving capacity\<close>

text \<open>The room behind the data after an allocation.\<close>

definition reserved_room :: "nat \<Rightarrow> nat \<Rightarrow> nat \<Rightarrow> nat \<Rightarrow> nat \<Rightarrow> nat" where
  "reserved_room n capacity low least most =
     max (capacity - n) (min most (max (min least most) (max capacity low - n)))"

lemma calculate_ok:
  assumes "n \<le> capacity" and "0 < least" and "0 < most"
  shows "calculateNumBytesToAllocate n capacity low least most =
     Some (reserved_room n capacity low least most - (capacity - n))"
    and "reserved_room n capacity low least most - (capacity - n) \<le> most"
    and "min least most \<le> reserved_room n capacity low least most"
proof -
  define lo where "lo = min least most"
  define more where "more = low - capacity"
  define avail where "avail = capacity - n + more"
  have lo: "(if least > most then most else least) = lo" "lo \<le> most" "0 < lo"
    using assms by (auto simp: lo_def)
  have more: "(if low > capacity then low - capacity else 0) = more" by (simp add: more_def)
  have "max capacity low - n = avail" using assms(1) by (auto simp: avail_def more_def max_def)
  then have r: "reserved_room n capacity low least most = max (capacity - n) (min most (max lo avail))"
    by (simp add: reserved_room_def lo_def)
  define x where "x = reserved_room n capacity low least most - (capacity - n)"
  have x: "capacity - n + x = max (capacity - n) (min most (max lo avail))" by (simp add: x_def r)
  show le: "reserved_room n capacity low least most - (capacity - n) \<le> most"
    unfolding r by linarith
  show "min least most \<le> reserved_room n capacity low least most"
    unfolding r using lo(2) unfolding lo_def [symmetric] by linarith
  have one: "capacity - n + x \<ge> 1" unfolding x using lo by linarith
  define t where "t = (if avail < lo then more + (lo - avail) else more)"
  have "(if avail > most then if avail - most > t then 0 else t - (avail - most) else t) = x"
  proof (cases "avail > most")
    case True
    then have "t = more" "max (capacity - n) (min most (max lo avail)) = max (capacity - n) most"
      using lo(2) by (simp_all add: t_def)
    with True x show ?thesis
      by (cases "most \<le> capacity - n") (simp_all add: avail_def, linarith)
  next
    case False
    then have "min most (max lo avail) = max lo avail" using lo(2) by simp
    moreover have "capacity - n \<le> max lo avail" by (simp add: avail_def)
    ultimately have "capacity - n + x = max lo avail" using x by simp
    then show ?thesis using False by (auto simp: t_def avail_def)
  qed
  then show "calculateNumBytesToAllocate n capacity low least most =
     Some (reserved_room n capacity low least most - (capacity - n))"
    using assms one le
    unfolding calculateNumBytesToAllocate_def lo(1) more Let_def avail_def [symmetric] t_def [symmetric]
      x_def [symmetric] by simp
qed

lemma reserve_loop_ok:
  assumes "incoming_ok L I" and "k \<le> got + sum_list buffers"
  shows "\<exists>b'. reserve_loop I buffers got k b = Some b' \<and> blob_content L b' = blob_content L b \<and>
     ib_totalSize I b' + got \<ge> ib_totalSize I b + k \<and> ib_totalSize I b' \<ge> ib_totalSize I b"
  using assms(2)
proof (induction buffers arbitrary: got b)
  case Nil
  then show ?case by (simp add: reserve_loop.simps [of I "[]"])
next
  case (Cons c cs)
  show ?case
  proof (cases "got < k")
    case True
    from Cons.IH [of "got + c" "ib_appendBuffer I c b"] Cons.prems obtain b' where
      "reserve_loop I cs (got + c) k (ib_appendBuffer I c b) = Some b'"
      "blob_content L b' = blob_content L (ib_appendBuffer I c b)"
      "ib_totalSize I b' + (got + c) \<ge> ib_totalSize I (ib_appendBuffer I c b) + k"
      "ib_totalSize I b' \<ge> ib_totalSize I (ib_appendBuffer I c b)" by auto
    with True incoming_okD(3,4) [OF assms(1)] show ?thesis
      by (simp add: reserve_loop.simps [of I "c # cs"])
  next
    case False
    then show ?thesis by (simp add: reserve_loop.simps [of I "c # cs"])
  qed
qed

lemma reserveCapacity_ok:
  assumes L: "blob_content_ok L" and I: "incoming_ok L I" and "0 < least" and "0 < most"
    and room: "most \<le> sum_list buffers"
  shows "\<exists>b'. reserveCapacity L I buffers low least most b = Some b' \<and>
     blob_content L b' = blob_content L b \<and> blob_length L b' = blob_length L b \<and>
     min least most \<le> ib_totalSize I b' - blob_length L b'"
proof -
  note le = incoming_okD(2) [OF I]
  let ?r = "reserved_room (blob_length L b) (ib_totalSize I b) low least most"
  let ?k = "?r - (ib_totalSize I b - blob_length L b)"
  note calc = calculate_ok [OF le assms(3,4), of b low]
  have "?k \<le> 0 + sum_list buffers" using calc(2) room by linarith
  from reserve_loop_ok [OF I this, of b] obtain b' where
    b': "reserve_loop I buffers 0 ?k b = Some b'" "blob_content L b' = blob_content L b"
      "ib_totalSize I b + ?k \<le> ib_totalSize I b'" by auto
  have len: "blob_length L b' = blob_length L b" using b'(2) content_length [OF L] by metis
  moreover have "min least most \<le> ib_totalSize I b' - blob_length L b'"
    using calc(3) b'(3) len le [of b] by linarith
  ultimately show ?thesis using assms(3,4) calc(1) b' by (simp add: reserveCapacity_def)
qed

subsection \<open>Taking data from the receive queue\<close>

text \<open>
  Data taken from the queue: some number of bytes less, the rest of the state as before but for
  handles that were closed.
\<close>

definition quiet_events :: "('blob, 't) socket_event list \<Rightarrow> bool" where
  "quiet_events evs \<longleftrightarrow> dispatched evs = [] \<and> transmissions evs = [] \<and> receive_log evs = []"

definition dequeues :: "nat \<Rightarrow> ('blob, 't) StreamSocket \<Rightarrow> ('blob, 't) StreamSocket \<Rightarrow> bool" where
  "dequeues k s s' \<longleftrightarrow>
     (\<exists>q evs. s' = s\<lparr>sk_receiveQueue := q, sk_log := sk_log s @ evs\<rparr> \<and> quiet_events evs \<and>
        rq_inv q \<and> rq_size q + k = rq_size (sk_receiveQueue s) \<and>
        rq_data q = rq_data (sk_receiveQueue s) \<and>
        rq_callbackQueue q = rq_callbackQueue (sk_receiveQueue s))"

lemma dequeues_trans:
  assumes "dequeues j s t" and "dequeues k t u"
  shows "dequeues (j + k) s u"
proof -
  obtain q evs where 1: "t = s\<lparr>sk_receiveQueue := q, sk_log := sk_log s @ evs\<rparr>" "quiet_events evs"
      "rq_size q + j = rq_size (sk_receiveQueue s)" "rq_data q = rq_data (sk_receiveQueue s)"
      "rq_callbackQueue q = rq_callbackQueue (sk_receiveQueue s)"
    using assms(1) by (auto simp: dequeues_def)
  obtain q' evs' where 2: "u = t\<lparr>sk_receiveQueue := q', sk_log := sk_log t @ evs'\<rparr>" "quiet_events evs'"
      "rq_inv q'" "rq_size q' + k = rq_size (sk_receiveQueue t)" "rq_data q' = rq_data (sk_receiveQueue t)"
      "rq_callbackQueue q' = rq_callbackQueue (sk_receiveQueue t)"
    using assms(2) by (auto simp: dequeues_def)
  have "u = s\<lparr>sk_receiveQueue := q', sk_log := sk_log s @ (evs @ evs')\<rparr>" "quiet_events (evs @ evs')"
    using 1 2 by (auto simp: quiet_events_def)
  moreover have "rq_size q' + (j + k) = rq_size (sk_receiveQueue s)" using 1(1,3) 2(4) by simp
  moreover have "rq_data q' = rq_data (sk_receiveQueue s)"
      "rq_callbackQueue q' = rq_callbackQueue (sk_receiveQueue s)"
    using 1 2 by simp_all
  ultimately show ?thesis unfolding dequeues_def using 2(3) by blast
qed

lemma take_foreign_handle_ok:
  "\<exists>h' evs. take_foreign_handle e h s = (h', s\<lparr>sk_log := sk_log s @ evs\<rparr>) \<and> quiet_events evs"
proof -
  have "take_foreign_handle e h s = (h, s\<lparr>sk_log := sk_log s @ []\<rparr>) \<or>
      (\<exists>x. take_foreign_handle e h s = (h, s\<lparr>sk_log := sk_log s @ [CloseForeignHandle x]\<rparr>)) \<or>
      (\<exists>x. take_foreign_handle e h s = (x, s\<lparr>sk_log := sk_log s @ []\<rparr>))"
    by (auto simp: take_foreign_handle_def emit_def split: option.splits)
  moreover have "quiet_events []" "quiet_events [CloseForeignHandle x]" for x
    by (simp_all add: quiet_events_def)
  ultimately show ?thesis by metis
qed

lemma popEntry_dequeues:
  assumes "rq_inv (sk_receiveQueue s)" and "rq_entryList (sk_receiveQueue s) = e # es"
    and "quiet_events evs"
  shows "\<exists>q. ReceiveQueue_popEntry (sk_receiveQueue s) = Some (es = [], q) \<and> rq_entryList q = es \<and> rq_inv q \<and>
     rq_size q + re_length e = rq_size (sk_receiveQueue s) \<and>
     dequeues (re_length e) s (s\<lparr>sk_log := sk_log s @ evs, sk_receiveQueue := q\<rparr>)"
proof -
  obtain q where q: "ReceiveQueue_popEntry (sk_receiveQueue s) = Some (es = [], q)" "rq_inv q" "rq_entryList q = es"
    using receive_popEntry_ok [OF assms(1,2)] by blast
  then have "rq_size q + re_length e = rq_size (sk_receiveQueue s)"
    using assms(1,2) by (simp add: rq_inv_def)
  moreover have "rq_data q = rq_data (sk_receiveQueue s)"
    using q(1) assms(2)
    by (auto simp: ReceiveQueue_popEntry_def ReceiveQueue_rearm_def Let_def split: if_splits)
  ultimately show ?thesis
    using q assms(3) popEntry_callbackQueue [OF q(1)]
    by (auto simp: dequeues_def intro!: exI [of _ q] exI [of _ evs])
qed

lemma popSize_dequeues:
  assumes "rq_inv (sk_receiveQueue s)" and "rq_entryList (sk_receiveQueue s) = e # es"
    and "k < re_length e" and "quiet_events evs"
  shows "\<exists>q. ReceiveQueue_popSize k (sk_receiveQueue s) = Some q \<and>
     dequeues k s (s\<lparr>sk_log := sk_log s @ evs, sk_receiveQueue := q\<rparr>)"
proof -
  define q where "q = ReceiveQueue_rearm ((sk_receiveQueue s)\<lparr>rq_entryList := e\<lparr>re_length := re_length e - k\<rparr> # es,
      rq_size := rq_size (sk_receiveQueue s) - k\<rparr>)"
  have "rq_size (sk_receiveQueue s) \<ge> re_length e" using assms(1,2) by (simp add: rq_inv_def)
  then have run: "ReceiveQueue_popSize k (sk_receiveQueue s) = Some q"
    and "rq_size q + k = rq_size (sk_receiveQueue s)"
    using assms(2,3) by (simp_all add: ReceiveQueue_popSize_def ReceiveQueueEntry_setLength_def q_def)
  moreover have "rq_inv q" using assms(1-3) by (auto simp: q_def rq_inv_def)
  moreover have "rq_data q = rq_data (sk_receiveQueue s)"
    by (simp add: q_def ReceiveQueue_rearm_def)
  ultimately show ?thesis
    using assms(4) popSize_callbackQueue [OF run]
    by (auto simp: dequeues_def intro!: exI [of _ q] exI [of _ evs])
qed

lemma dequeue_loop_ok:
  assumes "rq_inv (sk_receiveQueue s)" and "d + r = m" and "rq_entryList (sk_receiveQueue s) \<noteq> []"
  shows "\<exists>h' s'. dequeue_loop m r d h s = Some (d + min r (rq_size (sk_receiveQueue s)), h', s') \<and>
     dequeues (min r (rq_size (sk_receiveQueue s))) s s'"
  using assms
proof (induction "rq_entryList (sk_receiveQueue s)" arbitrary: r d h s)
  case Nil
  then show ?case by simp
next
  case (Cons e es)
  note es = Cons.hyps(2) [symmetric]
  obtain h1 evs where f: "take_foreign_handle e h s = (h1, s\<lparr>sk_log := sk_log s @ evs\<rparr>)" "quiet_events evs"
    using take_foreign_handle_ok by blast
  have ge: "re_length e \<le> rq_size (sk_receiveQueue s)" using Cons.prems(1) es by (simp add: rq_inv_def)
  show ?case
  proof (cases "re_length e \<le> r")
    case False
    then have k: "min r (re_length e) = r" "r < re_length e" "min r (rq_size (sk_receiveQueue s)) = r"
      using ge by auto
    obtain q where "ReceiveQueue_popSize r (sk_receiveQueue s) = Some q"
        "dequeues r s (s\<lparr>sk_log := sk_log s @ evs, sk_receiveQueue := q\<rparr>)"
      using popSize_dequeues [OF Cons.prems(1) es k(2) f(2)] by blast
    with k f Cons.prems(2) show ?thesis
      by (simp add: dequeue_loop.simps [of m r d h s] es)
  next
    case True
    then have k: "min r (re_length e) = re_length e" by simp
    obtain q where q: "ReceiveQueue_popEntry (sk_receiveQueue s) = Some (es = [], q)" "rq_entryList q = es"
        "rq_inv q" "rq_size q + re_length e = rq_size (sk_receiveQueue s)"
      and deq: "dequeues (re_length e) s (s\<lparr>sk_log := sk_log s @ evs, sk_receiveQueue := q\<rparr>)"
      using popEntry_dequeues [OF Cons.prems(1) es f(2)] by blast
    define t where "t = s\<lparr>sk_log := sk_log s @ evs, sk_receiveQueue := q\<rparr>"
    have t: "sk_receiveQueue t = q" "rq_inv q" "rq_size q + re_length e = rq_size (sk_receiveQueue s)"
      using q by (auto simp: t_def)
    show ?thesis
    proof (cases "es = [] \<or> r - re_length e = 0")
      case True
      then have "min r (rq_size (sk_receiveQueue s)) = re_length e"
        using t(2,3) q(2) \<open>re_length e \<le> r\<close> by (auto simp: rq_inv_def)
      with True k q(1) f(1) Cons.prems(2) deq \<open>re_length e \<le> r\<close> show ?thesis
        by (auto simp: dequeue_loop.simps [of m r d h s] es Let_def)
    next
      case False
      have "\<exists>h' s'. dequeue_loop m (r - re_length e) (d + re_length e) h1 t =
            Some (d + re_length e + min (r - re_length e) (rq_size q), h', s') \<and>
          dequeues (min (r - re_length e) (rq_size q)) t s'"
        using Cons.hyps(1) [of t "d + re_length e" "r - re_length e" h1] t q(2) False Cons.prems(2) \<open>re_length e \<le> r\<close>
        by auto
      then obtain h' s' where ih: "dequeue_loop m (r - re_length e) (d + re_length e) h1 t =
            Some (d + re_length e + min (r - re_length e) (rq_size q), h', s')"
          "dequeues (min (r - re_length e) (rq_size q)) t s'" by blast
      have "re_length e + min (r - re_length e) (rq_size q) = min r (rq_size (sk_receiveQueue s))"
        using t(3) \<open>re_length e \<le> r\<close> by auto
      moreover have "dequeues (re_length e + min (r - re_length e) (rq_size q)) s s'"
        using dequeues_trans [OF deq [folded t_def] ih(2)] .
      ultimately show ?thesis
        using False k q(1) f(1) ih(1) Cons.prems(2)
        by (simp add: dequeue_loop.simps [of m r d h s] es t_def add.assoc)
    qed
  qed
qed

subsection \<open>What the receive path leaves alone\<close>

definition tx_view ::
  "('blob, 't) StreamSocket \<Rightarrow>
   ('blob SendQueue \<times> 'blob ZeroCopyQueue \<times> u64 \<times> 't RateLimiter option \<times> bool \<times> bool) \<times>
   (ShutdownState \<times> DetachState \<times> (ShutdownContext \<times> bool) option \<times> callback_ref option) \<times>
   callback_ref list \<times> ('blob Data \<times> nat) list" where
  "tx_view s =
     ((sk_sendQueue s, sk_zeroCopyQueue s, send_config s),
      (sk_shutdownState s, sk_detachState s, sk_detachCallback s, sk_closeCallback s),
      dispatched (sk_log s), transmissions (sk_log s))"

lemma tx_view_effect:
  assumes "sk_inv L s" and "tx_view s' = tx_view s"
  shows "effect L [] [] s s'"
  using assms by (intro same_state_effect) (auto simp: tx_view_def same_state_def)

named_theorems tx_frame \<open>operations that leave the send path alone\<close>

lemma tx_view_updates [tx_frame]:
  "tx_view (s\<lparr>sk_receiveQueue := q\<rparr>) = tx_view s"
  "tx_view (s\<lparr>sk_receiveEntries := es\<rparr>) = tx_view s"
  "tx_view (s\<lparr>sk_receiveEntryCount := n\<rparr>) = tx_view s"
  "tx_view (s\<lparr>sk_receiveFeedback := f\<rparr>) = tx_view s"
  "tx_view (s\<lparr>sk_receiveRateLimiter := rl\<rparr>) = tx_view s"
  "tx_view (s\<lparr>sk_receiveRateTimer := b\<rparr>) = tx_view s"
  "tx_view (s\<lparr>sk_totalBytesReceived := n\<rparr>) = tx_view s"
  "tx_view (privateRelaxFlowControl direction d b s) = tx_view s"
  "tx_view (privateApplyFlowControl direction d b s) = tx_view s"
  "tx_view (announce_read_queue ty d s) = tx_view s"
  "tx_view (dispatch_receive rt ctx dat d e s) = tx_view s"
  "tx_view (set_incoming bl s) = tx_view s"
  "event_callback ev = [] \<Longrightarrow> event_transmission ev = [] \<Longrightarrow> tx_view (emit ev s) = tx_view s"
  "event_callback ev = [] \<Longrightarrow> event_transmission ev = [] \<Longrightarrow> tx_view (request_reactor ev s) = tx_view s"
  by (simp_all add: tx_view_def send_config_def sk_normal set_incoming_def)

lemma tx_view_if [tx_frame]: "tx_view (if b then s else t) = (if b then tx_view s else tx_view t)"
  by simp

lemma tx_view_quiet [tx_frame]:
  "quiet_events evs \<Longrightarrow> tx_view (s\<lparr>sk_receiveQueue := q, sk_log := sk_log s @ evs\<rparr>) = tx_view s"
  by (simp add: tx_view_def quiet_events_def send_config_def)

text \<open>The effect of an operation that receives: the send path goes on, and callbacks are taken.\<close>

definition rx_effect ::
  "'blob blob_library \<Rightarrow> callback_ref list \<Rightarrow> ('blob, 't) StreamSocket \<Rightarrow> ('blob, 't) StreamSocket \<Rightarrow> bool"
  where
  "rx_effect L cbs s s' \<longleftrightarrow> effect L [] [] s s' \<and> takes L cbs s s'"

lemma rx_effect_trans:
  "rx_effect L cbs s t \<Longrightarrow> rx_effect L cbs' t u \<Longrightarrow> rx_effect L (cbs @ cbs') s u"
  by (auto simp: rx_effect_def intro: takes_trans effect_then)

lemma rx_effect_then: "rx_effect L cbs s t \<Longrightarrow> rx_effect L [] t u \<Longrightarrow> rx_effect L cbs s u"
  using rx_effect_trans [of L cbs s t "[]" u] by simp

lemma rx_effect_inv: "rx_effect L cbs s s' \<Longrightarrow> sk_inv L s' \<and> rx_inv L s'"
  by (auto simp: rx_effect_def takes_defs intro: effect_inv)

lemma rx_effect_refl: "sk_inv L s \<Longrightarrow> rx_inv L s \<Longrightarrow> rx_effect L [] s s"
  by (simp add: rx_effect_def takes_refl effect_refl)

lemma view_effect:
  assumes "sk_inv L s" and "rx_inv L s" and "tx_view s' = tx_view s" and "rx_view s' = rx_view s"
  shows "rx_effect L [] s s'"
  using tx_view_effect [OF assms(1,3)] view_takes [OF assms(2,4)] by (simp add: rx_effect_def)

lemma shutdownReceive_rx:
  assumes "sk_inv L s" and "rx_inv L s"
  shows "\<exists>s'. privateShutdownReceive origin s = Some s' \<and> rx_effect L [] s s' \<and>
     \<not> ShutdownState_canReceive (sk_shutdownState s')"
  using shutdownReceive_effect [OF assms(1), of origin] shutdownReceive_takes [OF assms(2)]
  by (auto simp: rx_effect_def shuts_down_def)

lemma privateFail_rx:
  assumes "sk_inv L s" and "rx_inv L s"
  shows "\<exists>s'. privateFail L e s = Some s' \<and> rx_effect L [] s s'"
  using privateFail_ok [OF assms(1), of e] privateFail_takes [OF assms(2)]
  by (auto simp: rx_effect_def)

subsection \<open>Handing data to a receiver\<close>

text \<open>The data of a receive operation and the state without it.\<close>

definition hands_out ::
  "'blob blob_library \<Rightarrow> nat \<Rightarrow> bytes \<Rightarrow> ('blob, 't) StreamSocket \<Rightarrow> ('blob, 't) StreamSocket \<Rightarrow> bool" where
  "hands_out L k bs s s' \<longleftrightarrow>
     (\<exists>q evs b b'. s' = s\<lparr>sk_receiveQueue := q, sk_log := sk_log s @ evs\<rparr> \<and> quiet_events evs \<and>
        rq_inv q \<and> rq_callbackQueue q = rq_callbackQueue (sk_receiveQueue s) \<and>
        rq_data (sk_receiveQueue s) = Some b \<and> rq_data q = Some b' \<and>
        rq_size q = blob_length L b' \<and> rq_size q + k = rq_size (sk_receiveQueue s) \<and>
        bs = take k (blob_content L b) \<and> blob_content L b' = drop k (blob_content L b))"

lemma dequeue_data_ok:
  assumes L: "blob_content_ok L" and I: "incoming_ok L I" and inv: "rx_inv L s"
    and ok: "receive_options_ok options" and enough: "ro_minSize options \<le> rq_size (sk_receiveQueue s)"
  shows "\<exists>data h bs s'. dequeue_data L I dst options s = Some (data, h, s') \<and>
     blob_content L data = blob_content L dst @ bs \<and>
     length bs = min (ro_maxSize options) (rq_size (sk_receiveQueue s)) \<and>
     hands_out L (length bs) bs s s'"
proof -
  define k where "k = min (ro_maxSize options) (rq_size (sk_receiveQueue s))"
  obtain b where b: "rq_data (sk_receiveQueue s) = Some b" "rq_size (sk_receiveQueue s) = blob_length L b"
    and q: "rq_inv (sk_receiveQueue s)"
    using inv by (auto simp: rx_inv_def)
  have sizes: "1 \<le> ro_minSize options" "ro_minSize options \<le> ro_maxSize options" "ro_minSize options \<le> k"
    "k \<le> blob_length L b" "k \<le> ro_maxSize options"
    using ok enough b(2) by (auto simp: receive_options_ok_def k_def)
  have ne: "rq_entryList (sk_receiveQueue s) \<noteq> []"
    using q enough sizes(1) by (auto simp: rq_inv_def)
  obtain h s1 where loop: "dequeue_loop (ro_maxSize options) (ro_maxSize options) 0 None s = Some (k, h, s1)"
      "dequeues k s s1"
    using dequeue_loop_ok [OF q _ ne, of 0 "ro_maxSize options" "ro_maxSize options" None] by (auto simp: k_def)
  obtain q1 evs where s1: "s1 = s\<lparr>sk_receiveQueue := q1, sk_log := sk_log s @ evs\<rparr>" "quiet_events evs"
      "rq_inv q1" "rq_size q1 + k = rq_size (sk_receiveQueue s)" "rq_data q1 = rq_data (sk_receiveQueue s)"
      "rq_callbackQueue q1 = rq_callbackQueue (sk_receiveQueue s)"
    using loop(2) by (auto simp: dequeues_def)
  define b' where "b' = blob_erase_front L b k"
  define q2 where "q2 = q1\<lparr>rq_data := Some b'\<rparr>"
  have b': "blob_content L b' = drop k (blob_content L b)"
    using content_erase [OF L sizes(4)] by (simp add: b'_def)
  then have "blob_length L b' = blob_length L b - k"
    using content_length [OF L] by (metis length_drop)
  then have size: "rq_size q2 = blob_length L b'" using s1(4) b(2) by (simp add: q2_def)
  have len: "length (take k (blob_content L b)) = k"
    using sizes(4) content_length [OF L, of b] by simp
  have "rq_inv q2" using s1(3) by (simp add: q2_def rq_inv_def)
  then have "hands_out L k (take k (blob_content L b)) s (s\<lparr>sk_receiveQueue := q2, sk_log := sk_log s @ evs\<rparr>)"
    unfolding hands_out_def using s1 b b' size
    by (intro exI [of _ q2] exI [of _ evs] exI [of _ b] exI [of _ b']) (simp add: q2_def)
  moreover have "dequeue_data L I dst options s =
      Some (ib_append I dst b k, h, s\<lparr>sk_receiveQueue := q2, sk_log := sk_log s @ evs\<rparr>)"
    using b ne sizes loop(1) s1(1,5) size
    by (simp add: dequeue_data_def ReceiveQueue_hasEntry_def ReceiveOptions_minSize_def
        ReceiveOptions_maxSize_def set_incoming_def q2_def b'_def)
  ultimately show ?thesis
    using incoming_okD(6) [OF I sizes(4), of dst] len
    by (intro exI [of _ "ib_append I dst b k"] exI [of _ h] exI [of _ "take k (blob_content L b)"])
       (simp add: k_def)
qed

lemma hands_out_frames:
  assumes "hands_out L k bs s s'"
  shows "tx_view s' = tx_view s" and "waiting_entries s' = waiting_entries s"
    and "sk_receiveEntries s' = sk_receiveEntries s"
  using assms by (auto simp: hands_out_def tx_frame)

text \<open>When the data handed out is delivered, the invariant holds again.\<close>

lemma hands_out_takes:
  assumes inv: "rx_inv L s" and out: "hands_out L k bs s s'"
    and rest: "sk_receiveQueue u = sk_receiveQueue s'" "sk_receiveFeedback u = sk_receiveFeedback s'"
      "sk_receiveRateLimiter u = sk_receiveRateLimiter s'" "sk_receiveEntryCount u = sk_receiveEntryCount s'"
    and entries: "\<And>e. e \<in> set (waiting_entries s) \<Longrightarrow> sk_receiveEntries u e = sk_receiveEntries s' e"
    and log: "sk_log u = sk_log s' @ evs" "received evs = []" "delivered L evs = bs" "receivers evs = cbs"
  shows "takes L cbs s u"
proof -
  obtain q evs0 b b' where s': "s' = s\<lparr>sk_receiveQueue := q, sk_log := sk_log s @ evs0\<rparr>"
      "quiet_events evs0" "rq_inv q" "rq_callbackQueue q = rq_callbackQueue (sk_receiveQueue s)"
      "rq_data (sk_receiveQueue s) = Some b" "rq_data q = Some b'" "rq_size q = blob_length L b'"
      "bs = take k (blob_content L b)" "blob_content L b' = drop k (blob_content L b)"
      "rq_size q + k = rq_size (sk_receiveQueue s)"
    using out unfolding hands_out_def by blast
  have size: "rq_size q \<le> rq_size (sk_receiveQueue s)" using s'(10) by simp
  have quiet: "received evs0 = []" "delivered L evs0 = []" "receivers evs0 = []"
    using s'(2) by (metis quiet_events_def received_simps(1,4,7) receive_log_reads)+
  have same: "\<And>e. e \<in> set (waiting_entries s) \<Longrightarrow> sk_receiveEntries u e = sk_receiveEntries s e"
    using entries s'(1) by simp
  have "received (sk_log u) = delivered L (sk_log u) @ blob_content L b'"
    using inv s' log quiet by (auto simp: rx_inv_def)
  moreover have "\<forall>e \<in> set (waiting_entries s). waiting (sk_receiveEntries u) (sk_receiveEntryCount u) e"
    using inv same s'(1) rest(4) by (auto simp: rx_inv_def waiting_def)
  ultimately have "rx_inv L u"
    using inv s' rest by (simp add: rx_inv_def)
  moreover have "receive_callbacks u = receive_callbacks s + mset cbs"
    using s'(1,4) rest(1) log quiet same
    by (simp add: receive_callbacks_def cong: map_cong)
  moreover have "served s \<longrightarrow> served u"
    using s'(1,4) rest(1) same size
    by (auto simp: served_def split: list.splits)
  ultimately show ?thesis using rest(2) s'(1) by (simp add: takes_defs)
qed

lemma dispatch_log:
  assumes "waiting (sk_receiveEntries s) n e"
  shows "\<exists>ts. sk_log (dispatch_receive ty ctx d defer e s) = sk_log s @ map CloseReceiveDeadline ts @
     [DispatchReceive ty ctx d (the (rc_callback (sk_receiveEntries s e))) defer]"
  using dispatch_waiting [OF assms] by (auto simp: dispatch_receive_normal)

lemma dispatch_takes:
  assumes inv: "rx_inv L s" and out: "hands_out L k bs s s'"
    and data: "(case d of None \<Rightarrow> [] | Some b \<Rightarrow> blob_content L b) = bs"
    and e: "waiting (sk_receiveEntries s) (sk_receiveEntryCount s) e" and new: "e \<notin> set (waiting_entries s)"
  shows "takes L [the (rc_callback (sk_receiveEntries s e))] s (dispatch_receive ty ctx d defer e s')"
proof -
  let ?cb = "the (rc_callback (sk_receiveEntries s e))"
  note same = hands_out_frames(3) [OF out]
  obtain ts where ts: "sk_log (dispatch_receive ty ctx d defer e s') =
      sk_log s' @ map CloseReceiveDeadline ts @ [DispatchReceive ty ctx d ?cb defer]"
    using dispatch_log [of s' _ e] e same by metis
  show ?thesis
    by (rule hands_out_takes [OF inv out _ _ _ _ _ ts])
       (use new data in \<open>auto simp: dispatch_receive_normal intro: finish_receive_other\<close>)
qed

lemma hands_out_none: "rx_inv L s \<Longrightarrow> hands_out L 0 [] s s"
  unfolding hands_out_def rx_inv_def
  by (elim conjE exE, intro exI [of _ "sk_receiveQueue s"] exI [of _ "[]"]) (auto simp: quiet_events_def)

text \<open>An entry taken off the callback queue is still to be dispatched.\<close>

lemma removed_waiting:
  assumes inv: "rx_inv L s" and es: "waiting_entries s = xs @ e # ys" and c: "rcq_entryList c = xs @ ys"
  shows "rx_inv L (s\<lparr>sk_receiveQueue := (sk_receiveQueue s)\<lparr>rq_callbackQueue := c\<rparr>\<rparr>)"
    and "receive_callbacks s = receive_callbacks (s\<lparr>sk_receiveQueue := (sk_receiveQueue s)\<lparr>rq_callbackQueue := c\<rparr>\<rparr>) +
      {#the (rc_callback (sk_receiveEntries s e))#}"
    and "waiting (sk_receiveEntries s) (sk_receiveEntryCount s) e" and "e \<notin> set (rcq_entryList c)"
  using inv es c by (auto simp: rx_inv_def rq_inv_def receive_callbacks_def)

lemma dropped_holds:
  assumes inv: "rx_inv L s" and es: "waiting_entries s = xs @ e # ys" and c: "rcq_entryList c = xs @ ys"
  shows "holds L [] s (dispatch_receive Receive_ERROR ctx None defer e
     (s\<lparr>sk_receiveQueue := (sk_receiveQueue s)\<lparr>rq_callbackQueue := c\<rparr>\<rparr>))"
proof -
  define s1 where "s1 = s\<lparr>sk_receiveQueue := (sk_receiveQueue s)\<lparr>rq_callbackQueue := c\<rparr>\<rparr>"
  note r = removed_waiting [OF assms, folded s1_def]
  have "takes L [the (rc_callback (sk_receiveEntries s1 e))] s1 (dispatch_receive Receive_ERROR ctx None defer e s1)"
    using r(3,4) by (intro dispatch_takes [OF r(1) hands_out_none [OF r(1)]]) (auto simp: s1_def)
  then show ?thesis using r(2) by (simp add: takes_defs s1_def)
qed

subsection \<open>A readable socket\<close>

lemma popCallback_cases:
  assumes inv: "rx_inv L s"
  obtains (none) e where "ReceiveQueue_popCallbackEntry (sk_receiveEntries s) None (sk_receiveQueue s) =
        Some (e, None, sk_receiveQueue s)" "e \<noteq> E_OK" "served s"
  | (some) e es c where "ReceiveQueue_popCallbackEntry (sk_receiveEntries s) None (sk_receiveQueue s) =
        Some (E_OK, Some e, (sk_receiveQueue s)\<lparr>rq_callbackQueue := c\<rparr>)"
      "waiting_entries s = e # es" "rcq_entryList c = es"
      "ro_minSize (rc_options (sk_receiveEntries s e)) \<le> rq_size (sk_receiveQueue s)"
proof (cases "waiting_entries s")
  case Nil
  have "served s" using Nil by (simp add: served_def)
  moreover have "\<exists>e. ReceiveQueue_popCallbackEntry (sk_receiveEntries s) None (sk_receiveQueue s) =
      Some (e, None, sk_receiveQueue s) \<and> e \<noteq> E_OK"
    using Nil by (auto simp: ReceiveQueue_popCallbackEntry_def ReceiveCallbackQueue_pop_def)
  ultimately show ?thesis using none by blast
next
  case (Cons e es)
  have ok: "receive_options_ok (rc_options (sk_receiveEntries s e))" and q: "rq_inv (sk_receiveQueue s)"
    using inv Cons by (auto simp: rx_inv_def waiting_def)
  then have size: "ReceiveOptions_minSize (rc_options (sk_receiveEntries s e)) =
      Some (ro_minSize (rc_options (sk_receiveEntries s e)))"
      "0 < ro_minSize (rc_options (sk_receiveEntries s e))"
    by (auto simp: receive_options_ok_def ReceiveOptions_minSize_def)
  show ?thesis
  proof (cases "ro_minSize (rc_options (sk_receiveEntries s e)) \<le> rq_size (sk_receiveQueue s)")
    case True
    then have "rq_entryList (sk_receiveQueue s) \<noteq> []" using q size by (auto simp: rq_inv_def)
    with True size Cons show ?thesis
      by (intro some [of e "(rq_callbackQueue (sk_receiveQueue s))\<lparr>rcq_entryList := es\<rparr>" es])
         (simp_all add: ReceiveQueue_popCallbackEntry_def ReceiveCallbackQueue_pop_def)
  next
    case False
    then have "\<exists>e. ReceiveQueue_popCallbackEntry (sk_receiveEntries s) None (sk_receiveQueue s) =
        Some (e, None, sk_receiveQueue s) \<and> e \<noteq> E_OK"
      using size Cons by (auto simp: ReceiveQueue_popCallbackEntry_def ReceiveCallbackQueue_pop_def)
    moreover have "served s" using False Cons by (simp add: served_def)
    ultimately show ?thesis using none by blast
  qed
qed

lemma dispatch_receivers_ok:
  assumes L: "blob_content_ok L" and I: "incoming_ok L I" and inv: "rx_inv L s"
  shows "\<exists>s'. dispatch_receivers L I s = Some s' \<and> holds L [] s s' \<and> served s' \<and> tx_view s' = tx_view s"
  using inv
proof (induction "length (waiting_entries s)" arbitrary: s rule: less_induct)
  case less
  from less.prems show ?case
  proof (cases rule: popCallback_cases)
    case (none e)
    then have "dispatch_receivers L I s = Some s" by (simp add: dispatch_receivers.simps [of L I s])
    with none less.prems show ?thesis by (simp add: holds_def)
  next
    case (some e es c)
    define s1 where "s1 = s\<lparr>sk_receiveQueue := (sk_receiveQueue s)\<lparr>rq_callbackQueue := c\<rparr>\<rparr>"
    define options where "options = rc_options (sk_receiveEntries s e)"
    have "waiting_entries s = [] @ e # es" "rcq_entryList c = [] @ es" using some by simp_all
    note r = removed_waiting [OF less.prems this, folded s1_def]
    have ok: "receive_options_ok options" using r(3) by (simp add: waiting_def options_def)
    have enough: "ro_minSize options \<le> rq_size (sk_receiveQueue s1)"
      using some(4) by (simp add: s1_def options_def)
    obtain data h bs s2 where out: "dequeue_data L I (ib_create I) options s1 = Some (data, h, s2)"
        "blob_content L data = blob_content L (ib_create I) @ bs" "hands_out L (length bs) bs s1 s2"
      using dequeue_data_ok [OF L I r(1) ok enough, of "ib_create I"] by blast
    define s3 where "s3 = dispatch_receive Receive_COMPLETE (ReceiveContext_init\<lparr>xc_foreignHandle := h\<rparr>)
      (Some data) False e s2"
    have "takes L [the (rc_callback (sk_receiveEntries s1 e))] s1 s3"
      unfolding s3_def using r(3,4) out(2) incoming_okD(1) [OF I]
      by (intro dispatch_takes [OF r(1) out(3)]) (auto simp: s1_def)
    then have h3: "holds L [] s s3"
      using r(2) by (simp add: takes_defs s1_def)
    have v3: "tx_view s3 = tx_view s"
      using hands_out_frames(1) [OF out(3)] by (simp add: s3_def s1_def tx_frame)
    have "waiting_entries s3 = es"
      using hands_out_frames(2) [OF out(3)] some(3) by (simp add: s3_def dispatch_receive_normal s1_def)
    then have "length (waiting_entries s3) < length (waiting_entries s)" using some(2) by simp
    from less.hyps [OF this] h3 obtain s' where s': "dispatch_receivers L I s3 = Some s'" "holds L [] s3 s'"
        "served s'" "tx_view s' = tx_view s3"
      by (auto simp: holds_def)
    have "dispatch_receivers L I s = dispatch_receivers L I s3"
      using some(1,4) out(1) ok
      by (subst dispatch_receivers.simps)
         (simp add: s1_def [symmetric] s3_def options_def [symmetric] ReceiveOptions_minSize_def receive_options_ok_def)
    with s' h3 v3 show ?thesis using holds_trans [OF h3 s'(2)] by simp
  qed
qed

lemma same_queue_takes:
  assumes "rx_inv L s" and "rq_inv q" and "rq_data q = rq_data (sk_receiveQueue s)"
    and "rq_size q = rq_size (sk_receiveQueue s)"
    and "rq_callbackQueue q = rq_callbackQueue (sk_receiveQueue s)"
  shows "takes L [] s (s\<lparr>sk_receiveQueue := q\<rparr>)"
  using assms by (auto simp: takes_defs rx_inv_def receive_callbacks_def served_def split: list.splits)

lemma same_content_takes:
  assumes "rx_inv L s" and "rq_data (sk_receiveQueue s) = Some b"
    and "blob_content L b' = blob_content L b" and "blob_length L b' = blob_length L b"
  shows "takes L [] s (set_incoming b' s)"
  using assms
  by (auto simp: set_incoming_def takes_defs rx_inv_def rq_inv_def receive_callbacks_def served_def
      split: list.splits)

lemma setFeedback_ok:
  assumes "feedback_ok f"
  shows "\<exists>f'. setFeedback n k f = Some f' \<and> feedback_ok f' \<and> rf_maximum f' = rf_maximum f"
  using assms by (auto simp: feedback_ok_def setFeedback_def setCongestion_def Let_def)

text \<open>What one read from the operating system does: it fails, or it reads at least one byte.\<close>

lemma dequeueRaw_ok:
  assumes L: "blob_content_ok L" and I: "incoming_ok L I" and tx: "sk_inv L s" and rx: "rx_inv L s"
    and b: "rq_data (sk_receiveQueue s) = Some b" and room: "blob_length L b < ib_totalSize I b"
  obtains (failed) e c s' where "privateDequeueReceiveBufferRaw L I T a s = Some (e, c, s')"
      "e \<noteq> E_OK" "rx_effect L [] s s'"
  | (read) c bs b' f s' where "privateDequeueReceiveBufferRaw L I T a s = Some (E_OK, c, s')"
      "s' = (set_incoming b' s)\<lparr>sk_log := sk_log s @ [SystemReceive bs], sk_receiveFeedback := f,
         sk_totalBytesReceived := sk_totalBytesReceived s + length bs\<rparr>"
      "bs \<noteq> []" "rx_bytesReceived c = length bs" "blob_content L b' = blob_content L b @ bs"
      "feedback_ok f" "rf_maximum f = rf_maximum (sk_receiveFeedback s)" "in_error a = E_OK"
proof -
  define bs where "bs = take (min (in_limit a) (ib_totalSize I b - blob_length L b)) (in_bytes a)"
  define b' where "b' = ib_fill I bs b"
  have limiter: "sk_receiveRateLimiter s = None" and fb: "feedback_ok (sk_receiveFeedback s)"
    using rx by (auto simp: rx_inv_def)
  have throttle: "privateThrottleReceiveBuffer T now s = Some (E_OK, s)" for now
    by (simp add: privateThrottleReceiveBuffer_def limiter)
  have "length bs \<le> ib_totalSize I b - blob_length L b" by (simp add: bs_def)
  then have content: "blob_content L b' = blob_content L b @ bs"
    using incoming_okD(5) [OF I] by (simp add: b'_def)
  consider (closed) "\<not> sk_socket s" | (eof) "sk_socket s" "in_error a = E_EOF"
    | (error) "sk_socket s" "in_error a \<noteq> E_OK" "in_error a \<noteq> E_EOF"
    | (ok) "sk_socket s" "in_error a = E_OK" by blast
  then show thesis
  proof cases
    case closed
    then show thesis using failed [of E_INVALID] rx_effect_refl [OF tx rx]
      by (simp add: privateDequeueReceiveBufferRaw_def)
  next
    case eof
    from shutdownReceive_rx [OF tx rx] obtain s' where
      "privateShutdownReceive e_REMOTE s = Some s'" "rx_effect L [] s s'" by blast
    with eof throttle b room show thesis using failed [of E_EOF]
      by (simp add: privateDequeueReceiveBufferRaw_def SocketUtil_receive_def Let_def)
  next
    case error
    with throttle b room show thesis using failed [of "in_error a"] rx_effect_refl [OF tx rx]
      by (simp add: privateDequeueReceiveBufferRaw_def SocketUtil_receive_def Let_def)
  next
    case ok
    let ?n = "min (in_limit a) (ib_totalSize I b - blob_length L b)"
    obtain f where f: "setFeedback ?n (length bs) (sk_receiveFeedback s) = Some f"
        "feedback_ok f" "rf_maximum f = rf_maximum (sk_receiveFeedback s)"
      using setFeedback_ok [OF fb] by blast
    define s3 where "s3 = (emit (SystemReceive bs) (set_incoming b' s))\<lparr>sk_receiveFeedback := f\<rparr>"
    define c where "c = \<lparr>rx_bytesReceivable = ?n, rx_bytesReceived = length bs, rx_foreignHandle = in_foreignHandle a\<rparr>"
    have c: "rx_bytesReceivable c = ?n" "rx_bytesReceived c = length bs" "take ?n (in_bytes a) = bs"
      by (simp_all add: c_def bs_def)
    have receive: "SocketUtil_receive L I a b = (E_OK, c, b')"
      using ok room unfolding SocketUtil_receive_def SystemReceiveContext_init_def b'_def bs_def c_def
      by (simp add: Let_def)
    have run: "privateDequeueReceiveBufferRaw L I T a s =
        (if 0 < length bs
         then Some (E_OK, c, s3\<lparr>sk_totalBytesReceived := sk_totalBytesReceived s3 + length bs\<rparr>)
         else do { s4 \<leftarrow> privateShutdownReceive e_REMOTE s3; Some (E_EOF, c, s4) })"
      unfolding privateDequeueReceiveBufferRaw_def throttle
      using ok b f(1) limiter
      by (simp add: receive c submit_receive_rate_def set_incoming_def emit_def s3_def)
    show thesis
    proof (cases "bs = []")
      case False
      show thesis
        by (rule read [OF run [unfolded if_P [OF False [folded length_greater_0_conv]]] _ False _ content f(2,3)])
           (simp_all add: s3_def emit_def set_incoming_def ok c)
    next
      case True
      have len: "blob_length L b' = blob_length L b"
        using content True content_length [OF L] by (metis append_Nil2)
      have "takes L [] s (set_incoming b' s)"
        using same_content_takes [OF rx b _ len] content True by simp
      moreover have "takes L [] (set_incoming b' s) s3"
        using takes_inv [OF calculation] f(2,3)
        by (auto simp: s3_def True takes_defs rx_inv_def receive_callbacks_def served_def emit_def set_incoming_def
            split: list.splits)
      ultimately have t: "takes L [] s s3" by (rule takes_then)
      have "effect L [] [] s s3" by (rule tx_view_effect [OF tx]) (simp add: s3_def tx_frame)
      with t have s3: "rx_effect L [] s s3" by (simp add: rx_effect_def)
      from shutdownReceive_rx [of L s3] rx_effect_inv [OF s3] obtain s' where
        "privateShutdownReceive e_REMOTE s3 = Some s'" "rx_effect L [] s3 s'" by blast
      with run True rx_effect_then [OF s3] show thesis
        using failed [of E_EOF c] by simp
    qed
  qed
qed

text \<open>A read that succeeds is queued: the data, the size and the entries agree again.\<close>

lemma queued_holds:
  assumes rx: "rx_inv L s" and L: "blob_content_ok L" and b: "rq_data (sk_receiveQueue s) = Some b"
    and content: "blob_content L b' = blob_content L b @ bs" and bs: "bs \<noteq> []"
    and f: "feedback_ok f" "rf_maximum f = rf_maximum (sk_receiveFeedback s)"
    and e: "re_length e = length bs"
    and s1: "s1 = (set_incoming b' s)\<lparr>sk_log := sk_log s @ [SystemReceive bs], sk_receiveFeedback := f,
         sk_totalBytesReceived := n\<rparr>"
  shows "\<exists>w q. ReceiveQueue_pushEntry e (sk_receiveQueue s1) = Some (w, q) \<and>
     holds L [] s (s1\<lparr>sk_receiveQueue := q\<rparr>) \<and> tx_view (s1\<lparr>sk_receiveQueue := q\<rparr>) = tx_view s"
proof -
  have len: "blob_length L b' = blob_length L b + length bs"
    using content content_length [OF L] by (metis length_append)
  define q where "q = (sk_receiveQueue s1)\<lparr>rq_entryList := rq_entryList (sk_receiveQueue s1) @ [e],
    rq_size := rq_size (sk_receiveQueue s1) + re_length e\<rparr>"
  have push: "ReceiveQueue_pushEntry e (sk_receiveQueue s1) = Some (length (rq_entryList q) = 1, q)"
    using e bs by (simp add: ReceiveQueue_pushEntry_def q_def Let_def)
  have q: "rq_inv q" "rq_data q = Some b'" "rq_size q = blob_length L b'"
      "rq_callbackQueue q = rq_callbackQueue (sk_receiveQueue s)"
    using rx e bs b len by (auto simp: q_def s1 set_incoming_def rx_inv_def rq_inv_def)
  have "rx_inv L (s1\<lparr>sk_receiveQueue := q\<rparr>)"
    using rx b f(1) q content by (simp add: s1 set_incoming_def rx_inv_def)
  moreover have "receive_callbacks (s1\<lparr>sk_receiveQueue := q\<rparr>) = receive_callbacks s"
    using q(4) by (simp add: s1 set_incoming_def receive_callbacks_def)
  ultimately have "holds L [] s (s1\<lparr>sk_receiveQueue := q\<rparr>)"
    using f(2) by (simp add: holds_def s1 set_incoming_def)
  moreover have "tx_view (s1\<lparr>sk_receiveQueue := q\<rparr>) = tx_view s"
    by (simp add: s1 tx_view_def set_incoming_def send_config_def)
  ultimately show ?thesis using push by blast
qed

definition room_for :: "'t in_answer \<Rightarrow> ('blob, 't) StreamSocket \<Rightarrow> bool" where
  "room_for a s \<longleftrightarrow> rf_maximum (sk_receiveFeedback s) \<le> sum_list (in_buffers a)"

lemma dequeueBuffer_ok:
  assumes L: "blob_content_ok L" and I: "incoming_ok L I" and tx: "sk_inv L s" and rx: "rx_inv L s"
    and room: "room_for a s"
  shows "\<exists>e c s'. privateDequeueReceiveBuffer L I T a s = Some (e, c, s') \<and> effect L [] [] s s' \<and>
     holds L [] s s' \<and> (if e = E_OK then in_error a = E_OK else takes L [] s s')"
proof -
  obtain b where b: "rq_data (sk_receiveQueue s) = Some b" and fb: "feedback_ok (sk_receiveFeedback s)"
    using rx by (auto simp: rx_inv_def)
  have least: "0 < rf_current (sk_receiveFeedback s)" "0 < rf_maximum (sk_receiveFeedback s)"
    using fb by (auto simp: feedback_ok_def)
  obtain b1 where b1: "reserveCapacity L I (in_buffers a) (rq_watermarkLow (sk_receiveQueue s))
        (rf_current (sk_receiveFeedback s)) (rf_maximum (sk_receiveFeedback s)) b = Some b1"
      "blob_content L b1 = blob_content L b" "blob_length L b1 = blob_length L b"
      "min (rf_current (sk_receiveFeedback s)) (rf_maximum (sk_receiveFeedback s)) \<le> ib_totalSize I b1 - blob_length L b1"
    using reserveCapacity_ok [OF L I least room [unfolded room_for_def]] by blast
  define s1 where "s1 = set_incoming b1 s"
  have t1: "rx_effect L [] s s1"
    unfolding rx_effect_def s1_def using same_content_takes [OF rx b b1(2,3)] tx_view_effect [OF tx]
    by (simp add: tx_frame)
  have b1': "rq_data (sk_receiveQueue s1) = Some b1" "blob_length L b1 < ib_totalSize I b1"
    using b1(4) least by (auto simp: s1_def set_incoming_def)
  note inv1 = rx_effect_inv [OF t1]
  from L I conjunct1 [OF inv1] conjunct2 [OF inv1] b1' show ?thesis
  proof (cases rule: dequeueRaw_ok [where T = T and a = a])
    case (failed e c s')
    from rx_effect_then [OF t1 failed(3)] show ?thesis
      using b b1(1) failed(1,2)
      by (auto simp: privateDequeueReceiveBuffer_def s1_def [symmetric] rx_effect_def takes_def)
  next
    case (read c bs b' f s')
    define e where "e = (let entry = ReceiveQueueEntry_setTimestamp (in_timestamp a)
        (ReceiveQueueEntry_setLength (rx_bytesReceived c) (ReceiveQueueEntry_init :: 'a ReceiveQueueEntry))
      in case rx_foreignHandle c of Some h \<Rightarrow> ReceiveQueueEntry_setForeignHandle h entry | None \<Rightarrow> entry)"
    have e: "re_length e = length bs"
      using read(4) by (simp add: e_def Let_def ReceiveQueueEntry_setTimestamp_def
          ReceiveQueueEntry_setLength_def ReceiveQueueEntry_setForeignHandle_def split: option.split)
    obtain w q where q: "ReceiveQueue_pushEntry e (sk_receiveQueue s') = Some (w, q)"
        "holds L [] s1 (s'\<lparr>sk_receiveQueue := q\<rparr>)" "tx_view (s'\<lparr>sk_receiveQueue := q\<rparr>) = tx_view s1"
      using queued_holds [OF conjunct2 [OF inv1] L b1'(1) read(5,3,6,7) e read(2)] by blast
    have "holds L [] s (s'\<lparr>sk_receiveQueue := q\<rparr>)"
      using holds_trans [OF _ q(2), of "[]" s] t1 by (simp add: rx_effect_def takes_def)
    moreover have "effect L [] [] s (s'\<lparr>sk_receiveQueue := q\<rparr>)"
      using tx_view_effect [OF tx] q(3) by (simp add: s1_def tx_frame)
    moreover have "privateDequeueReceiveBuffer L I T a s = Some (E_OK, c, s'\<lparr>sk_receiveQueue := q\<rparr>)"
      using b b1(1) read(1) q(1) by (simp add: privateDequeueReceiveBuffer_def s1_def [symmetric] e_def Let_def)
    ultimately show ?thesis using read(8) by auto
  qed
qed

lemma authorize_queue:
  assumes "ReceiveQueue_authorizeLowWatermarkEvent q = (w, q') \<or>
    ReceiveQueue_authorizeHighWatermarkEvent q = (w, q')"
  shows "rq_data q' = rq_data q" and "rq_size q' = rq_size q" and "rq_callbackQueue q' = rq_callbackQueue q"
    and "rq_inv q \<Longrightarrow> rq_inv q'"
  using assms by (auto simp: ReceiveQueue_authorizeLowWatermarkEvent_def
      ReceiveQueue_authorizeHighWatermarkEvent_def rq_inv_def split: if_splits)

lemma same_queue_effect:
  assumes "sk_inv L s" and "rx_inv L s" and "rq_inv q" and "rq_data q = rq_data (sk_receiveQueue s)"
    and "rq_size q = rq_size (sk_receiveQueue s)"
    and "rq_callbackQueue q = rq_callbackQueue (sk_receiveQueue s)"
  shows "rx_effect L [] s (s\<lparr>sk_receiveQueue := q\<rparr>)"
  unfolding rx_effect_def using same_queue_takes [OF assms(2-6)] tx_view_effect [OF assms(1)]
  by (simp add: tx_frame)

lemma authorized_effect:
  assumes "sk_inv L s" and "rx_inv L s"
    and "ReceiveQueue_authorizeLowWatermarkEvent (sk_receiveQueue s) = (w, q) \<or>
      ReceiveQueue_authorizeHighWatermarkEvent (sk_receiveQueue s) = (w, q)"
  shows "rx_effect L [] s (s\<lparr>sk_receiveQueue := q\<rparr>)"
  by (rule same_queue_effect [OF assms(1,2)])
     (use assms authorize_queue [OF assms(3)] in \<open>auto simp: rx_inv_def\<close>)

lemma effect_view:
  assumes "rx_effect L cbs s t" and "tx_view u = tx_view t" and "rx_view u = rx_view t"
  shows "rx_effect L cbs s u"
  using rx_effect_then [OF assms(1) view_effect [OF _ _ assms(2,3)]] rx_effect_inv [OF assms(1)] by blast

lemma announce_received_ok:
  assumes "sk_inv L s" and "rx_inv L s"
  shows "rx_effect L [] s (announce_received s)"
proof -
  obtain low q where low: "ReceiveQueue_authorizeLowWatermarkEvent (sk_receiveQueue s) = (low, q)" by fastforce
  define s2 where "s2 = (if low then announce_read_queue RQ_LOW_WATERMARK False (s\<lparr>sk_receiveQueue := q\<rparr>)
    else s\<lparr>sk_receiveQueue := q\<rparr>)"
  obtain high q2 where high: "ReceiveQueue_authorizeHighWatermarkEvent (sk_receiveQueue s2) = (high, q2)"
    by fastforce
  have "rx_effect L [] s (s\<lparr>sk_receiveQueue := q\<rparr>)" using authorized_effect [OF assms] low by blast
  then have e2: "rx_effect L [] s s2" by (rule effect_view) (simp_all add: s2_def tx_frame rx_frame)
  have "rx_effect L [] s2 (s2\<lparr>sk_receiveQueue := q2\<rparr>)"
    using authorized_effect rx_effect_inv [OF e2] high by blast
  from rx_effect_then [OF e2 this] have e3: "rx_effect L [] s (s2\<lparr>sk_receiveQueue := q2\<rparr>)" .
  show ?thesis
    by (rule effect_view [OF e3])
       (simp_all add: announce_received_def low s2_def [symmetric] high, simp_all add: Let_def tx_frame rx_frame)
qed

lemma readableIteration_ok:
  assumes L: "blob_content_ok L" and I: "incoming_ok L I" and tx: "sk_inv L s" and rx: "rx_inv L s"
    and room: "room_for a s"
  shows "\<exists>e s'. privateSocketReadableIteration L I T a s = Some (e, s') \<and> rx_effect L [] s s' \<and>
     (e = E_OK \<longrightarrow> in_error a = E_OK \<and> served s')"
proof (cases "ReceiveQueue_isHighWatermarkViolated (sk_receiveQueue s)")
  case True
  then show ?thesis using rx_effect_refl [OF tx rx] by (simp add: privateSocketReadableIteration_def)
next
  case False
  obtain e c s1 where s1: "privateDequeueReceiveBuffer L I T a s = Some (e, c, s1)" "effect L [] [] s s1"
      "holds L [] s s1" "if e = E_OK then in_error a = E_OK else takes L [] s s1"
    using dequeueBuffer_ok [OF assms] by blast
  show ?thesis
  proof (cases "e = E_OK")
    case no: False
    with False s1 show ?thesis by (simp add: privateSocketReadableIteration_def rx_effect_def)
  next
    case True
    have rx1: "rx_inv L s1" using s1(3) by (simp add: holds_def)
    then obtain b where b: "rq_data (sk_receiveQueue s1) = Some b" "rq_size (sk_receiveQueue s1) = blob_length L b"
      by (auto simp: rx_inv_def)
    obtain s2 where s2: "dispatch_receivers L I s1 = Some s2" "holds L [] s1 s2" "served s2" "tx_view s2 = tx_view s1"
      using dispatch_receivers_ok [OF L I rx1] by blast
    have "effect L [] [] s s2"
      using effect_then [OF s1(2) tx_view_effect [OF effect_inv [OF s1(2)] s2(4)]] .
    then have e2: "rx_effect L [] s s2"
      using holds_trans [OF s1(3) s2(2)] s2(3) by (simp add: rx_effect_def takes_def)
    have e3: "rx_effect L [] s2 (announce_received s2)"
      using announce_received_ok rx_effect_inv [OF e2] by blast
    then have "served (announce_received s2)" using s2(3) by (simp add: rx_effect_def takes_def)
    with rx_effect_then [OF e2 e3] False True s1(1,4) b s2(1) show ?thesis
      by (simp add: privateSocketReadableIteration_def)
  qed
qed

lemma rx_effect_maximum:
  "rx_effect L cbs s s' \<Longrightarrow> rf_maximum (sk_receiveFeedback s') = rf_maximum (sk_receiveFeedback s)"
  by (simp add: rx_effect_def takes_defs)

lemma readable_loop_ok:
  assumes L: "blob_content_ok L" and I: "incoming_ok L I" and tx: "sk_inv L s" and rx: "rx_inv L s"
    and room: "\<forall>a \<in> set as. room_for a s" and stop: "\<exists>a \<in> set as. in_error a \<noteq> E_OK"
  shows "\<exists>e s'. readable_loop L I T as s = Some (e, s') \<and> rx_effect L [] s s'"
  using tx rx room stop
proof (induction as arbitrary: s)
  case Nil
  then show ?case by simp
next
  case (Cons a as)
  obtain e s1 where s1: "privateSocketReadableIteration L I T a s = Some (e, s1)" "rx_effect L [] s s1"
      "e = E_OK \<longrightarrow> in_error a = E_OK"
    using readableIteration_ok [OF L I Cons.prems(1,2), of a T] Cons.prems(3) by auto
  note inv1 = rx_effect_inv [OF s1(2)]
  show ?case
  proof (cases "e = E_OK \<and> sk_receiveGreedily s1 \<and> ShutdownState_canReceive (sk_shutdownState s1)")
    case False
    with s1 show ?thesis by auto
  next
    case True
    have "\<forall>a \<in> set as. room_for a s1"
      using Cons.prems(3) rx_effect_maximum [OF s1(2)] by (simp add: room_for_def)
    moreover have "\<exists>a \<in> set as. in_error a \<noteq> E_OK" using Cons.prems(4) s1(3) True by auto
    ultimately obtain e' s' where "readable_loop L I T as s1 = Some (e', s')" "rx_effect L [] s1 s'"
      using Cons.IH inv1 by blast
    with s1(1) True rx_effect_then [OF s1(2)] show ?thesis by auto
  qed
qed

lemma readable_ok:
  assumes L: "blob_content_ok L" and I: "incoming_ok L I" and tx: "sk_inv L s" and rx: "rx_inv L s"
    and room: "\<forall>a \<in> set as. room_for a s" and stop: "\<exists>a \<in> set as. in_error a \<noteq> E_OK"
  shows "\<exists>s'. processSocketReadable L I T as s = Some s' \<and> rx_effect L [] s s'"
proof (cases "ds_mode (sk_detachState s) = e_INITIATED \<or> \<not> ShutdownState_canReceive (sk_shutdownState s)")
  case True
  then show ?thesis using rx_effect_refl [OF tx rx] by (auto simp: processSocketReadable_def)
next
  case False
  obtain e s1 where s1: "readable_loop L I T as s = Some (e, s1)" "rx_effect L [] s s1"
    using readable_loop_ok [OF assms] by blast
  show ?thesis
  proof (cases "e = E_OK \<or> e = E_WOULD_BLOCK")
    case True
    have "rx_effect L [] s (privateRearmAfterReceive s1)"
      by (rule effect_view [OF s1(2)]) (simp_all add: privateRearmAfterReceive_def tx_frame rx_frame)
    with True False s1(1) show ?thesis by (auto simp: processSocketReadable_def)
  next
    case no: False
    obtain s' where "privateFail L e s1 = Some s'" "rx_effect L [] s1 s'"
      using privateFail_rx rx_effect_inv [OF s1(2)] by blast
    with no False s1(1) rx_effect_then [OF s1(2)] show ?thesis by (auto simp: processSocketReadable_def)
  qed
qed

subsection \<open>Receiving\<close>

lemma receive_ok:
  assumes L: "blob_content_ok L" and I: "incoming_ok L I" and tx: "sk_inv L s" and rx: "rx_inv L s"
    and ok: "receive_options_ok options"
  shows "\<exists>e c data' s'. StreamSocket_receive L I data options s = Some (e, c, data', s') \<and> rx_effect L [] s s'"
proof -
  have min: "ReceiveOptions_minSize options = Some (ro_minSize options)"
    using ok by (simp add: ReceiveOptions_minSize_def receive_options_ok_def)
  consider (closed) "\<not> OpenState_canReceive (sk_openState s)"
    | (eof) "OpenState_canReceive (sk_openState s)" "rq_size (sk_receiveQueue s) = 0"
        "\<not> ShutdownState_canReceive (sk_shutdownState s)"
    | (some) "OpenState_canReceive (sk_openState s)" "ro_minSize options \<le> rq_size (sk_receiveQueue s)"
        "\<not> (rq_size (sk_receiveQueue s) = 0 \<and> \<not> ShutdownState_canReceive (sk_shutdownState s))"
    | (block) "OpenState_canReceive (sk_openState s)" "rq_size (sk_receiveQueue s) < ro_minSize options"
        "\<not> (rq_size (sk_receiveQueue s) = 0 \<and> \<not> ShutdownState_canReceive (sk_shutdownState s))"
    by linarith
  then show ?thesis
  proof cases
    case some
    obtain data1 h bs s1 where s1: "dequeue_data L I data options s = Some (data1, h, s1)"
        "blob_content L data1 = blob_content L data @ bs" "hands_out L (length bs) bs s s1"
      using dequeue_data_ok [OF L I rx ok some(2)] by blast
    define s2 where "s2 = emit (ReturnReceive data data1) s1"
    have "takes L [] s s2"
      by (rule hands_out_takes [OF rx s1(3), where evs = "[ReturnReceive data data1]"])
         (simp_all add: s2_def emit_def s1(2))
    moreover have "effect L [] [] s s2"
      using tx_view_effect [OF tx] hands_out_frames(1) [OF s1(3)] by (simp add: s2_def tx_frame)
    ultimately have "rx_effect L [] s s2" by (simp add: rx_effect_def)
    then have "rx_effect L [] s (relax_if_drained s s2)"
      by (rule effect_view) (simp_all add: relax_if_drained_def tx_frame rx_frame)
    with some min s1(1) show ?thesis by (auto simp: StreamSocket_receive_def s2_def)
  next
    case block
    have "rx_effect L [] s (privateRelaxFlowControl FlowControlType.e_RECEIVE True False s)"
      by (rule effect_view [OF rx_effect_refl [OF tx rx]]) (simp_all add: tx_frame rx_frame)
    with block min show ?thesis by (auto simp: StreamSocket_receive_def)
  qed (use rx_effect_refl [OF tx rx] in \<open>simp_all add: StreamSocket_receive_def\<close>)
qed

lemma created_entry:
  assumes "rx_inv L s" and "receive_options_ok options" and "create_receive_entry (Some cb) options s = (n, s1)"
  shows "takes L [] s s1" and "waiting (sk_receiveEntries s1) (sk_receiveEntryCount s1) n"
    and "rc_callback (sk_receiveEntries s1 n) = Some cb" and "n \<notin> set (waiting_entries s1)"
    and "tx_view s1 = tx_view s" and "sk_receiveQueue s1 = sk_receiveQueue s"
    and "rc_options (sk_receiveEntries s1 n) = options"
proof -
  have old: "e < sk_receiveEntryCount s" if "e \<in> set (waiting_entries s)" for e
    using assms(1) that by (auto simp: rx_inv_def waiting_def)
  have s1: "n = sk_receiveEntryCount s" "s1 = s\<lparr>sk_receiveEntries := (sk_receiveEntries s)
      (n := ReceiveCallbackQueueEntry_init\<lparr>rc_callback := Some cb, rc_options := options\<rparr>),
      sk_receiveEntryCount := n + 1\<rparr>"
    using assms(3) by (auto simp: create_receive_entry_def ReceiveCallbackQueueEntry_assign_def)
  have same: "sk_receiveEntries s1 e = sk_receiveEntries s e" if "e \<in> set (waiting_entries s)" for e
    using old [OF that] by (simp add: s1)
  have "\<forall>e \<in> set (waiting_entries s). waiting (sk_receiveEntries s1) (sk_receiveEntryCount s1) e"
    using same assms(1) by (auto simp: rx_inv_def waiting_def s1)
  then have "rx_inv L s1" using assms(1) by (simp add: rx_inv_def s1)
  moreover have "receive_callbacks s1 = receive_callbacks s"
    using same by (simp add: receive_callbacks_def s1 cong: map_cong)
  moreover have "served s \<longrightarrow> served s1" using same by (auto simp: served_def s1 split: list.splits)
  ultimately show "takes L [] s s1" by (simp add: takes_defs s1)
  show "waiting (sk_receiveEntries s1) (sk_receiveEntryCount s1) n" "rc_callback (sk_receiveEntries s1 n) = Some cb"
      "sk_receiveQueue s1 = sk_receiveQueue s" "rc_options (sk_receiveEntries s1 n) = options"
    using assms(2) by (simp_all add: s1 waiting_def ReceiveCallbackQueueEntry_init_def CallbackState_init_def)
  show "n \<notin> set (waiting_entries s1)" using old by (auto simp: s1)
  show "tx_view s1 = tx_view s" by (simp add: s1 tx_view_def send_config_def)
qed

text \<open>An entry that waits behind the others, and the timer of its deadline.\<close>

lemma pushed_takes:
  assumes rx: "rx_inv L s" and n: "waiting (sk_receiveEntries s) (sk_receiveEntryCount s) n"
    and cb: "rc_callback (sk_receiveEntries s n) = Some cb" and new: "n \<notin> set (waiting_entries s)"
    and "waiting_entries s = [] \<longrightarrow> rq_size (sk_receiveQueue s) < ro_minSize (rc_options (sk_receiveEntries s n))"
  shows "takes L [cb] s (s\<lparr>sk_receiveQueue := snd (ReceiveQueue_pushCallbackEntry n (sk_receiveQueue s))\<rparr>)"
  using assms
  by (auto simp: takes_defs rx_inv_def rq_inv_def receive_callbacks_def served_def
      ReceiveQueue_pushCallbackEntry_def ReceiveCallbackQueue_push_def split: list.splits)

lemma timer_takes:
  assumes rx: "rx_inv L s" and new: "n \<notin> set (waiting_entries s)"
  shows "takes L [] s (s\<lparr>sk_receiveEntries := (sk_receiveEntries s)
     (n := ReceiveCallbackQueueEntry_setTimer t (sk_receiveEntries s n))\<rparr>)" (is "takes L [] s ?s")
proof -
  have same: "sk_receiveEntries ?s e = sk_receiveEntries s e" if "e \<in> set (waiting_entries s)" for e
    using new that by auto
  have "\<forall>e \<in> set (waiting_entries s). waiting (sk_receiveEntries ?s) (sk_receiveEntryCount ?s) e"
    using same rx by (auto simp: rx_inv_def waiting_def)
  then have "rx_inv L ?s" using rx by (simp add: rx_inv_def)
  moreover have "receive_callbacks ?s = receive_callbacks s"
    using same by (simp add: receive_callbacks_def cong: map_cong)
  moreover have "served s \<longrightarrow> served ?s" using same by (auto simp: served_def split: list.splits)
  ultimately show ?thesis by (simp add: takes_defs)
qed

text \<open>The two ways a receive operation goes on: it is dispatched at once, or it waits.\<close>

lemma async_dispatched:
  assumes L: "blob_content_ok L" and I: "incoming_ok L I" and tx: "sk_inv L s" and rx: "rx_inv L s"
    and n: "waiting (sk_receiveEntries s) (sk_receiveEntryCount s) n" "n \<notin> set (waiting_entries s)"
      "rc_callback (sk_receiveEntries s n) = Some cb"
    and ok: "receive_options_ok options" and enough: "ro_minSize options \<le> rq_size (sk_receiveQueue s)"
  shows "\<exists>data h s2. dequeue_data L I (ib_create I) options s = Some (data, h, s2) \<and>
     rx_effect L [cb] s (relax_if_drained s (dispatch_receive Receive_COMPLETE
       (ReceiveContext_init\<lparr>xc_foreignHandle := h\<rparr>) (Some data) (\<not> ro_recurse options) n s2))"
proof -
  obtain data h bs s2 where s2: "dequeue_data L I (ib_create I) options s = Some (data, h, s2)"
      "blob_content L data = blob_content L (ib_create I) @ bs" "hands_out L (length bs) bs s s2"
    using dequeue_data_ok [OF L I rx ok enough] by blast
  define s3 where "s3 = dispatch_receive Receive_COMPLETE (ReceiveContext_init\<lparr>xc_foreignHandle := h\<rparr>)
    (Some data) (\<not> ro_recurse options) n s2"
  have "takes L [the (rc_callback (sk_receiveEntries s n))] s s3"
    unfolding s3_def using n s2(2) incoming_okD(1) [OF I] by (intro dispatch_takes [OF rx s2(3)]) auto
  moreover have "effect L [] [] s s3"
    using tx_view_effect [OF tx] hands_out_frames(1) [OF s2(3)] by (simp add: s3_def tx_frame)
  ultimately have "rx_effect L [cb] s s3" using n(3) by (simp add: rx_effect_def)
  then have "rx_effect L [cb] s (relax_if_drained s s3)"
    by (rule effect_view) (simp_all add: relax_if_drained_def tx_frame rx_frame)
  with s2(1) show ?thesis by (simp add: s3_def)
qed

lemma async_waits:
  assumes tx: "sk_inv L s" and rx: "rx_inv L s"
    and n: "waiting (sk_receiveEntries s) (sk_receiveEntryCount s) n" "n \<notin> set (waiting_entries s)"
      "rc_callback (sk_receiveEntries s n) = Some cb" "rc_options (sk_receiveEntries s n) = options"
    and wait: "waiting_entries s = [] \<longrightarrow> rq_size (sk_receiveQueue s) < ro_minSize options"
    and s2: "s2 = (case ro_deadline options of None \<Rightarrow> s
       | Some deadline \<Rightarrow> emit (ScheduleReceiveDeadline timer deadline)
           (s\<lparr>sk_receiveEntries := (sk_receiveEntries s)
              (n := ReceiveCallbackQueueEntry_setTimer (Some timer) (sk_receiveEntries s n))\<rparr>))"
  shows "rx_effect L [cb] s (privateRelaxFlowControl FlowControlType.e_RECEIVE True False
     (s2\<lparr>sk_receiveQueue := snd (ReceiveQueue_pushCallbackEntry n (sk_receiveQueue s2))\<rparr>))"
proof -
  let ?s3 = "s2\<lparr>sk_receiveQueue := snd (ReceiveQueue_pushCallbackEntry n (sk_receiveQueue s2))\<rparr>"
  let ?t = "s\<lparr>sk_receiveEntries := (sk_receiveEntries s)
            (n := ReceiveCallbackQueueEntry_setTimer (Some timer) (sk_receiveEntries s n))\<rparr>"
  have "rx_effect L [] s ?t"
    unfolding rx_effect_def using timer_takes [OF rx n(2)] tx_view_effect [OF tx] by (simp add: tx_frame)
  then have "rx_effect L [] s (emit (ScheduleReceiveDeadline timer deadline) ?t)" for deadline
    by (rule effect_view) (simp_all add: tx_frame rx_frame)
  then have e2: "rx_effect L [] s s2"
    using rx_effect_refl [OF tx rx] by (simp add: s2 split: option.split)
  have n2: "waiting (sk_receiveEntries s2) (sk_receiveEntryCount s2) n"
      "rc_callback (sk_receiveEntries s2 n) = Some cb" "sk_receiveQueue s2 = sk_receiveQueue s"
      "rc_options (sk_receiveEntries s2 n) = options"
    using n by (auto simp: s2 waiting_def emit_def ReceiveCallbackQueueEntry_setTimer_def split: option.split)
  note inv2 = rx_effect_inv [OF e2]
  have "takes L [cb] s2 ?s3"
    using n(2) wait n2 by (intro pushed_takes [OF conjunct2 [OF inv2]]) auto
  then have "rx_effect L [cb] s2 ?s3"
    unfolding rx_effect_def using tx_view_effect [OF conjunct1 [OF inv2]] by (simp add: tx_frame)
  from rx_effect_trans [OF e2 this] have e3: "rx_effect L [cb] s ?s3" by simp
  show ?thesis by (rule effect_view [OF e3]) (simp_all add: tx_frame rx_frame)
qed

lemma receive_async_ok:
  assumes L: "blob_content_ok L" and I: "incoming_ok L I" and tx: "sk_inv L s" and rx: "rx_inv L s"
    and ok: "receive_options_ok options"
  shows "\<exists>e s'. StreamSocket_receive_async L I timer options (Some cb) s = Some (e, s') \<and>
     rx_effect L (if e = E_OK then [cb] else []) s s'"
proof (cases "OpenState_canReceive (sk_openState s) \<and>
    \<not> (rq_size (sk_receiveQueue s) = 0 \<and> \<not> ShutdownState_canReceive (sk_shutdownState s))")
  case False
  then show ?thesis using rx_effect_refl [OF tx rx] by (auto simp: StreamSocket_receive_async_def)
next
  case True
  then have guards: "\<not> \<not> OpenState_canReceive (sk_openState s)"
    "\<not> (rq_size (sk_receiveQueue s) = 0 \<and> \<not> ShutdownState_canReceive (sk_shutdownState s))" by auto
  have min: "ReceiveOptions_minSize options = Some (ro_minSize options)"
    using ok by (simp add: ReceiveOptions_minSize_def receive_options_ok_def)
  obtain n s1 where s1: "create_receive_entry (Some cb) options s = (n, s1)" by fastforce
  note made = created_entry [OF rx ok s1]
  have e1: "rx_effect L [] s s1" using made(1,5) tx_view_effect [OF tx] by (simp add: rx_effect_def)
  note inv1 = rx_effect_inv [OF e1]
  note run = StreamSocket_receive_async_def [of L I timer options "Some cb" s,
      unfolded if_not_P [OF guards(1)] if_not_P [OF guards(2)] s1 Let_def prod.case]
  define ready where "ready = (if ReceiveQueue_hasCallbackEntry (sk_receiveQueue s1) then Some False
     else do { minSize \<leftarrow> ReceiveOptions_minSize options; Some (rq_size (sk_receiveQueue s1) \<ge> minSize) })"
  have ready: "ready = Some (waiting_entries s1 = [] \<and> ro_minSize options \<le> rq_size (sk_receiveQueue s1))"
    using min by (auto simp: ready_def ReceiveQueue_hasCallbackEntry_def ReceiveCallbackQueue_empty_def)
  show ?thesis
  proof (cases "waiting_entries s1 = [] \<and> ro_minSize options \<le> rq_size (sk_receiveQueue s1)")
    case True
    from async_dispatched [OF L I conjunct1 [OF inv1] conjunct2 [OF inv1] made(2,4,3) ok conjunct2 [OF True]]
    show ?thesis using ready True rx_effect_trans [OF e1]
      unfolding run ready_def [symmetric] by auto
  next
    case False
    then have "waiting_entries s1 = [] \<longrightarrow> rq_size (sk_receiveQueue s1) < ro_minSize options" by auto
    from async_waits [OF conjunct1 [OF inv1] conjunct2 [OF inv1] made(2,4,3,7) this refl]
    show ?thesis using ready False rx_effect_trans [OF e1]
      unfolding run ready_def [symmetric] by auto
  qed
qed

subsection \<open>Timers and cancellation\<close>

text \<open>
  The effect of an operation that gives up on a receive operation: as before, but the next callback
  may be left waiting although there is enough data for it.
\<close>

definition drop_effect ::
  "'blob blob_library \<Rightarrow> callback_ref list \<Rightarrow> ('blob, 't) StreamSocket \<Rightarrow> ('blob, 't) StreamSocket \<Rightarrow> bool"
  where
  "drop_effect L cbs s s' \<longleftrightarrow> effect L [] [] s s' \<and> holds L cbs s s'"

lemma rx_drop_effect: "rx_effect L cbs s s' \<Longrightarrow> drop_effect L cbs s s'"
  by (simp add: rx_effect_def drop_effect_def takes_def)

lemma dropped_effect:
  assumes tx: "sk_inv L s" and rx: "rx_inv L s"
    and r: "remove_first matching (waiting_entries s) = (Some e, es)" and c: "rcq_entryList c = es"
  shows "drop_effect L [] s (dispatch_receive Receive_ERROR ctx None d e
     (s\<lparr>sk_receiveQueue := (sk_receiveQueue s)\<lparr>rq_callbackQueue := c\<rparr>\<rparr>))"
proof -
  obtain xs ys where "waiting_entries s = xs @ e # ys" "es = xs @ ys" using remove_first_Some [OF r] by blast
  with c have "holds L [] s (dispatch_receive Receive_ERROR ctx None d e
     (s\<lparr>sk_receiveQueue := (sk_receiveQueue s)\<lparr>rq_callbackQueue := c\<rparr>\<rparr>))"
    using dropped_holds [OF rx] by blast
  then show ?thesis
    unfolding drop_effect_def using tx_view_effect [OF tx] by (simp add: tx_frame)
qed

lemma receive_deadline_ok:
  assumes tx: "sk_inv L s" and rx: "rx_inv L s"
  shows "drop_effect L [] s (processReceiveDeadlineTimer e s)"
proof (cases "remove_first (\<lambda>target. e = target) (waiting_entries s)")
  case (Pair r es)
  show ?thesis
  proof (cases r)
    case None
    then show ?thesis using Pair rx_effect_refl [OF tx rx, THEN rx_drop_effect]
      by (simp add: processReceiveDeadlineTimer_def ReceiveQueue_removeCallbackEntry_def
          ReceiveCallbackQueue_remove_def)
  next
    case (Some e')
    with Pair have r: "remove_first (\<lambda>target. e = target) (waiting_entries s) = (Some e', es)" by simp
    have "e' = e" using remove_first_Some [OF r] by (auto simp: find_Some_iff)
    with dropped_effect [OF tx rx r, of "(rq_callbackQueue (sk_receiveQueue s))\<lparr>rcq_entryList := es\<rparr>"] r
    show ?thesis
      by (simp add: processReceiveDeadlineTimer_def ReceiveQueue_removeCallbackEntry_def
          ReceiveCallbackQueue_remove_def)
  qed
qed

lemma cancelReceive_ok:
  assumes tx: "sk_inv L s" and rx: "rx_inv L s"
  shows "\<exists>e s'. StreamSocket_cancelReceive token s = Some (e, s') \<and> drop_effect L [] s s'"
proof (cases "remove_first (\<lambda>entry. ro_token (rc_options (sk_receiveEntries s entry)) = Some token) (waiting_entries s)")
  case (Pair r es)
  show ?thesis
  proof (cases r)
    case None
    then show ?thesis using Pair rx_effect_refl [OF tx rx, THEN rx_drop_effect]
      by (simp add: StreamSocket_cancelReceive_def ReceiveQueue_removeCallbackToken_def
          ReceiveCallbackQueue_removeToken_def)
  next
    case (Some e')
    with Pair have r: "remove_first (\<lambda>entry. ro_token (rc_options (sk_receiveEntries s entry)) = Some token)
        (waiting_entries s) = (Some e', es)" by simp
    with dropped_effect [OF tx rx r, of "(rq_callbackQueue (sk_receiveQueue s))\<lparr>rcq_entryList := es\<rparr>"]
    show ?thesis
      by (simp add: StreamSocket_cancelReceive_def ReceiveQueue_removeCallbackToken_def
          ReceiveCallbackQueue_removeToken_def)
  qed
qed

subsection \<open>Watermarks\<close>

lemma sendQueue_effect:
  assumes tx: "sk_inv L s" and rx: "rx_inv L s" and "sq_inv L q"
    and "sq_entryList q = sq_entryList (sk_sendQueue s)"
  shows "rx_effect L [] s (s\<lparr>sk_sendQueue := q\<rparr>)"
proof -
  have "effect L [] [] s (s\<lparr>sk_sendQueue := q\<rparr>)"
    using assms by (auto simp: effect_defs sk_inv_def send_inv_def detach_ok_def all_callbacks_def
        stream_bytes_def held_callbacks_def handed_on_def)
  moreover have "takes L [] s (s\<lparr>sk_sendQueue := q\<rparr>)" by (rule view_takes [OF rx]) (simp add: rx_frame)
  ultimately show ?thesis by (simp add: rx_effect_def)
qed

lemma send_watermark_entries [simp]:
  "sq_entryList (SendQueue_setLowWatermark n q) = sq_entryList q"
  "sq_entryList (SendQueue_setHighWatermark n q) = sq_entryList q"
  "sq_entryList (snd (SendQueue_authorizeLowWatermarkEvent q)) = sq_entryList q"
  "sq_entryList (snd (SendQueue_authorizeHighWatermarkEvent q)) = sq_entryList q"
  by (simp_all add: SendQueue_setLowWatermark_def SendQueue_setHighWatermark_def
      SendQueue_authorizeLowWatermarkEvent_def SendQueue_authorizeHighWatermarkEvent_def split: prod.split)

lemma announced_effect:
  assumes inv: "sk_inv L s \<and> rx_inv L s"
  shows "rx_effect L [] s (announce_drained s)" and "rx_effect L [] s (announce_overfull s)"
proof -
  have q: "sq_inv L (sk_sendQueue s)" using inv by (simp add: sk_inv_def send_inv_def)
  note e = sendQueue_effect [OF conjunct1 [OF inv] conjunct2 [OF inv]]
  have tx: "tx_view (announce_write_queue ty d t) = tx_view t" for ty d and t :: "('a, 'b) StreamSocket"
    by (simp add: tx_view_def send_config_def sk_normal)
  show "rx_effect L [] s (announce_drained s)"
    by (rule effect_view [OF e [OF sq_step_watermarks(3) [OF q]]])
       (simp_all add: announce_drained_def tx tx_frame rx_frame Let_def split: prod.split)
  show "rx_effect L [] s (announce_overfull s)"
    by (rule effect_view [OF e [OF sq_step_watermarks(4) [OF q]]])
       (simp_all add: announce_overfull_def tx tx_frame rx_frame Let_def split: prod.split)
qed

lemma then_announced:
  assumes "rx_effect L [] s t"
  shows "rx_effect L [] s (announce_drained t)" and "rx_effect L [] s (announce_overfull t)"
  using rx_effect_then [OF assms] announced_effect [OF rx_effect_inv [OF assms]] by blast+

lemma write_watermarks_ok:
  assumes tx: "sk_inv L s" and rx: "rx_inv L s"
  shows "rx_effect L [] s (StreamSocket_setWriteQueueLowWatermark n s)"
    and "rx_effect L [] s (StreamSocket_setWriteQueueHighWatermark n s)"
    and "rx_effect L [] s (StreamSocket_setWriteQueueWatermarks n m s)"
proof -
  have q: "sq_inv L (sk_sendQueue s)" using tx by (simp add: sk_inv_def send_inv_def)
  note e = sendQueue_effect [OF tx rx] and w = sq_step_watermarks(1,2)
  show "rx_effect L [] s (StreamSocket_setWriteQueueLowWatermark n s)"
    unfolding StreamSocket_setWriteQueueLowWatermark_def by (intro then_announced e w q) simp
  show "rx_effect L [] s (StreamSocket_setWriteQueueHighWatermark n s)"
    unfolding StreamSocket_setWriteQueueHighWatermark_def by (intro then_announced e w q) simp
  show "rx_effect L [] s (StreamSocket_setWriteQueueWatermarks n m s)"
    unfolding StreamSocket_setWriteQueueWatermarks_def by (intro then_announced e w q) simp
qed

lemma receive_watermark_queue:
  assumes "rq_inv q" and "q' = ReceiveQueue_setLowWatermark n q \<or> q' = ReceiveQueue_setHighWatermark n q"
  shows "rq_inv q'" and "rq_data q' = rq_data q" and "rq_size q' = rq_size q"
    and "rq_callbackQueue q' = rq_callbackQueue q"
  using assms sanitizeIncoming_bounds
  by (auto simp: rq_inv_def ReceiveQueue_setLowWatermark_def ReceiveQueue_setHighWatermark_def split: prod.splits)

lemma read_watermarks_ok:
  assumes tx: "sk_inv L s" and rx: "rx_inv L s"
  shows "rx_effect L [] s (StreamSocket_setReadQueueLowWatermark n s)"
    and "rx_effect L [] s (StreamSocket_setReadQueueHighWatermark n s)"
    and "rx_effect L [] s (StreamSocket_setReadQueueWatermarks n m s)"
proof -
  let ?q = "sk_receiveQueue s"
  have q: "rq_inv ?q" using rx by (simp add: rx_inv_def)
  note low = receive_watermark_queue [OF q disjI1 [OF refl], of n]
    and high = receive_watermark_queue [OF q disjI2 [OF refl], of n]
  note both = receive_watermark_queue [OF low(1) disjI2 [OF refl], of m]
  show "rx_effect L [] s (StreamSocket_setReadQueueLowWatermark n s)"
    by (rule effect_view [OF same_queue_effect [OF tx rx low]])
       (simp_all add: StreamSocket_setReadQueueLowWatermark_def tx_frame rx_frame Let_def)
  show "rx_effect L [] s (StreamSocket_setReadQueueHighWatermark n s)"
    by (rule effect_view [OF same_queue_effect [OF tx rx high]])
       (simp_all add: StreamSocket_setReadQueueHighWatermark_def tx_frame rx_frame Let_def)
  show "rx_effect L [] s (StreamSocket_setReadQueueWatermarks n m s)"
    by (rule effect_view [OF same_queue_effect [OF tx rx both(1)]])
       (simp_all add: StreamSocket_setReadQueueWatermarks_def tx_frame rx_frame Let_def both low)
qed

lemma receiveRateTimer_ok:
  assumes tx: "sk_inv L s" and rx: "rx_inv L s"
  shows "rx_effect L [] s (processReceiveRateTimer s)"
  by (rule effect_view [OF rx_effect_refl [OF tx rx]])
     (simp_all add: processReceiveRateTimer_def tx_frame rx_frame)

lemma no_limiters_ok:
  assumes tx: "sk_inv L s" and rx: "rx_inv L s"
  shows "rx_effect L [] s (StreamSocket_setWriteRateLimiter None s)"
    and "rx_effect L [] s (StreamSocket_setReadRateLimiter None s)"
proof -
  have none: "sk_sendRateLimiter s = None" "sk_receiveRateLimiter s = None"
    using tx rx by (simp_all add: sk_inv_def rx_inv_def)
  then have s: "s\<lparr>sk_sendRateLimiter := None\<rparr> = s" "s\<lparr>sk_receiveRateLimiter := None\<rparr> = s" by simp_all
  have v: "tx_view (t\<lparr>sk_sendRateTimer := b\<rparr>) = tx_view t" for b and t :: "('a, 'b) StreamSocket"
    by (simp add: tx_view_def send_config_def)
  show "rx_effect L [] s (StreamSocket_setWriteRateLimiter None s)"
    by (rule effect_view [OF rx_effect_refl [OF tx rx]])
       (simp_all add: StreamSocket_setWriteRateLimiter_def s v tx_frame rx_frame Let_def)
  show "rx_effect L [] s (StreamSocket_setReadRateLimiter None s)"
    by (rule effect_view [OF rx_effect_refl [OF tx rx]])
       (simp_all add: StreamSocket_setReadRateLimiter_def s tx_frame rx_frame Let_def)
qed

end
