(* ===== verification/Stream_Duplex.thy ===== *)
theory Stream_Duplex
  imports Stream_Reception
begin

section \<open>Runs of a stream socket that sends and receives\<close>

text \<open>
  This theory composes the send path and the receive path of \<open>ntcr::StreamSocket\<close>: it states what
  any interleaving of calls to send and to receive, of readable and writable events, timers,
  cancellations, settings, shutdowns and closes guarantees, and where the receive path falls short.
\<close>

subsection \<open>The calls and events\<close>

datatype ('blob, 't) duplex_op =
    DxSend "('blob, 't) sk_op"
  | DxReadable "'t in_answer list"
  | DxReceive 'blob ReceiveOptions
  | DxReceiveAsync timer_ref ReceiveOptions callback_ref
  | DxCancelReceive u64
  | DxReceiveDeadline nat
  | DxReceiveRateTimer
  | DxSetWriteQueueLowWatermark nat
  | DxSetWriteQueueHighWatermark nat
  | DxSetWriteQueueWatermarks nat nat
  | DxSetReadQueueLowWatermark nat
  | DxSetReadQueueHighWatermark nat
  | DxSetReadQueueWatermarks nat nat
  | DxRemoveWriteRateLimiter
  | DxRemoveReadRateLimiter

text \<open>The output of an operation: a message accepted to send, or a callback accepted to receive.\<close>

datatype 'blob accepted_item = SendItem "'blob message" | ReceiveItem callback_ref

fun duplex_step ::
  "'blob blob_library \<Rightarrow> 'blob incoming_library \<Rightarrow> 't time_library \<Rightarrow> nat \<Rightarrow> ('blob, 't) duplex_op \<Rightarrow>
   ('blob, 't) StreamSocket \<Rightarrow> ('blob accepted_item list \<times> ('blob, 't) StreamSocket) option" where
  "duplex_step L I T perSend (DxSend x) s =
     map_option (\<lambda>(ms, s'). (map SendItem ms, s')) (sk_step L T perSend x s)"
| "duplex_step L I T perSend (DxReadable as) s =
     map_option (Pair []) (processSocketReadable L I T as s)"
| "duplex_step L I T perSend (DxReceive data options) s =
     map_option (\<lambda>(error, c, data', s'). ([], s')) (StreamSocket_receive L I data options s)"
| "duplex_step L I T perSend (DxReceiveAsync timer options cb) s =
     map_option (\<lambda>(error, s'). (if error = E_OK then [ReceiveItem cb] else [], s'))
       (StreamSocket_receive_async L I timer options (Some cb) s)"
| "duplex_step L I T perSend (DxCancelReceive token) s =
     map_option (\<lambda>(error, s'). ([], s')) (StreamSocket_cancelReceive token s)"
| "duplex_step L I T perSend (DxReceiveDeadline entry) s =
     Some ([], processReceiveDeadlineTimer entry s)"
| "duplex_step L I T perSend DxReceiveRateTimer s = Some ([], processReceiveRateTimer s)"
| "duplex_step L I T perSend (DxSetWriteQueueLowWatermark n) s =
     Some ([], StreamSocket_setWriteQueueLowWatermark n s)"
| "duplex_step L I T perSend (DxSetWriteQueueHighWatermark n) s =
     Some ([], StreamSocket_setWriteQueueHighWatermark n s)"
| "duplex_step L I T perSend (DxSetWriteQueueWatermarks n m) s =
     Some ([], StreamSocket_setWriteQueueWatermarks n m s)"
| "duplex_step L I T perSend (DxSetReadQueueLowWatermark n) s =
     Some ([], StreamSocket_setReadQueueLowWatermark n s)"
| "duplex_step L I T perSend (DxSetReadQueueHighWatermark n) s =
     Some ([], StreamSocket_setReadQueueHighWatermark n s)"
| "duplex_step L I T perSend (DxSetReadQueueWatermarks n m) s =
     Some ([], StreamSocket_setReadQueueWatermarks n m s)"
| "duplex_step L I T perSend DxRemoveWriteRateLimiter s =
     Some ([], StreamSocket_setWriteRateLimiter None s)"
| "duplex_step L I T perSend DxRemoveReadRateLimiter s =
     Some ([], StreamSocket_setReadRateLimiter None s)"

text \<open>
  What the surroundings owe, beside what the send path asks for: the operating system does not have
  data to read without end, the factory has buffers for one read, and the sizes of a
  receive operation are at least one and in order.
\<close>

fun duplex_permitted :: "'blob blob_library \<Rightarrow> ('blob, 't) duplex_op \<Rightarrow> ('blob, 't) StreamSocket \<Rightarrow> bool" where
  "duplex_permitted L (DxSend x) s \<longleftrightarrow> sk_permitted L x s"
| "duplex_permitted L (DxReadable as) s \<longleftrightarrow>
     (\<exists>a \<in> set as. in_error a \<noteq> E_OK) \<and> (\<forall>a \<in> set as. room_for a s)"
| "duplex_permitted L (DxReceive data options) s \<longleftrightarrow> receive_options_ok options"
| "duplex_permitted L (DxReceiveAsync timer options cb) s \<longleftrightarrow> receive_options_ok options"
| "duplex_permitted L _ s \<longleftrightarrow> True"

fun duplex_held_once :: "'blob blob_library \<Rightarrow> ('blob, 't) duplex_op \<Rightarrow> ('blob, 't) StreamSocket \<Rightarrow> bool" where
  "duplex_held_once L (DxSend x) s \<longleftrightarrow> sk_held_once L x s"
| "duplex_held_once L _ s \<longleftrightarrow> True"

fun duplex_removes :: "('blob, 't) duplex_op \<Rightarrow> bool" where
  "duplex_removes (DxSend x) \<longleftrightarrow> sk_removes x"
| "duplex_removes _ \<longleftrightarrow> False"

text \<open>The operations that give up on a receive operation.\<close>

fun duplex_drops :: "('blob, 't) duplex_op \<Rightarrow> bool" where
  "duplex_drops (DxCancelReceive token) \<longleftrightarrow> True"
| "duplex_drops (DxReceiveDeadline entry) \<longleftrightarrow> True"
| "duplex_drops _ \<longleftrightarrow> False"

fun item_message :: "'blob accepted_item \<Rightarrow> 'blob message list" where
  "item_message (SendItem m) = [m]"
| "item_message (ReceiveItem cb) = []"

fun item_receiver :: "'blob accepted_item \<Rightarrow> callback_ref list" where
  "item_receiver (SendItem m) = []"
| "item_receiver (ReceiveItem cb) = [cb]"

definition sent_messages :: "'blob accepted_item list \<Rightarrow> 'blob message list" where
  "sent_messages xs = concat (map item_message xs)"

definition accepted_receivers :: "'blob accepted_item list \<Rightarrow> callback_ref list" where
  "accepted_receivers xs = concat (map item_receiver xs)"

lemma items_simps [simp]:
  "sent_messages [] = []" "sent_messages (x # xs) = item_message x @ sent_messages xs"
  "sent_messages (xs @ ys) = sent_messages xs @ sent_messages ys"
  "accepted_receivers [] = []" "accepted_receivers (x # xs) = item_receiver x @ accepted_receivers xs"
  "accepted_receivers (xs @ ys) = accepted_receivers xs @ accepted_receivers ys"
  "sent_messages (map SendItem ms) = ms" "accepted_receivers (map SendItem ms) = []"
  by (simp_all add: sent_messages_def accepted_receivers_def comp_def)

subsection \<open>Every step keeps both invariants\<close>

definition duplex_ok ::
  "'blob blob_library \<Rightarrow> bool \<Rightarrow> bool \<Rightarrow> bool \<Rightarrow> ('blob, 't) StreamSocket \<Rightarrow>
   ('blob accepted_item list \<times> ('blob, 't) StreamSocket) option \<Rightarrow> bool" where
  "duplex_ok L once streaming serving s r \<longleftrightarrow>
     (\<exists>xs s'. r = Some (xs, s') \<and> sk_inv L s' \<and> holds L (accepted_receivers xs) s s' \<and>
        (serving \<longrightarrow> served s \<longrightarrow> served s') \<and>
        (once \<longrightarrow> keeps L (message_callbacks (sent_messages xs)) s s') \<and>
        (streaming \<longrightarrow> streams L (message_bytes L (sent_messages xs)) s s'))"

lemma duplex_ok_effect:
  "rx_effect L [] s t \<Longrightarrow> duplex_ok L True True True s (Some ([], t))"
  "rx_effect L [cb] s t \<Longrightarrow> duplex_ok L True True True s (Some ([ReceiveItem cb], t))"
  "drop_effect L [] s t \<Longrightarrow> duplex_ok L True True False s (Some ([], t))"
  by (auto simp: duplex_ok_def rx_effect_def drop_effect_def takes_def effect_def effect_inv)

lemma duplex_ok_send:
  assumes "step_ok L once streaming s r" and "rx_inv L s"
    and "\<And>ms s'. r = Some (ms, s') \<Longrightarrow> takes L [] s s'"
  shows "duplex_ok L once streaming serving s (map_option (\<lambda>(ms, s'). (map SendItem ms, s')) r)"
  using assms by (fastforce simp: step_ok_def duplex_ok_def takes_def)

lemma duplex_step_ok:
  assumes L: "blob_content_ok L" and I: "incoming_ok L I" and tx: "sk_inv L s" and rx: "rx_inv L s"
    and p: "duplex_permitted L x s"
  shows "duplex_ok L (duplex_held_once L x s) (\<not> duplex_removes x) (\<not> duplex_drops x) s
     (duplex_step L I T perSend x s)"
proof (cases x)
  case (DxSend y)
  with p have "step_ok L (sk_held_once L y s) (\<not> sk_removes y) s (sk_step L T perSend y s)"
    using sk_step_ok [OF L tx] by simp
  from duplex_ok_send [OF this rx sk_step_takes [OF rx]] DxSend show ?thesis by simp
next
  case (DxReadable as)
  with p readable_ok [OF L I tx rx, of as T] show ?thesis by (auto intro: duplex_ok_effect)
next
  case (DxReceive data options)
  with p receive_ok [OF L I tx rx, of options data] show ?thesis by (auto intro: duplex_ok_effect)
next
  case (DxReceiveAsync timer options cb)
  with p receive_async_ok [OF L I tx rx, of options timer cb] obtain e s' where
    "StreamSocket_receive_async L I timer options (Some cb) s = Some (e, s')"
    "rx_effect L (if e = E_OK then [cb] else []) s s'" by auto
  with DxReceiveAsync show ?thesis by (cases "e = E_OK") (simp_all add: duplex_ok_effect)
next
  case (DxCancelReceive token)
  with cancelReceive_ok [OF tx rx, of token] show ?thesis by (auto intro: duplex_ok_effect)
qed (simp_all add: duplex_ok_effect receive_deadline_ok [OF tx rx] receiveRateTimer_ok [OF tx rx]
    write_watermarks_ok [OF tx rx] read_watermarks_ok [OF tx rx] no_limiters_ok [OF tx rx])

definition duplex_inv :: "'blob blob_library \<Rightarrow> 'blob incoming_library \<Rightarrow> ('blob, 't) StreamSocket \<Rightarrow> bool" where
  "duplex_inv L I s \<longleftrightarrow> blob_content_ok L \<and> incoming_ok L I \<and> sk_inv L s \<and> rx_inv L s"

lemma duplex_inv_step:
  assumes "duplex_inv L I s" and "duplex_permitted L x s"
  shows "\<exists>xs t. duplex_step L I T perSend x s = Some (xs, t) \<and> duplex_inv L I t \<and>
     holds L (accepted_receivers xs) s t \<and> (\<not> duplex_drops x \<longrightarrow> served s \<longrightarrow> served t) \<and>
     (duplex_held_once L x s \<longrightarrow> keeps L (message_callbacks (sent_messages xs)) s t) \<and>
     (\<not> duplex_removes x \<longrightarrow> streams L (message_bytes L (sent_messages xs)) s t)"
proof -
  have inv: "blob_content_ok L" "incoming_ok L I" "sk_inv L s" "rx_inv L s"
    using assms(1) by (simp_all add: duplex_inv_def)
  from duplex_step_ok [OF inv assms(2), of T perSend] inv(1,2) show ?thesis
    unfolding duplex_ok_def duplex_inv_def holds_def by blast
qed

interpretation duplex_receivers: history_component
  "duplex_permitted L" "duplex_step L I T perSend" "duplex_inv L I"
  "\<lambda>xs. holds L (accepted_receivers xs)"
  for L I T perSend
proof (unfold_locales, goal_cases)
  case (3 s x)
  then show ?case using duplex_inv_step [of L I s x T perSend] by blast
qed (auto simp: holds_def duplex_inv_def)

interpretation duplex_serving: history_component
  "\<lambda>x s. duplex_permitted L x s \<and> \<not> duplex_drops x" "duplex_step L I T perSend" "duplex_inv L I"
  "\<lambda>xs s t. served s \<longrightarrow> served t"
  for L I T perSend
proof (unfold_locales, goal_cases)
  case (3 s x)
  then show ?case using duplex_inv_step [of L I s x T perSend] by blast
qed auto

interpretation duplex_callbacks: history_component
  "\<lambda>x s. duplex_permitted L x s \<and> duplex_held_once L x s" "duplex_step L I T perSend" "duplex_inv L I"
  "\<lambda>xs. keeps L (message_callbacks (sent_messages xs))"
  for L I T perSend
proof (unfold_locales, goal_cases)
  case (3 s x)
  then show ?case using duplex_inv_step [of L I s x T perSend] by blast
qed (auto simp: keeps_def duplex_inv_def)

interpretation duplex_bytes: history_component
  "\<lambda>x s. duplex_permitted L x s \<and> \<not> duplex_removes x" "duplex_step L I T perSend" "duplex_inv L I"
  "\<lambda>xs. streams L (message_bytes L (sent_messages xs))"
  for L I T perSend
proof (unfold_locales, goal_cases)
  case (3 s x)
  then show ?case using duplex_inv_step [of L I s x T perSend] by blast
qed (auto simp: streams_def)

subsection \<open>A new socket\<close>

text \<open>A socket with nothing received yet, whose transfer sizes are not zero.\<close>

definition ready_to_receive :: "'blob blob_library \<Rightarrow> ('blob, 't) StreamSocket \<Rightarrow> bool" where
  "ready_to_receive L s \<longleftrightarrow>
     rq_entryList (sk_receiveQueue s) = [] \<and> rq_size (sk_receiveQueue s) = 0 \<and>
     1 \<le> rq_watermarkLow (sk_receiveQueue s) \<and>
     rq_watermarkLow (sk_receiveQueue s) \<le> rq_watermarkHigh (sk_receiveQueue s) \<and>
     waiting_entries s = [] \<and> feedback_ok (sk_receiveFeedback s) \<and> sk_receiveRateLimiter s = None \<and>
     (\<exists>b. rq_data (sk_receiveQueue s) = Some b \<and> blob_length L b = 0 \<and> blob_content L b = []) \<and>
     receive_log (sk_log s) = []"

lemma construct_ready_to_receive:
  assumes s: "StreamSocket_construct options n oneShot p b c = Some s"
    and c: "blob_length L c = 0" "blob_content L c = []"
    and sizes: "op_minIncomingStreamTransferSize options \<noteq> Some 0"
      "op_maxIncomingStreamTransferSize options \<noteq> Some 0"
  shows "ready_to_receive L s"
proof -
  define fresh where "fresh = (\<lambda>q :: 'a ReceiveQueue. rq_entryList q = [] \<and> rq_size q = 0 \<and>
    1 \<le> rq_watermarkLow q \<and> rq_watermarkLow q \<le> rq_watermarkHigh q \<and>
    rcq_entryList (rq_callbackQueue q) = [] \<and> rq_data q = Some c)"
  have "fresh (ReceiveQueue_setData (Some c) ReceiveQueue_init)"
    by (simp add: fresh_def ntf_defs ReceiveQueue_init_def sanitizeIncomingQueueWatermarks_def
        ReceiveCallbackQueue_init_def)
  moreover have "fresh q \<Longrightarrow> fresh (optionally v ReceiveQueue_setLowWatermark q)"
      "fresh q \<Longrightarrow> fresh (optionally v ReceiveQueue_setHighWatermark q)"
      "fresh q \<Longrightarrow> fresh (ReceiveQueue_setTrigger t q)" for q v t
    by (auto simp: fresh_def optionally_def ReceiveQueue_setLowWatermark_def ReceiveQueue_setHighWatermark_def
        ntf_defs Let_def split: option.splits prod.splits dest: sanitizeIncoming_bounds)
  ultimately have "fresh (sk_receiveQueue s)"
    using s by (auto simp: StreamSocket_construct_def split: if_splits)
  moreover have "sk_receiveFeedback s =
      optionally (op_maxIncomingStreamTransferSize options) ReceiveFeedback_setMaximum
        (optionally (op_minIncomingStreamTransferSize options) ReceiveFeedback_setMinimum ReceiveFeedback_init)"
    using s by (auto simp: StreamSocket_construct_def split: if_splits)
  then have "feedback_ok (sk_receiveFeedback s)"
    using sizes by (cases "op_minIncomingStreamTransferSize options"; cases "op_maxIncomingStreamTransferSize options")
      (simp_all add: feedback_ok_def optionally_def ntf_defs ReceiveFeedback_init_def)
  moreover have "sk_log s = []" "sk_receiveRateLimiter s = None"
    using s by (auto simp: StreamSocket_construct_def split: if_splits)
  ultimately show ?thesis using c by (simp add: ready_to_receive_def fresh_def)
qed

lemma new_duplex_inv:
  assumes "blob_content_ok L" and "incoming_ok L I" and "newly_connected s" and "ready_to_receive L s"
    and "sk_sendGreedily s \<longrightarrow> buffers_filled L"
  shows "duplex_inv L I s" and "receive_callbacks s = {#}" and "served s"
proof -
  have "received (sk_log s) = []" "delivered L (sk_log s) = []" "receivers (sk_log s) = []"
    using assms(4) receive_log_reads received_simps(1,4,7) unfolding ready_to_receive_def by metis+
  then show "duplex_inv L I s" "receive_callbacks s = {#}" "served s"
    using assms newly_connected_inv(1) [OF assms(3,5)]
    by (auto simp: duplex_inv_def ready_to_receive_def rx_inv_def rq_inv_def receive_callbacks_def served_def)
qed

subsection \<open>Safety, callbacks and bytes\<close>

text \<open>
  Claim C1. Whatever interleaving of sends, receives, readable and writable events, errors,
  notifications, timers, deadlines, cancellations, settings, flow control changes, shutdowns,
  closes and detachments a connected socket without rate limiters sees, within what its surroundings
  owe, no assertion of \<open>ntcr::StreamSocket\<close>, its send queue, its receive queue, its callback entries, its zero-copy queue,
  its receive feedback and its shutdown state fails, and no loop runs forever, where a socket that sends
  greedily is given no blob with an empty buffer (\<open>greedy_socket_spins\<close> shows why). Afterwards the cached
  sizes of both queues are the numbers of bytes queued, and a socket that is being detached neither
  sends nor receives.
\<close>

theorem duplex_run_safe:
  assumes "blob_content_ok L" and "incoming_ok L I" and "newly_connected s" and "ready_to_receive L s"
    and "sk_sendGreedily s \<longrightarrow> buffers_filled L"
    and "all_permitted (duplex_permitted L) (\<lambda>x s. map_option snd (duplex_step L I T perSend x s)) ops s"
  shows "\<exists>xs s' b. run_out (duplex_step L I T perSend) ops s = Some (xs, s') \<and>
     sq_size (sk_sendQueue s') = sum_list (map entry_weight (sq_entryList (sk_sendQueue s'))) \<and>
     rq_size (sk_receiveQueue s') = sum_list (map re_length (rq_entryList (sk_receiveQueue s'))) \<and>
     rq_data (sk_receiveQueue s') = Some b \<and> rq_size (sk_receiveQueue s') = length (blob_content L b) \<and>
     (detaching s' \<longrightarrow> \<not> ShutdownState_canSend (sk_shutdownState s') \<and>
        \<not> ShutdownState_canReceive (sk_shutdownState s')) \<and>
     (sk_closeCallback s' \<noteq> None \<longrightarrow> detaching s')"
proof -
  from duplex_receivers.run_meaning [OF new_duplex_inv(1) [OF assms(1-5)] assms(6)] obtain xs s' where
    run: "run_out (duplex_step L I T perSend) ops s = Some (xs, s')" and inv: "sk_inv L s'" "rx_inv L s'"
    by (auto simp: duplex_inv_def)
  have "sq_inv L (sk_sendQueue s')" "detach_ok s'" "sk_closeCallback s' \<noteq> None \<longrightarrow> detaching s'"
    using inv(1) by (auto simp: sk_inv_def)
  moreover have "detaching s' \<longrightarrow> \<not> ShutdownState_canSend (sk_shutdownState s') \<and>
        \<not> ShutdownState_canReceive (sk_shutdownState s')"
    using detaching_closed calculation(2) by blast
  moreover obtain b where "rq_inv (sk_receiveQueue s')" "rq_data (sk_receiveQueue s') = Some b"
      "rq_size (sk_receiveQueue s') = length (blob_content L b)"
    using inv(2) content_length [OF assms(1)] by (auto simp: rx_inv_def)
  ultimately show ?thesis using run
    by (intro exI [of _ xs] exI [of _ s'] exI [of _ b]) (simp add: sq_inv_def rq_inv_def)
qed

text \<open>
  Claim C3. In every such run, the bytes handed to receivers (to callbacks and to callers of the
  synchronous \<open>receive\<close>) followed by the bytes still queued are exactly the bytes that the operating
  system gave, in the order it gave them: across partial reads, entries taken in part,
  cancellations, deadlines, shutdown and close nothing is lost, duplicated or reordered.
\<close>

theorem receive_bytes_in_order:
  assumes "blob_content_ok L" and "incoming_ok L I" and "newly_connected s" and "ready_to_receive L s"
    and "sk_sendGreedily s \<longrightarrow> buffers_filled L"
    and "all_permitted (duplex_permitted L) (\<lambda>x s. map_option snd (duplex_step L I T perSend x s)) ops s"
  shows "\<exists>xs s' b. run_out (duplex_step L I T perSend) ops s = Some (xs, s') \<and>
     rq_data (sk_receiveQueue s') = Some b \<and>
     received (sk_log s') = delivered L (sk_log s') @ blob_content L b"
proof -
  from duplex_receivers.run_meaning [OF new_duplex_inv(1) [OF assms(1-5)] assms(6)] show ?thesis
    by (auto simp: duplex_inv_def rx_inv_def)
qed

text \<open>
  Claim C4. In every such run, each callback of an accepted receive operation has been dispatched
  or waits in the callback queue, and none is duplicated: the callbacks dispatched together with
  those that wait are those accepted, with multiplicity, across data, cancellation, deadlines,
  failures, shutdown and close.
\<close>

theorem receive_callbacks_once:
  assumes "blob_content_ok L" and "incoming_ok L I" and "newly_connected s" and "ready_to_receive L s"
    and "sk_sendGreedily s \<longrightarrow> buffers_filled L"
    and "all_permitted (duplex_permitted L) (\<lambda>x s. map_option snd (duplex_step L I T perSend x s)) ops s"
  shows "\<exists>xs s'. run_out (duplex_step L I T perSend) ops s = Some (xs, s') \<and>
     mset (receivers (sk_log s')) +
       mset (map (\<lambda>e. the (rc_callback (sk_receiveEntries s' e))) (waiting_entries s')) =
     mset (accepted_receivers xs)"
proof -
  note new = new_duplex_inv [OF assms(1-5)]
  from duplex_receivers.run_meaning [OF new(1) assms(6)] obtain xs s' where
    "run_out (duplex_step L I T perSend) ops s = Some (xs, s')" "holds L (accepted_receivers xs) s s'" by blast
  then show ?thesis using new(2)
    by (intro exI [of _ xs] exI [of _ s']) (simp add: holds_def receive_callbacks_def [of s'])
qed

text \<open>
  Claim C5. In every run without cancellations and deadlines of receive operations, the first receiver
  that waits is not starved: it asks for more bytes than are queued. The receivers behind it wait for their
  turn, whatever they ask for.
\<close>

theorem receivers_served:
  assumes "blob_content_ok L" and "incoming_ok L I" and "newly_connected s" and "ready_to_receive L s"
    and "sk_sendGreedily s \<longrightarrow> buffers_filled L"
    and "all_permitted (\<lambda>x s. duplex_permitted L x s \<and> \<not> duplex_drops x)
           (\<lambda>x s. map_option snd (duplex_step L I T perSend x s)) ops s"
  shows "\<exists>xs s'. run_out (duplex_step L I T perSend) ops s = Some (xs, s') \<and>
     (case waiting_entries s' of [] \<Rightarrow> True
      | e # es \<Rightarrow> rq_size (sk_receiveQueue s') < ro_minSize (rc_options (sk_receiveEntries s' e)))"
proof -
  note new = new_duplex_inv [OF assms(1-5)]
  from duplex_serving.run_meaning [OF new(1) assms(6)] new(3) show ?thesis
    by (auto simp: served_def)
qed

text \<open>
  Claim C2. The two directions do not disturb each other. In every such run in which each callback given with \<open>ntsa::Data\<close>
  comes with data too small for zero copy, each callback given with an accepted message has been dispatched or is held
  by the send path, exactly once, across partial sends, cancellations, deadlines, failures and shutdown. In every such run
  in which no send is cancelled and no deadline of a send expires, the bytes handed to the operating system followed by those
  queued are the bytes of the accepted messages, in order, as long as sending is not shut down.
\<close>

theorem duplex_sends_in_order:
  assumes "blob_content_ok L" and "incoming_ok L I" and "newly_connected s" and "ready_to_receive L s"
    and "sk_sendGreedily s \<longrightarrow> buffers_filled L"
    and "all_permitted (duplex_permitted L) (\<lambda>x s. map_option snd (duplex_step L I T perSend x s)) ops s"
  shows "\<exists>xs s'. run_out (duplex_step L I T perSend) ops s = Some (xs, s') \<and>
     (all_permitted (duplex_held_once L) (\<lambda>x s. map_option snd (duplex_step L I T perSend x s)) ops s \<longrightarrow>
        mset (dispatched (sk_log s')) + held_callbacks (sk_sendQueue s') (sk_zeroCopyQueue s') =
          mset (message_callbacks (sent_messages xs))) \<and>
     (list_all (\<lambda>x. \<not> duplex_removes x) ops \<and> ShutdownState_canSend (sk_shutdownState s') \<longrightarrow>
        wire L (sk_log s') @ queue_content L (sq_entryList (sk_sendQueue s')) =
          message_bytes L (sent_messages xs))"
proof -
  note new = newly_connected_inv [OF assms(3,5)] and inv = new_duplex_inv(1) [OF assms(1-5)]
  let ?step = "\<lambda>x s. map_option snd (duplex_step L I T perSend x s)"
  from duplex_receivers.run_meaning [OF inv assms(6)] obtain xs s' where
    run: "run_out (duplex_step L I T perSend) ops s = Some (xs, s')" by blast
  have "keeps L (message_callbacks (sent_messages xs)) s s'" if "all_permitted (duplex_held_once L) ?step ops s"
    using duplex_callbacks.run_meaning [OF inv all_permitted_both [OF assms(6) that]] run by auto
  moreover have "streams L (message_bytes L (sent_messages xs)) s s'" if "list_all (\<lambda>x. \<not> duplex_removes x) ops"
    using duplex_bytes.run_meaning [OF inv all_permitted_both [OF assms(6) all_permitted_list [OF that]]] run by auto
  ultimately show ?thesis using run new(2-4) by (auto simp: keeps_def streams_def all_callbacks_def stream_bytes_def)
qed

text \<open>
  Claim C17. A socket that sends greedily delivers. Let a run as above leave it able to send, without a rate limiter and with
  no blob that has an empty buffer (\<open>greedy_socket_spins\<close> shows why). Then a writable event during which the operating system
  accepts at least one byte per call ends, and unless it ends the stream (at the marker of a graceful shutdown) the
  send queue is empty; if moreover no send has been cancelled and no deadline of a send has expired, the operating system has all bytes
  of all accepted messages, in order.
\<close>

theorem writable_drains:
  assumes "blob_content_ok L" and "incoming_ok L I" and "newly_connected s0" and "ready_to_receive L s0"
    and "sk_sendGreedily s0 \<longrightarrow> buffers_filled L"
    and "all_permitted (duplex_permitted L) (\<lambda>x s. map_option snd (duplex_step L I T perSend x s)) ops s0"
    and "run_out (duplex_step L I T perSend) ops s0 = Some (xs, s)"
    and "sk_sendGreedily s" and "sk_socket s" and "ShutdownState_canSend (sk_shutdownState s)"
    and "\<forall>a \<in> set as. os_error a = E_OK \<and> 0 < os_room a" and "pending s \<le> length as"
  shows "\<exists>s'. processSocketWritable L T perSend as s = Some s' \<and>
     (ShutdownState_canSend (sk_shutdownState s') \<longrightarrow>
        sq_entryList (sk_sendQueue s') = [] \<and>
        (list_all (\<lambda>x. \<not> duplex_removes x) ops \<longrightarrow> wire L (sk_log s') = message_bytes L (sent_messages xs)))"
proof -
  note new = newly_connected_inv [OF assms(3,5)] and inv0 = new_duplex_inv(1) [OF assms(1-5)]
  have inv: "sk_inv L s" using duplex_receivers.run_meaning [OF inv0 assms(6)] assms(7) by (auto simp: duplex_inv_def)
  have bytes: "stream_bytes L s = message_bytes L (sent_messages xs)" if "list_all (\<lambda>x. \<not> duplex_removes x) ops"
    using duplex_bytes.run_meaning [OF inv0 all_permitted_both [OF assms(6) all_permitted_list [OF that]]] assms(7,10) new(4)
    by (auto simp: streams_def)
  obtain s1 where s1: "writable_loop L T perSend as s = Some (E_OK, s1)" "effect L [] [] s s1"
      "ShutdownState_canSend (sk_shutdownState s1) \<longrightarrow> sq_entryList (sk_sendQueue s1) = []"
    using writable_loop_drains [OF assms(1) inv assms(8,9,11,12)] by blast
  have "detach_ok s" using inv by (simp add: sk_inv_def)
  then have "\<not> detaching s" using detaching_closed [of s] assms(10) by blast
  then have "processSocketWritable L T perSend as s = Some (privateRearmAfterSend s1)"
    using assms(10) s1(1) by (simp add: processSocketWritable_def)
  moreover have "sk_sendQueue (privateRearmAfterSend s1) = sk_sendQueue s1"
      "sk_shutdownState (privateRearmAfterSend s1) = sk_shutdownState s1"
      "wire L (sk_log (privateRearmAfterSend s1)) = wire L (sk_log s1)"
    by (simp_all add: privateRearmAfterSend_def sk_normal wire_def)
  moreover have "ShutdownState_canSend (sk_shutdownState s1) \<longrightarrow> wire L (sk_log s1) = stream_bytes L s"
    using s1(2,3) by (auto simp: effect_defs stream_bytes_def)
  ultimately show ?thesis using s1(3) bytes by simp
qed

subsection \<open>An example\<close>

text \<open>Blobs with their content and the room behind it, and a connected socket, to evaluate the model on.\<close>

definition room_blobs :: "(bytes \<times> nat) blob_library" where
  "room_blobs = \<lparr>blob_length = (\<lambda>b. length (fst b)), blob_erase_front = (\<lambda>b n. (drop n (fst b), snd b)),
     blob_buffers = (\<lambda>b. [fst b]), blob_lastDataBufferLength = (\<lambda>b. length (fst b))\<rparr>"

definition room_library :: "(bytes \<times> nat) incoming_library" where
  "room_library = \<lparr>ib_create = ([], 0), ib_totalSize = (\<lambda>b. length (fst b) + snd b),
     ib_appendBuffer = (\<lambda>n b. (fst b, snd b + n)),
     ib_fill = (\<lambda>bs b. (fst b @ bs, snd b - length bs)),
     ib_append = (\<lambda>d b n. (fst d @ take n (fst b), snd d))\<rparr>"

lemma room_blobs_ok [simp]: "blob_content_ok room_blobs" "incoming_ok room_blobs room_library"
  by (simp_all add: blob_content_ok_def incoming_ok_def room_blobs_def room_library_def blob_data_def
      blob_content_def)

definition duplex_socket :: "bool \<Rightarrow> (bytes \<times> nat, int) StreamSocket" where
  "duplex_socket greedily =
     (case StreamSocket_construct (StreamSocketOptions_init\<lparr>op_keepHalfOpen := Some True,
             op_minIncomingStreamTransferSize := Some 4, op_maxIncomingStreamTransferSize := Some 8,
             op_receiveGreedily := Some greedily\<rparr>) 1 False False ([], 0) ([], 0) of
        Some s \<Rightarrow> s\<lparr>sk_systemHandle := 7, sk_socket := True, sk_session := True,
                    sk_openState := OpenState_set e_CONNECTED (sk_openState s)\<rparr>
      | None \<Rightarrow> undefined)"

definition in_answer_ok :: "bytes \<Rightarrow> int in_answer" where
  "in_answer_ok bs = \<lparr>in_now = 0, in_buffers = [8], in_error = E_OK, in_limit = 100, in_bytes = bs,
     in_foreignHandle = None, in_timestamp = 0\<rparr>"

definition in_answer_error :: "ntsa_error \<Rightarrow> int in_answer" where
  "in_answer_error e = (in_answer_ok [])\<lparr>in_error := e\<rparr>"

definition receive_between :: "u64 \<Rightarrow> nat \<Rightarrow> nat \<Rightarrow> ReceiveOptions" where
  "receive_between token least most =
     ReceiveOptions_init\<lparr>ro_token := Some token, ro_minSize := least, ro_maxSize := most\<rparr>"

definition duplex_ops :: "(bytes \<times> nat, int) duplex_op list" where
  "duplex_ops =
     [DxReceiveAsync 1 (receive_between 5 2 2) 21,
      DxReadable [in_answer_ok [1, 2, 3, 4], in_answer_error E_WOULD_BLOCK],
      DxReceive ([], 0) (receive_between 0 1 1),
      DxSend (SkSendBlob (os_answer_ok 1) ([7, 8], 0) SendParameters_init (Some 11)),
      DxReceiveAsync 2 (receive_between 6 3 9) 22,
      DxSetReadQueueHighWatermark 100]"

lemmas rx_eval =
  processSocketReadable_def privateSocketReadableIteration_def privateDequeueReceiveBuffer_def
  privateDequeueReceiveBufferRaw_def privateThrottleReceiveBuffer_def SocketUtil_receive_def
  SystemReceiveContext_init_def reserveCapacity_def calculateNumBytesToAllocate_def reserve_loop.simps
  set_incoming_def submit_receive_rate_def setFeedback_def setCongestion_def ReceiveFeedback_init_def
  ReceiveQueueEntry_init_def ReceiveQueueEntry_setLength_def ReceiveQueueEntry_setTimestamp_def
  ReceiveQueueEntry_setForeignHandle_def ReceiveQueue_pushEntry_def ReceiveQueue_popEntry_def
  ReceiveQueue_popSize_def ReceiveQueue_rearm_def ReceiveQueue_pushCallbackEntry_def
  ReceiveQueue_popCallbackEntry_def ReceiveCallbackQueue_push_def ReceiveCallbackQueue_pop_def
  ReceiveCallbackQueue_init_def ReceiveQueue_removeCallbackToken_def ReceiveCallbackQueue_removeToken_def
  ReceiveCallbackQueueEntry_init_def ReceiveOptions_minSize_def ReceiveOptions_maxSize_def
  ReceiveOptions_init_def size_max_def receive_options_ok_def dispatch_receivers.simps dequeue_data_def
  dequeue_loop.simps take_foreign_handle_def dispatch_receive_normal receive_events_def finish_receive_def
  ReceiveCallbackQueueEntry_dispatch_def CallbackState_init_def CallbackState_finish_def testAndSwap_def
  announce_received_def ReceiveQueue_authorizeLowWatermarkEvent_def ReceiveQueue_authorizeHighWatermarkEvent_def
  ReceiveQueue_setHighWatermark_def ReceiveQueue_setLowWatermark_def privateRearmAfterReceive_def
  StreamSocket_receive_def StreamSocket_receive_async_def create_receive_entry_def relax_if_drained_def
  StreamSocket_cancelReceive_def ReceiveContext_init_def StreamSocket_setReadQueueHighWatermark_def
  duplex_socket_def in_answer_ok_def in_answer_error_def receive_between_def room_blobs_def room_library_def
  blob_content_def blob_data_def

lemma duplex_socket_new [simp]:
  "newly_connected (duplex_socket b)" "ready_to_receive room_blobs (duplex_socket b)"
  "sk_sendGreedily (duplex_socket b) = False"
  by (simp_all add: newly_connected_def ready_to_receive_def feedback_ok_def sk_eval rx_eval
      DEFAULT_STREAM_SOCKET_WRITE_GREEDILY_def)

lemma duplex_permitted_ops:
  "all_permitted (\<lambda>x s. duplex_permitted room_blobs x s \<and> duplex_held_once room_blobs x s \<and>
       \<not> duplex_removes x \<and> \<not> duplex_drops x)
     (\<lambda>x s. map_option snd (duplex_step room_blobs room_library int_time 2 x s)) duplex_ops (duplex_socket True)"
  by (simp add: duplex_ops_def sk_eval rx_eval room_for_def Let_def)

theorem duplex_run_safe_witness:
  "\<exists>xs s' b. run_out (duplex_step room_blobs room_library int_time 2) duplex_ops (duplex_socket True)
       = Some (xs, s') \<and>
     rq_data (sk_receiveQueue s') = Some b \<and> rq_size (sk_receiveQueue s') = length (blob_content room_blobs b)"
proof -
  have "all_permitted (duplex_permitted room_blobs)
      (\<lambda>x s. map_option snd (duplex_step room_blobs room_library int_time 2 x s)) duplex_ops (duplex_socket True)"
    by (rule all_permitted_mono [OF duplex_permitted_ops]) simp
  from duplex_run_safe [OF _ _ _ _ _ this] show ?thesis by fastforce
qed

lemma duplex_ops_run:
  "\<exists>xs s'. run_out (duplex_step room_blobs room_library int_time 2) duplex_ops (duplex_socket True) = Some (xs, s') \<and>
     received (sk_log s') = [1, 2, 3, 4] \<and> delivered room_blobs (sk_log s') = [1, 2, 3] \<and>
     receivers (sk_log s') = [21] \<and> waiting_entries s' = [1] \<and> accepted_receivers xs = [21, 22] \<and>
     rq_size (sk_receiveQueue s') = 1 \<and>
     message_bytes room_blobs (sent_messages xs) = [7, 8]"
  by (simp add: duplex_ops_def sk_eval rx_eval room_for_def Let_def)

theorem receive_bytes_in_order_witness:
  "\<exists>xs s' b. run_out (duplex_step room_blobs room_library int_time 2) duplex_ops (duplex_socket True)
       = Some (xs, s') \<and> rq_data (sk_receiveQueue s') = Some b \<and>
     received (sk_log s') = delivered room_blobs (sk_log s') @ blob_content room_blobs b \<and>
     received (sk_log s') = [1, 2, 3, 4] \<and> delivered room_blobs (sk_log s') = [1, 2, 3]"
proof -
  have "all_permitted (duplex_permitted room_blobs)
      (\<lambda>x s. map_option snd (duplex_step room_blobs room_library int_time 2 x s)) duplex_ops (duplex_socket True)"
    by (rule all_permitted_mono [OF duplex_permitted_ops]) simp
  from receive_bytes_in_order [OF _ _ _ _ _ this] duplex_ops_run show ?thesis by auto
qed

theorem receive_callbacks_once_witness:
  "\<exists>xs s'. run_out (duplex_step room_blobs room_library int_time 2) duplex_ops (duplex_socket True)
       = Some (xs, s') \<and>
     mset (receivers (sk_log s')) +
       mset (map (\<lambda>e. the (rc_callback (sk_receiveEntries s' e))) (waiting_entries s')) = {#21, 22#}"
proof -
  have "all_permitted (duplex_permitted room_blobs)
      (\<lambda>x s. map_option snd (duplex_step room_blobs room_library int_time 2 x s)) duplex_ops (duplex_socket True)"
    by (rule all_permitted_mono [OF duplex_permitted_ops]) simp
  from receive_callbacks_once [OF _ _ _ _ _ this] duplex_ops_run show ?thesis by auto
qed

theorem receivers_served_witness:
  "\<exists>xs s'. run_out (duplex_step room_blobs room_library int_time 2) duplex_ops (duplex_socket True)
       = Some (xs, s') \<and> waiting_entries s' = [1] \<and>
     rq_size (sk_receiveQueue s') < ro_minSize (rc_options (sk_receiveEntries s' 1))"
proof -
  have "all_permitted (\<lambda>x s. duplex_permitted room_blobs x s \<and> \<not> duplex_drops x)
      (\<lambda>x s. map_option snd (duplex_step room_blobs room_library int_time 2 x s)) duplex_ops (duplex_socket True)"
    by (rule all_permitted_mono [OF duplex_permitted_ops]) simp
  from receivers_served [OF _ _ _ _ _ this] duplex_ops_run show ?thesis by auto
qed

theorem duplex_sends_in_order_witness:
  "\<exists>xs s'. run_out (duplex_step room_blobs room_library int_time 2) duplex_ops (duplex_socket True)
       = Some (xs, s') \<and>
     mset (dispatched (sk_log s')) + held_callbacks (sk_sendQueue s') (sk_zeroCopyQueue s') =
       mset (message_callbacks (sent_messages xs)) \<and> message_bytes room_blobs (sent_messages xs) = [7, 8]"
proof -
  have "all_permitted (duplex_permitted room_blobs)
      (\<lambda>x s. map_option snd (duplex_step room_blobs room_library int_time 2 x s)) duplex_ops (duplex_socket True)"
    "all_permitted (duplex_held_once room_blobs)
      (\<lambda>x s. map_option snd (duplex_step room_blobs room_library int_time 2 x s)) duplex_ops (duplex_socket True)"
    by (rule all_permitted_mono [OF duplex_permitted_ops], simp)+
  from duplex_sends_in_order [OF _ _ _ _ _ this(1)] this(2) duplex_ops_run show ?thesis by auto
qed

text \<open>Blobs without empty buffers, and a socket that sends greedily.\<close>

definition filled_room_blobs :: "(bytes \<times> nat) blob_library" where
  "filled_room_blobs = room_blobs\<lparr>blob_buffers := (\<lambda>b. if fst b = [] then [] else [fst b])\<rparr>"

lemma filled_room_blobs_ok [simp]:
  "blob_content_ok filled_room_blobs" "incoming_ok filled_room_blobs room_library" "buffers_filled filled_room_blobs"
  by (auto simp: blob_content_ok_def incoming_ok_def buffers_filled_def filled_room_blobs_def room_blobs_def room_library_def
      blob_data_def blob_content_def)

definition sending_socket :: "(bytes \<times> nat, int) StreamSocket" where
  "sending_socket =
     (case StreamSocket_construct (StreamSocketOptions_init\<lparr>op_sendGreedily := Some True,
             op_minIncomingStreamTransferSize := Some 4, op_maxIncomingStreamTransferSize := Some 8\<rparr>)
             1 False False ([], 0) ([], 0) of
        Some s \<Rightarrow> s\<lparr>sk_systemHandle := 7, sk_socket := True, sk_session := True,
                    sk_openState := OpenState_set e_CONNECTED (sk_openState s)\<rparr>
      | None \<Rightarrow> undefined)"

definition sending_ops :: "(bytes \<times> nat, int) duplex_op list" where
  "sending_ops =
     [DxReceiveAsync 1 (receive_between 5 2 2) 21,
      DxSend (SkSendBlob (os_answer_ok 2) ([1, 2, 3], 0) SendParameters_init (Some 11)),
      DxReadable [in_answer_ok [1, 2, 3, 4], in_answer_error E_WOULD_BLOCK],
      DxSend (SkSendBlob os_would_block ([4, 5], 0) SendParameters_init (Some 12))]"

definition sample_answers :: "int os_answer list" where
  "sample_answers = [os_answer_ok 2, os_answer_ok 2, os_answer_ok 2, os_answer_ok 2, os_answer_ok 2]"

lemma sending_socket_new [simp]:
  "newly_connected sending_socket" "ready_to_receive filled_room_blobs sending_socket"
  by (simp_all add: newly_connected_def ready_to_receive_def feedback_ok_def sk_eval rx_eval sending_socket_def
      filled_room_blobs_def)

lemma sending_ops_permitted:
  "all_permitted (duplex_permitted filled_room_blobs)
     (\<lambda>x s. map_option snd (duplex_step filled_room_blobs room_library int_time 2 x s)) sending_ops sending_socket"
  by (simp add: sending_ops_def sending_socket_def filled_room_blobs_def sk_eval rx_eval room_for_def Let_def)

lemma sending_ops_run:
  "\<exists>xs s. run_out (duplex_step filled_room_blobs room_library int_time 2) sending_ops sending_socket = Some (xs, s) \<and>
     sk_sendGreedily s \<and> sk_socket s \<and> ShutdownState_canSend (sk_shutdownState s) \<and> pending s \<le> 5 \<and>
     message_bytes filled_room_blobs (sent_messages xs) = [1, 2, 3, 4, 5] \<and>
     (\<exists>s'. processSocketWritable filled_room_blobs int_time 2 sample_answers s = Some s' \<and>
        ShutdownState_canSend (sk_shutdownState s'))"
  by (simp add: sending_ops_def sending_socket_def filled_room_blobs_def sample_answers_def sk_eval rx_eval room_for_def
      pending_def Let_def)

theorem writable_drains_witness:
  "\<exists>xs s s'. run_out (duplex_step filled_room_blobs room_library int_time 2) sending_ops sending_socket = Some (xs, s) \<and>
     processSocketWritable filled_room_blobs int_time 2 sample_answers s = Some s' \<and>
     sq_entryList (sk_sendQueue s') = [] \<and> wire filled_room_blobs (sk_log s') = [1, 2, 3, 4, 5]"
proof -
  obtain xs s s' where r: "run_out (duplex_step filled_room_blobs room_library int_time 2) sending_ops sending_socket = Some (xs, s)"
      "sk_sendGreedily s" "sk_socket s" "ShutdownState_canSend (sk_shutdownState s)" "pending s \<le> 5"
      "message_bytes filled_room_blobs (sent_messages xs) = [1, 2, 3, 4, 5]"
      "processSocketWritable filled_room_blobs int_time 2 sample_answers s = Some s'" "ShutdownState_canSend (sk_shutdownState s')"
    using sending_ops_run by blast
  have "\<forall>a \<in> set sample_answers. os_error a = E_OK \<and> 0 < os_room a" "pending s \<le> length sample_answers"
    using r(5) by (simp_all add: os_answer_ok_def sample_answers_def)
  from writable_drains [OF _ _ _ _ _ sending_ops_permitted r(1-4) this] r(6-8) r(1) show ?thesis
    by (auto simp: sending_ops_def)
qed

subsection \<open>Reserving capacity\<close>

text \<open>
  The computation of the bytes to allocate before a read never underflows and none of
  its assertions fails: for sizes that are not zero, the room behind the data afterwards is the room there is, or as
  much as the low watermark asks for, but at least the minimum and at most the maximum
  receive size, whichever is greater; at most the maximum receive size is allocated.
\<close>

theorem reserve_capacity_bounds:
  assumes "n \<le> capacity" and "0 < least" and "0 < most"
  shows "\<exists>k. calculateNumBytesToAllocate n capacity low least most = Some k \<and>
     (capacity - n) + k = max (capacity - n) (min most (max (min least most) (max capacity low - n))) \<and>
     k \<le> most"
  using calculate_ok(1,2) [OF assms, of low] le_add_diff_inverse [OF max.cobounded1]
  unfolding reserved_room_def by blast

theorem reserve_capacity_bounds_witness:
  "calculateNumBytesToAllocate 10 20 100 64 256 = Some 80"
  using reserve_capacity_bounds [of 10 20 64 256 100] by simp

subsection \<open>Where the receive path falls short\<close>

lemmas shutdown_eval =
  privateFail_def privateShutdownSequenceComplete_def privateShutdownSequence_def processSocketDetached_def
  keeps_half_open_def privateShutdownSend_def privateShutdownReceive_def privateClose_def
  privateCloseFlowControl_def shutdown_send_part_def shutdown_receive_part_def shutdown_completed_part_def
  shutdown_system_def dispatch_close_def dispatch_eof_normal zero_copy_callbacks_def send_callbacks_def
  cancel_sends.simps tryShutdownSend_def tryShutdownReceive_def ShutdownContext_reset_def
  setShutdownOrigin_def setShutdownInitiated_def setShutdownSend_def setShutdownReceive_def
  setShutdownCompleted_def FlowControlState_close_def FlowControlContext_reset_def setEnableSend_def
  setEnableReceive_def k_INVALID_HANDLE_def DEFAULT_KEEP_HALF_OPEN_def DetachState_setMode_def
  DetachState_setGoal_def OpenState_set_def SendQueue_removeAll_def ZeroCopyQueue_clear_def
  ReceiveQueue_popAllCallbackEntries_def ReceiveCallbackQueue_removeAll_def

text \<open>
  A socket that is to be kept half-open is not: when the peer ends its transmission, the
  end of file shuts down the receive direction only, but \<open>processSocketReadable\<close> then passes the
  error \<open>e_EOF\<close> on to \<open>privateFail\<close>, which announces it as an error and shuts down both
  directions at once.
\<close>

theorem eof_closes_half_open_socket:
  "\<exists>s. processSocketReadable room_blobs room_library int_time [in_answer_error E_EOF] (duplex_socket False) = Some s \<and>
     sk_keepHalfOpen s = Some True \<and> AnnounceError E_EOF \<in> set (sk_log s) \<and>
     \<not> ShutdownState_canSend (sk_shutdownState s)"
  by (simp add: sk_eval rx_eval shutdown_eval Let_def)

definition stranded_ops :: "(bytes \<times> nat, int) duplex_op list" where
  "stranded_ops =
     [DxReadable [in_answer_ok [1, 2], in_answer_error E_WOULD_BLOCK],
      DxSend (SkShutdown Shutdown_RECEIVE e_GRACEFUL),
      DxReceiveAsync 1 (receive_between 5 3 9) 21,
      DxSend (SkClose None)]"

text \<open>
  A receiver can be left without an answer for ever: after the receive direction has been
  shut down with some bytes still queued, a receive operation that asks for more bytes than there are
  is accepted and queued, although no byte can arrive any more. Not even closing the socket
  dispatches its callback, since the receive direction is shut down already.
\<close>

theorem receiver_stranded:
  "\<exists>xs s s'. run_out (duplex_step room_blobs room_library int_time 2) stranded_ops (duplex_socket False) = Some (xs, s) \<and>
     processSocketDetached s = Some s' \<and>
     accepted_receivers xs = [21] \<and> waiting_entries s' = [0] \<and> receivers (sk_log s') = []"
proof -
  have p: "all_permitted (duplex_permitted room_blobs)
      (\<lambda>x s. map_option snd (duplex_step room_blobs room_library int_time 2 x s)) stranded_ops (duplex_socket False)"
    by (simp add: stranded_ops_def sk_eval rx_eval shutdown_eval room_for_def Let_def)
  have new: "duplex_inv room_blobs room_library (duplex_socket False)" by (simp add: new_duplex_inv(1))
  obtain xs s where run: "run_out (duplex_step room_blobs room_library int_time 2) stranded_ops (duplex_socket False)
      = Some (xs, s)" and inv: "sk_inv room_blobs s"
    using duplex_receivers.run_meaning [OF new p] by (auto simp: duplex_inv_def)
  have "accepted_receivers xs = [21] \<and> waiting_entries s = [0] \<and> receivers (sk_log s) = [] \<and> detaching s \<and>
      (\<exists>c d. sk_detachCallback s = Some (c, d) \<and> \<not> shutdownReceive c)"
    using run by (auto simp add: stranded_ops_def sk_eval rx_eval shutdown_eval room_for_def Let_def)
  moreover obtain s' where s': "processSocketDetached s = Some s'"
    using detached_ok [OF inv] calculation by blast
  moreover from this calculation have v: "rx_view s' = rx_view s" using detached_frame by blast
  moreover have "receivers (sk_log s') = receivers (sk_log s)" "waiting_entries s' = waiting_entries s"
    using v receive_log_reads(3) [of "sk_log s'"] receive_log_reads(3) [of "sk_log s"] by (simp_all add: rx_view_def)
  ultimately show ?thesis using run by auto
qed

definition cancel_ops :: "(bytes \<times> nat, int) duplex_op list" where
  "cancel_ops =
     [DxReceiveAsync 1 (receive_between 5 9 9) 21, DxReceiveAsync 2 (receive_between 6 1 9) 22,
      DxReadable [in_answer_ok [1, 2], in_answer_error E_WOULD_BLOCK], DxCancelReceive 5]"

text \<open>
  A cancellation can strand the next receiver: two receive operations wait, the first for more bytes than
  have arrived, the second for fewer. When the first is cancelled (a deadline that expires does
  the same), the second is not considered: it waits although the bytes it asks for are queued, until
  more data arrives.
\<close>

theorem cancel_strands_next_receiver:
  "\<exists>xs s. run_out (duplex_step room_blobs room_library int_time 2) cancel_ops (duplex_socket False) = Some (xs, s) \<and>
     receivers (sk_log s) = [21] \<and> waiting_entries s = [1] \<and>
     ro_minSize (rc_options (sk_receiveEntries s 1)) = 1 \<and> rq_size (sk_receiveQueue s) = 2"
  by (simp add: cancel_ops_def sk_eval rx_eval room_for_def Let_def)

end
