(* ===== verification/Dns_Vocabulary.thy ===== *)
theory Dns_Vocabulary
  imports Buffer_Data
begin

section \<open>The vocabulary of the DNS protocol\<close>

text \<open>
  This theory models the enumerations of \<open>ntcdns_vocabulary.h\<close> that the codec of
  \<open>ntcdns_protocol.cpp\<close> uses, with the conversion from integers, and the data of resource records.
  A \<open>bsl::string\<close> is the list of its bytes. The textual representations of the enumerators are
  left out.
\<close>

subsection \<open>Enumerations\<close>

datatype Classification = Class_INTERNET | Class_CSNET | Class_CH | Class_HS | Class_ANY

primrec Classification_toInt :: "Classification \<Rightarrow> nat" where
  "Classification_toInt Class_INTERNET = 1"
| "Classification_toInt Class_CSNET = 2"
| "Classification_toInt Class_CH = 3"
| "Classification_toInt Class_HS = 4"
| "Classification_toInt Class_ANY = 255"

definition Classification_fromInt :: "nat \<Rightarrow> Classification option" where
  "Classification_fromInt = map_of
     [(1, Class_INTERNET), (2, Class_CSNET), (3, Class_CH), (4, Class_HS), (255, Class_ANY)]"

datatype Direction = Direction_REQUEST | Direction_RESPONSE

primrec Direction_toInt :: "Direction \<Rightarrow> nat" where
  "Direction_toInt Direction_REQUEST = 0"
| "Direction_toInt Direction_RESPONSE = 1"

definition Direction_fromInt :: "nat \<Rightarrow> Direction option" where
  "Direction_fromInt = map_of [(0, Direction_REQUEST), (1, Direction_RESPONSE)]"

datatype Error =
    Error_OK | Error_FORMAT_ERROR | Error_SERVER_FAILURE | Error_NAME_ERROR | Error_NOT_IMPLEMENTED
  | Error_REFUSED

primrec Error_toInt :: "Error \<Rightarrow> nat" where
  "Error_toInt Error_OK = 0"
| "Error_toInt Error_FORMAT_ERROR = 1"
| "Error_toInt Error_SERVER_FAILURE = 2"
| "Error_toInt Error_NAME_ERROR = 3"
| "Error_toInt Error_NOT_IMPLEMENTED = 4"
| "Error_toInt Error_REFUSED = 5"

definition Error_fromInt :: "nat \<Rightarrow> Error option" where
  "Error_fromInt = map_of
     [(0, Error_OK), (1, Error_FORMAT_ERROR), (2, Error_SERVER_FAILURE), (3, Error_NAME_ERROR),
      (4, Error_NOT_IMPLEMENTED), (5, Error_REFUSED)]"

datatype Operation = Operation_STANDARD | Operation_INVERSE | Operation_STATUS

primrec Operation_toInt :: "Operation \<Rightarrow> nat" where
  "Operation_toInt Operation_STANDARD = 0"
| "Operation_toInt Operation_INVERSE = 1"
| "Operation_toInt Operation_STATUS = 2"

definition Operation_fromInt :: "nat \<Rightarrow> Operation option" where
  "Operation_fromInt = map_of [(0, Operation_STANDARD), (1, Operation_INVERSE), (2, Operation_STATUS)]"

datatype (plugins only: ) Type =
    Type_A | Type_NS | Type_MD | Type_MF | Type_CNAME | Type_SOA
  | Type_MB | Type_MG | Type_MR | Type_UNDEFINED | Type_WKS | Type_PTR
  | Type_HINFO | Type_MINFO | Type_MX | Type_TXT | Type_RP | Type_AFSDB
  | Type_X25 | Type_ISDN | Type_RT | Type_NSAP | Type_NSAPPTR | Type_SIG
  | Type_KEY | Type_PX | Type_GPOS | Type_AAAA | Type_LOC | Type_NXT
  | Type_EID | Type_NIMLOC | Type_SVR | Type_ATMA | Type_NAPTR | Type_KX
  | Type_CERT | Type_A6 | Type_DNAME | Type_SINK | Type_OPT | Type_APL
  | Type_DS | Type_SSHFP | Type_IPSECKEY | Type_RRSIG | Type_NSEC | Type_DNSKEY
  | Type_DHCID | Type_NSEC3 | Type_NSEC3PARAM | Type_TLSA | Type_SMIMEA | Type_HIP
  | Type_NINFO | Type_RKEY | Type_TALINK | Type_CDS | Type_CDNSKEY | Type_OPENPGPKEY
  | Type_CSYNC | Type_ZONEMD | Type_SPF | Type_UINFO | Type_UID | Type_GID
  | Type_UNSPEC | Type_NID | Type_L32 | Type_L64 | Type_LP | Type_EUI48
  | Type_EUI64 | Type_TKEY | Type_TSIG | Type_IXFR | Type_AXFR | Type_MAILB
  | Type_MAILA | Type_ALL | Type_URI | Type_CAA | Type_AVC | Type_DOA
  | Type_AMTRELAY | Type_TA | Type_DLV

primrec Type_toInt :: "Type \<Rightarrow> nat" where
  "Type_toInt Type_A = 1"
| "Type_toInt Type_NS = 2"
| "Type_toInt Type_MD = 3"
| "Type_toInt Type_MF = 4"
| "Type_toInt Type_CNAME = 5"
| "Type_toInt Type_SOA = 6"
| "Type_toInt Type_MB = 7"
| "Type_toInt Type_MG = 8"
| "Type_toInt Type_MR = 9"
| "Type_toInt Type_UNDEFINED = 10"
| "Type_toInt Type_WKS = 11"
| "Type_toInt Type_PTR = 12"
| "Type_toInt Type_HINFO = 13"
| "Type_toInt Type_MINFO = 14"
| "Type_toInt Type_MX = 15"
| "Type_toInt Type_TXT = 16"
| "Type_toInt Type_RP = 17"
| "Type_toInt Type_AFSDB = 18"
| "Type_toInt Type_X25 = 19"
| "Type_toInt Type_ISDN = 20"
| "Type_toInt Type_RT = 21"
| "Type_toInt Type_NSAP = 22"
| "Type_toInt Type_NSAPPTR = 23"
| "Type_toInt Type_SIG = 24"
| "Type_toInt Type_KEY = 25"
| "Type_toInt Type_PX = 26"
| "Type_toInt Type_GPOS = 27"
| "Type_toInt Type_AAAA = 28"
| "Type_toInt Type_LOC = 29"
| "Type_toInt Type_NXT = 30"
| "Type_toInt Type_EID = 31"
| "Type_toInt Type_NIMLOC = 32"
| "Type_toInt Type_SVR = 33"
| "Type_toInt Type_ATMA = 34"
| "Type_toInt Type_NAPTR = 35"
| "Type_toInt Type_KX = 36"
| "Type_toInt Type_CERT = 37"
| "Type_toInt Type_A6 = 38"
| "Type_toInt Type_DNAME = 39"
| "Type_toInt Type_SINK = 40"
| "Type_toInt Type_OPT = 41"
| "Type_toInt Type_APL = 42"
| "Type_toInt Type_DS = 43"
| "Type_toInt Type_SSHFP = 44"
| "Type_toInt Type_IPSECKEY = 45"
| "Type_toInt Type_RRSIG = 46"
| "Type_toInt Type_NSEC = 47"
| "Type_toInt Type_DNSKEY = 48"
| "Type_toInt Type_DHCID = 49"
| "Type_toInt Type_NSEC3 = 50"
| "Type_toInt Type_NSEC3PARAM = 51"
| "Type_toInt Type_TLSA = 52"
| "Type_toInt Type_SMIMEA = 53"
| "Type_toInt Type_HIP = 55"
| "Type_toInt Type_NINFO = 56"
| "Type_toInt Type_RKEY = 57"
| "Type_toInt Type_TALINK = 58"
| "Type_toInt Type_CDS = 59"
| "Type_toInt Type_CDNSKEY = 60"
| "Type_toInt Type_OPENPGPKEY = 61"
| "Type_toInt Type_CSYNC = 62"
| "Type_toInt Type_ZONEMD = 63"
| "Type_toInt Type_SPF = 99"
| "Type_toInt Type_UINFO = 100"
| "Type_toInt Type_UID = 101"
| "Type_toInt Type_GID = 102"
| "Type_toInt Type_UNSPEC = 103"
| "Type_toInt Type_NID = 104"
| "Type_toInt Type_L32 = 105"
| "Type_toInt Type_L64 = 106"
| "Type_toInt Type_LP = 107"
| "Type_toInt Type_EUI48 = 108"
| "Type_toInt Type_EUI64 = 109"
| "Type_toInt Type_TKEY = 249"
| "Type_toInt Type_TSIG = 250"
| "Type_toInt Type_IXFR = 251"
| "Type_toInt Type_AXFR = 252"
| "Type_toInt Type_MAILB = 253"
| "Type_toInt Type_MAILA = 254"
| "Type_toInt Type_ALL = 255"
| "Type_toInt Type_URI = 256"
| "Type_toInt Type_CAA = 257"
| "Type_toInt Type_AVC = 258"
| "Type_toInt Type_DOA = 259"
| "Type_toInt Type_AMTRELAY = 260"
| "Type_toInt Type_TA = 32768"
| "Type_toInt Type_DLV = 32769"

definition Type_fromInt :: "nat \<Rightarrow> Type option" where
  "Type_fromInt = map_of
     [(1, Type_A), (2, Type_NS), (3, Type_MD), (4, Type_MF), (5, Type_CNAME),
      (6, Type_SOA), (7, Type_MB), (8, Type_MG), (9, Type_MR), (10, Type_UNDEFINED),
      (11, Type_WKS), (12, Type_PTR), (13, Type_HINFO), (14, Type_MINFO), (15, Type_MX),
      (16, Type_TXT), (17, Type_RP), (18, Type_AFSDB), (19, Type_X25), (20, Type_ISDN),
      (21, Type_RT), (22, Type_NSAP), (23, Type_NSAPPTR), (24, Type_SIG), (25, Type_KEY),
      (26, Type_PX), (27, Type_GPOS), (28, Type_AAAA), (29, Type_LOC), (30, Type_NXT),
      (31, Type_EID), (32, Type_NIMLOC), (33, Type_SVR), (34, Type_ATMA), (35, Type_NAPTR),
      (36, Type_KX), (37, Type_CERT), (38, Type_A6), (39, Type_DNAME), (40, Type_SINK),
      (41, Type_OPT), (42, Type_APL), (43, Type_DS), (44, Type_SSHFP), (45, Type_IPSECKEY),
      (46, Type_RRSIG), (47, Type_NSEC), (48, Type_DNSKEY), (49, Type_DHCID), (50, Type_NSEC3),
      (51, Type_NSEC3PARAM), (52, Type_TLSA), (53, Type_SMIMEA), (55, Type_HIP), (56, Type_NINFO),
      (57, Type_RKEY), (58, Type_TALINK), (59, Type_CDS), (60, Type_CDNSKEY), (61, Type_OPENPGPKEY),
      (62, Type_CSYNC), (63, Type_ZONEMD), (99, Type_SPF), (100, Type_UINFO), (101, Type_UID),
      (102, Type_GID), (103, Type_UNSPEC), (104, Type_NID), (105, Type_L32), (106, Type_L64),
      (107, Type_LP), (108, Type_EUI48), (109, Type_EUI64), (249, Type_TKEY), (250, Type_TSIG),
      (251, Type_IXFR), (252, Type_AXFR), (253, Type_MAILB), (254, Type_MAILA), (255, Type_ALL),
      (256, Type_URI), (257, Type_CAA), (258, Type_AVC), (259, Type_DOA), (260, Type_AMTRELAY),
      (32768, Type_TA), (32769, Type_DLV)]"

text \<open>Every enumerator is found by its number, and fits in the field that carries it.\<close>

lemma Classification_fromInt [simp]: "Classification_fromInt (Classification_toInt c) = Some c"
  by (cases c) (simp_all add: Classification_fromInt_def)

lemma Direction_fromInt [simp]: "Direction_fromInt (Direction_toInt d) = Some d"
  by (cases d) (simp_all add: Direction_fromInt_def)

lemma Error_fromInt [simp]: "Error_fromInt (Error_toInt e) = Some e"
  by (cases e) (simp_all add: Error_fromInt_def)

lemma Operation_fromInt [simp]: "Operation_fromInt (Operation_toInt p) = Some p"
  by (cases p) (simp_all add: Operation_fromInt_def)

lemma Type_fromInt [simp]: "Type_fromInt (Type_toInt t) = Some t"
  by (cases t) (simp_all add: Type_fromInt_def)

lemma Classification_bounded: "Classification_toInt c < 2 ^ 16"
  by (cases c) simp_all

lemma Direction_bounded: "Direction_toInt d < 2"
  by (cases d) simp_all

lemma Error_bounded: "Error_toInt e < 16"
  by (cases e) simp_all

lemma Operation_bounded: "Operation_toInt p < 16"
  by (cases p) simp_all

lemma Type_bounded: "Type_toInt t < 2 ^ 16"
  by (cases t) simp_all

subsection \<open>Resource record data\<close>

record ResourceRecordDataHinfo =
  hi_cpu :: bytes
  hi_os :: bytes

record ResourceRecordDataMx =
  mx_exchange :: bytes
  mx_preference :: u16

record ResourceRecordDataSoa =
  soa_mname :: bytes
  soa_rname :: bytes
  soa_serial :: u32
  soa_refresh :: u32
  soa_retry :: u32
  soa_expire :: u32
  soa_minimum :: u32

record ResourceRecordDataSvr =
  svr_name :: bytes
  svr_target :: bytes
  svr_ttl :: u32
  svr_classification :: u16
  svr_priority :: u16
  svr_weight :: u16
  svr_port :: u16

record ResourceRecordDataWks =
  wks_port :: "u16 list"
  wks_address :: u32
  wks_protocol :: u8

text \<open>
  The choice of representations. The alternatives with one attribute (\<open>ResourceRecordDataCname\<close>,
  \<open>Ns\<close>, \<open>Ptr\<close>, \<open>Txt\<close>, \<open>A\<close> and \<open>Raw\<close>) are that attribute; the four words of an IPv6 address are a
  tuple.
\<close>

datatype ResourceRecordData =
    RD_UNDEFINED
  | RD_CANONICAL_NAME bytes
  | RD_HOST_INFO ResourceRecordDataHinfo
  | RD_MAIL_EXCHANGE ResourceRecordDataMx
  | RD_NAME_SERVER bytes
  | RD_POINTER bytes
  | RD_ZONE_AUTHORITY ResourceRecordDataSoa
  | RD_WELL_KNOWN_SERVICE ResourceRecordDataWks
  | RD_TEXT "bytes list"
  | RD_IPV4 u32
  | RD_IPV6 "u32 \<times> u32 \<times> u32 \<times> u32"
  | RD_SERVER ResourceRecordDataSvr
  | RD_RAW bytes

end
