(* ===== verification/Dns_Codec.thy ===== *)
theory Dns_Codec
  imports Dns_Vocabulary
begin

section \<open>Encoding to and decoding from memory\<close>

text \<open>
  This theory models \<open>ntcdns::Validation\<close>, \<open>ntcdns::MemoryEncoder\<close> and \<open>ntcdns::MemoryDecoder\<close>
  (\<open>ntcdns_protocol.cpp\<close>). The memory is a list of bytes and the pointers are offsets into it. An
  operation returns \<^term>\<open>None\<close> when it would access memory outside that list; otherwise it returns
  an error, as the code does, or a value. What a failed operation leaves in its output
  parameters is not modelled, except for domain names, where a caller relies on it.
\<close>

subsection \<open>The BDE library\<close>

text \<open>
  What the codec uses of \<open>bdlb\<close>: the representation of integers in memory in the order of the
  network (\<open>BigEndianUint16\<close> and \<open>BigEndianUint32\<close>) and the tokens of a text separated by dots
  (\<open>Tokenizer\<close>).
\<close>

record dns_library =
  dl_store16 :: "u16 \<Rightarrow> bytes"
  dl_load16 :: "bytes \<Rightarrow> u16"
  dl_store32 :: "u32 \<Rightarrow> bytes"
  dl_load32 :: "bytes \<Rightarrow> u32"
  dl_tokens :: "bytes \<Rightarrow> bytes list"

subsection \<open>ntcdns::Validation\<close>

definition k_MAX_LABEL_LENGTH :: nat where
  "k_MAX_LABEL_LENGTH = 63"

definition k_MAX_CHARACTER_STRING_LENGTH :: nat where
  "k_MAX_CHARACTER_STRING_LENGTH = 255"

definition k_MAX_RDATA_LENGTH :: nat where
  "k_MAX_RDATA_LENGTH = 65535"

definition k_MAX_LABEL_RESOLUTION_RECURSION_DEPTH :: nat where
  "k_MAX_LABEL_RESOLUTION_RECURSION_DEPTH = 32"

definition checkOverflow :: "nat \<Rightarrow> nat \<Rightarrow> ntsa_error" where
  "checkOverflow numBytesRemaining numBytesNeeded =
     (if numBytesRemaining < numBytesNeeded then E_INVALID else E_OK)"

definition checkUnderflow :: "nat \<Rightarrow> nat \<Rightarrow> ntsa_error" where
  "checkUnderflow numBytesRemaining numBytesNeeded =
     (if numBytesRemaining < numBytesNeeded then E_INVALID else E_OK)"

definition checkToken :: "bytes \<Rightarrow> ntsa_error" where
  "checkToken token = (if length token > k_MAX_LABEL_LENGTH then E_INVALID else E_OK)"

definition checkCharacterString :: "bytes \<Rightarrow> ntsa_error" where
  "checkCharacterString s =
     (if length s > k_MAX_CHARACTER_STRING_LENGTH then E_INVALID else E_OK)"

definition checkRdata :: "bytes \<Rightarrow> ntsa_error" where
  "checkRdata b = (if length b > k_MAX_RDATA_LENGTH then E_INVALID else E_OK)"

definition checkExpectedRdataLength :: "nat \<Rightarrow> nat \<Rightarrow> ntsa_error" where
  "checkExpectedRdataLength expected found = (if found \<noteq> expected then E_INVALID else E_OK)"

definition checkCoherentRdataLength :: "nat \<Rightarrow> nat \<Rightarrow> ntsa_error" where
  "checkCoherentRdataLength expected found = (if found \<noteq> expected then E_INVALID else E_OK)"

subsection \<open>ntcdns::MemoryEncoder\<close>

record MemoryEncoder =
  me_data :: bytes
  me_current :: nat

type_synonym encoding = "MemoryEncoder \<Rightarrow> (ntsa_error \<times> MemoryEncoder) option"

definition MemoryEncoder_create :: "bytes \<Rightarrow> MemoryEncoder" where
  "MemoryEncoder_create data = \<lparr>me_data = data, me_current = 0\<rparr>"

definition MemoryEncoder_position :: "MemoryEncoder \<Rightarrow> nat" where
  [ntf_defs]: "MemoryEncoder_position e = me_current e"

definition MemoryEncoder_capacity :: "MemoryEncoder \<Rightarrow> nat" where
  [ntf_defs]: "MemoryEncoder_capacity e = length (me_data e)"

text \<open>
  \<open>store\<close> is \<open>memcpy\<close> to the current position followed by its advancement; \<open>enc_then\<close> is the
  sequence of two operations of which the first may return early with an error.
\<close>

definition store :: "bytes \<Rightarrow> encoding" where
  "store bs e =
     (if me_current e + length bs \<le> length (me_data e)
      then Some (E_OK, e\<lparr>me_data := take (me_current e) (me_data e) @ bs @
                                    drop (me_current e + length bs) (me_data e),
                         me_current := me_current e + length bs\<rparr>)
      else None)"

definition enc_return :: "ntsa_error \<Rightarrow> encoding" where
  "enc_return error e = Some (error, e)"

definition enc_then :: "encoding \<Rightarrow> encoding \<Rightarrow> encoding" where
  "enc_then f g e =
     (case f e of None \<Rightarrow> None
      | Some (error, e1) \<Rightarrow> (if error \<noteq> E_OK then Some (error, e1) else g e1))"

definition encodeRaw :: "bytes \<Rightarrow> encoding" where
  "encodeRaw bs e =
     (let error = checkOverflow (length (me_data e) - me_current e) (length bs)
      in if error \<noteq> E_OK then Some (error, e) else store bs e)"

definition encodeUint8 :: "u8 \<Rightarrow> encoding" where
  "encodeUint8 v e =
     (let error = checkOverflow (length (me_data e) - me_current e) 1
      in if error \<noteq> E_OK then Some (error, e) else store [v] e)"

definition encodeUint16 :: "dns_library \<Rightarrow> u16 \<Rightarrow> encoding" where
  "encodeUint16 B v e =
     (let bigEndianValue = dl_store16 B v;
          error = checkOverflow (length (me_data e) - me_current e) (length bigEndianValue)
      in if error \<noteq> E_OK then Some (error, e) else store bigEndianValue e)"

definition encodeUint32 :: "dns_library \<Rightarrow> u32 \<Rightarrow> encoding" where
  "encodeUint32 B v e =
     (let bigEndianValue = dl_store32 B v;
          error = checkOverflow (length (me_data e) - me_current e) (length bigEndianValue)
      in if error \<noteq> E_OK then Some (error, e) else store bigEndianValue e)"

fun encode_tokens :: "bytes list \<Rightarrow> encoding" where
  "encode_tokens [] = enc_return E_OK"
| "encode_tokens (token # tokens) =
     (if checkToken token \<noteq> E_OK then enc_return (checkToken token)
      else enc_then (encodeRaw [of_nat (length token)])
             (enc_then (encodeRaw token) (encode_tokens tokens)))"

definition encodeDomainName :: "dns_library \<Rightarrow> bytes \<Rightarrow> encoding" where
  "encodeDomainName B name = enc_then (encode_tokens (dl_tokens B name)) (encodeRaw [0])"

definition encodeCharacterString :: "bytes \<Rightarrow> encoding" where
  "encodeCharacterString s =
     (if checkCharacterString s \<noteq> E_OK then enc_return (checkCharacterString s)
      else enc_then (encodeRaw [of_nat (length s)]) (encodeRaw s))"

text \<open>\<open>encodeRdata\<close> writes a blob, given by its content.\<close>

definition encodeRdata :: "dns_library \<Rightarrow> bytes \<Rightarrow> encoding" where
  "encodeRdata B b =
     (if checkRdata b \<noteq> E_OK then enc_return (checkRdata b)
      else enc_then (encodeRaw (dl_store16 B (of_nat (length b))))
             (if length b > 0 then encodeRaw b else enc_return E_OK))"

definition MemoryEncoder_seek :: "nat \<Rightarrow> encoding" where
  "MemoryEncoder_seek position e =
     (if position > length (me_data e) then Some (E_INVALID, e)
      else Some (E_OK, e\<lparr>me_current := position\<rparr>))"

definition MemoryEncoder_advance :: "nat \<Rightarrow> encoding" where
  "MemoryEncoder_advance amount e =
     (if me_current e + amount > length (me_data e) then Some (E_INVALID, e)
      else Some (E_OK, e\<lparr>me_current := me_current e + amount\<rparr>))"

definition MemoryEncoder_rewind :: "nat \<Rightarrow> encoding" where
  "MemoryEncoder_rewind amount e =
     (if amount > me_current e then Some (E_INVALID, e)
      else Some (E_OK, e\<lparr>me_current := me_current e - amount\<rparr>))"

subsection \<open>ntcdns::MemoryDecoder\<close>

record MemoryDecoder =
  md_data :: bytes
  md_current :: nat

type_synonym 'a decoding = "MemoryDecoder \<Rightarrow> ((ntsa_error + 'a) \<times> MemoryDecoder) option"

definition MemoryDecoder_create :: "bytes \<Rightarrow> MemoryDecoder" where
  "MemoryDecoder_create data = \<lparr>md_data = data, md_current = 0\<rparr>"

definition MemoryDecoder_position :: "MemoryDecoder \<Rightarrow> nat" where
  [ntf_defs]: "MemoryDecoder_position d = md_current d"

definition MemoryDecoder_capacity :: "MemoryDecoder \<Rightarrow> nat" where
  [ntf_defs]: "MemoryDecoder_capacity d = length (md_data d)"

text \<open>
  \<open>load\<close> reads \<open>n\<close> bytes at an offset and \<open>load_byte\<close> one; \<open>dec_bind\<close> is the sequence of two operations of which the
  first may return early with an error.
\<close>

definition load :: "nat \<Rightarrow> nat \<Rightarrow> bytes \<Rightarrow> bytes option" where
  "load n offset data =
     (if offset + n \<le> length data then Some (take n (drop offset data)) else None)"

definition load_byte :: "nat \<Rightarrow> bytes \<Rightarrow> u8 option" where
  "load_byte offset data = (if offset < length data then Some (data ! offset) else None)"

definition dec_return :: "'a \<Rightarrow> 'a decoding" where
  "dec_return x d = Some (Inr x, d)"

definition dec_fail :: "ntsa_error \<Rightarrow> 'a decoding" where
  "dec_fail error d = Some (Inl error, d)"

definition dec_bind :: "'a decoding \<Rightarrow> ('a \<Rightarrow> 'b decoding) \<Rightarrow> 'b decoding" where
  "dec_bind f g d =
     (case f d of None \<Rightarrow> None
      | Some (Inl error, d1) \<Rightarrow> Some (Inl error, d1)
      | Some (Inr x, d1) \<Rightarrow> g x d1)"

definition dec_position :: "nat decoding" where
  "dec_position d = Some (Inr (MemoryDecoder_position d), d)"

definition dec_check :: "ntsa_error \<Rightarrow> unit decoding" where
  "dec_check error d = (if error \<noteq> E_OK then Some (Inl error, d) else Some (Inr (), d))"

definition decodeRaw :: "nat \<Rightarrow> bytes decoding" where
  "decodeRaw n d =
     (let error = checkUnderflow (length (md_data d) - md_current d) n
      in if error \<noteq> E_OK then Some (Inl error, d)
         else do { bs \<leftarrow> load n (md_current d) (md_data d);
                   Some (Inr bs, d\<lparr>md_current := md_current d + n\<rparr>) })"

definition decodeUint8 :: "u8 decoding" where
  "decodeUint8 d =
     (let error = checkUnderflow (length (md_data d) - md_current d) 1
      in if error \<noteq> E_OK then Some (Inl error, d)
         else do { v \<leftarrow> load_byte (md_current d) (md_data d);
                   Some (Inr v, d\<lparr>md_current := md_current d + 1\<rparr>) })"

definition decodeUint16 :: "dns_library \<Rightarrow> u16 decoding" where
  "decodeUint16 B = dec_bind (decodeRaw 2) (\<lambda>bs. dec_return (dl_load16 B bs))"

definition decodeUint32 :: "dns_library \<Rightarrow> u32 decoding" where
  "decodeUint32 B = dec_bind (decodeRaw 4) (\<lambda>bs. dec_return (dl_load32 B bs))"

text \<open>
  The separator is appended before a label unless the name is still empty. \<open>0xC0\<close> marks a
  reference, whose lower bits are the upper part of an offset.
\<close>

definition separated :: "bytes \<Rightarrow> bytes" where
  "separated name = (if name \<noteq> [] then name @ [46] else name)"

definition is_reference :: "u8 \<Rightarrow> bool" where
  "is_reference len \<longleftrightarrow> and len 0xC0 = 0xC0"

definition reference_offset :: "u8 \<Rightarrow> u8 \<Rightarrow> nat" where
  "reference_offset upper lower = unat (and upper 0x3F) * 256 + unat lower"

text \<open>
  \<open>decodeLabel\<close> resolves the name at an offset. The loop over the labels is \<open>label_loop\<close>: it has read
  \<open>name\<close> so far and stands at \<open>current\<close>. A reference starts over at another offset, which is
  bounded by the depth.
\<close>

function (sequential) label_loop ::
  "bytes \<Rightarrow> nat \<Rightarrow> nat \<Rightarrow> bytes \<Rightarrow> (ntsa_error + bytes) option" where
  "label_loop data depth current name =
     (if checkUnderflow (length data - current) 1 \<noteq> E_OK
      then Some (Inl (checkUnderflow (length data - current) 1))
      else
        case load_byte current data of
          None \<Rightarrow> None
        | Some len \<Rightarrow>
            (let current1 = current + 1
             in if len = 0 then Some (Inr name)
                else if unat len \<le> k_MAX_LABEL_LENGTH then
                  (if checkUnderflow (length data - current1) (unat len) \<noteq> E_OK
                   then Some (Inl (checkUnderflow (length data - current1) (unat len)))
                   else
                     case load (unat len) current1 data of
                       None \<Rightarrow> None
                     | Some label \<Rightarrow>
                         label_loop data depth (current1 + unat len) (separated name @ label))
                else if depth < k_MAX_LABEL_RESOLUTION_RECURSION_DEPTH then
                  (if is_reference len then
                     (if checkUnderflow (length data - current1) 1 \<noteq> E_OK
                      then Some (Inl (checkUnderflow (length data - current1) 1))
                      else
                        case load_byte current1 data of
                          None \<Rightarrow> None
                        | Some lower \<Rightarrow>
                            (let offset = reference_offset len lower
                             in if offset > length data then Some (Inl E_INVALID)
                                else
                                  case label_loop data (depth + 1) offset [] of
                                    None \<Rightarrow> None
                                  | Some (Inl error) \<Rightarrow> Some (Inl error)
                                  | Some (Inr reference) \<Rightarrow> Some (Inr (separated name @ reference))))
                   else Some (Inl E_INVALID))
                else Some (Inl E_INVALID)))"
  by pat_completeness auto
termination
  by (relation "measures [\<lambda>(data, depth, current, name). k_MAX_LABEL_RESOLUTION_RECURSION_DEPTH - depth,
       \<lambda>(data, depth, current, name). length data - current]")
     (auto simp: checkUnderflow_def split: if_splits)

declare label_loop.simps [simp del]

definition decodeLabel :: "bytes \<Rightarrow> nat \<Rightarrow> nat \<Rightarrow> (ntsa_error + bytes) option" where
  "decodeLabel data depth offset =
     (if offset > length data then Some (Inl E_INVALID) else label_loop data depth offset [])"

text \<open>
  \<open>decodeDomainName\<close> returns the error, the name read so far and the decoder: the separator is
  appended before the length of the label is checked. \<open>name_loop\<close> is its loop.
\<close>

function (sequential) name_loop ::
  "bytes \<Rightarrow> nat \<Rightarrow> bytes \<Rightarrow> (ntsa_error \<times> bytes \<times> nat) option" where
  "name_loop data current name =
     (if checkUnderflow (length data - current) 1 \<noteq> E_OK
      then Some (checkUnderflow (length data - current) 1, name, current)
      else
        case load_byte current data of
          None \<Rightarrow> None
        | Some len \<Rightarrow>
            (let current1 = current + 1
             in if len = 0 then Some (E_OK, name, current1)
                else if unat len \<le> k_MAX_LABEL_LENGTH then
                  (if checkUnderflow (length data - current1) (unat len) \<noteq> E_OK
                   then Some (checkUnderflow (length data - current1) (unat len), separated name, current1)
                   else
                     case load (unat len) current1 data of
                       None \<Rightarrow> None
                     | Some label \<Rightarrow>
                         name_loop data (current1 + unat len) (separated name @ label))
                else if is_reference len then
                  (if checkUnderflow (length data - current1) 1 \<noteq> E_OK
                   then Some (checkUnderflow (length data - current1) 1, name, current1)
                   else
                     case load_byte current1 data of
                       None \<Rightarrow> None
                     | Some lower \<Rightarrow>
                         (case decodeLabel data 0 (reference_offset len lower) of
                            None \<Rightarrow> None
                          | Some (Inl error) \<Rightarrow> Some (error, name, current1 + 1)
                          | Some (Inr reference) \<Rightarrow>
                              Some (E_OK, separated name @ reference, current1 + 1)))
                else Some (E_INVALID, name, current1)))"
  by pat_completeness auto
termination
  by (relation "measure (\<lambda>(data, current, name). length data - current)")
     (auto simp: checkUnderflow_def split: if_splits)

declare name_loop.simps [simp del]

definition decodeDomainName_partial :: "MemoryDecoder \<Rightarrow> (ntsa_error \<times> bytes \<times> MemoryDecoder) option" where
  "decodeDomainName_partial d =
     do { (error, name, current) \<leftarrow> name_loop (md_data d) (md_current d) [];
          Some (error, name, d\<lparr>md_current := current\<rparr>) }"

definition decodeDomainName :: "bytes decoding" where
  "decodeDomainName d =
     do { (error, name, d1) \<leftarrow> decodeDomainName_partial d;
          Some (if error \<noteq> E_OK then (Inl error, d1) else (Inr name, d1)) }"

definition decodeCharacterString :: "bytes decoding" where
  "decodeCharacterString =
     dec_bind decodeUint8 (\<lambda>len. if len > 0 then decodeRaw (unat len) else dec_return [])"

definition decodeRdata :: "dns_library \<Rightarrow> bytes decoding" where
  "decodeRdata B =
     dec_bind (decodeUint16 B) (\<lambda>len. if len > 0 then decodeRaw (unat len) else dec_return [])"

definition MemoryDecoder_seek :: "nat \<Rightarrow> unit decoding" where
  "MemoryDecoder_seek position d =
     (if position > length (md_data d) then Some (Inl E_INVALID, d)
      else Some (Inr (), d\<lparr>md_current := position\<rparr>))"

definition MemoryDecoder_advance :: "nat \<Rightarrow> unit decoding" where
  "MemoryDecoder_advance amount d =
     (if md_current d + amount > length (md_data d) then Some (Inl E_INVALID, d)
      else Some (Inr (), d\<lparr>md_current := md_current d + amount\<rparr>))"

definition MemoryDecoder_rewind :: "nat \<Rightarrow> unit decoding" where
  "MemoryDecoder_rewind amount d =
     (if amount > md_current d then Some (Inl E_INVALID, d)
      else Some (Inr (), d\<lparr>md_current := md_current d - amount\<rparr>))"

subsection \<open>Accesses stay within the memory\<close>

text \<open>
  The contract of a decoding: it never reads outside the memory, and it returns with a position
  between the one it started at and the end.
\<close>

abbreviation decoder_ok :: "MemoryDecoder \<Rightarrow> bool" where
  "decoder_ok d \<equiv> md_current d \<le> length (md_data d)"

definition within :: "MemoryDecoder \<Rightarrow> MemoryDecoder \<Rightarrow> bool" where
  "within d d' \<longleftrightarrow> md_data d' = md_data d \<and> md_current d \<le> md_current d' \<and> decoder_ok d'"

definition bounded :: "'a decoding \<Rightarrow> bool" where
  "bounded m \<longleftrightarrow> (\<forall>d. decoder_ok d \<longrightarrow> (\<exists>r d'. m d = Some (r, d') \<and> within d d'))"

named_theorems bounded_intros \<open>decodings that stay within the memory\<close>

lemma within_refl [simp]: "decoder_ok d \<Longrightarrow> within d d"
  by (simp add: within_def)

lemma within_trans: "within d d1 \<Longrightarrow> within d1 d2 \<Longrightarrow> within d d2"
  by (auto simp: within_def)

lemma bounded_return [bounded_intros]: "bounded (dec_return x)"
  by (simp add: bounded_def dec_return_def)

lemma bounded_fail [bounded_intros]: "bounded (dec_fail error)"
  by (simp add: bounded_def dec_fail_def)

lemma bounded_position [bounded_intros]: "bounded dec_position"
  by (simp add: bounded_def dec_position_def)

lemma bounded_check [bounded_intros]: "bounded (dec_check error)"
  by (simp add: bounded_def dec_check_def)

lemma bounded_bind [bounded_intros]:
  assumes "bounded f" and "\<And>x. bounded (g x)"
  shows "bounded (dec_bind f g)"
  unfolding bounded_def
proof (intro allI impI)
  fix d :: MemoryDecoder
  assume "decoder_ok d"
  then obtain r d1 where r: "f d = Some (r, d1)" "within d d1" using assms(1) by (auto simp: bounded_def)
  show "\<exists>r d'. dec_bind f g d = Some (r, d') \<and> within d d'"
  proof (cases r)
    case (Inl error)
    with r show ?thesis by (simp add: dec_bind_def)
  next
    case (Inr x)
    have "decoder_ok d1" using r(2) unfolding within_def by blast
    then obtain r' d2 where "g x d1 = Some (r', d2)" "within d1 d2"
      using assms(2) [of x] unfolding bounded_def by blast
    with r Inr within_trans [OF r(2)] show ?thesis by (simp add: dec_bind_def)
  qed
qed

lemma bounded_if [bounded_intros]: "bounded f \<Longrightarrow> bounded g \<Longrightarrow> bounded (if b then f else g)"
  by simp

lemma bounded_raw [bounded_intros]: "bounded (decodeRaw n)"
  by (auto simp: bounded_def decodeRaw_def checkUnderflow_def load_def within_def Let_def)

lemma bounded_integers [bounded_intros]:
  "bounded decodeUint8" "bounded (decodeUint16 B)" "bounded (decodeUint32 B)"
proof -
  show "bounded decodeUint8"
    by (auto simp: bounded_def decodeUint8_def checkUnderflow_def load_byte_def within_def Let_def)
  show "bounded (decodeUint16 B)" "bounded (decodeUint32 B)"
    unfolding decodeUint16_def decodeUint32_def by (intro bounded_intros)+
qed

text \<open>The loop over labels without the checks that its accesses make redundant.\<close>

lemma load_ok: "i + n \<le> length data \<Longrightarrow> load n i data = Some (take n (drop i data))"
  by (simp add: load_def)

lemma load_byte_ok: "i < length data \<Longrightarrow> load_byte i data = Some (data ! i)"
  by (simp add: load_byte_def)

lemma label_loop_unfold:
  "label_loop data depth current name =
     (if length data \<le> current then Some (Inl E_INVALID)
      else let len = data ! current in
        if len = 0 then Some (Inr name)
        else if unat len \<le> 63 then
          (if length data < current + 1 + unat len then Some (Inl E_INVALID)
           else label_loop data depth (current + 1 + unat len)
                  (separated name @ take (unat len) (drop (current + 1) data)))
        else if depth < 32 \<and> is_reference len \<and> current + 1 < length data \<and>
                reference_offset len (data ! (current + 1)) \<le> length data then
          (case label_loop data (depth + 1) (reference_offset len (data ! (current + 1))) [] of
             None \<Rightarrow> None
           | Some (Inl error) \<Rightarrow> Some (Inl error)
           | Some (Inr reference) \<Rightarrow> Some (Inr (separated name @ reference)))
        else Some (Inl E_INVALID))"
proof (cases "current < length data")
  case False
  then show ?thesis by (simp add: label_loop.simps [of data] checkUnderflow_def)
next
  case True
  define len where "len = data ! current"
  note step = label_loop.simps [of data depth current name]
  have head: "load_byte current data = Some len" "\<not> length data - current < 1"
    using True by (simp_all add: load_byte_ok len_def)
  have over: "length data - Suc current < unat len \<longleftrightarrow> length data < Suc (current + unat len)"
    using True by linarith
  consider "len = 0" | "len \<noteq> 0" "unat len \<le> 63" | "len \<noteq> 0" "\<not> unat len \<le> 63" by blast
  then show ?thesis
  proof cases
    case 1
    then show ?thesis using True head by (simp add: step checkUnderflow_def len_def)
  next
    case 2
    then show ?thesis
      using True head load_ok [of "current + 1" "unat len" data]
      by (cases "length data < current + 1 + unat len")
         (simp_all add: step checkUnderflow_def k_MAX_LABEL_LENGTH_def over len_def [symmetric] Let_def)
  next
    case 3
    then show ?thesis
      using True head load_byte_ok [of "current + 1" data]
      by (cases "current + 1 < length data")
         (simp_all add: step checkUnderflow_def k_MAX_LABEL_LENGTH_def k_MAX_LABEL_RESOLUTION_RECURSION_DEPTH_def
           len_def Let_def not_less)
  qed
qed

text \<open>
  Induction along the loop: it goes on behind a label or, one level deeper, anywhere.
\<close>

lemma label_induct:
  assumes step: "\<And>depth current name.
      (\<And>current' name'. current < current' \<Longrightarrow> current' \<le> length data \<Longrightarrow> P depth current' name') \<Longrightarrow>
      (\<And>offset. depth < 32 \<Longrightarrow> P (depth + 1) offset []) \<Longrightarrow> P depth current name"
  shows "P (depth :: nat) (current :: nat) (name :: bytes)"
proof (induction "32 - depth" arbitrary: depth current name rule: less_induct)
  case (less depth current name)
  note deeper = less
  show ?case
  proof (induction "length data - current" arbitrary: current name rule: less_induct)
    case (less current name)
    show ?case
    proof (rule step)
      show "P depth current' name'" if "current < current'" "current' \<le> length data" for current' name'
        using less that by simp
      show "P (depth + 1) offset []" if "depth < 32" for offset
        using deeper that by simp
    qed
  qed
qed

lemma label_loop_returns: "\<exists>r. label_loop data depth current name = Some r"
proof (induction depth current name rule: label_induct [of data])
  case (1 depth current name)
  show ?case
  proof (cases "current < length data \<and> depth < 32 \<and> \<not> unat (data ! current) \<le> 63")
    case True
    from 1(2) [of "reference_offset (data ! current) (data ! (current + 1))"] True obtain r where
      "label_loop data (depth + 1) (reference_offset (data ! current) (data ! (current + 1))) [] = Some r" by blast
    then show ?thesis using True by (subst label_loop_unfold) (auto simp: Let_def split: sum.split)
  next
    case False
    then show ?thesis using 1(1) by (subst label_loop_unfold) (auto simp: Let_def)
  qed
qed

lemma decodeLabel_returns: "\<exists>r. decodeLabel data depth offset = Some r"
  by (simp add: decodeLabel_def label_loop_returns)

text \<open>The same for the loop of \<open>decodeDomainName\<close>.\<close>

lemma name_loop_unfold:
  "name_loop data current name =
     (if length data \<le> current then Some (E_INVALID, name, current)
      else let len = data ! current in
        if len = 0 then Some (E_OK, name, current + 1)
        else if unat len \<le> 63 then
          (if length data < current + 1 + unat len then Some (E_INVALID, separated name, current + 1)
           else name_loop data (current + 1 + unat len)
                  (separated name @ take (unat len) (drop (current + 1) data)))
        else if is_reference len then
          (if length data \<le> current + 1 then Some (E_INVALID, name, current + 1)
           else case decodeLabel data 0 (reference_offset len (data ! (current + 1))) of
             None \<Rightarrow> None
           | Some (Inl error) \<Rightarrow> Some (error, name, current + 2)
           | Some (Inr reference) \<Rightarrow> Some (E_OK, separated name @ reference, current + 2))
        else Some (E_INVALID, name, current + 1))"
proof (cases "current < length data")
  case False
  then show ?thesis by (simp add: name_loop.simps [of data] checkUnderflow_def)
next
  case True
  define len where "len = data ! current"
  note step = name_loop.simps [of data current name]
  have head: "load_byte current data = Some len" "\<not> length data - current < 1"
    using True by (simp_all add: load_byte_ok len_def)
  have over: "length data - Suc current < unat len \<longleftrightarrow> length data < Suc (current + unat len)"
    using True by linarith
  consider "len = 0" | "len \<noteq> 0" "unat len \<le> 63" | "len \<noteq> 0" "\<not> unat len \<le> 63" by blast
  then show ?thesis
  proof cases
    case 1
    then show ?thesis using True head by (simp add: step checkUnderflow_def len_def)
  next
    case 2
    then show ?thesis
      using True head load_ok [of "current + 1" "unat len" data]
      by (cases "length data < current + 1 + unat len")
         (simp_all add: step checkUnderflow_def k_MAX_LABEL_LENGTH_def over len_def [symmetric] Let_def)
  next
    case 3
    then show ?thesis
      using True head load_byte_ok [of "current + 1" data]
      by (cases "current + 1 < length data")
         (simp_all add: step checkUnderflow_def k_MAX_LABEL_LENGTH_def len_def Let_def not_less split: option.split sum.split)
  qed
qed

lemma name_loop_returns:
  assumes "current \<le> length data"
  shows "\<exists>error name' current'. name_loop data current name = Some (error, name', current') \<and>
     current \<le> current' \<and> current' \<le> length data"
  using assms
proof (induction "length data - current" arbitrary: current name rule: less_induct)
  case less
  show ?case
  proof (cases "current < length data \<and> data ! current \<noteq> 0 \<and> unat (data ! current) \<le> 63 \<and>
      current + 1 + unat (data ! current) \<le> length data")
    case True
    then have "length data - (current + 1 + unat (data ! current)) < length data - current" by linarith
    from less.hyps [OF this, of "separated name @ take (unat (data ! current)) (drop (current + 1) data)"] True
    show ?thesis by (subst name_loop_unfold) (auto simp: Let_def)
  next
    case False
    obtain r where "decodeLabel data 0 (reference_offset (data ! current) (data ! (current + 1))) = Some r"
      using decodeLabel_returns by blast
    with False less.prems show ?thesis
      by (subst name_loop_unfold) (auto simp: Let_def split: sum.split)
  qed
qed

lemma bounded_name [bounded_intros]: "bounded decodeDomainName"
proof -
  have "\<exists>r d'. decodeDomainName d = Some (r, d') \<and> within d d'" if "decoder_ok d" for d
    using name_loop_returns [OF that, of "[]"]
    by (auto simp: decodeDomainName_def decodeDomainName_partial_def within_def)
  then show ?thesis by (simp add: bounded_def)
qed

lemma bounded_strings [bounded_intros]: "bounded decodeCharacterString" "bounded (decodeRdata B)"
  unfolding decodeCharacterString_def decodeRdata_def by (intro bounded_intros)+

text \<open>
  The contract of an encoding: it never writes outside the memory, nor before the position it
  started at, and it does not return to a position before that one.
\<close>

abbreviation encoder_ok :: "MemoryEncoder \<Rightarrow> bool" where
  "encoder_ok e \<equiv> me_current e \<le> length (me_data e)"

definition extends :: "MemoryEncoder \<Rightarrow> MemoryEncoder \<Rightarrow> bool" where
  "extends e e' \<longleftrightarrow> length (me_data e') = length (me_data e) \<and> me_current e \<le> me_current e' \<and>
     encoder_ok e' \<and> take (me_current e) (me_data e') = take (me_current e) (me_data e)"

definition confined :: "encoding \<Rightarrow> bool" where
  "confined f \<longleftrightarrow> (\<forall>e. encoder_ok e \<longrightarrow> (\<exists>error e'. f e = Some (error, e') \<and> extends e e'))"

named_theorems confined_intros \<open>encodings that stay within the memory\<close>

lemma extends_refl [simp]: "encoder_ok e \<Longrightarrow> extends e e"
  by (simp add: extends_def)

lemma extends_trans:
  assumes "extends e e1" and "extends e1 e2"
  shows "extends e e2"
proof -
  have le: "me_current e \<le> me_current e1" using assms(1) by (simp add: extends_def)
  have "take (me_current e1) (me_data e2) = take (me_current e1) (me_data e1)"
    using assms(2) by (simp add: extends_def)
  then have "take (me_current e) (take (me_current e1) (me_data e2)) =
      take (me_current e) (take (me_current e1) (me_data e1))" by simp
  then have "take (me_current e) (me_data e2) = take (me_current e) (me_data e1)"
    using le by (simp add: min_absorb1)
  then show ?thesis using assms by (simp add: extends_def)
qed

lemma confined_return [confined_intros]: "confined (enc_return error)"
  by (simp add: confined_def enc_return_def)

lemma confined_then [confined_intros]:
  assumes "confined f" and "confined g"
  shows "confined (enc_then f g)"
  unfolding confined_def
proof (intro allI impI)
  fix e :: MemoryEncoder
  assume "encoder_ok e"
  then obtain error e1 where f: "f e = Some (error, e1)" "extends e e1"
    using assms(1) unfolding confined_def by blast
  then have "encoder_ok e1" by (simp add: extends_def)
  then obtain error' e2 where "g e1 = Some (error', e2)" "extends e1 e2"
    using assms(2) unfolding confined_def by blast
  with f extends_trans [OF f(2)] show "\<exists>error e'. enc_then f g e = Some (error, e') \<and> extends e e'"
    by (simp add: enc_then_def)
qed

lemma confined_if [confined_intros]: "confined f \<Longrightarrow> confined g \<Longrightarrow> confined (if b then f else g)"
  by simp

lemma encode_integers:
  "encodeUint8 v = encodeRaw [v]" "encodeUint16 B w = encodeRaw (dl_store16 B w)"
  "encodeUint32 B x = encodeRaw (dl_store32 B x)"
  by (simp_all add: fun_eq_iff encodeUint8_def encodeUint16_def encodeUint32_def encodeRaw_def Let_def)

lemma confined_raw [confined_intros]: "confined (encodeRaw bs)"
  by (auto simp: confined_def encodeRaw_def checkOverflow_def Let_def store_def extends_def)

lemma confined_integers [confined_intros]:
  "confined (encodeUint8 v)" "confined (encodeUint16 B w)" "confined (encodeUint32 B x)"
  by (simp_all add: encode_integers confined_raw)

lemma confined_tokens [confined_intros]: "confined (encode_tokens tokens)"
  by (induction tokens) (auto intro!: confined_intros)

lemma confined_strings [confined_intros]:
  "confined (encodeDomainName B name)" "confined (encodeCharacterString s)" "confined (encodeRdata B b)"
  unfolding encodeDomainName_def encodeCharacterString_def encodeRdata_def
  by (intro confined_intros)+

end
