(* ===== verification/Dns_Names.thy ===== *)
theory Dns_Names
  imports Dns_Codec
begin

section \<open>Domain names\<close>

text \<open>
  What the decoding of a domain name computes (\<open>ntcdns::MemoryDecoder::decodeDomainName\<close> and
  \<open>decodeLabel\<close>): a bound on the length of the name it returns, and its agreement with a
  specification of the representation of names, labels and references.
\<close>

subsection \<open>How long a name can get\<close>

text \<open>
  References let a short message describe a long name, but each level of references contributes at
  most the message once.
\<close>

lemma separated_length: "length (separated name) \<le> length name + 1"
  by (simp add: separated_def)

lemma label_loop_result:
  assumes "label_loop data depth current name = Some (Inr result)"
  obtains (stop) "result = name" "current < length data" "data ! current = 0"
  | (label) len where "current + 1 + len \<le> length data"
      "label_loop data depth (current + 1 + len) (separated name @ take len (drop (current + 1) data)) =
         Some (Inr result)"
      "len = unat (data ! current)" "data ! current \<noteq> 0" "len \<le> 63"
  | (ref) offset reference where "depth < 32" "label_loop data (depth + 1) offset [] = Some (Inr reference)"
      "result = separated name @ reference"
      "offset = reference_offset (data ! current) (data ! (current + 1))"
      "current + 1 < length data" "is_reference (data ! current)"
proof -
  define len where "len = data ! current"
  define offset where "offset = reference_offset len (data ! (current + 1))"
  note run = assms [unfolded label_loop_unfold [of data depth current name] Let_def, folded len_def,
      folded offset_def]
  have inside: "\<not> length data \<le> current" using run by (cases "length data \<le> current") simp_all
  consider "len = 0" | "len \<noteq> 0" "unat len \<le> 63" | "len \<noteq> 0" "\<not> unat len \<le> 63" by blast
  then show thesis
  proof cases
    case 1
    with run inside stop show ?thesis by (simp add: len_def)
  next
    case 2
    with run inside show ?thesis
      by (cases "length data < current + 1 + unat len") (simp_all add: label [of "unat len"] len_def)
  next
    case 3
    with run inside have go: "depth < 32" "current + 1 < length data" "is_reference len"
      "(case label_loop data (depth + 1) offset [] of None \<Rightarrow> None
        | Some (Inl error) \<Rightarrow> Some (Inl error)
        | Some (Inr reference) \<Rightarrow> Some (Inr (separated name @ reference))) = Some (Inr result)"
      by (simp_all split: if_splits)
    then show ?thesis by (auto intro: ref [of offset] simp: offset_def len_def split: option.splits sum.splits)
  qed
qed

lemma label_loop_length:
  assumes "label_loop data depth current name = Some (Inr result)" and "depth \<le> 32"
  shows "length result \<le> length name + (length data - current) + (32 - depth) * (length data + 1)"
  using assms
proof (induction depth current name arbitrary: result rule: label_induct [of data])
  case (1 depth current name)
  from 1(3) show ?case
  proof (cases rule: label_loop_result)
    case stop
    then show ?thesis by simp
  next
    case (label len)
    have "length result \<le> length (separated name @ take len (drop (current + 1) data)) +
        (length data - (current + 1 + len)) + (32 - depth) * (length data + 1)"
      by (rule 1(1) [OF _ label(1) label(2) 1(4)]) simp
    moreover have "length (take len (drop (current + 1) data)) \<le> len" by simp
    ultimately show ?thesis using separated_length [of name] label(1) by simp
  next
    case (ref offset reference)
    have "length reference \<le> length ([] :: bytes) + (length data - offset) + (32 - (depth + 1)) * (length data + 1)"
      by (rule 1(2) [OF ref(1,2)]) (use ref(1) in simp)
    then have "length reference + 1 \<le> (32 - (depth + 1) + 1) * (length data + 1)" by simp
    moreover have "32 - (depth + 1) + 1 = 32 - depth" using ref(1) by simp
    ultimately have "length reference + 1 \<le> (32 - depth) * (length data + 1)" by metis
    then show ?thesis using ref(3) separated_length [of name] by simp
  qed
qed

lemma label_loop_error: "label_loop data depth current name = Some (Inl error) \<Longrightarrow> error = E_INVALID"
proof (induction depth current name arbitrary: error rule: label_induct [of data])
  case (1 depth current name)
  define len where "len = data ! current"
  define offset where "offset = reference_offset len (data ! (current + 1))"
  note run = 1(3) [unfolded label_loop_unfold [of data depth current name] Let_def, folded len_def,
      folded offset_def]
  consider "length data \<le> current" | "\<not> length data \<le> current" "len = 0"
    | "\<not> length data \<le> current" "len \<noteq> 0" "unat len \<le> 63"
    | "\<not> length data \<le> current" "len \<noteq> 0" "\<not> unat len \<le> 63" by blast
  then show ?case
  proof cases
    case 3
    with run 1(1) [of "current + 1 + unat len"] show ?thesis
      by (cases "length data < current + 1 + unat len") simp_all
  next
    case 4
    with run show ?thesis
      using 1(2) [of offset] by (simp split: if_splits option.splits sum.splits)
  qed (use run in simp_all)
qed

lemma name_loop_result:
  assumes "name_loop data current name = Some (E_OK, result, current')"
  obtains (stop) "result = name" "current < length data" "data ! current = 0"
  | (label) len where "current + 1 + len \<le> length data"
      "name_loop data (current + 1 + len) (separated name @ take len (drop (current + 1) data)) =
         Some (E_OK, result, current')"
      "len = unat (data ! current)" "data ! current \<noteq> 0" "len \<le> 63"
  | (ref) offset reference where "label_loop data 0 offset [] = Some (Inr reference)"
      "result = separated name @ reference"
      "offset = reference_offset (data ! current) (data ! (current + 1))"
      "current + 1 < length data" "is_reference (data ! current)"
proof -
  define len where "len = data ! current"
  define offset where "offset = reference_offset len (data ! (current + 1))"
  note run = assms [unfolded name_loop_unfold [of data current name] Let_def, folded len_def,
      folded offset_def]
  have inside: "\<not> length data \<le> current" using run by (cases "length data \<le> current") simp_all
  consider "len = 0" | "len \<noteq> 0" "unat len \<le> 63" | "len \<noteq> 0" "\<not> unat len \<le> 63" by blast
  then show thesis
  proof cases
    case 1
    with run inside stop show ?thesis by (simp add: len_def)
  next
    case 2
    with run inside show ?thesis
      by (cases "length data < current + 1 + unat len") (simp_all add: label [of "unat len"] len_def)
  next
    case 3
    with run inside have go: "current + 1 < length data" "is_reference len"
      "(case decodeLabel data 0 offset of
             None \<Rightarrow> None
           | Some (Inl error) \<Rightarrow> Some (error, name, current + 2)
           | Some (Inr reference) \<Rightarrow> Some (E_OK, separated name @ reference, current + 2)) =
         Some (E_OK, result, current')"
      by (simp_all split: if_splits)
    then obtain reference where "decodeLabel data 0 offset = Some (Inr reference) \<and>
          result = separated name @ reference \<or> decodeLabel data 0 offset = Some (Inl E_OK)"
      by (auto split: option.splits sum.splits)
    then show ?thesis
      using go(1,2) ref [of offset reference]
      by (auto simp: decodeLabel_def offset_def len_def dest: label_loop_error split: if_splits)
  qed
qed

lemma name_loop_length:
  assumes "name_loop data current name = Some (E_OK, result, current')"
  shows "length result \<le> length name + (length data - current) + 33 * (length data + 1)"
  using assms
proof (induction "length data - current" arbitrary: current name rule: less_induct)
  case less
  from less.prems show ?case
  proof (cases rule: name_loop_result)
    case stop
    then show ?thesis by simp
  next
    case (label len)
    have "length result \<le> length (separated name @ take len (drop (current + 1) data)) +
        (length data - (current + 1 + len)) + 33 * (length data + 1)"
      by (rule less.hyps [OF _ label(2)]) (use label(1) in simp)
    moreover have "length (take len (drop (current + 1) data)) \<le> len" by simp
    ultimately show ?thesis using separated_length [of name] label(1) by simp
  next
    case (ref offset reference)
    from label_loop_length [OF ref(1)] have "length reference \<le> length data + 32 * (length data + 1)" by simp
    then show ?thesis using ref(2) separated_length [of name] by simp
  qed
qed

subsection \<open>What a name denotes\<close>

text \<open>
  The specification (RFC 1035, section 4.1.4): a name in a message is a sequence of labels that
  ends with a zero byte or with a reference to another name of the message.
  \<open>denotes data n offset labels\<close> holds when the name at \<open>offset\<close> has these labels and is resolved
  through \<open>n\<close> references.
\<close>

inductive denotes :: "bytes \<Rightarrow> nat \<Rightarrow> nat \<Rightarrow> bytes list \<Rightarrow> bool" for data where
  root: "offset < length data \<Longrightarrow> data ! offset = 0 \<Longrightarrow> denotes data 0 offset []"
| label: "offset < length data \<Longrightarrow> data ! offset \<noteq> 0 \<Longrightarrow> unat (data ! offset) \<le> 63 \<Longrightarrow>
    offset + 1 + unat (data ! offset) \<le> length data \<Longrightarrow>
    denotes data n (offset + 1 + unat (data ! offset)) labels \<Longrightarrow>
    denotes data n offset (take (unat (data ! offset)) (drop (offset + 1) data) # labels)"
| reference: "offset + 1 < length data \<Longrightarrow> is_reference (data ! offset) \<Longrightarrow>
    denotes data n (reference_offset (data ! offset) (data ! (offset + 1))) labels \<Longrightarrow>
    denotes data (Suc n) offset labels"

inductive_cases denotes_cases: "denotes data n offset labels"

text \<open>The text of a name: its labels separated by dots.\<close>

fun dotted :: "bytes list \<Rightarrow> bytes" where
  "dotted [] = []"
| "dotted (label # labels) = label @ concat (map (\<lambda>l. 46 # l) labels)"

definition joined :: "bytes \<Rightarrow> bytes list \<Rightarrow> bytes" where
  "joined name labels = (if name = [] then dotted labels else name @ concat (map (\<lambda>l. 46 # l) labels))"

lemma joined_Nil [simp]: "joined name [] = name" "joined [] labels = dotted labels"
  by (simp_all add: joined_def)

lemma joined_Cons: "label \<noteq> [] \<Longrightarrow> joined (separated name @ label) labels = joined name (label # labels)"
  by (simp add: joined_def separated_def)

lemma joined_dotted: "labels \<noteq> [] \<Longrightarrow> separated name @ dotted labels = joined name labels"
  by (cases labels) (simp_all add: joined_def separated_def)

text \<open>
  A reference to the root after a label leaves the separator behind: the name \<open>a\<close> is then read
  as \<open>a.\<close>, with the same labels.
\<close>

definition name_texts :: "bytes \<Rightarrow> bytes list \<Rightarrow> bytes set" where
  "name_texts name labels = {joined name labels} \<union> (if joined name labels = [] then {} else {joined name labels @ [46]})"

lemma name_texts_Cons:
  "label \<noteq> [] \<Longrightarrow> name_texts (separated name @ label) labels = name_texts name (label # labels)"
  by (simp add: name_texts_def joined_Cons)

lemma take_label_nonempty:
  "offset + 1 + unat (data ! offset) \<le> length data \<Longrightarrow> data ! offset \<noteq> 0 \<Longrightarrow>
   take (unat (data ! offset)) (drop (offset + 1) data) \<noteq> []"
  using unat_gt_0 [of "data ! offset"] by (auto simp: not_le)

lemma separated_reference:
  "reference \<in> name_texts [] labels \<Longrightarrow> separated name @ reference \<in> name_texts name labels"
  by (cases labels) (auto simp: name_texts_def separated_def joined_def split: if_splits)

lemma not_reference: "unat len \<le> 63 \<Longrightarrow> \<not> is_reference len"
proof -
  assume "unat len \<le> 63"
  then have "len < 2 ^ 6" by (simp add: word_less_nat_alt)
  then have "drop_bit 6 len = 0" by (simp add: drop_bit_eq_div word_less_nat_alt div_word_less)
  then have "\<not> bit (drop_bit 6 len) 1" by simp
  then have "\<not> bit len 7" by (simp add: bit_drop_bit_eq)
  moreover have "bit (and len 0xC0) 7 \<longleftrightarrow> bit len 7" by (simp add: bit_simps)
  ultimately show ?thesis by (auto simp: is_reference_def)
qed


lemma denotes_inside: "denotes data n offset labels \<Longrightarrow> offset < length data"
  by (induction rule: denotes.induct) simp_all

text \<open>What the loops return is what the name denotes.\<close>

lemma label_loop_sound:
  assumes "label_loop data depth current name = Some (Inr result)" and "depth \<le> 32"
  shows "\<exists>n labels. depth + n \<le> 32 \<and> denotes data n current labels \<and> result \<in> name_texts name labels"
  using assms
proof (induction depth current name arbitrary: result rule: label_induct [of data])
  case (1 depth current name)
  from 1(3) show ?case
  proof (cases rule: label_loop_result)
    case stop
    then show ?thesis using 1(4) denotes.root by (intro exI [of _ 0] exI [of _ "[]"]) (simp add: name_texts_def)
  next
    case (label len)
    from 1(1) [OF _ label(1) label(2) 1(4)] obtain n labels where
      ih: "depth + n \<le> 32" "denotes data n (current + 1 + len) labels"
        "result \<in> name_texts (separated name @ take len (drop (current + 1) data)) labels" by auto
    have "denotes data n current (take len (drop (current + 1) data) # labels)"
      unfolding label(3) by (rule denotes.label) (use label ih(2) in simp_all)
    moreover have "take len (drop (current + 1) data) \<noteq> []"
      using take_label_nonempty label by blast
    ultimately show ?thesis using ih(1,3) name_texts_Cons by blast
  next
    case (ref offset reference)
    from 1(2) [OF ref(1,2)] ref(1) obtain n labels where
      ih: "depth + 1 + n \<le> 32" "denotes data n offset labels" "reference \<in> name_texts [] labels" by auto
    have "denotes data (Suc n) current labels"
      by (rule denotes.reference) (use ref ih(2) in simp_all)
    then show ?thesis
      using ih(1) separated_reference [OF ih(3), of name] ref(3) by (intro exI [of _ "Suc n"] exI [of _ labels]) simp
  qed
qed

lemma label_loop_complete:
  assumes "denotes data n offset labels" and "depth + n \<le> 32"
  shows "\<exists>result. label_loop data depth offset name = Some (Inr result) \<and> result \<in> name_texts name labels"
  using assms
proof (induction arbitrary: depth name rule: denotes.induct)
  case (root offset)
  then show ?case by (subst label_loop_unfold) (simp add: name_texts_def)
next
  case (label offset n labels)
  define lbl where "lbl = take (unat (data ! offset)) (drop (offset + 1) data)"
  have "lbl \<noteq> []" using take_label_nonempty label.hyps unfolding lbl_def by blast
  moreover from label.IH [OF label.prems, of "separated name @ lbl"]
  have "\<exists>result. label_loop data depth offset name = Some (Inr result) \<and>
      result \<in> name_texts (separated name @ lbl) labels"
    using label.hyps by (subst label_loop_unfold) (simp add: Let_def lbl_def)
  ultimately show ?case by (simp add: name_texts_Cons) (simp add: lbl_def)
next
  case (reference offset n labels)
  define target where "target = reference_offset (data ! offset) (data ! (offset + 1))"
  have "target < length data" using denotes_inside reference.hyps(3) by (simp add: target_def)
  moreover obtain result where "label_loop data (depth + 1) target [] = Some (Inr result)"
    "result \<in> name_texts [] labels"
    using reference.IH [of "depth + 1" "[]"] reference.prems by (auto simp: target_def)
  moreover have "\<not> unat (data ! offset) \<le> 63" "data ! offset \<noteq> 0"
    using reference.hyps(2) not_reference [of "data ! offset"] not_reference [of 0] by auto
  ultimately show ?case
    using reference.hyps(1,2) reference.prems separated_reference [of result labels name]
    by (subst label_loop_unfold) (simp add: Let_def target_def)
qed


lemma name_loop_sound:
  assumes "name_loop data current name = Some (E_OK, result, current')"
  shows "\<exists>n labels. n \<le> 33 \<and> denotes data n current labels \<and> result \<in> name_texts name labels"
  using assms
proof (induction "length data - current" arbitrary: current name rule: less_induct)
  case less
  from less.prems show ?case
  proof (cases rule: name_loop_result)
    case stop
    then show ?thesis using denotes.root by (intro exI [of _ 0] exI [of _ "[]"]) (simp add: name_texts_def)
  next
    case (label len)
    have "length data - (current + 1 + len) < length data - current" using label(1) by simp
    from less.hyps [OF this label(2)] obtain n labels where
      ih: "n \<le> 33" "denotes data n (current + 1 + len) labels"
        "result \<in> name_texts (separated name @ take len (drop (current + 1) data)) labels" by auto
    have "denotes data n current (take len (drop (current + 1) data) # labels)"
      unfolding label(3) by (rule denotes.label) (use label ih(2) in simp_all)
    moreover have "take len (drop (current + 1) data) \<noteq> []"
      using take_label_nonempty label by blast
    ultimately show ?thesis using ih(1,3) name_texts_Cons by blast
  next
    case (ref offset reference)
    from label_loop_sound [OF ref(1)] obtain n labels where
      ih: "n \<le> 32" "denotes data n offset labels" "reference \<in> name_texts [] labels" by auto
    have "denotes data (Suc n) current labels"
      by (rule denotes.reference) (use ref ih(2) in simp_all)
    then show ?thesis
      using ih(1) separated_reference [OF ih(3), of name] ref(2) by (intro exI [of _ "Suc n"] exI [of _ labels]) simp
  qed
qed

lemma name_loop_complete:
  assumes "denotes data n current labels" and "n \<le> 33"
  shows "\<exists>result current'. name_loop data current name = Some (E_OK, result, current') \<and>
     result \<in> name_texts name labels"
  using assms
proof (induction arbitrary: name rule: denotes.induct)
  case (root offset)
  then show ?case by (subst name_loop_unfold) (simp add: name_texts_def)
next
  case (label offset n labels)
  define lbl where "lbl = take (unat (data ! offset)) (drop (offset + 1) data)"
  have "lbl \<noteq> []" using take_label_nonempty label.hyps unfolding lbl_def by blast
  moreover from label.IH [OF label.prems, of "separated name @ lbl"]
  have "\<exists>result current'. name_loop data offset name = Some (E_OK, result, current') \<and>
      result \<in> name_texts (separated name @ lbl) labels"
    using label.hyps by (subst name_loop_unfold) (simp add: Let_def lbl_def)
  ultimately show ?case by (simp add: name_texts_Cons) (simp add: lbl_def)
next
  case (reference offset n labels)
  define target where "target = reference_offset (data ! offset) (data ! (offset + 1))"
  have "target < length data" using denotes_inside reference.hyps(3) by (simp add: target_def)
  moreover obtain result where "label_loop data 0 target [] = Some (Inr result)"
    "result \<in> name_texts [] labels"
    using label_loop_complete [OF reference.hyps(3), of 0 "[]"] reference.prems by (auto simp: target_def)
  moreover have "\<not> unat (data ! offset) \<le> 63" "data ! offset \<noteq> 0"
    using reference.hyps(2) not_reference [of "data ! offset"] not_reference [of 0] by auto
  ultimately show ?case
    using reference.hyps(1,2) separated_reference [of result labels name]
    by (subst name_loop_unfold) (simp add: Let_def target_def decodeLabel_def)
qed

lemma decodeDomainName_name_loop:
  "decodeDomainName d = Some (Inr name, d') \<longleftrightarrow>
     (\<exists>current. name_loop (md_data d) (md_current d) [] = Some (E_OK, name, current) \<and>
        d' = d\<lparr>md_current := current\<rparr>)"
  by (auto simp: decodeDomainName_def decodeDomainName_partial_def bind_eq_Some_conv split: if_splits)

lemma name_texts_iff:
  "name \<in> name_texts [] labels \<longleftrightarrow> name = dotted labels \<or> dotted labels \<noteq> [] \<and> name = dotted labels @ [46]"
  by (auto simp: name_texts_def)

text \<open>
  Claim C8. The decoding of a domain name refines the specification of names: a name it returns is
  the text of the labels that the bytes at the position denote, but for a separator at its end, and
  it returns one whenever these bytes denote labels through at most 33 references. In particular
  it refuses every cycle of references.
\<close>

theorem domain_name_refines:
  "(\<forall>name d'. decodeDomainName d = Some (Inr name, d') \<longrightarrow>
      (\<exists>labels n. n \<le> 33 \<and> denotes (md_data d) n (md_current d) labels \<and>
         (name = dotted labels \<or> dotted labels \<noteq> [] \<and> name = dotted labels @ [46]))) \<and>
   (\<forall>labels n. n \<le> 33 \<and> denotes (md_data d) n (md_current d) labels \<longrightarrow>
      (\<exists>name d'. decodeDomainName d = Some (Inr name, d') \<and>
         (name = dotted labels \<or> dotted labels \<noteq> [] \<and> name = dotted labels @ [46])))"
proof (intro conjI allI impI)
  fix name d'
  assume "decodeDomainName d = Some (Inr name, d')"
  then obtain current where "name_loop (md_data d) (md_current d) [] = Some (E_OK, name, current)"
    by (auto simp: decodeDomainName_name_loop)
  from name_loop_sound [OF this]
  show "\<exists>labels n. n \<le> 33 \<and> denotes (md_data d) n (md_current d) labels \<and>
      (name = dotted labels \<or> dotted labels \<noteq> [] \<and> name = dotted labels @ [46])"
    unfolding name_texts_iff by blast
next
  fix labels n
  assume "n \<le> 33 \<and> denotes (md_data d) n (md_current d) labels"
  then obtain name current where "name_loop (md_data d) (md_current d) [] = Some (E_OK, name, current)"
    "name \<in> name_texts [] labels"
    using name_loop_complete [of "md_data d" n "md_current d" labels "[]"] by auto
  then show "\<exists>name d'. decodeDomainName d = Some (Inr name, d') \<and>
      (name = dotted labels \<or> dotted labels \<noteq> [] \<and> name = dotted labels @ [46])"
    unfolding name_texts_iff decodeDomainName_name_loop by blast
qed

text \<open>The name \<open>b.a\<close>, written with a reference to the name \<open>a\<close>, and a reference to itself.\<close>

theorem domain_name_refines_witness:
  "(\<exists>labels n. n \<le> 33 \<and> denotes [1, 97, 0, 1, 98, 0xC0, 0] n 3 labels \<and>
      ([98, 46, 97] = dotted labels \<or> dotted labels \<noteq> [] \<and> [98, 46, 97] = dotted labels @ [46])) \<and>
   \<not> (\<exists>labels n. n \<le> 33 \<and> denotes [0xC0, 0] n 0 labels)"
proof
  have "decodeDomainName \<lparr>md_data = [1, 97, 0, 1, 98, 0xC0, 0], md_current = 3\<rparr> =
      Some (Inr [98, 46, 97], \<lparr>md_data = [1, 97, 0, 1, 98, 0xC0, 0], md_current = 7\<rparr>)"
    by code_simp
  then show "\<exists>labels n. n \<le> 33 \<and> denotes [1, 97, 0, 1, 98, 0xC0, 0] n 3 labels \<and>
      ([98, 46, 97] = dotted labels \<or> dotted labels \<noteq> [] \<and> [98, 46, 97] = dotted labels @ [46])"
    using domain_name_refines [of "\<lparr>md_data = [1, 97, 0, 1, 98, 0xC0, 0], md_current = 3\<rparr>"] by auto
  have "decodeDomainName \<lparr>md_data = [0xC0, 0], md_current = 0\<rparr> =
      Some (Inl E_INVALID, \<lparr>md_data = [0xC0, 0], md_current = 2\<rparr>)"
    by code_simp
  then show "\<not> (\<exists>labels n. n \<le> 33 \<and> denotes [0xC0, 0] n 0 labels)"
    using domain_name_refines [of "\<lparr>md_data = [0xC0, 0], md_current = 0\<rparr>"] by auto
qed

text \<open>
  A decoded name is bounded by the message, whatever references it follows: it has at most
  34 times the length of the message, and 33 more bytes for the separators.
\<close>

theorem domain_name_length:
  assumes "decodeDomainName d = Some (Inr name, d')"
  shows "length name \<le> 34 * length (md_data d) + 33"
proof -
  from assms obtain current where "name_loop (md_data d) (md_current d) [] = Some (E_OK, name, current)"
    by (auto simp: decodeDomainName_name_loop)
  from name_loop_length [OF this] show ?thesis by simp
qed

theorem domain_name_length_witness:
  "\<exists>name d'. decodeDomainName \<lparr>md_data = [1, 97, 0, 1, 98, 0xC0, 0], md_current = 3\<rparr> = Some (Inr name, d') \<and>
     length name \<le> 34 * 7 + 33"
proof -
  have "decodeDomainName \<lparr>md_data = [1, 97, 0, 1, 98, 0xC0, 0], md_current = 3\<rparr> =
      Some (Inr [98, 46, 97], \<lparr>md_data = [1, 97, 0, 1, 98, 0xC0, 0], md_current = 7\<rparr>)"
    by code_simp
  with domain_name_length [OF this] show ?thesis by (intro exI conjI) (assumption, simp)
qed

text \<open>
  The separator at the end: the label \<open>b\<close> followed by a reference to the root is read as \<open>b.\<close>.
\<close>

lemma reference_to_root_leaves_separator:
  "decodeDomainName \<lparr>md_data = [0, 1, 98, 0xC0, 0], md_current = 1\<rparr> =
     Some (Inr [98, 46], \<lparr>md_data = [0, 1, 98, 0xC0, 0], md_current = 5\<rparr>)"
  by code_simp

end
