(* ===== verification/Dns_Image.thy ===== *)
theory Dns_Image
  imports Dns_Names
begin

section \<open>Images of values\<close>

text \<open>
  The bytes that represent a value: what the operations of \<open>ntcdns::MemoryEncoder\<close> write, and that
  the operations of \<open>ntcdns::MemoryDecoder\<close> read the value back from them. The contract of an encoding
  and a decoding of the same type is the locale \<open>codec\<close>.
\<close>

subsection \<open>What is written is read back\<close>

text \<open>
  \<open>writes f bs\<close>: the encoding stores the bytes \<open>bs\<close> at the current position, given room for them.
  \<open>decodes m bs x\<close>: the decoding reads the bytes \<open>bs\<close> at the current position as the value \<open>x\<close>,
  whatever surrounds them.
\<close>

definition writes :: "encoding \<Rightarrow> bytes \<Rightarrow> bool" where
  "writes f bs \<longleftrightarrow>
     (\<forall>pre old rest. length old = length bs \<longrightarrow>
        f \<lparr>me_data = pre @ old @ rest, me_current = length pre\<rparr> =
          Some (E_OK, \<lparr>me_data = pre @ bs @ rest, me_current = length pre + length bs\<rparr>))"

definition decodes :: "'a decoding \<Rightarrow> bytes \<Rightarrow> 'a \<Rightarrow> bool" where
  "decodes m bs x \<longleftrightarrow>
     (\<forall>pre rest. m \<lparr>md_data = pre @ bs @ rest, md_current = length pre\<rparr> =
        Some (Inr x, \<lparr>md_data = pre @ bs @ rest, md_current = length pre + length bs\<rparr>))"

lemma writesI:
  "(\<And>pre old rest. length old = length bs \<Longrightarrow>
      f \<lparr>me_data = pre @ old @ rest, me_current = length pre\<rparr> =
        Some (E_OK, \<lparr>me_data = pre @ bs @ rest, me_current = length pre + length bs\<rparr>)) \<Longrightarrow> writes f bs"
  by (simp add: writes_def)

lemma writesD:
  "writes f bs \<Longrightarrow> length old = length bs \<Longrightarrow> f \<lparr>me_data = pre @ old @ rest, me_current = length pre\<rparr> =
     Some (E_OK, \<lparr>me_data = pre @ bs @ rest, me_current = length pre + length bs\<rparr>)"
  by (simp add: writes_def)

lemma decodesD:
  "decodes m bs x \<Longrightarrow> m \<lparr>md_data = pre @ bs @ rest, md_current = length pre\<rparr> =
     Some (Inr x, \<lparr>md_data = pre @ bs @ rest, md_current = length pre + length bs\<rparr>)"
  by (simp add: decodes_def)

named_theorems codec_intros \<open>how encodings write and decodings read\<close>

lemma writes_return [codec_intros]: "writes (enc_return E_OK) []"
  by (simp add: writes_def enc_return_def)

lemma writes_raw [codec_intros]: "writes (encodeRaw bs) bs"
  by (simp add: writes_def encodeRaw_def checkOverflow_def store_def)

lemma writes_then [codec_intros]:
  assumes "writes f bs" and "writes g cs"
  shows "writes (enc_then f g) (bs @ cs)"
proof (rule writesI)
  fix pre old rest :: bytes
  assume len: "length old = length (bs @ cs)"
  define old1 old2 where "old1 = take (length bs) old" and "old2 = drop (length bs) old"
  have old: "old = old1 @ old2" "length old1 = length bs" "length old2 = length cs"
    using len by (simp_all add: old1_def old2_def)
  have "f \<lparr>me_data = pre @ old1 @ old2 @ rest, me_current = length pre\<rparr> =
      Some (E_OK, \<lparr>me_data = pre @ bs @ old2 @ rest, me_current = length pre + length bs\<rparr>)"
    using writesD [OF assms(1) old(2), of pre "old2 @ rest"] by simp
  moreover have "g \<lparr>me_data = pre @ bs @ old2 @ rest, me_current = length pre + length bs\<rparr> =
      Some (E_OK, \<lparr>me_data = pre @ bs @ cs @ rest, me_current = length pre + length bs + length cs\<rparr>)"
    using writesD [OF assms(2) old(3), of "pre @ bs" rest] by simp
  ultimately show "enc_then f g \<lparr>me_data = pre @ old @ rest, me_current = length pre\<rparr> =
      Some (E_OK, \<lparr>me_data = pre @ (bs @ cs) @ rest, me_current = length pre + length (bs @ cs)\<rparr>)"
    by (simp add: enc_then_def old(1) add.assoc)
qed

lemma decodes_return [codec_intros]: "decodes (dec_return x) [] x"
  by (simp add: decodes_def dec_return_def)

lemma decodes_check [codec_intros]: "decodes (dec_check E_OK) [] ()"
  by (simp add: decodes_def dec_check_def)

lemma decodes_raw [codec_intros]: "n = length bs \<Longrightarrow> decodes (decodeRaw n) bs bs"
  by (simp add: decodes_def decodeRaw_def checkUnderflow_def load_def)

lemma decodes_bind [codec_intros]:
  assumes "decodes f bs x" and "decodes (g x) cs y"
  shows "decodes (dec_bind f g) (bs @ cs) y"
  unfolding decodes_def
proof (intro allI)
  fix pre rest
  have "f \<lparr>md_data = pre @ (bs @ cs) @ rest, md_current = length pre\<rparr> =
      Some (Inr x, \<lparr>md_data = pre @ (bs @ cs) @ rest, md_current = length pre + length bs\<rparr>)"
    using decodesD [OF assms(1), of pre "cs @ rest"] by simp
  moreover have "g x \<lparr>md_data = pre @ (bs @ cs) @ rest, md_current = length pre + length bs\<rparr> =
      Some (Inr y, \<lparr>md_data = pre @ (bs @ cs) @ rest, md_current = length pre + length bs + length cs\<rparr>)"
    using decodesD [OF assms(2), of "pre @ bs" rest] by simp
  ultimately show "dec_bind f g \<lparr>md_data = pre @ (bs @ cs) @ rest, md_current = length pre\<rparr> =
      Some (Inr y, \<lparr>md_data = pre @ (bs @ cs) @ rest, md_current = length pre + length (bs @ cs)\<rparr>)"
    by (simp add: dec_bind_def add.assoc)
qed

lemma decodes_byte [codec_intros]: "decodes decodeUint8 [v] v"
  by (simp add: decodes_def decodeUint8_def checkUnderflow_def load_byte_def nth_append)

lemma writes_byte [codec_intros]: "writes (encodeUint8 v) [v]"
  by (simp add: writes_def encodeUint8_def checkOverflow_def store_def)

subsection \<open>The contract of a codec\<close>

locale codec =
  fixes encode :: "'a \<Rightarrow> encoding"
    and decode :: "'a decoding"
    and image :: "'a \<Rightarrow> bytes"
    and valid :: "'a \<Rightarrow> bool"
  assumes writes_image: "valid x \<Longrightarrow> writes (encode x) (image x)"
    and decodes_image: "valid x \<Longrightarrow> decodes decode (image x) x"
begin

text \<open>What is written to a memory with enough room is read back from it.\<close>

lemma round_trip:
  assumes "valid x" and "length (image x) \<le> length memory"
  obtains e d where "encode x (MemoryEncoder_create memory) = Some (E_OK, e)"
    "decode (MemoryDecoder_create (me_data e)) = Some (Inr x, d)"
    "me_current e = length (image x)" "md_current d = me_current e"
proof -
  define rest where "rest = drop (length (image x)) memory"
  have memory: "memory = [] @ take (length (image x)) memory @ rest" by (simp add: rest_def)
  have "encode x (MemoryEncoder_create memory) =
      Some (E_OK, \<lparr>me_data = image x @ rest, me_current = length (image x)\<rparr>)"
    using writesD [OF writes_image [OF assms(1)], of "take (length (image x)) memory" "[]" rest] assms(2)
    by (simp add: MemoryEncoder_create_def rest_def)
  moreover have "decode (MemoryDecoder_create (image x @ rest)) =
      Some (Inr x, \<lparr>md_data = image x @ rest, md_current = length (image x)\<rparr>)"
    using decodesD [OF decodes_image [OF assms(1)], of "[]" rest] by (simp add: MemoryDecoder_create_def)
  ultimately show thesis using that by simp
qed

text \<open>Values with the same image are the same.\<close>

lemma image_inj: "valid x \<Longrightarrow> valid y \<Longrightarrow> image x = image y \<Longrightarrow> x = y"
  using decodes_image [of x] decodes_image [of y] by (auto simp: decodes_def)

end

subsection \<open>Integers, texts and names\<close>

text \<open>
  What the codec relies on of the library: an integer in the order of the network has two, or four,
  bytes and is recovered from them, and the tokens of labels separated by dots are these
  labels.
\<close>

definition valid_label :: "bytes \<Rightarrow> bool" where
  "valid_label label \<longleftrightarrow> label \<noteq> [] \<and> length label \<le> k_MAX_LABEL_LENGTH \<and> 46 \<notin> set label"

definition dns_library_ok :: "dns_library \<Rightarrow> bool" where
  "dns_library_ok B \<longleftrightarrow>
     (\<forall>v. length (dl_store16 B v) = 2 \<and> dl_load16 B (dl_store16 B v) = v) \<and>
     (\<forall>v. length (dl_store32 B v) = 4 \<and> dl_load32 B (dl_store32 B v) = v) \<and>
     (\<forall>labels. list_all valid_label labels \<longrightarrow> dl_tokens B (dotted labels) = labels)"

lemma library_integers:
  assumes "dns_library_ok B"
  shows "length (dl_store16 B v) = 2" "dl_load16 B (dl_store16 B v) = v"
    "length (dl_store32 B w) = 4" "dl_load32 B (dl_store32 B w) = w"
  using assms by (simp_all add: dns_library_ok_def)

lemma decodes_last: "decodes f bs x \<Longrightarrow> y = g x \<Longrightarrow> decodes (dec_bind f (\<lambda>x. dec_return (g x))) bs y"
  by (simp add: decodes_def dec_bind_def dec_return_def)

interpretation uint8: codec encodeUint8 decodeUint8 "\<lambda>v. [v]" "\<lambda>v. True"
  by unfold_locales (simp_all add: codec_intros)

interpretation uint16: codec "encodeUint16 B" "decodeUint16 B" "dl_store16 B" "\<lambda>v. dns_library_ok B" for B
proof unfold_locales
  fix v
  assume B: "dns_library_ok B"
  show "writes (encodeUint16 B v) (dl_store16 B v)"
    by (simp add: writes_def encodeUint16_def checkOverflow_def store_def Let_def)
  show "decodes (decodeUint16 B) (dl_store16 B v) v"
    unfolding decodeUint16_def
    by (rule decodes_last [OF decodes_raw]) (simp_all add: library_integers [OF B])
qed

interpretation uint32: codec "encodeUint32 B" "decodeUint32 B" "dl_store32 B" "\<lambda>v. dns_library_ok B" for B
proof unfold_locales
  fix v
  assume B: "dns_library_ok B"
  show "writes (encodeUint32 B v) (dl_store32 B v)"
    by (simp add: writes_def encodeUint32_def checkOverflow_def store_def Let_def)
  show "decodes (decodeUint32 B) (dl_store32 B v) v"
    unfolding decodeUint32_def
    by (rule decodes_last [OF decodes_raw]) (simp_all add: library_integers [OF B])
qed

text \<open>A text is its length in one byte and its bytes.\<close>

definition character_string_image :: "bytes \<Rightarrow> bytes" where
  "character_string_image s = of_nat (length s) # s"

lemma unat_of_length: "n \<le> 255 \<Longrightarrow> unat (of_nat n :: u8) = n"
  by (simp add: unat_of_nat)

interpretation character_string: codec encodeCharacterString decodeCharacterString character_string_image
  "\<lambda>s. length s \<le> k_MAX_CHARACTER_STRING_LENGTH"
proof unfold_locales
  fix s :: bytes
  assume s: "length s \<le> k_MAX_CHARACTER_STRING_LENGTH"
  have "writes (enc_then (encodeRaw [of_nat (length s)]) (encodeRaw s)) ([of_nat (length s)] @ s)"
    by (intro writes_then writes_raw)
  then show "writes (encodeCharacterString s) (character_string_image s)"
    using s by (simp add: encodeCharacterString_def checkCharacterString_def character_string_image_def)
  have len: "unat (of_nat (length s) :: u8) = length s"
    using s by (simp add: unat_of_length k_MAX_CHARACTER_STRING_LENGTH_def)
  have "decodes (dec_bind decodeUint8 (\<lambda>len. if len > 0 then decodeRaw (unat len) else dec_return []))
      ([of_nat (length s)] @ s) s"
    using len decodes_raw [of "length s" s] decodes_return [of "[]"]
    by (intro decodes_bind [OF decodes_byte]) (cases "s = []", auto simp: word_less_nat_alt)
  then show "decodes decodeCharacterString (character_string_image s) s"
    by (simp add: decodeCharacterString_def character_string_image_def)
qed

text \<open>A name is its labels, each with its length, and a zero byte.\<close>

definition labels_image :: "bytes list \<Rightarrow> bytes" where
  "labels_image labels = concat (map character_string_image labels)"

definition valid_name :: "dns_library \<Rightarrow> bytes \<Rightarrow> bool" where
  "valid_name B name \<longleftrightarrow> list_all valid_label (dl_tokens B name) \<and> dotted (dl_tokens B name) = name"

definition name_image :: "dns_library \<Rightarrow> bytes \<Rightarrow> bytes" where
  "name_image B name = labels_image (dl_tokens B name) @ [0]"

lemma valid_name_dotted: "dns_library_ok B \<Longrightarrow> list_all valid_label labels \<Longrightarrow> valid_name B (dotted labels)"
  by (simp add: valid_name_def dns_library_ok_def)

lemma writes_tokens: "list_all valid_label labels \<Longrightarrow> writes (encode_tokens labels) (labels_image labels)"
proof (induction labels)
  case Nil
  then show ?case by (simp add: labels_image_def writes_return)
next
  case (Cons label labels)
  then have "writes (enc_then (encodeRaw [of_nat (length label)]) (enc_then (encodeRaw label) (encode_tokens labels)))
      ([of_nat (length label)] @ label @ labels_image labels)"
    by (intro writes_then writes_raw) simp
  then show ?case
    using Cons.prems by (simp add: checkToken_def valid_label_def labels_image_def character_string_image_def)
qed

lemma name_loop_labels:
  assumes "list_all valid_label labels"
  shows "name_loop (pre @ labels_image labels @ 0 # rest) (length pre) name =
     Some (E_OK, joined name labels, length pre + length (labels_image labels) + 1)"
  using assms
proof (induction labels arbitrary: pre name)
  case Nil
  then show ?case by (subst name_loop_unfold) (simp add: labels_image_def nth_append)
next
  case (Cons label labels)
  define len :: u8 where "len = of_nat (length label)"
  have len: "unat len = length label" "label \<noteq> []" "length label \<le> 63"
    using Cons.prems by (auto simp: len_def valid_label_def k_MAX_LABEL_LENGTH_def unat_of_length)
  then have nonzero: "len \<noteq> 0" by auto
  have data: "pre @ labels_image (label # labels) @ 0 # rest =
      (pre @ len # label) @ labels_image labels @ 0 # rest"
    by (simp add: labels_image_def character_string_image_def len_def)
  have "name_loop (pre @ labels_image (label # labels) @ 0 # rest) (length pre) name =
      name_loop ((pre @ len # label) @ labels_image labels @ 0 # rest) (length (pre @ len # label))
        (separated name @ label)"
    unfolding data using len nonzero by (subst name_loop_unfold) (simp add: nth_append Let_def)
  also have "\<dots> = Some (E_OK, joined (separated name @ label) labels,
      length (pre @ len # label) + length (labels_image labels) + 1)"
    by (rule Cons.IH) (use Cons.prems in simp)
  finally show ?case
    using len(2) by (simp add: joined_Cons) (simp add: labels_image_def character_string_image_def)
qed

interpretation domain_name: codec "encodeDomainName B" decodeDomainName "name_image B" "valid_name B" for B
proof unfold_locales
  fix name
  assume name: "valid_name B name"
  show "writes (encodeDomainName B name) (name_image B name)"
    unfolding encodeDomainName_def name_image_def
    using name by (intro writes_then writes_raw writes_tokens) (simp add: valid_name_def)
  show "decodes decodeDomainName (name_image B name) name"
    unfolding decodes_def decodeDomainName_name_loop name_image_def
    using name name_loop_labels [of "dl_tokens B name" _ _ "[]"]
    by (auto simp: valid_name_def)
qed

end
