(* ===== verification/Dns_Record.thy ===== *)
theory Dns_Record
  imports Dns_Image
begin

section \<open>Headers, questions and resource records\<close>

text \<open>
  This theory models \<open>ntcdns::Header\<close>, \<open>ntcdns::Question\<close> and \<open>ntcdns::ResourceRecord\<close>
  (\<open>ntcdns_protocol.cpp\<close>). A decoding takes the previous value of the object: the fields
  that it does not read keep their values. The streaming operators and the log are left out.
\<close>

subsection \<open>ntcdns::Header\<close>

record Header =
  h_id :: u16
  h_direction :: Direction
  h_operation :: Operation
  h_error :: Error
  h_aa :: bool
  h_tc :: bool
  h_rd :: bool
  h_ra :: bool
  h_ad :: bool
  h_cd :: bool
  h_qdcount :: u16
  h_ancount :: u16
  h_nscount :: u16
  h_arcount :: u16

definition Header_create :: Header where
  "Header_create =
     \<lparr>h_id = 0, h_direction = Direction_REQUEST, h_operation = Operation_STANDARD, h_error = Error_OK,
      h_aa = False, h_tc = False, h_rd = False, h_ra = False, h_ad = False, h_cd = False,
      h_qdcount = 0, h_ancount = 0, h_nscount = 0, h_arcount = 0\<rparr>"

definition Header_reset :: "Header \<Rightarrow> Header" where
  "Header_reset h =
     h\<lparr>h_id := 0, h_direction := Direction_REQUEST, h_operation := Operation_STANDARD, h_error := Error_OK,
       h_aa := False, h_tc := False, h_rd := False, h_ra := False, h_ad := False, h_cd := False,
       h_qdcount := 0, h_ancount := 0, h_nscount := 0, h_arcount := 0\<rparr>"

definition Header_setId :: "u16 \<Rightarrow> Header \<Rightarrow> Header" where
  "Header_setId v h = h\<lparr>h_id := v\<rparr>"

definition Header_setDirection :: "Direction \<Rightarrow> Header \<Rightarrow> Header" where
  "Header_setDirection v h = h\<lparr>h_direction := v\<rparr>"

definition Header_setOperation :: "Operation \<Rightarrow> Header \<Rightarrow> Header" where
  "Header_setOperation v h = h\<lparr>h_operation := v\<rparr>"

definition Header_setAa :: "bool \<Rightarrow> Header \<Rightarrow> Header" where
  "Header_setAa v h = h\<lparr>h_aa := v\<rparr>"

definition Header_setTc :: "bool \<Rightarrow> Header \<Rightarrow> Header" where
  "Header_setTc v h = h\<lparr>h_tc := v\<rparr>"

definition Header_setRd :: "bool \<Rightarrow> Header \<Rightarrow> Header" where
  "Header_setRd v h = h\<lparr>h_rd := v\<rparr>"

definition Header_setRa :: "bool \<Rightarrow> Header \<Rightarrow> Header" where
  "Header_setRa v h = h\<lparr>h_ra := v\<rparr>"

definition Header_setAd :: "bool \<Rightarrow> Header \<Rightarrow> Header" where
  "Header_setAd v h = h\<lparr>h_ad := v\<rparr>"

definition Header_setCd :: "bool \<Rightarrow> Header \<Rightarrow> Header" where
  "Header_setCd v h = h\<lparr>h_cd := v\<rparr>"

definition Header_setError :: "Error \<Rightarrow> Header \<Rightarrow> Header" where
  "Header_setError v h = h\<lparr>h_error := v\<rparr>"

text \<open>The counts are asserted to fit in 16 bits.\<close>

definition USHRT_MAX :: nat where
  "USHRT_MAX = 65535"

definition Header_setQdcount :: "nat \<Rightarrow> Header \<Rightarrow> Header option" where
  "Header_setQdcount v h = (if v \<le> USHRT_MAX then Some (h\<lparr>h_qdcount := of_nat v\<rparr>) else None)"

definition Header_setAncount :: "nat \<Rightarrow> Header \<Rightarrow> Header option" where
  "Header_setAncount v h = (if v \<le> USHRT_MAX then Some (h\<lparr>h_ancount := of_nat v\<rparr>) else None)"

definition Header_setNscount :: "nat \<Rightarrow> Header \<Rightarrow> Header option" where
  "Header_setNscount v h = (if v \<le> USHRT_MAX then Some (h\<lparr>h_nscount := of_nat v\<rparr>) else None)"

definition Header_setArcount :: "nat \<Rightarrow> Header \<Rightarrow> Header option" where
  "Header_setArcount v h = (if v \<le> USHRT_MAX then Some (h\<lparr>h_arcount := of_nat v\<rparr>) else None)"

definition qdcount :: "Header \<Rightarrow> nat" where
  [ntf_defs]: "qdcount h = unat (h_qdcount h)"

definition ancount :: "Header \<Rightarrow> nat" where
  [ntf_defs]: "ancount h = unat (h_ancount h)"

definition nscount :: "Header \<Rightarrow> nat" where
  [ntf_defs]: "nscount h = unat (h_nscount h)"

definition arcount :: "Header \<Rightarrow> nat" where
  [ntf_defs]: "arcount h = unat (h_arcount h)"

text \<open>
  The bit fields of \<open>Flags\<close> in the two bytes they occupy, from the least significant bit: \<open>rd\<close>,
  \<open>tc\<close>, \<open>aa\<close>, \<open>opcode\<close> and \<open>qr\<close>; \<open>rcode\<close>, \<open>cd\<close>, \<open>ad\<close>, \<open>z\<close> and \<open>ra\<close>.
\<close>

definition bit_field :: "nat \<Rightarrow> nat \<Rightarrow> u8 \<Rightarrow> nat" where
  "bit_field position width b = (unat b div 2 ^ position) mod 2 ^ width"

definition Flags_bytes :: "Header \<Rightarrow> bytes" where
  "Flags_bytes h =
     [of_nat (of_bool (h_rd h) + 2 * of_bool (h_tc h) + 4 * of_bool (h_aa h) +
              8 * (Operation_toInt (h_operation h) mod 16) + 128 * (Direction_toInt (h_direction h) mod 2)),
      of_nat (Error_toInt (h_error h) mod 16 + 16 * of_bool (h_cd h) + 128 * of_bool (h_ra h))]"

definition Header_validate :: "Header \<Rightarrow> ntsa_error" where
  "Header_validate h = E_OK"

definition Header_decode_flags :: "bytes \<Rightarrow> Header \<Rightarrow> Header option" where
  "Header_decode_flags flags h =
     (case Direction_fromInt (bit_field 7 1 (flags ! 0)) of
        None \<Rightarrow> None
      | Some direction \<Rightarrow>
          (case Operation_fromInt (bit_field 3 4 (flags ! 0)) of
             None \<Rightarrow> None
           | Some operation \<Rightarrow>
               (case Error_fromInt (bit_field 0 4 (flags ! 1)) of
                  None \<Rightarrow> None
                | Some error \<Rightarrow>
                    Some (h\<lparr>h_direction := direction, h_operation := operation,
                            h_aa := (bit_field 2 1 (flags ! 0) = 1),
                            h_tc := (bit_field 1 1 (flags ! 0) = 1),
                            h_rd := (bit_field 0 1 (flags ! 0) = 1),
                            h_ra := (bit_field 7 1 (flags ! 1) = 1),
                            h_cd := (bit_field 4 1 (flags ! 1) = 1),
                            h_error := error\<rparr>))))"

definition Header_decode :: "dns_library \<Rightarrow> Header \<Rightarrow> Header decoding" where
  "Header_decode B h =
     dec_bind (decodeUint16 B) (\<lambda>id.
     dec_bind (decodeRaw 2) (\<lambda>flags.
       case Header_decode_flags flags (h\<lparr>h_id := id\<rparr>) of
         None \<Rightarrow> dec_fail E_INVALID
       | Some h1 \<Rightarrow>
           dec_bind (decodeUint16 B) (\<lambda>qd.
           dec_bind (decodeUint16 B) (\<lambda>an.
           dec_bind (decodeUint16 B) (\<lambda>ns.
           dec_bind (decodeUint16 B) (\<lambda>ar.
             let h2 = h1\<lparr>h_qdcount := qd, h_ancount := an, h_nscount := ns, h_arcount := ar\<rparr>
             in dec_bind (dec_check (Header_validate h2)) (\<lambda>_. dec_return h2)))))))"

definition Header_encode :: "dns_library \<Rightarrow> Header \<Rightarrow> encoding" where
  "Header_encode B h =
     enc_then (encodeUint16 B (h_id h))
       (enc_then (encodeRaw (Flags_bytes h))
         (enc_then (encodeUint16 B (h_qdcount h))
           (enc_then (encodeUint16 B (h_ancount h))
             (enc_then (encodeUint16 B (h_nscount h))
               (encodeUint16 B (h_arcount h))))))"

subsection \<open>ntcdns::Question\<close>

record Question =
  q_name :: bytes
  q_type :: Type
  q_classification :: Classification

definition Question_create :: Question where
  "Question_create = \<lparr>q_name = [], q_type = Type_A, q_classification = Class_INTERNET\<rparr>"

definition Question_reset :: "Question \<Rightarrow> Question" where
  "Question_reset q = q\<lparr>q_name := [], q_type := Type_A, q_classification := Class_INTERNET\<rparr>"

definition Question_setName :: "bytes \<Rightarrow> Question \<Rightarrow> Question" where
  "Question_setName v q = q\<lparr>q_name := v\<rparr>"

definition Question_setType :: "Type \<Rightarrow> Question \<Rightarrow> Question" where
  "Question_setType v q = q\<lparr>q_type := v\<rparr>"

definition Question_setClassification :: "Classification \<Rightarrow> Question \<Rightarrow> Question" where
  "Question_setClassification v q = q\<lparr>q_classification := v\<rparr>"

text \<open>An enumerator read as an integer of 16 bits.\<close>

definition decode_enumerator :: "dns_library \<Rightarrow> (nat \<Rightarrow> 'a option) \<Rightarrow> 'a decoding" where
  "decode_enumerator B fromInt =
     dec_bind (decodeUint16 B) (\<lambda>v. case fromInt (unat v) of None \<Rightarrow> dec_fail E_INVALID | Some x \<Rightarrow> dec_return x)"

text \<open>
  The decoding returns no error when the name cannot be decoded: the question then has the part of
  the name that was read, and its previous type and classification.
\<close>

definition Question_decode :: "dns_library \<Rightarrow> Question \<Rightarrow> Question decoding" where
  "Question_decode B q d =
     do { (error, name, d1) \<leftarrow> decodeDomainName_partial d;
          if error \<noteq> E_OK then Some (Inr (q\<lparr>q_name := name\<rparr>), d1)
          else dec_bind (decode_enumerator B Type_fromInt) (\<lambda>type.
               dec_bind (decode_enumerator B Classification_fromInt) (\<lambda>classification.
                 dec_return (q\<lparr>q_name := name, q_type := type, q_classification := classification\<rparr>))) d1 }"

definition Question_encode :: "dns_library \<Rightarrow> Question \<Rightarrow> encoding" where
  "Question_encode B q =
     enc_then (encodeDomainName B (q_name q))
       (enc_then (encodeUint16 B (of_nat (Type_toInt (q_type q))))
         (encodeUint16 B (of_nat (Classification_toInt (q_classification q)))))"

subsection \<open>The representation of integers in memory\<close>

text \<open>
  \<open>decodeRaw\<close> and \<open>encodeRaw\<close> copy the memory of an address, which is an integer of 32 bits in the
  order of a little-endian machine.
\<close>

definition memory32 :: "u32 \<Rightarrow> bytes" where
  "memory32 w = map (\<lambda>i. ucast (drop_bit (8 * i) w)) [0, 1, 2, 3]"

definition of_memory32 :: "bytes \<Rightarrow> u32" where
  "of_memory32 bs =
     or (ucast (bs ! 0)) (or (push_bit 8 (ucast (bs ! 1))) (or (push_bit 16 (ucast (bs ! 2))) (push_bit 24 (ucast (bs ! 3)))))"

subsection \<open>ntcdns::ResourceRecord\<close>

record ResourceRecord =
  rr_name :: bytes
  rr_type :: Type
  rr_class :: Classification
  rr_ttl :: u32
  rr_optSize :: u16
  rr_optFlags :: u32
  rr_rdata :: ResourceRecordData

definition ResourceRecord_create :: ResourceRecord where
  "ResourceRecord_create =
     \<lparr>rr_name = [], rr_type = Type_A, rr_class = Class_INTERNET, rr_ttl = 0, rr_optSize = 0,
      rr_optFlags = 0, rr_rdata = RD_UNDEFINED\<rparr>"

definition ResourceRecord_reset :: "ResourceRecord \<Rightarrow> ResourceRecord" where
  "ResourceRecord_reset r =
     r\<lparr>rr_name := [], rr_type := Type_A, rr_class := Class_INTERNET, rr_ttl := 0, rr_optSize := 0,
       rr_optFlags := 0, rr_rdata := RD_UNDEFINED\<rparr>"

definition ResourceRecord_setName :: "bytes \<Rightarrow> ResourceRecord \<Rightarrow> ResourceRecord" where
  "ResourceRecord_setName v r = r\<lparr>rr_name := v\<rparr>"

definition ResourceRecord_setType :: "Type \<Rightarrow> ResourceRecord \<Rightarrow> ResourceRecord" where
  "ResourceRecord_setType v r = r\<lparr>rr_type := v\<rparr>"

definition ResourceRecord_setClassification :: "Classification \<Rightarrow> ResourceRecord \<Rightarrow> ResourceRecord" where
  "ResourceRecord_setClassification v r = r\<lparr>rr_class := v\<rparr>"

definition ResourceRecord_setTtl :: "u32 \<Rightarrow> ResourceRecord \<Rightarrow> ResourceRecord" where
  "ResourceRecord_setTtl v r = r\<lparr>rr_ttl := v\<rparr>"

definition ResourceRecord_setPayloadSize :: "u16 \<Rightarrow> ResourceRecord \<Rightarrow> ResourceRecord" where
  "ResourceRecord_setPayloadSize v r = r\<lparr>rr_optSize := v\<rparr>"

definition ResourceRecord_setFlags :: "u32 \<Rightarrow> ResourceRecord \<Rightarrow> ResourceRecord" where
  "ResourceRecord_setFlags v r = r\<lparr>rr_optFlags := v\<rparr>"

definition ResourceRecord_setRdata :: "ResourceRecordData \<Rightarrow> ResourceRecord \<Rightarrow> ResourceRecord" where
  "ResourceRecord_setRdata v r =
     (let r1 = r\<lparr>rr_rdata := v\<rparr>
      in case v of
           RD_CANONICAL_NAME _ \<Rightarrow> r1\<lparr>rr_type := Type_CNAME\<rparr>
         | RD_HOST_INFO _ \<Rightarrow> r1\<lparr>rr_type := Type_HINFO\<rparr>
         | RD_MAIL_EXCHANGE _ \<Rightarrow> r1\<lparr>rr_type := Type_MX\<rparr>
         | RD_NAME_SERVER _ \<Rightarrow> r1\<lparr>rr_type := Type_NS\<rparr>
         | RD_POINTER _ \<Rightarrow> r1\<lparr>rr_type := Type_PTR\<rparr>
         | RD_ZONE_AUTHORITY _ \<Rightarrow> r1\<lparr>rr_type := Type_SOA\<rparr>
         | RD_WELL_KNOWN_SERVICE _ \<Rightarrow> r1\<lparr>rr_type := Type_WKS\<rparr>
         | RD_TEXT _ \<Rightarrow> r1\<lparr>rr_type := Type_TXT\<rparr>
         | RD_IPV4 _ \<Rightarrow> r1\<lparr>rr_type := Type_A\<rparr>
         | RD_IPV6 _ \<Rightarrow> r1\<lparr>rr_type := Type_AAAA\<rparr>
         | RD_SERVER _ \<Rightarrow> r1\<lparr>rr_type := Type_SVR\<rparr>
         | RD_RAW _ \<Rightarrow> r1
         | RD_UNDEFINED \<Rightarrow> r1)"

text \<open>
  The set of ports of a well-known service: the bit \<open>7 - j\<close> of the byte \<open>i\<close> stands for the port
  \<open>8 * i + j\<close>, narrowed to 16 bits.
\<close>

definition wks_ports :: "bytes \<Rightarrow> u16 list" where
  "wks_ports bitset =
     concat (map (\<lambda>i. map (\<lambda>j. of_nat (i * 8 + j)) (filter (\<lambda>j. and (bitset ! i) (push_bit (7 - j) 1) \<noteq> 0) [0..<8]))
       [0..<length bitset])"

fun wks_mark :: "nat list \<Rightarrow> bytes \<Rightarrow> bytes" where
  "wks_mark [] bitset = bitset"
| "wks_mark (portNumber # portVector) bitset =
     wks_mark portVector
       (bitset[portNumber div 8 := or (bitset ! (portNumber div 8)) (push_bit (7 - portNumber mod 8) 1)])"

definition wks_bitset :: "u16 list \<Rightarrow> bytes" where
  "wks_bitset port =
     (let portVector = map unat (sort port); maxPort = last portVector; bitsetSize = maxPort div 8 + 1
      in wks_mark portVector (replicate bitsetSize 0))"

text \<open>
  The loop over the strings of a text. The number of remaining bytes is a \<open>bsl::size_t\<close>: its
  subtraction wraps around.
\<close>

lemma decodeRaw_advances:
  "decodeRaw n d = Some (Inr bs, d1) \<Longrightarrow>
   md_data d1 = md_data d \<and> md_current d1 = md_current d + n \<and> md_current d + n \<le> length (md_data d) \<or> n = 0 \<and> d1 = d"
  by (auto simp: decodeRaw_def checkUnderflow_def load_def Let_def split: if_splits)

lemma decodeCharacterString_advances:
  assumes "decodeCharacterString d = Some (Inr s, d1)"
  shows "md_data d1 = md_data d \<and> md_current d < md_current d1 \<and> md_current d < length (md_data d)"
  using assms decodeRaw_advances
  by (fastforce simp: decodeCharacterString_def dec_bind_def decodeUint8_def checkUnderflow_def load_byte_def
      dec_return_def Let_def split: if_splits option.splits sum.splits prod.splits)

function (sequential) text_loop ::
  "u64 \<Rightarrow> bytes list \<Rightarrow> MemoryDecoder \<Rightarrow> ((ntsa_error + bytes list) \<times> MemoryDecoder) option" where
  "text_loop numBytesRemaining text d =
     (if numBytesRemaining > 0 then
        (case decodeCharacterString d of
           None \<Rightarrow> None
         | Some (Inl error, d1) \<Rightarrow> Some (Inl error, d1)
         | Some (Inr s, d1) \<Rightarrow>
             (let numBytesRead = of_nat (MemoryDecoder_position d1 - MemoryDecoder_position d)
              in if numBytesRead \<ge> numBytesRemaining
                 then text_loop (numBytesRemaining - numBytesRead) (text @ [s]) d1
                 else Some (Inl E_INVALID, d1)))
      else Some (Inr text, d))"
  by pat_completeness auto
termination
  by (relation "measure (\<lambda>(remaining, text, d). length (md_data d) - md_current d)")
     (use decodeCharacterString_advances in fastforce)+

declare text_loop.simps [simp del]

text \<open>
  \<open>rdata_decode\<close> reads the data of a record, by its type, and \<open>rdata_encode\<close> writes it, by its
  alternative. Each alternative is made anew before it is read.
\<close>

definition decode_soa :: "dns_library \<Rightarrow> ResourceRecordDataSoa decoding" where
  "decode_soa B =
     dec_bind decodeDomainName (\<lambda>mname.
     dec_bind decodeDomainName (\<lambda>rname.
     dec_bind (decodeUint32 B) (\<lambda>serial.
     dec_bind (decodeUint32 B) (\<lambda>refresh.
     dec_bind (decodeUint32 B) (\<lambda>retry.
     dec_bind (decodeUint32 B) (\<lambda>expire.
     dec_bind (decodeUint32 B) (\<lambda>minimum.
       dec_return \<lparr>soa_mname = mname, soa_rname = rname, soa_serial = serial, soa_refresh = refresh,
         soa_retry = retry, soa_expire = expire, soa_minimum = minimum\<rparr>)))))))"

definition decode_wks :: "nat \<Rightarrow> ResourceRecordDataWks decoding" where
  "decode_wks rdataLength =
     dec_bind (decodeRaw 4) (\<lambda>address.
     dec_bind decodeUint8 (\<lambda>protocol.
     dec_bind (if rdataLength > 4 + 1 then decodeRaw (rdataLength - 4 - 1) else dec_return []) (\<lambda>bitset.
       dec_return \<lparr>wks_port = wks_ports bitset, wks_address = of_memory32 address, wks_protocol = protocol\<rparr>)))"

definition decode_ipv4 :: "nat \<Rightarrow> u32 decoding" where
  "decode_ipv4 rdataLength =
     dec_bind (dec_check (checkExpectedRdataLength 4 rdataLength)) (\<lambda>_.
     dec_bind (decodeRaw 4) (\<lambda>bs. dec_return (of_memory32 bs)))"

definition decode_ipv6 :: "nat \<Rightarrow> (u32 \<times> u32 \<times> u32 \<times> u32) decoding" where
  "decode_ipv6 rdataLength =
     dec_bind (dec_check (checkExpectedRdataLength 16 rdataLength)) (\<lambda>_.
     dec_bind (decodeRaw 16) (\<lambda>bs.
       dec_return (of_memory32 bs, of_memory32 (drop 4 bs), of_memory32 (drop 8 bs), of_memory32 (drop 12 bs))))"

definition rdata_decode :: "dns_library \<Rightarrow> Type \<Rightarrow> nat \<Rightarrow> ResourceRecordData decoding" where
  "rdata_decode B type rdataLength =
     (if type = Type_A then dec_bind (decode_ipv4 rdataLength) (\<lambda>x. dec_return (RD_IPV4 x))
      else if type = Type_NS then dec_bind decodeDomainName (\<lambda>x. dec_return (RD_NAME_SERVER x))
      else if type = Type_CNAME then dec_bind decodeDomainName (\<lambda>x. dec_return (RD_CANONICAL_NAME x))
      else if type = Type_SOA then dec_bind (decode_soa B) (\<lambda>x. dec_return (RD_ZONE_AUTHORITY x))
      else if type = Type_WKS then dec_bind (decode_wks rdataLength) (\<lambda>x. dec_return (RD_WELL_KNOWN_SERVICE x))
      else if type = Type_PTR then dec_bind decodeDomainName (\<lambda>x. dec_return (RD_POINTER x))
      else if type = Type_HINFO then
        dec_bind decodeCharacterString (\<lambda>cpu.
        dec_bind decodeCharacterString (\<lambda>os. dec_return (RD_HOST_INFO \<lparr>hi_cpu = cpu, hi_os = os\<rparr>)))
      else if type = Type_MX then
        dec_bind (decodeUint16 B) (\<lambda>preference.
        dec_bind decodeDomainName (\<lambda>exchange.
          dec_return (RD_MAIL_EXCHANGE \<lparr>mx_exchange = exchange, mx_preference = preference\<rparr>)))
      else if type = Type_TXT then
        dec_bind (text_loop (of_nat rdataLength) []) (\<lambda>x. dec_return (RD_TEXT x))
      else if type = Type_AAAA then dec_bind (decode_ipv6 rdataLength) (\<lambda>x. dec_return (RD_IPV6 x))
      else if type = Type_SVR then dec_fail E_NOT_IMPLEMENTED
      else dec_bind (decodeRaw rdataLength) (\<lambda>x. dec_return (RD_RAW x)))"

definition ResourceRecord_validate :: "ResourceRecord \<Rightarrow> ntsa_error" where
  "ResourceRecord_validate r = E_OK"

text \<open>The fields between the name and the data, which for \<open>OPT\<close> have another meaning.\<close>

definition decode_type_fields :: "dns_library \<Rightarrow> ResourceRecord \<Rightarrow> ResourceRecord decoding" where
  "decode_type_fields B r =
     dec_bind (decode_enumerator B Type_fromInt) (\<lambda>type.
       if type \<noteq> Type_OPT then
         dec_bind (decode_enumerator B Classification_fromInt) (\<lambda>classification.
         dec_bind (decodeUint32 B) (\<lambda>ttl.
           dec_return (r\<lparr>rr_type := type, rr_class := classification, rr_ttl := ttl\<rparr>)))
       else
         dec_bind (decodeUint16 B) (\<lambda>optSize.
         dec_bind (decodeUint32 B) (\<lambda>optFlags.
           dec_return (r\<lparr>rr_type := type, rr_class := Class_INTERNET, rr_optSize := optSize,
             rr_optFlags := optFlags\<rparr>))))"

definition decode_rdata_section :: "dns_library \<Rightarrow> u16 \<Rightarrow> ResourceRecord \<Rightarrow> ResourceRecord decoding" where
  "decode_rdata_section B rdataLength r =
     (if rdataLength > 0 then
        dec_bind dec_position (\<lambda>p0.
        dec_bind (rdata_decode B (rr_type r) (unat rdataLength)) (\<lambda>rdata.
        dec_bind dec_position (\<lambda>p1.
        dec_bind (dec_check (checkCoherentRdataLength (unat rdataLength) (p1 - p0))) (\<lambda>_.
          dec_return (r\<lparr>rr_rdata := rdata\<rparr>)))))
      else dec_return r)"

definition ResourceRecord_decode :: "dns_library \<Rightarrow> ResourceRecord \<Rightarrow> ResourceRecord decoding" where
  "ResourceRecord_decode B r =
     dec_bind decodeDomainName (\<lambda>name.
     dec_bind (decode_type_fields B (r\<lparr>rr_name := name\<rparr>)) (\<lambda>r1.
     dec_bind (decodeUint16 B) (\<lambda>rdataLength.
     dec_bind (decode_rdata_section B rdataLength r1) (\<lambda>r2.
     dec_bind (dec_check (ResourceRecord_validate r2)) (\<lambda>_. dec_return r2)))))"

fun encode_strings :: "bytes list \<Rightarrow> encoding" where
  "encode_strings [] = enc_return E_OK"
| "encode_strings (s # strings) = enc_then (encodeCharacterString s) (encode_strings strings)"

fun rdata_encode :: "dns_library \<Rightarrow> ResourceRecordData \<Rightarrow> encoding" where
  "rdata_encode B (RD_IPV4 x) = encodeRaw (memory32 x)"
| "rdata_encode B (RD_IPV6 (a, b, c, d)) = encodeRaw (memory32 a @ memory32 b @ memory32 c @ memory32 d)"
| "rdata_encode B (RD_NAME_SERVER x) = encodeDomainName B x"
| "rdata_encode B (RD_CANONICAL_NAME x) = encodeDomainName B x"
| "rdata_encode B (RD_ZONE_AUTHORITY x) =
     enc_then (encodeDomainName B (soa_mname x))
       (enc_then (encodeDomainName B (soa_rname x))
         (enc_then (encodeUint32 B (soa_serial x))
           (enc_then (encodeUint32 B (soa_refresh x))
             (enc_then (encodeUint32 B (soa_retry x))
               (enc_then (encodeUint32 B (soa_expire x)) (encodeUint32 B (soa_minimum x)))))))"
| "rdata_encode B (RD_WELL_KNOWN_SERVICE x) =
     enc_then (encodeRaw (memory32 (wks_address x)))
       (enc_then (encodeUint8 (wks_protocol x))
         (if wks_port x \<noteq> [] then encodeRaw (wks_bitset (wks_port x)) else enc_return E_OK))"
| "rdata_encode B (RD_POINTER x) = encodeDomainName B x"
| "rdata_encode B (RD_HOST_INFO x) = enc_then (encodeCharacterString (hi_cpu x)) (encodeCharacterString (hi_os x))"
| "rdata_encode B (RD_MAIL_EXCHANGE x) =
     enc_then (encodeUint16 B (mx_preference x)) (encodeDomainName B (mx_exchange x))"
| "rdata_encode B (RD_TEXT x) = encode_strings x"
| "rdata_encode B (RD_SERVER x) = enc_return E_NOT_IMPLEMENTED"
| "rdata_encode B (RD_RAW x) = encodeRaw x"
| "rdata_encode B RD_UNDEFINED = enc_return E_OK"

text \<open>
  The length of the data is written once the data are: the encoding returns to the position in
  front of them. It is narrowed to 16 bits.
\<close>

definition encode_with_length :: "dns_library \<Rightarrow> encoding \<Rightarrow> encoding" where
  "encode_with_length B f e =
     (let p0 = MemoryEncoder_position e
      in enc_then (encodeUint16 B 0) (\<lambda>e1.
           let p1 = MemoryEncoder_position e1
           in enc_then f (\<lambda>e2.
                let p2 = MemoryEncoder_position e2
                in enc_then (MemoryEncoder_seek p0)
                     (enc_then (encodeUint16 B (of_nat (p2 - p1))) (MemoryEncoder_seek p2)) e2) e1) e)"

definition ResourceRecord_encode :: "dns_library \<Rightarrow> ResourceRecord \<Rightarrow> encoding" where
  "ResourceRecord_encode B r =
     enc_then (encodeDomainName B (rr_name r))
       (enc_then (encodeUint16 B (of_nat (Type_toInt (rr_type r))))
         (enc_then
           (if rr_type r \<noteq> Type_OPT
            then enc_then (encodeUint16 B (of_nat (Classification_toInt (rr_class r)))) (encodeUint32 B (rr_ttl r))
            else enc_then (encodeUint16 B (rr_optSize r)) (encodeUint32 B (rr_optFlags r)))
           (encode_with_length B (rdata_encode B (rr_rdata r)))))"

definition ResourceRecord_equal :: "ResourceRecord \<Rightarrow> ResourceRecord \<Rightarrow> bool" where
  "ResourceRecord_equal lhs rhs \<longleftrightarrow>
     rr_name lhs = rr_name rhs \<and> rr_type lhs = rr_type rhs \<and> rr_class lhs = rr_class rhs \<and>
     rr_ttl lhs = rr_ttl rhs \<and> rr_rdata lhs = rr_rdata rhs"

subsection \<open>Decodings and encodings stay within the memory\<close>

lemma bounded_option [bounded_intros]:
  "bounded f \<Longrightarrow> (\<And>x. bounded (g x)) \<Longrightarrow> bounded (case z of None \<Rightarrow> f | Some x \<Rightarrow> g x)"
  by (cases z) simp_all

lemma bounded_Let [bounded_intros]: "(\<And>x. bounded (f x)) \<Longrightarrow> bounded (let x = z in f x)"
  by simp

lemma bounded_decoding: "bounded m \<Longrightarrow> decoder_ok d \<Longrightarrow> \<exists>r d'. m d = Some (r, d') \<and> within d d'"
  by (simp add: bounded_def)

lemma text_loop_within: "decoder_ok d \<Longrightarrow> \<exists>r d'. text_loop remaining strs d = Some (r, d') \<and> within d d'"
proof (induction remaining strs d rule: text_loop.induct)
  case (1 remaining strs d)
  from bounded_decoding [OF bounded_strings(1) 1(2)] obtain r d1 where
    r: "decodeCharacterString d = Some (r, d1)" "within d d1" by blast
  have ok: "decoder_ok d1" using r(2) unfolding within_def by blast
  show ?case
  proof (cases r)
    case (Inl error)
    with r 1(2) show ?thesis by (simp add: text_loop.simps [of remaining])
  next
    case (Inr s)
    define numBytesRead where "numBytesRead = (of_nat (md_current d1 - md_current d) :: u64)"
    show ?thesis
    proof (cases "remaining > 0 \<and> numBytesRead \<ge> remaining")
      case True
      from 1(1) [OF _ r(1) refl Inr refl] True ok
      obtain r' d' where "text_loop (remaining - numBytesRead) (strs @ [s]) d1 = Some (r', d')" "within d1 d'"
        by (auto simp: numBytesRead_def MemoryDecoder_position_def)
      with True Inr r within_trans [OF r(2)] show ?thesis
        by (simp add: text_loop.simps [of remaining] numBytesRead_def MemoryDecoder_position_def Let_def)
    next
      case False
      with Inr r 1(2) show ?thesis
        by (auto simp: text_loop.simps [of remaining] numBytesRead_def MemoryDecoder_position_def Let_def)
    qed
  qed
qed

lemma bounded_text [bounded_intros]: "bounded (text_loop remaining strs)"
  using text_loop_within by (simp add: bounded_def)

lemma bounded_enumerator [bounded_intros]: "bounded (decode_enumerator B fromInt)"
  unfolding decode_enumerator_def by (intro bounded_intros)

lemma bounded_header [bounded_intros]: "bounded (Header_decode B h)"
  unfolding Header_decode_def by (intro bounded_intros)

lemma bounded_question [bounded_intros]: "bounded (Question_decode B q)"
  unfolding bounded_def
proof (intro allI impI)
  fix d
  assume ok: "decoder_ok d"
  define tail where "tail name = dec_bind (decode_enumerator B Type_fromInt) (\<lambda>type.
      dec_bind (decode_enumerator B Classification_fromInt) (\<lambda>classification.
        dec_return (q\<lparr>q_name := name, q_type := type, q_classification := classification\<rparr>)))" for name
  have tail: "bounded (tail name)" for name unfolding tail_def by (intro bounded_intros)
  from name_loop_returns [OF ok, of "[]"] obtain error name d1 where
    name: "decodeDomainName_partial d = Some (error, name, d1)" "within d d1"
    by (auto simp: decodeDomainName_partial_def within_def)
  have "decoder_ok d1" using name(2) unfolding within_def by blast
  from bounded_decoding [OF tail this, of name] within_trans [OF name(2)] name
  show "\<exists>r d'. Question_decode B q d = Some (r, d') \<and> within d d'"
    by (auto simp: Question_decode_def tail_def)
qed

lemma bounded_rdata [bounded_intros]: "bounded (rdata_decode B type rdataLength)"
  unfolding rdata_decode_def decode_soa_def decode_wks_def decode_ipv4_def decode_ipv6_def
  by (intro bounded_intros)

lemma bounded_record [bounded_intros]: "bounded (ResourceRecord_decode B r)"
  unfolding ResourceRecord_decode_def decode_type_fields_def decode_rdata_section_def by (intro bounded_intros)

lemma confined_header [confined_intros]: "confined (Header_encode B h)"
  unfolding Header_encode_def by (intro confined_intros)

lemma confined_question [confined_intros]: "confined (Question_encode B q)"
  unfolding Question_encode_def by (intro confined_intros)

lemma confined_strings_list [confined_intros]: "confined (encode_strings strings)"
  by (induction strings) (auto intro!: confined_intros)

lemma confined_rdata [confined_intros]: "confined (rdata_encode B rdata)"
  by (induction B rdata rule: rdata_encode.induct) (auto intro!: confined_intros)

lemma confined_encoding: "confined f \<Longrightarrow> encoder_ok e \<Longrightarrow> \<exists>error e'. f e = Some (error, e') \<and> extends e e'"
  by (simp add: confined_def)

lemma extends_ok: "extends e e' \<Longrightarrow> encoder_ok e'"
  by (simp add: extends_def)

lemma confined_with_length [confined_intros]:
  assumes "confined f"
  shows "confined (encode_with_length B f)"
  unfolding confined_def
proof (intro allI impI)
  fix e :: MemoryEncoder
  assume ok: "encoder_ok e"
  obtain error1 e1 where s1: "encodeUint16 B 0 e = Some (error1, e1)" "extends e e1"
    using confined_encoding [OF confined_integers(2) ok] by blast
  obtain error2 e2 where s2: "f e1 = Some (error2, e2)" "extends e1 e2"
    using confined_encoding [OF assms extends_ok [OF s1(2)]] by blast
  have e2: "extends e e2" by (rule extends_trans [OF s1(2) s2(2)])
  define e3 where "e3 = e2\<lparr>me_current := me_current e\<rparr>"
  have e3: "extends e e3" "MemoryEncoder_seek (me_current e) e2 = Some (E_OK, e3)"
    using e2 by (auto simp: e3_def extends_def MemoryEncoder_seek_def)
  obtain error4 e4 where s4: "encodeUint16 B (of_nat (me_current e2 - me_current e1)) e3 = Some (error4, e4)"
    "extends e3 e4"
    using confined_encoding [OF confined_integers(2) extends_ok [OF e3(1)]] by blast
  have e4: "extends e e4" by (rule extends_trans [OF e3(1) s4(2)])
  define e5 where "e5 = e4\<lparr>me_current := me_current e2\<rparr>"
  have e5: "extends e e5" "MemoryEncoder_seek (me_current e2) e4 = Some (E_OK, e5)"
    using e2 e4 by (auto simp: e5_def extends_def MemoryEncoder_seek_def)
  show "\<exists>error e'. encode_with_length B f e = Some (error, e') \<and> extends e e'"
    using s1 s2(1) e2 e3(2) s4(1) e4 e5
    by (simp add: encode_with_length_def enc_then_def MemoryEncoder_position_def Let_def)
qed

lemma confined_record [confined_intros]: "confined (ResourceRecord_encode B r)"
  unfolding ResourceRecord_encode_def by (intro confined_intros)

end
