(* ===== verification/Dns_Record_Image.thy ===== *)
theory Dns_Record_Image
  imports Dns_Record
begin

section \<open>Images of headers, questions and resource records\<close>

text \<open>
  The bytes that represent the parts of a message, and that \<open>ntcdns::Header\<close>, \<open>ntcdns::Question\<close>
  and \<open>ntcdns::ResourceRecord\<close> satisfy the contract of a codec for them. The values for which
  this holds are the ones the \<open>valid\<close> predicates describe.
\<close>

subsection \<open>Headers and questions\<close>

lemma writes_with_length:
  assumes "dns_library_ok B" and "writes f bs"
  shows "writes (encode_with_length B f) (dl_store16 B (of_nat (length bs)) @ bs)"
proof (rule writesI)
  fix pre old rest :: bytes
  assume len: "length old = length (dl_store16 B (of_nat (length bs)) @ bs)"
  define zero where "zero = dl_store16 B 0"
  define size2 where "size2 = dl_store16 B (of_nat (length bs))"
  note [simp] = library_integers(1) [OF assms(1)]
  have two: "length zero = 2" "length size2 = 2" by (simp_all add: zero_def size2_def)
  define old1 old2 where "old1 = take 2 old" and "old2 = drop 2 old"
  have old: "old = old1 @ old2" "length old1 = 2" "length old2 = length bs"
    using len by (simp_all add: old1_def old2_def)
  have s1: "encodeUint16 B 0 \<lparr>me_data = pre @ old1 @ old2 @ rest, me_current = length pre\<rparr> =
      Some (E_OK, \<lparr>me_data = pre @ zero @ old2 @ rest, me_current = length pre + 2\<rparr>)"
    using writesD [OF uint16.writes_image [OF assms(1)], of old1 0 pre "old2 @ rest"] old(2) two
    by (simp add: zero_def)
  have s2: "f \<lparr>me_data = pre @ zero @ old2 @ rest, me_current = length pre + 2\<rparr> =
      Some (E_OK, \<lparr>me_data = pre @ zero @ bs @ rest, me_current = length pre + 2 + length bs\<rparr>)"
    using writesD [OF assms(2) old(3), of "pre @ zero" rest] two by simp
  have s3: "encodeUint16 B (of_nat (length bs)) \<lparr>me_data = pre @ zero @ bs @ rest, me_current = length pre\<rparr> =
      Some (E_OK, \<lparr>me_data = pre @ size2 @ bs @ rest, me_current = length pre + 2\<rparr>)"
    using writesD [OF uint16.writes_image [OF assms(1)], of zero "of_nat (length bs)" pre "bs @ rest"] two
    by (simp add: size2_def)
  show "encode_with_length B f \<lparr>me_data = pre @ old @ rest, me_current = length pre\<rparr> =
      Some (E_OK, \<lparr>me_data = pre @ (dl_store16 B (of_nat (length bs)) @ bs) @ rest,
        me_current = length pre + length (dl_store16 B (of_nat (length bs)) @ bs)\<rparr>)"
    unfolding encode_with_length_def MemoryEncoder_position_def Let_def enc_then_def old(1)
    using s1 s2 s3 two by (simp add: MemoryEncoder_seek_def flip: size2_def)
qed

lemma Flags_round_trip:
  "Header_decode_flags (Flags_bytes h) h1 =
     Some (h1\<lparr>h_direction := h_direction h, h_operation := h_operation h, h_aa := h_aa h, h_tc := h_tc h,
             h_rd := h_rd h, h_ra := h_ra h, h_cd := h_cd h, h_error := h_error h\<rparr>)"
proof -
  have b0: "bit_field 7 1 (Flags_bytes h ! 0) = Direction_toInt (h_direction h)"
    "bit_field 3 4 (Flags_bytes h ! 0) = Operation_toInt (h_operation h)"
    "bit_field 2 1 (Flags_bytes h ! 0) = of_bool (h_aa h)"
    "bit_field 1 1 (Flags_bytes h ! 0) = of_bool (h_tc h)"
    "bit_field 0 1 (Flags_bytes h ! 0) = of_bool (h_rd h)"
    by (cases "h_direction h"; cases "h_operation h"; cases "h_aa h"; cases "h_tc h"; cases "h_rd h";
        simp add: bit_field_def Flags_bytes_def)+
  have b1: "bit_field 7 1 (Flags_bytes h ! 1) = of_bool (h_ra h)"
    "bit_field 4 1 (Flags_bytes h ! 1) = of_bool (h_cd h)"
    "bit_field 0 4 (Flags_bytes h ! 1) = Error_toInt (h_error h)"
    by (cases "h_error h"; cases "h_cd h"; cases "h_ra h"; simp add: bit_field_def Flags_bytes_def)+
  show ?thesis unfolding Header_decode_flags_def b0 b1 by simp
qed

lemma decodes_tail: "decodes f bs x \<Longrightarrow> decodes (g x) [] y \<Longrightarrow> decodes (dec_bind f g) bs y"
  using decodes_bind [of f bs x g "[]" y] by simp

lemma decodes_checked: "decodes f bs y \<Longrightarrow> decodes (dec_bind (dec_check E_OK) (\<lambda>_. f)) bs y"
  using decodes_bind [OF decodes_check, of "\<lambda>_. f" bs y] by simp

lemma decodes_returned: "x = y \<Longrightarrow> decodes (dec_return x) [] y"
  by (simp add: decodes_return)

lemma decodes_enumerator:
  assumes "dns_library_ok B" and "fromInt (toInt x) = Some x" and "toInt x < 2 ^ 16"
  shows "decodes (decode_enumerator B fromInt) (dl_store16 B (of_nat (toInt x))) x"
  unfolding decode_enumerator_def
  by (rule decodes_tail [OF uint16.decodes_image [OF assms(1)]])
     (use assms(2,3) in \<open>simp add: unat_of_nat decodes_return\<close>)

lemmas decodes_enumerators =
  decodes_enumerator [of _ Type_fromInt Type_toInt, OF _ Type_fromInt Type_bounded]
  decodes_enumerator [of _ Classification_fromInt Classification_toInt, OF _ Classification_fromInt Classification_bounded]

definition Header_image :: "dns_library \<Rightarrow> Header \<Rightarrow> bytes" where
  "Header_image B h =
     dl_store16 B (h_id h) @ Flags_bytes h @ dl_store16 B (h_qdcount h) @ dl_store16 B (h_ancount h) @
     dl_store16 B (h_nscount h) @ dl_store16 B (h_arcount h)"

text \<open>The flag \<open>AD\<close> is neither written nor read.\<close>

definition Header_valid :: "dns_library \<Rightarrow> Header \<Rightarrow> bool" where
  "Header_valid B h \<longleftrightarrow> dns_library_ok B \<and> \<not> h_ad h"

interpretation dns_header: codec "Header_encode B" "Header_decode B Header_create" "Header_image B" "Header_valid B" for B
proof unfold_locales
  fix h
  assume "Header_valid B h"
  then have B: "dns_library_ok B" and ad: "\<not> h_ad h" by (simp_all add: Header_valid_def)
  note uint = uint16.decodes_image [OF B]
  show "writes (Header_encode B h) (Header_image B h)"
    unfolding Header_encode_def Header_image_def
    by (intro writes_then writes_raw uint16.writes_image B)
  have "length (Flags_bytes h) = 2" by (simp add: Flags_bytes_def)
  then show "decodes (Header_decode B Header_create) (Header_image B h) h"
    unfolding Header_decode_def Header_image_def
    by (intro decodes_bind [OF uint] decodes_bind [OF decodes_raw])
       (simp_all only: Flags_round_trip option.case Let_def Header_validate_def,
        intro decodes_bind [OF uint] decodes_tail [OF uint] decodes_checked decodes_returned Header.equality,
        simp_all add: ad Header_create_def)
qed

definition Question_image :: "dns_library \<Rightarrow> Question \<Rightarrow> bytes" where
  "Question_image B q =
     name_image B (q_name q) @ dl_store16 B (of_nat (Type_toInt (q_type q))) @
     dl_store16 B (of_nat (Classification_toInt (q_classification q)))"

definition Question_valid :: "dns_library \<Rightarrow> Question \<Rightarrow> bool" where
  "Question_valid B q \<longleftrightarrow> dns_library_ok B \<and> valid_name B (q_name q)"

lemma decodes_partial:
  assumes "decodes decodeDomainName bs name"
  shows "decodeDomainName_partial \<lparr>md_data = pre @ bs @ rest, md_current = length pre\<rparr> =
    Some (E_OK, name, \<lparr>md_data = pre @ bs @ rest, md_current = length pre + length bs\<rparr>)"
  using decodesD [OF assms, of pre rest]
  by (auto simp: decodeDomainName_def bind_eq_Some_conv split: if_splits)

interpretation dns_question: codec "Question_encode B" "Question_decode B Question_create" "Question_image B"
  "Question_valid B" for B
proof unfold_locales
  fix q
  assume "Question_valid B q"
  then have B: "dns_library_ok B" and name: "valid_name B (q_name q)" by (simp_all add: Question_valid_def)
  show "writes (Question_encode B q) (Question_image B q)"
    unfolding Question_encode_def Question_image_def
    by (intro writes_then uint16.writes_image domain_name.writes_image B name)
  define f where "f = dec_bind decodeDomainName (\<lambda>name. dec_bind (decode_enumerator B Type_fromInt) (\<lambda>type.
      dec_bind (decode_enumerator B Classification_fromInt) (\<lambda>classification.
        dec_return (Question_create\<lparr>q_name := name, q_type := type, q_classification := classification\<rparr>))))"
  have f: "decodes f (Question_image B q) q"
    unfolding f_def Question_image_def
    by (intro decodes_bind [OF domain_name.decodes_image [OF name]] decodes_bind [OF decodes_enumerators(1) [OF B]]
        decodes_tail [OF decodes_enumerators(2) [OF B]] decodes_returned) (simp add: Question_create_def)
  have "Question_decode B Question_create \<lparr>md_data = pre @ Question_image B q @ rest, md_current = length pre\<rparr> =
      f \<lparr>md_data = pre @ Question_image B q @ rest, md_current = length pre\<rparr>" for pre rest
    using decodes_partial [OF domain_name.decodes_image [OF name], of pre]
    by (simp add: Question_decode_def f_def dec_bind_def decodeDomainName_def Question_image_def)
  then show "decodes (Question_decode B Question_create) (Question_image B q) q"
    using f by (simp add: decodes_def)
qed

subsection \<open>The image of the data of a record\<close>

lemma memory32_length [simp]: "length (memory32 w) = 4"
  by (simp add: memory32_def)

lemma memory32_round_trip [simp]: "of_memory32 (memory32 w @ rest) = w" "of_memory32 (memory32 w) = w"
proof -
  have byte: "bit (push_bit k (ucast (ucast (drop_bit k w) :: u8)) :: u32) n \<longleftrightarrow> k \<le> n \<and> n < k + 8 \<and> bit w n"
    if "n < 32" for k n
    using that by (auto simp: bit_simps)
  have "bit (of_memory32 (memory32 w @ rest)) n \<longleftrightarrow> bit w n" if "n < 32" for n rest
  proof -
    have "bit (of_memory32 (memory32 w @ rest)) n \<longleftrightarrow>
        (\<exists>k\<in>{0, 8, 16, 24}. bit (push_bit k (ucast (ucast (drop_bit k w) :: u8)) :: u32) n)"
      by (simp add: of_memory32_def memory32_def nth_append bit_or_iff)
    also have "\<dots> \<longleftrightarrow> bit w n" unfolding byte [OF that] using that by auto
    finally show ?thesis .
  qed
  from this [of _ rest] this [of _ "[]"] show "of_memory32 (memory32 w @ rest) = w" "of_memory32 (memory32 w) = w"
    by (auto intro!: bit_word_eqI)
qed

text \<open>The bit of a port in the set of ports of a service.\<close>

definition port_marked :: "bytes \<Rightarrow> nat \<Rightarrow> bool" where
  "port_marked bitset p \<longleftrightarrow> bit (bitset ! (p div 8)) (7 - p mod 8)"

lemma concat_upt: "concat (map (\<lambda>i. filter P [i * 8..<i * 8 + 8]) [0..<n]) = filter P [0..<8 * n]"
proof (induction n)
  case (Suc n)
  have "[0..<8 * Suc n] = [0..<8 * n] @ [n * 8..<n * 8 + 8]"
    using upt_add_eq_append [of 0 "8 * n" 8] by (simp add: mult.commute add.commute)
  then show ?case using Suc by simp
qed simp

lemma wks_ports_filter: "wks_ports bitset = map of_nat (filter (port_marked bitset) [0..<8 * length bitset])"
proof -
  have "map (\<lambda>j. of_nat (i * 8 + j)) (filter (\<lambda>j. and (bitset ! i) (push_bit (7 - j) 1) \<noteq> 0) [0..<8]) =
      map (of_nat :: nat \<Rightarrow> u16) (filter (port_marked bitset) [i * 8..<i * 8 + 8])" for i
  proof -
    have "[i * 8..<i * 8 + 8] = map (\<lambda>j. i * 8 + j) [0..<8]"
      by (simp add: map_add_upt add.commute)
    moreover have "port_marked bitset (i * 8 + j) \<longleftrightarrow> and (bitset ! i) (push_bit (7 - j) 1) \<noteq> 0" if "j < 8" for j
      using that by (simp add: port_marked_def and_exp_eq_0_iff_not_bit)
    then have "filter (\<lambda>j. and (bitset ! i) (push_bit (7 - j) 1) \<noteq> 0) [0..<8] =
        filter (\<lambda>j. port_marked bitset (i * 8 + j)) [0..<8]"
      by (intro filter_cong refl) simp
    ultimately show ?thesis by (simp add: filter_map o_def)
  qed
  then have "wks_ports bitset = concat (map (\<lambda>i. map of_nat (filter (port_marked bitset) [i * 8..<i * 8 + 8])) [0..<length bitset])"
    by (simp only: wks_ports_def)
  also have "\<dots> = map of_nat (concat (map (\<lambda>i. filter (port_marked bitset) [i * 8..<i * 8 + 8]) [0..<length bitset]))"
    by (simp add: map_concat o_def)
  finally show ?thesis by (simp only: concat_upt)
qed

lemma wks_mark_length [simp]: "length (wks_mark ports bitset) = length bitset"
  by (induction ports bitset rule: wks_mark.induct) simp_all

lemma bit_index_inj: "p div 8 = q div 8 \<Longrightarrow> 7 - p mod 8 = 7 - q mod 8 \<Longrightarrow> p = (q :: nat)"
proof -
  assume a: "p div 8 = q div 8" "7 - p mod 8 = 7 - q mod 8"
  have "p mod 8 < 8" "q mod 8 < 8" by simp_all
  with a(2) have "p mod 8 = q mod 8" by arith
  with a(1) show ?thesis by (metis div_mult_mod_eq)
qed

lemma port_marked_mark:
  assumes "\<forall>p\<in>set ports. p < 8 * length bitset" and "q < 8 * length bitset"
  shows "port_marked (wks_mark ports bitset) q \<longleftrightarrow> port_marked bitset q \<or> q \<in> set ports"
  using assms
proof (induction ports bitset rule: wks_mark.induct)
  case (2 p ports bitset)
  have "p div 8 < length bitset" "q div 8 < length bitset" using 2 by (auto simp: div_less_iff_less_mult mult.commute)
  moreover have "bit (push_bit (7 - p mod 8) 1 :: u8) (7 - q mod 8) \<longleftrightarrow> 7 - p mod 8 = 7 - q mod 8"
    by (auto simp: bit_simps)
  ultimately have "port_marked (bitset[p div 8 := or (bitset ! (p div 8)) (push_bit (7 - p mod 8) 1)]) q \<longleftrightarrow>
      port_marked bitset q \<or> q = p"
    using bit_index_inj [of p q] by (cases "p div 8 = q div 8") (auto simp: port_marked_def bit_or_iff)
  then show ?case using 2 by auto
qed simp

lemma wks_round_trip:
  assumes "sorted ports" and "distinct ports" and "ports \<noteq> []"
  shows "wks_ports (wks_bitset ports) = ports"
proof -
  define us where "us = map unat ports"
  have sorted: "sorted us" "distinct us"
    using assms(1,2) by (auto simp: us_def sorted_map word_le_nat_alt distinct_map intro: inj_on_subset [OF inj_unsigned] elim: sorted_wrt_mono_rel [rotated])
  have le: "p \<le> last us" if "p \<in> set us" for p
    using that sorted(1) by (metis append_butlast_last_id empty_iff list.set(1) Un_iff insert_iff order_refl set_append list.simps(15) sorted_append)
  define n where "n = last us div 8 + 1"
  have below: "p < 8 * n" if "p \<in> set us" for p
    using le [OF that] unfolding n_def by arith
  have bitset: "wks_bitset ports = wks_mark us (replicate n 0)"
    using assms(1) by (simp add: wks_bitset_def us_def n_def sorted_sort_id Let_def)
  have "filter (port_marked (wks_bitset ports)) [0..<8 * n] = filter (\<lambda>q. q \<in> set us) [0..<8 * n]"
    using below by (intro filter_cong refl) (simp add: bitset port_marked_mark, simp add: port_marked_def)
  also have "\<dots> = us"
    by (rule sorted_distinct_set_unique) (use sorted below in \<open>auto simp: sorted_wrt_filter\<close>)
  finally show ?thesis
    by (simp add: wks_ports_filter bitset us_def o_def)
qed

text \<open>
  The loop over strings takes one string for granted: with another one behind it, the number of
  bytes read is less than what remains, and the loop returns an error.
\<close>

lemma string_image_length: "length (character_string_image s) = length s + 1"
  by (simp add: character_string_image_def)

lemma text_step:
  assumes "length s \<le> 255" and "0 < remaining" and "remaining < 2 ^ 64"
  shows "text_loop (of_nat remaining) strings
      \<lparr>md_data = pre @ character_string_image s @ rest, md_current = length pre\<rparr> =
    (if length s + 1 = remaining
     then Some (Inr (strings @ [s]), \<lparr>md_data = pre @ character_string_image s @ rest,
            md_current = length pre + length (character_string_image s)\<rparr>)
     else if length s + 1 < remaining
     then Some (Inl E_INVALID, \<lparr>md_data = pre @ character_string_image s @ rest,
            md_current = length pre + length (character_string_image s)\<rparr>)
     else text_loop (of_nat remaining - of_nat (length s + 1)) (strings @ [s])
            \<lparr>md_data = pre @ character_string_image s @ rest,
             md_current = length pre + length (character_string_image s)\<rparr>)"
proof -
  have s: "decodeCharacterString \<lparr>md_data = pre @ character_string_image s @ rest, md_current = length pre\<rparr> =
      Some (Inr s, \<lparr>md_data = pre @ character_string_image s @ rest,
        md_current = length pre + length (character_string_image s)\<rparr>)"
    by (rule decodesD [OF character_string.decodes_image]) (use assms(1) in \<open>simp add: k_MAX_CHARACTER_STRING_LENGTH_def\<close>)
  have unat: "unat (of_nat remaining :: u64) = remaining" "unat (of_nat (length s + 1) :: u64) = length s + 1"
    using assms by (simp_all add: unat_of_nat del: of_nat_add of_nat_Suc)
  then have pos: "(0 :: u64) < of_nat remaining" using assms(2) by (simp add: word_less_nat_alt)
  have le: "(of_nat remaining :: u64) \<le> of_nat (length s + 1) \<longleftrightarrow> remaining \<le> length s + 1"
    unfolding word_le_nat_alt unat ..
  show ?thesis
  proof (cases "remaining = length s + 1")
    case True
    then show ?thesis using pos
      by (subst text_loop.simps) (simp add: s string_image_length MemoryDecoder_position_def text_loop.simps [of 0])
  next
    case False
    then show ?thesis using pos le
      by (subst text_loop.simps) (auto simp: s string_image_length MemoryDecoder_position_def)
  qed
qed

definition rdata_image :: "dns_library \<Rightarrow> ResourceRecordData \<Rightarrow> bytes" where
  "rdata_image B rdata =
     (case rdata of
        RD_IPV4 x \<Rightarrow> memory32 x
      | RD_IPV6 (a, b, c, d) \<Rightarrow> memory32 a @ memory32 b @ memory32 c @ memory32 d
      | RD_NAME_SERVER x \<Rightarrow> name_image B x
      | RD_CANONICAL_NAME x \<Rightarrow> name_image B x
      | RD_POINTER x \<Rightarrow> name_image B x
      | RD_ZONE_AUTHORITY x \<Rightarrow>
          name_image B (soa_mname x) @ name_image B (soa_rname x) @ dl_store32 B (soa_serial x) @
          dl_store32 B (soa_refresh x) @ dl_store32 B (soa_retry x) @ dl_store32 B (soa_expire x) @
          dl_store32 B (soa_minimum x)
      | RD_WELL_KNOWN_SERVICE x \<Rightarrow>
          memory32 (wks_address x) @ [wks_protocol x] @ (if wks_port x \<noteq> [] then wks_bitset (wks_port x) else [])
      | RD_HOST_INFO x \<Rightarrow> character_string_image (hi_cpu x) @ character_string_image (hi_os x)
      | RD_MAIL_EXCHANGE x \<Rightarrow> dl_store16 B (mx_preference x) @ name_image B (mx_exchange x)
      | RD_TEXT strings \<Rightarrow> concat (map character_string_image strings)
      | RD_SERVER x \<Rightarrow> []
      | RD_RAW x \<Rightarrow> x
      | RD_UNDEFINED \<Rightarrow> [])"

text \<open>
  The data that agree with the type of the record, and that the codec can represent: a text has one
  string, the ports of a service are in order, and raw data are not empty.
\<close>

definition is_text_length :: "bytes \<Rightarrow> bool" where
  "is_text_length s \<longleftrightarrow> length s \<le> k_MAX_CHARACTER_STRING_LENGTH"

definition rdata_valid :: "dns_library \<Rightarrow> Type \<Rightarrow> ResourceRecordData \<Rightarrow> bool" where
  "rdata_valid B type rdata \<longleftrightarrow>
     (case rdata of
        RD_IPV4 x \<Rightarrow> type = Type_A
      | RD_IPV6 x \<Rightarrow> type = Type_AAAA
      | RD_NAME_SERVER x \<Rightarrow> type = Type_NS \<and> valid_name B x
      | RD_CANONICAL_NAME x \<Rightarrow> type = Type_CNAME \<and> valid_name B x
      | RD_POINTER x \<Rightarrow> type = Type_PTR \<and> valid_name B x
      | RD_ZONE_AUTHORITY x \<Rightarrow> type = Type_SOA \<and> valid_name B (soa_mname x) \<and> valid_name B (soa_rname x)
      | RD_WELL_KNOWN_SERVICE x \<Rightarrow> type = Type_WKS \<and> sorted (wks_port x) \<and> distinct (wks_port x)
      | RD_HOST_INFO x \<Rightarrow> type = Type_HINFO \<and> is_text_length (hi_cpu x) \<and> is_text_length (hi_os x)
      | RD_MAIL_EXCHANGE x \<Rightarrow> type = Type_MX \<and> valid_name B (mx_exchange x)
      | RD_TEXT strings \<Rightarrow> type = Type_TXT \<and> length strings = 1 \<and> is_text_length (hd strings)
      | RD_SERVER x \<Rightarrow> False
      | RD_RAW x \<Rightarrow> x \<noteq> [] \<and>
          type \<notin> {Type_A, Type_NS, Type_CNAME, Type_SOA, Type_WKS, Type_PTR, Type_HINFO, Type_MX, Type_TXT,
                  Type_AAAA, Type_SVR}
      | RD_UNDEFINED \<Rightarrow> True)"

lemma writes_strings:
  "list_all is_text_length strings \<Longrightarrow> writes (encode_strings strings) (concat (map character_string_image strings))"
  by (induction strings)
     (auto simp: is_text_length_def intro!: writes_return writes_then character_string.writes_image)

lemma writes_rdata:
  assumes "dns_library_ok B" and "rdata_valid B type rdata"
  shows "writes (rdata_encode B rdata) (rdata_image B rdata)"
proof (cases rdata)
  case (RD_TEXT strings)
  then obtain s where "strings = [s]" "is_text_length s"
    using assms(2) by (auto simp: rdata_valid_def length_Suc_conv)
  then show ?thesis using RD_TEXT writes_strings [of strings] by (simp add: rdata_image_def)
next
  case (RD_IPV6 x)
  then show ?thesis by (cases x) (simp add: rdata_image_def writes_raw)
next
  case (RD_WELL_KNOWN_SERVICE x)
  have "writes (if wks_port x \<noteq> [] then encodeRaw (wks_bitset (wks_port x)) else enc_return E_OK)
      (if wks_port x \<noteq> [] then wks_bitset (wks_port x) else [])"
    by (simp add: writes_raw writes_return)
  from writes_then [OF writes_raw writes_then [OF writes_byte this]] RD_WELL_KNOWN_SERVICE show ?thesis
    by (simp only: rdata_encode.simps rdata_image_def ResourceRecordData.case)
qed (use assms in \<open>auto simp: rdata_image_def rdata_valid_def is_text_length_def
      intro!: writes_raw writes_return writes_then domain_name.writes_image
        character_string.writes_image uint16.writes_image uint32.writes_image\<close>)

lemma memory32_drop [simp]:
  "of_memory32 (drop 4 (memory32 a @ bs)) = of_memory32 bs"
  "of_memory32 (drop 8 (memory32 a @ bs)) = of_memory32 (drop 4 bs)"
  "of_memory32 (drop 12 (memory32 a @ bs)) = of_memory32 (drop 8 bs)"
  by simp_all

lemma decodes_ipv4: "decodes (decode_ipv4 4) (memory32 x) x"
  unfolding decode_ipv4_def checkExpectedRdataLength_def
  by (simp, rule decodes_checked, rule decodes_last [OF decodes_raw]) simp_all

lemma decodes_ipv6: "decodes (decode_ipv6 16) (memory32 a @ memory32 b @ memory32 c @ memory32 d) (a, b, c, d)"
  unfolding decode_ipv6_def checkExpectedRdataLength_def
  by (simp del: drop_append, rule decodes_checked, rule decodes_last [OF decodes_raw]) (simp_all del: drop_append)

lemma decodes_soa:
  assumes "dns_library_ok B" and "valid_name B (soa_mname x)" and "valid_name B (soa_rname x)"
  shows "decodes (decode_soa B) (rdata_image B (RD_ZONE_AUTHORITY x)) x"
  unfolding decode_soa_def rdata_image_def ResourceRecordData.case
  by (intro decodes_bind [OF domain_name.decodes_image [OF assms(2)]] decodes_bind [OF domain_name.decodes_image [OF assms(3)]]
        decodes_bind [OF uint32.decodes_image [OF assms(1)]] decodes_last [OF uint32.decodes_image [OF assms(1)]]
        ResourceRecordDataSoa.equality) simp_all

lemma decodes_wks:
  assumes "sorted (wks_port x)" and "distinct (wks_port x)"
  shows "decodes (decode_wks (length (rdata_image B (RD_WELL_KNOWN_SERVICE x)))) (rdata_image B (RD_WELL_KNOWN_SERVICE x)) x"
proof -
  define bitset where "bitset = (if wks_port x \<noteq> [] then wks_bitset (wks_port x) else [])"
  have image: "rdata_image B (RD_WELL_KNOWN_SERVICE x) = memory32 (wks_address x) @ [wks_protocol x] @ bitset"
    by (simp add: rdata_image_def bitset_def)
  have ports: "wks_ports bitset = wks_port x"
    using wks_round_trip [OF assms] by (auto simp: bitset_def wks_ports_def)
  have "decodes (if length bitset + 5 > 4 + 1 then decodeRaw (length bitset + 5 - 4 - 1) else dec_return []) bitset bitset"
    by (cases bitset) (simp_all add: decodes_raw decodes_return)
  then show ?thesis
    unfolding image decode_wks_def
    by (intro decodes_bind [OF decodes_raw [where bs = "memory32 (wks_address x)"]] decodes_bind [OF decodes_byte]
          decodes_last [where x = bitset] ResourceRecordDataWks.equality)
       (simp_all add: ports add.commute split: if_splits)
qed

lemma decodes_text:
  assumes "is_text_length s"
  shows "decodes (text_loop (of_nat (length s + 1)) []) (character_string_image s) [s]"
  using text_step [of s "length s + 1" "[]"] assms
  by (simp add: decodes_def is_text_length_def k_MAX_CHARACTER_STRING_LENGTH_def)

lemma decodes_rdata:
  assumes B: "dns_library_ok B" and valid: "rdata_valid B type rdata" and rdata: "rdata \<noteq> RD_UNDEFINED"
  shows "decodes (rdata_decode B type (length (rdata_image B rdata))) (rdata_image B rdata) rdata"
proof -
  note name = domain_name.decodes_image [of B]
  note string = character_string.decodes_image [folded is_text_length_def]
  show ?thesis
  proof (cases rdata)
    case (RD_IPV4 x)
    then show ?thesis using valid decodes_last [OF decodes_ipv4, of _ RD_IPV4]
      by (simp add: rdata_valid_def rdata_decode_def rdata_image_def)
  next
    case (RD_IPV6 x)
    then show ?thesis using valid decodes_last [OF decodes_ipv6, of _ RD_IPV6]
      by (cases x) (simp add: rdata_valid_def rdata_decode_def rdata_image_def)
  next
    case (RD_ZONE_AUTHORITY x)
    then show ?thesis using valid decodes_last [OF decodes_soa [OF B], of x _ RD_ZONE_AUTHORITY]
      by (simp add: rdata_valid_def rdata_decode_def)
  next
    case (RD_WELL_KNOWN_SERVICE x)
    then show ?thesis using valid decodes_last [OF decodes_wks, of x _ RD_WELL_KNOWN_SERVICE]
      by (simp add: rdata_valid_def rdata_decode_def)
  next
    case (RD_HOST_INFO x)
    then show ?thesis
      using valid decodes_bind [OF string decodes_last [OF string], of "hi_cpu x" "hi_os x" rdata
          "\<lambda>cpu os. RD_HOST_INFO \<lparr>hi_cpu = cpu, hi_os = os\<rparr>"]
      by (simp add: rdata_valid_def rdata_decode_def rdata_image_def)
  next
    case (RD_MAIL_EXCHANGE x)
    then show ?thesis
      using valid decodes_bind [OF uint16.decodes_image [OF B] decodes_last [OF name], of "mx_exchange x" rdata
          "\<lambda>preference exchange. RD_MAIL_EXCHANGE \<lparr>mx_exchange = exchange, mx_preference = preference\<rparr>" "mx_preference x"]
      by (simp add: rdata_valid_def rdata_decode_def rdata_image_def)
  next
    case (RD_TEXT strings)
    then obtain s where "strings = [s]" "is_text_length s"
      using valid by (auto simp: rdata_valid_def length_Suc_conv)
    then show ?thesis using RD_TEXT valid decodes_last [OF decodes_text, of s _ RD_TEXT]
      by (simp add: rdata_valid_def rdata_decode_def rdata_image_def string_image_length)
  next
    case (RD_RAW x)
    then show ?thesis using valid decodes_last [OF decodes_raw [where bs = x], where g = RD_RAW]
      by (simp add: rdata_valid_def rdata_decode_def rdata_image_def)
  qed (use valid rdata decodes_last [OF name refl] in
         \<open>auto simp: rdata_valid_def rdata_decode_def rdata_image_def\<close>)
qed


lemma rdata_image_empty:
  "dns_library_ok B \<Longrightarrow> rdata_valid B type rdata \<Longrightarrow> rdata_image B rdata = [] \<longleftrightarrow> rdata = RD_UNDEFINED"
  by (cases rdata)
     (auto simp: rdata_image_def rdata_valid_def name_image_def character_string_image_def length_Suc_conv
       memory32_def split: prod.split)

subsection \<open>The image of a record\<close>

definition ResourceRecord_image :: "dns_library \<Rightarrow> ResourceRecord \<Rightarrow> bytes" where
  "ResourceRecord_image B r =
     name_image B (rr_name r) @ dl_store16 B (of_nat (Type_toInt (rr_type r))) @
     (if rr_type r \<noteq> Type_OPT
      then dl_store16 B (of_nat (Classification_toInt (rr_class r))) @ dl_store32 B (rr_ttl r)
      else dl_store16 B (rr_optSize r) @ dl_store32 B (rr_optFlags r)) @
     dl_store16 B (of_nat (length (rdata_image B (rr_rdata r)))) @ rdata_image B (rr_rdata r)"

text \<open>The fields that a record does not carry have their default values.\<close>

definition ResourceRecord_fields :: "ResourceRecord \<Rightarrow> bool" where
  "ResourceRecord_fields r \<longleftrightarrow>
     (if rr_type r \<noteq> Type_OPT then rr_optSize r = 0 \<and> rr_optFlags r = 0
      else rr_class r = Class_INTERNET \<and> rr_ttl r = 0)"

definition ResourceRecord_valid :: "dns_library \<Rightarrow> ResourceRecord \<Rightarrow> bool" where
  "ResourceRecord_valid B r \<longleftrightarrow>
     dns_library_ok B \<and> valid_name B (rr_name r) \<and> rdata_valid B (rr_type r) (rr_rdata r) \<and>
     length (rdata_image B (rr_rdata r)) \<le> k_MAX_RDATA_LENGTH \<and> ResourceRecord_fields r"

lemma decodes_type_fields:
  assumes B: "dns_library_ok B" and fields: "ResourceRecord_fields r"
  shows "decodes (decode_type_fields B (ResourceRecord_create\<lparr>rr_name := rr_name r\<rparr>))
    (dl_store16 B (of_nat (Type_toInt (rr_type r))) @
     (if rr_type r \<noteq> Type_OPT
      then dl_store16 B (of_nat (Classification_toInt (rr_class r))) @ dl_store32 B (rr_ttl r)
      else dl_store16 B (rr_optSize r) @ dl_store32 B (rr_optFlags r)))
    (r\<lparr>rr_rdata := RD_UNDEFINED\<rparr>)"
proof -
  note enum = decodes_enumerators [OF B] and uint = uint16.decodes_image [OF B] uint32.decodes_image [OF B]
  show ?thesis
  proof (cases "rr_type r = Type_OPT")
    case False
    have "decodes (dec_bind (decode_enumerator B Classification_fromInt) (\<lambda>classification.
         dec_bind (decodeUint32 B) (\<lambda>ttl.
           dec_return (ResourceRecord_create\<lparr>rr_name := rr_name r, rr_type := rr_type r, rr_class := classification, rr_ttl := ttl\<rparr>))))
       (dl_store16 B (of_nat (Classification_toInt (rr_class r))) @ dl_store32 B (rr_ttl r)) (r\<lparr>rr_rdata := RD_UNDEFINED\<rparr>)"
      by (intro decodes_bind [OF enum(2)] decodes_last [OF uint(2)] ResourceRecord.equality)
         (use fields False in \<open>simp_all add: ResourceRecord_create_def ResourceRecord_fields_def\<close>)
    with False show ?thesis
      unfolding decode_type_fields_def by (intro decodes_bind [OF enum(1)]) simp
  next
    case True
    have "decodes (dec_bind (decodeUint16 B) (\<lambda>optSize.
         dec_bind (decodeUint32 B) (\<lambda>optFlags.
           dec_return (ResourceRecord_create\<lparr>rr_name := rr_name r, rr_type := rr_type r, rr_class := Class_INTERNET,
             rr_optSize := optSize, rr_optFlags := optFlags\<rparr>))))
       (dl_store16 B (rr_optSize r) @ dl_store32 B (rr_optFlags r)) (r\<lparr>rr_rdata := RD_UNDEFINED\<rparr>)"
      by (intro decodes_bind [OF uint(1)] decodes_last [OF uint(2)] ResourceRecord.equality)
         (use fields True in \<open>simp_all add: ResourceRecord_create_def ResourceRecord_fields_def\<close>)
    with True show ?thesis
      unfolding decode_type_fields_def by (intro decodes_bind [OF enum(1)]) simp
  qed
qed

text \<open>The positions before and after the data differ by the length of its image.\<close>

lemma decodes_measured:
  assumes "decodes f bs x" and "decodes (g (length bs) x) [] y"
  shows "decodes (dec_bind dec_position (\<lambda>p0. dec_bind f (\<lambda>x. dec_bind dec_position (\<lambda>p1. g (p1 - p0) x)))) bs y"
  unfolding decodes_def
proof (intro allI)
  fix pre rest
  have "g (length bs) x \<lparr>md_data = (pre @ bs) @ [] @ rest, md_current = length (pre @ bs)\<rparr> =
      Some (Inr y, \<lparr>md_data = (pre @ bs) @ [] @ rest, md_current = length (pre @ bs) + length []\<rparr>)"
    using decodesD [OF assms(2), of "pre @ bs" rest] by simp
  then show "dec_bind dec_position (\<lambda>p0. dec_bind f (\<lambda>x. dec_bind dec_position (\<lambda>p1. g (p1 - p0) x)))
        \<lparr>md_data = pre @ bs @ rest, md_current = length pre\<rparr> =
      Some (Inr y, \<lparr>md_data = pre @ bs @ rest, md_current = length pre + length bs\<rparr>)"
    by (simp add: dec_bind_def dec_position_def MemoryDecoder_position_def decodesD [OF assms(1)])
qed

lemma decodes_rdata_section:
  assumes "ResourceRecord_valid B r"
  shows "decodes (decode_rdata_section B (of_nat (length (rdata_image B (rr_rdata r)))) (r\<lparr>rr_rdata := RD_UNDEFINED\<rparr>))
    (rdata_image B (rr_rdata r)) r"
proof -
  define n where "n = length (rdata_image B (rr_rdata r))"
  have B: "dns_library_ok B" and rdata: "rdata_valid B (rr_type r) (rr_rdata r)" and "n < 65536"
    using assms by (simp_all add: ResourceRecord_valid_def k_MAX_RDATA_LENGTH_def n_def)
  then have n: "unat (of_nat n :: u16) = n" by (simp add: unat_of_nat)
  have empty: "n = 0 \<longleftrightarrow> rr_rdata r = RD_UNDEFINED"
    using rdata_image_empty [OF B rdata] by (simp add: n_def)
  show ?thesis
  proof (cases "n = 0")
    case True
    then have "r\<lparr>rr_rdata := RD_UNDEFINED\<rparr> = r" using empty by simp
    with True n_def show ?thesis by (simp add: decode_rdata_section_def decodes_return)
  next
    case False
    then have pos: "(of_nat n :: u16) > 0" using n by (simp add: word_less_nat_alt)
    have "decodes (rdata_decode B (rr_type r) n) (rdata_image B (rr_rdata r)) (rr_rdata r)"
      unfolding n_def using decodes_rdata [OF B rdata] empty False by simp
    moreover have "decodes (dec_bind (dec_check (checkCoherentRdataLength n n)) (\<lambda>_. dec_return r)) [] r"
      by (simp add: checkCoherentRdataLength_def decodes_checked decodes_return)
    ultimately show ?thesis
      using decodes_measured [of "rdata_decode B (rr_type r) n" _ "rr_rdata r"
          "\<lambda>read rdata. dec_bind (dec_check (checkCoherentRdataLength n read)) (\<lambda>_. dec_return (r\<lparr>rr_rdata := rdata\<rparr>))" r]
      using pos by (simp add: decode_rdata_section_def n flip: n_def)
  qed
qed

lemma writes_record_parts:
  assumes B: "dns_library_ok B" and name: "valid_name B (rr_name r)"
    and rdata: "writes (rdata_encode B (rr_rdata r)) (rdata_image B (rr_rdata r))"
  shows "writes (ResourceRecord_encode B r) (ResourceRecord_image B r)"
proof -
  note uint = uint16.writes_image [OF B] uint32.writes_image [OF B]
  have "writes (if rr_type r \<noteq> Type_OPT
         then enc_then (encodeUint16 B (of_nat (Classification_toInt (rr_class r)))) (encodeUint32 B (rr_ttl r))
         else enc_then (encodeUint16 B (rr_optSize r)) (encodeUint32 B (rr_optFlags r)))
      (if rr_type r \<noteq> Type_OPT
       then dl_store16 B (of_nat (Classification_toInt (rr_class r))) @ dl_store32 B (rr_ttl r)
       else dl_store16 B (rr_optSize r) @ dl_store32 B (rr_optFlags r))"
    by (simp add: writes_then uint)
  then show ?thesis
    unfolding ResourceRecord_encode_def ResourceRecord_image_def
    by (intro writes_then domain_name.writes_image [OF name] uint writes_with_length [OF B] rdata)
qed

lemma writes_record:
  "ResourceRecord_valid B r \<Longrightarrow> writes (ResourceRecord_encode B r) (ResourceRecord_image B r)"
  using writes_rdata by (auto simp: ResourceRecord_valid_def intro: writes_record_parts)

interpretation dns_record: codec "ResourceRecord_encode B" "ResourceRecord_decode B ResourceRecord_create"
  "ResourceRecord_image B" "ResourceRecord_valid B" for B
proof unfold_locales
  fix r
  assume valid: "ResourceRecord_valid B r"
  then have B: "dns_library_ok B" and name: "valid_name B (rr_name r)" and default: "ResourceRecord_fields r"
    by (simp_all add: ResourceRecord_valid_def)
  show "writes (ResourceRecord_encode B r) (ResourceRecord_image B r)" by (rule writes_record [OF valid])
  define tail where "tail = (\<lambda>r1. dec_bind (decodeUint16 B) (\<lambda>rdataLength.
     dec_bind (decode_rdata_section B rdataLength r1) (\<lambda>r2.
     dec_bind (dec_check (ResourceRecord_validate r2)) (\<lambda>_. dec_return r2))))"
  have "decodes (tail (r\<lparr>rr_rdata := RD_UNDEFINED\<rparr>))
      (dl_store16 B (of_nat (length (rdata_image B (rr_rdata r)))) @ rdata_image B (rr_rdata r)) r"
    unfolding tail_def
    by (intro decodes_bind [OF uint16.decodes_image [OF B]] decodes_tail [OF decodes_rdata_section [OF valid]])
       (simp add: ResourceRecord_validate_def decodes_checked decodes_return)
  note fields = decodes_bind [OF decodes_type_fields [OF B default], of tail, OF this]
  have "decodes (dec_bind decodeDomainName (\<lambda>name. dec_bind (decode_type_fields B (ResourceRecord_create\<lparr>rr_name := name\<rparr>)) tail))
      (name_image B (rr_name r) @ (dl_store16 B (of_nat (Type_toInt (rr_type r))) @
     (if rr_type r \<noteq> Type_OPT
      then dl_store16 B (of_nat (Classification_toInt (rr_class r))) @ dl_store32 B (rr_ttl r)
      else dl_store16 B (rr_optSize r) @ dl_store32 B (rr_optFlags r))) @
     dl_store16 B (of_nat (length (rdata_image B (rr_rdata r)))) @ rdata_image B (rr_rdata r)) r"
    by (rule decodes_bind [OF domain_name.decodes_image [OF name]]) (rule fields)
  then show "decodes (ResourceRecord_decode B ResourceRecord_create) (ResourceRecord_image B r) r"
    by (simp only: ResourceRecord_decode_def ResourceRecord_image_def tail_def append_assoc)
qed

end
