(* ===== verification/Dns_Message.thy ===== *)
theory Dns_Message
  imports Dns_Record_Image
begin

section \<open>Messages\<close>

text \<open>
  This theory models \<open>ntcdns::Message\<close> (\<open>ntcdns_protocol.cpp\<close>) and proves the properties of the
  protocol: decoding arbitrary bytes is safe and gives well-formed messages, encoding stays
  within its memory, and what is encoded is decoded again.
\<close>

subsection \<open>ntcdns::Message\<close>

record Message =
  m_header :: Header
  m_qd :: "Question list"
  m_an :: "ResourceRecord list"
  m_ns :: "ResourceRecord list"
  m_ar :: "ResourceRecord list"

definition Message_create :: Message where
  "Message_create = \<lparr>m_header = Header_create, m_qd = [], m_an = [], m_ns = [], m_ar = []\<rparr>"

definition Message_reset :: "Message \<Rightarrow> Message" where
  "Message_reset m =
     m\<lparr>m_header := Header_reset (m_header m), m_qd := [], m_an := [], m_ns := [], m_ar := []\<rparr>"

definition Message_setId :: "u16 \<Rightarrow> Message \<Rightarrow> Message" where
  "Message_setId v m = m\<lparr>m_header := Header_setId v (m_header m)\<rparr>"

definition Message_setDirection :: "Direction \<Rightarrow> Message \<Rightarrow> Message" where
  "Message_setDirection v m = m\<lparr>m_header := Header_setDirection v (m_header m)\<rparr>"

definition Message_setOperation :: "Operation \<Rightarrow> Message \<Rightarrow> Message" where
  "Message_setOperation v m = m\<lparr>m_header := Header_setOperation v (m_header m)\<rparr>"

definition Message_setAa :: "bool \<Rightarrow> Message \<Rightarrow> Message" where
  "Message_setAa v m = m\<lparr>m_header := Header_setAa v (m_header m)\<rparr>"

definition Message_setTc :: "bool \<Rightarrow> Message \<Rightarrow> Message" where
  "Message_setTc v m = m\<lparr>m_header := Header_setTc v (m_header m)\<rparr>"

definition Message_setRd :: "bool \<Rightarrow> Message \<Rightarrow> Message" where
  "Message_setRd v m = m\<lparr>m_header := Header_setRd v (m_header m)\<rparr>"

definition Message_setRa :: "bool \<Rightarrow> Message \<Rightarrow> Message" where
  "Message_setRa v m = m\<lparr>m_header := Header_setRa v (m_header m)\<rparr>"

definition Message_setAd :: "bool \<Rightarrow> Message \<Rightarrow> Message" where
  "Message_setAd v m = m\<lparr>m_header := Header_setAd v (m_header m)\<rparr>"

definition Message_setCd :: "bool \<Rightarrow> Message \<Rightarrow> Message" where
  "Message_setCd v m = m\<lparr>m_header := Header_setCd v (m_header m)\<rparr>"

definition Message_setError :: "Error \<Rightarrow> Message \<Rightarrow> Message" where
  "Message_setError v m = m\<lparr>m_header := Header_setError v (m_header m)\<rparr>"

text \<open>
  The overloads without an argument add a default value. A count that does not fit in its field
  violates an assertion.
\<close>

definition addQd :: "Question \<Rightarrow> Message \<Rightarrow> Message option" where
  "addQd qd m =
     (let qds = m_qd m @ [qd]
      in do { h \<leftarrow> Header_setQdcount (length qds) (m_header m); Some (m\<lparr>m_qd := qds, m_header := h\<rparr>) })"

definition addAn :: "ResourceRecord \<Rightarrow> Message \<Rightarrow> Message option" where
  "addAn an m =
     (let ans = m_an m @ [an]
      in do { h \<leftarrow> Header_setAncount (length ans) (m_header m); Some (m\<lparr>m_an := ans, m_header := h\<rparr>) })"

definition addNs :: "ResourceRecord \<Rightarrow> Message \<Rightarrow> Message option" where
  "addNs ns m =
     (let nss = m_ns m @ [ns]
      in do { h \<leftarrow> Header_setNscount (length nss) (m_header m); Some (m\<lparr>m_ns := nss, m_header := h\<rparr>) })"

definition addAr :: "ResourceRecord \<Rightarrow> Message \<Rightarrow> Message option" where
  "addAr ar m =
     (let ars = m_ar m @ [ar]
      in do { h \<leftarrow> Header_setArcount (length ars) (m_header m); Some (m\<lparr>m_ar := ars, m_header := h\<rparr>) })"

definition addQd_default :: "Message \<Rightarrow> Message option" where
  "addQd_default = addQd Question_create"

definition addAn_default :: "Message \<Rightarrow> Message option" where
  "addAn_default = addAn ResourceRecord_create"

definition addNs_default :: "Message \<Rightarrow> Message option" where
  "addNs_default = addNs ResourceRecord_create"

definition addAr_default :: "Message \<Rightarrow> Message option" where
  "addAr_default = addAr ResourceRecord_create"

text \<open>
  The loops over a section. \<open>resized\<close> is \<open>bsl::vector::resize\<close>; the encoding indexes the section up to the
  count of the header.
\<close>

definition resized :: "nat \<Rightarrow> 'a \<Rightarrow> 'a list \<Rightarrow> 'a list" where
  "resized n x xs = take n xs @ replicate (n - length xs) x"

fun decode_items :: "('a \<Rightarrow> 'a decoding) \<Rightarrow> 'a list \<Rightarrow> 'a list decoding" where
  "decode_items decode [] = dec_return []"
| "decode_items decode (x # xs) =
     dec_bind (decode x) (\<lambda>y. dec_bind (decode_items decode xs) (\<lambda>ys. dec_return (y # ys)))"

definition decode_section :: "('a \<Rightarrow> 'a decoding) \<Rightarrow> 'a \<Rightarrow> nat \<Rightarrow> 'a list \<Rightarrow> 'a list decoding" where
  "decode_section decode x n xs =
     (if n > 0 then decode_items decode (resized n x xs) else dec_return xs)"

fun encode_section :: "('a \<Rightarrow> encoding) \<Rightarrow> nat \<Rightarrow> 'a list \<Rightarrow> encoding" where
  "encode_section encode 0 xs e = enc_return E_OK e"
| "encode_section encode (Suc n) [] e = None"
| "encode_section encode (Suc n) (x # xs) e = enc_then (encode x) (encode_section encode n xs) e"

definition Message_decode :: "dns_library \<Rightarrow> Message \<Rightarrow> Message decoding" where
  "Message_decode B m =
     dec_bind (Header_decode B (m_header m)) (\<lambda>h.
     dec_bind (decode_section (Question_decode B) Question_create (qdcount h) (m_qd m)) (\<lambda>qd.
     dec_bind (decode_section (ResourceRecord_decode B) ResourceRecord_create (ancount h) (m_an m)) (\<lambda>an.
     dec_bind (decode_section (ResourceRecord_decode B) ResourceRecord_create (nscount h) (m_ns m)) (\<lambda>ns.
     dec_bind (decode_section (ResourceRecord_decode B) ResourceRecord_create (arcount h) (m_ar m)) (\<lambda>ar.
       dec_return \<lparr>m_header = h, m_qd = qd, m_an = an, m_ns = ns, m_ar = ar\<rparr>)))))"

definition Message_encode :: "dns_library \<Rightarrow> Message \<Rightarrow> encoding" where
  "Message_encode B m =
     enc_then (Header_encode B (m_header m))
       (enc_then (encode_section (Question_encode B) (qdcount (m_header m)) (m_qd m))
         (enc_then (encode_section (ResourceRecord_encode B) (ancount (m_header m)) (m_an m))
           (enc_then (encode_section (ResourceRecord_encode B) (nscount (m_header m)) (m_ns m))
             (encode_section (ResourceRecord_encode B) (arcount (m_header m)) (m_ar m)))))"

text \<open>The accessors of the sections assert that the index is below the count.\<close>

definition Message_qd :: "nat \<Rightarrow> Message \<Rightarrow> Question option" where
  "Message_qd index m =
     (if index < qdcount (m_header m) \<and> index < length (m_qd m) then Some (m_qd m ! index) else None)"

definition Message_an :: "nat \<Rightarrow> Message \<Rightarrow> ResourceRecord option" where
  "Message_an index m =
     (if index < ancount (m_header m) \<and> index < length (m_an m) then Some (m_an m ! index) else None)"

definition Message_ns :: "nat \<Rightarrow> Message \<Rightarrow> ResourceRecord option" where
  "Message_ns index m =
     (if index < nscount (m_header m) \<and> index < length (m_ns m) then Some (m_ns m ! index) else None)"

definition Message_ar :: "nat \<Rightarrow> Message \<Rightarrow> ResourceRecord option" where
  "Message_ar index m =
     (if index < arcount (m_header m) \<and> index < length (m_ar m) then Some (m_ar m ! index) else None)"

subsection \<open>Decoding is safe\<close>

lemma bounded_items [bounded_intros]: "(\<And>x. bounded (decode x)) \<Longrightarrow> bounded (decode_items decode xs)"
  by (induction xs) (auto intro!: bounded_intros)

lemma bounded_message: "bounded (Message_decode B m)"
  unfolding Message_decode_def decode_section_def by (intro bounded_intros)

text \<open>
  Claim C6. Decoding a message from arbitrary bytes returns, with a message or with an error: it
  never reads outside the bytes, it ends for every reference between names, and it leaves the
  decoder at a position within the bytes.
\<close>

theorem dns_decode_safe:
  "\<exists>r d. Message_decode B m (MemoryDecoder_create data) = Some (r, d) \<and>
     md_data d = data \<and> md_current d \<le> length data"
proof -
  have "decoder_ok (MemoryDecoder_create data)" by (simp add: MemoryDecoder_create_def)
  from bounded_decoding [OF bounded_message [of B m] this] obtain r d where
    "Message_decode B m (MemoryDecoder_create data) = Some (r, d)" "within (MemoryDecoder_create data) d" by blast
  then show ?thesis by (auto simp: within_def MemoryDecoder_create_def)
qed

subsection \<open>Decoded messages are well formed\<close>

text \<open>\<open>yields m P\<close>: the values that a decoding returns satisfy \<open>P\<close>.\<close>

definition yields :: "'a decoding \<Rightarrow> ('a \<Rightarrow> bool) \<Rightarrow> bool" where
  "yields m P \<longleftrightarrow> (\<forall>d x d'. m d = Some (Inr x, d') \<longrightarrow> P x)"

lemma yields_bind:
  assumes "yields f Q" and "\<And>x. Q x \<Longrightarrow> yields (g x) P"
  shows "yields (dec_bind f g) P"
  using assms by (fastforce simp: yields_def dec_bind_def split: option.splits sum.splits prod.splits)

lemma yields_any: "yields f (\<lambda>x. True)"
  by (simp add: yields_def)

lemma yields_return: "P x \<Longrightarrow> yields (dec_return x) P"
  by (simp add: yields_def dec_return_def)

lemmas yields_step = yields_bind [OF yields_any]

text \<open>
  The data of a record agree with its type and with the length that the record gives for them: they are undefined
  if the length is zero, and otherwise of the alternative that belongs to the type.
\<close>

definition rdata_typed :: "Type \<Rightarrow> nat \<Rightarrow> ResourceRecordData \<Rightarrow> bool" where
  "rdata_typed type n rdata \<longleftrightarrow>
     (rdata = RD_UNDEFINED \<longleftrightarrow> n = 0) \<and>
     (case rdata of
        RD_UNDEFINED \<Rightarrow> True
      | RD_IPV4 _ \<Rightarrow> type = Type_A
      | RD_IPV6 _ \<Rightarrow> type = Type_AAAA
      | RD_NAME_SERVER _ \<Rightarrow> type = Type_NS
      | RD_CANONICAL_NAME _ \<Rightarrow> type = Type_CNAME
      | RD_POINTER _ \<Rightarrow> type = Type_PTR
      | RD_ZONE_AUTHORITY _ \<Rightarrow> type = Type_SOA
      | RD_WELL_KNOWN_SERVICE _ \<Rightarrow> type = Type_WKS
      | RD_HOST_INFO _ \<Rightarrow> type = Type_HINFO
      | RD_MAIL_EXCHANGE _ \<Rightarrow> type = Type_MX
      | RD_TEXT _ \<Rightarrow> type = Type_TXT
      | RD_SERVER _ \<Rightarrow> type = Type_SVR
      | RD_RAW _ \<Rightarrow> type \<notin> {Type_A, Type_NS, Type_CNAME, Type_SOA, Type_WKS, Type_PTR, Type_HINFO, Type_MX,
                              Type_TXT, Type_AAAA, Type_SVR})"

text \<open>
  \<open>record_at B bs p r q\<close>: the bytes from \<open>p\<close> to \<open>q\<close> hold the record. After the name, at \<open>k\<close>, comes the type in two
  bytes, six bytes of other fields, the length of the data in two bytes, and the data, which end at \<open>q\<close>.
\<close>

definition uint16_at :: "dns_library \<Rightarrow> bytes \<Rightarrow> nat \<Rightarrow> nat" where
  "uint16_at B bs k = unat (dl_load16 B (take 2 (drop k bs)))"

definition record_at :: "dns_library \<Rightarrow> bytes \<Rightarrow> nat \<Rightarrow> ResourceRecord \<Rightarrow> nat \<Rightarrow> bool" where
  "record_at B bs p r q \<longleftrightarrow>
     (\<exists>k. p \<le> k \<and> Type_fromInt (uint16_at B bs k) = Some (rr_type r) \<and> q = k + 10 + uint16_at B bs (k + 8) \<and>
        q \<le> length bs \<and> rdata_typed (rr_type r) (uint16_at B bs (k + 8)) (rr_rdata r))"

fun records_at :: "dns_library \<Rightarrow> bytes \<Rightarrow> nat \<Rightarrow> ResourceRecord list \<Rightarrow> nat \<Rightarrow> bool" where
  "records_at B bs p [] q \<longleftrightarrow> p = q"
| "records_at B bs p (r # rs) q \<longleftrightarrow> (\<exists>k. record_at B bs p r k \<and> records_at B bs k rs q)"

lemma records_at_append:
  "records_at B bs p (rs @ ss) q \<longleftrightarrow> (\<exists>k. records_at B bs p rs k \<and> records_at B bs k ss q)"
  by (induction rs arbitrary: p) auto

definition message_typed :: "dns_library \<Rightarrow> bytes \<Rightarrow> Message \<Rightarrow> nat \<Rightarrow> bool" where
  "message_typed B bs m q \<longleftrightarrow>
     length (m_qd m) = qdcount (m_header m) \<and> length (m_an m) = ancount (m_header m) \<and>
     length (m_ns m) = nscount (m_header m) \<and> length (m_ar m) = arcount (m_header m) \<and>
     (\<exists>p. records_at B bs p (m_an m @ m_ns m @ m_ar m) q)"

lemma dec_bindE:
  assumes "dec_bind f g d = Some (Inr y, d')"
  obtains x d1 where "f d = Some (Inr x, d1)" "g x d1 = Some (Inr y, d')"
  using assms by (auto simp: dec_bind_def split: option.splits sum.splits prod.splits)

lemma bounded_within: "bounded m \<Longrightarrow> decoder_ok d \<Longrightarrow> m d = Some (r, d') \<Longrightarrow> within d d'"
  using bounded_decoding by fastforce

lemma withinD:
  assumes "within d d'"
  shows "md_data d' = md_data d" and "md_current d \<le> md_current d'" and "decoder_ok d'"
  using assms unfolding within_def by blast+

lemma decode_integer_at:
  "decodeUint16 B d = Some (Inr v, d') \<Longrightarrow> unat v = uint16_at B (md_data d) (md_current d) \<and> d' = d\<lparr>md_current := md_current d + 2\<rparr>"
  "decodeUint32 B d = Some (Inr w, d') \<Longrightarrow> d' = d\<lparr>md_current := md_current d + 4\<rparr>"
  by (auto simp: decodeUint16_def decodeUint32_def decodeRaw_def load_def uint16_at_def dec_return_def Let_def
      elim!: dec_bindE split: if_splits)

lemma decode_enumerator_at:
  assumes "decode_enumerator B fromInt d = Some (Inr x, d')"
  shows "fromInt (uint16_at B (md_data d) (md_current d)) = Some x \<and> d' = d\<lparr>md_current := md_current d + 2\<rparr>"
  using assms unfolding decode_enumerator_def
  by (auto elim!: dec_bindE dest!: decode_integer_at(1) simp: dec_return_def dec_fail_def split: option.splits)

lemma decode_type_fields_at:
  assumes "decode_type_fields B r d = Some (Inr r', d')"
  shows "Type_fromInt (uint16_at B (md_data d) (md_current d)) = Some (rr_type r')" "rr_rdata r' = rr_rdata r"
    "d' = d\<lparr>md_current := md_current d + 8\<rparr>"
  using assms unfolding decode_type_fields_def
  by (auto elim!: dec_bindE dest!: decode_integer_at decode_enumerator_at simp: dec_return_def split: if_splits)

lemma rdata_decode_typed:
  assumes "rdata_decode B type n d = Some (Inr rdata, d')" and "0 < k"
  shows "rdata_typed type k rdata"
  using assms unfolding rdata_decode_def
  by (auto elim!: dec_bindE simp: dec_return_def dec_fail_def rdata_typed_def split: if_splits)

lemma decode_rdata_section_at:
  assumes "decode_rdata_section B n r d = Some (Inr r', d')" and "decoder_ok d" and "rr_rdata r = RD_UNDEFINED"
  shows "rr_type r' = rr_type r" "md_current d' = md_current d + unat n" "rdata_typed (rr_type r) (unat n) (rr_rdata r')"
    "within d d'"
proof -
  have "rr_type r' = rr_type r \<and> md_current d' = md_current d + unat n \<and> rdata_typed (rr_type r) (unat n) (rr_rdata r') \<and> within d d'"
  proof (cases "n > 0")
    case True
    with assms(1) obtain rdata d1 where r: "rdata_decode B (rr_type r) (unat n) d = Some (Inr rdata, d1)"
      "md_current d1 - md_current d = unat n" "r' = r\<lparr>rr_rdata := rdata\<rparr>" "d' = d1"
      unfolding decode_rdata_section_def
      by (auto elim!: dec_bindE simp: dec_position_def dec_check_def dec_return_def checkCoherentRdataLength_def
          MemoryDecoder_position_def split: if_splits)
    have "0 < unat n" using True by (simp add: word_less_nat_alt)
    moreover have "within d d'" using bounded_within [OF bounded_rdata assms(2) r(1)] r(4) by simp
    ultimately show ?thesis using r rdata_decode_typed [OF r(1)] by (auto simp: within_def)
  next
    case False
    then have "n = 0" by (simp add: word_less_nat_alt unat_eq_zero)
    with assms show ?thesis by (auto simp: decode_rdata_section_def dec_return_def rdata_typed_def)
  qed
  then show "rr_type r' = rr_type r" "md_current d' = md_current d + unat n" "rdata_typed (rr_type r) (unat n) (rr_rdata r')"
    "within d d'" by simp_all
qed

lemma bounded_type_fields: "bounded (decode_type_fields B r)"
  unfolding decode_type_fields_def by (intro bounded_intros)

lemma record_decode_at:
  assumes ok: "decoder_ok d" and r: "rr_rdata r = RD_UNDEFINED" and run: "ResourceRecord_decode B r d = Some (Inr r', d')"
  shows "record_at B (md_data d) (md_current d) r' (md_current d')"
proof -
  from run obtain name r1 n r2 d1 d2 d3 where steps: "decodeDomainName d = Some (Inr name, d1)"
      "decode_type_fields B (r\<lparr>rr_name := name\<rparr>) d1 = Some (Inr r1, d2)" "decodeUint16 B d2 = Some (Inr n, d3)"
      "decode_rdata_section B n r1 d3 = Some (Inr r', d')"
    unfolding ResourceRecord_decode_def
    by (elim dec_bindE) (auto simp: dec_check_def dec_return_def ResourceRecord_validate_def)
  have d1: "within d d1" by (rule bounded_within [OF bounded_name ok steps(1)])
  note type = decode_type_fields_at [OF steps(2)] and n = decode_integer_at(1) [OF steps(3)]
  have w1: "within d1 d2" by (rule bounded_within [OF bounded_type_fields withinD(3) [OF d1] steps(2)])
  have w2: "within d2 d3" by (rule bounded_within [OF bounded_integers(2) withinD(3) [OF w1] steps(3)])
  note data = withinD [OF d1] withinD [OF w1] withinD [OF w2]
  have "rr_rdata r1 = RD_UNDEFINED" using type(2) r by simp
  note s = decode_rdata_section_at [OF steps(4) data(9) this]
  show ?thesis unfolding record_at_def using type n s data withinD [OF s(4)]
    by (intro exI [of _ "md_current d1"]) auto
qed

lemma records_decode_at:
  "decoder_ok d \<Longrightarrow> \<forall>r \<in> set rs. rr_rdata r = RD_UNDEFINED \<Longrightarrow>
   decode_items (ResourceRecord_decode B) rs d = Some (Inr rs', d') \<Longrightarrow>
   length rs' = length rs \<and> records_at B (md_data d) (md_current d) rs' (md_current d')"
proof (induction rs arbitrary: d rs')
  case Nil
  then show ?case by (simp add: dec_return_def)
next
  case (Cons r rs)
  from Cons.prems(3) obtain r' d1 ss where s: "ResourceRecord_decode B r d = Some (Inr r', d1)"
      "decode_items (ResourceRecord_decode B) rs d1 = Some (Inr ss, d')" "rs' = r' # ss"
    by (auto elim!: dec_bindE simp: dec_return_def)
  note w = withinD [OF bounded_within [OF bounded_record Cons.prems(1) s(1)]]
  have "record_at B (md_data d) (md_current d) r' (md_current d1)"
    using record_decode_at [OF Cons.prems(1) _ s(1)] Cons.prems(2) by simp
  then show ?case using Cons.IH [OF w(3) _ s(2)] Cons.prems(2) s(3) w(1) by auto
qed

lemma section_decode_at:
  assumes "decoder_ok d" and "decode_section (ResourceRecord_decode B) ResourceRecord_create n [] d = Some (Inr rs, d')"
  shows "length rs = n" "records_at B (md_data d) (md_current d) rs (md_current d')" "within d d'"
proof -
  have "length rs = n \<and> records_at B (md_data d) (md_current d) rs (md_current d')"
  proof (cases "n = 0")
    case True
    then show ?thesis using assms(2) by (simp add: decode_section_def dec_return_def)
  next
    case False
    then show ?thesis
      using records_decode_at [OF assms(1), of "replicate n ResourceRecord_create" B rs d'] assms(2)
      by (simp add: decode_section_def resized_def ResourceRecord_create_def)
  qed
  then show "length rs = n" "records_at B (md_data d) (md_current d) rs (md_current d')" by simp_all
  have "bounded (decode_section (ResourceRecord_decode B) ResourceRecord_create n [])"
    by (simp add: decode_section_def bounded_intros)
  from bounded_within [OF this assms] show "within d d'" .
qed

lemma yields_items:
  assumes "\<And>x. x \<in> set xs \<Longrightarrow> yields (decode x) P"
  shows "yields (decode_items decode xs) (\<lambda>ys. length ys = length xs \<and> list_all P ys)"
  using assms
proof (induction xs)
  case (Cons x xs)
  have "yields (decode x) P" "yields (decode_items decode xs) (\<lambda>ys. length ys = length xs \<and> list_all P ys)"
    using Cons by simp_all
  then show ?case by (auto intro!: yields_bind yields_return)
qed (simp add: yields_return)

lemma yields_decode_section:
  assumes "yields (decode x) P"
  shows "yields (decode_section decode x n []) (\<lambda>ys. length ys = n \<and> list_all P ys)"
proof -
  have "yields (decode_items decode (replicate n x)) (\<lambda>ys. length ys = n \<and> list_all P ys)"
    using yields_items [of "replicate n x" decode P] assms by simp
  then show ?thesis by (cases "n = 0") (simp_all add: decode_section_def resized_def yields_return)
qed

text \<open>
  Claim C9. A message decoded from arbitrary bytes is well formed: each section has as many entries as the header
  says, and the records of the three sections follow one another in the bytes without a gap. The type of each record is the one in
  the bytes, the record ends where the length of its data says, and its data are of the alternative that belongs to its
  type, or undefined exactly if that length is zero.
\<close>

theorem dns_decode_typed:
  assumes "Message_decode B Message_create (MemoryDecoder_create bs) = Some (Inr m, d)"
  shows "message_typed B bs m (md_current d)"
proof -
  from assms obtain h qd an ns ar d1 d2 d3 d4 where s:
      "Header_decode B (m_header Message_create) (MemoryDecoder_create bs) = Some (Inr h, d1)"
      "decode_section (Question_decode B) Question_create (qdcount h) [] d1 = Some (Inr qd, d2)"
      "decode_section (ResourceRecord_decode B) ResourceRecord_create (ancount h) [] d2 = Some (Inr an, d3)"
      "decode_section (ResourceRecord_decode B) ResourceRecord_create (nscount h) [] d3 = Some (Inr ns, d4)"
      "decode_section (ResourceRecord_decode B) ResourceRecord_create (arcount h) [] d4 = Some (Inr ar, d)"
      "m = \<lparr>m_header = h, m_qd = qd, m_an = an, m_ns = ns, m_ar = ar\<rparr>"
    unfolding Message_decode_def by (auto elim!: dec_bindE simp: dec_return_def Message_create_def)
  have "decoder_ok (MemoryDecoder_create bs)" by (simp add: MemoryDecoder_create_def)
  note d1 = withinD [OF bounded_within [OF bounded_header this s(1)]]
  have "bounded (decode_section (Question_decode B) Question_create (qdcount h) [])"
    by (simp add: decode_section_def bounded_intros)
  note d2 = withinD [OF bounded_within [OF this d1(3) s(2)]]
  note an = section_decode_at [OF d2(3) s(3)]
  note ns = section_decode_at [OF withinD(3) [OF an(3)] s(4)]
  note ar = section_decode_at [OF withinD(3) [OF ns(3)] s(5)]
  have data: "md_data d2 = bs" "md_data d3 = bs" "md_data d4 = bs"
    using d1(1) d2(1) withinD(1) [OF an(3)] withinD(1) [OF ns(3)] by (simp_all add: MemoryDecoder_create_def)
  have "length qd = qdcount h"
    using yields_decode_section [OF yields_any, of "Question_decode B" Question_create] s(2) by (fastforce simp: yields_def)
  then show ?thesis using s(6) an(1,2) ns(1,2) ar(1,2) data
    unfolding message_typed_def records_at_append by auto
qed

text \<open>
  A library that behaves as documented: integers in the order of the network, and the tokens
  between the dots of a text.
\<close>

fun tokens_from :: "bytes \<Rightarrow> bytes \<Rightarrow> bytes list" where
  "tokens_from token [] = (if token = [] then [] else [token])"
| "tokens_from token (c # cs) =
     (if c = 46 then (if token = [] then [] else [token]) @ tokens_from [] cs
      else tokens_from (token @ [c]) cs)"

definition network_library :: dns_library where
  "network_library =
     \<lparr>dl_store16 = (\<lambda>v. [ucast (drop_bit 8 v), ucast v]),
      dl_load16 = (\<lambda>bs. or (push_bit 8 (ucast (bs ! 0))) (ucast (bs ! 1))),
      dl_store32 = (\<lambda>v. rev (memory32 v)),
      dl_load32 = (\<lambda>bs. of_memory32 (rev bs)),
      dl_tokens = tokens_from []\<rparr>"

lemma network_library_simps [simp]:
  "dl_tokens network_library = tokens_from []"
  "dl_store16 network_library v = [ucast (drop_bit 8 v), ucast v]"
  by (simp_all add: network_library_def)

lemma tokens_from_label: "46 \<notin> set label \<Longrightarrow> tokens_from token (label @ cs) = tokens_from (token @ label) cs"
  by (induction label arbitrary: token) simp_all

lemma tokens_from_labels:
  "token \<noteq> [] \<Longrightarrow> list_all valid_label labels \<Longrightarrow>
   tokens_from token (concat (map (\<lambda>l. 46 # l) labels)) = token # labels"
  by (induction labels arbitrary: token) (simp_all add: tokens_from_label valid_label_def)

lemma network_library_ok: "dns_library_ok network_library"
proof -
  have "or (push_bit 8 (ucast (ucast (drop_bit 8 v) :: u8))) (ucast (ucast v :: u8)) = v" for v :: u16
    by (rule bit_word_eqI) (auto simp: bit_simps)
  moreover have "tokens_from [] (dotted labels) = labels" if "list_all valid_label labels" for labels
    using that by (cases labels) (auto simp: tokens_from_label tokens_from_labels valid_label_def)
  ultimately show ?thesis by (simp add: dns_library_ok_def network_library_def)
qed

subsection \<open>What is encoded is decoded\<close>

text \<open>
  The image of a message, and the messages that the codec represents: their parts are, and the
  counts of the header are the numbers of entries.
\<close>

definition Message_image :: "dns_library \<Rightarrow> Message \<Rightarrow> bytes" where
  "Message_image B m =
     Header_image B (m_header m) @ concat (map (Question_image B) (m_qd m)) @
     concat (map (ResourceRecord_image B) (m_an m)) @ concat (map (ResourceRecord_image B) (m_ns m)) @
     concat (map (ResourceRecord_image B) (m_ar m))"

definition Message_valid :: "dns_library \<Rightarrow> Message \<Rightarrow> bool" where
  "Message_valid B m \<longleftrightarrow>
     Header_valid B (m_header m) \<and> list_all (Question_valid B) (m_qd m) \<and>
     list_all (ResourceRecord_valid B) (m_an m @ m_ns m @ m_ar m) \<and>
     length (m_qd m) = qdcount (m_header m) \<and> length (m_an m) = ancount (m_header m) \<and>
     length (m_ns m) = nscount (m_header m) \<and> length (m_ar m) = arcount (m_header m)"

context codec
begin

text \<open>A section of values with a codec.\<close>

lemma writes_section:
  "list_all valid xs \<Longrightarrow> writes (encode_section encode (length xs) xs) (concat (map image xs))"
proof (induction xs)
  case Nil
  then show ?case using writes_return by (simp add: writes_def)
next
  case (Cons x xs)
  then have "writes (enc_then (encode x) (encode_section encode (length xs) xs)) (image x @ concat (map image xs))"
    by (intro writes_then writes_image) simp_all
  then show ?case by (simp add: writes_def)
qed

lemma decodes_items:
  "list_all valid xs \<Longrightarrow> decodes (decode_items (\<lambda>x. decode) (replicate (length xs) y)) (concat (map image xs)) xs"
proof (induction xs)
  case Nil
  then show ?case by (simp add: decodes_return)
next
  case (Cons x xs)
  then show ?case
    by (auto intro!: decodes_bind [OF decodes_image] decodes_last)
qed

end

lemma decode_items_replicate: "decode_items decode (replicate n x) = decode_items (\<lambda>_. decode x) (replicate n x)"
  by (induction n) simp_all

lemma decodes_section:
  assumes "codec encode (decode x) img valid" and "list_all valid xs" and "n = length xs"
  shows "decodes (decode_section decode x n []) (concat (map img xs)) xs"
  using codec.decodes_items [OF assms(1,2), of x] assms(3)
  by (cases xs) (simp_all add: decode_section_def resized_def decode_items_replicate [of decode] decodes_return)

interpretation dns_message: codec "Message_encode B" "Message_decode B Message_create" "Message_image B" "Message_valid B"
  for B
proof unfold_locales
  fix m
  assume m: "Message_valid B m"
  have h: "Header_valid B (m_header m)" and q: "list_all (Question_valid B) (m_qd m)"
    and r: "list_all (ResourceRecord_valid B) (m_an m)" "list_all (ResourceRecord_valid B) (m_ns m)"
      "list_all (ResourceRecord_valid B) (m_ar m)"
    and n: "qdcount (m_header m) = length (m_qd m)" "ancount (m_header m) = length (m_an m)"
      "nscount (m_header m) = length (m_ns m)" "arcount (m_header m) = length (m_ar m)"
    using m by (simp_all add: Message_valid_def)
  show "writes (Message_encode B m) (Message_image B m)"
    unfolding Message_encode_def Message_image_def n
    by (intro writes_then dns_header.writes_image [OF h] dns_question.writes_section [OF q]
        dns_record.writes_section [OF r(1)] dns_record.writes_section [OF r(2)] dns_record.writes_section [OF r(3)])
  note qs = decodes_section [of _ "Question_decode B", OF dns_question.codec_axioms q n(1)]
  note rs = decodes_section [of _ "ResourceRecord_decode B", OF dns_record.codec_axioms]
  show "decodes (Message_decode B Message_create) (Message_image B m) m"
    unfolding Message_decode_def Message_image_def Message_create_def Message.select_convs
    by (intro decodes_bind [OF dns_header.decodes_image [OF h]] decodes_bind [OF qs]
        decodes_bind [OF rs [OF r(1) n(2)]] decodes_bind [OF rs [OF r(2) n(3)]] decodes_last [OF rs [OF r(3) n(4)]])
       simp
qed

text \<open>
  Claim C7. Round trip: a message whose names, data and counts are representable is written to every
  memory that has room for its image, and decoding that memory gives the same message and stops where the
  encoding did, whatever the memory holds behind it. The library is relied on to store and load
  integers of 16 and of 32 bits, which is part of the validity of the message.
\<close>

theorem dns_round_trip:
  assumes "Message_valid B m" and "length (Message_image B m) \<le> length memory"
  shows "\<exists>e d. Message_encode B m (MemoryEncoder_create memory) = Some (E_OK, e) \<and>
     Message_decode B Message_create (MemoryDecoder_create (me_data e)) = Some (Inr m, d) \<and>
     me_current e = length (Message_image B m) \<and> md_current d = me_current e"
  using dns_message.round_trip [OF assms] by metis

text \<open>A response with one question, a mail exchange, a service with two ports and a text.\<close>

definition example_message :: Message where
  "example_message =
     \<lparr>m_header = Header_create\<lparr>h_id := 7, h_direction := Direction_RESPONSE, h_rd := True, h_ra := True,
        h_qdcount := 1, h_ancount := 2, h_arcount := 1\<rparr>,
      m_qd = [\<lparr>q_name = [97, 46, 98], q_type = Type_MX, q_classification = Class_INTERNET\<rparr>],
      m_an = [ResourceRecord_setRdata (RD_MAIL_EXCHANGE \<lparr>mx_exchange = [99], mx_preference = 10\<rparr>)
                (ResourceRecord_create\<lparr>rr_name := [97, 46, 98], rr_ttl := 60\<rparr>),
              ResourceRecord_setRdata
                (RD_WELL_KNOWN_SERVICE \<lparr>wks_port = [25, 80], wks_address = 1, wks_protocol = 6\<rparr>)
                (ResourceRecord_create\<lparr>rr_name := [99]\<rparr>)],
      m_ns = [],
      m_ar = [ResourceRecord_setRdata (RD_TEXT [[120, 121]]) ResourceRecord_create]\<rparr>"

lemma example_message_valid: "Message_valid network_library example_message"
  by (simp add: Message_valid_def example_message_def Header_valid_def Header_create_def Question_valid_def
      ResourceRecord_valid_def ResourceRecord_fields_def ResourceRecord_setRdata_def ResourceRecord_create_def network_library_ok
      valid_name_def valid_label_def k_MAX_LABEL_LENGTH_def rdata_valid_def is_text_length_def
      k_MAX_CHARACTER_STRING_LENGTH_def k_MAX_RDATA_LENGTH_def rdata_image_def name_image_def labels_image_def
      character_string_image_def wks_bitset_def qdcount_def ancount_def nscount_def arcount_def)


lemma example_message_length: "length (Message_image network_library example_message) \<le> 200"
  by (simp add: Message_image_def example_message_def Header_image_def Flags_bytes_def Question_image_def
      ResourceRecord_image_def ResourceRecord_setRdata_def ResourceRecord_create_def Header_create_def
      rdata_image_def name_image_def labels_image_def character_string_image_def wks_bitset_def
      library_integers [OF network_library_ok])

theorem dns_round_trip_witness:
  "\<exists>e d. Message_encode network_library example_message (MemoryEncoder_create (replicate 200 0xFF)) = Some (E_OK, e) \<and>
     Message_decode network_library Message_create (MemoryDecoder_create (me_data e)) = Some (Inr example_message, d)"
  using dns_round_trip [OF example_message_valid, of "replicate 200 0xFF"] example_message_length
  by auto

theorem dns_decode_typed_witness:
  "\<exists>bs q. message_typed network_library bs example_message q \<and> length (m_an example_message) = 2"
proof -
  have "length (Message_image network_library example_message) \<le> length (replicate 200 (0 :: u8))"
    using example_message_length by simp
  then show ?thesis
  proof (rule dns_message.round_trip [OF example_message_valid])
    fix e d
    assume "Message_decode network_library Message_create (MemoryDecoder_create (me_data e)) =
      Some (Inr example_message, d)"
    from dns_decode_typed [OF this] show ?thesis by (auto simp: example_message_def)
  qed
qed

subsection \<open>Encoding is safe\<close>

text \<open>
  The messages that the interface builds: a new message, the fields of its header set, entries added,
  or decoded from bytes.
\<close>

inductive message_built :: "dns_library \<Rightarrow> Message \<Rightarrow> bool" for B where
  create: "message_built B Message_create"
| reset: "message_built B m \<Longrightarrow> message_built B (Message_reset m)"
| setId: "message_built B m \<Longrightarrow> message_built B (Message_setId v m)"
| setDirection: "message_built B m \<Longrightarrow> message_built B (Message_setDirection direction m)"
| setOperation: "message_built B m \<Longrightarrow> message_built B (Message_setOperation operation m)"
| setError: "message_built B m \<Longrightarrow> message_built B (Message_setError error m)"
| setFlag: "message_built B m \<Longrightarrow>
    set_flag \<in> {Message_setAa, Message_setTc, Message_setRd, Message_setRa, Message_setAd, Message_setCd} \<Longrightarrow>
    message_built B (set_flag b m)"
| addQd: "message_built B m \<Longrightarrow> addQd qd m = Some m' \<Longrightarrow> message_built B m'"
| addAn: "message_built B m \<Longrightarrow> addAn r m = Some m' \<Longrightarrow> message_built B m'"
| addNs: "message_built B m \<Longrightarrow> addNs r m = Some m' \<Longrightarrow> message_built B m'"
| addAr: "message_built B m \<Longrightarrow> addAr r m = Some m' \<Longrightarrow> message_built B m'"
| decode: "message_built B m \<Longrightarrow> Message_decode B m d = Some (Inr m', d') \<Longrightarrow> message_built B m'"

text \<open>Its counts do not exceed the numbers of entries.\<close>

definition counts_ok :: "Message \<Rightarrow> bool" where
  "counts_ok m \<longleftrightarrow>
     qdcount (m_header m) \<le> length (m_qd m) \<and> ancount (m_header m) \<le> length (m_an m) \<and>
     nscount (m_header m) \<le> length (m_ns m) \<and> arcount (m_header m) \<le> length (m_ar m)"

lemmas message_defs = counts_ok_def qdcount_def ancount_def nscount_def arcount_def

lemma yields_count: "yields (decode_section decode x n xs) (\<lambda>ys. n \<le> length ys)"
proof -
  have "yields (decode_items decode ys) (\<lambda>zs. length zs = length ys)" for ys
    using yields_items [of ys decode "\<lambda>_. True"] by (simp add: yields_any yields_def)
  then have "yields (decode_items decode (resized n x xs)) (\<lambda>ys. n \<le> length ys)"
    by (fastforce simp: yields_def resized_def)
  then show ?thesis by (cases "n = 0") (simp_all add: decode_section_def yields_return)
qed

lemma yields_counts: "yields (Message_decode B m) counts_ok"
  unfolding Message_decode_def
  by (rule yields_step) (intro yields_bind [OF yields_count] yields_return, simp add: counts_ok_def)

lemma counts_set:
  "counts_ok m \<Longrightarrow> counts_ok (Message_reset m)"
  "counts_ok m \<Longrightarrow> counts_ok (Message_setId v m)"
  "counts_ok m \<Longrightarrow> counts_ok (Message_setDirection direction m)"
  "counts_ok m \<Longrightarrow> counts_ok (Message_setOperation operation m)"
  "counts_ok m \<Longrightarrow> counts_ok (Message_setError error m)"
  by (simp_all add: message_defs Message_reset_def Header_reset_def Message_setId_def Header_setId_def
      Message_setDirection_def Header_setDirection_def Message_setOperation_def Header_setOperation_def
      Message_setError_def Header_setError_def)

lemma counts_flag:
  "counts_ok m \<Longrightarrow>
   set_flag \<in> {Message_setAa, Message_setTc, Message_setRd, Message_setRa, Message_setAd, Message_setCd} \<Longrightarrow>
   counts_ok (set_flag b m)"
  by (auto simp: message_defs Message_setAa_def Header_setAa_def Message_setTc_def Header_setTc_def
      Message_setRd_def Header_setRd_def Message_setRa_def Header_setRa_def Message_setAd_def Header_setAd_def
      Message_setCd_def Header_setCd_def)

lemma counts_add:
  "counts_ok m \<Longrightarrow> addQd qd m = Some m' \<Longrightarrow> counts_ok m'"
  "counts_ok m \<Longrightarrow> addAn r m = Some m' \<Longrightarrow> counts_ok m'"
  "counts_ok m \<Longrightarrow> addNs r m = Some m' \<Longrightarrow> counts_ok m'"
  "counts_ok m \<Longrightarrow> addAr r m = Some m' \<Longrightarrow> counts_ok m'"
  by (auto simp: message_defs addQd_def addAn_def addNs_def addAr_def Header_setQdcount_def Header_setAncount_def
      Header_setNscount_def Header_setArcount_def bind_eq_Some_conv unat_of_nat USHRT_MAX_def Let_def
      simp del: of_nat_Suc split: if_splits)

lemma built_counts: "message_built B m \<Longrightarrow> counts_ok m"
proof (induction rule: message_built.induct)
  case create
  then show ?case by (simp add: message_defs Message_create_def Header_create_def)
next
  case (decode m d m' d')
  then show ?case using yields_counts [of B m] by (auto simp: yields_def)
qed (auto intro: counts_set counts_flag counts_add)

lemma confined_section:
  "(\<And>x. confined (encode x)) \<Longrightarrow> n \<le> length xs \<Longrightarrow> confined (encode_section encode n xs)"
proof (induction n arbitrary: xs)
  case 0
  then show ?case by (simp add: confined_def enc_return_def)
next
  case (Suc n)
  then obtain x ys where xs: "xs = x # ys" by (cases xs) simp_all
  with Suc have "confined (enc_then (encode x) (encode_section encode n ys))" by (intro confined_then) simp_all
  then show ?case by (simp add: confined_def xs)
qed

text \<open>
  Encoding a message that was built through its interface, or decoded, to a memory of any
  size never indexes a section beyond its entries and never writes outside the memory: it returns, with an
  error when the memory is too small, and leaves the bytes before its position as they were.
\<close>

theorem dns_encode_safe:
  assumes "message_built B m" and "me_current e \<le> length (me_data e)"
  shows "\<exists>error e'. Message_encode B m e = Some (error, e') \<and>
     length (me_data e') = length (me_data e) \<and> me_current e \<le> me_current e' \<and> me_current e' \<le> length (me_data e') \<and>
     take (me_current e) (me_data e') = take (me_current e) (me_data e)"
proof -
  have "confined (Message_encode B m)"
    unfolding Message_encode_def using built_counts [OF assms(1)]
    by (intro confined_intros confined_section) (simp_all add: counts_ok_def)
  from confined_encoding [OF this assms(2)] show ?thesis by (simp add: extends_def)
qed

theorem dns_encode_safe_witness:
  "\<exists>m. addQd Question_create Message_create = Some m \<and>
     (\<exists>error e'. Message_encode network_library m (MemoryEncoder_create [1, 2, 3]) = Some (error, e') \<and>
        length (me_data e') = 3)"
proof -
  obtain m where m: "addQd Question_create Message_create = Some m"
    by (simp add: addQd_def Header_setQdcount_def USHRT_MAX_def Message_create_def)
  have "message_built network_library m" by (rule message_built.addQd [OF message_built.create m])
  from dns_encode_safe [OF this, of "MemoryEncoder_create [1, 2, 3]"] m show ?thesis
    by (auto simp: MemoryEncoder_create_def)
qed

subsection \<open>What is not read back\<close>

text \<open>
  \<open>ntcdns::Question::decode\<close> hides a failure: when the name of a question cannot be decoded it
  reports success, with the type and classification that the question had before.
\<close>

theorem question_decode_hides_failure:
  assumes "decodeDomainName d = Some (Inl error, d')"
  shows "\<exists>name. Question_decode B q d = Some (Inr (q\<lparr>q_name := name\<rparr>), d')"
  using assms by (auto simp: decodeDomainName_def Question_decode_def bind_eq_Some_conv split: if_splits)

theorem question_decode_hides_failure_witness:
  "\<exists>name. Question_decode network_library Question_create \<lparr>md_data = [1, 97, 0xC0, 0], md_current = 0\<rparr> =
     Some (Inr (Question_create\<lparr>q_name := name\<rparr>), \<lparr>md_data = [1, 97, 0xC0, 0], md_current = 4\<rparr>)"
proof (rule question_decode_hides_failure)
  show "decodeDomainName \<lparr>md_data = [1, 97, 0xC0, 0], md_current = 0\<rparr> =
      Some (Inl E_INVALID, \<lparr>md_data = [1, 97, 0xC0, 0], md_current = 4\<rparr>)"
    by code_simp
qed

definition refuses :: "'a decoding \<Rightarrow> bytes \<Rightarrow> ntsa_error \<Rightarrow> bool" where
  "refuses m bs error \<longleftrightarrow>
     (\<forall>pre rest. \<exists>d. m \<lparr>md_data = pre @ bs @ rest, md_current = length pre\<rparr> = Some (Inl error, d))"

lemma refuses_bind:
  assumes "decodes f bs x" and "refuses (g x) cs error"
  shows "refuses (dec_bind f g) (bs @ cs) error"
  unfolding refuses_def
proof (intro allI)
  fix pre rest
  obtain d where "g x \<lparr>md_data = (pre @ bs) @ cs @ rest, md_current = length (pre @ bs)\<rparr> = Some (Inl error, d)"
    using assms(2) unfolding refuses_def by blast
  then show "\<exists>d. dec_bind f g \<lparr>md_data = pre @ (bs @ cs) @ rest, md_current = length pre\<rparr> = Some (Inl error, d)"
    using decodesD [OF assms(1), of pre "cs @ rest"] by (simp add: dec_bind_def)
qed

lemma refuses_now:
  assumes "refuses f bs error"
  shows "refuses (dec_bind f g) bs error"
  unfolding refuses_def
proof (intro allI)
  fix pre rest
  obtain d where "f \<lparr>md_data = pre @ bs @ rest, md_current = length pre\<rparr> = Some (Inl error, d)"
    using assms unfolding refuses_def by blast
  then show "\<exists>d. dec_bind f g \<lparr>md_data = pre @ bs @ rest, md_current = length pre\<rparr> = Some (Inl error, d)"
    by (simp add: dec_bind_def)
qed

lemma refuses_position: "(\<And>p. refuses (g p) bs error) \<Longrightarrow> refuses (dec_bind dec_position g) bs error"
  by (simp add: refuses_def dec_bind_def dec_position_def)

lemma written_refused:
  assumes "writes f bs" and "refuses m bs error" and "length bs \<le> length memory"
  shows "\<exists>e d. f (MemoryEncoder_create memory) = Some (E_OK, e) \<and>
     m (MemoryDecoder_create (me_data e)) = Some (Inl error, d)"
proof -
  define rest where "rest = drop (length bs) memory"
  have "f (MemoryEncoder_create memory) = Some (E_OK, \<lparr>me_data = bs @ rest, me_current = length bs\<rparr>)"
    using writesD [OF assms(1), of "take (length bs) memory" "[]" rest] assms(3)
    by (simp add: MemoryEncoder_create_def rest_def)
  moreover obtain d where "m \<lparr>md_data = [] @ bs @ rest, md_current = length ([] :: bytes)\<rparr> = Some (Inl error, d)"
    using assms(2) unfolding refuses_def by blast
  ultimately show ?thesis by (simp add: MemoryDecoder_create_def)
qed

lemma refuses_text:
  assumes "is_text_length s" and "n = length s + 1 + length bs" and "bs \<noteq> []" and "n \<le> 65535"
  shows "refuses (text_loop (of_nat n) []) (character_string_image s @ bs) E_INVALID"
  using text_step [of s n "[]" _ "bs @ _"] assms
  by (simp add: refuses_def is_text_length_def k_MAX_CHARACTER_STRING_LENGTH_def)

lemma record_refused:
  assumes "dns_library_ok B" and "valid_name B (rr_name r)" and "ResourceRecord_fields r"
    and "refuses (decode_rdata_section B (of_nat (length (rdata_image B (rr_rdata r)))) (r\<lparr>rr_rdata := RD_UNDEFINED\<rparr>))
      (rdata_image B (rr_rdata r)) error"
  shows "refuses (ResourceRecord_decode B ResourceRecord_create) (ResourceRecord_image B r) error"
proof -
  have "refuses (ResourceRecord_decode B ResourceRecord_create)
      (name_image B (rr_name r) @ (dl_store16 B (of_nat (Type_toInt (rr_type r))) @
        (if rr_type r \<noteq> Type_OPT
         then dl_store16 B (of_nat (Classification_toInt (rr_class r))) @ dl_store32 B (rr_ttl r)
         else dl_store16 B (rr_optSize r) @ dl_store32 B (rr_optFlags r))) @
       dl_store16 B (of_nat (length (rdata_image B (rr_rdata r)))) @ rdata_image B (rr_rdata r)) error"
    unfolding ResourceRecord_decode_def
    by (intro refuses_bind [OF domain_name.decodes_image [OF assms(2)]]
        refuses_bind [OF decodes_type_fields [OF assms(1,3)]]
        refuses_bind [OF uint16.decodes_image [OF assms(1)]] refuses_now [OF assms(4)])
  then show ?thesis by (simp only: ResourceRecord_image_def append_assoc)
qed

text \<open>
  A text record with more than one string is written, but never read back: the decoding
  of what was written refuses it as invalid.
\<close>

theorem text_record_refused:
  assumes "dns_library_ok B" and "valid_name B name" and "strings = s # t # more_strings"
    and "list_all (\<lambda>s. length s \<le> 255) strings" and "length (concat strings) + length strings \<le> 65535"
    and "r = ResourceRecord_setRdata (RD_TEXT strings) (ResourceRecord_create\<lparr>rr_name := name\<rparr>)"
    and "length (ResourceRecord_image B r) \<le> length memory"
  shows "\<exists>e d. ResourceRecord_encode B r (MemoryEncoder_create memory) = Some (E_OK, e) \<and>
     ResourceRecord_decode B ResourceRecord_create (MemoryDecoder_create (me_data e)) = Some (Inl E_INVALID, d)"
proof -
  have r: "rr_name r = name" "rr_type r = Type_TXT" "rr_rdata r = RD_TEXT strings"
    by (simp_all add: assms(6) ResourceRecord_setRdata_def)
  define bs where "bs = concat (map character_string_image (t # more_strings))"
  have image: "rdata_image B (rr_rdata r) = character_string_image s @ bs"
    by (simp add: r rdata_image_def assms(3) bs_def)
  have strings: "list_all is_text_length strings"
    using assms(4) by (simp add: is_text_length_def [abs_def] k_MAX_CHARACTER_STRING_LENGTH_def)
  have "length (concat (map character_string_image xs)) = length (concat xs) + length xs" for xs
    by (induction xs) (simp_all add: string_image_length)
  then have n: "length (rdata_image B (rr_rdata r)) \<le> 65535"
    using assms(5) by (simp add: r rdata_image_def)
  define n where "n = length (rdata_image B (rr_rdata r))"
  have unat: "unat (of_nat n :: u16) = n" using n by (simp add: n_def unat_of_nat)
  have pos: "(of_nat n :: u16) > 0" using unat by (simp add: word_less_nat_alt n_def image string_image_length)
  have "refuses (text_loop (of_nat n) []) (rdata_image B (rr_rdata r)) E_INVALID"
    unfolding image by (rule refuses_text) (use strings n assms(3) in
      \<open>auto simp: n_def image string_image_length bs_def character_string_image_def\<close>)
  then have "refuses (decode_rdata_section B (of_nat n) (r\<lparr>rr_rdata := RD_UNDEFINED\<rparr>)) (rdata_image B (rr_rdata r)) E_INVALID"
    using pos by (simp add: decode_rdata_section_def unat rdata_decode_def r(2), intro refuses_position refuses_now)
  note rdata_section = this
  have fields: "ResourceRecord_fields r"
    by (simp add: ResourceRecord_fields_def assms(6) ResourceRecord_setRdata_def ResourceRecord_create_def)
  have name: "valid_name B (rr_name r)" using assms(2) r(1) by simp
  note refused = record_refused [OF assms(1) name fields, folded n_def, OF rdata_section]
  have "writes (ResourceRecord_encode B r) (ResourceRecord_image B r)"
    by (rule writes_record_parts [OF assms(1) name])
       (use writes_strings [OF strings] in \<open>simp add: r rdata_image_def\<close>)
  from written_refused [OF this refused assms(7)] show ?thesis .
qed


theorem text_record_refused_witness:
  "\<exists>e d. ResourceRecord_encode network_library
       (ResourceRecord_setRdata (RD_TEXT [[97], [98]]) (ResourceRecord_create\<lparr>rr_name := [99]\<rparr>))
       (MemoryEncoder_create (replicate 100 0)) = Some (E_OK, e) \<and>
     ResourceRecord_decode network_library ResourceRecord_create (MemoryDecoder_create (me_data e)) = Some (Inl E_INVALID, d)"
proof (rule text_record_refused [OF network_library_ok _ refl _ _ refl])
  show "valid_name network_library [99]"
    by (simp add: valid_name_def valid_label_def k_MAX_LABEL_LENGTH_def)
qed (simp_all add: ResourceRecord_image_def ResourceRecord_setRdata_def ResourceRecord_create_def rdata_image_def
      name_image_def labels_image_def character_string_image_def library_integers [OF network_library_ok])

text \<open>The flag \<open>AD\<close> of the header is not transmitted.\<close>

lemma header_ad_lost: "Flags_bytes (Header_setAd b h) = Flags_bytes h"
  by (simp add: Flags_bytes_def Header_setAd_def)

text \<open>The comparison of records leaves out the fields of \<open>OPT\<close>.\<close>

lemma record_equal_ignores_options:
  "ResourceRecord_equal (ResourceRecord_setPayloadSize size2 (ResourceRecord_setFlags flags r)) r"
  by (simp add: ResourceRecord_equal_def ResourceRecord_setPayloadSize_def ResourceRecord_setFlags_def)

end
