(* ===== verification/Timer_Options.thy ===== *)
theory Timer_Options
  imports Leaky_Bucket
begin

section \<open>Options and events of timers\<close>

text \<open>
  This theory models the values a timer works with: \<open>ntsa::Backoff\<close> (\<open>ntsa_backoff.cpp\<close>), the parameters by which
  the period of a timer grows, \<open>ntca::TimerOptions\<close> (\<open>ntca_timeroptions.h\<close>), and the events announced
  to the user, \<open>ntca::TimerEvent\<close> with \<open>ntca::TimerContext\<close>. The operations of \<open>bsls::TimeInterval\<close>
  are a parameter, as for the leaky buckets, with the conversions to and from microseconds and milliseconds.
\<close>

record 't interval_library =
  il_time :: "'t time_library"
  il_totalMicroseconds :: "'t \<Rightarrow> int"
  il_totalMilliseconds :: "'t \<Rightarrow> int"
  il_ofMicroseconds :: "int \<Rightarrow> 't"

text \<open>A conversion rounds towards zero, and is defined where the result has 64 bits.\<close>

definition int64 :: "int \<Rightarrow> bool" where
  "int64 n \<longleftrightarrow> - 9223372036854775808 \<le> n \<and> n \<le> 9223372036854775807"

definition toward_zero :: "int \<Rightarrow> int \<Rightarrow> int" where
  "toward_zero n d = (if n < 0 then - (- n div d) else n div d)"

definition interval_library_ok :: "'t interval_library \<Rightarrow> bool" where
  "interval_library_ok I \<longleftrightarrow>
     time_library_ok (il_time I) \<and>
     (\<forall>t. int64 (toward_zero (total_ns (il_time I) t) 1000) \<longrightarrow>
          il_totalMicroseconds I t = toward_zero (total_ns (il_time I) t) 1000) \<and>
     (\<forall>t. int64 (toward_zero (total_ns (il_time I) t) 1000000) \<longrightarrow>
          il_totalMilliseconds I t = toward_zero (total_ns (il_time I) t) 1000000) \<and>
     (\<forall>n. int64 n \<longrightarrow> total_ns (il_time I) (il_ofMicroseconds I n) = n * 1000)"

abbreviation il_zero :: "'t interval_library \<Rightarrow> 't" where
  "il_zero I \<equiv> ti_zero (il_time I)"

abbreviation il_less :: "'t interval_library \<Rightarrow> 't \<Rightarrow> 't \<Rightarrow> bool" where
  "il_less I \<equiv> ti_less (il_time I)"

text \<open>\<open>bsl::min\<close>: the first of two intervals of equal length.\<close>

definition il_min :: "'t interval_library \<Rightarrow> 't \<Rightarrow> 't \<Rightarrow> 't" where
  "il_min I a b = (if il_less I b a then b else a)"

subsection \<open>ntsa::Backoff\<close>

text \<open>
  A factor of type \<open>double\<close> is a rational number. An overflow of the 64-bit arithmetic, and a conversion of a
  \<open>double\<close> that does not fit, are undefined in C++: they are \<^term>\<open>None\<close>. The number drawn by \<open>bsl::rand\<close> is an argument,
  with \<open>RAND_MAX\<close>.
\<close>

datatype 't Backoff_Rep = Backoff_undefined | Backoff_arithmetic 't | Backoff_geometric rat

record 't Backoff =
  bo_rep :: "'t Backoff_Rep"
  bo_minJitter :: 't
  bo_maxJitter :: 't
  bo_minLimit :: "'t option"
  bo_maxLimit :: "'t option"

definition Backoff_init :: "'t interval_library \<Rightarrow> 't Backoff" where
  "Backoff_init I =
     \<lparr>bo_rep = Backoff_undefined, bo_minJitter = il_zero I, bo_maxJitter = il_zero I, bo_minLimit = None, bo_maxLimit = None\<rparr>"

definition Backoff_reset :: "'t interval_library \<Rightarrow> 't Backoff \<Rightarrow> 't Backoff" where
  "Backoff_reset I b =
     b\<lparr>bo_rep := Backoff_undefined, bo_minJitter := il_zero I, bo_maxJitter := il_zero I, bo_minLimit := None,
       bo_maxLimit := None\<rparr>"

definition makeArithmetic :: "'t \<Rightarrow> 't Backoff \<Rightarrow> 't Backoff" where
  "makeArithmetic v b = b\<lparr>bo_rep := Backoff_arithmetic v\<rparr>"

definition makeGeometric :: "rat \<Rightarrow> 't Backoff \<Rightarrow> 't Backoff" where
  "makeGeometric v b = b\<lparr>bo_rep := Backoff_geometric v\<rparr>"

definition setMinJitter :: "'t \<Rightarrow> 't Backoff \<Rightarrow> 't Backoff" where
  "setMinJitter v b = b\<lparr>bo_minJitter := v\<rparr>"

definition setMaxJitter :: "'t \<Rightarrow> 't Backoff \<Rightarrow> 't Backoff" where
  "setMaxJitter v b = b\<lparr>bo_maxJitter := v\<rparr>"

definition setMinLimit :: "'t \<Rightarrow> 't Backoff \<Rightarrow> 't Backoff" where
  "setMinLimit v b = b\<lparr>bo_minLimit := Some v\<rparr>"

definition setMaxLimit :: "'t \<Rightarrow> 't Backoff \<Rightarrow> 't Backoff" where
  "setMaxLimit v b = b\<lparr>bo_maxLimit := Some v\<rparr>"

definition checked64 :: "int \<Rightarrow> int option" where
  "checked64 n = (if int64 n then Some n else None)"

definition signed_double :: "rat \<Rightarrow> rat" where
  "signed_double x = (if x < 0 then - to_double (- x) else to_double x)"

definition double_to_int64 :: "rat \<Rightarrow> int option" where
  "double_to_int64 x = checked64 (if x < 0 then - \<lfloor>- x\<rfloor> else \<lfloor>x\<rfloor>)"

definition Backoff_next :: "'t interval_library \<Rightarrow> 't Backoff \<Rightarrow> int \<Rightarrow> int option" where
  "Backoff_next I b initial =
     (case bo_rep b of
        Backoff_undefined \<Rightarrow> Some initial
      | Backoff_arithmetic a \<Rightarrow> checked64 (initial + il_totalMicroseconds I a)
      | Backoff_geometric g \<Rightarrow> double_to_int64 (signed_double (signed_double (of_int initial) * g)))"

definition Backoff_jitter :: "'t interval_library \<Rightarrow> nat \<Rightarrow> nat \<Rightarrow> 't Backoff \<Rightarrow> int option" where
  "Backoff_jitter I rand_max drawn b =
     (let jitterMin = il_totalMicroseconds I (bo_minJitter b);
          jitterMax = il_totalMicroseconds I (bo_maxJitter b)
      in do { jitterRange \<leftarrow> (if jitterMax > jitterMin then checked64 (jitterMax - jitterMin) else Some 0);
              let jitterFactor = signed_double (signed_double (of_nat drawn) / signed_double (of_nat rand_max));
              jitterAmount \<leftarrow> double_to_int64 (signed_double (jitterFactor * signed_double (of_int jitterRange)));
              checked64 (jitterMin + jitterAmount) })"

definition Backoff_limit :: "'t interval_library \<Rightarrow> 't Backoff \<Rightarrow> 't \<Rightarrow> 't" where
  "Backoff_limit I b t =
     (let t = (case bo_minLimit b of Some l \<Rightarrow> if il_less I t l then l else t | None \<Rightarrow> t)
      in (case bo_maxLimit b of Some l \<Rightarrow> if il_less I l t then l else t | None \<Rightarrow> t))"

definition Backoff_apply :: "'t interval_library \<Rightarrow> nat \<Rightarrow> nat \<Rightarrow> 't Backoff \<Rightarrow> 't \<Rightarrow> 't option" where
  "Backoff_apply I rand_max drawn b t =
     do { n \<leftarrow> Backoff_next I b (il_totalMicroseconds I t);
          jitter \<leftarrow> Backoff_jitter I rand_max drawn b;
          us \<leftarrow> checked64 (n + jitter);
          Some (Backoff_limit I b (il_ofMicroseconds I us)) }"

subsection \<open>ntca::TimerOptions\<close>

datatype TimerEventType = e_DEADLINE | e_CANCELED | e_TIMER_CLOSED

fun TimerEventType_value :: "TimerEventType \<Rightarrow> nat" where
  "TimerEventType_value e_DEADLINE = 0"
| "TimerEventType_value e_CANCELED = 1"
| "TimerEventType_value e_TIMER_CLOSED = 2"

record 't TimerOptions =
  to_id :: int
  to_flags :: u32
  to_eventMask :: u32
  to_backoff :: "'t Backoff option"

definition k_FLAG_ONE_SHOT :: u32 where
  "k_FLAG_ONE_SHOT = push_bit 1 1"

definition k_FLAG_DRIFT :: u32 where
  "k_FLAG_DRIFT = push_bit 2 1"

definition TimerOptions_init :: "'t TimerOptions" where
  "TimerOptions_init = \<lparr>to_id = 0, to_flags = 0, to_eventMask = 0, to_backoff = None\<rparr>"

definition TimerOptions_setBackoff :: "'t Backoff \<Rightarrow> 't TimerOptions \<Rightarrow> 't TimerOptions" where
  "TimerOptions_setBackoff b opts = opts\<lparr>to_backoff := Some b\<rparr>"

definition TimerOptions_setOneShot :: "bool \<Rightarrow> 't TimerOptions \<Rightarrow> 't TimerOptions" where
  "TimerOptions_setOneShot v opts =
     opts\<lparr>to_flags := (if v then or (to_flags opts) k_FLAG_ONE_SHOT else and (to_flags opts) (not k_FLAG_ONE_SHOT))\<rparr>"

definition TimerOptions_setDrift :: "bool \<Rightarrow> 't TimerOptions \<Rightarrow> 't TimerOptions" where
  "TimerOptions_setDrift v opts =
     opts\<lparr>to_flags := (if v then or (to_flags opts) k_FLAG_DRIFT else and (to_flags opts) (not k_FLAG_DRIFT))\<rparr>"

definition showEvent :: "TimerEventType \<Rightarrow> 't TimerOptions \<Rightarrow> 't TimerOptions" where
  "showEvent e opts = opts\<lparr>to_eventMask := and (to_eventMask opts) (not (push_bit (TimerEventType_value e) 1))\<rparr>"

definition hideEvent :: "TimerEventType \<Rightarrow> 't TimerOptions \<Rightarrow> 't TimerOptions" where
  "hideEvent e opts = opts\<lparr>to_eventMask := or (to_eventMask opts) (push_bit (TimerEventType_value e) 1)\<rparr>"

definition TimerOptions_oneShot :: "'t TimerOptions \<Rightarrow> bool" where
  "TimerOptions_oneShot opts \<longleftrightarrow> and (to_flags opts) k_FLAG_ONE_SHOT \<noteq> 0"

definition TimerOptions_drift :: "'t TimerOptions \<Rightarrow> bool" where
  "TimerOptions_drift opts \<longleftrightarrow> and (to_flags opts) k_FLAG_DRIFT \<noteq> 0"

definition wantEvent :: "TimerEventType \<Rightarrow> 't TimerOptions \<Rightarrow> bool" where
  "wantEvent e opts \<longleftrightarrow> and (to_eventMask opts) (push_bit (TimerEventType_value e) 1) = 0"

subsection \<open>ntca::TimerContext and ntca::TimerEvent\<close>

record 't TimerContext =
  tc_now :: 't
  tc_deadline :: 't
  tc_drift :: 't
  tc_error :: ntsa_error

definition TimerContext_init :: "'t interval_library \<Rightarrow> 't TimerContext" where
  "TimerContext_init I = \<lparr>tc_now = il_zero I, tc_deadline = il_zero I, tc_drift = il_zero I, tc_error = E_OK\<rparr>"

definition TimerContext_of :: "'t interval_library \<Rightarrow> 't \<Rightarrow> 't \<Rightarrow> 't TimerContext" where
  "TimerContext_of I now deadline = \<lparr>tc_now = now, tc_deadline = deadline, tc_drift = il_zero I, tc_error = E_OK\<rparr>"

record 't TimerEvent =
  te_type :: TimerEventType
  te_context :: "'t TimerContext"

subsection \<open>What the options promise\<close>

lemma wantEvent_bit: "wantEvent e opts \<longleftrightarrow> \<not> bit (to_eventMask opts) (TimerEventType_value e)"
  by (simp add: wantEvent_def bit_iff_and_push_bit_not_eq_0)

lemma wantEvent_show: "wantEvent e (showEvent e' opts) \<longleftrightarrow> e = e' \<or> wantEvent e opts"
  by (cases e; cases e') (auto simp: wantEvent_bit showEvent_def bit_simps)

lemma wantEvent_hide: "wantEvent e (hideEvent e' opts) \<longleftrightarrow> e \<noteq> e' \<and> wantEvent e opts"
  by (cases e; cases e') (auto simp: wantEvent_bit hideEvent_def bit_simps)

lemma flag_bits:
  "TimerOptions_oneShot opts \<longleftrightarrow> bit (to_flags opts) 1" "TimerOptions_drift opts \<longleftrightarrow> bit (to_flags opts) 2"
  unfolding TimerOptions_oneShot_def TimerOptions_drift_def k_FLAG_ONE_SHOT_def k_FLAG_DRIFT_def
  by (simp_all only: bit_iff_and_push_bit_not_eq_0)

lemma flags_set:
  "TimerOptions_oneShot (TimerOptions_setOneShot v opts) = v"
  "TimerOptions_oneShot (TimerOptions_setDrift v opts) = TimerOptions_oneShot opts"
  "TimerOptions_drift (TimerOptions_setDrift v opts) = v"
  "TimerOptions_drift (TimerOptions_setOneShot v opts) = TimerOptions_drift opts"
  unfolding flag_bits TimerOptions_setOneShot_def TimerOptions_setDrift_def k_FLAG_ONE_SHOT_def k_FLAG_DRIFT_def
  by (auto simp: bit_simps)

text \<open>
  A period that has grown stays within the limits, the greatest one prevailing over the least one.
\<close>

lemma Backoff_limited:
  assumes lib: "interval_library_ok I" and "Backoff_apply I rand_max drawn b t = Some p"
  shows "bo_maxLimit b = Some l \<Longrightarrow> \<not> il_less I l p"
    and "bo_minLimit b = Some l \<Longrightarrow> \<forall>m. bo_maxLimit b = Some m \<longrightarrow> \<not> il_less I m l \<Longrightarrow> \<not> il_less I p l"
proof -
  have less: "il_less I t u \<longleftrightarrow> total_ns (il_time I) t < total_ns (il_time I) u" for t u
    using lib by (simp add: interval_library_ok_def time_library_ok_def)
  obtain q where "p = Backoff_limit I b q" using assms(2) by (auto simp: Backoff_apply_def bind_eq_Some_iff)
  then show "bo_maxLimit b = Some l \<Longrightarrow> \<not> il_less I l p"
    "bo_minLimit b = Some l \<Longrightarrow> \<forall>m. bo_maxLimit b = Some m \<longrightarrow> \<not> il_less I m l \<Longrightarrow> \<not> il_less I p l"
    by (auto simp: Backoff_limit_def Let_def less split: option.splits)
qed

end
