(* ===== verification/Skip_List.thy ===== *)
theory Skip_List
  imports Ntf_Prelude
begin

section \<open>The skip list\<close>

text \<open>
  This theory models \<open>ntcs::SkipList\<close> (\<open>ntcs_skiplist.h\<close>), the ordered map of deadlines to timers.
  A pointer to a node is a natural number, and the nodes in use are a map from pointers. The
  pointers that link the nodes of a level are the list of the nodes of the level; the
  head and the tail of the list are not nodes here, and stand for the absence of one. The level of a
  new node, which the code draws at random, is an argument. An access to a node
  that is not in use is \<^term>\<open>None\<close>. That is stricter than the code, in which \<open>updateR\<close> of a released node may
  find there the null link that its removal left and return \<open>e_NOT_FOUND\<close>.
\<close>

type_synonym node_ref = nat

record ('k, 'd) Node =
  nd_level :: nat
  nd_data :: 'd
  nd_key :: 'k

record ('k, 'd) SkipList =
  sl_listLevel :: nat
  sl_length :: nat
  sl_nodes :: "node_ref \<rightharpoonup> ('k, 'd) Node"
  sl_links :: "node_ref list list"
  sl_fresh :: node_ref

definition k_MAX_LEVEL :: nat where
  "k_MAX_LEVEL = 31"

definition k_MAX_NUM_LEVELS :: nat where
  "k_MAX_NUM_LEVELS = k_MAX_LEVEL + 1"

definition SkipList_initialize :: "('k, 'd) SkipList" where
  "SkipList_initialize =
     \<lparr>sl_listLevel = 0, sl_length = 0, sl_nodes = (\<lambda>_. None), sl_links = replicate k_MAX_NUM_LEVELS [],
      sl_fresh = 0\<rparr>"

definition node_key :: "('k, 'd) SkipList \<Rightarrow> node_ref \<Rightarrow> 'k" where
  "node_key sl n = nd_key (the (sl_nodes sl n))"

definition node_data :: "('k, 'd) SkipList \<Rightarrow> node_ref \<Rightarrow> 'd" where
  "node_data sl n = nd_data (the (sl_nodes sl n))"

definition node_level :: "('k, 'd) SkipList \<Rightarrow> node_ref \<Rightarrow> nat" where
  "node_level sl n = nd_level (the (sl_nodes sl n))"

subsection \<open>Lookup\<close>

text \<open>
  The nodes in front of a node of a level, the nearest first, and behind it. The absent node is the
  tail, or the head.
\<close>

definition preceding :: "node_ref option \<Rightarrow> node_ref list \<Rightarrow> node_ref list" where
  "preceding q xs = rev (case q of None \<Rightarrow> xs | Some n \<Rightarrow> takeWhile (\<lambda>m. m \<noteq> n) xs)"

definition following :: "node_ref option \<Rightarrow> node_ref list \<Rightarrow> node_ref list" where
  "following p xs = (case p of None \<Rightarrow> xs | Some n \<Rightarrow> tl (dropWhile (\<lambda>m. m \<noteq> n) xs))"

fun walk_left :: "(node_ref \<Rightarrow> 'k::linorder) \<Rightarrow> 'k \<Rightarrow> node_ref option \<Rightarrow> node_ref list \<Rightarrow> node_ref option" where
  "walk_left key k q [] = q"
| "walk_left key k q (p # ps) = (if k < key p then walk_left key k (Some p) ps else q)"

fun walk_right ::
  "(node_ref \<Rightarrow> 'k::linorder) \<Rightarrow> 'k \<Rightarrow> node_ref option \<Rightarrow> node_ref list \<Rightarrow> node_ref option \<times> node_ref option" where
  "walk_right key k p [] = (p, None)"
| "walk_right key k p (q # qs) = (if \<not> k < key q then walk_right key k (Some q) qs else (p, Some q))"

text \<open>The search goes from the upper levels to the lower ones; it returns the locations from level 0 upwards.\<close>

fun lookup_right ::
  "(node_ref \<Rightarrow> 'k::linorder) \<Rightarrow> 'k \<Rightarrow> node_ref option \<Rightarrow> node_ref list list \<Rightarrow> node_ref option list" where
  "lookup_right key k q [] = []"
| "lookup_right key k q (xs # lower) =
     (let q1 = walk_left key k q (preceding q xs) in lookup_right key k q1 lower @ [q1])"

fun lookup_left ::
  "(node_ref \<Rightarrow> 'k::linorder) \<Rightarrow> 'k \<Rightarrow> node_ref option \<Rightarrow> node_ref list list \<Rightarrow> node_ref option list" where
  "lookup_left key k p [] = []"
| "lookup_left key k p (xs # lower) =
     (let (p1, q1) = walk_right key k p (following p xs) in lookup_left key k p1 lower @ [q1])"

definition lookupImpUpperBoundR :: "('k::linorder, 'd) SkipList \<Rightarrow> 'k \<Rightarrow> node_ref option list" where
  "lookupImpUpperBoundR sl k =
     lookup_right (node_key sl) k None (rev (take (Suc (sl_listLevel sl)) (sl_links sl)))"

definition lookupImpUpperBoundL :: "('k::linorder, 'd) SkipList \<Rightarrow> 'k \<Rightarrow> node_ref option list" where
  "lookupImpUpperBoundL sl k =
     lookup_left (node_key sl) k None (rev (take (Suc (sl_listLevel sl)) (sl_links sl)))"

subsection \<open>Insertion, movement and removal\<close>

definition link_before :: "node_ref option \<Rightarrow> node_ref \<Rightarrow> node_ref list \<Rightarrow> node_ref list" where
  "link_before q n xs =
     (case q of None \<Rightarrow> xs @ [n]
      | Some m \<Rightarrow> takeWhile (\<lambda>x. x \<noteq> m) xs @ n # dropWhile (\<lambda>x. x \<noteq> m) xs)"

fun link_levels :: "node_ref option list \<Rightarrow> node_ref \<Rightarrow> nat \<Rightarrow> node_ref list list \<Rightarrow> node_ref list list" where
  "link_levels location n 0 links = links"
| "link_levels location n (Suc k) links =
     link_levels location n k (links[k := link_before (location ! k) n (links ! k)])"

definition frontNode :: "('k, 'd) SkipList \<Rightarrow> node_ref option" where
  "frontNode sl = (case sl_links sl ! 0 of [] \<Rightarrow> None | n # _ \<Rightarrow> Some n)"

definition insertImp ::
  "node_ref option list \<Rightarrow> node_ref \<Rightarrow> ('k, 'd) SkipList \<Rightarrow> (bool \<times> ('k, 'd) SkipList) option" where
  "insertImp location n sl =
     (let level = node_level sl n
      in do { sl1 \<leftarrow>
                (if level > sl_listLevel sl then
                   (if level = sl_listLevel sl + 1
                    then Some (sl\<lparr>sl_listLevel := level,
                                  sl_links := link_levels location n level ((sl_links sl)[level := [n]])\<rparr>)
                    else None)
                 else Some (sl\<lparr>sl_links := link_levels location n (Suc level) (sl_links sl)\<rparr>));
              Some (frontNode sl1 = Some n, sl1\<lparr>sl_length := sl_length sl1 + 1\<rparr>) })"

text \<open>\<open>move_levels\<close> moves the node at the levels from \<open>k\<close>, of which \<open>c\<close> are left.\<close>

fun move_levels ::
  "node_ref option list \<Rightarrow> node_ref \<Rightarrow> nat \<Rightarrow> nat \<Rightarrow> node_ref list list \<Rightarrow> node_ref list list" where
  "move_levels location n k 0 links = links"
| "move_levels location n k (Suc c) links =
     (let newQ = location ! k;
          newP = (case preceding newQ (links ! k) of [] \<Rightarrow> None | p # _ \<Rightarrow> Some p)
      in if newP = Some n \<or> newQ = Some n then links
         else move_levels location n (Suc k) c (links[k := link_before newQ n (remove1 n (links ! k))]))"

definition moveImp ::
  "node_ref option list \<Rightarrow> node_ref \<Rightarrow> ('k, 'd) SkipList \<Rightarrow> (bool \<times> ('k, 'd) SkipList) option" where
  "moveImp location n sl =
     (let level = node_level sl n
      in if level \<le> sl_listLevel sl
         then let sl1 = sl\<lparr>sl_links := move_levels location n 0 (Suc level) (sl_links sl)\<rparr>
              in Some (frontNode sl1 = Some n, sl1)
         else None)"

definition allocateNode :: "nat \<Rightarrow> 'k \<Rightarrow> 'd \<Rightarrow> ('k, 'd) SkipList \<Rightarrow> node_ref \<times> ('k, 'd) SkipList" where
  "allocateNode level k d sl =
     (let level1 = (if level > sl_listLevel sl then sl_listLevel sl + 1 else level); n = sl_fresh sl
      in (n, sl\<lparr>sl_nodes := (sl_nodes sl)(n \<mapsto> \<lparr>nd_level = level1, nd_data = d, nd_key = k\<rparr>),
                sl_fresh := n + 1\<rparr>))"

definition SkipList_addL ::
  "nat \<Rightarrow> 'k::linorder \<Rightarrow> 'd \<Rightarrow> ('k, 'd) SkipList \<Rightarrow> (node_ref \<times> bool \<times> ('k, 'd) SkipList) option" where
  "SkipList_addL level k d sl =
     (let (n, sl1) = allocateNode level k d sl
      in do { (newFront, sl2) \<leftarrow> insertImp (lookupImpUpperBoundL sl1 k) n sl1; Some (n, newFront, sl2) })"

definition SkipList_addR ::
  "nat \<Rightarrow> 'k::linorder \<Rightarrow> 'd \<Rightarrow> ('k, 'd) SkipList \<Rightarrow> (node_ref \<times> bool \<times> ('k, 'd) SkipList) option" where
  "SkipList_addR level k d sl =
     (let (n, sl1) = allocateNode level k d sl
      in do { (newFront, sl2) \<leftarrow> insertImp (lookupImpUpperBoundR sl1 k) n sl1; Some (n, newFront, sl2) })"

fun unlink_levels :: "node_ref \<Rightarrow> nat \<Rightarrow> node_ref list list \<Rightarrow> node_ref list list" where
  "unlink_levels n 0 links = links"
| "unlink_levels n (Suc k) links = unlink_levels n k (links[k := remove1 n (links ! k)])"

text \<open>A node is released as soon as it is removed, so that a node in use is always in the list.\<close>

definition SkipList_remove :: "node_ref \<Rightarrow> ('k, 'd) SkipList \<Rightarrow> ('k, 'd) SkipList option" where
  "SkipList_remove n sl =
     (case sl_nodes sl n of
        None \<Rightarrow> None
      | Some node \<Rightarrow>
          Some (sl\<lparr>sl_links := unlink_levels n (Suc (nd_level node)) (sl_links sl),
                   sl_length := sl_length sl - 1,
                   sl_nodes := (sl_nodes sl)(n := None)\<rparr>))"

definition SkipList_removeAll :: "('k, 'd) SkipList \<Rightarrow> nat \<times> ('k, 'd) SkipList" where
  "SkipList_removeAll sl =
     (sl_length sl,
      sl\<lparr>sl_links := replicate (Suc (sl_listLevel sl)) [] @ drop (Suc (sl_listLevel sl)) (sl_links sl),
         sl_length := 0, sl_listLevel := 0,
         sl_nodes := (\<lambda>n. if n \<in> set (sl_links sl ! 0) then None else sl_nodes sl n)\<rparr>)"

definition SkipList_updateR ::
  "node_ref \<Rightarrow> 'k::linorder \<Rightarrow> ('k, 'd) SkipList \<Rightarrow> (bool \<times> ('k, 'd) SkipList) option" where
  "SkipList_updateR n newKey sl =
     (case sl_nodes sl n of
        None \<Rightarrow> None
      | Some node \<Rightarrow>
          let location = lookupImpUpperBoundR sl newKey;
              sl1 = sl\<lparr>sl_nodes := (sl_nodes sl)(n \<mapsto> node\<lparr>nd_key := newKey\<rparr>)\<rparr>
          in moveImp location n sl1)"

definition SkipList_isEmpty :: "('k, 'd) SkipList \<Rightarrow> bool" where
  "SkipList_isEmpty sl \<longleftrightarrow> sl_links sl ! 0 = []"

definition skipForward :: "node_ref \<Rightarrow> ('k, 'd) SkipList \<Rightarrow> node_ref option option" where
  "skipForward n sl =
     (case sl_nodes sl n of
        None \<Rightarrow> None
      | Some _ \<Rightarrow> Some (case following (Some n) (sl_links sl ! 0) of [] \<Rightarrow> None | m # _ \<Rightarrow> Some m))"

subsection \<open>Sorted levels\<close>

text \<open>
  Where a node belongs in a sorted list: behind the nodes whose keys are not greater. The functions of the skip
  list are compared with these on each level.
\<close>

definition place :: "(node_ref \<Rightarrow> 'k::linorder) \<Rightarrow> 'k \<Rightarrow> node_ref \<Rightarrow> node_ref list \<Rightarrow> node_ref list" where
  "place key k n xs = filter (\<lambda>x. key x \<le> k) xs @ n # filter (\<lambda>x. k < key x) xs"

abbreviation bound :: "(node_ref \<Rightarrow> 'k::linorder) \<Rightarrow> 'k \<Rightarrow> node_ref list \<Rightarrow> node_ref option" where
  "bound key k xs \<equiv> find (\<lambda>x. k < key x) xs"

lemma sorted_split:
  assumes "sorted (map key xs)"
  shows "xs = filter (\<lambda>x. key x \<le> k) xs @ filter (\<lambda>x. (k::'k::linorder) < key x) xs"
  using assms
proof (induction xs)
  case (Cons x xs)
  then show ?case
  proof (cases "key x \<le> k")
    case False
    with Cons.prems have "filter (\<lambda>x. key x \<le> k) xs = []" "filter (\<lambda>x. k < key x) xs = xs"
      by (auto simp: filter_empty_conv filter_id_conv)
    then show ?thesis using False by simp
  qed simp
qed simp

lemma find_append: "find P (xs @ ys) = (case find P xs of None \<Rightarrow> find P ys | Some x \<Rightarrow> Some x)"
  by (induction xs) simp_all

lemma bound_member: "bound key k xs = Some n \<Longrightarrow> n \<in> set xs \<and> k < key n"
  by (induction xs) (auto split: if_splits)

lemma bound_small: "\<forall>x\<in>set as. key x \<le> k \<Longrightarrow> bound key k (as @ bs) = bound key k bs"
  by (induction as) (auto simp: not_less [symmetric])

lemma takeWhile_neq: "n \<notin> set as \<Longrightarrow> takeWhile (\<lambda>m. m \<noteq> n) (as @ n # bs) = as"
  by (induction as) auto

lemma dropWhile_neq: "n \<notin> set as \<Longrightarrow> dropWhile (\<lambda>m. m \<noteq> n) (as @ n # bs) = n # bs"
  by (induction as) auto

lemma link_before_split:
  assumes "\<forall>x\<in>set as. key x \<le> k" and "\<forall>x\<in>set bs. k < key x"
  shows "link_before (bound key k (as @ bs)) n (as @ bs) = as @ n # bs"
proof (cases bs)
  case Nil
  then show ?thesis using bound_small [OF assms(1), of bs] by (simp add: link_before_def)
next
  case (Cons q ys)
  then have "bound key k (as @ bs) = Some q" using bound_small [OF assms(1), of bs] assms(2) by simp
  moreover have "q \<notin> set as" using assms Cons by auto
  ultimately show ?thesis using Cons by (simp add: link_before_def takeWhile_neq dropWhile_neq)
qed

lemma link_before_bound:
  assumes "sorted (map key xs)"
  shows "link_before (bound key k xs) n xs = place key k n xs"
proof -
  have "link_before (bound key k (filter (\<lambda>x. key x \<le> k) xs @ filter (\<lambda>x. k < key x) xs)) n
      (filter (\<lambda>x. key x \<le> k) xs @ filter (\<lambda>x. k < key x) xs) = place key k n xs"
    unfolding place_def by (rule link_before_split) auto
  then show ?thesis by (simp flip: sorted_split [OF assms, of k])
qed

lemma walk_left_rev:
  "sorted (map key as) \<Longrightarrow> walk_left key k q (rev as) = (case bound key k as of None \<Rightarrow> q | Some p \<Rightarrow> Some p)"
proof (induction as arbitrary: q rule: rev_induct)
  case (snoc p as)
  show ?case
  proof (cases "k < key p")
    case True
    then show ?thesis using snoc by (auto simp: sorted_append find_append split: option.splits)
  next
    case False
    then have "bound key k as = None" using snoc.prems by (auto simp: sorted_append find_None_iff not_less)
    then show ?thesis using False by (simp add: find_append)
  qed
qed simp


lemma walk_left_bound:
  assumes "sorted (map key xs)" and "distinct xs" and "\<forall>n. q = Some n \<longrightarrow> n \<in> set xs \<and> k < key n"
  shows "walk_left key k q (preceding q xs) = bound key k xs"
proof (cases q)
  case None
  then show ?thesis using walk_left_rev [OF assms(1), of k None] by (simp add: preceding_def split: option.split)
next
  case (Some n)
  with assms(3) obtain as bs where xs: "xs = as @ n # bs" "n \<notin> set as" by (auto dest: split_list_first)
  then have "walk_left key k q (preceding q xs) = (case bound key k as of None \<Rightarrow> q | Some p \<Rightarrow> Some p)"
    using walk_left_rev [of key as k q] assms(1) Some by (simp add: preceding_def takeWhile_neq sorted_append)
  also have "\<dots> = bound key k xs" using xs Some assms(3) by (simp add: find_append split: option.split)
  finally show ?thesis .
qed

lemma walk_right_bound:
  "snd (walk_right key k p qs) = bound key k qs \<and>
   (\<forall>n. fst (walk_right key k p qs) = Some n \<longrightarrow> p = Some n \<or> n \<in> set qs \<and> \<not> k < key n)"
  by (induction qs arbitrary: p) auto

lemma following_bound:
  assumes "sorted (map key xs)" and "distinct xs" and "\<forall>n. p = Some n \<longrightarrow> n \<in> set xs \<and> \<not> k < key n"
  shows "bound key k (following p xs) = bound key k xs \<and> set (following p xs) \<subseteq> set xs"
proof (cases p)
  case None
  then show ?thesis by (simp add: following_def)
next
  case (Some n)
  with assms(3) obtain as bs where xs: "xs = as @ n # bs" "n \<notin> set as" by (auto dest: split_list_first)
  have "\<forall>x\<in>set (as @ [n]). key x \<le> k"
    using assms(1,3) Some xs by (auto simp: sorted_append not_less intro: order_trans)
  then have "bound key k ((as @ [n]) @ bs) = bound key k bs" by (rule bound_small)
  then show ?thesis using xs Some by (auto simp: following_def dropWhile_neq)
qed

text \<open>
  The levels, from the top: each is sorted and part of the next. The location found on each is the first node
  with a greater key.
\<close>

fun chain :: "(node_ref \<Rightarrow> 'k::linorder) \<Rightarrow> node_ref list list \<Rightarrow> bool" where
  "chain key [] = True"
| "chain key (xs # lower) \<longleftrightarrow> sorted (map key xs) \<and> distinct xs \<and>
     (\<forall>ys\<in>set lower. set xs \<subseteq> set ys) \<and> chain key lower"

lemma lookup_right_bound:
  assumes "chain key levels" and "\<forall>n xs. q = Some n \<longrightarrow> xs \<in> set levels \<longrightarrow> n \<in> set xs" and "\<forall>n. q = Some n \<longrightarrow> k < key n"
  shows "lookup_right key k q levels = rev (map (bound key k) levels)"
  using assms
proof (induction levels arbitrary: q)
  case (Cons xs lower)
  have q: "walk_left key k q (preceding q xs) = bound key k xs"
    by (rule walk_left_bound) (use Cons.prems in auto)
  have "lookup_right key k (bound key k xs) lower = rev (map (bound key k) lower)"
  proof (rule Cons.IH)
    show "chain key lower" using Cons.prems(1) by simp
    show "\<forall>n ys. bound key k xs = Some n \<longrightarrow> ys \<in> set lower \<longrightarrow> n \<in> set ys"
      using Cons.prems(1) bound_member [of k key xs] by auto
    show "\<forall>n. bound key k xs = Some n \<longrightarrow> k < key n" using bound_member [of k key xs] by auto
  qed
  then show ?case using q by simp
qed simp

lemma lookup_left_bound:
  assumes "chain key levels" and "\<forall>n xs. p = Some n \<longrightarrow> xs \<in> set levels \<longrightarrow> n \<in> set xs" and "\<forall>n. p = Some n \<longrightarrow> \<not> k < key n"
  shows "lookup_left key k p levels = rev (map (bound key k) levels)"
  using assms
proof (induction levels arbitrary: p)
  case (Cons xs lower)
  obtain p1 q1 where w: "walk_right key k p (following p xs) = (p1, q1)" by fastforce
  have f: "bound key k (following p xs) = bound key k xs" "set (following p xs) \<subseteq> set xs"
    using following_bound [of key xs p k] Cons.prems by auto
  have q: "q1 = bound key k xs"
    and p: "\<forall>n. p1 = Some n \<longrightarrow> p = Some n \<or> n \<in> set xs \<and> \<not> k < key n"
    using walk_right_bound [of key k p "following p xs"] w f by auto
  have "lookup_left key k p1 lower = rev (map (bound key k) lower)"
  proof (rule Cons.IH)
    show "chain key lower" using Cons.prems(1) by simp
    show "\<forall>n ys. p1 = Some n \<longrightarrow> ys \<in> set lower \<longrightarrow> n \<in> set ys"
      using p Cons.prems(1,2) by (auto dest: spec)
    show "\<forall>n. p1 = Some n \<longrightarrow> \<not> k < key n" using p Cons.prems(3) by auto
  qed
  then show ?case using w q by simp
qed simp


subsection \<open>The invariant\<close>

text \<open>
  Level \<open>k\<close> links the nodes of at least that level, in the order of level 0, which is sorted and
  has exactly the nodes in use.
\<close>

abbreviation base :: "('k, 'd) SkipList \<Rightarrow> node_ref list" where
  "base sl \<equiv> sl_links sl ! 0"

definition linked :: "(node_ref \<Rightarrow> nat) \<Rightarrow> node_ref list list \<Rightarrow> bool" where
  "linked level links \<longleftrightarrow> length links = k_MAX_NUM_LEVELS \<and>
     (\<forall>k < k_MAX_NUM_LEVELS. links ! k = filter (\<lambda>n. k \<le> level n) (links ! 0))"

definition sl_inv :: "('k::linorder, 'd) SkipList \<Rightarrow> bool" where
  "sl_inv sl \<longleftrightarrow>
     linked (node_level sl) (sl_links sl) \<and> sorted (map (node_key sl) (base sl)) \<and> distinct (base sl) \<and>
     set (base sl) = dom (sl_nodes sl) \<and> sl_length sl = length (base sl) \<and>
     sl_listLevel sl \<le> k_MAX_LEVEL \<and> (\<forall>n\<in>set (base sl). node_level sl n \<le> sl_listLevel sl \<and> n < sl_fresh sl)"

lemma linked_level: "linked level links \<Longrightarrow> k < k_MAX_NUM_LEVELS \<Longrightarrow> links ! k = filter (\<lambda>n. k \<le> level n) (links ! 0)"
  unfolding linked_def by blast

lemma linked_length: "linked level links \<Longrightarrow> length links = k_MAX_NUM_LEVELS"
  unfolding linked_def by blast

lemma chain_levels:
  assumes "linked level links" and "sorted (map key (links ! 0))" and "distinct (links ! 0)" and "m \<le> k_MAX_NUM_LEVELS"
  shows "chain key (rev (take m links))"
  using assms(4)
proof (induction m)
  case (Suc m)
  then have "m < length links" using linked_length [OF assms(1)] by simp
  then have levels: "rev (take (Suc m) links) = links ! m # rev (take m links)"
    by (simp add: take_Suc_conv_app_nth)
  have eq: "links ! j = filter (\<lambda>n. j \<le> level n) (links ! 0)" if "j \<le> m" for j
    by (rule linked_level [OF assms(1)]) (use Suc.prems that in simp)
  have "set (links ! m) \<subseteq> set ys" if "ys \<in> set (take m links)" for ys
  proof -
    from that obtain j where j: "j < m" "ys = links ! j" by (auto simp: in_set_conv_nth)
    show ?thesis unfolding j(2) eq [of j, OF less_imp_le [OF j(1)]] eq [of m, OF order_refl] using j(1) by auto
  qed
  moreover have "sorted (map key (links ! m))" "distinct (links ! m)"
    unfolding eq [of m, OF order_refl] using assms(2,3) by (simp_all add: sorted_filter)
  ultimately show ?case using Suc levels by simp
qed simp

text \<open>Both searches find, on each level, the first node with a greater key.\<close>

lemma lookups:
  assumes "linked level (sl_links sl)" and "sorted (map (node_key sl) (base sl))" and "distinct (base sl)"
    and "sl_listLevel sl \<le> k_MAX_LEVEL"
  shows "lookupImpUpperBoundR sl k = map (bound (node_key sl) k) (take (Suc (sl_listLevel sl)) (sl_links sl))"
    and "lookupImpUpperBoundL sl k = map (bound (node_key sl) k) (take (Suc (sl_listLevel sl)) (sl_links sl))"
proof -
  have "chain (node_key sl) (rev (take (Suc (sl_listLevel sl)) (sl_links sl)))"
    by (rule chain_levels [OF assms(1-3)]) (use assms(4) in \<open>simp add: k_MAX_NUM_LEVELS_def\<close>)
  then show "lookupImpUpperBoundR sl k = map (bound (node_key sl) k) (take (Suc (sl_listLevel sl)) (sl_links sl))"
    "lookupImpUpperBoundL sl k = map (bound (node_key sl) k) (take (Suc (sl_listLevel sl)) (sl_links sl))"
    unfolding lookupImpUpperBoundR_def lookupImpUpperBoundL_def
    by (simp_all add: lookup_right_bound lookup_left_bound rev_map)
qed

lemma link_levels_length [simp]: "length (link_levels location n c links) = length links"
  by (induction c arbitrary: links) simp_all

lemma link_levels_nth:
  "c \<le> length links \<Longrightarrow> j < length links \<Longrightarrow>
   link_levels location n c links ! j = (if j < c then link_before (location ! j) n (links ! j) else links ! j)"
  by (induction c arbitrary: links) (auto simp: nth_list_update less_Suc_eq)

lemma unlink_levels_length [simp]: "length (unlink_levels n c links) = length links"
  by (induction c arbitrary: links) simp_all

lemma unlink_levels_nth:
  "c \<le> length links \<Longrightarrow> j < length links \<Longrightarrow>
   unlink_levels n c links ! j = (if j < c then remove1 n (links ! j) else links ! j)"
  by (induction c arbitrary: links) (auto simp: nth_list_update less_Suc_eq)


subsection \<open>Insertion\<close>

text \<open>The entries of the list, in order: keys, nodes and data.\<close>

definition entries :: "('k, 'd) SkipList \<Rightarrow> ('k \<times> node_ref \<times> 'd) list" where
  "entries sl = map (\<lambda>n. (node_key sl n, n, node_data sl n)) (base sl)"

definition insert_entry :: "'k::linorder \<times> 'e \<Rightarrow> ('k \<times> 'e) list \<Rightarrow> ('k \<times> 'e) list" where
  "insert_entry e es = filter (\<lambda>x. fst x \<le> fst e) es @ e # filter (\<lambda>x. fst e < fst x) es"

lemma filter_place: "P n \<Longrightarrow> filter P (place key k n xs) = place key k n (filter P xs)"
  by (simp add: place_def filter_filter conj_commute cong: conj_cong)

lemma filter_place_not: "\<not> P n \<Longrightarrow> sorted (map key xs) \<Longrightarrow> filter P (place key k n xs) = filter P xs"
  using arg_cong [OF sorted_split [of key xs k], of "filter P"] by (simp add: place_def)

lemma sorted_place:
  assumes "sorted (map key xs)" and "key n = k"
  shows "sorted (map key (place key k n xs))"
proof -
  have "sorted (map key (filter P xs))" for P using assms(1) by (rule sorted_filter)
  then show ?thesis using assms(2) by (auto simp: place_def sorted_append)
qed

lemma place_simps [simp]:
  "set (place key k n xs) = insert n (set xs)" "length (place key k n xs) = Suc (length xs)"
  "n \<notin> set xs \<Longrightarrow> distinct xs \<Longrightarrow> distinct (place key k n xs)"
proof -
  have "length (filter (\<lambda>x. key x \<le> k) xs) + length (filter (\<lambda>x. k < key x) xs) = length xs"
    using sum_length_filter_compl [of "\<lambda>x. key x \<le> k" xs] by (simp add: not_le)
  then show "length (place key k n xs) = Suc (length xs)" by (simp add: place_def)
qed (auto simp: place_def)

text \<open>The state after a node has been placed on its levels.\<close>

lemma linked_place:
  assumes links: "linked level links" and sorted: "sorted (map key (links ! 0))" and n: "n \<notin> set (links ! 0)"
    and links': "length links' = k_MAX_NUM_LEVELS" "level n < k_MAX_NUM_LEVELS"
      "\<And>j. j < k_MAX_NUM_LEVELS \<Longrightarrow> links' ! j = (if j \<le> level n then place key k n (links ! j) else links ! j)"
  shows "linked level links'"
  unfolding linked_def
proof (intro conjI allI impI)
  show "length links' = k_MAX_NUM_LEVELS" by (fact links'(1))
  fix j
  assume j: "j < k_MAX_NUM_LEVELS"
  have base: "links' ! 0 = place key k n (links ! 0)"
    using links'(3) [of 0] by (simp add: k_MAX_NUM_LEVELS_def)
  have eq: "links ! j = filter (\<lambda>m. j \<le> level m) (links ! 0)" by (rule linked_level [OF links j])
  show "links' ! j = filter (\<lambda>m. j \<le> level m) (links' ! 0)"
    unfolding base links'(3) [OF j] eq by (simp add: filter_place filter_place_not [OF _ sorted])
qed

text \<open>A change of the list that moves no node of the level that it does not name.\<close>

lemma node_add [simp]:
  "m \<noteq> n \<Longrightarrow> sl_nodes sl1 = (sl_nodes sl)(n \<mapsto> node) \<Longrightarrow> node_key sl1 m = node_key sl m"
  "m \<noteq> n \<Longrightarrow> sl_nodes sl1 = (sl_nodes sl)(n \<mapsto> node) \<Longrightarrow> node_level sl1 m = node_level sl m"
  "m \<noteq> n \<Longrightarrow> sl_nodes sl1 = (sl_nodes sl)(n \<mapsto> node) \<Longrightarrow> node_data sl1 m = node_data sl m"
  by (simp_all add: node_key_def node_level_def node_data_def)

lemma place_cong: "(\<And>x. x \<in> set xs \<Longrightarrow> key x = key' x) \<Longrightarrow> place key k n xs = place key' k n xs"
  by (simp add: place_def cong: filter_cong)

lemma linked_cong:
  assumes "linked level links" and "\<And>n. n \<in> set (links ! 0) \<Longrightarrow> level n = level' n"
  shows "linked level' links"
proof -
  have "filter (\<lambda>n. k \<le> level n) (links ! 0) = filter (\<lambda>n. k \<le> level' n) (links ! 0)" for k
    using assms(2) by (auto intro: filter_cong)
  then show ?thesis using assms(1) unfolding linked_def by metis
qed

text \<open>The state after a node has been placed: \<open>sl0\<close> is the list without the node.\<close>

lemma sl_inv_place:
  assumes inv: "sl_inv sl0" and fresh: "sl_nodes sl0 n = None"
    and nodes: "sl_nodes sl = (sl_nodes sl0)(n \<mapsto> node)" and k: "nd_key node = k"
    and levels: "sl_listLevel sl0 \<le> sl_listLevel sl" "nd_level node \<le> sl_listLevel sl" "sl_listLevel sl \<le> k_MAX_LEVEL"
    and links: "length (sl_links sl) = k_MAX_NUM_LEVELS"
      "\<And>j. j < k_MAX_NUM_LEVELS \<Longrightarrow> sl_links sl ! j =
         (if j \<le> nd_level node then place (node_key sl0) k n (sl_links sl0 ! j) else sl_links sl0 ! j)"
    and rest: "sl_length sl = Suc (sl_length sl0)" "sl_fresh sl0 \<le> sl_fresh sl" "n < sl_fresh sl"
  shows "sl_inv sl \<and> entries sl = insert_entry (k, n, nd_data node) (entries sl0)"
proof -
  have n: "n \<notin> set (base sl0)" "\<And>m. m \<in> set (base sl0) \<Longrightarrow> m \<noteq> n" using inv fresh by (auto simp: sl_inv_def)
  have key: "node_key sl m = node_key sl0 m" "node_level sl m = node_level sl0 m" "node_data sl m = node_data sl0 m"
    if "m \<in> set (base sl0)" for m
    using node_add [OF _ nodes] n(2) [OF that] by blast+
  have new: "node_key sl n = k" "node_level sl n = nd_level node" "node_data sl n = nd_data node"
    using nodes k by (simp_all add: node_key_def node_level_def node_data_def)
  have places: "place (node_key sl0) k n (base sl0) = place (node_key sl) k n (base sl0)"
    by (rule place_cong) (simp add: key)
  have base: "base sl = place (node_key sl0) k n (base sl0)" using links(2) [of 0] by (simp add: k_MAX_NUM_LEVELS_def)
  have sorted0: "sorted (map (node_key sl) (base sl0))" 
  proof -
    have "map (node_key sl) (base sl0) = map (node_key sl0) (base sl0)" using key(1) by simp
    then show ?thesis using inv unfolding sl_inv_def by argo
  qed
  have linked0: "linked (node_level sl) (sl_links sl0)"
    by (rule linked_cong) (use inv key in \<open>auto simp: sl_inv_def\<close>)
  have sorted: "sorted (map (node_key sl) (base sl))"
    unfolding base places by (rule sorted_place) (use sorted0 new in auto)
  have "linked (node_level sl) (sl_links sl)"
  proof (rule linked_place [OF linked0 sorted0 n(1)])
    fix j assume j: "j < k_MAX_NUM_LEVELS"
    have "set (sl_links sl0 ! j) \<subseteq> set (base sl0)" 
      using linked_level [OF linked0 j] by (metis filter_is_subset)
    then have "place (node_key sl0) k n (sl_links sl0 ! j) = place (node_key sl) k n (sl_links sl0 ! j)"
      by (intro place_cong) (use key in auto)
    then show "sl_links sl ! j = (if j \<le> node_level sl n then place (node_key sl) k n (sl_links sl0 ! j) else sl_links sl0 ! j)"
      using links(2) [OF j] new by simp
  qed (use links(1) new levels in \<open>simp_all add: k_MAX_NUM_LEVELS_def\<close>)
  moreover have "distinct (base sl)" unfolding base using inv n by (simp add: sl_inv_def)
  moreover have "set (base sl) = dom (sl_nodes sl)" unfolding base using inv nodes by (simp add: sl_inv_def)
  moreover have "sl_length sl = length (base sl)" unfolding base using inv rest by (simp add: sl_inv_def)
  moreover have "node_level sl m \<le> sl_listLevel sl \<and> m < sl_fresh sl" if "m \<in> set (base sl)" for m
  proof (cases "m = n")
    case False
    then have m: "m \<in> set (base sl0)" using that unfolding base by simp
    then have "node_level sl0 m \<le> sl_listLevel sl0" "m < sl_fresh sl0" using inv unfolding sl_inv_def by blast+
    then show ?thesis using key(2) [OF m] levels(1) rest(2) by simp
  qed (use levels rest new in simp)
  ultimately have "sl_inv sl" using sorted levels unfolding sl_inv_def by blast
  moreover have "entries sl = insert_entry (k, n, nd_data node) (entries sl0)"
    unfolding entries_def base by (simp add: place_def insert_entry_def filter_map comp_def key new)
  ultimately show ?thesis by blast
qed

lemma k_MAX_NUM_LEVELS_less: "j < k_MAX_NUM_LEVELS \<longleftrightarrow> j \<le> k_MAX_LEVEL"
  by (auto simp: k_MAX_NUM_LEVELS_def)

lemma sl_invD:
  assumes "sl_inv sl"
  shows "linked (node_level sl) (sl_links sl)" "sorted (map (node_key sl) (base sl))" "distinct (base sl)"
    "set (base sl) = dom (sl_nodes sl)" "sl_length sl = length (base sl)" "sl_listLevel sl \<le> k_MAX_LEVEL"
    "n \<in> set (base sl) \<Longrightarrow> node_level sl n \<le> sl_listLevel sl" "n \<in> set (base sl) \<Longrightarrow> n < sl_fresh sl"
  using assms unfolding sl_inv_def by blast+

lemma sl_inv_level:
  assumes "sl_inv sl" and "j < k_MAX_NUM_LEVELS"
  shows "sorted (map (node_key sl) (sl_links sl ! j))" and "distinct (sl_links sl ! j)"
    and "set (sl_links sl ! j) \<subseteq> set (base sl)"
    and "sl_listLevel sl < j \<Longrightarrow> sl_links sl ! j = []"
proof -
  have eq: "sl_links sl ! j = filter (\<lambda>n. j \<le> node_level sl n) (base sl)"
    by (rule linked_level [OF sl_invD(1) [OF assms(1)] assms(2)])
  show "sorted (map (node_key sl) (sl_links sl ! j))" "distinct (sl_links sl ! j)"
    "set (sl_links sl ! j) \<subseteq> set (base sl)"
    unfolding eq using sl_invD(2,3) [OF assms(1)] by (auto intro: sorted_filter)
  show "sl_links sl ! j = []" if "sl_listLevel sl < j"
    unfolding eq using sl_invD(7) [OF assms(1)] that by (force simp: filter_empty_conv)
qed

text \<open>A node that is allocated and not yet linked does not disturb the search.\<close>

lemma lookups_allocated:
  assumes inv: "sl_inv sl" and n: "sl_nodes sl n = None"
    and sl1: "sl1 = sl\<lparr>sl_nodes := (sl_nodes sl)(n \<mapsto> node), sl_fresh := f\<rparr>"
  shows "lookupImpUpperBoundR sl1 k = map (bound (node_key sl) k) (take (Suc (sl_listLevel sl)) (sl_links sl))"
    and "lookupImpUpperBoundL sl1 k = map (bound (node_key sl) k) (take (Suc (sl_listLevel sl)) (sl_links sl))"
proof -
  have other: "m \<noteq> n" if "m \<in> set (base sl)" for m using that n sl_invD(4) [OF inv] by auto
  have nodes: "sl_nodes sl1 = (sl_nodes sl)(n \<mapsto> node)" using sl1 by simp
  have same: "node_key sl1 m = node_key sl m" "node_level sl m = node_level sl1 m" if "m \<in> set (base sl)" for m
    using node_add [OF other [OF that] nodes] by simp_all
  have keys: "map (node_key sl1) (base sl) = map (node_key sl) (base sl)" using same(1) by simp
  have linked: "linked (node_level sl1) (sl_links sl)"
    by (rule linked_cong [OF sl_invD(1) [OF inv]]) (use same(2) in blast)
  have bounds: "map (bound (node_key sl1) k) (take (Suc (sl_listLevel sl)) (sl_links sl)) =
      map (bound (node_key sl) k) (take (Suc (sl_listLevel sl)) (sl_links sl))"
  proof (rule map_cong [OF refl])
    fix xs
    assume "xs \<in> set (take (Suc (sl_listLevel sl)) (sl_links sl))"
    then obtain j where j: "j < k_MAX_NUM_LEVELS" "xs = sl_links sl ! j"
      using linked_length [OF linked] by (auto simp: in_set_conv_nth)
    then have "x \<in> set xs \<Longrightarrow> node_key sl1 x = node_key sl x" for x
      using sl_inv_level(3) [OF inv j(1)] same(1) by blast
    then show "bound (node_key sl1) k xs = bound (node_key sl) k xs" by (intro find_cong) auto
  qed
  have links: "sl_links sl1 = sl_links sl" "sl_listLevel sl1 = sl_listLevel sl" using sl1 by simp_all
  have "linked (node_level sl1) (sl_links sl1)" "sorted (map (node_key sl1) (base sl1))" "distinct (base sl1)"
    "sl_listLevel sl1 \<le> k_MAX_LEVEL"
    unfolding links keys by (fact linked sl_invD(2,3,6) [OF inv])+
  note found = lookups [OF this, of k]
  show "lookupImpUpperBoundR sl1 k = map (bound (node_key sl) k) (take (Suc (sl_listLevel sl)) (sl_links sl))"
    "lookupImpUpperBoundL sl1 k = map (bound (node_key sl) k) (take (Suc (sl_listLevel sl)) (sl_links sl))"
    using found bounds unfolding links by simp_all
qed

text \<open>The links that \<^const>\<open>insertImp\<close> makes.\<close>

lemma insert_links:
  assumes inv: "sl_inv sl" and l: "l \<le> Suc (sl_listLevel sl)" "l \<le> k_MAX_LEVEL"
    and location: "location = map (bound (node_key sl) k) (take (Suc (sl_listLevel sl)) (sl_links sl))"
    and links: "links = (if l > sl_listLevel sl then link_levels location n l ((sl_links sl)[l := [n]])
                         else link_levels location n (Suc l) (sl_links sl))"
    and j: "j < k_MAX_NUM_LEVELS"
  shows "links ! j = (if j \<le> l then place (node_key sl) k n (sl_links sl ! j) else sl_links sl ! j)"
proof -
  have len: "length (sl_links sl) = k_MAX_NUM_LEVELS" by (rule linked_length [OF sl_invD(1) [OF inv]])
  have here: "link_before (location ! i) n (sl_links sl ! i) = place (node_key sl) k n (sl_links sl ! i)"
    if "i \<le> sl_listLevel sl" for i
  proof -
    have "i < k_MAX_NUM_LEVELS" using that sl_invD(6) [OF inv] by (simp add: k_MAX_NUM_LEVELS_less)
    then show ?thesis
      using link_before_bound [OF sl_inv_level(1) [OF inv]] that len by (simp add: location)
  qed
  have l': "l < k_MAX_NUM_LEVELS" using l(2) by (simp add: k_MAX_NUM_LEVELS_less)
  show ?thesis
  proof (cases "l > sl_listLevel sl")
    case True
    then have "sl_links sl ! l = []" using sl_inv_level(4) [OF inv l'] by simp
    then show ?thesis
      using True l(1) l' j len here [of j] by (auto simp: links link_levels_nth nth_list_update place_def)
  next
    case False
    then show ?thesis using l' j len here [of j] by (auto simp: links link_levels_nth)
  qed
qed

lemma frontNode_hd: "frontNode sl = (if base sl = [] then None else Some (hd (base sl)))"
  by (simp add: frontNode_def split: list.split)

lemma hd_place:
  assumes "n \<notin> set xs"
  shows "hd (place key k n xs) = n \<longleftrightarrow> (\<forall>x\<in>set xs. k < key x)"
proof (cases "filter (\<lambda>x. key x \<le> k) xs")
  case Nil
  then show ?thesis by (auto simp: place_def filter_empty_conv not_le)
next
  case (Cons y ys)
  then have y: "y \<in> set xs" "key y \<le> k" by (auto simp: filter_eq_Cons_iff)
  then have "y \<noteq> n" "\<not> k < key y" using assms by auto
  then show ?thesis using y(1) Cons by (auto simp: place_def)
qed

lemma front_place:
  assumes "base sl = place (node_key sl0) k n (base sl0)" and "n \<notin> set (base sl0)"
  shows "frontNode sl = Some n \<longleftrightarrow> (\<forall>e\<in>set (entries sl0). k < fst e)"
proof -
  have "base sl \<noteq> []" using assms(1) by (metis list.set(1) insert_not_empty place_simps(1))
  then show ?thesis using hd_place [OF assms(2), of "node_key sl0" k] assms(1) by (auto simp: frontNode_hd entries_def)
qed

text \<open>
  Both additions give the same list, in which the new node follows the nodes whose keys are not greater, and report
  whether it is the first.
\<close>

lemma SkipList_add:
  assumes inv: "sl_inv sl" and level: "level \<le> k_MAX_LEVEL"
  obtains sl' where
    "SkipList_addR level k d sl = Some (sl_fresh sl, \<forall>e\<in>set (entries sl). k < fst e, sl')"
    "SkipList_addL level k d sl = Some (sl_fresh sl, \<forall>e\<in>set (entries sl). k < fst e, sl')"
    "sl_inv sl'" "entries sl' = insert_entry (k, sl_fresh sl, d) (entries sl)" "sl_fresh sl' = Suc (sl_fresh sl)"
proof -
  let ?l = "if level > sl_listLevel sl then sl_listLevel sl + 1 else level" and ?n = "sl_fresh sl"
  let ?node = "\<lparr>nd_level = ?l, nd_data = d, nd_key = k\<rparr>"
  let ?sl1 = "sl\<lparr>sl_nodes := (sl_nodes sl)(?n \<mapsto> ?node), sl_fresh := ?n + 1\<rparr>"
  let ?loc = "map (bound (node_key sl) k) (take (Suc (sl_listLevel sl)) (sl_links sl))"
  let ?links = "if ?l > sl_listLevel sl then link_levels ?loc ?n ?l ((sl_links sl)[?l := [?n]])
                else link_levels ?loc ?n (Suc ?l) (sl_links sl)"
  define sl' where "sl' = ?sl1\<lparr>sl_listLevel := max (sl_listLevel sl) ?l, sl_links := ?links, sl_length := sl_length sl + 1\<rparr>"
  have l: "?l \<le> Suc (sl_listLevel sl)" "?l \<le> k_MAX_LEVEL" using level by auto
  have fresh: "sl_nodes sl ?n = None" using sl_invD(4,8) [OF inv] by blast
  have links: "sl_links sl' ! j = (if j \<le> ?l then place (node_key sl) k ?n (sl_links sl ! j) else sl_links sl ! j)"
    if "j < k_MAX_NUM_LEVELS" for j
    using insert_links [where n = ?n and k = k, OF inv l refl refl that] by (simp add: sl'_def)
  have "sl_inv sl' \<and> entries sl' = insert_entry (k, ?n, nd_data ?node) (entries sl)"
    by (rule sl_inv_place [OF inv fresh _ _ _ _ _ _ _ ])
      (use links level sl_invD(6) [OF inv] linked_length [OF sl_invD(1) [OF inv]] in \<open>auto simp: sl'_def\<close>)
  moreover have "frontNode sl' = Some ?n \<longleftrightarrow> (\<forall>e\<in>set (entries sl). k < fst e)"
    by (rule front_place) (use links [of 0] sl_invD(8) [OF inv, of ?n] in \<open>auto simp: k_MAX_NUM_LEVELS_def\<close>)
  moreover have "insertImp ?loc ?n ?sl1 = Some (frontNode sl' = Some ?n, sl')"
    by (simp add: insertImp_def sl'_def node_level_def frontNode_def)
  moreover have "sl_fresh sl' = Suc ?n" by (simp add: sl'_def)
  ultimately show ?thesis
    using that lookups_allocated [where k = k and node = ?node and f = "?n + 1", OF inv fresh refl]
    by (simp add: SkipList_addR_def SkipList_addL_def allocateNode_def Let_def)
qed

subsection \<open>Removal\<close>

text \<open>The list without a node: what \<^const>\<open>SkipList_remove\<close> leaves.\<close>

definition without :: "node_ref \<Rightarrow> ('k, 'd) SkipList \<Rightarrow> ('k, 'd) SkipList" where
  "without n sl = sl\<lparr>sl_links := map (remove1 n) (sl_links sl), sl_length := sl_length sl - 1,
                    sl_nodes := (sl_nodes sl)(n := None)\<rparr>"

lemma node_without [simp]:
  assumes "m \<noteq> n"
  shows "node_key (without n sl) m = node_key sl m" and "node_level (without n sl) m = node_level sl m"
    and "node_data (without n sl) m = node_data sl m"
  using assms by (simp_all add: without_def node_key_def node_level_def node_data_def)

lemma base_without:
  assumes "sl_inv sl"
  shows "base (without n sl) = remove1 n (base sl)"
  using linked_length [OF sl_invD(1) [OF assms]] by (simp add: without_def k_MAX_NUM_LEVELS_def)

lemma without_inv:
  assumes inv: "sl_inv sl" and n: "n \<in> dom (sl_nodes sl)"
  shows "sl_inv (without n sl) \<and> entries (without n sl) = filter (\<lambda>e. fst (snd e) \<noteq> n) (entries sl)"
proof -
  have base: "base (without n sl) = filter (\<lambda>m. m \<noteq> n) (base sl)"
    using base_without [OF inv, of n] sl_invD(3) [OF inv] 
    by (simp add: distinct_remove1_removeAll removeAll_filter_not_eq eq_commute [of n])
  have nb: "n \<in> set (base sl)" using sl_invD(4) [OF inv] n by blast
  have "linked (node_level (without n sl)) (sl_links (without n sl))" unfolding linked_def
  proof (intro conjI allI impI)
    show "length (sl_links (without n sl)) = k_MAX_NUM_LEVELS"
      using linked_length [OF sl_invD(1) [OF inv]] by (simp add: without_def)
    fix j assume j: "j < k_MAX_NUM_LEVELS"
    have eq: "sl_links sl ! j = filter (\<lambda>m. j \<le> node_level sl m) (base sl)"
      by (rule linked_level [OF sl_invD(1) [OF inv] j])
    have "sl_links (without n sl) ! j = remove1 n (sl_links sl ! j)"
      using j linked_length [OF sl_invD(1) [OF inv]] by (simp add: without_def)
    also have "\<dots> = filter (\<lambda>m. j \<le> node_level sl m) (base (without n sl))"
      unfolding eq base_without [OF inv] by (simp add: filter_remove1)
    also have "\<dots> = filter (\<lambda>m. j \<le> node_level (without n sl) m) (base (without n sl))"
      by (rule filter_cong) (auto simp: base)
    finally show "sl_links (without n sl) ! j = filter (\<lambda>m. j \<le> node_level (without n sl) m) (base (without n sl))" .
  qed
  moreover have "map (node_key (without n sl)) (base (without n sl)) = map (node_key sl) (base (without n sl))"
    unfolding base by simp
  then have "sorted (map (node_key (without n sl)) (base (without n sl)))"
    unfolding base using sorted_filter [OF sl_invD(2) [OF inv]] by metis
  moreover have "distinct (base (without n sl))" unfolding base using sl_invD(3) [OF inv] by simp
  moreover have "set (base (without n sl)) = dom (sl_nodes (without n sl))"
    unfolding base using sl_invD(4) [OF inv] by (auto simp: without_def)
  moreover have "sl_length (without n sl) = length (base (without n sl))"
    unfolding base_without [OF inv] using nb sl_invD(5) [OF inv] by (simp add: without_def length_remove1)
  moreover have "node_level (without n sl) m \<le> sl_listLevel (without n sl) \<and> m < sl_fresh (without n sl)"
    if "m \<in> set (base (without n sl))" for m
    using that sl_invD(7,8) [OF inv, of m] unfolding base by (auto simp: without_def node_level_def)
  moreover have "sl_listLevel (without n sl) \<le> k_MAX_LEVEL" using sl_invD(6) [OF inv] by (simp add: without_def)
  moreover have "entries (without n sl) = filter (\<lambda>e. fst (snd e) \<noteq> n) (entries sl)"
    unfolding entries_def base by (simp add: filter_map comp_def)
  ultimately show ?thesis unfolding sl_inv_def by blast
qed

lemma SkipList_remove_without:
  assumes inv: "sl_inv sl" and n: "n \<in> dom (sl_nodes sl)"
  shows "SkipList_remove n sl = Some (without n sl)"
proof -
  from n obtain node where node: "sl_nodes sl n = Some node" by auto
  have len: "length (sl_links sl) = k_MAX_NUM_LEVELS" by (rule linked_length [OF sl_invD(1) [OF inv]])
  have "n \<in> set (base sl)" using sl_invD(4) [OF inv] n by blast
  then have level: "Suc (nd_level node) \<le> k_MAX_NUM_LEVELS"
    using sl_invD(6) [OF inv] sl_invD(7) [OF inv, of n] node by (simp add: node_level_def k_MAX_NUM_LEVELS_def)
  have "unlink_levels n (Suc (nd_level node)) (sl_links sl) ! j = map (remove1 n) (sl_links sl) ! j"
    if "j < k_MAX_NUM_LEVELS" for j
  proof (cases "j \<le> nd_level node")
    case False
    then have "n \<notin> set (sl_links sl ! j)"
      unfolding linked_level [OF sl_invD(1) [OF inv] that] using node by (simp add: node_level_def)
    then show ?thesis using False level len that by (simp add: unlink_levels_nth remove1_idem)
  qed (use level len that in \<open>simp add: unlink_levels_nth\<close>)
  then have "unlink_levels n (Suc (nd_level node)) (sl_links sl) = map (remove1 n) (sl_links sl)"
    using len by (auto intro: nth_equalityI simp del: unlink_levels.simps)
  then show ?thesis using node by (simp add: SkipList_remove_def without_def del: unlink_levels.simps)
qed

lemma SkipList_removeAll_inv:
  assumes inv: "sl_inv sl"
  shows "sl_inv (snd (SkipList_removeAll sl)) \<and> entries (snd (SkipList_removeAll sl)) = []"
proof -
  let ?sl = "snd (SkipList_removeAll sl)"
  have len: "length (sl_links sl) = k_MAX_NUM_LEVELS" by (rule linked_length [OF sl_invD(1) [OF inv]])
  have links: "sl_links ?sl ! j = []" if "j < k_MAX_NUM_LEVELS" for j
    using sl_inv_level(4) [OF inv that] that len by (simp add: SkipList_removeAll_def nth_append del: replicate_Suc)
  then have base: "base ?sl = []" by (simp add: k_MAX_NUM_LEVELS_def)
  have "length (sl_links ?sl) = k_MAX_NUM_LEVELS"
    using len sl_invD(6) [OF inv] by (simp add: SkipList_removeAll_def k_MAX_NUM_LEVELS_def)
  then have "linked (node_level ?sl) (sl_links ?sl)"
    unfolding linked_def base using links by simp
  moreover have "dom (sl_nodes ?sl) = {}"
    using sl_invD(4) [OF inv] by (auto simp: SkipList_removeAll_def split: if_splits)
  moreover have "sl_length ?sl = 0" "sl_listLevel ?sl \<le> k_MAX_LEVEL"
    by (simp_all add: SkipList_removeAll_def)
  ultimately show ?thesis unfolding sl_inv_def entries_def base by simp
qed

lemma SkipList_initialize_inv: "sl_inv SkipList_initialize \<and> entries SkipList_initialize = []"
  by (simp add: sl_inv_def linked_def entries_def SkipList_initialize_def k_MAX_NUM_LEVELS_def del: replicate_Suc)

subsection \<open>Movement\<close>

text \<open>
  A node is in place on a level when the first node with a greater key is the node itself, or the one behind it.
  It is then in place on the levels above too.
\<close>

lemma bound_remove1: "bound key k xs \<noteq> Some n \<Longrightarrow> bound key k (remove1 n xs) = bound key k xs"
  by (induction xs) (auto split: if_splits)

lemma place_split:
  assumes "\<forall>x\<in>set as. key x \<le> k" and "\<forall>x\<in>set bs. k < key x"
  shows "place key k n (as @ bs) = as @ n # bs"
proof -
  have "filter (\<lambda>x. key x \<le> k) as = as" "filter (\<lambda>x. key x \<le> k) bs = []"
    "filter (\<lambda>x. k < key x) as = []" "filter (\<lambda>x. k < key x) bs = bs"
    using assms by (auto simp: filter_id_conv filter_empty_conv)
  then show ?thesis by (simp add: place_def)
qed

lemma in_place:
  assumes xs: "sorted (map key xs)" "distinct xs" and n: "n \<in> set xs"
    and found: "bound key k xs = Some n \<or> (\<exists>ps. preceding (bound key k xs) xs = n # ps)"
  shows "place key k n (remove1 n xs) = xs"
proof -
  obtain as bs where split: "xs = as @ n # bs" "n \<notin> set as" using n by (auto dest: split_list_first)
  then have rest: "remove1 n xs = as @ bs" by (simp add: remove1_append)
  have "(\<forall>x\<in>set as. key x \<le> k) \<and> (\<forall>x\<in>set bs. k < key x)"
  proof (cases "bound key k xs")
    case None
    then have small: "\<forall>x\<in>set xs. key x \<le> k" by (auto simp: find_None_iff not_less)
    from None found obtain ps where "rev xs = n # ps" by (auto simp: preceding_def)
    then have "last xs = n" by (metis last_rev list.sel(1) rev_rev_ident hd_rev)
    then have "bs = []" using split xs(2) by (cases bs rule: rev_cases) auto
    then show ?thesis using small split by simp
  next
    case (Some q)
    then obtain cs ds where q: "xs = cs @ q # ds" "q \<notin> set cs" using bound_member [OF Some] by (auto dest: split_list_first)
    have ds: "\<forall>x\<in>set (q # ds). k < key x"
      using bound_member [OF Some] xs(1) unfolding q by (auto simp: sorted_append intro: less_le_trans)
    have cs: "\<forall>x\<in>set cs. key x \<le> k"
    proof -
      have "bound key k cs = None" using Some q(2) bound_member [of k key cs] unfolding q(1)
        by (auto simp: find_append split: option.splits)
      then show ?thesis by (auto simp: find_None_iff not_less)
    qed
    from found show ?thesis
    proof
      assume "bound key k xs = Some n"
      then have "q = n" using Some by simp
      then have "as = cs" "bs = ds" using split q xs(2) append_Cons_eq_iff [of n as bs cs ds] by auto
      then show ?thesis using cs ds by simp
    next
      assume "\<exists>ps. preceding (bound key k xs) xs = n # ps"
      then obtain ps where "rev cs = n # ps" using Some q by (auto simp: preceding_def takeWhile_neq)
      then have "cs = rev ps @ [n]" by (metis rev.simps(2) rev_rev_ident)
      then have "as = rev ps" "bs = q # ds"
        using split q xs(2) append_Cons_eq_iff [of n as bs "rev ps" "q # ds"] by auto
      then show ?thesis using cs ds \<open>cs = rev ps @ [n]\<close> by simp
    qed
  qed
  then show ?thesis using place_split [of as key k bs n] rest split by simp
qed

text \<open>The links that \<^const>\<open>moveImp\<close> makes: on each level the node is where its new key belongs.\<close>

lemma move_levels_length [simp]: "length (move_levels location n k c links) = length links"
  by (induction c arbitrary: k links) (simp_all add: Let_def)

lemma move_levels_nth:
  assumes "\<And>j. k \<le> j \<Longrightarrow> j < k + c \<Longrightarrow>
      j < length links \<and> location ! j = bound key x (links ! j) \<and> n \<in> set (links ! j) \<and>
      sorted (map key (links ! j)) \<and> distinct (links ! j)"
    and "\<And>i j. k \<le> i \<Longrightarrow> i \<le> j \<Longrightarrow> j < k + c \<Longrightarrow> links ! j = filter (P j) (links ! i) \<and> P j n"
    and "j < length links"
  shows "move_levels location n k c links ! j =
    (if k \<le> j \<and> j < k + c then place key x n (remove1 n (links ! j)) else links ! j)"
  using assms
proof (induction c arbitrary: k links)
  case (Suc c)
  let ?q = "location ! k" and ?xs = "links ! k"
  have here: "k < length links" "?q = bound key x ?xs" "n \<in> set ?xs" "sorted (map key ?xs)" "distinct ?xs"
    using Suc.prems(1) [of k] by simp_all
  show ?case
  proof (cases "?q = Some n \<or> (\<exists>ps. preceding ?q ?xs = n # ps)")
    case True
    have k: "place key x n (remove1 n ?xs) = ?xs" by (rule in_place) (use here True in auto)
    have "place key x n (remove1 n (links ! j)) = links ! j" if "k \<le> j" "j < k + Suc c"
    proof -
      have eq: "links ! j = filter (P j) ?xs" and P: "P j n" using Suc.prems(2) [of k j] that by auto
      show ?thesis unfolding eq using arg_cong [OF k, of "filter (P j)"] P by (simp add: filter_place filter_remove1)
    qed
    moreover have "move_levels location n k (Suc c) links = links"
      using True by (auto simp: Let_def split: list.split)
    ultimately show ?thesis by simp
  next
    case False
    let ?links = "links[k := link_before ?q n (remove1 n ?xs)]"
    have "?q = bound key x (remove1 n ?xs)" using False here(2) bound_remove1 [of x key ?xs n] by auto
    moreover have "sorted (map key (remove1 n ?xs))" using here(4) by (rule sorted_map_remove1)
    ultimately have new: "link_before ?q n (remove1 n ?xs) = place key x n (remove1 n ?xs)"
      using link_before_bound by metis
    have "move_levels location n (Suc k) c ?links ! j =
      (if Suc k \<le> j \<and> j < Suc k + c then place key x n (remove1 n (?links ! j)) else ?links ! j)"
    proof (rule Suc.IH)
      fix j assume "Suc k \<le> j" "j < Suc k + c"
      then show "j < length ?links \<and> location ! j = bound key x (?links ! j) \<and> n \<in> set (?links ! j) \<and>
        sorted (map key (?links ! j)) \<and> distinct (?links ! j)"
        using Suc.prems(1) [of j] by simp
    next
      fix i j assume "Suc k \<le> i" "i \<le> j" "j < Suc k + c"
      then have "links ! j = filter (P j) (links ! i) \<and> P j n" "k \<noteq> j" "k \<noteq> i" using Suc.prems(2) [of i j] by auto
      then show "?links ! j = filter (P j) (?links ! i) \<and> P j n" by simp
    qed (use Suc.prems(3) in simp)
    moreover have "move_levels location n k (Suc c) links = move_levels location n (Suc k) c ?links"
      using False by (auto simp: Let_def split: list.split)
    ultimately show ?thesis using new here(1) by (auto simp: nth_list_update)
  qed
qed auto

lemma move_links:
  assumes inv: "sl_inv sl" and n: "n \<in> set (base sl)" and j: "j < k_MAX_NUM_LEVELS"
  shows "move_levels (map (bound (node_key sl) x) (take (Suc (sl_listLevel sl)) (sl_links sl)))
      n 0 (Suc (node_level sl n)) (sl_links sl) ! j =
    (if j \<le> node_level sl n then place (node_key (without n sl)) x n (sl_links (without n sl) ! j)
     else sl_links (without n sl) ! j)"
proof -
  let ?loc = "map (bound (node_key sl) x) (take (Suc (sl_listLevel sl)) (sl_links sl))" and ?l = "node_level sl n"
  have len: "length (sl_links sl) = k_MAX_NUM_LEVELS" by (rule linked_length [OF sl_invD(1) [OF inv]])
  have level: "?l \<le> sl_listLevel sl" "?l < k_MAX_NUM_LEVELS"
    using sl_invD(6) [OF inv] sl_invD(7) [OF inv n] by (simp_all add: k_MAX_NUM_LEVELS_less)
  have eq: "sl_links sl ! j = filter (\<lambda>m. j \<le> node_level sl m) (base sl)" if "j < k_MAX_NUM_LEVELS" for j
    by (rule linked_level [OF sl_invD(1) [OF inv] that])
  have "move_levels ?loc n 0 (Suc ?l) (sl_links sl) ! j = (if 0 \<le> j \<and> j < 0 + Suc ?l
      then place (node_key sl) x n (remove1 n (sl_links sl ! j)) else sl_links sl ! j)"
  proof (rule move_levels_nth [where P = "\<lambda>j m. j \<le> node_level sl m"])
    fix j assume j: "j < 0 + Suc ?l"
    then have j': "j < k_MAX_NUM_LEVELS" using level by simp
    have "n \<in> set (sl_links sl ! j)" unfolding eq [OF j'] using j n by simp
    then show "j < length (sl_links sl) \<and> ?loc ! j = bound (node_key sl) x (sl_links sl ! j) \<and>
        n \<in> set (sl_links sl ! j) \<and> sorted (map (node_key sl) (sl_links sl ! j)) \<and> distinct (sl_links sl ! j)"
      using sl_inv_level(1,2) [OF inv j'] j' len j level by simp
  next
    fix i j assume ij: "i \<le> j" "j < 0 + Suc ?l"
    then have j: "j < k_MAX_NUM_LEVELS" "i < k_MAX_NUM_LEVELS" using level by simp_all
    show "sl_links sl ! j = filter (\<lambda>m. j \<le> node_level sl m) (sl_links sl ! i) \<and> j \<le> node_level sl n"
      unfolding eq [OF j(1)] eq [OF j(2)] using ij by (auto simp: filter_filter intro: filter_cong)
  qed (use j len in simp)
  moreover have "place (node_key sl) x n (remove1 n (sl_links sl ! j)) =
      place (node_key (without n sl)) x n (remove1 n (sl_links sl ! j))"
    by (rule place_cong) (use sl_inv_level(2) [OF inv j] in auto)
  moreover have "n \<notin> set (sl_links sl ! j)" if "\<not> j \<le> ?l" unfolding eq [OF j] using that by simp
  ultimately show ?thesis using j len by (simp add: without_def remove1_idem)
qed

text \<open>An update moves the node behind the others whose keys are not greater, whatever its level.\<close>

lemma SkipList_updateR_move:
  assumes inv: "sl_inv sl" and node: "sl_nodes sl n = Some node"
  obtains sl' where
    "SkipList_updateR n x sl = Some (\<forall>e\<in>set (entries (without n sl)). x < fst e, sl')"
    "sl_inv sl'" "entries sl' = insert_entry (x, n, nd_data node) (entries (without n sl))" "sl_fresh sl' = sl_fresh sl"
proof -
  let ?node = "node\<lparr>nd_key := x\<rparr>" and ?sl0 = "without n sl"
  let ?loc = "map (bound (node_key sl) x) (take (Suc (sl_listLevel sl)) (sl_links sl))"
  let ?links = "move_levels ?loc n 0 (Suc (node_level sl n)) (sl_links sl)"
  define sl' where "sl' = sl\<lparr>sl_nodes := (sl_nodes sl)(n \<mapsto> ?node), sl_links := ?links\<rparr>"
  have len: "length (sl_links sl) = k_MAX_NUM_LEVELS" by (rule linked_length [OF sl_invD(1) [OF inv]])
  have n: "n \<in> dom (sl_nodes sl)" "n \<in> set (base sl)" using node sl_invD(4) [OF inv] by auto
  have level: "node_level sl n = nd_level node" "nd_level node \<le> sl_listLevel sl"
    using sl_invD(7) [OF inv n(2)] node by (simp_all add: node_level_def)
  have links: "sl_links sl' ! j = (if j \<le> nd_level ?node then place (node_key ?sl0) x n (sl_links ?sl0 ! j)
      else sl_links ?sl0 ! j)" if "j < k_MAX_NUM_LEVELS" for j
    using move_links [OF inv n(2) that, of x] level(1) by (simp add: sl'_def del: move_levels.simps)
  have rest: "sl_nodes sl' = (sl_nodes ?sl0)(n \<mapsto> ?node)" "sl_nodes ?sl0 n = None" "nd_key ?node = x"
    "sl_listLevel ?sl0 \<le> sl_listLevel sl'" "nd_level ?node \<le> sl_listLevel sl'" "sl_listLevel sl' \<le> k_MAX_LEVEL"
    "length (sl_links sl') = k_MAX_NUM_LEVELS" "sl_length sl' = Suc (sl_length ?sl0)" "sl_fresh ?sl0 \<le> sl_fresh sl'"
    "n < sl_fresh sl'"
    using level(2) sl_invD(5,6) [OF inv] sl_invD(8) [OF inv n(2)] len length_pos_if_in_set [OF n(2)]
    by (simp_all add: sl'_def without_def del: move_levels.simps)
  have "sl_inv sl' \<and> entries sl' = insert_entry (x, n, nd_data ?node) (entries ?sl0)"
    by (rule sl_inv_place) (use without_inv [OF inv n(1)] links rest in blast)+
  moreover have "frontNode sl' = Some n \<longleftrightarrow> (\<forall>e\<in>set (entries ?sl0). x < fst e)"
    by (rule front_place) (use links [of 0] base_without [OF inv, of n] sl_invD(3) [OF inv] in
        \<open>simp_all add: k_MAX_NUM_LEVELS_def\<close>)
  moreover have "SkipList_updateR n x sl = Some (frontNode sl' = Some n, sl')"
    using lookups(1) [OF sl_invD(1,2,3,6) [OF inv], of x] node level
    by (simp add: SkipList_updateR_def moveImp_def sl'_def node_level_def Let_def frontNode_def del: move_levels.simps)
  moreover have "sl_fresh sl' = sl_fresh sl" by (simp add: sl'_def)
  ultimately show ?thesis using that by simp
qed

subsection \<open>Refinement of an ordered list\<close>

text \<open>
  A component whose operations return a result or are refused, and the machine that specifies it: a run of operations
  has the results of the specification.
\<close>

fun op_run :: "('o \<Rightarrow> 's \<Rightarrow> ('r \<times> 's) option) \<Rightarrow> 'o list \<Rightarrow> 's \<Rightarrow> ('r list \<times> 's) option" where
  "op_run step [] s = Some ([], s)"
| "op_run step (op # ops) s =
     do { (r, s1) \<leftarrow> step op s; (rs, s2) \<leftarrow> op_run step ops s1; Some (r # rs, s2) }"

locale refined_machine =
  fixes step :: "'o \<Rightarrow> 's \<Rightarrow> ('r \<times> 's) option"
    and spec :: "'o \<Rightarrow> 'a \<Rightarrow> ('r \<times> 'a) option"
    and abs :: "'s \<Rightarrow> 'a"
    and inv :: "'s \<Rightarrow> bool"
    and permitted :: "'o \<Rightarrow> bool"
  assumes simulation: "inv s \<Longrightarrow> permitted op \<Longrightarrow> map_option (map_prod id abs) (step op s) = spec op (abs s)"
    and preserved: "inv s \<Longrightarrow> permitted op \<Longrightarrow> step op s = Some (r, s') \<Longrightarrow> inv s'"
begin

lemma run_refines:
  "inv s \<Longrightarrow> \<forall>op\<in>set ops. permitted op \<Longrightarrow>
   map_option (map_prod id abs) (op_run step ops s) = op_run spec ops (abs s)"
proof (induction ops arbitrary: s)
  case (Cons op ops)
  note here = simulation [OF Cons.prems(1), of op]
  show ?case
  proof (cases "step op s")
    case None
    then have "spec op (abs s) = None" using here Cons.prems(2) by simp
    then show ?thesis using None by simp
  next
    case (Some p)
    obtain r s1 where p: "p = (r, s1)" by fastforce
    have spec: "spec op (abs s) = Some (r, abs s1)" using here Cons.prems(2) Some p by simp
    have "inv s1" using preserved [OF Cons.prems(1), of op r s1] Cons.prems(2) Some p by simp
    then have "op_run spec ops (abs s1) = map_option (map_prod id abs) (op_run step ops s1)"
      by (rule Cons.IH [symmetric]) (use Cons.prems(2) in simp)
    then show ?thesis using Some p spec by (cases "op_run step ops s1") auto
  qed
qed simp

lemma run_preserved:
  "inv s \<Longrightarrow> \<forall>op\<in>set ops. permitted op \<Longrightarrow> op_run step ops s = Some (rs, s') \<Longrightarrow> inv s'"
proof (induction ops arbitrary: s rs)
  case (Cons op ops)
  then obtain r s1 rs1 where s: "step op s = Some (r, s1)" "op_run step ops s1 = Some (rs1, s')"
    by (auto simp: bind_eq_Some_conv)
  show ?case by (rule Cons.IH [OF _ _ s(2)]) (use preserved [OF Cons.prems(1) _ s(1)] Cons.prems(2) in auto)
qed simp

end

text \<open>The operations of the skip list, and what they do to the list of its entries.\<close>

datatype ('k, 'd) map_op =
  Op_addL nat 'k 'd
| Op_addR nat 'k 'd
| Op_updateR node_ref 'k
| Op_remove node_ref
| Op_removeAll
| Op_front
| Op_skipForward node_ref

datatype map_result = Added node_ref bool | Moved bool | Removed | Cleared nat | Reference "node_ref option"

fun skip_step :: "('k::linorder, 'd) map_op \<Rightarrow> ('k, 'd) SkipList \<Rightarrow> (map_result \<times> ('k, 'd) SkipList) option" where
  "skip_step (Op_addL l k d) sl = map_option (\<lambda>(n, b, sl1). (Added n b, sl1)) (SkipList_addL l k d sl)"
| "skip_step (Op_addR l k d) sl = map_option (\<lambda>(n, b, sl1). (Added n b, sl1)) (SkipList_addR l k d sl)"
| "skip_step (Op_updateR n k) sl = map_option (\<lambda>(b, sl1). (Moved b, sl1)) (SkipList_updateR n k sl)"
| "skip_step (Op_remove n) sl = map_option (\<lambda>sl1. (Removed, sl1)) (SkipList_remove n sl)"
| "skip_step Op_removeAll sl = (let (c, sl1) = SkipList_removeAll sl in Some (Cleared c, sl1))"
| "skip_step Op_front sl = Some (Reference (frontNode sl), sl)"
| "skip_step (Op_skipForward n) sl = map_option (\<lambda>q. (Reference q, sl)) (skipForward n sl)"

type_synonym ('k, 'd) ordered_list = "('k \<times> node_ref \<times> 'd) list \<times> node_ref"

abbreviation entry_ref :: "'k \<times> node_ref \<times> 'd \<Rightarrow> node_ref" where
  "entry_ref e \<equiv> fst (snd e)"

definition first_ref :: "('k \<times> node_ref \<times> 'd) list \<Rightarrow> node_ref option" where
  "first_ref es = (case es of [] \<Rightarrow> None | e # _ \<Rightarrow> Some (entry_ref e))"

fun list_step :: "('k::linorder, 'd) map_op \<Rightarrow> ('k, 'd) ordered_list \<Rightarrow> (map_result \<times> ('k, 'd) ordered_list) option" where
  "list_step (Op_addL l k d) (es, f) = Some (Added f (\<forall>e\<in>set es. k < fst e), insert_entry (k, f, d) es, Suc f)"
| "list_step (Op_addR l k d) (es, f) = Some (Added f (\<forall>e\<in>set es. k < fst e), insert_entry (k, f, d) es, Suc f)"
| "list_step (Op_updateR n k) (es, f) =
     (let others = filter (\<lambda>e. entry_ref e \<noteq> n) es
      in case find (\<lambda>e. entry_ref e = n) es of
           None \<Rightarrow> None
         | Some e \<Rightarrow> Some (Moved (\<forall>e\<in>set others. k < fst e), insert_entry (k, snd e) others, f))"
| "list_step (Op_remove n) (es, f) =
     (if n \<in> entry_ref ` set es then Some (Removed, filter (\<lambda>e. entry_ref e \<noteq> n) es, f) else None)"
| "list_step Op_removeAll (es, f) = Some (Cleared (length es), [], f)"
| "list_step Op_front (es, f) = Some (Reference (first_ref es), es, f)"
| "list_step (Op_skipForward n) (es, f) =
     (case dropWhile (\<lambda>e. entry_ref e \<noteq> n) es of
        [] \<Rightarrow> None
      | _ # later \<Rightarrow> Some (Reference (first_ref later), es, f))"

definition skip_abs :: "('k, 'd) SkipList \<Rightarrow> ('k, 'd) ordered_list" where
  "skip_abs sl = (entries sl, sl_fresh sl)"

fun op_level :: "('k, 'd) map_op \<Rightarrow> nat" where
  "op_level (Op_addL l k d) = l"
| "op_level (Op_addR l k d) = l"
| "op_level _ = 0"

lemma find_entry:
  "find (\<lambda>e. entry_ref e = n) (map (\<lambda>m. (f m, m, g m)) xs) = (if n \<in> set xs then Some (f n, n, g n) else None)"
  by (induction xs) auto

lemma entry_refs: "sl_inv sl \<Longrightarrow> entry_ref ` set (entries sl) = dom (sl_nodes sl)"
  using sl_invD(4) [of sl] by (auto simp: entries_def image_image)

lemma first_ref_entries: "first_ref (map (\<lambda>m. (f m, m, g m)) xs) = (case xs of [] \<Rightarrow> None | n # _ \<Rightarrow> Some n)"
  by (simp add: first_ref_def split: list.split)

text \<open>One operation does what the specification says, and keeps the invariant.\<close>

definition refines_step :: "('k::linorder, 'd) map_op \<Rightarrow> ('k, 'd) SkipList \<Rightarrow> bool" where
  "refines_step x sl \<longleftrightarrow> map_option (map_prod id skip_abs) (skip_step x sl) = list_step x (skip_abs sl) \<and>
     (\<forall>r sl'. skip_step x sl = Some (r, sl') \<longrightarrow> sl_inv sl')"

lemma refines_add:
  assumes inv: "sl_inv sl" and l: "l \<le> k_MAX_LEVEL"
  shows "refines_step (Op_addL l k d) sl" and "refines_step (Op_addR l k d) sl"
proof -
  obtain sl' where
    "SkipList_addR l k d sl = Some (sl_fresh sl, \<forall>e\<in>set (entries sl). k < fst e, sl')"
    "SkipList_addL l k d sl = Some (sl_fresh sl, \<forall>e\<in>set (entries sl). k < fst e, sl')"
    "sl_inv sl'" "entries sl' = insert_entry (k, sl_fresh sl, d) (entries sl)" "sl_fresh sl' = Suc (sl_fresh sl)"
    by (rule SkipList_add [OF inv l])
  then show "refines_step (Op_addL l k d) sl" "refines_step (Op_addR l k d) sl"
    by (simp_all add: refines_step_def skip_abs_def)
qed

lemma refines_updateR:
  assumes inv: "sl_inv sl"
  shows "refines_step (Op_updateR n k) sl"
proof (cases "sl_nodes sl n")
  case None
  then have "n \<notin> set (base sl)" using sl_invD(4) [OF inv] by auto
  then show ?thesis
    using None by (simp add: refines_step_def skip_abs_def SkipList_updateR_def entries_def find_entry)
next
  case (Some node)
  then have n: "n \<in> dom (sl_nodes sl)" "n \<in> set (base sl)" using sl_invD(4) [OF inv] by auto
  then have found: "find (\<lambda>e. entry_ref e = n) (entries sl) = Some (node_key sl n, n, nd_data node)"
    using Some by (simp add: entries_def find_entry node_data_def)
  have others: "entries (without n sl) = filter (\<lambda>e. entry_ref e \<noteq> n) (entries sl)"
    using without_inv [OF inv n(1)] by blast
  obtain sl' where "SkipList_updateR n k sl = Some (\<forall>e\<in>set (entries (without n sl)). k < fst e, sl')" "sl_inv sl'"
    "entries sl' = insert_entry (k, n, nd_data node) (entries (without n sl))" "sl_fresh sl' = sl_fresh sl"
    by (rule SkipList_updateR_move [OF inv Some])
  then show ?thesis using found others by (simp add: refines_step_def skip_abs_def)
qed

lemma refines_remove:
  assumes inv: "sl_inv sl"
  shows "refines_step (Op_remove n) sl"
proof (cases "n \<in> dom (sl_nodes sl)")
  case True
  then show ?thesis
    using SkipList_remove_without [OF inv True] without_inv [OF inv True] entry_refs [OF inv]
    by (simp add: refines_step_def skip_abs_def without_def)
next
  case False
  then show ?thesis using entry_refs [OF inv]
    by (auto simp: refines_step_def skip_abs_def SkipList_remove_def split: option.split)
qed

lemma refines_skipForward:
  assumes inv: "sl_inv sl"
  shows "refines_step (Op_skipForward n) sl"
proof (cases "n \<in> set (base sl)")
  case True
  then obtain as bs where "base sl = as @ n # bs" "n \<notin> set as" by (auto dest: split_list_first)
  then have rest: "dropWhile (\<lambda>m. m \<noteq> n) (base sl) = n # bs" by (simp add: dropWhile_neq)
  obtain node where node: "sl_nodes sl n = Some node" using True sl_invD(4) [OF inv] by auto
  have "dropWhile (\<lambda>e. entry_ref e \<noteq> n) (entries sl) = map (\<lambda>m. (node_key sl m, m, node_data sl m)) (n # bs)"
    unfolding rest [symmetric] by (simp add: entries_def dropWhile_map comp_def)
  then show ?thesis using inv rest node
    by (simp add: refines_step_def skip_abs_def skipForward_def following_def first_ref_entries)
next
  case False
  then have "sl_nodes sl n = None" "dropWhile (\<lambda>e. entry_ref e \<noteq> n) (entries sl) = []"
    using sl_invD(4) [OF inv] by (auto simp: dropWhile_eq_Nil_conv entries_def)
  then show ?thesis by (simp add: refines_step_def skip_abs_def skipForward_def del: dropWhile_eq_Nil_conv)
qed

lemma skip_simulation:
  assumes inv: "sl_inv sl" and level: "op_level x \<le> k_MAX_LEVEL"
  shows "refines_step x sl"
proof (cases x)
  case Op_removeAll
  then show ?thesis using SkipList_removeAll_inv [OF inv] sl_invD(5) [OF inv]
    by (simp add: refines_step_def skip_abs_def SkipList_removeAll_def entries_def)
next
  case Op_front
  then show ?thesis using inv by (simp add: refines_step_def skip_abs_def frontNode_def entries_def first_ref_entries)
qed (use level refines_add refines_updateR refines_remove refines_skipForward inv in simp_all)

interpretation skip_list: refined_machine
  skip_step list_step skip_abs sl_inv "\<lambda>x. op_level x \<le> k_MAX_LEVEL"
  using skip_simulation unfolding refines_step_def by unfold_locales blast+

lemma skip_abs_initialize: "skip_abs SkipList_initialize = ([], 0)"
  by (simp add: skip_abs_def SkipList_initialize_inv) (simp add: SkipList_initialize_def)

text \<open>
  Claim C11. Whatever the levels drawn for its nodes, a skip list does exactly what a sorted list of entries does:
  any sequence of additions from either end, updates, removals and traversals gives the same handles, reports a new
  front in the same cases, ends with the same entries in the same order, entries with equal keys in the order in which
  they were added or last updated, and is refused, for a node that is not in use, at the same operation.
\<close>

theorem skip_list_refines:
  assumes "\<forall>x\<in>set ops. op_level x \<le> k_MAX_LEVEL"
  shows "map_option (map_prod id skip_abs) (op_run skip_step ops SkipList_initialize) = op_run list_step ops ([], 0)"
  unfolding skip_abs_initialize [symmetric]
  by (rule skip_list.run_refines) (use SkipList_initialize_inv assms in blast)+

theorem skip_list_refines_witness:
  "map_option (map_prod id skip_abs)
     (op_run skip_step
        [Op_addR 1 (7::nat) CHR ''a'', Op_addL 0 3 CHR ''b'', Op_addR 5 7 CHR ''c'', Op_updateR 1 7, Op_front, Op_remove 0]
        SkipList_initialize) =
   Some ([Added 0 True, Added 1 True, Added 2 False, Moved False, Reference (Some 0), Removed],
         [(7, 2, CHR ''c''), (7, 1, CHR ''b'')], 3)"
  by (subst skip_list_refines) (simp_all add: k_MAX_LEVEL_def insert_entry_def first_ref_def Let_def)

text \<open>
  After any sequence of operations that is not refused, every level of the skip list holds exactly the
  nodes of at least its level, in ascending order of their keys; the nodes in use are the nodes linked; the length
  is their number; and the front, which exists unless the list is empty, has the least key.
\<close>

theorem skip_list_sound:
  assumes "\<forall>x\<in>set ops. op_level x \<le> k_MAX_LEVEL" and "op_run skip_step ops SkipList_initialize = Some (rs, sl)"
  shows "sl_inv sl \<and> sl_length sl = card (dom (sl_nodes sl)) \<and>
    (case frontNode sl of
       None \<Rightarrow> SkipList_isEmpty sl
     | Some n \<Rightarrow> n \<in> dom (sl_nodes sl) \<and> (\<forall>m\<in>dom (sl_nodes sl). node_key sl n \<le> node_key sl m))"
proof -
  have inv: "sl_inv sl" using skip_list.run_preserved [OF _ assms] SkipList_initialize_inv by blast
  moreover have "sl_length sl = card (dom (sl_nodes sl))"
    using sl_invD(3,5) [OF inv] by (simp add: sl_invD(4) [OF inv, symmetric] distinct_card)
  moreover have "case frontNode sl of None \<Rightarrow> SkipList_isEmpty sl
      | Some n \<Rightarrow> n \<in> set (base sl) \<and> (\<forall>m\<in>set (base sl). node_key sl n \<le> node_key sl m)"
    using sl_invD(2) [OF inv] by (auto simp: frontNode_def SkipList_isEmpty_def split: list.split)
  ultimately show ?thesis unfolding sl_invD(4) [OF inv] by blast
qed

theorem skip_list_sound_witness:
  "\<exists>rs sl. op_run skip_step [Op_addR 1 (7::nat) CHR ''a'', Op_addL 0 3 CHR ''b''] SkipList_initialize = Some (rs, sl) \<and>
     sl_inv sl \<and> sl_length sl = card (dom (sl_nodes sl))"
proof -
  let ?ops = "[Op_addR 1 (7::nat) CHR ''a'', Op_addL 0 3 CHR ''b'']"
  obtain rs sl where "op_run skip_step ?ops SkipList_initialize = Some (rs, sl)"
    by (simp add: SkipList_addR_def SkipList_addL_def insertImp_def allocateNode_def SkipList_initialize_def
        node_level_def Let_def)
  then show ?thesis using skip_list_sound [of ?ops rs sl] by (simp add: k_MAX_LEVEL_def)
qed

subsection \<open>Levels drawn at random\<close>

text \<open>
  \<open>bdlb::Random::generate15\<close>, which is given a seed and returns a number of 15 bits and the next seed, is an
  argument. The loop draws anew when only the sentinel bit is left, and ends at the first pair of bits that is not
  zero; a number of more than 15 bits fails the assertion of the code, which is \<^term>\<open>None\<close>.
\<close>

record SkipList_RandomLevelGenerator =
  rg_seed :: int
  rg_randomBits :: nat

definition SkipList_RandomLevelGenerator_init :: SkipList_RandomLevelGenerator where
  "SkipList_RandomLevelGenerator_init = \<lparr>rg_seed = 314159265, rg_randomBits = 1\<rparr>"

definition random_refill ::
  "(int \<Rightarrow> nat \<times> int) \<Rightarrow> SkipList_RandomLevelGenerator \<Rightarrow> SkipList_RandomLevelGenerator option" where
  "random_refill generate15 g =
     (if rg_randomBits g = 1
      then (case generate15 (rg_seed g) of
              (r, seed) \<Rightarrow>
                if r div 2 ^ 15 \<noteq> 0 then None
                else Some \<lparr>rg_seed = seed, rg_randomBits = (if r div 2 ^ 14 mod 2 = 1 then r else r + 2 ^ 14)\<rparr>)
      else Some g)"

partial_function (option) random_loop ::
  "(int \<Rightarrow> nat \<times> int) \<Rightarrow> nat \<Rightarrow> SkipList_RandomLevelGenerator \<Rightarrow> (nat \<times> SkipList_RandomLevelGenerator) option" where
  "random_loop generate15 level g =
     do { g1 \<leftarrow> random_refill generate15 g;
          let b = rg_randomBits g1 mod 4;
          let g2 = g1\<lparr>rg_randomBits := rg_randomBits g1 div 4\<rparr>;
          if b = 0 then random_loop generate15 (level + 1) g2 else Some (level, g2) }"

declare random_loop.simps [code]

definition randomLevel ::
  "(int \<Rightarrow> nat \<times> int) \<Rightarrow> SkipList_RandomLevelGenerator \<Rightarrow> (nat \<times> SkipList_RandomLevelGenerator) option" where
  "randomLevel generate15 g =
     map_option (\<lambda>(level, g1). (if level > k_MAX_LEVEL then k_MAX_LEVEL else level, g1)) (random_loop generate15 0 g)"

text \<open>
  The bits left are a sentinel bit above pairs of bits. Every level drawn is permitted, and the loop ends when the
  bits left have a pair that is not zero below the sentinel.
\<close>

lemma randomLevel_bounded: "randomLevel generate15 g = Some (level, g') \<Longrightarrow> level \<le> k_MAX_LEVEL"
  by (auto simp: randomLevel_def split: if_splits)

lemma random_loop_ends:
  "rg_randomBits g = 4 ^ q + r \<Longrightarrow> 0 < r \<Longrightarrow> r < 4 ^ q \<Longrightarrow> \<exists>l g'. random_loop generate15 level g = Some (l, g')"
proof (induction q arbitrary: level g r)
  case (Suc q)
  then have bits: "rg_randomBits g \<noteq> 1" "rg_randomBits g mod 4 = r mod 4" "rg_randomBits g div 4 = 4 ^ q + r div 4" by auto
  show ?case
  proof (cases "r mod 4 = 0")
    case True
    have "\<exists>l g'. random_loop generate15 (level + 1) (g\<lparr>rg_randomBits := rg_randomBits g div 4\<rparr>) = Some (l, g')"
      by (rule Suc.IH [of _ "r div 4"]) (use bits(3) True Suc.prems in auto)
    then show ?thesis using True bits(1,2) by (subst random_loop.simps) (simp add: random_refill_def Let_def)
  qed (use bits(1,2) in \<open>subst random_loop.simps, simp add: random_refill_def Let_def\<close>)
qed simp

lemma randomLevel_returns:
  assumes "rg_randomBits g = 1" and "generate15 (rg_seed g) = (r, seed)" and "r < 2 ^ 15" and "r mod 2 ^ 14 \<noteq> 0"
  shows "\<exists>level g'. randomLevel generate15 g = Some (level, g') \<and> level \<le> k_MAX_LEVEL"
proof -
  let ?g = "\<lparr>rg_seed = seed, rg_randomBits = 4 ^ 7 + r mod 2 ^ 14\<rparr>"
  have "random_refill generate15 g = Some ?g"
  proof (cases "r < 2 ^ 14")
    case False
    then have "r div 2 ^ 14 = 1" using assms(3) by (auto simp: div_nat_eqI)
    then have "r = 4 ^ 7 + r mod 2 ^ 14" using div_mult_mod_eq [of r "2 ^ 14"] by simp
    then show ?thesis using assms \<open>r div 2 ^ 14 = 1\<close> by (simp add: random_refill_def)
  qed (use assms in \<open>simp add: random_refill_def\<close>)
  moreover have "random_refill generate15 ?g = Some ?g" by (simp add: random_refill_def)
  ultimately have "random_loop generate15 0 g = random_loop generate15 0 ?g"
    by (simp add: random_loop.simps [of generate15 0])
  moreover have "\<exists>l g'. random_loop generate15 0 ?g = Some (l, g')"
    by (rule random_loop_ends [of _ 7 "r mod 2 ^ 14"]) (use assms(4) in auto)
  ultimately obtain l g' where "random_loop generate15 0 g = Some (l, g')" by auto
  then have "randomLevel generate15 g = Some (min l k_MAX_LEVEL, g')" by (auto simp: randomLevel_def)
  then show ?thesis by auto
qed

end
