(* ===== verification/Chronology.thy ===== *)
theory Chronology
  imports Timer_Options Skip_List
begin

section \<open>Timers and deferred functions\<close>

text \<open>
  This theory models \<open>ntcs::Chronology\<close> and \<open>ntcs::Chronology::Timer\<close> (\<open>ntcs_chronology.h\<close>, \<open>ntcs_chronology.cpp\<close>):
  the timers of a driver, ordered by their deadlines in a skip list, and the queue of functions deferred to it.
  A timer is the number of its node in the catalog. It is counted by its references, and disposed of with the last one;
  \<open>tm_held\<close> is the part of them held outside of the chronology. An access to a timer that has been disposed of, or to
  a node of the skip list that has been released, is \<^term>\<open>None\<close>. The function calls of an operation run
  under the lock of the chronology or touch only the timer, so that an operation is one step.

  What the user does in a callback, in a session or in a deferred function is a list of operations on the
  chronology, which the environment gives for each event announced; an operation on a timer that
  no longer exists is none, since no one can have a pointer to it. An event for a session whose strand is not
  the current one is recorded as handed to the strand, which keeps a reference to the timer.
\<close>

type_synonym session_ref = nat

datatype TimerState = e_STATE_WAITING | e_STATE_SCHEDULED | e_STATE_CLOSED

record 't Timer =
  tm_options :: "'t TimerOptions"
  tm_callback :: "callback_ref option"
  tm_session :: "session_ref option"
  tm_period :: 't
  tm_state :: TimerState
  tm_handle :: "node_ref option"
  tm_refs :: nat
  tm_held :: nat

datatype Functor =
  Fn_user nat
| Fn_CallbackCancelled timer_ref callback_ref
| Fn_SessionCancelled timer_ref session_ref
| Fn_CallbackClosed timer_ref callback_ref
| Fn_SessionClosed timer_ref session_ref
| Fn_CallbackCancelledAndClosed timer_ref callback_ref
| Fn_SessionCancelledAndClosed timer_ref session_ref

fun functor_timer :: "Functor \<Rightarrow> timer_ref option" where
  "functor_timer (Fn_user k) = None"
| "functor_timer (Fn_CallbackCancelled n c) = Some n"
| "functor_timer (Fn_SessionCancelled n s) = Some n"
| "functor_timer (Fn_CallbackClosed n c) = Some n"
| "functor_timer (Fn_SessionClosed n s) = Some n"
| "functor_timer (Fn_CallbackCancelledAndClosed n c) = Some n"
| "functor_timer (Fn_SessionCancelledAndClosed n s) = Some n"

datatype recipient = To_callback callback_ref | To_session session_ref | To_strand session_ref

type_synonym 't announcement = "recipient \<times> timer_ref \<times> 't TimerEvent"

record 't Chronology =
  ch_nodeArray :: "timer_ref list"
  ch_nodeFree :: "timer_ref list"
  ch_nodeCount :: nat
  ch_timers :: "timer_ref \<rightharpoonup> 't Timer"
  ch_deadlineMap :: "(int, timer_ref) SkipList"
  ch_deadlineMapEmpty :: bool
  ch_deadlineMapEarliest :: int
  ch_functorQueue :: "Functor list"
  ch_functorQueueEmpty :: bool
  ch_interrupts :: nat
  ch_log :: "'t announcement list"

datatype 't user_op =
  U_createCallback "'t TimerOptions" callback_ref
| U_createSession "'t TimerOptions" session_ref
| U_copy timer_ref
| U_release timer_ref
| U_schedule nat timer_ref 't 't
| U_cancel timer_ref
| U_close timer_ref
| U_execute nat
| U_moveAndExecute "nat list" "nat option"

record 't environment =
  ev_now :: 't
  ev_exactlyNow :: "timer_ref \<Rightarrow> 't"
  ev_passthrough :: "session_ref \<Rightarrow> bool"
  ev_randMax :: nat
  ev_drawn :: "timer_ref \<Rightarrow> nat"
  ev_react :: "'t announcement \<Rightarrow> 't user_op list"
  ev_call :: "nat \<Rightarrow> 't user_op list"

definition llong_max_int :: int where
  "llong_max_int = 9223372036854775807"

definition k_MAX_TIME_INTERVAL :: "'t interval_library \<Rightarrow> 't" where
  "k_MAX_TIME_INTERVAL I =
     ti_make (il_time I) (llong_max_int div 1000000) (llong_max_int mod 1000000 * 1000 + 999)"

definition Chronology_init :: "'t Chronology" where
  "Chronology_init =
     \<lparr>ch_nodeArray = [], ch_nodeFree = [], ch_nodeCount = 0, ch_timers = (\<lambda>_. None),
      ch_deadlineMap = SkipList_initialize, ch_deadlineMapEmpty = True, ch_deadlineMapEarliest = 0,
      ch_functorQueue = [], ch_functorQueueEmpty = True, ch_interrupts = 0, ch_log = []\<rparr>"

subsection \<open>References and the catalog of timers\<close>

definition set_timer :: "timer_ref \<Rightarrow> 't Timer \<Rightarrow> 't Chronology \<Rightarrow> 't Chronology" where
  "set_timer n t ch = ch\<lparr>ch_timers := (ch_timers ch)(n \<mapsto> t)\<rparr>"

definition acquireRef :: "timer_ref \<Rightarrow> 't Chronology \<Rightarrow> 't Chronology option" where
  "acquireRef n ch =
     (case ch_timers ch n of None \<Rightarrow> None | Some t \<Rightarrow> Some (set_timer n (t\<lparr>tm_refs := tm_refs t + 1\<rparr>) ch))"

definition disposeRep :: "timer_ref \<Rightarrow> 't Chronology \<Rightarrow> 't Chronology" where
  "disposeRep n ch =
     ch\<lparr>ch_timers := (ch_timers ch)(n := None), ch_nodeFree := n # ch_nodeFree ch, ch_nodeCount := ch_nodeCount ch - 1\<rparr>"

definition releaseRef :: "timer_ref \<Rightarrow> 't Chronology \<Rightarrow> 't Chronology option" where
  "releaseRef n ch =
     (case ch_timers ch n of
        None \<Rightarrow> None
      | Some t \<Rightarrow>
          Some (if tm_refs t \<le> 1 then disposeRep n ch else set_timer n (t\<lparr>tm_refs := tm_refs t - 1\<rparr>) ch))"

fun releaseRefs :: "timer_ref list \<Rightarrow> 't Chronology \<Rightarrow> 't Chronology option" where
  "releaseRefs [] ch = Some ch"
| "releaseRefs (n # ns) ch = do { ch1 \<leftarrow> releaseRef n ch; releaseRefs ns ch1 }"

definition Timer_init ::
  "'t interval_library \<Rightarrow> 't TimerOptions \<Rightarrow> callback_ref option \<Rightarrow> session_ref option \<Rightarrow> 't Timer" where
  "Timer_init I opts callback session =
     \<lparr>tm_options = opts, tm_callback = callback, tm_session = session, tm_period = il_zero I,
      tm_state = e_STATE_WAITING, tm_handle = None, tm_refs = 1, tm_held = 1\<rparr>"

definition privateNodeAllocate :: "'t Chronology \<Rightarrow> timer_ref \<times> 't Chronology" where
  "privateNodeAllocate ch = (let n = length (ch_nodeArray ch) in (n, ch\<lparr>ch_nodeArray := ch_nodeArray ch @ [n]\<rparr>))"

definition takeNode :: "'t Chronology \<Rightarrow> timer_ref \<times> 't Chronology" where
  "takeNode ch =
     (let (n, ch1) = (case ch_nodeFree ch of
                        n # ns \<Rightarrow> (n, ch\<lparr>ch_nodeFree := ns\<rparr>)
                      | [] \<Rightarrow> privateNodeAllocate ch)
      in (n, ch1\<lparr>ch_nodeCount := ch_nodeCount ch1 + 1\<rparr>))"

definition createTimer_session ::
  "'t interval_library \<Rightarrow> 't TimerOptions \<Rightarrow> session_ref \<Rightarrow> 't Chronology \<Rightarrow> timer_ref \<times> 't Chronology" where
  "createTimer_session I opts session ch =
     (let (n, ch1) = takeNode ch in (n, set_timer n (Timer_init I opts None (Some session)) ch1))"

definition createTimer_callback ::
  "'t interval_library \<Rightarrow> 't TimerOptions \<Rightarrow> callback_ref \<Rightarrow> 't Chronology \<Rightarrow> timer_ref \<times> 't Chronology" where
  "createTimer_callback I opts callback ch =
     (let (n, ch1) = takeNode ch in (n, set_timer n (Timer_init I opts (Some callback) None) ch1))"

subsection \<open>Deferred functions\<close>

definition interruptAll :: "'t Chronology \<Rightarrow> 't Chronology" where
  "interruptAll ch = ch\<lparr>ch_interrupts := ch_interrupts ch + 1\<rparr>"

definition Chronology_execute :: "Functor \<Rightarrow> 't Chronology \<Rightarrow> 't Chronology" where
  "Chronology_execute f ch =
     (let wasEmpty = (ch_functorQueue ch = []);
          ch1 = ch\<lparr>ch_functorQueue := ch_functorQueue ch @ [f]\<rparr>;
          ch2 = (if wasEmpty then ch1\<lparr>ch_functorQueueEmpty := False\<rparr> else ch1)
      in interruptAll ch2)"

definition Chronology_moveAndExecute :: "Functor list \<Rightarrow> Functor option \<Rightarrow> 't Chronology \<Rightarrow> 't Chronology" where
  "Chronology_moveAndExecute fs f ch =
     (let ch1 = ch\<lparr>ch_functorQueue := ch_functorQueue ch @ fs\<rparr>;
          ch2 = (case f of Some g \<Rightarrow> ch1\<lparr>ch_functorQueue := ch_functorQueue ch1 @ [g]\<rparr> | None \<Rightarrow> ch1);
          ch3 = ch2\<lparr>ch_functorQueueEmpty := (ch_functorQueue ch2 = [])\<rparr>
      in interruptAll ch3)"

subsection \<open>Scheduling, cancelling and closing a timer\<close>

definition place_deadline ::
  "nat \<Rightarrow> timer_ref \<Rightarrow> int \<Rightarrow> 't Timer \<Rightarrow> (int, timer_ref) SkipList \<Rightarrow> (bool \<times> 't Timer \<times> (int, timer_ref) SkipList) option" where
  "place_deadline level n us t m =
     (case tm_handle t of
        Some h \<Rightarrow> do { (newFront, m1) \<leftarrow> SkipList_updateR h us m; Some (newFront, t, m1) }
      | None \<Rightarrow>
          do { (h, newFront, m1) \<leftarrow> (if us = 0 then SkipList_addL level us n m else SkipList_addR level us n m);
               Some (newFront, t\<lparr>tm_handle := Some h, tm_refs := tm_refs t + 1\<rparr>, m1) })"

definition Timer_schedule ::
  "'t interval_library \<Rightarrow> nat \<Rightarrow> timer_ref \<Rightarrow> 't \<Rightarrow> 't \<Rightarrow> 't Chronology \<Rightarrow> (ntsa_error \<times> 't Chronology) option" where
  "Timer_schedule I level n deadline period ch =
     do { t \<leftarrow> ch_timers ch n;
          let effectiveDeadline = il_min I deadline (k_MAX_TIME_INTERVAL I);
          let effectivePeriod = il_min I period (k_MAX_TIME_INTERVAL I);
          let us = il_totalMicroseconds I effectiveDeadline;
          if tm_state t = e_STATE_CLOSED then Some (E_INVALID, ch)
          else do {
            (newFront, t1, m) \<leftarrow> place_deadline level n us (t\<lparr>tm_period := effectivePeriod, tm_state := e_STATE_SCHEDULED\<rparr>)
                                 (ch_deadlineMap ch);
            bsls_assert (tm_handle t1 \<noteq> None \<and> map_option nd_data (sl_nodes m (the (tm_handle t1))) = Some n);
            let ch1 = (set_timer n t1 ch)\<lparr>ch_deadlineMap := m\<rparr>;
            let ch2 = (if newFront then ch1\<lparr>ch_deadlineMapEarliest := us\<rparr> else ch1);
            let ch3 = (if sl_length m = 1 then ch2\<lparr>ch_deadlineMapEmpty := False\<rparr> else ch2);
            Some (E_OK, if newFront then interruptAll ch3 else ch3) } }"

text \<open>The removal of the timer from the map, in \<open>cancel\<close> and \<open>close\<close>, with the reference of the map.\<close>

definition Timer_withdraw :: "timer_ref \<Rightarrow> 't Chronology \<Rightarrow> 't Chronology option" where
  "Timer_withdraw n ch =
     do { t \<leftarrow> ch_timers ch n;
          case tm_handle t of
            None \<Rightarrow> Some ch
          | Some h \<Rightarrow>
              do { m \<leftarrow> SkipList_remove h (ch_deadlineMap ch);
                   let ch1 = (set_timer n (t\<lparr>tm_handle := None\<rparr>) ch)\<lparr>ch_deadlineMap := m\<rparr>;
                   let ch2 = (case frontNode m of
                                Some f \<Rightarrow> ch1\<lparr>ch_deadlineMapEarliest := node_key m f\<rparr>
                              | None \<Rightarrow> ch1\<lparr>ch_deadlineMapEmpty := True, ch_deadlineMapEarliest := 0\<rparr>);
                   releaseRef n ch2 } }"

text \<open>A function bound to the timer holds a reference to it.\<close>

definition execute_bound :: "timer_ref \<Rightarrow> Functor \<Rightarrow> 't Chronology \<Rightarrow> 't Chronology option" where
  "execute_bound n f ch = do { ch1 \<leftarrow> acquireRef n ch; Some (Chronology_execute f ch1) }"

definition cancelling_functor :: "timer_ref \<Rightarrow> 't Timer \<Rightarrow> Functor option" where
  "cancelling_functor n t =
     (if wantEvent e_CANCELED (tm_options t)
      then (case (tm_callback t, tm_session t) of
              (Some c, _) \<Rightarrow> Some (Fn_CallbackCancelled n c)
            | (None, Some s) \<Rightarrow> Some (Fn_SessionCancelled n s)
            | (None, None) \<Rightarrow> None)
      else None)"

definition Timer_cancel :: "'t interval_library \<Rightarrow> timer_ref \<Rightarrow> 't Chronology \<Rightarrow> (ntsa_error \<times> 't Chronology) option" where
  "Timer_cancel I n ch =
     do { t \<leftarrow> ch_timers ch n;
          if tm_state t \<noteq> e_STATE_SCHEDULED then Some (E_INVALID, ch)
          else if tm_callback t = None \<and> tm_session t = None then Some (E_INVALID, ch)
          else do {
            ch1 \<leftarrow> acquireRef n (set_timer n (t\<lparr>tm_state := e_STATE_WAITING, tm_period := il_zero I\<rparr>) ch);
            ch2 \<leftarrow> Timer_withdraw n ch1;
            ch3 \<leftarrow> (case cancelling_functor n t of Some f \<Rightarrow> execute_bound n f ch2 | None \<Rightarrow> Some ch2);
            ch4 \<leftarrow> releaseRef n ch3;
            Some (E_CANCELLED, ch4) } }"

definition closing_functor :: "timer_ref \<Rightarrow> 't Timer \<Rightarrow> Functor option" where
  "closing_functor n t =
     (let cancelled = (tm_state t = e_STATE_SCHEDULED)
      in if wantEvent e_TIMER_CLOSED (tm_options t) then
           (if cancelled \<and> wantEvent e_CANCELED (tm_options t)
            then (case (tm_callback t, tm_session t) of
                    (Some c, _) \<Rightarrow> Some (Fn_CallbackCancelledAndClosed n c)
                  | (None, Some s) \<Rightarrow> Some (Fn_SessionCancelledAndClosed n s)
                  | (None, None) \<Rightarrow> None)
            else (case (tm_callback t, tm_session t) of
                    (Some c, _) \<Rightarrow> Some (Fn_CallbackClosed n c)
                  | (None, Some s) \<Rightarrow> Some (Fn_SessionClosed n s)
                  | (None, None) \<Rightarrow> None))
         else if cancelled \<and> wantEvent e_CANCELED (tm_options t)
            then (case (tm_callback t, tm_session t) of
                    (Some c, _) \<Rightarrow> Some (Fn_CallbackCancelled n c)
                  | (None, Some s) \<Rightarrow> Some (Fn_SessionCancelled n s)
                  | (None, None) \<Rightarrow> None)
         else None)"

text \<open>The callback, or else the session, is given up.\<close>

definition give_up :: "'t Timer \<Rightarrow> 't Timer" where
  "give_up t = (if tm_callback t \<noteq> None then t\<lparr>tm_callback := None\<rparr> else t\<lparr>tm_session := None\<rparr>)"

definition Timer_close :: "'t interval_library \<Rightarrow> timer_ref \<Rightarrow> 't Chronology \<Rightarrow> (ntsa_error \<times> 't Chronology) option" where
  "Timer_close I n ch =
     do { t \<leftarrow> ch_timers ch n;
          if tm_state t = e_STATE_CLOSED then Some (E_INVALID, ch)
          else if tm_callback t = None \<and> tm_session t = None then Some (E_INVALID, ch)
          else do {
            ch1 \<leftarrow> acquireRef n (set_timer n ((give_up t)\<lparr>tm_state := e_STATE_CLOSED, tm_period := il_zero I\<rparr>) ch);
            ch2 \<leftarrow> Timer_withdraw n ch1;
            ch3 \<leftarrow> (case closing_functor n t of Some f \<Rightarrow> execute_bound n f ch2 | None \<Rightarrow> Some ch2);
            ch4 \<leftarrow> releaseRef n ch3;
            Some (if tm_state t = e_STATE_SCHEDULED then E_CANCELLED else E_OK, ch4) } }"

definition Timer_deadline :: "'t interval_library \<Rightarrow> 't Timer \<Rightarrow> 't Chronology \<Rightarrow> 't option option" where
  "Timer_deadline I t ch =
     (case tm_handle t of
        None \<Rightarrow> Some None
      | Some h \<Rightarrow> map_option (\<lambda>node. Some (il_ofMicroseconds I (nd_key node))) (sl_nodes (ch_deadlineMap ch) h))"

definition Timer_period :: "'t interval_library \<Rightarrow> 't Timer \<Rightarrow> 't option" where
  "Timer_period I t = (if \<not> ti_equal (il_time I) (tm_period t) (il_zero I) then Some (tm_period t) else None)"

subsection \<open>What the user does\<close>

definition when_exists :: "timer_ref \<Rightarrow> ('t Timer \<Rightarrow> 't Chronology \<Rightarrow> 't Chronology option) \<Rightarrow> 't Chronology \<Rightarrow> 't Chronology option" where
  "when_exists n f ch = (case ch_timers ch n of None \<Rightarrow> Some ch | Some t \<Rightarrow> f t ch)"

fun user_step :: "'t interval_library \<Rightarrow> 't user_op \<Rightarrow> 't Chronology \<Rightarrow> 't Chronology option" where
  "user_step I (U_createCallback opts c) ch = Some (snd (createTimer_callback I opts c ch))"
| "user_step I (U_createSession opts s) ch = Some (snd (createTimer_session I opts s ch))"
| "user_step I (U_copy n) ch =
     when_exists n (\<lambda>t ch. Some (set_timer n (t\<lparr>tm_refs := tm_refs t + 1, tm_held := tm_held t + 1\<rparr>) ch)) ch"
| "user_step I (U_release n) ch =
     when_exists n (\<lambda>t ch. if tm_held t = 0 then Some ch
                           else releaseRef n (set_timer n (t\<lparr>tm_held := tm_held t - 1\<rparr>) ch)) ch"
| "user_step I (U_schedule level n deadline period) ch =
     when_exists n (\<lambda>t ch. map_option snd (Timer_schedule I level n deadline period ch)) ch"
| "user_step I (U_cancel n) ch = when_exists n (\<lambda>t ch. map_option snd (Timer_cancel I n ch)) ch"
| "user_step I (U_close n) ch = when_exists n (\<lambda>t ch. map_option snd (Timer_close I n ch)) ch"
| "user_step I (U_execute k) ch = Some (Chronology_execute (Fn_user k) ch)"
| "user_step I (U_moveAndExecute ks k) ch =
     Some (Chronology_moveAndExecute (map Fn_user ks) (map_option Fn_user k) ch)"

subsection \<open>The announcement of events\<close>

definition session_recipient :: "'t environment \<Rightarrow> session_ref \<Rightarrow> recipient" where
  "session_recipient E s = (if ev_passthrough E s then To_session s else To_strand s)"

definition notify ::
  "'t interval_library \<Rightarrow> 't environment \<Rightarrow> recipient \<Rightarrow> timer_ref \<Rightarrow> 't TimerEvent \<Rightarrow> 't Chronology \<Rightarrow> 't Chronology option" where
  "notify I E r n e ch =
     (let ch1 = ch\<lparr>ch_log := ch_log ch @ [(r, n, e)]\<rparr>
      in case r of To_strand s \<Rightarrow> user_step I (U_copy n) ch1
         | _ \<Rightarrow> run_steps (user_step I) (ev_react E (r, n, e)) ch1)"

definition cancelled_event :: "'t interval_library \<Rightarrow> 't TimerEvent" where
  "cancelled_event I = \<lparr>te_type = e_CANCELED, te_context = (TimerContext_init I)\<lparr>tc_error := E_CANCELLED\<rparr>\<rparr>"

definition closed_event :: "'t interval_library \<Rightarrow> 't TimerEvent" where
  "closed_event I = \<lparr>te_type = e_TIMER_CLOSED, te_context = TimerContext_init I\<rparr>"

definition processCancelled ::
  "'t interval_library \<Rightarrow> 't environment \<Rightarrow> recipient \<Rightarrow> timer_ref \<Rightarrow> 't Chronology \<Rightarrow> 't Chronology option" where
  "processCancelled I E r n ch = notify I E r n (cancelled_event I) ch"

definition processClosed ::
  "'t interval_library \<Rightarrow> 't environment \<Rightarrow> recipient \<Rightarrow> timer_ref \<Rightarrow> 't Chronology \<Rightarrow> 't Chronology option" where
  "processClosed I E r n ch = notify I E r n (closed_event I) ch"

definition processCancelledAndClosed ::
  "'t interval_library \<Rightarrow> 't environment \<Rightarrow> recipient \<Rightarrow> timer_ref \<Rightarrow> 't Chronology \<Rightarrow> 't Chronology option" where
  "processCancelledAndClosed I E r n ch = do { ch1 \<leftarrow> processCancelled I E r n ch; processClosed I E r n ch1 }"

fun invoke_functor :: "'t interval_library \<Rightarrow> 't environment \<Rightarrow> Functor \<Rightarrow> 't Chronology \<Rightarrow> 't Chronology option" where
  "invoke_functor I E (Fn_user k) ch = run_steps (user_step I) (ev_call E k) ch"
| "invoke_functor I E (Fn_CallbackCancelled n c) ch = processCancelled I E (To_callback c) n ch"
| "invoke_functor I E (Fn_SessionCancelled n s) ch = processCancelled I E (session_recipient E s) n ch"
| "invoke_functor I E (Fn_CallbackClosed n c) ch = processClosed I E (To_callback c) n ch"
| "invoke_functor I E (Fn_SessionClosed n s) ch = processClosed I E (session_recipient E s) n ch"
| "invoke_functor I E (Fn_CallbackCancelledAndClosed n c) ch = processCancelledAndClosed I E (To_callback c) n ch"
| "invoke_functor I E (Fn_SessionCancelledAndClosed n s) ch =
     processCancelledAndClosed I E (session_recipient E s) n ch"

text \<open>A function that has been called is destroyed, with the reference it holds.\<close>

fun invoke_functors :: "'t interval_library \<Rightarrow> 't environment \<Rightarrow> Functor list \<Rightarrow> 't Chronology \<Rightarrow> 't Chronology option" where
  "invoke_functors I E [] ch = Some ch"
| "invoke_functors I E (f # fs) ch =
     do { ch1 \<leftarrow> invoke_functor I E f ch;
          ch2 \<leftarrow> (case functor_timer f of None \<Rightarrow> Some ch1 | Some n \<Rightarrow> releaseRef n ch1);
          invoke_functors I E fs ch2 }"

definition deadline_context :: "'t interval_library \<Rightarrow> 't environment \<Rightarrow> timer_ref \<Rightarrow> 't \<Rightarrow> 't Timer \<Rightarrow> 't TimerContext" where
  "deadline_context I E n deadline t =
     (let context1 = TimerContext_of I (ev_now E) deadline
      in if TimerOptions_drift (tm_options t) \<and> il_less I deadline (ev_exactlyNow E n)
         then context1\<lparr>tc_drift := ti_minus (il_time I) (ev_exactlyNow E n) deadline\<rparr> else context1)"

definition arrived_timer :: "'t interval_library \<Rightarrow> 't Timer \<Rightarrow> 't Timer" where
  "arrived_timer I t =
     (if TimerOptions_oneShot (tm_options t) then (give_up t)\<lparr>tm_state := e_STATE_CLOSED\<rparr>
      else t\<lparr>tm_state := (if Timer_period I t \<noteq> None then e_STATE_SCHEDULED else e_STATE_WAITING)\<rparr>)"

definition Timer_arrive ::
  "'t interval_library \<Rightarrow> 't environment \<Rightarrow> timer_ref \<Rightarrow> 't \<Rightarrow> 't Chronology \<Rightarrow> 't Chronology option" where
  "Timer_arrive I E n deadline ch =
     do { t \<leftarrow> ch_timers ch n;
          if tm_state t \<noteq> e_STATE_SCHEDULED then Some ch
          else if tm_callback t = None \<and> tm_session t = None then Some ch
          else do {
            let r = (case tm_callback t of Some c \<Rightarrow> To_callback c | None \<Rightarrow> session_recipient E (the (tm_session t)));
            let ch1 = set_timer n (arrived_timer I t) ch;
            ch2 \<leftarrow> (if wantEvent e_DEADLINE (tm_options t)
                    then notify I E r n \<lparr>te_type = e_DEADLINE, te_context = deadline_context I E n deadline t\<rparr> ch1
                    else Some ch1);
            if wantEvent e_TIMER_CLOSED (tm_options t) \<and> TimerOptions_oneShot (tm_options t)
            then processClosed I E r n ch2 else Some ch2 } }"

record 't DueEntry =
  de_node :: timer_ref
  de_deadline :: 't
  de_period :: 't
  de_oneShot :: bool
  de_recurring :: bool

text \<open>The reference that came with the entry is dropped when the timer has been announced.\<close>

fun arrive_all :: "'t interval_library \<Rightarrow> 't environment \<Rightarrow> 't DueEntry list \<Rightarrow> 't Chronology \<Rightarrow> 't Chronology option" where
  "arrive_all I E [] ch = Some ch"
| "arrive_all I E (d # ds) ch =
     do { ch1 \<leftarrow> Timer_arrive I E (de_node d) (de_deadline d) ch;
          ch2 \<leftarrow> releaseRef (de_node d) ch1;
          arrive_all I E ds ch2 }"

text \<open>The operations of the map accept a null handle, and do nothing with it.\<close>

definition map_updateR :: "node_ref option \<Rightarrow> int \<Rightarrow> (int, timer_ref) SkipList \<Rightarrow> (int, timer_ref) SkipList option" where
  "map_updateR h us m = (case h of None \<Rightarrow> Some m | Some r \<Rightarrow> map_option snd (SkipList_updateR r us m))"

definition map_remove :: "node_ref option \<Rightarrow> (int, timer_ref) SkipList \<Rightarrow> (int, timer_ref) SkipList option" where
  "map_remove h m = (case h of None \<Rightarrow> Some m | Some r \<Rightarrow> SkipList_remove r m)"

definition due_entry :: "'t interval_library \<Rightarrow> timer_ref \<Rightarrow> int \<Rightarrow> 't Timer \<Rightarrow> 't DueEntry" where
  "due_entry I n us t =
     \<lparr>de_node = n, de_deadline = il_ofMicroseconds I us, de_period = tm_period t,
      de_oneShot = TimerOptions_oneShot (tm_options t), de_recurring = (Timer_period I t \<noteq> None)\<rparr>"

text \<open>The next deadline of a recurring timer, with the period of the next occurrence; a sum of more than 64 bits is undefined.\<close>

definition next_deadline ::
  "'t interval_library \<Rightarrow> 't environment \<Rightarrow> timer_ref \<Rightarrow> int \<Rightarrow> int \<Rightarrow> 't Timer \<Rightarrow> (int \<times> 't) option" where
  "next_deadline I E n now us t =
     do { period \<leftarrow> (case to_backoff (tm_options t) of
                       None \<Rightarrow> Some (tm_period t)
                     | Some b \<Rightarrow> Backoff_apply I (ev_randMax E) (ev_drawn E n) b (tm_period t));
          sum \<leftarrow> checked64 (us + il_totalMicroseconds I period);
          Some (if sum < now then now else sum, period) }"

partial_function (option) announce_loop ::
  "'t interval_library \<Rightarrow> 't environment \<Rightarrow> int \<Rightarrow> node_ref option \<Rightarrow> 't DueEntry list \<Rightarrow> 't Chronology \<Rightarrow>
   ('t DueEntry list \<times> 't Chronology) option" where
  "announce_loop I E now firstReinserted due ch =
     (let m = ch_deadlineMap ch
      in case frontNode m of
           None \<Rightarrow> Some (due, ch)
         | Some current \<Rightarrow>
             if node_key m current > now then Some (due, ch)
             else if firstReinserted = Some current then Some (due, ch)
             else let us = node_key m current; n = node_data m current
                  in do { t \<leftarrow> ch_timers ch n;
                          let due1 = due @ [due_entry I n us t];
                          if Timer_period I t \<noteq> None
                          then do { (next, period) \<leftarrow> next_deadline I E n now us t;
                                    m1 \<leftarrow> map_updateR (tm_handle t) next m;
                                    let t1 = t\<lparr>tm_period := period, tm_refs := tm_refs t + 1\<rparr>;
                                    announce_loop I E now
                                      (if next = now \<and> firstReinserted = None then tm_handle t else firstReinserted)
                                      due1 ((set_timer n t1 ch)\<lparr>ch_deadlineMap := m1\<rparr>) }
                          else do { m1 \<leftarrow> map_remove (tm_handle t) m;
                                    announce_loop I E now firstReinserted due1
                                      ((set_timer n (t\<lparr>tm_handle := None\<rparr>) ch)\<lparr>ch_deadlineMap := m1\<rparr>) } })"

declare announce_loop.simps [code]

definition announce_flags :: "'t Chronology \<Rightarrow> 't Chronology" where
  "announce_flags ch =
     (case frontNode (ch_deadlineMap ch) of
        None \<Rightarrow> ch\<lparr>ch_deadlineMapEmpty := True, ch_deadlineMapEarliest := 0\<rparr>
      | Some f \<Rightarrow> ch\<lparr>ch_deadlineMapEarliest := node_key (ch_deadlineMap ch) f\<rparr>)"

text \<open>The functions due: all of them, or the first one when a single one is asked for.\<close>

definition take_functors :: "bool \<Rightarrow> 't Chronology \<Rightarrow> Functor list \<times> 't Chronology" where
  "take_functors single ch =
     (case ch_functorQueue ch of
        [] \<Rightarrow> ([], ch)
      | f # fs \<Rightarrow>
          if \<not> single then (f # fs, ch\<lparr>ch_functorQueue := [], ch_functorQueueEmpty := True\<rparr>)
          else ([f], ch\<lparr>ch_functorQueue := fs, ch_functorQueueEmpty := (if fs = [] then True else ch_functorQueueEmpty ch)\<rparr>))"

definition take_timers ::
  "'t interval_library \<Rightarrow> 't environment \<Rightarrow> bool \<Rightarrow> 't Chronology \<Rightarrow> ('t DueEntry list \<times> 't Chronology) option" where
  "take_timers I E finished ch =
     (if \<not> SkipList_isEmpty (ch_deadlineMap ch) \<and> \<not> finished
      then map_option (\<lambda>(due, ch1). (due, announce_flags ch1))
             (announce_loop I E (il_totalMicroseconds I (ev_now E)) None [] ch)
      else Some ([], ch))"

definition announce_own ::
  "'t interval_library \<Rightarrow> 't environment \<Rightarrow> bool \<Rightarrow> 't Chronology \<Rightarrow> (bool \<times> 't Chronology) option" where
  "announce_own I E single ch =
     (let (functorsDue, ch1) = take_functors single ch;
          finished = (single \<and> functorsDue \<noteq> [])
      in do { (timersDue, ch2) \<leftarrow> take_timers I E finished ch1;
              ch3 \<leftarrow> invoke_functors I E functorsDue ch2;
              ch4 \<leftarrow> arrive_all I E timersDue ch3;
              Some (finished \<or> (single \<and> timersDue \<noteq> []), ch4) })"

subsection \<open>The other operations of a chronology\<close>

definition drain_own :: "'t interval_library \<Rightarrow> 't environment \<Rightarrow> 't Chronology \<Rightarrow> 't Chronology option" where
  "drain_own I E ch = (let (functorsDue, ch1) = take_functors False ch in invoke_functors I E functorsDue ch1)"

text \<open>The walk over the entries of the map, from one to the next; a null pointer ends it.\<close>

partial_function (option) map_walk :: "(int, timer_ref) SkipList \<Rightarrow> node_ref option \<Rightarrow> timer_ref list option" where
  "map_walk m p =
     (case p of
        None \<Rightarrow> Some []
      | Some h \<Rightarrow> do { q \<leftarrow> skipForward h m; ns \<leftarrow> map_walk m q; Some (node_data m h # ns) })"

declare map_walk.simps [code]

definition clear_map :: "'t Chronology \<Rightarrow> (timer_ref list \<times> 't Chronology) option" where
  "clear_map ch =
     (let m = ch_deadlineMap ch
      in if SkipList_isEmpty m then Some ([], ch)
         else do { nodes \<leftarrow> map_walk m (frontNode m);
                   Some (nodes, ch\<lparr>ch_deadlineMap := snd (SkipList_removeAll m), ch_deadlineMapEmpty := True,
                                  ch_deadlineMapEarliest := 0\<rparr>) })"

definition clear_own :: "'t Chronology \<Rightarrow> 't Chronology option" where
  "clear_own ch =
     (let fs = ch_functorQueue ch
      in do { (nodes, ch1) \<leftarrow> clear_map (ch\<lparr>ch_functorQueue := [], ch_functorQueueEmpty := True\<rparr>);
              ch2 \<leftarrow> releaseRefs (List.map_filter functor_timer fs) ch1;
              releaseRefs nodes ch2 })"

definition clearFunctions_own :: "'t Chronology \<Rightarrow> 't Chronology option" where
  "clearFunctions_own ch =
     releaseRefs (List.map_filter functor_timer (ch_functorQueue ch))
       (ch\<lparr>ch_functorQueue := [], ch_functorQueueEmpty := True\<rparr>)"

definition clearTimers_own :: "'t Chronology \<Rightarrow> 't Chronology option" where
  "clearTimers_own ch = do { (nodes, ch1) \<leftarrow> clear_map ch; releaseRefs nodes ch1 }"

fun acquireRefs :: "timer_ref list \<Rightarrow> 't Chronology \<Rightarrow> 't Chronology option" where
  "acquireRefs [] ch = Some ch"
| "acquireRefs (n # ns) ch = do { ch1 \<leftarrow> acquireRef n ch; acquireRefs ns ch1 }"

fun closeTimers :: "'t interval_library \<Rightarrow> timer_ref list \<Rightarrow> 't Chronology \<Rightarrow> 't Chronology option" where
  "closeTimers I [] ch = Some ch"
| "closeTimers I (n # ns) ch = do { (_, ch1) \<leftarrow> Timer_close I n ch; closeTimers I ns ch1 }"

definition registered :: "'t Chronology \<Rightarrow> timer_ref list" where
  "registered ch =
     filter (\<lambda>n. n \<notin> set (ch_nodeFree ch) \<and> (case ch_timers ch n of None \<Rightarrow> False | Some t \<Rightarrow> tm_refs t > 0)) (ch_nodeArray ch)"

definition closeAll_own :: "'t interval_library \<Rightarrow> 't Chronology \<Rightarrow> 't Chronology option" where
  "closeAll_own I ch =
     (let timers = registered ch
      in do { ch1 \<leftarrow> acquireRefs timers ch; ch2 \<leftarrow> closeTimers I timers ch1; releaseRefs timers ch2 })"

text \<open>The caller of \<open>load\<close> holds a reference to each of the timers.\<close>

definition load_own :: "'t interval_library \<Rightarrow> 't Chronology \<Rightarrow> (timer_ref list \<times> 't Chronology) option" where
  "load_own I ch =
     do { nodes \<leftarrow> map_walk (ch_deadlineMap ch) (frontNode (ch_deadlineMap ch));
          ch1 \<leftarrow> run_steps (user_step I) (map U_copy nodes) ch;
          Some (nodes, ch1) }"

definition numRegistered :: "'t Chronology \<Rightarrow> nat" where
  "numRegistered ch = ch_nodeCount ch"

definition hasAnyRegistered :: "'t Chronology \<Rightarrow> bool" where
  "hasAnyRegistered ch \<longleftrightarrow> ch_nodeCount ch > 0"

definition numScheduled :: "'t Chronology \<Rightarrow> nat" where
  "numScheduled ch = sl_length (ch_deadlineMap ch)"

definition numDeferred :: "'t Chronology \<Rightarrow> nat" where
  "numDeferred ch = length (ch_functorQueue ch)"

subsection \<open>A chronology and its parents\<close>

text \<open>
  A chronology is followed in the list by its parent, the parent of its parent, and so on. An operation on one of
  them is passed on to its parent, if it has one.
\<close>

fun hasAnyScheduled :: "'t Chronology list \<Rightarrow> bool" where
  "hasAnyScheduled [] = False"
| "hasAnyScheduled (ch # parents) = (\<not> ch_deadlineMapEmpty ch \<or> hasAnyScheduled parents)"

fun hasAnyDeferred :: "'t Chronology list \<Rightarrow> bool" where
  "hasAnyDeferred [] = False"
| "hasAnyDeferred (ch # parents) = (\<not> ch_functorQueueEmpty ch \<or> hasAnyDeferred parents)"

fun hasAnyScheduledOrDeferred :: "'t Chronology list \<Rightarrow> bool" where
  "hasAnyScheduledOrDeferred [] = False"
| "hasAnyScheduledOrDeferred (ch # parents) =
     (\<not> ch_deadlineMapEmpty ch \<or> \<not> ch_functorQueueEmpty ch \<or> hasAnyScheduledOrDeferred parents)"

definition findEarliest :: "'t interval_library \<Rightarrow> 't Chronology \<Rightarrow> 't" where
  "findEarliest I ch = il_ofMicroseconds I (ch_deadlineMapEarliest ch)"

fun Chronology_earliest :: "'t interval_library \<Rightarrow> 't Chronology list \<Rightarrow> 't option" where
  "Chronology_earliest I [] = None"
| "Chronology_earliest I (ch # parents) =
     (if \<not> ch_functorQueueEmpty ch then Some (il_zero I)
      else let parentEarliest = Chronology_earliest I parents;
               thisEarliest = (if \<not> ch_deadlineMapEmpty ch then Some (findEarliest I ch) else None)
           in case thisEarliest of
                None \<Rightarrow> parentEarliest
              | Some d \<Rightarrow> (case parentEarliest of
                             Some p \<Rightarrow> if il_less I p d then Some p else Some d
                           | None \<Rightarrow> Some d))"

definition timeoutInterval :: "'t interval_library \<Rightarrow> 't \<Rightarrow> 't Chronology list \<Rightarrow> 't option" where
  "timeoutInterval I now chs =
     (case Chronology_earliest I chs of
        None \<Rightarrow> None
      | Some deadline \<Rightarrow> Some (if il_less I now deadline then ti_minus (il_time I) deadline now else il_zero I))"

definition timeoutInMilliseconds :: "'t interval_library \<Rightarrow> 't \<Rightarrow> 't Chronology list \<Rightarrow> int" where
  "timeoutInMilliseconds I now chs =
     (case timeoutInterval I now chs of
        None \<Rightarrow> -1
      | Some d \<Rightarrow>
          let totalMilliseconds = il_totalMilliseconds I d
          in if totalMilliseconds \<le> 2147483647 then totalMilliseconds else 2147483647)"

fun Chronology_announce ::
  "'t interval_library \<Rightarrow> 't environment list \<Rightarrow> bool \<Rightarrow> 't Chronology list \<Rightarrow> 't Chronology list option" where
  "Chronology_announce I (E # Es) single (ch # parents) =
     do { (finished, ch1) \<leftarrow> announce_own I E single ch;
          parents1 \<leftarrow> (if \<not> finished \<and> hasAnyScheduledOrDeferred parents
                       then Chronology_announce I Es True parents else Some parents);
          Some (ch1 # parents1) }"
| "Chronology_announce I Es single chs = Some chs"

fun for_all_own :: "('t Chronology \<Rightarrow> 't Chronology option) \<Rightarrow> 't Chronology list \<Rightarrow> 't Chronology list option" where
  "for_all_own f [] = Some []"
| "for_all_own f (ch # parents) = do { ch1 \<leftarrow> f ch; parents1 \<leftarrow> for_all_own f parents; Some (ch1 # parents1) }"

definition Chronology_drain :: "'t interval_library \<Rightarrow> 't environment \<Rightarrow> 't Chronology list \<Rightarrow> 't Chronology list option" where
  "Chronology_drain I E = for_all_own (drain_own I E)"

definition Chronology_closeAll :: "'t interval_library \<Rightarrow> 't Chronology list \<Rightarrow> 't Chronology list option" where
  "Chronology_closeAll I = for_all_own (closeAll_own I)"

definition Chronology_clear :: "'t Chronology list \<Rightarrow> 't Chronology list option" where
  "Chronology_clear = for_all_own clear_own"

definition Chronology_clearFunctions :: "'t Chronology list \<Rightarrow> 't Chronology list option" where
  "Chronology_clearFunctions = for_all_own clearFunctions_own"

definition Chronology_clearTimers :: "'t Chronology list \<Rightarrow> 't Chronology list option" where
  "Chronology_clearTimers = for_all_own clearTimers_own"

fun Chronology_load :: "'t interval_library \<Rightarrow> 't Chronology list \<Rightarrow> (timer_ref list list \<times> 't Chronology list) option" where
  "Chronology_load I [] = Some ([], [])"
| "Chronology_load I (ch # parents) =
     do { (ns, ch1) \<leftarrow> load_own I ch; (nss, parents1) \<leftarrow> Chronology_load I parents; Some (ns # nss, ch1 # parents1) }"

end
