(* ===== verification/Chronology_Announce.thy ===== *)
theory Chronology_Announce
  imports Chronology
begin

section \<open>The timers that are due\<close>

text \<open>
  This theory proves what the loop of \<open>ntcs::Chronology::announce\<close> does to the deadlines: it ends, takes each timer
  whose deadline has come once, in the order of the deadlines, and leaves every recurring timer at its next deadline.
\<close>

subsection \<open>The map of deadlines\<close>

type_synonym deadline_entry = "int \<times> node_ref \<times> timer_ref"

abbreviation entry_timer :: "deadline_entry \<Rightarrow> timer_ref" where
  "entry_timer e \<equiv> snd (snd e)"

abbreviation deadlines :: "'t Chronology \<Rightarrow> deadline_entry list" where
  "deadlines ch \<equiv> entries (ch_deadlineMap ch)"

text \<open>The entries of the map are the handles of the timers.\<close>

definition handles_ok :: "(timer_ref \<rightharpoonup> 't Timer) \<Rightarrow> deadline_entry list \<Rightarrow> bool" where
  "handles_ok T es \<longleftrightarrow>
     (\<forall>k h n. (k, h, n) \<in> set es \<longrightarrow> (\<exists>t. T n = Some t \<and> tm_handle t = Some h)) \<and>
     (\<forall>n t h. T n = Some t \<longrightarrow> tm_handle t = Some h \<longrightarrow> (\<exists>k. (k, h, n) \<in> set es))"

definition map_inv :: "'t Chronology \<Rightarrow> bool" where
  "map_inv ch \<longleftrightarrow> sl_inv (ch_deadlineMap ch) \<and> handles_ok (ch_timers ch) (deadlines ch)"

lemma entry_node: "(k, h, n) \<in> set (entries m) \<Longrightarrow> node_key m h = k \<and> node_data m h = n"
  by (auto simp: entries_def)

lemma entries_distinct: "sl_inv m \<Longrightarrow> distinct (map entry_ref (entries m))"
  using sl_invD(3) [of m] by (simp add: entries_def comp_def)

lemma entries_sorted: "sl_inv m \<Longrightarrow> sorted (map fst (entries m))"
  using sl_invD(2) [of m] by (simp add: entries_def comp_def)

lemma frontNode_entries: "frontNode m = first_ref (entries m)"
  by (simp add: frontNode_def first_ref_def entries_def split: list.split)

lemma isEmpty_entries: "SkipList_isEmpty m \<longleftrightarrow> entries m = []"
  by (simp add: SkipList_isEmpty_def entries_def)

lemma handle_entry:
  "map_inv ch \<Longrightarrow> ch_timers ch n = Some t \<Longrightarrow> tm_handle t = Some h \<Longrightarrow> \<exists>k. (k, h, n) \<in> set (deadlines ch)"
  by (auto simp: map_inv_def handles_ok_def)

lemma entry_handle:
  "map_inv ch \<Longrightarrow> (k, h, n) \<in> set (deadlines ch) \<Longrightarrow> \<exists>t. ch_timers ch n = Some t \<and> tm_handle t = Some h"
  by (auto simp: map_inv_def handles_ok_def)

lemma filter_others:
  assumes "distinct (map entry_ref (as @ e # bs))"
  shows "filter (\<lambda>x. entry_ref x \<noteq> entry_ref e) (as @ e # bs) = as @ bs"
proof -
  have "entry_ref e \<notin> entry_ref ` set as" "entry_ref e \<notin> entry_ref ` set bs" using assms by auto
  then have "filter (\<lambda>x. entry_ref x \<noteq> entry_ref e) as = as" "filter (\<lambda>x. entry_ref x \<noteq> entry_ref e) bs = bs"
    by (auto simp: filter_id_conv image_iff)
  then show ?thesis by simp
qed

text \<open>The operations of the map, on its entries.\<close>

lemma map_remove_entry:
  assumes inv: "sl_inv m" and e: "(k, h, n) \<in> set (entries m)"
  shows "\<exists>m1. SkipList_remove h m = Some m1 \<and> sl_inv m1 \<and> entries m1 = filter (\<lambda>x. entry_ref x \<noteq> h) (entries m)"
proof -
  have "h \<in> dom (sl_nodes m)" using entry_refs [OF inv] e by force
  then show ?thesis using SkipList_remove_without [OF inv] without_inv [OF inv] by blast
qed

lemma map_updateR_entry:
  assumes inv: "sl_inv m" and e: "(k, h, n) \<in> set (entries m)"
  shows "\<exists>m1. SkipList_updateR h x m = Some (\<forall>e\<in>set (filter (\<lambda>e. entry_ref e \<noteq> h) (entries m)). x < fst e, m1) \<and> sl_inv m1 \<and>
    entries m1 = insert_entry (x, h, n) (filter (\<lambda>e. entry_ref e \<noteq> h) (entries m))"
proof -
  have "h \<in> dom (sl_nodes m)" using entry_refs [OF inv] e by force
  then obtain node where node: "sl_nodes m h = Some node" by auto
  then have "nd_data node = n" using entry_node [OF e] by (simp add: node_data_def)
  moreover have "entries (without h m) = filter (\<lambda>e. entry_ref e \<noteq> h) (entries m)"
    using without_inv [OF inv \<open>h \<in> dom (sl_nodes m)\<close>] by blast
  moreover obtain m1 where "SkipList_updateR h x m = Some (\<forall>e\<in>set (entries (without h m)). x < fst e, m1)" "sl_inv m1"
    "entries m1 = insert_entry (x, h, nd_data node) (entries (without h m))"
    by (rule SkipList_updateR_move [OF inv node])
  ultimately show ?thesis by auto
qed

lemma insert_entry_split:
  assumes "\<forall>e\<in>set as. fst e \<le> fst x" and "\<forall>e\<in>set bs. fst x < fst e"
  shows "insert_entry x (as @ bs) = as @ x # bs"
proof -
  have "filter (\<lambda>e. fst e \<le> fst x) as = as" "filter (\<lambda>e. fst e \<le> fst x) bs = []"
    "filter (\<lambda>e. fst x < fst e) as = []" "filter (\<lambda>e. fst x < fst e) bs = bs"
    using assms by (auto simp: filter_id_conv filter_empty_conv)
  then show ?thesis by (simp add: insert_entry_def)
qed

lemma insert_entry_skip:
  assumes "\<forall>e\<in>set as. fst e \<le> fst x"
  shows "insert_entry x (as @ bs) = as @ insert_entry x bs"
proof -
  have "filter (\<lambda>e. fst e \<le> fst x) as = as" "filter (\<lambda>e. fst x < fst e) as = []"
    using assms by (auto simp: filter_id_conv filter_empty_conv)
  then show ?thesis by (simp add: insert_entry_def)
qed

lemma set_insert_entry [simp]: "set (insert_entry x es) = insert x (set es)"
  by (auto simp: insert_entry_def)

subsection \<open>The loop\<close>

text \<open>
  The timer after it has been taken, and the entries after it: a recurring timer is entered again at its next deadline.
\<close>

definition taken_timer :: "'t interval_library \<Rightarrow> 't environment \<Rightarrow> int \<Rightarrow> deadline_entry \<Rightarrow> 't Timer \<Rightarrow> 't Timer" where
  "taken_timer I E now e t =
     (if Timer_period I t \<noteq> None
      then (case next_deadline I E (entry_timer e) now (fst e) t of
              None \<Rightarrow> t
            | Some (_, period) \<Rightarrow> t\<lparr>tm_period := period, tm_refs := tm_refs t + 1\<rparr>)
      else t\<lparr>tm_handle := None\<rparr>)"

definition reenter ::
  "'t interval_library \<Rightarrow> 't environment \<Rightarrow> int \<Rightarrow> (timer_ref \<rightharpoonup> 't Timer) \<Rightarrow> deadline_entry \<Rightarrow> deadline_entry list \<Rightarrow> deadline_entry list" where
  "reenter I E now T e es =
     (let t = the (T (entry_timer e))
      in if Timer_period I t \<noteq> None
         then (case next_deadline I E (entry_timer e) now (fst e) t of
                 None \<Rightarrow> es
               | Some (us, _) \<Rightarrow> insert_entry (us, snd e) es)
         else es)"

text \<open>No sum of a deadline and a period overflows.\<close>

definition no_overflow ::
  "'t interval_library \<Rightarrow> 't environment \<Rightarrow> int \<Rightarrow> (timer_ref \<rightharpoonup> 't Timer) \<Rightarrow> deadline_entry \<Rightarrow> bool" where
  "no_overflow I E now T e \<longleftrightarrow>
     (Timer_period I (the (T (entry_timer e))) \<noteq> None \<longrightarrow>
      next_deadline I E (entry_timer e) now (fst e) (the (T (entry_timer e))) \<noteq> None)"

lemma next_deadline_late: "next_deadline I E n now us t = Some (x, p) \<Longrightarrow> now \<le> x"
  by (auto simp: next_deadline_def bind_eq_Some_iff split: if_splits)

definition marked ::
  "'t interval_library \<Rightarrow> 't environment \<Rightarrow> int \<Rightarrow> (timer_ref \<rightharpoonup> 't Timer) \<Rightarrow> deadline_entry \<Rightarrow> node_ref option \<Rightarrow> node_ref option" where
  "marked I E now T e firstReinserted =
     (let t = the (T (entry_timer e))
      in if Timer_period I t \<noteq> None \<and> firstReinserted = None \<and>
            map_option fst (next_deadline I E (entry_timer e) now (fst e) t) = Some now
         then Some (entry_ref e) else firstReinserted)"

lemma handles_ok_step:
  assumes ok: "handles_ok T ((k, h, n) # es)" and h: "\<forall>e\<in>set es. entry_ref e \<noteq> h"
    and t: "T n = Some t" "tm_handle t = Some h"
  shows "tm_handle t1 = Some h \<Longrightarrow> set es' = insert (x, h, n) (set es) \<Longrightarrow> handles_ok (T(n \<mapsto> t1)) es'"
    and "tm_handle t1 = None \<Longrightarrow> handles_ok (T(n \<mapsto> t1)) es"
proof -
  have other: "n' \<noteq> n" if "(k', h', n') \<in> set es" for k' h' n' using ok h that t unfolding handles_ok_def by fastforce
  {
    assume t1: "tm_handle t1 = Some h" and es': "set es' = insert (x, h, n) (set es)"
    show "handles_ok (T(n \<mapsto> t1)) es'"
      using ok t t1 other unfolding handles_ok_def es' by (fastforce split: if_splits)
  }
  {
    assume t1: "tm_handle t1 = None"
    show "handles_ok (T(n \<mapsto> t1)) es"
      using ok t t1 other unfolding handles_ok_def by (fastforce split: if_splits)
  }
qed

lemma announce_step:
  assumes inv: "map_inv ch" and es: "deadlines ch = (k, h, n) # es" and due: "k \<le> now" "firstReinserted \<noteq> Some h"
    and ok: "no_overflow I E now (ch_timers ch) (k, h, n)"
  obtains t m1 where "ch_timers ch n = Some t"
    "announce_loop I E now firstReinserted due ch =
       announce_loop I E now (marked I E now (ch_timers ch) (k, h, n) firstReinserted) (due @ [due_entry I n k t])
         ((set_timer n (taken_timer I E now (k, h, n) t) ch)\<lparr>ch_deadlineMap := m1\<rparr>)"
    "map_inv ((set_timer n (taken_timer I E now (k, h, n) t) ch)\<lparr>ch_deadlineMap := m1\<rparr>)"
    "entries m1 = reenter I E now (ch_timers ch) (k, h, n) es"
proof -
  have m: "sl_inv (ch_deadlineMap ch)" "handles_ok (ch_timers ch) ((k, h, n) # es)" using inv es by (auto simp: map_inv_def)
  obtain t where t: "ch_timers ch n = Some t" "tm_handle t = Some h" using entry_handle [OF inv] es by fastforce
  have e: "(k, h, n) \<in> set (deadlines ch)" using es by simp
  have front: "frontNode (ch_deadlineMap ch) = Some h" "node_key (ch_deadlineMap ch) h = k" "node_data (ch_deadlineMap ch) h = n"
    using entry_node [OF e] es by (simp_all add: frontNode_entries first_ref_def)
  have others: "filter (\<lambda>e. entry_ref e \<noteq> h) (deadlines ch) = es" "\<forall>e\<in>set es. entry_ref e \<noteq> h"
    using entries_distinct [OF m(1)] filter_others [of "[]" "(k, h, n)" es] es by (auto simp: image_iff)
  show thesis
  proof (cases "Timer_period I t = None")
    case True
    obtain m1 where m1: "SkipList_remove h (ch_deadlineMap ch) = Some m1" "sl_inv m1" "entries m1 = es"
      using map_remove_entry [OF m(1) e] others by auto
    have "handles_ok ((ch_timers ch)(n \<mapsto> t\<lparr>tm_handle := None\<rparr>)) es"
      by (rule handles_ok_step(2) [OF m(2) others(2) t]) simp
    then have "map_inv ((set_timer n (taken_timer I E now (k, h, n) t) ch)\<lparr>ch_deadlineMap := m1\<rparr>)"
      using True m1 by (simp add: map_inv_def taken_timer_def set_timer_def)
    moreover have "announce_loop I E now firstReinserted due ch =
        announce_loop I E now (marked I E now (ch_timers ch) (k, h, n) firstReinserted) (due @ [due_entry I n k t])
         ((set_timer n (taken_timer I E now (k, h, n) t) ch)\<lparr>ch_deadlineMap := m1\<rparr>)"
      by (subst announce_loop.simps) (use True t front due m1(1) in \<open>simp add: taken_timer_def marked_def map_remove_def\<close>)
    ultimately show thesis using that [OF t(1)] m1(3) True t(1) by (simp add: reenter_def)
  next
    case False
    then obtain x p where x: "next_deadline I E n now k t = Some (x, p)" using ok t by (auto simp: no_overflow_def)
    obtain b m1 where m1: "SkipList_updateR h x (ch_deadlineMap ch) = Some (b, m1)" "sl_inv m1"
      "entries m1 = insert_entry (x, h, n) es"
      using map_updateR_entry [OF m(1) e, of x] others by auto
    have "handles_ok ((ch_timers ch)(n \<mapsto> t\<lparr>tm_period := p, tm_refs := tm_refs t + 1\<rparr>)) (insert_entry (x, h, n) es)"
      by (rule handles_ok_step(1) [OF m(2) others(2) t]) (use t in simp_all)
    then have "map_inv ((set_timer n (taken_timer I E now (k, h, n) t) ch)\<lparr>ch_deadlineMap := m1\<rparr>)"
      using False x m1 by (simp add: map_inv_def taken_timer_def set_timer_def)
    moreover have "announce_loop I E now firstReinserted due ch =
        announce_loop I E now (marked I E now (ch_timers ch) (k, h, n) firstReinserted) (due @ [due_entry I n k t])
         ((set_timer n (taken_timer I E now (k, h, n) t) ch)\<lparr>ch_deadlineMap := m1\<rparr>)"
      by (subst announce_loop.simps) (use False x t front due m1(1) in \<open>simp add: taken_timer_def marked_def map_updateR_def\<close>)
    ultimately show thesis using that [OF t(1)] m1(3) False x t(1) by (simp add: reenter_def)
  qed
qed

text \<open>
  During the loop, the entries are the timers that are due and not yet taken, those entered again for the current
  time, and those of later times. A timer entered again goes behind the first two groups.
\<close>

lemma reenter_split:
  assumes "\<forall>e\<in>set ps. fst e \<le> now" and "\<forall>e\<in>set qs. fst e = now" and "\<forall>e\<in>set zs. now < fst e"
    and "no_overflow I E now T e"
  obtains qs1 zs1 where "reenter I E now T e (ps @ qs @ zs) = ps @ qs1 @ zs1" "reenter I E now T e (qs @ zs) = qs1 @ zs1"
    "first_ref qs1 = marked I E now T e (first_ref qs)" "\<forall>e\<in>set qs1. fst e = now" "\<forall>e\<in>set zs1. now < fst e"
proof (cases "Timer_period I (the (T (entry_timer e))) = None")
  case True
  then show thesis using that [of qs zs] assms by (simp add: reenter_def marked_def Let_def)
next
  case False
  then obtain x p where x: "next_deadline I E (entry_timer e) now (fst e) (the (T (entry_timer e))) = Some (x, p)"
    using assms(4) by (auto simp: no_overflow_def)
  show thesis
  proof (cases "x = now")
    case True
    have "insert_entry (now, snd e) ((ps @ qs) @ zs) = (ps @ qs) @ (now, snd e) # zs"
      by (rule insert_entry_split) (use assms(1-3) in auto)
    moreover have "insert_entry (now, snd e) (qs @ zs) = qs @ (now, snd e) # zs"
      by (rule insert_entry_split) (use assms(1-3) in auto)
    moreover have "first_ref (qs @ [(now, snd e)]) = marked I E now T e (first_ref qs)"
      using False x True by (cases qs) (simp_all add: marked_def first_ref_def)
    ultimately show thesis using that [of "qs @ [(now, snd e)]" zs] False x True assms(2,3)
      by (simp add: reenter_def Let_def)
  next
    case later: False
    then have "now < x" using next_deadline_late [OF x] by simp
    then have "insert_entry (x, snd e) ((ps @ qs) @ zs) = (ps @ qs) @ insert_entry (x, snd e) zs"
      "insert_entry (x, snd e) (qs @ zs) = qs @ insert_entry (x, snd e) zs"
      using assms(1,2) by (intro insert_entry_skip; fastforce)+
    then show thesis using that [of qs "insert_entry (x, snd e) zs"] False x later \<open>now < x\<close> assms(2,3)
      by (simp add: reenter_def marked_def Let_def)
  qed
qed

lemma entry_timers_distinct:
  assumes "map_inv ch"
  shows "distinct (map entry_timer (deadlines ch))"
proof -
  have "distinct (deadlines ch)" using entries_distinct [of "ch_deadlineMap ch"] assms
    by (auto simp: map_inv_def distinct_map)
  moreover have "inj_on entry_timer (set (deadlines ch))"
  proof (rule inj_onI)
    fix a b
    assume a: "a \<in> set (deadlines ch)" and b: "b \<in> set (deadlines ch)" and "entry_timer a = entry_timer b"
    have "\<exists>t. ch_timers ch (entry_timer e) = Some t \<and> tm_handle t = Some (entry_ref e)" if "e \<in> set (deadlines ch)" for e
      using entry_handle [OF assms, of "fst e" "entry_ref e" "entry_timer e"] that by simp
    from this [OF a] this [OF b] have "entry_ref a = entry_ref b" using \<open>entry_timer a = entry_timer b\<close> by auto
    moreover have "inj_on entry_ref (set (deadlines ch))"
      using entries_distinct [of "ch_deadlineMap ch"] assms by (auto simp: map_inv_def distinct_map)
    ultimately show "a = b" using a b by (auto dest: inj_onD)
  qed
  ultimately show ?thesis by (simp add: distinct_map)
qed

text \<open>The timers after the loop.\<close>

definition taken_timers ::
  "'t interval_library \<Rightarrow> 't environment \<Rightarrow> int \<Rightarrow> deadline_entry list \<Rightarrow> (timer_ref \<rightharpoonup> 't Timer) \<Rightarrow> timer_ref \<rightharpoonup> 't Timer" where
  "taken_timers I E now ps T n =
     (case find (\<lambda>e. entry_timer e = n) ps of None \<Rightarrow> T n | Some e \<Rightarrow> map_option (taken_timer I E now e) (T n))"

definition due_entries :: "'t interval_library \<Rightarrow> (timer_ref \<rightharpoonup> 't Timer) \<Rightarrow> deadline_entry list \<Rightarrow> 't DueEntry list" where
  "due_entries I T ps = map (\<lambda>e. due_entry I (entry_timer e) (fst e) (the (T (entry_timer e)))) ps"

lemma fold_reenter_cong:
  "(\<And>e. e \<in> set ps \<Longrightarrow> T (entry_timer e) = T' (entry_timer e)) \<Longrightarrow>
   fold (reenter I E now T) ps es = fold (reenter I E now T') ps es"
  by (rule fold_cong) (simp_all add: reenter_def fun_eq_iff)

lemma taken_timers_Cons:
  assumes "T n = Some t" and "\<forall>e\<in>set ps. entry_timer e \<noteq> n"
  shows "taken_timers I E now ps (T(n \<mapsto> taken_timer I E now (k, h, n) t)) = taken_timers I E now ((k, h, n) # ps) T"
proof
  fix m
  have "find (\<lambda>e. entry_timer e = n) ps = None" using assms(2) by (auto simp: find_None_iff)
  moreover have "find (\<lambda>e. entry_timer e = m) ps = Some e \<Longrightarrow> m \<noteq> n" for e
    using assms(2) by (auto simp: find_Some_iff)
  ultimately show "taken_timers I E now ps (T(n \<mapsto> taken_timer I E now (k, h, n) t)) m = taken_timers I E now ((k, h, n) # ps) T m"
    using assms(1) by (cases "m = n") (auto simp: taken_timers_def split: option.split)
qed

lemma announce_loop_stop:
  assumes es: "deadlines ch = qs @ zs" and later: "\<forall>e\<in>set qs. fst e = now" "\<forall>e\<in>set zs. now < fst e"
  shows "announce_loop I E now (first_ref qs) due ch = Some (due, ch)"
proof (cases "qs @ zs")
  case Nil
  then show ?thesis using es by (subst announce_loop.simps) (simp add: frontNode_entries first_ref_def)
next
  case (Cons e ys)
  then have e: "(fst e, entry_ref e, entry_timer e) \<in> set (deadlines ch)" using es by simp
  have front: "frontNode (ch_deadlineMap ch) = Some (entry_ref e)" "node_key (ch_deadlineMap ch) (entry_ref e) = fst e"
    using entry_node [OF e] es Cons by (simp_all add: frontNode_entries first_ref_def)
  have "now < fst e \<or> first_ref qs = Some (entry_ref e)"
    using Cons later by (cases qs) (auto simp: first_ref_def)
  then show ?thesis using front by (subst announce_loop.simps) (auto simp: Let_def)
qed

lemma announce_loop_due:
  assumes "map_inv ch" and "deadlines ch = ps @ qs @ zs"
    and "\<forall>e\<in>set ps. fst e \<le> now" and "\<forall>e\<in>set qs. fst e = now" and "\<forall>e\<in>set zs. now < fst e"
    and "\<forall>e\<in>set ps. no_overflow I E now (ch_timers ch) e"
  shows "\<exists>m. announce_loop I E now (first_ref qs) due ch =
      Some (due @ due_entries I (ch_timers ch) ps, ch\<lparr>ch_timers := taken_timers I E now ps (ch_timers ch), ch_deadlineMap := m\<rparr>) \<and>
    map_inv (ch\<lparr>ch_timers := taken_timers I E now ps (ch_timers ch), ch_deadlineMap := m\<rparr>) \<and>
    entries m = fold (reenter I E now (ch_timers ch)) ps (qs @ zs)"
  using assms
proof (induction ps arbitrary: ch qs zs due)
  case Nil
  have "announce_loop I E now (first_ref qs) due ch = Some (due, ch)"
    by (rule announce_loop_stop) (use Nil.prems in simp_all)
  then show ?case using Nil.prems(1,2)
    by (intro exI [of _ "ch_deadlineMap ch"]) (simp add: due_entries_def taken_timers_def)
next
  case (Cons p ps)
  obtain k h n where p: "p = (k, h, n)" by (cases p)
  have timers: "\<forall>e\<in>set ps. entry_timer e \<noteq> n" using entry_timers_distinct [OF Cons.prems(1)] Cons.prems(2) p by (auto simp: image_iff)
  have "h \<notin> entry_ref ` set qs" using entries_distinct [of "ch_deadlineMap ch"] Cons.prems(1,2) p by (auto simp: map_inv_def)
  then have "first_ref qs \<noteq> Some h" by (cases qs) (auto simp: first_ref_def)
  moreover have ok: "no_overflow I E now (ch_timers ch) (k, h, n)" "k \<le> now" using Cons.prems(3,6) p by auto
  moreover have "deadlines ch = (k, h, n) # (ps @ qs @ zs)" using Cons.prems(2) p by simp
  ultimately obtain t m1 where t: "ch_timers ch n = Some t" and step:
    "announce_loop I E now (first_ref qs) due ch =
       announce_loop I E now (marked I E now (ch_timers ch) (k, h, n) (first_ref qs)) (due @ [due_entry I n k t])
         ((set_timer n (taken_timer I E now (k, h, n) t) ch)\<lparr>ch_deadlineMap := m1\<rparr>)"
    "map_inv ((set_timer n (taken_timer I E now (k, h, n) t) ch)\<lparr>ch_deadlineMap := m1\<rparr>)"
    "entries m1 = reenter I E now (ch_timers ch) (k, h, n) (ps @ qs @ zs)"
    using announce_step [OF Cons.prems(1)] by metis
  let ?ch = "(set_timer n (taken_timer I E now (k, h, n) t) ch)\<lparr>ch_deadlineMap := m1\<rparr>"
  obtain qs1 zs1 where split: "reenter I E now (ch_timers ch) (k, h, n) (ps @ qs @ zs) = ps @ qs1 @ zs1"
    "reenter I E now (ch_timers ch) (k, h, n) (qs @ zs) = qs1 @ zs1"
    "first_ref qs1 = marked I E now (ch_timers ch) (k, h, n) (first_ref qs)" "\<forall>e\<in>set qs1. fst e = now" "\<forall>e\<in>set zs1. now < fst e"
    by (rule reenter_split [of ps now qs zs I E "ch_timers ch" "(k, h, n)"]) (use Cons.prems(3-5) ok in auto)
  have same: "ch_timers ?ch (entry_timer e) = ch_timers ch (entry_timer e)" if "e \<in> set ps" for e
    using timers that by (simp add: set_timer_def)
  have later: "\<forall>e\<in>set ps. no_overflow I E now (ch_timers ?ch) e" "deadlines ?ch = ps @ qs1 @ zs1" "\<forall>e\<in>set ps. fst e \<le> now"
    using Cons.prems(3,6) same step(3) split(1) by (simp_all add: no_overflow_def)
  obtain m where m: "announce_loop I E now (first_ref qs1) (due @ [due_entry I n k t]) ?ch =
      Some ((due @ [due_entry I n k t]) @ due_entries I (ch_timers ?ch) ps,
            ?ch\<lparr>ch_timers := taken_timers I E now ps (ch_timers ?ch), ch_deadlineMap := m\<rparr>)"
    "map_inv (?ch\<lparr>ch_timers := taken_timers I E now ps (ch_timers ?ch), ch_deadlineMap := m\<rparr>)"
    "entries m = fold (reenter I E now (ch_timers ?ch)) ps (qs1 @ zs1)"
    using Cons.IH [OF step(2) later(2,3) split(4,5) later(1), of "due @ [due_entry I n k t]"] by blast
  have "taken_timers I E now ps (ch_timers ?ch) = taken_timers I E now (p # ps) (ch_timers ch)"
    using taken_timers_Cons [of "ch_timers ch" n t ps I E now k h] t timers p by (simp add: set_timer_def)
  moreover have "due_entries I (ch_timers ?ch) ps = due_entries I (ch_timers ch) ps"
    using same by (simp add: due_entries_def)
  moreover have "due_entries I (ch_timers ch) (p # ps) = due_entry I n k t # due_entries I (ch_timers ch) ps"
    using t p by (simp add: due_entries_def)
  moreover have "fold (reenter I E now (ch_timers ?ch)) ps (qs1 @ zs1) = fold (reenter I E now (ch_timers ch)) (p # ps) (qs @ zs)"
    using fold_reenter_cong [of ps "ch_timers ?ch" "ch_timers ch"] same split(2) p by simp
  ultimately show ?case using m step(1) split(3) by (intro exI [of _ m]) (simp add: set_timer_def)
qed

end
