(* ===== verification/Chronology_Safety.thy ===== *)
theory Chronology_Safety
  imports Chronology_Announce "HOL-Library.Multiset"
begin

section \<open>The invariant of a chronology\<close>

text \<open>
  This theory states the invariant of a chronology and shows that its operations keep it, whatever
  the callbacks do: the handles of the timers are the entries of the map, every reference to a timer is
  accounted for, the catalog of nodes is in order, and the flags read without the lock agree with the state. Operations
  never touch a timer that has been disposed of.
\<close>

subsection \<open>The parts of the invariant\<close>

text \<open>The references to timers held by deferred functions, and those in transit in an operation.\<close>

abbreviation deferred_refs :: "'t Chronology \<Rightarrow> timer_ref list" where
  "deferred_refs ch \<equiv> List.map_filter functor_timer (ch_functorQueue ch)"

definition expected_refs :: "timer_ref list \<Rightarrow> 't Timer \<Rightarrow> timer_ref \<Rightarrow> nat" where
  "expected_refs ns t n = tm_held t + (if tm_handle t = None then 0 else 1) + count_list ns n"

definition refs_ok :: "timer_ref list \<Rightarrow> (timer_ref \<rightharpoonup> 't Timer) \<Rightarrow> bool" where
  "refs_ok ns T \<longleftrightarrow>
     (\<forall>n t. T n = Some t \<longrightarrow> tm_refs t = expected_refs ns t n \<and> 0 < expected_refs ns t n) \<and> set ns \<subseteq> dom T"

definition catalog_ok :: "'t Chronology \<Rightarrow> bool" where
  "catalog_ok ch \<longleftrightarrow>
     ch_nodeArray ch = [0..<length (ch_nodeArray ch)] \<and> distinct (ch_nodeFree ch) \<and>
     set (ch_nodeFree ch) \<subseteq> set (ch_nodeArray ch) \<and>
     dom (ch_timers ch) = set (ch_nodeArray ch) - set (ch_nodeFree ch) \<and>
     ch_nodeCount ch = card (dom (ch_timers ch))"

text \<open>
  A timer has a callback or a session until it is closed; its period, if it recurs, and every deadline are
  bounded, so that the next deadline is a number of 64 bits.
\<close>

definition timer_ok :: "'t interval_library \<Rightarrow> int \<Rightarrow> 't Timer \<Rightarrow> bool" where
  "timer_ok I B t \<longleftrightarrow>
     (tm_callback t = None \<or> tm_session t = None) \<and>
     (tm_state t = e_STATE_CLOSED \<longleftrightarrow> tm_callback t = None \<and> tm_session t = None) \<and>
     to_backoff (tm_options t) = None \<and>
     (Timer_period I t \<noteq> None \<longrightarrow> 0 \<le> il_totalMicroseconds I (tm_period t) \<and> il_totalMicroseconds I (tm_period t) \<le> B)"

definition flags_ok :: "'t Chronology \<Rightarrow> bool" where
  "flags_ok ch \<longleftrightarrow>
     (ch_deadlineMapEmpty ch \<longleftrightarrow> deadlines ch = []) \<and>
     (ch_functorQueueEmpty ch \<longleftrightarrow> ch_functorQueue ch = []) \<and>
     0 \<le> ch_deadlineMapEarliest ch \<and> (\<forall>e\<in>set (deadlines ch). ch_deadlineMapEarliest ch \<le> fst e)"

definition ch_inv :: "'t interval_library \<Rightarrow> int \<Rightarrow> timer_ref list \<Rightarrow> 't Chronology \<Rightarrow> bool" where
  "ch_inv I B ns ch \<longleftrightarrow>
     map_inv ch \<and> refs_ok (ns @ deferred_refs ch) (ch_timers ch) \<and> catalog_ok ch \<and> flags_ok ch \<and>
     (\<forall>n t. ch_timers ch n = Some t \<longrightarrow> timer_ok I B t) \<and> (\<forall>e\<in>set (deadlines ch). 0 \<le> fst e)"

lemma ch_invD:
  assumes "ch_inv I B ns ch"
  shows "map_inv ch" "refs_ok (ns @ deferred_refs ch) (ch_timers ch)" "catalog_ok ch" "flags_ok ch"
    "ch_timers ch n = Some t \<Longrightarrow> timer_ok I B t" "e \<in> set (deadlines ch) \<Longrightarrow> 0 \<le> fst e"
  using assms by (auto simp: ch_inv_def)

lemma ch_inv_alive: "ch_inv I B ns ch \<Longrightarrow> n \<in> set ns \<Longrightarrow> \<exists>t. ch_timers ch n = Some t"
  by (auto simp: ch_inv_def refs_ok_def)

subsection \<open>Changes of a timer\<close>

lemma set_timer_simps [simp]:
  "ch_timers (set_timer n t ch) = (ch_timers ch)(n \<mapsto> t)"
  "ch_deadlineMap (set_timer n t ch) = ch_deadlineMap ch"
  "ch_functorQueue (set_timer n t ch) = ch_functorQueue ch"
  "ch_functorQueueEmpty (set_timer n t ch) = ch_functorQueueEmpty ch"
  "ch_deadlineMapEmpty (set_timer n t ch) = ch_deadlineMapEmpty ch"
  "ch_deadlineMapEarliest (set_timer n t ch) = ch_deadlineMapEarliest ch"
  "ch_nodeArray (set_timer n t ch) = ch_nodeArray ch"
  "ch_nodeFree (set_timer n t ch) = ch_nodeFree ch"
  "ch_nodeCount (set_timer n t ch) = ch_nodeCount ch"
  by (simp_all add: set_timer_def)

text \<open>The parts of the invariant that do not depend on the references and handles of the timers.\<close>

lemma catalog_ok_cong:
  assumes "catalog_ok ch" and "dom (ch_timers ch1) = dom (ch_timers ch)" and "ch_nodeArray ch1 = ch_nodeArray ch"
    "ch_nodeFree ch1 = ch_nodeFree ch" "ch_nodeCount ch1 = ch_nodeCount ch"
  shows "catalog_ok ch1"
  using assms by (simp add: catalog_ok_def)

lemma flags_ok_cong:
  assumes "flags_ok ch" and "ch_deadlineMap ch1 = ch_deadlineMap ch" "ch_functorQueue ch1 = ch_functorQueue ch"
    "ch_deadlineMapEmpty ch1 = ch_deadlineMapEmpty ch" "ch_functorQueueEmpty ch1 = ch_functorQueueEmpty ch"
    "ch_deadlineMapEarliest ch1 = ch_deadlineMapEarliest ch"
  shows "flags_ok ch1"
  using assms by (simp add: flags_ok_def)

lemma handles_ok_cong:
  assumes "handles_ok T es" and "T n = Some t" and "tm_handle t1 = tm_handle t"
  shows "handles_ok (T(n \<mapsto> t1)) es"
  using assms unfolding handles_ok_def by (fastforce split: if_splits)

lemma refs_ok_update:
  assumes ok: "refs_ok ns T" and same: "\<And>m. m \<noteq> n \<Longrightarrow> count_list ns1 m = count_list ns m" and sub: "set ns1 \<subseteq> insert n (set ns)"
    and new: "tm_refs t1 = expected_refs ns1 t1 n" "0 < tm_refs t1"
  shows "refs_ok ns1 (T(n \<mapsto> t1))"
  unfolding refs_ok_def
proof (intro conjI allI impI)
  fix m t
  assume t: "(T(n \<mapsto> t1)) m = Some t"
  have "expected_refs ns1 t m = expected_refs ns t m" if "m \<noteq> n" using same [OF that] by (simp add: expected_refs_def)
  then show "tm_refs t = expected_refs ns1 t m" "0 < expected_refs ns1 t m"
    using t ok new by (auto simp: refs_ok_def split: if_splits)
next
  show "set ns1 \<subseteq> dom (T(n \<mapsto> t1))" using ok sub by (auto simp: refs_ok_def)
qed

lemma refs_ok_remove:
  assumes ok: "refs_ok (n # ns) T" and n: "n \<notin> set ns"
  shows "refs_ok ns (T(n := None))"
  unfolding refs_ok_def
proof (intro conjI allI impI)
  fix m t
  assume t: "(T(n := None)) m = Some t"
  then have "T m = Some t" "expected_refs (n # ns) t m = expected_refs ns t m"
    by (auto simp: expected_refs_def split: if_splits)
  then show "tm_refs t = expected_refs ns t m" "0 < expected_refs ns t m" using ok unfolding refs_ok_def by metis+
next
  show "set ns \<subseteq> dom (T(n := None))" using ok n by (auto simp: refs_ok_def)
qed

text \<open>A timer may change in what is not a reference or a handle, or gain a reference that is accounted for.\<close>

lemma ch_inv_set_timer:
  assumes inv: "ch_inv I B ns ch" and t: "ch_timers ch n = Some t" and ok: "timer_ok I B t1" and handle: "tm_handle t1 = tm_handle t"
    and refs: "\<And>m. m \<noteq> n \<Longrightarrow> count_list ns1 m = count_list ns m" "set ns1 \<subseteq> insert n (set ns)"
      "tm_refs t1 = expected_refs (ns1 @ deferred_refs ch) t1 n" "0 < tm_refs t1"
  shows "ch_inv I B ns1 (set_timer n t1 ch)"
proof -
  have "map_inv (set_timer n t1 ch)"
    using ch_invD(1) [OF inv] handles_ok_cong [of "ch_timers ch" "deadlines ch" n t t1] t handle by (simp add: map_inv_def)
  moreover have "refs_ok (ns1 @ deferred_refs ch) (ch_timers (set_timer n t1 ch))" unfolding set_timer_simps
    by (rule refs_ok_update [OF ch_invD(2) [OF inv]]) (use refs in auto)
  moreover have "catalog_ok (set_timer n t1 ch)"
    by (rule catalog_ok_cong [OF ch_invD(3) [OF inv]]) (use t in \<open>auto simp: dom_def\<close>)
  moreover have "flags_ok (set_timer n t1 ch)" by (rule flags_ok_cong [OF ch_invD(4) [OF inv]]) simp_all
  ultimately show ?thesis using inv ok by (simp add: ch_inv_def)
qed

lemma ch_inv_refs:
  assumes "ch_inv I B ns ch" and "ch_timers ch n = Some t"
  shows "tm_refs t = expected_refs (ns @ deferred_refs ch) t n" and "0 < tm_refs t"
  using ch_invD(2) [OF assms(1)] assms(2) by (auto simp: refs_ok_def)

text \<open>References are acquired into, and released from, those in transit.\<close>

lemma acquireRef_inv:
  assumes inv: "ch_inv I B ns ch" and t: "ch_timers ch n = Some t"
  shows "\<exists>ch1. acquireRef n ch = Some ch1 \<and> ch_inv I B (n # ns) ch1 \<and> ch1 = set_timer n (t\<lparr>tm_refs := tm_refs t + 1\<rparr>) ch"
proof -
  have "ch_inv I B (n # ns) (set_timer n (t\<lparr>tm_refs := tm_refs t + 1\<rparr>) ch)"
    by (rule ch_inv_set_timer [OF inv t])
      (use ch_invD(5) [OF inv t] ch_inv_refs [OF inv t] in \<open>auto simp: timer_ok_def Timer_period_def expected_refs_def\<close>)
  then show ?thesis using t by (simp add: acquireRef_def)
qed

lemma disposeRep_inv:
  assumes inv: "ch_inv I B (n # ns) ch" and t: "ch_timers ch n = Some t" "tm_refs t \<le> 1"
  shows "ch_inv I B ns (disposeRep n ch)"
proof -
  have gone: "tm_handle t = None" "n \<notin> set (ns @ deferred_refs ch)"
    using ch_inv_refs(1) [OF inv t(1)] t(2) count_notin
    by (auto simp: expected_refs_def count_list_0_iff split: if_splits)
  have T: "ch_timers (disposeRep n ch) = (ch_timers ch)(n := None)" "deadlines (disposeRep n ch) = deadlines ch"
    by (simp_all add: disposeRep_def)
  have "handles_ok ((ch_timers ch)(n := None)) (deadlines ch)"
    using ch_invD(1) [OF inv] t gone(1) by (fastforce simp: map_inv_def handles_ok_def split: if_splits)
  then have "map_inv (disposeRep n ch)" using ch_invD(1) [OF inv] by (simp add: map_inv_def disposeRep_def)
  moreover have "refs_ok (ns @ deferred_refs ch) ((ch_timers ch)(n := None))"
    using refs_ok_remove [of n "ns @ deferred_refs ch" "ch_timers ch"] ch_invD(2) [OF inv] gone(2) by simp
  moreover have "catalog_ok (disposeRep n ch)"
  proof -
    have "n \<in> set (ch_nodeArray ch) - set (ch_nodeFree ch)" using ch_invD(3) [OF inv] t(1) unfolding catalog_ok_def by blast
    then show ?thesis using ch_invD(3) [OF inv] unfolding catalog_ok_def
      by (auto simp: disposeRep_def card_Diff_singleton)
  qed
  moreover have "flags_ok (disposeRep n ch)"
    by (rule flags_ok_cong [OF ch_invD(4) [OF inv]]) (simp_all add: disposeRep_def)
  ultimately show ?thesis using inv by (auto simp: ch_inv_def T disposeRep_def)
qed

lemma releaseRef_inv:
  assumes inv: "ch_inv I B (n # ns) ch"
  shows "\<exists>ch1. releaseRef n ch = Some ch1 \<and> ch_inv I B ns ch1"
proof -
  obtain t where t: "ch_timers ch n = Some t" using ch_inv_alive [OF inv, of n] by auto
  show ?thesis
  proof (cases "tm_refs t \<le> 1")
    case True
    then show ?thesis using disposeRep_inv [OF inv t] t by (simp add: releaseRef_def)
  next
    case False
    have "ch_inv I B ns (set_timer n (t\<lparr>tm_refs := tm_refs t - 1\<rparr>) ch)"
      by (rule ch_inv_set_timer [OF inv t])
        (use ch_invD(5) [OF inv t] ch_inv_refs [OF inv t] False in
          \<open>auto simp: timer_ok_def Timer_period_def expected_refs_def\<close>)
    then show ?thesis using t False by (simp add: releaseRef_def)
  qed
qed

lemma releaseRefs_inv: "ch_inv I B (ns1 @ ns) ch \<Longrightarrow> \<exists>ch1. releaseRefs ns1 ch = Some ch1 \<and> ch_inv I B ns ch1"
proof (induction ns1 arbitrary: ch)
  case (Cons n ns1)
  then obtain ch1 where "releaseRef n ch = Some ch1" "ch_inv I B (ns1 @ ns) ch1"
    using releaseRef_inv [of I B n "ns1 @ ns" ch] by auto
  then show ?case using Cons.IH by auto
qed simp

lemma refs_ok_cong:
  assumes "mset ns1 = mset ns"
  shows "refs_ok ns1 T \<longleftrightarrow> refs_ok ns T"
proof -
  have "count_list ns1 n = count_list ns n" for n using assms by (metis count_mset)
  moreover have "set ns1 = set ns" using assms by (metis set_mset_mset)
  ultimately show ?thesis by (simp add: refs_ok_def expected_refs_def)
qed

text \<open>A reference in transit may become one of a deferred function.\<close>

lemma ch_inv_cong:
  assumes inv: "ch_inv I B ns ch" and T: "ch_timers ch1 = ch_timers ch" "ch_deadlineMap ch1 = ch_deadlineMap ch"
      "ch_nodeArray ch1 = ch_nodeArray ch" "ch_nodeFree ch1 = ch_nodeFree ch" "ch_nodeCount ch1 = ch_nodeCount ch"
    and refs: "mset (ns1 @ deferred_refs ch1) = mset (ns @ deferred_refs ch)"
    and flags: "ch_deadlineMapEmpty ch1 = ch_deadlineMapEmpty ch" "ch_deadlineMapEarliest ch1 = ch_deadlineMapEarliest ch"
      "ch_functorQueueEmpty ch1 \<longleftrightarrow> ch_functorQueue ch1 = []"
  shows "ch_inv I B ns1 ch1"
proof -
  have "refs_ok (ns1 @ deferred_refs ch1) (ch_timers ch1)" using ch_invD(2) [OF inv] T(1) refs_ok_cong [OF refs, of "ch_timers ch"] by simp
  moreover have "flags_ok ch1" using ch_invD(4) [OF inv] T flags by (simp add: flags_ok_def)
  moreover have "catalog_ok ch1" by (rule catalog_ok_cong [OF ch_invD(3) [OF inv]]) (use T in simp_all)
  ultimately show ?thesis using inv T by (simp add: ch_inv_def map_inv_def)
qed

lemma Chronology_execute_inv:
  assumes "ch_inv I B (case functor_timer f of None \<Rightarrow> ns | Some n \<Rightarrow> n # ns) ch"
  shows "ch_inv I B ns (Chronology_execute f ch)"
  by (rule ch_inv_cong [OF assms]) (use ch_invD(4) [OF assms] in \<open>auto simp: Chronology_execute_def interruptAll_def flags_ok_def
      Let_def List.map_filter_def split: option.split\<close>)

lemma execute_bound_inv:
  assumes "ch_inv I B ns ch" and "ch_timers ch n = Some t" and "functor_timer f = Some n"
  shows "\<exists>ch1. execute_bound n f ch = Some ch1 \<and> ch_inv I B ns ch1"
  using acquireRef_inv [OF assms(1,2)] Chronology_execute_inv [where f = f and ns = ns and I = I and B = B] assms(3)
  by (auto simp: execute_bound_def)

lemma Chronology_moveAndExecute_inv:
  assumes "ch_inv I B ns ch"
  shows "ch_inv I B ns (Chronology_moveAndExecute (map Fn_user ks) (map_option Fn_user k) ch)"
  by (rule ch_inv_cong [OF assms])
    (auto simp: Chronology_moveAndExecute_def interruptAll_def Let_def List.map_filter_def split: option.split)

subsection \<open>Scheduling\<close>

text \<open>The entries of the other timers.\<close>

abbreviation others :: "timer_ref \<Rightarrow> 't Chronology \<Rightarrow> deadline_entry list" where
  "others n ch \<equiv> filter (\<lambda>e. entry_timer e \<noteq> n) (deadlines ch)"

lemma handles_ok_others:
  assumes "handles_ok T es"
  shows "tm_handle t = None \<Longrightarrow> handles_ok (T(n \<mapsto> t)) (filter (\<lambda>e. entry_timer e \<noteq> n) es)"
    and "tm_handle t = Some h \<Longrightarrow> set es1 = insert (x, h, n) (set (filter (\<lambda>e. entry_timer e \<noteq> n) es)) \<Longrightarrow>
      handles_ok (T(n \<mapsto> t)) es1"
  using assms unfolding handles_ok_def by (fastforce split: if_splits)+

lemma others_handle:
  assumes inv: "map_inv ch" and t: "ch_timers ch n = Some t"
  shows "tm_handle t = Some h \<Longrightarrow> others n ch = filter (\<lambda>e. entry_ref e \<noteq> h) (deadlines ch)"
    and "tm_handle t = None \<Longrightarrow> others n ch = deadlines ch"
proof -
  have distinct: "distinct (map entry_ref (deadlines ch))" using entries_distinct [of "ch_deadlineMap ch"] inv by (simp add: map_inv_def)
  {
    assume h: "tm_handle t = Some h"
    obtain k where k: "(k, h, n) \<in> set (deadlines ch)" using handle_entry [OF inv t h] by blast
    have "entry_timer e \<noteq> n \<longleftrightarrow> entry_ref e \<noteq> h" if "e \<in> set (deadlines ch)" for e
    proof
      assume "entry_timer e \<noteq> n"
      moreover have "entry_ref e = h \<Longrightarrow> e = (k, h, n)"
        using distinct inj_onD [of entry_ref "set (deadlines ch)" e "(k, h, n)"] k that by (auto simp: distinct_map)
      ultimately show "entry_ref e \<noteq> h" by (metis snd_conv)
    next
      assume "entry_ref e \<noteq> h"
      then show "entry_timer e \<noteq> n" using entry_handle [OF inv, of "fst e" "entry_ref e" "entry_timer e"] that t h by auto
    qed
    then show "others n ch = filter (\<lambda>e. entry_ref e \<noteq> h) (deadlines ch)" by (rule filter_cong [OF refl])
  }
  {
    assume h: "tm_handle t = None"
    have "entry_timer e \<noteq> n" if "e \<in> set (deadlines ch)" for e
      using entry_handle [OF inv, of "fst e" "entry_ref e" "entry_timer e"] that t h by auto
    then show "others n ch = deadlines ch" by (simp add: filter_id_conv)
  }
qed

lemma place_deadline_ok:
  assumes inv: "map_inv ch" and t: "ch_timers ch n = Some t" and t1: "tm_handle t1 = tm_handle t" and level: "level \<le> k_MAX_LEVEL"
  obtains h m where "place_deadline level n us t1 (ch_deadlineMap ch) =
      Some (\<forall>e\<in>set (others n ch). us < fst e, t1\<lparr>tm_handle := Some h,
              tm_refs := tm_refs t1 + (if tm_handle t = None then 1 else 0)\<rparr>, m)"
    "sl_inv m" "entries m = insert_entry (us, h, n) (others n ch)"
proof (cases "tm_handle t")
  case None
  have es: "others n ch = deadlines ch" by (rule others_handle(2) [OF inv t None])
  obtain m where "SkipList_addR level us n (ch_deadlineMap ch) =
      Some (sl_fresh (ch_deadlineMap ch), \<forall>e\<in>set (deadlines ch). us < fst e, m)"
    "SkipList_addL level us n (ch_deadlineMap ch) =
      Some (sl_fresh (ch_deadlineMap ch), \<forall>e\<in>set (deadlines ch). us < fst e, m)" "sl_inv m"
    "entries m = insert_entry (us, sl_fresh (ch_deadlineMap ch), n) (deadlines ch)"
    using inv unfolding map_inv_def by (rule SkipList_add [OF conjunct1 level])
  note added = this
  then have "place_deadline level n us t1 (ch_deadlineMap ch) =
      Some (\<forall>e\<in>set (others n ch). us < fst e, t1\<lparr>tm_handle := Some (sl_fresh (ch_deadlineMap ch)), tm_refs := tm_refs t1 + 1\<rparr>, m)"
    using None t1 es by (cases "us = 0") (simp_all add: place_deadline_def)
  then show thesis using that [of "sl_fresh (ch_deadlineMap ch)" m] None es added(3,4) by simp
next
  case (Some h)
  have es: "others n ch = filter (\<lambda>e. entry_ref e \<noteq> h) (deadlines ch)" by (rule others_handle(1) [OF inv t Some])
  obtain k where "(k, h, n) \<in> set (deadlines ch)" using handle_entry [OF inv t Some] by blast
  then obtain m where "SkipList_updateR h us (ch_deadlineMap ch) = Some (\<forall>e\<in>set (others n ch). us < fst e, m)" "sl_inv m"
    "entries m = insert_entry (us, h, n) (others n ch)"
    using map_updateR_entry [of "ch_deadlineMap ch" k h n us] inv es by (auto simp: map_inv_def)
  then show thesis using that [of h m] Some t1 by (simp add: place_deadline_def)
qed

text \<open>The invariant after a change of the map and of one timer.\<close>

lemma ch_inv_map:
  assumes inv: "ch_inv I B ns ch" and t: "ch_timers ch n = Some t" and ok: "timer_ok I B t1"
    and m: "sl_inv m" "handles_ok ((ch_timers ch)(n \<mapsto> t1)) (entries m)" "\<forall>e\<in>set (entries m). 0 \<le> fst e"
    and refs: "\<And>m. m \<noteq> n \<Longrightarrow> count_list ns1 m = count_list ns m" "set ns1 \<subseteq> insert n (set ns)"
      "tm_refs t1 = expected_refs (ns1 @ deferred_refs ch) t1 n" "0 < tm_refs t1"
    and flags: "b \<longleftrightarrow> entries m = []" "0 \<le> x" "\<forall>e\<in>set (entries m). x \<le> fst e"
  shows "ch_inv I B ns1 ((set_timer n t1 ch)\<lparr>ch_deadlineMap := m, ch_deadlineMapEmpty := b, ch_deadlineMapEarliest := x\<rparr>)"
proof -
  let ?ch = "(set_timer n t1 ch)\<lparr>ch_deadlineMap := m, ch_deadlineMapEmpty := b, ch_deadlineMapEarliest := x\<rparr>"
  have "refs_ok (ns1 @ deferred_refs ch) ((ch_timers ch)(n \<mapsto> t1))"
    by (rule refs_ok_update [OF ch_invD(2) [OF inv]]) (use refs in auto)
  moreover have "catalog_ok ?ch"
    by (rule catalog_ok_cong [OF ch_invD(3) [OF inv]]) (use t in \<open>auto simp: dom_def\<close>)
  moreover have "flags_ok ?ch" using ch_invD(4) [OF inv] flags by (simp add: flags_ok_def)
  ultimately show ?thesis using inv ok m by (simp add: ch_inv_def map_inv_def)
qed

lemma ch_inv_eq:
  assumes "ch_inv I B ns ch" and "ch_timers ch1 = ch_timers ch" "ch_deadlineMap ch1 = ch_deadlineMap ch"
      "ch_nodeArray ch1 = ch_nodeArray ch" "ch_nodeFree ch1 = ch_nodeFree ch" "ch_nodeCount ch1 = ch_nodeCount ch"
      "ch_functorQueue ch1 = ch_functorQueue ch" "ch_functorQueueEmpty ch1 = ch_functorQueueEmpty ch"
      "ch_deadlineMapEmpty ch1 = ch_deadlineMapEmpty ch" "ch_deadlineMapEarliest ch1 = ch_deadlineMapEarliest ch"
  shows "ch_inv I B ns ch1"
  using assms by (simp add: ch_inv_def map_inv_def catalog_ok_def flags_ok_def)

lemma insert_entry_not_Nil [simp]: "insert_entry x es \<noteq> []"
  by (simp add: insert_entry_def)

lemma length_insert_entry [simp]: "length (insert_entry x es) = Suc (length es)"
  using sum_length_filter_compl [of "\<lambda>e. fst e \<le> fst x" es] by (simp add: insert_entry_def not_le)

lemma sl_length_entries: "sl_inv m \<Longrightarrow> sl_length m = length (entries m)"
  using sl_invD(5) [of m] by (simp add: entries_def)

lemma placed_flags:
  assumes flags: "flags_ok ch" and m: "sl_inv m" "entries m = insert_entry (us, h, n) (others n ch)"
  shows "(if sl_length m = 1 then False else ch_deadlineMapEmpty ch) \<longleftrightarrow> entries m = []"
    and "\<forall>e\<in>set (entries m). (if \<forall>e\<in>set (others n ch). us < fst e then us else ch_deadlineMapEarliest ch) \<le> fst e"
proof -
  have "\<not> ch_deadlineMapEmpty ch" if "others n ch \<noteq> []" using that flags by (auto simp: flags_ok_def)
  then show "(if sl_length m = 1 then False else ch_deadlineMapEmpty ch) \<longleftrightarrow> entries m = []"
    using m(2) sl_length_entries [OF m(1)] by auto
  show "\<forall>e\<in>set (entries m). (if \<forall>e\<in>set (others n ch). us < fst e then us else ch_deadlineMapEarliest ch) \<le> fst e"
  proof (cases "\<forall>e\<in>set (others n ch). us < fst e")
    case True
    then have "\<forall>e\<in>set (others n ch). us \<le> fst e" by (blast intro: less_imp_le)
    then show ?thesis using True m(2) by simp
  next
    case False
    then obtain e where e: "e \<in> set (others n ch)" "fst e \<le> us" by (auto simp: not_less)
    then have "ch_deadlineMapEarliest ch \<le> fst e" using flags by (auto simp: flags_ok_def)
    then show ?thesis using False e m(2) flags by (auto simp: flags_ok_def)
  qed
qed

definition schedule_ok :: "'t interval_library \<Rightarrow> int \<Rightarrow> nat \<Rightarrow> 't \<Rightarrow> 't \<Rightarrow> bool" where
  "schedule_ok I B level deadline period \<longleftrightarrow>
     level \<le> k_MAX_LEVEL \<and> 0 \<le> il_totalMicroseconds I (il_min I deadline (k_MAX_TIME_INTERVAL I)) \<and>
     0 \<le> il_totalMicroseconds I (il_min I period (k_MAX_TIME_INTERVAL I)) \<and>
     il_totalMicroseconds I (il_min I period (k_MAX_TIME_INTERVAL I)) \<le> B"

lemma Timer_schedule_placed:
  assumes t: "ch_timers ch n = Some t" "tm_state t \<noteq> e_STATE_CLOSED"
    and placed: "place_deadline level n (il_totalMicroseconds I (il_min I deadline (k_MAX_TIME_INTERVAL I)))
      (t\<lparr>tm_period := il_min I period (k_MAX_TIME_INTERVAL I), tm_state := e_STATE_SCHEDULED\<rparr>) (ch_deadlineMap ch) =
      Some (b, t2, m)"
    and h: "tm_handle t2 = Some h" "map_option nd_data (sl_nodes m h) = Some n"
  shows "\<exists>k. Timer_schedule I level n deadline period ch = Some (E_OK, (set_timer n t2 ch)
      \<lparr>ch_deadlineMap := m, ch_deadlineMapEmpty := (if sl_length m = 1 then False else ch_deadlineMapEmpty ch),
       ch_deadlineMapEarliest :=
         (if b then il_totalMicroseconds I (il_min I deadline (k_MAX_TIME_INTERVAL I)) else ch_deadlineMapEarliest ch),
       ch_interrupts := k\<rparr>)"
  by (rule exI [of _ "if b then ch_interrupts ch + 1 else ch_interrupts ch"])
    (use assms in \<open>auto simp: Timer_schedule_def interruptAll_def set_timer_def Let_def intro!: Chronology.equality\<close>)

text \<open>
  A timer that is not closed is scheduled: its entry in the map has the deadline, and the time known as the earliest
  is not later than any deadline.
\<close>

lemma Timer_schedule_inv:
  assumes inv: "ch_inv I B ns ch" and t: "ch_timers ch n = Some t" and ok: "schedule_ok I B level deadline period"
  shows "\<exists>e ch1. Timer_schedule I level n deadline period ch = Some (e, ch1) \<and> ch_inv I B ns ch1"
proof (cases "tm_state t = e_STATE_CLOSED")
  case True
  then show ?thesis using t inv by (auto simp: Timer_schedule_def Let_def)
next
  case False
  let ?us = "il_totalMicroseconds I (il_min I deadline (k_MAX_TIME_INTERVAL I))"
  let ?t1 = "t\<lparr>tm_period := il_min I period (k_MAX_TIME_INTERVAL I), tm_state := e_STATE_SCHEDULED\<rparr>"
  let ?front = "\<forall>e\<in>set (others n ch). ?us < fst e"
  have map: "map_inv ch" by (rule ch_invD(1) [OF inv])
  have level: "level \<le> k_MAX_LEVEL" using ok by (simp add: schedule_ok_def)
  obtain h m where placed: "place_deadline level n ?us ?t1 (ch_deadlineMap ch) =
      Some (?front, ?t1\<lparr>tm_handle := Some h, tm_refs := tm_refs ?t1 + (if tm_handle t = None then 1 else 0)\<rparr>, m)"
    and m: "sl_inv m" "entries m = insert_entry (?us, h, n) (others n ch)"
    by (rule place_deadline_ok [OF map t, of ?t1 level ?us]) (use level in auto)
  let ?t2 = "?t1\<lparr>tm_handle := Some h, tm_refs := tm_refs ?t1 + (if tm_handle t = None then 1 else 0)\<rparr>"
  let ?b = "if sl_length m = 1 then False else ch_deadlineMapEmpty ch"
  let ?x = "if ?front then ?us else ch_deadlineMapEarliest ch"
  have b: "?b \<longleftrightarrow> entries m = []" and x: "\<forall>e\<in>set (entries m). ?x \<le> fst e"
    using placed_flags [OF ch_invD(4) [OF inv] m] by blast+
  have new: "ch_inv I B ns ((set_timer n ?t2 ch)\<lparr>ch_deadlineMap := m, ch_deadlineMapEmpty := ?b, ch_deadlineMapEarliest := ?x\<rparr>)"
  proof (rule ch_inv_map [OF inv t])
    show "timer_ok I B ?t2" using ch_invD(5) [OF inv t] ok False by (auto simp: timer_ok_def schedule_ok_def Timer_period_def)
    show "handles_ok ((ch_timers ch)(n \<mapsto> ?t2)) (entries m)"
      by (rule handles_ok_others(2)) (use map m(2) in \<open>auto simp: map_inv_def\<close>)
    show "\<forall>e\<in>set (entries m). 0 \<le> fst e" using m(2) ok ch_invD(6) [OF inv] by (auto simp: schedule_ok_def)
    show "tm_refs ?t2 = expected_refs (ns @ deferred_refs ch) ?t2 n" "0 < tm_refs ?t2"
      using ch_inv_refs [OF inv t] by (auto simp: expected_refs_def)
    show "0 \<le> ?x" using ok ch_invD(4) [OF inv] by (simp add: schedule_ok_def flags_ok_def)
  qed (use m(1) b x in auto)
  have "map_option nd_data (sl_nodes m h) = Some n"
  proof -
    have e: "(?us, h, n) \<in> set (entries m)" using m(2) by simp
    then have "h \<in> dom (sl_nodes m)" using entry_refs [OF m(1)] by force
    then show ?thesis using entry_node [OF e] by (auto simp: node_data_def)
  qed
  then obtain k where "Timer_schedule I level n deadline period ch = Some (E_OK, (set_timer n ?t2 ch)
      \<lparr>ch_deadlineMap := m, ch_deadlineMapEmpty := ?b, ch_deadlineMapEarliest := ?x, ch_interrupts := k\<rparr>)"
    using Timer_schedule_placed [OF t False placed] by auto
  moreover have "ch_inv I B ns ((set_timer n ?t2 ch)
      \<lparr>ch_deadlineMap := m, ch_deadlineMapEmpty := ?b, ch_deadlineMapEarliest := ?x, ch_interrupts := k\<rparr>)"
    by (rule ch_inv_eq [OF new]) simp_all
  ultimately show ?thesis by blast
qed

subsection \<open>Cancelling and closing\<close>

lemma earliest_sorted: "sorted (map fst es) \<Longrightarrow> e \<in> set es \<Longrightarrow> fst (hd es) \<le> fst e"
  by (cases es) auto

lemma front_entry: "entries m = e # es \<Longrightarrow> frontNode m = Some (entry_ref e) \<and> node_key m (entry_ref e) = fst e"
  using entry_node [of "fst e" "entry_ref e" "snd (snd e)" m] by (simp add: frontNode_entries first_ref_def)

lemma Timer_withdraw_inv:
  assumes inv: "ch_inv I B (n # ns) ch" and t: "ch_timers ch n = Some t"
  shows "\<exists>ch1 t1. Timer_withdraw n ch = Some ch1 \<and> ch_inv I B (n # ns) ch1 \<and> ch_timers ch1 n = Some t1 \<and> tm_handle t1 = None"
proof (cases "tm_handle t")
  case None
  then show ?thesis using inv t by (simp add: Timer_withdraw_def)
next
  case (Some h)
  have map: "map_inv ch" by (rule ch_invD(1) [OF inv])
  obtain k where "(k, h, n) \<in> set (deadlines ch)" using handle_entry [OF map t Some] by blast
  then obtain m where m: "SkipList_remove h (ch_deadlineMap ch) = Some m" "sl_inv m" "entries m = others n ch"
    using map_remove_entry [of "ch_deadlineMap ch" k h n] map others_handle(1) [OF map t Some] by (auto simp: map_inv_def)
  let ?b = "if entries m = [] then True else ch_deadlineMapEmpty ch"
  let ?x = "if entries m = [] then 0 else fst (hd (entries m))"
  let ?ch2 = "(set_timer n (t\<lparr>tm_handle := None\<rparr>) ch)\<lparr>ch_deadlineMap := m, ch_deadlineMapEmpty := ?b, ch_deadlineMapEarliest := ?x\<rparr>"
  have new: "ch_inv I B (n # n # ns) ?ch2"
  proof (rule ch_inv_map [OF inv t])
    show "timer_ok I B (t\<lparr>tm_handle := None\<rparr>)" using ch_invD(5) [OF inv t] by (simp add: timer_ok_def Timer_period_def)
    show "handles_ok ((ch_timers ch)(n \<mapsto> t\<lparr>tm_handle := None\<rparr>)) (entries m)" unfolding m(3)
      by (rule handles_ok_others(1)) (use map in \<open>simp_all add: map_inv_def\<close>)
    show "tm_refs (t\<lparr>tm_handle := None\<rparr>) = expected_refs ((n # n # ns) @ deferred_refs ch) (t\<lparr>tm_handle := None\<rparr>) n"
      "0 < tm_refs (t\<lparr>tm_handle := None\<rparr>)" using ch_inv_refs [OF inv t] Some by (simp_all add: expected_refs_def)
    show "?b \<longleftrightarrow> entries m = []" using m(3) ch_invD(4) [OF inv] by (auto simp: flags_ok_def)
    show "0 \<le> ?x" using m(3) ch_invD(6) [OF inv] hd_in_set [of "entries m"] by auto
    show "\<forall>e\<in>set (entries m). ?x \<le> fst e" using entries_sorted [OF m(2)] earliest_sorted by auto
  qed (use m ch_invD(6) [OF inv] in auto)
  have "ch_timers ?ch2 n = Some (t\<lparr>tm_handle := None\<rparr>)" "1 < tm_refs t"
    using ch_inv_refs(1) [OF inv t] Some by (simp_all add: expected_refs_def)
  then obtain ch3 where ch3: "releaseRef n ?ch2 = Some ch3" "ch_inv I B (n # ns) ch3"
      "ch_timers ch3 n = Some (t\<lparr>tm_handle := None, tm_refs := tm_refs t - 1\<rparr>)"
    using releaseRef_inv [OF new] by (auto simp: releaseRef_def)
  have "Timer_withdraw n ch = releaseRef n ?ch2"
    using t Some m(1) front_entry [of m] by (cases "entries m")
      (auto simp: Timer_withdraw_def frontNode_entries first_ref_def Let_def set_timer_def intro!: arg_cong [of _ _ "releaseRef n"] Chronology.equality)
  then show ?thesis using ch3 by auto
qed

lemma timer_ok_simps:
  assumes lib: "interval_library_ok I" and ok: "timer_ok I B t"
  shows "tm_state t \<noteq> e_STATE_CLOSED \<Longrightarrow> timer_ok I B (t\<lparr>tm_state := e_STATE_WAITING, tm_period := il_zero I\<rparr>)"
    and "timer_ok I B ((give_up t)\<lparr>tm_state := e_STATE_CLOSED, tm_period := il_zero I\<rparr>)"
    and "timer_ok I B ((give_up t)\<lparr>tm_state := e_STATE_CLOSED\<rparr>)"
proof -
  have "ti_equal (il_time I) (il_zero I) (il_zero I)" using lib by (simp add: interval_library_ok_def time_library_ok_def)
  then show "tm_state t \<noteq> e_STATE_CLOSED \<Longrightarrow> timer_ok I B (t\<lparr>tm_state := e_STATE_WAITING, tm_period := il_zero I\<rparr>)"
    "timer_ok I B ((give_up t)\<lparr>tm_state := e_STATE_CLOSED, tm_period := il_zero I\<rparr>)"
    "timer_ok I B ((give_up t)\<lparr>tm_state := e_STATE_CLOSED\<rparr>)"
    using ok by (auto simp: timer_ok_def Timer_period_def give_up_def)
qed

lemma give_up_simps [simp]:
  "tm_handle (give_up t) = tm_handle t" "tm_refs (give_up t) = tm_refs t" "tm_held (give_up t) = tm_held t"
  "tm_options (give_up t) = tm_options t" "tm_period (give_up t) = tm_period t"
  by (simp_all add: give_up_def)

text \<open>
  What \<open>cancel\<close> and \<open>close\<close> have in common: the timer is changed and withdrawn while the
  operation holds a reference to it, and a function bound to it may be deferred.
\<close>

lemma withdraw_and_defer_inv:
  assumes inv: "ch_inv I B ns ch" and t: "ch_timers ch n = Some t" and ok: "timer_ok I B t1"
    and same: "tm_handle t1 = tm_handle t" "tm_refs t1 = tm_refs t" "tm_held t1 = tm_held t"
    and f: "\<And>g. f = Some g \<Longrightarrow> functor_timer g = Some n"
  shows "\<exists>ch4. do { ch1 \<leftarrow> acquireRef n (set_timer n t1 ch); ch2 \<leftarrow> Timer_withdraw n ch1;
      ch3 \<leftarrow> (case f of Some g \<Rightarrow> execute_bound n g ch2 | None \<Rightarrow> Some ch2); releaseRef n ch3 } = Some ch4 \<and> ch_inv I B ns ch4"
proof -
  have "ch_inv I B ns (set_timer n t1 ch)"
    by (rule ch_inv_set_timer [OF inv t ok same(1)]) (use ch_inv_refs [OF inv t] same in \<open>auto simp: expected_refs_def\<close>)
  then obtain ch1 where ch1: "acquireRef n (set_timer n t1 ch) = Some ch1" "ch_inv I B (n # ns) ch1"
    using acquireRef_inv [of I B ns "set_timer n t1 ch" n t1] by auto
  obtain t2 where "ch_timers ch1 n = Some t2" using ch_inv_alive [OF ch1(2), of n] by auto
  then obtain ch2 t3 where ch2: "Timer_withdraw n ch1 = Some ch2" "ch_inv I B (n # ns) ch2" "ch_timers ch2 n = Some t3"
    using Timer_withdraw_inv [OF ch1(2)] by blast
  obtain ch3 where ch3: "(case f of Some g \<Rightarrow> execute_bound n g ch2 | None \<Rightarrow> Some ch2) = Some ch3" "ch_inv I B (n # ns) ch3"
    using execute_bound_inv [OF ch2(2,3)] f ch2(2) by (cases f) auto
  obtain ch4 where "releaseRef n ch3 = Some ch4" "ch_inv I B ns ch4" using releaseRef_inv [OF ch3(2)] by blast
  then show ?thesis using ch1(1) ch2(1) ch3(1) by simp
qed

lemma functor_timers:
  "cancelling_functor n t = Some g \<Longrightarrow> functor_timer g = Some n"
  "closing_functor n t = Some g \<Longrightarrow> functor_timer g = Some n"
  by (auto simp: cancelling_functor_def closing_functor_def Let_def split: if_splits option.splits)

lemma Timer_cancel_inv:
  assumes lib: "interval_library_ok I" and inv: "ch_inv I B ns ch" and t: "ch_timers ch n = Some t"
  shows "\<exists>e ch1. Timer_cancel I n ch = Some (e, ch1) \<and> ch_inv I B ns ch1"
proof (cases "tm_state t = e_STATE_SCHEDULED \<and> \<not> (tm_callback t = None \<and> tm_session t = None)")
  case True
  have "timer_ok I B (t\<lparr>tm_state := e_STATE_WAITING, tm_period := il_zero I\<rparr>)"
    by (rule timer_ok_simps(1) [OF lib ch_invD(5) [OF inv t]]) (use True in simp)
  from withdraw_and_defer_inv [OF inv t this, of "cancelling_functor n t"] show ?thesis
    using True t functor_timers(1) [of n t] by (auto simp: Timer_cancel_def bind_eq_Some_iff)
next
  case False
  then show ?thesis using t inv by (auto simp: Timer_cancel_def)
qed

lemma Timer_close_inv:
  assumes lib: "interval_library_ok I" and inv: "ch_inv I B ns ch" and t: "ch_timers ch n = Some t"
  shows "\<exists>e ch1. Timer_close I n ch = Some (e, ch1) \<and> ch_inv I B ns ch1"
proof (cases "tm_state t \<noteq> e_STATE_CLOSED \<and> \<not> (tm_callback t = None \<and> tm_session t = None)")
  case True
  note closed = timer_ok_simps(2) [OF lib ch_invD(5) [OF inv t]]
  from withdraw_and_defer_inv [OF inv t closed, of "closing_functor n t"] show ?thesis
    using True t functor_timers(2) [of n t] by (auto simp: Timer_close_def bind_eq_Some_iff)
next
  case False
  then show ?thesis using t inv by (auto simp: Timer_close_def)
qed

subsection \<open>The operations of the user\<close>

lemma takeNode_simps:
  assumes "takeNode ch = (n, ch1)"
  shows "ch_timers ch1 = ch_timers ch" "ch_deadlineMap ch1 = ch_deadlineMap ch" "ch_functorQueue ch1 = ch_functorQueue ch"
    "ch_functorQueueEmpty ch1 = ch_functorQueueEmpty ch" "ch_deadlineMapEmpty ch1 = ch_deadlineMapEmpty ch"
    "ch_deadlineMapEarliest ch1 = ch_deadlineMapEarliest ch" "ch_nodeCount ch1 = Suc (ch_nodeCount ch)"
  using assms by (auto simp: takeNode_def privateNodeAllocate_def Let_def split: list.splits)

text \<open>A node that is taken had no timer.\<close>

lemma takeNode_catalog:
  assumes cat: "catalog_ok ch" and node: "takeNode ch = (n, ch1)"
  shows "ch_timers ch n = None" and "catalog_ok (set_timer n t ch1)"
proof -
  have old: "ch_nodeArray ch = [0..<length (ch_nodeArray ch)]" "distinct (ch_nodeFree ch)"
    "set (ch_nodeFree ch) \<subseteq> set (ch_nodeArray ch)" "dom (ch_timers ch) = set (ch_nodeArray ch) - set (ch_nodeFree ch)"
    "ch_nodeCount ch = card (dom (ch_timers ch))"
    using cat unfolding catalog_ok_def by blast+
  have array: "ch_nodeArray ch1 = [0..<length (ch_nodeArray ch1)] \<and> distinct (ch_nodeFree ch1) \<and>
      set (ch_nodeFree ch1) \<subseteq> set (ch_nodeArray ch1) \<and>
      insert n (dom (ch_timers ch)) = set (ch_nodeArray ch1) - set (ch_nodeFree ch1) \<and> n \<notin> dom (ch_timers ch)"
  proof (cases "ch_nodeFree ch")
    case Nil
    then have "n = length (ch_nodeArray ch)" "ch_nodeArray ch1 = ch_nodeArray ch @ [n]" "ch_nodeFree ch1 = []"
      using node by (auto simp: takeNode_def privateNodeAllocate_def Let_def)
    moreover have "n \<notin> set (ch_nodeArray ch)" using \<open>n = length (ch_nodeArray ch)\<close> old(1)
      by (metis atLeastLessThan_iff less_irrefl set_upt)
    moreover have "ch_nodeArray ch @ [n] = [0..<Suc (length (ch_nodeArray ch))]"
      using \<open>n = length (ch_nodeArray ch)\<close> old(1) by simp
    ultimately show ?thesis using old(4) Nil by auto
  next
    case (Cons k ks)
    then have "n = k" "ch_nodeArray ch1 = ch_nodeArray ch" "ch_nodeFree ch1 = ks"
      using node by (auto simp: takeNode_def Let_def)
    then show ?thesis using old(1-4) Cons by auto
  qed
  then show "ch_timers ch n = None" by auto
  have "finite (dom (ch_timers ch))" using old(4) by simp
  then have "card (set (ch_nodeArray ch1) - set (ch_nodeFree ch1)) = Suc (card (dom (ch_timers ch)))"
    using array card_insert_disjoint [of "dom (ch_timers ch)" n] by simp
  then show "catalog_ok (set_timer n t ch1)"
    using array old(5) takeNode_simps [OF node] unfolding catalog_ok_def by simp
qed

lemma created_inv:
  assumes inv: "ch_inv I B ns ch" and node: "takeNode ch = (n, ch1)" and t: "timer_ok I B t" "tm_handle t = None"
    "tm_refs t = 1" "tm_held t = 1"
  shows "ch_inv I B ns (set_timer n t ch1)"
proof -
  note same = takeNode_simps [OF node]
  note new = takeNode_catalog [OF ch_invD(3) [OF inv] node]
  have out: "n \<notin> set (ns @ deferred_refs ch)" using ch_invD(2) [OF inv] new(1) by (auto simp: refs_ok_def)
  then have "count_list (ns @ deferred_refs ch) n = 0" by (rule count_notin)
  then have "refs_ok (ns @ deferred_refs ch) ((ch_timers ch)(n \<mapsto> t))"
    by (intro refs_ok_update [OF ch_invD(2) [OF inv]]) (use t in \<open>auto simp: expected_refs_def\<close>)
  moreover have "handles_ok ((ch_timers ch)(n \<mapsto> t)) (deadlines ch)"
    using ch_invD(1) [OF inv] new(1) t(2) by (fastforce simp: map_inv_def handles_ok_def split: if_splits)
  moreover have "flags_ok (set_timer n t ch1)" by (rule flags_ok_cong [OF ch_invD(4) [OF inv]]) (use same in simp_all)
  ultimately show ?thesis using inv t(1) new(2) same by (simp add: ch_inv_def map_inv_def)
qed

text \<open>
  What the user may do: any operation on any timer, with a deadline and a period in the bounds, and timers
  without backoff.
\<close>

fun user_op_ok :: "'t interval_library \<Rightarrow> int \<Rightarrow> 't user_op \<Rightarrow> bool" where
  "user_op_ok I B (U_createCallback opts c) = (to_backoff opts = None)"
| "user_op_ok I B (U_createSession opts s) = (to_backoff opts = None)"
| "user_op_ok I B (U_schedule level n deadline period) = schedule_ok I B level deadline period"
| "user_op_ok I B _ = True"

lemma Timer_init_ok:
  assumes "interval_library_ok I" and "to_backoff opts = None" and "callback = None \<longleftrightarrow> session \<noteq> None"
  shows "timer_ok I B (Timer_init I opts callback session)"
proof -
  have "ti_equal (il_time I) (il_zero I) (il_zero I)" using assms(1) by (simp add: interval_library_ok_def time_library_ok_def)
  then show ?thesis using assms(2,3) by (auto simp: timer_ok_def Timer_init_def Timer_period_def)
qed

lemma user_copy_inv:
  assumes inv: "ch_inv I B ns ch"
  shows "\<exists>ch1. user_step I (U_copy n) ch = Some ch1 \<and> ch_inv I B ns ch1"
proof (cases "ch_timers ch n")
  case (Some t)
  have "ch_inv I B ns (set_timer n (t\<lparr>tm_refs := tm_refs t + 1, tm_held := tm_held t + 1\<rparr>) ch)"
    by (rule ch_inv_set_timer [OF inv Some]) (use ch_invD(5) [OF inv Some] ch_inv_refs [OF inv Some] in
        \<open>auto simp: timer_ok_def Timer_period_def expected_refs_def\<close>)
  then show ?thesis using Some by (simp add: when_exists_def)
qed (use inv in \<open>simp add: when_exists_def\<close>)

lemma user_release_inv:
  assumes inv: "ch_inv I B ns ch"
  shows "\<exists>ch1. user_step I (U_release n) ch = Some ch1 \<and> ch_inv I B ns ch1"
proof (cases "ch_timers ch n")
  case (Some t)
  have "ch_inv I B (n # ns) (set_timer n (t\<lparr>tm_held := tm_held t - 1\<rparr>) ch)" if "tm_held t \<noteq> 0"
    by (rule ch_inv_set_timer [OF inv Some]) (use that ch_invD(5) [OF inv Some] ch_inv_refs [OF inv Some] in
        \<open>auto simp: timer_ok_def Timer_period_def expected_refs_def\<close>)
  then show ?thesis using Some releaseRef_inv [of I B n ns] inv by (auto simp: when_exists_def)
qed (use inv in \<open>simp add: when_exists_def\<close>)

lemma user_step_inv:
  assumes lib: "interval_library_ok I" and inv: "ch_inv I B ns ch" and ok: "user_op_ok I B x"
  shows "\<exists>ch1. user_step I x ch = Some ch1 \<and> ch_inv I B ns ch1"
proof (cases x)
  case (U_createCallback opts c)
  obtain n ch1 where node: "takeNode ch = (n, ch1)" by fastforce
  have "ch_inv I B ns (set_timer n (Timer_init I opts (Some c) None) ch1)"
    by (rule created_inv [OF inv node Timer_init_ok [OF lib]]) (use U_createCallback ok in \<open>simp_all add: Timer_init_def\<close>)
  then show ?thesis using U_createCallback node by (simp add: createTimer_callback_def)
next
  case (U_createSession opts c)
  obtain n ch1 where node: "takeNode ch = (n, ch1)" by fastforce
  have "ch_inv I B ns (set_timer n (Timer_init I opts None (Some c)) ch1)"
    by (rule created_inv [OF inv node Timer_init_ok [OF lib]]) (use U_createSession ok in \<open>simp_all add: Timer_init_def\<close>)
  then show ?thesis using U_createSession node by (simp add: createTimer_session_def)
next
  case (U_copy n)
  then show ?thesis using user_copy_inv [OF inv, of n] by simp
next
  case (U_release n)
  then show ?thesis using user_release_inv [OF inv, of n] by simp
next
  case (U_schedule level n deadline period)
  then show ?thesis using Timer_schedule_inv [OF inv, of n _ level deadline period] ok inv
    by (cases "ch_timers ch n") (auto simp: when_exists_def)
next
  case (U_cancel n)
  then show ?thesis using Timer_cancel_inv [OF lib inv, of n] inv by (cases "ch_timers ch n") (auto simp: when_exists_def)
next
  case (U_close n)
  then show ?thesis using Timer_close_inv [OF lib inv, of n] inv by (cases "ch_timers ch n") (auto simp: when_exists_def)
next
  case (U_execute k)
  then show ?thesis using Chronology_execute_inv [of I B ns "Fn_user k" ch] inv by simp
next
  case (U_moveAndExecute ks k)
  then show ?thesis using Chronology_moveAndExecute_inv [OF inv] by simp
qed

end
