(* ===== verification/Chronology_Runs.thy ===== *)
theory Chronology_Runs
  imports Chronology_Safety
begin

section \<open>Runs of a chronology\<close>

text \<open>
  This theory shows that the announcements and the other operations of a chronology keep its invariant, and what
  follows for every state that its operations lead to: which timers an announcement takes, that a driver never sleeps
  past a deadline, and where the code falls short of its documentation.
\<close>

subsection \<open>Announcements\<close>

text \<open>
  An environment is admissible when the time it gives is in the bounds, and everything the user does in a
  callback, a session or a deferred function is permitted.
\<close>

definition environment_ok :: "'t interval_library \<Rightarrow> int \<Rightarrow> 't environment \<Rightarrow> bool" where
  "environment_ok I B E \<longleftrightarrow>
     il_totalMicroseconds I (ev_now E) \<le> B \<and>
     (\<forall>a. \<forall>x\<in>set (ev_react E a). user_op_ok I B x) \<and> (\<forall>k. \<forall>x\<in>set (ev_call E k). user_op_ok I B x)"

lemma user_run_inv:
  assumes "interval_library_ok I"
  shows "ch_inv I B ns ch \<Longrightarrow> \<forall>x\<in>set xs. user_op_ok I B x \<Longrightarrow>
    \<exists>ch1. run_steps (user_step I) xs ch = Some ch1 \<and> ch_inv I B ns ch1"
proof (induction xs arbitrary: ch)
  case (Cons x xs)
  then obtain ch1 where "user_step I x ch = Some ch1" "ch_inv I B ns ch1" using user_step_inv [OF assms] by (metis list.set_intros(1))
  then show ?case using Cons by simp
qed simp

lemma notify_inv:
  assumes lib: "interval_library_ok I" and E: "environment_ok I B E" and inv: "ch_inv I B ns ch"
  shows "\<exists>ch1. notify I E r n e ch = Some ch1 \<and> ch_inv I B ns ch1"
proof -
  have logged: "ch_inv I B ns (ch\<lparr>ch_log := ch_log ch @ [(r, n, e)]\<rparr>)" by (rule ch_inv_eq [OF inv]) simp_all
  have "\<forall>x\<in>set (ev_react E (r, n, e)). user_op_ok I B x" using E by (simp add: environment_ok_def)
  then show ?thesis using user_run_inv [OF lib logged] user_copy_inv [OF logged, of n]
    by (auto simp: notify_def Let_def split: recipient.split)
qed

lemma invoke_functor_inv:
  assumes lib: "interval_library_ok I" and E: "environment_ok I B E" and inv: "ch_inv I B ns ch"
  shows "\<exists>ch1. invoke_functor I E f ch = Some ch1 \<and> ch_inv I B ns ch1"
proof -
  note told = notify_inv [OF lib E]
  have twice: "\<exists>ch1. processCancelledAndClosed I E r n ch = Some ch1 \<and> ch_inv I B ns ch1" for r n
    using told [OF inv, of r n "cancelled_event I"] told [of ns _ r n "closed_event I"]
    by (auto simp: processCancelledAndClosed_def processCancelled_def processClosed_def)
  show ?thesis using told [OF inv] twice user_run_inv [OF lib inv] E
    by (cases f) (auto simp: processCancelled_def processClosed_def environment_ok_def)
qed

lemma invoke_functors_inv:
  assumes lib: "interval_library_ok I" and E: "environment_ok I B E"
  shows "ch_inv I B (List.map_filter functor_timer fs @ ns) ch \<Longrightarrow>
    \<exists>ch1. invoke_functors I E fs ch = Some ch1 \<and> ch_inv I B ns ch1"
proof (induction fs arbitrary: ch)
  case Nil
  then show ?case by (simp add: List.map_filter_def)
next
  case (Cons f fs)
  obtain ch1 where ch1: "invoke_functor I E f ch = Some ch1" "ch_inv I B (List.map_filter functor_timer (f # fs) @ ns) ch1"
    using invoke_functor_inv [OF lib E Cons.prems] by blast
  obtain ch2 where "(case functor_timer f of None \<Rightarrow> Some ch1 | Some n \<Rightarrow> releaseRef n ch1) = Some ch2"
    "ch_inv I B (List.map_filter functor_timer fs @ ns) ch2"
    using ch1(2) releaseRef_inv [of I B _ "List.map_filter functor_timer fs @ ns" ch1]
    by (cases "functor_timer f") (auto simp: List.map_filter_def)
  then show ?case using Cons.IH ch1(1) by auto
qed

lemma Timer_arrive_inv:
  assumes lib: "interval_library_ok I" and E: "environment_ok I B E" and inv: "ch_inv I B ns ch" and t: "ch_timers ch n = Some t"
  shows "\<exists>ch1. Timer_arrive I E n deadline ch = Some ch1 \<and> ch_inv I B ns ch1"
proof (cases "tm_state t = e_STATE_SCHEDULED \<and> \<not> (tm_callback t = None \<and> tm_session t = None)")
  case True
  have "timer_ok I B (arrived_timer I t)" using ch_invD(5) [OF inv t] timer_ok_simps(3) [OF lib ch_invD(5) [OF inv t]] True
    by (auto simp: arrived_timer_def timer_ok_def Timer_period_def)
  then have arrived: "ch_inv I B ns (set_timer n (arrived_timer I t) ch)"
    by (rule ch_inv_set_timer [OF inv t])
      (use ch_inv_refs [OF inv t] in \<open>auto simp: arrived_timer_def expected_refs_def\<close>)
  define r where "r = (case tm_callback t of Some c \<Rightarrow> To_callback c | None \<Rightarrow> session_recipient E (the (tm_session t)))"
  let ?e = "\<lparr>te_type = e_DEADLINE, te_context = deadline_context I E n deadline t\<rparr>"
  obtain ch2 where ch2: "(if wantEvent e_DEADLINE (tm_options t) then notify I E r n ?e (set_timer n (arrived_timer I t) ch)
      else Some (set_timer n (arrived_timer I t) ch)) = Some ch2" "ch_inv I B ns ch2"
    using notify_inv [OF lib E arrived, of r n ?e] arrived by (cases "wantEvent e_DEADLINE (tm_options t)") auto
  have "\<exists>ch3. (if wantEvent e_TIMER_CLOSED (tm_options t) \<and> TimerOptions_oneShot (tm_options t)
      then processClosed I E r n ch2 else Some ch2) = Some ch3 \<and> ch_inv I B ns ch3"
    using notify_inv [OF lib E ch2(2), of r n "closed_event I"] ch2(2) by (auto simp: processClosed_def)
  then show ?thesis using True t ch2(1) unfolding Timer_arrive_def Let_def r_def by auto
qed (use inv t in \<open>auto simp: Timer_arrive_def\<close>)

lemma arrive_all_inv:
  assumes lib: "interval_library_ok I" and E: "environment_ok I B E"
  shows "ch_inv I B (map de_node ds @ ns) ch \<Longrightarrow> \<exists>ch1. arrive_all I E ds ch = Some ch1 \<and> ch_inv I B ns ch1"
proof (induction ds arbitrary: ch)
  case (Cons d ds)
  obtain t where "ch_timers ch (de_node d) = Some t" using ch_inv_alive [OF Cons.prems, of "de_node d"] by auto
  then obtain ch1 where ch1: "Timer_arrive I E (de_node d) (de_deadline d) ch = Some ch1" "ch_inv I B (map de_node (d # ds) @ ns) ch1"
    using Timer_arrive_inv [OF lib E Cons.prems] by blast
  then obtain ch2 where "releaseRef (de_node d) ch1 = Some ch2" "ch_inv I B (map de_node ds @ ns) ch2"
    using releaseRef_inv [of I B "de_node d" "map de_node ds @ ns" ch1] by auto
  then show ?case using Cons.IH ch1(1) by auto
qed simp

subsection \<open>The timers taken by an announcement\<close>

lemma next_deadline_ok:
  assumes ok: "timer_ok I B t" and rec: "Timer_period I t \<noteq> None" and us: "0 \<le> us" "us \<le> now" "now \<le> B" "2 * B \<le> llong_max_int"
  obtains x where "next_deadline I E n now us t = Some (x, tm_period t)" "0 \<le> x"
proof -
  have p: "0 \<le> il_totalMicroseconds I (tm_period t)" "il_totalMicroseconds I (tm_period t) \<le> B" "to_backoff (tm_options t) = None"
    using ok rec by (auto simp: timer_ok_def)
  then have "checked64 (us + il_totalMicroseconds I (tm_period t)) = Some (us + il_totalMicroseconds I (tm_period t))"
    using us by (simp add: checked64_def int64_def llong_max_int_def)
  then show thesis using that p us by (auto simp: next_deadline_def)
qed

lemma taken_timers_find:
  assumes "distinct (map entry_timer ps)" and "e \<in> set ps"
  shows "find (\<lambda>x. entry_timer x = entry_timer e) ps = Some e"
  using assms by (induction ps) (auto simp: image_iff)

lemma count_list_distinct: "distinct xs \<Longrightarrow> count_list xs x = (if x \<in> set xs then 1 else 0)"
  by (induction xs) auto

text \<open>
  The facts about a state whose due entries are \<open>ps\<close>: the timers taken keep their references, those of the map
  being those of the entries that are due, or in addition to them.
\<close>

lemma taken_timer_ok:
  assumes inv: "ch_inv I B ns ch" and e: "e \<in> set (deadlines ch)" "fst e \<le> now" and now: "now \<le> B" "2 * B \<le> llong_max_int"
  obtains t where "ch_timers ch (entry_timer e) = Some t" "no_overflow I E now (ch_timers ch) e"
    "timer_ok I B (taken_timer I E now e t)"
    "tm_held (taken_timer I E now e t) = tm_held t"
    "tm_refs (taken_timer I E now e t) + (if tm_handle t = None then 0 else 1) =
       tm_refs t + (if tm_handle (taken_timer I E now e t) = None then 0 else 1) + 1"
proof -
  obtain t where t: "ch_timers ch (entry_timer e) = Some t" "tm_handle t = Some (entry_ref e)"
    using entry_handle [OF ch_invD(1) [OF inv], of "fst e" "entry_ref e" "entry_timer e"] e(1) by auto
  note ok = ch_invD(5) [OF inv t(1)]
  show thesis
  proof (cases "Timer_period I t = None")
    case True
    then have "timer_ok I B (t\<lparr>tm_handle := None\<rparr>)" using ok by (simp add: timer_ok_def Timer_period_def split: if_splits)
    then show thesis using that [OF t(1)] True t by (simp add: no_overflow_def taken_timer_def)
  next
    case False
    obtain x where "next_deadline I E (entry_timer e) now (fst e) t = Some (x, tm_period t)"
      using next_deadline_ok [OF ok False ch_invD(6) [OF inv e(1)] e(2) now] by blast
    then show thesis using that [OF t(1)] ok t False
      by (simp add: no_overflow_def taken_timer_def timer_ok_def Timer_period_def)
  qed
qed

lemma taken_refs_ok:
  assumes inv: "ch_inv I B ns ch" and ps: "ps = filter (\<lambda>e. fst e \<le> now) (deadlines ch)" and now: "now \<le> B" "2 * B \<le> llong_max_int"
  shows "refs_ok (map entry_timer ps @ ns @ deferred_refs ch) (taken_timers I E now ps (ch_timers ch))"
    and "taken_timers I E now ps (ch_timers ch) n = Some t \<Longrightarrow> timer_ok I B t"
    and "dom (taken_timers I E now ps (ch_timers ch)) = dom (ch_timers ch)"
proof -
  have distinct: "distinct (map entry_timer ps)"
    using entry_timers_distinct [OF ch_invD(1) [OF inv]] unfolding ps by (simp add: distinct_map_filter)
  let ?ns = "map entry_timer ps @ ns @ deferred_refs ch"
  have cases: "tm_refs t = expected_refs ?ns t n \<and> 0 < expected_refs ?ns t n \<and> timer_ok I B t"
    if T: "taken_timers I E now ps (ch_timers ch) n = Some t" for n t
  proof (cases "n \<in> entry_timer ` set ps")
    case True
    then obtain e where e: "e \<in> set ps" "n = entry_timer e" by auto
    then have "e \<in> set (deadlines ch)" "fst e \<le> now" using ps by auto
    then obtain t0 where t0: "ch_timers ch n = Some t0" "timer_ok I B (taken_timer I E now e t0)"
      "tm_held (taken_timer I E now e t0) = tm_held t0"
      "tm_refs (taken_timer I E now e t0) + (if tm_handle t0 = None then 0 else 1) =
       tm_refs t0 + (if tm_handle (taken_timer I E now e t0) = None then 0 else 1) + 1"
      using taken_timer_ok [OF inv _ _ now] e(2) by metis
    have "t = taken_timer I E now e t0" using T taken_timers_find [OF distinct e(1)] t0(1) e(2) by (simp add: taken_timers_def)
    then show ?thesis using t0 ch_inv_refs [OF inv t0(1)] count_list_distinct [OF distinct] e
      by (auto simp: expected_refs_def)
  next
    case False
    then have "find (\<lambda>e. entry_timer e = n) ps = None" by (force simp: find_None_iff)
    then have t: "ch_timers ch n = Some t" using T by (simp add: taken_timers_def)
    then show ?thesis using False ch_inv_refs [OF inv t] ch_invD(5) [OF inv t] count_list_distinct [OF distinct]
      by (auto simp: expected_refs_def)
  qed
  show dom: "dom (taken_timers I E now ps (ch_timers ch)) = dom (ch_timers ch)"
    by (auto simp: taken_timers_def dom_def split: option.splits)
  have "entry_timer ` set ps \<subseteq> dom (ch_timers ch)"
    using entry_handle [OF ch_invD(1) [OF inv]] unfolding ps by fastforce
  then show "refs_ok (map entry_timer ps @ ns @ deferred_refs ch) (taken_timers I E now ps (ch_timers ch))"
    using cases ch_invD(2) [OF inv] unfolding refs_ok_def dom by auto
  show "taken_timers I E now ps (ch_timers ch) n = Some t \<Longrightarrow> timer_ok I B t" using cases by blast
qed

definition reentered ::
  "'t interval_library \<Rightarrow> 't environment \<Rightarrow> int \<Rightarrow> (timer_ref \<rightharpoonup> 't Timer) \<Rightarrow> deadline_entry \<Rightarrow> deadline_entry set" where
  "reentered I E now T e =
     (let t = the (T (entry_timer e))
      in if Timer_period I t \<noteq> None
         then (case next_deadline I E (entry_timer e) now (fst e) t of None \<Rightarrow> {} | Some (us, _) \<Rightarrow> {(us, snd e)}) else {})"

lemma reenter_set: "set (fold (reenter I E now T) ps es) = set es \<union> (\<Union>e\<in>set ps. reentered I E now T e)"
proof (induction ps arbitrary: es)
  case (Cons e ps)
  have "set (reenter I E now T e es) = set es \<union> reentered I E now T e"
    by (auto simp: reenter_def reentered_def Let_def split: option.splits)
  then show ?case using Cons by auto
qed simp

lemma reentered_nonneg:
  assumes inv: "ch_inv I B ns ch" and late: "now \<le> B" "2 * B \<le> llong_max_int" and ps: "ps = filter (\<lambda>e. fst e \<le> now) (deadlines ch)"
    and x: "x \<in> set (fold (reenter I E now (ch_timers ch)) ps (filter (\<lambda>e. now < fst e) (deadlines ch)))"
  shows "0 \<le> fst x"
proof -
  consider "x \<in> set (filter (\<lambda>e. now < fst e) (deadlines ch))"
    | e us p where "e \<in> set ps" "next_deadline I E (entry_timer e) now (fst e) (the (ch_timers ch (entry_timer e))) = Some (us, p)"
        "Timer_period I (the (ch_timers ch (entry_timer e))) \<noteq> None" "x = (us, snd e)"
    using x by (auto simp: reenter_set reentered_def Let_def split: option.splits if_splits)
  then show ?thesis
  proof cases
    case 1
    then show ?thesis using ch_invD(6) [OF inv] by simp
  next
    case 2
    then have e: "e \<in> set (deadlines ch)" "fst e \<le> now" using ps by auto
    obtain t where t: "ch_timers ch (entry_timer e) = Some t" by (rule taken_timer_ok [OF inv e late])
    obtain y where "next_deadline I E (entry_timer e) now (fst e) t = Some (y, tm_period t)" "0 \<le> y"
      by (rule next_deadline_ok [OF ch_invD(5) [OF inv t] _ ch_invD(6) [OF inv e(1)] e(2) late]) (use 2(3) t in auto)
    then show ?thesis using 2(2,4) t by simp
  qed
qed

text \<open>
  The loop ends and takes the entries that are due, in their order; the invariant holds after it, with the references
  of these entries in transit.
\<close>

lemma take_timers_due:
  assumes inv: "ch_inv I B ns ch" and E: "environment_ok I B E" "2 * B \<le> llong_max_int"
    and now: "now = il_totalMicroseconds I (ev_now E)" and ps: "ps = filter (\<lambda>e. fst e \<le> now) (deadlines ch)"
  obtains m where "announce_loop I E now None [] ch =
      Some (due_entries I (ch_timers ch) ps, ch\<lparr>ch_timers := taken_timers I E now ps (ch_timers ch), ch_deadlineMap := m\<rparr>)"
    "map_inv (ch\<lparr>ch_timers := taken_timers I E now ps (ch_timers ch), ch_deadlineMap := m\<rparr>)"
    "entries m = fold (reenter I E now (ch_timers ch)) ps (filter (\<lambda>e. now < fst e) (deadlines ch))"
    "\<forall>e\<in>set (entries m). 0 \<le> fst e"
proof -
  have late: "now \<le> B" using E(1) now by (simp add: environment_ok_def)
  have sorted: "sorted (map fst (deadlines ch))" using entries_sorted ch_invD(1) [OF inv] unfolding map_inv_def by blast
  have split: "deadlines ch = ps @ [] @ filter (\<lambda>e. now < fst e) (deadlines ch)"
    using sorted_split [OF sorted, of now] ps by simp
  have ok: "\<forall>e\<in>set ps. no_overflow I E now (ch_timers ch) e"
  proof
    fix e
    assume "e \<in> set ps"
    then have "e \<in> set (deadlines ch)" "fst e \<le> now" using ps by auto
    then show "no_overflow I E now (ch_timers ch) e" by (rule taken_timer_ok [OF inv _ _ late E(2)])
  qed
  have parts: "\<forall>e\<in>set ps. fst e \<le> now" "\<forall>e\<in>set []. fst e = now" "\<forall>e\<in>set (filter (\<lambda>e. now < fst e) (deadlines ch)). now < fst e"
    using ps by auto
  obtain m where m: "announce_loop I E now (first_ref ([] :: deadline_entry list)) [] ch =
      Some ([] @ due_entries I (ch_timers ch) ps, ch\<lparr>ch_timers := taken_timers I E now ps (ch_timers ch), ch_deadlineMap := m\<rparr>)"
    "map_inv (ch\<lparr>ch_timers := taken_timers I E now ps (ch_timers ch), ch_deadlineMap := m\<rparr>)"
    "entries m = fold (reenter I E now (ch_timers ch)) ps ([] @ filter (\<lambda>e. now < fst e) (deadlines ch))"
    using announce_loop_due [OF ch_invD(1) [OF inv] split parts ok, of "[]"] by blast
  then have "\<forall>x\<in>set (entries m). 0 \<le> fst x" using reentered_nonneg [OF inv late E(2) ps] by simp
  then show thesis using that m by (simp add: first_ref_def)
qed

lemma take_timers_inv:
  assumes inv: "ch_inv I B ns ch" and E: "environment_ok I B E" "2 * B \<le> llong_max_int"
  shows "\<exists>due ch1. take_timers I E finished ch = Some (due, ch1) \<and> ch_inv I B (map de_node due @ ns) ch1"
proof (cases "SkipList_isEmpty (ch_deadlineMap ch) \<or> finished")
  case True
  then show ?thesis using inv by (auto simp: take_timers_def)
next
  case False
  define now where "now = il_totalMicroseconds I (ev_now E)"
  define ps where "ps = filter (\<lambda>e. fst e \<le> now) (deadlines ch)"
  have late: "now \<le> B" using E(1) by (simp add: now_def environment_ok_def)
  obtain m where m: "announce_loop I E now None [] ch =
      Some (due_entries I (ch_timers ch) ps, ch\<lparr>ch_timers := taken_timers I E now ps (ch_timers ch), ch_deadlineMap := m\<rparr>)"
    "map_inv (ch\<lparr>ch_timers := taken_timers I E now ps (ch_timers ch), ch_deadlineMap := m\<rparr>)"
    "entries m = fold (reenter I E now (ch_timers ch)) ps (filter (\<lambda>e. now < fst e) (deadlines ch))"
    "\<forall>e\<in>set (entries m). 0 \<le> fst e"
    by (rule take_timers_due [OF inv E now_def ps_def])
  let ?ch1 = "ch\<lparr>ch_timers := taken_timers I E now ps (ch_timers ch), ch_deadlineMap := m\<rparr>"
  note taken = taken_refs_ok [OF inv ps_def late E(2), where E = E]
  have nodes: "map de_node (due_entries I (ch_timers ch) ps) = map entry_timer ps" by (simp add: due_entries_def due_entry_def)
  have same: "ch_timers (announce_flags ?ch1) = ch_timers ?ch1" "ch_deadlineMap (announce_flags ?ch1) = m"
    "ch_nodeArray (announce_flags ?ch1) = ch_nodeArray ch" "ch_nodeFree (announce_flags ?ch1) = ch_nodeFree ch"
    "ch_nodeCount (announce_flags ?ch1) = ch_nodeCount ch" "ch_functorQueue (announce_flags ?ch1) = ch_functorQueue ch"
    "ch_functorQueueEmpty (announce_flags ?ch1) = ch_functorQueueEmpty ch"
    by (simp_all add: announce_flags_def split: option.split)
  have "ch_deadlineMapEmpty ch = False" using False ch_invD(4) [OF inv] by (simp add: flags_ok_def isEmpty_entries)
  moreover have "sorted (map fst (entries m))" using entries_sorted [of m] m(2) by (simp add: map_inv_def)
  ultimately have "flags_ok (announce_flags ?ch1)" using ch_invD(4) [OF inv] front_entry [of m] same m(4)
    by (cases "entries m") (auto simp: flags_ok_def announce_flags_def frontNode_entries first_ref_def)
  moreover have "catalog_ok (announce_flags ?ch1)"
    by (rule catalog_ok_cong [OF ch_invD(3) [OF inv]]) (use same taken(3) in simp_all)
  moreover have "map_inv (announce_flags ?ch1)" using m(2) same by (simp add: map_inv_def)
  ultimately have "ch_inv I B (map entry_timer ps @ ns) (announce_flags ?ch1)"
    using taken(1,2) m(4) same unfolding ch_inv_def by simp
  then show ?thesis using False m(1) nodes by (simp add: take_timers_def now_def)
qed

subsection \<open>The operations of the chronology\<close>

lemma ch_inv_perm:
  assumes "ch_inv I B ns ch" and "mset ns1 = mset ns"
  shows "ch_inv I B ns1 ch"
  by (rule ch_inv_cong [OF assms(1)]) (use assms(2) ch_invD(4) [OF assms(1)] in \<open>simp_all add: flags_ok_def\<close>)

lemma take_functors_inv:
  assumes inv: "ch_inv I B ns ch" and taken: "take_functors single ch = (fs, ch1)"
  shows "ch_inv I B (List.map_filter functor_timer fs @ ns) ch1"
proof (rule ch_inv_cong [OF inv])
  have "ch_functorQueue ch = fs @ ch_functorQueue ch1"
    using taken by (auto simp: take_functors_def split: list.splits if_splits)
  then show "mset ((List.map_filter functor_timer fs @ ns) @ deferred_refs ch1) = mset (ns @ deferred_refs ch)"
    by (simp add: List.map_filter_def)
  show "ch_functorQueueEmpty ch1 \<longleftrightarrow> ch_functorQueue ch1 = []"
    using taken ch_invD(4) [OF inv] by (auto simp: take_functors_def flags_ok_def split: list.splits if_splits)
qed (use taken in \<open>auto simp: take_functors_def split: list.splits if_splits\<close>)

lemma announce_own_inv:
  assumes lib: "interval_library_ok I" and E: "environment_ok I B E" "2 * B \<le> llong_max_int" and inv: "ch_inv I B [] ch"
  shows "\<exists>finished ch1. announce_own I E single ch = Some (finished, ch1) \<and> ch_inv I B [] ch1"
proof -
  obtain fs ch1 where fs: "take_functors single ch = (fs, ch1)" by fastforce
  then have "ch_inv I B (List.map_filter functor_timer fs @ []) ch1" by (rule take_functors_inv [OF inv])
  then obtain due ch2 where due: "take_timers I E (single \<and> fs \<noteq> []) ch1 = Some (due, ch2)"
    "ch_inv I B (map de_node due @ List.map_filter functor_timer fs @ []) ch2"
    using take_timers_inv [OF _ E] by blast
  have "ch_inv I B (List.map_filter functor_timer fs @ (map de_node due @ [])) ch2"
    by (rule ch_inv_perm [OF due(2)]) simp
  then obtain ch3 where ch3: "invoke_functors I E fs ch2 = Some ch3" "ch_inv I B (map de_node due @ []) ch3"
    using invoke_functors_inv [OF lib E(1)] by blast
  obtain ch4 where "arrive_all I E due ch3 = Some ch4" "ch_inv I B [] ch4"
    using arrive_all_inv [OF lib E(1) ch3(2)] by blast
  then show ?thesis using fs due(1) ch3(1) by (simp add: announce_own_def)
qed

lemma drain_own_inv:
  assumes lib: "interval_library_ok I" and E: "environment_ok I B E" and inv: "ch_inv I B ns ch"
  shows "\<exists>ch1. drain_own I E ch = Some ch1 \<and> ch_inv I B ns ch1"
  using invoke_functors_inv [OF lib E] take_functors_inv [OF inv, of False]
  by (cases "take_functors False ch") (simp add: drain_own_def)

lemma skipForward_entries:
  assumes inv: "sl_inv m" and es: "entries m = as @ e # bs"
  shows "skipForward (entry_ref e) m = Some (first_ref bs)"
proof -
  have "entry_ref e \<notin> entry_ref ` set as" using entries_distinct [OF inv] es by auto
  then have "dropWhile (\<lambda>x. entry_ref x \<noteq> entry_ref e) (entries m) = e # bs"
    unfolding es by (subst dropWhile_append2) (auto simp: image_iff)
  then show ?thesis using refines_skipForward [OF inv, of "entry_ref e"]
    by (cases "skipForward (entry_ref e) m") (auto simp: refines_step_def skip_abs_def simp del: dropWhile_eq_Cons_conv)
qed

lemma map_walk_entries:
  assumes inv: "sl_inv m"
  shows "entries m = as @ bs \<Longrightarrow> map_walk m (first_ref bs) = Some (map entry_timer bs)"
proof (induction bs arbitrary: as)
  case Nil
  then show ?case by (subst map_walk.simps) (simp add: first_ref_def)
next
  case (Cons e bs)
  have "node_data m (entry_ref e) = entry_timer e"
    using entry_node [of "fst e" "entry_ref e" "entry_timer e" m] Cons.prems by simp
  then show ?case using Cons.IH [of "as @ [e]"] Cons.prems skipForward_entries [OF inv Cons.prems]
    by (subst map_walk.simps) (simp add: first_ref_def)
qed

lemma map_walk_front: "sl_inv m \<Longrightarrow> map_walk m (frontNode m) = Some (map entry_timer (entries m))"
  using map_walk_entries [of m "[]" "entries m"] by (simp add: frontNode_entries)

lemma load_own_inv:
  assumes lib: "interval_library_ok I" and inv: "ch_inv I B ns ch"
  shows "\<exists>ch1. load_own I ch = Some (map entry_timer (deadlines ch), ch1) \<and> ch_inv I B ns ch1"
proof -
  have "map_walk (ch_deadlineMap ch) (frontNode (ch_deadlineMap ch)) = Some (map entry_timer (deadlines ch))"
    using map_walk_front ch_invD(1) [OF inv] unfolding map_inv_def by blast
  moreover have "\<forall>x\<in>set (map U_copy (map entry_timer (deadlines ch))). user_op_ok I B x" by auto
  ultimately show ?thesis using user_run_inv [OF lib inv] by (fastforce simp: load_own_def)
qed

lemma clearFunctions_own_inv:
  assumes inv: "ch_inv I B ns ch"
  shows "\<exists>ch1. clearFunctions_own ch = Some ch1 \<and> ch_inv I B ns ch1"
proof -
  have "ch_inv I B (deferred_refs ch @ ns) (ch\<lparr>ch_functorQueue := [], ch_functorQueueEmpty := True\<rparr>)"
    by (rule ch_inv_cong [OF inv]) (simp_all add: List.map_filter_def)
  then show ?thesis using releaseRefs_inv unfolding clearFunctions_own_def by blast
qed

lemma acquireRefs_inv:
  "ch_inv I B ms ch \<Longrightarrow> set ns \<subseteq> dom (ch_timers ch) \<Longrightarrow> \<exists>ch1. acquireRefs ns ch = Some ch1 \<and> ch_inv I B (rev ns @ ms) ch1"
proof (induction ns arbitrary: ch ms)
  case (Cons n ns)
  then obtain t where t: "ch_timers ch n = Some t" by auto
  obtain ch1 where ch1: "acquireRef n ch = Some ch1" "ch_inv I B (n # ms) ch1"
    "ch1 = set_timer n (t\<lparr>tm_refs := tm_refs t + 1\<rparr>) ch"
    using acquireRef_inv [OF Cons.prems(1) t] by blast
  then have "set ns \<subseteq> dom (ch_timers ch1)" using Cons.prems(2) by auto
  then obtain ch2 where "acquireRefs ns ch1 = Some ch2" "ch_inv I B (rev ns @ n # ms) ch2" using Cons.IH [OF ch1(2)] by blast
  then show ?case using ch1(1) by simp
qed simp

lemma closeTimers_inv:
  assumes lib: "interval_library_ok I"
  shows "ch_inv I B ns ch \<Longrightarrow> set ms \<subseteq> set ns \<Longrightarrow> \<exists>ch1. closeTimers I ms ch = Some ch1 \<and> ch_inv I B ns ch1"
proof (induction ms arbitrary: ch)
  case (Cons m ms)
  obtain t where "ch_timers ch m = Some t" using ch_inv_alive [OF Cons.prems(1), of m] Cons.prems(2) by auto
  then obtain e ch1 where "Timer_close I m ch = Some (e, ch1)" "ch_inv I B ns ch1"
    using Timer_close_inv [OF lib Cons.prems(1)] by blast
  then show ?case using Cons.IH Cons.prems(2) by simp
qed simp

lemma closeAll_own_inv:
  assumes lib: "interval_library_ok I" and inv: "ch_inv I B [] ch"
  shows "\<exists>ch1. closeAll_own I ch = Some ch1 \<and> ch_inv I B [] ch1"
proof -
  let ?ns = "registered ch"
  have "set ?ns \<subseteq> dom (ch_timers ch)" by (auto simp: registered_def split: option.splits)
  then obtain ch1 where ch1: "acquireRefs ?ns ch = Some ch1" "ch_inv I B (rev ?ns @ []) ch1" using acquireRefs_inv [OF inv] by blast
  have "ch_inv I B (?ns @ []) ch1" by (rule ch_inv_perm [OF ch1(2)]) simp
  then obtain ch2 where ch2: "closeTimers I ?ns ch1 = Some ch2" "ch_inv I B (?ns @ []) ch2"
    using closeTimers_inv [OF lib, of B "?ns @ []" ch1 ?ns] by auto
  obtain ch3 where "releaseRefs ?ns ch2 = Some ch3" "ch_inv I B [] ch3" using releaseRefs_inv [OF ch2(2)] by blast
  then show ?thesis using ch1(1) ch2(1) by (simp add: closeAll_own_def)
qed

subsection \<open>Runs\<close>

datatype 't chronology_op =
  C_user "'t user_op"
| C_announce "'t environment" bool
| C_drain "'t environment"
| C_closeAll
| C_load
| C_clearFunctions
| C_clearTimers
| C_clear

fun chronology_step :: "'t interval_library \<Rightarrow> 't chronology_op \<Rightarrow> 't Chronology \<Rightarrow> 't Chronology option" where
  "chronology_step I (C_user x) ch = user_step I x ch"
| "chronology_step I (C_announce E single) ch = map_option snd (announce_own I E single ch)"
| "chronology_step I (C_drain E) ch = drain_own I E ch"
| "chronology_step I C_closeAll ch = closeAll_own I ch"
| "chronology_step I C_load ch = map_option snd (load_own I ch)"
| "chronology_step I C_clearFunctions ch = clearFunctions_own ch"
| "chronology_step I C_clearTimers ch = clearTimers_own ch"
| "chronology_step I C_clear ch = clear_own ch"

text \<open>
  What the callers of a chronology owe: deadlines and periods in the bounds, and, before the timers are cleared, that
  none is scheduled.
\<close>

definition k_TIME_BOUND :: int where
  "k_TIME_BOUND = 4611686018427387903"

fun chronology_permitted :: "'t interval_library \<Rightarrow> 't chronology_op \<Rightarrow> 't Chronology \<Rightarrow> bool" where
  "chronology_permitted I (C_user x) ch = user_op_ok I k_TIME_BOUND x"
| "chronology_permitted I (C_announce E single) ch = environment_ok I k_TIME_BOUND E"
| "chronology_permitted I (C_drain E) ch = environment_ok I k_TIME_BOUND E"
| "chronology_permitted I C_clearTimers ch = (numScheduled ch = 0)"
| "chronology_permitted I C_clear ch = (numScheduled ch = 0)"
| "chronology_permitted I _ ch = True"

lemma releaseRefs_Nil: "releaseRefs [] = Some"
  by (rule ext) simp

lemma chronology_step_inv:
  assumes lib: "interval_library_ok I" and inv: "ch_inv I k_TIME_BOUND [] ch" and ok: "chronology_permitted I x ch"
  shows "\<exists>ch1. chronology_step I x ch = Some ch1 \<and> ch_inv I k_TIME_BOUND [] ch1"
proof (cases x)
  case (C_announce E single)
  have "2 * k_TIME_BOUND \<le> llong_max_int" by (simp add: k_TIME_BOUND_def llong_max_int_def)
  then show ?thesis using announce_own_inv [OF lib _ _ inv, of E single] ok C_announce by auto
next
  case C_clearTimers
  have "sl_inv (ch_deadlineMap ch)" using ch_invD(1) [OF inv] unfolding map_inv_def by blast
  then have "clear_map ch = Some ([], ch)" using ok C_clearTimers sl_length_entries [of "ch_deadlineMap ch"]
    by (simp add: clear_map_def isEmpty_entries numScheduled_def)
  then show ?thesis using C_clearTimers inv by (simp add: clearTimers_own_def)
next
  case C_clear
  have "sl_inv (ch_deadlineMap ch)" using ch_invD(1) [OF inv] unfolding map_inv_def by blast
  then have "clear_own ch = clearFunctions_own ch" using ok C_clear sl_length_entries [of "ch_deadlineMap ch"]
    by (simp add: clear_own_def clearFunctions_own_def clear_map_def isEmpty_entries numScheduled_def Let_def releaseRefs_Nil)
  then show ?thesis using C_clear clearFunctions_own_inv [OF inv] by simp
qed (use lib inv ok user_step_inv drain_own_inv closeAll_own_inv load_own_inv clearFunctions_own_inv in fastforce)+

lemma Chronology_init_inv: "ch_inv I B [] Chronology_init"
  using SkipList_initialize_inv
  by (auto simp: ch_inv_def Chronology_init_def map_inv_def handles_ok_def refs_ok_def catalog_ok_def flags_ok_def List.map_filter_def)

lemma all_permitted_conj:
  "Q \<Longrightarrow> all_permitted permitted step xs s \<Longrightarrow> all_permitted (\<lambda>x s. Q \<and> permitted x s) step xs s"
  by (induction xs arbitrary: s) (auto split: option.splits)

interpretation chronology_runs: guarded_component
  Chronology_init "\<lambda>x ch. interval_library_ok I \<and> chronology_permitted I x ch" "chronology_step I" "ch_inv I k_TIME_BOUND []" for I
  by unfold_locales (use Chronology_init_inv chronology_step_inv in blast)+

text \<open>The states that the operations permitted lead to.\<close>

definition chronology_reached :: "'t interval_library \<Rightarrow> 't Chronology \<Rightarrow> bool" where
  "chronology_reached I ch \<longleftrightarrow>
     interval_library_ok I \<and>
     (\<exists>xs. all_permitted (chronology_permitted I) (chronology_step I) xs Chronology_init \<and>
           run_steps (chronology_step I) xs Chronology_init = Some ch)"

lemma chronology_reached_inv:
  assumes "chronology_reached I ch"
  shows "ch_inv I k_TIME_BOUND [] ch"
proof -
  obtain xs where I: "interval_library_ok I" and xs: "all_permitted (chronology_permitted I) (chronology_step I) xs Chronology_init"
    "run_steps (chronology_step I) xs Chronology_init = Some ch"
    using assms by (auto simp: chronology_reached_def)
  show ?thesis by (rule chronology_runs.run_result_inv [OF Chronology_init_inv all_permitted_conj [OF I xs(1)] xs(2)])
qed

subsection \<open>Properties\<close>


lemma reentered_due:
  assumes inv: "ch_inv I B ns ch" and e: "e \<in> set (deadlines ch)" "fst e \<le> now" and late: "now \<le> B" "2 * B \<le> llong_max_int"
  shows "reentered I E now (ch_timers ch) e =
    {(max now (fst e + il_totalMicroseconds I p), snd e) | p. Timer_period I (the (ch_timers ch (entry_timer e))) = Some p}"
proof -
  obtain t where t: "ch_timers ch (entry_timer e) = Some t" "no_overflow I E now (ch_timers ch) e"
    by (rule taken_timer_ok [OF inv e late])
  have "to_backoff (tm_options t) = None" using ch_invD(5) [OF inv t(1)] by (simp add: timer_ok_def)
  then show ?thesis using t
    by (auto simp: reentered_def no_overflow_def next_deadline_def Timer_period_def max_def bind_eq_Some_iff checked64_def
        split: if_splits)
qed

text \<open>
  Claim C12. When \<open>announce\<close> runs, the timers it takes are exactly those whose deadlines are not later than
  the current time, each once, in the order of their deadlines, with these deadlines. Afterwards the map holds the other
  entries unchanged and, for each recurring timer taken, one entry at its deadline advanced by its period, or at the
  current time if that is later.
\<close>

theorem announce_takes_due:
  assumes reached: "chronology_reached I ch" and E: "environment_ok I k_TIME_BOUND E" and some: "deadlines ch \<noteq> []"
    and now: "now = il_totalMicroseconds I (ev_now E)" and due: "due = filter (\<lambda>e. fst e \<le> now) (deadlines ch)"
  shows "\<exists>ds ch1. take_timers I E False ch = Some (ds, ch1) \<and>
      map de_node ds = map entry_timer due \<and> map de_deadline ds = map (il_ofMicroseconds I \<circ> fst) due \<and>
      distinct (map de_node ds) \<and> sorted (map fst due) \<and>
      set (deadlines ch1) = {e \<in> set (deadlines ch). now < fst e} \<union>
        {(max now (fst e + il_totalMicroseconds I p), snd e) | e p. e \<in> set due \<and>
           Timer_period I (the (ch_timers ch (entry_timer e))) = Some p}"
proof -
  have inv: "ch_inv I k_TIME_BOUND [] ch" by (rule chronology_reached_inv [OF reached])
  have B: "2 * k_TIME_BOUND \<le> llong_max_int" by (simp add: k_TIME_BOUND_def llong_max_int_def)
  have late: "now \<le> k_TIME_BOUND" using E now by (simp add: environment_ok_def)
  obtain m where m: "announce_loop I E now None [] ch =
      Some (due_entries I (ch_timers ch) due, ch\<lparr>ch_timers := taken_timers I E now due (ch_timers ch), ch_deadlineMap := m\<rparr>)"
    "entries m = fold (reenter I E now (ch_timers ch)) due (filter (\<lambda>e. now < fst e) (deadlines ch))"
    by (rule take_timers_due [OF inv E B now due])
  have sl: "sl_inv (ch_deadlineMap ch)" using ch_invD(1) [OF inv] unfolding map_inv_def by blast
  have "take_timers I E False ch = Some (due_entries I (ch_timers ch) due,
      announce_flags (ch\<lparr>ch_timers := taken_timers I E now due (ch_timers ch), ch_deadlineMap := m\<rparr>))"
    using some m(1) now by (simp add: take_timers_def isEmpty_entries)
  moreover have "map de_node (due_entries I (ch_timers ch) due) = map entry_timer due"
    "map de_deadline (due_entries I (ch_timers ch) due) = map (il_ofMicroseconds I \<circ> fst) due"
    by (simp_all add: due_entries_def due_entry_def)
  moreover have "distinct (map entry_timer due)" "sorted (map fst due)"
    using entry_timers_distinct [OF ch_invD(1) [OF inv]] entries_sorted [OF sl] due by (simp_all add: distinct_map_filter sorted_filter)
  moreover have "deadlines (announce_flags (ch\<lparr>ch_timers := taken_timers I E now due (ch_timers ch), ch_deadlineMap := m\<rparr>)) = entries m"
    by (simp add: announce_flags_def split: option.split)
  moreover have "set (entries m) = {e \<in> set (deadlines ch). now < fst e} \<union>
      {(max now (fst e + il_totalMicroseconds I p), snd e) | e p. e \<in> set due \<and>
         Timer_period I (the (ch_timers ch (entry_timer e))) = Some p}"
    unfolding m(2) reenter_set using reentered_due [OF inv _ _ late B] due by auto
  ultimately show ?thesis by auto
qed

lemma interval_library_okD:
  assumes "interval_library_ok I"
  shows "time_library_ok (il_time I)"
    and "int64 (toward_zero (total_ns (il_time I) t) 1000000) \<Longrightarrow>
      il_totalMilliseconds I t = toward_zero (total_ns (il_time I) t) 1000000"
    and "int64 n \<Longrightarrow> total_ns (il_time I) (il_ofMicroseconds I n) = n * 1000"
  using assms unfolding interval_library_ok_def by blast+

text \<open>While a timer is scheduled, \<open>earliest\<close> is known, and not later than its deadline.\<close>

lemma earliest_not_late:
  assumes lib: "interval_library_ok I" and inv: "ch_inv I B ns ch" and e: "e \<in> set (deadlines ch)" "int64 (fst e)"
  obtains d where "Chronology_earliest I (ch # parents) = Some d" "total_ns (il_time I) d \<le> fst e * 1000"
proof (cases "ch_functorQueueEmpty ch")
  case False
  have "total_ns (il_time I) (il_zero I) = 0" by (rule total_zero [OF interval_library_okD(1) [OF lib]])
  then show thesis using False that [of "il_zero I"] ch_invD(6) [OF inv e(1)] by simp
next
  case True
  have flags: "\<not> ch_deadlineMapEmpty ch" "0 \<le> ch_deadlineMapEarliest ch" "ch_deadlineMapEarliest ch \<le> fst e"
    using ch_invD(4) [OF inv] e(1) by (auto simp: flags_ok_def)
  then have d: "total_ns (il_time I) (findEarliest I ch) \<le> fst e * 1000"
    using interval_library_okD(3) [OF lib, of "ch_deadlineMapEarliest ch"] e(2) by (simp add: findEarliest_def int64_def)
  have less: "il_less I t u \<longleftrightarrow> total_ns (il_time I) t < total_ns (il_time I) u" for t u
    by (rule time_library_okD(8) [OF interval_library_okD(1) [OF lib]])
  show thesis
  proof (cases "Chronology_earliest I parents")
    case None
    then show thesis using that [of "findEarliest I ch"] True flags(1) d by simp
  next
    case (Some p)
    then show thesis using that [of "if il_less I p (findEarliest I ch) then p else findEarliest I ch"] True flags(1) d
      by (simp add: less)
  qed
qed

text \<open>
  Claim C13. A driver that waits for the time given by \<open>timeoutInMilliseconds\<close> never sleeps past a deadline: while
  a timer is scheduled the time is not the one that means to wait forever, and it is at most the time left
  until the deadline of the timer, even though the deadline of the map is read without the lock and may be that of
  a timer since rescheduled, and whatever the parents hold.
\<close>

theorem timeout_never_late:
  assumes reached: "chronology_reached I ch" and e: "e \<in> set (deadlines ch)" "int64 (fst e)" and now: "0 \<le> total_ns (il_time I) now"
  shows "0 \<le> timeoutInMilliseconds I now (ch # parents) \<and>
    timeoutInMilliseconds I now (ch # parents) * 1000000 \<le> max 0 (fst e * 1000 - total_ns (il_time I) now)"
proof -
  have lib: "interval_library_ok I" using reached by (simp add: chronology_reached_def)
  note time = interval_library_okD(1) [OF lib]
  obtain d where d: "Chronology_earliest I (ch # parents) = Some d" "total_ns (il_time I) d \<le> fst e * 1000"
    by (rule earliest_not_late [OF lib chronology_reached_inv [OF reached] e])
  show ?thesis
  proof (cases "il_less I now d")
    case True
    define diff where "diff = total_ns (il_time I) d - total_ns (il_time I) now"
    have diff: "0 < diff" "diff \<le> fst e * 1000 - total_ns (il_time I) now" "diff < 9223372036854775808000"
      using True d(2) now e(2) time_library_okD(8) [OF time] by (auto simp: diff_def int64_def)
    then have "total_ns (il_time I) (ti_minus (il_time I) d now) = diff"
      using time_library_okD(5) [OF time, of d now] by (simp add: diff_def representable_def)
    moreover have "toward_zero diff 1000000 = diff div 1000000" "int64 (toward_zero diff 1000000)"
      using diff by (auto simp: toward_zero_def int64_def)
    ultimately have "il_totalMilliseconds I (ti_minus (il_time I) d now) = diff div 1000000"
      using interval_library_okD(2) [OF lib] by metis
    moreover have "timeoutInterval I now (ch # parents) = Some (ti_minus (il_time I) d now)"
      using True d(1) by (simp add: timeoutInterval_def del: Chronology_earliest.simps)
    ultimately show ?thesis using diff by (auto simp: timeoutInMilliseconds_def Let_def)
  next
    case False
    have "il_totalMilliseconds I (il_zero I) = 0"
      using interval_library_okD(2) [OF lib, of "il_zero I"] total_zero [OF time] by (simp add: toward_zero_def int64_def)
    then show ?thesis using False d(1) by (simp add: timeoutInMilliseconds_def timeoutInterval_def del: Chronology_earliest.simps)
  qed
qed

subsection \<open>Concrete runs\<close>

text \<open>Intervals as numbers of nanoseconds, on which the promises of the library can be checked.\<close>

definition ns_library :: "int interval_library" where
  "ns_library = \<lparr>il_time = int_time, il_totalMicroseconds = (\<lambda>t. toward_zero t 1000),
     il_totalMilliseconds = (\<lambda>t. toward_zero t 1000000), il_ofMicroseconds = (\<lambda>n. n * 1000)\<rparr>"

lemma ns_library_ok: "interval_library_ok ns_library"
  by (simp add: interval_library_ok_def ns_library_def)

definition idle :: "int \<Rightarrow> int environment" where
  "idle now = \<lparr>ev_now = now, ev_exactlyNow = (\<lambda>_. now), ev_passthrough = (\<lambda>_. True), ev_randMax = 1, ev_drawn = (\<lambda>_. 0),
     ev_react = (\<lambda>_. []), ev_call = (\<lambda>_. [])\<rparr>"

definition sample_ops :: "int chronology_op list" where
  "sample_ops = [C_user (U_createCallback TimerOptions_init 7), C_user (U_schedule 0 0 10000 3000)]"

definition sample_chronology :: "int Chronology" where
  "sample_chronology = the (run_steps (chronology_step ns_library) sample_ops Chronology_init)"

lemma sample_schedule_ok: "schedule_ok ns_library k_TIME_BOUND 0 10000 3000"
  by (simp add: schedule_ok_def ns_library_def il_min_def int_time_def k_MAX_TIME_INTERVAL_def llong_max_int_def toward_zero_def
      k_TIME_BOUND_def)

lemma all_permitted_always:
  assumes "interval_library_ok I" and "\<forall>x\<in>set xs. \<forall>ch. chronology_permitted I x ch"
  shows "ch_inv I k_TIME_BOUND [] ch \<Longrightarrow> all_permitted (chronology_permitted I) (chronology_step I) xs ch"
  using assms(2)
proof (induction xs arbitrary: ch)
  case (Cons x xs)
  then obtain ch1 where "chronology_step I x ch = Some ch1" "ch_inv I k_TIME_BOUND [] ch1"
    using chronology_step_inv [OF assms(1), of ch x] by auto
  then show ?case using Cons by simp
qed simp

lemma sample_reached:
  "chronology_reached ns_library sample_chronology"
proof -
  have ok: "all_permitted (chronology_permitted ns_library) (chronology_step ns_library) sample_ops Chronology_init"
    by (rule all_permitted_always [OF ns_library_ok _ Chronology_init_inv])
      (auto simp: sample_ops_def TimerOptions_init_def sample_schedule_ok)
  then obtain ch where "run_steps (chronology_step ns_library) sample_ops Chronology_init = Some ch"
    using chronology_runs.run_init [OF all_permitted_conj [OF ns_library_ok ok]] by blast
  then show ?thesis using ok ns_library_ok by (auto simp: chronology_reached_def sample_chronology_def)
qed

lemmas sample_evaluation = sample_chronology_def sample_ops_def createTimer_callback_def takeNode_def privateNodeAllocate_def
  Chronology_init_def SkipList_initialize_def when_exists_def Timer_schedule_def place_deadline_def SkipList_addR_def
  allocateNode_def insertImp_def Timer_init_def TimerOptions_init_def set_timer_def ns_library_def int_time_def il_min_def
  k_MAX_TIME_INTERVAL_def llong_max_int_def toward_zero_def Let_def lookupImpUpperBoundR_def node_level_def entries_def
  k_MAX_NUM_LEVELS_def k_MAX_LEVEL_def preceding_def link_before_def frontNode_def interruptAll_def node_key_def node_data_def

lemma sample_deadlines: "deadlines sample_chronology = [(10, 0, 0)]"
  by (simp add: sample_evaluation)

lemma sample_timer: "ch_timers sample_chronology 0 =
  Some \<lparr>tm_options = TimerOptions_init, tm_callback = Some 7, tm_session = None, tm_period = 3000,
        tm_state = e_STATE_SCHEDULED, tm_handle = Some 0, tm_refs = 2, tm_held = 1\<rparr>"
  by (simp add: sample_evaluation)

lemma idle_ok: "environment_ok ns_library k_TIME_BOUND (idle 12000)"
  by (simp add: environment_ok_def idle_def ns_library_def toward_zero_def k_TIME_BOUND_def)


theorem announce_takes_due_witness:
  "\<exists>ds ch1. take_timers ns_library (idle 12000) False sample_chronology = Some (ds, ch1) \<and> map de_node ds = [0] \<and>
     map de_deadline ds = [10000]"
proof -
  from announce_takes_due [OF sample_reached idle_ok _ refl refl] show ?thesis
    by (auto simp: sample_deadlines) (auto simp: idle_def ns_library_def toward_zero_def)
qed

theorem timeout_never_late_witness:
  "0 \<le> timeoutInMilliseconds ns_library 0 [sample_chronology] \<and>
   timeoutInMilliseconds ns_library 0 [sample_chronology] * 1000000 \<le> 10000"
  using timeout_never_late [OF sample_reached, of "(10, 0, 0)" 0 "[]"] sample_deadlines
  by (simp add: int64_def ns_library_def)

subsection \<open>Where the code falls short\<close>

text \<open>
  The run of the next theorem: two timers that fire once, both due at an announcement, and a callback of the first that
  schedules the second for a later time. The states on the way are given explicitly, so that the evaluation of each operation is short.
\<close>

definition reschedule_setup :: "int \<Rightarrow> int \<Rightarrow> int chronology_op list" where
  "reschedule_setup d1 d2 =
     [C_user (U_createCallback TimerOptions_init 7), C_user (U_createCallback TimerOptions_init 8),
      C_user (U_schedule 0 0 d1 0), C_user (U_schedule 0 1 d2 0)]"

definition rescheduling :: "int \<Rightarrow> int \<Rightarrow> int environment" where
  "rescheduling now d = (idle now)\<lparr>ev_react := (\<lambda>(r, n, e). if n = 0 then [U_schedule 0 1 d 0] else [])\<rparr>"

lemma announce_loop_end:
  "frontNode (ch_deadlineMap ch) = None \<Longrightarrow> announce_loop I E now r due ch = Some (due, ch)"
  "frontNode (ch_deadlineMap ch) = Some c \<Longrightarrow> now < node_key (ch_deadlineMap ch) c \<Longrightarrow> announce_loop I E now r due ch = Some (due, ch)"
  by (subst announce_loop.simps; simp)+

lemma announce_loop_once:
  assumes "frontNode (ch_deadlineMap ch) = Some c" and "\<not> now < node_key (ch_deadlineMap ch) c" and "r \<noteq> Some c"
    and "ch_timers ch (node_data (ch_deadlineMap ch) c) = Some t" and "Timer_period I t = None"
    and "map_remove (tm_handle t) (ch_deadlineMap ch) = Some m"
  shows "announce_loop I E now r due ch =
    announce_loop I E now r (due @ [due_entry I (node_data (ch_deadlineMap ch) c) (node_key (ch_deadlineMap ch) c) t])
      ((set_timer (node_data (ch_deadlineMap ch) c) (t\<lparr>tm_handle := None\<rparr>) ch)\<lparr>ch_deadlineMap := m\<rparr>)"
  using assms by (subst announce_loop.simps) (simp add: Let_def)

lemma links_unfold: "replicate 32 x = x # replicate 31 x"
  by (simp add: numeral_eq_Suc)

definition two_due :: "int \<Rightarrow> int \<Rightarrow> int Chronology" where
  "two_due a b =
     \<lparr>ch_nodeArray = [0, 1], ch_nodeFree = [], ch_nodeCount = 2,
      ch_timers = [0 \<mapsto> \<lparr>tm_options = TimerOptions_init, tm_callback = Some 7, tm_session = None, tm_period = 0,
                         tm_state = e_STATE_SCHEDULED, tm_handle = Some 0, tm_refs = 2, tm_held = 1\<rparr>,
                   1 \<mapsto> \<lparr>tm_options = TimerOptions_init, tm_callback = Some 8, tm_session = None, tm_period = 0,
                         tm_state = e_STATE_SCHEDULED, tm_handle = Some 1, tm_refs = 2, tm_held = 1\<rparr>],
      ch_deadlineMap = \<lparr>sl_listLevel = 0, sl_length = 2,
         sl_nodes = [0 \<mapsto> \<lparr>nd_level = 0, nd_data = 0, nd_key = a\<rparr>, 1 \<mapsto> \<lparr>nd_level = 0, nd_data = 1, nd_key = b\<rparr>],
         sl_links = [0, 1] # replicate 31 [], sl_fresh = 2\<rparr>,
      ch_deadlineMapEmpty = False, ch_deadlineMapEarliest = a, ch_functorQueue = [], ch_functorQueueEmpty = True,
      ch_interrupts = 1, ch_log = []\<rparr>"

lemma two_due_run:
  assumes "0 < a" "a \<le> b" "b \<le> k_TIME_BOUND"
  shows "run_steps (chronology_step ns_library) (reschedule_setup (a * 1000) (b * 1000)) Chronology_init = Some (two_due a b)"
  using assms by (simp add: k_TIME_BOUND_def reschedule_setup_def two_due_def sample_evaluation links_unfold numeral_2_eq_2)

definition two_taken :: "int Chronology" where
  "two_taken =
     \<lparr>ch_nodeArray = [0, 1], ch_nodeFree = [], ch_nodeCount = 2,
      ch_timers = [0 \<mapsto> \<lparr>tm_options = TimerOptions_init, tm_callback = Some 7, tm_session = None, tm_period = 0,
                         tm_state = e_STATE_SCHEDULED, tm_handle = None, tm_refs = 2, tm_held = 1\<rparr>,
                   1 \<mapsto> \<lparr>tm_options = TimerOptions_init, tm_callback = Some 8, tm_session = None, tm_period = 0,
                         tm_state = e_STATE_SCHEDULED, tm_handle = None, tm_refs = 2, tm_held = 1\<rparr>],
      ch_deadlineMap = \<lparr>sl_listLevel = 0, sl_length = 0, sl_nodes = (\<lambda>_. None), sl_links = [] # replicate 31 [],
         sl_fresh = 2\<rparr>,
      ch_deadlineMapEmpty = True, ch_deadlineMapEarliest = 0, ch_functorQueue = [], ch_functorQueueEmpty = True,
      ch_interrupts = 1, ch_log = []\<rparr>"

lemmas time_evaluation = ns_library_def int_time_def il_min_def k_MAX_TIME_INTERVAL_def llong_max_int_def toward_zero_def
lemmas map_evaluation = node_key_def node_data_def frontNode_def SkipList_remove_def Let_def entries_def node_level_def

lemma two_due_taken:
  assumes "0 < a" "a \<le> b" "b \<le> now" and E: "ev_now E = now * 1000"
  shows "\<exists>d e. take_timers ns_library E False (two_due a b) = Some ([d, e], two_taken) \<and>
    de_node d = 0 \<and> de_node e = 1 \<and> de_deadline d = a * 1000 \<and> de_deadline e = b * 1000"
proof -
  have "il_totalMicroseconds ns_library (ev_now E) = now" using assms by (simp add: time_evaluation)
  then show ?thesis
    using assms(1-3)
    by (simp add: take_timers_def SkipList_isEmpty_def two_due_def two_taken_def announce_loop_end announce_loop_once
        map_evaluation time_evaluation Timer_period_def map_remove_def due_entry_def set_timer_def announce_flags_def)
qed

definition deadline_lost :: "int \<Rightarrow> int announcement list \<Rightarrow> int Chronology" where
  "deadline_lost c evs =
     \<lparr>ch_nodeArray = [0, 1], ch_nodeFree = [], ch_nodeCount = 2,
      ch_timers = [0 \<mapsto> \<lparr>tm_options = TimerOptions_init, tm_callback = Some 7, tm_session = None, tm_period = 0,
                         tm_state = e_STATE_WAITING, tm_handle = None, tm_refs = 1, tm_held = 1\<rparr>,
                   1 \<mapsto> \<lparr>tm_options = TimerOptions_init, tm_callback = Some 8, tm_session = None, tm_period = 0,
                         tm_state = e_STATE_WAITING, tm_handle = Some 2, tm_refs = 2, tm_held = 1\<rparr>],
      ch_deadlineMap = \<lparr>sl_listLevel = 0, sl_length = 1, sl_nodes = [2 \<mapsto> \<lparr>nd_level = 0, nd_data = 1, nd_key = c\<rparr>],
         sl_links = [2] # replicate 31 [], sl_fresh = 3\<rparr>,
      ch_deadlineMapEmpty = False, ch_deadlineMapEarliest = c, ch_functorQueue = [], ch_functorQueueEmpty = True,
      ch_interrupts = 2, ch_log = evs\<rparr>"

lemma two_taken_arrive:
  assumes "0 < c" "c \<le> k_TIME_BOUND" and n: "de_node d = 0" "de_node e = 1"
  shows "\<exists>evs. arrive_all ns_library (rescheduling now (c * 1000)) [d, e] two_taken = Some (deadline_lost c evs) \<and>
    map (\<lambda>(r, n, e). (r, n, te_type e)) evs = [(To_callback 7, 0, e_DEADLINE), (To_callback 8, 1, e_DEADLINE)]"
  using assms
  by (simp add: k_TIME_BOUND_def two_taken_def deadline_lost_def Timer_arrive_def arrived_timer_def notify_def rescheduling_def idle_def
      TimerOptions_oneShot_def TimerOptions_init_def wantEvent_def when_exists_def Timer_schedule_def place_deadline_def
      SkipList_addR_def time_evaluation map_evaluation Timer_period_def set_timer_def allocateNode_def insertImp_def
      lookupImpUpperBoundR_def preceding_def link_before_def interruptAll_def releaseRef_def disposeRep_def numeral_2_eq_2)

lemma deadline_lost_announce:
  assumes "0 < c" "c \<le> later"
  shows "\<exists>ch. announce_own ns_library (idle (later * 1000)) False (deadline_lost c evs) = Some (False, ch) \<and>
    ch_log ch = evs \<and> deadlines ch = []"
  using assms
  by (simp add: announce_own_def take_functors_def take_timers_def SkipList_isEmpty_def deadline_lost_def announce_loop_end
      announce_loop_once idle_def map_evaluation time_evaluation Timer_period_def map_remove_def due_entry_def set_timer_def
      announce_flags_def Timer_arrive_def releaseRef_def disposeRep_def)

lemma reschedule_permitted:
  assumes "0 < a" "a \<le> b" "b \<le> now" "now < c" "c \<le> k_TIME_BOUND"
  shows "all_permitted (chronology_permitted ns_library) (chronology_step ns_library)
    (reschedule_setup (a * 1000) (b * 1000) @ [C_announce (rescheduling (now * 1000) (c * 1000)) False]) Chronology_init"
  using assms
  by (intro all_permitted_always [OF ns_library_ok _ Chronology_init_inv])
    (auto simp: reschedule_setup_def environment_ok_def rescheduling_def idle_def schedule_ok_def TimerOptions_init_def
       time_evaluation k_TIME_BOUND_def split: if_splits)

text \<open>
  Claim C37. A deadline can be lost. Two timers with default options that fire once are scheduled, by a client of a fresh
  chronology, for the times \<open>a\<close> and \<open>b\<close>, both due when \<open>announce\<close> runs, and the callback of the first schedules the second for a
  later time \<open>c\<close>. The second timer is nevertheless announced in the same announcement, for its old deadline. Its new
  deadline stays in the map, but the timer is taken for one that is not scheduled: \<open>cancel\<close> refuses it, and the announcement
  that comes when \<open>c\<close> has passed removes the deadline without announcing anything.
\<close>

theorem rescheduled_deadline_lost:
  assumes "0 < a" and "a \<le> b" and "b \<le> now" and "now < c" and "c \<le> later" and "later \<le> k_TIME_BOUND"
  shows "\<exists>ch ch1. run_steps (chronology_step ns_library)
       (reschedule_setup (a * 1000) (b * 1000) @ [C_announce (rescheduling (now * 1000) (c * 1000)) False])
       Chronology_init = Some ch \<and> chronology_reached ns_library ch \<and>
     map (\<lambda>(r, n, e). (r, n, te_type e)) (ch_log ch) = [(To_callback 7, 0, e_DEADLINE), (To_callback 8, 1, e_DEADLINE)] \<and>
     map (\<lambda>(us, h, n). (us, n)) (deadlines ch) = [(c, 1)] \<and>
     Timer_cancel ns_library 1 ch = Some (E_INVALID, ch) \<and>
     chronology_step ns_library (C_announce (idle (later * 1000)) False) ch = Some ch1 \<and>
     ch_log ch1 = ch_log ch \<and> deadlines ch1 = []"
proof -
  let ?E = "rescheduling (now * 1000) (c * 1000)"
  have "ev_now ?E = now * 1000" by (simp add: rescheduling_def idle_def)
  from two_due_taken [OF assms(1-3) this] obtain d e where
    taken: "take_timers ns_library ?E False (two_due a b) = Some ([d, e], two_taken)" "de_node d = 0" "de_node e = 1" by blast
  obtain evs where evs: "arrive_all ns_library ?E [d, e] two_taken = Some (deadline_lost c evs)"
      "map (\<lambda>(r, n, e). (r, n, te_type e)) evs = [(To_callback 7, 0, e_DEADLINE), (To_callback 8, 1, e_DEADLINE)]"
    using two_taken_arrive [of c d e "now * 1000"] assms taken(2,3) by auto
  have "take_functors False (two_due a b) = ([], two_due a b)" by (simp add: take_functors_def two_due_def)
  then have "announce_own ns_library ?E False (two_due a b) = Some (False, deadline_lost c evs)"
    using taken(1) evs(1) by (simp add: announce_own_def del: arrive_all.simps)
  then have run: "run_steps (chronology_step ns_library) (reschedule_setup (a * 1000) (b * 1000) @ [C_announce ?E False])
      Chronology_init = Some (deadline_lost c evs)"
    using two_due_run [of a b] assms by (simp add: run_steps_append)
  moreover have "chronology_reached ns_library (deadline_lost c evs)"
    using run reschedule_permitted [of a b now c] assms ns_library_ok unfolding chronology_reached_def by force
  moreover have "map (\<lambda>(us, h, n). (us, n)) (deadlines (deadline_lost c evs)) = [(c, 1)]" "ch_log (deadline_lost c evs) = evs"
    "Timer_cancel ns_library 1 (deadline_lost c evs) = Some (E_INVALID, deadline_lost c evs)"
    by (simp_all add: deadline_lost_def map_evaluation Timer_cancel_def)
  ultimately show ?thesis using evs(2) deadline_lost_announce [of c later evs] assms by auto
qed

theorem rescheduled_deadline_lost_witness:
  "\<exists>ch ch1. run_steps (chronology_step ns_library)
       (reschedule_setup 5000 6000 @ [C_announce (rescheduling 10000 20000) False]) Chronology_init = Some ch \<and>
     map (\<lambda>(r, n, e). (r, n, te_type e)) (ch_log ch) = [(To_callback 7, 0, e_DEADLINE), (To_callback 8, 1, e_DEADLINE)] \<and>
     map (\<lambda>(us, h, n). (us, n)) (deadlines ch) = [(20, 1)] \<and>
     chronology_step ns_library (C_announce (idle 30000) False) ch = Some ch1 \<and> ch_log ch1 = ch_log ch \<and> deadlines ch1 = []"
  using rescheduled_deadline_lost [of 5 6 10 20 30] by (auto simp: k_TIME_BOUND_def)

lemma count_entry_timers:
  assumes inv: "map_inv ch" and t: "ch_timers ch n = Some t"
  shows "count_list (map entry_timer (deadlines ch)) n = (if tm_handle t = None then 0 else 1)"
proof -
  have "tm_handle t \<noteq> None" if "n \<in> entry_timer ` set (deadlines ch)"
  proof -
    from that obtain k h where "(k, h, n) \<in> set (deadlines ch)" by auto
    then show ?thesis using entry_handle [OF inv] t by fastforce
  qed
  moreover have "n \<in> entry_timer ` set (deadlines ch)" if h: "tm_handle t = Some h" for h
    using handle_entry [OF inv t h] by force
  ultimately have "n \<in> entry_timer ` set (deadlines ch) \<longleftrightarrow> tm_handle t \<noteq> None" by blast
  then show ?thesis using count_list_distinct [OF entry_timers_distinct [OF inv], of n] by simp
qed

lemma releaseRefs_counts:
  "(\<And>n. n \<in> set ns \<Longrightarrow> \<exists>t. ch_timers ch n = Some t \<and> count_list ns n \<le> tm_refs t) \<Longrightarrow>
   \<exists>ch1. releaseRefs ns ch = Some ch1 \<and> ch_deadlineMap ch1 = ch_deadlineMap ch \<and>
     (\<forall>n t. ch_timers ch n = Some t \<longrightarrow> count_list ns n < tm_refs t \<longrightarrow>
        ch_timers ch1 n = Some (t\<lparr>tm_refs := tm_refs t - count_list ns n\<rparr>))"
proof (induction ns arbitrary: ch)
  case (Cons m ns)
  obtain t where t: "ch_timers ch m = Some t" "Suc (count_list ns m) \<le> tm_refs t" using Cons.prems [of m] by auto
  obtain ch1 where ch1: "releaseRef m ch = Some ch1" "ch_deadlineMap ch1 = ch_deadlineMap ch"
    "\<And>n. n \<noteq> m \<Longrightarrow> ch_timers ch1 n = ch_timers ch n"
    "1 < tm_refs t \<Longrightarrow> ch_timers ch1 m = Some (t\<lparr>tm_refs := tm_refs t - 1\<rparr>)"
    using t by (auto simp: releaseRef_def disposeRep_def)
  have "\<exists>t. ch_timers ch1 n = Some t \<and> count_list ns n \<le> tm_refs t" if n: "n \<in> set ns" for n
  proof (cases "n = m")
    case True
    then have "0 < count_list ns m" using n by (metis count_list_0_iff gr0I)
    then show ?thesis using True t(2) ch1(4) by auto
  next
    case False
    then show ?thesis using Cons.prems [of n] n ch1(3) [OF False] by auto
  qed
  from Cons.IH [OF this] obtain ch2 where ch2: "releaseRefs ns ch1 = Some ch2" "ch_deadlineMap ch2 = ch_deadlineMap ch1"
    "\<And>n t. ch_timers ch1 n = Some t \<Longrightarrow> count_list ns n < tm_refs t \<Longrightarrow> ch_timers ch2 n = Some (t\<lparr>tm_refs := tm_refs t - count_list ns n\<rparr>)"
    by blast
  have "ch_timers ch2 n = Some (t'\<lparr>tm_refs := tm_refs t' - count_list (m # ns) n\<rparr>)"
    if t': "ch_timers ch n = Some t'" "count_list (m # ns) n < tm_refs t'" for n t'
    using t' t ch1(3) [of n] ch1(4) ch2(3) [of n] by (cases "n = m") auto
  then show ?case using ch1(1,2) ch2(1,2) by auto
qed simp

lemma releaseRefs_append: "releaseRefs (ns @ ms) ch = do { ch1 \<leftarrow> releaseRefs ns ch; releaseRefs ms ch1 }"
  by (induction ns arbitrary: ch) (auto split: Option.bind_split)

lemma clear_own_eq:
  assumes inv: "ch_inv I B [] ch" and some: "deadlines ch \<noteq> []"
  shows "clear_own ch = releaseRefs (deferred_refs ch @ map entry_timer (deadlines ch))
    (ch\<lparr>ch_functorQueue := [], ch_functorQueueEmpty := True, ch_deadlineMap := snd (SkipList_removeAll (ch_deadlineMap ch)),
       ch_deadlineMapEmpty := True, ch_deadlineMapEarliest := 0\<rparr>)"
proof -
  have "map_walk (ch_deadlineMap ch) (frontNode (ch_deadlineMap ch)) = Some (map entry_timer (deadlines ch))"
    using map_walk_front ch_invD(1) [OF inv] unfolding map_inv_def by blast
  then show ?thesis using some by (simp add: clear_own_def clear_map_def isEmpty_entries Let_def releaseRefs_append)
qed

text \<open>
  Claim C38. \<open>clear\<close> empties the map and leaves the handles of the timers as they are. A timer that was scheduled
  and that the user still holds keeps a pointer to a node that has been released, and scheduling it again uses that node.
\<close>

theorem clear_leaves_dangling_handle:
  assumes reached: "chronology_reached I ch"
    and t: "ch_timers ch n = Some t" "tm_handle t \<noteq> None" "0 < tm_held t" "tm_state t \<noteq> e_STATE_CLOSED"
  shows "\<exists>ch1. clear_own ch = Some ch1 \<and> (\<forall>level deadline period. Timer_schedule I level n deadline period ch1 = None)"
proof -
  have inv: "ch_inv I k_TIME_BOUND [] ch" by (rule chronology_reached_inv [OF reached])
  note map = ch_invD(1) [OF inv]
  obtain h where h: "tm_handle t = Some h" using t(2) by auto
  then have some: "deadlines ch \<noteq> []" using handle_entry [OF map t(1)] by fastforce
  let ?ns = "deferred_refs ch @ map entry_timer (deadlines ch)" and ?m = "snd (SkipList_removeAll (ch_deadlineMap ch))"
  let ?ch = "ch\<lparr>ch_functorQueue := [], ch_functorQueueEmpty := True, ch_deadlineMap := ?m,
    ch_deadlineMapEmpty := True, ch_deadlineMapEarliest := 0\<rparr>"
  have count: "tm_refs t' = tm_held t' + count_list ?ns m" if "ch_timers ch m = Some t'" for m t'
    using ch_inv_refs(1) [OF inv that] count_entry_timers [OF map that] by (simp add: expected_refs_def)
  have alive: "\<exists>t'. ch_timers ?ch m = Some t' \<and> count_list ?ns m \<le> tm_refs t'" if "m \<in> set ?ns" for m
  proof -
    have "m \<in> dom (ch_timers ch)" using that ch_invD(2) [OF inv] entry_handle [OF map] by (fastforce simp: refs_ok_def)
    then show ?thesis using count [of m] by auto
  qed
  obtain ch1 where ch1: "releaseRefs ?ns ?ch = Some ch1" "ch_deadlineMap ch1 = ?m"
    "ch_timers ch1 n = Some (t\<lparr>tm_refs := tm_refs t - count_list ?ns n\<rparr>)"
    using releaseRefs_counts [of ?ns ?ch] alive t count [OF t(1)] by auto
  have "sl_inv (ch_deadlineMap ch)" using map unfolding map_inv_def by blast
  then have m: "sl_inv ?m" "entries ?m = []" using SkipList_removeAll_inv by blast+
  then have "sl_nodes ?m h = None" using entry_refs [OF m(1)] by auto
  then have "Timer_schedule I level n deadline period ch1 = None" for level deadline period
    using ch1(2,3) t(4) h by (simp add: Timer_schedule_def place_deadline_def SkipList_updateR_def Let_def)
  then show ?thesis using clear_own_eq [OF inv some] ch1(1) by auto
qed

theorem clear_leaves_dangling_handle_witness:
  "\<exists>ch1. clear_own sample_chronology = Some ch1 \<and> (\<forall>level deadline period. Timer_schedule ns_library level 0 deadline period ch1 = None)"
  by (rule clear_leaves_dangling_handle [OF sample_reached sample_timer]) simp_all

end
