(* ===== verification/Strand.thy ===== *)
theory Strand
  imports Ntf_Prelude "HOL-Library.Multiset" "HOL-Library.Sublist"
begin

section \<open>Strands\<close>

text \<open>
  This theory models \<open>ntcs::Strand\<close> (\<open>ntcs_strand.cpp\<close>, the greedy implementation that is compiled): a queue of
  functions that are executed one at a time, in order, by whatever threads drive the executor below it. Threads
  interleave between the sections that hold the lock of the queue, the calls of functions, and the hand-over of
  \<open>invoke\<close> to the executor. Each section under the lock is a function; the step relations place them in the
  program of a thread. A failed assertion is \<^term>\<open>None\<close> of such a function, and sets a flag of the system.

  The executor, and \<open>ntcs::Async\<close> where the executor is gone, are the numbers of invocations
  handed to them that have not begun; any thread may begin one of them at any time. A function is
  a number; what it does to the strand while it is called is what its thread does meanwhile. The destructor of a
  strand with its assertion is left out, and so are functions that run another strand inline: there is one strand.
\<close>

subsection \<open>The sections under the lock\<close>

record Strand =
  sd_functorQueue :: "nat list"
  sd_pending :: bool

definition Strand_init :: Strand where
  "Strand_init = \<lparr>sd_functorQueue = [], sd_pending = False\<rparr>"

text \<open>A strand is activated by the thread that makes it pending.\<close>

definition Strand_activate :: "Strand \<Rightarrow> bool \<times> Strand" where
  "Strand_activate sd = (if \<not> sd_pending sd then (True, sd\<lparr>sd_pending := True\<rparr>) else (False, sd))"

definition Strand_execute :: "nat \<Rightarrow> Strand \<Rightarrow> bool \<times> Strand" where
  "Strand_execute f sd = Strand_activate (sd\<lparr>sd_functorQueue := sd_functorQueue sd @ [f]\<rparr>)"

definition Strand_moveAndExecute :: "nat list \<Rightarrow> nat option \<Rightarrow> Strand \<Rightarrow> bool \<times> Strand" where
  "Strand_moveAndExecute fs f sd =
     (let sd1 = sd\<lparr>sd_functorQueue := sd_functorQueue sd @ fs\<rparr>;
          sd2 = (case f of Some g \<Rightarrow> sd1\<lparr>sd_functorQueue := sd_functorQueue sd1 @ [g]\<rparr> | None \<Rightarrow> sd1)
      in Strand_activate sd2)"

definition Strand_clear :: "Strand \<Rightarrow> Strand" where
  "Strand_clear sd = sd\<lparr>sd_functorQueue := []\<rparr>"

text \<open>The functions taken from the queue in a round of \<open>invoke\<close> or \<open>drain\<close>; no function ends the loop.\<close>

definition invoke_take :: "Strand \<Rightarrow> (nat list \<times> Strand) option" where
  "invoke_take sd =
     (if \<not> sd_pending sd then None
      else if sd_functorQueue sd \<noteq> [] then Some (sd_functorQueue sd, sd\<lparr>sd_functorQueue := []\<rparr>)
      else Some ([], sd\<lparr>sd_pending := False\<rparr>))"

definition drain_take :: "Strand \<Rightarrow> (nat list \<times> Strand) option" where
  "drain_take sd =
     (if sd_pending sd then None
      else if sd_functorQueue sd \<noteq> [] then Some (sd_functorQueue sd, sd\<lparr>sd_functorQueue := []\<rparr>)
      else Some ([], sd))"

subsection \<open>Threads\<close>

datatype strand_mode = Invoking | Draining

text \<open>
  Where a thread is: outside of the loops, before the lock in one of them, or in the call of a function, with the strand
  that was active in the thread before and the functions that follow in the round.
\<close>

datatype strand_pc = Outside | Looping strand_mode | Calling strand_mode "nat option" nat "nat list"

record strand_system =
  ss_strand :: Strand
  ss_self :: nat
  ss_pc :: "nat \<Rightarrow> strand_pc"
  ss_activating :: "nat \<Rightarrow> bool"
  ss_local :: "nat \<Rightarrow> nat option"
  ss_executor :: nat
  ss_async :: nat
  ss_failed :: bool
  ss_submitted :: "nat list"
  ss_cleared :: "nat list"
  ss_started :: "nat list"
  ss_finished :: "nat list"

definition strand_system_init :: "nat \<Rightarrow> (nat \<Rightarrow> nat option) \<Rightarrow> strand_system" where
  "strand_system_init self active =
     \<lparr>ss_strand = Strand_init, ss_self = self, ss_pc = (\<lambda>_. Outside), ss_activating = (\<lambda>_. False), ss_local = active,
      ss_executor = 0, ss_async = 0, ss_failed = False, ss_submitted = [], ss_cleared = [], ss_started = [],
      ss_finished = []\<rparr>"

definition isRunningInCurrentThread :: "strand_system \<Rightarrow> nat \<Rightarrow> bool" where
  "isRunningInCurrentThread s i \<longleftrightarrow> ss_local s i = Some (ss_self s)"

definition passthrough :: "nat option \<Rightarrow> nat option \<Rightarrow> bool" where
  "passthrough calleeStrand callerStrand \<longleftrightarrow> calleeStrand = None \<or> calleeStrand = callerStrand"

text \<open>What a thread that may call the strand is doing: it is outside, or in a function of the strand.\<close>

definition free_to_call :: "nat \<Rightarrow> strand_system \<Rightarrow> bool" where
  "free_to_call i s \<longleftrightarrow> \<not> ss_activating s i \<and> (\<forall>mode. ss_pc s i \<noteq> Looping mode)"

definition submit :: "nat \<Rightarrow> nat list \<Rightarrow> bool \<times> Strand \<Rightarrow> strand_system \<Rightarrow> strand_system" where
  "submit i fs r s =
     s\<lparr>ss_strand := snd r, ss_activating := (ss_activating s)(i := fst r), ss_submitted := ss_submitted s @ fs\<rparr>"

text \<open>The hand-over of \<open>invoke\<close>, to the executor if it still exists.\<close>

definition activate :: "nat \<Rightarrow> bool \<Rightarrow> strand_system \<Rightarrow> strand_system" where
  "activate i executorRef s =
     (let s1 = s\<lparr>ss_activating := (ss_activating s)(i := False)\<rparr>
      in if executorRef then s1\<lparr>ss_executor := ss_executor s + 1\<rparr> else s1\<lparr>ss_async := ss_async s + 1\<rparr>)"

text \<open>A round begins with the installation of the strand in the thread, and ends with that of the previous one.\<close>

definition enter_round :: "nat \<Rightarrow> strand_mode \<Rightarrow> (nat list \<times> Strand) option \<Rightarrow> strand_system \<Rightarrow> strand_system" where
  "enter_round i mode r s =
     (case r of
        None \<Rightarrow> s\<lparr>ss_failed := True\<rparr>
      | Some ([], sd) \<Rightarrow> s\<lparr>ss_strand := sd, ss_pc := (ss_pc s)(i := Outside)\<rparr>
      | Some (f # fs, sd) \<Rightarrow>
          s\<lparr>ss_strand := sd, ss_pc := (ss_pc s)(i := Calling mode (ss_local s i) f fs),
            ss_local := (ss_local s)(i := Some (ss_self s)), ss_started := ss_started s @ [f]\<rparr>)"

definition next_call :: "nat \<Rightarrow> strand_mode \<Rightarrow> nat option \<Rightarrow> nat \<Rightarrow> nat list \<Rightarrow> strand_system \<Rightarrow> strand_system" where
  "next_call i mode previous f fs s =
     (let s1 = s\<lparr>ss_finished := ss_finished s @ [f]\<rparr>
      in case fs of
           [] \<Rightarrow> s1\<lparr>ss_pc := (ss_pc s)(i := Looping mode), ss_local := (ss_local s)(i := previous)\<rparr>
         | g # gs \<Rightarrow> s1\<lparr>ss_pc := (ss_pc s)(i := Calling mode previous g gs), ss_started := ss_started s @ [g]\<rparr>)"

text \<open>What users do, and what the strand does on its own.\<close>

inductive strand_call :: "strand_system \<Rightarrow> strand_system \<Rightarrow> bool" where
  call_execute: "free_to_call i s \<Longrightarrow> strand_call s (submit i [f] (Strand_execute f (ss_strand s)) s)"
| call_moveAndExecute:
    "free_to_call i s \<Longrightarrow>
     strand_call s (submit i (fs @ (case f of Some g \<Rightarrow> [g] | None \<Rightarrow> [])) (Strand_moveAndExecute fs f (ss_strand s)) s)"
| call_clear:
    "free_to_call i s \<Longrightarrow>
     strand_call s (s\<lparr>ss_strand := Strand_clear (ss_strand s),
                      ss_cleared := ss_cleared s @ sd_functorQueue (ss_strand s)\<rparr>)"
| call_drain:
    "free_to_call i s \<Longrightarrow> ss_pc s i = Outside \<Longrightarrow> \<not> sd_pending (ss_strand s) \<Longrightarrow>
     strand_call s (enter_round i Draining (drain_take (ss_strand s)) s)"
| other_strand:
    "ss_pc s i = Outside \<Longrightarrow> x \<noteq> Some (ss_self s) \<Longrightarrow> strand_call s (s\<lparr>ss_local := (ss_local s)(i := x)\<rparr>)"

inductive strand_work :: "strand_system \<Rightarrow> strand_system \<Rightarrow> bool" where
  work_activate: "ss_activating s i \<Longrightarrow> strand_work s (activate i executorRef s)"
| work_executor:
    "free_to_call i s \<Longrightarrow> ss_pc s i = Outside \<Longrightarrow> ss_executor s = Suc n \<Longrightarrow>
     strand_work s (s\<lparr>ss_executor := n, ss_pc := (ss_pc s)(i := Looping Invoking)\<rparr>)"
| work_async:
    "free_to_call i s \<Longrightarrow> ss_pc s i = Outside \<Longrightarrow> ss_async s = Suc n \<Longrightarrow>
     strand_work s (s\<lparr>ss_async := n, ss_pc := (ss_pc s)(i := Looping Invoking)\<rparr>)"
| work_invoke: "ss_pc s i = Looping Invoking \<Longrightarrow> strand_work s (enter_round i Invoking (invoke_take (ss_strand s)) s)"
| work_drain: "ss_pc s i = Looping Draining \<Longrightarrow> strand_work s (enter_round i Draining (drain_take (ss_strand s)) s)"
| work_return:
    "ss_pc s i = Calling mode previous f fs \<Longrightarrow> \<not> ss_activating s i \<Longrightarrow> strand_work s (next_call i mode previous f fs s)"

inductive strand_reachable :: "strand_system \<Rightarrow> bool" where
  start: "\<forall>i. active i \<noteq> Some self \<Longrightarrow> strand_reachable (strand_system_init self active)"
| call: "strand_reachable s \<Longrightarrow> strand_call s t \<Longrightarrow> strand_reachable t"
| work: "strand_reachable s \<Longrightarrow> strand_work s t \<Longrightarrow> strand_reachable t"

subsection \<open>Sums over threads\<close>

definition over_threads :: "(nat \<Rightarrow> nat) \<Rightarrow> nat" where
  "over_threads g = (\<Sum>i | g i \<noteq> 0. g i)"

lemma over_threads_zero [simp]: "over_threads (\<lambda>_. 0) = 0"
  by (simp add: over_threads_def)

lemma over_threads_upd: "finite {i. g i \<noteq> 0} \<Longrightarrow> over_threads (g(k := x)) + g k = over_threads g + x"
proof -
  assume fin: "finite {i. g i \<noteq> 0}"
  let ?A = "insert k {i. g i \<noteq> 0}"
  have "over_threads (g(k := x)) = sum (g(k := x)) ?A" "over_threads g = sum g ?A"
    unfolding over_threads_def by (rule sum.mono_neutral_left; use fin in auto)+
  moreover have "sum h ?A = h k + sum h (?A - {k})" for h :: "nat \<Rightarrow> nat"
    using fin by (simp add: sum.insert_remove)
  moreover have "sum (g(k := x)) (?A - {k}) = sum g (?A - {k})" by (rule sum.cong) auto
  ultimately show ?thesis by simp
qed

lemma over_threads_ge: "finite {i. g i \<noteq> 0} \<Longrightarrow> g k \<le> over_threads g"
  using member_le_sum [of k "{i. g i \<noteq> 0}" g] by (cases "g k = 0") (auto simp: over_threads_def)

subsection \<open>The invariant\<close>

text \<open>
  A strand is pending exactly while there is one token: a thread about to activate it, an invocation handed over that has
  not begun, or a thread in \<open>invoke\<close>. No thread is ever in the loop of \<open>drain\<close>, since a queue that is not
  empty is that of a pending strand.
\<close>

definition tokens :: "strand_system \<Rightarrow> nat \<Rightarrow> nat" where
  "tokens s i = of_bool (ss_activating s i) + of_bool (ss_pc s i \<noteq> Outside)"

fun held :: "strand_pc \<Rightarrow> nat list" where
  "held (Calling mode previous f fs) = fs"
| "held pc = []"

fun current :: "strand_pc \<Rightarrow> nat list" where
  "current (Calling mode previous f fs) = [f]"
| "current pc = []"

fun local_ok :: "nat \<Rightarrow> nat option \<Rightarrow> strand_pc \<Rightarrow> bool" where
  "local_ok self x (Calling mode previous f fs) = (x = Some self \<and> previous \<noteq> Some self \<and> mode = Invoking)"
| "local_ok self x (Looping mode) = (x \<noteq> Some self \<and> mode = Invoking)"
| "local_ok self x Outside = (x \<noteq> Some self)"

text \<open>The thread in \<open>invoke\<close>, if there is one, has the functions taken and not begun.\<close>

definition order_ok :: "strand_system \<Rightarrow> strand_pc \<Rightarrow> bool" where
  "order_ok s pc \<longleftrightarrow>
     subseq (ss_started s @ held pc @ sd_functorQueue (ss_strand s)) (ss_submitted s) \<and>
     mset (ss_submitted s) = mset (ss_started s @ held pc @ sd_functorQueue (ss_strand s)) + mset (ss_cleared s) \<and>
     ss_started s = ss_finished s @ current pc"

definition order_inv :: "strand_system \<Rightarrow> bool" where
  "order_inv s \<longleftrightarrow>
     (\<forall>i. ss_pc s i \<noteq> Outside \<longrightarrow> order_ok s (ss_pc s i)) \<and> ((\<forall>i. ss_pc s i = Outside) \<longrightarrow> order_ok s Outside)"

definition strand_inv :: "strand_system \<Rightarrow> bool" where
  "strand_inv s \<longleftrightarrow>
     \<not> ss_failed s \<and> finite {i. tokens s i \<noteq> 0} \<and>
     over_threads (tokens s) + ss_executor s + ss_async s = of_bool (sd_pending (ss_strand s)) \<and>
     (sd_functorQueue (ss_strand s) \<noteq> [] \<longrightarrow> sd_pending (ss_strand s)) \<and>
     (\<forall>i. local_ok (ss_self s) (ss_local s i) (ss_pc s i)) \<and> order_inv s"

lemma tokens_zero: "tokens s i = 0 \<longleftrightarrow> \<not> ss_activating s i \<and> ss_pc s i = Outside"
  by (simp add: tokens_def)

lemma over_threads_two:
  assumes fin: "finite {i. g i \<noteq> 0}" and ij: "i \<noteq> j"
  shows "g i + g j \<le> over_threads g"
proof -
  have "finite {k. (g(i := 0)) k \<noteq> 0}" by (rule finite_subset [OF _ fin]) auto
  from over_threads_ge [OF this, of j] have "g j \<le> over_threads (g(i := 0))" using ij by (simp add: fun_upd_def)
  then show ?thesis using over_threads_upd [OF fin, of i 0] by simp
qed

lemma strand_invD:
  assumes "strand_inv s"
  shows "\<not> ss_failed s" and "finite {i. tokens s i \<noteq> 0}"
    and "over_threads (tokens s) + ss_executor s + ss_async s = of_bool (sd_pending (ss_strand s))"
    and "sd_functorQueue (ss_strand s) \<noteq> [] \<Longrightarrow> sd_pending (ss_strand s)"
    and "local_ok (ss_self s) (ss_local s i) (ss_pc s i)" and "order_inv s"
  using assms by (auto simp: strand_inv_def)

text \<open>The token is in one place.\<close>

lemma token_unique:
  assumes inv: "strand_inv s" and i: "tokens s i \<noteq> 0"
  shows "tokens s i = 1" and "sd_pending (ss_strand s)" and "ss_executor s = 0" and "ss_async s = 0"
    and "j \<noteq> i \<Longrightarrow> tokens s j = 0"
proof -
  have "tokens s i \<le> over_threads (tokens s)" by (rule over_threads_ge [OF strand_invD(2) [OF inv]])
  then show "tokens s i = 1" "sd_pending (ss_strand s)" "ss_executor s = 0" "ss_async s = 0"
    using i strand_invD(3) [OF inv] by (auto simp: of_bool_def split: if_splits)
  show "tokens s j = 0" if "j \<noteq> i"
    using over_threads_two [OF strand_invD(2) [OF inv] that] i strand_invD(3) [OF inv] by (auto simp: of_bool_def split: if_splits)
qed

lemma others_outside:
  assumes "strand_inv s" and "tokens s i \<noteq> 0" and "j \<noteq> i"
  shows "ss_pc s j = Outside" and "\<not> ss_activating s j"
  using token_unique(5) [OF assms] by (simp_all add: tokens_zero)

lemma order_invD:
  assumes "order_inv s" and "\<And>j. j \<noteq> i \<Longrightarrow> ss_pc s j = Outside"
  shows "order_ok s (ss_pc s i)"
  using assms unfolding order_inv_def by (cases "ss_pc s i = Outside") metis+

lemma order_invI:
  assumes "order_ok s (ss_pc s i)" and "\<And>j. j \<noteq> i \<Longrightarrow> ss_pc s j = Outside"
  shows "order_inv s"
  using assms unfolding order_inv_def by metis

lemma order_inv_mono:
  assumes "order_inv s" and "\<And>pc. order_ok s pc \<Longrightarrow> order_ok t pc" and "ss_pc t = ss_pc s"
  shows "order_inv t"
  using assms unfolding order_inv_def by metis

text \<open>A step of a thread that leaves the others alone keeps the invariant if it keeps the number of tokens.\<close>

lemma strand_invI:
  assumes inv: "strand_inv s"
    and failed: "\<not> ss_failed t"
    and self: "ss_self t = ss_self s"
    and others: "\<And>j. j \<noteq> i \<Longrightarrow> ss_pc t j = ss_pc s j \<and> ss_activating t j = ss_activating s j \<and> ss_local t j = ss_local s j"
    and count: "tokens t i + ss_executor t + ss_async t + of_bool (sd_pending (ss_strand s)) =
                tokens s i + ss_executor s + ss_async s + of_bool (sd_pending (ss_strand t))"
    and queue: "sd_functorQueue (ss_strand t) \<noteq> [] \<Longrightarrow> sd_pending (ss_strand t)"
    and loc: "local_ok (ss_self t) (ss_local t i) (ss_pc t i)"
    and order: "order_inv t"
  shows "strand_inv t"
proof -
  have "tokens t j = ((tokens s)(i := tokens t i)) j" for j using others [of j] by (cases "j = i") (simp_all add: tokens_def)
  then have eq: "tokens t = (tokens s)(i := tokens t i)" by (rule ext)
  have "finite {j. tokens t j \<noteq> 0}"
    by (rule finite_subset [of _ "insert i {j. tokens s j \<noteq> 0}"]) (subst eq, use strand_invD(2) [OF inv] in auto)
  moreover have "over_threads (tokens t) + tokens s i = over_threads (tokens s) + tokens t i"
    using over_threads_upd [OF strand_invD(2) [OF inv], of i "tokens t i"] eq by simp
  then have "over_threads (tokens t) + ss_executor t + ss_async t = of_bool (sd_pending (ss_strand t))"
    using count strand_invD(3) [OF inv] by linarith
  moreover have "local_ok (ss_self t) (ss_local t j) (ss_pc t j)" for j
    using others [of j] strand_invD(5) [OF inv, of j] loc self by (cases "j = i") auto
  ultimately show ?thesis using failed queue order unfolding strand_inv_def by blast
qed

lemma subseq_appendD: "subseq (xs @ ys) zs \<Longrightarrow> subseq xs zs"
  by (rule subseq_order.trans [of xs "xs @ ys"]) (simp_all add: prefix_imp_subseq)

lemma order_ok_submit:
  assumes "order_ok s pc"
  shows "subseq (ss_started s @ held pc @ sd_functorQueue (ss_strand s) @ fs) (ss_submitted s @ fs)"
  using assms subseq_append [of "ss_started s @ held pc @ sd_functorQueue (ss_strand s)" fs "ss_submitted s"]
  by (auto simp: order_ok_def)

lemma submit_order:
  assumes "order_ok s pc" and "sd_functorQueue (snd r) = sd_functorQueue (ss_strand s) @ fs"
  shows "order_ok (submit i fs r s) pc"
  using assms order_ok_submit [OF assms(1), of fs] unfolding order_ok_def submit_def by simp

lemma submit_inv:
  assumes inv: "strand_inv s" and free: "free_to_call i s"
    and r: "r = Strand_activate sd" "sd_functorQueue sd = sd_functorQueue (ss_strand s) @ fs" "sd_pending sd = sd_pending (ss_strand s)"
  shows "strand_inv (submit i fs r s)"
proof (rule strand_invI [OF inv, where i = i])
  show "order_inv (submit i fs r s)"
    by (rule order_inv_mono [OF strand_invD(6) [OF inv] submit_order]) (use r in \<open>auto simp: submit_def Strand_activate_def\<close>)
  show "local_ok (ss_self (submit i fs r s)) (ss_local (submit i fs r s) i) (ss_pc (submit i fs r s) i)"
    using strand_invD(5) [OF inv] by (simp add: submit_def)
qed (use strand_invD(1) [OF inv] free r in \<open>auto simp: submit_def Strand_activate_def tokens_def free_to_call_def\<close>)

lemma strand_call_inv: "strand_call s t \<Longrightarrow> strand_inv s \<Longrightarrow> strand_inv t"
proof (induction rule: strand_call.induct)
  case (call_execute i s f)
  then show ?case by (intro submit_inv [where sd = "ss_strand s\<lparr>sd_functorQueue := sd_functorQueue (ss_strand s) @ [f]\<rparr>"])
      (simp_all add: Strand_execute_def)
next
  case (call_moveAndExecute i s fs f)
  show ?case
    by (rule submit_inv [OF call_moveAndExecute(2,1), where sd = "ss_strand s\<lparr>sd_functorQueue := sd_functorQueue (ss_strand s) @
        fs @ (case f of Some g \<Rightarrow> [g] | None \<Rightarrow> [])\<rparr>"])
      (auto simp: Strand_moveAndExecute_def Let_def split: option.splits)
next
  case (call_clear i s)
  let ?t = "s\<lparr>ss_strand := Strand_clear (ss_strand s), ss_cleared := ss_cleared s @ sd_functorQueue (ss_strand s)\<rparr>"
  have "order_ok ?t pc" if "order_ok s pc" for pc
    using that subseq_appendD [of "ss_started s @ held pc" "sd_functorQueue (ss_strand s)"]
    by (auto simp: order_ok_def Strand_clear_def)
  then have "order_inv ?t" using order_inv_mono [OF strand_invD(6) [OF call_clear(2)], of ?t] by simp
  then show ?case
    by (rule strand_invI [OF call_clear(2), where i = i, rotated -1])
      (use strand_invD(1,5) [OF call_clear(2)] in \<open>auto simp: Strand_clear_def tokens_def\<close>)
next
  case (call_drain i s)
  then have "sd_functorQueue (ss_strand s) = []" using strand_invD(4) by blast
  then have "enter_round i Draining (drain_take (ss_strand s)) s = s"
    using call_drain(2,3) by (simp add: drain_take_def enter_round_def fun_upd_idem)
  then show ?case using call_drain by simp
next
  case (other_strand s i x)
  let ?t = "s\<lparr>ss_local := (ss_local s)(i := x)\<rparr>"
  have "order_inv ?t" by (rule order_inv_mono [OF strand_invD(6) [OF other_strand(3)]]) (auto simp: order_ok_def)
  then show ?case
    by (rule strand_invI [OF other_strand(3), where i = i, rotated -1])
      (use strand_invD(1,4) [OF other_strand(3)] other_strand in \<open>auto simp: tokens_def\<close>)
qed

text \<open>The thread in \<open>invoke\<close> is alone there, so that the order is that of its own functions.\<close>

lemma order_looping: "order_ok s (Looping mode) \<longleftrightarrow> order_ok s Outside"
  by (simp add: order_ok_def)

lemma begin_inv:
  assumes inv: "strand_inv s" and i: "free_to_call i s" "ss_pc s i = Outside"
    and t: "t = s\<lparr>ss_executor := e, ss_async := a, ss_pc := (ss_pc s)(i := Looping Invoking)\<rparr>"
    and count: "Suc (e + a) = ss_executor s + ss_async s"
  shows "strand_inv t"
proof -
  have "over_threads (tokens s) = 0" using strand_invD(3) [OF inv] count by (auto simp: of_bool_def split: if_splits)
  then have out: "ss_pc s j = Outside" for j
    using over_threads_ge [OF strand_invD(2) [OF inv], of j] by (simp add: tokens_zero)
  then have "order_ok s Outside" using strand_invD(6) [OF inv] by (simp add: order_inv_def)
  then have "order_inv t" using out by (intro order_invI [where i = i]) (auto simp: t order_ok_def)
  then show ?thesis
    by (rule strand_invI [OF inv, where i = i, rotated -1])
      (use strand_invD(1,4) [OF inv] strand_invD(5) [OF inv, of i] i count in \<open>auto simp: t tokens_def free_to_call_def\<close>)
qed

lemma invoke_inv:
  assumes inv: "strand_inv s" and i: "ss_pc s i = Looping Invoking"
  shows "strand_inv (enter_round i Invoking (invoke_take (ss_strand s)) s)" (is "strand_inv ?t")
proof -
  have tok: "tokens s i \<noteq> 0" using i by (simp add: tokens_zero)
  note pend = token_unique(2) [OF inv tok] and out = others_outside [OF inv tok]
  have act: "\<not> ss_activating s i" using token_unique(1) [OF inv tok] i by (simp add: tokens_def)
  have "order_ok s Outside" using order_invD [OF strand_invD(6) [OF inv] out(1), of i] i by (simp add: order_looping)
  then have "order_inv ?t" using pend out(1)
    by (intro order_invI [where i = i])
      (cases "sd_functorQueue (ss_strand s)"; auto simp: enter_round_def invoke_take_def order_ok_def)+
  then show ?thesis
    by (rule strand_invI [OF inv, where i = i, rotated -1])
      (use strand_invD(1) [OF inv] strand_invD(5) [OF inv, of i] i pend act in
        \<open>cases "sd_functorQueue (ss_strand s)"; auto simp: enter_round_def invoke_take_def tokens_def\<close>)+
qed

lemma return_inv:
  assumes inv: "strand_inv s" and i: "ss_pc s i = Calling mode previous f fs"
  shows "strand_inv (next_call i mode previous f fs s)" (is "strand_inv ?t")
proof -
  have tok: "tokens s i \<noteq> 0" using i by (simp add: tokens_zero)
  note out = others_outside [OF inv tok]
  have "order_ok s (Calling mode previous f fs)" using order_invD [OF strand_invD(6) [OF inv] out(1), of i] i by simp
  then have "order_inv ?t" using out(1)
    by (intro order_invI [where i = i]) (cases fs; auto simp: next_call_def order_ok_def)+
  then show ?thesis
    by (rule strand_invI [OF inv, where i = i, rotated -1])
      (use strand_invD(1,4) [OF inv] strand_invD(5) [OF inv, of i] i in \<open>cases fs; auto simp: next_call_def tokens_def Let_def\<close>)+
qed

lemma activate_inv:
  assumes inv: "strand_inv s" and i: "ss_activating s i"
  shows "strand_inv (activate i executorRef s)"
proof -
  have "order_inv (activate i executorRef s)"
    by (rule order_inv_mono [OF strand_invD(6) [OF inv]]) (auto simp: activate_def Let_def order_ok_def)
  then show ?thesis
    by (rule strand_invI [OF inv, where i = i, rotated -1])
      (use strand_invD(1,4) [OF inv] strand_invD(5) [OF inv, of i] i in \<open>auto simp: activate_def Let_def tokens_def split: if_splits\<close>)
qed

lemma strand_work_inv: "strand_work s t \<Longrightarrow> strand_inv s \<Longrightarrow> strand_inv t"
proof (induction rule: strand_work.induct)
  case (work_executor i s n)
  show ?case by (rule begin_inv [OF work_executor(4,1,2), where e = n and a = "ss_async s"]) (use work_executor(3) in simp_all)
next
  case (work_async i s n)
  show ?case by (rule begin_inv [OF work_async(4,1,2), where e = "ss_executor s" and a = n]) (use work_async(3) in simp_all)
next
  case (work_drain s i)
  then show ?case using strand_invD(5) [of s i] by simp
qed (simp_all add: activate_inv invoke_inv return_inv)

lemma strand_reachable_inv: "strand_reachable s \<Longrightarrow> strand_inv s"
proof (induction rule: strand_reachable.induct)
  case (start active self)
  have "tokens (strand_system_init self active) = (\<lambda>_. 0)" by (rule ext) (simp add: tokens_def strand_system_init_def)
  then show ?case using start
    by (simp add: strand_inv_def) (simp add: strand_system_init_def Strand_init_def order_inv_def order_ok_def)
qed (blast intro: strand_call_inv strand_work_inv)+

subsection \<open>What a strand promises\<close>

text \<open>A strand with one function queued and handed to the executor, and the same strand when thread 1 is in the function.\<close>

definition strand_sample :: strand_system where
  "strand_sample =
     activate 0 True (submit 0 [7] (Strand_execute 7 Strand_init) (strand_system_init 1 (\<lambda>_. None)))"

definition strand_sample_running :: strand_system where
  "strand_sample_running =
     (let s = strand_sample\<lparr>ss_executor := 0, ss_pc := (ss_pc strand_sample)(1 := Looping Invoking)\<rparr>
      in enter_round 1 Invoking (invoke_take (ss_strand s)) s)"

lemmas sample_defs = strand_sample_def strand_sample_running_def strand_system_init_def submit_def activate_def Strand_execute_def
  Strand_activate_def Strand_init_def enter_round_def invoke_take_def Let_def

lemma sample_reachable: "strand_reachable strand_sample"
proof -
  have "strand_reachable (strand_system_init 1 (\<lambda>_. None))" by (rule strand_reachable.start) simp
  from strand_reachable.call [OF this strand_call.call_execute [of 0 _ 7]]
  have "strand_reachable (submit 0 [7] (Strand_execute 7 Strand_init) (strand_system_init 1 (\<lambda>_. None)))"
    by (simp add: free_to_call_def strand_system_init_def)
  from strand_reachable.work [OF this strand_work.work_activate [of _ 0 True]] show ?thesis
    unfolding strand_sample_def by (simp add: submit_def Strand_execute_def Strand_activate_def Strand_init_def)
qed

lemma sample_begins:
  "strand_work strand_sample (strand_sample\<lparr>ss_executor := 0, ss_pc := (ss_pc strand_sample)(1 := Looping Invoking)\<rparr>)"
  by (rule strand_work.work_executor) (simp_all add: free_to_call_def sample_defs)

lemma sample_runs:
  "strand_work (strand_sample\<lparr>ss_executor := 0, ss_pc := (ss_pc strand_sample)(1 := Looping Invoking)\<rparr>) strand_sample_running"
  unfolding strand_sample_running_def Let_def by (rule strand_work.work_invoke) simp

lemma sample_running_reachable: "strand_reachable strand_sample_running"
  using strand_reachable.work [OF strand_reachable.work [OF sample_reachable sample_begins] sample_runs] .

text \<open>
  Claim C14. However threads submit, clear and execute, no assertion of the strand fails, at most one thread is in a function of
  the strand at any time, and \<open>isRunningInCurrentThread\<close> is true exactly in that thread.
\<close>

theorem strand_exclusive:
  assumes "strand_reachable s"
  shows "\<not> ss_failed s \<and> (isRunningInCurrentThread s i \<longleftrightarrow> current (ss_pc s i) \<noteq> []) \<and>
    (isRunningInCurrentThread s i \<longrightarrow> isRunningInCurrentThread s j \<longrightarrow> i = j)"
proof -
  have inv: "strand_inv s" by (rule strand_reachable_inv [OF assms])
  have run: "isRunningInCurrentThread s k \<longleftrightarrow> current (ss_pc s k) \<noteq> []" for k
    using strand_invD(5) [OF inv, of k] by (cases "ss_pc s k") (auto simp: isRunningInCurrentThread_def)
  have "i = j" if "current (ss_pc s i) \<noteq> []" "current (ss_pc s j) \<noteq> []"
  proof (rule ccontr)
    assume "i \<noteq> j"
    moreover have "tokens s i \<noteq> 0" using that(1) by (auto simp: tokens_zero)
    ultimately show False using others_outside(1) [OF inv] that(2) by fastforce
  qed
  then show ?thesis using run strand_invD(1) [OF inv] by blast
qed

theorem strand_exclusive_witness:
  "isRunningInCurrentThread strand_sample_running 1 \<and> \<not> isRunningInCurrentThread strand_sample_running 0"
proof -
  have "isRunningInCurrentThread strand_sample_running 1"
    by (simp add: isRunningInCurrentThread_def sample_defs)
  then show ?thesis using strand_exclusive [OF sample_running_reachable, of 1 0] by auto
qed

lemma subseq_same_mset: "subseq xs ys \<Longrightarrow> mset ys = mset xs \<Longrightarrow> xs = ys"
  using subseq_same_length [of xs ys] mset_eq_length by metis

text \<open>
  Claim C15. Functions begin in the order in which they were submitted: those begun, those taken by the thread
  in \<open>invoke\<close> and those queued are, in this order, submitted functions; every function submitted is exactly one of
  begun, taken, queued or cleared, so that without \<open>clear\<close> they are all of them; and a function begins only
  when all functions begun before have returned.
\<close>

theorem strand_in_order:
  assumes "strand_reachable s"
  shows "\<exists>taken last. subseq (ss_started s @ taken @ sd_functorQueue (ss_strand s)) (ss_submitted s) \<and>
    mset (ss_submitted s) = mset (ss_started s @ taken @ sd_functorQueue (ss_strand s)) + mset (ss_cleared s) \<and>
    (ss_cleared s = [] \<longrightarrow> ss_submitted s = ss_started s @ taken @ sd_functorQueue (ss_strand s)) \<and>
    ss_started s = ss_finished s @ last \<and> length last \<le> 1"
proof -
  have "order_inv s" by (rule strand_invD(6) [OF strand_reachable_inv [OF assms]])
  then obtain pc where pc: "order_ok s pc" unfolding order_inv_def by blast
  moreover have "length (current pc) \<le> 1" by (cases pc) simp_all
  moreover have "ss_submitted s = ss_started s @ held pc @ sd_functorQueue (ss_strand s)" if "ss_cleared s = []"
    using pc subseq_same_mset that unfolding order_ok_def by fastforce
  ultimately show ?thesis unfolding order_ok_def by blast
qed

theorem strand_in_order_witness:
  "\<exists>taken last. ss_submitted strand_sample_running = [7] @ taken \<and> [7] = ss_finished strand_sample_running @ last"
  using strand_in_order [OF sample_running_reachable] by (simp add: sample_defs)

fun work_weight :: "strand_pc \<Rightarrow> nat" where
  "work_weight Outside = 0"
| "work_weight (Looping mode) = 1"
| "work_weight (Calling mode previous f fs) = length fs + 2"

definition thread_work :: "strand_system \<Rightarrow> nat \<Rightarrow> nat" where
  "thread_work s i = 3 * of_bool (ss_activating s i) + work_weight (ss_pc s i)"

text \<open>A bound on the steps left: each function costs a return and at most one more round.\<close>

definition work_left :: "strand_system \<Rightarrow> nat" where
  "work_left s = 2 * length (sd_functorQueue (ss_strand s)) + 2 * (ss_executor s + ss_async s) + over_threads (thread_work s)"

lemma thread_work_zero: "thread_work s i = 0 \<longleftrightarrow> tokens s i = 0"
  by (cases "ss_pc s i") (auto simp: thread_work_def tokens_def)

lemma work_left_decreases:
  assumes inv: "strand_inv s"
    and others: "\<And>j. j \<noteq> i \<Longrightarrow> ss_pc t j = ss_pc s j \<and> ss_activating t j = ss_activating s j"
    and less: "2 * length (sd_functorQueue (ss_strand t)) + 2 * (ss_executor t + ss_async t) + thread_work t i <
      2 * length (sd_functorQueue (ss_strand s)) + 2 * (ss_executor s + ss_async s) + thread_work s i"
  shows "work_left t < work_left s"
proof -
  have "thread_work t j = ((thread_work s)(i := thread_work t i)) j" for j
    using others [of j] by (cases "j = i") (simp_all add: thread_work_def)
  then have "thread_work t = (thread_work s)(i := thread_work t i)" by (rule ext)
  moreover have "finite {j. thread_work s j \<noteq> 0}" using strand_invD(2) [OF inv] by (simp add: thread_work_zero)
  ultimately have "over_threads (thread_work t) + thread_work s i = over_threads (thread_work s) + thread_work t i"
    using over_threads_upd by metis
  then show ?thesis using less by (simp add: work_left_def)
qed

lemma strand_work_decreases: "strand_work s t \<Longrightarrow> strand_inv s \<Longrightarrow> work_left t < work_left s"
proof (induction rule: strand_work.induct)
  case (work_activate s i executorRef)
  then show ?case
    by (intro work_left_decreases [where i = i]) (auto simp: activate_def Let_def thread_work_def split: if_splits)
next
  case (work_executor i s n)
  then show ?case by (intro work_left_decreases [where i = i]) (auto simp: thread_work_def)
next
  case (work_async i s n)
  then show ?case by (intro work_left_decreases [where i = i]) (auto simp: thread_work_def)
next
  case (work_invoke s i)
  then have "tokens s i \<noteq> 0" by (simp add: tokens_zero)
  then have "sd_pending (ss_strand s)" by (rule token_unique(2) [OF work_invoke(2)])
  then show ?case using work_invoke
    by (intro work_left_decreases [where i = i])
      (cases "sd_functorQueue (ss_strand s)"; auto simp: enter_round_def invoke_take_def thread_work_def)+
next
  case (work_drain s i)
  then show ?case using strand_invD(5) [of s i] by simp
next
  case (work_return s i mode previous f fs)
  then show ?case
    by (intro work_left_decreases [where i = i]) (cases fs; auto simp: next_call_def Let_def thread_work_def)+
qed

lemma idle_thread:
  assumes "strand_inv s"
  obtains i where "free_to_call i s" "ss_pc s i = Outside"
proof -
  obtain i where "tokens s i = 0" using strand_invD(2) [OF assms] ex_new_if_finite [OF infinite_UNIV_nat] by fastforce
  then show thesis using that [of i] by (simp add: tokens_zero free_to_call_def)
qed

text \<open>While the strand is pending there is something for it to do.\<close>

lemma pending_works:
  assumes inv: "strand_inv s" and pend: "sd_pending (ss_strand s)"
  shows "\<exists>t. strand_work s t"
proof (cases "ss_executor s + ss_async s = 0")
  case True
  then have "over_threads (tokens s) \<noteq> 0" using strand_invD(3) [OF inv] pend by simp
  then have "tokens s \<noteq> (\<lambda>_. 0)" using over_threads_zero by metis
  then obtain i where i: "tokens s i \<noteq> 0" by blast
  have "local_ok (ss_self s) (ss_local s i) (ss_pc s i)" by (rule strand_invD(5) [OF inv])
  then show ?thesis using i token_unique(1) [OF inv i] strand_work.intros(1,4,6)
    by (cases "ss_pc s i"; cases "ss_activating s i") (auto simp: tokens_def, blast+)
next
  case False
  obtain i where "free_to_call i s" "ss_pc s i = Outside" by (rule idle_thread [OF inv])
  then show ?thesis using False strand_work.intros(2,3) [of i s] by (cases "ss_executor s"; cases "ss_async s") auto
qed

lemma work_runs: "strand_inv s \<Longrightarrow> (strand_work ^^ n) s t \<Longrightarrow> strand_inv t \<and> n + work_left t \<le> work_left s"
proof (induction n arbitrary: t)
  case (Suc n)
  then obtain u where u: "(strand_work ^^ n) s u" "strand_work u t" by auto
  then show ?case using Suc.IH [OF Suc.prems(1) u(1)] strand_work_inv [OF u(2)] strand_work_decreases [OF u(2)] by fastforce
qed simp

text \<open>
  Claim C23. Once functions are no longer submitted a strand comes to rest: every run of its own steps, in which functions
  return and threads begin what is handed to the executor, has at most the number of steps given, and at its end every function that
  was submitted and not cleared has returned, and the strand is not pending.
\<close>

theorem strand_drains:
  assumes reached: "strand_reachable s" and run: "(strand_work ^^ n) s t"
  shows "n \<le> work_left s \<and>
    ((\<exists>u. strand_work t u) \<or>
     (mset (ss_submitted t) = mset (ss_finished t) + mset (ss_cleared t) \<and> ss_started t = ss_finished t \<and>
      sd_functorQueue (ss_strand t) = [] \<and> \<not> sd_pending (ss_strand t)))"
proof -
  have inv: "strand_inv t" "n \<le> work_left s" using work_runs [OF strand_reachable_inv [OF reached] run] by simp_all
  have "order_ok t Outside \<and> sd_functorQueue (ss_strand t) = []" if "\<not> sd_pending (ss_strand t)"
  proof -
    have "ss_pc t i = Outside" for i using token_unique(2) [OF inv(1)] that tokens_zero by blast
    then show ?thesis using strand_invD(4,6) [OF inv(1)] that by (auto simp: order_inv_def)
  qed
  then show ?thesis using inv(2) pending_works [OF inv(1)] by (cases "sd_pending (ss_strand t)") (simp_all add: order_ok_def)
qed

theorem strand_drains_witness: "strand_reachable strand_sample \<and> (strand_work ^^ 2) strand_sample strand_sample_running \<and> 2 \<le> work_left strand_sample"
proof -
  have "(strand_work ^^ 2) strand_sample strand_sample_running"
    using sample_begins sample_runs by (auto simp: numeral_2_eq_2)
  then show ?thesis using strand_drains [OF sample_reachable] sample_reachable by blast
qed

text \<open>
  Claim C40. \<open>drain\<close>, which is to execute all pending operations on the calling thread, never executes one: a queue that is
  not empty is that of a pending strand, for which its assertion fails, even if no thread is processing the queue, and
  otherwise it finds the queue empty.
\<close>

theorem strand_drain_never_executes:
  assumes "strand_reachable s"
  shows "(sd_functorQueue (ss_strand s) \<noteq> [] \<longrightarrow> drain_take (ss_strand s) = None) \<and>
    (drain_take (ss_strand s) = None \<or> drain_take (ss_strand s) = Some ([], ss_strand s))"
  using strand_invD(4) [OF strand_reachable_inv [OF assms]] by (auto simp: drain_take_def)

theorem strand_drain_never_executes_witness:
  "(\<forall>i. ss_pc strand_sample i = Outside) \<and> drain_take (ss_strand strand_sample) = None"
proof -
  have "sd_functorQueue (ss_strand strand_sample) \<noteq> []" "\<forall>i. ss_pc strand_sample i = Outside" by (simp_all add: sample_defs)
  then show ?thesis using strand_drain_never_executes [OF sample_reachable] by blast
qed

end
