(* ===== verification/Interest.thy ===== *)
theory Interest
  imports Ntf_Prelude
begin

unbundle bit_operations_syntax

section \<open>The interest in the events of a socket\<close>

text \<open>
  This theory models \<open>ntcs::Interest\<close> (\<open>ntcs_interest.h\<close>): the events that a reactor is to report for a socket, and how,
  as flags of a 32-bit integer. The specification is a record of truth values, which the operations on the flags
  implement.
\<close>

datatype ReactorEventTrigger = e_LEVEL | e_EDGE

type_synonym Interest = u32

definition k_READABLE :: u32 where "k_READABLE = 1"

definition k_WRITABLE :: u32 where "k_WRITABLE = 2"

definition k_ERROR :: u32 where "k_ERROR = 4"

definition k_EDGE :: u32 where "k_EDGE = 8"

definition k_ONE_SHOT :: u32 where "k_ONE_SHOT = 16"

definition k_NOTIFICATION :: u32 where "k_NOTIFICATION = 32"

definition Interest_init :: Interest where
  "Interest_init = k_ERROR OR k_NOTIFICATION"

definition Interest_create :: "ReactorEventTrigger \<Rightarrow> bool \<Rightarrow> Interest" where
  "Interest_create trigger oneShot =
     (let v0 = k_ERROR OR k_NOTIFICATION;
          v1 = (if trigger = e_EDGE then v0 OR k_EDGE else v0)
      in if oneShot then v1 OR k_ONE_SHOT else v1)"

definition Interest_setTrigger :: "ReactorEventTrigger \<Rightarrow> Interest \<Rightarrow> Interest" where
  "Interest_setTrigger x v = (if x = e_EDGE then v OR k_EDGE else v AND NOT k_EDGE)"

definition Interest_setOneShot :: "bool \<Rightarrow> Interest \<Rightarrow> Interest" where
  "Interest_setOneShot x v = (if x then v OR k_ONE_SHOT else v AND NOT k_ONE_SHOT)"

definition Interest_showReadable :: "Interest \<Rightarrow> Interest" where
  "Interest_showReadable v = v OR k_READABLE"

definition Interest_hideReadable :: "Interest \<Rightarrow> Interest" where
  "Interest_hideReadable v = v AND NOT k_READABLE"

definition Interest_showWritable :: "Interest \<Rightarrow> Interest" where
  "Interest_showWritable v = v OR k_WRITABLE"

definition Interest_hideWritable :: "Interest \<Rightarrow> Interest" where
  "Interest_hideWritable v = v AND NOT k_WRITABLE"

definition Interest_showError :: "Interest \<Rightarrow> Interest" where
  "Interest_showError v = v OR k_ERROR"

definition Interest_hideError :: "Interest \<Rightarrow> Interest" where
  "Interest_hideError v = v AND NOT k_ERROR"

definition Interest_showNotifications :: "Interest \<Rightarrow> Interest" where
  "Interest_showNotifications v = v OR k_NOTIFICATION"

definition Interest_hideNotifications :: "Interest \<Rightarrow> Interest" where
  "Interest_hideNotifications v = v AND NOT k_NOTIFICATION"

definition Interest_reset :: "Interest \<Rightarrow> Interest" where
  "Interest_reset v = k_ERROR"

definition Interest_wantReadable :: "Interest \<Rightarrow> bool" where
  "Interest_wantReadable v \<longleftrightarrow> v AND k_READABLE \<noteq> 0"

definition Interest_wantWritable :: "Interest \<Rightarrow> bool" where
  "Interest_wantWritable v \<longleftrightarrow> v AND k_WRITABLE \<noteq> 0"

definition Interest_wantReadableOrWritable :: "Interest \<Rightarrow> bool" where
  "Interest_wantReadableOrWritable v \<longleftrightarrow> v AND (k_READABLE OR k_WRITABLE) \<noteq> 0"

definition Interest_wantError :: "Interest \<Rightarrow> bool" where
  "Interest_wantError v \<longleftrightarrow> v AND k_ERROR \<noteq> 0"

definition Interest_wantNotifications :: "Interest \<Rightarrow> bool" where
  "Interest_wantNotifications v \<longleftrightarrow> v AND k_NOTIFICATION \<noteq> 0"

definition Interest_trigger :: "Interest \<Rightarrow> ReactorEventTrigger" where
  "Interest_trigger v = (if v AND k_EDGE \<noteq> 0 then e_EDGE else e_LEVEL)"

definition Interest_oneShot :: "Interest \<Rightarrow> bool" where
  "Interest_oneShot v \<longleftrightarrow> v AND k_ONE_SHOT \<noteq> 0"

subsection \<open>Flags as bits\<close>

lemmas flag_defs = k_READABLE_def k_WRITABLE_def k_ERROR_def k_EDGE_def k_ONE_SHOT_def k_NOTIFICATION_def

lemma word_flag: "(v :: u32) AND push_bit n 1 \<noteq> 0 \<longleftrightarrow> n < 32 \<and> bit v n"
proof
  assume "v AND push_bit n 1 \<noteq> 0"
  then obtain m where "bit (v AND push_bit n 1) m" by (metis bit_eqI bit_0_eq bot_apply bot_bool_def)
  then show "n < 32 \<and> bit v n" by (auto simp: bit_simps)
next
  assume "n < 32 \<and> bit v n"
  then have "bit (v AND push_bit n 1) n" by (simp add: bit_simps)
  then show "v AND push_bit n 1 \<noteq> 0" by auto
qed

lemma interest_flag_bits:
  "k_READABLE = push_bit 0 1" "k_WRITABLE = push_bit 1 1" "k_ERROR = push_bit 2 1"
  "k_EDGE = push_bit 3 1" "k_ONE_SHOT = push_bit 4 1" "k_NOTIFICATION = push_bit 5 1"
  by (simp_all add: flag_defs push_bit_eq_mult)

lemma want_bits:
  "Interest_wantReadable v \<longleftrightarrow> bit v 0" "Interest_wantWritable v \<longleftrightarrow> bit v 1" "Interest_wantError v \<longleftrightarrow> bit v 2"
  "Interest_trigger v = e_EDGE \<longleftrightarrow> bit v 3" "Interest_oneShot v \<longleftrightarrow> bit v 4" "Interest_wantNotifications v \<longleftrightarrow> bit v 5"
  using word_flag [of v 0] word_flag [of v 1] word_flag [of v 2] word_flag [of v 3] word_flag [of v 4] word_flag [of v 5]
  by (simp_all add: Interest_wantReadable_def Interest_wantWritable_def Interest_wantError_def Interest_trigger_def
      Interest_oneShot_def Interest_wantNotifications_def interest_flag_bits)

lemma want_either: "Interest_wantReadableOrWritable v \<longleftrightarrow> Interest_wantReadable v \<or> Interest_wantWritable v"
proof -
  have "v AND (k_READABLE OR k_WRITABLE) = (v AND k_READABLE) OR (v AND k_WRITABLE)"
    by (rule bit_eqI) (auto simp: bit_simps)
  then show ?thesis
    by (simp add: Interest_wantReadableOrWritable_def Interest_wantReadable_def Interest_wantWritable_def or_eq_0_iff)
qed

lemma bit_flag: "bit (push_bit n (1 :: u32)) m \<longleftrightarrow> m = n \<and> n < 32"
  by (auto simp: bit_simps)

subsection \<open>The specification\<close>

record interest_view =
  iv_readable :: bool
  iv_writable :: bool
  iv_error :: bool
  iv_trigger :: ReactorEventTrigger
  iv_oneShot :: bool
  iv_notifications :: bool

definition view :: "Interest \<Rightarrow> interest_view" where
  "view v =
     \<lparr>iv_readable = Interest_wantReadable v, iv_writable = Interest_wantWritable v, iv_error = Interest_wantError v,
      iv_trigger = Interest_trigger v, iv_oneShot = Interest_oneShot v, iv_notifications = Interest_wantNotifications v\<rparr>"

datatype interest_op =
  I_setTrigger ReactorEventTrigger | I_setOneShot bool
| I_showReadable | I_hideReadable | I_showWritable | I_hideWritable
| I_showError | I_hideError | I_showNotifications | I_hideNotifications | I_reset

fun interest_step :: "interest_op \<Rightarrow> Interest \<Rightarrow> Interest" where
  "interest_step (I_setTrigger x) = Interest_setTrigger x"
| "interest_step (I_setOneShot x) = Interest_setOneShot x"
| "interest_step I_showReadable = Interest_showReadable"
| "interest_step I_hideReadable = Interest_hideReadable"
| "interest_step I_showWritable = Interest_showWritable"
| "interest_step I_hideWritable = Interest_hideWritable"
| "interest_step I_showError = Interest_showError"
| "interest_step I_hideError = Interest_hideError"
| "interest_step I_showNotifications = Interest_showNotifications"
| "interest_step I_hideNotifications = Interest_hideNotifications"
| "interest_step I_reset = Interest_reset"

fun view_step :: "interest_op \<Rightarrow> interest_view \<Rightarrow> interest_view" where
  "view_step (I_setTrigger x) w = w\<lparr>iv_trigger := x\<rparr>"
| "view_step (I_setOneShot x) w = w\<lparr>iv_oneShot := x\<rparr>"
| "view_step I_showReadable w = w\<lparr>iv_readable := True\<rparr>"
| "view_step I_hideReadable w = w\<lparr>iv_readable := False\<rparr>"
| "view_step I_showWritable w = w\<lparr>iv_writable := True\<rparr>"
| "view_step I_hideWritable w = w\<lparr>iv_writable := False\<rparr>"
| "view_step I_showError w = w\<lparr>iv_error := True\<rparr>"
| "view_step I_hideError w = w\<lparr>iv_error := False\<rparr>"
| "view_step I_showNotifications w = w\<lparr>iv_notifications := True\<rparr>"
| "view_step I_hideNotifications w = w\<lparr>iv_notifications := False\<rparr>"
| "view_step I_reset w = \<lparr>iv_readable = False, iv_writable = False, iv_error = True, iv_trigger = e_LEVEL,
     iv_oneShot = False, iv_notifications = False\<rparr>"

lemma trigger_bit: "Interest_trigger v = (if bit v 3 then e_EDGE else e_LEVEL)"
  using want_bits(4) [of v] by (cases "Interest_trigger v") auto

lemmas interest_defs = Interest_setTrigger_def Interest_setOneShot_def Interest_showReadable_def Interest_hideReadable_def
  Interest_showWritable_def Interest_hideWritable_def Interest_showError_def Interest_hideError_def
  Interest_showNotifications_def Interest_hideNotifications_def Interest_reset_def Interest_init_def Interest_create_def

lemma view_bits:
  "view v = \<lparr>iv_readable = bit v 0, iv_writable = bit v 1, iv_error = bit v 2, iv_trigger = (if bit v 3 then e_EDGE else e_LEVEL),
     iv_oneShot = bit v 4, iv_notifications = bit v 5\<rparr>"
  by (simp add: view_def want_bits trigger_bit)

lemma not_edge: "x \<noteq> e_EDGE \<longleftrightarrow> x = e_LEVEL"
  by (cases x) simp_all

lemma interest_step_view: "view (interest_step x v) = view_step x (view v)"
  by (cases x) (auto simp: view_bits interest_defs interest_flag_bits bit_or_iff bit_and_iff bit_not_iff bit_flag not_edge)

lemma Interest_create_view:
  "view (Interest_create trigger oneShot) =
     \<lparr>iv_readable = False, iv_writable = False, iv_error = True, iv_trigger = trigger, iv_oneShot = oneShot, iv_notifications = True\<rparr>"
  by (cases trigger) (auto simp: view_bits interest_defs interest_flag_bits bit_or_iff bit_flag Let_def)

lemma interest_view [simp]:
  "Interest_wantReadable v = iv_readable (view v)" "Interest_wantWritable v = iv_writable (view v)"
  "Interest_wantError v = iv_error (view v)" "Interest_wantNotifications v = iv_notifications (view v)"
  "Interest_trigger v = iv_trigger (view v)" "Interest_oneShot v = iv_oneShot (view v)"
  by (simp_all add: view_def)

lemmas interest_steps [simp] =
  interest_step_view [of "I_setTrigger x" for x, simplified] interest_step_view [of "I_setOneShot x" for x, simplified]
  interest_step_view [of I_showReadable, simplified] interest_step_view [of I_hideReadable, simplified]
  interest_step_view [of I_showWritable, simplified] interest_step_view [of I_hideWritable, simplified]
  interest_step_view [of I_showError, simplified] interest_step_view [of I_hideError, simplified]
  interest_step_view [of I_showNotifications, simplified] interest_step_view [of I_hideNotifications, simplified]

text \<open>
  The flags of an interest are independent: after any sequence of operations on a new interest, every query
  answers what a record of truth values, updated by the same operations, holds.
\<close>

theorem interest_refines:
  "view (fold interest_step ops (Interest_create trigger oneShot)) =
     fold view_step ops \<lparr>iv_readable = False, iv_writable = False, iv_error = True, iv_trigger = trigger,
       iv_oneShot = oneShot, iv_notifications = True\<rparr>"
proof -
  have "view (fold interest_step ops v) = fold view_step ops (view v)" for v
    by (induction ops arbitrary: v) (simp_all add: interest_step_view)
  then show ?thesis by (simp add: Interest_create_view)
qed

end
