(* ===== verification/Registry.thy ===== *)
theory Registry
  imports Interest
begin

section \<open>The registry of sockets in a reactor\<close>

text \<open>
  This theory models \<open>ntcs::RegistryEntry\<close> and \<open>ntcs::RegistryEntryCatalog\<close> (\<open>ntcs_registry.h\<close>, \<open>ntcs_registry.cpp\<close>): what a
  reactor knows about the sockets attached to it, and its table of them by their handles. An entry is shared by the
  threads that work on it, so the catalog is a vector of references to entries, with the entries in
  a store. An operation on an entry is one section under its lock; what it announces to the socket or to a callback is
  a value of the result.
\<close>

type_synonym socket_ref = nat
type_synonym strand_ref = nat
type_synonym entry_ref = nat

datatype ReactorEventType = e_EVENT_NONE | e_EVENT_READABLE | e_EVENT_WRITABLE | e_EVENT_ERROR

record ReactorEvent =
  ev_handle :: handle
  ev_type :: ReactorEventType
  ev_error :: ntsa_error

record ReactorEventOptions =
  eo_trigger :: "ReactorEventTrigger option"
  eo_oneShot :: "bool option"

record RegistryEntry =
  re_handle :: handle
  re_interest :: Interest
  re_reactorSocket :: "socket_ref option"
  re_strand :: "strand_ref option"
  re_readableCallback :: "callback_ref option"
  re_writableCallback :: "callback_ref option"
  re_errorCallback :: "callback_ref option"
  re_notificationCallback :: "callback_ref option"
  re_active :: bool
  re_processCounter :: u32
  re_detachRequired :: bool
  re_detachCallback :: "callback_ref option"

definition invalid_handle :: handle where
  "invalid_handle = - 1"

definition RegistryEntry_socket :: "socket_ref \<Rightarrow> handle \<Rightarrow> strand_ref option \<Rightarrow> ReactorEventTrigger \<Rightarrow> bool \<Rightarrow> RegistryEntry" where
  "RegistryEntry_socket socket h strand trigger oneShot =
     \<lparr>re_handle = h, re_interest = Interest_create trigger oneShot, re_reactorSocket = Some socket, re_strand = strand,
      re_readableCallback = None, re_writableCallback = None, re_errorCallback = None, re_notificationCallback = None,
      re_active = True, re_processCounter = 0, re_detachRequired = False, re_detachCallback = None\<rparr>"

definition RegistryEntry_handle :: "handle \<Rightarrow> ReactorEventTrigger \<Rightarrow> bool \<Rightarrow> RegistryEntry" where
  "RegistryEntry_handle h trigger oneShot =
     \<lparr>re_handle = h, re_interest = Interest_create trigger oneShot, re_reactorSocket = None, re_strand = None,
      re_readableCallback = None, re_writableCallback = None, re_errorCallback = None, re_notificationCallback = None,
      re_active = True, re_processCounter = 0, re_detachRequired = False, re_detachCallback = None\<rparr>"

subsection \<open>Interest\<close>

definition apply_options :: "ReactorEventOptions \<Rightarrow> RegistryEntry \<Rightarrow> RegistryEntry" where
  "apply_options opts e =
     (let e1 = (case eo_trigger opts of
                  Some x \<Rightarrow> e\<lparr>re_interest := Interest_setTrigger x (re_interest e)\<rparr> | None \<Rightarrow> e)
      in case eo_oneShot opts of
           Some x \<Rightarrow> e1\<lparr>re_interest := Interest_setOneShot x (re_interest e1)\<rparr> | None \<Rightarrow> e1)"

definition update_interest :: "(Interest \<Rightarrow> Interest) \<Rightarrow> RegistryEntry \<Rightarrow> RegistryEntry" where
  "update_interest f e = e\<lparr>re_interest := f (re_interest e)\<rparr>"

definition showReadable :: "ReactorEventOptions \<Rightarrow> RegistryEntry \<Rightarrow> RegistryEntry" where
  "showReadable opts e = apply_options opts (update_interest Interest_showReadable e)"

definition showReadableCallback :: "ReactorEventOptions \<Rightarrow> callback_ref \<Rightarrow> RegistryEntry \<Rightarrow> RegistryEntry" where
  "showReadableCallback opts c e =
     apply_options opts (update_interest Interest_showReadable (e\<lparr>re_readableCallback := Some c\<rparr>))"

definition showWritable :: "ReactorEventOptions \<Rightarrow> RegistryEntry \<Rightarrow> RegistryEntry" where
  "showWritable opts e = apply_options opts (update_interest Interest_showWritable e)"

definition showWritableCallback :: "ReactorEventOptions \<Rightarrow> callback_ref \<Rightarrow> RegistryEntry \<Rightarrow> RegistryEntry" where
  "showWritableCallback opts c e =
     apply_options opts (update_interest Interest_showWritable (e\<lparr>re_writableCallback := Some c\<rparr>))"

definition showError :: "ReactorEventOptions \<Rightarrow> RegistryEntry \<Rightarrow> RegistryEntry" where
  "showError opts e = apply_options opts (update_interest Interest_showError e)"

definition showErrorCallback :: "ReactorEventOptions \<Rightarrow> callback_ref \<Rightarrow> RegistryEntry \<Rightarrow> RegistryEntry" where
  "showErrorCallback opts c e =
     apply_options opts (update_interest Interest_showError (e\<lparr>re_errorCallback := Some c\<rparr>))"

definition showNotifications :: "RegistryEntry \<Rightarrow> RegistryEntry" where
  "showNotifications e = update_interest Interest_showNotifications e"

definition showNotificationsCallback :: "callback_ref \<Rightarrow> RegistryEntry \<Rightarrow> RegistryEntry" where
  "showNotificationsCallback c e = update_interest Interest_showNotifications (e\<lparr>re_notificationCallback := Some c\<rparr>)"

definition hideReadable :: "ReactorEventOptions \<Rightarrow> RegistryEntry \<Rightarrow> RegistryEntry" where
  "hideReadable opts e = apply_options opts (update_interest Interest_hideReadable e)"

definition hideReadableCallback :: "ReactorEventOptions \<Rightarrow> RegistryEntry \<Rightarrow> RegistryEntry" where
  "hideReadableCallback opts e = apply_options opts (update_interest Interest_hideReadable (e\<lparr>re_readableCallback := None\<rparr>))"

definition hideWritable :: "ReactorEventOptions \<Rightarrow> RegistryEntry \<Rightarrow> RegistryEntry" where
  "hideWritable opts e = apply_options opts (update_interest Interest_hideWritable e)"

definition hideWritableCallback :: "ReactorEventOptions \<Rightarrow> RegistryEntry \<Rightarrow> RegistryEntry" where
  "hideWritableCallback opts e = apply_options opts (update_interest Interest_hideWritable (e\<lparr>re_writableCallback := None\<rparr>))"

text \<open>Errors cannot be hidden.\<close>

definition hideError :: "ReactorEventOptions \<Rightarrow> RegistryEntry \<Rightarrow> RegistryEntry" where
  "hideError opts e = apply_options opts e"

definition hideErrorCallback :: "ReactorEventOptions \<Rightarrow> RegistryEntry \<Rightarrow> RegistryEntry" where
  "hideErrorCallback opts e = apply_options opts e"

definition hideNotifications :: "RegistryEntry \<Rightarrow> RegistryEntry" where
  "hideNotifications e = update_interest Interest_hideNotifications e"

definition hideNotificationsCallback :: "RegistryEntry \<Rightarrow> RegistryEntry" where
  "hideNotificationsCallback e = update_interest Interest_hideNotifications (e\<lparr>re_notificationCallback := None\<rparr>)"

subsection \<open>Announcements\<close>

datatype registry_announcement =
  To_reactorSocket socket_ref ReactorEvent "strand_ref option"
| To_eventCallback callback_ref ReactorEvent
| Notifications_to_socket socket_ref "strand_ref option"
| Notifications_to_callback callback_ref

text \<open>The result: whether the event was wanted, what is announced, and the entry afterwards.\<close>

type_synonym announced = "bool \<times> registry_announcement option \<times> RegistryEntry"

definition announceReadable :: "ReactorEvent \<Rightarrow> RegistryEntry \<Rightarrow> announced" where
  "announceReadable event e =
     (if \<not> Interest_wantReadable (re_interest e) then (False, None, e)
      else let oneShot = Interest_oneShot (re_interest e);
               e1 = (if oneShot then update_interest Interest_hideReadable e else e)
           in case re_reactorSocket e of
                Some socket \<Rightarrow> (True, Some (To_reactorSocket socket event (re_strand e)), e1)
              | None \<Rightarrow>
                  (True, map_option (\<lambda>c. To_eventCallback c event) (re_readableCallback e),
                   if oneShot then e1\<lparr>re_readableCallback := None\<rparr> else e1))"

definition announceWritable :: "ReactorEvent \<Rightarrow> RegistryEntry \<Rightarrow> announced" where
  "announceWritable event e =
     (if \<not> Interest_wantWritable (re_interest e) then (False, None, e)
      else let oneShot = Interest_oneShot (re_interest e);
               e1 = (if oneShot then update_interest Interest_hideWritable e else e)
           in case re_reactorSocket e of
                Some socket \<Rightarrow> (True, Some (To_reactorSocket socket event (re_strand e)), e1)
              | None \<Rightarrow>
                  (True, map_option (\<lambda>c. To_eventCallback c event) (re_writableCallback e),
                   if oneShot then e1\<lparr>re_writableCallback := None\<rparr> else e1))"

text \<open>Without a callback for errors, an error is announced to that for readability, or else for writability.\<close>

definition error_announcement :: "ReactorEvent \<Rightarrow> RegistryEntry \<Rightarrow> registry_announcement option" where
  "error_announcement event e =
     (case (re_errorCallback e, re_readableCallback e, re_writableCallback e) of
        (Some c, _, _) \<Rightarrow> Some (To_eventCallback c event)
      | (None, Some c, _) \<Rightarrow>
          Some (To_eventCallback c \<lparr>ev_handle = re_handle e, ev_type = e_EVENT_READABLE, ev_error = ev_error event\<rparr>)
      | (None, None, Some c) \<Rightarrow>
          Some (To_eventCallback c \<lparr>ev_handle = re_handle e, ev_type = e_EVENT_WRITABLE, ev_error = ev_error event\<rparr>)
      | (None, None, None) \<Rightarrow> None)"

definition announceError :: "ReactorEvent \<Rightarrow> RegistryEntry \<Rightarrow> announced" where
  "announceError event e =
     (if \<not> Interest_wantError (re_interest e) then (False, None, e)
      else let e1 = (if Interest_oneShot (re_interest e) then update_interest Interest_hideError e else e)
           in case re_reactorSocket e of
                Some socket \<Rightarrow> (True, Some (To_reactorSocket socket event (re_strand e)), e1)
              | None \<Rightarrow> (True, error_announcement event e, e1))"

definition announceNotifications :: "RegistryEntry \<Rightarrow> announced" where
  "announceNotifications e =
     (if \<not> Interest_wantNotifications (re_interest e) then (False, None, e)
      else case re_reactorSocket e of
             Some socket \<Rightarrow> (True, Some (Notifications_to_socket socket (re_strand e)), e)
           | None \<Rightarrow> (True, map_option Notifications_to_callback (re_notificationCallback e), e))"

subsection \<open>Detachment\<close>

text \<open>The result: whether the detachment is announced, and the callback taken, if there is one.\<close>

definition announceDetached :: "RegistryEntry \<Rightarrow> bool \<times> callback_ref option \<times> RegistryEntry" where
  "announceDetached e =
     (if re_detachRequired e
      then (True, re_detachCallback e, e\<lparr>re_detachRequired := False, re_detachCallback := None\<rparr>)
      else (False, None, e))"

definition setDetachmentRequired :: "callback_ref option \<Rightarrow> RegistryEntry \<Rightarrow> RegistryEntry option" where
  "setDetachmentRequired callback e =
     (if re_detachRequired e \<or> re_detachCallback e \<noteq> None then None
      else Some (e\<lparr>re_detachCallback := callback, re_detachRequired := True\<rparr>))"

definition incrementProcessCounter :: "RegistryEntry \<Rightarrow> RegistryEntry" where
  "incrementProcessCounter e = e\<lparr>re_processCounter := re_processCounter e + 1\<rparr>"

definition decrementProcessCounter :: "RegistryEntry \<Rightarrow> u32 \<times> RegistryEntry" where
  "decrementProcessCounter e = (re_processCounter e - 1, e\<lparr>re_processCounter := re_processCounter e - 1\<rparr>)"

definition isProcessing :: "RegistryEntry \<Rightarrow> bool" where
  "isProcessing e \<longleftrightarrow> re_processCounter e \<noteq> 0"

text \<open>The entry is deactivated; the reactor context of its socket is reset by the caller of this function, below.\<close>

definition RegistryEntry_clear :: "RegistryEntry \<Rightarrow> RegistryEntry" where
  "RegistryEntry_clear e =
     (let e1 = (case re_reactorSocket e of
                  Some _ \<Rightarrow> e
                | None \<Rightarrow> e\<lparr>re_readableCallback := None, re_writableCallback := None, re_errorCallback := None\<rparr>)
      in e1\<lparr>re_detachRequired := False, re_detachCallback := None, re_active := False\<rparr>)"

subsection \<open>The catalog\<close>

record RegistryEntryCatalog =
  ct_vector :: "entry_ref option list"
  ct_size :: nat
  ct_trigger :: ReactorEventTrigger
  ct_oneShot :: bool
  ct_entries :: "entry_ref \<rightharpoonup> RegistryEntry"
  ct_fresh :: entry_ref
  ct_contexts :: "socket_ref \<rightharpoonup> entry_ref"

definition RegistryEntryCatalog_create :: "ReactorEventTrigger \<Rightarrow> bool \<Rightarrow> RegistryEntryCatalog" where
  "RegistryEntryCatalog_create trigger oneShot =
     \<lparr>ct_vector = replicate 64 None, ct_size = 0, ct_trigger = trigger, ct_oneShot = oneShot,
      ct_entries = (\<lambda>_. None), ct_fresh = 0, ct_contexts = (\<lambda>_. None)\<rparr>"

text \<open>The destructor asserts that the registry is empty.\<close>

definition RegistryEntryCatalog_destroy :: "RegistryEntryCatalog \<Rightarrow> unit option" where
  "RegistryEntryCatalog_destroy ct = (if ct_size ct = 0 then Some () else None)"

definition setDefaultTrigger :: "ReactorEventTrigger \<Rightarrow> RegistryEntryCatalog \<Rightarrow> RegistryEntryCatalog" where
  "setDefaultTrigger x ct = ct\<lparr>ct_trigger := x\<rparr>"

definition setDefaultOneShot :: "bool \<Rightarrow> RegistryEntryCatalog \<Rightarrow> RegistryEntryCatalog" where
  "setDefaultOneShot x ct = ct\<lparr>ct_oneShot := x\<rparr>"

definition handle_index :: "handle \<Rightarrow> nat" where
  "handle_index h = nat (h mod 2 ^ 64)"

text \<open>The vector grows to the index, and to at least one and a half of its length.\<close>

definition grown :: "nat \<Rightarrow> entry_ref option list \<Rightarrow> entry_ref option list" where
  "grown index xs =
     (if index \<ge> length xs
      then let n = max (index + 1) (length xs * 3 div 2) in xs @ replicate (n - length xs) None else xs)"

definition put_entry :: "handle \<Rightarrow> RegistryEntry \<Rightarrow> RegistryEntryCatalog \<Rightarrow> (entry_ref \<times> RegistryEntryCatalog) option" where
  "put_entry h e ct =
     (let index = handle_index h; n = ct_fresh ct; xs = grown index (ct_vector ct)
      in do { bsls_assert (h \<noteq> invalid_handle);
              bsls_assert (index < length xs);
              Some (n, ct\<lparr>ct_vector := xs[index := Some n], ct_size := ct_size ct + 1,
                          ct_entries := (ct_entries ct)(n \<mapsto> e), ct_fresh := n + 1\<rparr>) })"

definition add_socket ::
  "socket_ref \<Rightarrow> handle \<Rightarrow> strand_ref option \<Rightarrow> RegistryEntryCatalog \<Rightarrow> (entry_ref \<times> RegistryEntryCatalog) option" where
  "add_socket socket h strand ct =
     do { (n, ct1) \<leftarrow> put_entry h (RegistryEntry_socket socket h strand (ct_trigger ct) (ct_oneShot ct)) ct;
          Some (n, ct1\<lparr>ct_contexts := (ct_contexts ct1)(socket \<mapsto> n)\<rparr>) }"

definition add_handle :: "handle \<Rightarrow> RegistryEntryCatalog \<Rightarrow> (entry_ref \<times> RegistryEntryCatalog) option" where
  "add_handle h ct = put_entry h (RegistryEntry_handle h (ct_trigger ct) (ct_oneShot ct)) ct"

text \<open>The entry of a handle is taken out of the vector, in \<open>remove\<close> and \<open>removeAndGetReadyToDetach\<close>.\<close>

definition vector_at :: "nat \<Rightarrow> entry_ref option list \<Rightarrow> entry_ref option" where
  "vector_at index xs = (if index < length xs then xs ! index else None)"

definition take_entry :: "handle \<Rightarrow> RegistryEntryCatalog \<Rightarrow> (entry_ref option \<times> RegistryEntryCatalog) option" where
  "take_entry h ct =
     (let index = handle_index h
      in do { bsls_assert (h \<noteq> invalid_handle);
              case vector_at index (ct_vector ct) of
                None \<Rightarrow> Some (None, ct)
              | Some n \<Rightarrow>
                  do { bsls_assert (ct_size ct > 0);
                       Some (Some n, ct\<lparr>ct_vector := (ct_vector ct)[index := None], ct_size := ct_size ct - 1\<rparr>) } })"

definition clear_entry :: "entry_ref \<Rightarrow> RegistryEntryCatalog \<Rightarrow> RegistryEntryCatalog option" where
  "clear_entry n ct =
     do { e \<leftarrow> ct_entries ct n;
          let ct1 = ct\<lparr>ct_entries := (ct_entries ct)(n \<mapsto> RegistryEntry_clear e)\<rparr>;
          Some (case re_reactorSocket e of
                  Some socket \<Rightarrow> ct1\<lparr>ct_contexts := (ct_contexts ct1)(socket := None)\<rparr>
                | None \<Rightarrow> ct1) }"

definition RegistryEntryCatalog_remove :: "handle \<Rightarrow> RegistryEntryCatalog \<Rightarrow> (entry_ref option \<times> RegistryEntryCatalog) option" where
  "RegistryEntryCatalog_remove h ct =
     do { (n, ct1) \<leftarrow> take_entry h ct;
          case n of
            None \<Rightarrow> Some (None, ct1)
          | Some n \<Rightarrow> do { ct2 \<leftarrow> clear_entry n ct1; Some (Some n, ct2) } }"

definition modify_entry ::
  "entry_ref \<Rightarrow> (RegistryEntry \<Rightarrow> RegistryEntry option) \<Rightarrow> RegistryEntryCatalog \<Rightarrow> RegistryEntryCatalog option" where
  "modify_entry n f ct = do { e \<leftarrow> ct_entries ct n; e1 \<leftarrow> f e; Some (ct\<lparr>ct_entries := (ct_entries ct)(n \<mapsto> e1)\<rparr>) }"

definition removeAndGetReadyToDetach ::
  "(entry_ref \<Rightarrow> RegistryEntryCatalog \<Rightarrow> (ntsa_error \<times> RegistryEntryCatalog) option) \<Rightarrow> handle \<Rightarrow> callback_ref option \<Rightarrow>
   RegistryEntryCatalog \<Rightarrow> (ntsa_error \<times> RegistryEntryCatalog) option" where
  "removeAndGetReadyToDetach functor h callback ct =
     do { (n, ct1) \<leftarrow> take_entry h ct;
          case n of
            None \<Rightarrow> Some (E_INVALID, ct1)
          | Some n \<Rightarrow> do { ct2 \<leftarrow> modify_entry n (setDetachmentRequired callback) ct1; functor n ct2 } }"

text \<open>The vector without the entry of the controller, and the entries taken out of it, in order.\<close>

fun clear_loop :: "nat \<Rightarrow> nat \<Rightarrow> entry_ref option list \<Rightarrow> nat \<Rightarrow> (entry_ref list \<times> entry_ref option list \<times> nat) option" where
  "clear_loop controllerIndex index [] numEntries = Some ([], [], numEntries)"
| "clear_loop controllerIndex index (x # xs) numEntries =
     (if index = controllerIndex \<or> x = None
      then do { (ns, ys, numEntries1) \<leftarrow> clear_loop controllerIndex (index + 1) xs numEntries; Some (ns, x # ys, numEntries1) }
      else do { bsls_assert (numEntries > 0);
                (ns, ys, numEntries1) \<leftarrow> clear_loop controllerIndex (index + 1) xs (numEntries - 1);
                Some (the x # ns, None # ys, numEntries1) })"

fun clear_entries :: "entry_ref list \<Rightarrow> RegistryEntryCatalog \<Rightarrow> RegistryEntryCatalog option" where
  "clear_entries [] ct = Some ct"
| "clear_entries (n # ns) ct = do { ct1 \<leftarrow> clear_entry n ct; clear_entries ns ct1 }"

definition RegistryEntryCatalog_clear :: "handle \<Rightarrow> RegistryEntryCatalog \<Rightarrow> (entry_ref list \<times> RegistryEntryCatalog) option" where
  "RegistryEntryCatalog_clear controller ct =
     do { (ns, xs, numEntries) \<leftarrow> clear_loop (handle_index controller) 0 (ct_vector ct) (ct_size ct);
          ct1 \<leftarrow> clear_entries ns (ct\<lparr>ct_vector := xs, ct_size := numEntries\<rparr>);
          Some (ns, ct1) }"

datatype closing = Close_socket socket_ref | Close_handle handle

definition RegistryEntry_close :: "RegistryEntry \<Rightarrow> closing option" where
  "RegistryEntry_close e =
     (case re_reactorSocket e of
        Some socket \<Rightarrow> Some (Close_socket socket)
      | None \<Rightarrow> if re_handle e \<noteq> invalid_handle then Some (Close_handle (re_handle e)) else None)"

definition RegistryEntryCatalog_closeAll :: "handle \<Rightarrow> RegistryEntryCatalog \<Rightarrow> closing list" where
  "RegistryEntryCatalog_closeAll controller ct =
     (let xs = (ct_vector ct)[handle_index controller := None]
      in List.map_filter (\<lambda>x. Option.bind x (\<lambda>n. Option.bind (ct_entries ct n) RegistryEntry_close)) xs)"

definition lookup :: "handle \<Rightarrow> RegistryEntryCatalog \<Rightarrow> entry_ref option option" where
  "lookup h ct = do { bsls_assert (h \<noteq> invalid_handle); Some (vector_at (handle_index h) (ct_vector ct)) }"

definition lookupAndMarkProcessingOngoing ::
  "handle \<Rightarrow> RegistryEntryCatalog \<Rightarrow> (entry_ref option \<times> RegistryEntryCatalog) option" where
  "lookupAndMarkProcessingOngoing h ct =
     do { n \<leftarrow> lookup h ct;
          case n of
            None \<Rightarrow> Some (None, ct)
          | Some n \<Rightarrow>
              do { ct1 \<leftarrow> modify_entry n (\<lambda>e. Some (incrementProcessCounter e)) ct; Some (Some n, ct1) } }"

text \<open>The entries that \<open>forEach\<close> visits.\<close>

definition forEach :: "RegistryEntryCatalog \<Rightarrow> entry_ref list" where
  "forEach ct = List.map_filter (\<lambda>x. x) (ct_vector ct)"

text \<open>
  The function with which \<open>ntco::Epoll\<close> (\<open>ntco_epoll.cpp\<close>) completes a detachment; the error of the system call is an
  argument, and the interruption of a waiter is left out.
\<close>

definition removeDetached ::
  "ntsa_error \<Rightarrow> entry_ref \<Rightarrow> RegistryEntryCatalog \<Rightarrow> (ntsa_error \<times> RegistryEntryCatalog) option" where
  "removeDetached error n ct =
     do { e \<leftarrow> ct_entries ct n;
          let (announced, callback, e1) = announceDetached e;
          if \<not> isProcessing e \<and> announced
          then do { ct1 \<leftarrow> clear_entry n (ct\<lparr>ct_entries := (ct_entries ct)(n \<mapsto> e1)\<rparr>); Some (error, ct1) }
          else Some (error, ct) }"

text \<open>
  The end of the work of a thread of \<open>ntco::Epoll\<close> on an entry: the last thread announces a detachment that has
  become required meanwhile.
\<close>

definition finish_processing :: "entry_ref \<Rightarrow> RegistryEntryCatalog \<Rightarrow> RegistryEntryCatalog option" where
  "finish_processing n ct =
     do { e \<leftarrow> ct_entries ct n;
          let (counter, e1) = decrementProcessCounter e;
          let (announced, callback, e2) = announceDetached e1;
          if counter = 0 \<and> announced then clear_entry n (ct\<lparr>ct_entries := (ct_entries ct)(n \<mapsto> e2)\<rparr>)
          else Some (ct\<lparr>ct_entries := (ct_entries ct)(n \<mapsto> e1)\<rparr>) }"

subsection \<open>The invariant of the catalog\<close>

definition valid_handle :: "handle \<Rightarrow> bool" where
  "valid_handle h \<longleftrightarrow> 0 \<le> h \<and> h < 2 ^ 31"

definition occupied :: "entry_ref option list \<Rightarrow> nat set" where
  "occupied xs = {i. i < length xs \<and> xs ! i \<noteq> None}"

definition entry_ok :: "RegistryEntryCatalog \<Rightarrow> nat \<Rightarrow> entry_ref \<Rightarrow> bool" where
  "entry_ok ct i n \<longleftrightarrow>
     (\<exists>e. ct_entries ct n = Some e \<and> valid_handle (re_handle e) \<and> handle_index (re_handle e) = i \<and>
          \<not> re_detachRequired e \<and> re_detachCallback e = None \<and> n < ct_fresh ct)"

definition ct_inv :: "RegistryEntryCatalog \<Rightarrow> bool" where
  "ct_inv ct \<longleftrightarrow>
     ct_size ct = card (occupied (ct_vector ct)) \<and>
     (\<forall>i n. i < length (ct_vector ct) \<longrightarrow> ct_vector ct ! i = Some n \<longrightarrow> entry_ok ct i n)"

definition registry_map :: "RegistryEntryCatalog \<Rightarrow> handle \<rightharpoonup> entry_ref" where
  "registry_map ct h = (if valid_handle h then vector_at (handle_index h) (ct_vector ct) else None)"

lemma valid_index: "valid_handle h \<Longrightarrow> handle_index h = nat h" and valid_invalid: "valid_handle h \<Longrightarrow> h \<noteq> invalid_handle"
  by (auto simp: valid_handle_def handle_index_def invalid_handle_def)

lemma index_eq: "valid_handle h \<Longrightarrow> valid_handle k \<Longrightarrow> handle_index h = handle_index k \<longleftrightarrow> h = k"
  by (auto simp: valid_index) (auto simp: valid_handle_def)

lemma finite_occupied [simp]: "finite (occupied xs)"
  by (simp add: occupied_def)

lemma occupied_update:
  "i < length xs \<Longrightarrow> occupied (xs[i := x]) = (if x = None then occupied xs - {i} else insert i (occupied xs))"
  by (auto simp: occupied_def nth_list_update split: if_splits)

lemma vector_at_update:
  "i < length xs \<Longrightarrow> vector_at j (xs[i := x]) = (if j = i then x else vector_at j xs)"
  by (auto simp: vector_at_def nth_list_update)

lemma vector_at_grown [simp]: "vector_at j (grown i xs) = vector_at j xs"
  by (auto simp: vector_at_def grown_def Let_def nth_append)

lemma grown_length [simp]: "i < length (grown i xs)"
  by (auto simp: grown_def Let_def)

lemma occupied_at: "occupied xs = {i. vector_at i xs \<noteq> None}"
  by (auto simp: occupied_def vector_at_def)

lemma ct_inv_at:
  "ct_inv ct \<longleftrightarrow> ct_size ct = card (occupied (ct_vector ct)) \<and> (\<forall>i n. vector_at i (ct_vector ct) = Some n \<longrightarrow> entry_ok ct i n)"
  by (auto simp: ct_inv_def vector_at_def)

lemma vector_at_length: "vector_at i xs = Some n \<Longrightarrow> i < length xs"
  by (simp add: vector_at_def split: if_splits)

lemma ct_invD:
  assumes "ct_inv ct"
  shows "ct_size ct = card (occupied (ct_vector ct))" and "vector_at i (ct_vector ct) = Some n \<Longrightarrow> entry_ok ct i n"
  using assms by (auto simp: ct_inv_at)

lemma entry_once:
  assumes "ct_inv ct" and "vector_at i (ct_vector ct) = Some n" and "vector_at j (ct_vector ct) = Some n"
  shows "i = j"
  using ct_invD(2) [OF assms(1,2)] ct_invD(2) [OF assms(1,3)] by (auto simp: entry_ok_def)

lemma registry_map_card:
  assumes inv: "ct_inv ct"
  shows "card (dom (registry_map ct)) = ct_size ct"
proof -
  have "handle_index ` dom (registry_map ct) = occupied (ct_vector ct)"
  proof (intro set_eqI iffI)
    fix i assume "i \<in> occupied (ct_vector ct)"
    then obtain n where n: "vector_at i (ct_vector ct) = Some n" by (auto simp: occupied_at)
    then obtain h where "valid_handle h" "handle_index h = i" using ct_invD(2) [OF inv n] by (auto simp: entry_ok_def)
    then show "i \<in> handle_index ` dom (registry_map ct)" using n by (force simp: registry_map_def)
  qed (auto simp: registry_map_def occupied_at split: if_splits)
  moreover have "inj_on handle_index (dom (registry_map ct))"
    by (rule inj_onI) (auto simp: registry_map_def index_eq split: if_splits)
  ultimately show ?thesis using card_image [of handle_index "dom (registry_map ct)"] ct_invD(1) [OF inv] by simp
qed

text \<open>An entry that is not in the vector may be anything; one that is keeps its place and is not being detached.\<close>

lemma ct_inv_entries:
  assumes inv: "ct_inv ct" and vec: "ct_vector ct1 = ct_vector ct" "ct_size ct1 = ct_size ct" "ct_fresh ct1 = ct_fresh ct"
    and other: "\<And>m. m \<noteq> n \<Longrightarrow> ct_entries ct1 m = ct_entries ct m"
    and same: "\<And>i. vector_at i (ct_vector ct) = Some n \<Longrightarrow> entry_ok ct i n \<Longrightarrow> entry_ok ct1 i n"
  shows "ct_inv ct1"
  unfolding ct_inv_at
proof (intro conjI allI impI)
  show "ct_size ct1 = card (occupied (ct_vector ct1))" using ct_invD(1) [OF inv] vec by simp
  fix i m assume "vector_at i (ct_vector ct1) = Some m"
  then have m: "vector_at i (ct_vector ct) = Some m" using vec by simp
  note ok = ct_invD(2) [OF inv m]
  show "entry_ok ct1 i m"
  proof (cases "m = n")
    case False
    then show ?thesis using ok other [OF False] vec(3) by (simp add: entry_ok_def)
  qed (use ok same m in blast)
qed

lemma put_entry_inv:
  assumes inv: "ct_inv ct" and h: "valid_handle h" "registry_map ct h = None"
    and e: "re_handle e = h" "\<not> re_detachRequired e" "re_detachCallback e = None"
  shows "\<exists>ct1. put_entry h e ct = Some (ct_fresh ct, ct1) \<and> ct_inv ct1 \<and> ct_fresh ct1 = ct_fresh ct + 1 \<and>
    registry_map ct1 = (registry_map ct)(h \<mapsto> ct_fresh ct)"
proof -
  let ?i = "handle_index h" and ?xs = "grown (handle_index h) (ct_vector ct)"
  let ?ct = "ct\<lparr>ct_vector := ?xs[?i := Some (ct_fresh ct)], ct_size := ct_size ct + 1,
    ct_entries := (ct_entries ct)(ct_fresh ct \<mapsto> e), ct_fresh := ct_fresh ct + 1\<rparr>"
  have at: "vector_at j (ct_vector ?ct) = (if j = ?i then Some (ct_fresh ct) else vector_at j (ct_vector ct))" for j
    by (simp add: vector_at_update)
  have none: "vector_at ?i (ct_vector ct) = None" using h by (simp add: registry_map_def)
  have "occupied (ct_vector ?ct) = insert ?i (occupied (ct_vector ct))" unfolding occupied_at at by auto
  then have "card (occupied (ct_vector ?ct)) = ct_size ct + 1"
    using none ct_invD(1) [OF inv] card_insert_disjoint [OF finite_occupied] by (simp add: occupied_at)
  moreover have "entry_ok ?ct j m" if "vector_at j (ct_vector ?ct) = Some m" for j m
  proof (cases "j = ?i")
    case True
    then show ?thesis using that e h(1) unfolding at by (auto simp: entry_ok_def)
  next
    case False
    then have ok: "entry_ok ct j m" using that ct_invD(2) [OF inv] unfolding at by simp
    then show ?thesis by (auto simp: entry_ok_def)
  qed
  ultimately have "ct_inv ?ct" unfolding ct_inv_at by simp
  moreover have "registry_map ?ct = (registry_map ct)(h \<mapsto> ct_fresh ct)"
    using index_eq [OF _ h(1)] h(1) unfolding registry_map_def at by (auto simp: fun_eq_iff)
  ultimately show ?thesis using valid_invalid [OF h(1)] by (simp add: put_entry_def Let_def)
qed

lemma take_entry_inv:
  assumes inv: "ct_inv ct" and h: "valid_handle h"
  shows "\<exists>ct1. take_entry h ct = Some (registry_map ct h, ct1) \<and> ct_inv ct1 \<and> ct_fresh ct1 = ct_fresh ct \<and>
    ct_entries ct1 = ct_entries ct \<and> registry_map ct1 = (registry_map ct)(h := None)"
proof (cases "registry_map ct h")
  case None
  then have "take_entry h ct = Some (None, ct)" using valid_invalid [OF h] h by (simp add: take_entry_def registry_map_def Let_def)
  then show ?thesis using None inv by (auto simp: fun_upd_idem)
next
  case (Some n)
  let ?i = "handle_index h"
  let ?ct = "ct\<lparr>ct_vector := (ct_vector ct)[?i := None], ct_size := ct_size ct - 1\<rparr>"
  have n: "vector_at ?i (ct_vector ct) = Some n" using Some h by (simp add: registry_map_def)
  have at: "vector_at j (ct_vector ?ct) = (if j = ?i then None else vector_at j (ct_vector ct))" for j
    using vector_at_length [OF n] by (simp add: vector_at_update)
  have mem: "?i \<in> occupied (ct_vector ct)" using n by (simp add: occupied_at)
  then have pos: "ct_size ct > 0" using ct_invD(1) [OF inv] card_gt_0_iff by fastforce
  have "occupied (ct_vector ?ct) = occupied (ct_vector ct) - {?i}" unfolding occupied_at at by auto
  then have "card (occupied (ct_vector ?ct)) = ct_size ct - 1" using mem ct_invD(1) [OF inv] by simp
  moreover have "entry_ok ?ct j m" if "vector_at j (ct_vector ?ct) = Some m" for j m
    using that ct_invD(2) [OF inv] unfolding at by (auto simp: entry_ok_def split: if_splits)
  ultimately have "ct_inv ?ct" unfolding ct_inv_at by simp
  moreover have "registry_map ?ct = (registry_map ct)(h := None)"
    using index_eq [OF _ h] h unfolding registry_map_def at by (auto simp: fun_eq_iff)
  ultimately show ?thesis using Some n pos valid_invalid [OF h] by (simp add: take_entry_def Let_def)
qed

subsection \<open>The operations keep the invariant\<close>

lemma registry_map_vector: "ct_vector ct1 = ct_vector ct \<Longrightarrow> registry_map ct1 = registry_map ct"
  by (simp add: registry_map_def fun_eq_iff)

lemma clear_entry_frame:
  assumes "ct_entries ct n = Some e"
  shows "\<exists>ct1. clear_entry n ct = Some ct1 \<and> ct_vector ct1 = ct_vector ct \<and> ct_size ct1 = ct_size ct \<and>
    ct_fresh ct1 = ct_fresh ct \<and> ct_entries ct1 = (ct_entries ct)(n \<mapsto> RegistryEntry_clear e)"
  using assms by (auto simp: clear_entry_def Let_def split: option.split)

lemma RegistryEntry_clear_simps [simp]:
  "re_handle (RegistryEntry_clear e) = re_handle e" "\<not> re_detachRequired (RegistryEntry_clear e)"
  "re_detachCallback (RegistryEntry_clear e) = None"
  by (simp_all add: RegistryEntry_clear_def Let_def split: option.split)

text \<open>An entry of the vector that has been modified, but not in its handle nor for a detachment, is still well-formed.\<close>

lemma ct_inv_modified:
  assumes inv: "ct_inv ct" and vec: "ct_vector ct1 = ct_vector ct" "ct_size ct1 = ct_size ct" "ct_fresh ct1 = ct_fresh ct"
    and e: "ct_entries ct n = Some e" "ct_entries ct1 = (ct_entries ct)(n \<mapsto> e1)" "re_handle e1 = re_handle e"
      "re_detachRequired e1 \<Longrightarrow> re_detachRequired e" "re_detachCallback e = None \<Longrightarrow> re_detachCallback e1 = None"
  shows "ct_inv ct1" and "registry_map ct1 = registry_map ct"
proof -
  show "ct_inv ct1" by (rule ct_inv_entries [OF inv vec, where n = n]) (use e vec in \<open>auto simp: entry_ok_def\<close>)
qed (rule registry_map_vector [OF vec(1)])

text \<open>An entry taken out of the vector is not there a second time.\<close>

lemma taken_entry:
  assumes inv: "ct_inv ct" and n: "registry_map ct h = Some n" and h: "valid_handle h"
    and rm: "registry_map ct1 = (registry_map ct)(h := None)" and inv1: "ct_inv ct1"
    and ent: "ct_entries ct1 = ct_entries ct"
  shows "vector_at i (ct_vector ct1) \<noteq> Some n"
proof
  assume i: "vector_at i (ct_vector ct1) = Some n"
  obtain e where e: "ct_entries ct n = Some e" "valid_handle (re_handle e)" "handle_index (re_handle e) = i"
    using ct_invD(2) [OF inv1 i] ent by (auto simp: entry_ok_def)
  then have "registry_map ct1 (re_handle e) = Some n" using i by (simp add: registry_map_def)
  then have "re_handle e \<noteq> h" using rm by auto
  moreover have "vector_at (handle_index h) (ct_vector ct) = Some n" using n h by (simp add: registry_map_def)
  from ct_invD(2) [OF inv this] have "handle_index (re_handle e) = handle_index h" using e(1) by (simp add: entry_ok_def)
  ultimately show False using index_eq [OF e(2) h] by simp
qed

lemma ct_inv_absent:
  assumes inv: "ct_inv ct" and n: "\<And>i. vector_at i (ct_vector ct) \<noteq> Some n"
    and vec: "ct_vector ct1 = ct_vector ct" "ct_size ct1 = ct_size ct" "ct_fresh ct1 = ct_fresh ct"
    and other: "\<And>m. m \<noteq> n \<Longrightarrow> ct_entries ct1 m = ct_entries ct m"
  shows "ct_inv ct1" and "registry_map ct1 = registry_map ct"
proof -
  show "ct_inv ct1" by (rule ct_inv_entries [OF inv vec other]) (use n in auto)
qed (rule registry_map_vector [OF vec(1)])

lemma map_entry_ok:
  assumes "ct_inv ct" and "registry_map ct h = Some n"
  shows "\<exists>e. ct_entries ct n = Some e \<and> re_handle e = h \<and> \<not> re_detachRequired e \<and> re_detachCallback e = None"
proof -
  have h: "valid_handle h" and at: "vector_at (handle_index h) (ct_vector ct) = Some n"
    using assms(2) by (auto simp: registry_map_def split: if_splits)
  then show ?thesis using ct_invD(2) [OF assms(1) at] index_eq [OF _ h] by (auto simp: entry_ok_def)
qed

lemma remove_inv:
  assumes inv: "ct_inv ct" and h: "valid_handle h"
  shows "\<exists>ct1. RegistryEntryCatalog_remove h ct = Some (registry_map ct h, ct1) \<and> ct_inv ct1 \<and> ct_fresh ct1 = ct_fresh ct \<and>
    registry_map ct1 = (registry_map ct)(h := None)"
proof -
  obtain ct1 where t: "take_entry h ct = Some (registry_map ct h, ct1)" "ct_inv ct1" "ct_fresh ct1 = ct_fresh ct"
    "ct_entries ct1 = ct_entries ct" "registry_map ct1 = (registry_map ct)(h := None)"
    using take_entry_inv [OF inv h] by blast
  show ?thesis
  proof (cases "registry_map ct h")
    case None
    then show ?thesis using t by (simp add: RegistryEntryCatalog_remove_def)
  next
    case (Some n)
    then obtain e where "ct_entries ct1 n = Some e" using map_entry_ok [OF inv Some] t(4) by auto
    from clear_entry_frame [OF this] obtain ct2 where ct2: "clear_entry n ct1 = Some ct2" "ct_vector ct2 = ct_vector ct1"
      "ct_size ct2 = ct_size ct1" "ct_fresh ct2 = ct_fresh ct1" "ct_entries ct2 = (ct_entries ct1)(n \<mapsto> RegistryEntry_clear e)"
      by blast
    note absent = ct_inv_absent [OF t(2) taken_entry [OF inv Some h t(5,2,4)] ct2(2,3,4)]
    show ?thesis using Some t ct2 absent by (simp add: RegistryEntryCatalog_remove_def)
  qed
qed

lemma removeDetached_frame:
  assumes "ct_entries ct n = Some e"
  shows "\<exists>ct1. removeDetached error n ct = Some (error, ct1) \<and> ct_vector ct1 = ct_vector ct \<and> ct_size ct1 = ct_size ct \<and>
    ct_fresh ct1 = ct_fresh ct \<and> (\<forall>m. m \<noteq> n \<longrightarrow> ct_entries ct1 m = ct_entries ct m)"
  using assms by (auto simp: removeDetached_def announceDetached_def clear_entry_def Let_def split: option.split)

lemma detach_inv:
  assumes inv: "ct_inv ct" and h: "valid_handle h"
  shows "\<exists>r ct1. removeAndGetReadyToDetach (removeDetached error) h callback ct = Some (r, ct1) \<and> ct_inv ct1 \<and>
    ct_fresh ct1 = ct_fresh ct \<and> registry_map ct1 = (registry_map ct)(h := None)"
proof -
  obtain ct1 where t: "take_entry h ct = Some (registry_map ct h, ct1)" "ct_inv ct1" "ct_fresh ct1 = ct_fresh ct"
    "ct_entries ct1 = ct_entries ct" "registry_map ct1 = (registry_map ct)(h := None)"
    using take_entry_inv [OF inv h] by blast
  show ?thesis
  proof (cases "registry_map ct h")
    case None
    then show ?thesis using t by (simp add: removeAndGetReadyToDetach_def)
  next
    case (Some n)
    then obtain e where e: "ct_entries ct1 n = Some e" "\<not> re_detachRequired e" "re_detachCallback e = None"
      using map_entry_ok [OF inv Some] t(4) by auto
    let ?e = "e\<lparr>re_detachCallback := callback, re_detachRequired := True\<rparr>"
    let ?ct = "ct1\<lparr>ct_entries := (ct_entries ct1)(n \<mapsto> ?e)\<rparr>"
    have "ct_entries ?ct n = Some ?e" by simp
    from removeDetached_frame [OF this, of error] obtain ct2 where ct2: "removeDetached error n ?ct = Some (error, ct2)"
      "ct_vector ct2 = ct_vector ct1" "ct_size ct2 = ct_size ct1" "ct_fresh ct2 = ct_fresh ct1"
      "\<And>m. m \<noteq> n \<Longrightarrow> ct_entries ct2 m = ct_entries ct1 m"
      by auto
    note absent = ct_inv_absent [OF t(2) taken_entry [OF inv Some h t(5,2,4)] ct2(2,3,4,5)]
    show ?thesis using Some t ct2(1,4) e absent
      by (simp add: removeAndGetReadyToDetach_def modify_entry_def setDetachmentRequired_def)
  qed
qed

lemma mark_inv:
  assumes inv: "ct_inv ct" and h: "valid_handle h"
  shows "\<exists>ct1. lookupAndMarkProcessingOngoing h ct = Some (registry_map ct h, ct1) \<and> ct_inv ct1 \<and>
    ct_fresh ct1 = ct_fresh ct \<and> registry_map ct1 = registry_map ct"
proof (cases "registry_map ct h")
  case None
  then show ?thesis using inv h valid_invalid [OF h] by (simp add: lookupAndMarkProcessingOngoing_def lookup_def registry_map_def)
next
  case (Some n)
  then obtain e where e: "ct_entries ct n = Some e" using map_entry_ok [OF inv Some] by blast
  let ?ct = "ct\<lparr>ct_entries := (ct_entries ct)(n \<mapsto> incrementProcessCounter e)\<rparr>"
  have "ct_inv ?ct" "registry_map ?ct = registry_map ct"
    by (rule ct_inv_modified [OF inv, where n = n and e = e and ?e1.0 = "incrementProcessCounter e"];
        simp add: e incrementProcessCounter_def)+
  moreover have "lookupAndMarkProcessingOngoing h ct = Some (Some n, ?ct)" using Some h valid_invalid [OF h] e
    by (simp add: lookupAndMarkProcessingOngoing_def lookup_def registry_map_def modify_entry_def)
  ultimately show ?thesis using Some by simp
qed

lemma finish_frame:
  assumes e: "ct_entries ct n = Some e"
  shows "\<exists>ct1 e1. finish_processing n ct = Some ct1 \<and> ct_vector ct1 = ct_vector ct \<and> ct_size ct1 = ct_size ct \<and>
    ct_fresh ct1 = ct_fresh ct \<and> ct_entries ct1 = (ct_entries ct)(n \<mapsto> e1) \<and> re_handle e1 = re_handle e \<and>
    (re_detachRequired e1 \<longrightarrow> re_detachRequired e) \<and> (re_detachCallback e = None \<longrightarrow> re_detachCallback e1 = None)"
proof (cases "re_processCounter e - 1 = 0 \<and> re_detachRequired e")
  case True
  let ?e = "e\<lparr>re_processCounter := 0, re_detachRequired := False, re_detachCallback := None\<rparr>"
  let ?ct = "ct\<lparr>ct_entries := (ct_entries ct)(n \<mapsto> ?e)\<rparr>"
  have "finish_processing n ct = clear_entry n ?ct"
    using True e by (simp add: finish_processing_def announceDetached_def decrementProcessCounter_def)
  moreover have "ct_entries ?ct n = Some ?e" by simp
  from clear_entry_frame [OF this] obtain ct1 where "clear_entry n ?ct = Some ct1" "ct_vector ct1 = ct_vector ct"
    "ct_size ct1 = ct_size ct" "ct_fresh ct1 = ct_fresh ct" "ct_entries ct1 = (ct_entries ct)(n \<mapsto> RegistryEntry_clear ?e)"
    by auto
  ultimately show ?thesis by (intro exI [of _ ct1] exI [of _ "RegistryEntry_clear ?e"]) simp
next
  case False
  let ?e = "e\<lparr>re_processCounter := re_processCounter e - 1\<rparr>"
  have "finish_processing n ct = Some (ct\<lparr>ct_entries := (ct_entries ct)(n \<mapsto> ?e)\<rparr>)"
    using False e by (auto simp: finish_processing_def announceDetached_def decrementProcessCounter_def)
  then show ?thesis by (intro exI [of _ "ct\<lparr>ct_entries := (ct_entries ct)(n \<mapsto> ?e)\<rparr>"] exI [of _ ?e]) simp
qed

lemma finish_inv:
  assumes inv: "ct_inv ct" and e: "ct_entries ct n = Some e"
  shows "\<exists>ct1. finish_processing n ct = Some ct1 \<and> ct_inv ct1 \<and> ct_fresh ct1 = ct_fresh ct \<and> registry_map ct1 = registry_map ct"
proof -
  obtain ct1 e1 where ct1: "finish_processing n ct = Some ct1" "ct_vector ct1 = ct_vector ct" "ct_size ct1 = ct_size ct"
    "ct_fresh ct1 = ct_fresh ct" "ct_entries ct1 = (ct_entries ct)(n \<mapsto> e1)" "re_handle e1 = re_handle e"
    "re_detachRequired e1 \<Longrightarrow> re_detachRequired e" "re_detachCallback e = None \<Longrightarrow> re_detachCallback e1 = None"
    using finish_frame [OF e] by metis
  show ?thesis using ct_inv_modified [OF inv ct1(2,3,4) e ct1(5-8)] ct1(1,4) by simp
qed

text \<open>The loop of \<open>clear\<close> empties every place but that of the controller.\<close>

lemma clear_loop_spec:
  "card (occupied xs - {j. index + j = c}) \<le> numEntries \<Longrightarrow>
   \<exists>ns ys. clear_loop c index xs numEntries = Some (ns, ys, numEntries - card (occupied xs - {j. index + j = c})) \<and>
     length ys = length xs \<and> (\<forall>j < length xs. ys ! j = (if index + j = c then xs ! j else None)) \<and>
     set ns = {n. \<exists>j < length xs. index + j \<noteq> c \<and> xs ! j = Some n}"
proof (induction c index xs numEntries rule: clear_loop.induct)
  case (1 c index numEntries)
  then show ?case by (simp add: occupied_def)
next
  case (2 c index x xs numEntries)
  have split: "occupied (x # xs) - {j. index + j = c} =
      (if index = c \<or> x = None then {} else {0}) \<union> Suc ` (occupied xs - {j. index + 1 + j = c})"
  proof (rule set_eqI)
    fix j
    show "j \<in> occupied (x # xs) - {j. index + j = c} \<longleftrightarrow>
        j \<in> (if index = c \<or> x = None then {} else {0}) \<union> Suc ` (occupied xs - {j. index + 1 + j = c})"
      by (cases j) (simp_all add: occupied_def image_iff)
  qed
  have card: "card (occupied (x # xs) - {j. index + j = c}) =
      (if index = c \<or> x = None then 0 else 1) + card (occupied xs - {j. index + 1 + j = c})"
    unfolding split by (subst card_Un_disjoint) (auto simp: card_image)
  have all: "(\<forall>j < Suc n. P j) \<longleftrightarrow> P 0 \<and> (\<forall>j < n. P (Suc j))" for n and P :: "nat \<Rightarrow> bool"
    using less_Suc_eq_0_disj by auto
  have ex: "(\<exists>j < Suc n. P j) \<longleftrightarrow> P 0 \<or> (\<exists>j < n. P (Suc j))" for n and P :: "nat \<Rightarrow> bool"
    using less_Suc_eq_0_disj by auto
  show ?case
  proof (cases "index = c \<or> x = None")
    case True
    then show ?thesis using 2(1) [OF True] 2(3) card by (auto simp: all ex)
  next
    case False
    then have "0 < numEntries" "card (occupied xs - {j. index + 1 + j = c}) \<le> numEntries - 1" using 2(3) card by auto
    then show ?thesis using 2(2) [OF False, of "()"] False card by (auto simp: all ex)
  qed
qed

lemma clear_entries_inv:
  "ct_inv ct \<Longrightarrow> set ns \<subseteq> dom (ct_entries ct) \<Longrightarrow>
   \<exists>ct1. clear_entries ns ct = Some ct1 \<and> ct_inv ct1 \<and> ct_fresh ct1 = ct_fresh ct \<and> registry_map ct1 = registry_map ct"
proof (induction ns arbitrary: ct)
  case (Cons n ns)
  then obtain e where e: "ct_entries ct n = Some e" by auto
  from clear_entry_frame [OF this] obtain ct1 where ct1: "clear_entry n ct = Some ct1" "ct_vector ct1 = ct_vector ct"
    "ct_size ct1 = ct_size ct" "ct_fresh ct1 = ct_fresh ct" "ct_entries ct1 = (ct_entries ct)(n \<mapsto> RegistryEntry_clear e)"
    by blast
  have inv1: "ct_inv ct1" "registry_map ct1 = registry_map ct"
    by (rule ct_inv_modified [OF Cons.prems(1) ct1(2,3,4) e ct1(5)]; simp)+
  have "set ns \<subseteq> dom (ct_entries ct1)" using Cons.prems(2) ct1(5) by auto
  from Cons.IH [OF inv1(1) this] show ?case using ct1(1,4) inv1(2) by auto
qed simp

lemma clear_inv:
  assumes inv: "ct_inv ct" and c: "valid_handle c"
  shows "\<exists>ns ct1. RegistryEntryCatalog_clear c ct = Some (ns, ct1) \<and> ct_inv ct1 \<and> ct_fresh ct1 = ct_fresh ct \<and>
    registry_map ct1 = registry_map ct |` {c}"
proof -
  let ?c = "handle_index c" and ?occ = "occupied (ct_vector ct)"
  have le: "card (?occ - {?c}) \<le> ct_size ct" using ct_invD(1) [OF inv] card_mono [OF finite_occupied] by simp
  obtain ns ys where l: "clear_loop ?c 0 (ct_vector ct) (ct_size ct) = Some (ns, ys, ct_size ct - card (?occ - {?c}))"
    "length ys = length (ct_vector ct)" "\<forall>j < length (ct_vector ct). ys ! j = (if j = ?c then ct_vector ct ! j else None)"
    "set ns = {n. \<exists>j < length (ct_vector ct). j \<noteq> ?c \<and> ct_vector ct ! j = Some n}"
    using clear_loop_spec [of "ct_vector ct" 0 ?c "ct_size ct"] le by auto
  let ?ct = "ct\<lparr>ct_vector := ys, ct_size := ct_size ct - card (?occ - {?c})\<rparr>"
  have at: "vector_at j ys = (if j = ?c then vector_at j (ct_vector ct) else None)" for j
    using l(2,3) by (auto simp: vector_at_def)
  have "occupied ys = ?occ \<inter> {?c}" unfolding occupied_at at by auto
  moreover have "card ?occ = card (?occ \<inter> {?c}) + card (?occ - {?c})"
    by (rule card_Int_Diff) simp
  ultimately have "card (occupied ys) = ct_size ct - card (?occ - {?c})" using ct_invD(1) [OF inv] by simp
  moreover have "entry_ok ?ct j n" if "vector_at j ys = Some n" for j n
    using that ct_invD(2) [OF inv] unfolding at by (auto simp: entry_ok_def split: if_splits)
  ultimately have inv1: "ct_inv ?ct" unfolding ct_inv_at by simp
  have dom: "set ns \<subseteq> dom (ct_entries ?ct)"
    unfolding l(4) using inv by (auto simp: ct_inv_def entry_ok_def)
  have "registry_map ?ct = registry_map ct |` {c}"
    using index_eq [OF _ c] by (auto simp: registry_map_def at restrict_map_def fun_eq_iff)
  then show ?thesis using clear_entries_inv [OF inv1 dom] l(1) by (auto simp: RegistryEntryCatalog_clear_def)
qed

subsection \<open>The catalog as a map\<close>

datatype registry_op =
  R_addSocket socket_ref handle "strand_ref option"
| R_addHandle handle
| R_remove handle
| R_detach ntsa_error handle "callback_ref option"
| R_mark handle
| R_finish entry_ref
| R_clear handle

fun registry_step :: "registry_op \<Rightarrow> RegistryEntryCatalog \<Rightarrow> RegistryEntryCatalog option" where
  "registry_step (R_addSocket s h strand) ct = map_option snd (add_socket s h strand ct)"
| "registry_step (R_addHandle h) ct = map_option snd (add_handle h ct)"
| "registry_step (R_remove h) ct = map_option snd (RegistryEntryCatalog_remove h ct)"
| "registry_step (R_detach error h callback) ct =
     map_option snd (removeAndGetReadyToDetach (removeDetached error) h callback ct)"
| "registry_step (R_mark h) ct = map_option snd (lookupAndMarkProcessingOngoing h ct)"
| "registry_step (R_finish n) ct = finish_processing n ct"
| "registry_step (R_clear c) ct = map_option snd (RegistryEntryCatalog_clear c ct)"

text \<open>The specification: a map from handles to entries, and the next entry.\<close>

fun map_step :: "registry_op \<Rightarrow> (handle \<rightharpoonup> entry_ref) \<times> entry_ref \<Rightarrow> (handle \<rightharpoonup> entry_ref) \<times> entry_ref" where
  "map_step (R_addSocket s h strand) (m, n) = (m(h \<mapsto> n), n + 1)"
| "map_step (R_addHandle h) (m, n) = (m(h \<mapsto> n), n + 1)"
| "map_step (R_remove h) (m, n) = (m(h := None), n)"
| "map_step (R_detach error h callback) (m, n) = (m(h := None), n)"
| "map_step (R_mark h) (m, n) = (m, n)"
| "map_step (R_finish k) (m, n) = (m, n)"
| "map_step (R_clear c) (m, n) = (m |` {c}, n)"

text \<open>Callers use handles of open descriptors, and attach a descriptor that is not attached.\<close>

fun registry_permitted :: "registry_op \<Rightarrow> RegistryEntryCatalog \<Rightarrow> bool" where
  "registry_permitted (R_addSocket s h strand) ct = (valid_handle h \<and> lookup h ct = Some None)"
| "registry_permitted (R_addHandle h) ct = (valid_handle h \<and> lookup h ct = Some None)"
| "registry_permitted (R_remove h) ct = valid_handle h"
| "registry_permitted (R_detach error h callback) ct = valid_handle h"
| "registry_permitted (R_mark h) ct = valid_handle h"
| "registry_permitted (R_finish n) ct = (ct_entries ct n \<noteq> None)"
| "registry_permitted (R_clear c) ct = valid_handle c"

lemma lookup_map: "valid_handle h \<Longrightarrow> lookup h ct = Some (registry_map ct h)"
  using valid_invalid by (simp add: lookup_def registry_map_def)

lemma add_inv:
  assumes "ct_inv ct" and "registry_permitted (R_addHandle h) ct" and "x = R_addSocket s h strand \<or> x = R_addHandle h"
  shows "\<exists>ct1. registry_step x ct = Some ct1 \<and> ct_inv ct1 \<and>
    (registry_map ct1, ct_fresh ct1) = map_step x (registry_map ct, ct_fresh ct)"
proof -
  have h: "valid_handle h" "registry_map ct h = None" using assms(2) lookup_map by auto
  show ?thesis using assms(3)
  proof
    assume x: "x = R_addSocket s h strand"
    obtain ct1 where ct1: "put_entry h (RegistryEntry_socket s h strand (ct_trigger ct) (ct_oneShot ct)) ct = Some (ct_fresh ct, ct1)"
      "ct_inv ct1" "ct_fresh ct1 = ct_fresh ct + 1" "registry_map ct1 = (registry_map ct)(h \<mapsto> ct_fresh ct)"
      using put_entry_inv [OF assms(1) h, of "RegistryEntry_socket s h strand (ct_trigger ct) (ct_oneShot ct)"]
      by (auto simp: RegistryEntry_socket_def)
    let ?ct = "ct1\<lparr>ct_contexts := (ct_contexts ct1)(s \<mapsto> ct_fresh ct)\<rparr>"
    have "ct_inv ?ct" using ct1(2) by (simp add: ct_inv_def entry_ok_def)
    then show ?thesis using x ct1 registry_map_vector [of ?ct ct1] by (simp add: add_socket_def)
  next
    assume x: "x = R_addHandle h"
    then show ?thesis using put_entry_inv [OF assms(1) h, of "RegistryEntry_handle h (ct_trigger ct) (ct_oneShot ct)"]
      by (auto simp: RegistryEntry_handle_def add_handle_def)
  qed
qed

lemma registry_step_inv:
  assumes inv: "ct_inv ct" and ok: "registry_permitted x ct"
  shows "\<exists>ct1. registry_step x ct = Some ct1 \<and> ct_inv ct1 \<and>
    (registry_map ct1, ct_fresh ct1) = map_step x (registry_map ct, ct_fresh ct)"
proof (cases x)
  case (R_addSocket s h strand)
  then have "registry_permitted (R_addHandle h) ct" using ok by simp
  then show ?thesis by (rule add_inv [OF inv]) (simp add: R_addSocket)
next
  case (R_addHandle h)
  then have "registry_permitted (R_addHandle h) ct" using ok by simp
  then show ?thesis by (rule add_inv [OF inv]) (simp add: R_addHandle)
next
  case (R_remove h)
  then show ?thesis using remove_inv [OF inv] ok by fastforce
next
  case (R_detach error h callback)
  then show ?thesis using detach_inv [OF inv, of h error callback] ok by fastforce
next
  case (R_mark h)
  then show ?thesis using mark_inv [OF inv] ok by fastforce
next
  case (R_finish n)
  then show ?thesis using finish_inv [OF inv] ok by fastforce
next
  case (R_clear c)
  then show ?thesis using clear_inv [OF inv] ok by fastforce
qed

lemma catalog_create_inv: "ct_inv (RegistryEntryCatalog_create trigger oneShot)"
  by (auto simp: ct_inv_def RegistryEntryCatalog_create_def occupied_def)






text \<open>
  The guard that a handle is attached only once is the caller's: attaching a handle that is attached replaces its entry
  and counts it again, so that the registry is never empty any more, even when every entry has been removed, and
  its destructor fails its assertion.
\<close>

theorem registry_attach_twice:
  assumes inv: "ct_inv ct" and h: "valid_handle h" "lookup h ct = Some (Some n)" and e: "re_handle e = h"
  shows "\<exists>ct1 ct2. put_entry h e ct = Some (ct_fresh ct, ct1) \<and> ct_size ct1 = ct_size ct + 1 \<and>
    dom (registry_map ct1) = dom (registry_map ct) \<and>
    map_option snd (take_entry h ct1) = Some ct2 \<and> registry_map ct2 = (registry_map ct)(h := None) \<and>
    ct_size ct2 = card (dom (registry_map ct2)) + 1 \<and> RegistryEntryCatalog_destroy ct2 = None"
proof -
  let ?i = "handle_index h" and ?xs = "grown (handle_index h) (ct_vector ct)"
  let ?ct = "ct\<lparr>ct_vector := ?xs[?i := Some (ct_fresh ct)], ct_size := ct_size ct + 1,
    ct_entries := (ct_entries ct)(ct_fresh ct \<mapsto> e), ct_fresh := ct_fresh ct + 1\<rparr>"
  let ?ct2 = "?ct\<lparr>ct_vector := (ct_vector ?ct)[?i := None], ct_size := ct_size ct\<rparr>"
  have n: "vector_at ?i (ct_vector ct) = Some n" "registry_map ct h = Some n" using h lookup_map by (auto simp: registry_map_def)
  have put: "put_entry h e ct = Some (ct_fresh ct, ?ct)" using valid_invalid [OF h(1)] by (simp add: put_entry_def Let_def)
  have at: "vector_at j (ct_vector ?ct) = (if j = ?i then Some (ct_fresh ct) else vector_at j (ct_vector ct))"
    "vector_at j (ct_vector ?ct2) = (if j = ?i then None else vector_at j (ct_vector ct))" for j
    by (simp_all add: vector_at_update)
  have take: "map_option snd (take_entry h ?ct) = Some ?ct2"
    using valid_invalid [OF h(1)] at(1) [of ?i] by (simp add: take_entry_def Let_def del: list_update_overwrite)
  have maps: "registry_map ?ct = (registry_map ct)(h \<mapsto> ct_fresh ct)" "registry_map ?ct2 = (registry_map ct)(h := None)"
    using index_eq [OF _ h(1)] h(1) unfolding registry_map_def at by (auto simp: fun_eq_iff)
  have card: "card (dom (registry_map ct)) = ct_size ct" by (rule registry_map_card [OF inv])
  have h_in: "h \<in> dom (registry_map ct)" using n(2) by blast
  have "?i \<in> occupied (ct_vector ct)" using n(1) by (simp add: occupied_at)
  then have pos: "0 < ct_size ct" using ct_invD(1) [OF inv] card_gt_0_iff by fastforce
  have "card (dom (registry_map ct) - {h}) = ct_size ct - 1" using card h_in by (simp add: card_Diff_singleton)
  then have "ct_size ?ct2 = card (dom (registry_map ?ct2)) + 1" unfolding maps using pos by simp
  moreover have "dom (registry_map ?ct) = dom (registry_map ct)" unfolding maps using h_in by auto
  moreover have "RegistryEntryCatalog_destroy ?ct2 = None" using pos by (simp add: RegistryEntryCatalog_destroy_def)
  moreover have "ct_size ?ct = ct_size ct + 1" by simp
  ultimately show ?thesis using put take maps(2) by blast
qed

text \<open>A registry with one entry, for the handle 5.\<close>

definition registry_sample :: RegistryEntryCatalog where
  "registry_sample = the (registry_step (R_addHandle 5) (RegistryEntryCatalog_create e_LEVEL False))"

lemma registry_sample_inv: "ct_inv registry_sample" "lookup 5 registry_sample = Some (Some 0)"
proof -
  have ok: "registry_permitted (R_addHandle 5) (RegistryEntryCatalog_create e_LEVEL False)"
    by (simp add: valid_handle_def lookup_def vector_at_def handle_index_def invalid_handle_def RegistryEntryCatalog_create_def)
  show "ct_inv registry_sample" using registry_step_inv [OF catalog_create_inv ok] by (auto simp: registry_sample_def)
  show "lookup 5 registry_sample = Some (Some 0)"
    by (simp add: registry_sample_def add_handle_def put_entry_def grown_def Let_def RegistryEntryCatalog_create_def lookup_def
        vector_at_def handle_index_def invalid_handle_def)
qed

theorem registry_attach_twice_witness:
  "\<exists>ct1 ct2. put_entry 5 (RegistryEntry_handle 5 e_LEVEL False) registry_sample = Some (ct_fresh registry_sample, ct1) \<and>
     map_option snd (take_entry 5 ct1) = Some ct2 \<and> RegistryEntryCatalog_destroy ct2 = None"
  using registry_attach_twice [OF registry_sample_inv(1) _ registry_sample_inv(2), of "RegistryEntry_handle 5 e_LEVEL False"]
  by (auto simp: valid_handle_def RegistryEntry_handle_def)

subsection \<open>One-shot events\<close>

datatype entry_op =
  E_show ReactorEventType ReactorEventOptions "callback_ref option"
| E_hide ReactorEventType ReactorEventOptions bool
| E_announce ReactorEventType ReactorEvent
| E_showNotifications "callback_ref option"
| E_hideNotifications bool
| E_announceNotifications

fun show_event :: "ReactorEventType \<Rightarrow> ReactorEventOptions \<Rightarrow> callback_ref option \<Rightarrow> RegistryEntry \<Rightarrow> RegistryEntry" where
  "show_event e_EVENT_READABLE opts None = showReadable opts"
| "show_event e_EVENT_READABLE opts (Some c) = showReadableCallback opts c"
| "show_event e_EVENT_WRITABLE opts None = showWritable opts"
| "show_event e_EVENT_WRITABLE opts (Some c) = showWritableCallback opts c"
| "show_event e_EVENT_ERROR opts None = showError opts"
| "show_event e_EVENT_ERROR opts (Some c) = showErrorCallback opts c"
| "show_event e_EVENT_NONE opts c = id"

fun hide_event :: "ReactorEventType \<Rightarrow> ReactorEventOptions \<Rightarrow> bool \<Rightarrow> RegistryEntry \<Rightarrow> RegistryEntry" where
  "hide_event e_EVENT_READABLE opts False = hideReadable opts"
| "hide_event e_EVENT_READABLE opts True = hideReadableCallback opts"
| "hide_event e_EVENT_WRITABLE opts False = hideWritable opts"
| "hide_event e_EVENT_WRITABLE opts True = hideWritableCallback opts"
| "hide_event e_EVENT_ERROR opts False = hideError opts"
| "hide_event e_EVENT_ERROR opts True = hideErrorCallback opts"
| "hide_event e_EVENT_NONE opts c = id"

fun announce_event :: "ReactorEventType \<Rightarrow> ReactorEvent \<Rightarrow> RegistryEntry \<Rightarrow> announced" where
  "announce_event e_EVENT_READABLE event e = announceReadable event e"
| "announce_event e_EVENT_WRITABLE event e = announceWritable event e"
| "announce_event e_EVENT_ERROR event e = announceError event e"
| "announce_event e_EVENT_NONE event e = (False, None, e)"

fun entry_step :: "entry_op \<Rightarrow> RegistryEntry \<Rightarrow> RegistryEntry" where
  "entry_step (E_show ty opts c) e = show_event ty opts c e"
| "entry_step (E_hide ty opts b) e = hide_event ty opts b e"
| "entry_step (E_announce ty event) e = snd (snd (announce_event ty event e))"
| "entry_step (E_showNotifications None) e = showNotifications e"
| "entry_step (E_showNotifications (Some c)) e = showNotificationsCallback c e"
| "entry_step (E_hideNotifications b) e = (if b then hideNotificationsCallback e else hideNotifications e)"
| "entry_step E_announceNotifications e = snd (snd (announceNotifications e))"

text \<open>How often an event of a type is announced, and shown.\<close>

fun announcements :: "ReactorEventType \<Rightarrow> entry_op list \<Rightarrow> RegistryEntry \<Rightarrow> nat" where
  "announcements ty [] e = 0"
| "announcements ty (x # xs) e =
     (case x of E_announce ty1 event \<Rightarrow> of_bool (ty1 = ty \<and> fst (announce_event ty event e)) | _ \<Rightarrow> 0) +
     announcements ty xs (entry_step x e)"

definition shown :: "ReactorEventType \<Rightarrow> entry_op list \<Rightarrow> nat" where
  "shown ty xs = length (filter (\<lambda>x. case x of E_show ty1 opts c \<Rightarrow> ty1 = ty | _ \<Rightarrow> False) xs)"

fun wants :: "ReactorEventType \<Rightarrow> RegistryEntry \<Rightarrow> bool" where
  "wants e_EVENT_READABLE e = Interest_wantReadable (re_interest e)"
| "wants e_EVENT_WRITABLE e = Interest_wantWritable (re_interest e)"
| "wants e_EVENT_ERROR e = Interest_wantError (re_interest e)"
| "wants e_EVENT_NONE e = False"

text \<open>The operations that do not leave the one-shot mode.\<close>

fun keeps_one_shot :: "entry_op \<Rightarrow> bool" where
  "keeps_one_shot (E_show ty opts c) = (eo_oneShot opts \<noteq> Some False)"
| "keeps_one_shot (E_hide ty opts b) = (eo_oneShot opts \<noteq> Some False)"
| "keeps_one_shot x = True"

lemma apply_options_view:
  "view (re_interest (apply_options opts e)) =
     (view (re_interest e))\<lparr>iv_trigger := (case eo_trigger opts of Some x \<Rightarrow> x | None \<Rightarrow> iv_trigger (view (re_interest e))),
        iv_oneShot := (case eo_oneShot opts of Some x \<Rightarrow> x | None \<Rightarrow> iv_oneShot (view (re_interest e)))\<rparr>"
  by (simp add: apply_options_def Let_def split: option.split)

lemma update_interest_view [simp]: "re_interest (update_interest f e) = f (re_interest e)"
  by (simp add: update_interest_def)

lemmas entry_op_defs = showReadable_def showReadableCallback_def showWritable_def showWritableCallback_def showError_def
  showErrorCallback_def hideReadable_def hideReadableCallback_def hideWritable_def hideWritableCallback_def hideError_def
  hideErrorCallback_def showNotifications_def showNotificationsCallback_def hideNotifications_def hideNotificationsCallback_def
  announceReadable_def announceWritable_def announceError_def announceNotifications_def

lemma show_view:
  "view (re_interest (show_event ty opts c e)) = 
    (if ty = e_EVENT_NONE then view (re_interest e) else view (re_interest (apply_options opts (update_interest
       (case ty of e_EVENT_READABLE \<Rightarrow> Interest_showReadable | e_EVENT_WRITABLE \<Rightarrow> Interest_showWritable | _ \<Rightarrow> Interest_showError) e))))"
  by (cases ty; cases c) (simp_all add: entry_op_defs apply_options_view split: option.split)

lemma hide_view:
  "view (re_interest (hide_event ty opts b e)) = 
    (if ty = e_EVENT_NONE then view (re_interest e) else view (re_interest (apply_options opts (update_interest
       (case ty of e_EVENT_READABLE \<Rightarrow> Interest_hideReadable | e_EVENT_WRITABLE \<Rightarrow> Interest_hideWritable | _ \<Rightarrow> id) e))))"
  by (cases ty; cases b) (simp_all add: entry_op_defs apply_options_view split: option.split)

lemma announce_view:
  "fst (announce_event ty event e) = wants ty e"
  "view (re_interest (snd (snd (announce_event ty event e)))) =
     (if wants ty e \<and> iv_oneShot (view (re_interest e))
      then view ((case ty of e_EVENT_READABLE \<Rightarrow> Interest_hideReadable | e_EVENT_WRITABLE \<Rightarrow> Interest_hideWritable
                   | _ \<Rightarrow> Interest_hideError) (re_interest e))
      else view (re_interest e))"
  by (cases ty; cases "re_reactorSocket e"; simp add: entry_op_defs Let_def)+

lemma notifications_view:
  "view (re_interest (entry_step (E_showNotifications c) e)) = (view (re_interest e))\<lparr>iv_notifications := True\<rparr>"
  "view (re_interest (entry_step (E_hideNotifications b) e)) = (view (re_interest e))\<lparr>iv_notifications := False\<rparr>"
  "view (re_interest (entry_step E_announceNotifications e)) = view (re_interest e)"
  by (cases c; simp add: entry_op_defs) (simp_all add: entry_op_defs split: option.split)

lemma wants_view: "wants ty e \<longleftrightarrow> (case ty of e_EVENT_READABLE \<Rightarrow> iv_readable (view (re_interest e))
    | e_EVENT_WRITABLE \<Rightarrow> iv_writable (view (re_interest e)) | e_EVENT_ERROR \<Rightarrow> iv_error (view (re_interest e)) | e_EVENT_NONE \<Rightarrow> False)"
  by (cases ty) simp_all

lemma one_shot_step:
  assumes "keeps_one_shot x" and "iv_oneShot (view (re_interest e))"
  shows "iv_oneShot (view (re_interest (entry_step x e)))"
    and "(case x of E_announce ty1 event \<Rightarrow> of_bool (ty1 = ty \<and> fst (announce_event ty event e)) | _ \<Rightarrow> 0) +
      of_bool (wants ty (entry_step x e)) \<le> (shown ty [x] :: nat) + of_bool (wants ty e)"
proof -
  show "iv_oneShot (view (re_interest (entry_step x e)))"
    using assms by (cases x) (auto simp: show_view hide_view announce_view notifications_view apply_options_view
        simp del: entry_step.simps(4-7) announce_event.simps split: ReactorEventType.split option.split)
  show "(case x of E_announce ty1 event \<Rightarrow> of_bool (ty1 = ty \<and> fst (announce_event ty event e)) | _ \<Rightarrow> 0) +
      of_bool (wants ty (entry_step x e)) \<le> (shown ty [x] :: nat) + of_bool (wants ty e)"
    using assms by (cases x) (auto simp: wants_view show_view hide_view announce_view notifications_view apply_options_view
        shown_def simp del: entry_step.simps(4-7) announce_event.simps split: ReactorEventType.split option.split)
qed

text \<open>
  Claim C31. In one-shot mode an event is announced at most once each time it is shown: however showing, hiding and
  announcing are mixed, for descriptors with and without a socket and with and without callbacks, a new
  entry announces readability and writability at most as often as they are shown, and errors, which are shown from the
  beginning and cannot be hidden, at most once more.
\<close>

theorem one_shot_announcements:
  assumes "\<forall>x\<in>set xs. keeps_one_shot x"
    and "e = RegistryEntry_handle h trigger True \<or> e = RegistryEntry_socket s h strand trigger True"
  shows "announcements ty xs e \<le> shown ty xs + of_bool (ty = e_EVENT_ERROR)"
proof -
  have "announcements ty xs e + 0 \<le> shown ty xs + of_bool (wants ty e)"
    if "iv_oneShot (view (re_interest e))" "\<forall>x\<in>set xs. keeps_one_shot x" for e
    using that
  proof (induction xs arbitrary: e)
    case (Cons x xs)
    have "shown ty (x # xs) = shown ty [x] + shown ty xs" by (simp add: shown_def)
    then show ?case using Cons.IH [of "entry_step x e"] one_shot_step(1) [of x e] one_shot_step(2) [of x e ty] Cons.prems by simp
  qed simp
  moreover have "iv_oneShot (view (re_interest e))" "wants ty e \<longleftrightarrow> ty = e_EVENT_ERROR"
    using assms(2) by (cases ty; auto simp: RegistryEntry_handle_def RegistryEntry_socket_def Interest_create_view)+
  ultimately show ?thesis using assms(1) by fastforce
qed

theorem one_shot_announcements_witness:
  "announcements e_EVENT_READABLE
     [E_show e_EVENT_READABLE \<lparr>eo_trigger = None, eo_oneShot = None\<rparr> (Some 9),
      E_announce e_EVENT_READABLE \<lparr>ev_handle = 5, ev_type = e_EVENT_READABLE, ev_error = E_OK\<rparr>,
      E_announce e_EVENT_READABLE \<lparr>ev_handle = 5, ev_type = e_EVENT_READABLE, ev_error = E_OK\<rparr>]
     (RegistryEntry_handle 5 e_LEVEL True) \<le> 1"
  by (rule order_trans [OF one_shot_announcements [where h = 5 and trigger = e_LEVEL]]) (simp_all add: shown_def)

end
