(* ===== verification/Registry_Detach.thy ===== *)
theory Registry_Detach
  imports Registry
begin

section \<open>The detachment of a socket from a reactor\<close>

text \<open>
  This theory models how the threads that poll a reactor (\<open>ntco_epoll.cpp\<close>, and likewise the drivers for \<open>kqueue\<close> and event ports)
  and a thread that detaches a socket agree on when the detachment is announced. A polling thread marks the entry
  under the lock of the registry, announces events, decrements the counter of the entry and, if that gave zero, announces a
  detachment that has become required, and clears the entry. A detaching thread holds the lock of the
  registry while it takes out the entry, requires the detachment, reads the counter and, if that is zero, announces
  the detachment and clears the entry itself. There is one step for each section under a lock and each
  access to the counter; a callback of a polling thread may detach the socket it is called for. The steps of the entry itself
  (interest shown and hidden, events announced) are allowed at any time, from any thread, which is more than the code does; that a
  thread is announcing events is represented by its being at \<open>Processing\<close>, between the two accesses to the counter.
\<close>

datatype poll_pc = Away | Processing | Finishing | Clearing
datatype detach_pc = NotDetaching | ReadingCounter | AnnouncingDetached | ClearingDetached

record detach_system =
  dt_entry :: RegistryEntry
  dt_registered :: bool
  dt_mutex :: "nat option"
  dt_poll :: "nat \<Rightarrow> poll_pc"
  dt_detach :: "nat \<Rightarrow> detach_pc"
  dt_failed :: bool
  dt_announced :: nat

definition detach_init :: "RegistryEntry \<Rightarrow> detach_system" where
  "detach_init e = \<lparr>dt_entry = e, dt_registered = True, dt_mutex = None, dt_poll = (\<lambda>_. Away),
     dt_detach = (\<lambda>_. NotDetaching), dt_failed = False, dt_announced = 0\<rparr>"

definition poll_to :: "nat \<Rightarrow> poll_pc \<Rightarrow> RegistryEntry \<Rightarrow> detach_system \<Rightarrow> detach_system" where
  "poll_to i pc e s = s\<lparr>dt_poll := (dt_poll s)(i := pc), dt_entry := e\<rparr>"

text \<open>The detaching thread releases the lock of the registry when it is done.\<close>

definition detach_to :: "nat \<Rightarrow> detach_pc \<Rightarrow> RegistryEntry \<Rightarrow> detach_system \<Rightarrow> detach_system" where
  "detach_to i pc e s =
     s\<lparr>dt_detach := (dt_detach s)(i := pc), dt_entry := e, dt_mutex := (if pc = NotDetaching then None else Some i)\<rparr>"

definition count_announced :: "bool \<Rightarrow> detach_system \<Rightarrow> detach_system" where
  "count_announced b s = s\<lparr>dt_announced := dt_announced s + of_bool b\<rparr>"

definition poll_finish :: "nat \<Rightarrow> detach_system \<Rightarrow> detach_system" where
  "poll_finish i s =
     (let (announced, callback, e) = announceDetached (dt_entry s)
      in count_announced announced (poll_to i (if announced then Clearing else Away) e s))"

definition detach_begin :: "nat \<Rightarrow> callback_ref option \<Rightarrow> detach_system \<Rightarrow> detach_system" where
  "detach_begin i callback s =
     (case setDetachmentRequired callback (dt_entry s) of
        None \<Rightarrow> s\<lparr>dt_failed := True\<rparr>
      | Some e \<Rightarrow> detach_to i ReadingCounter e (s\<lparr>dt_registered := False\<rparr>))"

definition detach_announce :: "nat \<Rightarrow> detach_system \<Rightarrow> detach_system" where
  "detach_announce i s =
     (let (announced, callback, e) = announceDetached (dt_entry s)
      in count_announced announced (detach_to i (if announced then ClearingDetached else NotDetaching) e s))"

text \<open>The threads in the set poll the reactor.\<close>

inductive detach_step :: "nat set \<Rightarrow> detach_system \<Rightarrow> detach_system \<Rightarrow> bool" for pollers where
  step_lookup:
    "i \<in> pollers \<Longrightarrow> dt_poll s i = Away \<Longrightarrow> dt_detach s i = NotDetaching \<Longrightarrow> dt_mutex s = None \<Longrightarrow> dt_registered s \<Longrightarrow>
     detach_step pollers s (poll_to i Processing (incrementProcessCounter (dt_entry s)) s)"
| step_entry: "detach_step pollers s (s\<lparr>dt_entry := entry_step x (dt_entry s)\<rparr>)"
| step_decrement:
    "dt_poll s i = Processing \<Longrightarrow> dt_detach s i = NotDetaching \<Longrightarrow> decrementProcessCounter (dt_entry s) = (counter, e) \<Longrightarrow>
     detach_step pollers s (poll_to i (if counter = 0 then Finishing else Away) e s)"
| step_finish: "dt_poll s i = Finishing \<Longrightarrow> detach_step pollers s (poll_finish i s)"
| step_clear:
    "dt_poll s i = Clearing \<Longrightarrow> detach_step pollers s (poll_to i Away (RegistryEntry_clear (dt_entry s)) s)"
| step_detach:
    "dt_poll s i = Away \<or> dt_poll s i = Processing \<Longrightarrow> dt_detach s i = NotDetaching \<Longrightarrow> dt_mutex s = None \<Longrightarrow>
     dt_registered s \<Longrightarrow> detach_step pollers s (detach_begin i callback s)"
| step_read:
    "dt_detach s i = ReadingCounter \<Longrightarrow>
     detach_step pollers s
       (detach_to i (if isProcessing (dt_entry s) then NotDetaching else AnnouncingDetached) (dt_entry s) s)"
| step_announce: "dt_detach s i = AnnouncingDetached \<Longrightarrow> detach_step pollers s (detach_announce i s)"
| step_cleared:
    "dt_detach s i = ClearingDetached \<Longrightarrow>
     detach_step pollers s (detach_to i NotDetaching (RegistryEntry_clear (dt_entry s)) s)"

inductive detach_reachable :: "nat set \<Rightarrow> RegistryEntry \<Rightarrow> detach_system \<Rightarrow> bool" for pollers e where
  start: "detach_reachable pollers e (detach_init e)"
| step: "detach_reachable pollers e s \<Longrightarrow> detach_step pollers s t \<Longrightarrow> detach_reachable pollers e t"

subsection \<open>The invariant\<close>

definition processing :: "detach_system \<Rightarrow> nat set" where
  "processing s = {i. dt_poll s i = Processing}"

text \<open>A detachment that is required and not announced has a thread that will announce it.\<close>

definition responsible :: "detach_system \<Rightarrow> bool" where
  "responsible s \<longleftrightarrow>
     (\<exists>i. dt_poll s i = Processing \<or> dt_poll s i = Finishing \<or> dt_detach s i = ReadingCounter \<or> dt_detach s i = AnnouncingDetached)"

definition detach_phase :: "detach_system \<Rightarrow> bool" where
  "detach_phase s \<longleftrightarrow>
     (if dt_registered s
      then \<not> re_detachRequired (dt_entry s) \<and> re_detachCallback (dt_entry s) = None \<and> dt_announced s = 0 \<and>
           dt_mutex s = None \<and> (\<forall>i. dt_poll s i \<noteq> Clearing)
      else dt_announced s = of_bool (\<not> re_detachRequired (dt_entry s)) \<and> (re_detachRequired (dt_entry s) \<longrightarrow> responsible s) \<and>
           ((\<exists>i. dt_poll s i = Clearing \<or> dt_detach s i = ClearingDetached) \<longrightarrow> dt_announced s = 1))"

definition detach_system_inv :: "nat set \<Rightarrow> detach_system \<Rightarrow> bool" where
  "detach_system_inv pollers s \<longleftrightarrow>
     \<not> dt_failed s \<and> processing s \<subseteq> pollers \<and>
     re_processCounter (dt_entry s) = of_nat (card (processing s)) \<and>
     (\<forall>i. dt_mutex s = Some i \<longleftrightarrow> dt_detach s i \<noteq> NotDetaching) \<and>
     (\<forall>i. dt_detach s i = AnnouncingDetached \<longrightarrow> processing s = {}) \<and> detach_phase s"

lemma apply_options_frame [simp]:
  "re_processCounter (apply_options opts e) = re_processCounter e" "re_detachRequired (apply_options opts e) = re_detachRequired e"
  "re_detachCallback (apply_options opts e) = re_detachCallback e"
  by (simp_all add: apply_options_def Let_def split: option.split)

lemma entry_step_frame [simp]:
  "re_processCounter (entry_step x e) = re_processCounter e" "re_detachRequired (entry_step x e) = re_detachRequired e"
  "re_detachCallback (entry_step x e) = re_detachCallback e"
proof -
  have show_frame: "re_processCounter (show_event ty opts c e) = re_processCounter e \<and>
      re_detachRequired (show_event ty opts c e) = re_detachRequired e \<and> re_detachCallback (show_event ty opts c e) = re_detachCallback e"
    for ty opts c by (cases ty; cases c) (simp_all add: entry_op_defs update_interest_def)
  have hide_frame: "re_processCounter (hide_event ty opts b e) = re_processCounter e \<and>
      re_detachRequired (hide_event ty opts b e) = re_detachRequired e \<and> re_detachCallback (hide_event ty opts b e) = re_detachCallback e"
    for ty opts b by (cases ty; cases b) (simp_all add: entry_op_defs update_interest_def)
  have announce_frame: "re_processCounter (snd (snd (announce_event ty ev e))) = re_processCounter e \<and>
      re_detachRequired (snd (snd (announce_event ty ev e))) = re_detachRequired e \<and>
      re_detachCallback (snd (snd (announce_event ty ev e))) = re_detachCallback e"
    for ty ev by (cases ty; cases "re_reactorSocket e") (simp_all add: entry_op_defs update_interest_def Let_def)
  have notify_frame: "re_processCounter (entry_step (E_showNotifications c) e) = re_processCounter e \<and>
      re_detachRequired (entry_step (E_showNotifications c) e) = re_detachRequired e \<and>
      re_detachCallback (entry_step (E_showNotifications c) e) = re_detachCallback e"
    for c by (cases c) (simp_all add: entry_op_defs update_interest_def)
  show "re_processCounter (entry_step x e) = re_processCounter e" "re_detachRequired (entry_step x e) = re_detachRequired e"
    "re_detachCallback (entry_step x e) = re_detachCallback e"
    using show_frame hide_frame announce_frame notify_frame
    by (cases x; simp add: entry_op_defs update_interest_def split: option.split)+
qed

lemma counter_zero: "n < 2 ^ 32 \<Longrightarrow> of_nat n = (0 :: u32) \<longleftrightarrow> n = 0"
  using word_of_nat_eq_0_iff [where 'a = 32, of n] dvd_imp_le [of "2 ^ 32" n] by auto

lemma detach_system_invD:
  assumes "detach_system_inv pollers s"
  shows "\<not> dt_failed s" and "processing s \<subseteq> pollers" and "re_processCounter (dt_entry s) = of_nat (card (processing s))"
    and "dt_mutex s = Some i \<longleftrightarrow> dt_detach s i \<noteq> NotDetaching"
    and "dt_detach s i = AnnouncingDetached \<Longrightarrow> processing s = {}" and "detach_phase s"
  using assms by (auto simp: detach_system_inv_def)

lemma processing_poll_to:
  "processing (poll_to i pc e s) = (if pc = Processing then insert i (processing s) else processing s - {i})"
  by (auto simp: processing_def poll_to_def)

lemma processing_detach_to [simp]: "processing (detach_to i pc e s) = processing s"
  and processing_count [simp]: "processing (count_announced b s) = processing s"
  by (auto simp: processing_def detach_to_def count_announced_def)


lemma entry_inv:
  assumes "detach_system_inv pollers s"
  shows "detach_system_inv pollers (s\<lparr>dt_entry := entry_step x (dt_entry s)\<rparr>)"
proof -
  have "responsible (s\<lparr>dt_entry := entry_step x (dt_entry s)\<rparr>) = responsible s"
    "processing (s\<lparr>dt_entry := entry_step x (dt_entry s)\<rparr>) = processing s"
    by (simp_all add: responsible_def processing_def)
  then show ?thesis using assms unfolding detach_system_inv_def detach_phase_def by auto
qed

lemma lookup_inv:
  assumes inv: "detach_system_inv pollers s" and fin: "finite pollers"
    and i: "i \<in> pollers" "dt_poll s i = Away" "dt_mutex s = None" "dt_registered s"
  shows "detach_system_inv pollers (poll_to i Processing (incrementProcessCounter (dt_entry s)) s)"
proof -
  have "i \<notin> processing s" using i(2) by (simp add: processing_def)
  moreover have "finite (processing s)" using detach_system_invD(2) [OF inv] fin finite_subset by blast
  moreover have "dt_detach s j = NotDetaching" for j using detach_system_invD(4) [OF inv, of j] i(3) by auto
  ultimately show ?thesis using inv i
    unfolding detach_system_inv_def processing_poll_to
    by (auto simp: poll_to_def incrementProcessCounter_def detach_phase_def)
qed

lemma decrement_inv:
  assumes inv: "detach_system_inv pollers s" and fin: "finite pollers" "card pollers < 2 ^ 32"
    and i: "dt_poll s i = Processing" and d: "decrementProcessCounter (dt_entry s) = (counter, e)"
  shows "detach_system_inv pollers (poll_to i (if counter = 0 then Finishing else Away) e s)" (is "detach_system_inv _ ?t")
proof -
  let ?P = "processing s"
  have P: "i \<in> ?P" "finite ?P" using i detach_system_invD(2) [OF inv] fin finite_subset by (auto simp: processing_def)
  have less: "card ?P < 2 ^ 32" using card_mono [OF fin(1) detach_system_invD(2) [OF inv]] fin(2) by linarith
  have "card ?P \<noteq> 0" using P by auto
  then obtain n where n: "card ?P = Suc n" using not0_implies_Suc by blast
  have counter: "counter = of_nat n" and e: "e = (dt_entry s)\<lparr>re_processCounter := counter\<rparr>"
    using d detach_system_invD(3) [OF inv] n by (auto simp: decrementProcessCounter_def)
  have rest: "card (?P - {i}) = n" using n P by simp
  have zero: "counter = 0 \<longleftrightarrow> n = 0" using counter counter_zero [of n] less n by simp
  have procs: "processing ?t = ?P - {i}" by (simp add: processing_poll_to)
  have "responsible ?t"
  proof (cases "counter = 0")
    case False
    then obtain j where "j \<in> ?P - {i}" using zero rest by (metis card.empty equals0I)
    then show ?thesis by (auto simp: responsible_def poll_to_def processing_def)
  qed (auto simp: responsible_def poll_to_def)
  then have "detach_phase ?t" using detach_system_invD(6) [OF inv]
    by (auto simp: detach_phase_def poll_to_def e split: if_splits)
  then show ?thesis using inv procs rest counter P(1)
    unfolding detach_system_inv_def by (auto simp: poll_to_def e)
qed

lemma finish_poll_inv:
  assumes inv: "detach_system_inv pollers s" and i: "dt_poll s i = Finishing"
  shows "detach_system_inv pollers (poll_finish i s)"
proof -
  have procs: "processing (poll_finish i s) = processing s"
    using i by (auto simp: poll_finish_def announceDetached_def processing_poll_to) (auto simp: processing_def)
  then show ?thesis using inv i unfolding detach_system_inv_def procs
    by (auto simp: poll_finish_def announceDetached_def count_announced_def poll_to_def detach_phase_def split: if_splits)
qed

lemma clear_poll_inv:
  assumes inv: "detach_system_inv pollers s" and i: "dt_poll s i = Clearing"
  shows "detach_system_inv pollers (poll_to i Away (RegistryEntry_clear (dt_entry s)) s)"
proof -
  have count: "re_processCounter (RegistryEntry_clear e) = re_processCounter e" for e
    by (simp add: RegistryEntry_clear_def Let_def split: option.split)
  have procs: "processing (poll_to i Away (RegistryEntry_clear (dt_entry s)) s) = processing s"
    using i by (simp add: processing_poll_to) (auto simp: processing_def)
  then show ?thesis using inv i unfolding detach_system_inv_def procs
    by (auto simp: poll_to_def detach_phase_def count split: if_splits)
qed

lemma begin_detach_inv:
  assumes inv: "detach_system_inv pollers s"
    and i: "dt_detach s i = NotDetaching" "dt_mutex s = None" "dt_registered s"
  shows "detach_system_inv pollers (detach_begin i callback s)"
proof -
  have none: "dt_detach s j = NotDetaching" for j using detach_system_invD(4) [OF inv, of j] i(2) by auto
  have phase: "\<not> re_detachRequired (dt_entry s)" "re_detachCallback (dt_entry s) = None" "dt_announced s = 0" "\<And>j. dt_poll s j \<noteq> Clearing"
    using detach_system_invD(6) [OF inv] i(3) by (auto simp: detach_phase_def)
  let ?e = "(dt_entry s)\<lparr>re_detachCallback := callback, re_detachRequired := True\<rparr>"
  have t: "detach_begin i callback s = detach_to i ReadingCounter ?e (s\<lparr>dt_registered := False\<rparr>)"
    using phase by (simp add: detach_begin_def setDetachmentRequired_def)
  have procs: "processing (detach_begin i callback s) = processing s" unfolding t by (simp add: processing_def detach_to_def)
  show ?thesis using inv i none phase unfolding detach_system_inv_def procs
    by (auto simp: t detach_to_def detach_phase_def responsible_def)
qed

lemma read_inv:
  assumes inv: "detach_system_inv pollers s" and fin: "finite pollers" "card pollers < 2 ^ 32"
    and i: "dt_detach s i = ReadingCounter"
  shows "detach_system_inv pollers
    (detach_to i (if isProcessing (dt_entry s) then NotDetaching else AnnouncingDetached) (dt_entry s) s)" (is "detach_system_inv _ ?t")
proof -
  have mutex: "dt_mutex s = Some i" using detach_system_invD(4) [OF inv, of i] i by simp
  then have others: "dt_detach s j = NotDetaching" if "j \<noteq> i" for j using detach_system_invD(4) [OF inv, of j] that by auto
  have reg: "\<not> dt_registered s" using detach_system_invD(6) [OF inv] mutex by (auto simp: detach_phase_def)
  have less: "card (processing s) < 2 ^ 32" using card_mono [OF fin(1) detach_system_invD(2) [OF inv]] fin(2) by linarith
  have "finite (processing s)" using detach_system_invD(2) [OF inv] fin(1) finite_subset by blast
  then have busy: "isProcessing (dt_entry s) \<longleftrightarrow> processing s \<noteq> {}"
    using detach_system_invD(3) [OF inv] counter_zero [OF less] by (simp add: isProcessing_def)
  have "responsible ?t" using busy by (auto simp: responsible_def detach_to_def processing_def)
  then have "detach_phase ?t" using detach_system_invD(6) [OF inv] reg others
    by (auto simp: detach_phase_def detach_to_def i split: if_splits)
  then show ?thesis using inv busy others mutex
    unfolding detach_system_inv_def by (auto simp: detach_to_def processing_def)
qed

lemma announce_detach_inv:
  assumes inv: "detach_system_inv pollers s" and i: "dt_detach s i = AnnouncingDetached"
  shows "detach_system_inv pollers (detach_announce i s)"
proof -
  have mutex: "dt_mutex s = Some i" using detach_system_invD(4) [OF inv, of i] i by simp
  then have others: "dt_detach s j = NotDetaching" if "j \<noteq> i" for j using detach_system_invD(4) [OF inv, of j] that by auto
  have reg: "\<not> dt_registered s" using detach_system_invD(6) [OF inv] mutex by (auto simp: detach_phase_def)
  have procs: "processing (detach_announce i s) = processing s" by (simp add: detach_announce_def split_def Let_def)
  show ?thesis using inv i others mutex reg unfolding detach_system_inv_def procs
    by (auto simp: detach_announce_def announceDetached_def count_announced_def detach_to_def detach_phase_def split: if_splits)
qed

lemma cleared_inv:
  assumes inv: "detach_system_inv pollers s" and i: "dt_detach s i = ClearingDetached"
  shows "detach_system_inv pollers (detach_to i NotDetaching (RegistryEntry_clear (dt_entry s)) s)"
proof -
  have count: "re_processCounter (RegistryEntry_clear e) = re_processCounter e" for e
    by (simp add: RegistryEntry_clear_def Let_def split: option.split)
  have mutex: "dt_mutex s = Some i" using detach_system_invD(4) [OF inv, of i] i by simp
  then have others: "dt_detach s j = NotDetaching" if "j \<noteq> i" for j using detach_system_invD(4) [OF inv, of j] that by auto
  have reg: "\<not> dt_registered s" using detach_system_invD(6) [OF inv] mutex by (auto simp: detach_phase_def)
  then have once: "dt_announced s = 1" using detach_system_invD(6) [OF inv] i unfolding detach_phase_def by auto
  show ?thesis using inv i others mutex reg once unfolding detach_system_inv_def processing_detach_to
    by (auto simp: detach_to_def detach_phase_def count)
qed

lemma detach_step_inv:
  assumes "detach_step pollers s t" and "finite pollers" "card pollers < 2 ^ 32"
  shows "detach_system_inv pollers s \<Longrightarrow> detach_system_inv pollers t"
  using assms(1)
proof (induction rule: detach_step.induct)
  case (step_lookup i s)
  then show ?case by (intro lookup_inv assms)
next
  case (step_decrement s i counter e)
  then show ?case by (intro decrement_inv assms)
next
  case (step_read s i)
  then show ?case by (intro read_inv assms)
qed (blast intro: entry_inv finish_poll_inv clear_poll_inv begin_detach_inv announce_detach_inv cleared_inv)+

definition fresh_entry :: "RegistryEntry \<Rightarrow> bool" where
  "fresh_entry e \<longleftrightarrow> re_processCounter e = 0 \<and> \<not> re_detachRequired e \<and> re_detachCallback e = None"

lemma detach_reachable_inv:
  assumes "detach_reachable pollers e s" and "fresh_entry e" and "finite pollers" "card pollers < 2 ^ 32"
  shows "detach_system_inv pollers s"
  using assms(1)
proof (induction rule: detach_reachable.induct)
  case start
  then show ?case using assms(2)
    by (simp add: detach_system_inv_def detach_init_def processing_def detach_phase_def fresh_entry_def)
qed (blast intro: detach_step_inv assms)

lemma only_pollers: "detach_reachable pollers e s \<Longrightarrow> dt_poll s i \<noteq> Away \<Longrightarrow> i \<in> pollers"
proof (induction arbitrary: i rule: detach_reachable.induct)
  case start
  then show ?case by (simp add: detach_init_def)
next
  case (step s t)
  from step(2) show ?case using step.IH step.prems
    by (cases rule: detach_step.cases)
      (auto simp: poll_to_def detach_to_def poll_finish_def detach_begin_def detach_announce_def count_announced_def announceDetached_def
        split: if_splits option.splits)
qed

subsection \<open>What the protocol promises\<close>

text \<open>
  Claim C16. Whatever the threads do, no assertion fails, the detachment of a socket is announced at most once and only
  after the socket has been taken out of the registry, and it is not lost: when the socket has been taken out
  and no thread is working on the entry any more, it has been announced.
\<close>

theorem detach_announced_once:
  assumes "detach_reachable pollers e s" and "fresh_entry e" and "finite pollers" "card pollers < 2 ^ 32"
  shows "\<not> dt_failed s \<and> dt_announced s \<le> 1 \<and> (dt_registered s \<longrightarrow> dt_announced s = 0) \<and>
    (\<not> dt_registered s \<longrightarrow> (\<forall>i. dt_poll s i = Away \<and> dt_detach s i = NotDetaching) \<longrightarrow> dt_announced s = 1)"
proof -
  have inv: "detach_system_inv pollers s" by (rule detach_reachable_inv [OF assms])
  show ?thesis using detach_system_invD(1,6) [OF inv] by (auto simp: detach_phase_def responsible_def split: if_splits)
qed

text \<open>
  Claim C25. A reactor that is polled by one thread announces the detachment only when that thread is not announcing events of the
  socket, and announces no event of the socket afterwards.
\<close>

theorem detach_single_poller:
  assumes reached: "detach_reachable {p} e s" and fresh: "fresh_entry e"
  shows "dt_announced s > 0 \<longrightarrow> (\<forall>i. dt_poll s i \<noteq> Processing)"
proof -
  have fin: "finite {p}" "card {p} < 2 ^ 32" by simp_all
  have "dt_announced s > 0 \<longrightarrow> processing s = {}" using reached
  proof (induction rule: detach_reachable.induct)
    case start
    then show ?case by (simp add: detach_init_def)
  next
    case (step s t)
    note inv = detach_reachable_inv [OF step(1) fresh fin]
    from step(2) show ?case
    proof (cases rule: detach_step.cases)
      case (step_lookup i)
      then have "dt_announced s = 0" using detach_system_invD(6) [OF inv] by (simp add: detach_phase_def)
      then show ?thesis by (simp add: step_lookup(1) poll_to_def)
    next
      case (step_announce i)
      then have "processing s = {}" using detach_system_invD(5) [OF inv] by blast
      then show ?thesis by (simp add: step_announce(1) detach_announce_def split_def Let_def)
    next
      case (step_detach i callback)
      then show ?thesis using step.IH
        by (auto simp: detach_begin_def detach_to_def processing_def split: option.split)
    next
      case (step_finish i)
      then have "j = i" if "dt_poll s j \<noteq> Away" for j 
        using only_pollers [OF step(1), of j] only_pollers [OF step(1), of i] that by simp
      then have "processing s = {}" using step_finish(2) unfolding processing_def by (metis (mono_tags) Collect_empty_eq poll_pc.distinct(1,7))
      then show ?thesis
        by (simp add: step_finish(1) poll_finish_def split_def Let_def processing_poll_to)
    qed (use step.IH in \<open>auto simp: processing_poll_to poll_to_def detach_to_def processing_def split: if_splits\<close>)
  qed
  then show ?thesis by (auto simp: processing_def)
qed

text \<open>
  A run of two polling threads. Thread 0 has decremented the counter to zero and is about to look for a detachment; thread 1 marks
  the entry and begins to announce events; thread 2 detaches the socket and leaves the announcement to thread 1, whose mark
  it sees; thread 0 finds the detachment required, and announces it.
\<close>

definition race_run :: "RegistryEntry \<Rightarrow> callback_ref option \<Rightarrow> detach_system" where
  "race_run e callback =
     (let s1 = poll_to 0 Processing (incrementProcessCounter e) (detach_init e);
          s2 = poll_to 0 Finishing (snd (decrementProcessCounter (dt_entry s1))) s1;
          s3 = poll_to 1 Processing (incrementProcessCounter (dt_entry s2)) s2;
          s4 = detach_begin 2 callback s3;
          s5 = detach_to 2 NotDetaching (dt_entry s4) s4
      in poll_finish 0 s5)"

lemma race_reachable:
  assumes e: "fresh_entry e"
  shows "detach_reachable {0, 1} e (race_run e callback)"
proof -
  define s1 where "s1 = poll_to 0 Processing (incrementProcessCounter e) (detach_init e)"
  define s2 where "s2 = poll_to 0 Finishing (snd (decrementProcessCounter (dt_entry s1))) s1"
  define s3 where "s3 = poll_to 1 Processing (incrementProcessCounter (dt_entry s2)) s2"
  define s4 where "s4 = detach_begin 2 callback s3"
  define s5 where "s5 = detach_to 2 NotDetaching (dt_entry s4) s4"
  note defs = s1_def s2_def s3_def s4_def s5_def poll_to_def detach_to_def detach_begin_def setDetachmentRequired_def
    detach_init_def incrementProcessCounter_def decrementProcessCounter_def isProcessing_def
  note e = e [unfolded fresh_entry_def]
  note go = detach_reachable.step
  have "detach_step {0, 1} (detach_init e) (poll_to 0 Processing (incrementProcessCounter (dt_entry (detach_init e))) (detach_init e))"
    by (rule step_lookup) (simp_all add: detach_init_def)
  from go [OF detach_reachable.start this] have "detach_reachable {0, 1} e s1" by (simp add: s1_def detach_init_def)
  moreover have "detach_step {0, 1} s1 (poll_to 0 (if fst (decrementProcessCounter (dt_entry s1)) = 0 then Finishing else Away)
      (snd (decrementProcessCounter (dt_entry s1))) s1)"
    by (rule step_decrement) (use e in \<open>simp_all add: defs\<close>)
  then have "detach_step {0, 1} s1 s2" using e by (simp add: defs)
  moreover have "detach_step {0, 1} s2 s3" unfolding s3_def by (rule step_lookup) (use e in \<open>simp_all add: defs\<close>)
  moreover have "detach_step {0, 1} s3 s4" unfolding s4_def by (rule step_detach) (use e in \<open>simp_all add: defs\<close>)
  moreover have "detach_step {0, 1} s4 (detach_to 2 (if isProcessing (dt_entry s4) then NotDetaching else AnnouncingDetached) (dt_entry s4) s4)"
    by (rule step_read) (use e in \<open>simp add: defs\<close>)
  then have "detach_step {0, 1} s4 s5" using e by (simp add: defs)
  moreover have "detach_step {0, 1} s5 (poll_finish 0 s5)" by (rule step_finish) (use e in \<open>simp add: defs\<close>)
  ultimately have "detach_reachable {0, 1} e (poll_finish 0 s5)" using go by metis
  then show ?thesis by (simp add: race_run_def s1_def s2_def s3_def s4_def s5_def Let_def)
qed

text \<open>
  Claim C39. A reactor that is polled by two threads can announce that a socket has been detached, and clear its entry, while a
  thread is announcing events of the socket: a decrement to zero before the socket was taken out does not mean that
  no thread has marked the entry since.
\<close>

theorem detach_race:
  assumes "fresh_entry e"
  shows "\<exists>s. detach_reachable {0, 1} e s \<and> dt_announced s = 1 \<and> dt_poll s 0 = Clearing \<and> dt_poll s 1 = Processing \<and>
    isProcessing (dt_entry s)"
proof -
  have "dt_announced (race_run e None) = 1 \<and> dt_poll (race_run e None) 0 = Clearing \<and> dt_poll (race_run e None) 1 = Processing \<and>
      isProcessing (dt_entry (race_run e None))"
    using assms by (simp add: race_run_def Let_def fresh_entry_def poll_to_def detach_to_def detach_begin_def setDetachmentRequired_def
      detach_init_def incrementProcessCounter_def decrementProcessCounter_def isProcessing_def poll_finish_def announceDetached_def
      count_announced_def)
  then show ?thesis using race_reachable [OF assms] by blast
qed

lemma handle_entry_fresh: "fresh_entry (RegistryEntry_handle h trigger oneShot)"
  by (simp add: fresh_entry_def RegistryEntry_handle_def)

theorem detach_race_witness:
  "\<exists>s. detach_reachable {0, 1} (RegistryEntry_handle 5 e_LEVEL False) s \<and> dt_announced s = 1 \<and> dt_poll s 1 = Processing"
  using detach_race [OF handle_entry_fresh, of 5 e_LEVEL False] by blast

theorem detach_announced_once_witness:
  "\<exists>s. detach_reachable {0, 1} (RegistryEntry_handle 5 e_LEVEL False) s \<and> dt_announced s \<le> 1 \<and> \<not> dt_failed s"
proof -
  let ?e = "RegistryEntry_handle 5 e_LEVEL False"
  have "detach_reachable {0, 1} ?e (race_run ?e None)" by (rule race_reachable [OF handle_entry_fresh])
  then show ?thesis using detach_announced_once [OF _ handle_entry_fresh, of "{0, 1}"] by auto
qed

theorem detach_single_poller_witness:
  "\<exists>s. detach_reachable {0} (RegistryEntry_handle 5 e_LEVEL False) s \<and> dt_announced s = 1 \<and> (\<forall>i. dt_poll s i \<noteq> Processing)"
proof -
  let ?e = "RegistryEntry_handle 5 e_LEVEL False"
  define s1 where "s1 = detach_begin 2 None (detach_init ?e)"
  define s2 where "s2 = detach_to 2 AnnouncingDetached (dt_entry s1) s1"
  note defs = s1_def s2_def detach_to_def detach_begin_def setDetachmentRequired_def detach_init_def RegistryEntry_handle_def
    isProcessing_def
  have "detach_step {0} (detach_init ?e) s1" unfolding s1_def by (rule step_detach) (simp_all add: detach_init_def)
  moreover have "detach_step {0} s1 (detach_to 2 (if isProcessing (dt_entry s1) then NotDetaching else AnnouncingDetached) (dt_entry s1) s1)"
    by (rule step_read) (simp add: defs)
  then have "detach_step {0} s1 s2" by (simp add: defs)
  moreover have "detach_step {0} s2 (detach_announce 2 s2)" by (rule step_announce) (simp add: defs)
  ultimately have reached: "detach_reachable {0} ?e (detach_announce 2 s2)"
    using detach_reachable.start detach_reachable.step by metis
  moreover have "dt_announced (detach_announce 2 s2) = 1"
    by (simp add: defs detach_announce_def announceDetached_def count_announced_def)
  ultimately show ?thesis using detach_single_poller [OF reached handle_entry_fresh] by auto
qed

end
