(* ===== verification/Accept_Queue.thy ===== *)
theory Accept_Queue
  imports Queue_Contract Callback_State
begin

section \<open>The accept queue of a listener\<close>

text \<open>
  This theory models \<open>ntca::AcceptOptions\<close> and \<open>ntcq_accept.h\<close>/\<open>.cpp\<close>:
  \<open>ntcq::AcceptCallbackQueueEntry\<close>, \<open>ntcq::AcceptCallbackQueue\<close>, \<open>ntcq::AcceptQueueEntry\<close> and
  \<open>ntcq::AcceptQueue\<close>. Its classes follow those of the receive queue, but the size of the queue
  is the number of accepted sockets, and a callback has no minimum size to wait for. As there,
  callback entries are kept in a store and the queue holds references.
\<close>

subsection \<open>ntca::AcceptOptions\<close>

record AcceptOptions =
  ao_token :: "u64 option"
  ao_deadline :: "int option"
  ao_recurse :: bool

definition AcceptOptions_init :: AcceptOptions where
  "AcceptOptions_init = \<lparr>ao_token = None, ao_deadline = None, ao_recurse = False\<rparr>"

definition AcceptOptions_reset :: "AcceptOptions \<Rightarrow> AcceptOptions" where
  "AcceptOptions_reset r = r\<lparr>ao_token := None, ao_deadline := None, ao_recurse := False\<rparr>"

definition AcceptOptions_setToken :: "u64 \<Rightarrow> AcceptOptions \<Rightarrow> AcceptOptions" where
  [ntf_defs]: "AcceptOptions_setToken v r = r\<lparr>ao_token := Some v\<rparr>"

definition AcceptOptions_setDeadline :: "int \<Rightarrow> AcceptOptions \<Rightarrow> AcceptOptions" where
  [ntf_defs]: "AcceptOptions_setDeadline v r = r\<lparr>ao_deadline := Some v\<rparr>"

definition AcceptOptions_setRecurse :: "bool \<Rightarrow> AcceptOptions \<Rightarrow> AcceptOptions" where
  [ntf_defs]: "AcceptOptions_setRecurse v r = r\<lparr>ao_recurse := v\<rparr>"

subsection \<open>ntcq::AcceptCallbackQueueEntry\<close>

record AcceptCallbackQueueEntry =
  ac_state :: callback_value
  ac_callback :: "callback_ref option"
  ac_options :: AcceptOptions
  ac_timer :: "timer_ref option"

type_synonym accept_store = "nat \<Rightarrow> AcceptCallbackQueueEntry"

definition AcceptCallbackQueueEntry_init :: AcceptCallbackQueueEntry where
  "AcceptCallbackQueueEntry_init =
     \<lparr>ac_state = CallbackState_init, ac_callback = None, ac_options = AcceptOptions_init,
      ac_timer = None\<rparr>"

text \<open>An operation that may close the timer returns the timers it closed beside the entry.\<close>

definition AcceptCallbackQueueEntry_clear ::
  "AcceptCallbackQueueEntry \<Rightarrow> timer_ref list \<times> AcceptCallbackQueueEntry" where
  "AcceptCallbackQueueEntry_clear e =
     (let e1 = e\<lparr>ac_state := CallbackState_reset (ac_state e), ac_callback := None,
                 ac_options := AcceptOptions_reset (ac_options e)\<rparr> in
      case ac_timer e1 of
        None \<Rightarrow> ([], e1)
      | Some t \<Rightarrow> ([t], e1\<lparr>ac_timer := None\<rparr>))"

definition AcceptCallbackQueueEntry_assign ::
  "callback_ref option \<Rightarrow> AcceptOptions \<Rightarrow> AcceptCallbackQueueEntry \<Rightarrow>
   AcceptCallbackQueueEntry" where
  [ntf_defs]: "AcceptCallbackQueueEntry_assign callback options e =
     e\<lparr>ac_callback := callback, ac_options := options\<rparr>"

definition AcceptCallbackQueueEntry_setTimer ::
  "timer_ref option \<Rightarrow> AcceptCallbackQueueEntry \<Rightarrow> AcceptCallbackQueueEntry" where
  [ntf_defs]: "AcceptCallbackQueueEntry_setTimer t e = e\<lparr>ac_timer := t\<rparr>"

definition AcceptCallbackQueueEntry_closeTimer ::
  "AcceptCallbackQueueEntry \<Rightarrow> timer_ref list \<times> AcceptCallbackQueueEntry" where
  "AcceptCallbackQueueEntry_closeTimer e =
     (case ac_timer e of
        None \<Rightarrow> ([], e)
      | Some t \<Rightarrow> ([t], e\<lparr>ac_timer := None\<rparr>))"

text \<open>
  \<open>dispatch\<close> returns the callback it invokes (or schedules on a strand or executor), the timers
  it closes and the entry.
\<close>

definition AcceptCallbackQueueEntry_dispatch ::
  "AcceptCallbackQueueEntry \<Rightarrow>
   callback_ref option \<times> timer_ref list \<times> AcceptCallbackQueueEntry" where
  "AcceptCallbackQueueEntry_dispatch e =
     (let (finished, v) = CallbackState_finish (ac_state e);
          e1 = e\<lparr>ac_state := v\<rparr> in
      if finished then
        let (ts, e2) =
              (case ac_timer e1 of None \<Rightarrow> ([], e1) | Some t \<Rightarrow> ([t], e1\<lparr>ac_timer := None\<rparr>));
            callback = ac_callback e2;
            e3 = e2\<lparr>ac_callback := None\<rparr>
        in (callback, ts, e3)
      else (None, [], e1))"

subsection \<open>ntcq::AcceptCallbackQueue\<close>

record AcceptCallbackQueue =
  acq_entryList :: "nat list"

definition AcceptCallbackQueue_init :: AcceptCallbackQueue where
  "AcceptCallbackQueue_init = \<lparr>acq_entryList = []\<rparr>"

definition AcceptCallbackQueue_push ::
  "nat \<Rightarrow> AcceptCallbackQueue \<Rightarrow> ntsa_error \<times> AcceptCallbackQueue" where
  "AcceptCallbackQueue_push entry q = (E_OK, q\<lparr>acq_entryList := acq_entryList q @ [entry]\<rparr>)"

text \<open>The result parameter is unchanged where the code does not assign it.\<close>

definition AcceptCallbackQueue_pop ::
  "nat option \<Rightarrow> AcceptCallbackQueue \<Rightarrow> ntsa_error \<times> nat option \<times> AcceptCallbackQueue" where
  "AcceptCallbackQueue_pop result q =
     (case acq_entryList q of
        entry # es \<Rightarrow> (E_OK, Some entry, q\<lparr>acq_entryList := es\<rparr>)
      | [] \<Rightarrow> (E_INVALID, result, q))"

definition AcceptCallbackQueue_remove ::
  "nat \<Rightarrow> AcceptCallbackQueue \<Rightarrow> ntsa_error \<times> AcceptCallbackQueue" where
  "AcceptCallbackQueue_remove entry q =
     (case remove_first (\<lambda>target. entry = target) (acq_entryList q) of
        (Some e, es) \<Rightarrow> (E_OK, q\<lparr>acq_entryList := es\<rparr>)
      | (None, es) \<Rightarrow> (E_EOF, q))"

definition AcceptCallbackQueue_removeToken ::
  "accept_store \<Rightarrow> u64 \<Rightarrow> AcceptCallbackQueue \<Rightarrow>
   ntsa_error \<times> nat option \<times> AcceptCallbackQueue" where
  "AcceptCallbackQueue_removeToken store tok q =
     (case remove_first (\<lambda>entry. ao_token (ac_options (store entry)) = Some tok) (acq_entryList q) of
        (Some e, es) \<Rightarrow> (E_OK, Some e, q\<lparr>acq_entryList := es\<rparr>)
      | (None, es) \<Rightarrow> (E_EOF, None, q))"

definition AcceptCallbackQueue_removeAll ::
  "nat list \<Rightarrow> AcceptCallbackQueue \<Rightarrow> nat list \<times> AcceptCallbackQueue" where
  "AcceptCallbackQueue_removeAll result q =
     (result @ acq_entryList q, q\<lparr>acq_entryList := []\<rparr>)"

definition AcceptCallbackQueue_size :: "AcceptCallbackQueue \<Rightarrow> nat" where
  [ntf_defs]: "AcceptCallbackQueue_size q = length (acq_entryList q)"

definition AcceptCallbackQueue_empty :: "AcceptCallbackQueue \<Rightarrow> bool" where
  [ntf_defs]: "AcceptCallbackQueue_empty q = (acq_entryList q = [])"

subsection \<open>ntcq::AcceptQueueEntry\<close>

type_synonym socket_ref = nat

record AcceptQueueEntry =
  ae_streamSocket :: "socket_ref option"
  ae_timestamp :: int

definition AcceptQueueEntry_init :: AcceptQueueEntry where
  "AcceptQueueEntry_init = \<lparr>ae_streamSocket = None, ae_timestamp = 0\<rparr>"

definition AcceptQueueEntry_setStreamSocket ::
  "socket_ref option \<Rightarrow> AcceptQueueEntry \<Rightarrow> AcceptQueueEntry" where
  [ntf_defs]: "AcceptQueueEntry_setStreamSocket v e = e\<lparr>ae_streamSocket := v\<rparr>"

definition AcceptQueueEntry_setTimestamp :: "int \<Rightarrow> AcceptQueueEntry \<Rightarrow> AcceptQueueEntry" where
  [ntf_defs]: "AcceptQueueEntry_setTimestamp v e = e\<lparr>ae_timestamp := v\<rparr>"

definition AcceptQueueEntry_delay :: "int \<Rightarrow> AcceptQueueEntry \<Rightarrow> int" where
  "AcceptQueueEntry_delay now e =
     (let delayInNanoseconds = now - ae_timestamp e in
      if delayInNanoseconds < 0 then 0 else delayInNanoseconds)"

subsection \<open>ntcq::AcceptQueue\<close>

record AcceptQueue =
  aq_entryList :: "AcceptQueueEntry list"
  aq_size :: nat
  aq_watermarkLow :: nat
  aq_watermarkLowWanted :: bool
  aq_watermarkHigh :: nat
  aq_watermarkHighWanted :: bool
  aq_trigger :: ReactorEventTrigger
  aq_callbackQueue :: AcceptCallbackQueue

definition AcceptQueue_init :: "AcceptQueue" where
  "AcceptQueue_init =
     (let (low, high) = sanitizeIncomingQueueWatermarks (1, 1024) in
      \<lparr>aq_entryList = [], aq_size = 0, aq_watermarkLow = low,
       aq_watermarkLowWanted = True, aq_watermarkHigh = high, aq_watermarkHighWanted = True,
       aq_trigger = e_LEVEL, aq_callbackQueue = AcceptCallbackQueue_init\<rparr>)"

definition AcceptQueue_pushEntry :: "AcceptQueueEntry \<Rightarrow> AcceptQueue \<Rightarrow> bool \<times> AcceptQueue" where
  "AcceptQueue_pushEntry e q =
     (let q1 = q\<lparr>aq_entryList := aq_entryList q @ [e]\<rparr>;
          q2 = q1\<lparr>aq_size := aq_size q1 + 1\<rparr>
      in (length (aq_entryList q2) = 1, q2))"

definition AcceptQueue_frontEntry :: "AcceptQueue \<Rightarrow> AcceptQueueEntry option" where
  "AcceptQueue_frontEntry q = (case aq_entryList q of [] \<Rightarrow> None | e # es \<Rightarrow> Some e)"

text \<open>Popping from an empty list, which the assertion excludes, is undefined: \<^term>\<open>None\<close>.\<close>

definition AcceptQueue_popEntry :: "AcceptQueue \<Rightarrow> (bool \<times> AcceptQueue) option" where
  "AcceptQueue_popEntry q =
     do { bsls_assert (aq_size q \<ge> 1);
          let q1 = q\<lparr>aq_size := aq_size q - 1\<rparr>;
          let q2 = (if aq_trigger q1 = e_EDGE then
                      (if aq_size q1 < aq_watermarkLow q1
                       then q1\<lparr>aq_watermarkLowWanted := True, aq_watermarkHighWanted := True\<rparr>
                       else q1)
                    else q1);
          case aq_entryList q2 of
            [] \<Rightarrow> None
          | e # es \<Rightarrow> Some (es = [], q2\<lparr>aq_entryList := es\<rparr>) }"

definition AcceptQueue_pushCallbackEntry ::
  "nat \<Rightarrow> AcceptQueue \<Rightarrow> ntsa_error \<times> AcceptQueue" where
  "AcceptQueue_pushCallbackEntry entry q =
     (let (err, c) = AcceptCallbackQueue_push entry (aq_callbackQueue q)
      in (err, q\<lparr>aq_callbackQueue := c\<rparr>))"

definition AcceptQueue_popCallbackEntry ::
  "nat option \<Rightarrow> AcceptQueue \<Rightarrow> ntsa_error \<times> nat option \<times> AcceptQueue" where
  "AcceptQueue_popCallbackEntry result q =
     (if aq_entryList q = [] then (E_WOULD_BLOCK, result, q)
      else let (err, r, c) = AcceptCallbackQueue_pop result (aq_callbackQueue q)
           in (err, r, q\<lparr>aq_callbackQueue := c\<rparr>))"

definition AcceptQueue_popAllCallbackEntries ::
  "nat list \<Rightarrow> AcceptQueue \<Rightarrow> nat list \<times> AcceptQueue" where
  "AcceptQueue_popAllCallbackEntries result q =
     (let (r, c) = AcceptCallbackQueue_removeAll result (aq_callbackQueue q)
      in (r, q\<lparr>aq_callbackQueue := c\<rparr>))"

definition AcceptQueue_removeCallbackEntry ::
  "nat \<Rightarrow> AcceptQueue \<Rightarrow> ntsa_error \<times> AcceptQueue" where
  "AcceptQueue_removeCallbackEntry entry q =
     (let (err, c) = AcceptCallbackQueue_remove entry (aq_callbackQueue q)
      in (err, q\<lparr>aq_callbackQueue := c\<rparr>))"

definition AcceptQueue_removeCallbackToken ::
  "accept_store \<Rightarrow> u64 \<Rightarrow> AcceptQueue \<Rightarrow> ntsa_error \<times> nat option \<times> AcceptQueue" where
  "AcceptQueue_removeCallbackToken store tok q =
     (let (err, r, c) = AcceptCallbackQueue_removeToken store tok (aq_callbackQueue q)
      in (err, r, q\<lparr>aq_callbackQueue := c\<rparr>))"

definition AcceptQueue_setTrigger ::
  "ReactorEventTrigger \<Rightarrow> AcceptQueue \<Rightarrow> AcceptQueue" where
  [ntf_defs]: "AcceptQueue_setTrigger v q = q\<lparr>aq_trigger := v, aq_watermarkLowWanted := True\<rparr>"

definition AcceptQueue_setLowWatermark :: "nat \<Rightarrow> AcceptQueue \<Rightarrow> AcceptQueue" where
  "AcceptQueue_setLowWatermark lowWatermark q =
     (let (low, high) = sanitizeIncomingQueueWatermarks (lowWatermark, aq_watermarkHigh q)
      in q\<lparr>aq_watermarkLowWanted := True, aq_watermarkLow := low, aq_watermarkHigh := high\<rparr>)"

definition AcceptQueue_setHighWatermark :: "nat \<Rightarrow> AcceptQueue \<Rightarrow> AcceptQueue" where
  "AcceptQueue_setHighWatermark highWatermark q =
     (let (low, high) = sanitizeIncomingQueueWatermarks (aq_watermarkLow q, highWatermark)
      in q\<lparr>aq_watermarkHighWanted := True, aq_watermarkLow := low, aq_watermarkHigh := high\<rparr>)"

definition AcceptQueue_authorizeLowWatermarkEvent ::
  "AcceptQueue \<Rightarrow> bool \<times> AcceptQueue" where
  "AcceptQueue_authorizeLowWatermarkEvent q =
     (if isIncomingQueueLowWatermarkSatisfied (aq_size q) (aq_watermarkLow q) then
        (if aq_trigger q = e_EDGE then
           (if aq_watermarkLowWanted q then (True, q\<lparr>aq_watermarkLowWanted := False\<rparr>)
            else (False, q))
         else (True, q))
      else (False, q))"

definition AcceptQueue_authorizeHighWatermarkEvent ::
  "AcceptQueue \<Rightarrow> bool \<times> AcceptQueue" where
  "AcceptQueue_authorizeHighWatermarkEvent q =
     (if isIncomingQueueHighWatermarkViolated (aq_size q) (aq_watermarkHigh q) then
        (if aq_trigger q = e_EDGE then
           (if aq_watermarkHighWanted q then (True, q\<lparr>aq_watermarkHighWanted := False\<rparr>)
            else (False, q))
         else (True, q))
      else (False, q))"

definition AcceptQueue_hasEntry :: "AcceptQueue \<Rightarrow> bool" where
  [ntf_defs]: "AcceptQueue_hasEntry q = (aq_entryList q \<noteq> [])"

definition AcceptQueue_hasCallbackEntry :: "AcceptQueue \<Rightarrow> bool" where
  [ntf_defs]: "AcceptQueue_hasCallbackEntry q = (\<not> AcceptCallbackQueue_empty (aq_callbackQueue q))"

definition AcceptQueue_isLowWatermarkSatisfied :: "AcceptQueue \<Rightarrow> bool" where
  [ntf_defs]: "AcceptQueue_isLowWatermarkSatisfied q =
     isIncomingQueueLowWatermarkSatisfied (aq_size q) (aq_watermarkLow q)"

definition AcceptQueue_isHighWatermarkViolated :: "AcceptQueue \<Rightarrow> bool" where
  [ntf_defs]: "AcceptQueue_isHighWatermarkViolated q =
     isIncomingQueueHighWatermarkViolated (aq_size q) (aq_watermarkHigh q)"

definition AcceptQueue_context :: "AcceptQueue \<Rightarrow> nat \<times> nat \<times> nat" where
  [ntf_defs]: "AcceptQueue_context q = (aq_size q, aq_watermarkLow q, aq_watermarkHigh q)"

subsection \<open>The callback queue hands out every entry once\<close>

datatype accept_callback_op =
    PushAccept nat
  | PopAccept
  | RemoveAccept nat
  | RemoveAcceptToken u64
  | RemoveAllAccepts

fun accept_callback_step ::
  "accept_store \<Rightarrow> accept_callback_op \<Rightarrow> AcceptCallbackQueue \<Rightarrow> (nat list \<times> AcceptCallbackQueue) option"
  where
  "accept_callback_step store (PushAccept e) q = Some ([], snd (AcceptCallbackQueue_push e q))"
| "accept_callback_step store PopAccept q =
     (let (err, r, q') = AcceptCallbackQueue_pop None q
      in Some (case r of None \<Rightarrow> [] | Some e \<Rightarrow> [e], q'))"
| "accept_callback_step store (RemoveAccept e) q =
     (let (err, q') = AcceptCallbackQueue_remove e q in Some (if err = E_OK then [e] else [], q'))"
| "accept_callback_step store (RemoveAcceptToken tok) q =
     (let (err, r, q') = AcceptCallbackQueue_removeToken store tok q
      in Some (case r of None \<Rightarrow> [] | Some e \<Rightarrow> [e], q'))"
| "accept_callback_step store RemoveAllAccepts q = Some (AcceptCallbackQueue_removeAll [] q)"

fun accept_callback_pushed :: "accept_callback_op \<Rightarrow> nat list" where
  "accept_callback_pushed (PushAccept e) = [e]"
| "accept_callback_pushed _ = []"

lemma accept_callback_step_laws:
  assumes "accept_callback_step store x q = Some (out, q')"
  shows "mset (acq_entryList q) + mset (accept_callback_pushed x) = mset out + mset (acq_entryList q')
    \<and> subseq (acq_entryList q') (acq_entryList q @ accept_callback_pushed x)"
proof (cases x)
  case (PushAccept e)
  with assms show ?thesis by (auto simp: AcceptCallbackQueue_push_def)
next
  case PopAccept
  with assms show ?thesis
    by (auto simp: AcceptCallbackQueue_pop_def split: list.splits)
next
  case (RemoveAccept e)
  obtain r es where r: "remove_first (\<lambda>target. e = target) (acq_entryList q) = (r, es)" by fastforce
  have "r = Some c \<Longrightarrow> c = e" for c
    using remove_first_Some [of _ _ c es] r by (auto simp: find_Some_iff)
  with assms RemoveAccept r remove_first_mset [OF r] remove_first_subseq [OF r] show ?thesis
    by (auto simp: AcceptCallbackQueue_remove_def split: option.splits)
next
  case (RemoveAcceptToken tok)
  obtain r es where r: "remove_first (\<lambda>entry. ao_token (ac_options (store entry)) = Some tok)
      (acq_entryList q) = (r, es)" by fastforce
  with assms RemoveAcceptToken remove_first_mset [OF r] remove_first_subseq [OF r] show ?thesis
    by (auto simp: AcceptCallbackQueue_removeToken_def split: option.splits)
next
  case RemoveAllAccepts
  with assms show ?thesis by (auto simp: AcceptCallbackQueue_removeAll_def)
qed

interpretation accept_callbacks: callback_queue
  acq_entryList "accept_callback_step store" accept_callback_pushed for store
  by unfold_locales (use accept_callback_step_laws in blast)+

lemma accept_callback_step_total: "\<exists>r. accept_callback_step store x q = Some r"
  by (cases x) (auto split: prod.splits)

lemma accept_callback_run_total: "\<exists>r. run_out (accept_callback_step store) xs q = Some r"
proof (induction xs arbitrary: q)
  case Nil
  then show ?case by simp
next
  case (Cons x xs)
  obtain out q1 where "accept_callback_step store x q = Some (out, q1)"
    using accept_callback_step_total by fastforce
  with Cons.IH [of q1] show ?case by auto
qed

text \<open>
  Every run of pushes, pops, removals by entry or token and removals of all on a fresh
  accept callback queue completes, and the entries handed out together with those still queued
  are exactly those pushed, with multiplicity; those still queued are in the order in which they
  were pushed.
\<close>

lemma accept_callbacks_conserved:
  "\<exists>outs q. run_out (accept_callback_step store) ops AcceptCallbackQueue_init = Some (outs, q) \<and>
     mset (concat (map accept_callback_pushed ops)) = mset outs + mset (acq_entryList q) \<and>
     subseq (acq_entryList q) (concat (map accept_callback_pushed ops))"
proof -
  obtain outs q where run:
      "run_out (accept_callback_step store) ops AcceptCallbackQueue_init = Some (outs, q)"
    using accept_callback_run_total by fastforce
  then show ?thesis
    using accept_callbacks.run_conserve [OF run] accept_callbacks.run_order [OF run]
    by (simp add: AcceptCallbackQueue_init_def)
qed

subsection \<open>The invariant of the accept queue\<close>

definition aq_inv :: "AcceptQueue \<Rightarrow> bool" where
  "aq_inv q \<longleftrightarrow> aq_size q = length (aq_entryList q) \<and>
     1 \<le> aq_watermarkLow q \<and> aq_watermarkLow q \<le> aq_watermarkHigh q"

datatype aq_op =
    APushEntry AcceptQueueEntry
  | APopEntry
  | APushCallback nat
  | APopCallback "nat option"
  | APopAllCallbacks
  | ARemoveCallback nat
  | ARemoveCallbackToken u64
  | ASetTrigger ReactorEventTrigger
  | ASetLowWatermark nat
  | ASetHighWatermark nat
  | AAuthorizeLow
  | AAuthorizeHigh

fun aq_step :: "accept_store \<Rightarrow> aq_op \<Rightarrow> AcceptQueue \<Rightarrow> AcceptQueue option" where
  "aq_step store (APushEntry e) q = Some (snd (AcceptQueue_pushEntry e q))"
| "aq_step store APopEntry q = map_option snd (AcceptQueue_popEntry q)"
| "aq_step store (APushCallback e) q = Some (snd (AcceptQueue_pushCallbackEntry e q))"
| "aq_step store (APopCallback r) q = Some (snd (snd (AcceptQueue_popCallbackEntry r q)))"
| "aq_step store APopAllCallbacks q = Some (snd (AcceptQueue_popAllCallbackEntries [] q))"
| "aq_step store (ARemoveCallback e) q = Some (snd (AcceptQueue_removeCallbackEntry e q))"
| "aq_step store (ARemoveCallbackToken tok) q =
     Some (snd (snd (AcceptQueue_removeCallbackToken store tok q)))"
| "aq_step store (ASetTrigger t) q = Some (AcceptQueue_setTrigger t q)"
| "aq_step store (ASetLowWatermark n) q = Some (AcceptQueue_setLowWatermark n q)"
| "aq_step store (ASetHighWatermark n) q = Some (AcceptQueue_setHighWatermark n q)"
| "aq_step store AAuthorizeLow q = Some (snd (AcceptQueue_authorizeLowWatermarkEvent q))"
| "aq_step store AAuthorizeHigh q = Some (snd (AcceptQueue_authorizeHighWatermarkEvent q))"

fun aq_permitted :: "aq_op \<Rightarrow> AcceptQueue \<Rightarrow> bool" where
  "aq_permitted APopEntry q = (aq_entryList q \<noteq> [])"
| "aq_permitted _ q = True"

lemma aq_inv_init [simp]: "aq_inv AcceptQueue_init"
  by (simp add: aq_inv_def AcceptQueue_init_def sanitizeIncomingQueueWatermarks_def)

lemma accept_pushEntry_ok:
  "aq_inv q \<Longrightarrow> \<exists>q'. AcceptQueue_pushEntry e q = (aq_entryList q = [], q') \<and> aq_inv q' \<and>
     aq_entryList q' = aq_entryList q @ [e]"
  by (simp add: AcceptQueue_pushEntry_def aq_inv_def Let_def)

lemma accept_popEntry_ok:
  assumes "aq_inv q" and "aq_entryList q = e # es"
  shows "\<exists>q'. AcceptQueue_popEntry q = Some (es = [], q') \<and> aq_inv q' \<and> aq_entryList q' = es"
  using assms by (simp add: AcceptQueue_popEntry_def aq_inv_def Let_def)

lemma aq_step_inv:
  assumes "aq_inv q" and "aq_permitted x q"
  shows "\<exists>t. aq_step store x q = Some t \<and> aq_inv t"
proof (cases x)
  case (APushEntry e)
  with accept_pushEntry_ok [OF assms(1), of e] show ?thesis by auto
next
  case APopEntry
  with assms accept_popEntry_ok [OF assms(1)] show ?thesis by (cases "aq_entryList q") auto
next
  case (ASetLowWatermark n)
  with assms(1) sanitizeIncoming_bounds show ?thesis
    by (auto simp: aq_inv_def AcceptQueue_setLowWatermark_def split: prod.splits)
next
  case (ASetHighWatermark n)
  with assms(1) sanitizeIncoming_bounds show ?thesis
    by (auto simp: aq_inv_def AcceptQueue_setHighWatermark_def split: prod.splits)
qed (use assms in \<open>auto simp: aq_inv_def AcceptQueue_pushCallbackEntry_def
      AcceptQueue_popCallbackEntry_def AcceptQueue_popAllCallbackEntries_def
      AcceptQueue_removeCallbackEntry_def AcceptQueue_removeCallbackToken_def
      AcceptQueue_setTrigger_def AcceptQueue_authorizeLowWatermarkEvent_def
      AcceptQueue_authorizeHighWatermarkEvent_def Let_def split: prod.splits\<close>)+

interpretation accept_queue: guarded_component
  AcceptQueue_init aq_permitted "aq_step store" aq_inv for store
  by unfold_locales (auto intro: aq_step_inv)

interpretation accept_fifo: sized_queue
  aq_entryList aq_size "\<lambda>_. 1" "\<lambda>_. True" aq_inv "\<lambda>e q. Some (AcceptQueue_pushEntry e q)"
  AcceptQueue_popEntry
proof (unfold_locales, goal_cases)
  case (1 q)
  then show ?case by (simp add: aq_inv_def sum_list_triv)
next
  case (2 q e)
  then show ?case using accept_pushEntry_ok by auto
next
  case (3 q e es)
  then show ?case by (rule accept_popEntry_ok)
next
  case (4 q)
  then show ?case by (simp add: AcceptQueue_popEntry_def aq_inv_def)
qed

text \<open>
  Claim C34. Every sequence of operations on a fresh accept queue that pops only while the queue
  has entries completes without a failed assertion, and afterwards the cached size is the number
  of accepted sockets in the queue and the watermarks satisfy \<open>1 \<le> low \<le> high\<close>. Every run of
  pushes and pops alone returns the flags and ends with the entries of the same run on a list.
\<close>

theorem accept_queue_run_safe:
  assumes "all_permitted aq_permitted (aq_step store) ops AcceptQueue_init"
    and "run_flags fifo_step fifo_ops [] = Some (flags, es)"
  shows "(\<exists>q. run_steps (aq_step store) ops AcceptQueue_init = Some q \<and>
            aq_size q = length (aq_entryList q) \<and>
            1 \<le> aq_watermarkLow q \<and> aq_watermarkLow q \<le> aq_watermarkHigh q) \<and>
         (\<exists>q. run_flags (queue_step (\<lambda>e q. Some (AcceptQueue_pushEntry e q)) AcceptQueue_popEntry)
            fifo_ops AcceptQueue_init = Some (flags, q) \<and> aq_entryList q = es \<and> aq_size q = length es)"
proof
  show "\<exists>q. run_steps (aq_step store) ops AcceptQueue_init = Some q \<and>
           aq_size q = length (aq_entryList q) \<and>
           1 \<le> aq_watermarkLow q \<and> aq_watermarkLow q \<le> aq_watermarkHigh q"
    using accept_queue.run_init [OF assms(1)] by (auto simp: aq_inv_def)
  have "aq_entryList AcceptQueue_init = []"
    by (simp add: AcceptQueue_init_def sanitizeIncomingQueueWatermarks_def)
  then show "\<exists>q. run_flags (queue_step (\<lambda>e q. Some (AcceptQueue_pushEntry e q)) AcceptQueue_popEntry)
           fifo_ops AcceptQueue_init = Some (flags, q) \<and> aq_entryList q = es \<and> aq_size q = length es"
    using accept_fifo.run_simulates [OF aq_inv_init, of fifo_ops flags es] assms(2)
    by (auto simp: sum_list_triv)
qed

theorem accept_queue_run_safe_witness:
  "(\<exists>q. run_steps (aq_step (\<lambda>_. AcceptCallbackQueueEntry_init))
          [APushEntry AcceptQueueEntry_init, APushCallback 3, APopCallback None, APopEntry]
          AcceptQueue_init = Some q \<and> aq_size q = length (aq_entryList q)) \<and>
   (\<exists>q. run_flags (queue_step (\<lambda>e q. Some (AcceptQueue_pushEntry e q)) AcceptQueue_popEntry)
          [PushOp AcceptQueueEntry_init, PopOp] AcceptQueue_init = Some ([True, True], q) \<and>
        aq_size q = 0)"
  using accept_queue_run_safe [of "\<lambda>_. AcceptCallbackQueueEntry_init"
      "[APushEntry AcceptQueueEntry_init, APushCallback 3, APopCallback None, APopEntry]"
      "[PushOp AcceptQueueEntry_init, PopOp]" "[True, True]" "[]"]
  by (auto simp: AcceptQueue_init_def sanitizeIncomingQueueWatermarks_def AcceptQueue_pushEntry_def
      AcceptQueue_pushCallbackEntry_def AcceptCallbackQueue_push_def AcceptCallbackQueue_init_def
      AcceptQueue_popCallbackEntry_def AcceptCallbackQueue_pop_def AcceptQueue_popEntry_def)

subsection \<open>Edge-triggered watermark events\<close>

fun aq_rearms_low :: "aq_op \<Rightarrow> AcceptQueue \<Rightarrow> bool" where
  "aq_rearms_low (ASetTrigger t) q = True"
| "aq_rearms_low (ASetLowWatermark n) q = True"
| "aq_rearms_low APopEntry q = (aq_size q - 1 < aq_watermarkLow q)"
| "aq_rearms_low _ q = False"

fun aq_rearms_high :: "aq_op \<Rightarrow> AcceptQueue \<Rightarrow> bool" where
  "aq_rearms_high (ASetTrigger t) q = True"
| "aq_rearms_high (ASetHighWatermark n) q = True"
| "aq_rearms_high APopEntry q = (aq_size q - 1 < aq_watermarkLow q)"
| "aq_rearms_high _ q = False"

lemma aq_step_keeps:
  assumes "aq_step store x q = Some t" and "aq_trigger q = e_EDGE"
  shows "(\<not> aq_rearms_low x q \<longrightarrow> \<not> aq_watermarkLowWanted q \<longrightarrow>
           aq_trigger t = e_EDGE \<and> \<not> aq_watermarkLowWanted t) \<and>
         (\<not> aq_rearms_high x q \<longrightarrow> \<not> aq_watermarkHighWanted q \<longrightarrow>
           aq_trigger t = e_EDGE \<and> \<not> aq_watermarkHighWanted t)"
  using assms
  by (cases x)
     (auto simp: AcceptQueue_pushEntry_def AcceptQueue_popEntry_def
        AcceptQueue_pushCallbackEntry_def AcceptQueue_popCallbackEntry_def
        AcceptQueue_popAllCallbackEntries_def AcceptQueue_removeCallbackEntry_def
        AcceptQueue_removeCallbackToken_def AcceptQueue_setTrigger_def
        AcceptQueue_setLowWatermark_def AcceptQueue_setHighWatermark_def
        AcceptQueue_authorizeLowWatermarkEvent_def AcceptQueue_authorizeHighWatermarkEvent_def
        bind_eq_Some_iff Let_def split: prod.splits if_splits list.splits)

interpretation accept_low: edge_gate
  "aq_step store" "\<lambda>q. aq_trigger q = e_EDGE" aq_watermarkLowWanted aq_rearms_low
  AcceptQueue_authorizeLowWatermarkEvent for store
proof (unfold_locales, goal_cases)
  case (3 x q q')
  then show ?case using aq_step_keeps by blast
qed (auto simp: AcceptQueue_authorizeLowWatermarkEvent_def split: if_splits)

interpretation accept_high: edge_gate
  "aq_step store" "\<lambda>q. aq_trigger q = e_EDGE" aq_watermarkHighWanted aq_rearms_high
  AcceptQueue_authorizeHighWatermarkEvent for store
proof (unfold_locales, goal_cases)
  case (3 x q q')
  then show ?case using aq_step_keeps by blast
qed (auto simp: AcceptQueue_authorizeHighWatermarkEvent_def split: if_splits)

lemma accept_queue_announces_once:
  assumes "aq_trigger q = e_EDGE"
  shows "\<not> (AcceptQueue_authorizeLowWatermarkEvent q = (True, q0) \<and>
            all_permitted (\<lambda>x s. \<not> aq_rearms_low x s) (aq_step store) ops q0 \<and>
            run_steps (aq_step store) ops q0 = Some q' \<and>
            fst (AcceptQueue_authorizeLowWatermarkEvent q')) \<and>
         \<not> (AcceptQueue_authorizeHighWatermarkEvent q = (True, q0) \<and>
            all_permitted (\<lambda>x s. \<not> aq_rearms_high x s) (aq_step store) ops q0 \<and>
            run_steps (aq_step store) ops q0 = Some q' \<and>
            fst (AcceptQueue_authorizeHighWatermarkEvent q'))"
  using accept_low.announced_once [OF assms] accept_high.announced_once [OF assms] by blast

end
