(* ===== verification/Decimal_Text.thy ===== *)
theory Decimal_Text
  imports Ntf_Prelude
begin

section \<open>Decimal numbers as text\<close>

text \<open>
  What the text forms of addresses and ports share: decimal digits, the value of a sequence of
  digits read from the left, and the contract of a pair of a printing and a parsing function.
\<close>

definition is_digit :: "char \<Rightarrow> bool" where
  "is_digit c \<longleftrightarrow> 48 \<le> (of_char c :: nat) \<and> (of_char c :: nat) \<le> 57"

definition digit_value :: "char \<Rightarrow> nat" where
  "digit_value c = of_char c - 48"

definition digit_char :: "nat \<Rightarrow> char" where
  "digit_char d = char_of (48 + d)"

text \<open>
  The loops that print a number produce its digits from the last to the first and then reverse
  them.
\<close>

fun digits_rev :: "nat \<Rightarrow> string" where
  "digits_rev n = digit_char (n mod 10) # (if n div 10 = 0 then [] else digits_rev (n div 10))"

declare digits_rev.simps [simp del]

definition decimal :: "nat \<Rightarrow> string" where
  "decimal n = rev (digits_rev n)"

text \<open>The value of digits that continue a number already read.\<close>

definition continue_value :: "nat \<Rightarrow> string \<Rightarrow> nat" where
  "continue_value n cs = foldl (\<lambda>v c. 10 * v + digit_value c) n cs"

lemma continue_value_simps [simp]:
  "continue_value n [] = n"
  "continue_value n (c # cs) = continue_value (10 * n + digit_value c) cs"
  "continue_value n (cs @ [c]) = 10 * continue_value n cs + digit_value c"
  by (simp_all add: continue_value_def)

lemma continue_value_mono: "n \<le> continue_value n cs"
proof (induction cs arbitrary: n)
  case (Cons c cs)
  have "n \<le> 10 * n + digit_value c" by simp
  also have "\<dots> \<le> continue_value (10 * n + digit_value c) cs" by (rule Cons.IH)
  finally show ?case by simp
qed simp

lemma digit_char_props [simp]:
  assumes "d < 10"
  shows "is_digit (digit_char d)" "digit_value (digit_char d) = d"
  using assms by (simp_all add: is_digit_def digit_value_def digit_char_def)

lemma digits_rev_props:
  "list_all is_digit (digits_rev n) \<and> digits_rev n \<noteq> [] \<and> continue_value 0 (rev (digits_rev n)) = n"
proof (induction n rule: digits_rev.induct)
  case (1 n)
  show ?case
  proof (cases "n div 10 = 0")
    case True
    then show ?thesis by (subst (1 2 3) digits_rev.simps) (simp add: continue_value_def)
  next
    case False
    have "continue_value 0 (rev (digits_rev n)) = 10 * (n div 10) + n mod 10"
      using 1 False by (subst digits_rev.simps) simp
    moreover have "list_all is_digit (digits_rev n)"
      using 1 False by (subst digits_rev.simps) simp
    moreover have "digits_rev n \<noteq> []" by (subst digits_rev.simps) simp
    ultimately show ?thesis by simp
  qed
qed

lemma decimal_props [simp]:
  "list_all is_digit (decimal n)" "decimal n \<noteq> []" "continue_value 0 (decimal n) = n"
  using digits_rev_props [of n] by (auto simp: decimal_def)

lemma length_digits_rev:
  "n < 10 ^ Suc k \<Longrightarrow> length (digits_rev n) \<le> Suc k"
proof (induction k arbitrary: n)
  case 0
  then show ?case by (subst digits_rev.simps) simp
next
  case (Suc k)
  show ?case
  proof (cases "n div 10 = 0")
    case True
    then show ?thesis by (subst digits_rev.simps) simp
  next
    case False
    have "n div 10 < 10 ^ Suc k"
      using Suc.prems by (simp add: less_mult_imp_div_less mult.commute)
    then have "length (digits_rev (n div 10)) \<le> Suc k" by (rule Suc.IH)
    then show ?thesis using False by (subst digits_rev.simps) simp
  qed
qed

lemma length_decimal: "n < 10 ^ Suc k \<Longrightarrow> length (decimal n) \<le> Suc k"
  by (simp add: decimal_def length_digits_rev)

subsection \<open>The contract of a text form\<close>

text \<open>
  A value that is printed can be read back; so different values have different texts, and what
  is read from a text that was printed is printed as the same text.
\<close>

locale text_form =
  fixes valid :: "'a \<Rightarrow> bool"
    and print :: "'a \<Rightarrow> string"
    and parse :: "string \<Rightarrow> 'a option"
  assumes parse_print: "valid a \<Longrightarrow> parse (print a) = Some a"
begin

lemma print_inj: "valid a \<Longrightarrow> valid b \<Longrightarrow> print a = print b \<Longrightarrow> a = b"
  using parse_print by (metis option.inject)

lemma reprint: "valid a \<Longrightarrow> parse (print a) = Some b \<Longrightarrow> print b = print a"
  by (simp add: parse_print)

end

end
