(* ===== verification/Ipv4_Address.thy ===== *)
theory Ipv4_Address
  imports Decimal_Text
begin

section \<open>IPv4 addresses\<close>

text \<open>
  This theory models \<open>ntsa::Ipv4Address\<close> (\<open>ntsa_ipv4address.h\<close> and \<open>.cpp\<close>). The representation is the
  array of four bytes in network order; the view of it as a 32-bit integer is that of a
  little-endian machine. Intermediate numbers of the parser are bounded by its own checks far
  below \<open>2\<^sup>6\<^sup>4\<close> and are natural numbers here.
\<close>

record Ipv4Address =
  v4_asBytes :: "u8 list"

definition Ipv4Address_init :: Ipv4Address where
  "Ipv4Address_init = \<lparr>v4_asBytes = [0, 0, 0, 0]\<rparr>"

definition Ipv4Address_ok :: "Ipv4Address \<Rightarrow> bool" where
  "Ipv4Address_ok a \<longleftrightarrow> length (v4_asBytes a) = 4"

definition Ipv4Address_of_value :: "u32 \<Rightarrow> Ipv4Address" where
  "Ipv4Address_of_value v =
     \<lparr>v4_asBytes = map (\<lambda>i. of_nat (unat v div 256 ^ i mod 256)) [0, 1, 2, 3]\<rparr>"

definition Ipv4Address_reset :: "Ipv4Address \<Rightarrow> Ipv4Address" where
  "Ipv4Address_reset a = a\<lparr>v4_asBytes := [0, 0, 0, 0]\<rparr>"

subsection \<open>Parsing and printing\<close>

fun Ipv4Address_parse_loop :: "string \<Rightarrow> u8 list \<Rightarrow> nat \<Rightarrow> nat \<Rightarrow> (u8 list \<times> nat \<times> nat) option" where
  "Ipv4Address_parse_loop [] newValue index numAtIndex = Some (newValue, index, numAtIndex)"
| "Ipv4Address_parse_loop (ch # cs) newValue index numAtIndex =
     (if is_digit ch then
        (let numAtIndex = numAtIndex * 10 + digit_value ch in
         if numAtIndex > 4294967295 then None
         else Ipv4Address_parse_loop cs newValue index numAtIndex)
      else if ch = CHR ''.'' then
        (if numAtIndex > 255 then None
         else
           let newValue = newValue[index := of_nat numAtIndex]; index = index + 1 in
           if index > 3 then None else Ipv4Address_parse_loop cs newValue index 0)
      else None)"

text \<open>\<open>fill k i num\<close>: the last \<open>k\<close> rounds of the loop that spreads the last number over the octets left.\<close>

fun Ipv4Address_fill :: "nat \<Rightarrow> nat \<Rightarrow> nat \<Rightarrow> u8 list \<Rightarrow> u8 list" where
  "Ipv4Address_fill 0 i num newValue = newValue"
| "Ipv4Address_fill (Suc k) i num newValue =
     Ipv4Address_fill k (Suc i) (num div 256) (newValue[3 - i := of_nat (num mod 256)])"

definition Ipv4Address_parse :: "string \<Rightarrow> Ipv4Address \<Rightarrow> bool \<times> Ipv4Address" where
  "Ipv4Address_parse text a =
     (let a = Ipv4Address_reset a in
      case Ipv4Address_parse_loop text [0, 0, 0, 0] 0 0 of
        None \<Rightarrow> (False, a)
      | Some (newValue, index, numAtIndex) \<Rightarrow>
          if index = 3 then
            (if numAtIndex > 255 then (False, a)
             else (True, a\<lparr>v4_asBytes := newValue[index := of_nat numAtIndex]\<rparr>))
          else
            let numOctetsLeft = 4 - index in
            if numAtIndex \<ge> 256 ^ numOctetsLeft then (False, a)
            else (True, a\<lparr>v4_asBytes := Ipv4Address_fill numOctetsLeft 0 numAtIndex newValue\<rparr>))"

text \<open>The text, one byte after the other, with a dot after every byte but the last.\<close>

fun Ipv4Address_format_bytes :: "u8 list \<Rightarrow> string" where
  "Ipv4Address_format_bytes [] = []"
| "Ipv4Address_format_bytes [b] = decimal (unat b)"
| "Ipv4Address_format_bytes (b # bs) =
     decimal (unat b) @ CHR ''.'' # Ipv4Address_format_bytes bs"

definition Ipv4Address_MAX_TEXT_LENGTH :: nat where
  "Ipv4Address_MAX_TEXT_LENGTH = 15"

definition Ipv4Address_format :: "nat \<Rightarrow> Ipv4Address \<Rightarrow> string" where
  "Ipv4Address_format capacity a =
     (if capacity < Ipv4Address_MAX_TEXT_LENGTH + 1 then []
      else Ipv4Address_format_bytes (v4_asBytes a))"

definition Ipv4Address_text :: "Ipv4Address \<Rightarrow> string" where
  "Ipv4Address_text a = Ipv4Address_format (Ipv4Address_MAX_TEXT_LENGTH + 1) a"

subsection \<open>Copying, comparing, classifying\<close>

definition Ipv4Address_copyFrom :: "u8 list \<Rightarrow> Ipv4Address \<Rightarrow> nat \<times> Ipv4Address" where
  "Ipv4Address_copyFrom source a =
     (if length source < 4 then (0, a) else (4, a\<lparr>v4_asBytes := take 4 source\<rparr>))"

definition Ipv4Address_copyTo :: "nat \<Rightarrow> Ipv4Address \<Rightarrow> nat \<times> u8 list" where
  "Ipv4Address_copyTo capacity a = (if capacity < 4 then (0, []) else (4, v4_asBytes a))"

definition Ipv4Address_at :: "nat \<Rightarrow> Ipv4Address \<Rightarrow> u8 option" where
  "Ipv4Address_at index a = do { bsls_assert (index < 4); Some (v4_asBytes a ! index) }"

definition Ipv4Address_value :: "Ipv4Address \<Rightarrow> u32" where
  "Ipv4Address_value a = of_nat (foldr (\<lambda>b n. unat b + 256 * n) (v4_asBytes a) 0)"

definition Ipv4Address_any :: Ipv4Address where
  "Ipv4Address_any = \<lparr>v4_asBytes = [0, 0, 0, 0]\<rparr>"

definition Ipv4Address_loopback :: Ipv4Address where
  "Ipv4Address_loopback = Ipv4Address_of_value 0x0100007F"

definition Ipv4Address_equals :: "Ipv4Address \<Rightarrow> Ipv4Address \<Rightarrow> bool" where
  "Ipv4Address_equals a b \<longleftrightarrow> Ipv4Address_value a = Ipv4Address_value b"

definition Ipv4Address_isAny :: "Ipv4Address \<Rightarrow> bool" where
  "Ipv4Address_isAny a \<longleftrightarrow> Ipv4Address_equals a Ipv4Address_any"

definition Ipv4Address_isLoopback :: "Ipv4Address \<Rightarrow> bool" where
  "Ipv4Address_isLoopback a \<longleftrightarrow> v4_asBytes a ! 0 = 127"

definition Ipv4Address_isPrivate :: "Ipv4Address \<Rightarrow> bool" where
  "Ipv4Address_isPrivate a \<longleftrightarrow>
     (if v4_asBytes a ! 0 = 10 then True
      else if v4_asBytes a ! 0 = 172 \<and> v4_asBytes a ! 1 \<ge> 16 \<and> v4_asBytes a ! 1 \<le> 31 then True
      else if v4_asBytes a ! 0 = 192 \<and> v4_asBytes a ! 1 = 168 then True
      else False)"

definition Ipv4Address_isLinkLocal :: "Ipv4Address \<Rightarrow> bool" where
  "Ipv4Address_isLinkLocal a \<longleftrightarrow> v4_asBytes a ! 0 = 169 \<and> v4_asBytes a ! 1 = 254"

text \<open>\<open>less\<close> compares the integers in host order, that is, the bytes with the first the most significant.\<close>

definition network_value :: "u8 list \<Rightarrow> nat" where
  "network_value bs = foldl (\<lambda>n b. n * 256 + unat b) 0 bs"

definition Ipv4Address_less :: "Ipv4Address \<Rightarrow> Ipv4Address \<Rightarrow> bool" where
  "Ipv4Address_less a b \<longleftrightarrow> network_value (v4_asBytes a) < network_value (v4_asBytes b)"

subsection \<open>What the parser accepts\<close>

text \<open>
  The reference: the text is cut at its dots into at most four parts, each a sequence of digits,
  possibly empty; every part but the last is an octet, and the last part is a number that fills
  the octets that are left.
\<close>

fun parts :: "string \<Rightarrow> string list" where
  "parts [] = [[]]"
| "parts (c # cs) =
     (if c = CHR ''.'' then [] # parts cs
      else case parts cs of [] \<Rightarrow> [[c]] | p # ps \<Rightarrow> (c # p) # ps)"

definition network_bytes :: "nat \<Rightarrow> nat \<Rightarrow> u8 list" where
  "network_bytes k n = map (\<lambda>i. of_nat (n div 256 ^ (k - 1 - i) mod 256)) [0..<k]"

definition ipv4_of_text :: "string \<Rightarrow> u8 list option" where
  "ipv4_of_text text =
     (let ps = parts text; ns = map (continue_value 0) ps; k = 5 - length ps in
      if list_all (list_all is_digit) ps \<and> length ps \<le> 4 \<and>
         list_all (\<lambda>n. n \<le> 255) (butlast ns) \<and> last ns < 256 ^ k
      then Some (map of_nat (butlast ns) @ network_bytes k (last ns))
      else None)"

lemma parts_not_Nil [simp]: "parts cs \<noteq> []"
  by (induction cs) (auto split: list.splits)

lemma parts_cases:
  obtains p ps where "parts cs = p # ps"
  by (cases "parts cs") auto

text \<open>What the loop computes from a state in its middle, in terms of the parts of the rest.\<close>

definition loop_spec :: "string \<Rightarrow> u8 list \<Rightarrow> nat \<Rightarrow> nat \<Rightarrow> (u8 list \<times> nat \<times> nat) option" where
  "loop_spec cs bytes index num =
     (let ps = parts cs; ns = continue_value num (hd ps) # map (continue_value 0) (tl ps) in
      if list_all (list_all is_digit) ps \<and> index + length (tl ps) \<le> 3 \<and>
         list_all (\<lambda>n. n \<le> 255) (butlast ns) \<and> last ns \<le> 4294967295
      then Some (take index bytes @ map of_nat (butlast ns) @ drop (index + length (tl ps)) bytes,
                 index + length (tl ps), last ns)
      else None)"

lemma loop_spec_digit_too_big:
  assumes "num * 10 + digit_value c > 4294967295" "is_digit c"
  shows "loop_spec (c # cs) bytes index num = None"
proof -
  obtain p ps where p: "parts cs = p # ps" by (rule parts_cases)
  have c: "c \<noteq> CHR ''.''" using assms(2) by (auto simp: is_digit_def)
  have "4294967295 < continue_value (10 * num + digit_value c) p"
    using continue_value_mono [of "10 * num + digit_value c" p] assms(1) by (simp add: mult.commute)
  then show ?thesis using c p by (cases ps) (auto simp: loop_spec_def Let_def)
qed

lemma loop_spec_digit:
  assumes "is_digit c"
  shows "loop_spec (c # cs) bytes index num = loop_spec cs bytes index (num * 10 + digit_value c)"
proof -
  obtain p ps where p: "parts cs = p # ps" by (rule parts_cases)
  have c: "c \<noteq> CHR ''.''" using assms by (auto simp: is_digit_def)
  show ?thesis using c p assms by (simp add: loop_spec_def Let_def mult.commute)
qed

lemma loop_spec_dot:
  assumes "length bytes = 4" "num \<le> 255" "index + 1 \<le> 3"
  shows "loop_spec (CHR ''.'' # cs) bytes index num =
    loop_spec cs (bytes[index := of_nat num]) (index + 1) 0"
proof -
  obtain p ps where p: "parts cs = p # ps" by (rule parts_cases)
  have t: "take (Suc index) (bytes[index := of_nat num]) = take index bytes @ [of_nat num]"
    using assms by (simp add: take_Suc_conv_app_nth)
  show ?thesis
    using p t assms by (cases ps rule: rev_cases) (auto simp: loop_spec_def Let_def butlast_append)
qed

lemma parse_loop_spec:
  "length bytes = 4 \<Longrightarrow> index \<le> 3 \<Longrightarrow> num \<le> 4294967295 \<Longrightarrow>
   Ipv4Address_parse_loop cs bytes index num = loop_spec cs bytes index num"
proof (induction cs bytes index num rule: Ipv4Address_parse_loop.induct)
  case (1 bytes index num)
  then show ?case by (simp add: loop_spec_def)
next
  case (2 c cs bytes index num)
  show ?case
  proof (cases "is_digit c")
    case True
    then show ?thesis
      using 2 loop_spec_digit loop_spec_digit_too_big by (auto simp: Let_def not_less)
  next
    case False
    obtain p ps where p: "parts cs = p # ps" by (rule parts_cases)
    show ?thesis
    proof (cases "c = CHR ''.''")
      case True
      then show ?thesis
        using 2 False loop_spec_dot [of bytes num index cs] p
        by (auto simp: Let_def not_less loop_spec_def)
    next
      case no_dot: False
      then show ?thesis using False p by (auto simp: loop_spec_def Let_def)
    qed
  qed
qed

lemma list_of_4:
  assumes "length xs = 4"
  obtains a b c d where "xs = [a, b, c, d]"
  using assms by (auto simp: numeral_eq_Suc length_Suc_conv)

lemma network_bytes_Suc:
  "network_bytes (Suc k) n = network_bytes k (n div 256) @ [of_nat (n mod 256)]"
proof -
  have "n div 256 ^ (k - i) = n div 256 div 256 ^ (k - 1 - i)" if "i < k" for i
  proof -
    have "(256 :: nat) ^ (k - i) = 256 * 256 ^ (k - 1 - i)"
      using that by (simp flip: power_Suc)
    then show ?thesis by (simp only: div_mult2_eq)
  qed
  then show ?thesis by (simp add: network_bytes_def)
qed

lemma length_network_bytes [simp]: "length (network_bytes k n) = k"
  by (simp add: network_bytes_def)

lemma fill_spec:
  "length bytes = 4 \<Longrightarrow> i + k \<le> 4 \<Longrightarrow>
   Ipv4Address_fill k i num bytes =
     take (4 - i - k) bytes @ network_bytes k num @ drop (4 - i) bytes"
proof (induction k arbitrary: i num bytes)
  case 0
  then show ?case by (simp add: network_bytes_def)
next
  case (Suc k)
  define bytes' where "bytes' = bytes[3 - i := of_nat (num mod 256)]"
  have "Suc (3 - i) = 4 - i" "3 - i < 4" using Suc.prems by simp_all
  then have "drop (3 - i) bytes' = of_nat (num mod 256) # drop (4 - i) bytes"
    using Suc.prems Cons_nth_drop_Suc [of "3 - i" bytes'] by (simp add: bytes'_def)
  moreover have "take (3 - i - k) bytes' = take (3 - i - k) bytes"
    by (simp add: bytes'_def)
  moreover have "Ipv4Address_fill (Suc k) i num bytes =
      take (4 - Suc i - k) bytes' @ network_bytes k (num div 256) @ drop (4 - Suc i) bytes'"
    using Suc.IH [of bytes' "Suc i" "num div 256"] Suc.prems by (simp add: bytes'_def)
  ultimately show ?case by (simp add: network_bytes_Suc)
qed

lemma fill_network_bytes:
  assumes "length bytes = 4" "index \<le> 3"
  shows "Ipv4Address_fill (4 - index) 0 num bytes = take index bytes @ network_bytes (4 - index) num"
  using fill_spec [of bytes 0 "4 - index" num] assms by simp

lemma parse_finish:
  assumes "length bytes = 4" "index \<le> 3"
  shows "(if index = 3 then
            (if num > 255 then (False, a) else (True, a\<lparr>v4_asBytes := bytes[index := of_nat num]\<rparr>))
          else
            let numOctetsLeft = 4 - index in
            if num \<ge> 256 ^ numOctetsLeft then (False, a)
            else (True, a\<lparr>v4_asBytes := Ipv4Address_fill numOctetsLeft 0 num bytes\<rparr>)) =
         (if num < 256 ^ (4 - index)
          then (True, a\<lparr>v4_asBytes := take index bytes @ network_bytes (4 - index) num\<rparr>)
          else (False, a))"
proof (cases "index = 3")
  case True
  obtain p q r t where b: "bytes = [p, q, r, t]" using assms(1) by (rule list_of_4)
  show ?thesis using True by (auto simp: b network_bytes_def)
next
  case False
  then show ?thesis using fill_network_bytes [OF assms] by (auto simp: Let_def not_less)
qed

lemma Ipv4Address_parse_eq:
  "Ipv4Address_parse text a =
     (case ipv4_of_text text of
        None \<Rightarrow> (False, Ipv4Address_reset a)
      | Some bytes \<Rightarrow> (True, a\<lparr>v4_asBytes := bytes\<rparr>))"
proof -
  obtain p ps where p: "parts text = p # ps" by (rule parts_cases)
  define ns where "ns = map (continue_value 0) (p # ps)"
  have loop: "Ipv4Address_parse_loop text [0, 0, 0, 0] 0 0 = loop_spec text [0, 0, 0, 0] 0 0"
    by (rule parse_loop_spec) simp_all
  show ?thesis
  proof (cases "list_all (list_all is_digit) (p # ps) \<and> length ps \<le> 3 \<and>
      list_all (\<lambda>n. n \<le> 255) (butlast ns)")
    case False
    then show ?thesis
      using p loop by (auto simp: Ipv4Address_parse_def ipv4_of_text_def loop_spec_def Let_def ns_def)
  next
    case True
    define bytes where "bytes = map of_nat (butlast ns) @ drop (length ps) [0, 0, 0, 0 :: u8]"
    have bytes: "length bytes = 4" "take (length ps) bytes = map of_nat (butlast ns)"
      using True by (simp_all add: bytes_def ns_def)
    have le: "256 ^ (4 - length ps) \<le> (256 :: nat) ^ 4" by (intro power_increasing) auto
    have ls: "loop_spec text [0, 0, 0, 0] 0 0 =
        (if last ns \<le> 4294967295 then Some (bytes, length ps, last ns) else None)"
      using True p by (auto simp: loop_spec_def Let_def ns_def bytes_def)
    have spec: "ipv4_of_text text = (if last ns < 256 ^ (4 - length ps)
        then Some (map of_nat (butlast ns) @ network_bytes (4 - length ps) (last ns)) else None)"
      using True p by (simp add: ipv4_of_text_def Let_def ns_def)
    show ?thesis
    proof (cases "last ns \<le> 4294967295")
      case small: True
      have "Ipv4Address_parse text a =
          (if last ns < 256 ^ (4 - length ps)
           then (True, (Ipv4Address_reset a)\<lparr>v4_asBytes :=
                   take (length ps) bytes @ network_bytes (4 - length ps) (last ns)\<rparr>)
           else (False, Ipv4Address_reset a))"
        unfolding Ipv4Address_parse_def loop ls using small True
        by (simp add: parse_finish [OF bytes(1)])
      then show ?thesis using spec bytes(2) by (simp add: Ipv4Address_reset_def)
    next
      case False
      then have "\<not> last ns < 256 ^ (4 - length ps)" using le by simp
      then show ?thesis
        using spec False unfolding Ipv4Address_parse_def loop ls by simp
    qed
  qed
qed

text \<open>The parts of a printed address are its printed bytes.\<close>

lemma parts_digits:
  "list_all is_digit ds \<Longrightarrow> parts (ds @ CHR ''.'' # cs) = ds # parts cs"
  "list_all is_digit ds \<Longrightarrow> parts ds = [ds]"
  by (induction ds) (auto simp: is_digit_def)

lemma parts_format:
  "bs \<noteq> [] \<Longrightarrow> parts (Ipv4Address_format_bytes bs) = map (\<lambda>b. decimal (unat b)) bs"
  by (induction bs rule: Ipv4Address_format_bytes.induct) (simp_all add: parts_digits)

lemma Ipv4Address_text_parts:
  assumes "Ipv4Address_ok a"
  shows "parts (Ipv4Address_text a) = map (\<lambda>b. decimal (unat b)) (v4_asBytes a)"
proof -
  have "v4_asBytes a \<noteq> []" using assms by (auto simp: Ipv4Address_ok_def)
  then show ?thesis by (simp add: Ipv4Address_text_def Ipv4Address_format_def parts_format)
qed

lemma ipv4_of_text_text:
  assumes "Ipv4Address_ok a"
  shows "ipv4_of_text (Ipv4Address_text a) = Some (v4_asBytes a)"
proof -
  obtain b0 b1 b2 b3 where b: "v4_asBytes a = [b0, b1, b2, b3]"
    using assms list_of_4 unfolding Ipv4Address_ok_def by blast
  have octet: "unat x < 256" "unat x \<le> 255" for x :: u8
    using unsigned_less [of x, where 'a = nat] by simp_all
  have "network_bytes (Suc 0) (unat b3) = [b3]"
    using octet [of b3] by (simp add: network_bytes_def)
  then show ?thesis
    by (simp add: ipv4_of_text_def Let_def Ipv4Address_text_parts [OF assms] b octet)
qed

definition ipv4_parse_option :: "string \<Rightarrow> Ipv4Address option" where
  "ipv4_parse_option text =
     (case Ipv4Address_parse text Ipv4Address_init of (ok, a) \<Rightarrow> if ok then Some a else None)"

lemma Ipv4Address_parse_text:
  "Ipv4Address_ok a \<Longrightarrow> Ipv4Address_parse (Ipv4Address_text a) b = (True, a)"
  by (cases a; cases b) (simp add: Ipv4Address_parse_eq ipv4_of_text_text)

interpretation ipv4_text: text_form Ipv4Address_ok Ipv4Address_text ipv4_parse_option
  by unfold_locales (simp add: ipv4_parse_option_def Ipv4Address_parse_text)

text \<open>
  Claim C33. The parser of IPv4 addresses accepts exactly the texts that the reference accepts and
  gives them the same bytes: one to four parts between dots, each a possibly empty sequence of
  digits, all but the last an octet, the last filling the octets that are left. A text that is
  not accepted leaves the address 0.0.0.0.
\<close>

theorem ipv4_parse_reference:
  "Ipv4Address_parse text a =
     (case ipv4_of_text text of
        None \<Rightarrow> (False, Ipv4Address_reset a)
      | Some bytes \<Rightarrow> (True, a\<lparr>v4_asBytes := bytes\<rparr>))"
  by (rule Ipv4Address_parse_eq)

lemma length_octet: "1 \<le> length (decimal (unat (b :: u8))) \<and> length (decimal (unat b)) \<le> 3"
proof -
  have "unat b < 10 ^ Suc 2" using unsigned_less [of b, where 'a = nat] by simp
  then have "length (decimal (unat b)) \<le> 3" using length_decimal [of "unat b" 2] by simp
  moreover have "length (decimal (unat b)) \<noteq> 0" by simp
  ultimately show ?thesis by linarith
qed

text \<open>
  Claim C32. Every IPv4 address can be read back from its text, whatever the address held before;
  the text has at most fifteen characters, as the size of the buffer assumes, no part of it more
  than three digits, as the scratch buffer assumes, and no other address has the same text.
\<close>

theorem ipv4_text_round_trip:
  assumes "Ipv4Address_ok a"
  shows "Ipv4Address_parse (Ipv4Address_text a) b = (True, a) \<and>
     length (Ipv4Address_text a) \<le> Ipv4Address_MAX_TEXT_LENGTH \<and>
     list_all (\<lambda>p. length p \<le> 3) (parts (Ipv4Address_text a)) \<and>
     (Ipv4Address_ok b \<and> Ipv4Address_text b = Ipv4Address_text a \<longrightarrow> b = a)"
proof -
  obtain b0 b1 b2 b3 where b: "v4_asBytes a = [b0, b1, b2, b3]"
    using assms list_of_4 unfolding Ipv4Address_ok_def by blast
  have "length (Ipv4Address_text a) \<le> Ipv4Address_MAX_TEXT_LENGTH"
    using length_octet [of b0] length_octet [of b1] length_octet [of b2] length_octet [of b3]
    by (simp add: Ipv4Address_text_def Ipv4Address_format_def b Ipv4Address_MAX_TEXT_LENGTH_def)
  moreover have "list_all (\<lambda>p. length p \<le> 3) (parts (Ipv4Address_text a))"
    by (simp add: Ipv4Address_text_parts [OF assms] b length_octet)
  ultimately show ?thesis
    using Ipv4Address_parse_text [OF assms] ipv4_text.print_inj assms by metis
qed

theorem ipv4_text_round_trip_witness:
  "Ipv4Address_parse (Ipv4Address_text \<lparr>v4_asBytes = [192, 168, 0, 17]\<rparr>) Ipv4Address_any =
     (True, \<lparr>v4_asBytes = [192, 168, 0, 17]\<rparr>)"
  using ipv4_text_round_trip [of "\<lparr>v4_asBytes = [192, 168, 0, 17]\<rparr>" Ipv4Address_any]
  by (simp add: Ipv4Address_ok_def)

subsection \<open>Order and classes\<close>

text \<open>
  The order of addresses is that of their numeric value, a strict linear order, and the private
  addresses are those in the three blocks that the comments of the code name.
\<close>

lemma network_value_4: "network_value [a, b, c, d] =
    ((unat a * 256 + unat b) * 256 + unat c) * 256 + unat d"
  by (simp add: network_value_def)

lemma base_256_inj:
  fixes a b c d :: nat
  shows "a * 256 + b = c * 256 + d \<Longrightarrow> b < 256 \<Longrightarrow> d < 256 \<Longrightarrow> a = c \<and> b = d"
proof -
  assume eq: "a * 256 + b = c * 256 + d" "b < 256" "d < 256"
  then have "a = c" by linarith
  then show "a = c \<and> b = d" using eq(1) by simp
qed

lemma Ipv4Address_less_linear:
  assumes "Ipv4Address_ok a" "Ipv4Address_ok b"
  shows "Ipv4Address_less a b \<or> a = b \<or> Ipv4Address_less b a"
proof -
  obtain p q r s where a: "v4_asBytes a = [p, q, r, s]"
    using assms(1) list_of_4 unfolding Ipv4Address_ok_def by blast
  obtain p' q' r' s' where b: "v4_asBytes b = [p', q', r', s']"
    using assms(2) list_of_4 unfolding Ipv4Address_ok_def by blast
  have small: "unat x < 256" for x :: u8 using unsigned_less [of x, where 'a = nat] by simp
  have "[p, q, r, s] = [p', q', r', s']"
    if "network_value [p, q, r, s] = network_value [p', q', r', s']"
  proof -
    note 1 = base_256_inj [OF that [unfolded network_value_4] small small]
    note 2 = base_256_inj [OF conjunct1 [OF 1] small small]
    note 3 = base_256_inj [OF conjunct1 [OF 2] small small]
    show ?thesis using 1 2 3 by (simp add: word_unat_eq_iff)
  qed
  then show ?thesis
    unfolding Ipv4Address_less_def a b by (cases a; cases b) (use a b in force)
qed

text \<open>Empty parts count as zero: the empty text and a lone dot are accepted.\<close>

lemma ipv4_parse_lenient:
  "Ipv4Address_parse [] a = (True, a\<lparr>v4_asBytes := [0, 0, 0, 0]\<rparr>)"
  "Ipv4Address_parse ''.'' a = (True, a\<lparr>v4_asBytes := [0, 0, 0, 0]\<rparr>)"
  by (simp_all add: Ipv4Address_parse_eq ipv4_of_text_def network_bytes_def upt_rec)

end
