(* ===== verification/Port_Util.thy ===== *)
theory Port_Util
  imports Decimal_Text
begin

section \<open>Ports\<close>

text \<open>
  This theory models \<open>ntsa::PortUtil\<close> (\<open>ntsa_port.cpp\<close>). The parser reads characters through a
  pointer: the memory it may read is a list that starts at the source, and a read behind its end
  is \<^term>\<open>None\<close>. The character classes of \<open>bdlb::CharType\<close> are parameters; \<open>char_type_ok\<close> is what
  its documentation says of them.
\<close>

type_synonym port = u16

definition char_type_ok :: "(char \<Rightarrow> bool) \<Rightarrow> (char \<Rightarrow> bool) \<Rightarrow> bool" where
  "char_type_ok isSpace isDigit \<longleftrightarrow>
     (\<forall>c. isSpace c \<longleftrightarrow> of_char c \<in> {9, 10, 11, 12, 13, 32 :: nat}) \<and>
     (\<forall>c. isDigit c \<longleftrightarrow> is_digit c)"

subsection \<open>Printing\<close>

text \<open>
  The loop writes digits, the last first, while there is room; the flag says whether it ended
  because no digit is left. Only then the digits are reversed.
\<close>

fun PortUtil_format_loop :: "nat \<Rightarrow> nat \<Rightarrow> string \<times> bool" where
  "PortUtil_format_loop 0 value = ([], False)"
| "PortUtil_format_loop (Suc room) value =
     (let d = digit_char (value mod 10) in
      if value div 10 = 0 then ([d], True)
      else let (ds, finished) = PortUtil_format_loop room (value div 10) in (d # ds, finished))"

definition PortUtil_format :: "nat \<Rightarrow> port \<Rightarrow> string" where
  "PortUtil_format capacity port =
     (let (ds, finished) = PortUtil_format_loop capacity (unat port) in
      if finished then rev ds else ds)"

subsection \<open>Parsing\<close>

text \<open>
  \<open>c\<close> is the character last read, the list is what the pointer points to and \<open>n\<close> the number of
  characters read.
\<close>

fun PortUtil_skip :: "(char \<Rightarrow> bool) \<Rightarrow> char \<Rightarrow> char list \<Rightarrow> nat \<Rightarrow> (char \<times> char list \<times> nat) option" where
  "PortUtil_skip isSpace c [] n = (if isSpace c then None else Some (c, [], n))"
| "PortUtil_skip isSpace c (x # xs) n =
     (if isSpace c then PortUtil_skip isSpace x xs (n + 1) else Some (c, x # xs, n))"

fun PortUtil_parse_loop ::
  "(char \<Rightarrow> bool) \<Rightarrow> nat \<Rightarrow> char \<Rightarrow> char list \<Rightarrow> nat \<Rightarrow> u64 \<Rightarrow> u64 option option" where
  "PortUtil_parse_loop isDigit e c [] n value =
     (if n = e then Some (Some value) else if \<not> isDigit c then Some None else None)"
| "PortUtil_parse_loop isDigit e c (x # xs) n value =
     (if n = e then Some (Some value)
      else if \<not> isDigit c then Some None
      else PortUtil_parse_loop isDigit e x xs (n + 1) (value * 10 + of_nat (digit_value c)))"

definition PortUtil_parse ::
  "(char \<Rightarrow> bool) \<Rightarrow> (char \<Rightarrow> bool) \<Rightarrow> char list \<Rightarrow> nat \<Rightarrow> port option option" where
  "PortUtil_parse isSpace isDigit source sz =
     (case source of
        [] \<Rightarrow> None
      | s # ss \<Rightarrow>
          if of_char s = (0 :: nat) then Some None
          else
            do { (c, p, n) \<leftarrow> PortUtil_skip isSpace s ss 1;
                 if c = CHR ''-'' then Some None
                 else
                   do { (c, p, n) \<leftarrow>
                          (if c = CHR ''+''
                           then (case p of [] \<Rightarrow> None | x # xs \<Rightarrow> Some (x, xs, n + 1))
                           else Some (c, p, n));
                        r \<leftarrow> PortUtil_parse_loop isDigit (sz + 1) c p n 0;
                        Some (case r of
                                None \<Rightarrow> None
                              | Some value \<Rightarrow> if value > 65535 then None else Some (ucast value)) } })"

subsection \<open>Round trip and wrap-around\<close>

lemma format_loop_digits:
  "v < 10 ^ room \<Longrightarrow> room > 0 \<Longrightarrow> PortUtil_format_loop room v = (digits_rev v, True)"
proof (induction room arbitrary: v)
  case (Suc room)
  show ?case
  proof (cases "v div 10 = 0")
    case True
    then show ?thesis by (subst digits_rev.simps) simp
  next
    case False
    have small: "v div 10 < 10 ^ room"
      using Suc.prems(1) by (simp add: less_mult_imp_div_less mult.commute)
    then have "room > 0" using False by (cases room) auto
    then have "PortUtil_format_loop room (v div 10) = (digits_rev (v div 10), True)"
      using Suc.IH small by blast
    then show ?thesis using False by (subst digits_rev.simps) simp
  qed
qed simp

lemma PortUtil_format_decimal: "capacity \<ge> 5 \<Longrightarrow> PortUtil_format capacity port = decimal (unat port)"
proof -
  assume "capacity \<ge> 5"
  then have "(10 :: nat) ^ 5 \<le> 10 ^ capacity" by (intro power_increasing) auto
  moreover have "unat port < 65536" using unsigned_less [of port, where 'a = nat] by simp
  ultimately show ?thesis
    using format_loop_digits [of "unat port" capacity] \<open>capacity \<ge> 5\<close>
    by (simp add: PortUtil_format_def decimal_def)
qed

lemma parse_loop_digits:
  assumes "\<And>c. isDigit c \<longleftrightarrow> is_digit c"
  shows "list_all is_digit (c # ds) \<Longrightarrow> n + length ds + 1 = e \<Longrightarrow>
    PortUtil_parse_loop isDigit e c (ds @ [z]) n (of_nat v) =
      Some (Some (of_nat (continue_value v (c # ds))))"
proof (induction ds arbitrary: c n v)
  case Nil
  then show ?case using assms by (simp add: mult.commute)
next
  case (Cons d ds)
  have "PortUtil_parse_loop isDigit e c ((d # ds) @ [z]) n (of_nat v) =
      PortUtil_parse_loop isDigit e d (ds @ [z]) (n + 1) (of_nat (10 * v + digit_value c))"
    using Cons.prems assms by (simp add: mult.commute)
  also have "\<dots> = Some (Some (of_nat (continue_value (10 * v + digit_value c) (d # ds))))"
    using Cons.prems by (intro Cons.IH) simp_all
  finally show ?case by simp
qed

text \<open>
  What the parser makes of a sequence of digits with a further character behind its end: the
  value modulo \<open>2\<^sup>6\<^sup>4\<close>, if that is a port.
\<close>

lemma parse_digits:
  assumes ok: "char_type_ok isSpace isDigit" and ds: "list_all is_digit ds" "ds \<noteq> []"
  shows "PortUtil_parse isSpace isDigit (ds @ [z]) (length ds) =
    Some (if continue_value 0 ds mod 2 ^ 64 \<le> 65535
          then Some (of_nat (continue_value 0 ds mod 2 ^ 64)) else None)"
proof -
  obtain d rest where d: "ds = d # rest" using ds(2) by (cases ds) auto
  define v where "v = continue_value 0 ds"
  have dig: "is_digit d" using ds(1) by (simp add: d)
  have sp: "\<not> isSpace d" "of_char d \<noteq> (0 :: nat)" "d \<noteq> CHR ''-''" "d \<noteq> CHR ''+''"
    using ok dig by (auto simp: char_type_ok_def is_digit_def)
  have skip: "PortUtil_skip isSpace d (rest @ [z]) 1 = Some (d, rest @ [z], 1)"
    using sp(1) by (cases "rest @ [z]") simp_all
  have loop: "PortUtil_parse_loop isDigit (Suc (length ds)) d (rest @ [z]) (Suc 0) 0 =
      Some (Some (of_nat v))"
    using parse_loop_digits [of isDigit d rest 1 "Suc (length ds)" z 0] ok ds(1)
    by (simp add: d v_def char_type_ok_def)
  have u: "unat (of_nat v :: u64) = v mod 2 ^ 64" by (simp add: unat_of_nat)
  have gt: "(of_nat v :: u64) > 65535 \<longleftrightarrow> \<not> v mod 2 ^ 64 \<le> 65535"
    unfolding word_less_nat_alt u by (simp add: not_le)
  have uc: "(ucast (of_nat v :: u64) :: port) = of_nat (v mod 2 ^ 64)"
    by (simp add: unsigned_of_nat take_bit_eq_mod)
  show ?thesis
    unfolding v_def [symmetric]
    using sp skip loop
    by (simp add: PortUtil_parse_def d gt uc del: unsigned_of_nat)
qed

lemma parse_loop_unterminated:
  assumes "\<And>c. isDigit c \<longleftrightarrow> is_digit c"
  shows "list_all is_digit (c # ds) \<Longrightarrow> n + length ds < e \<Longrightarrow>
    PortUtil_parse_loop isDigit e c ds n v = None"
proof (induction ds arbitrary: c n v)
  case (Cons d ds)
  then show ?case using assms by (simp add: less_imp_neq)
qed (use assms in simp)

lemma parse_digits_unterminated:
  assumes ok: "char_type_ok isSpace isDigit" and ds: "list_all is_digit ds" "ds \<noteq> []"
  shows "PortUtil_parse isSpace isDigit ds (length ds) = None"
proof -
  obtain d rest where d: "ds = d # rest" using ds(2) by (cases ds) auto
  have dig: "is_digit d" using ds(1) by (simp add: d)
  have sp: "\<not> isSpace d" "of_char d \<noteq> (0 :: nat)" "d \<noteq> CHR ''-''" "d \<noteq> CHR ''+''"
    using ok dig by (auto simp: char_type_ok_def is_digit_def)
  have skip: "PortUtil_skip isSpace d rest 1 = Some (d, rest, 1)"
    using sp(1) by (cases rest) simp_all
  have "PortUtil_parse_loop isDigit (Suc (length ds)) d rest (Suc 0) 0 = None"
    using ok ds(1) by (intro parse_loop_unterminated) (simp_all add: d char_type_ok_def)
  then show ?thesis using sp skip by (simp add: PortUtil_parse_def d)
qed

lemma parse_format:
  assumes "char_type_ok isSpace isDigit" "capacity \<ge> 5"
  shows "PortUtil_parse isSpace isDigit (PortUtil_format capacity port @ [z])
           (length (PortUtil_format capacity port)) = Some (Some port)"
proof -
  have "unat port \<le> 65535" using unsigned_less [of port, where 'a = nat] by simp
  then show ?thesis
    using parse_digits [OF assms(1), of "decimal (unat port)" z] assms(2)
    by (simp add: PortUtil_format_decimal)
qed

definition ascii_space :: "char \<Rightarrow> bool" where
  "ascii_space c \<longleftrightarrow> of_char c \<in> {9, 10, 11, 12, 13, 32 :: nat}"

lemma ascii_ok [simp]: "char_type_ok ascii_space is_digit"
  by (simp add: char_type_ok_def ascii_space_def)

interpretation port_text: text_form "\<lambda>_. True" "PortUtil_format 5"
  "\<lambda>text. case PortUtil_parse ascii_space is_digit (text @ [CHR 0x00]) (length text) of
            Some r \<Rightarrow> r | None \<Rightarrow> None"
  by unfold_locales (simp add: parse_format)

text \<open>
  A port survives printing and parsing: the text of every port, printed into a buffer of
  at least five characters and followed by any character, is parsed as that port; it has at most
  five characters, and no other port has the same text.
\<close>

theorem port_round_trip:
  assumes "char_type_ok isSpace isDigit" "capacity \<ge> 5"
  shows "PortUtil_parse isSpace isDigit (PortUtil_format capacity port @ [z])
           (length (PortUtil_format capacity port)) = Some (Some port) \<and>
         length (PortUtil_format capacity port) \<le> 5 \<and>
         (PortUtil_format capacity port = PortUtil_format capacity other \<longrightarrow> port = other)"
proof -
  have "unat port < 10 ^ Suc 4" using unsigned_less [of port, where 'a = nat] by simp
  then have "length (PortUtil_format capacity port) \<le> 5"
    using length_decimal [of "unat port" 4] assms(2) by (simp add: PortUtil_format_decimal)
  moreover have "PortUtil_format capacity p = PortUtil_format 5 p" for p
    using assms(2) by (simp add: PortUtil_format_decimal)
  ultimately show ?thesis using parse_format [OF assms] port_text.print_inj by metis
qed

theorem port_round_trip_witness:
  "PortUtil_parse ascii_space is_digit (PortUtil_format 5 8080 @ [CHR 0x00])
     (length (PortUtil_format 5 8080)) = Some (Some 8080)"
  using port_round_trip [OF ascii_ok, of 5 8080 "CHR 0x00"] by simp

text \<open>
  The parser accepts numbers that are no ports: the value is accumulated modulo \<open>2\<^sup>6\<^sup>4\<close> and
  only compared with the largest port at the end, so that the decimal text of \<open>2\<^sup>6\<^sup>4 + p\<close> is parsed
  as the port \<open>p\<close>. And it reads the character behind the end of the text, which the caller need
  not own.
\<close>

theorem port_parse_wraps:
  assumes "char_type_ok isSpace isDigit"
  shows "PortUtil_parse isSpace isDigit (decimal (2 ^ 64 + unat port) @ [z])
           (length (decimal (2 ^ 64 + unat port))) = Some (Some port) \<and>
         PortUtil_parse isSpace isDigit (decimal (unat port)) (length (decimal (unat port))) = None"
proof -
  have p: "unat port \<le> 65535" using unsigned_less [of port, where 'a = nat] by simp
  then have "(2 ^ 64 + unat port) mod 2 ^ 64 = unat port" by simp
  then show ?thesis
    using parse_digits [OF assms, of "decimal (2 ^ 64 + unat port)" z] p
      parse_digits_unterminated [OF assms, of "decimal (unat port)"] by simp
qed

theorem port_parse_wraps_witness:
  "PortUtil_parse ascii_space is_digit (decimal (2 ^ 64 + unat (80 :: port)) @ [CHR 0x00])
     (length (decimal (2 ^ 64 + unat (80 :: port)))) = Some (Some 80)"
  using port_parse_wraps [OF ascii_ok, of 80 "CHR 0x00"] by blast

text \<open>A lone sign and a lone space, with a null character behind, are parsed as port 0.\<close>

lemma port_parse_signs:
  "PortUtil_parse ascii_space is_digit [CHR ''+'', CHR 0x00] 1 = Some (Some 0)"
  "PortUtil_parse ascii_space is_digit [CHR '' '', CHR 0x00] 1 = Some (Some 0)"
  by (simp_all add: PortUtil_parse_def ascii_space_def)

end
