(* ===== verification/Spec2Isabelle.thy ===== *)
theory Spec2Isabelle
  imports Stream_Duplex Dns_Message Chronology_Runs Strand Registry_Detach Accept_Queue Callback_State Ipv4_Address Port_Util
begin

text \<open>
  A verification development for the Network Transport Framework (NTF): the queues, the state
  machines and the rate limiting of its sockets, the reactor stream socket that ties them together,
  the timers, strands and socket registry of its drivers, the codec of its DNS client, and the text forms of addresses and ports.

  \<^bold>\<open>The program.\<close> NTF has two groups of packages. \<open>src/groups/nts\<close> wraps the operating system: error
  codes, buffers and data containers, addresses (\<open>ntsa\<close>) and system calls (\<open>ntsu\<close>).
  \<open>src/groups/ntc\<close> builds asynchronous sockets on it: state and policies shared by all
  sockets (\<open>ntcs\<close>), queues of data and of callbacks (\<open>ntcq\<close>), option and event types (\<open>ntca\<close>), sockets
  driven by a reactor (\<open>ntcr\<close>), and a DNS client (\<open>ntcdns\<close>). A user calls a socket, the reactor
  reports that it is readable or writable or has failed, timers kept by a chronology report deadlines and the end of
  throttling; the socket moves data between its queues and the operating system and announces
  results by callbacks.

  \<^bold>\<open>The theories\<close> and the code they model:

  \<^item> \<open>Ntf_Prelude\<close>: \<open>ntsa::Error\<close>, machine integers, runs of operations, and the locales
    \<open>guarded_component\<close> and \<open>total_component\<close>: operations that keep an invariant and fail no assertion
    while it holds.
  \<^item> \<open>Shutdown_State\<close>, \<open>Flow_Control\<close>, \<open>Socket_State\<close>, \<open>Callback_State\<close>: \<open>ntcs::ShutdownState\<close> and
    \<open>ShutdownContext\<close>, \<open>FlowControlState\<close> and \<open>FlowControlContext\<close>, \<open>OpenState\<close> and \<open>DetachState\<close>,
    \<open>CallbackState\<close>. The last is an atomic integer shared by threads; its operations are a step relation
    with one step per atomic access.
  \<^item> \<open>Buffer_Data\<close>: \<open>ntsa_buffer.h\<close> and the parts of \<open>ntsa_data.cpp\<close> that the send queue uses.
  \<^item> \<open>Queue_Contract\<close>: \<open>ntcs::WatermarkUtil\<close>, and the contracts of queues as locales: \<open>sized_queue\<close> (the
    cached size is the sum of the entries, and the queue is first-in first-out), \<open>edge_gate\<close> (a
    watermark event is announced once per crossing), \<open>conserving_queue\<close> and \<open>callback_queue\<close> (no
    entry is lost or duplicated).
  \<^item> \<open>Send_Queue\<close>, \<open>Receive_Queue\<close>, \<open>Accept_Queue\<close>, \<open>Zero_Copy\<close>: \<open>ntcq_send\<close>, \<open>ntcq_receive\<close>,
    \<open>ntcq_accept\<close> and \<open>ntcq_zerocopy\<close>, with the options they read.
  \<^item> \<open>Double_Rounding\<close>, \<open>Leaky_Bucket\<close>, \<open>Rate_Limiter\<close>: \<open>ntcs_leakybucket\<close> and \<open>ntcs_ratelimiter\<close>, with
    the rounding of their computations in \<open>double\<close>.
  \<^item> \<open>Stream_Socket\<close>, \<open>Stream_Send\<close>, \<open>Stream_Receive\<close>: \<open>ntcr::StreamSocket\<close>
    (\<open>ntcr_streamsocket.cpp\<close>), its flow control and shutdown, its send path and its receive path,
    with \<open>ntcs::BlobBufferUtil\<close>. \<open>Stream_Shutdown\<close>, \<open>Stream_Invariant\<close>, \<open>Stream_Delivery\<close> and
    \<open>Stream_Runs\<close> prove the properties of the send path, \<open>Stream_Frames\<close> and \<open>Stream_Reception\<close> those of the
    receive path, and \<open>Stream_Duplex\<close> composes both.
  \<^item> \<open>Skip_List\<close>, \<open>Timer_Options\<close>, \<open>Chronology\<close>: \<open>ntcs::SkipList\<close>, \<open>ntsa::Backoff\<close> with the options and
    events of timers, and \<open>ntcs::Chronology\<close> with its timers and its deferred functions. \<open>Chronology_Announce\<close>
    verifies the loop over the timers that are due, \<open>Chronology_Safety\<close> the invariant under the operations
    of users, and \<open>Chronology_Runs\<close> composes both; the skip list meets its specification, a sorted list, through
    the locale \<open>refined_machine\<close>.
  \<^item> \<open>Strand\<close>: \<open>ntcs::Strand\<close>, as a step relation of threads between the sections under its lock.
  \<^item> \<open>Interest\<close>, \<open>Registry\<close>, \<open>Registry_Detach\<close>: \<open>ntcs::Interest\<close>, \<open>ntcs::RegistryEntry\<close> and \<open>ntcs::RegistryEntryCatalog\<close>,
    and the protocol of detachment between the threads that poll a reactor (\<open>ntco_epoll.cpp\<close>) and a thread that detaches
    a socket.
  \<^item> \<open>Dns_Vocabulary\<close>, \<open>Dns_Codec\<close>, \<open>Dns_Record\<close>, \<open>Dns_Message\<close>: \<open>ntcdns_vocabulary\<close> and
    \<open>ntcdns_protocol\<close>; \<open>Dns_Names\<close>, \<open>Dns_Image\<close> and \<open>Dns_Record_Image\<close> hold the specification of names
    and the images of values, with the contract of an encoding and its decoding as the locale
    \<open>codec\<close>.
  \<^item> \<open>Decimal_Text\<close>, \<open>Ipv4_Address\<close>, \<open>Port_Util\<close>: \<open>ntsa::Ipv4Address\<close> and \<open>ntsa::PortUtil\<close>, with the
    contract of a printing and a parsing function as the locale \<open>text_form\<close>.

  \<^bold>\<open>What is shown.\<close>

  \<^item> Stream socket (\<open>Stream_Duplex\<close>): in any interleaving of sends, receives, readable and writable events,
    errors, notifications, timers, cancellations, changes of settings, shutdowns and closes of a
    connected socket without rate limiters, no assertion of the socket or its queues fails and every loop ends;
    the bytes delivered followed by those queued are the bytes read, in order; the
    bytes taken by the operating system followed by the bytes queued are the bytes of the messages
    accepted, in order, while sending is not shut down and unless a send is cancelled or its deadline expires; every callback of a
    receive is dispatched exactly once or still held, and so is every callback of a send, where those given with
    \<open>ntsa::Data\<close> come with data below the zero-copy threshold; unless receives are cancelled or expire, the first receiver that
    waits asks for more bytes than are queued; a writable socket that sends greedily empties its queue.
  \<^item> Queues and states: each keeps its invariant in every run, refines a list, loses no callback, and
    announces its events once; a shutdown is announced once for each direction; the zero-copy
    generator counts as the operating system does, across the wrap-around of 32 bits, where reports arrive in order, and a send made on a fresh
    queue before any report completes with the report of its last call; matching a report against the waiting entries only up to the first
    that it does not touch loses nothing; a callback is run by at most one thread.
  \<^item> Rate limiter, for rates of at most \<open>2 ^ 23\<close> units per second: what passes in any time is bounded by the capacity, one portion and the drain rate, updates can
    be split, and the time announced until the next submission suffices.
  \<^item> Timers: the skip list does what a sorted list does, whatever the levels drawn for its nodes; in any run of timer operations,
    deferred functions and announcements, with callbacks that act on the chronology again, no
    timer and no node of the map is used after its release and the references are counted exactly; an
    announcement takes exactly the timers that are due, in order; and a driver never sleeps
    past a deadline.
  \<^item> Strands: at most one thread is in a function of a strand, functions begin in the order of their submission, none is
    lost or executed twice, and a strand comes to rest after a bounded number of steps.
  \<^item> Registry: the catalog is a map from handles to entries with its size; in one-shot mode an event is
    announced at most as often as it is shown; a detachment is announced exactly once and is not lost, and, with one
    polling thread, never while events of the socket are announced.
  \<^item> DNS codec: decoding arbitrary bytes returns, never reads outside them, gives a well-formed message
    and refines the specification of names and references; encoding never writes outside its
    memory; what is encoded is decoded again; each record decoded has the data of its type, and none exactly where the message says so.
  \<^item> Text forms: addresses and ports are read back from what is printed, and the parser of addresses agrees with a
    reference.
  \<^item> Behaviour that departs from what the code means to do is proved as such, with a concrete
    instance: messages truncated by a cancellation, callbacks held twice or never dispatched,
    deadlines lost when a timer is rescheduled by the callback of another, handles left dangling by
    \<open>clear\<close>, a detachment announced while a second polling thread announces events, a socket that sends empty buffers forever, failures hidden by the DNS decoder, and others.

  \<^bold>\<open>How the code is modelled.\<close>

  \<^item> A failed \<open>BSLS_ASSERT\<close>, or an access outside an array or a memory, is the result \<open>None\<close>; that
    no such result occurs is part of the theorems. A run is permitted (\<open>all_permitted\<close>) when each operation meets what its
    caller owes in the state where it begins; that it returns is not assumed. An error that the code returns is a value
    (\<open>ntsa_error\<close>, or the left of a sum).
  \<^item> Integers that wrap around are words of their width; sizes and counts that the code bounds by the
    memory are natural numbers. The invariant of a leaky bucket bounds its rate by
    \<open>2 ^ 23\<close> units per second, up to which the quotients it computes in \<open>double\<close> are rounded by less than a
    nanosecond; \<open>leaky_bucket_high_rate_aborts\<close> shows that without a bound an assertion can fail.
  \<^item> An operation of a socket takes the state and returns it with a log of what it announced, in
    order. The log is not a field of the code. An operation of a stream socket is one step, also where the code
    dispatches a callback or an announcement with \<open>defer\<close> false on the calling thread, and therefore unlocks its mutex, calls the
    callback and locks the mutex again before it goes on (\<open>ntci_callback.h\<close>): the model logs the callback at this point
    (\<open>emit\<close>, \<open>announce\<close>, \<open>dispatch_receive\<close>, \<open>complete_sends\<close>), and what the callback or another thread does to the socket in
    the gap is an operation after the one that dispatched it. Deferred callbacks, and those of a strand that the thread is not on, run as in the model.
  \<^item> The answers of the operating system to the system calls of one event are an argument of the
    operation, a list. The loops over system calls consume it and stop on an answer that makes the
    code stop, so that no fuel is needed; the theorems assume that the list is long enough for the
    bytes that are pending.
  \<^item> Parameters stand for code outside the repository, with their documented behaviour as named
    hypotheses: \<open>bdlbb::Blob\<close> and its utilities (\<open>blob_library_ok\<close>, \<open>blob_content_ok\<close>,
    \<open>incoming_ok\<close>), \<open>bsls::TimeInterval\<close> (\<open>time_library_ok\<close>, \<open>interval_library_ok\<close>), \<open>bdlb::CharType\<close> (\<open>char_type_ok\<close>), the integers in network
    order and the tokenizer of \<open>bdlb\<close> (\<open>dns_library_ok\<close>). The witnesses instantiate them.
  \<^item> \<open>buffers_filled\<close> is not a promise of a library but a restriction on the application: a socket that sends greedily is
    given no blob with an empty buffer. Without it the loop over system calls need not end, as \<open>greedy_socket_spins\<close> shows.
  \<^item> Termination of the loops is by measures: the bytes left for decoding and the depth of
    references (at most 32 below the first) for names, the entries of the queues elsewhere. The loops over the map of
    timers and over random bits are partial functions; that they return is part of the theorems on timers.
  \<^item> What a user does in a callback is a list of operations that the environment gives for each announcement. The
    level of a node of the skip list is an argument of its insertion; a pointer to a released node or
    timer is one to an absent entry, so that its use is \<open>None\<close>, also where the code may return \<open>e_NOT_FOUND\<close> from released memory (\<open>SkipList_updateR\<close>).
  \<^item> The step relation of detachments allows the steps of an entry at any time and from any thread, more than the code does; that events are
    being announced is that a polling thread is at \<open>Processing\<close>.

  \<^bold>\<open>Not modelled.\<close> Locks and the executor, except in the callback state, the strands and the protocol of
  detachment, which interleave threads: elsewhere the operations are critical sections. Connecting and upgrading to TLS are left out of the stream
  socket, and its runs are verified for a socket without rate limiters. \<open>CallbackState::reset\<close> is not a step of the threads that share a
  callback state; the destructor of a strand and functions that run another strand inline are left out. IPv6 addresses, endpoints and URIs, the queues of connect and bind operations,
  ASN.1, and the datagram, listener and proactor sockets repeat
  structures modelled here and are left to later extensions. The theorems on timers are
  for timers without a backoff and for times of at most \<open>k_TIME_BOUND\<close>, about 146000 years, below which the sum of a deadline and
  a period fits in 64 bits; \<open>clear\<close> and \<open>clearTimers\<close> occur in their runs only while no timer is scheduled, because of the handles they leave;
  the functions handed to the strand of a session, the memory pools and the operating system side of the
  interruptor are left out. Drivers, system calls and plugins are bindings to other
  code, and the DNS client, cache and databases are built on timers and generated lexers.
\<close>

end
